(* ===== verification/Prelude.thy ===== *)
theory Prelude
  imports Main "HOL-Library.Word"
begin

unbundle bit_operations_syntax

text \<open>
  Shared vocabulary of the development.

  Go's sized integers are words (\<open>u8\<close> .. \<open>u64\<close>), so their arithmetic wraps as Go's does.
  Go's \<open>int\<close> and \<open>int64\<close> are HOL integers; where a value read from a disk can overflow one
  of them, the wrap-around is written out with \<open>wrap64\<close>.  A byte slice is a list of \<open>u8\<close>.

  An error return is a value of \<open>goerr\<close>; a fallible pure function returns \<open>'a res\<close>, which is
  \<open>goerr + 'a\<close>; a fallible operation on a state \<open>'s\<close> returns its result together with the
  state it leaves, also on its error paths (\<open>('s, 'a) sop\<close>).  A run-time panic (slice bounds,
  index, division by zero) is the error \<open>Panic\<close>; a loop of the code that never ends is the
  error \<open>Diverge\<close>.
\<close>

subsection \<open>Types\<close>

type_synonym u8 = "8 word"
type_synonym u16 = "16 word"
type_synonym u32 = "32 word"
type_synonym u64 = "64 word"
type_synonym bytes = "u8 list"

datatype goerr =
    EOF                    \<comment> \<open>\<open>io.EOF\<close>\<close>
  | ErrClosed              \<comment> \<open>\<open>os.ErrClosed\<close>: use of a closed file\<close>
  | ErrNegOffset           \<comment> \<open>\<open>ReadAt\<close>/\<open>WriteAt\<close> with a negative offset\<close>
  | Err string             \<comment> \<open>\<open>fmt.Errorf\<close> with a message of its own\<close>
  | Wrapped string goerr   \<comment> \<open>\<open>fmt.Errorf\<close> with \<open>%w\<close>\<close>
  | Panic string           \<comment> \<open>a Go run-time panic\<close>
  | Diverge                \<comment> \<open>the call does not return\<close>

type_synonym 'a res = "goerr + 'a"
type_synonym ('s, 'a) sop = "'s \<Rightarrow> 'a res \<times> 's"

subsection \<open>Collections of facts\<close>

named_theorems res_simps \<open>rewriting of results and of state operations\<close>
named_theorems byte_simps \<open>lengths, slices and updates of byte buffers\<close>
named_theorems codec_simps \<open>integer encodings read back from the place they were written to\<close>

subsection \<open>Results\<close>

definition bindR :: "'a res \<Rightarrow> ('a \<Rightarrow> 'b res) \<Rightarrow> 'b res" where
  "bindR m k = (case m of Inl e \<Rightarrow> Inl e | Inr a \<Rightarrow> k a)"

text \<open>\<open>fmt.Errorf("msg: %w", err)\<close> around a failing call.\<close>

definition wrapR :: "string \<Rightarrow> 'a res \<Rightarrow> 'a res" where
  "wrapR msg m = (case m of Inl e \<Rightarrow> Inl (Wrapped msg e) | Inr a \<Rightarrow> Inr a)"

text \<open>A slice expression or an index outside its buffer.\<close>

definition bounds_panic :: "'a res" where
  "bounds_panic = Inl (Panic ''slice bounds out of range'')"

definition guardR :: "bool \<Rightarrow> goerr \<Rightarrow> unit res" where
  "guardR b e = (if b then Inr () else Inl e)"

lemma bindR_simps [simp, res_simps]:
  "bindR (Inl e) k = Inl e"
  "bindR (Inr a) k = k a"
  by (simp_all add: bindR_def)

lemma wrapR_simps [simp, res_simps]:
  "wrapR s (Inl e) = Inl (Wrapped s e)"
  "wrapR s (Inr a) = Inr a"
  by (simp_all add: wrapR_def)

lemma guardR_simps [simp, res_simps]:
  "guardR True e = Inr ()"
  "guardR False e = Inl e"
  by (simp_all add: guardR_def)

lemma bindR_eq_Inr [simp]:
  "bindR m k = Inr b \<longleftrightarrow> (\<exists>a. m = Inr a \<and> k a = Inr b)"
  by (cases m) auto

lemma wrapR_eq_Inr [simp]: "wrapR s m = Inr b \<longleftrightarrow> m = Inr b"
  by (cases m) auto

lemma guardR_eq_Inr [simp]: "guardR b e = Inr u \<longleftrightarrow> b"
  by (cases b) auto

lemma bindR_cong [fundef_cong]:
  "m = m' \<Longrightarrow> (\<And>a. m' = Inr a \<Longrightarrow> k a = k' a) \<Longrightarrow> bindR m k = bindR m' k'"
  by (cases m') auto

subsection \<open>State operations\<close>

definition retS :: "'a \<Rightarrow> ('s, 'a) sop" where
  "retS a s = (Inr a, s)"

definition failS :: "goerr \<Rightarrow> ('s, 'a) sop" where
  "failS e s = (Inl e, s)"

definition bindS :: "('s, 'a) sop \<Rightarrow> ('a \<Rightarrow> ('s, 'b) sop) \<Rightarrow> ('s, 'b) sop" where
  "bindS m k s = (case m s of (r, s') \<Rightarrow> (case r of Inl e \<Rightarrow> (Inl e, s') | Inr a \<Rightarrow> k a s'))"

text \<open>A read-only computation, and a change of the state that cannot fail.\<close>

definition readS :: "('s \<Rightarrow> 'a res) \<Rightarrow> ('s, 'a) sop" where
  "readS f s = (f s, s)"

definition modS :: "('s \<Rightarrow> 's) \<Rightarrow> ('s, unit) sop" where
  "modS f s = (Inr (), f s)"

text \<open>A fallible change of the state; on an error the state stays as it was.\<close>

definition updS :: "('s \<Rightarrow> 's res) \<Rightarrow> ('s, unit) sop" where
  "updS f s = (case f s of Inl e \<Rightarrow> (Inl e, s) | Inr s' \<Rightarrow> (Inr (), s'))"

lemma retS_eq [simp, res_simps]: "retS a s = (r, s') \<longleftrightarrow> r = Inr a \<and> s' = s"
  by (auto simp: retS_def)

lemma failS_eq [simp, res_simps]: "failS e s = (r, s') \<longleftrightarrow> r = Inl e \<and> s' = s"
  by (auto simp: failS_def)

lemma readS_eq [simp, res_simps]: "readS f s = (r, s') \<longleftrightarrow> r = f s \<and> s' = s"
  by (auto simp: readS_def)

lemma modS_eq [simp, res_simps]: "modS f s = (r, s') \<longleftrightarrow> r = Inr () \<and> s' = f s"
  by (auto simp: modS_def)

lemma updS_Inr [simp, res_simps]: "updS f s = (Inr u, s') \<longleftrightarrow> f s = Inr s'"
  by (auto simp: updS_def split: sum.splits)

lemma bindS_Inr [simp, res_simps]:
  "bindS m k s = (Inr b, s') \<longleftrightarrow> (\<exists>a t. m s = (Inr a, t) \<and> k a t = (Inr b, s'))"
  by (auto simp: bindS_def split: prod.splits sum.splits)

lemma bindS_eval:
  "m s = (Inr a, t) \<Longrightarrow> bindS m k s = k a t"
  "m s = (Inl e, t) \<Longrightarrow> bindS m k s = (Inl e, t)"
  by (simp_all add: bindS_def)

lemma bindS_cases:
  assumes "bindS m k s = (r, s')"
  obtains (err) e where "m s = (Inl e, s')" "r = Inl e"
    | (ok) a t where "m s = (Inr a, t)" "k a t = (r, s')"
  using assms by (auto simp: bindS_def split: prod.splits sum.splits)

text \<open>
  A property of states that every part of a sequence keeps is kept by the sequence, on its
  error paths too.
\<close>

definition keeps :: "('s \<Rightarrow> bool) \<Rightarrow> ('s, 'a) sop \<Rightarrow> bool" where
  "keeps P m \<longleftrightarrow> (\<forall>s. P s \<longrightarrow> P (snd (m s)))"

lemma keepsI [intro?]: "(\<And>s. P s \<Longrightarrow> P (snd (m s))) \<Longrightarrow> keeps P m"
  by (simp add: keeps_def)

lemma keepsD: "keeps P m \<Longrightarrow> P s \<Longrightarrow> m s = (r, s') \<Longrightarrow> P s'"
  by (metis keeps_def snd_conv)

lemma keeps_bindS [intro]:
  "keeps P m \<Longrightarrow> (\<And>a. keeps P (k a)) \<Longrightarrow> keeps P (bindS m k)"
  unfolding keeps_def bindS_def
  by (simp split: prod.splits sum.splits) (metis snd_conv)

lemma keeps_basic [simp, intro]:
  "keeps P (retS a)" "keeps P (failS e)" "keeps P (readS f)"
  by (simp_all add: keeps_def retS_def failS_def readS_def)

lemma keeps_modS [intro]: "(\<And>s. P s \<Longrightarrow> P (f s)) \<Longrightarrow> keeps P (modS f)"
  by (simp add: keeps_def modS_def)

lemma keeps_updS [intro]: "(\<And>s s'. P s \<Longrightarrow> f s = Inr s' \<Longrightarrow> P s') \<Longrightarrow> keeps P (updS f)"
  by (auto simp: keeps_def updS_def split: sum.splits)

text \<open>A loop over a list.\<close>

fun for_each :: "('a \<Rightarrow> ('s, unit) sop) \<Rightarrow> 'a list \<Rightarrow> ('s, unit) sop" where
  "for_each g [] = retS ()"
| "for_each g (x # xs) = bindS (g x) (\<lambda>_. for_each g xs)"

text \<open>
  Code that looks at an error and goes on (\<open>if err != nil { ... }\<close> without a return) sees the errors
  that functions return, not panics and not calls that do not return.
\<close>

fun crash :: "goerr \<Rightarrow> bool" where
  "crash (Panic _) = True"
| "crash Diverge = True"
| "crash _ = False"

definition tryS :: "('s, 'a) sop \<Rightarrow> ('a res \<Rightarrow> ('s, 'b) sop) \<Rightarrow> ('s, 'b) sop" where
  "tryS m k s = (case m s of
     (Inl e, s') \<Rightarrow> if crash e then (Inl e, s') else k (Inl e) s'
   | (Inr a, s') \<Rightarrow> k (Inr a) s')"

text \<open>\<open>fmt.Errorf("msg: %w", err)\<close> around the result of an operation.\<close>

definition wrapS :: "string \<Rightarrow> ('s, 'a) sop \<Rightarrow> ('s, 'a) sop" where
  "wrapS msg m s = (case m s of
     (Inl e, s') \<Rightarrow> (Inl (if crash e then e else Wrapped msg e), s') | (Inr a, s') \<Rightarrow> (Inr a, s'))"

lemma wrapS_Inr [simp, res_simps]: "wrapS msg m s = (Inr a, s') \<longleftrightarrow> m s = (Inr a, s')"
  by (auto simp: wrapS_def split: prod.splits sum.splits)

lemma tryS_eval:
  "m s = (Inr a, t) \<Longrightarrow> tryS m k s = k (Inr a) t"
  "m s = (Inl e, t) \<Longrightarrow> \<not> crash e \<Longrightarrow> tryS m k s = k (Inl e) t"
  "m s = (Inl e, t) \<Longrightarrow> crash e \<Longrightarrow> tryS m k s = (Inl e, t)"
  by (simp_all add: tryS_def)

lemma keeps_tryS [intro]: "keeps P m \<Longrightarrow> (\<And>r. keeps P (k r)) \<Longrightarrow> keeps P (tryS m k)"
proof
  fix s assume "keeps P m" "\<And>r. keeps P (k r)" "P s"
  moreover obtain r t where "m s = (r, t)" by fastforce
  ultimately show "P (snd (tryS m k s))" by (cases r) (auto simp: tryS_def keeps_def dest: spec [of _ s])
qed

lemma keeps_wrapS [intro]: "keeps P m \<Longrightarrow> keeps P (wrapS msg m)"
proof
  fix s assume "keeps P m" "P s"
  moreover obtain r t where "m s = (r, t)" by fastforce
  ultimately show "P (snd (wrapS msg m s))" by (cases r) (auto simp: wrapS_def keeps_def dest: spec [of _ s])
qed

subsection \<open>64-bit signed arithmetic\<close>

text \<open>The value an \<open>int64\<close> holds after an operation whose exact result is \<open>x\<close>.\<close>

definition wrap64 :: "int \<Rightarrow> int" where
  "wrap64 x = (x + 2 ^ 63) mod 2 ^ 64 - 2 ^ 63"

lemma wrap64_id [simp]: "- (2 ^ 63) \<le> x \<Longrightarrow> x < 2 ^ 63 \<Longrightarrow> wrap64 x = x"
  by (simp add: wrap64_def)

lemma wrap64_range: "- (2 ^ 63) \<le> wrap64 x \<and> wrap64 x < 2 ^ 63"
proof -
  have "0 \<le> (x + 2 ^ 63) mod 2 ^ 64" "(x + 2 ^ 63) mod 2 ^ 64 < (2 ^ 64 :: int)"
    by simp_all
  then show ?thesis by (simp add: wrap64_def)
qed

text \<open>Go's \<open>/\<close> and \<open>%\<close> on signed integers truncate towards zero.\<close>

definition quot :: "int \<Rightarrow> int \<Rightarrow> int" where
  "quot a b = sgn a * sgn b * (\<bar>a\<bar> div \<bar>b\<bar>)"

lemma quot_pos [simp]: "0 \<le> a \<Longrightarrow> 0 < b \<Longrightarrow> quot a b = a div b"
  by (cases "a = 0") (simp_all add: quot_def)

end
