(* ===== verification/GoBytes.thy ===== *)
theory GoBytes
  imports Prelude
begin

text \<open>
  Byte buffers: sub-slices, Go's built-in \<open>copy\<close>, zeroed buffers, and the integer encodings
  of \<open>encoding/binary\<close>.  \<open>sub b off n\<close> is \<open>b[off:off+n]\<close>, \<open>copy_into b off s\<close> is the buffer
  after \<open>copy(b[off:], s)\<close>.  The locale \<open>codec\<close> states what a fixed-width integer encoding
  promises; the reads and writes of every width are instances of it, and the facts its clients
  use (reading back a field, writes to other fields) are proved once there.
\<close>

subsection \<open>Slices and copies\<close>

definition sub :: "'a list \<Rightarrow> nat \<Rightarrow> nat \<Rightarrow> 'a list" where
  "sub b off n = take n (drop off b)"

definition copy_into :: "'a list \<Rightarrow> nat \<Rightarrow> 'a list \<Rightarrow> 'a list" where
  "copy_into b off s = take off b @ take (length b - off) s @ drop (off + length s) b"

definition zeros :: "nat \<Rightarrow> bytes" where
  "zeros n = replicate n 0"

lemma length_sub [simp, byte_simps]: "length (sub b off n) = min n (length b - off)"
  by (simp add: sub_def)

lemma nth_sub [simp, byte_simps]: "i < n \<Longrightarrow> off + i < length b \<Longrightarrow> sub b off n ! i = b ! (off + i)"
  by (simp add: sub_def)

lemma length_zeros [simp, byte_simps]: "length (zeros n) = n"
  by (simp add: zeros_def)

lemma zeros_0 [simp, byte_simps]: "zeros 0 = []"
  by (simp add: zeros_def)

lemma nth_zeros [simp, byte_simps]: "i < n \<Longrightarrow> zeros n ! i = 0"
  by (simp add: zeros_def)

lemma length_copy_into [simp, byte_simps]: "length (copy_into b off s) = length b"
  by (simp add: copy_into_def)

lemma nth_copy_into:
  "i < length b \<Longrightarrow>
   copy_into b off s ! i = (if off \<le> i \<and> i < off + length s then s ! (i - off) else b ! i)"
  by (auto simp: copy_into_def nth_append min_def)

lemma nth_copy_into_in [simp, byte_simps]:
  "off \<le> i \<Longrightarrow> i < off + length s \<Longrightarrow> i < length b \<Longrightarrow> copy_into b off s ! i = s ! (i - off)"
  by (simp add: nth_copy_into)

lemma nth_copy_into_out [simp, byte_simps]:
  "i < off \<or> off + length s \<le> i \<Longrightarrow> i < length b \<Longrightarrow> copy_into b off s ! i = b ! i"
  by (auto simp: nth_copy_into)

lemma sub_eqI:
  "off + n \<le> length b \<Longrightarrow> length xs = n \<Longrightarrow> (\<And>i. i < n \<Longrightarrow> b ! (off + i) = xs ! i) \<Longrightarrow>
   sub b off n = xs"
  by (auto intro!: nth_equalityI)

lemma sub_copy_same [simp, byte_simps]:
  "length s = n \<Longrightarrow> off + n \<le> length b \<Longrightarrow> sub (copy_into b off s) off n = s"
  by (rule sub_eqI) auto

lemma sub_copy_other [byte_simps]:
  "o' + n \<le> off \<or> off + length s \<le> o' \<Longrightarrow> o' + n \<le> length b \<Longrightarrow>
   sub (copy_into b off s) o' n = sub b o' n"
  by (rule sub_eqI) auto

lemma sub_copy_inner [byte_simps]:
  "off \<le> o' \<Longrightarrow> o' + n \<le> off + length s \<Longrightarrow> off + length s \<le> length b \<Longrightarrow>
   sub (copy_into b off s) o' n = sub s (o' - off) n"
  by (rule sub_eqI) auto

lemma sub_sub [byte_simps]: "o' + n' \<le> n \<Longrightarrow> sub (sub b off n) o' n' = sub b (off + o') n'"
  by (simp add: sub_def take_drop min_def add.commute add.left_commute)

lemma sub_zeros [simp, byte_simps]: "off + n \<le> m \<Longrightarrow> sub (zeros m) off n = zeros n"
  by (simp add: sub_def zeros_def)

lemma sub_all [simp]: "length b \<le> n \<Longrightarrow> sub b 0 n = b"
  by (simp add: sub_def)

lemma sub_zero_len [simp]: "sub b off 0 = []"
  by (simp add: sub_def)

lemma copy_into_nil [simp]: "copy_into b off [] = b"
  by (simp add: copy_into_def)

lemma copy_into_all [simp]: "length s = length b \<Longrightarrow> copy_into b 0 s = s"
  by (simp add: copy_into_def)

lemma copy_into_sub_eq:
  "copy_into b off (sub b off n) = b"
  by (rule nth_equalityI) (auto simp: nth_copy_into)

lemma copy_into_commute:
  "off + length s \<le> o' \<or> o' + length s' \<le> off \<Longrightarrow>
   copy_into (copy_into b off s) o' s' = copy_into (copy_into b o' s') off s"
  by (rule nth_equalityI) (auto simp: nth_copy_into)

lemma copy_into_twice [simp]:
  "length s' = length s \<Longrightarrow> copy_into (copy_into b off s) off s' = copy_into b off s'"
  by (rule nth_equalityI) (auto simp: nth_copy_into)

lemma copy_into_append: "copy_into (copy_into b off x) (off + length x) y = copy_into b off (x @ y)"
  by (rule nth_equalityI) (auto simp: nth_copy_into nth_append)

lemma drop_as_sub: "drop off b = sub b off (length b - off)"
  by (simp add: sub_def)

subsection \<open>Encodings of \<open>encoding/binary\<close>\<close>

definition le16 :: "u16 \<Rightarrow> bytes" where
  "le16 v = [ucast v, ucast (drop_bit 8 v)]"

definition le32 :: "u32 \<Rightarrow> bytes" where
  "le32 v = [ucast v, ucast (drop_bit 8 v), ucast (drop_bit 16 v), ucast (drop_bit 24 v)]"

definition le64 :: "u64 \<Rightarrow> bytes" where
  "le64 v = [ucast v, ucast (drop_bit 8 v), ucast (drop_bit 16 v), ucast (drop_bit 24 v),
             ucast (drop_bit 32 v), ucast (drop_bit 40 v), ucast (drop_bit 48 v),
             ucast (drop_bit 56 v)]"

definition be32 :: "u32 \<Rightarrow> bytes" where
  "be32 v = rev (le32 v)"

text \<open>\<open>binary.LittleEndian.Uint16(b[off:])\<close> and its kin, where the bytes are there.\<close>

definition get16 :: "bytes \<Rightarrow> nat \<Rightarrow> u16" where
  "get16 b off = ucast (b ! off) OR push_bit 8 (ucast (b ! (off + 1)))"

definition get32 :: "bytes \<Rightarrow> nat \<Rightarrow> u32" where
  "get32 b off = ucast (b ! off) OR push_bit 8 (ucast (b ! (off + 1))) OR
     push_bit 16 (ucast (b ! (off + 2))) OR push_bit 24 (ucast (b ! (off + 3)))"

definition get64 :: "bytes \<Rightarrow> nat \<Rightarrow> u64" where
  "get64 b off = ucast (b ! off) OR push_bit 8 (ucast (b ! (off + 1))) OR
     push_bit 16 (ucast (b ! (off + 2))) OR push_bit 24 (ucast (b ! (off + 3))) OR
     push_bit 32 (ucast (b ! (off + 4))) OR push_bit 40 (ucast (b ! (off + 5))) OR
     push_bit 48 (ucast (b ! (off + 6))) OR push_bit 56 (ucast (b ! (off + 7)))"

definition get32be :: "bytes \<Rightarrow> nat \<Rightarrow> u32" where
  "get32be b off = get32 (rev (sub b off 4)) 0"

definition put16 :: "bytes \<Rightarrow> nat \<Rightarrow> u16 \<Rightarrow> bytes" where
  "put16 b off v = copy_into b off (le16 v)"

definition put32 :: "bytes \<Rightarrow> nat \<Rightarrow> u32 \<Rightarrow> bytes" where
  "put32 b off v = copy_into b off (le32 v)"

definition put64 :: "bytes \<Rightarrow> nat \<Rightarrow> u64 \<Rightarrow> bytes" where
  "put64 b off v = copy_into b off (le64 v)"

definition put8 :: "bytes \<Rightarrow> nat \<Rightarrow> u8 \<Rightarrow> bytes" where
  "put8 b off v = b[off := v]"

lemma length_enc [simp, byte_simps]:
  "length (le16 v) = 2" "length (le32 w) = 4" "length (le64 x) = 8" "length (be32 w) = 4"
  by (simp_all add: le16_def le32_def le64_def be32_def)

lemma length_put [simp, byte_simps]:
  "length (put16 b off v) = length b" "length (put32 b off w) = length b"
  "length (put64 b off x) = length b" "length (put8 b off y) = length b"
  by (simp_all add: put16_def put32_def put64_def put8_def)

lemma get16_le16: "get16 (le16 v) 0 = v"
  by (rule bit_word_eqI) (auto simp: get16_def le16_def bit_simps)

text \<open>A byte of a value, put back in its place, is the value masked to that byte.\<close>

lemma bit_byte_of:
  fixes v :: "'n::len word"
  shows "bit (push_bit k (ucast (ucast (drop_bit k v) :: u8)) :: 'n word) n \<longleftrightarrow>
    k \<le> n \<and> n < k + 8 \<and> bit v n"
proof (cases "k \<le> n")
  case True
  then obtain m where "n = k + m" by (auto simp: le_iff_add)
  then show ?thesis by (auto simp: bit_simps dest: bit_imp_le_length)
next
  case False
  then show ?thesis by (auto simp: bit_simps)
qed

lemma bit_byte_of_0:
  fixes v :: "'n::len word"
  shows "bit (ucast (ucast v :: u8) :: 'n word) n \<longleftrightarrow> n < 8 \<and> bit v n"
  using bit_byte_of [of 0 v n] by simp

lemma get32_le32: "get32 (le32 v) 0 = v"
proof (rule bit_word_eqI)
  fix n assume "n < LENGTH(32)"
  then have "n < 8 \<or> 8 \<le> n \<and> n < 16 \<or> 16 \<le> n \<and> n < 24 \<or> 24 \<le> n \<and> n < 32" by auto
  then show "bit (get32 (le32 v) 0) n = bit v n"
    by (auto simp: get32_def le32_def bit_or_iff bit_byte_of bit_byte_of_0)
qed

lemma get64_le64: "get64 (le64 v) 0 = v"
proof (rule bit_word_eqI)
  fix n assume "n < LENGTH(64)"
  then have "n < 8 \<or> 8 \<le> n \<and> n < 16 \<or> 16 \<le> n \<and> n < 24 \<or> 24 \<le> n \<and> n < 32 \<or>
    32 \<le> n \<and> n < 40 \<or> 40 \<le> n \<and> n < 48 \<or> 48 \<le> n \<and> n < 56 \<or> 56 \<le> n \<and> n < 64" by auto
  then show "bit (get64 (le64 v) 0) n = bit v n"
    by (auto simp: get64_def le64_def bit_or_iff bit_byte_of bit_byte_of_0)
qed

subsection \<open>The contract of a fixed-width encoding\<close>

locale codec =
  fixes enc :: "'v \<Rightarrow> bytes"
    and get :: "bytes \<Rightarrow> nat \<Rightarrow> 'v"
    and width :: nat
  assumes length_codec: "length (enc v) = width"
    and get_enc: "get (enc v) 0 = v"
    and get_local: "off + width \<le> length b \<Longrightarrow> get b off = get (sub b off width) 0"
begin

lemma get_put_same: "off + width \<le> length b \<Longrightarrow> get (copy_into b off (enc v)) off = v"
  by (subst get_local) (simp_all add: length_codec get_enc)

lemma get_append:
  assumes "length p \<le> off" "off + width \<le> length (p @ q)"
  shows "get (p @ q) off = get q (off - length p)"
  using assms by (simp add: get_local [of off "p @ q"] get_local [of "off - length p" q] sub_def)

lemma get_append_enc: "get (enc v @ q) 0 = v"
  using length_codec [of v] by (simp add: get_local [of 0 "enc v @ q"] sub_def get_enc)

lemma get_Cons: "0 < off \<Longrightarrow> off + width \<le> Suc (length q) \<Longrightarrow> get (x # q) off = get q (off - 1)"
  using get_append [of "[x]" off q] by simp

lemma get_copy_other:
  assumes "off + width \<le> o' \<or> o' + length s \<le> off" "off + width \<le> length b"
  shows "get (copy_into b o' s) off = get b off"
  using assms by (simp add: get_local [of off "copy_into b o' s"] get_local [of off b] sub_copy_other)

lemma get_sub: "off' + width \<le> n \<Longrightarrow> off + n \<le> length b \<Longrightarrow> get (sub b off n) off' = get b (off + off')"
  by (simp add: get_local [of off' "sub b off n"] get_local [of "off + off'" b] sub_sub)

lemma get_copy_inner:
  assumes "o' \<le> off" "off + width \<le> o' + length s" "o' + length s \<le> length b"
  shows "get (copy_into b o' s) off = get s (off - o')"
  using assms
  by (simp add: get_local [of off "copy_into b o' s"] get_local [of "off - o'" s] sub_copy_inner)

lemma get_upd_other:
  assumes "off + width \<le> i \<or> i < off" "off + width \<le> length b"
  shows "get (b[i := x]) off = get b off"
proof -
  have "sub (b[i := x]) off width = sub b off width"
    using assms by (intro nth_equalityI) (auto simp: nth_list_update)
  then show ?thesis using assms by (simp add: get_local [of off b] get_local [of off "b[i := x]"])
qed

lemma enc_inj: "enc v = enc w \<Longrightarrow> v = w"
  by (metis get_enc)

end

interpretation c16: codec le16 get16 2
  by unfold_locales (simp_all add: get16_le16, simp add: get16_def)

interpretation c32: codec le32 get32 4
  by unfold_locales (simp_all add: get32_le32, simp add: get32_def)

interpretation c64: codec le64 get64 8
  by unfold_locales (simp_all add: get64_le64, simp add: get64_def)

interpretation c32be: codec be32 get32be 4
proof
  show "length (be32 v) = 4" for v by simp
  show "get32be (be32 v) 0 = v" for v
    by (simp add: get32be_def be32_def get32_le32)
  show "get32be b off = get32be (sub b off 4) 0" if "off + 4 \<le> length b" for b off
    using that by (simp add: get32be_def sub_sub)
qed

text \<open>Reads of a field after writes of this and of other fields.\<close>

lemma put_get_same [simp, codec_simps]:
  "off + 2 \<le> length b \<Longrightarrow> get16 (put16 b off v) off = v"
  "off + 4 \<le> length b \<Longrightarrow> get32 (put32 b off w) off = w"
  "off + 8 \<le> length b \<Longrightarrow> get64 (put64 b off x) off = x"
  by (simp_all add: put16_def put32_def put64_def c16.get_put_same c32.get_put_same c64.get_put_same)

lemma get16_other [codec_simps]:
  "off + 2 \<le> length b \<Longrightarrow> off + 2 \<le> o' \<or> o' + 2 \<le> off \<Longrightarrow> get16 (put16 b o' v) off = get16 b off"
  "off + 2 \<le> length b \<Longrightarrow> off + 2 \<le> o' \<or> o' + 4 \<le> off \<Longrightarrow> get16 (put32 b o' w) off = get16 b off"
  "off + 2 \<le> length b \<Longrightarrow> off + 2 \<le> o' \<or> o' + 8 \<le> off \<Longrightarrow> get16 (put64 b o' x) off = get16 b off"
  "off + 2 \<le> length b \<Longrightarrow> off + 2 \<le> o' \<or> o' + 1 \<le> off \<Longrightarrow> get16 (put8 b o' y) off = get16 b off"
  "off + 2 \<le> length b \<Longrightarrow> off + 2 \<le> o' \<or> o' + length s \<le> off \<Longrightarrow> get16 (copy_into b o' s) off = get16 b off"
  by (simp_all add: put16_def put32_def put64_def put8_def c16.get_copy_other c16.get_upd_other Suc_le_eq)

lemma get32_other [codec_simps]:
  "off + 4 \<le> length b \<Longrightarrow> off + 4 \<le> o' \<or> o' + 2 \<le> off \<Longrightarrow> get32 (put16 b o' v) off = get32 b off"
  "off + 4 \<le> length b \<Longrightarrow> off + 4 \<le> o' \<or> o' + 4 \<le> off \<Longrightarrow> get32 (put32 b o' w) off = get32 b off"
  "off + 4 \<le> length b \<Longrightarrow> off + 4 \<le> o' \<or> o' + 8 \<le> off \<Longrightarrow> get32 (put64 b o' x) off = get32 b off"
  "off + 4 \<le> length b \<Longrightarrow> off + 4 \<le> o' \<or> o' + 1 \<le> off \<Longrightarrow> get32 (put8 b o' y) off = get32 b off"
  "off + 4 \<le> length b \<Longrightarrow> off + 4 \<le> o' \<or> o' + length s \<le> off \<Longrightarrow> get32 (copy_into b o' s) off = get32 b off"
  by (simp_all add: put16_def put32_def put64_def put8_def c32.get_copy_other c32.get_upd_other Suc_le_eq)

lemma get64_other [codec_simps]:
  "off + 8 \<le> length b \<Longrightarrow> off + 8 \<le> o' \<or> o' + 2 \<le> off \<Longrightarrow> get64 (put16 b o' v) off = get64 b off"
  "off + 8 \<le> length b \<Longrightarrow> off + 8 \<le> o' \<or> o' + 4 \<le> off \<Longrightarrow> get64 (put32 b o' w) off = get64 b off"
  "off + 8 \<le> length b \<Longrightarrow> off + 8 \<le> o' \<or> o' + 8 \<le> off \<Longrightarrow> get64 (put64 b o' x) off = get64 b off"
  "off + 8 \<le> length b \<Longrightarrow> off + 8 \<le> o' \<or> o' + 1 \<le> off \<Longrightarrow> get64 (put8 b o' y) off = get64 b off"
  "off + 8 \<le> length b \<Longrightarrow> off + 8 \<le> o' \<or> o' + length s \<le> off \<Longrightarrow> get64 (copy_into b o' s) off = get64 b off"
  by (simp_all add: put16_def put32_def put64_def put8_def c64.get_copy_other c64.get_upd_other Suc_le_eq)

lemma nth_put_other [codec_simps]:
  "i < length b \<Longrightarrow> i < off \<or> off + 2 \<le> i \<Longrightarrow> put16 b off v ! i = b ! i"
  "i < length b \<Longrightarrow> i < off \<or> off + 4 \<le> i \<Longrightarrow> put32 b off w ! i = b ! i"
  "i < length b \<Longrightarrow> i < off \<or> off + 8 \<le> i \<Longrightarrow> put64 b off x ! i = b ! i"
  "i < length b \<Longrightarrow> put8 b off y ! i = (if i = off then y else b ! i)"
  by (auto simp: put16_def put32_def put64_def put8_def nth_list_update)

lemma sub_put_other [codec_simps]:
  "o' + n \<le> off \<or> off + 2 \<le> o' \<Longrightarrow> o' + n \<le> length b \<Longrightarrow> sub (put16 b off v) o' n = sub b o' n"
  "o' + n \<le> off \<or> off + 4 \<le> o' \<Longrightarrow> o' + n \<le> length b \<Longrightarrow> sub (put32 b off w) o' n = sub b o' n"
  "o' + n \<le> off \<or> off + 8 \<le> o' \<Longrightarrow> o' + n \<le> length b \<Longrightarrow> sub (put64 b off x) o' n = sub b o' n"
  "o' + n \<le> off \<or> off + 1 \<le> o' \<Longrightarrow> o' + n \<le> length b \<Longrightarrow> sub (put8 b off y) o' n = sub b o' n"
  by (auto simp: put16_def put32_def put64_def put8_def sub_copy_other intro!: sub_eqI)

end
