(* ===== verification/GoFile.thy ===== *)
theory GoFile
  imports GoBytes
begin

text \<open>
  The files the program works on.  A \<open>gofile\<close> is an \<open>*os.File\<close> open for reading and writing:
  its bytes, and whether it has been closed.  \<open>ReadAt\<close> and \<open>WriteAt\<close> follow the documented
  behaviour of \<open>os.File\<close> (short reads end in \<open>io.EOF\<close>, writes past the end extend the file
  with zeros, a closed file fails, an empty transfer does nothing); failures of the device are
  not modelled.  \<open>section_reader\<close> is \<open>io.SectionReader\<close>.

  The locale \<open>store\<close> is the contract of a byte store that the file model keeps; its lemmas are
  about sequences of writes, which is what flushing, formatting and building an image do.
\<close>

subsection \<open>Files\<close>

record gofile =
  contents :: bytes
  closed :: bool

definition write_bytes :: "bytes \<Rightarrow> nat \<Rightarrow> bytes \<Rightarrow> bytes" where
  "write_bytes c off d =
     (if d = [] then c else copy_into (c @ zeros (off + length d - length c)) off d)"

text \<open>The bytes read and the error, as \<open>ReadAt\<close> returns them.\<close>

definition ReadAt :: "gofile \<Rightarrow> nat \<Rightarrow> int \<Rightarrow> bytes \<times> goerr option" where
  "ReadAt f n off =
     (if off < 0 then ([], Some ErrNegOffset)
      else if n = 0 then ([], None)
      else if closed f then ([], Some ErrClosed)
      else let d = sub (contents f) (nat off) n
           in (d, if length d < n then Some EOF else None))"

definition WriteAt :: "gofile \<Rightarrow> bytes \<Rightarrow> int \<Rightarrow> unit res \<times> gofile" where
  "WriteAt f d off =
     (if off < 0 then (Inl ErrNegOffset, f)
      else if d = [] then (Inr (), f)
      else if closed f then (Inl ErrClosed, f)
      else (Inr (), f\<lparr>contents := write_bytes (contents f) (nat off) d\<rparr>))"

definition Close :: "gofile \<Rightarrow> unit res \<times> gofile" where
  "Close f = (if closed f then (Inl ErrClosed, f) else (Inr (), f\<lparr>closed := True\<rparr>))"

definition Truncate :: "gofile \<Rightarrow> nat \<Rightarrow> gofile" where
  "Truncate f n = f\<lparr>contents := take n (contents f) @ zeros (n - length (contents f))\<rparr>"

text \<open>The idiom \<open>if _, err := r.ReadAt(buf, off); err != nil { return err }\<close>.\<close>

definition full :: "bytes \<times> goerr option \<Rightarrow> bytes res" where
  "full r = (case snd r of None \<Rightarrow> Inr (fst r) | Some e \<Rightarrow> Inl e)"

definition file_size :: "gofile \<Rightarrow> int" where
  "file_size f = int (length (contents f))"

text \<open>A sequence of \<open>WriteAt\<close> calls that stops at the first error.\<close>

fun write_seq :: "(bytes \<times> int) list \<Rightarrow> gofile \<Rightarrow> unit res \<times> gofile" where
  "write_seq [] f = (Inr (), f)"
| "write_seq ((d, off) # ws) f =
     (case WriteAt f d off of (Inl e, f') \<Rightarrow> (Inl e, f') | (Inr _, f') \<Rightarrow> write_seq ws f')"

subsection \<open>\<open>io.SectionReader\<close>\<close>

record section_reader =
  sec_base :: int
  sec_limit :: int

definition NewSectionReader :: "int \<Rightarrow> int \<Rightarrow> section_reader" where
  "NewSectionReader off n =
     \<lparr>sec_base = off, sec_limit = (if off \<le> 2 ^ 63 - 1 - n then n + off else 2 ^ 63 - 1)\<rparr>"

definition sec_size :: "section_reader \<Rightarrow> int" where
  "sec_size s = sec_limit s - sec_base s"

definition SecReadAt :: "gofile \<Rightarrow> section_reader \<Rightarrow> nat \<Rightarrow> int \<Rightarrow> bytes \<times> goerr option" where
  "SecReadAt f s n off =
     (if off < 0 \<or> sec_size s \<le> off then ([], Some EOF)
      else let off' = off + sec_base s; mx = sec_limit s - off'
           in if mx < int n
              then (case ReadAt f (nat mx) off' of (d, e) \<Rightarrow>
                      (d, case e of None \<Rightarrow> Some EOF | Some x \<Rightarrow> Some x))
              else ReadAt f n off')"

subsection \<open>The contract of a byte store\<close>

locale store =
  fixes rd :: "'s \<Rightarrow> nat \<Rightarrow> nat \<Rightarrow> bytes"
    and wr :: "'s \<Rightarrow> nat \<Rightarrow> bytes \<Rightarrow> 's"
    and len :: "'s \<Rightarrow> nat"
  assumes rd_wr_same: "rd (wr s off d) off (length d) = d"
    and rd_wr_other: "o' + n \<le> off \<or> off + length d \<le> o' \<Longrightarrow> o' + n \<le> len s \<Longrightarrow>
          rd (wr s off d) o' n = rd s o' n"
    and len_wr: "len (wr s off d) = (if d = [] then len s else max (len s) (off + length d))"
begin

text \<open>
  \<open>apart off n w\<close>: the write \<open>w\<close> does not touch the range \<open>[off, off + n)\<close>.
\<close>

definition apart :: "nat \<Rightarrow> nat \<Rightarrow> nat \<times> bytes \<Rightarrow> bool" where
  "apart off n w \<longleftrightarrow> off + n \<le> fst w \<or> fst w + length (snd w) \<le> off"

definition wr_all :: "(nat \<times> bytes) list \<Rightarrow> 's \<Rightarrow> 's" where
  "wr_all ws s = fold (\<lambda>(off, d) s. wr s off d) ws s"

lemma wr_all_simps [simp]:
  "wr_all [] s = s" "wr_all (w # ws) s = wr_all ws (wr s (fst w) (snd w))"
  by (simp_all add: wr_all_def case_prod_unfold)

lemma wr_all_append: "wr_all (ws @ vs) s = wr_all vs (wr_all ws s)"
  by (simp add: wr_all_def)

lemma len_wr_le: "len s \<le> len (wr s off d)"
  by (simp add: len_wr)

lemma len_wr_all_le: "len s \<le> len (wr_all ws s)"
proof (induction ws arbitrary: s)
  case (Cons w ws)
  then show ?case using len_wr_le order_trans by (metis wr_all_simps(2))
qed simp

lemma len_wr_all_bound:
  "len s \<le> m \<Longrightarrow> \<forall>w \<in> set ws. fst w + length (snd w) \<le> m \<Longrightarrow> len (wr_all ws s) \<le> m"
  by (induction ws arbitrary: s) (auto simp: len_wr)

lemma wr_all_other:
  "\<forall>w \<in> set ws. apart off n w \<Longrightarrow> off + n \<le> len s \<Longrightarrow> rd (wr_all ws s) off n = rd s off n"
proof (induction ws arbitrary: s)
  case (Cons w ws)
  have "off + n \<le> len (wr s (fst w) (snd w))"
    using Cons.prems(2) len_wr_le order_trans by blast
  then have "rd (wr_all ws (wr s (fst w) (snd w))) off n = rd (wr s (fst w) (snd w)) off n"
    using Cons by simp
  also have "\<dots> = rd s off n"
    using Cons.prems by (auto intro: rd_wr_other simp: apart_def)
  finally show ?case by simp
qed simp

text \<open>The last write to a place is what is read there, whatever was written elsewhere.\<close>

lemma wr_all_last:
  assumes "\<forall>w \<in> set vs. apart off (length d) w" "d \<noteq> []"
  shows "rd (wr_all (ws @ (off, d) # vs) s) off (length d) = d"
proof -
  have "off + length d \<le> len (wr (wr_all ws s) off d)"
    using assms(2) by (simp add: len_wr)
  with assms show ?thesis
    by (simp add: wr_all_append wr_all_other rd_wr_same)
qed

text \<open>
  Writes to pairwise disjoint places: each is read back, in whatever order they are made.
\<close>

definition disjoint_writes :: "(nat \<times> bytes) list \<Rightarrow> bool" where
  "disjoint_writes ws \<longleftrightarrow>
     (\<forall>i < length ws. \<forall>j < length ws. i \<noteq> j \<longrightarrow> apart (fst (ws ! i)) (length (snd (ws ! i))) (ws ! j))"

lemma wr_all_disjoint:
  assumes "disjoint_writes ws" "(off, d) \<in> set ws" "d \<noteq> []"
  shows "rd (wr_all ws s) off (length d) = d"
proof -
  obtain i where i: "i < length ws" "ws ! i = (off, d)"
    using assms(2) by (auto simp: in_set_conv_nth)
  have split: "ws = take i ws @ (off, d) # drop (Suc i) ws"
    using i by (metis id_take_nth_drop)
  have "\<forall>w \<in> set (drop (Suc i) ws). apart off (length d) w"
  proof
    fix w assume "w \<in> set (drop (Suc i) ws)"
    then obtain j where "j < length ws - Suc i" "w = ws ! (Suc i + j)"
      by (auto simp: in_set_conv_nth)
    then have "Suc i + j < length ws" "Suc i + j \<noteq> i" by auto
    then show "apart off (length d) w"
      using assms(1) i \<open>w = _\<close> unfolding disjoint_writes_def by (metis fst_conv snd_conv)
  qed
  then have "rd (wr_all (take i ws @ (off, d) # drop (Suc i) ws) s) off (length d) = d"
    using assms(3) by (rule wr_all_last)
  with split show ?thesis by simp
qed

end

lemma length_write_bytes:
  "length (write_bytes c off d) = (if d = [] then length c else max (length c) (off + length d))"
  by (auto simp: write_bytes_def)

lemma nth_write_bytes:
  "i < length c \<or> i < off + length d \<and> d \<noteq> [] \<Longrightarrow>
   write_bytes c off d ! i =
     (if off \<le> i \<and> i < off + length d then d ! (i - off) else if i < length c then c ! i else 0)"
  by (auto simp: write_bytes_def nth_copy_into nth_append split: if_splits)

interpretation fstore: store sub write_bytes length
proof
  show "sub (write_bytes s off d) off (length d) = d" for s off d
    by (cases "d = []") (auto intro!: sub_eqI simp: length_write_bytes nth_write_bytes)
  show "sub (write_bytes s off d) o' n = sub s o' n"
    if "o' + n \<le> off \<or> off + length d \<le> o'" "o' + n \<le> length s" for s :: bytes and off d o' n
    using that by (auto intro!: sub_eqI simp: length_write_bytes nth_write_bytes)
  show "length (write_bytes s off d) = (if d = [] then length s else max (length s) (off + length d))"
    for s off d by (rule length_write_bytes)
qed

lemma write_bytes_inside:
  "off + length d \<le> length c \<Longrightarrow> write_bytes c off d = copy_into c off d"
  by (simp add: write_bytes_def zeros_def)

subsection \<open>Facts about reads and writes\<close>

lemma full_simps [simp]: "full (d, None) = Inr d" "full (d, Some e) = Inl e"
  by (simp_all add: full_def)

lemma full_ReadAt:
  "full (ReadAt f n off) = Inr d \<longleftrightarrow>
   0 \<le> off \<and> (n = 0 \<and> d = [] \<or>
     \<not> closed f \<and> 0 < n \<and> nat off + n \<le> length (contents f) \<and> d = sub (contents f) (nat off) n)"
  by (auto simp: ReadAt_def full_def Let_def)

lemma ReadAt_inside:
  "\<not> closed f \<Longrightarrow> 0 \<le> off \<Longrightarrow> nat off + n \<le> length (contents f) \<Longrightarrow>
   ReadAt f n off = (sub (contents f) (nat off) n, None)"
  by (cases "n = 0") (simp_all add: ReadAt_def Let_def)

lemma SecReadAt_inside:
  "\<not> closed f \<Longrightarrow> 0 \<le> sec_base s \<Longrightarrow> 0 \<le> off \<Longrightarrow> off < sec_size s \<Longrightarrow> off + int n \<le> sec_size s \<Longrightarrow>
   nat (sec_limit s) \<le> length (contents f) \<Longrightarrow>
   SecReadAt f s n off = (sub (contents f) (nat (sec_base s + off)) n, None)"
  by (auto simp: SecReadAt_def Let_def sec_size_def ReadAt_inside add.commute)

text \<open>A full read never returns more or fewer bytes than were asked for.\<close>

lemma full_ReadAt_length: "full (ReadAt f n off) = Inr d \<Longrightarrow> length d = n"
  by (auto simp: full_ReadAt)

lemma full_SecReadAt:
  assumes "full (SecReadAt f s n off) = Inr d"
  shows "0 \<le> off \<and> off < sec_size s \<and> int n \<le> sec_size s - off \<and> full (ReadAt f n (off + sec_base s)) = Inr d"
  using assms
  by (auto simp: SecReadAt_def Let_def full_def sec_size_def split: if_splits prod.splits option.splits)

lemma full_SecReadAt_length: "full (SecReadAt f s n off) = Inr d \<Longrightarrow> length d = n"
  using full_SecReadAt full_ReadAt_length by blast

lemma WriteAt_open:
  "\<not> closed f \<Longrightarrow> 0 \<le> off \<Longrightarrow>
   WriteAt f d off = (Inr (), f\<lparr>contents := write_bytes (contents f) (nat off) d\<rparr>)"
  by (simp add: WriteAt_def write_bytes_def)

lemma WriteAt_closed_flag [simp]: "closed (snd (WriteAt f d off)) = closed f"
  by (simp add: WriteAt_def)

end
