(* ===== verification/GoText.thy ===== *)
theory GoText
  imports GoBytes
begin

text \<open>
  What the program uses of Go's \<open>strings\<close>, \<open>path\<close>, \<open>unicode/utf8\<close> and \<open>unicode/utf16\<close>.
  A Go string is its bytes; a rune is a natural number.  The case tables of \<open>unicode\<close> beyond
  ASCII are data of the Go distribution and enter as the parameter \<open>ucd\<close>: ASCII case is
  computed, other code points go through the parameter.
\<close>

type_synonym gostr = bytes
type_synonym rune = nat

definition bs :: "string \<Rightarrow> gostr" where
  "bs s = map of_char s"

lemma bs_simps [simp]: "bs [] = []" "bs (c # s) = of_char c # bs s"
  by (simp_all add: bs_def)

lemma length_bs [simp]: "length (bs s) = length s"
  by (simp add: bs_def)

subsection \<open>UTF-8 and UTF-16\<close>

definition RuneError :: rune where
  "RuneError = 0xFFFD"

definition cont :: "nat \<Rightarrow> bool" where
  "cont b \<longleftrightarrow> 0x80 \<le> b \<and> b \<le> 0xBF"

text \<open>
  \<open>utf8.DecodeRune\<close> on the remaining bytes: the rune and the number of bytes it takes; a byte
  that starts no valid sequence is \<open>RuneError\<close> and takes one byte.
\<close>

definition decode_rune :: "nat list \<Rightarrow> rune \<times> nat" where
  "decode_rune p = (case p of [] \<Rightarrow> (RuneError, 0) | b0 # q \<Rightarrow>
     (if b0 < 0x80 then (b0, 1)
      else if b0 < 0xC2 \<or> 0xF4 < b0 then (RuneError, 1)
      else if b0 < 0xE0 then
        (case q of b1 # _ \<Rightarrow> if cont b1 then ((b0 - 0xC0) * 64 + (b1 - 0x80), 2) else (RuneError, 1)
         | _ \<Rightarrow> (RuneError, 1))
      else if b0 < 0xF0 then
        (case q of b1 # b2 # _ \<Rightarrow>
            if (if b0 = 0xE0 then 0xA0 else 0x80) \<le> b1 \<and> b1 \<le> (if b0 = 0xED then 0x9F else 0xBF) \<and> cont b2
            then ((b0 - 0xE0) * 4096 + (b1 - 0x80) * 64 + (b2 - 0x80), 3) else (RuneError, 1)
         | _ \<Rightarrow> (RuneError, 1))
      else
        (case q of b1 # b2 # b3 # _ \<Rightarrow>
            if (if b0 = 0xF0 then 0x90 else 0x80) \<le> b1 \<and> b1 \<le> (if b0 = 0xF4 then 0x8F else 0xBF) \<and> cont b2 \<and> cont b3
            then ((b0 - 0xF0) * 262144 + (b1 - 0x80) * 4096 + (b2 - 0x80) * 64 + (b3 - 0x80), 4)
            else (RuneError, 1)
         | _ \<Rightarrow> (RuneError, 1))))"

function decode_nats :: "nat list \<Rightarrow> rune list" where
  "decode_nats [] = []"
| "decode_nats (b # p) = fst (decode_rune (b # p)) # decode_nats (drop (snd (decode_rune (b # p))) (b # p))"
  by pat_completeness auto
termination
proof (relation "measure length")
  show "wf (measure length)" by simp
next
  fix b p
  have "0 < snd (decode_rune (b # p))"
    by (auto simp: decode_rune_def split: list.splits)
  then show "(drop (snd (decode_rune (b # p))) (b # p), b # p) \<in> measure length"
    by simp
qed

definition runes :: "gostr \<Rightarrow> rune list" where
  "runes s = decode_nats (map unat s)"

definition valid_rune :: "rune \<Rightarrow> bool" where
  "valid_rune r \<longleftrightarrow> r < 0xD800 \<or> 0xE000 \<le> r \<and> r \<le> 0x10FFFF"

definition encode_rune :: "rune \<Rightarrow> nat list" where
  "encode_rune r0 = (let r = if valid_rune r0 then r0 else RuneError in
     if r < 0x80 then [r]
     else if r < 0x800 then [0xC0 + r div 64, 0x80 + r mod 64]
     else if r < 0x10000 then [0xE0 + r div 4096, 0x80 + r div 64 mod 64, 0x80 + r mod 64]
     else [0xF0 + r div 262144, 0x80 + r div 4096 mod 64, 0x80 + r div 64 mod 64, 0x80 + r mod 64])"

text \<open>\<open>string(runes)\<close>.\<close>

definition str :: "rune list \<Rightarrow> gostr" where
  "str rs = map of_nat (concat (map encode_rune rs))"

fun utf16_decode :: "u16 list \<Rightarrow> rune list" where
  "utf16_decode [] = []"
| "utf16_decode (r # s) =
     (if r < 0xD800 \<or> 0xE000 \<le> r then unat r # utf16_decode s
      else (case s of
              r2 # s' \<Rightarrow> if r < 0xDC00 \<and> 0xDC00 \<le> r2 \<and> r2 < 0xE000
                then ((unat r - 0xD800) * 1024 + (unat r2 - 0xDC00) + 0x10000) # utf16_decode s'
                else RuneError # utf16_decode s
            | [] \<Rightarrow> [RuneError]))"

text \<open>The first code unit of \<open>utf16.Encode([]rune{r})\<close>.\<close>

definition utf16_unit :: "rune \<Rightarrow> u16" where
  "utf16_unit r =
     (if r < 0xD800 \<or> 0xE000 \<le> r \<and> r < 0x10000 then of_nat r
      else if 0x10000 \<le> r \<and> r \<le> 0x10FFFF then of_nat (0xD800 + (r - 0x10000) div 1024)
      else of_nat RuneError)"

lemma digits64:
  fixes r :: nat
  shows "r div 4096 * 4096 + r div 64 mod 64 * 64 + r mod 64 = r"
    and "r div 262144 * 262144 + r div 4096 mod 64 * 4096 = r div 4096 * 4096"
proof -
  have "r div 64 div 64 * 64 + r div 64 mod 64 = r div 64" by (rule div_mult_mod_eq)
  moreover have "r div 64 * 64 + r mod 64 = r" by (rule div_mult_mod_eq)
  moreover have "r div 64 div 64 = r div 4096" by (simp add: div_mult2_eq [symmetric])
  ultimately show "r div 4096 * 4096 + r div 64 mod 64 * 64 + r mod 64 = r" by linarith
  have "r div 4096 div 64 * 64 + r div 4096 mod 64 = r div 4096" by (rule div_mult_mod_eq)
  moreover have "r div 4096 div 64 = r div 262144" by (simp add: div_mult2_eq [symmetric])
  ultimately show "r div 262144 * 262144 + r div 4096 mod 64 * 4096 = r div 4096 * 4096" by linarith
qed

lemma decode_encode_rune:
  assumes "valid_rune r"
  shows "decode_rune (encode_rune r @ q) = (r, length (encode_rune r))"
proof -
  have b: "r \<le> 0x10FFFF" using assms by (auto simp: valid_rune_def)
  consider "r < 0x80" | "0x80 \<le> r" "r < 0x800" | "0x800 \<le> r" "r < 0x10000" | "0x10000 \<le> r"
    by linarith
  then show ?thesis
  proof cases
    case 1
    then show ?thesis using assms by (simp add: encode_rune_def decode_rune_def)
  next
    case 2
    then have "2 \<le> r div 64" "r div 64 < 32" by linarith+
    then show ?thesis using assms 2
      by (simp add: encode_rune_def decode_rune_def cont_def)
  next
    case 3
    note d = digits64(1) [of r]
    have m: "r div 64 mod 64 < 64" "r mod 64 < 64" by simp_all
    have "r div 4096 < 16" using 3 by linarith
    moreover have "r div 4096 = 0 \<Longrightarrow> 32 \<le> r div 64 mod 64" using 3 d m by linarith
    moreover have "r div 4096 = 13 \<Longrightarrow> r div 64 mod 64 < 32" using 3 assms d m
      unfolding valid_rune_def by linarith
    moreover obtain a b c where "r div 4096 = a" "r div 64 mod 64 = b" "r mod 64 = c" by blast
    ultimately show ?thesis using assms 3 d m
      by (auto simp: encode_rune_def decode_rune_def cont_def simp del: mod_less_divisor mod_less)
  next
    case 4
    note d = digits64 [of r]
    have m: "r div 4096 mod 64 < 64" "r div 64 mod 64 < 64" "r mod 64 < 64" by simp_all
    have "r div 262144 \<le> 4" using b by linarith
    moreover have "r div 262144 = 0 \<Longrightarrow> 16 \<le> r div 4096 mod 64" using 4 d m by linarith
    moreover have "r div 262144 = 4 \<Longrightarrow> r div 4096 mod 64 < 16" using b d m by linarith
    moreover obtain a b c e where "r div 262144 = a" "r div 4096 mod 64 = e" "r div 64 mod 64 = b" "r mod 64 = c"
      by blast
    ultimately show ?thesis using assms 4 d m
      by (auto simp: encode_rune_def decode_rune_def cont_def simp del: mod_less_divisor mod_less)
  qed
qed

lemma encode_rune_ne: "encode_rune r \<noteq> []"
  by (simp add: encode_rune_def Let_def)

lemma encode_rune_bytes: "b \<in> set (encode_rune r) \<Longrightarrow> b < 256"
proof -
  assume b: "b \<in> set (encode_rune r)"
  define r' where "r' = (if valid_rune r then r else RuneError)"
  have "r' \<le> 0x10FFFF" by (auto simp: r'_def valid_rune_def RuneError_def)
  then have "r' div 262144 \<le> 4" by linarith
  moreover have "r' < 0x800 \<Longrightarrow> r' div 64 < 32" "r' < 0x10000 \<Longrightarrow> r' div 4096 < 16" by linarith+
  moreover have "r' div 4096 mod 64 < 64" "r' div 64 mod 64 < 64" "r' mod 64 < 64" by simp_all
  ultimately show ?thesis using b unfolding encode_rune_def r'_def [symmetric] Let_def
    by (auto split: if_splits)
qed

lemma decode_nats_encode:
  "valid_rune r \<Longrightarrow> decode_nats (encode_rune r @ q) = r # decode_nats q"
proof -
  assume v: "valid_rune r"
  obtain b p where bp: "encode_rune r @ q = b # p" using encode_rune_ne by (cases "encode_rune r") auto
  have "decode_rune (b # p) = (r, length (encode_rune r))" using decode_encode_rune [OF v, of q] bp by simp
  moreover have "drop (length (encode_rune r)) (b # p) = q" using bp by (metis append_eq_conv_conj)
  ultimately show ?thesis unfolding bp by simp
qed

lemma decode_nats_concat: "\<forall>r \<in> set rs. valid_rune r \<Longrightarrow> decode_nats (concat (map encode_rune rs)) = rs"
  by (induction rs) (simp_all add: decode_nats_encode)

text \<open>\<open>[]rune(string(rs))\<close> is \<open>rs\<close> for valid code points.\<close>

lemma runes_str: "\<forall>r \<in> set rs. valid_rune r \<Longrightarrow> runes (str rs) = rs"
proof -
  assume v: "\<forall>r \<in> set rs. valid_rune r"
  have "map (unat \<circ> (of_nat :: nat \<Rightarrow> u8)) (concat (map encode_rune rs)) = concat (map encode_rune rs)"
    by (rule map_idI) (auto dest!: encode_rune_bytes simp: unat_of_nat)
  with v show ?thesis by (simp add: runes_def str_def decode_nats_concat)
qed

text \<open>Code points of the basic plane survive the 16-bit representation.\<close>

lemma unat_lt_iff16: "(x :: u16) < y \<longleftrightarrow> unat x < unat y"
  by (rule word_less_nat_alt)

lemma utf16_decode_bmp:
  "\<forall>r \<in> set rs. valid_rune r \<and> r < 0x10000 \<Longrightarrow> utf16_decode (map of_nat rs) = rs"
proof (induction rs)
  case (Cons r rs)
  then have "r < 0xD800 \<or> 0xE000 \<le> r" "r < 65536" by (auto simp: valid_rune_def)
  then have "(of_nat r :: u16) < 0xD800 \<or> 0xE000 \<le> (of_nat r :: u16)" "unat (of_nat r :: u16) = r"
    by (auto simp: word_less_nat_alt word_le_nat_alt unat_of_nat)
  with Cons show ?case by auto
qed simp

subsection \<open>\<open>strings\<close>\<close>

record ucd =
  upper_rune :: "rune \<Rightarrow> rune"   \<comment> \<open>\<open>unicode.ToUpper\<close> beyond ASCII\<close>
  fold_rune :: "rune \<Rightarrow> rune"    \<comment> \<open>a representative of the \<open>unicode.SimpleFold\<close> orbit beyond ASCII\<close>

definition upper_byte :: "u8 \<Rightarrow> u8" where
  "upper_byte b = (if 0x61 \<le> b \<and> b \<le> 0x7A then b - 0x20 else b)"

definition upper :: "ucd \<Rightarrow> rune \<Rightarrow> rune" where
  "upper U r = (if r < 0x80 then (if 0x61 \<le> r \<and> r \<le> 0x7A then r - 0x20 else r) else upper_rune U r)"

definition ToUpper :: "ucd \<Rightarrow> gostr \<Rightarrow> gostr" where
  "ToUpper U s = (if list_all (\<lambda>b. b < 0x80) s then map upper_byte s
                  else str (map (upper U) (runes s)))"

definition fold_case :: "ucd \<Rightarrow> rune \<Rightarrow> rune" where
  "fold_case U r = (if r < 0x80 then (if 0x41 \<le> r \<and> r \<le> 0x5A then r + 0x20 else r) else fold_rune U r)"

definition EqualFold :: "ucd \<Rightarrow> gostr \<Rightarrow> gostr \<Rightarrow> bool" where
  "EqualFold U s t \<longleftrightarrow> map (fold_case U) (runes s) = map (fold_case U) (runes t)"

lemma EqualFold_refl [simp]: "EqualFold U s s"
  by (simp add: EqualFold_def)

lemma EqualFold_sym: "EqualFold U s t \<longleftrightarrow> EqualFold U t s"
  by (auto simp: EqualFold_def)

lemma EqualFold_trans: "EqualFold U s t \<Longrightarrow> EqualFold U t u \<Longrightarrow> EqualFold U s u"
  by (simp add: EqualFold_def)

text \<open>\<open>strings.LastIndex(s, c)\<close> for a one-byte \<open>c\<close>: \<open>None\<close> is -1.\<close>

fun LastIndex :: "gostr \<Rightarrow> u8 \<Rightarrow> nat option" where
  "LastIndex [] c = None"
| "LastIndex (x # s) c =
     (case LastIndex s c of Some i \<Rightarrow> Some (Suc i) | None \<Rightarrow> if x = c then Some 0 else None)"

text \<open>\<open>strings.TrimRight(s, " ")\<close> and \<open>strings.Split(s, "/")\<close>.\<close>

definition TrimRight :: "gostr \<Rightarrow> u8 \<Rightarrow> gostr" where
  "TrimRight s c = rev (dropWhile (\<lambda>x. x = c) (rev s))"

fun Split :: "gostr \<Rightarrow> u8 \<Rightarrow> gostr list" where
  "Split [] c = [[]]"
| "Split (x # s) c =
     (if x = c then [] # Split s c
      else (case Split s c of [] \<Rightarrow> [[x]] | p # ps \<Rightarrow> (x # p) # ps))"

fun Join :: "gostr list \<Rightarrow> u8 \<Rightarrow> gostr" where
  "Join [] c = []"
| "Join [p] c = p"
| "Join (p # ps) c = p @ c # Join ps c"

lemma LastIndex_None: "LastIndex s c = None \<longleftrightarrow> c \<notin> set s"
  by (induction s) (auto split: option.splits)

lemma LastIndex_Some:
  "LastIndex s c = Some i \<Longrightarrow> i < length s \<and> s ! i = c \<and> c \<notin> set (drop (Suc i) s)"
proof (induction s arbitrary: i)
  case (Cons x s)
  then show ?case by (auto split: option.splits if_splits simp: LastIndex_None)
qed simp

lemma LastIndex_append [simp]:
  "c \<notin> set e \<Longrightarrow> LastIndex (b @ c # e) c = Some (length b)"
  by (induction b) (auto simp: LastIndex_None [THEN iffD2])

lemma Split_ne [simp]: "Split s c \<noteq> []"
  by (induction s) (auto split: list.splits)

lemma Split_no_sep: "p \<in> set (Split s c) \<Longrightarrow> c \<notin> set p"
proof (induction s arbitrary: p)
  case (Cons x s)
  then show ?case by (cases "Split s c") (auto split: if_splits)
qed simp

lemma Split_single: "c \<notin> set p \<Longrightarrow> Split p c = [p]"
  by (induction p) auto

lemma Split_app: "c \<notin> set p \<Longrightarrow> Split (p @ c # s) c = p # Split s c"
  by (induction p) auto

lemma Split_Join:
  "ps \<noteq> [] \<Longrightarrow> \<forall>p \<in> set ps. c \<notin> set p \<Longrightarrow> Split (Join ps c) c = ps"
  by (induction ps c rule: Join.induct) (simp_all add: Split_single Split_app)

subsection \<open>\<open>path\<close>\<close>

abbreviation slash :: u8 where "slash \<equiv> 0x2F"
abbreviation dot :: u8 where "dot \<equiv> 0x2E"

text \<open>\<open>path.Clean\<close>: the lexical treatment of one element, on the elements kept so far (reversed).\<close>

definition clean_step :: "bool \<Rightarrow> gostr \<Rightarrow> gostr list \<Rightarrow> gostr list" where
  "clean_step rooted p acc =
     (if p = [] \<or> p = [dot] then acc
      else if p = [dot, dot] then
        (case acc of [] \<Rightarrow> if rooted then [] else [p]
         | q # qs \<Rightarrow> if q = [dot, dot] then p # acc else qs)
      else p # acc)"

definition clean_elems :: "bool \<Rightarrow> gostr \<Rightarrow> gostr list" where
  "clean_elems rooted s = rev (fold (clean_step rooted) (Split s slash) [])"

definition Clean :: "gostr \<Rightarrow> gostr" where
  "Clean s =
     (if s = [] then [dot]
      else let rooted = (hd s = slash);
               out = (if rooted then [slash] else []) @ Join (clean_elems rooted s) slash
           in if out = [] then [dot] else out)"

text \<open>\<open>path.Split\<close>: everything up to and including the last slash, and the rest.\<close>

definition path_Split :: "gostr \<Rightarrow> gostr \<times> gostr" where
  "path_Split p = (case LastIndex p slash of None \<Rightarrow> ([], p) | Some i \<Rightarrow> (take (Suc i) p, drop (Suc i) p))"

definition path_Join :: "gostr \<Rightarrow> gostr \<Rightarrow> gostr" where
  "path_Join a b =
     (if a = [] \<and> b = [] then []
      else if a = [] then Clean b else if b = [] then Clean a else Clean (a @ slash # b))"

text \<open>\<open>path.Split(path.Clean("/" + name))\<close>: the directory and the last element.\<close>

definition parent_base :: "gostr \<Rightarrow> gostr \<times> gostr" where
  "parent_base nm = path_Split (Clean (slash # nm))"

text \<open>\<open>path.Dir\<close>.\<close>

definition path_Dir :: "gostr \<Rightarrow> gostr" where
  "path_Dir p = Clean (fst (path_Split p))"

text \<open>A cleaned element is never empty, never \<open>.\<close>, holds no slash and, in a rooted path, is not \<open>..\<close>.\<close>

definition plain_elem :: "gostr \<Rightarrow> bool" where
  "plain_elem p \<longleftrightarrow> p \<noteq> [] \<and> p \<noteq> [dot] \<and> p \<noteq> [dot, dot] \<and> slash \<notin> set p"

lemma clean_step_plain:
  "slash \<notin> set p \<Longrightarrow> list_all plain_elem acc \<Longrightarrow> list_all plain_elem (clean_step True p acc)"
  by (auto simp: clean_step_def plain_elem_def split: list.splits)

lemma fold_clean_plain:
  "\<forall>p \<in> set ps. slash \<notin> set p \<Longrightarrow> list_all plain_elem acc \<Longrightarrow>
   list_all plain_elem (fold (clean_step True) ps acc)"
  by (induction ps arbitrary: acc) (auto intro: clean_step_plain)

lemma clean_elems_plain: "list_all plain_elem (clean_elems True s)"
  unfolding clean_elems_def list_all_rev
  by (rule fold_clean_plain) (auto dest: Split_no_sep)

lemma fold_clean_id:
  "list_all plain_elem ps \<Longrightarrow> fold (clean_step r) ps acc = rev ps @ acc"
  by (induction ps arbitrary: acc) (auto simp: clean_step_def plain_elem_def)

lemma Clean_rooted: "Clean (slash # s) = slash # Join (clean_elems True (slash # s)) slash"
  by (simp add: Clean_def Let_def)

lemma clean_elems_rooted: "clean_elems True (slash # s) = clean_elems True s"
  by (simp add: clean_elems_def clean_step_def)

lemma Join_plain_eq_Nil: "list_all plain_elem ps \<Longrightarrow> Join ps slash = [] \<longleftrightarrow> ps = []"
  by (induction ps slash rule: Join.induct) (auto simp: plain_elem_def)

text \<open>The elements of a cleaned rooted path are its cleaned elements again.\<close>

lemma Split_Clean_rooted:
  "clean_elems True (slash # s) \<noteq> [] \<Longrightarrow>
   Split (tl (Clean (slash # s))) slash = clean_elems True (slash # s)"
  using clean_elems_plain [of "slash # s"]
  by (simp add: Clean_rooted Split_Join list_all_iff plain_elem_def)

lemma clean_elems_Join:
  assumes "list_all plain_elem ps"
  shows "clean_elems True (slash # Join ps slash) = ps"
proof (cases "ps = []")
  case True
  then show ?thesis by (simp add: clean_elems_def clean_step_def)
next
  case False
  have "Split (Join ps slash) slash = ps"
    using assms False by (intro Split_Join) (auto simp: list_all_iff plain_elem_def)
  then show ?thesis using assms
    by (simp add: clean_elems_rooted) (simp add: clean_elems_def fold_clean_id)
qed

text \<open>\<open>path.Clean\<close> is idempotent on rooted paths.\<close>

lemma Clean_idem: "Clean (Clean (slash # s)) = Clean (slash # s)"
  using clean_elems_Join [OF clean_elems_plain [of "slash # s"]]
  by (simp add: Clean_rooted)

end
