(* ===== verification/Partitions.thy ===== *)
theory Partitions
  imports GoFile GoText
begin

text \<open>
  Filesystem detection (\<open>src/fs/fstype\<close>) and the two partition-table parsers
  (\<open>src/partition/mbr\<close>, \<open>src/partition/gpt\<close>).  A parser returns a list of partitions; the Go
  code's \<open>nil\<close> slice is the empty list (both parsers only ever append to a \<open>nil\<close> slice, so
  their result is \<open>nil\<close> exactly when it is empty).
\<close>

subsection \<open>Filesystem types\<close>

datatype fstype = Ext4 | Btrfs | XFS | NTFS | FAT32 | FAT16 | FAT12 | Unknown

text \<open>\<open>VolumeInfo\<close>, which \<open>StatFS\<close> of every driver returns.\<close>

record volinfo =
  TotalBytes :: int
  FreeBytes :: int
  UsedBytes :: int
  BlockSize :: int
  Inodes :: int
  InodesFree :: int

text \<open>\<open>Detect\<close>: \<open>rd off n\<close> is the callback \<open>readAt\<close> filling \<open>n\<close> bytes from \<open>off\<close>.\<close>

definition magic_at :: "(int \<Rightarrow> nat \<Rightarrow> bytes res) \<Rightarrow> int \<Rightarrow> bytes \<Rightarrow> bool" where
  "magic_at rd off m \<longleftrightarrow> rd off (length m) = Inr m"

definition Detect :: "(int \<Rightarrow> nat \<Rightarrow> bytes res) \<Rightarrow> fstype" where
  "Detect rd =
     (if magic_at rd 0x10040 (bs ''_BHRfS_M'') then Btrfs
      else if magic_at rd 1080 [0x53, 0xEF] then Ext4
      else if magic_at rd 0 [0x58, 0x46, 0x53, 0x42] then XFS
      else if magic_at rd 3 (bs ''NTFS    '') then NTFS
      else if \<not> magic_at rd 510 [0x55, 0xAA] then Unknown
      else if (case rd 82 8 of Inl e \<Rightarrow> False | Inr l \<Rightarrow> take 5 l = bs ''FAT32'') then FAT32
      else if magic_at rd 54 (bs ''FAT'') then FAT16
      else Unknown)"

text \<open>
  \<open>Detect\<close> depends only on the bytes at its seven probe offsets.
\<close>

lemma Detect_local:
  assumes "\<And>off n. (off, n) \<in> {(0x10040, 8), (1080, 2), (0, 4), (3, 8), (510, 2), (82, 8), (54, 3)} \<Longrightarrow>
             rd off n = rd' off n"
  shows "Detect rd = Detect rd'"
  using assms by (simp add: Detect_def magic_at_def)

subsection \<open>Partitions\<close>

record partition =
  Index :: int
  StartByte :: int
  SizeBytes :: int
  TypeGUID :: gostr
  Name :: gostr

subsection \<open>MBR\<close>

record mbr_entry =
  e_Status :: u8
  e_PartType :: u8
  e_LBAStart :: u32
  e_LBASectors :: u32

definition mbr_entry_at :: "bytes \<Rightarrow> nat \<Rightarrow> mbr_entry" where
  "mbr_entry_at buf i =
     (let off = 0x1BE + i * 16 in
      \<lparr>e_Status = buf ! off, e_PartType = buf ! (off + 4),
       e_LBAStart = get32 buf (off + 8), e_LBASectors = get32 buf (off + 12)\<rparr>)"

text \<open>
  The loop over the entries \<open>js\<close>: \<open>None\<close> is the early return at a protective entry.
\<close>

fun mbr_loop :: "bytes \<Rightarrow> int \<Rightarrow> nat list \<Rightarrow> partition list \<Rightarrow> partition list option" where
  "mbr_loop buf diskSize [] parts = Some parts"
| "mbr_loop buf diskSize (i # js) parts =
     (let e = mbr_entry_at buf i;
          startByte = int (unat (e_LBAStart e)) * 512;
          sizeBytes = int (unat (e_LBASectors e)) * 512
      in if e_PartType e = 0 \<or> e_LBASectors e = 0 then mbr_loop buf diskSize js parts
         else if e_PartType e = 0xEE then None
         else if 0 < diskSize \<and> diskSize \<le> startByte then mbr_loop buf diskSize js parts
         else mbr_loop buf diskSize js
                (parts @ [\<lparr>Index = int i + 1, StartByte = startByte, SizeBytes = sizeBytes,
                           TypeGUID = [], Name = []\<rparr>]))"

definition mbr_Parse :: "gofile \<Rightarrow> int \<Rightarrow> partition list res" where
  "mbr_Parse f diskSize =
     bindR (wrapR ''mbr: read sector 0'' (full (ReadAt f 512 0))) (\<lambda>buf.
       if get16 buf 510 \<noteq> 0xAA55 then Inr []
       else (case mbr_loop buf diskSize [0, 1, 2, 3] [] of
               None \<Rightarrow> Inr [] | Some parts \<Rightarrow> Inr parts))"

subsection \<open>GPT\<close>

record gpt_header =
  h_PartEntryLBA :: u64
  h_NumPartEntries :: u32
  h_PartEntrySize :: u32

text \<open>The fields of the header that the parser uses, at their offsets in the 92-byte layout.\<close>

definition gpt_header_of :: "bytes \<Rightarrow> gpt_header" where
  "gpt_header_of b =
     \<lparr>h_PartEntryLBA = get64 b 72, h_NumPartEntries = get32 b 80, h_PartEntrySize = get32 b 84\<rparr>"

record gpt_entry =
  g_TypeGUID :: bytes
  g_UniqueGUID :: bytes
  g_StartLBA :: u64
  g_EndLBA :: u64
  g_Attributes :: u64
  g_Name :: bytes

definition gpt_entry_of :: "bytes \<Rightarrow> gpt_entry" where
  "gpt_entry_of b =
     \<lparr>g_TypeGUID = sub b 0 16, g_UniqueGUID = sub b 16 16, g_StartLBA = get64 b 32,
      g_EndLBA = get64 b 40, g_Attributes = get64 b 48, g_Name = sub b 56 72\<rparr>"

definition isZero :: "bytes \<Rightarrow> bool" where
  "isZero b = list_all (\<lambda>v. v = 0) b"

definition hex_digit :: "nat \<Rightarrow> u8" where
  "hex_digit d = (if d < 10 then of_nat (0x30 + d) else of_nat (0x41 + (d - 10)))"

text \<open>\<open>%0nX\<close> of a value below \<open>16 ^ n\<close>.\<close>

fun hexX :: "nat \<Rightarrow> nat \<Rightarrow> gostr" where
  "hexX 0 v = []"
| "hexX (Suc n) v = hexX n (v div 16) @ [hex_digit (v mod 16)]"

definition formatGUID :: "bytes \<Rightarrow> gostr" where
  "formatGUID b =
     hexX 8 (unat (get32 b 0)) @ [0x2D] @ hexX 4 (unat (get16 b 4)) @ [0x2D] @
     hexX 4 (unat (get16 b 6)) @ [0x2D] @ hexX 2 (unat (b ! 8)) @ hexX 2 (unat (b ! 9)) @ [0x2D] @
     concat (map (\<lambda>i. hexX 2 (unat (b ! i))) [10, 11, 12, 13, 14, 15])"

definition decodeUTF16LE :: "bytes \<Rightarrow> gostr" where
  "decodeUTF16LE b =
     (let u16 = map (\<lambda>i. get16 b (i * 2)) [0..<length b div 2]
      in str (utf16_decode (takeWhile (\<lambda>v. v \<noteq> 0) u16)))"

definition gpt_partition :: "nat \<Rightarrow> gpt_entry \<Rightarrow> partition" where
  "gpt_partition i e =
     \<lparr>Index = int i + 1,
      StartByte = wrap64 (sint (g_StartLBA e) * 512),
      SizeBytes = wrap64 (sint (g_EndLBA e - g_StartLBA e + 1) * 512),
      TypeGUID = formatGUID (g_TypeGUID e), Name = decodeUTF16LE (g_Name e)\<rparr>"

text \<open>
  The loop over the entry indices.  An entry smaller than the 128-byte layout makes
  \<open>binary.Read\<close> fail and is skipped, as is an entry whose type GUID is zero.
\<close>

fun gpt_loop :: "bytes \<Rightarrow> nat \<Rightarrow> nat list \<Rightarrow> partition list \<Rightarrow> partition list" where
  "gpt_loop entryBuf esz [] parts = parts"
| "gpt_loop entryBuf esz (i # js) parts =
     (let e = gpt_entry_of (sub entryBuf (i * esz) esz)
      in if esz < 128 then gpt_loop entryBuf esz js parts
         else if isZero (g_TypeGUID e) then gpt_loop entryBuf esz js parts
         else gpt_loop entryBuf esz js (parts @ [gpt_partition i e]))"

definition hasProtective :: "bytes \<Rightarrow> bool" where
  "hasProtective mbr = list_ex (\<lambda>i. mbr ! (0x1BE + i * 16 + 4) = 0xEE) [0, 1, 2, 3]"

definition gpt_Parse :: "gofile \<Rightarrow> partition list res" where
  "gpt_Parse f =
     bindR (wrapR ''gpt: read mbr'' (full (ReadAt f 512 0))) (\<lambda>mbr.
       if \<not> hasProtective mbr then Inr []
       else bindR (wrapR ''gpt: read header'' (full (ReadAt f 512 512))) (\<lambda>hdrBuf.
         if sub hdrBuf 0 8 \<noteq> bs ''EFI PART'' then Inl (Err ''gpt: invalid signature'')
         else let hdr = gpt_header_of hdrBuf;
                  num = unat (h_NumPartEntries hdr); esz = unat (h_PartEntrySize hdr);
                  entryAreaSize = wrap64 (int num * int esz)
              in if entryAreaSize < 0 then Inl (Panic ''makeslice: len out of range'')
                 else bindR (wrapR ''gpt: read partition entries''
                        (full (ReadAt f (nat entryAreaSize) (wrap64 (sint (h_PartEntryLBA hdr) * 512))))) (\<lambda>entryBuf.
                   Inr (gpt_loop entryBuf esz [0..<num] []))))"

subsection \<open>What the MBR parser returns\<close>

definition mbr_part_ok :: "int \<Rightarrow> partition \<Rightarrow> bool" where
  "mbr_part_ok diskSize p \<longleftrightarrow>
     1 \<le> Index p \<and> Index p \<le> 4 \<and> 0 \<le> StartByte p \<and> 0 < SizeBytes p \<and>
     512 dvd StartByte p \<and> 512 dvd SizeBytes p \<and> (0 < diskSize \<longrightarrow> StartByte p < diskSize)"

lemma mbr_loop_inv:
  assumes "mbr_loop buf diskSize js parts = Some ps"
    and "sorted_wrt (<) js" "\<forall>i \<in> set js. i < 4"
    and "list_all (mbr_part_ok diskSize) parts" "sorted_wrt (<) (map Index parts)"
    and "\<forall>p \<in> set parts. \<forall>i \<in> set js. Index p \<le> int i"
  shows "list_all (mbr_part_ok diskSize) ps \<and> sorted_wrt (<) (map Index ps)"
  using assms
proof (induction buf diskSize js parts rule: mbr_loop.induct)
  case (1 buf diskSize parts)
  then show ?case by simp
next
  case (2 buf diskSize i js parts)
  define e where "e = mbr_entry_at buf i"
  have rest: "\<forall>p \<in> set parts. \<forall>i \<in> set js. Index p \<le> int i" using "2.prems" by simp
  consider (skip) "mbr_loop buf diskSize js parts = Some ps" "e_PartType e = 0 \<or> e_LBASectors e = 0"
    | (far) "mbr_loop buf diskSize js parts = Some ps" "\<not> (e_PartType e = 0 \<or> e_LBASectors e = 0)"
        "e_PartType e \<noteq> 0xEE" "0 < diskSize \<and> diskSize \<le> int (unat (e_LBAStart e)) * 512"
    | (add) "\<not> (e_PartType e = 0 \<or> e_LBASectors e = 0)" "e_PartType e \<noteq> 0xEE"
        "\<not> (0 < diskSize \<and> diskSize \<le> int (unat (e_LBAStart e)) * 512)"
        "mbr_loop buf diskSize js (parts @ [\<lparr>Index = int i + 1, StartByte = int (unat (e_LBAStart e)) * 512,
           SizeBytes = int (unat (e_LBASectors e)) * 512, TypeGUID = [], Name = []\<rparr>]) = Some ps"
    using "2.prems"(1) by (auto simp: e_def Let_def split: if_splits)
  then show ?case
  proof cases
    case skip
    then show ?thesis using "2.IH"(1) "2.prems" rest by (auto simp: e_def)
  next
    case far
    then show ?thesis using "2.IH"(2) "2.prems" rest by (auto simp: e_def)
  next
    case add
    have "0 < uint (e_LBASectors e)" using add(1) by (metis order_le_less uint_0_iff uint_ge_0)
    then have "mbr_part_ok diskSize \<lparr>Index = int i + 1, StartByte = int (unat (e_LBAStart e)) * 512,
        SizeBytes = int (unat (e_LBASectors e)) * 512, TypeGUID = [], Name = []\<rparr>"
      using add "2.prems"(3) by (auto simp: mbr_part_ok_def)
    then show ?thesis using "2.IH"(3) [OF refl refl refl] add "2.prems"
      by (fastforce simp: e_def sorted_wrt_append)
  qed
qed

lemma mbr_Parse_ok:
  assumes "mbr_Parse f diskSize = Inr ps"
  shows "list_all (mbr_part_ok diskSize) ps \<and> sorted_wrt (<) (map Index ps)"
  using assms mbr_loop_inv [where buf = b and parts = "[]" and js = "[0, 1, 2, 3]" for b]
  by (auto simp: mbr_Parse_def split: if_splits option.splits)

subsection \<open>Hexadecimal\<close>

lemma length_hexX [simp]: "length (hexX n v) = n"
  by (induction n arbitrary: v) simp_all

definition hex_value :: "u8 \<Rightarrow> nat option" where
  "hex_value c =
     (if 0x30 \<le> c \<and> c \<le> 0x39 then Some (unat c - 0x30)
      else if 0x61 \<le> c \<and> c \<le> 0x66 then Some (unat c - 0x61 + 10)
      else if 0x41 \<le> c \<and> c \<le> 0x46 then Some (unat c - 0x41 + 10)
      else None)"

lemma hex_value_digit: "d < 16 \<Longrightarrow> hex_value (hex_digit d) = Some d"
proof -
  assume "d < 16"
  moreover have "list_all (\<lambda>d. hex_value (hex_digit d) = Some d) [0..<16]" by code_simp
  ultimately show ?thesis by (simp add: list_all_iff)
qed

end
