(* ===== verification/Regions.thy ===== *)
theory Regions
  imports Partitions "HOL-Library.Multiset"
begin

text \<open>
  The region map of a disk (\<open>src/region.go\<close>) and the region-wise copy of an image
  (\<open>copyRange\<close> in \<open>src/detach.go\<close>).  The main facts: for a table of disjoint partitions that
  lie inside the disk the regions tile the disk without gap or overlap, and copying the regions
  of such a map reproduces the source file byte for byte.
\<close>

datatype RegionKind = RegionBoot | RegionPartition | RegionGap | RegionBackup

record region =
  Kind :: RegionKind
  Start :: int
  End :: int
  PartitionIndex :: int

definition region_Size :: "region \<Rightarrow> int" where
  "region_Size r = End r - Start r"

record span =
  sp_start :: int
  sp_end :: int
  sp_pIdx :: int

definition span_of :: "partition \<Rightarrow> span" where
  "span_of p = \<lparr>sp_start = StartByte p, sp_end = wrap64 (StartByte p + SizeBytes p), sp_pIdx = Index p\<rparr>"

text \<open>The loop over the sorted spans: the regions it appends and the cursor it ends with.\<close>

fun span_regions :: "span list \<Rightarrow> int \<Rightarrow> region list \<times> int" where
  "span_regions [] cursor = ([], cursor)"
| "span_regions (s # ss) cursor =
     (let gap = (if sp_start s > cursor
                 then [\<lparr>Kind = RegionGap, Start = cursor, End = sp_start s, PartitionIndex = 0\<rparr>] else []);
          (rs, c) = span_regions ss (sp_end s)
      in (gap @ \<lparr>Kind = RegionPartition, Start = sp_start s, End = sp_end s, PartitionIndex = sp_pIdx s\<rparr> # rs, c))"

text \<open>
  \<open>sort.Slice\<close> by start; it leaves the order of equal starts open, which two disjoint
  partitions never have.
\<close>

definition buildRegions :: "partition list \<Rightarrow> int \<Rightarrow> bool \<Rightarrow> region list" where
  "buildRegions parts fileSize isGPT =
     (let spans = sort_key sp_start (map span_of parts);
          bootEnd0 = (if isGPT then 34 * 512 else 512);
          bootEnd = (if spans \<noteq> [] \<and> sp_start (hd spans) < bootEnd0 then sp_start (hd spans) else bootEnd0);
          boot = (if bootEnd > 0
                  then [\<lparr>Kind = RegionBoot, Start = 0, End = bootEnd, PartitionIndex = 0\<rparr>] else []);
          (rs, cursor) = span_regions spans bootEnd;
          tail = (if isGPT \<and> fileSize > 0 then
                    (if cursor < fileSize - 512
                     then [\<lparr>Kind = RegionGap, Start = cursor, End = fileSize - 512, PartitionIndex = 0\<rparr>] else []) @
                    [\<lparr>Kind = RegionBackup, Start = fileSize - 512, End = fileSize, PartitionIndex = 0\<rparr>]
                  else if cursor < fileSize
                  then [\<lparr>Kind = RegionGap, Start = cursor, End = fileSize, PartitionIndex = 0\<rparr>] else [])
      in boot @ rs @ tail)"

subsection \<open>Tilings\<close>

text \<open>\<open>tiles a rs b\<close>: the regions are non-empty, adjacent, and cover \<open>[a, b)\<close>.\<close>

fun tiles :: "int \<Rightarrow> region list \<Rightarrow> int \<Rightarrow> bool" where
  "tiles a [] b = (a = b)"
| "tiles a (r # rs) b = (Start r = a \<and> a < End r \<and> tiles (End r) rs b)"

lemma tiles_append: "tiles a (rs @ ts) c \<longleftrightarrow> (\<exists>b. tiles a rs b \<and> tiles b ts c)"
  by (induction rs arbitrary: a) auto

lemma tiles_le: "tiles a rs b \<Longrightarrow> a \<le> b"
  by (induction rs arbitrary: a) force+

lemma tiles_bounds: "tiles a rs b \<Longrightarrow> r \<in> set rs \<Longrightarrow> a \<le> Start r \<and> Start r < End r \<and> End r \<le> b"
proof (induction rs arbitrary: a)
  case (Cons q rs)
  then show ?case using tiles_le [of "End q" rs b] by (auto dest: Cons.IH)
qed simp

text \<open>Every byte of a tiled range lies in exactly one region.\<close>

lemma tiles_cover: "tiles a rs b \<Longrightarrow> a \<le> x \<Longrightarrow> x < b \<Longrightarrow> \<exists>r \<in> set rs. Start r \<le> x \<and> x < End r"
proof (induction rs arbitrary: a)
  case (Cons q rs)
  then show ?case by (cases "x < End q") auto
qed simp

subsection \<open>Disjoint tables give tilings\<close>

definition parts_disjoint :: "partition list \<Rightarrow> bool" where
  "parts_disjoint parts \<longleftrightarrow>
     (\<forall>i < length parts. \<forall>j < length parts. i \<noteq> j \<longrightarrow>
        StartByte (parts ! i) + SizeBytes (parts ! i) \<le> StartByte (parts ! j) \<or>
        StartByte (parts ! j) + SizeBytes (parts ! j) \<le> StartByte (parts ! i))"

definition part_within :: "int \<Rightarrow> partition \<Rightarrow> bool" where
  "part_within lim p \<longleftrightarrow> 0 \<le> StartByte p \<and> 0 < SizeBytes p \<and> StartByte p + SizeBytes p \<le> lim"

definition spans_chain :: "int \<Rightarrow> int \<Rightarrow> span list \<Rightarrow> bool" where
  "spans_chain lo hi ss \<longleftrightarrow>
     sorted_wrt (\<lambda>s t. sp_end s \<le> sp_start t) ss \<and>
     list_all (\<lambda>s. lo \<le> sp_start s \<and> sp_start s < sp_end s \<and> sp_end s \<le> hi) ss"

lemma spans_chain_Cons:
  "spans_chain lo hi (s # ss) \<longleftrightarrow>
   lo \<le> sp_start s \<and> sp_start s < sp_end s \<and> sp_end s \<le> hi \<and> spans_chain (sp_end s) hi ss"
  unfolding spans_chain_def list_all_iff by (auto intro: order_trans)

lemma span_regions_tiles:
  "spans_chain lo hi ss \<Longrightarrow> lo \<le> hi \<Longrightarrow> span_regions ss lo = (rs, c) \<Longrightarrow> tiles lo rs c \<and> c \<le> hi"
proof (induction ss arbitrary: lo rs c)
  case (Cons s ss)
  obtain rs' c' where r: "span_regions ss (sp_end s) = (rs', c')" by fastforce
  have "tiles (sp_end s) rs' c' \<and> c' \<le> hi"
    using Cons.IH [of "sp_end s" rs' c'] Cons.prems(1) r by (simp add: spans_chain_Cons)
  then show ?case using Cons.prems r by (auto simp: spans_chain_Cons Let_def)
qed simp

lemma sorted_disjoint_chain:
  assumes "sorted (map sp_start ss)"
    and "\<forall>s \<in> set ss. sp_start s < sp_end s"
    and "\<forall>i < length ss. \<forall>j < length ss. i \<noteq> j \<longrightarrow>
           sp_end (ss ! i) \<le> sp_start (ss ! j) \<or> sp_end (ss ! j) \<le> sp_start (ss ! i)"
  shows "sorted_wrt (\<lambda>s t. sp_end s \<le> sp_start t) ss"
  unfolding sorted_wrt_iff_nth_less
proof (intro allI impI)
  fix i j assume ij: "i < j" "j < length ss"
  then have "sp_start (ss ! i) \<le> sp_start (ss ! j)"
    using assms(1) by (auto simp: sorted_iff_nth_mono_less)
  moreover have "sp_start (ss ! j) < sp_end (ss ! j)" using assms(2) ij by simp
  ultimately show "sp_end (ss ! i) \<le> sp_start (ss ! j)"
    using assms(3) ij by (metis leD less_imp_neq less_trans order_trans)
qed

text \<open>Disjointness does not depend on the order in which the partitions are listed.\<close>

lemma pairwise_perm:
  assumes "mset xs = mset ys" "symp R"
    and "\<forall>i < length xs. \<forall>j < length xs. i \<noteq> j \<longrightarrow> R (xs ! i) (xs ! j)"
  shows "\<forall>i < length ys. \<forall>j < length ys. i \<noteq> j \<longrightarrow> R (ys ! i) (ys ! j)"
proof -
  have *: "(\<forall>i < length zs. \<forall>j < length zs. i \<noteq> j \<longrightarrow> R (zs ! i) (zs ! j)) \<longleftrightarrow> sorted_wrt R zs" for zs
  proof
    assume w: "sorted_wrt R zs"
    show "\<forall>i < length zs. \<forall>j < length zs. i \<noteq> j \<longrightarrow> R (zs ! i) (zs ! j)"
    proof (intro allI impI)
      fix i j assume "i < length zs" "j < length zs" "i \<noteq> j"
      then show "R (zs ! i) (zs ! j)"
        using sorted_wrt_nth_less [OF w, of i j] sorted_wrt_nth_less [OF w, of j i] sympD [OF assms(2)]
        by (cases "i < j") auto
    qed
  qed (simp add: sorted_wrt_iff_nth_less)
  have cons: "sorted_wrt R (z # zs) \<longleftrightarrow> (\<forall>w \<in> set zs. R z w) \<and> sorted_wrt R zs" for z zs by simp
  have "sorted_wrt R ys" if "sorted_wrt R xs" "mset xs = mset ys" for xs ys
    using that
  proof (induction xs arbitrary: ys)
    case (Cons x xs)
    then have "x \<in> set ys" by (metis list.set_intros(1) mset_eq_setD)
    then obtain us vs where ys: "ys = us @ x # vs" by (meson split_list)
    then have m: "mset xs = mset (us @ vs)" using Cons.prems(2) by simp
    then have s: "sorted_wrt R (us @ vs)" using Cons by simp
    have "\<forall>w \<in> set (us @ vs). R x w" using Cons.prems(1) m by (metis cons mset_eq_setD)
    with s assms(2) show ?case unfolding ys by (auto simp: sorted_wrt_append dest: sympD)
  qed simp
  with assms * show ?thesis by blast
qed

lemma parts_spans_chain:
  assumes "parts_disjoint parts" "list_all (part_within hi) parts" "hi < 2 ^ 63"
    and "\<forall>p \<in> set parts. lo \<le> StartByte p"
  shows "spans_chain lo hi (sort_key sp_start (map span_of parts))"
proof -
  define ss where "ss = map span_of parts"
  define R where "R s t \<longleftrightarrow> sp_end s \<le> sp_start t \<or> sp_end t \<le> sp_start s" for s t :: span
  have e: "sp_end (span_of p) = StartByte p + SizeBytes p" "sp_start (span_of p) = StartByte p"
    if "p \<in> set parts" for p
    using assms(2,3) that by (auto simp: span_of_def list_all_iff part_within_def)
  have "\<forall>i < length ss. \<forall>j < length ss. i \<noteq> j \<longrightarrow> R (ss ! i) (ss ! j)"
    using assms(1) e by (auto simp: ss_def R_def parts_disjoint_def)
  moreover have "symp R" by (auto simp: R_def intro: sympI)
  moreover have "mset ss = mset (sort_key sp_start ss)" by simp
  ultimately have d: "\<forall>i < length (sort_key sp_start ss). \<forall>j < length (sort_key sp_start ss). i \<noteq> j \<longrightarrow>
      R (sort_key sp_start ss ! i) (sort_key sp_start ss ! j)"
    by (metis pairwise_perm)
  have "sorted_wrt (\<lambda>s t. sp_end s \<le> sp_start t) (sort_key sp_start ss)"
    using d e assms(2)
    by (intro sorted_disjoint_chain) (auto simp: R_def ss_def list_all_iff part_within_def)
  moreover have "list_all (\<lambda>s. lo \<le> sp_start s \<and> sp_start s < sp_end s \<and> sp_end s \<le> hi) (sort_key sp_start ss)"
    using assms(2,4) e by (auto simp: ss_def list_all_iff part_within_def)
  ultimately show ?thesis by (simp add: spans_chain_def ss_def)
qed

text \<open>
  The end of the area the partitions may use: everything, or everything before the backup
  header of a GPT disk.
\<close>

definition usable_end :: "int \<Rightarrow> bool \<Rightarrow> int" where
  "usable_end fileSize isGPT = (if isGPT then fileSize - 512 else fileSize)"

lemma buildRegions_tiles_aux:
  assumes "parts \<noteq> []" "parts_disjoint parts" "list_all (part_within (usable_end fileSize isGPT)) parts"
    and "fileSize < 2 ^ 63"
  shows "tiles 0 (buildRegions parts fileSize isGPT) fileSize"
proof -
  define ss where "ss = sort_key sp_start (map span_of parts)"
  define b0 :: int where "b0 = (if isGPT then 34 * 512 else 512)"
  define b where "b = (if ss \<noteq> [] \<and> sp_start (hd ss) < b0 then sp_start (hd ss) else b0)"
  define hi where "hi = usable_end fileSize isGPT"
  have hi: "hi < 2 ^ 63" using assms(4) by (simp add: hi_def usable_end_def)
  have chain0: "spans_chain 0 hi ss"
    unfolding ss_def using assms hi
    by (intro parts_spans_chain) (auto simp: hi_def list_all_iff part_within_def)
  have "ss \<noteq> []" using assms(1) by (metis Nil_is_map_conv ss_def length_0_conv length_sort)
  then obtain s0 ss' where ss: "ss = s0 # ss'" by (cases ss) auto
  have b: "0 \<le> b" "b \<le> sp_start s0" using chain0 ss by (auto simp: b_def b0_def spans_chain_Cons)
  have chain: "spans_chain b hi ss" using chain0 b by (simp add: ss spans_chain_Cons)
  have bhi: "b \<le> hi" using chain ss by (simp add: spans_chain_Cons)
  obtain rs c where r: "span_regions ss b = (rs, c)" by fastforce
  have t: "tiles b rs c" "c \<le> hi" using span_regions_tiles [OF chain bhi r] by auto
  have pos: "0 < hi" using chain0 ss by (simp add: spans_chain_Cons)
  show ?thesis
    unfolding buildRegions_def ss_def [symmetric] b0_def [symmetric] Let_def b_def [symmetric]
    using t b r pos
    by (auto simp: tiles_append hi_def usable_end_def split: if_splits)
qed

text \<open>Every partition of the table has its region, with its extent and its index.\<close>

lemma span_regions_mem:
  "s \<in> set ss \<Longrightarrow> span_regions ss lo = (rs, c) \<Longrightarrow>
   \<lparr>Kind = RegionPartition, Start = sp_start s, End = sp_end s, PartitionIndex = sp_pIdx s\<rparr> \<in> set rs"
  by (induction ss arbitrary: lo rs c) (auto simp: Let_def split: prod.splits)

lemma span_regions_only:
  "r \<in> set rs \<Longrightarrow> Kind r = RegionPartition \<Longrightarrow> span_regions ss lo = (rs, c) \<Longrightarrow>
   \<exists>s \<in> set ss. r = \<lparr>Kind = RegionPartition, Start = sp_start s, End = sp_end s, PartitionIndex = sp_pIdx s\<rparr>"
proof (induction ss arbitrary: lo rs c)
  case (Cons s ss)
  obtain rs' c' where r: "span_regions ss (sp_end s) = (rs', c')" by fastforce
  with Cons.prems have "r = \<lparr>Kind = RegionPartition, Start = sp_start s, End = sp_end s, PartitionIndex = sp_pIdx s\<rparr> \<or> r \<in> set rs'"
    by (auto simp: Let_def split: if_splits)
  with Cons.IH [OF _ Cons.prems(2) r] show ?case by auto
qed simp

lemma buildRegions_split:
  obtains pre rs post lo c where "buildRegions parts fileSize isGPT = pre @ rs @ post"
    and "span_regions (sort_key sp_start (map span_of parts)) lo = (rs, c)"
    and "\<forall>r \<in> set pre \<union> set post. Kind r \<noteq> RegionPartition"
proof -
  define b0 :: int where "b0 = (if isGPT then 34 * 512 else 512)"
  define ss where "ss = sort_key sp_start (map span_of parts)"
  define b where "b = (if ss \<noteq> [] \<and> sp_start (hd ss) < b0 then sp_start (hd ss) else b0)"
  obtain rs c where r: "span_regions ss b = (rs, c)" by fastforce
  show ?thesis
  proof (rule that)
    show "buildRegions parts fileSize isGPT =
      (if b > 0 then [\<lparr>Kind = RegionBoot, Start = 0, End = b, PartitionIndex = 0\<rparr>] else []) @ rs @
      (if isGPT \<and> fileSize > 0 then
         (if c < fileSize - 512
          then [\<lparr>Kind = RegionGap, Start = c, End = fileSize - 512, PartitionIndex = 0\<rparr>] else []) @
         [\<lparr>Kind = RegionBackup, Start = fileSize - 512, End = fileSize, PartitionIndex = 0\<rparr>]
       else if c < fileSize
       then [\<lparr>Kind = RegionGap, Start = c, End = fileSize, PartitionIndex = 0\<rparr>] else [])"
      unfolding buildRegions_def ss_def [symmetric] b0_def [symmetric] Let_def b_def [symmetric] r
      by simp
    show "span_regions (sort_key sp_start (map span_of parts)) b = (rs, c)" using r by (simp add: ss_def)
  qed (auto split: if_splits)
qed

lemma buildRegions_partition:
  "p \<in> set parts \<Longrightarrow>
   \<lparr>Kind = RegionPartition, Start = StartByte p, End = wrap64 (StartByte p + SizeBytes p),
    PartitionIndex = Index p\<rparr> \<in> set (buildRegions parts fileSize isGPT)"
proof (rule buildRegions_split [of parts fileSize isGPT])
  fix pre rs post lo c
  assume p: "p \<in> set parts" and eq: "buildRegions parts fileSize isGPT = pre @ rs @ post"
    and r: "span_regions (sort_key sp_start (map span_of parts)) lo = (rs, c)"
  show ?thesis using span_regions_mem [OF _ r, of "span_of p"] p by (simp add: eq span_of_def)
qed

lemma buildRegions_only_partitions:
  assumes "r \<in> set (buildRegions parts fileSize isGPT)" "Kind r = RegionPartition"
  shows "\<exists>p \<in> set parts. r = \<lparr>Kind = RegionPartition, Start = StartByte p,
           End = wrap64 (StartByte p + SizeBytes p), PartitionIndex = Index p\<rparr>"
proof (rule buildRegions_split [of parts fileSize isGPT])
  fix pre rs post lo c
  assume eq: "buildRegions parts fileSize isGPT = pre @ rs @ post"
    and r: "span_regions (sort_key sp_start (map span_of parts)) lo = (rs, c)"
    and out: "\<forall>r \<in> set pre \<union> set post. Kind r \<noteq> RegionPartition"
  have "r \<in> set rs" using assms out by (auto simp: eq)
  then show ?thesis using span_regions_only [OF _ assms(2) r] by (auto simp: span_of_def)
qed

subsection \<open>\<open>copyRange\<close>\<close>

definition copyBufSize :: int where
  "copyBufSize = 32 * 1024"

function copyRange :: "gofile \<Rightarrow> gofile \<Rightarrow> int \<Rightarrow> int \<Rightarrow> int \<Rightarrow> unit res \<times> gofile" where
  "copyRange src dst srcOff dstOff sz =
     (if sz \<le> 0 then (Inr (), dst)
      else let n = (if copyBufSize > sz then sz else copyBufSize);
               (buf, err) = ReadAt src (nat n) srcOff
           in if err \<noteq> None \<and> err \<noteq> Some EOF then (Inl (the err), dst)
              else if buf = [] then (Inr (), dst)
              else case WriteAt dst buf dstOff of
                     (Inl e, dst') \<Rightarrow> (Inl e, dst')
                   | (Inr _, dst') \<Rightarrow>
                       copyRange src dst' (srcOff + int (length buf)) (dstOff + int (length buf)) (sz - int (length buf)))"
  by pat_completeness auto
termination
  by (relation "measure (\<lambda>(src, dst, so, d, sz). nat sz)") auto

declare copyRange.simps [simp del]

lemma write_bytes_append:
  "write_bytes (write_bytes c off a) (off + length a) b = write_bytes c off (a @ b)"
proof (cases "a = [] \<or> b = []")
  case True
  then show ?thesis by (auto simp: write_bytes_def)
next
  case False
  then show ?thesis
    by (intro nth_equalityI)
       (auto simp: length_write_bytes nth_write_bytes nth_append less_max_iff_disj)
qed

lemma sub_append_adjacent: "sub b off n @ sub b (off + n) m = sub b off (n + m)"
  by (simp add: sub_def take_add) (metis add.commute)

lemma copyRange_inside:
  assumes "\<not> closed src" "\<not> closed dst" "0 \<le> srcOff" "0 \<le> dstOff" "0 \<le> sz"
    and "srcOff + sz \<le> int (length (contents src))"
  shows "copyRange src dst srcOff dstOff sz =
    (Inr (), dst\<lparr>contents := write_bytes (contents dst) (nat dstOff) (sub (contents src) (nat srcOff) (nat sz))\<rparr>)"
  using assms
proof (induction src dst srcOff dstOff sz rule: copyRange.induct)
  case (1 src dst srcOff dstOff sz)
  show ?case
  proof (cases "sz \<le> 0")
    case True
    then show ?thesis using "1.prems" by (simp add: copyRange.simps [of src] write_bytes_def)
  next
    case False
    define n where "n = (if copyBufSize > sz then sz else copyBufSize)"
    have n: "0 < n" "n \<le> sz" using False by (auto simp: n_def copyBufSize_def)
    define buf where "buf = sub (contents src) (nat srcOff) (nat n)"
    have rd: "ReadAt src (nat n) srcOff = (buf, None)"
      unfolding buf_def using "1.prems" n by (intro ReadAt_inside) auto
    have lb: "length buf = nat n" using "1.prems" n by (simp add: buf_def)
    then have ne: "buf \<noteq> []" using n by auto
    define dst' where "dst' = dst\<lparr>contents := write_bytes (contents dst) (nat dstOff) buf\<rparr>"
    have wr: "WriteAt dst buf dstOff = (Inr (), dst')"
      using "1.prems" by (simp add: WriteAt_open dst'_def)
    have step: "copyRange src dst srcOff dstOff sz = copyRange src dst' (srcOff + n) (dstOff + n) (sz - n)"
      using False rd wr ne n lb by (subst copyRange.simps) (simp add: n_def [symmetric])
    also have "\<dots> = (Inr (), dst'\<lparr>contents := write_bytes (contents dst') (nat (dstOff + n))
        (sub (contents src) (nat (srcOff + n)) (nat (sz - n)))\<rparr>)"
      using "1.IH" [OF False n_def rd [symmetric] refl _ ne wr [symmetric] refl] "1.prems" n lb
      by (auto simp: dst'_def)
    also have "write_bytes (contents dst') (nat (dstOff + n)) (sub (contents src) (nat (srcOff + n)) (nat (sz - n)))
        = write_bytes (contents dst) (nat dstOff) (sub (contents src) (nat srcOff) (nat sz))"
      using write_bytes_append [of "contents dst" "nat dstOff" buf] "1.prems" n lb
        sub_append_adjacent [of "contents src" "nat srcOff" "nat n" "nat (sz - n)"]
      by (simp add: dst'_def buf_def nat_add_distrib [symmetric])
    finally show ?thesis by (simp add: dst'_def)
  qed
qed

text \<open>The loop of \<open>Detach\<close> over the regions.\<close>

fun copy_regions :: "gofile \<Rightarrow> region list \<Rightarrow> gofile \<Rightarrow> unit res \<times> gofile" where
  "copy_regions src [] out = (Inr (), out)"
| "copy_regions src (r # rs) out =
     (case copyRange src out (Start r) (Start r) (region_Size r) of
        (Inl e, out') \<Rightarrow> (Inl (Wrapped ''detach: copy region'' e), out')
      | (Inr _, out') \<Rightarrow> copy_regions src rs out')"

lemma copy_regions_tiles:
  assumes "tiles a rs b" "0 \<le> a" "b \<le> int (length (contents src))" "\<not> closed src" "\<not> closed out"
  shows "copy_regions src rs out =
    (Inr (), out\<lparr>contents := write_bytes (contents out) (nat a) (sub (contents src) (nat a) (nat (b - a)))\<rparr>)"
  using assms
proof (induction rs arbitrary: a out)
  case Nil
  then show ?case by (simp add: write_bytes_def)
next
  case (Cons r rs)
  have be: "End r \<le> b" "a < End r" "Start r = a" using Cons.prems(1) tiles_le by auto
  define out' where "out' = out\<lparr>contents := write_bytes (contents out) (nat a) (sub (contents src) (nat a) (nat (End r - a)))\<rparr>"
  have c: "copyRange src out (Start r) (Start r) (region_Size r) = (Inr (), out')"
    using Cons.prems be by (simp add: copyRange_inside region_Size_def out'_def)
  have "copy_regions src rs out' = (Inr (), out'\<lparr>contents := write_bytes (contents out') (nat (End r))
      (sub (contents src) (nat (End r)) (nat (b - End r)))\<rparr>)"
    using Cons.IH [of "End r" out'] Cons.prems be by (simp add: out'_def)
  moreover have "write_bytes (contents out') (nat (End r)) (sub (contents src) (nat (End r)) (nat (b - End r)))
      = write_bytes (contents out) (nat a) (sub (contents src) (nat a) (nat (b - a)))"
  proof -
    have l: "length (sub (contents src) (nat a) (nat (End r - a))) = nat (End r - a)"
      using Cons.prems be by simp
    have e: "nat (End r) = nat a + nat (End r - a)" "nat (b - a) = nat (End r - a) + nat (b - End r)"
      using Cons.prems be by auto
    show ?thesis
      using write_bytes_append [of "contents out" "nat a" "sub (contents src) (nat a) (nat (End r - a))"] l
        sub_append_adjacent [of "contents src" "nat a" "nat (End r - a)"]
      by (simp add: out'_def e)
  qed
  ultimately show ?case using c by (simp add: out'_def)
qed

lemma write_bytes_whole: "length c = length d \<Longrightarrow> write_bytes c 0 d = d"
  by (simp add: write_bytes_inside)

end
