(* ===== verification/Image.thy ===== *)
theory Image
  imports Regions "HOL-Library.AList"
begin

text \<open>
  The attached image (\<open>src/attach.go\<close>, \<open>src/mount.go\<close>, \<open>src/detach.go\<close>).  The type \<open>'v\<close> is
  the state of a mounted volume.  The drivers that \<open>Mount\<close> dispatches to and the \<open>Unmount\<close>
  method that \<open>Detach\<close> calls are arguments; the locale \<open>volume_driver\<close> is what \<open>Detach\<close> relies
  on, and the FAT driver is an instance of it.  Mounted volumes live in \<open>img_mounts\<close>, keyed by
  partition index; an operation on a mounted volume updates it there.
\<close>

subsection \<open>State and operations\<close>

record 'v image =
  img_f :: gofile
  img_size :: int
  img_isGPT :: bool
  img_partitions :: "partition list"
  img_regions :: "region list"
  img_mounts :: "(int \<times> 'v) list"

definition whole_disk :: "int \<Rightarrow> partition" where
  "whole_disk sz = \<lparr>Index = 1, StartByte = 0, SizeBytes = sz, TypeGUID = [], Name = []\<rparr>"

text \<open>\<open>opened\<close> is what \<open>os.OpenFile\<close> returned for the path.\<close>

definition Attach :: "gofile res \<Rightarrow> 'v image res" where
  "Attach opened =
     bindR (wrapR ''attach'' opened) (\<lambda>f.
       let sz = file_size f in
       bindR (wrapR ''attach: gpt parse'' (gpt_Parse f)) (\<lambda>gparts.
       bindR (if gparts \<noteq> [] then Inr (True, gparts)
              else bindR (wrapR ''attach: mbr parse'' (mbr_Parse f sz)) (\<lambda>mparts. Inr (False, mparts)))
         (\<lambda>(isGPT, parts).
            let parts' = (if parts = [] then [whole_disk sz] else parts)
            in Inr \<lparr>img_f = f, img_size = sz, img_isGPT = isGPT, img_partitions = parts',
                    img_regions = buildRegions parts' sz isGPT, img_mounts = []\<rparr>)))"

fun find_region :: "region list \<Rightarrow> int \<Rightarrow> region option" where
  "find_region [] index = None"
| "find_region (r # rs) index =
     (if Kind r = RegionPartition \<and> PartitionIndex r = index then Some r else find_region rs index)"

definition findPartitionRegion :: "'v image \<Rightarrow> int \<Rightarrow> region res" where
  "findPartitionRegion img index =
     (case find_region (img_regions img) index of
        Some r \<Rightarrow> Inr r | None \<Rightarrow> Inl (Err ''partition not found''))"

definition RawFile :: "'v image \<Rightarrow> gofile" where
  "RawFile img = img_f img"

record 'v drivers =
  btrfs_Open :: "gofile \<Rightarrow> int \<Rightarrow> int \<Rightarrow> 'v res"
  btrfs_OpenSubvol :: "gofile \<Rightarrow> 'v \<Rightarrow> gostr \<Rightarrow> 'v res"
  ext4_Open :: "gofile \<Rightarrow> int \<Rightarrow> int \<Rightarrow> 'v res"
  xfs_Open :: "gofile \<Rightarrow> int \<Rightarrow> int \<Rightarrow> 'v res"
  ntfs_Open :: "gofile \<Rightarrow> int \<Rightarrow> int \<Rightarrow> 'v res"
  fat32_Open :: "gofile \<Rightarrow> int \<Rightarrow> int \<Rightarrow> fstype \<Rightarrow> 'v res"

definition detect_region :: "gofile \<Rightarrow> region \<Rightarrow> fstype" where
  "detect_region f r =
     Detect (\<lambda>off n. full (SecReadAt f (NewSectionReader (Start r) (region_Size r)) n off))"

text \<open>The \<open>switch\<close> of \<open>Mount\<close> over the detected type.\<close>

definition open_volume :: "'v drivers \<Rightarrow> gofile \<Rightarrow> region \<Rightarrow> gostr \<Rightarrow> 'v res" where
  "open_volume D f r subvol =
     (let ft = detect_region f r; start = Start r; sz = region_Size r in
      case ft of
        Btrfs \<Rightarrow> bindR (wrapR ''mount partition'' (btrfs_Open D f start sz)) (\<lambda>base.
                   if subvol \<noteq> [] then wrapR ''mount partition subvol'' (btrfs_OpenSubvol D f base subvol)
                   else Inr base)
      | Ext4 \<Rightarrow> wrapR ''mount partition'' (ext4_Open D f start sz)
      | XFS \<Rightarrow> wrapR ''mount partition'' (xfs_Open D f start sz)
      | NTFS \<Rightarrow> wrapR ''mount partition'' (ntfs_Open D f start sz)
      | FAT32 \<Rightarrow> wrapR ''mount partition'' (fat32_Open D f start sz ft)
      | FAT16 \<Rightarrow> wrapR ''mount partition'' (fat32_Open D f start sz ft)
      | FAT12 \<Rightarrow> wrapR ''mount partition'' (fat32_Open D f start sz ft)
      | Unknown \<Rightarrow> Inl (Err ''mount partition: unsupported filesystem''))"

definition Mount :: "'v drivers \<Rightarrow> 'v image \<Rightarrow> int \<Rightarrow> gostr \<Rightarrow> 'v res \<times> 'v image" where
  "Mount D img index subvol =
     (case (if subvol = [] then map_of (img_mounts img) index else None) of
        Some v \<Rightarrow> (Inr v, img)
      | None \<Rightarrow>
          (case bindR (wrapR ''mount partition'' (findPartitionRegion img index))
                  (\<lambda>r. open_volume D (img_f img) r subvol) of
             Inl e \<Rightarrow> (Inl e, img)
           | Inr v \<Rightarrow> (Inr v, if subvol = [] then img\<lparr>img_mounts := AList.update index v (img_mounts img)\<rparr> else img)))"

text \<open>
  The loop of \<open>Detach\<close> over the mounted volumes.  Go's map iteration visits them in an order of
  its own: the list argument is that order.
\<close>

fun unmount_all :: "(gofile \<Rightarrow> 'v \<Rightarrow> unit res \<times> gofile \<times> 'v) \<Rightarrow> (int \<times> 'v) list \<Rightarrow> 'v image \<Rightarrow> unit res \<times> 'v image" where
  "unmount_all unm [] img = (Inr (), img)"
| "unmount_all unm ((idx, v) # vs) img =
     (case unm (img_f img) v of
        (Inl e, f', v') \<Rightarrow> (Inl (Wrapped ''detach: unmount partition'' e),
                            img\<lparr>img_f := f', img_mounts := AList.update idx v' (img_mounts img)\<rparr>)
      | (Inr _, f', v') \<Rightarrow> unmount_all unm vs (img\<lparr>img_f := f', img_mounts := AList.delete idx (img_mounts img)\<rparr>))"

definition close_image :: "'v image \<Rightarrow> unit res \<times> 'v image" where
  "close_image img = (case Close (img_f img) of (r, f') \<Rightarrow> (r, img\<lparr>img_f := f'\<rparr>))"

text \<open>
  \<open>Detach\<close>.  \<open>created\<close> is \<open>None\<close> for the empty output path, and otherwise what \<open>os.Create\<close>
  returned for it.  The result carries the output file, when there is one.
\<close>

definition Detach ::
  "(gofile \<Rightarrow> 'v \<Rightarrow> unit res \<times> gofile \<times> 'v) \<Rightarrow> ((int \<times> 'v) list \<Rightarrow> (int \<times> 'v) list) \<Rightarrow>
   gofile res option \<Rightarrow> 'v image \<Rightarrow> unit res \<times> 'v image \<times> gofile option" where
  "Detach unm order created img0 =
     (case unmount_all unm (order (img_mounts img0)) img0 of
        (Inl e, img) \<Rightarrow> (Inl e, img, None)
      | (Inr _, img) \<Rightarrow>
          (case created of
             None \<Rightarrow> (case close_image img of (r, img') \<Rightarrow> (r, img', None))
           | Some (Inl e) \<Rightarrow> (Inl (Wrapped ''detach: create'' e), snd (close_image img), None)
           | Some (Inr out0) \<Rightarrow>
               (let out1 = Truncate out0 (nat (img_size img)) in
                case copy_regions (img_f img) (img_regions img) out1 of
                  (Inl e, out2) \<Rightarrow> (Inl e, snd (close_image img), Some (snd (Close out2)))
                | (Inr _, out2) \<Rightarrow> (case close_image img of (r, img') \<Rightarrow> (r, img', Some (snd (Close out2)))))))"

subsection \<open>What \<open>Attach\<close> establishes\<close>

definition image_ok :: "'v image \<Rightarrow> bool" where
  "image_ok img \<longleftrightarrow>
     img_partitions img \<noteq> [] \<and>
     img_size img = file_size (img_f img) \<and>
     img_regions img = buildRegions (img_partitions img) (img_size img) (img_isGPT img)"

lemma Attach_ok: "Attach opened = Inr img \<Longrightarrow> image_ok img \<and> img_mounts img = []"
  by (auto simp: Attach_def Let_def image_ok_def split: if_splits)

text \<open>
  The tables for which the region map tiles the disk: disjoint partitions, inside the disk and,
  on a GPT disk, in front of the backup header.
\<close>

definition table_ok :: "'v image \<Rightarrow> bool" where
  "table_ok img \<longleftrightarrow>
     parts_disjoint (img_partitions img) \<and>
     list_all (part_within (usable_end (img_size img) (img_isGPT img))) (img_partitions img) \<and>
     img_size img < 2 ^ 63"

lemma image_tiles: "image_ok img \<Longrightarrow> table_ok img \<Longrightarrow> tiles 0 (img_regions img) (img_size img)"
  by (simp add: image_ok_def table_ok_def buildRegions_tiles_aux)

subsection \<open>What \<open>Detach\<close> relies on in a driver\<close>

text \<open>The file after unmounting the volumes in turn.\<close>

definition flush_all :: "(gofile \<Rightarrow> 'v \<Rightarrow> unit res \<times> gofile \<times> 'v) \<Rightarrow> 'v list \<Rightarrow> gofile \<Rightarrow> gofile" where
  "flush_all unm vs f = fold (\<lambda>v f. fst (snd (unm f v))) vs f"

locale volume_driver =
  fixes unm :: "gofile \<Rightarrow> 'v \<Rightarrow> unit res \<times> gofile \<times> 'v"
    and vol_ok :: "gofile \<Rightarrow> 'v \<Rightarrow> bool"
  assumes unm_succeeds: "vol_ok f v \<Longrightarrow> fst (unm f v) = Inr ()"
    and unm_length: "vol_ok f v \<Longrightarrow> length (contents (fst (snd (unm f v)))) = length (contents f)"
    and unm_closed: "closed (fst (snd (unm f v))) = closed f"
    and vol_ok_shape: "vol_ok f v \<Longrightarrow> closed f' = closed f \<Longrightarrow>
          length (contents f') = length (contents f) \<Longrightarrow> vol_ok f' v"
begin

lemma flush_all_shape:
  "list_all (vol_ok f) vs \<Longrightarrow>
   closed (flush_all unm vs f) = closed f \<and> length (contents (flush_all unm vs f)) = length (contents f)"
proof (induction vs arbitrary: f)
  case (Cons v vs)
  have "list_all (vol_ok (fst (snd (unm f v)))) vs"
    using Cons.prems vol_ok_shape unm_length unm_closed by (auto simp: list_all_iff)
  with Cons show ?case by (simp add: flush_all_def unm_length unm_closed)
qed (simp add: flush_all_def)

lemma unmount_all_ok:
  assumes "list_all (vol_ok (img_f img)) (map snd vs)"
  shows "\<exists>img'. unmount_all unm vs img = (Inr (), img') \<and> img_f img' = flush_all unm (map snd vs) (img_f img) \<and>
    img_size img' = img_size img \<and> img_regions img' = img_regions img \<and>
    img_mounts img' = fold (\<lambda>(i, v). AList.delete i) vs (img_mounts img)"
  using assms
proof (induction vs arbitrary: img)
  case Nil
  then show ?case by (simp add: flush_all_def)
next
  case (Cons iv vs)
  obtain i v where iv: "iv = (i, v)" by fastforce
  obtain r f' v' where u: "unm (img_f img) v = (r, f', v')" using prod_cases3 by blast
  have ok: "vol_ok (img_f img) v" using Cons.prems iv by simp
  have r: "r = Inr ()" using unm_succeeds [OF ok] u by simp
  have f': "closed f' = closed (img_f img)" "length (contents f') = length (contents (img_f img))"
    using unm_closed [of "img_f img" v] unm_length [OF ok] u by auto
  define img1 where "img1 = img\<lparr>img_f := f', img_mounts := AList.delete i (img_mounts img)\<rparr>"
  have "list_all (vol_ok (img_f img1)) (map snd vs)"
    using Cons.prems vol_ok_shape f' by (auto simp: img1_def list_all_iff)
  from Cons.IH [OF this] show ?case
    using u by (auto simp: iv r img1_def flush_all_def)
qed

text \<open>
  \<open>Detach\<close> to an output path: the output is the image with every volume flushed -- and so is
  the attached file itself.
\<close>

lemma Detach_copy:
  assumes "tiles 0 (img_regions img) (img_size img)" "img_size img = file_size (img_f img)"
    and "\<not> closed (img_f img)" "\<not> closed out0"
    and "list_all (vol_ok (img_f img)) (map snd (order (img_mounts img)))"
  shows "\<exists>img' out'. Detach unm order (Some (Inr out0)) img = (Inr (), img', Some out') \<and>
    contents out' = contents (img_f img') \<and> closed (img_f img') \<and>
    contents (img_f img') = contents (flush_all unm (map snd (order (img_mounts img))) (img_f img))"
proof -
  define vs where "vs = order (img_mounts img)"
  obtain img1 where u: "unmount_all unm vs img = (Inr (), img1)"
    and f1: "img_f img1 = flush_all unm (map snd vs) (img_f img)"
    and s1: "img_size img1 = img_size img" "img_regions img1 = img_regions img"
    using unmount_all_ok [of img vs] assms(5) by (auto simp: vs_def)
  have sh: "\<not> closed (img_f img1)" "length (contents (img_f img1)) = length (contents (img_f img))"
    using flush_all_shape [of "img_f img" "map snd vs"] assms(3,5) by (auto simp: f1 vs_def)
  define out1 where "out1 = Truncate out0 (nat (img_size img1))"
  have l1: "length (contents out1) = length (contents (img_f img1))" "\<not> closed out1"
    using assms(2,4) sh by (auto simp: out1_def Truncate_def s1 file_size_def)
  have "copy_regions (img_f img1) (img_regions img1) out1 =
      (Inr (), out1\<lparr>contents := write_bytes (contents out1) 0 (sub (contents (img_f img1)) 0 (nat (img_size img)))\<rparr>)"
    using copy_regions_tiles [of 0 "img_regions img" "img_size img" "img_f img1" out1] assms(1,2) sh l1
    by (simp add: s1 file_size_def)
  also have "write_bytes (contents out1) 0 (sub (contents (img_f img1)) 0 (nat (img_size img))) = contents (img_f img1)"
    using l1 sh assms(2) by (simp add: write_bytes_whole file_size_def)
  finally have c: "copy_regions (img_f img1) (img_regions img1) out1 = (Inr (), out1\<lparr>contents := contents (img_f img1)\<rparr>)" .
  show ?thesis
    using u c sh(1) l1(2) unfolding vs_def out1_def Detach_def
    by (simp add: Let_def close_image_def Close_def f1 vs_def)
qed

text \<open>\<open>Detach\<close> in place.\<close>

lemma Detach_in_place:
  assumes "\<not> closed (img_f img)" "list_all (vol_ok (img_f img)) (map snd (order (img_mounts img)))"
  shows "\<exists>img'. Detach unm order None img = (Inr (), img', None) \<and> closed (img_f img') \<and>
    contents (img_f img') = contents (flush_all unm (map snd (order (img_mounts img))) (img_f img))"
proof -
  obtain img1 where u: "unmount_all unm (order (img_mounts img)) img = (Inr (), img1)"
    and f1: "img_f img1 = flush_all unm (map snd (order (img_mounts img))) (img_f img)"
    using unmount_all_ok [OF assms(2)] by auto
  have "\<not> closed (img_f img1)" using flush_all_shape [OF assms(2)] assms(1) by (simp add: f1)
  with u show ?thesis by (simp add: Detach_def close_image_def Close_def f1)
qed

end

subsection \<open>Finding a partition\<close>

lemma find_region_Some:
  "find_region rs i = Some r \<Longrightarrow> r \<in> set rs \<and> Kind r = RegionPartition \<and> PartitionIndex r = i"
  by (induction rs) (auto split: if_splits)

lemma find_region_None:
  "find_region rs i = None \<longleftrightarrow> (\<forall>r \<in> set rs. \<not> (Kind r = RegionPartition \<and> PartitionIndex r = i))"
  by (induction rs) auto

lemma findPartitionRegion_unique:
  assumes "img_regions img = buildRegions (img_partitions img) sz g"
    and "distinct (map Index (img_partitions img))" "p \<in> set (img_partitions img)"
  shows "findPartitionRegion img (Index p) =
    Inr \<lparr>Kind = RegionPartition, Start = StartByte p, End = wrap64 (StartByte p + SizeBytes p), PartitionIndex = Index p\<rparr>"
proof -
  have "find_region (img_regions img) (Index p) \<noteq> None"
    using buildRegions_partition [OF assms(3), of sz g] unfolding find_region_None assms(1) by force
  then obtain r where r: "find_region (img_regions img) (Index p) = Some r" by blast
  then have m: "r \<in> set (buildRegions (img_partitions img) sz g)" "Kind r = RegionPartition" "PartitionIndex r = Index p"
    using find_region_Some [OF r] assms(1) by auto
  then obtain q where q: "q \<in> set (img_partitions img)"
    "r = \<lparr>Kind = RegionPartition, Start = StartByte q, End = wrap64 (StartByte q + SizeBytes q), PartitionIndex = Index q\<rparr>"
    using buildRegions_only_partitions by blast
  then have "q = p" using m(3) assms(2,3) by (auto simp: distinct_map inj_on_def)
  with q r show ?thesis by (simp add: findPartitionRegion_def)
qed

end
