(* ===== verification/GoHash.thy ===== *)
theory GoHash
  imports GoBytes
begin

text \<open>\<open>hash/crc32\<close>: the bit-wise definition of the reflected CRC-32, for the two polynomials in use.\<close>

definition crc_step :: "u32 \<Rightarrow> u32 \<Rightarrow> u32" where
  "crc_step poly c = (if bit c 0 then drop_bit 1 c XOR poly else drop_bit 1 c)"

definition crc_byte :: "u32 \<Rightarrow> u8 \<Rightarrow> u32 \<Rightarrow> u32" where
  "crc_byte poly b c = (crc_step poly ^^ 8) (c XOR ucast b)"

text \<open>\<open>crc32.Update(crc, tab, p)\<close>: the running value is stored complemented.\<close>

definition crc_update :: "u32 \<Rightarrow> u32 \<Rightarrow> bytes \<Rightarrow> u32" where
  "crc_update poly crc p = NOT (fold (crc_byte poly) p (NOT crc))"

definition IEEE :: u32 where "IEEE = 0xEDB88320"
definition Castagnoli :: u32 where "Castagnoli = 0x82F63B78"

definition ChecksumIEEE :: "bytes \<Rightarrow> u32" where
  "ChecksumIEEE p = crc_update IEEE 0 p"

text \<open>A checksum can be computed in pieces.\<close>

lemma crc_update_append: "crc_update poly crc (p @ q) = crc_update poly (crc_update poly crc p) q"
  by (simp add: crc_update_def)

end
