(* ===== verification/Builder.thy ===== *)
theory Builder
  imports Image GoHash
begin

text \<open>
  The GPT image builder (\<open>src/builder.go\<close>): GUID and name encodings, the assignment of extents,
  the protective MBR, headers and entries that \<open>Commit\<close> writes, and \<open>sectionRWS\<close>, the window on
  one partition that the formatters write through.

  Random bytes (\<open>crypto/rand\<close>) are an argument: \<open>rnd k\<close> is the result of the \<open>k\<close>-th read of
  16 bytes.  The builder's file and the handle that \<open>Commit\<close> re-opens are the same file on
  disk; the model keeps its bytes in \<open>b_f\<close>.
\<close>

subsection \<open>GUIDs and names\<close>

text \<open>\<open>hex.DecodeString\<close>.\<close>

fun hex_decode :: "gostr \<Rightarrow> bytes option" where
  "hex_decode [] = Some []"
| "hex_decode [c] = None"
| "hex_decode (c # d # s) =
     (case (hex_value c, hex_value d, hex_decode s) of
        (Some h, Some l, Some r) \<Rightarrow> Some (of_nat (h * 16 + l) # r)
      | _ \<Rightarrow> None)"

definition mustParseGPTGUID :: "gostr \<Rightarrow> bytes res" where
  "mustParseGPTGUID s =
     (let clean = filter (\<lambda>c. c \<noteq> 0x2D) s
      in if length clean \<noteq> 32 then Inl (Panic ''diskimg: invalid GUID length'')
         else (case hex_decode clean of
                 None \<Rightarrow> Inl (Panic ''diskimg: invalid GUID hex'')
               | Some raw \<Rightarrow> Inr ([raw ! 3, raw ! 2, raw ! 1, raw ! 0, raw ! 5, raw ! 4, raw ! 7, raw ! 6]
                                   @ drop 8 raw)))"

definition GUID_EFISystem :: "bytes res" where
  "GUID_EFISystem = mustParseGPTGUID (bs ''C12A7328-F81F-11D2-BA4B-00A0C93EC93B'')"

definition GUID_BasicData :: "bytes res" where
  "GUID_BasicData = mustParseGPTGUID (bs ''EBD0A0A2-B9E5-4433-87C0-68B6B72699C7'')"

definition GUID_LinuxData :: "bytes res" where
  "GUID_LinuxData = mustParseGPTGUID (bs ''0FC63DAF-8483-4772-8E79-3D69D8477DE4'')"

text \<open>A version-4 UUID from 16 random bytes.\<close>

definition builderNewGUID :: "bytes \<Rightarrow> bytes" where
  "builderNewGUID g = g[6 := (g ! 6 AND 0x0F) OR 0x40, 8 := (g ! 8 AND 0x3F) OR 0x80]"

definition builderUTF16LE :: "gostr \<Rightarrow> nat \<Rightarrow> bytes" where
  "builderUTF16LE s maxRunes =
     (let rs = take maxRunes (runes s)
      in fold (\<lambda>(i, r) buf. put16 buf (i * 2) (utf16_unit r)) (enumerate 0 rs) (zeros (maxRunes * 2)))"

definition builderPadSector :: "bytes \<Rightarrow> nat \<Rightarrow> bytes" where
  "builderPadSector b n = copy_into (zeros n) 0 (take n b)"

subsection \<open>The builder\<close>

record bpart =
  bp_Index :: int
  bp_TypeGUID :: bytes
  bp_UniqueGUID :: bytes
  bp_Name :: gostr
  bp_StartByte :: int
  bp_SizeBytes :: int

record 'v builder =
  b_f :: gofile
  b_diskSize :: int
  b_partitions :: "bpart list"
  b_committed :: "'v image option"
  b_diskGUID :: bytes

definition NewBuilder :: "gofile \<Rightarrow> 'v builder res" where
  "NewBuilder f =
     (if closed f then Inl (Wrapped ''diskimg.NewBuilder'' ErrClosed)
      else if file_size f = 0 then Inl (Err ''diskimg.NewBuilder: file is empty'')
      else Inr \<lparr>b_f = f, b_diskSize = file_size f, b_partitions = [], b_committed = None, b_diskGUID = zeros 16\<rparr>)"

text \<open>\<open>AddPartition\<close>, with the name the caller sets on the returned descriptor.\<close>

definition AddPartition :: "bytes \<Rightarrow> int \<Rightarrow> gostr \<Rightarrow> 'v builder \<Rightarrow> 'v builder" where
  "AddPartition typeGUID sizeBytes name b =
     b\<lparr>b_partitions := b_partitions b @
        [\<lparr>bp_Index = int (length (b_partitions b)) + 1, bp_TypeGUID = typeGUID, bp_UniqueGUID = zeros 16,
          bp_Name = name, bp_StartByte = 0, bp_SizeBytes = sizeBytes\<rparr>]\<rparr>"

definition DiskGUID :: "'v builder \<Rightarrow> bytes" where
  "DiskGUID b = b_diskGUID b"

text \<open>
  The extents loop of \<open>Commit\<close>.  On the error the partitions up to and including the offending
  one have been changed.
\<close>

definition assign_one :: "int \<Rightarrow> int \<Rightarrow> bpart \<Rightarrow> bpart \<times> int" where
  "assign_one lastUsable cursor p =
     (let size1 = (if bp_SizeBytes p = 0 then wrap64 ((lastUsable - cursor + 1) * 512) else bp_SizeBytes p);
          sectors = quot (wrap64 (size1 + 512 - 1)) 512
      in (p\<lparr>bp_StartByte := cursor * 512, bp_SizeBytes := sectors * 512\<rparr>, sectors))"

fun assign_extents :: "int \<Rightarrow> int \<Rightarrow> bpart list \<Rightarrow> unit res \<times> bpart list" where
  "assign_extents lastUsable cursor [] = (Inr (), [])"
| "assign_extents lastUsable cursor (p # ps) =
     (let (p', sectors) = assign_one lastUsable cursor p
      in if cursor + sectors - 1 > lastUsable
         then (Inl (Err ''diskimg.Builder: partition exceeds usable space''), p' # ps)
         else (case assign_extents lastUsable (cursor + sectors) ps of (r, ps') \<Rightarrow> (r, p' # ps')))"

definition protective_mbr :: "int \<Rightarrow> bytes" where
  "protective_mbr totalSectors =
     (let mbr0 = (zeros 512)[0x1BE := 0, 0x1BF := 0, 0x1C0 := 2, 0x1C1 := 0, 0x1C2 := 0xEE,
                             0x1C3 := 0xFF, 0x1C4 := 0xFF, 0x1C5 := 0xFF];
          mbr1 = put32 mbr0 0x1C6 1;
          lba0 = (of_int (totalSectors - 1) :: u32);
          lbaCount = (if int (unat lba0) \<noteq> totalSectors - 1 then 0xFFFFFFFF else lba0);
          mbr2 = put32 mbr1 0x1CA lbaCount
      in mbr2[510 := 0x55, 511 := 0xAA])"

text \<open>One entry of the array; \<open>entryBuf[off+16:]\<close> is out of range from the 129th partition on.\<close>

definition put_entry :: "bytes \<Rightarrow> bpart \<Rightarrow> bytes res" where
  "put_entry buf p =
     (let off = nat ((bp_Index p - 1) * 128);
          startLBA = (of_int (quot (bp_StartByte p) 512) :: u64);
          endLBA = startLBA + of_int (quot (bp_SizeBytes p) 512) - 1
      in if length buf < off + 128 then Inl (Panic ''slice bounds out of range'')
         else let b1 = copy_into buf off (bp_TypeGUID p);
                  b2 = copy_into b1 (off + 16) (bp_UniqueGUID p);
                  b3 = put64 b2 (off + 32) startLBA;
                  b4 = put64 b3 (off + 40) endLBA
              in Inr (if bp_Name p \<noteq> [] then copy_into b4 (off + 56) (builderUTF16LE (bp_Name p) 36) else b4))"

text \<open>
  The entries loop: it draws a unique GUID for each partition (the \<open>k\<close>-th random read and
  onwards) and fills the array.
\<close>

fun put_entries :: "(nat \<Rightarrow> bytes) \<Rightarrow> nat \<Rightarrow> bytes \<Rightarrow> bpart list \<Rightarrow> bytes res \<times> bpart list" where
  "put_entries rnd k buf [] = (Inr buf, [])"
| "put_entries rnd k buf (p # ps) =
     (let p' = p\<lparr>bp_UniqueGUID := builderNewGUID (rnd k)\<rparr> in
      case put_entry buf p' of
        Inl e \<Rightarrow> (Inl e, p' # ps)
      | Inr buf' \<Rightarrow> (case put_entries rnd (Suc k) buf' ps of (r, ps') \<Rightarrow> (r, p' # ps')))"

definition builderGPTHeader ::
  "int \<Rightarrow> int \<Rightarrow> int \<Rightarrow> int \<Rightarrow> bytes \<Rightarrow> int \<Rightarrow> nat \<Rightarrow> nat \<Rightarrow> u32 \<Rightarrow> bytes" where
  "builderGPTHeader myLBA altLBA firstUsable lastUsable diskGUID entryStartLBA numEntries entrySize partCRC =
     (let h0 = copy_into (zeros 92) 0 (bs ''EFI PART'');
          h1 = put32 h0 8 0x00010000;
          h2 = put32 h1 12 92;
          h3 = put64 h2 24 (of_int myLBA);
          h4 = put64 h3 32 (of_int altLBA);
          h5 = put64 h4 40 (of_int firstUsable);
          h6 = put64 h5 48 (of_int lastUsable);
          h7 = copy_into h6 56 diskGUID;
          h8 = put64 h7 72 (of_int entryStartLBA);
          h9 = put32 h8 80 (of_nat numEntries);
          h10 = put32 h9 84 (of_nat entrySize);
          h11 = put32 h10 88 partCRC
      in put32 h11 16 (ChecksumIEEE h11))"

definition b_writeAt :: "string \<Rightarrow> bytes \<Rightarrow> int \<Rightarrow> ('v builder, unit) sop" where
  "b_writeAt what d off b =
     (case WriteAt (b_f b) d off of (r, f') \<Rightarrow> (wrapR what r, b\<lparr>b_f := f'\<rparr>))"

text \<open>The five writes of \<open>Commit\<close>, in the order of the code.\<close>

definition commit_writes :: "int \<Rightarrow> bytes \<Rightarrow> bytes \<Rightarrow> ('v builder, unit) sop" where
  "commit_writes totalSectors diskGUID entryBuf =
     (let lastUsable = totalSectors - 34 - 1;
          partCRC = ChecksumIEEE entryBuf;
          secondaryEntriesLBA = totalSectors - 1 - 32;
          primaryHdr = builderGPTHeader 1 (totalSectors - 1) 34 lastUsable diskGUID 2 128 128 partCRC;
          secondaryHdr = builderGPTHeader (totalSectors - 1) 1 34 lastUsable diskGUID secondaryEntriesLBA 128 128 partCRC
      in bindS (b_writeAt ''write primary GPT header'' (builderPadSector primaryHdr 512) 512) (\<lambda>_.
         bindS (b_writeAt ''write primary partition entries'' entryBuf (2 * 512)) (\<lambda>_.
         bindS (b_writeAt ''write secondary partition entries'' entryBuf (secondaryEntriesLBA * 512)) (\<lambda>_.
         b_writeAt ''write secondary GPT header'' (builderPadSector secondaryHdr 512) ((totalSectors - 1) * 512)))))"

definition Commit :: "(nat \<Rightarrow> bytes) \<Rightarrow> ('v builder, unit) sop" where
  "Commit rnd b0 =
     (let totalSectors = quot (b_diskSize b0) 512;
          lastUsable = totalSectors - 34 - 1;
          (r1, ps1) = assign_extents lastUsable 34 (b_partitions b0);
          b1 = b0\<lparr>b_partitions := ps1\<rparr>
      in case r1 of Inl e \<Rightarrow> (Inl e, b1) | Inr _ \<Rightarrow>
         bindS (b_writeAt ''write protective MBR'' (protective_mbr totalSectors) 0) (\<lambda>_ b2.
           let diskGUID = builderNewGUID (rnd 0);
               (r3, ps3) = put_entries rnd 1 (zeros (128 * 128)) (b_partitions b2);
               b3 = b2\<lparr>b_diskGUID := diskGUID, b_partitions := ps3\<rparr>
           in case r3 of Inl e \<Rightarrow> (Inl e, b3) | Inr entryBuf \<Rightarrow>
              bindS (commit_writes totalSectors diskGUID entryBuf) (\<lambda>_ b4.
                case Attach (Inr ((b_f b4)\<lparr>closed := False\<rparr>)) of
                  Inl e \<Rightarrow> (Inl (Wrapped ''diskimg.Builder.Commit: re-attach'' e), b4)
                | Inr img \<Rightarrow> (Inr (), b4\<lparr>b_committed := Some img\<rparr>)) b3) b1)"

subsection \<open>\<open>sectionRWS\<close>\<close>

record sectionRWS =
  s_base :: int
  s_size :: int
  s_pos :: int

definition OpenRaw :: "'v builder \<Rightarrow> int \<Rightarrow> sectionRWS res" where
  "OpenRaw b index =
     (if b_committed b = None then Inl (Err ''diskimg.Builder.OpenRaw: call Commit first'')
      else (case find (\<lambda>p. bp_Index p = index) (b_partitions b) of
              Some p \<Rightarrow> Inr \<lparr>s_base = bp_StartByte p, s_size = bp_SizeBytes p, s_pos = 0\<rparr>
            | None \<Rightarrow> Inl (Err ''diskimg.Builder.OpenRaw: partition not found'')))"

definition rws_Read :: "gofile \<Rightarrow> sectionRWS \<Rightarrow> nat \<Rightarrow> (bytes \<times> goerr option) \<times> sectionRWS" where
  "rws_Read f s n =
     (if s_size s \<le> s_pos s then (([], Some EOF), s)
      else let n' = (if int n > wrap64 (s_size s - s_pos s) then nat (wrap64 (s_size s - s_pos s)) else n);
               (d, e) = ReadAt f n' (wrap64 (s_base s + s_pos s))
           in ((d, e), s\<lparr>s_pos := wrap64 (s_pos s + int (length d))\<rparr>))"

definition rws_Write :: "bytes \<Rightarrow> (gofile \<times> sectionRWS, nat) sop" where
  "rws_Write p = (\<lambda>(f, s).
     (if wrap64 (s_pos s + int (length p)) > s_size s
      then (Inl (Err ''sectionRWS: write would exceed partition boundary''), (f, s))
      else (case WriteAt f p (wrap64 (s_base s + s_pos s)) of
              (Inl e, f') \<Rightarrow> (Inl e, (f', s))
            | (Inr _, f') \<Rightarrow> (Inr (length p), (f', s\<lparr>s_pos := wrap64 (s_pos s + int (length p))\<rparr>)))))"

definition rws_Seek :: "int \<Rightarrow> nat \<Rightarrow> sectionRWS \<Rightarrow> int res \<times> sectionRWS" where
  "rws_Seek offset whence s =
     (let newPos = (if whence = 0 then Some offset
                    else if whence = 1 then Some (wrap64 (s_pos s + offset))
                    else if whence = 2 then Some (wrap64 (s_size s + offset)) else None)
      in case newPos of
           None \<Rightarrow> (Inl (Err ''sectionRWS: invalid whence''), s)
         | Some np \<Rightarrow> if np < 0 then (Inl (Err ''sectionRWS: seek to negative position''), s)
                     else (Inr np, s\<lparr>s_pos := np\<rparr>))"

definition b_Mount :: "'v drivers \<Rightarrow> int \<Rightarrow> gostr \<Rightarrow> ('v builder, 'v) sop" where
  "b_Mount D index subvol b =
     (case b_committed b of
        None \<Rightarrow> (Inl (Err ''diskimg.Builder.Mount: call Commit first''), b)
      | Some img \<Rightarrow>
          (case Mount D (img\<lparr>img_f := (img_f img)\<lparr>contents := contents (b_f b)\<rparr>\<rparr>) index subvol of
             (r, img') \<Rightarrow> (r, b\<lparr>b_committed := Some img'\<rparr>)))"

definition b_Detach ::
  "(gofile \<Rightarrow> 'v \<Rightarrow> unit res \<times> gofile \<times> 'v) \<Rightarrow> ((int \<times> 'v) list \<Rightarrow> (int \<times> 'v) list) \<Rightarrow>
   gofile res option \<Rightarrow> 'v builder \<Rightarrow> unit res \<times> 'v builder \<times> gofile option" where
  "b_Detach unm order created b =
     (case b_committed b of
        Some img \<Rightarrow>
          (case Detach unm order created (img\<lparr>img_f := (img_f img)\<lparr>contents := contents (b_f b)\<rparr>\<rparr>) of
             (r, img', out) \<Rightarrow>
               (r, b\<lparr>b_committed := Some img', b_f := (b_f b)\<lparr>contents := contents (img_f img')\<rparr>\<rparr>, out))
      | None \<Rightarrow> (case Close (b_f b) of (r, f') \<Rightarrow> (r, b\<lparr>b_f := f'\<rparr>, None)))"

end
