(* ===== verification/GptEncoding.thy ===== *)
theory GptEncoding
  imports Builder
begin

text \<open>
  The encodings of the builder read back by the parser: GUIDs (\<open>mustParseGPTGUID\<close> against
  \<open>formatGUID\<close>) and partition names (\<open>builderUTF16LE\<close> against \<open>decodeUTF16LE\<close>).
\<close>

subsection \<open>GUIDs\<close>

lemma bit_byte_join:
  fixes a :: u8
  shows "bit (push_bit k (ucast a :: 'n::len word)) n \<longleftrightarrow> k \<le> n \<and> n < LENGTH('n) \<and> n < k + 8 \<and> bit a (n - k)"
  by (auto simp: bit_simps dest: bit_imp_le_length)

lemma le_get16: "off + 2 \<le> length b \<Longrightarrow> le16 (get16 b off) = sub b off 2"
proof -
  assume l: "off + 2 \<le> length b"
  have 0: "ucast (get16 b off) = b ! off"
    by (rule bit_word_eqI) (auto simp: get16_def bit_simps)
  have 1: "ucast (drop_bit 8 (get16 b off)) = b ! (off + 1)"
    by (rule bit_word_eqI) (auto simp: get16_def bit_simps dest: bit_imp_le_length)
  have "sub b off 2 = [b ! off, b ! (off + 1)]"
    using l by (intro sub_eqI) (auto simp: less_2_cases_iff)
  with 0 1 show ?thesis by (simp add: le16_def)
qed

lemma ucast_drop_get32:
  "ucast (get32 b off) = b ! off"
  "ucast (drop_bit 8 (get32 b off)) = b ! (off + 1)"
  "ucast (drop_bit 16 (get32 b off)) = b ! (off + 2)"
  "ucast (drop_bit 24 (get32 b off)) = b ! (off + 3)"
  by (rule bit_word_eqI; auto simp: get32_def bit_simps dest: bit_imp_le_length)+

lemma hexX_add: "hexX (m + n) v = hexX m (v div 16 ^ n) @ hexX n v"
  by (induction n arbitrary: v) (simp_all add: div_mult2_eq [symmetric] mult.commute)

lemma hexX_mod: "hexX n (v mod 16 ^ n) = hexX n v"
proof (induction n arbitrary: v)
  case (Suc n)
  have "v mod 16 ^ Suc n div 16 = v div 16 mod 16 ^ n" by (simp add: mod_mult2_eq)
  moreover have "v mod 16 ^ Suc n mod 16 = v mod 16" by (simp add: mod_mod_cancel)
  ultimately show ?case by (simp add: Suc.IH)
qed simp

lemma hexX_no_dash: "x \<in> set (hexX n v) \<Longrightarrow> x \<noteq> 0x2D"
proof (induction n arbitrary: v)
  case (Suc n)
  have "hex_digit (v mod 16) \<noteq> 0x2D"
  proof
    assume e: "hex_digit (v mod 16) = 0x2D"
    have "hex_value 0x2D = None" by (simp add: hex_value_def)
    with e show False using hex_value_digit [of "v mod 16"] by simp
  qed
  with Suc show ?case by auto
qed simp

lemma filter_hexX [simp]: "filter (\<lambda>c. c \<noteq> 0x2D) (hexX n v) = hexX n v"
  by (rule filter_True) (auto dest: hexX_no_dash)

definition hexB :: "bytes \<Rightarrow> gostr" where
  "hexB xs = concat (map (\<lambda>x. hexX 2 (unat x)) xs)"

lemma hex_decode_hexB: "hex_decode (hexB xs) = Some xs"
proof (induction xs)
  case (Cons x xs)
  have "hexX 2 (unat x) = [hex_digit (unat x div 16 mod 16), hex_digit (unat x mod 16)]"
    by (simp add: numeral_2_eq_2)
  moreover have "unat x < 256" using unsigned_less [of x] by simp
  then have "unat x div 16 mod 16 = unat x div 16" by simp
  ultimately show ?case using Cons by (simp add: hexB_def hex_value_digit)
qed (simp add: hexB_def)

lemma hexX_8: "hexX 8 (unat (v :: u32)) =
   hexB [ucast (drop_bit 24 v), ucast (drop_bit 16 v), ucast (drop_bit 8 v), ucast v]"
proof -
  have d: "unat (ucast (drop_bit k v) :: u8) = unat v div 2 ^ k mod 256" for k
    by (simp only: unsigned_ucast_eq unat_drop_bit_eq) (simp add: drop_bit_eq_div take_bit_eq_mod)
  have m: "hexX 2 (x mod 256) = hexX 2 x" for x using hexX_mod [of 2 x] by simp
  have "hexX 8 (unat v) = hexX 2 (unat v div 16 ^ 6) @ hexX 2 (unat v div 16 ^ 4) @ hexX 2 (unat v div 16 ^ 2) @ hexX 2 (unat v)"
    using hexX_add [of 2 6 "unat v"] hexX_add [of 2 4 "unat v"] hexX_add [of 2 2 "unat v"] by simp
  then show ?thesis using d [of 24] d [of 16] d [of 8] d [of 0] by (simp add: hexB_def m)
qed

lemma hexX_4: "hexX 4 (unat (v :: u16)) = hexB [ucast (drop_bit 8 v), ucast v]"
proof -
  have d: "unat (ucast (drop_bit k v) :: u8) = unat v div 2 ^ k mod 256" for k
    by (simp only: unsigned_ucast_eq unat_drop_bit_eq) (simp add: drop_bit_eq_div take_bit_eq_mod)
  have m: "hexX 2 (x mod 256) = hexX 2 x" for x using hexX_mod [of 2 x] by simp
  show ?thesis using hexX_add [of 2 2 "unat v"] d [of 8] d [of 0] by (simp add: hexB_def m)
qed

lemma hexB_append: "hexB xs @ hexB ys = hexB (xs @ ys)"
  by (simp add: hexB_def)

lemma filter_hexB [simp]: "filter (\<lambda>c. c \<noteq> 0x2D) (hexB xs) = hexB xs"
  by (induction xs) (simp_all add: hexB_def)

lemma length_hexB [simp]: "length (hexB xs) = 2 * length xs"
  by (induction xs) (simp_all add: hexB_def)

lemma clean_formatGUID:
  assumes "length g = 16"
  shows "filter (\<lambda>c. c \<noteq> 0x2D) (formatGUID g) =
    hexB ([g ! 3, g ! 2, g ! 1, g ! 0, g ! 5, g ! 4, g ! 7, g ! 6] @ drop 8 g)"
proof -
  have "ucast (drop_bit 8 (get16 g off)) = g ! (off + 1)" "ucast (get16 g off) = g ! off" for off
    by (rule bit_word_eqI; auto simp: get16_def bit_simps dest: bit_imp_le_length)+
  moreover have "drop 8 g = map ((!) g) [8, 9, 10, 11, 12, 13, 14, 15]"
    by (rule nth_equalityI) (use assms in \<open>auto simp: less_Suc_eq numeral_eq_Suc\<close>)
  ultimately show ?thesis
    by (simp add: formatGUID_def hexX_8 hexX_4 ucast_drop_get32)
       (simp add: hexB_def numeral_2_eq_2)
qed

lemma mustParse_format_aux:
  assumes "length g = 16"
  shows "mustParseGPTGUID (formatGUID g) = Inr g"
proof -
  have g: "g = [g ! 0, g ! 1, g ! 2, g ! 3, g ! 4, g ! 5, g ! 6, g ! 7] @ drop 8 g"
    by (rule nth_equalityI) (use assms in \<open>auto simp: nth_append nth_Cons' less_Suc_eq numeral_eq_Suc\<close>)
  show ?thesis
    using assms g by (simp add: mustParseGPTGUID_def clean_formatGUID Let_def hex_decode_hexB)
qed

subsection \<open>Partition names\<close>

lemma fold_put16:
  assumes "length buf = 2 * m" "k + length us \<le> m"
  shows "length (fold (\<lambda>(i, u) b. put16 b (i * 2) (f u)) (enumerate k us) buf) = 2 * m \<and>
    (\<forall>i < m. get16 (fold (\<lambda>(i, u) b. put16 b (i * 2) (f u)) (enumerate k us) buf) (i * 2) =
       (if k \<le> i \<and> i < k + length us then f (us ! (i - k)) else get16 buf (i * 2)))"
  using assms
proof (induction us arbitrary: k buf)
  case (Cons u us)
  have l: "length (put16 buf (k * 2) (f u)) = 2 * m" using Cons.prems by simp
  have "get16 (put16 buf (k * 2) (f u)) (i * 2) = (if i = k then f u else get16 buf (i * 2))" if "i < m" for i
  proof (cases "i = k")
    case False
    then have "i * 2 + 2 \<le> k * 2 \<or> k * 2 + 2 \<le> i * 2" by linarith
    then show ?thesis using False that Cons.prems by (simp add: get16_other(1))
  qed (use that Cons.prems in simp)
  with Cons.IH [OF l, of "Suc k"] Cons.prems(2) show ?case
    by (auto simp: nth_Cons')
qed auto

lemma get16_zeros [simp]: "off + 2 \<le> n \<Longrightarrow> get16 (zeros n) off = 0"
  by (simp add: get16_def)

lemma length_builderUTF16LE [simp]: "length (builderUTF16LE s m) = 2 * m"
  using fold_put16 [of "zeros (m * 2)" m 0 "take m (runes s)" utf16_unit]
  by (simp add: builderUTF16LE_def Let_def mult.commute)

lemma get16_builderUTF16LE:
  "i < m \<Longrightarrow> get16 (builderUTF16LE s m) (i * 2) =
     (if i < length (runes s) then utf16_unit (runes s ! i) else 0)"
  using fold_put16 [of "zeros (m * 2)" m 0 "take m (runes s)" utf16_unit]
  by (auto simp: builderUTF16LE_def Let_def mult.commute)

text \<open>A name the 36-unit field can hold: code points of the basic plane, none of them zero.\<close>

definition gpt_name_ok :: "gostr \<Rightarrow> bool" where
  "gpt_name_ok s \<longleftrightarrow> s = str (runes s) \<and> length (runes s) \<le> 36 \<and>
     list_all (\<lambda>r. valid_rune r \<and> 0 < r \<and> r < 0x10000) (runes s)"

lemma decode_builder_name:
  assumes "gpt_name_ok s"
  shows "decodeUTF16LE (builderUTF16LE s 36) = s"
proof -
  let ?rs = "runes s"
  have bmp: "\<forall>r \<in> set ?rs. valid_rune r \<and> 0 < r \<and> r < 0x10000" and l: "length ?rs \<le> 36"
    using assms by (auto simp: gpt_name_ok_def list_all_iff)
  have "map (\<lambda>i. get16 (builderUTF16LE s 36) (i * 2)) [0..<36] = map of_nat ?rs @ replicate (36 - length ?rs) 0"
  proof (rule nth_equalityI)
    fix i assume i: "i < length (map (\<lambda>i. get16 (builderUTF16LE s 36) (i * 2)) [0..<36])"
    have "utf16_unit (?rs ! i) = of_nat (?rs ! i)" if "i < length ?rs"
      using bmp nth_mem [OF that] by (force simp: utf16_unit_def valid_rune_def)
    then show "map (\<lambda>i. get16 (builderUTF16LE s 36) (i * 2)) [0..<36] ! i = (map of_nat ?rs @ replicate (36 - length ?rs) 0) ! i"
      using i l by (auto simp: get16_builderUTF16LE nth_append)
  qed (use l in simp)
  moreover have "takeWhile (\<lambda>v. v \<noteq> 0) (map of_nat ?rs @ replicate n 0) = (map of_nat ?rs :: u16 list)" for n
  proof -
    have nz: "(of_nat r :: u16) \<noteq> 0" if "r \<in> set ?rs" for r
      using bmp that by (auto simp: word_of_nat_eq_0_iff dest!: dvd_imp_le)
    have "takeWhile (\<lambda>v. v \<noteq> 0) (map of_nat ?rs @ replicate n 0) =
        (map of_nat ?rs :: u16 list) @ takeWhile (\<lambda>v. v \<noteq> 0) (replicate n 0)"
      by (rule takeWhile_append2) (auto dest: nz)
    then show ?thesis by (cases n) auto
  qed
  moreover have "utf16_decode (map of_nat ?rs) = ?rs" using bmp by (intro utf16_decode_bmp) auto
  ultimately show ?thesis
    using assms by (simp add: decodeUTF16LE_def Let_def gpt_name_ok_def)
qed

end
