(* ===== verification/BuilderCorrect.thy ===== *)
theory BuilderCorrect
  imports GptEncoding
begin

text \<open>
  What the builder guarantees: the extents \<open>Commit\<close> assigns are aligned, ordered, disjoint and
  inside the usable area; the five writes of \<open>Commit\<close> are disjoint; and \<open>gpt_Parse\<close> on the
  written file gives back exactly the partitions of the builder.  Writes through \<open>sectionRWS\<close>
  stay inside their partition.
\<close>

subsection \<open>Extents\<close>

text \<open>
  \<open>extents lo hi ps\<close>: the partitions follow one another from sector \<open>lo\<close>, on sector
  boundaries, none reaching beyond sector \<open>hi\<close>.
\<close>

fun extents :: "int \<Rightarrow> int \<Rightarrow> bpart list \<Rightarrow> bool" where
  "extents lo hi [] \<longleftrightarrow> lo \<le> hi"
| "extents lo hi (p # ps) \<longleftrightarrow>
     bp_StartByte p = lo * 512 \<and> 512 dvd bp_SizeBytes p \<and> 0 \<le> bp_SizeBytes p \<and>
     extents (lo + bp_SizeBytes p div 512) hi ps"

definition sizes_ok :: "bpart list \<Rightarrow> bool" where
  "sizes_ok ps \<longleftrightarrow> list_all (\<lambda>p. 0 \<le> bp_SizeBytes p \<and> bp_SizeBytes p < 2 ^ 62) ps"

text \<open>The requested size, rounded up to whole sectors.\<close>

definition granted :: "bpart \<Rightarrow> bpart \<Rightarrow> bool" where
  "granted p p' \<longleftrightarrow> bp_Index p' = bp_Index p \<and> bp_TypeGUID p' = bp_TypeGUID p \<and> bp_Name p' = bp_Name p \<and>
     (bp_SizeBytes p \<noteq> 0 \<longrightarrow> bp_SizeBytes p \<le> bp_SizeBytes p' \<and> bp_SizeBytes p' < bp_SizeBytes p + 512)"

lemma assign_one_ok:
  assumes "0 \<le> bp_SizeBytes p" "bp_SizeBytes p < 2 ^ 62" "0 \<le> cursor" "cursor \<le> lastUsable + 1" "lastUsable < 2 ^ 52"
    and "assign_one lastUsable cursor p = (p', s)"
  shows "bp_StartByte p' = cursor * 512 \<and> bp_SizeBytes p' = s * 512 \<and> 0 \<le> s \<and> granted p p' \<and>
    (bp_SizeBytes p = 0 \<longrightarrow> s = lastUsable - cursor + 1)"
proof -
  define z where "z = (if bp_SizeBytes p = 0 then (lastUsable - cursor + 1) * 512 else bp_SizeBytes p)"
  have z: "0 \<le> z" "z < 2 ^ 62" using assms by (auto simp: z_def)
  have "(if bp_SizeBytes p = 0 then wrap64 ((lastUsable - cursor + 1) * 512) else bp_SizeBytes p) = z"
    using assms by (auto simp: z_def)
  then have "s = (z + 511) div 512" "p' = p\<lparr>bp_StartByte := cursor * 512, bp_SizeBytes := s * 512\<rparr>"
    using assms(6) z by (auto simp: assign_one_def Let_def)
  then show ?thesis using z by (auto simp: granted_def z_def)
qed

lemma assign_extents_ok:
  assumes "assign_extents lastUsable cursor ps = (Inr u, ps')" "sizes_ok ps"
    and "0 \<le> cursor" "cursor \<le> lastUsable + 1" "lastUsable < 2 ^ 52"
  shows "extents cursor (lastUsable + 1) ps' \<and> list_all2 granted ps ps'"
  using assms
proof (induction ps arbitrary: cursor ps')
  case (Cons p ps)
  obtain p' s where a: "assign_one lastUsable cursor p = (p', s)" by fastforce
  have ok: "bp_StartByte p' = cursor * 512" "bp_SizeBytes p' = s * 512" "0 \<le> s" "granted p p'"
    using assign_one_ok [OF _ _ _ _ _ a] Cons.prems by (auto simp: sizes_ok_def)
  have fits: "cursor + s \<le> lastUsable + 1" using Cons.prems(1) a by (auto simp: Let_def split: if_splits)
  obtain ps1 where r: "assign_extents lastUsable (cursor + s) ps = (Inr u, ps1)" "ps' = p' # ps1"
    using Cons.prems(1) a by (auto simp: Let_def split: if_splits prod.splits)
  have "extents (cursor + s) (lastUsable + 1) ps1 \<and> list_all2 granted ps ps1"
    using Cons.IH [OF r(1)] Cons.prems ok fits by (auto simp: sizes_ok_def)
  with ok r(2) show ?case by simp
qed (use assms in auto)

lemma extents_le: "extents lo hi ps \<Longrightarrow> lo \<le> hi"
proof (induction ps arbitrary: lo)
  case (Cons p ps)
  then have "lo + bp_SizeBytes p div 512 \<le> hi" "0 \<le> bp_SizeBytes p div 512" by auto
  then show ?case by linarith
qed simp

lemma extents_mem:
  "extents lo hi ps \<Longrightarrow> p \<in> set ps \<Longrightarrow>
   lo * 512 \<le> bp_StartByte p \<and> 0 \<le> bp_SizeBytes p \<and> 512 dvd bp_SizeBytes p \<and> 512 dvd bp_StartByte p \<and>
   bp_StartByte p + bp_SizeBytes p \<le> hi * 512"
proof (induction ps arbitrary: lo)
  case (Cons q ps)
  show ?case
  proof (cases "p = q")
    case True
    then show ?thesis using Cons.prems extents_le [of "lo + bp_SizeBytes q div 512" hi ps] by auto
  next
    case False
    moreover have "0 \<le> bp_SizeBytes q div 512" using Cons.prems by (simp add: pos_imp_zdiv_nonneg_iff)
    ultimately show ?thesis using Cons.IH [of "lo + bp_SizeBytes q div 512"] Cons.prems by auto
  qed
qed simp

lemma extents_ordered:
  "extents lo hi ps \<Longrightarrow> sorted_wrt (\<lambda>p q. bp_StartByte p + bp_SizeBytes p \<le> bp_StartByte q) ps"
proof (induction ps arbitrary: lo)
  case (Cons p ps)
  have "bp_StartByte p + bp_SizeBytes p \<le> bp_StartByte q" if "q \<in> set ps" for q
    using extents_mem [of "lo + bp_SizeBytes p div 512" hi ps q] Cons.prems that by auto
  then show ?case using Cons by auto
qed simp

subsection \<open>Entries\<close>

lemma copy_into_zeros: "sub b off n = zeros n \<Longrightarrow> off + n \<le> length b \<Longrightarrow> copy_into b off (zeros n) = b"
  by (metis copy_into_sub_eq)

definition start_LBA :: "bpart \<Rightarrow> u64" where
  "start_LBA p = of_int (quot (bp_StartByte p) 512)"

definition end_LBA :: "bpart \<Rightarrow> u64" where
  "end_LBA p = start_LBA p + of_int (quot (bp_SizeBytes p) 512) - 1"

definition name_field :: "gostr \<Rightarrow> bytes" where
  "name_field s = (if s = [] then zeros 72 else builderUTF16LE s 36)"

text \<open>The 128 bytes of an entry.\<close>

definition entry_image :: "bpart \<Rightarrow> bytes" where
  "entry_image p = bp_TypeGUID p @ bp_UniqueGUID p @ le64 (start_LBA p) @ le64 (end_LBA p) @ zeros 8 @ name_field (bp_Name p)"

definition bpart_ok :: "bpart \<Rightarrow> bool" where
  "bpart_ok p \<longleftrightarrow> length (bp_TypeGUID p) = 16 \<and> length (bp_UniqueGUID p) = 16"

lemma length_name_field [simp]: "length (name_field s) = 72"
  by (simp add: name_field_def)

lemma length_entry_image: "bpart_ok p \<Longrightarrow> length (entry_image p) = 128"
  by (simp add: entry_image_def bpart_ok_def)

lemma put_entry_image:
  assumes "bpart_ok p" "bp_Index p = int k + 1" "k * 128 + 128 \<le> length buf" "sub buf (k * 128) 128 = zeros 128"
  shows "put_entry buf p = Inr (copy_into buf (k * 128) (entry_image p))"
proof -
  let ?o = "k * 128"
  let ?h = "bp_TypeGUID p @ bp_UniqueGUID p @ le64 (start_LBA p) @ le64 (end_LBA p)"
  have off: "nat ((bp_Index p - 1) * 128) = ?o" using assms(2) by simp
  have l: "length ?h = 48" using assms(1) by (simp add: bpart_ok_def)
  have w: "put64 (put64 (copy_into (copy_into buf ?o (bp_TypeGUID p)) (?o + 16) (bp_UniqueGUID p)) (?o + 32) (start_LBA p))
      (?o + 40) (end_LBA p) = copy_into buf ?o ?h" (is "?w = _")
    using assms(1) copy_into_append [of buf ?o "bp_TypeGUID p" "bp_UniqueGUID p"]
      copy_into_append [of buf ?o "bp_TypeGUID p @ bp_UniqueGUID p" "le64 (start_LBA p)"]
      copy_into_append [of buf ?o "bp_TypeGUID p @ bp_UniqueGUID p @ le64 (start_LBA p)" "le64 (end_LBA p)"]
    by (simp add: put64_def bpart_ok_def)
  have z: "sub (copy_into buf ?o ?h) (?o + 48) n = zeros n" if "n \<le> 80" for n
  proof -
    have "sub (copy_into buf ?o ?h) (?o + 48) n = sub buf (?o + 48) n"
      using l assms(3) that by (intro sub_copy_other) auto
    also have "\<dots> = sub (sub buf ?o 128) 48 n" using that by (simp add: sub_sub)
    finally show ?thesis using assms(4) that by simp
  qed
  have a: "copy_into buf ?o (?h @ zeros 8) = copy_into buf ?o ?h"
    using copy_into_append [of buf ?o ?h "zeros 8"] assms(1) z [of 8] assms(3) unfolding bpart_ok_def
    by (simp add: copy_into_zeros)
  have e: "copy_into buf ?o (entry_image p) = copy_into (copy_into buf ?o ?h) (?o + 56) (name_field (bp_Name p))"
    using copy_into_append [of buf ?o "?h @ zeros 8" "name_field (bp_Name p)"] assms(1) a
    by (simp add: entry_image_def bpart_ok_def)
  have "put_entry buf p = Inr (if bp_Name p \<noteq> [] then copy_into ?w (?o + 56) (builderUTF16LE (bp_Name p) 36) else ?w)"
    using assms(3) unfolding put_entry_def off Let_def start_LBA_def end_LBA_def by simp
  moreover have "copy_into (copy_into buf ?o ?h) (?o + 56) (zeros 72) = copy_into buf ?o ?h"
  proof (rule copy_into_zeros)
    have "sub (copy_into buf ?o ?h) (?o + 56) 72 = sub (sub (copy_into buf ?o ?h) (?o + 48) 80) 8 72"
      by (simp add: sub_sub add.commute)
    then show "sub (copy_into buf ?o ?h) (?o + 56) 72 = zeros 72" using z [of 80] by simp
  qed (use assms(3) in simp)
  ultimately show ?thesis by (simp add: w e name_field_def)
qed

definition indexed :: "nat \<Rightarrow> bpart list \<Rightarrow> bool" where
  "indexed k ps \<longleftrightarrow> (\<forall>i < length ps. bp_Index (ps ! i) = int (k + i) + 1)"

lemma indexed_Cons: "indexed k (p # ps) \<longleftrightarrow> bp_Index p = int k + 1 \<and> indexed (Suc k) ps"
  unfolding indexed_def by (auto simp: nth_Cons' dest: spec [where x = 0] spec [where x = "Suc i" for i])

lemma length_builderNewGUID [simp]: "length (builderNewGUID g) = length g"
  by (simp add: builderNewGUID_def)

lemma slot_other:
  assumes "i \<noteq> k" "i * 128 + 128 \<le> length buf" "length s = 128"
  shows "sub (copy_into buf (k * 128) s) (i * 128) 128 = sub buf (i * 128) 128"
proof (rule sub_copy_other)
  show "i * 128 + 128 \<le> k * 128 \<or> k * 128 + length s \<le> i * 128" using assms by auto
qed (use assms in simp)

lemma put_entries_ok:
  assumes "indexed k ps" "\<forall>p \<in> set ps. length (bp_TypeGUID p) = 16" "\<And>j. length (rnd j) = 16"
    and "(k + length ps) * 128 \<le> length buf" "\<forall>i < k + length ps. k \<le> i \<longrightarrow> sub buf (i * 128) 128 = zeros 128"
  shows "\<exists>buf' ps'. put_entries rnd m buf ps = (Inr buf', ps') \<and> length buf' = length buf \<and>
    list_all2 (\<lambda>p p'. bpart_ok p' \<and> (\<exists>g. p' = p\<lparr>bp_UniqueGUID := g\<rparr>)) ps ps' \<and>
    (\<forall>i. i * 128 + 128 \<le> length buf \<longrightarrow> sub buf' (i * 128) 128 =
       (if k \<le> i \<and> i < k + length ps then entry_image (ps' ! (i - k)) else sub buf (i * 128) 128))"
  using assms
proof (induction ps arbitrary: k m buf)
  case Nil
  then show ?case by auto
next
  case (Cons p ps)
  define p' where "p' = p\<lparr>bp_UniqueGUID := builderNewGUID (rnd m)\<rparr>"
  have ok: "bpart_ok p'" "bp_Index p' = int k + 1"
    using Cons.prems(1,2,3) by (auto simp: p'_def bpart_ok_def indexed_Cons)
  define buf1 where "buf1 = copy_into buf (k * 128) (entry_image p')"
  have pe: "put_entry buf p' = Inr buf1"
    unfolding buf1_def using Cons.prems ok by (intro put_entry_image) auto
  have s1: "sub buf1 (i * 128) 128 = (if i = k then entry_image p' else sub buf (i * 128) 128)"
    if "i * 128 + 128 \<le> length buf" for i
    using that slot_other [of i k buf "entry_image p'"] length_entry_image [OF ok(1)]
    by (auto simp: buf1_def)
  have fit: "i * 128 + 128 \<le> length buf" if "i < Suc k + length ps" for i using that Cons.prems(4) by auto
  obtain buf' ps1 where r: "put_entries rnd (Suc m) buf1 ps = (Inr buf', ps1)" "length buf' = length buf1"
    "list_all2 (\<lambda>p p'. bpart_ok p' \<and> (\<exists>g. p' = p\<lparr>bp_UniqueGUID := g\<rparr>)) ps ps1"
    "\<forall>i. i * 128 + 128 \<le> length buf1 \<longrightarrow> sub buf' (i * 128) 128 =
       (if Suc k \<le> i \<and> i < Suc k + length ps then entry_image (ps1 ! (i - Suc k)) else sub buf1 (i * 128) 128)"
    using Cons.IH [of "Suc k" buf1 "Suc m"] Cons.prems s1 fit
    by (auto simp: indexed_Cons buf1_def)
  have "sub buf' (i * 128) 128 =
      (if k \<le> i \<and> i < k + length (p # ps) then entry_image ((p' # ps1) ! (i - k)) else sub buf (i * 128) 128)"
    if "i * 128 + 128 \<le> length buf" for i
    using that r(4) s1 by (auto simp: buf1_def nth_Cons' not_le Suc_diff_le)
  then show ?case using r pe ok by (auto simp: p'_def [symmetric] buf1_def Let_def) (auto simp: p'_def)
qed

subsection \<open>Reading the entries back\<close>

lemma gpt_loop_eq:
  "gpt_loop buf esz js parts = parts @ (if esz < 128 then [] else
     map (\<lambda>i. gpt_partition i (gpt_entry_of (sub buf (i * esz) esz)))
       (filter (\<lambda>i. \<not> isZero (g_TypeGUID (gpt_entry_of (sub buf (i * esz) esz)))) js))"
  by (induction buf esz js parts rule: gpt_loop.induct) (auto simp: Let_def)

definition to_partition :: "bpart \<Rightarrow> partition" where
  "to_partition p = \<lparr>Index = bp_Index p, StartByte = bp_StartByte p, SizeBytes = bp_SizeBytes p,
     TypeGUID = formatGUID (bp_TypeGUID p), Name = bp_Name p\<rparr>"

lemma decode_name_field: "gpt_name_ok s \<Longrightarrow> decodeUTF16LE (name_field s) = s"
proof (cases "s = []")
  case True
  have "takeWhile (\<lambda>v. v \<noteq> 0) (map (\<lambda>i. get16 (zeros 72) (i * 2)) [0..<36]) = []"
    by (simp add: upt_conv_Cons)
  then show ?thesis using True by (simp add: name_field_def decodeUTF16LE_def Let_def str_def)
qed (simp add: name_field_def decode_builder_name)

lemma entry_of_image:
  assumes "bpart_ok p"
  shows "gpt_entry_of (entry_image p) = \<lparr>g_TypeGUID = bp_TypeGUID p, g_UniqueGUID = bp_UniqueGUID p,
    g_StartLBA = start_LBA p, g_EndLBA = end_LBA p, g_Attributes = 0, g_Name = name_field (bp_Name p)\<rparr>"
proof -
  note l = assms [unfolded bpart_ok_def]
  have "get64 (entry_image p) 32 = start_LBA p"
    using l c64.get_local [of 32 "entry_image p"] length_entry_image [OF assms]
    by (simp add: entry_image_def sub_def get64_le64)
  moreover have "get64 (entry_image p) 40 = end_LBA p"
    using l c64.get_local [of 40 "entry_image p"] length_entry_image [OF assms]
    by (simp add: entry_image_def sub_def get64_le64)
  moreover have "get64 (entry_image p) 48 = 0"
  proof -
    have "get64 (entry_image p) 48 = get64 (zeros 8) 0"
      using l c64.get_local [of 48 "entry_image p"] length_entry_image [OF assms]
      by (simp add: entry_image_def sub_def)
    then show ?thesis by (simp add: get64_def)
  qed
  moreover have "sub (entry_image p) 56 72 = name_field (bp_Name p)"
    using l by (simp add: entry_image_def sub_def)
  ultimately show ?thesis using l by (simp add: gpt_entry_of_def) (simp add: entry_image_def sub_def)
qed

lemma gpt_partition_image:
  assumes "bpart_ok p" "bp_Index p = int i + 1" "gpt_name_ok (bp_Name p)"
    and "0 \<le> bp_StartByte p" "bp_StartByte p < 2 ^ 62" "512 dvd bp_StartByte p"
    and "0 \<le> bp_SizeBytes p" "bp_SizeBytes p < 2 ^ 62" "512 dvd bp_SizeBytes p"
  shows "gpt_partition i (gpt_entry_of (entry_image p)) = to_partition p"
proof -
  obtain a b where ab: "bp_StartByte p = 512 * a" "bp_SizeBytes p = 512 * b"
    using assms(6,9) by (auto elim!: dvdE)
  have r: "0 \<le> a" "a < 2 ^ 53" "0 \<le> b" "b < 2 ^ 53" using assms ab by auto
  have w: "sint (of_int x :: u64) = x" if "0 \<le> x" "x < 2 ^ 53" for x
    using that by (simp add: sint_sbintrunc' signed_take_bit_int_eq_self)
  have s: "start_LBA p = of_int a" "end_LBA p - of_int a + 1 = of_int b"
    using r ab by (simp_all add: start_LBA_def end_LBA_def)
  show ?thesis
    using assms r ab w [of a] w [of b]
    by (simp add: entry_of_image gpt_partition_def to_partition_def s decode_name_field mult.commute)
qed

subsection \<open>Headers\<close>

lemma length_builderGPTHeader [simp]: "length (builderGPTHeader my alt fu lu g es ne sz crc) = 92"
  by (simp add: builderGPTHeader_def Let_def)

lemma builderGPTHeader_fields:
  assumes "length g = 16"
  shows "sub (builderGPTHeader my alt fu lu g es ne sz crc) 0 8 = bs ''EFI PART''"
    and "get64 (builderGPTHeader my alt fu lu g es ne sz crc) 72 = of_int es"
    and "get32 (builderGPTHeader my alt fu lu g es ne sz crc) 80 = of_nat ne"
    and "get32 (builderGPTHeader my alt fu lu g es ne sz crc) 84 = of_nat sz"
  using assms by (simp_all add: builderGPTHeader_def Let_def codec_simps byte_simps)

lemma length_builderPadSector [simp]: "length (builderPadSector b n) = n"
  by (simp add: builderPadSector_def)

lemma builderPadSector_fields:
  assumes "length b \<le> n"
  shows "off + k \<le> length b \<Longrightarrow> sub (builderPadSector b n) off k = sub b off k"
    and "off + 8 \<le> length b \<Longrightarrow> get64 (builderPadSector b n) off = get64 b off"
    and "off + 4 \<le> length b \<Longrightarrow> get32 (builderPadSector b n) off = get32 b off"
  using assms by (simp_all add: builderPadSector_def sub_copy_inner c64.get_copy_inner c32.get_copy_inner)

lemma length_protective_mbr [simp]: "length (protective_mbr t) = 512"
  by (simp add: protective_mbr_def Let_def)

lemma protective_mbr_protective: "hasProtective (protective_mbr t)"
proof -
  have "protective_mbr t ! (0x1BE + 0 * 16 + 4) = 0xEE"
    by (simp add: protective_mbr_def Let_def codec_simps)
  then show ?thesis by (simp add: hasProtective_def)
qed

subsection \<open>The file \<open>Commit\<close> leaves\<close>

text \<open>The writes of \<open>Commit\<close> as a list of offsets and data.\<close>

definition gpt_writes :: "int \<Rightarrow> bytes \<Rightarrow> bytes \<Rightarrow> (nat \<times> bytes) list" where
  "gpt_writes t g entryBuf =
     (let hdr = (\<lambda>my alt es. builderPadSector (builderGPTHeader my alt 34 (t - 34 - 1) g es 128 128 (ChecksumIEEE entryBuf)) 512)
      in [(0, protective_mbr t), (512, hdr 1 (t - 1) 2), (1024, entryBuf),
          (nat ((t - 1 - 32) * 512), entryBuf), (nat ((t - 1) * 512), hdr (t - 1) 1 (t - 1 - 32))])"

lemma gpt_writes_disjoint:
  assumes "68 \<le> t" "length entryBuf = 16384"
  shows "fstore.disjoint_writes (gpt_writes t g entryBuf)"
proof -
  obtain n where n: "nat (t * 512 - 16896) = n + 17920" "nat (t * 512 - 512) = n + 34304"
  proof
    show "nat (t * 512 - 16896) = nat (t * 512 - 34816) + 17920" "nat (t * 512 - 512) = nat (t * 512 - 34816) + 34304"
      using assms(1) by auto
  qed
  show ?thesis
    unfolding fstore.disjoint_writes_def fstore.apart_def gpt_writes_def Let_def
    using n assms(2) by (auto simp: nth_Cons' less_Suc_eq left_diff_distrib)
qed

lemma b_writeAt_open:
  "\<not> closed (b_f b) \<Longrightarrow> 0 \<le> off \<Longrightarrow>
   b_writeAt what d off b = (Inr (), b\<lparr>b_f := (b_f b)\<lparr>contents := write_bytes (contents (b_f b)) (nat off) d\<rparr>\<rparr>)"
  by (simp add: b_writeAt_def WriteAt_open)

lemma gpt_writes_parse:
  assumes "68 \<le> t" "length entryBuf = 16384" "length g = 16" "\<not> closed f"
    and c: "contents f = fstore.wr_all (gpt_writes t g entryBuf) cc"
  shows "gpt_Parse f = Inr (gpt_loop entryBuf 128 [0..<128] [])"
proof -
  let ?ws = "gpt_writes t g entryBuf"
  define hdr where "hdr = builderPadSector (builderGPTHeader 1 (t - 1) 34 (t - 34 - 1) g 2 128 128 (ChecksumIEEE entryBuf)) 512"
  have rd: "ReadAt f (length d) (int off) = (d, None)" if "(off, d) \<in> set ?ws" "0 < length d" for off d
  proof -
    have s: "sub (contents f) off (length d) = d"
      unfolding c using gpt_writes_disjoint [OF assms(1,2)] that(1) that(2) [unfolded length_greater_0_conv]
      by (rule fstore.wr_all_disjoint)
    then have "length d = min (length d) (length (contents f) - off)" by (metis length_sub)
    then have "off + length d \<le> length (contents f)" using that(2) by linarith
    then show ?thesis using assms(4) s by (simp add: ReadAt_inside)
  qed
  have 0: "ReadAt f 512 0 = (protective_mbr t, None)"
    using rd [of 0 "protective_mbr t"] by (force simp: gpt_writes_def Let_def)
  have 1: "ReadAt f 512 512 = (hdr, None)"
    using rd [of 512 hdr] by (force simp: gpt_writes_def Let_def hdr_def)
  have 2: "ReadAt f 16384 1024 = (entryBuf, None)"
    using rd [of 1024 entryBuf] assms(2) by (force simp: gpt_writes_def Let_def)
  have h: "sub hdr 0 8 = bs ''EFI PART''" "get64 hdr 72 = 2" "get32 hdr 80 = 128" "get32 hdr 84 = 128"
    using assms(3) by (simp_all add: hdr_def builderPadSector_fields builderGPTHeader_fields)
  show ?thesis
    by (simp add: gpt_Parse_def 0 1 2 h protective_mbr_protective gpt_header_of_def Let_def)
qed

definition builder_ok :: "'v builder \<Rightarrow> bool" where
  "builder_ok b \<longleftrightarrow>
     \<not> closed (b_f b) \<and> b_diskSize b = file_size (b_f b) \<and> 68 * 512 \<le> b_diskSize b \<and> b_diskSize b < 2 ^ 61 \<and>
     b_partitions b \<noteq> [] \<and> length (b_partitions b) \<le> 128 \<and> indexed 0 (b_partitions b) \<and> sizes_ok (b_partitions b) \<and>
     list_all (\<lambda>p. length (bp_TypeGUID p) = 16 \<and> \<not> isZero (bp_TypeGUID p) \<and> gpt_name_ok (bp_Name p)) (b_partitions b)"

lemma granted_indexed: "list_all2 granted ps ps' \<Longrightarrow> indexed k ps \<Longrightarrow> indexed k ps'"
  by (auto simp: list_all2_conv_all_nth indexed_def granted_def)

lemma entries_parse:
  assumes "indexed 0 ps" "length ps \<le> 128" "extents 34 hi ps" "hi \<le> 2 ^ 52"
    and "list_all (\<lambda>p. bpart_ok p \<and> \<not> isZero (bp_TypeGUID p) \<and> gpt_name_ok (bp_Name p)) ps"
    and "\<And>i. i < 128 \<Longrightarrow> sub buf (i * 128) 128 = (if i < length ps then entry_image (ps ! i) else zeros 128)"
  shows "gpt_loop buf 128 [0..<128] [] = map to_partition ps"
proof -
  let ?e = "\<lambda>i. gpt_entry_of (sub buf (i * 128) 128)"
  have up: "[0..<128] = [0..<length ps] @ [length ps..<128]"
    using assms(2) upt_add_eq_append [of 0 "length ps" "128 - length ps"] by simp
  have z: "isZero (g_TypeGUID (?e i))" if "length ps \<le> i" "i < 128" for i
    using that assms(6) [of i] by (simp add: gpt_entry_of_def isZero_def zeros_def sub_def list_all_length)
  have nz: "\<not> isZero (g_TypeGUID (?e i))" if "i < length ps" for i
    using that assms(2,5) assms(6) [of i] by (auto simp: entry_of_image list_all_length)
  have "filter (\<lambda>i. \<not> isZero (g_TypeGUID (?e i))) [0..<128] = [0..<length ps]"
    unfolding up filter_append using z nz by (simp add: filter_empty_conv)
  then have "gpt_loop buf 128 [0..<128] [] = map (\<lambda>i. gpt_partition i (?e i)) [0..<length ps]"
    by (simp add: gpt_loop_eq)
  also have "\<dots> = map to_partition ps"
  proof (rule nth_equalityI)
    fix i assume "i < length (map (\<lambda>i. gpt_partition i (?e i)) [0..<length ps])"
    then have i: "i < length ps" by simp
    have m: "34 * 512 \<le> bp_StartByte (ps ! i)" "0 \<le> bp_SizeBytes (ps ! i)" "512 dvd bp_SizeBytes (ps ! i)"
      "512 dvd bp_StartByte (ps ! i)" "bp_StartByte (ps ! i) + bp_SizeBytes (ps ! i) \<le> hi * 512"
      using extents_mem [OF assms(3) nth_mem [OF i]] by auto
    have "gpt_partition i (gpt_entry_of (entry_image (ps ! i))) = to_partition (ps ! i)"
      using m assms(1,4,5) i by (intro gpt_partition_image) (auto simp: list_all_length indexed_def)
    then show "map (\<lambda>i. gpt_partition i (?e i)) [0..<length ps] ! i = map to_partition ps ! i"
      using i assms(2) assms(6) [of i] by simp
  qed simp
  finally show ?thesis .
qed

lemma extents_cong:
  "list_all2 (\<lambda>p q. bp_StartByte p = bp_StartByte q \<and> bp_SizeBytes p = bp_SizeBytes q) ps qs \<Longrightarrow>
   extents lo hi ps \<longleftrightarrow> extents lo hi qs"
  by (induction ps qs arbitrary: lo rule: list_all2_induct) auto

lemma Commit_ok_aux:
  assumes "builder_ok b" "fst (assign_extents (quot (b_diskSize b) 512 - 34 - 1) 34 (b_partitions b)) = Inr ()"
    and rnd: "\<And>j. length (rnd j) = 16"
  shows "\<exists>b' img. Commit rnd b = (Inr (), b') \<and> b_committed b' = Some img \<and> img_isGPT img \<and>
    img_partitions img = map to_partition (b_partitions b') \<and> img_f img = b_f b' \<and> img_size img = b_diskSize b \<and>
    list_all2 granted (b_partitions b) (b_partitions b') \<and>
    extents 34 (quot (b_diskSize b) 512 - 34) (b_partitions b') \<and>
    \<not> closed (b_f b') \<and> length (contents (b_f b')) = length (contents (b_f b))"
proof -
  define t where "t = quot (b_diskSize b) 512"
  note ok = assms(1) [unfolded builder_ok_def]
  have t: "68 \<le> t" "t * 512 \<le> b_diskSize b" "t \<le> 2 ^ 52" "t = b_diskSize b div 512"
    using ok by (auto simp: t_def)
  obtain ps1 where a: "assign_extents (t - 34 - 1) 34 (b_partitions b) = (Inr (), ps1)"
    using assms(2) by (metis t_def prod.collapse)
  have e1: "extents 34 (t - 34) ps1" "list_all2 granted (b_partitions b) ps1"
    using assign_extents_ok [OF a] ok t by auto
  have g1: "length ps1 = length (b_partitions b)" "indexed 0 ps1"
    using e1(2) granted_indexed ok by (auto dest: list_all2_lengthD)
  have p1: "list_all (\<lambda>p. length (bp_TypeGUID p) = 16 \<and> \<not> isZero (bp_TypeGUID p) \<and> gpt_name_ok (bp_Name p)) ps1"
    using e1(2) ok by (auto simp: list_all2_conv_all_nth list_all_length granted_def)
  have zz: "\<forall>i < 0 + length ps1. 0 \<le> i \<longrightarrow> sub (zeros 16384) (i * 128) 128 = zeros 128"
    using g1(1) ok by auto
  obtain entryBuf ps3 where pe: "put_entries rnd 1 (zeros 16384) ps1 = (Inr entryBuf, ps3)" "length entryBuf = 16384"
    "list_all2 (\<lambda>p p'. bpart_ok p' \<and> (\<exists>g. p' = p\<lparr>bp_UniqueGUID := g\<rparr>)) ps1 ps3"
    "\<forall>i. i * 128 + 128 \<le> 16384 \<longrightarrow> sub entryBuf (i * 128) 128 =
       (if i < length ps1 then entry_image (ps3 ! i) else sub (zeros 16384) (i * 128) 128)"
    using put_entries_ok [OF g1(2) _ _ _ zz, where m = 1 and rnd = rnd] rnd p1 g1(1) ok by (auto simp: list_all_iff)
  have g3: "length ps3 = length ps1" using pe(3) by (auto dest: list_all2_lengthD)
  have i3: "indexed 0 ps3" using pe(3) g1(2) by (fastforce simp: list_all2_conv_all_nth indexed_def)
  have p3: "list_all (\<lambda>p. bpart_ok p \<and> \<not> isZero (bp_TypeGUID p) \<and> gpt_name_ok (bp_Name p)) ps3"
    using pe(3) p1 by (fastforce simp: list_all2_conv_all_nth list_all_length)
  have e3: "extents 34 (t - 34) ps3"
    using e1(1) extents_cong [of ps1 ps3] pe(3) by (fastforce simp: list_all2_conv_all_nth)
  have gr3: "list_all2 granted (b_partitions b) ps3"
    using e1(2) pe(3) by (fastforce simp: list_all2_conv_all_nth granted_def)
  define g where "g = builderNewGUID (rnd 0)"
  define f' where "f' = (b_f b)\<lparr>contents := fstore.wr_all (gpt_writes t g entryBuf) (contents (b_f b))\<rparr>"
  define b4 where "b4 = b\<lparr>b_f := f', b_partitions := ps3, b_diskGUID := g\<rparr>"
  have open': "\<not> closed (b_f b)" using ok by simp
  have run: "Commit rnd b = (case Attach (Inr f') of
      Inl e \<Rightarrow> (Inl (Wrapped ''diskimg.Builder.Commit: re-attach'' e), b4)
    | Inr img \<Rightarrow> (Inr (), b4\<lparr>b_committed := Some img\<rparr>))"
  proof -
    have upd: "F\<lparr>closed := False\<rparr> = F" if "\<not> closed F" for F :: gofile using that by (cases F) simp
    show ?thesis
      using a pe(1) open' t(1) unfolding Commit_def t_def [symmetric] Let_def b4_def f'_def
      by (cases b) (simp add: bindS_def b_writeAt_open commit_writes_def Let_def g_def [symmetric] gpt_writes_def upd split: sum.split)
  qed
  have parse: "gpt_Parse f' = Inr (map to_partition ps3)"
  proof -
    have "gpt_Parse f' = Inr (gpt_loop entryBuf 128 [0..<128] [])"
      using t(1) pe(2) rnd [of 0] open'
      by (intro gpt_writes_parse [where g = g and cc = "contents (b_f b)"]) (auto simp: f'_def g_def)
    also have "gpt_loop entryBuf 128 [0..<128] [] = map to_partition ps3"
      using i3 g3 g1(1) ok e3 t p3 pe(4) by (intro entries_parse [where hi = "t - 34"]) auto
    finally show ?thesis .
  qed
  have len: "length (contents f') = length (contents (b_f b))"
  proof (rule antisym)
    have "\<forall>w \<in> set (gpt_writes t g entryBuf). fst w + length (snd w) \<le> length (contents (b_f b))"
      using t ok pe(2) by (auto simp: gpt_writes_def Let_def file_size_def)
    then show "length (contents f') \<le> length (contents (b_f b))"
      by (simp add: f'_def fstore.len_wr_all_bound)
    show "length (contents (b_f b)) \<le> length (contents f')"
      by (simp add: f'_def fstore.len_wr_all_le)
  qed
  have ne: "map to_partition ps3 \<noteq> []" using g3 g1(1) ok by auto
  have att: "Attach (Inr f') = Inr \<lparr>img_f = f', img_size = file_size f', img_isGPT = True,
      img_partitions = map to_partition ps3, img_regions = buildRegions (map to_partition ps3) (file_size f') True, img_mounts = []\<rparr>"
    using parse ne by (simp add: Attach_def Let_def)
  show ?thesis
    using ok len gr3 e3 open' unfolding run att t_def [symmetric]
    by (auto simp: b4_def f'_def file_size_def)
qed

subsection \<open>Writes through a partition window\<close>

definition rws_ok :: "gofile \<Rightarrow> sectionRWS \<Rightarrow> bool" where
  "rws_ok f s \<longleftrightarrow> 0 \<le> s_base s \<and> s_base s < 2 ^ 63 \<and> 0 \<le> s_pos s \<and> s_pos s < 2 ^ 63 \<and> s_base s + s_size s \<le> file_size f \<and> file_size f < 2 ^ 63"

text \<open>Every byte outside the window is the same in the two files.\<close>

definition same_outside :: "int \<Rightarrow> int \<Rightarrow> gofile \<Rightarrow> gofile \<Rightarrow> bool" where
  "same_outside lo hi f f' \<longleftrightarrow> length (contents f') = length (contents f) \<and>
     (\<forall>i < length (contents f). int i < lo \<or> hi \<le> int i \<longrightarrow> contents f' ! i = contents f ! i)"

lemma same_outside_refl: "same_outside lo hi f f"
  by (simp add: same_outside_def)

lemma same_outside_trans: "same_outside lo hi f g \<Longrightarrow> same_outside lo hi g h \<Longrightarrow> same_outside lo hi f h"
  by (simp add: same_outside_def)

lemma rws_Write_appends:
  assumes "rws_ok f s" "\<not> closed f" "s_pos s + int (length p) \<le> s_size s"
  shows "rws_Write p (f, s) = (Inr (length p),
    (f\<lparr>contents := write_bytes (contents f) (nat (s_base s + s_pos s)) p\<rparr>, s\<lparr>s_pos := s_pos s + int (length p)\<rparr>))"
  using assms by (simp add: rws_Write_def rws_ok_def WriteAt_open)

text \<open>A write at the position \<open>pos\<close> that ends inside the window.\<close>

lemma write_inside:
  assumes "rws_ok f s" "s_pos s + int (length p) \<le> s_size s"
  defines "f' \<equiv> f\<lparr>contents := write_bytes (contents f) (nat (s_base s + s_pos s)) p\<rparr>"
  shows "rws_ok f' (s\<lparr>s_pos := s_pos s + int (length p)\<rparr>)" "same_outside (s_base s) (s_base s + s_size s) f f'"
proof -
  have in_file: "nat (s_base s + s_pos s) + length p \<le> length (contents f)"
    using assms(1,2) by (auto simp: rws_ok_def file_size_def)
  have len: "length (write_bytes (contents f) (nat (s_base s + s_pos s)) p) = length (contents f)"
    using in_file by (simp add: length_write_bytes)
  have out: "write_bytes (contents f) (nat (s_base s + s_pos s)) p ! i = contents f ! i"
    if "i < length (contents f)" "int i < s_base s \<or> s_base s + s_size s \<le> int i" for i
    using that assms(1,2) by (subst nth_write_bytes) (auto simp: rws_ok_def)
  show "rws_ok f' (s\<lparr>s_pos := s_pos s + int (length p)\<rparr>)" using assms(1,2) len by (simp add: rws_ok_def f'_def file_size_def)
  show "same_outside (s_base s) (s_base s + s_size s) f f'" using len out by (simp add: same_outside_def f'_def)
qed

text \<open>
  The sum of position and length wraps around for a position near the largest \<open>int64\<close>, and the check
  passes.  The offset in the file then wraps around too, or the write ends beyond the largest offset a
  file can have, where the operating system refuses it.
\<close>

lemma rws_Write_confined:
  assumes "rws_ok f s" "rws_Write p (f, s) = (r, f', s')" "wrap64 (s_base s + s_pos s) + int (length p) < 2 ^ 63"
  shows "rws_ok f' s' \<and> same_outside (s_base s) (s_base s + s_size s) f f' \<and> s_base s' = s_base s \<and> s_size s' = s_size s"
proof -
  have ok: "0 \<le> s_base s" "s_base s < 2 ^ 63" "0 \<le> s_pos s" "s_pos s < 2 ^ 63" "s_base s + s_size s \<le> file_size f" "file_size f < 2 ^ 63"
    using assms(1) by (simp_all add: rws_ok_def)
  consider (refused) "wrap64 (s_pos s + int (length p)) > s_size s"
    | (inside) "s_pos s + int (length p) \<le> s_size s"
    | (wrapped) "\<not> wrap64 (s_pos s + int (length p)) > s_size s" "\<not> s_pos s + int (length p) \<le> s_size s" by linarith
  then show ?thesis
  proof cases
    case refused
    then show ?thesis using assms(1,2) by (auto simp: rws_Write_def same_outside_refl)
  next
    case inside
    show ?thesis
    proof (cases "closed f")
      case True
      then show ?thesis using assms(1,2) inside ok by (auto simp: rws_Write_def WriteAt_def same_outside_refl split: if_splits)
    next
      case False
      from rws_Write_appends [OF assms(1) this inside] write_inside [OF assms(1) inside] show ?thesis using assms(2) by auto
    qed
  next
    case wrapped
    have "\<not> s_pos s + int (length p) < 2 ^ 63"
    proof
      assume "s_pos s + int (length p) < 2 ^ 63"
      then have "wrap64 (s_pos s + int (length p)) = s_pos s + int (length p)" using ok(3) by simp
      then show False using wrapped by simp
    qed
    then have long: "2 ^ 63 \<le> s_pos s + int (length p)" by simp
    have "\<not> s_base s + s_pos s < 2 ^ 63"
    proof
      assume "s_base s + s_pos s < 2 ^ 63"
      then have "wrap64 (s_base s + s_pos s) = s_base s + s_pos s" using ok by simp
      then show False using assms(3) long ok(1) by simp
    qed
    then have b: "2 ^ 63 \<le> s_base s + s_pos s" by simp
    have "wrap64 (s_base s + s_pos s) = s_base s + s_pos s - 2 ^ 64"
    proof -
      have "(s_base s + s_pos s - 2 ^ 63) mod 2 ^ 64 = s_base s + s_pos s - 2 ^ 63" using b ok by (intro mod_pos_pos_trivial) simp_all
      moreover have "(s_base s + s_pos s + 2 ^ 63) mod 2 ^ 64 = (s_base s + s_pos s - 2 ^ 63) mod 2 ^ 64"
        using mod_add_self2 [of "s_base s + s_pos s - 2 ^ 63" "2 ^ 64"] by (simp add: add.commute)
      ultimately show ?thesis by (simp add: wrap64_def)
    qed
    then have "wrap64 (s_base s + s_pos s) < 0" using ok by simp
    then show ?thesis using assms(1,2) wrapped(1) by (auto simp: rws_Write_def WriteAt_def same_outside_refl split: if_splits)
  qed
qed

lemma rws_Read_ok:
  assumes "rws_ok f s" "rws_Read f s n = (r, s')"
  shows "rws_ok f s'"
proof -
  have "0 \<le> wrap64 (s_pos s + int (length (fst (ReadAt f k (wrap64 (s_base s + s_pos s))))))"
    if "s_pos s < s_size s" "k = (if int n > wrap64 (s_size s - s_pos s) then nat (wrap64 (s_size s - s_pos s)) else n)" for k
  proof -
    have ok: "0 \<le> s_pos s" "s_size s < 2 ^ 63" using assms(1) by (simp_all add: rws_ok_def)
    then have "wrap64 (s_size s - s_pos s) = s_size s - s_pos s" using that(1) by simp
    then have "int k \<le> s_size s - s_pos s" using that by (auto split: if_splits)
    moreover have "length (fst (ReadAt f k (wrap64 (s_base s + s_pos s)))) \<le> k" by (simp add: ReadAt_def Let_def)
    ultimately have "s_pos s + int (length (fst (ReadAt f k (wrap64 (s_base s + s_pos s))))) < 2 ^ 63" using ok by linarith
    then show ?thesis using ok(1) by simp
  qed
  then show ?thesis using assms wrap64_range
    by (auto simp: rws_Read_def rws_ok_def Let_def split: if_splits prod.splits)
qed

lemma rws_Seek_ok: "rws_ok f s \<Longrightarrow> rws_Seek off w s = (r, s') \<Longrightarrow> - (2 ^ 63) \<le> off \<Longrightarrow> off < 2 ^ 63 \<Longrightarrow> rws_ok f s'"
  using wrap64_range [of "s_pos s + off"] wrap64_range [of "s_size s + off"]
  by (auto simp: rws_Seek_def rws_ok_def Let_def split: if_splits)

end
