(* ===== verification/DiskProps.thy ===== *)
theory DiskProps
  imports BuilderCorrect
begin

text \<open>
  The properties of the partition-table, image and builder components, each with an
  application to a concrete disk where it has hypotheses.  The supporting lemmas are in
  \<open>Partitions\<close>, \<open>Regions\<close>, \<open>Image\<close>, \<open>GptEncoding\<close> and \<open>BuilderCorrect\<close>; this theory adds the step
  relation of the partition window.
\<close>

subsection \<open>Regions\<close>

definition two_parts :: "partition list" where
  "two_parts =
     [\<lparr>Index = 1, StartByte = 20480, SizeBytes = 4096, TypeGUID = [], Name = []\<rparr>,
      \<lparr>Index = 2, StartByte = 17408, SizeBytes = 1024, TypeGUID = [], Name = []\<rparr>]"

lemma two_parts_ok:
  "parts_disjoint two_parts" "two_parts \<noteq> []" "list_all (part_within (usable_end 40960 True)) two_parts"
  by (auto simp: two_parts_def parts_disjoint_def part_within_def usable_end_def less_Suc_eq)

text \<open>
  C8. For a table of disjoint partitions inside the usable part of the disk, the region map
  tiles the disk: the regions are non-empty, in order, adjacent, and cover every byte from 0 to
  the end of the file; and the partition regions are exactly the partitions of the table, with
  their extents and numbers.
\<close>

theorem buildRegions_tiles_disk:
  assumes "parts \<noteq> []" "parts_disjoint parts" "list_all (part_within (usable_end fileSize isGPT)) parts"
    and "fileSize < 2 ^ 63"
  shows "tiles 0 (buildRegions parts fileSize isGPT) fileSize \<and>
    {r \<in> set (buildRegions parts fileSize isGPT). Kind r = RegionPartition} =
      (\<lambda>p. \<lparr>Kind = RegionPartition, Start = StartByte p, End = StartByte p + SizeBytes p,
             PartitionIndex = Index p\<rparr>) ` set parts"
proof -
  have e: "wrap64 (StartByte p + SizeBytes p) = StartByte p + SizeBytes p" if "p \<in> set parts" for p
    using assms(3,4) that by (intro wrap64_id) (auto simp: list_all_iff part_within_def usable_end_def split: if_splits)
  let ?rs = "buildRegions parts fileSize isGPT"
  let ?g = "\<lambda>p. \<lparr>Kind = RegionPartition, Start = StartByte p, End = StartByte p + SizeBytes p,
             PartitionIndex = Index p\<rparr>"
  have "?g p \<in> set ?rs" if "p \<in> set parts" for p
    using buildRegions_partition [OF that, of fileSize isGPT] e [OF that] by simp
  moreover have "r \<in> ?g ` set parts" if r: "r \<in> set ?rs" "Kind r = RegionPartition" for r
    using buildRegions_only_partitions [OF r] e by auto
  ultimately have "{r \<in> set ?rs. Kind r = RegionPartition} = ?g ` set parts" by auto
  then show ?thesis using buildRegions_tiles_aux [OF assms] by blast
qed

theorem buildRegions_tiles_disk_witness:
  "tiles 0 (buildRegions two_parts 40960 True) 40960"
  using buildRegions_tiles_disk [of two_parts 40960 True] two_parts_ok by simp

subsection \<open>Tables\<close>

text \<open>
  C27. What the MBR parser returns is well formed: at most four partitions, numbered by their
  slot in increasing order, each with a sector-aligned, non-negative start and a positive,
  sector-aligned size, and starting inside a disk of known size.
\<close>

theorem mbr_Parse_well_formed:
  assumes "mbr_Parse f diskSize = Inr ps"
  shows "length ps \<le> 4 \<and> sorted_wrt (<) (map Index ps) \<and>
    (\<forall>p \<in> set ps. 1 \<le> Index p \<and> Index p \<le> 4 \<and> 0 \<le> StartByte p \<and> 512 dvd StartByte p \<and>
       0 < SizeBytes p \<and> 512 dvd SizeBytes p \<and> (0 < diskSize \<longrightarrow> StartByte p < diskSize))"
proof -
  have ok: "list_all (mbr_part_ok diskSize) ps" "sorted_wrt (<) (map Index ps)"
    using mbr_Parse_ok [OF assms] by auto
  have "set (map Index ps) \<subseteq> {1..4}" using ok(1) by (auto simp: list_all_iff mbr_part_ok_def)
  then have "card (set (map Index ps)) \<le> 4" using card_mono [of "{1..4::int}"] by fastforce
  moreover have "distinct (map Index ps)" using ok(2) by (simp add: strict_sorted_iff)
  ultimately have "length ps \<le> 4" using distinct_card by fastforce
  with ok show ?thesis by (auto simp: list_all_iff mbr_part_ok_def)
qed

definition mbr_disk :: gofile where
  "mbr_disk =
     \<lparr>contents = put32 (put32 ((zeros 512)[450 := 0x0C, 510 := 0x55, 511 := 0xAA]) 454 1) 458 2,
      closed = False\<rparr>"

lemma mbr_disk_Parse:
  "mbr_Parse mbr_disk 4096 = Inr [\<lparr>Index = 1, StartByte = 512, SizeBytes = 1024, TypeGUID = [], Name = []\<rparr>]"
  by code_simp

theorem mbr_Parse_well_formed_witness:
  "mbr_Parse mbr_disk 4096 = Inr [\<lparr>Index = 1, StartByte = 512, SizeBytes = 1024, TypeGUID = [], Name = []\<rparr>] \<and>
   length [\<lparr>Index = 1, StartByte = 512, SizeBytes = 1024, TypeGUID = [], Name = []\<rparr>] \<le> 4"
  using mbr_Parse_well_formed [OF mbr_disk_Parse] mbr_disk_Parse by blast

text \<open>
  \<open>Attach\<close> accepts a disk without a partition table: a readable file of at least one sector
  with neither a protective entry nor a boot signature becomes an image with a single partition
  that spans the file, and one region for it.
\<close>

lemma Attach_whole_disk:
  assumes "\<not> closed f" "512 \<le> length (contents f)" "file_size f < 2 ^ 63"
    and "\<not> hasProtective (sub (contents f) 0 512)" "get16 (contents f) 510 \<noteq> 0xAA55"
  shows "Attach (Inr f) = Inr \<lparr>img_f = f, img_size = file_size f, img_isGPT = False,
    img_partitions = [\<lparr>Index = 1, StartByte = 0, SizeBytes = file_size f, TypeGUID = [], Name = []\<rparr>],
    img_regions = [\<lparr>Kind = RegionPartition, Start = 0, End = file_size f, PartitionIndex = 1\<rparr>],
    img_mounts = []\<rparr>"
proof -
  have r: "ReadAt f 512 0 = (sub (contents f) 0 512, None)" using assms by (simp add: ReadAt_inside)
  have g: "get16 (sub (contents f) 0 512) 510 = get16 (contents f) 510"
    using assms(2) by (simp add: get16_def)
  have "gpt_Parse f = Inr []" using r assms(4) by (simp add: gpt_Parse_def)
  moreover have "mbr_Parse f (file_size f) = Inr []" using r g assms(5) by (simp add: mbr_Parse_def)
  ultimately show ?thesis using assms(3)
    by (simp add: Attach_def whole_disk_def buildRegions_def span_of_def Let_def file_size_def)
qed

lemma Attach_whole_disk_witness:
  "Attach (Inr \<lparr>contents = zeros 1024, closed = False\<rparr>) = Inr \<lparr>img_f = \<lparr>contents = zeros 1024, closed = False\<rparr>,
    img_size = 1024, img_isGPT = False,
    img_partitions = [\<lparr>Index = 1, StartByte = 0, SizeBytes = 1024, TypeGUID = [], Name = []\<rparr>],
    img_regions = [\<lparr>Kind = RegionPartition, Start = 0, End = 1024, PartitionIndex = 1\<rparr>], img_mounts = []\<rparr>"
  using Attach_whole_disk [of "\<lparr>contents = zeros 1024, closed = False\<rparr>"]
  by (simp add: hasProtective_def file_size_def)

text \<open>
  Looking up a partition of the table by its number finds the region with that partition's
  extent, when the numbers are distinct; a number the table does not have is an error.
\<close>

lemma findPartitionRegion_exact:
  assumes "image_ok img" "distinct (map Index (img_partitions img))"
  shows "findPartitionRegion img i =
    (case find (\<lambda>p. Index p = i) (img_partitions img) of
       Some p \<Rightarrow> Inr \<lparr>Kind = RegionPartition, Start = StartByte p, End = wrap64 (StartByte p + SizeBytes p), PartitionIndex = i\<rparr>
     | None \<Rightarrow> Inl (Err ''partition not found''))"
proof (cases "find (\<lambda>p. Index p = i) (img_partitions img)")
  case (Some p)
  then have "p \<in> set (img_partitions img)" "Index p = i" by (auto simp: find_Some_iff)
  then show ?thesis using Some findPartitionRegion_unique [OF _ assms(2)] assms(1) by (auto simp: image_ok_def)
next
  case None
  have "find_region (img_regions img) i = None"
    using None assms(1) buildRegions_only_partitions [of _ "img_partitions img" "img_size img" "img_isGPT img"]
    by (force simp: find_region_None find_None_iff image_ok_def)
  with None show ?thesis by (simp add: findPartitionRegion_def)
qed

definition two_image :: "nat image" where
  "two_image = \<lparr>img_f = \<lparr>contents = zeros 40960, closed = False\<rparr>, img_size = 40960, img_isGPT = True,
     img_partitions = two_parts, img_regions = buildRegions two_parts 40960 True, img_mounts = []\<rparr>"

lemma two_image_ok: "image_ok two_image"
  by (simp add: image_ok_def two_image_def file_size_def two_parts_def)

lemma findPartitionRegion_exact_witness:
  "findPartitionRegion two_image 2 = Inr \<lparr>Kind = RegionPartition, Start = 17408, End = 18432, PartitionIndex = 2\<rparr> \<and>
   findPartitionRegion two_image 3 = Inl (Err ''partition not found'')"
  using findPartitionRegion_exact [of two_image 2] findPartitionRegion_exact [of two_image 3] two_image_ok
  by (simp add: two_image_def two_parts_def)

text \<open>
  A mounted volume is cached: mounting the same partition again, without a subvolume, gives
  the same volume and leaves the image as it is, whatever the drivers now answer; and mounting
  changes neither the file nor the mounts of other partitions.
\<close>

lemma Mount_cached:
  assumes "Mount D img i [] = (Inr v, img')"
  shows "Mount D' img' i [] = (Inr v, img') \<and> img_f img' = img_f img \<and> img_regions img' = img_regions img \<and>
    (\<forall>j. j \<noteq> i \<longrightarrow> map_of (img_mounts img') j = map_of (img_mounts img) j)"
  using assms
  by (auto simp: Mount_def update_conv' split: option.splits sum.splits)

definition fat_label_disk :: gofile where
  "fat_label_disk = \<lparr>contents = copy_into ((zeros 1024)[510 := 0x55, 511 := 0xAA]) 82 (bs ''FAT32''), closed = False\<rparr>"

definition one_driver :: "nat \<Rightarrow> nat drivers" where
  "one_driver k = \<lparr>btrfs_Open = (\<lambda>f s z. Inl EOF), btrfs_OpenSubvol = (\<lambda>f v n. Inl EOF), ext4_Open = (\<lambda>f s z. Inl EOF),
     xfs_Open = (\<lambda>f s z. Inl EOF), ntfs_Open = (\<lambda>f s z. Inl EOF), fat32_Open = (\<lambda>f s z t. Inr k)\<rparr>"

definition label_image :: "nat image" where
  "label_image = \<lparr>img_f = fat_label_disk, img_size = 1024, img_isGPT = False, img_partitions = [whole_disk 1024],
     img_regions = [\<lparr>Kind = RegionPartition, Start = 0, End = 1024, PartitionIndex = 1\<rparr>], img_mounts = []\<rparr>"

lemma label_image_Mount: "Mount (one_driver 7) label_image 1 [] = (Inr 7, label_image\<lparr>img_mounts := [(1, 7)]\<rparr>)"
  by code_simp

lemma Mount_cached_witness:
  "Mount (one_driver 8) (label_image\<lparr>img_mounts := [(1, 7)]\<rparr>) 1 [] = (Inr 7, label_image\<lparr>img_mounts := [(1, 7)]\<rparr>)"
  using Mount_cached [OF label_image_Mount, of "one_driver 8"] by blast

subsection \<open>Encodings of the builder\<close>

text \<open>
  C29. Every 16-byte GUID printed by the GPT parser is parsed back to the same bytes by the
  builder's GUID parser: the mixed-endian field order of the two agree.
\<close>

theorem mustParseGPTGUID_formatGUID:
  assumes "length g = 16"
  shows "mustParseGPTGUID (formatGUID g) = Inr g"
  using assms by (rule mustParse_format_aux)

theorem mustParseGPTGUID_formatGUID_witness:
  "mustParseGPTGUID (formatGUID [1, 2, 3, 4, 5, 6, 7, 8, 9, 10, 11, 12, 13, 14, 15, 16]) =
     Inr [1, 2, 3, 4, 5, 6, 7, 8, 9, 10, 11, 12, 13, 14, 15, 16]"
  by (rule mustParseGPTGUID_formatGUID) simp

text \<open>
  A partition name of at most 36 non-zero code points of the basic plane survives the
  builder's encoding and the parser's decoding.
\<close>

lemma gpt_name_round_trip:
  assumes "s = str (runes s)" "length (runes s) \<le> 36"
    and "\<forall>r \<in> set (runes s). valid_rune r \<and> 0 < r \<and> r < 0x10000"
  shows "decodeUTF16LE (builderUTF16LE s 36) = s"
  using assms by (intro decode_builder_name) (simp add: gpt_name_ok_def list_all_iff)

lemma gpt_name_round_trip_witness:
  "decodeUTF16LE (builderUTF16LE (bs ''EFI'' @ [0xC3, 0xA9]) 36) = bs ''EFI'' @ [0xC3, 0xA9]"
proof -
  have r: "runes (bs ''EFI'' @ [0xC3, 0xA9]) = [69, 70, 73, 233]"
    by (simp add: runes_def decode_rune_def cont_def)
  have s: "str [69, 70, 73, 233] = bs ''EFI'' @ [0xC3, 0xA9]"
    by (simp add: str_def encode_rune_def valid_rune_def)
  have "\<forall>r \<in> set [69, 70, 73, 233]. valid_rune r \<and> 0 < r \<and> r < 0x10000" by (simp add: valid_rune_def)
  moreover have "bs ''EFI'' @ [0xC3, 0xA9] = str (runes (bs ''EFI'' @ [0xC3, 0xA9]))" unfolding r s ..
  moreover have "length (runes (bs ''EFI'' @ [0xC3, 0xA9])) \<le> 36" unfolding r by simp
  ultimately show ?thesis using gpt_name_round_trip r by metis
qed

text \<open>
  C7. \<open>Commit\<close> on a well-formed builder either rejects the layout, without having written a
  byte, or succeeds; then parsing the table it wrote gives back exactly its partitions, each
  with the size asked for rounded up to whole sectors, laid out one after the other between the
  primary and the backup table, and the file keeps its length.
\<close>

theorem Commit_round_trip:
  assumes "builder_ok b" "\<And>j. length (rnd j) = 16"
  shows "(\<exists>b' img. Commit rnd b = (Inr (), b') \<and> b_committed b' = Some img \<and> img_isGPT img \<and>
      img_partitions img = map to_partition (b_partitions b') \<and> img_f img = b_f b' \<and>
      list_all2 granted (b_partitions b) (b_partitions b') \<and>
      extents 34 (quot (b_diskSize b) 512 - 34) (b_partitions b') \<and>
      length (contents (b_f b')) = length (contents (b_f b))) \<or>
    (\<exists>b'. Commit rnd b = (Inl (Err ''diskimg.Builder: partition exceeds usable space''), b') \<and> b_f b' = b_f b)"
proof (cases "fst (assign_extents (quot (b_diskSize b) 512 - 34 - 1) 34 (b_partitions b))")
  case (Inr u)
  then show ?thesis using Commit_ok_aux [OF assms(1) _ assms(2)] by force
next
  case (Inl e)
  have err: "fst (assign_extents l c ps) = Inl e' \<Longrightarrow> e' = Err ''diskimg.Builder: partition exceeds usable space''" for l c ps e'
  proof (induction ps arbitrary: c)
    case (Cons p ps)
    obtain p' n where "assign_one l c p = (p', n)" by fastforce
    then show ?case using Cons.prems Cons.IH [of "c + n"]
      by (cases "assign_extents l (c + n) ps") (auto split: if_splits)
  qed simp
  obtain ps1 where a: "assign_extents (quot (b_diskSize b) 512 - 34 - 1) 34 (b_partitions b) = (Inl e, ps1)"
    using Inl by (metis prod.collapse)
  show ?thesis using err [OF Inl] a by (auto simp: Commit_def Let_def)
qed

definition small_parts :: "bpart list" where
  "small_parts =
     [\<lparr>bp_Index = 1, bp_TypeGUID = replicate 16 1, bp_UniqueGUID = zeros 16, bp_Name = [], bp_StartByte = 0, bp_SizeBytes = 1000\<rparr>,
      \<lparr>bp_Index = 2, bp_TypeGUID = replicate 16 2, bp_UniqueGUID = zeros 16, bp_Name = [], bp_StartByte = 0, bp_SizeBytes = 0\<rparr>]"

definition small_builder :: "nat builder" where
  "small_builder = \<lparr>b_f = \<lparr>contents = zeros 51200, closed = False\<rparr>, b_diskSize = 51200,
     b_partitions = small_parts,
     b_committed = None, b_diskGUID = zeros 16\<rparr>"

lemma small_parts_ok:
  "indexed 0 small_parts" "sizes_ok small_parts" "small_parts \<noteq> []" "length small_parts \<le> 128"
  "list_all (\<lambda>p. length (bp_TypeGUID p) = 16 \<and> \<not> isZero (bp_TypeGUID p) \<and> gpt_name_ok (bp_Name p)) small_parts"
  by (simp_all add: small_parts_def indexed_def sizes_ok_def isZero_def gpt_name_ok_def runes_def str_def nth_Cons' list_all_iff)

lemma small_builder_ok: "builder_ok small_builder"
  using small_parts_ok by (simp add: builder_ok_def small_builder_def file_size_def)

lemma small_builder_extents:
  "assign_extents (quot 51200 512 - 34 - 1) 34 small_parts =
    (Inr (), [(hd small_parts)\<lparr>bp_StartByte := 17408, bp_SizeBytes := 1024\<rparr>,
              (last small_parts)\<lparr>bp_StartByte := 18432, bp_SizeBytes := 15360\<rparr>])"
  by (simp add: small_parts_def assign_one_def Let_def)

theorem Commit_round_trip_witness:
  "\<exists>b' img. Commit (\<lambda>_. zeros 16) small_builder = (Inr (), b') \<and> b_committed b' = Some img \<and>
     map StartByte (img_partitions img) = [17408, 18432] \<and> SizeBytes (hd (img_partitions img)) = 1024"
proof -
  have z: "\<And>j. length (zeros 16) = 16" by simp
  have "fst (Commit (\<lambda>_. zeros 16) small_builder) = Inr ()"
    using Commit_ok_aux [OF small_builder_ok, of "\<lambda>_. zeros 16"] small_builder_extents
    by (auto simp: small_builder_def)
  then obtain b' img where c: "Commit (\<lambda>_. zeros 16) small_builder = (Inr (), b')" "b_committed b' = Some img"
    "img_partitions img = map to_partition (b_partitions b')" "list_all2 granted small_parts (b_partitions b')"
    "extents 34 66 (b_partitions b')"
    using Commit_round_trip [OF small_builder_ok z] by (fastforce simp: small_builder_def)
  obtain p q where pq: "b_partitions b' = [p, q]"
    using c(4) by (auto simp: small_parts_def list_all2_Cons1)
  obtain k where k: "bp_SizeBytes p = 512 * k" using c(5) pq by auto
  have "1000 \<le> 512 * k" "512 * k < 1512" using c(4) by (auto simp: pq small_parts_def granted_def k)
  then have "k = 2" by linarith
  then have "map StartByte (img_partitions img) = [17408, 18432] \<and> SizeBytes (hd (img_partitions img)) = 1024"
    using c(3,5) by (simp add: pq k to_partition_def)
  with c(1,2) show ?thesis by (intro exI [of _ b'] exI [of _ img]) simp
qed

subsection \<open>The partition window\<close>

text \<open>
  A client of \<open>OpenRaw\<close> reads, writes and seeks in any order, to any \<open>int64\<close> offset.  No file has an
  offset beyond the largest \<open>int64\<close>: the operating system refuses a write that would end there
  (\<open>EFBIG\<close>), so such a write is not a step.
\<close>

inductive rws_step :: "gofile \<times> sectionRWS \<Rightarrow> gofile \<times> sectionRWS \<Rightarrow> bool" where
  rd: "rws_Read f s n = (r, s') \<Longrightarrow> rws_step (f, s) (f, s')"
| wr: "rws_Write p (f, s) = (r, t) \<Longrightarrow> wrap64 (s_base s + s_pos s) + int (length p) < 2 ^ 63 \<Longrightarrow> rws_step (f, s) t"
| sk: "rws_Seek off w s = (r, s') \<Longrightarrow> - (2 ^ 63) \<le> off \<Longrightarrow> off < 2 ^ 63 \<Longrightarrow> rws_step (f, s) (f, s')"

lemma rws_step_confined:
  assumes "rws_step (f, s) (f', s')" "rws_ok f s"
  shows "rws_ok f' s' \<and> same_outside (s_base s) (s_base s + s_size s) f f' \<and>
    s_base s' = s_base s \<and> s_size s' = s_size s"
  using assms(1)
proof (cases rule: rws_step.cases)
  case (rd n r)
  then show ?thesis using assms(2) rws_Read_ok [OF assms(2)] by (auto simp: rws_Read_def Let_def same_outside_refl split: if_splits prod.splits)
next
  case (wr p r)
  then show ?thesis using rws_Write_confined [OF assms(2)] by blast
next
  case (sk off w r)
  then show ?thesis using rws_Seek_ok [OF assms(2)]
    by (auto simp: rws_Seek_def same_outside_refl Let_def split: if_splits)
qed

lemma rws_steps_confined:
  assumes "rws_step\<^sup>*\<^sup>* (f, s) (f', s')" "rws_ok f s"
  shows "rws_ok f' s' \<and> same_outside (s_base s) (s_base s + s_size s) f f' \<and>
    s_base s' = s_base s \<and> s_size s' = s_size s"
  using assms
proof (induction "(f', s')" arbitrary: f' s' rule: rtranclp_induct)
  case base
  then show ?case by (simp add: same_outside_refl)
next
  case (step t)
  obtain g u where t: "t = (g, u)" by fastforce
  with step have "rws_ok g u \<and> same_outside (s_base s) (s_base s + s_size s) f g \<and> s_base u = s_base s \<and> s_size u = s_size s"
    by blast
  then show ?case using rws_step_confined [of g u f' s'] step.hyps(2) t same_outside_trans by metis
qed

text \<open>
  C9. Whatever sequence of reads, writes and seeks a client performs through the window of one
  partition of a file, no byte outside that partition changes, the file keeps its length, and the
  window stays where it is.  That holds also where the boundary check of \<open>Write\<close> is passed because
  the sum of position and length wraps around.
\<close>

theorem window_confined:
  assumes "OpenRaw b i = Inr s" "0 \<le> s_base s" "0 \<le> s_size s" "s_base s + s_size s \<le> file_size f" "file_size f < 2 ^ 63"
    and "rws_step\<^sup>*\<^sup>* (f, s) (f', s')"
  shows "length (contents f') = length (contents f) \<and> s_base s' = s_base s \<and> s_size s' = s_size s \<and> 0 \<le> s_pos s' \<and>
    (\<forall>k < length (contents f). int k < s_base s \<or> s_base s + s_size s \<le> int k \<longrightarrow> contents f' ! k = contents f ! k)"
proof -
  have "s_pos s = 0" using assms(1) by (auto simp: OpenRaw_def split: if_splits option.splits)
  then have "rws_ok f s" using assms(2-5) by (simp add: rws_ok_def)
  from rws_steps_confined [OF assms(6) this] show ?thesis by (simp add: same_outside_def rws_ok_def)
qed

text \<open>The check does not see a write whose end wraps around: it goes on to the file, which refuses the offset.\<close>

lemma check_wraps:
  "rws_Write [1, 2] (\<lparr>contents = zeros 8, closed = False\<rparr>, \<lparr>s_base = 2, s_size = 3, s_pos = 9223372036854775807\<rparr>) =
     (Inl ErrNegOffset, \<lparr>contents = zeros 8, closed = False\<rparr>, \<lparr>s_base = 2, s_size = 3, s_pos = 9223372036854775807\<rparr>)"
  by (simp add: rws_Write_def wrap64_def WriteAt_def)

definition open_builder :: "nat builder" where
  "open_builder = small_builder\<lparr>b_committed := Some two_image,
     b_partitions := [\<lparr>bp_Index = 1, bp_TypeGUID = [], bp_UniqueGUID = [], bp_Name = [], bp_StartByte = 2, bp_SizeBytes = 3\<rparr>]\<rparr>"

theorem window_confined_witness:
  "\<exists>f' s'. rws_step\<^sup>*\<^sup>* (\<lparr>contents = zeros 8, closed = False\<rparr>, \<lparr>s_base = 2, s_size = 3, s_pos = 0\<rparr>) (f', s') \<and>
     contents f' = [0, 0, 0, 7, 9, 0, 0, 0] \<and> s_pos s' = 3 \<and> length (contents f') = length (zeros 8)"
proof -
  let ?f = "\<lparr>contents = zeros 8, closed = False\<rparr>" and ?f' = "\<lparr>contents = [0, 0, 0, 7, 9, 0, 0, 0], closed = False\<rparr>"
  let ?s = "\<lambda>p. \<lparr>s_base = 2, s_size = 3, s_pos = p\<rparr>"
  have e: "rws_Seek 1 0 (?s 0) = (Inr 1, ?s 1)" "rws_Write [7, 9] (?f, ?s 1) = (Inr 2, ?f', ?s 3)"
    by code_simp+
  have "rws_step (?f, ?s 0) (?f, ?s 1)" by (rule rws_step.sk [OF e(1)]) simp_all
  moreover have "rws_step (?f, ?s 1) (?f', ?s 3)" by (rule rws_step.wr [OF e(2)]) simp
  ultimately have r: "rws_step\<^sup>*\<^sup>* (?f, ?s 0) (?f', ?s 3)" by (rule converse_rtranclp_into_rtranclp [OF _ r_into_rtranclp])
  have "OpenRaw open_builder 1 = Inr (?s 0)" by (simp add: OpenRaw_def open_builder_def)
  from window_confined [OF this _ _ _ _ r] have "length (contents ?f') = length (contents ?f)"
    by (simp add: file_size_def)
  with r show ?thesis by (intro exI [of _ ?f'] exI [of _ "?s 3"]) simp
qed

end
