(* ===== verification/FatTable.thy ===== *)
theory FatTable
  imports GoFile Partitions "HOL-Library.AList"
begin

text \<open>
  The FAT driver: volume state, boot sector, file allocation table, cluster input/output and
  cluster allocation (\<open>src/fat32/open.go\<close> and the first part of \<open>src/fat32/write.go\<close>).

  The volume's partition is read through the image file, which is an argument \<open>f\<close> of the
  reading operations; nothing but \<open>flush\<close> writes to it.  The map \<open>dirty\<close> of staged sectors is an
  association list.  A walk along a cluster chain gets as fuel the size of the table: every
  entry it can read without leaving the table is visited at most once unless the chain is a
  cycle, in which case the Go loop never ends and the model returns \<open>Diverge\<close>.
\<close>

subsection \<open>State\<close>

record bpb =
  bytesPerSec :: u16
  secPerClus :: u8
  rsvdSecCnt :: u16
  numFATs :: u8
  rootEntCnt :: u16
  fatSz16 :: u16
  fatSz32 :: u32
  rootClus :: u32
  totSec16 :: u16
  totSec32 :: u32
  fatType :: fstype
  fatSz :: u32
  firstDataSec :: u32
  cntClusters :: u32
  rootDirSec :: u32
  firstRootDir :: u32
  clusterSize :: u32

record fatvol =
  v_rw :: bool                      \<comment> \<open>\<open>rw != nil\<close>\<close>
  v_sr :: section_reader
  v_start :: int
  v_b :: bpb
  v_ft :: fstype
  fat1 :: bytes
  dirty :: "(u32 \<times> bytes) list"

subsection \<open>Boot sector\<close>

definition readBPB :: "gofile \<Rightarrow> section_reader \<Rightarrow> bpb res" where
  "readBPB f sr =
     bindR (wrapR ''fat32: read boot sector'' (full (SecReadAt f sr 512 0))) (\<lambda>buf.
       let bps = get16 buf 11; spc = buf ! 13; rsvd = get16 buf 14; nf = buf ! 16; rec = get16 buf 17;
           ts16 = get16 buf 19; sz16 = get16 buf 22; sz32 = get32 buf 36; rc = get32 buf 44; ts32 = get32 buf 32
       in if bps = 0 \<or> spc = 0 then Inl (Err ''fat32: invalid BPB'')
          else let fsz = (if sz16 \<noteq> 0 then ucast sz16 else sz32);
                   totSec = (if (ucast ts16 :: u32) = 0 then ts32 else ucast ts16);
                   rds = (ucast rec * 32 + ucast bps - 1) div ucast bps;
                   fds = ucast rsvd + ucast nf * fsz + rds;
                   dataSec = totSec - fds;
                   cnt = dataSec div ucast spc;
                   ty = (if cnt < 4085 then FAT12 else if cnt < 65525 then FAT16 else FAT32)
               in Inr \<lparr>bytesPerSec = bps, secPerClus = spc, rsvdSecCnt = rsvd, numFATs = nf, rootEntCnt = rec,
                       fatSz16 = sz16, fatSz32 = sz32, rootClus = rc, totSec16 = ts16, totSec32 = ts32,
                       fatType = ty, fatSz = fsz, firstDataSec = fds, cntClusters = cnt, rootDirSec = rds,
                       firstRootDir = (if ty = FAT32 then rc else ucast rsvd + ucast nf * fsz),
                       clusterSize = ucast bps * ucast spc\<rparr>)"

definition readFATTable :: "gofile \<Rightarrow> section_reader \<Rightarrow> bpb \<Rightarrow> bytes res" where
  "readFATTable f sr b =
     full (SecReadAt f sr (unat (fatSz b) * unat (bytesPerSec b)) (int (unat (rsvdSecCnt b)) * int (unat (bytesPerSec b))))"

definition fat_Open :: "gofile \<Rightarrow> int \<Rightarrow> int \<Rightarrow> fstype \<Rightarrow> fatvol res" where
  "fat_Open f start sz ft =
     (let sr = NewSectionReader start sz in
      bindR (readBPB f sr) (\<lambda>b.
      bindR (readFATTable f sr b) (\<lambda>t.
        Inr \<lparr>v_rw = True, v_sr = sr, v_start = start, v_b = b, v_ft = fatType b, fat1 = t, dirty = []\<rparr>)))"

subsection \<open>FAT entries\<close>

definition slice_ok :: "bytes \<Rightarrow> u32 \<Rightarrow> u32 \<Rightarrow> bool" where
  "slice_ok b lo hi \<longleftrightarrow> lo \<le> hi \<and> unat hi \<le> length b"

definition fat_get :: "fstype \<Rightarrow> bytes \<Rightarrow> u32 \<Rightarrow> u32 res" where
  "fat_get ty t n =
     (case ty of
        FAT12 \<Rightarrow> (let off = n + n div 2 in
          if \<not> slice_ok t off (off + 2) then bounds_panic
          else let w = get16 t (unat off) in
               Inr (if n mod 2 = 0 then ucast w AND 0xFFF else drop_bit 4 (ucast w)))
      | FAT16 \<Rightarrow> (let off = n * 2 in
          if \<not> slice_ok t off (off + 2) then bounds_panic else Inr (ucast (get16 t (unat off))))
      | _ \<Rightarrow> (let off = n * 4 in
          if \<not> slice_ok t off (off + 4) then bounds_panic else Inr (get32 t (unat off) AND 0x0FFFFFFF)))"

definition fat_set :: "fstype \<Rightarrow> bytes \<Rightarrow> u32 \<Rightarrow> u32 \<Rightarrow> bytes res" where
  "fat_set ty t n val =
     (case ty of
        FAT12 \<Rightarrow> (let off = n + n div 2 in
          if \<not> slice_ok t off (off + 2) then bounds_panic
          else let w = get16 t (unat off);
                   w' = (if n mod 2 = 0 then (w AND 0xF000) OR ucast (val AND 0xFFF)
                         else (w AND 0x000F) OR ucast (push_bit 4 (val AND 0xFFF)))
               in Inr (put16 t (unat off) w'))
      | FAT16 \<Rightarrow>
          (if \<not> slice_ok t (n * 2) (n * 2 + 2) then bounds_panic else Inr (put16 t (unat (n * 2)) (ucast val)))
      | _ \<Rightarrow>
          (if \<not> slice_ok t (n * 4) (n * 4 + 4) then bounds_panic
           else let existing = get32 t (unat (n * 4))
                in Inr (put32 t (unat (n * 4)) ((existing AND 0xF0000000) OR (val AND 0x0FFFFFFF)))))"

definition fatEntry :: "fatvol \<Rightarrow> u32 \<Rightarrow> u32 res" where
  "fatEntry v n = fat_get (fatType (v_b v)) (fat1 v) n"

definition setFATEntry :: "fatvol \<Rightarrow> u32 \<Rightarrow> u32 \<Rightarrow> fatvol res" where
  "setFATEntry v n val = bindR (fat_set (fatType (v_b v)) (fat1 v) n val) (\<lambda>t. Inr (v\<lparr>fat1 := t\<rparr>))"

definition eoc_min :: "fstype \<Rightarrow> u32" where
  "eoc_min ty = (case ty of FAT12 \<Rightarrow> 0xFF8 | FAT16 \<Rightarrow> 0xFFF8 | _ \<Rightarrow> 0x0FFFFFF8)"

definition isEOC :: "fatvol \<Rightarrow> u32 \<Rightarrow> bool" where
  "isEOC v val \<longleftrightarrow> eoc_min (fatType (v_b v)) \<le> val"

definition eocValue :: "fatvol \<Rightarrow> u32" where
  "eocValue v = (case fatType (v_b v) of FAT12 \<Rightarrow> 0xFFF | FAT16 \<Rightarrow> 0xFFFF | _ \<Rightarrow> 0x0FFFFFFF)"

subsection \<open>Clusters\<close>

definition clusterByteOff :: "fatvol \<Rightarrow> u32 \<Rightarrow> int" where
  "clusterByteOff v n =
     (int (unat (firstDataSec (v_b v))) + int (unat (n - 2)) * int (unat (secPerClus (v_b v)))) * int (unat (bytesPerSec (v_b v)))"

definition firstSec :: "fatvol \<Rightarrow> u32 \<Rightarrow> u32" where
  "firstSec v n = firstDataSec (v_b v) + (n - 2) * ucast (secPerClus (v_b v))"

text \<open>The staged sectors laid over a buffer that starts at sector \<open>first\<close>.\<close>

definition overlay :: "(u32 \<times> bytes) list \<Rightarrow> nat \<Rightarrow> u32 \<Rightarrow> nat \<Rightarrow> bytes \<Rightarrow> bytes" where
  "overlay d secSize first cnt buf =
     fold (\<lambda>i b. case map_of d (first + of_nat i) of
             Some x \<Rightarrow> copy_into b (i * secSize) x | None \<Rightarrow> b) [0..<cnt] buf"

definition readCluster :: "gofile \<Rightarrow> fatvol \<Rightarrow> u32 \<Rightarrow> bytes res" where
  "readCluster f v n =
     (if n < 2 then Inl (Err ''fat32: invalid cluster'')
      else bindR (wrapR ''fat32: read cluster''
                   (full (SecReadAt f (v_sr v) (unat (clusterSize (v_b v))) (clusterByteOff v n)))) (\<lambda>buf.
             Inr (overlay (dirty v) (unat (bytesPerSec (v_b v))) (firstSec v n) (unat (secPerClus (v_b v))) buf)))"

text \<open>Staging one sector of a buffer; \<open>copy\<close> into a fresh buffer of one sector.\<close>

definition stage :: "nat \<Rightarrow> u32 \<Rightarrow> bytes \<Rightarrow> nat \<Rightarrow> (u32 \<times> bytes) list \<Rightarrow> (u32 \<times> bytes) list" where
  "stage secSize first data i d =
     AList.update (first + of_nat i) (copy_into (zeros secSize) 0 (sub data (i * secSize) secSize)) d"

definition writeCluster :: "u32 \<Rightarrow> bytes \<Rightarrow> fatvol \<Rightarrow> fatvol" where
  "writeCluster n data v =
     v\<lparr>dirty := fold (stage (unat (bytesPerSec (v_b v))) (firstSec v n) data) [0..<unat (secPerClus (v_b v))] (dirty v)\<rparr>"

subsection \<open>Allocation\<close>

text \<open>The range \<open>for n := uint32(2); n < cntClusters+2; n++\<close>.\<close>

definition clusters :: "fatvol \<Rightarrow> u32 list" where
  "clusters v = map of_nat [2..<unat (cntClusters (v_b v) + 2)]"

fun count_free :: "fatvol \<Rightarrow> u32 list \<Rightarrow> nat res" where
  "count_free v [] = Inr 0"
| "count_free v (n # ns) =
     bindR (fatEntry v n) (\<lambda>e. bindR (count_free v ns) (\<lambda>k. Inr (if e = 0 then Suc k else k)))"

definition StatFS :: "fatvol \<Rightarrow> volinfo res" where
  "StatFS v = bindR (count_free v (clusters v)) (\<lambda>free.
     let total = int (unat (cntClusters (v_b v))); cs = int (unat (clusterSize (v_b v))) in
     Inr \<lparr>TotalBytes = total * cs, FreeBytes = int free * cs, UsedBytes = (total - int free) * cs,
          BlockSize = int (unat (bytesPerSec (v_b v))), Inodes = 0, InodesFree = 0\<rparr>)"

fun find_free :: "fatvol \<Rightarrow> u32 list \<Rightarrow> u32 option res" where
  "find_free v [] = Inr None"
| "find_free v (n # ns) = bindR (fatEntry v n) (\<lambda>e. if e = 0 then Inr (Some n) else find_free v ns)"

definition allocCluster :: "(fatvol, u32) sop" where
  "allocCluster =
     bindS (readS (\<lambda>v. find_free v (clusters v))) (\<lambda>o'. case o' of
       None \<Rightarrow> failS (Err ''fat32: disk full'')
     | Some n \<Rightarrow> bindS (updS (\<lambda>v. setFATEntry v n (eocValue v))) (\<lambda>_. retS n))"

definition appendCluster :: "u32 \<Rightarrow> (fatvol, u32) sop" where
  "appendCluster lst = bindS allocCluster (\<lambda>n. bindS (updS (\<lambda>v. setFATEntry v lst n)) (\<lambda>_. retS n))"

definition chain_fuel :: "fatvol \<Rightarrow> nat" where
  "chain_fuel v = length (fat1 v) + 2"

fun chain_loop :: "nat \<Rightarrow> fatvol \<Rightarrow> u32 \<Rightarrow> u32 list res" where
  "chain_loop 0 v cur = Inl Diverge"
| "chain_loop (Suc k) v cur =
     (if cur < 2 then Inr []
      else bindR (fatEntry v cur) (\<lambda>nx.
             if isEOC v nx then Inr [cur]
             else bindR (chain_loop k v nx) (\<lambda>cs. Inr (cur # cs))))"

definition clusterChain :: "fatvol \<Rightarrow> u32 \<Rightarrow> u32 list res" where
  "clusterChain v first = chain_loop (chain_fuel v) v first"

fun free_loop :: "nat \<Rightarrow> u32 \<Rightarrow> (fatvol, unit) sop" where
  "free_loop 0 cur v = (Inl Diverge, v)"
| "free_loop (Suc k) cur v =
     (if cur < 2 then (Inr (), v)
      else bindS (readS (\<lambda>v. fatEntry v cur)) (\<lambda>nx.
             if isEOC v nx then updS (\<lambda>v. setFATEntry v cur 0)
             else bindS (updS (\<lambda>v. setFATEntry v cur 0)) (\<lambda>_. free_loop k nx)) v)"

definition freeChain :: "u32 \<Rightarrow> (fatvol, unit) sop" where
  "freeChain first v = free_loop (chain_fuel v) first v"

end
