(* ===== verification/FatBits.thy ===== *)
theory FatBits
  imports FatTable
begin

text \<open>
  The file allocation table as an array.  A table is a string of bits, entry \<open>n\<close> being the bits
  from \<open>width * n\<close> on: 12-bit entries share bytes with their neighbours, 32-bit entries leave
  their top four bits alone.  The locale \<open>fat_array\<close> is the contract of the table with its
  clients -- allocation and chains -- and the driver's \<open>fatEntry\<close> and \<open>setFATEntry\<close> satisfy it.
\<close>

subsection \<open>Tables as bit strings\<close>

definition bitAt :: "bytes \<Rightarrow> nat \<Rightarrow> bool" where
  "bitAt b i = bit (b ! (i div 8)) (i mod 8)"

lemma bit_get16: "j < 16 \<Longrightarrow> bit (get16 b off) j = bitAt b (8 * off + j)"
proof -
  assume j: "j < 16"
  show ?thesis
  proof (cases "j < 8")
    case True
    then show ?thesis by (simp add: get16_def bitAt_def bit_simps div_add1_eq)
  next
    case False
    then obtain k where k: "j = 8 + k" "k < 8" using j by (metis add_less_cancel_left le_add_diff_inverse not_less numeral_Bit0)
    have "(8 * off + j) div 8 = off + 1" "(8 * off + j) mod 8 = k" using k by auto
    then show ?thesis using k by (auto simp: get16_def bitAt_def bit_simps dest: bit_imp_le_length)
  qed
qed

lemma bit_get32: "j < 32 \<Longrightarrow> bit (get32 b off) j = bitAt b (8 * off + j)"
proof -
  assume j: "j < 32"
  define q r where "q = j div 8" and "r = j mod 8"
  have qr: "j = 8 * q + r" "r < 8" "q < 4" using j by (auto simp: q_def r_def)
  have e: "(8 * off + j) div 8 = off + q" "(8 * off + j) mod 8 = r" using qr by auto
  consider "q = 0" | "q = 1" | "q = 2" | "q = 3" using qr(3) by linarith
  then show ?thesis
    by cases (use qr e in \<open>auto simp: get32_def bitAt_def bit_simps dest: bit_imp_le_length\<close>)
qed

lemma bitAt_copy_into:
  assumes "off + length s \<le> length b" "i < 8 * length b"
  shows "bitAt (copy_into b off s) i = (if 8 * off \<le> i \<and> i < 8 * (off + length s) then bitAt s (i - 8 * off) else bitAt b i)"
proof (cases "8 * off \<le> i")
  case True
  then obtain k where "i = 8 * off + k" using le_iff_add by blast
  then show ?thesis using assms by (auto simp: bitAt_def nth_copy_into)
next
  case False
  then have "i div 8 < off" by linarith
  then show ?thesis using False assms by (auto simp: bitAt_def nth_copy_into)
qed

lemma bitAt_le16: "j < 16 \<Longrightarrow> bitAt (le16 w) j = bit w j"
  using bit_get16 [of j "le16 w" 0] by (simp add: get16_le16)

lemma bitAt_le32: "j < 32 \<Longrightarrow> bitAt (le32 w) j = bit w j"
  using bit_get32 [of j "le32 w" 0] by (simp add: get32_le32)

lemma bitAt_put16:
  "off + 2 \<le> length b \<Longrightarrow> i < 8 * length b \<Longrightarrow>
   bitAt (put16 b off w) i = (if 8 * off \<le> i \<and> i < 8 * off + 16 then bit w (i - 8 * off) else bitAt b i)"
  by (auto simp: put16_def bitAt_copy_into bitAt_le16)

lemma bitAt_put32:
  "off + 4 \<le> length b \<Longrightarrow> i < 8 * length b \<Longrightarrow>
   bitAt (put32 b off w) i = (if 8 * off \<le> i \<and> i < 8 * off + 32 then bit w (i - 8 * off) else bitAt b i)"
  by (auto simp: put32_def bitAt_copy_into bitAt_le32)

subsection \<open>Entries\<close>

definition ent_width :: "fstype \<Rightarrow> nat" where
  "ent_width ty = (case ty of FAT12 \<Rightarrow> 12 | FAT16 \<Rightarrow> 16 | _ \<Rightarrow> 32)"

definition ent_bits :: "fstype \<Rightarrow> nat" where
  "ent_bits ty = (case ty of FAT12 \<Rightarrow> 12 | FAT16 \<Rightarrow> 16 | _ \<Rightarrow> 28)"

text \<open>Entry \<open>n\<close> lies inside the table, and its offset does not wrap.\<close>

definition in_fat :: "fstype \<Rightarrow> bytes \<Rightarrow> u32 \<Rightarrow> bool" where
  "in_fat ty t n \<longleftrightarrow> ent_width ty * (unat n + 1) \<le> 8 * length t \<and> unat n < 2 ^ ent_bits ty"

lemma unat_mod2: "(n :: u32) mod 2 = 0 \<longleftrightarrow> unat n mod 2 = 0"
proof -
  have "unat (n mod 2) = unat n mod 2" by (simp add: unat_mod_distrib)
  then show ?thesis by (metis unat_eq_zero)
qed

lemma unat_small_add: "unat (n :: u32) + unat m < 2 ^ 32 \<Longrightarrow> unat (n + m) = unat n + unat m"
  by (simp add: unat_word_ariths)

lemma unat_small_mult: "unat (n :: u32) * unat m < 2 ^ 32 \<Longrightarrow> unat (n * m) = unat n * unat m"
  by (simp add: unat_word_ariths)

lemma off12:
  assumes "unat (n :: u32) < 2 ^ 12"
  shows "unat (n + n div 2) = unat n + unat n div 2" "unat (n + n div 2 + 2) = unat n + unat n div 2 + 2"
proof -
  have d: "unat (n div 2) = unat n div 2" by (simp add: unat_div_distrib)
  show 1: "unat (n + n div 2) = unat n + unat n div 2" using assms d by (subst unat_small_add) auto
  show "unat (n + n div 2 + 2) = unat n + unat n div 2 + 2" using assms 1 by (subst unat_small_add) auto
qed

lemma off16:
  assumes "unat (n :: u32) < 2 ^ 16"
  shows "unat (n * 2) = unat n * 2" "unat (n * 2 + 2) = unat n * 2 + 2"
proof -
  show 1: "unat (n * 2) = unat n * 2" using assms by (subst unat_small_mult) auto
  show "unat (n * 2 + 2) = unat n * 2 + 2" using assms 1 by (subst unat_small_add) auto
qed

lemma off32:
  assumes "unat (n :: u32) < 2 ^ 28"
  shows "unat (n * 4) = unat n * 4" "unat (n * 4 + 4) = unat n * 4 + 4"
proof -
  show 1: "unat (n * 4) = unat n * 4" using assms by (subst unat_small_mult) auto
  show "unat (n * 4 + 4) = unat n * 4 + 4" using assms 1 by (subst unat_small_add) auto
qed

text \<open>The slices the code takes, in natural numbers.\<close>

lemma slot_bounds:
  fixes N L :: nat
  shows "12 * (N + 1) \<le> 8 * L \<Longrightarrow> N + N div 2 + 2 \<le> L"
    and "16 * (N + 1) \<le> 8 * L \<Longrightarrow> N * 2 + 2 \<le> L" and "32 * (N + 1) \<le> 8 * L \<Longrightarrow> N * 4 + 4 \<le> L"
  by (cases "even N"; auto elim!: evenE oddE)+

lemma in_fat12:
  assumes "in_fat FAT12 t n"
  shows "unat (n + n div 2) = unat n + unat n div 2" "slice_ok t (n + n div 2) (n + n div 2 + 2)"
    "unat n + unat n div 2 + 2 \<le> length t"
proof -
  have l: "12 * (unat n + 1) \<le> 8 * length t" "unat n < 2 ^ 12" using assms by (auto simp: in_fat_def ent_width_def ent_bits_def)
  note o = off12 [OF l(2)]
  show "unat (n + n div 2) = unat n + unat n div 2" by (rule o)
  show 2: "unat n + unat n div 2 + 2 \<le> length t" using l(1) by (rule slot_bounds(1))
  show "slice_ok t (n + n div 2) (n + n div 2 + 2)" using o 2 by (simp add: slice_ok_def word_le_nat_alt)
qed

lemma in_fat16:
  assumes "in_fat FAT16 t n"
  shows "unat (n * 2) = unat n * 2" "slice_ok t (n * 2) (n * 2 + 2)" "unat n * 2 + 2 \<le> length t"
proof -
  have l: "16 * (unat n + 1) \<le> 8 * length t" "unat n < 2 ^ 16" using assms by (auto simp: in_fat_def ent_width_def ent_bits_def)
  note o = off16 [OF l(2)]
  show "unat (n * 2) = unat n * 2" by (rule o)
  show 2: "unat n * 2 + 2 \<le> length t" using l(1) by (rule slot_bounds(2))
  show "slice_ok t (n * 2) (n * 2 + 2)" using o 2 by (simp add: slice_ok_def word_le_nat_alt)
qed

lemma in_fat32:
  assumes "in_fat ty t n" "ty \<noteq> FAT12" "ty \<noteq> FAT16"
  shows "unat (n * 4) = unat n * 4" "slice_ok t (n * 4) (n * 4 + 4)" "unat n * 4 + 4 \<le> length t"
proof -
  have l: "32 * (unat n + 1) \<le> 8 * length t" "unat n < 2 ^ 28"
    using assms by (auto simp: in_fat_def ent_width_def ent_bits_def split: fstype.splits)
  note o = off32 [OF l(2)]
  show "unat (n * 4) = unat n * 4" by (rule o)
  show 2: "unat n * 4 + 4 \<le> length t" using l(1) by (rule slot_bounds(3))
  show "slice_ok t (n * 4) (n * 4 + 4)" using o 2 by (simp add: slice_ok_def word_le_nat_alt)
qed

lemma bit_consts:
  "bit (0xFFF :: u32) j \<longleftrightarrow> j < 12" "bit (0x0FFFFFFF :: u32) j \<longleftrightarrow> j < 28"
  "j < 32 \<Longrightarrow> bit (0xF0000000 :: u32) j \<longleftrightarrow> 28 \<le> j"
  "j < 16 \<Longrightarrow> bit (0xF000 :: u16) j \<longleftrightarrow> 12 \<le> j" "bit (0x000F :: u16) j \<longleftrightarrow> j < 4"
proof -
  have m: "(0xFFF :: u32) = mask 12" "(0x0FFFFFFF :: u32) = mask 28" "(0xF0000000 :: u32) = NOT (mask 28)"
    "(0xF000 :: u16) = NOT (mask 12)" "(0x000F :: u16) = mask 4"
    by (simp_all add: mask_numeral)
  show "bit (0xFFF :: u32) j \<longleftrightarrow> j < 12" "bit (0x0FFFFFFF :: u32) j \<longleftrightarrow> j < 28" "bit (0x000F :: u16) j \<longleftrightarrow> j < 4"
    by (auto simp only: m bit_mask_iff) auto
  show "j < 32 \<Longrightarrow> bit (0xF0000000 :: u32) j \<longleftrightarrow> 28 \<le> j" "j < 16 \<Longrightarrow> bit (0xF000 :: u16) j \<longleftrightarrow> 12 \<le> j"
    by (auto simp only: m bit_mask_iff bit_not_iff_eq) auto
qed

lemma even_odd_pos:
  fixes N :: nat
  shows "N mod 2 = 0 \<Longrightarrow> 8 * (N + N div 2) = 12 * N" "N mod 2 \<noteq> 0 \<Longrightarrow> 8 * (N + N div 2) + 4 = 12 * N"
  by presburger+

lemma fat_get_bits:
  assumes "in_fat ty t n"
  shows "\<exists>x. fat_get ty t n = Inr x \<and> (\<forall>j < 32. bit x j \<longleftrightarrow> j < ent_bits ty \<and> bitAt t (ent_width ty * unat n + j))"
proof -
  consider (12) "ty = FAT12" | (16) "ty = FAT16" | (32) "ty \<noteq> FAT12" "ty \<noteq> FAT16" by blast
  then show ?thesis
  proof cases
    case 12
    define o' where "o' = unat n + unat n div 2"
    note f = in_fat12 [OF assms [unfolded 12], folded o'_def]
    show ?thesis
    proof (cases "unat n mod 2 = 0")
      case True
      have p: "12 * unat n = 8 * o'" using even_odd_pos(1) [OF True] by (simp add: o'_def)
      have "bit (ucast (get16 t o') AND 0xFFF :: u32) j \<longleftrightarrow> j < 12 \<and> bitAt t (12 * unat n + j)" if "j < 32" for j
        unfolding p bit_and_iff bit_consts bit_ucast_iff using that bit_get16 [of j t o'] by auto
      then show ?thesis using True f 12
        by (simp add: fat_get_def Let_def ent_width_def ent_bits_def unat_mod2)
    next
      case False
      have o4: "8 * o' + 4 = 12 * unat n" using even_odd_pos(2) [OF False] by (simp add: o'_def)
      have "bit (drop_bit 4 (ucast (get16 t o')) :: u32) j \<longleftrightarrow> j < 12 \<and> bitAt t (12 * unat n + j)" if "j < 32" for j
      proof -
        have "bit (drop_bit 4 (ucast (get16 t o')) :: u32) j \<longleftrightarrow> j < 12 \<and> bit (get16 t o') (4 + j)"
          by (auto simp: bit_drop_bit_eq bit_ucast_iff dest: bit_imp_le_length)
        also have "\<dots> \<longleftrightarrow> j < 12 \<and> bitAt t (12 * unat n + j)"
          using bit_get16 [of "4 + j" t o'] o4 [symmetric] by (auto simp: add.assoc)
        finally show ?thesis .
      qed
      then show ?thesis using False f 12
        by (simp add: fat_get_def Let_def ent_width_def ent_bits_def unat_mod2)
    qed
  next
    case 16
    note f = in_fat16 [OF assms [unfolded 16]]
    have "bit (ucast (get16 t (unat n * 2)) :: u32) j \<longleftrightarrow> j < 16 \<and> bitAt t (16 * unat n + j)" if "j < 32" for j
      using that bit_get16 [of j t "unat n * 2"] bit_imp_le_length [of "get16 t (unat n * 2)" j] by (auto simp: bit_ucast_iff)
    then show ?thesis using f 16 by (simp add: fat_get_def Let_def ent_width_def ent_bits_def)
  next
    case 32
    note f = in_fat32 [OF assms 32]
    have "bit (get32 t (unat n * 4) AND 0x0FFFFFFF) j \<longleftrightarrow> j < 28 \<and> bitAt t (32 * unat n + j)" if "j < 32" for j
      unfolding bit_and_iff bit_consts using that bit_get32 [of j t "unat n * 4"] by (auto simp: mult.commute mult.left_commute)
    then show ?thesis using f 32
      by (cases ty) (simp_all add: fat_get_def Let_def ent_width_def ent_bits_def)
  qed
qed

lemma fat_set_bits:
  assumes "in_fat ty t n"
  shows "\<exists>t'. fat_set ty t n x = Inr t' \<and> length t' = length t \<and>
    (\<forall>i < 8 * length t. bitAt t' i \<longleftrightarrow>
       (if ent_width ty * unat n \<le> i \<and> i < ent_width ty * unat n + ent_bits ty
        then bit x (i - ent_width ty * unat n) else bitAt t i))"
proof -
  consider (12) "ty = FAT12" | (16) "ty = FAT16" | (32) "ty \<noteq> FAT12" "ty \<noteq> FAT16" by blast
  then show ?thesis
  proof cases
    case 12
    define o' where "o' = unat n + unat n div 2"
    note f = in_fat12 [OF assms [unfolded 12], folded o'_def]
    show ?thesis
    proof (cases "unat n mod 2 = 0")
      case True
      define w' where "w' = (get16 t o' AND 0xF000) OR ucast (x AND 0xFFF)"
      have p: "12 * unat n = 8 * o'" using even_odd_pos(1) [OF True] by (simp add: o'_def)
      have b: "bit w' j \<longleftrightarrow> (if j < 12 then bit x j else bitAt t (8 * o' + j))" if "j < 16" for j
        unfolding w'_def bit_or_iff bit_and_iff bit_ucast_iff bit_consts(1) bit_consts(4) [OF that] using that by (auto simp: bit_get16)
      have "bitAt (put16 t o' w') i \<longleftrightarrow> (if 12 * unat n \<le> i \<and> i < 12 * unat n + 12 then bit x (i - 12 * unat n) else bitAt t i)"
        if "i < 8 * length t" for i
        using that f(3) b [of "i - 8 * o'"] by (auto simp: bitAt_put16 p)
      moreover have "fat_set ty t n x = Inr (put16 t o' w')"
        using True f 12 by (simp add: fat_set_def Let_def unat_mod2 w'_def)
      ultimately show ?thesis using 12 by (simp add: ent_width_def ent_bits_def)
    next
      case False
      define w' where "w' = (get16 t o' AND 0x000F) OR ucast (push_bit 4 (x AND 0xFFF))"
      have p: "12 * unat n = 8 * o' + 4" using even_odd_pos(2) [OF False] by (simp add: o'_def)
      have b: "bit w' j \<longleftrightarrow> (if 4 \<le> j then bit x (j - 4) else bitAt t (8 * o' + j))" if "j < 16" for j
        unfolding w'_def bit_or_iff bit_and_iff bit_ucast_iff bit_push_bit_iff bit_consts(1,5) using that by (auto simp: bit_get16)
      have "bitAt (put16 t o' w') i \<longleftrightarrow> (if 12 * unat n \<le> i \<and> i < 12 * unat n + 12 then bit x (i - 12 * unat n) else bitAt t i)"
        if "i < 8 * length t" for i
        using that f(3) b [of "i - 8 * o'"] by (auto simp: bitAt_put16 p)
      moreover have "fat_set ty t n x = Inr (put16 t o' w')"
        using False f 12 by (simp add: fat_set_def Let_def unat_mod2 w'_def)
      ultimately show ?thesis using 12 by (simp add: ent_width_def ent_bits_def)
    qed
  next
    case 16
    note f = in_fat16 [OF assms [unfolded 16]]
    have "bitAt (put16 t (unat n * 2) (ucast x)) i \<longleftrightarrow>
        (if 16 * unat n \<le> i \<and> i < 16 * unat n + 16 then bit x (i - 16 * unat n) else bitAt t i)"
      if "i < 8 * length t" for i
      using that f(3) by (auto simp: bitAt_put16 bit_ucast_iff)
    then show ?thesis using f 16 by (simp add: fat_set_def Let_def ent_width_def ent_bits_def)
  next
    case 32
    note f = in_fat32 [OF assms 32]
    define w' where "w' = (get32 t (unat n * 4) AND 0xF0000000) OR (x AND 0x0FFFFFFF)"
    have b: "bit w' j \<longleftrightarrow> (if j < 28 then bit x j else bitAt t (8 * (unat n * 4) + j))" if "j < 32" for j
      unfolding w'_def bit_or_iff bit_and_iff bit_consts(2) bit_consts(3) [OF that] using that by (auto simp: bit_get32)
    have "bitAt (put32 t (unat n * 4) w') i \<longleftrightarrow> (if 32 * unat n \<le> i \<and> i < 32 * unat n + 28 then bit x (i - 32 * unat n) else bitAt t i)"
      if "i < 8 * length t" for i
      using that f(3) b [of "i - 32 * unat n"] by (auto simp: bitAt_put32)
    moreover have "fat_set ty t n x = Inr (put32 t (unat n * 4) w')"
      using f 32 by (cases ty) (simp_all add: fat_set_def Let_def w'_def)
    ultimately show ?thesis using 32 by (cases ty) (simp_all add: ent_width_def ent_bits_def)
  qed
qed


subsection \<open>The table is an array\<close>

definition fat_mask :: "fstype \<Rightarrow> u32 \<Rightarrow> u32" where
  "fat_mask ty x = take_bit (ent_bits ty) x"

lemma ent_bits_bounds: "ent_bits ty \<le> ent_width ty" "ent_bits ty \<le> 28"
  by (cases ty; simp add: ent_bits_def ent_width_def)+

lemma ent_slots_apart:
  fixes N M :: nat
  assumes "N \<noteq> M" "j < ent_bits ty"
  shows "\<not> (ent_width ty * N \<le> ent_width ty * M + j \<and> ent_width ty * M + j < ent_width ty * N + ent_bits ty)"
proof -
  have w: "j < ent_width ty" "ent_bits ty \<le> ent_width ty" using assms(2) ent_bits_bounds(1) [of ty] by auto
  consider "Suc N \<le> M" | "Suc M \<le> N" using assms(1) by linarith
  then show ?thesis
  proof cases
    case 1
    then have "ent_width ty * N + ent_width ty \<le> ent_width ty * M" by (metis add.commute mult_Suc_right mult_le_mono2)
    then show ?thesis using w by linarith
  next
    case 2
    then have "ent_width ty * M + ent_width ty \<le> ent_width ty * N" by (metis add.commute mult_Suc_right mult_le_mono2)
    then show ?thesis using w by linarith
  qed
qed

lemma fat_get_ok: "in_fat ty t n \<Longrightarrow> \<exists>x. fat_get ty t n = Inr x"
  using fat_get_bits by blast

lemma fat_set_ok: "in_fat ty t n \<Longrightarrow> \<exists>t'. fat_set ty t n x = Inr t'"
  using fat_set_bits by blast

lemma fat_set_length: "in_fat ty t n \<Longrightarrow> fat_set ty t n x = Inr t' \<Longrightarrow> length t' = length t"
  using fat_set_bits [of ty t n x] by (metis sum.inject(2))

lemma in_fat_length: "length t' = length t \<Longrightarrow> in_fat ty t' n = in_fat ty t n"
  by (simp add: in_fat_def)

lemma ent_bit_in_table: "in_fat ty t m \<Longrightarrow> j < ent_bits ty \<Longrightarrow> ent_width ty * unat m + j < 8 * length t"
  using ent_bits_bounds(1) [of ty] by (simp add: in_fat_def)

lemma fat_get_set:
  assumes n: "in_fat ty t n" and m: "in_fat ty t m" and s: "fat_set ty t n x = Inr t'"
  shows "fat_get ty t' m = (if m = n then Inr (fat_mask ty x) else fat_get ty t m)"
proof -
  have l: "length t' = length t" using fat_set_length [OF n s] .
  have m': "in_fat ty t' m" using m in_fat_length [OF l] by simp
  have b: "bitAt t' i \<longleftrightarrow> (if ent_width ty * unat n \<le> i \<and> i < ent_width ty * unat n + ent_bits ty
      then bit x (i - ent_width ty * unat n) else bitAt t i)" if "i < 8 * length t" for i
  proof -
    obtain t1 where "fat_set ty t n x = Inr t1" "length t1 = length t"
      "\<forall>i < 8 * length t. bitAt t1 i \<longleftrightarrow> (if ent_width ty * unat n \<le> i \<and> i < ent_width ty * unat n + ent_bits ty
        then bit x (i - ent_width ty * unat n) else bitAt t i)"
      using fat_set_bits [OF n, of x] by blast
    with s that show ?thesis by simp
  qed
  obtain y where y: "fat_get ty t' m = Inr y"
    "\<forall>j < 32. bit y j \<longleftrightarrow> j < ent_bits ty \<and> bitAt t' (ent_width ty * unat m + j)"
    using fat_get_bits [OF m'] by blast
  obtain z where z: "fat_get ty t m = Inr z"
    "\<forall>j < 32. bit z j \<longleftrightarrow> j < ent_bits ty \<and> bitAt t (ent_width ty * unat m + j)"
    using fat_get_bits [OF m] by blast
  show ?thesis
  proof (cases "m = n")
    case True
    have "y = fat_mask ty x"
    proof (rule bit_word_eqI)
      fix j assume "j < LENGTH(32)"
      then have yj: "bit y j \<longleftrightarrow> j < ent_bits ty \<and> bitAt t' (ent_width ty * unat m + j)" using y(2) by simp
      show "bit y j = bit (fat_mask ty x) j"
      proof (cases "j < ent_bits ty")
        case inside: True
        then have "bitAt t' (ent_width ty * unat m + j) = bit x j"
          using b [OF ent_bit_in_table [OF m inside]] True by simp
        with inside yj show ?thesis by (simp add: fat_mask_def bit_take_bit_iff)
      next
        case False
        with yj show ?thesis by (simp add: fat_mask_def bit_take_bit_iff)
      qed
    qed
    with True y(1) show ?thesis by simp
  next
    case False
    then have ne: "unat n \<noteq> unat m" by (metis word_unat_eq_iff)
    have "y = z"
    proof (rule bit_word_eqI)
      fix j assume "j < LENGTH(32)"
      then have yz: "bit y j \<longleftrightarrow> j < ent_bits ty \<and> bitAt t' (ent_width ty * unat m + j)"
        "bit z j \<longleftrightarrow> j < ent_bits ty \<and> bitAt t (ent_width ty * unat m + j)" using y(2) z(2) by simp_all
      show "bit y j = bit z j"
      proof (cases "j < ent_bits ty")
        case inside: True
        have "bitAt t' (ent_width ty * unat m + j) = bitAt t (ent_width ty * unat m + j)"
          by (simp only: b [OF ent_bit_in_table [OF m inside]] ent_slots_apart [OF ne inside] if_False)
        with yz show ?thesis by simp
      qed (simp add: yz)
    qed
    with False y(1) z(1) show ?thesis by simp
  qed
qed

lemma fat_get_bound: "in_fat ty t n \<Longrightarrow> fat_get ty t n = Inr x \<Longrightarrow> unat x < 2 ^ ent_bits ty"
proof -
  assume a: "in_fat ty t n" "fat_get ty t n = Inr x"
  have "take_bit (ent_bits ty) x = x"
    using fat_get_bits [OF a(1)] a(2) by (intro bit_word_eqI) (auto simp: bit_take_bit_iff)
  then have "unat x = take_bit (ent_bits ty) (unat x)" by (metis unsigned_take_bit_eq)
  then show ?thesis by (metis take_bit_nat_less_exp)
qed

subsection \<open>The contract\<close>

text \<open>
  \<open>linked nx eoc cs\<close>: the clusters \<open>cs\<close> follow one another through \<open>nx\<close>, and the entry of the
  last one marks the end of the chain.
\<close>

fun linked :: "(u32 \<Rightarrow> u32) \<Rightarrow> (u32 \<Rightarrow> bool) \<Rightarrow> u32 list \<Rightarrow> bool" where
  "linked nx eoc [] \<longleftrightarrow> False"
| "linked nx eoc [c] \<longleftrightarrow> eoc (nx c)"
| "linked nx eoc (c # d # cs) \<longleftrightarrow> nx c = d \<and> \<not> eoc d \<and> linked nx eoc (d # cs)"

lemma linked_ne: "linked nx eoc cs \<Longrightarrow> cs \<noteq> []"
  by auto

lemma linked_cong: "(\<And>c. c \<in> set cs \<Longrightarrow> nx c = nx' c) \<Longrightarrow> linked nx eoc cs \<longleftrightarrow> linked nx' eoc cs"
  by (induction nx eoc cs rule: linked.induct) auto

lemma linked_last: "linked nx eoc cs \<Longrightarrow> eoc (nx (last cs))"
  by (induction nx eoc cs rule: linked.induct) auto

lemma linked_nth: "linked nx eoc cs \<Longrightarrow> Suc i < length cs \<Longrightarrow> nx (cs ! i) = cs ! Suc i \<and> \<not> eoc (cs ! Suc i)"
proof (induction nx eoc cs arbitrary: i rule: linked.induct)
  case (3 nx eoc c d cs)
  then show ?case by (cases i) auto
qed auto

lemma linked_snoc:
  "linked nx eoc cs \<Longrightarrow> distinct cs \<Longrightarrow> n \<notin> set cs \<Longrightarrow> eoc e \<Longrightarrow> \<not> eoc n \<Longrightarrow>
   linked (nx(last cs := n, n := e)) eoc (cs @ [n])"
  by (induction nx eoc cs rule: linked.induct) (auto simp: fun_upd_twist)

lemma linked_take:
  "linked nx eoc cs \<Longrightarrow> distinct cs \<Longrightarrow> 0 < k \<Longrightarrow> k \<le> length cs \<Longrightarrow> eoc e \<Longrightarrow>
   linked (nx(cs ! (k - 1) := e)) eoc (take k cs)"
proof (induction nx eoc cs arbitrary: k rule: linked.induct)
  case (3 nx eoc c d cs)
  show ?case
  proof (cases "k = 1")
    case True
    then show ?thesis using "3.prems" by simp
  next
    case False
    then obtain m where m: "k = Suc (Suc m)" using "3.prems"(3) by (metis One_nat_def Suc_pred not0_implies_Suc)
    have ih: "linked (nx((d # cs) ! (Suc m - 1) := e)) eoc (take (Suc m) (d # cs))"
      by (rule "3.IH") (use "3.prems" m in auto)
    have "(d # cs) ! m \<noteq> c" using "3.prems"(2,4) m by (metis Suc_le_mono distinct.simps(2) length_Cons not_less_eq_eq nth_mem Suc_le_eq)
    moreover have "d \<noteq> c" using "3.prems"(2) by auto
    ultimately show ?thesis using ih "3.prems" m by (simp del: fun_upd_apply) (simp only: fun_upd_other not_False_eq_True)
  qed
qed auto

locale fat_array =
  fixes get :: "'s \<Rightarrow> u32 \<Rightarrow> u32 res"
    and upd :: "'s \<Rightarrow> u32 \<Rightarrow> u32 \<Rightarrow> 's res"
    and inr :: "'s \<Rightarrow> u32 \<Rightarrow> bool"
    and msk :: "'s \<Rightarrow> u32 \<Rightarrow> u32"
  assumes get_ok: "inr s n \<Longrightarrow> \<exists>x. get s n = Inr x"
    and upd_ok: "inr s n \<Longrightarrow> \<exists>s'. upd s n x = Inr s'"
    and inr_upd: "inr s n \<Longrightarrow> upd s n x = Inr s' \<Longrightarrow> inr s' m = inr s m"
    and get_upd: "inr s n \<Longrightarrow> inr s m \<Longrightarrow> upd s n x = Inr s' \<Longrightarrow>
          get s' m = (if m = n then Inr (msk s x) else get s m)"
    and msk_upd: "upd s n x = Inr s' \<Longrightarrow> msk s' = msk s"
begin

definition ent :: "'s \<Rightarrow> u32 \<Rightarrow> u32" where
  "ent s n = (case get s n of Inr x \<Rightarrow> x | Inl _ \<Rightarrow> 0)"

lemma get_ent: "inr s n \<Longrightarrow> get s n = Inr (ent s n)"
  using get_ok [of s n] by (auto simp: ent_def)

lemma ent_upd: "inr s n \<Longrightarrow> inr s m \<Longrightarrow> upd s n x = Inr s' \<Longrightarrow> ent s' m = ((ent s)(n := msk s x)) m"
  by (simp add: ent_def get_upd)

text \<open>Writing one value to every entry of a list.\<close>

fun upd_all :: "u32 list \<Rightarrow> u32 \<Rightarrow> 's \<Rightarrow> 's res" where
  "upd_all [] x s = Inr s"
| "upd_all (n # ns) x s = bindR (upd s n x) (upd_all ns x)"

lemma upd_all_ok:
  "\<forall>n \<in> set ns. inr s n \<Longrightarrow>
   \<exists>s'. upd_all ns x s = Inr s' \<and> (\<forall>m. inr s' m = inr s m) \<and> msk s' = msk s \<and>
     (\<forall>m. inr s m \<longrightarrow> ent s' m = (if m \<in> set ns then msk s x else ent s m))"
proof (induction ns arbitrary: s)
  case (Cons n ns)
  then have n: "inr s n" by simp
  obtain s1 where s1: "upd s n x = Inr s1" using upd_ok [OF n] by blast
  have i1: "inr s1 m = inr s m" for m using inr_upd [OF n s1] .
  obtain s' where "upd_all ns x s1 = Inr s'" "\<forall>m. inr s' m = inr s1 m" "msk s' = msk s1"
    "\<forall>m. inr s1 m \<longrightarrow> ent s' m = (if m \<in> set ns then msk s1 x else ent s1 m)"
    using Cons.IH [of s1] Cons.prems i1 by auto
  with s1 i1 msk_upd [OF s1] ent_upd [OF n _ s1] show ?case by auto
qed simp

lemma linked_upd_other:
  assumes "linked (ent s) eoc cs" "\<forall>c \<in> set cs. inr s c" "inr s n" "n \<notin> set cs" "upd s n x = Inr s'"
  shows "linked (ent s') eoc cs"
proof -
  have "ent s c = ent s' c" if "c \<in> set cs" for c
    using ent_upd [OF assms(3) _ assms(5), of c] assms(2,4) that by auto
  then show ?thesis using linked_cong [of cs "ent s" "ent s'" eoc] assms(1) by simp
qed

text \<open>
  Appending a cluster \<open>n\<close> to a chain: first its own entry becomes an end mark, then the entry of
  the old last cluster points to it.
\<close>

lemma linked_append:
  assumes "linked (ent s) eoc cs" "distinct cs" "\<forall>c \<in> set cs. inr s c" "inr s n" "n \<notin> set cs"
    and "upd s n e = Inr s1" "upd s1 (last cs) n = Inr s2" "eoc (msk s e)" "msk s n = n" "\<not> eoc n"
  shows "linked (ent s2) eoc (cs @ [n])"
proof -
  have lc: "inr s (last cs)" "last cs \<noteq> n" using assms(1,3,5) linked_ne by fastforce+
  have l1: "inr s1 (last cs)" using lc inr_upd [OF assms(4,6)] by simp
  have "ent s2 c = ((ent s)(last cs := n, n := msk s e)) c" if "c \<in> set (cs @ [n])" for c
  proof -
    have c: "inr s c" using that assms(3,4) by auto
    then have "inr s1 c" using inr_upd [OF assms(4,6)] by simp
    then have "ent s2 c = ((ent s1)(last cs := n)) c"
      using ent_upd [OF l1 _ assms(7)] msk_upd [OF assms(6)] assms(9) by simp
    then show ?thesis using ent_upd [OF assms(4) c assms(6)] lc(2) by auto
  qed
  then have "linked (ent s2) eoc (cs @ [n]) \<longleftrightarrow> linked ((ent s)(last cs := n, n := msk s e)) eoc (cs @ [n])"
    by (rule linked_cong)
  then show ?thesis using linked_snoc [OF assms(1,2,5,8,10)] by simp
qed

end

definition vol_in_fat :: "fatvol \<Rightarrow> u32 \<Rightarrow> bool" where
  "vol_in_fat v n = in_fat (fatType (v_b v)) (fat1 v) n"

definition vol_mask :: "fatvol \<Rightarrow> u32 \<Rightarrow> u32" where
  "vol_mask v x = fat_mask (fatType (v_b v)) x"

interpretation fat: fat_array fatEntry setFATEntry vol_in_fat vol_mask
proof
  show "\<exists>x. fatEntry s n = Inr x" if "vol_in_fat s n" for s n
    using that by (simp add: fatEntry_def vol_in_fat_def fat_get_ok)
  show "\<exists>s'. setFATEntry s n x = Inr s'" if "vol_in_fat s n" for s n x
    using that fat_set_ok [of "fatType (v_b s)" "fat1 s" n x] by (auto simp: setFATEntry_def vol_in_fat_def)
  show "vol_in_fat s' m = vol_in_fat s m" if n: "vol_in_fat s n" and s': "setFATEntry s n x = Inr s'" for s s' n m x
  proof -
    obtain t' where t': "fat_set (fatType (v_b s)) (fat1 s) n x = Inr t'" "s' = s\<lparr>fat1 := t'\<rparr>"
      using s' by (auto simp: setFATEntry_def bindR_def split: sum.splits)
    have "length t' = length (fat1 s)" using fat_set_length t'(1) n by (simp add: vol_in_fat_def)
    then show ?thesis unfolding vol_in_fat_def t'(2) by (simp add: in_fat_length [of t' "fat1 s"])
  qed
  show "fatEntry s' m = (if m = n then Inr (vol_mask s x) else fatEntry s m)"
    if "vol_in_fat s n" "vol_in_fat s m" "setFATEntry s n x = Inr s'" for s s' n m x
    using that fat_get_set [of "fatType (v_b s)" "fat1 s" n m x]
    by (auto simp: setFATEntry_def vol_in_fat_def fatEntry_def vol_mask_def)
  show "vol_mask s' = vol_mask s" if "setFATEntry s n x = Inr s'" for s s' n x
    using that by (auto simp: setFATEntry_def vol_mask_def)
qed

end
