(* ===== verification/FatAlloc.thy ===== *)
theory FatAlloc
  imports FatBits
begin

text \<open>
  Allocation of clusters and cluster chains, over the array interface of the FAT: \<open>nxt v n\<close> is
  the entry of cluster \<open>n\<close>, and a chain is a list of clusters that \<open>nxt\<close> links.
\<close>

subsection \<open>Well-formed tables\<close>

text \<open>
  The table has an entry for every cluster, and no cluster number is an end mark. \<open>readBPB\<close>
  gives the second condition for FAT12 and FAT16 by its choice of the FAT type.
\<close>

definition fat_ok :: "fatvol \<Rightarrow> bool" where
  "fat_ok v \<longleftrightarrow>
     unat (cntClusters (v_b v)) + 2 \<le> unat (eoc_min (fatType (v_b v))) \<and>
     ent_width (fatType (v_b v)) * (unat (cntClusters (v_b v)) + 2) \<le> 8 * length (fat1 v)"

definition is_clus :: "fatvol \<Rightarrow> u32 \<Rightarrow> bool" where
  "is_clus v n \<longleftrightarrow> 2 \<le> unat n \<and> unat n < unat (cntClusters (v_b v)) + 2"

definition nxt :: "fatvol \<Rightarrow> u32 \<Rightarrow> u32" where
  "nxt v n = (case fatEntry v n of Inr x \<Rightarrow> x | Inl _ \<Rightarrow> 0)"

definition fat_change :: "fatvol \<Rightarrow> fatvol \<Rightarrow> bool" where
  "fat_change v v' \<longleftrightarrow> (\<exists>t. length t = length (fat1 v) \<and> v' = v\<lparr>fat1 := t\<rparr>)"

lemma eoc_min_bits: "unat (eoc_min ty) < 2 ^ ent_bits ty"
  by (cases ty) (simp_all add: eoc_min_def ent_bits_def)

lemma clus_in_fat:
  assumes "fat_ok v" "is_clus v n"
  shows "vol_in_fat v n"
proof -
  have "ent_width (fatType (v_b v)) * (unat n + 1) \<le> ent_width (fatType (v_b v)) * (unat (cntClusters (v_b v)) + 2)"
    using assms(2) by (intro mult_le_mono2) (simp add: is_clus_def)
  then show ?thesis
    using assms eoc_min_bits [of "fatType (v_b v)"] by (auto simp: vol_in_fat_def in_fat_def fat_ok_def is_clus_def)
qed

lemma clus_not_eoc: "fat_ok v \<Longrightarrow> is_clus v n \<Longrightarrow> \<not> isEOC v n"
  by (simp add: fat_ok_def is_clus_def isEOC_def word_le_nat_alt)

lemma clus_ge2: "is_clus v n \<Longrightarrow> \<not> n < 2"
  by (simp add: is_clus_def word_less_nat_alt)

lemma fat_mask_id: "unat x < 2 ^ ent_bits ty \<Longrightarrow> fat_mask ty x = x"
proof -
  assume "unat x < 2 ^ ent_bits ty"
  then have "unat (take_bit (ent_bits ty) x) = unat x" by (simp add: unsigned_take_bit_eq take_bit_nat_eq_self_iff)
  then show ?thesis by (simp add: fat_mask_def word_unat_eq_iff)
qed

lemma clus_mask: "fat_ok v \<Longrightarrow> is_clus v n \<Longrightarrow> vol_mask v n = n"
  using clus_in_fat [of v n] by (simp add: vol_mask_def fat_mask_id vol_in_fat_def in_fat_def)

lemma eoc_mask: "vol_mask v (eocValue v) = eocValue v" "isEOC v (eocValue v)" "eocValue v \<noteq> 0"
proof -
  have "unat (eocValue v) < 2 ^ ent_bits (fatType (v_b v))"
    by (cases "fatType (v_b v)") (simp_all add: eocValue_def ent_bits_def)
  then show "vol_mask v (eocValue v) = eocValue v" by (simp add: vol_mask_def fat_mask_id)
  show "isEOC v (eocValue v)" "eocValue v \<noteq> 0"
    by (cases "fatType (v_b v)"; simp add: isEOC_def eocValue_def eoc_min_def)+
qed

lemma zero_mask: "vol_mask v 0 = 0"
  by (simp add: vol_mask_def fat_mask_def)

lemma ent_nxt: "fat.ent v n = nxt v n"
  by (simp add: fat.ent_def nxt_def)

lemma fatEntry_nxt: "fat_ok v \<Longrightarrow> is_clus v n \<Longrightarrow> fatEntry v n = Inr (nxt v n)"
  using fat.get_ent [OF clus_in_fat] by (simp add: ent_nxt)

subsection \<open>Changing entries\<close>

lemma fat_change_refl [simp]: "fat_change v v"
  unfolding fat_change_def by (rule exI [of _ "fat1 v"]) simp

lemma fat_change_trans: "fat_change u v \<Longrightarrow> fat_change v w \<Longrightarrow> fat_change u w"
  unfolding fat_change_def by auto

lemma fat_change_keeps:
  assumes "fat_change v v'"
  shows "v_b v' = v_b v" "dirty v' = dirty v" "v_sr v' = v_sr v" "v_rw v' = v_rw v" "v_start v' = v_start v"
    "fat_ok v' = fat_ok v" "is_clus v' = is_clus v" "isEOC v' = isEOC v" "eocValue v' = eocValue v"
    "vol_mask v' = vol_mask v" "clusters v' = clusters v" "chain_fuel v' = chain_fuel v"
    "length (fat1 v') = length (fat1 v)" "vol_in_fat v' = vol_in_fat v"
  using assms
  by (auto simp: fat_change_def fat_ok_def is_clus_def isEOC_def eocValue_def vol_mask_def clusters_def chain_fuel_def
      vol_in_fat_def in_fat_def fun_eq_iff)

lemma setFATEntry_ok:
  assumes "fat_ok v" "is_clus v n" "vol_mask v x = x"
  obtains v' where "setFATEntry v n x = Inr v'" "fat_change v v'"
    "\<forall>m. is_clus v m \<longrightarrow> nxt v' m = ((nxt v)(n := x)) m"
proof -
  have i: "vol_in_fat v n" using clus_in_fat assms by blast
  obtain v' where v': "setFATEntry v n x = Inr v'" using fat.upd_ok [OF i] by blast
  obtain t where t: "fat_set (fatType (v_b v)) (fat1 v) n x = Inr t" "v' = v\<lparr>fat1 := t\<rparr>"
    using v' by (auto simp: setFATEntry_def bindR_def split: sum.splits)
  have "length t = length (fat1 v)" using fat_set_length t(1) i by (simp add: vol_in_fat_def)
  with t(2) have "fat_change v v'" by (auto simp: fat_change_def)
  moreover have "nxt v' m = ((nxt v)(n := x)) m" if "is_clus v m" for m
    using fat.ent_upd [OF i clus_in_fat [OF assms(1) that] v'] assms(3) by (simp add: ent_nxt fun_eq_iff)
  ultimately show ?thesis using that v' by blast
qed

subsection \<open>Searching\<close>

lemma unat_lt32: "unat (x :: u32) < 2 ^ 32"
  using unsigned_less [where 'a = nat, of x] by simp

lemma unat_cnt2: "fat_ok v \<Longrightarrow> unat (cntClusters (v_b v) + 2) = unat (cntClusters (v_b v)) + 2"
  using unat_lt32 [of "eoc_min (fatType (v_b v))"] by (subst unat_small_add) (auto simp: fat_ok_def)

lemma set_clusters: "fat_ok v \<Longrightarrow> set (clusters v) = {n. is_clus v n}"
proof (intro set_eqI iffI)
  fix n assume f: "fat_ok v" and n: "n \<in> set (clusters v)"
  then obtain k where k: "n = of_nat k" "2 \<le> k" "k < unat (cntClusters (v_b v)) + 2"
    unfolding clusters_def unat_cnt2 [OF f] set_map set_upt by auto
  have "k < 2 ^ 32" using k(3) unat_cnt2 [OF f] unat_lt32 [of "cntClusters (v_b v) + 2"] by simp
  then have "unat n = k" using k(1) by (simp add: unat_of_nat)
  with k show "n \<in> {n. is_clus v n}" by (simp add: is_clus_def)
next
  fix n assume f: "fat_ok v" and n: "n \<in> {n. is_clus v n}"
  then show "n \<in> set (clusters v)"
    unfolding clusters_def unat_cnt2 [OF f] set_map by (intro image_eqI [of _ _ "unat n"]) (simp_all add: is_clus_def del: upt_Suc)
qed

lemma sorted_clusters:
  assumes "fat_ok v"
  shows "sorted_wrt (<) (clusters v)"
proof -
  have b: "k < 2 ^ 32" if "k < unat (cntClusters (v_b v) + 2)" for k
    using that unat_lt32 [of "cntClusters (v_b v) + 2"] by simp
  show ?thesis unfolding clusters_def sorted_wrt_map
    by (rule sorted_wrt_mono_rel [OF _ sorted_wrt_upt]) (auto simp: word_less_nat_alt unat_of_nat dest!: b)
qed

lemma find_free_eq:
  "fat_ok v \<Longrightarrow> \<forall>n \<in> set ns. is_clus v n \<Longrightarrow> find_free v ns = Inr (find (\<lambda>n. nxt v n = 0) ns)"
  by (induction ns) (auto simp: fatEntry_nxt)

lemma count_free_eq:
  "fat_ok v \<Longrightarrow> \<forall>n \<in> set ns. is_clus v n \<Longrightarrow> count_free v ns = Inr (length (filter (\<lambda>n. nxt v n = 0) ns))"
  by (induction ns) (auto simp: fatEntry_nxt)

text \<open>The first free cluster in the order of the scan is the lowest one.\<close>

lemma find_sorted:
  "sorted_wrt (<) ns \<Longrightarrow> find P ns = Some n \<Longrightarrow> n \<in> set ns \<and> P n \<and> (\<forall>m \<in> set ns. P m \<longrightarrow> n \<le> (m :: u32))"
  by (induction ns) (auto split: if_splits)

definition first_free :: "fatvol \<Rightarrow> u32 \<Rightarrow> bool" where
  "first_free v n \<longleftrightarrow> is_clus v n \<and> nxt v n = 0 \<and> (\<forall>m. is_clus v m \<longrightarrow> nxt v m = 0 \<longrightarrow> n \<le> m)"

lemma find_free_clusters:
  assumes "fat_ok v"
  shows "(\<exists>n. find_free v (clusters v) = Inr (Some n) \<and> first_free v n) \<or>
    (find_free v (clusters v) = Inr None \<and> (\<forall>n. is_clus v n \<longrightarrow> nxt v n \<noteq> 0))"
proof -
  have e: "find_free v (clusters v) = Inr (find (\<lambda>n. nxt v n = 0) (clusters v))"
    using find_free_eq [OF assms] set_clusters [OF assms] by simp
  show ?thesis
  proof (cases "find (\<lambda>n. nxt v n = 0) (clusters v)")
    case None
    then show ?thesis using e set_clusters [OF assms] by (auto simp: find_None_iff)
  next
    case (Some n)
    then show ?thesis using e find_sorted [OF sorted_clusters [OF assms] Some] set_clusters [OF assms]
      by (auto simp: first_free_def)
  qed
qed

lemma allocCluster_cases:
  assumes "fat_ok v"
  obtains n v' where "allocCluster v = (Inr n, v')" "first_free v n" "fat_change v v'"
      "\<forall>m. is_clus v m \<longrightarrow> nxt v' m = ((nxt v)(n := eocValue v)) m"
  | "allocCluster v = (Inl (Err ''fat32: disk full''), v)" "\<forall>n. is_clus v n \<longrightarrow> nxt v n \<noteq> 0"
proof -
  from find_free_clusters [OF assms] show ?thesis
  proof (elim disjE exE conjE)
    fix n assume n: "find_free v (clusters v) = Inr (Some n)" "first_free v n"
    then have c: "is_clus v n" by (simp add: first_free_def)
    obtain v' where v': "setFATEntry v n (eocValue v) = Inr v'" "fat_change v v'"
      "\<forall>m. is_clus v m \<longrightarrow> nxt v' m = ((nxt v)(n := eocValue v)) m"
      using setFATEntry_ok [OF assms c eoc_mask(1)] .
    then have "allocCluster v = (Inr n, v')"
      using n by (simp add: allocCluster_def bindS_def readS_def updS_def retS_def)
    then show ?thesis using that(1) n(2) v' by blast
  next
    assume "find_free v (clusters v) = Inr None" "\<forall>n. is_clus v n \<longrightarrow> nxt v n \<noteq> 0"
    then show ?thesis using that(2) by (simp add: allocCluster_def bindS_def readS_def failS_def)
  qed
qed

subsection \<open>Chains\<close>

definition chain_ok :: "fatvol \<Rightarrow> u32 list \<Rightarrow> bool" where
  "chain_ok v cs \<longleftrightarrow> linked (nxt v) (isEOC v) cs \<and> distinct cs \<and> (\<forall>c \<in> set cs. is_clus v c)"

lemma chain_ok_ne: "chain_ok v cs \<Longrightarrow> cs \<noteq> []"
  by (auto simp: chain_ok_def dest: linked_ne)

lemma chain_length:
  assumes "fat_ok v" "distinct cs" "\<forall>c \<in> set cs. is_clus v c"
  shows "length cs < chain_fuel v" "length cs \<le> unat (cntClusters (v_b v))"
proof -
  have "set cs \<subseteq> set (clusters v)" using assms(3) set_clusters [OF assms(1)] by auto
  then have "length cs \<le> length (clusters v)"
    using card_mono [of "set (clusters v)" "set cs"] card_length [of "clusters v"] distinct_card [OF assms(2)] by simp
  also have "length (clusters v) = unat (cntClusters (v_b v))" by (simp add: clusters_def unat_cnt2 [OF assms(1)] del: upt_Suc)
  finally show l: "length cs \<le> unat (cntClusters (v_b v))" .
  have "12 * (unat (cntClusters (v_b v)) + 2) \<le> ent_width (fatType (v_b v)) * (unat (cntClusters (v_b v)) + 2)"
    by (intro mult_le_mono1) (cases "fatType (v_b v)"; simp add: ent_width_def)
  then show "length cs < chain_fuel v" using l assms(1) by (simp add: chain_fuel_def fat_ok_def)
qed

text \<open>A chain depends on the entries of its own clusters only.\<close>

lemma chain_ok_frame:
  assumes "chain_ok v cs" "fat_change v v'" "\<And>c. c \<in> set cs \<Longrightarrow> nxt v' c = nxt v c"
  shows "chain_ok v' cs"
  using assms linked_cong [of cs "nxt v'" "nxt v" "isEOC v"] by (simp add: chain_ok_def fat_change_keeps [OF assms(2)])

lemma chain_loop_ok:
  "fat_ok v \<Longrightarrow> linked (nxt v) (isEOC v) cs \<Longrightarrow> \<forall>c \<in> set cs. is_clus v c \<Longrightarrow> length cs \<le> k \<Longrightarrow>
   chain_loop k v (hd cs) = Inr cs"
proof (induction "nxt v" "isEOC v" cs arbitrary: k rule: linked.induct)
  case (2 c)
  then show ?case by (cases k) (auto simp: fatEntry_nxt clus_ge2)
next
  case (3 c d cs)
  then show ?case by (cases k) (auto simp: fatEntry_nxt clus_ge2)
qed simp

lemma clusterChain_ok_aux:
  assumes "fat_ok v" "chain_ok v cs"
  shows "clusterChain v (hd cs) = Inr cs"
  using assms chain_length(1) [of v cs] by (simp add: clusterChain_def chain_ok_def chain_loop_ok)

text \<open>Freeing a chain: exactly its clusters become free.\<close>

lemma free_loop_ok:
  "fat_ok v \<Longrightarrow> chain_ok v cs \<Longrightarrow> length cs \<le> k \<Longrightarrow>
   \<exists>v'. free_loop k (hd cs) v = (Inr (), v') \<and> fat_change v v' \<and>
     (\<forall>m. is_clus v m \<longrightarrow> nxt v' m = (if m \<in> set cs then 0 else nxt v m))"
proof (induction cs arbitrary: k v)
  case Nil
  then show ?case by (auto dest: chain_ok_ne)
next
  case (Cons c cs)
  obtain j where k: "k = Suc j" using Cons.prems(3) by (cases k) auto
  have c: "is_clus v c" using Cons.prems(2) by (simp add: chain_ok_def)
  obtain v1 where v1: "setFATEntry v c 0 = Inr v1" "fat_change v v1"
    "\<forall>m. is_clus v m \<longrightarrow> nxt v1 m = ((nxt v)(c := 0)) m"
    using setFATEntry_ok [OF Cons.prems(1) c zero_mask] .
  have st: "free_loop k c v = (if isEOC v (nxt v c) then (Inr (), v1) else free_loop j (nxt v c) v1)"
    using v1(1) c by (simp add: k clus_ge2 fatEntry_nxt [OF Cons.prems(1) c] bindS_def readS_def updS_def)
  show ?case
  proof (cases cs)
    case Nil
    then have "isEOC v (nxt v c)" using Cons.prems(2) by (simp add: chain_ok_def)
    then show ?thesis using st v1 Nil by auto
  next
    case (Cons d ds)
    have l: "nxt v c = d" "\<not> isEOC v d" "chain_ok v cs" "c \<notin> set cs"
      using \<open>chain_ok v (c # cs)\<close> Cons by (auto simp: chain_ok_def)
    have "chain_ok v1 cs"
      by (rule chain_ok_frame [OF l(3) v1(2)]) (use v1(3) l(3,4) in \<open>auto simp: chain_ok_def\<close>)
    then obtain v' where v': "free_loop j (hd cs) v1 = (Inr (), v')" "fat_change v1 v'"
      "\<forall>m. is_clus v1 m \<longrightarrow> nxt v' m = (if m \<in> set cs then 0 else nxt v1 m)"
      using Cons.IH [of v1 j] Cons.prems(1,3) k fat_change_keeps [OF v1(2)] by auto
    have "nxt v' m = (if m \<in> set (c # cs) then 0 else nxt v m)" if "is_clus v m" for m
      using v'(3) v1(3) that fat_change_keeps(7) [OF v1(2)] by auto
    then show ?thesis using st v' l Cons fat_change_trans [OF v1(2) v'(2)] by auto
  qed
qed

lemma freeChain_ok_aux:
  assumes "fat_ok v" "chain_ok v cs"
  shows "\<exists>v'. freeChain (hd cs) v = (Inr (), v') \<and> fat_change v v' \<and>
     (\<forall>m. is_clus v m \<longrightarrow> nxt v' m = (if m \<in> set cs then 0 else nxt v m))"
proof -
  have "length cs \<le> chain_fuel v" using chain_length(1) [OF assms(1), of cs] assms(2) by (simp add: chain_ok_def)
  from free_loop_ok [OF assms this] show ?thesis by (simp only: freeChain_def)
qed

text \<open>Appending a cluster to a chain.\<close>

lemma appendCluster_cases:
  assumes "fat_ok v" "chain_ok v cs"
  obtains n v' where "appendCluster (last cs) v = (Inr n, v')" "first_free v n" "n \<notin> set cs" "fat_change v v'"
      "chain_ok v' (cs @ [n])" "\<forall>m. is_clus v m \<longrightarrow> m \<notin> set (cs @ [n]) \<longrightarrow> nxt v' m = nxt v m"
  | "appendCluster (last cs) v = (Inl (Err ''fat32: disk full''), v)" "\<forall>n. is_clus v n \<longrightarrow> nxt v n \<noteq> 0"
proof -
  have lc: "last cs \<in> set cs" "is_clus v (last cs)" using chain_ok_ne [OF assms(2)] assms(2) by (auto simp: chain_ok_def)
  from allocCluster_cases [OF assms(1)] show ?thesis
  proof cases
    case (1 n v1)
    note k1 = fat_change_keeps [OF 1(3)]
    have n: "is_clus v n" "nxt v n = 0" using 1(2) by (auto simp: first_free_def)
    have nz: "nxt v c \<noteq> 0" if "c \<in> set cs" for c
    proof -
      have "c = last cs \<or> nxt v c \<in> set cs"
        using that assms(2) unfolding chain_ok_def by (induction "nxt v" "isEOC v" cs rule: linked.induct) auto
      then show ?thesis
        using assms(2) linked_last [of "nxt v" "isEOC v" cs]
        by (cases "fatType (v_b v)") (auto simp: chain_ok_def is_clus_def isEOC_def eoc_min_def)
    qed
    then have ns: "n \<notin> set cs" using n by auto
    obtain v2 where v2: "setFATEntry v1 (last cs) n = Inr v2" "fat_change v1 v2"
      "\<forall>m. is_clus v1 m \<longrightarrow> nxt v2 m = ((nxt v1)(last cs := n)) m"
      using setFATEntry_ok [of v1 "last cs" n] assms(1) lc(2) k1 clus_mask n(1) by metis
    have e: "nxt v2 m = ((nxt v)(last cs := n, n := eocValue v)) m" if "is_clus v m" for m
      using v2(3) 1(4) that k1 lc(1) ns by auto
    have "linked (nxt v2) (isEOC v) (cs @ [n]) = linked ((nxt v)(last cs := n, n := eocValue v)) (isEOC v) (cs @ [n])"
      by (rule linked_cong) (use e assms(2) n(1) in \<open>auto simp: chain_ok_def\<close>)
    also have "\<dots>" using linked_snoc [of "nxt v" "isEOC v" cs n "eocValue v"] assms ns n eoc_mask clus_not_eoc
      by (auto simp: chain_ok_def)
    finally have "chain_ok v2 (cs @ [n])"
      using assms(2) ns n(1) k1 fat_change_keeps [OF v2(2)] by (auto simp: chain_ok_def)
    moreover have "appendCluster (last cs) v = (Inr n, v2)"
      using 1(1) v2(1) by (simp add: appendCluster_def bindS_def updS_def retS_def)
    ultimately show ?thesis using that(1) 1(2) ns e fat_change_trans [OF 1(3) v2(2)] lc(1) by auto
  next
    case 2
    then show ?thesis using that(2) by (simp add: appendCluster_def bindS_def)
  qed
qed

subsection \<open>Damaged tables\<close>

text \<open>
  A table whose links stay inside the volume; chains may merge or be cyclic.  Freeing still ends,
  because every step zeroes the entry it leaves.
\<close>

definition closed_table :: "fatvol \<Rightarrow> bool" where
  "closed_table v \<longleftrightarrow> (\<forall>c. is_clus v c \<longrightarrow> nxt v c < 2 \<or> isEOC v (nxt v c) \<or> is_clus v (nxt v c))"

definition used :: "fatvol \<Rightarrow> u32 set" where
  "used v = {c. is_clus v c \<and> nxt v c \<noteq> 0}"

lemma free_loop_ends:
  "fat_ok v \<Longrightarrow> closed_table v \<Longrightarrow> cur < 2 \<or> is_clus v cur \<Longrightarrow> card (used v) + 2 \<le> k \<Longrightarrow>
   \<exists>v'. free_loop k cur v = (Inr (), v') \<and> fat_change v v' \<and> used v' \<subseteq> used v - (if cur < 2 then {} else {cur})"
proof (induction k arbitrary: cur v)
  case (Suc k)
  show ?case
  proof (cases "cur < 2")
    case True
    then show ?thesis by simp
  next
    case False
    then have c: "is_clus v cur" using Suc.prems(3) by blast
    obtain v1 where v1: "setFATEntry v cur 0 = Inr v1" "fat_change v v1" "\<forall>m. is_clus v m \<longrightarrow> nxt v1 m = ((nxt v)(cur := 0)) m"
      using setFATEntry_ok [OF Suc.prems(1) c zero_mask] .
    note k1 = fat_change_keeps [OF v1(2)]
    have u1: "used v1 = used v - {cur}" using v1(3) by (auto simp: used_def k1(7) split: if_splits)
    have ct: "closed_table v1" using Suc.prems(2) v1(3) by (auto simp: closed_table_def k1(7,8))
    have s: "free_loop (Suc k) cur v = (if isEOC v (nxt v cur) then (Inr (), v1) else free_loop k (nxt v cur) v1)"
      using False v1(1) by (simp add: fatEntry_nxt [OF Suc.prems(1) c] bindS_def readS_def updS_def)
    show ?thesis
    proof (cases "isEOC v (nxt v cur)")
      case True
      then show ?thesis unfolding s using v1(2) u1 False by simp
    next
      case ne: False
      have nx: "nxt v cur < 2 \<or> is_clus v1 (nxt v cur)" using Suc.prems(2) c ne by (auto simp: closed_table_def k1(7))
      have "\<exists>v'. free_loop k (nxt v cur) v1 = (Inr (), v') \<and> fat_change v1 v' \<and> used v' \<subseteq> used v1"
      proof (cases "nxt v cur = 0")
        case True
        then show ?thesis using Suc.prems(4) by (cases k) auto
      next
        case False
        have "card (used v1) = card (used v) - 1" unfolding u1 using False c by (intro card_Diff_singleton) (simp add: used_def)
        moreover have "0 < card (used v)" using False c by (auto simp: used_def card_gt_0_iff)
        ultimately have "card (used v1) + 2 \<le> k" using Suc.prems(4) by simp
        moreover have "fat_ok v1" using Suc.prems(1) k1(6) by simp
        ultimately show ?thesis using Suc.IH [of v1 "nxt v cur"] ct nx by blast
      qed
      then show ?thesis unfolding s using ne u1 False fat_change_trans [OF v1(2)] by auto
    qed
  qed
qed simp

lemma freeChain_ends_aux:
  assumes "fat_ok v" "closed_table v" "first < 2 \<or> is_clus v first"
  shows "\<exists>v'. freeChain first v = (Inr (), v') \<and> fat_change v v' \<and> used v' \<subseteq> used v - (if first < 2 then {} else {first})"
proof -
  have "used v \<subseteq> set (clusters v)" using set_clusters [OF assms(1)] by (auto simp: used_def)
  then have "card (used v) \<le> card (set (clusters v))" by (intro card_mono) simp
  then have "card (used v) \<le> length (clusters v)" using card_length [of "clusters v"] by linarith
  also have "length (clusters v) = unat (cntClusters (v_b v))" by (simp add: clusters_def unat_cnt2 [OF assms(1)] del: upt_Suc)
  finally have l: "card (used v) \<le> unat (cntClusters (v_b v))" .
  have "12 * (unat (cntClusters (v_b v)) + 2) \<le> ent_width (fatType (v_b v)) * (unat (cntClusters (v_b v)) + 2)"
    by (intro mult_le_mono1) (cases "fatType (v_b v)"; simp add: ent_width_def)
  then have "card (used v) + 2 \<le> chain_fuel v" using l assms(1) by (simp add: chain_fuel_def fat_ok_def)
  from free_loop_ends [OF assms this] show ?thesis by (simp add: freeChain_def)
qed

end
