(* ===== verification/BlockStore.thy ===== *)
theory BlockStore
  imports GoBytes "HOL-Library.AList" "HOL-Library.Multiset"
begin

text \<open>
  The contract of a store of equal-sized blocks behind a driver: reads see what was last written
  to the block, staged or on disk.  The clusters of the FAT driver and the blocks of the ext4
  driver are instances.
\<close>

locale cluster_store =
  fixes rd :: "'s \<Rightarrow> 'k \<Rightarrow> bytes res"
    and wr :: "'k \<Rightarrow> bytes \<Rightarrow> 's \<Rightarrow> 's"
    and inv :: "'s \<Rightarrow> bool"
    and valid :: "'s \<Rightarrow> 'k \<Rightarrow> bool"
    and csize :: "'s \<Rightarrow> nat"
  assumes rd_ok: "inv s \<Longrightarrow> valid s n \<Longrightarrow> \<exists>d. rd s n = Inr d \<and> length d = csize s"
    and inv_wr: "inv s \<Longrightarrow> valid s n \<Longrightarrow> length d = csize s \<Longrightarrow> inv (wr n d s)"
    and shape_wr: "csize (wr n d s) = csize s" "valid (wr n d s) = valid s"
    and rd_wr: "inv s \<Longrightarrow> valid s n \<Longrightarrow> valid s m \<Longrightarrow> length d = csize s \<Longrightarrow>
          rd (wr n d s) m = (if m = n then Inr d else rd s m)"
begin

text \<open>Writing buffers to a list of clusters, and reading a list of clusters.\<close>

definition wr_list :: "'k list \<Rightarrow> (nat \<Rightarrow> bytes) \<Rightarrow> nat \<Rightarrow> 's \<Rightarrow> 's" where
  "wr_list cs g i s = fold (\<lambda>(j, c). wr c (g j)) (enumerate i cs) s"

lemma wr_list_simps [simp]:
  "wr_list [] g i s = s" "wr_list (c # cs) g i s = wr_list cs g (Suc i) (wr c (g i) s)"
  by (simp_all add: wr_list_def)

lemma wr_list_shape: "csize (wr_list cs g i s) = csize s" "valid (wr_list cs g i s) = valid s"
  by (induction cs arbitrary: i s) (simp_all add: shape_wr)

lemma wr_list_inv:
  "inv s \<Longrightarrow> \<forall>c \<in> set cs. valid s c \<Longrightarrow> (\<And>j. length (g j) = csize s) \<Longrightarrow> inv (wr_list cs g i s)"
  by (induction cs arbitrary: i s) (simp_all add: shape_wr inv_wr)

lemma rd_wr_list_other:
  "inv s \<Longrightarrow> \<forall>c \<in> set cs. valid s c \<Longrightarrow> (\<And>j. length (g j) = csize s) \<Longrightarrow> valid s m \<Longrightarrow> m \<notin> set cs \<Longrightarrow>
   rd (wr_list cs g i s) m = rd s m"
  by (induction cs arbitrary: i s) (auto simp: shape_wr inv_wr rd_wr)

lemma rd_wr_list:
  "inv s \<Longrightarrow> \<forall>c \<in> set cs. valid s c \<Longrightarrow> (\<And>j. length (g j) = csize s) \<Longrightarrow> distinct cs \<Longrightarrow> k < length cs \<Longrightarrow>
   rd (wr_list cs g i s) (cs ! k) = Inr (g (i + k))"
proof (induction cs arbitrary: i k s)
  case (Cons c cs)
  have s1: "inv (wr c (g i) s)" "\<forall>c' \<in> set cs. valid (wr c (g i) s) c'" "\<And>j. length (g j) = csize (wr c (g i) s)"
    using Cons.prems by (simp_all add: inv_wr shape_wr)
  show ?case
  proof (cases k)
    case 0
    have "rd (wr_list cs g (Suc i) (wr c (g i) s)) c = rd (wr c (g i) s) c"
      using Cons.prems by (intro rd_wr_list_other s1) (simp_all add: shape_wr)
    then show ?thesis using 0 Cons.prems by (simp add: rd_wr)
  next
    case (Suc k')
    then show ?thesis using Cons.IH [OF s1, of k' "Suc i"] Cons.prems by simp
  qed
qed simp

end

lemma set_AList_update: "p \<in> set (AList.update k b xs) \<Longrightarrow> p = (k, b) \<or> p \<in> set xs"
  by (induction xs) (auto split: if_splits)

text \<open>Blocks of one size lie apart.\<close>

lemma sector_gap: "s \<noteq> s' \<Longrightarrow> b + s * n + n \<le> b + s' * n \<or> b + s' * n + n \<le> b + s * (n :: nat)"
proof -
  assume "s \<noteq> s'"
  then have "s + 1 \<le> s' \<or> s' + 1 \<le> s" by linarith
  then have "(s + 1) * n \<le> s' * n \<or> (s' + 1) * n \<le> s * n" using mult_le_mono1 by blast
  then show ?thesis by (simp add: algebra_simps)
qed

text \<open>The order in which a Go map yields its entries: any order, each entry once.\<close>

definition map_order :: "((u32 \<times> bytes) list \<Rightarrow> (u32 \<times> bytes) list) \<Rightarrow> bool" where
  "map_order ord \<longleftrightarrow> (\<forall>xs. mset (ord xs) = mset xs)"

lemma map_order_set: "map_order ord \<Longrightarrow> set (ord xs) = set xs"
  by (metis map_order_def set_mset_mset)

lemma map_order_distinct: "map_order ord \<Longrightarrow> distinct (map fst xs) \<Longrightarrow> distinct (map fst (ord xs))"
  by (metis map_order_def mset_map distinct_count_atmost_1 mset_eq_imp_distinct_iff)

end
