(* ===== verification/FatStore.thy ===== *)
theory FatStore
  imports FatAlloc BlockStore
begin

text \<open>
  Clusters as a store. Reads see the image with the staged sectors laid over it, writes are
  staged; the locale \<open>cluster_store\<close> is the contract the file and directory operations rely on:
  a cluster reads back as it was last written, whatever happened to other clusters.
\<close>

subsection \<open>Buffers as sequences of sectors\<close>

lemma sectors_eqI:
  assumes "length b = k * s" "length b' = k * s" "\<And>i. i < k \<Longrightarrow> sub b (i * s) s = sub b' (i * s) s"
  shows "b = b'"
proof (rule nth_equalityI)
  fix j assume j: "j < length b"
  then have s: "0 < s" using assms(1) by (cases s) auto
  have i: "j div s < k" using j assms(1) s by (simp add: less_mult_imp_div_less)
  have m: "j mod s < s" "j = j div s * s + j mod s" using s by simp_all
  have "b ! (j div s * s + j mod s) = b' ! (j div s * s + j mod s)"
    using nth_sub [of "j mod s" s "j div s * s" b] nth_sub [of "j mod s" s "j div s * s" b'] m j assms(1,2) assms(3) [OF i]
    by simp
  then show "b ! j = b' ! j" using m(2) by simp
qed (use assms in simp)

lemma sector_apart:
  fixes i j s :: nat
  assumes "i \<noteq> j"
  shows "i * s + s \<le> j * s \<or> j * s + s \<le> i * s"
proof -
  consider "Suc i \<le> j" | "Suc j \<le> i" using assms by linarith
  then show ?thesis by cases (metis mult_Suc mult_le_mono1 add.commute)+
qed

lemma sector_in: "i < k \<Longrightarrow> i * s + s \<le> k * (s :: nat)"
  by (metis Suc_leI add.commute mult_Suc mult_le_mono1)

subsection \<open>Overlaying and staging\<close>

lemma overlay_Suc:
  "overlay d s first (Suc k) buf =
     (case map_of d (first + of_nat k) of Some x \<Rightarrow> copy_into (overlay d s first k buf) (k * s) x
      | None \<Rightarrow> overlay d s first k buf)"
  by (simp add: overlay_def split: option.split)

lemma length_overlay [simp]: "length (overlay d s first k buf) = length buf"
  by (induction k) (simp_all add: overlay_Suc split: option.split, simp add: overlay_def)

lemma sub_overlay:
  assumes "length buf = m * s" "i < m" "k \<le> m" "\<And>x b. map_of d x = Some b \<Longrightarrow> length b = s"
  shows "sub (overlay d s first k buf) (i * s) s =
    (if i < k then (case map_of d (first + of_nat i) of Some b \<Rightarrow> b | None \<Rightarrow> sub buf (i * s) s) else sub buf (i * s) s)"
  using assms(3)
proof (induction k)
  case 0
  then show ?case by (simp add: overlay_def)
next
  case (Suc k)
  have k: "k * s + s \<le> length buf" "i * s + s \<le> length buf" using sector_in Suc.prems assms(1,2) by auto
  show ?case
  proof (cases "map_of d (first + of_nat k)")
    case None
    then show ?thesis using Suc by (auto simp: overlay_Suc less_Suc_eq)
  next
    case (Some b)
    then have b: "length b = s" using assms(4) by blast
    show ?thesis
    proof (cases "i = k")
      case True
      then show ?thesis using Some b k by (simp add: overlay_Suc)
    next
      case False
      then have "sub (copy_into (overlay d s first k buf) (k * s) b) (i * s) s = sub (overlay d s first k buf) (i * s) s"
        using sector_apart [of i k s] b k by (intro sub_copy_other) auto
      then show ?thesis using Suc Some False by (auto simp: overlay_Suc less_Suc_eq)
    qed
  qed
qed

lemma map_of_stage:
  "map_of (stage s first data i d) = (map_of d)(first + of_nat i \<mapsto> copy_into (zeros s) 0 (sub data (i * s) s))"
  by (simp add: stage_def update_conv')

lemma map_of_stages:
  assumes "length data = m * s" "k \<le> m" "m \<le> 2 ^ 32"
  shows "map_of (fold (stage s first data) [0..<k] d) x =
    (if \<exists>i < k. x = first + of_nat i then Some (sub data (unat (x - first) * s) s) else map_of d x)"
  using assms(2)
proof (induction k)
  case (Suc k)
  have "length (sub data (k * s) s) = s" using sector_in [of k m s] Suc.prems assms(1) by simp
  then have st: "copy_into (zeros s) 0 (sub data (k * s) s) = sub data (k * s) s" by simp
  have k: "unat (of_nat k :: u32) = k" using Suc.prems assms(3) by (simp add: unat_of_nat)
  show ?case
  proof (cases "x = first + of_nat k")
    case True
    then show ?thesis using st k by (auto simp: map_of_stage)
  next
    case False
    then show ?thesis using Suc by (auto simp: map_of_stage less_Suc_eq)
  qed
qed simp

subsection \<open>Geometry\<close>

text \<open>
  The volume's geometry fits the image: the data area lies inside the partition, the partition
  inside an open image, sector numbers do not wrap, and every staged sector is one sector long.
\<close>

definition sec_bytes :: "fatvol \<Rightarrow> nat" where
  "sec_bytes v = unat (bytesPerSec (v_b v))"

definition cluster_bytes :: "fatvol \<Rightarrow> nat" where
  "cluster_bytes v = unat (clusterSize (v_b v))"

definition in_image :: "gofile \<Rightarrow> fatvol \<Rightarrow> bool" where
  "in_image f v \<longleftrightarrow> \<not> closed f \<and> 0 \<le> sec_base (v_sr v) \<and> sec_limit (v_sr v) \<le> int (length (contents f))"

definition geom_ok :: "gofile \<Rightarrow> fatvol \<Rightarrow> bool" where
  "geom_ok f v \<longleftrightarrow> in_image f v \<and> 0 < sec_bytes v \<and> 0 < unat (secPerClus (v_b v)) \<and>
     cluster_bytes v = unat (secPerClus (v_b v)) * sec_bytes v \<and>
     unat (firstDataSec (v_b v)) + unat (cntClusters (v_b v)) * unat (secPerClus (v_b v)) < 2 ^ 32 \<and>
     int ((unat (firstDataSec (v_b v)) + unat (cntClusters (v_b v)) * unat (secPerClus (v_b v))) * sec_bytes v) \<le> sec_size (v_sr v) \<and>
     (\<forall>(s, d) \<in> set (dirty v). length d = sec_bytes v)"

text \<open>The first sector of a cluster, as a number.\<close>

definition clus_sec :: "fatvol \<Rightarrow> u32 \<Rightarrow> nat" where
  "clus_sec v n = unat (firstDataSec (v_b v)) + (unat n - 2) * unat (secPerClus (v_b v))"

lemma clus_sec_bound:
  assumes "geom_ok f v" "is_clus v n"
  shows "clus_sec v n + unat (secPerClus (v_b v)) \<le>
    unat (firstDataSec (v_b v)) + unat (cntClusters (v_b v)) * unat (secPerClus (v_b v))"
proof -
  have "unat n - 2 < unat (cntClusters (v_b v))" using assms(2) by (auto simp: is_clus_def)
  then show ?thesis using sector_in [of "unat n - 2" "unat (cntClusters (v_b v))" "unat (secPerClus (v_b v))"] by (simp add: clus_sec_def)
qed

lemma unat_ucast8_32: "unat (ucast (x :: u8) :: u32) = unat x"
  using unsigned_less [where 'a = nat, of x] by (simp add: unsigned_ucast_eq take_bit_nat_eq_self)

lemma unat_ucast16_32: "unat (ucast (x :: u16) :: u32) = unat x"
  using unsigned_less [where 'a = nat, of x] by (simp add: unsigned_ucast_eq take_bit_nat_eq_self)

lemma unat_minus2: "2 \<le> unat (n :: u32) \<Longrightarrow> unat (n - 2) = unat n - 2"
  by (subst unat_sub) (simp_all add: word_le_nat_alt)

lemma unat_firstSec:
  assumes "geom_ok f v" "is_clus v n"
  shows "unat (firstSec v n) = clus_sec v n"
proof -
  have 2: "unat (n - 2) = unat n - 2" using assms(2) by (simp add: is_clus_def unat_minus2)
  have b: "clus_sec v n < 2 ^ 32" using clus_sec_bound [OF assms] assms(1) by (auto simp: geom_ok_def)
  then have m: "unat ((n - 2) * ucast (secPerClus (v_b v))) = (unat n - 2) * unat (secPerClus (v_b v))"
    by (subst unat_small_mult) (auto simp: 2 clus_sec_def unat_ucast8_32)
  then show ?thesis using b unfolding firstSec_def by (subst unat_small_add) (auto simp: clus_sec_def)
qed

lemma clusterByteOff_eq:
  "is_clus v n \<Longrightarrow> clusterByteOff v n = int (clus_sec v n * sec_bytes v)"
  by (simp add: clusterByteOff_def clus_sec_def sec_bytes_def is_clus_def unat_minus2)

text \<open>Sectors of different clusters are different.\<close>

lemma firstSec_apart:
  assumes "geom_ok f v" "is_clus v n" "is_clus v m" "n \<noteq> m" "i < unat (secPerClus (v_b v))" "j < unat (secPerClus (v_b v))"
  shows "firstSec v n + of_nat i \<noteq> firstSec v m + of_nat j"
proof
  assume e: "firstSec v n + of_nat i = firstSec v m + of_nat j"
  have b: "clus_sec v k + p < 2 ^ 32" if "is_clus v k" "p < unat (secPerClus (v_b v))" for k p
    using clus_sec_bound [OF assms(1) that(1)] that(2) assms(1) by (auto simp: geom_ok_def)
  have u: "unat (firstSec v k + of_nat p) = clus_sec v k + p" if "is_clus v k" "p < unat (secPerClus (v_b v))" for k p
  proof -
    have "unat (of_nat p :: u32) = p" using b [OF that] by (simp add: unat_of_nat)
    then show ?thesis using b [OF that] by (subst unat_small_add) (auto simp: unat_firstSec [OF assms(1) that(1)])
  qed
  have "clus_sec v n + i = clus_sec v m + j" using u [OF assms(2,5)] u [OF assms(3,6)] e by simp
  moreover have "unat n - 2 \<noteq> unat m - 2" using assms(2-4) by (auto simp: is_clus_def word_unat_eq_iff)
  ultimately show False using sector_apart [of "unat n - 2" "unat m - 2" "unat (secPerClus (v_b v))"] assms(5,6)
    by (auto simp: clus_sec_def)
qed

subsection \<open>The driver's clusters\<close>

lemma geom_dirty: "geom_ok f v \<Longrightarrow> map_of (dirty v) x = Some b \<Longrightarrow> length b = sec_bytes v"
  by (auto simp: geom_ok_def dest: map_of_SomeD)

lemma SecReadAt_cluster:
  assumes "geom_ok f v" "is_clus v n"
  shows "full (SecReadAt f (v_sr v) (cluster_bytes v) (clusterByteOff v n)) =
    Inr (sub (contents f) (nat (sec_base (v_sr v)) + clus_sec v n * sec_bytes v) (cluster_bytes v))"
    "nat (sec_base (v_sr v)) + clus_sec v n * sec_bytes v + cluster_bytes v \<le> length (contents f)"
proof -
  have g: "in_image f v" "0 < sec_bytes v" "0 < unat (secPerClus (v_b v))"
    "cluster_bytes v = unat (secPerClus (v_b v)) * sec_bytes v"
    "int ((unat (firstDataSec (v_b v)) + unat (cntClusters (v_b v)) * unat (secPerClus (v_b v))) * sec_bytes v) \<le> sec_size (v_sr v)"
    using assms(1) by (auto simp: geom_ok_def)
  have pos: "0 < cluster_bytes v" using g by simp
  have "(clus_sec v n + unat (secPerClus (v_b v))) * sec_bytes v \<le>
      (unat (firstDataSec (v_b v)) + unat (cntClusters (v_b v)) * unat (secPerClus (v_b v))) * sec_bytes v"
    using clus_sec_bound [OF assms] by (rule mult_le_mono1)
  then have "clus_sec v n * sec_bytes v + cluster_bytes v \<le>
      (unat (firstDataSec (v_b v)) + unat (cntClusters (v_b v)) * unat (secPerClus (v_b v))) * sec_bytes v"
    unfolding g(4) by (simp only: add_mult_distrib)
  then have e: "int (clus_sec v n * sec_bytes v) + int (cluster_bytes v) \<le> sec_size (v_sr v)"
    using g(5) by linarith
  then show "nat (sec_base (v_sr v)) + clus_sec v n * sec_bytes v + cluster_bytes v \<le> length (contents f)"
    using g(1) unfolding in_image_def sec_size_def by linarith
  have "nat (sec_base (v_sr v) + int (clus_sec v n * sec_bytes v)) = nat (sec_base (v_sr v)) + clus_sec v n * sec_bytes v"
    using g(1) by (simp add: in_image_def nat_add_distrib del: of_nat_mult)
  then show "full (SecReadAt f (v_sr v) (cluster_bytes v) (clusterByteOff v n)) =
    Inr (sub (contents f) (nat (sec_base (v_sr v)) + clus_sec v n * sec_bytes v) (cluster_bytes v))"
    using SecReadAt_inside [of f "v_sr v" "int (clus_sec v n * sec_bytes v)" "cluster_bytes v"] e pos g(1)
    by (simp add: clusterByteOff_eq [OF assms(2)] in_image_def nat_le_iff)
qed

text \<open>What a cluster holds: for each of its sectors the staged one, or the one in the image.\<close>

definition clus_view :: "gofile \<Rightarrow> fatvol \<Rightarrow> u32 \<Rightarrow> bytes" where
  "clus_view f v n =
     overlay (dirty v) (sec_bytes v) (firstSec v n) (unat (secPerClus (v_b v)))
       (sub (contents f) (nat (sec_base (v_sr v)) + clus_sec v n * sec_bytes v) (cluster_bytes v))"

lemma readCluster_view:
  "geom_ok f v \<Longrightarrow> is_clus v n \<Longrightarrow> readCluster f v n = Inr (clus_view f v n)"
  using SecReadAt_cluster(1) [of f v n]
  by (simp add: readCluster_def clus_ge2 wrapR_def clus_view_def cluster_bytes_def sec_bytes_def)

lemma length_clus_view: "geom_ok f v \<Longrightarrow> is_clus v n \<Longrightarrow> length (clus_view f v n) = cluster_bytes v"
  using SecReadAt_cluster(2) [of f v n] by (simp add: clus_view_def)

lemma writeCluster_keeps [simp]:
  "v_b (writeCluster n d v) = v_b v" "fat1 (writeCluster n d v) = fat1 v" "v_sr (writeCluster n d v) = v_sr v"
  "v_rw (writeCluster n d v) = v_rw v" "v_start (writeCluster n d v) = v_start v"
  "sec_bytes (writeCluster n d v) = sec_bytes v" "cluster_bytes (writeCluster n d v) = cluster_bytes v"
  "is_clus (writeCluster n d v) = is_clus v" "firstSec (writeCluster n d v) = firstSec v"
  "clus_sec (writeCluster n d v) = clus_sec v"
  by (simp_all add: writeCluster_def sec_bytes_def cluster_bytes_def is_clus_def firstSec_def clus_sec_def fun_eq_iff)

lemma dirty_writeCluster:
  assumes "geom_ok f v" "is_clus v n" "length d = cluster_bytes v"
  shows "map_of (dirty (writeCluster n d v)) x =
    (if \<exists>i < unat (secPerClus (v_b v)). x = firstSec v n + of_nat i
     then Some (sub d (unat (x - firstSec v n) * sec_bytes v) (sec_bytes v)) else map_of (dirty v) x)"
proof -
  have "unat (secPerClus (v_b v)) \<le> 2 ^ 32" using unsigned_less [where 'a = nat, of "secPerClus (v_b v)"] by simp
  then show ?thesis
    using assms map_of_stages [of d "unat (secPerClus (v_b v))" "sec_bytes v" "unat (secPerClus (v_b v))"]
    by (simp add: writeCluster_def geom_ok_def sec_bytes_def)
qed

lemma stages_length:
  assumes "\<forall>(s, x) \<in> set xs. length x = sz"
  shows "\<forall>(s, x) \<in> set (fold (stage sz first d) js xs). length x = sz"
  using assms
proof (induction js arbitrary: xs)
  case (Cons j js)
  have "\<forall>(s, x) \<in> set (stage sz first d j xs). length x = sz"
    using Cons.prems by (auto simp: stage_def dest!: set_AList_update)
  from Cons.IH [OF this] show ?case by simp
qed simp

lemma geom_writeCluster:
  assumes "geom_ok f v"
  shows "geom_ok f (writeCluster n d v)"
  using assms stages_length [of "dirty v" "sec_bytes v"]
  by (simp add: geom_ok_def in_image_def) (simp add: writeCluster_def sec_bytes_def)

lemma sub_clus_view:
  assumes "geom_ok f w" "is_clus w m" "i < unat (secPerClus (v_b w))"
  shows "sub (clus_view f w m) (i * sec_bytes w) (sec_bytes w) =
      (case map_of (dirty w) (firstSec w m + of_nat i) of Some b \<Rightarrow> b
       | None \<Rightarrow> sub (sub (contents f) (nat (sec_base (v_sr w)) + clus_sec w m * sec_bytes w) (cluster_bytes w)) (i * sec_bytes w) (sec_bytes w))"
proof -
  have cb: "cluster_bytes w = unat (secPerClus (v_b w)) * sec_bytes w" using assms(1) by (simp add: geom_ok_def)
  show ?thesis
    unfolding clus_view_def
    by (subst sub_overlay [where m = "unat (secPerClus (v_b w))"])
       (use SecReadAt_cluster(2) [OF assms(1,2)] cb geom_dirty [OF assms(1)] assms(3) in auto)
qed

lemma readCluster_writeCluster:
  assumes "geom_ok f v" "is_clus v n" "is_clus v m" "length d = cluster_bytes v"
  shows "clus_view f (writeCluster n d v) m = (if m = n then d else clus_view f v m)"
proof -
  let ?v = "writeCluster n d v"
  have g: "geom_ok f ?v" using geom_writeCluster assms by blast
  have cb: "cluster_bytes v = unat (secPerClus (v_b v)) * sec_bytes v" using assms(1) by (simp add: geom_ok_def)
  note sv = sub_clus_view [OF assms(1,3)] sub_clus_view [OF g, of m, simplified, OF assms(3)]
  have eq: "sub (clus_view f ?v m) (i * sec_bytes v) (sec_bytes v) =
      sub (if m = n then d else clus_view f v m) (i * sec_bytes v) (sec_bytes v)" if i: "i < unat (secPerClus (v_b v))" for i
  proof (cases "m = n")
    case True
    have "unat (of_nat i :: u32) = i" using i unsigned_less [where 'a = nat, of "secPerClus (v_b v)"] by (simp add: unat_of_nat)
    then show ?thesis using sv(2) [OF i] dirty_writeCluster [OF assms(1,2,4)] i True by auto
  next
    case False
    then have "map_of (dirty ?v) (firstSec v m + of_nat i) = map_of (dirty v) (firstSec v m + of_nat i)"
      using dirty_writeCluster [OF assms(1,2,4)] firstSec_apart [OF assms(1,3,2) False i] by auto
    then show ?thesis using sv(2) [OF i] sv(1) [OF i] False by (simp split: option.split)
  qed
  show ?thesis
    by (rule sectors_eqI [OF _ _ eq]) (use length_clus_view [OF g, of m] length_clus_view [OF assms(1,3)] assms cb in auto)
qed

interpretation clus: cluster_store "readCluster f" writeCluster "geom_ok f" is_clus cluster_bytes for f
proof
  show "\<exists>d. readCluster f v n = Inr d \<and> length d = cluster_bytes v" if "geom_ok f v" "is_clus v n" for v n
    using that by (simp add: readCluster_view length_clus_view)
  show "readCluster f (writeCluster n d v) m = (if m = n then Inr d else readCluster f v m)"
    if "geom_ok f v" "is_clus v n" "is_clus v m" "length d = cluster_bytes v" for v n m d
    using readCluster_writeCluster [OF that] geom_writeCluster [OF that(1)] that by (simp add: readCluster_view)
qed (simp_all add: geom_writeCluster)

end
