(* ===== verification/FatEntry.thy ===== *)
theory FatEntry
  imports GoBytes GoText
begin

text \<open>
  Directory entries of the FAT driver (\<open>src/fat32\<close>): the packed dates and times, the 8.3 short
  names, the 32-byte record of a short entry, the chain of long-name records before it, and the
  scanner that turns the records of a directory back into entries.
\<close>

unbundle bit_operations_syntax

subsection \<open>Dates and times\<close>

text \<open>The calendar fields of a \<open>time.Time\<close>, as \<open>Year()\<close>, \<open>Month()\<close> and so on return them.\<close>

record gotime =
  Year :: int
  Month :: nat
  Day :: nat
  Hour :: nat
  Minute :: nat
  Second :: nat

definition leap :: "int \<Rightarrow> bool" where
  "leap y \<longleftrightarrow> y mod 4 = 0 \<and> (y mod 100 \<noteq> 0 \<or> y mod 400 = 0)"

definition days_in :: "int \<Rightarrow> nat \<Rightarrow> nat" where
  "days_in y m = (if m = 2 then (if leap y then 29 else 28) else if m \<in> {4, 6, 9, 11} then 30 else 31)"

lemma days_in_pos: "0 < days_in y m"
  by (simp add: days_in_def)

text \<open>
  \<open>time.Date\<close> accepts values outside their ranges and normalises them: seconds carry into
  minutes, minutes into hours, hours into days, months into years, and a day beyond the end of its
  month moves into the following months.
\<close>

function norm_day :: "int \<Rightarrow> nat \<Rightarrow> nat \<Rightarrow> int \<times> nat \<times> nat" where
  "norm_day y m d =
     (if d \<le> days_in y m then (y, m, d)
      else if m = 12 then norm_day (y + 1) 1 (d - days_in y m)
      else norm_day y (Suc m) (d - days_in y m))"
  by pat_completeness auto
termination by (relation "measure (\<lambda>(y, m, d). d)") (auto simp: days_in_pos)

declare norm_day.simps [simp del]

definition time_Date :: "int \<Rightarrow> nat \<Rightarrow> nat \<Rightarrow> nat \<Rightarrow> nat \<Rightarrow> nat \<Rightarrow> gotime" where
  "time_Date y mo d h mi s =
     (let y' = y + int ((mo - 1) div 12); mo' = (mo - 1) mod 12 + 1;
          mi' = mi + s div 60; h' = h + mi' div 60;
          (y2, mo2, d2) = norm_day y' mo' (d + h' div 24)
      in \<lparr>Year = y2, Month = mo2, Day = d2, Hour = h' mod 24, Minute = mi' mod 60, Second = s mod 60\<rparr>)"

definition fatDate :: "gotime \<Rightarrow> u16" where
  "fatDate t =
     (let y0 = Year t - 1980; y1 = (if y0 < 0 then 0 else y0); y = (if y1 > 127 then 127 else y1)
      in word_of_int (y * 512) OR push_bit 5 (of_nat (Month t)) OR of_nat (Day t))"

definition fatTime :: "gotime \<Rightarrow> u16" where
  "fatTime t = push_bit 11 (of_nat (Hour t)) OR push_bit 5 (of_nat (Minute t)) OR of_nat (Second t div 2)"

definition fatToTime :: "u16 \<Rightarrow> u16 \<Rightarrow> gotime" where
  "fatToTime d t =
     (let year = int (unat (drop_bit 9 d)) + 1980;
          month = unat (drop_bit 5 d AND 0xF); day = unat (d AND 0x1F);
          hour = unat (drop_bit 11 t); minute = unat (drop_bit 5 t AND 0x3F); sec = unat (t AND 0x1F) * 2
      in time_Date year (if month < 1 then 1 else month) (if day < 1 then 1 else day) hour minute sec)"

subsection \<open>8.3 names\<close>

definition spc :: u8 where "spc = 0x20"

definition decodeShortName :: "bytes \<Rightarrow> gostr" where
  "decodeShortName raw =
     (let nm = TrimRight (take 8 raw) spc; ext = TrimRight (sub raw 8 3) spc
      in if ext = [] then nm else nm @ [dot] @ ext)"

definition split_ext :: "gostr \<Rightarrow> gostr \<times> gostr" where
  "split_ext nm = (case LastIndex nm dot of None \<Rightarrow> (nm, []) | Some d \<Rightarrow> (take d nm, drop (d + 1) nm))"

definition toShortName :: "ucd \<Rightarrow> gostr \<Rightarrow> bytes \<times> bool" where
  "toShortName U nm =
     (let out = replicate 11 spc; (base, ext) = split_ext nm in
      if length base > 8 \<or> length ext > 3 then (out, False)
      else (copy_into (copy_into out 0 (take 8 (ToUpper U base))) 8 (take 3 (ToUpper U ext)), True))"

text \<open>The alias that \<open>addDirEntry\<close> makes up for a name that is not 8.3.\<close>

definition short_alias :: "ucd \<Rightarrow> gostr \<Rightarrow> bytes" where
  "short_alias U nm =
     (let (base0, ext0) = split_ext nm;
          base = take 6 (ToUpper U base0); ext = take 3 (ToUpper U ext0)
      in copy_into (copy_into (replicate 11 spc) 0 (take 8 (base @ [0x7E, 0x31]))) 8 ext)"

subsection \<open>The short entry\<close>

definition attrReadOnly :: u8 where "attrReadOnly = 0x01"
definition attrVolumeID :: u8 where "attrVolumeID = 0x08"
definition attrDirectory :: u8 where "attrDirectory = 0x10"
definition attrArchive :: u8 where "attrArchive = 0x20"
definition attrLFN :: u8 where "attrLFN = 0x0F"

record fatDirEntry =
  de_name :: gostr
  shortName :: bytes
  attr :: u8
  cluster :: u32
  fsize :: u32
  wrtDate :: u16
  wrtTime :: u16
  crtDate :: u16
  crtTime :: u16
  dirCluster :: u32
  dirOffset :: u32

definition isDir :: "fatDirEntry \<Rightarrow> bool" where
  "isDir e \<longleftrightarrow> attr e AND attrDirectory \<noteq> 0"

text \<open>\<open>encodeDirEntry32(buf[off:], e)\<close>; it panics when fewer than 32 bytes are left.\<close>

definition entry_bytes :: "fatDirEntry \<Rightarrow> bytes" where
  "entry_bytes e =
     shortName e @ [attr e, 0, 0] @ le16 (crtTime e) @ le16 (crtDate e) @ le16 0 @
     le16 (ucast (drop_bit 16 (cluster e))) @ le16 (wrtTime e) @ le16 (wrtDate e) @
     le16 (ucast (cluster e AND 0xFFFF)) @ le32 (fsize e)"

definition encodeDirEntry32 :: "bytes \<Rightarrow> nat \<Rightarrow> fatDirEntry \<Rightarrow> bytes res" where
  "encodeDirEntry32 buf off e =
     (if length buf < off + 32 then Inl (Panic ''slice bounds out of range'')
      else let b0 = copy_into buf off (shortName e);
               b1 = put8 (put8 (put8 b0 (off + 11) (attr e)) (off + 12) 0) (off + 13) 0;
               b2 = put16 (put16 (put16 b1 (off + 14) (crtTime e)) (off + 16) (crtDate e)) (off + 18) 0;
               b3 = put16 (put16 b2 (off + 20) (ucast (drop_bit 16 (cluster e)))) (off + 22) (wrtTime e);
               b4 = put16 (put16 b3 (off + 24) (wrtDate e)) (off + 26) (ucast (cluster e AND 0xFFFF))
           in Inr (put32 b4 (off + 28) (fsize e)))"

subsection \<open>Long-name records\<close>

definition lfn_offsets :: "nat list" where
  "lfn_offsets = [1, 3, 5, 7, 9, 14, 16, 18, 20, 22, 24, 28, 30]"

definition lfnChecksum :: "bytes \<Rightarrow> u8" where
  "lfnChecksum sn = fold (\<lambda>b s. (drop_bit 1 s OR push_bit 7 s) + b) sn 0"

definition lfn_pad :: "rune list \<Rightarrow> rune list" where
  "lfn_pad rs =
     (if length rs mod 13 = 0 then rs
      else rs @ [0] @ replicate ((13 - (length rs + 1) mod 13) mod 13) 0xFFFF)"

definition lfn_entry :: "rune list \<Rightarrow> u8 \<Rightarrow> nat \<Rightarrow> nat \<Rightarrow> bytes" where
  "lfn_entry rs cksum nSeq i =
     (let seq = nSeq - i;
          b0 = put8 (zeros 32) 0 (of_nat seq);
          b1 = (if i = 0 then put8 b0 0 (b0 ! 0 OR 0x40) else b0);
          b2 = put8 (put8 (put8 b1 11 attrLFN) 12 0) 13 cksum;
          chars = sub rs ((seq - 1) * 13) 13
      in fold (\<lambda>(o', c) b. put8 (put8 b o' (ucast (of_nat c :: u16))) (o' + 1) (ucast (drop_bit 8 (of_nat c :: u16))))
           (zip lfn_offsets chars) b2)"

definition buildLFNEntries :: "gostr \<Rightarrow> bytes \<Rightarrow> bytes list" where
  "buildLFNEntries nm sn =
     (let rs = lfn_pad (runes nm); nSeq = length rs div 13
      in map (lfn_entry rs (lfnChecksum sn) nSeq) [0..<nSeq])"

subsection \<open>Scanning a directory\<close>

record scan =
  entries :: "fatDirEntry list"
  lfnParts :: "u16 list option"
  lfnSeq :: nat

definition scan0 :: scan where
  "scan0 = \<lparr>entries = [], lfnParts = None, lfnSeq = 0\<rparr>"

definition raw_entry :: "bytes \<Rightarrow> u32 \<Rightarrow> u32 \<Rightarrow> fatDirEntry" where
  "raw_entry raw dirClus byteOff =
     \<lparr>de_name = [], shortName = take 11 raw, attr = raw ! 11,
      cluster = push_bit 16 (ucast (get16 raw 20)) OR ucast (get16 raw 26), fsize = get32 raw 28,
      wrtDate = get16 raw 24, wrtTime = get16 raw 22, crtDate = get16 raw 16, crtTime = get16 raw 14,
      dirCluster = dirClus, dirOffset = byteOff\<rparr>"

text \<open>\<open>lfnParts[base+i] = Uint16(raw[o:])\<close> for the 13 characters of one record.\<close>

definition lfn_chars :: "bytes \<Rightarrow> u16 list" where
  "lfn_chars raw = map (get16 raw) lfn_offsets"

text \<open>The name of the long-name characters: decoded, cut at the first NUL or \<open>0xFFFF\<close>.\<close>

definition lfn_name :: "u16 list \<Rightarrow> gostr" where
  "lfn_name parts = str (takeWhile (\<lambda>r. r \<noteq> 0 \<and> r \<noteq> 0xFFFF) (runes (str (utf16_decode parts))))"

definition scan_lfn :: "bytes \<Rightarrow> scan \<Rightarrow> scan" where
  "scan_lfn raw s =
     (let seq = unat (raw ! 0 AND 0x3F);
          s1 = (if raw ! 0 AND 0x40 \<noteq> 0 then s\<lparr>lfnParts := Some (replicate (seq * 13) 0), lfnSeq := seq\<rparr> else s)
      in case lfnParts s1 of
           Some p \<Rightarrow> if 0 < seq \<and> seq \<le> lfnSeq s1
                     then s1\<lparr>lfnParts := Some (copy_into p ((seq - 1) * 13) (lfn_chars raw))\<rparr> else s1
         | None \<Rightarrow> s1)"

text \<open>One record; the flag tells whether the scan goes on.\<close>

definition process :: "bytes \<Rightarrow> u32 \<Rightarrow> u32 \<Rightarrow> scan \<Rightarrow> scan \<times> bool" where
  "process raw dirClus byteOff s =
     (if raw ! 0 = 0 then (s, False)
      else if raw ! 0 = 0xE5 then (s\<lparr>lfnParts := None, lfnSeq := 0\<rparr>, True)
      else if raw ! 11 = attrLFN then (scan_lfn raw s, True)
      else if raw ! 11 AND attrVolumeID \<noteq> 0 then (s\<lparr>lfnParts := None\<rparr>, True)
      else let de = raw_entry raw dirClus byteOff
           in case lfnParts s of
                Some p \<Rightarrow> (s\<lparr>entries := entries s @ [de\<lparr>de_name := lfn_name p\<rparr>], lfnParts := None, lfnSeq := 0\<rparr>, True)
              | None \<Rightarrow> (s\<lparr>entries := entries s @ [de\<lparr>de_name := decodeShortName (shortName de)\<rparr>]\<rparr>, True))"

text \<open>The records of one buffer, from the record number \<open>i\<close> on.\<close>

function process_all :: "bytes \<Rightarrow> u32 \<Rightarrow> nat \<Rightarrow> scan \<Rightarrow> scan \<times> bool" where
  "process_all buf dirClus i s =
     (if length buf < i * 32 + 32 then (s, True)
      else case process (sub buf (i * 32) 32) dirClus (of_nat (i * 32)) s of
             (s', go) \<Rightarrow> if go then process_all buf dirClus (Suc i) s' else (s', False))"
  by pat_completeness auto
termination by (relation "measure (\<lambda>(buf, d, i, s). length buf - i * 32)") auto

declare process_all.simps [simp del]

subsection \<open>Free slots\<close>

function free_slot :: "bytes \<Rightarrow> u32 \<Rightarrow> nat \<Rightarrow> u32 \<Rightarrow> nat \<Rightarrow> nat option" where
  "free_slot buf needed i count start =
     (if length buf < i + 32 then None
      else if buf ! i = 0 \<or> buf ! i = 0xE5
           then (let start' = (if count = 0 then i else start); count' = count + 32 in
                 if needed \<le> count' then Some start' else free_slot buf needed (i + 32) count' start')
           else free_slot buf needed (i + 32) 0 0)"
  by pat_completeness auto
termination by (relation "measure (\<lambda>(buf, n, i, c, s). length buf - i)") auto

declare free_slot.simps [simp del]

text \<open>\<open>None\<close> is the error ``no free slot''; the start -1 of the code is never returned.\<close>

definition findFreeSlot :: "bytes \<Rightarrow> u32 \<Rightarrow> nat option" where
  "findFreeSlot buf needed = free_slot buf needed 0 0 0"

text \<open>\<open>writeEntriesAt(buf[off:], lfn, e)\<close>.\<close>

fun put_lfn :: "bytes \<Rightarrow> nat \<Rightarrow> bytes list \<Rightarrow> bytes res" where
  "put_lfn buf off [] = Inr buf"
| "put_lfn buf off (l # ls) =
     (if length buf < off then Inl (Panic ''slice bounds out of range'')
      else put_lfn (copy_into buf off l) (off + 32) ls)"

definition writeEntriesAt :: "bytes \<Rightarrow> nat \<Rightarrow> bytes list \<Rightarrow> fatDirEntry \<Rightarrow> bytes res" where
  "writeEntriesAt buf off lfn e =
     bindR (put_lfn buf off lfn) (\<lambda>b. encodeDirEntry32 b (off + length lfn * 32) e)"

end
