(* ===== verification/FatDir.thy ===== *)
theory FatDir
  imports FatTable FatEntry "HOL-Library.List_Lexorder"
begin

text \<open>
  The reading half of the FAT driver (\<open>src/fat32/read.go\<close>): directories, path lookup, files and
  file handles. Every operation reads the image \<open>f\<close> through the section reader of the volume and
  lays the staged sectors over what it reads; \<open>U\<close> are the Unicode tables behind
  \<open>strings.EqualFold\<close>.
\<close>

unbundle bit_operations_syntax

subsection \<open>Directories\<close>

definition root_bytes :: "gofile \<Rightarrow> fatvol \<Rightarrow> bytes res" where
  "root_bytes f v =
     full (SecReadAt f (v_sr v) (unat (rootEntCnt (v_b v)) * 32)
             (int (unat (firstRootDir (v_b v))) * int (unat (bytesPerSec (v_b v)))))"

fun dir_loop :: "nat \<Rightarrow> gofile \<Rightarrow> fatvol \<Rightarrow> u32 \<Rightarrow> scan \<Rightarrow> scan res" where
  "dir_loop 0 f v cur s = Inl Diverge"
| "dir_loop (Suc k) f v cur s =
     (if cur < 2 then Inr s
      else bindR (fatEntry v cur) (\<lambda>nx.
           bindR (readCluster f v cur) (\<lambda>clus.
             case process_all clus cur 0 s of (s', go) \<Rightarrow>
               if isEOC v nx \<or> \<not> go then Inr s' else dir_loop k f v nx s')))"

definition readDirFromCluster :: "gofile \<Rightarrow> fatvol \<Rightarrow> u32 \<Rightarrow> fatDirEntry list res" where
  "readDirFromCluster f v firstCluster =
     (if fatType (v_b v) \<noteq> FAT32 \<and> firstCluster = 0
      then bindR (root_bytes f v) (\<lambda>buf0.
             let buf = overlay (dirty v) (unat (bytesPerSec (v_b v))) (firstRootDir (v_b v))
                         (unat (rootDirSec (v_b v))) buf0
             in Inr (entries (fst (process_all buf 0 0 scan0))))
      else bindR (dir_loop (chain_fuel v) f v firstCluster scan0) (\<lambda>s. Inr (entries s)))"

subsection \<open>Paths\<close>

definition root_entry :: "fatvol \<Rightarrow> fatDirEntry" where
  "root_entry v =
     \<lparr>de_name = [slash], shortName = zeros 11, attr = attrDirectory,
      cluster = (if fatType (v_b v) \<noteq> FAT32 then 0 else firstRootDir (v_b v)), fsize = 0,
      wrtDate = 0, wrtTime = 0, crtDate = 0, crtTime = 0, dirCluster = 0, dirOffset = 0\<rparr>"

definition find_name :: "ucd \<Rightarrow> gostr \<Rightarrow> fatDirEntry list \<Rightarrow> fatDirEntry option" where
  "find_name U part es = find (\<lambda>e. EqualFold U (de_name e) part) es"

fun lookup_parts :: "ucd \<Rightarrow> gofile \<Rightarrow> fatvol \<Rightarrow> u32 \<Rightarrow> gostr list \<Rightarrow> fatDirEntry res" where
  "lookup_parts U f v cur [] = Inl (Panic ''nil pointer dereference'')"
| "lookup_parts U f v cur (part # rest) =
     bindR (readDirFromCluster f v cur) (\<lambda>es.
       case find_name U part es of
         None \<Rightarrow> Inl (Err ''no such file or directory'')
       | Some m \<Rightarrow> if rest = [] then Inr m
                   else if \<not> isDir m then Inl (Err ''not a directory'')
                   else lookup_parts U f v (cluster m) rest)"

definition lookupPath :: "ucd \<Rightarrow> gofile \<Rightarrow> fatvol \<Rightarrow> gostr \<Rightarrow> fatDirEntry res" where
  "lookupPath U f v p0 =
     (let p = Clean (slash # p0) in
      if p = [slash] then Inr (root_entry v)
      else lookup_parts U f v (if fatType (v_b v) = FAT32 then rootClus (v_b v) else 0) (Split (tl p) slash))"

subsection \<open>Files\<close>

fun read_loop :: "nat \<Rightarrow> gofile \<Rightarrow> fatvol \<Rightarrow> u32 \<Rightarrow> nat \<Rightarrow> bytes \<Rightarrow> bytes res" where
  "read_loop 0 f v cur off buf = Inl Diverge"
| "read_loop (Suc k) f v cur off buf =
     (if cur < 2 \<or> length buf \<le> off then Inr buf
      else bindR (readCluster f v cur) (\<lambda>clus.
             let n = (if length buf < off + length clus then length buf - off else length clus);
                 buf' = copy_into buf off (take n clus)
             in bindR (fatEntry v cur) (\<lambda>nx.
                  if isEOC v nx then Inr buf' else read_loop k f v nx (off + n) buf')))"

text \<open>
  Every round reads at least one byte of a file of \<open>size\<close> bytes (a cluster is never empty), so
  \<open>size + 1\<close> rounds are enough; the file is bounded, and a cyclic chain cannot keep the loop going.
\<close>

definition readAllClusters :: "gofile \<Rightarrow> fatvol \<Rightarrow> fatDirEntry \<Rightarrow> bytes res" where
  "readAllClusters f v e =
     (if fsize e = 0 then Inr []
      else read_loop (Suc (unat (fsize e))) f v (cluster e) 0 (zeros (unat (fsize e))))"

definition ReadFile :: "ucd \<Rightarrow> gofile \<Rightarrow> fatvol \<Rightarrow> gostr \<Rightarrow> bytes res" where
  "ReadFile U f v nm =
     bindR (lookupPath U f v nm) (\<lambda>e.
       if isDir e then Inl (Err ''is a directory'') else readAllClusters f v e)"

subsection \<open>Handles\<close>

record fatFile =
  fh_e :: fatDirEntry
  fh_data :: bytes
  fh_offset :: int
  fh_dirty :: bool

definition vol_Open :: "ucd \<Rightarrow> gofile \<Rightarrow> fatvol \<Rightarrow> gostr \<Rightarrow> fatFile res" where
  "vol_Open U f v nm =
     bindR (lookupPath U f v nm) (\<lambda>e.
     bindR (readAllClusters f v e) (\<lambda>d.
       Inr \<lparr>fh_e = e, fh_data = d, fh_offset = 0, fh_dirty = False\<rparr>))"

definition dot_entry :: "fatDirEntry \<Rightarrow> bool" where
  "dot_entry e \<longleftrightarrow> de_name e = [dot] \<or> de_name e = [dot, dot]"

text \<open>
  \<open>ReadDir\<close> sorts by name; \<open>sort.Slice\<close> leaves the order of equal names open, the model keeps
  them in directory order.
\<close>

definition vol_ReadDir :: "ucd \<Rightarrow> gofile \<Rightarrow> fatvol \<Rightarrow> gostr \<Rightarrow> fatDirEntry list res" where
  "vol_ReadDir U f v nm =
     bindR (lookupPath U f v nm) (\<lambda>e.
       if \<not> isDir e then Inl (Err ''is not a directory'')
       else bindR (readDirFromCluster f v (cluster e)) (\<lambda>raw.
              Inr (sort_key de_name (filter (\<lambda>d. \<not> dot_entry d) raw))))"

record fatFileInfo =
  fi_name :: gostr
  fi_e :: fatDirEntry

definition pathBase :: "gostr \<Rightarrow> gostr" where
  "pathBase p0 = (let p = Clean p0 in case LastIndex p slash of Some i \<Rightarrow> drop (i + 1) p | None \<Rightarrow> p)"

definition Stat :: "ucd \<Rightarrow> gofile \<Rightarrow> fatvol \<Rightarrow> gostr \<Rightarrow> fatFileInfo res" where
  "Stat U f v nm = bindR (lookupPath U f v nm) (\<lambda>e. Inr \<lparr>fi_name = pathBase nm, fi_e = e\<rparr>)"

definition fi_Size :: "fatFileInfo \<Rightarrow> int" where
  "fi_Size fi = int (unat (fsize (fi_e fi)))"

text \<open>\<open>fs.ModeDir\<close> is the top bit of a file mode.\<close>

definition fi_Mode :: "fatFileInfo \<Rightarrow> u32" where
  "fi_Mode fi =
     (if isDir (fi_e fi) then 0x800001ED
      else if attr (fi_e fi) AND attrReadOnly \<noteq> 0 then 0x124 else 0x1A4)"

definition fi_ModTime :: "fatFileInfo \<Rightarrow> gotime" where
  "fi_ModTime fi = fatToTime (wrtDate (fi_e fi)) (wrtTime (fi_e fi))"

definition fh_Read :: "nat \<Rightarrow> (fatFile, bytes) sop" where
  "fh_Read n h =
     (if int (length (fh_data h)) \<le> fh_offset h then (Inl EOF, h)
      else let d = sub (fh_data h) (nat (fh_offset h)) n
           in (Inr d, h\<lparr>fh_offset := fh_offset h + int (length d)\<rparr>))"

text \<open>
  \<open>f.data[f.offset:]\<close> panics when the end of the write wrapped around past the data.  \<open>make\<close> is modelled for
  unbounded memory: the panic for a length beyond the limits of the allocator is left out.
\<close>

definition fh_Write :: "bytes \<Rightarrow> (fatFile, nat) sop" where
  "fh_Write p h =
     (let e = wrap64 (fh_offset h + int (length p));
          d = (if e > int (length (fh_data h)) then copy_into (zeros (nat e)) 0 (fh_data h) else fh_data h);
          h1 = h\<lparr>fh_data := d\<rparr>
      in if int (length d) < fh_offset h then (Inl (Panic ''slice bounds out of range''), h1)
         else let n = min (length d - nat (fh_offset h)) (length p)
              in (Inr n, h1\<lparr>fh_data := copy_into d (nat (fh_offset h)) p,
                            fh_offset := wrap64 (fh_offset h + int n), fh_dirty := True\<rparr>))"

text \<open>\<open>io.SeekStart\<close> is 0, \<open>io.SeekCurrent\<close> 1 and \<open>io.SeekEnd\<close> 2; another \<open>whence\<close> is ignored.\<close>

definition fh_Seek :: "int \<Rightarrow> int \<Rightarrow> (fatFile, int) sop" where
  "fh_Seek offset whence h =
     (let o1 = (if whence = 0 then offset
                else if whence = 1 then wrap64 (fh_offset h + offset)
                else if whence = 2 then wrap64 (int (length (fh_data h)) + offset)
                else fh_offset h);
          o2 = (if o1 < 0 then 0 else o1)
      in (Inr o2, h\<lparr>fh_offset := o2\<rparr>))"

definition fh_ReadDir :: "gofile \<Rightarrow> fatvol \<Rightarrow> fatFile \<Rightarrow> int \<Rightarrow> fatDirEntry list res" where
  "fh_ReadDir f v h n =
     (if \<not> isDir (fh_e h) then Inl (Err ''not a directory'')
      else bindR (readDirFromCluster f v (cluster (fh_e h))) (\<lambda>es.
             let out = filter (\<lambda>d. \<not> dot_entry d) es
             in Inr (if 0 < n \<and> n < int (length out) then take (nat n) out else out)))"

end
