(* ===== verification/FatWrite.thy ===== *)
theory FatWrite
  imports FatDir
begin

text \<open>
  The writing half of the FAT driver (\<open>src/fat32/write.go\<close> and \<open>meta.go\<close>): writing files,
  creating, removing and renaming directory entries. The state is the volume; the image \<open>f\<close> is
  only read, every change is staged. \<open>t\<close> is the clock (\<open>time.Now()\<close>). A call that fails half
  way leaves the changes it made before.
\<close>

unbundle bit_operations_syntax

definition stage_sector :: "u32 \<Rightarrow> bytes \<Rightarrow> fatvol \<Rightarrow> fatvol" where
  "stage_sector sec buf v = v\<lparr>dirty := AList.update sec buf (dirty v)\<rparr>"

text \<open>
  The on-disk sector of the fixed root directory that holds byte \<open>off\<close>, as \<open>writeDirEntry\<close> and
  \<open>removeDirEntry\<close> read it: without the staged sectors.
\<close>

definition root_sector :: "fatvol \<Rightarrow> u32 \<Rightarrow> u32" where
  "root_sector v off = firstRootDir (v_b v) + off div ucast (bytesPerSec (v_b v))"

definition read_root_sector :: "gofile \<Rightarrow> fatvol \<Rightarrow> u32 \<Rightarrow> bytes res" where
  "read_root_sector f v off =
     full (SecReadAt f (v_sr v) (unat (bytesPerSec (v_b v)))
             (int (unat (root_sector v off)) * int (unat (bytesPerSec (v_b v)))))"

definition in_sector :: "fatvol \<Rightarrow> u32 \<Rightarrow> nat" where
  "in_sector v off = unat (off mod ucast (bytesPerSec (v_b v)))"

definition writeDirEntry :: "gofile \<Rightarrow> fatDirEntry \<Rightarrow> (fatvol, unit) sop" where
  "writeDirEntry f e = (\<lambda>v.
     (if dirCluster e = 0 \<and> fatType (v_b v) \<noteq> FAT32
      then bindS (readS (\<lambda>v. wrapR ''fat32: writeDirEntry read sector'' (read_root_sector f v (dirOffset e)))) (\<lambda>secBuf.
           bindS (readS (\<lambda>v. encodeDirEntry32 secBuf (in_sector v (dirOffset e)) e)) (\<lambda>secBuf'.
             modS (\<lambda>v. stage_sector (root_sector v (dirOffset e)) secBuf' v)))
      else bindS (readS (\<lambda>v. readCluster f v (dirCluster e))) (\<lambda>clus.
           bindS (readS (\<lambda>v. encodeDirEntry32 clus (unat (dirOffset e)) e)) (\<lambda>clus'.
             modS (writeCluster (dirCluster e) clus')))) v)"

subsection \<open>File data\<close>

definition clusters_needed :: "fatvol \<Rightarrow> bytes \<Rightarrow> nat" where
  "clusters_needed v d =
     (let sz = unat (of_nat (length d) :: u32); cs = unat (clusterSize (v_b v)); n = (sz + cs - 1) div cs
      in if n = 0 then 1 else n)"

text \<open>\<open>for len(clusters) < needed\<close>: \<open>k\<close> clusters are missing.\<close>

fun grow_chain :: "nat \<Rightarrow> u32 list \<Rightarrow> (fatvol, u32 list) sop" where
  "grow_chain 0 cs = retS cs"
| "grow_chain (Suc k) cs =
     (if cs = [] then failS (Panic ''index out of range'')
      else bindS (appendCluster (last cs)) (\<lambda>n. grow_chain k (cs @ [n])))"

fun free_all :: "u32 list \<Rightarrow> (fatvol, unit) sop" where
  "free_all [] = retS ()"
| "free_all (c # cs) = bindS (updS (\<lambda>v. setFATEntry v c 0)) (\<lambda>_. free_all cs)"

definition shrink_chain :: "nat \<Rightarrow> u32 list \<Rightarrow> (fatvol, u32 list) sop" where
  "shrink_chain needed cs =
     (if length cs > needed
      then bindS (updS (\<lambda>v. setFATEntry v (cs ! (needed - 1)) (eocValue v))) (\<lambda>_.
           bindS (free_all (drop needed cs)) (\<lambda>_. retS (take needed cs)))
      else retS cs)"

text \<open>The buffer for the \<open>i\<close>-th cluster: the data there, zero-filled to the cluster size.\<close>

definition data_chunk :: "nat \<Rightarrow> bytes \<Rightarrow> nat \<Rightarrow> bytes" where
  "data_chunk cs d i = copy_into (zeros cs) 0 (sub d (i * cs) cs)"

fun write_chunks :: "bytes \<Rightarrow> nat \<Rightarrow> u32 list \<Rightarrow> (fatvol, unit) sop" where
  "write_chunks d i [] = retS ()"
| "write_chunks d i (c # cs) = (\<lambda>v.
     (if length d < i * unat (clusterSize (v_b v)) then failS (Panic ''slice bounds out of range'') v
      else bindS (modS (writeCluster c (data_chunk (unat (clusterSize (v_b v))) d i))) (\<lambda>_. write_chunks d (Suc i) cs) v))"

definition file_clusters :: "u32 \<Rightarrow> (fatvol, u32 \<times> u32 list) sop" where
  "file_clusters first =
     (if first < 2 then bindS allocCluster (\<lambda>n. retS (n, [n]))
      else bindS (readS (\<lambda>v. clusterChain v first)) (\<lambda>cs. retS (first, cs)))"

definition write_clusters :: "bytes \<Rightarrow> u32 list \<Rightarrow> (fatvol, unit) sop" where
  "write_clusters d cs0 =
     bindS (readS (\<lambda>v. Inr (clusters_needed v d))) (\<lambda>needed.
     bindS (grow_chain (needed - length cs0) cs0) (\<lambda>cs1.
     bindS (shrink_chain needed cs1) (\<lambda>cs2. write_chunks d 0 cs2)))"

text \<open>
  \<open>writeFileData(e, data)\<close> changes the volume and the entry \<open>e\<close> behind the pointer: its
  cluster as soon as the first cluster is known, size and time stamp before it is written back.
\<close>

definition writeFileData :: "gofile \<Rightarrow> gotime \<Rightarrow> bytes \<Rightarrow> (fatvol \<times> fatDirEntry, unit) sop" where
  "writeFileData f t d = (\<lambda>(v, e).
     case file_clusters (cluster e) v of
       (Inl x, v1) \<Rightarrow> (Inl x, v1, e)
     | (Inr (first, cs0), v1) \<Rightarrow>
         (let e1 = e\<lparr>cluster := first\<rparr> in
          case write_clusters d cs0 v1 of
            (Inl x, v2) \<Rightarrow> (Inl x, v2, e1)
          | (Inr _, v2) \<Rightarrow>
              (let e2 = e1\<lparr>fsize := of_nat (length d), wrtDate := fatDate t, wrtTime := fatTime t\<rparr>
               in case writeDirEntry f e2 v2 of (r, v3) \<Rightarrow> (r, v3, e2))))"

subsection \<open>Adding directory entries\<close>

text \<open>Staging all the sectors of the fixed root directory.\<close>

definition stage_root :: "bytes \<Rightarrow> fatvol \<Rightarrow> fatvol" where
  "stage_root rootBuf v =
     v\<lparr>dirty := fold (stage (unat (bytesPerSec (v_b v))) (firstRootDir (v_b v)) rootBuf)
                 [0..<unat (rootDirSec (v_b v))] (dirty v)\<rparr>"

text \<open>
  The search along the chain: the cluster, its contents and the offset of enough free slots, or
  the last cluster that was looked at.
\<close>

fun slot_loop :: "nat \<Rightarrow> gofile \<Rightarrow> fatvol \<Rightarrow> u32 \<Rightarrow> u32 \<Rightarrow> u32 \<Rightarrow> ((u32 \<times> bytes \<times> nat) + u32) res" where
  "slot_loop 0 f v needed cur prev = Inl Diverge"
| "slot_loop (Suc k) f v needed cur prev =
     (if cur < 2 then Inr (Inr prev)
      else bindR (readCluster f v cur) (\<lambda>clus.
             case findFreeSlot clus needed of
               Some off \<Rightarrow> Inr (Inl (cur, clus, off))
             | None \<Rightarrow> bindR (fatEntry v cur) (\<lambda>nx.
                 if isEOC v nx then Inr (Inr cur) else slot_loop k f v needed nx cur)))"

definition append_root :: "gofile \<Rightarrow> fatDirEntry \<Rightarrow> bytes list \<Rightarrow> (fatvol, unit) sop" where
  "append_root f e lfn =
     bindS (readS (root_bytes f)) (\<lambda>rootBuf.
       case findFreeSlot rootBuf (of_nat ((length lfn + 1) * 32)) of
         None \<Rightarrow> failS (Err ''fat32: root directory full'')
       | Some off \<Rightarrow>
           bindS (readS (\<lambda>v. writeEntriesAt rootBuf off lfn e)) (\<lambda>buf.
           bindS (readS (\<lambda>v. guardR (unat (rootDirSec (v_b v)) * unat (bytesPerSec (v_b v)) \<le> length buf)
                             (Panic ''slice bounds out of range''))) (\<lambda>_.
             modS (stage_root buf))))"

definition append_chain :: "gofile \<Rightarrow> u32 \<Rightarrow> fatDirEntry \<Rightarrow> bytes list \<Rightarrow> (fatvol, unit) sop" where
  "append_chain f dirClus e lfn =
     bindS (readS (\<lambda>v. slot_loop (chain_fuel v) f v (of_nat ((length lfn + 1) * 32)) dirClus 0)) (\<lambda>r.
       case r of
         Inl (cur, clus, off) \<Rightarrow>
           bindS (readS (\<lambda>v. writeEntriesAt clus off lfn e)) (\<lambda>clus'. modS (writeCluster cur clus'))
       | Inr prev \<Rightarrow>
           bindS (appendCluster prev) (\<lambda>newClus.
           bindS (readS (\<lambda>v. writeEntriesAt (zeros (unat (clusterSize (v_b v)))) 0 lfn e)) (\<lambda>clus'.
             modS (writeCluster newClus clus'))))"

definition appendEntryToDir :: "gofile \<Rightarrow> u32 \<Rightarrow> fatDirEntry \<Rightarrow> bool \<Rightarrow> (fatvol, unit) sop" where
  "appendEntryToDir f dirClus e writeLFN = (\<lambda>v.
     let lfn = (if writeLFN then buildLFNEntries (de_name e) (shortName e) else []) in
     if dirClus = 0 \<and> fatType (v_b v) \<noteq> FAT32 then append_root f e lfn v else append_chain f dirClus e lfn v)"

definition new_entry :: "ucd \<Rightarrow> gotime \<Rightarrow> gostr \<Rightarrow> u8 \<Rightarrow> u32 \<Rightarrow> u32 \<Rightarrow> fatDirEntry" where
  "new_entry U t nm a clus sz =
     \<lparr>de_name = nm, shortName = (case toShortName U nm of (sn, fits) \<Rightarrow> if fits then sn else short_alias U nm),
      attr = a, cluster = clus, fsize = sz, wrtDate = fatDate t, wrtTime = fatTime t,
      crtDate = fatDate t, crtTime = fatTime t, dirCluster = 0, dirOffset = 0\<rparr>"

definition needs_lfn :: "ucd \<Rightarrow> gostr \<Rightarrow> bool" where
  "needs_lfn U nm \<longleftrightarrow> \<not> snd (toShortName U nm) \<or> nm \<noteq> decodeShortName (fst (toShortName U nm))"

definition addDirEntry :: "ucd \<Rightarrow> gofile \<Rightarrow> gotime \<Rightarrow> u32 \<Rightarrow> gostr \<Rightarrow> u8 \<Rightarrow> u32 \<Rightarrow> u32 \<Rightarrow> (fatvol, unit) sop" where
  "addDirEntry U f t dirClus nm a clus sz =
     appendEntryToDir f dirClus (new_entry U t nm a clus sz) (needs_lfn U nm)"

definition mark_deleted :: "gofile \<Rightarrow> fatDirEntry \<Rightarrow> (fatvol, unit) sop" where
  "mark_deleted f e = (\<lambda>v.
     (if dirCluster e = 0 \<and> fatType (v_b v) \<noteq> FAT32
      then bindS (readS (\<lambda>v. read_root_sector f v (dirOffset e))) (\<lambda>secBuf.
             modS (\<lambda>v. stage_sector (root_sector v (dirOffset e)) (put8 secBuf (in_sector v (dirOffset e)) 0xE5) v))
      else bindS (readS (\<lambda>v. readCluster f v (dirCluster e))) (\<lambda>clus.
             modS (writeCluster (dirCluster e) (put8 clus (unat (dirOffset e)) 0xE5)))) v)"

definition removeDirEntry :: "ucd \<Rightarrow> gofile \<Rightarrow> u32 \<Rightarrow> gostr \<Rightarrow> (fatvol, unit) sop" where
  "removeDirEntry U f dirClus nm =
     bindS (readS (\<lambda>v. readDirFromCluster f v dirClus)) (\<lambda>es.
       case find_name U nm es of
         None \<Rightarrow> failS (Err ''not found in directory'')
       | Some e \<Rightarrow> mark_deleted f e)"

subsection \<open>The operations of a volume\<close>

definition lookupS :: "ucd \<Rightarrow> gofile \<Rightarrow> gostr \<Rightarrow> (fatvol, fatDirEntry) sop" where
  "lookupS U f nm = readS (\<lambda>v. lookupPath U f v nm)"

definition createFile :: "ucd \<Rightarrow> gofile \<Rightarrow> gotime \<Rightarrow> gostr \<Rightarrow> (fatvol, unit) sop" where
  "createFile U f t nm =
     (case parent_base nm of (dir, base) \<Rightarrow>
        bindS (lookupS U f dir) (\<lambda>parent. addDirEntry U f t (cluster parent) base attrArchive 0 0))"

text \<open>\<open>lookupPath\<close>, or \<open>createFile\<close> and \<open>lookupPath\<close> again.\<close>

definition lookup_or_create :: "ucd \<Rightarrow> gofile \<Rightarrow> gotime \<Rightarrow> gostr \<Rightarrow> (fatvol, fatDirEntry) sop" where
  "lookup_or_create U f t nm = (\<lambda>v.
     case lookupPath U f v nm of
       Inr e \<Rightarrow> (Inr e, v)
     | Inl (Panic p) \<Rightarrow> (Inl (Panic p), v)
     | Inl Diverge \<Rightarrow> (Inl Diverge, v)
     | Inl _ \<Rightarrow> bindS (createFile U f t nm) (\<lambda>_. lookupS U f nm) v)"

definition WriteFile :: "ucd \<Rightarrow> gofile \<Rightarrow> gotime \<Rightarrow> gostr \<Rightarrow> bytes \<Rightarrow> (fatvol, unit) sop" where
  "WriteFile U f t nm d =
     bindS (lookup_or_create U f t nm) (\<lambda>e v. case writeFileData f t d (v, e) of (r, v', _) \<Rightarrow> (r, v'))"

definition Create :: "ucd \<Rightarrow> gofile \<Rightarrow> gotime \<Rightarrow> gostr \<Rightarrow> (fatvol, fatFile) sop" where
  "Create U f t nm =
     bindS (createFile U f t nm) (\<lambda>_. bindS (lookupS U f nm) (\<lambda>e.
       retS \<lparr>fh_e = e, fh_data = [], fh_offset = 0, fh_dirty = False\<rparr>))"

text \<open>The flags \<open>O_CREATE\<close>, \<open>O_TRUNC\<close> and \<open>O_APPEND\<close> as booleans.\<close>

definition OpenFile :: "ucd \<Rightarrow> gofile \<Rightarrow> gotime \<Rightarrow> gostr \<Rightarrow> bool \<Rightarrow> bool \<Rightarrow> bool \<Rightarrow> (fatvol, fatFile) sop" where
  "OpenFile U f t nm creat trunc app =
     bindS (if creat then lookup_or_create U f t nm else lookupS U f nm) (\<lambda>e.
     bindS (if trunc then retS [] else readS (\<lambda>v. readAllClusters f v e)) (\<lambda>d.
       retS \<lparr>fh_e = e, fh_data = d, fh_offset = (if app then int (length d) else 0), fh_dirty = False\<rparr>))"

text \<open>\<open>Close\<close> writes through the volume and updates the entry of the handle.\<close>

definition fh_Close :: "gofile \<Rightarrow> gotime \<Rightarrow> (fatvol \<times> fatFile, unit) sop" where
  "fh_Close f t = (\<lambda>(v, h).
     if \<not> fh_dirty h then (Inr (), v, h)
     else case writeFileData f t (fh_data h) (v, fh_e h) of (r, v', e') \<Rightarrow> (r, v', h\<lparr>fh_e := e'\<rparr>))"

definition dir_entry :: "gotime \<Rightarrow> gostr \<Rightarrow> bytes \<Rightarrow> u32 \<Rightarrow> fatDirEntry" where
  "dir_entry t nm sn clus =
     \<lparr>de_name = nm, shortName = sn, attr = attrDirectory, cluster = clus, fsize = 0,
      wrtDate = fatDate t, wrtTime = fatTime t, crtDate = 0, crtTime = 0, dirCluster = 0, dirOffset = 0\<rparr>"

definition mkdir_cluster :: "gotime \<Rightarrow> u32 \<Rightarrow> u32 \<Rightarrow> nat \<Rightarrow> bytes res" where
  "mkdir_cluster t newClus parentClus cs =
     bindR (encodeDirEntry32 (zeros cs) 0 (dir_entry t [dot] (bs ''.          '') newClus)) (\<lambda>b.
       encodeDirEntry32 b 32 (dir_entry t [dot, dot] (bs ''..         '') parentClus))"

definition mkdir :: "ucd \<Rightarrow> gofile \<Rightarrow> gotime \<Rightarrow> gostr \<Rightarrow> (fatvol, unit) sop" where
  "mkdir U f t nm =
     (case parent_base nm of (dir, base) \<Rightarrow>
        bindS (lookupS U f dir) (\<lambda>parent.
        bindS allocCluster (\<lambda>newClus.
        bindS (readS (\<lambda>v. mkdir_cluster t newClus (cluster parent) (unat (clusterSize (v_b v))))) (\<lambda>clus.
        bindS (modS (writeCluster newClus clus)) (\<lambda>_.
          addDirEntry U f t (cluster parent) base attrDirectory newClus 0)))))"

fun mkdir_parts :: "ucd \<Rightarrow> gofile \<Rightarrow> gotime \<Rightarrow> gostr \<Rightarrow> gostr list \<Rightarrow> (fatvol, unit) sop" where
  "mkdir_parts U f t cur [] = retS ()"
| "mkdir_parts U f t cur (part # rest) =
     (if part = [] then mkdir_parts U f t cur rest
      else let cur' = path_Join cur part in
           bindS (\<lambda>v. case lookupPath U f v cur' of
                    Inr _ \<Rightarrow> (Inr (), v)
                  | Inl (Panic p) \<Rightarrow> (Inl (Panic p), v)
                  | Inl Diverge \<Rightarrow> (Inl Diverge, v)
                  | Inl _ \<Rightarrow> mkdir U f t cur' v) (\<lambda>_. mkdir_parts U f t cur' rest))"

definition MkdirAll :: "ucd \<Rightarrow> gofile \<Rightarrow> gotime \<Rightarrow> gostr \<Rightarrow> (fatvol, unit) sop" where
  "MkdirAll U f t p = mkdir_parts U f t [slash] (Split (tl (Clean (slash # p))) slash)"

definition remove_op :: "ucd \<Rightarrow> gofile \<Rightarrow> gostr \<Rightarrow> bool \<Rightarrow> (fatvol, unit) sop" where
  "remove_op U f nm allowDir =
     bindS (lookupS U f nm) (\<lambda>e.
       if isDir e \<and> \<not> allowDir then failS (Err ''is a directory'')
       else case parent_base nm of (dir, base) \<Rightarrow>
         bindS (lookupS U f dir) (\<lambda>parent.
         bindS (if 2 \<le> cluster e then freeChain (cluster e) else retS ()) (\<lambda>_.
           removeDirEntry U f (cluster parent) base)))"

definition Remove :: "ucd \<Rightarrow> gofile \<Rightarrow> gostr \<Rightarrow> (fatvol, unit) sop" where
  "Remove U f nm = remove_op U f nm False"

text \<open>
  The recursion of \<open>removeAll\<close> follows the directory tree on disk, which may be cyclic; \<open>k\<close>
  bounds its depth and \<open>Diverge\<close> stands for the stack overflow.
\<close>

fun removeAll :: "nat \<Rightarrow> ucd \<Rightarrow> gofile \<Rightarrow> gostr \<Rightarrow> (fatvol, unit) sop" where
  "removeAll 0 U f p = failS Diverge"
| "removeAll (Suc k) U f p = (\<lambda>v.
     case lookupPath U f v p of
       Inl (Panic s) \<Rightarrow> (Inl (Panic s), v)
     | Inl Diverge \<Rightarrow> (Inl Diverge, v)
     | Inl _ \<Rightarrow> (Inr (), v)
     | Inr e \<Rightarrow>
         bindS (if isDir e
                then bindS (readS (\<lambda>v. readDirFromCluster f v (cluster e))) (\<lambda>children.
                       for_each (\<lambda>c. removeAll k U f (path_Join p (de_name c)))
                         (filter (\<lambda>c. \<not> dot_entry c) children))
                else retS ())
           (\<lambda>_. remove_op U f p True) v)"

definition Rename :: "ucd \<Rightarrow> gofile \<Rightarrow> gotime \<Rightarrow> gostr \<Rightarrow> gostr \<Rightarrow> (fatvol, unit) sop" where
  "Rename U f t oldpath newpath =
     bindS (lookupS U f oldpath) (\<lambda>e.
       case parent_base oldpath of (oldDir, oldBase) \<Rightarrow> case parent_base newpath of (newDir, newBase) \<Rightarrow>
         bindS (lookupS U f oldDir) (\<lambda>oldParent.
         bindS (lookupS U f newDir) (\<lambda>newParent.
         bindS (removeDirEntry U f (cluster oldParent) oldBase) (\<lambda>_.
           addDirEntry U f t (cluster newParent) newBase (attr e) (cluster e) (fsize e)))))"

definition Symlink :: "gostr \<Rightarrow> gostr \<Rightarrow> (fatvol, unit) sop" where
  "Symlink oldname newname = failS (Err ''fat32: symlinks not supported'')"

definition Link :: "gostr \<Rightarrow> gostr \<Rightarrow> (fatvol, unit) sop" where
  "Link oldname newname = failS (Err ''fat32: hard links not supported'')"

text \<open>Only the owner-write bit of the mode matters to \<open>Chmod\<close>.\<close>

definition Chmod :: "ucd \<Rightarrow> gofile \<Rightarrow> gostr \<Rightarrow> u32 \<Rightarrow> (fatvol, unit) sop" where
  "Chmod U f nm mode =
     bindS (lookupS U f nm) (\<lambda>e.
       writeDirEntry f (e\<lparr>attr := (if mode AND 0x80 = 0 then attr e OR attrReadOnly else attr e AND NOT attrReadOnly)\<rparr>))"

definition Chown :: "gostr \<Rightarrow> int \<Rightarrow> int \<Rightarrow> (fatvol, unit) sop" where
  "Chown nm uid gid = failS (Err ''fat32: Chown not supported'')"

definition Chtimes :: "ucd \<Rightarrow> gofile \<Rightarrow> gostr \<Rightarrow> gotime \<Rightarrow> (fatvol, unit) sop" where
  "Chtimes U f nm mtime =
     bindS (lookupS U f nm) (\<lambda>e. writeDirEntry f (e\<lparr>wrtDate := fatDate mtime, wrtTime := fatTime mtime\<rparr>))"

end
