(* ===== verification/FatEntryCorrect.thy ===== *)
theory FatEntryCorrect
  imports FatEntry
begin

text \<open>
  Round trips of directory entries: dates and times, short names, short entries, long names, and
  the free-slot search.
\<close>

unbundle bit_operations_syntax

subsection \<open>Short entries\<close>

lemma length_entry_bytes: "length (shortName e) = 11 \<Longrightarrow> length (entry_bytes e) = 32"
  by (simp add: entry_bytes_def)

lemma put8_copy: "off < length b \<Longrightarrow> put8 b off x = copy_into b off [x]"
  by (rule nth_equalityI) (auto simp: put8_def nth_copy_into nth_list_update)

lemma encodeDirEntry32_eq:
  assumes "off + 32 \<le> length buf" "length (shortName e) = 11"
  shows "encodeDirEntry32 buf off e = Inr (copy_into buf off (entry_bytes e))"
proof -
  have app: "copy_into (copy_into b off x) o' y = copy_into b off (x @ y)" if "o' = off + length x" for b o' and x y :: bytes
    using that by (simp add: copy_into_append)
  show ?thesis
    using assms
    by (simp add: encodeDirEntry32_def Let_def put8_copy put16_def put32_def app entry_bytes_def)
qed

lemma encodeDirEntry32_cases:
  "length (shortName e) = 11 \<Longrightarrow> encodeDirEntry32 buf off e =
     (if off + 32 \<le> length buf then Inr (copy_into buf off (entry_bytes e))
      else Inl (Panic ''slice bounds out of range''))"
  using encodeDirEntry32_eq [of off buf e] by (auto simp: encodeDirEntry32_def)

lemma cluster_halves: "push_bit 16 (ucast (ucast (drop_bit 16 c) :: u16)) OR ucast (ucast (c AND 0xFFFF) :: u16) = (c :: u32)"
proof (rule bit_word_eqI)
  fix n assume n: "n < LENGTH(32)"
  have m: "bit (0xFFFF :: u32) n \<longleftrightarrow> n < 16" using bit_mask_iff [of 16 n, where 'a = u32] n by (simp add: mask_eq_exp_minus_1)
  show "bit (push_bit 16 (ucast (ucast (drop_bit 16 c) :: u16)) OR ucast (ucast (c AND 0xFFFF) :: u16) :: u32) n = bit c n"
    unfolding bit_or_iff bit_push_bit_iff bit_ucast_iff bit_drop_bit_eq bit_and_iff comp_def m using n by auto
qed

lemmas get_structure = c16.get_append c16.get_Cons c16.get_append_enc c32.get_append c32.get_Cons

lemma raw_entry_bytes:
  assumes "length (shortName e) = 11"
  shows "raw_entry (entry_bytes e) c o' = e\<lparr>de_name := [], dirCluster := c, dirOffset := o'\<rparr>"
proof -
  have "get32 (le32 (fsize e)) 0 = fsize e" by (rule get32_le32)
  then show ?thesis
    using assms by (cases e) (simp add: raw_entry_def entry_bytes_def get_structure cluster_halves nth_append)
qed

subsection \<open>Dates and times\<close>

lemma or_plus_nat: "b < 2 ^ k \<Longrightarrow> push_bit k a OR b = a * 2 ^ k + (b :: nat)"
proof -
  assume b: "b < 2 ^ k"
  have t: "take_bit k b = b" using b by (simp add: take_bit_nat_eq_self)
  have "\<not> bit (push_bit k a) n \<or> \<not> bit b n" for n
    using t by (metis bit_push_bit_iff bit_take_bit_iff not_less)
  then have "push_bit k a + b = push_bit k a OR b" by (intro disjunctive_add) auto
  then show ?thesis by (simp add: push_bit_eq_mult)
qed

lemma unat_or: "unat ((x :: u16) OR y) = unat x OR unat y"
  by (rule unsigned_or_eq)

lemma unat_push16: "n * 2 ^ k < 2 ^ 16 \<Longrightarrow> unat (push_bit k (of_nat n) :: u16) = push_bit k n"
proof -
  assume a: "n * 2 ^ k < 2 ^ 16"
  have "push_bit k (of_nat n :: u16) = of_nat (n * 2 ^ k)" by (simp add: push_bit_eq_mult)
  moreover have "unat (of_nat (n * 2 ^ k) :: u16) = n * 2 ^ k" using a by (simp only: unat_of_nat) simp
  ultimately show ?thesis by (simp add: push_bit_eq_mult)
qed

text \<open>A packed field is read back by shifting and masking.\<close>

lemma unat_fatDate:
  assumes "1980 \<le> Year t" "Year t \<le> 2107" "Month t < 16" "Day t < 32"
  shows "unat (fatDate t) = nat (Year t - 1980) * 512 + (Month t * 32 + Day t)"
proof -
  define y where "y = nat (Year t - 1980)"
  have y: "y < 128" "Year t - 1980 = int y" using assms(1,2) by (auto simp: y_def)
  have e: "fatDate t = push_bit 9 (of_nat y) OR (push_bit 5 (of_nat (Month t)) OR of_nat (Day t))"
    using y by (simp add: fatDate_def Let_def push_bit_eq_mult or.assoc)
  have "unat (fatDate t) = push_bit 9 y OR (push_bit 5 (Month t) OR Day t)"
    unfolding e unat_or using assms y by (simp add: unat_push16 unat_of_nat)
  also have "push_bit 5 (Month t) OR Day t = Month t * 32 + Day t" using or_plus_nat [of "Day t" 5 "Month t"] assms by simp
  also have "push_bit 9 y OR (Month t * 32 + Day t) = y * 512 + (Month t * 32 + Day t)"
    using or_plus_nat [of "Month t * 32 + Day t" 9 y] assms by simp
  finally show ?thesis by (simp add: y_def)
qed

lemma unat_fatTime:
  assumes "Hour t < 32" "Minute t < 64" "Second t < 64"
  shows "unat (fatTime t) = Hour t * 2048 + (Minute t * 32 + Second t div 2)"
proof -
  have e: "fatTime t = push_bit 11 (of_nat (Hour t)) OR (push_bit 5 (of_nat (Minute t)) OR of_nat (Second t div 2))"
    by (simp add: fatTime_def or.assoc)
  have "unat (fatTime t) = push_bit 11 (Hour t) OR (push_bit 5 (Minute t) OR Second t div 2)"
    unfolding e unat_or using assms by (simp add: unat_push16 unat_of_nat)
  also have "push_bit 5 (Minute t) OR Second t div 2 = Minute t * 32 + Second t div 2"
    using or_plus_nat [of "Second t div 2" 5 "Minute t"] assms by simp
  also have "push_bit 11 (Hour t) OR (Minute t * 32 + Second t div 2) = Hour t * 2048 + (Minute t * 32 + Second t div 2)"
    using or_plus_nat [of "Minute t * 32 + Second t div 2" 11 "Hour t"] assms by simp
  finally show ?thesis .
qed

lemma unat_and_mask16: "unat ((x :: u16) AND mask k) = unat x mod 2 ^ k"
  by (subst take_bit_eq_mask [symmetric], subst unsigned_take_bit_eq, rule take_bit_eq_mod)

lemma mid_field:
  fixes y m d :: nat
  assumes "d < 32"
  shows "m < 16 \<Longrightarrow> (y * 512 + (m * 32 + d)) div 32 mod 16 = m" "m < 64 \<Longrightarrow> (y * 2048 + (m * 32 + d)) div 32 mod 64 = m"
proof -
  have "y * 512 + (m * 32 + d) = d + 32 * (y * 16 + m)" "y * 2048 + (m * 32 + d) = d + 32 * (y * 64 + m)" by simp_all
  then show "m < 16 \<Longrightarrow> (y * 512 + (m * 32 + d)) div 32 mod 16 = m" "m < 64 \<Longrightarrow> (y * 2048 + (m * 32 + d)) div 32 mod 64 = m"
    using assms by (simp_all only: div_mult_self2) simp_all
qed

lemma low_field:
  fixes y m d :: nat
  assumes "d < 32"
  shows "(y * 512 + (m * 32 + d)) mod 32 = d" "(y * 2048 + (m * 32 + d)) mod 32 = d"
proof -
  have "y * 512 + (m * 32 + d) = d + 32 * (y * 16 + m)" "y * 2048 + (m * 32 + d) = d + 32 * (y * 64 + m)" by simp_all
  then show "(y * 512 + (m * 32 + d)) mod 32 = d" "(y * 2048 + (m * 32 + d)) mod 32 = d"
    using assms by (simp_all only: mod_mult_self2) simp_all
qed

definition time_ok :: "gotime \<Rightarrow> bool" where
  "time_ok t \<longleftrightarrow> 1980 \<le> Year t \<and> Year t \<le> 2107 \<and> 1 \<le> Month t \<and> Month t \<le> 12 \<and>
     1 \<le> Day t \<and> Day t \<le> days_in (Year t) (Month t) \<and> Hour t < 24 \<and> Minute t < 60 \<and> Second t < 60"

lemma fatToTime_round_aux:
  assumes "time_ok t"
  shows "fatToTime (fatDate t) (fatTime t) = t\<lparr>Second := Second t div 2 * 2\<rparr>"
proof -
  have ok: "1980 \<le> Year t" "Year t \<le> 2107" "1 \<le> Month t" "Month t \<le> 12" "1 \<le> Day t" "Day t \<le> days_in (Year t) (Month t)"
    "Hour t < 24" "Minute t < 60" "Second t < 60"
    using assms by (auto simp: time_ok_def)
  have d31: "Day t \<le> 31" using ok(6) by (auto simp: days_in_def split: if_splits)
  have D: "unat (fatDate t) = nat (Year t - 1980) * 512 + (Month t * 32 + Day t)"
    using ok d31 by (intro unat_fatDate) auto
  have T: "unat (fatTime t) = Hour t * 2048 + (Minute t * 32 + Second t div 2)" using ok by (intro unat_fatTime) auto
  have m: "(0xF :: u16) = mask 4" "(0x1F :: u16) = mask 5" "(0x3F :: u16) = mask 6" by (simp_all add: mask_eq_exp_minus_1)
  have y: "unat (drop_bit 9 (fatDate t)) = nat (Year t - 1980)"
    unfolding unat_drop_bit_eq unfolding D drop_bit_eq_div using ok(4) d31 by simp
  have mo: "unat (drop_bit 5 (fatDate t) AND 0xF) = Month t"
    unfolding m unat_and_mask16 unat_drop_bit_eq unfolding D drop_bit_eq_div using ok(4) d31 mid_field(1) by simp
  have da: "unat (fatDate t AND 0x1F) = Day t"
    unfolding m unat_and_mask16 D using d31 low_field(1) by simp
  have h: "unat (drop_bit 11 (fatTime t)) = Hour t"
    unfolding unat_drop_bit_eq unfolding T drop_bit_eq_div using ok(8,9) by simp
  have mi: "unat (drop_bit 5 (fatTime t) AND 0x3F) = Minute t"
    unfolding m unat_and_mask16 unat_drop_bit_eq unfolding T drop_bit_eq_div using ok(8,9) mid_field(2) by simp
  have se: "unat (fatTime t AND 0x1F) = Second t div 2"
    unfolding m unat_and_mask16 T using ok(9) low_field(2) by simp
  have s60: "Second t div 2 * 2 < 60" using ok(9) by linarith
  have nd: "norm_day (Year t) (Month t) (Day t) = (Year t, Month t, Day t)" using ok(6) by (simp add: norm_day.simps)
  show ?thesis
    unfolding fatToTime_def Let_def y mo da h mi se using ok s60 nd
    by (cases t) (simp add: time_Date_def)
qed

end
