(* ===== verification/FatData.thy ===== *)
theory FatData
  imports FatStore FatWrite FatEntryCorrect
begin

text \<open>
  File contents: \<open>writeFileData\<close> makes the cluster chain of a file as long as its new contents
  need and writes them, and \<open>readAllClusters\<close> reads them back; nothing else on the volume changes.
\<close>

subsection \<open>Growing and shrinking chains\<close>

definition free_set :: "fatvol \<Rightarrow> u32 set" where
  "free_set v = {n. is_clus v n \<and> nxt v n = 0}"

lemma finite_free_set [simp]: "finite (free_set v)"
  by (rule finite_subset [OF subset_UNIV]) simp

lemma zero_not_eoc: "\<not> isEOC v 0"
  by (cases "fatType (v_b v)") (simp_all add: isEOC_def eoc_min_def)

lemma chain_nonzero:
  assumes "chain_ok v cs" "c \<in> set cs"
  shows "nxt v c \<noteq> 0"
proof -
  have "isEOC v (nxt v c) \<or> nxt v c \<in> set cs"
    using assms unfolding chain_ok_def by (induction "nxt v" "isEOC v" cs rule: linked.induct) auto
  then show ?thesis using assms(1) zero_not_eoc by (auto simp: chain_ok_def is_clus_def)
qed

lemma grow_chain_ok:
  assumes "fat_ok v" "chain_ok v cs" "k \<le> card (free_set v)"
  shows "\<exists>ns v'. grow_chain k cs v = (Inr (cs @ ns), v') \<and> length ns = k \<and> set ns \<subseteq> free_set v \<and> fat_change v v' \<and>
    chain_ok v' (cs @ ns) \<and> (\<forall>m. is_clus v m \<longrightarrow> m \<notin> set (cs @ ns) \<longrightarrow> nxt v' m = nxt v m)"
  using assms
proof (induction k arbitrary: cs v)
  case 0
  then show ?case by (auto simp: retS_def)
next
  case (Suc k)
  have ne: "cs \<noteq> []" using chain_ok_ne Suc.prems(2) by blast
  from appendCluster_cases [OF Suc.prems(1,2)] show ?case
  proof cases
    case (1 n v1)
    note k1 = fat_change_keeps [OF 1(4)]
    have n: "n \<in> free_set v" using 1(2) by (simp add: free_set_def first_free_def)
    have fs: "m \<in> free_set v1 \<longleftrightarrow> m \<in> free_set v - {n}" for m
    proof (cases "m \<in> set (cs @ [n])")
      case True
      then show ?thesis using chain_nonzero [OF 1(5)] chain_nonzero [OF Suc.prems(2)] by (auto simp: free_set_def)
    next
      case False
      then show ?thesis using 1(6) k1(7) by (auto simp: free_set_def)
    qed
    then have "free_set v1 = free_set v - {n}" by blast
    then have "k \<le> card (free_set v1)" using Suc.prems(3) n by simp
    from Suc.IH [OF _ 1(5) this] k1(6) Suc.prems(1)
    obtain ns v' where v': "grow_chain k (cs @ [n]) v1 = (Inr ((cs @ [n]) @ ns), v')" "length ns = k" "set ns \<subseteq> free_set v1"
      "fat_change v1 v'" "chain_ok v' ((cs @ [n]) @ ns)"
      "\<forall>m. is_clus v1 m \<longrightarrow> m \<notin> set ((cs @ [n]) @ ns) \<longrightarrow> nxt v' m = nxt v1 m"
      by auto
    have "grow_chain (Suc k) cs v = (Inr (cs @ n # ns), v')" using v'(1) 1(1) ne by (simp add: bindS_def)
    moreover have "set (n # ns) \<subseteq> free_set v" using v'(3) n fs by auto
    moreover have "nxt v' m = nxt v m" if "is_clus v m" "m \<notin> set (cs @ n # ns)" for m
      using v'(6) 1(6) that k1(7) by auto
    ultimately show ?thesis using v' fat_change_trans [OF 1(4) v'(4)] by (intro exI [of _ "n # ns"] exI [of _ v']) auto
  next
    case 2
    then have "free_set v = {}" by (auto simp: free_set_def)
    then show ?thesis using Suc.prems(3) by simp
  qed
qed

lemma free_all_ok:
  "fat_ok v \<Longrightarrow> \<forall>c \<in> set cs. is_clus v c \<Longrightarrow>
   \<exists>v'. free_all cs v = (Inr (), v') \<and> fat_change v v' \<and>
     (\<forall>m. is_clus v m \<longrightarrow> nxt v' m = (if m \<in> set cs then 0 else nxt v m))"
proof (induction cs arbitrary: v)
  case (Cons c cs)
  have c: "is_clus v c" using Cons.prems by simp
  obtain v1 where v1: "setFATEntry v c 0 = Inr v1" "fat_change v v1" "\<forall>m. is_clus v m \<longrightarrow> nxt v1 m = ((nxt v)(c := 0)) m"
    using setFATEntry_ok [OF Cons.prems(1) c zero_mask] .
  note k1 = fat_change_keeps [OF v1(2)]
  obtain v' where "free_all cs v1 = (Inr (), v')" "fat_change v1 v'"
    "\<forall>m. is_clus v1 m \<longrightarrow> nxt v' m = (if m \<in> set cs then 0 else nxt v1 m)"
    using Cons.IH [of v1] Cons.prems k1 by auto
  with v1 k1 fat_change_trans [OF v1(2)] show ?case by (auto simp: bindS_def updS_def)
qed (auto simp: retS_def)

lemma shrink_chain_ok:
  assumes "fat_ok v" "chain_ok v cs" "0 < needed"
  shows "\<exists>v'. shrink_chain needed cs v = (Inr (take needed cs), v') \<and> fat_change v v' \<and> chain_ok v' (take needed cs) \<and>
    (\<forall>m \<in> set (drop needed cs). nxt v' m = 0) \<and> (\<forall>m. is_clus v m \<longrightarrow> m \<notin> set cs \<longrightarrow> nxt v' m = nxt v m)"
proof (cases "length cs > needed")
  case True
  let ?l = "cs ! (needed - 1)"
  have l: "?l \<in> set cs" "is_clus v ?l" using True assms(2,3) by (auto simp: chain_ok_def)
  obtain v1 where v1: "setFATEntry v ?l (eocValue v) = Inr v1" "fat_change v v1"
    "\<forall>m. is_clus v m \<longrightarrow> nxt v1 m = ((nxt v)(?l := eocValue v)) m"
    using setFATEntry_ok [OF assms(1) l(2) eoc_mask(1)] .
  note k1 = fat_change_keeps [OF v1(2)]
  have "\<forall>c \<in> set (drop needed cs). is_clus v1 c" using assms(2) k1 by (auto simp: chain_ok_def dest: in_set_dropD)
  then obtain v2 where v2: "free_all (drop needed cs) v1 = (Inr (), v2)" "fat_change v1 v2"
    "\<forall>m. is_clus v1 m \<longrightarrow> nxt v2 m = (if m \<in> set (drop needed cs) then 0 else nxt v1 m)"
    using free_all_ok [of v1 "drop needed cs"] assms(1) k1 by auto
  note k2 = fat_change_keeps [OF v2(2)]
  have dj: "set (take needed cs) \<inter> set (drop needed cs) = {}"
    using assms(2) by (simp add: chain_ok_def set_take_disj_set_drop_if_distinct)
  have e: "nxt v2 m = ((nxt v)(?l := eocValue v)) m" if "m \<in> set (take needed cs)" for m
  proof -
    have "is_clus v m" "m \<notin> set (drop needed cs)" using that dj assms(2) in_set_takeD [OF that] by (auto simp: chain_ok_def)
    then show ?thesis using v2(3) v1(3) k1(7) by simp
  qed
  have "linked (nxt v2) (isEOC v) (take needed cs) = linked ((nxt v)(?l := eocValue v)) (isEOC v) (take needed cs)"
    by (rule linked_cong) (rule e)
  also have "\<dots>" using linked_take [of "nxt v" "isEOC v" cs needed "eocValue v"] assms True eoc_mask by (simp add: chain_ok_def)
  finally have "chain_ok v2 (take needed cs)" using assms(2) k1 k2 by (auto simp: chain_ok_def dest: in_set_takeD)
  moreover have "nxt v2 m = 0" if "m \<in> set (drop needed cs)" for m
    using v2(3) that in_set_dropD [OF that] assms(2) k1(7) by (simp add: chain_ok_def)
  moreover have "nxt v2 m = nxt v m" if "is_clus v m" "m \<notin> set cs" for m
    using v2(3) v1(3) that k1(7) l(1) by (auto dest: in_set_dropD)
  moreover have "shrink_chain needed cs v = (Inr (take needed cs), v2)"
    using True v1(1) v2(1) by (simp add: shrink_chain_def bindS_def updS_def retS_def)
  ultimately show ?thesis using fat_change_trans [OF v1(2) v2(2)] by blast
next
  case False
  then show ?thesis using assms by (simp add: shrink_chain_def retS_def)
qed

subsection \<open>Contents in clusters\<close>

text \<open>\<open>n\<close> clusters of \<open>c\<close> bytes are what \<open>d\<close> needs; an empty file keeps one cluster.\<close>

lemma clusters_needed_bounds:
  assumes "length d < 2 ^ 32" "0 < cluster_bytes v"
  shows "0 < clusters_needed v d" "length d \<le> clusters_needed v d * cluster_bytes v"
    "d \<noteq> [] \<Longrightarrow> (clusters_needed v d - 1) * cluster_bytes v < length d"
proof -
  let ?c = "cluster_bytes v" let ?q = "(length d + ?c - 1) div ?c"
  have l: "unat (of_nat (length d) :: u32) = length d" using assms(1) by (simp add: unat_of_nat)
  have n: "clusters_needed v d = (if ?q = 0 then 1 else ?q)" by (simp add: clusters_needed_def Let_def l cluster_bytes_def)
  have m: "length d + ?c - 1 = ?q * ?c + (length d + ?c - 1) mod ?c" "(length d + ?c - 1) mod ?c < ?c"
    using assms(2) by simp_all
  have q0: "?q = 0 \<longleftrightarrow> d = []" using assms(2) by (cases d) (auto simp: div_eq_0_iff)
  show "0 < clusters_needed v d" by (simp add: n)
  show "length d \<le> clusters_needed v d * ?c"
  proof (cases "d = []")
    case False
    then have "clusters_needed v d = ?q" using q0 by (simp add: n)
    then show ?thesis using m assms(2) unfolding \<open>clusters_needed v d = ?q\<close> by linarith
  qed simp
  show "(clusters_needed v d - 1) * ?c < length d" if "d \<noteq> []"
  proof -
    have "clusters_needed v d = ?q" "0 < ?q" using q0 that by (auto simp: n)
    then have "(clusters_needed v d - 1) * ?c + ?c = ?q * ?c" by (metis Suc_pred' add.commute mult_Suc)
    moreover have "?q * ?c \<le> length d + ?c - 1" using m by linarith
    moreover have "0 < length d" using that by simp
    ultimately show ?thesis using assms(2) by linarith
  qed
qed

lemma length_data_chunk [simp]: "length (data_chunk c d i) = c"
  by (simp add: data_chunk_def)

lemma write_chunks_eq:
  assumes "\<forall>j < length cs. (i + j) * cluster_bytes v \<le> length d"
  shows "write_chunks d i cs v = (Inr (), clus.wr_list cs (data_chunk (cluster_bytes v) d) i v)"
  using assms
proof (induction cs arbitrary: i v)
  case (Cons c cs)
  let ?v = "writeCluster c (data_chunk (cluster_bytes v) d i) v"
  have "i * cluster_bytes v \<le> length d" using Cons.prems by force
  moreover have "write_chunks d (Suc i) cs ?v = (Inr (), clus.wr_list cs (data_chunk (cluster_bytes ?v) d) (Suc i) ?v)"
    using Cons.prems by (intro Cons.IH) force
  ultimately show ?case by (simp add: bindS_def modS_def cluster_bytes_def)
qed (simp add: retS_def)

text \<open>One round of the read loop moves the border between the data and the zeros.\<close>

lemma copy_chunk:
  assumes "off = i * c" "off < length d" "n = (if length d < off + c then length d - off else c)"
  shows "copy_into (take off d @ zeros (length d - off)) off (take n (data_chunk c d i)) =
    take (off + n) d @ zeros (length d - (off + n))"
proof (rule nth_equalityI)
  have nc: "off + n \<le> length d" "n \<le> c" using assms by auto
  have ch: "take n (data_chunk c d i) ! j = d ! (off + j)" if "j < n" for j
  proof -
    have "data_chunk c d i ! j = sub d off c ! j"
      unfolding data_chunk_def using that assms nc by (subst nth_copy_into_in) auto
    then show ?thesis using that nc by simp
  qed
  fix j assume "j < length (copy_into (take off d @ zeros (length d - off)) off (take n (data_chunk c d i)))"
  then have j: "j < length d" using assms by simp
  show "copy_into (take off d @ zeros (length d - off)) off (take n (data_chunk c d i)) ! j =
      (take (off + n) d @ zeros (length d - (off + n))) ! j"
    using j nc ch [of "j - off"] assms(2) by (auto simp: nth_copy_into nth_append)
qed (use assms in auto)

lemma read_loop_ok:
  assumes "fat_ok v" "chain_ok v cs" "0 < c"
    and "\<And>i. i < length cs \<Longrightarrow> readCluster f v (cs ! i) = Inr (data_chunk c d i)"
    and "(length cs - 1) * c < length d" "length d \<le> length cs * c"
    and "i < length cs" "length cs - i \<le> k"
  shows "read_loop k f v (cs ! i) (i * c) (take (i * c) d @ zeros (length d - i * c)) = Inr d"
  using assms(7,8)
proof (induction k arbitrary: i)
  case (Suc k)
  have ci: "is_clus v (cs ! i)" using assms(2) Suc.prems by (simp add: chain_ok_def)
  have "i * c \<le> (length cs - 1) * c" using Suc.prems by (intro mult_le_mono1) auto
  then have off: "i * c < length d" using assms(5) by linarith
  define n where "n = (if length d < i * c + c then length d - i * c else c)"
  let ?b = "take (i * c) d @ zeros (length d - i * c)"
  have lb: "length ?b = length d" using off by simp
  have st: "read_loop (Suc k) f v (cs ! i) (i * c) ?b =
      (if isEOC v (nxt v (cs ! i)) then Inr (take (i * c + n) d @ zeros (length d - (i * c + n)))
       else read_loop k f v (nxt v (cs ! i)) (i * c + n) (take (i * c + n) d @ zeros (length d - (i * c + n))))"
    using copy_chunk [OF refl off n_def] off
    by (cases "length d < i * c + c")
       (simp_all add: clus_ge2 [OF ci] assms(4) Suc.prems fatEntry_nxt [OF assms(1) ci] Let_def n_def lb)
  show ?case
  proof (cases "Suc i < length cs")
    case True
    have nx: "nxt v (cs ! i) = cs ! Suc i" "\<not> isEOC v (cs ! Suc i)"
      using assms(2) True linked_nth [of "nxt v" "isEOC v" cs i] by (auto simp: chain_ok_def)
    have "Suc i * c \<le> (length cs - 1) * c" using True by (intro mult_le_mono1) auto
    then have "n = c" using assms(5) by (simp add: n_def)
    then show ?thesis using st nx Suc.IH [OF True] Suc.prems by (simp add: add.commute)
  next
    case False
    then have i: "Suc i = length cs" using Suc.prems by linarith
    then have "cs ! i = last cs" using Suc.prems by (metis diff_Suc_1 last_conv_nth list.size(3) nat.simps(3))
    then have "isEOC v (nxt v (cs ! i))" using assms(2) linked_last [of "nxt v" "isEOC v" cs] by (simp add: chain_ok_def)
    moreover have "i * c + n = length d" using assms(6) [folded i] off by (auto simp: n_def)
    ultimately show ?thesis using st by simp
  qed
qed simp

lemma readAllClusters_ok:
  assumes "fat_ok v" "chain_ok v cs" "0 < c" "cluster e = hd cs" "fsize e = of_nat (length d)" "length d < 2 ^ 32"
    and "\<And>i. i < length cs \<Longrightarrow> readCluster f v (cs ! i) = Inr (data_chunk c d i)"
    and "d \<noteq> [] \<Longrightarrow> (length cs - 1) * c < length d" "length d \<le> length cs * c"
  shows "readAllClusters f v e = Inr d"
proof (cases "d = []")
  case True
  then show ?thesis using assms(5) by (simp add: readAllClusters_def)
next
  case False
  have sz: "unat (fsize e) = length d" using assms(5,6) by (simp add: unat_of_nat)
  have ne: "cs \<noteq> []" using chain_ok_ne assms(2) by blast
  have "length cs - 1 \<le> (length cs - 1) * c" using assms(3) by simp
  then have "length cs - 0 \<le> Suc (length d)" using assms(8) False by linarith
  from read_loop_ok [OF assms(1-3,7) assms(8) [OF False] assms(9) _ this] ne
  have "read_loop (Suc (length d)) f v (cs ! 0) 0 (zeros (length d)) = Inr d" by simp
  moreover have "fsize e \<noteq> 0" using sz False by auto
  ultimately show ?thesis using sz ne assms(4) by (simp add: readAllClusters_def hd_conv_nth del: read_loop.simps)
qed

subsection \<open>A file on the volume\<close>

text \<open>The clusters \<open>cs\<close> are the chain of a file with the contents \<open>d\<close>.\<close>

definition holds_file :: "gofile \<Rightarrow> fatvol \<Rightarrow> u32 list \<Rightarrow> bytes \<Rightarrow> bool" where
  "holds_file f v cs d \<longleftrightarrow> chain_ok v cs \<and> length cs = clusters_needed v d \<and>
     (\<forall>i < length cs. clus_view f v (cs ! i) = data_chunk (cluster_bytes v) d i)"

lemma geom_cluster_pos: "geom_ok f v \<Longrightarrow> 0 < cluster_bytes v"
  by (simp add: geom_ok_def)

lemma holds_file_read:
  assumes "fat_ok v" "geom_ok f v" "holds_file f v cs d" "length d < 2 ^ 32"
    and "cluster e = hd cs" "fsize e = of_nat (length d)"
  shows "readAllClusters f v e = Inr d"
proof -
  have h: "chain_ok v cs" "length cs = clusters_needed v d"
    "\<And>i. i < length cs \<Longrightarrow> clus_view f v (cs ! i) = data_chunk (cluster_bytes v) d i"
    using assms(3) by (auto simp: holds_file_def)
  note c = geom_cluster_pos [OF assms(2)]
  note b = clusters_needed_bounds [OF assms(4) c]
  have "readCluster f v (cs ! i) = Inr (data_chunk (cluster_bytes v) d i)" if "i < length cs" for i
    using readCluster_view [OF assms(2), of "cs ! i"] h(1) h(3) [OF that] that by (simp add: chain_ok_def)
  then show ?thesis using readAllClusters_ok [OF assms(1) h(1) c assms(5,6,4)] b h(2) by simp
qed

subsection \<open>What the operations leave alone\<close>

definition dirty_change :: "fatvol \<Rightarrow> fatvol \<Rightarrow> bool" where
  "dirty_change v v' \<longleftrightarrow> (\<exists>d. v' = v\<lparr>dirty := d\<rparr>)"

lemma dirty_change_keeps:
  assumes "dirty_change v v'"
  shows "v_b v' = v_b v" "fat1 v' = fat1 v" "fat_ok v' = fat_ok v" "is_clus v' = is_clus v" "isEOC v' = isEOC v" "nxt v' = nxt v"
    "chain_ok v' = chain_ok v" "clusters_needed v' = clusters_needed v" "cluster_bytes v' = cluster_bytes v"
    "sec_bytes v' = sec_bytes v" "free_set v' = free_set v"
proof -
  obtain d where v': "v' = v\<lparr>dirty := d\<rparr>" using assms by (auto simp: dirty_change_def)
  show s: "v_b v' = v_b v" "fat1 v' = fat1 v" "fat_ok v' = fat_ok v" "is_clus v' = is_clus v" "isEOC v' = isEOC v" "nxt v' = nxt v"
    "clusters_needed v' = clusters_needed v" "cluster_bytes v' = cluster_bytes v" "sec_bytes v' = sec_bytes v"
    by (simp_all add: v' fat_ok_def is_clus_def isEOC_def nxt_def fatEntry_def clusters_needed_def cluster_bytes_def sec_bytes_def fun_eq_iff Let_def)
  show "chain_ok v' = chain_ok v" "free_set v' = free_set v" by (simp_all add: s chain_ok_def free_set_def fun_eq_iff)
qed

lemma dirty_change_writeCluster: "dirty_change v (writeCluster n d v)"
  by (auto simp: dirty_change_def writeCluster_def)

lemma dirty_change_refl [simp]: "dirty_change v v"
  unfolding dirty_change_def by (rule exI [of _ "dirty v"]) simp

lemma dirty_change_trans: "dirty_change u v \<Longrightarrow> dirty_change v w \<Longrightarrow> dirty_change u w"
  by (auto simp: dirty_change_def)

lemma dirty_change_wr_list: "dirty_change v (clus.wr_list cs g i v)"
proof (induction cs arbitrary: i v)
  case (Cons c cs)
  show ?case unfolding clus.wr_list_simps by (rule dirty_change_trans [OF dirty_change_writeCluster Cons.IH])
qed simp

lemma fat_change_view:
  assumes "fat_change v v'"
  shows "clus_view f v' = clus_view f v" "geom_ok f v' = geom_ok f v" "cluster_bytes v' = cluster_bytes v"
    "clusters_needed v' = clusters_needed v" "sec_bytes v' = sec_bytes v"
  using fat_change_keeps [OF assms]
  by (simp_all add: clus_view_def geom_ok_def in_image_def cluster_bytes_def sec_bytes_def clus_sec_def firstSec_def
      clusters_needed_def fun_eq_iff)

subsection \<open>The sectors in front of the data area\<close>

text \<open>Writing clusters stages sectors of the data area only: what is staged in front of it is kept.\<close>

definition front_kept :: "fatvol \<Rightarrow> fatvol \<Rightarrow> bool" where
  "front_kept v v' \<longleftrightarrow> v_b v' = v_b v \<and> v_sr v' = v_sr v \<and>
     (\<forall>x. unat x < unat (firstDataSec (v_b v)) \<longrightarrow> map_of (dirty v') x = map_of (dirty v) x)"

lemma front_kept_refl [simp]: "front_kept v v"
  by (simp add: front_kept_def)

lemma front_kept_trans: "front_kept u v \<Longrightarrow> front_kept v w \<Longrightarrow> front_kept u w"
  by (simp add: front_kept_def)

lemma front_kept_fat_change: "fat_change v v' \<Longrightarrow> front_kept v v'"
  using fat_change_keeps [of v v'] by (simp add: front_kept_def)

lemma firstSec_behind:
  assumes "geom_ok f v" "is_clus v m" "i < unat (secPerClus (v_b v))"
  shows "unat (firstDataSec (v_b v)) \<le> unat (firstSec v m + of_nat i)"
proof -
  have "clus_sec v m + i < 2 ^ 32" using clus_sec_bound [OF assms(1,2)] assms(1,3) by (auto simp: geom_ok_def)
  moreover have "unat (of_nat i :: u32) = i" using assms(3) unsigned_less [where 'a = nat, of "secPerClus (v_b v)"] by (simp add: unat_of_nat)
  ultimately have "unat (firstSec v m + of_nat i) = clus_sec v m + i"
    by (subst unat_small_add) (auto simp: unat_firstSec [OF assms(1,2)])
  then show ?thesis by (simp add: clus_sec_def)
qed

lemma front_kept_writeCluster:
  assumes "geom_ok f v" "is_clus v n" "length d = cluster_bytes v"
  shows "front_kept v (writeCluster n d v)"
proof -
  have "map_of (dirty (writeCluster n d v)) x = map_of (dirty v) x" if "unat x < unat (firstDataSec (v_b v))" for x
    using dirty_writeCluster [OF assms, of x] firstSec_behind [OF assms(1,2)] that by (auto simp: not_le [symmetric])
  then show ?thesis by (simp add: front_kept_def)
qed

lemma front_kept_wr_list:
  assumes "geom_ok f v" "\<forall>c \<in> set cs. is_clus v c" "\<And>j. length (g j) = cluster_bytes v"
  shows "front_kept v (clus.wr_list cs g i v)"
  using assms
proof (induction cs arbitrary: i v)
  case (Cons c cs)
  note k = dirty_change_keeps [OF dirty_change_writeCluster [of v c "g i"]]
  have "front_kept v (writeCluster c (g i) v)" using Cons.prems by (intro front_kept_writeCluster) auto
  moreover have "front_kept (writeCluster c (g i) v) (clus.wr_list cs g (Suc i) (writeCluster c (g i) v))"
    using Cons.prems k geom_writeCluster [OF Cons.prems(1)] by (intro Cons.IH) auto
  ultimately show ?case unfolding clus.wr_list_simps by (rule front_kept_trans)
qed simp

subsection \<open>Writing the clusters of a file\<close>

lemma write_clusters_ok:
  assumes "fat_ok v" "geom_ok f v" "chain_ok v cs" "length d < 2 ^ 32" "clusters_needed v d \<le> length cs + card (free_set v)"
  shows "\<exists>v' cs'. write_clusters d cs v = (Inr (), v') \<and> holds_file f v' cs' d \<and> hd cs' = hd cs \<and>
    set cs' \<subseteq> set cs \<union> free_set v \<and> fat_ok v' \<and> geom_ok f v' \<and> v_b v' = v_b v \<and> front_kept v v' \<and>
    (\<forall>m \<in> set cs - set cs'. nxt v' m = 0) \<and>
    (\<forall>m. is_clus v m \<longrightarrow> m \<notin> set cs \<union> set cs' \<longrightarrow> nxt v' m = nxt v m) \<and>
    (\<forall>m. is_clus v m \<longrightarrow> m \<notin> set cs' \<longrightarrow> clus_view f v' m = clus_view f v m)"
proof -
  define needed where "needed = clusters_needed v d"
  note b = clusters_needed_bounds [OF assms(4) geom_cluster_pos [OF assms(2)]]
  have "needed - length cs \<le> card (free_set v)" using assms(5) by (simp add: needed_def)
  from grow_chain_ok [OF assms(1,3) this]
  obtain ns v1 where g: "grow_chain (needed - length cs) cs v = (Inr (cs @ ns), v1)" "length ns = needed - length cs"
    "set ns \<subseteq> free_set v" "fat_change v v1" "chain_ok v1 (cs @ ns)"
    "\<forall>m. is_clus v m \<longrightarrow> m \<notin> set (cs @ ns) \<longrightarrow> nxt v1 m = nxt v m" by blast
  note k1 = fat_change_keeps [OF g(4)] fat_change_view [OF g(4)]
  have np: "0 < needed" using b(1) by (simp add: needed_def)
  obtain v2 where s: "shrink_chain needed (cs @ ns) v1 = (Inr (take needed (cs @ ns)), v2)" "fat_change v1 v2"
    "chain_ok v2 (take needed (cs @ ns))" "\<forall>m \<in> set (drop needed (cs @ ns)). nxt v2 m = 0"
    "\<forall>m. is_clus v1 m \<longrightarrow> m \<notin> set (cs @ ns) \<longrightarrow> nxt v2 m = nxt v1 m"
    using shrink_chain_ok [OF _ g(5) np] assms(1) k1 by auto
  note k2 = fat_change_keeps [OF s(2)] fat_change_view [OF s(2)]
  define cs' where "cs' = take needed (cs @ ns)"
  have l': "length cs' = needed" using g(2) by (simp add: cs'_def)
  have ns: "ns = [] \<or> length (cs @ ns) = needed" using g(2) by auto
  have st: "set cs' \<subseteq> set cs \<union> set ns" using set_take_subset [of needed "cs @ ns"] by (auto simp: cs'_def)
  have "set (cs @ ns) = set cs' \<union> set (drop needed (cs @ ns))"
    unfolding cs'_def set_append [symmetric] append_take_drop_id ..
  then have dr1: "set cs - set cs' \<subseteq> set (drop needed (cs @ ns))" by auto
  have dr2: "set (cs @ ns) \<subseteq> set cs \<union> set cs'" using ns by (auto simp: cs'_def)
  have cl: "\<forall>c \<in> set cs'. is_clus v2 c" "distinct cs'" using s(3) by (auto simp: chain_ok_def cs'_def)
  have geo: "geom_ok f v2" using assms(2) k1 k2 by simp
  let ?g = "data_chunk (cluster_bytes v) d"
  define v3 where "v3 = clus.wr_list cs' ?g 0 v2"
  have cb: "cluster_bytes v2 = cluster_bytes v" using k1 k2 by simp
  have "j * cluster_bytes v \<le> length d" if "j < needed" for j
  proof (cases "d = []")
    case True
    then have "needed = 1" using geom_cluster_pos [OF assms(2)] by (simp add: needed_def clusters_needed_def Let_def cluster_bytes_def)
    then show ?thesis using that by simp
  next
    case False
    have "j * cluster_bytes v \<le> (needed - 1) * cluster_bytes v" using that by (intro mult_le_mono1) auto
    moreover have "(needed - 1) * cluster_bytes v < length d" using b(3) [OF False] by (simp only: needed_def)
    ultimately show ?thesis by linarith
  qed
  then have w: "write_chunks d 0 cs' v2 = (Inr (), v3)" using write_chunks_eq [of cs' 0 v2 d] l' cb by (simp add: v3_def)
  note k3 = dirty_change_keeps [OF dirty_change_wr_list [of v2 cs' ?g 0], folded v3_def]
  have geo3: "geom_ok f v3" unfolding v3_def using clus.wr_list_inv [OF geo cl(1)] cb by simp
  have rd: "clus_view f v3 (cs' ! i) = ?g i" if "i < length cs'" for i
    using clus.rd_wr_list [OF geo cl(1) _ cl(2) that, of ?g 0] cb readCluster_view [OF geo3, of "cs' ! i"] cl(1) that k3
    by (simp add: v3_def [symmetric])
  have other: "clus_view f v3 m = clus_view f v m" if "is_clus v m" "m \<notin> set cs'" for m
    using clus.rd_wr_list_other [OF geo cl(1), of ?g m 0] cb that k1 k2 k3 readCluster_view [OF geo3, of m] readCluster_view [OF geo, of m]
    by (simp add: v3_def [symmetric])
  have hf: "holds_file f v3 cs' d" using s(3) rd l' k1 k2 k3 by (simp add: holds_file_def cs'_def needed_def)
  have hd': "hd cs' = hd cs" using chain_ok_ne [OF assms(3)] np by (cases cs; cases needed) (auto simp: cs'_def)
  have "write_clusters d cs v = (Inr (), v3)"
    using g(1) s(1) w by (simp add: write_clusters_def bindS_def readS_def needed_def cs'_def)
  moreover have "nxt v3 m = 0" if "m \<in> set cs - set cs'" for m using that dr1 s(4) k3 by auto
  moreover have "nxt v3 m = nxt v m" if "is_clus v m" "m \<notin> set cs \<union> set cs'" for m
  proof -
    have "m \<notin> set (cs @ ns)" using that dr2 by auto
    then show ?thesis using that g(6) s(5) k1(7) k3 by simp
  qed
  moreover have "fat_ok v3" "v_b v3 = v_b v" using assms(1) k1 k2 k3 by simp_all
  moreover have "front_kept v v3"
    using front_kept_trans [OF front_kept_trans [OF front_kept_fat_change [OF g(4)] front_kept_fat_change [OF s(2)]]
      front_kept_wr_list [OF geo cl(1), of ?g 0]] cb by (simp add: v3_def)
  ultimately show ?thesis using hf hd' st g(3) geo3 other by (intro exI [of _ v3] exI [of _ cs']) auto
qed

end
