(* ===== verification/FatFileData.thy ===== *)
theory FatFileData
  imports FatData
begin

text \<open>
  Total correctness of \<open>writeFileData\<close>: with enough free clusters it succeeds, the file reads
  back as written, the directory record is updated in place, and every other file and every other
  cluster stays as it was.
\<close>

subsection \<open>The place of a directory entry\<close>

text \<open>
  Where \<open>writeDirEntry\<close> puts the record: inside one sector of the fixed root directory of
  FAT12/16, which ends before the data area, or inside a cluster that is in use.
\<close>

definition in_root :: "fatvol \<Rightarrow> fatDirEntry \<Rightarrow> bool" where
  "in_root v e \<longleftrightarrow> dirCluster e = 0 \<and> fatType (v_b v) \<noteq> FAT32"

definition entry_home :: "fatvol \<Rightarrow> fatDirEntry \<Rightarrow> bool" where
  "entry_home v e \<longleftrightarrow> length (shortName e) = 11 \<and>
     (if in_root v e
      then unat (dirOffset e) mod sec_bytes v + 32 \<le> sec_bytes v \<and>
           unat (firstRootDir (v_b v)) + unat (dirOffset e) div sec_bytes v < unat (firstDataSec (v_b v))
      else is_clus v (dirCluster e) \<and> unat (dirOffset e) + 32 \<le> cluster_bytes v)"

lemma overlay_cong:
  "(\<And>i. i < k \<Longrightarrow> map_of d (first + of_nat i) = map_of d' (first + of_nat i)) \<Longrightarrow>
   overlay d s first k buf = overlay d' s first k buf"
  by (induction k) (simp_all add: overlay_Suc cong: option.case_cong, simp add: overlay_def)

lemma clus_view_stage_sector:
  assumes "geom_ok f v" "is_clus v m" "unat sec < unat (firstDataSec (v_b v))" "length b = sec_bytes v"
  shows "clus_view f (stage_sector sec b v) m = clus_view f v m" "geom_ok f (stage_sector sec b v)"
proof -
  have ne: "firstSec v m + of_nat i \<noteq> sec" if "i < unat (secPerClus (v_b v))" for i
    using firstSec_behind [OF assms(1,2) that] assms(3) by auto
  have "overlay (AList.update sec b (dirty v)) s (firstSec v m) (unat (secPerClus (v_b v))) buf =
      overlay (dirty v) s (firstSec v m) (unat (secPerClus (v_b v))) buf" for s buf
    by (rule overlay_cong) (simp add: update_conv' ne)
  then show "clus_view f (stage_sector sec b v) m = clus_view f v m"
    by (simp add: clus_view_def stage_sector_def sec_bytes_def cluster_bytes_def firstSec_def clus_sec_def)
  show "geom_ok f (stage_sector sec b v)"
    using assms(1,4) by (auto simp: geom_ok_def in_image_def stage_sector_def sec_bytes_def cluster_bytes_def dest!: set_AList_update)
qed

lemma root_sector_read:
  assumes "geom_ok f v" "unat (firstRootDir (v_b v)) + unat o' div sec_bytes v < unat (firstDataSec (v_b v))"
  shows "\<exists>b. read_root_sector f v o' = Inr b \<and> length b = sec_bytes v"
    "unat (root_sector v o') = unat (firstRootDir (v_b v)) + unat o' div sec_bytes v"
    "in_sector v o' = unat o' mod sec_bytes v"
proof -
  let ?s = "unat (firstRootDir (v_b v)) + unat o' div sec_bytes v"
  have g: "in_image f v" "0 < sec_bytes v"
    "int ((unat (firstDataSec (v_b v)) + unat (cntClusters (v_b v)) * unat (secPerClus (v_b v))) * sec_bytes v) \<le> sec_size (v_sr v)"
    using assms(1) by (auto simp: geom_ok_def)
  have d: "unat (o' div ucast (bytesPerSec (v_b v))) = unat o' div sec_bytes v"
    by (simp add: unat_div_distrib unat_ucast16_32 sec_bytes_def)
  show rs: "unat (root_sector v o') = ?s"
    unfolding root_sector_def using assms(2) unat_lt32 [of "firstDataSec (v_b v)"] by (subst unat_small_add) (auto simp: d)
  show "in_sector v o' = unat o' mod sec_bytes v"
    by (simp add: in_sector_def unat_mod_distrib unat_ucast16_32 sec_bytes_def)
  have "(?s + 1) * sec_bytes v \<le> (unat (firstDataSec (v_b v)) + unat (cntClusters (v_b v)) * unat (secPerClus (v_b v))) * sec_bytes v"
    using assms(2) by (intro mult_le_mono1) linarith
  then have e: "int (?s * sec_bytes v) + int (sec_bytes v) \<le> sec_size (v_sr v)" using g(3) by (simp only: add_mult_distrib)
  have "full (SecReadAt f (v_sr v) (sec_bytes v) (int (?s * sec_bytes v))) =
      Inr (sub (contents f) (nat (sec_base (v_sr v) + int (?s * sec_bytes v))) (sec_bytes v))"
    using SecReadAt_inside [of f "v_sr v" "int (?s * sec_bytes v)" "sec_bytes v"] e g by (simp add: in_image_def nat_le_iff)
  moreover from this have "length (sub (contents f) (nat (sec_base (v_sr v) + int (?s * sec_bytes v))) (sec_bytes v)) = sec_bytes v"
    by (rule full_SecReadAt_length)
  ultimately show "\<exists>b. read_root_sector f v o' = Inr b \<and> length b = sec_bytes v"
    by (simp add: read_root_sector_def rs sec_bytes_def)
qed

text \<open>
  The 32 bytes at the place of an entry, as the readers of the driver see them, that is, with the
  staged sectors in place of those on disk.
\<close>

definition dir_record :: "gofile \<Rightarrow> fatvol \<Rightarrow> fatDirEntry \<Rightarrow> bytes res" where
  "dir_record f v e =
     (if in_root v e
      then bindR (case map_of (dirty v) (root_sector v (dirOffset e)) of Some b \<Rightarrow> Inr b | None \<Rightarrow> read_root_sector f v (dirOffset e))
             (\<lambda>b. Inr (sub b (in_sector v (dirOffset e)) 32))
      else bindR (readCluster f v (dirCluster e)) (\<lambda>b. Inr (sub b (unat (dirOffset e)) 32)))"

text \<open>
  When the record of \<open>e2\<close> survives an update of the record of \<open>e\<close>: the two do not overlap, and in the
  fixed root directory they are in different sectors, or in a sector that is not staged.
\<close>

definition apart :: "u32 \<Rightarrow> u32 \<Rightarrow> bool" where
  "apart a b \<longleftrightarrow> unat a + 32 \<le> unat b \<or> unat b + 32 \<le> unat a"

definition record_safe :: "fatvol \<Rightarrow> fatDirEntry \<Rightarrow> fatDirEntry \<Rightarrow> bool" where
  "record_safe v e e2 \<longleftrightarrow>
     (if in_root v e \<and> in_root v e2
      then root_sector v (dirOffset e2) = root_sector v (dirOffset e) \<longrightarrow>
             map_of (dirty v) (root_sector v (dirOffset e)) = None \<and> apart (dirOffset e) (dirOffset e2)
      else dirCluster e2 = dirCluster e \<longrightarrow> apart (dirOffset e) (dirOffset e2))"

lemma dir_record_cluster:
  assumes "geom_ok f v" "\<not> in_root v e" "is_clus v (dirCluster e)"
  shows "dir_record f v e = Inr (sub (clus_view f v (dirCluster e)) (unat (dirOffset e)) 32)"
  using assms readCluster_view [OF assms(1,3)] by (simp add: dir_record_def)

lemma dir_record_front:
  assumes "geom_ok f v" "front_kept v v'" "in_root v e" "entry_home v e"
  shows "dir_record f v' e = dir_record f v e"
proof -
  have h: "unat (firstRootDir (v_b v)) + unat (dirOffset e) div sec_bytes v < unat (firstDataSec (v_b v))"
    using assms(3,4) by (simp add: entry_home_def)
  have k: "v_b v' = v_b v" "v_sr v' = v_sr v" using assms(2) by (simp_all add: front_kept_def)
  have rs: "root_sector v' (dirOffset e) = root_sector v (dirOffset e)" by (simp add: root_sector_def k)
  have "unat (root_sector v (dirOffset e)) < unat (firstDataSec (v_b v))" using root_sector_read(2) [OF assms(1) h] h by simp
  then have m: "map_of (dirty v') (root_sector v (dirOffset e)) = map_of (dirty v) (root_sector v (dirOffset e))"
    using assms(2) by (simp add: front_kept_def)
  show ?thesis using assms(3) by (simp add: dir_record_def in_root_def k rs m read_root_sector_def in_sector_def split: option.split)
qed

lemma sub_copy_apart:
  assumes "off + length x \<le> length b" "p + n \<le> length b" "off + length x \<le> p \<or> p + n \<le> off"
  shows "sub (copy_into b off x) p n = sub b p n"
  using assms by (intro nth_equalityI) (auto simp: nth_copy_into)

lemma mod_apart:
  fixes a b n :: nat
  assumes "a div n = b div n" "a + k \<le> b"
  shows "a mod n + k \<le> b mod n"
proof -
  have "a div n * n + a mod n = a" by (rule div_mult_mod_eq)
  moreover have "a div n * n + b mod n = b" unfolding assms(1) by (rule div_mult_mod_eq)
  ultimately show ?thesis using assms(2) by linarith
qed

lemma root_record_update:
  assumes "geom_ok f v" "entry_home v e" "in_root v e" "read_root_sector f v (dirOffset e) = Inr b" "length b = sec_bytes v"
    and "v' = stage_sector (root_sector v (dirOffset e)) (copy_into b (in_sector v (dirOffset e)) (entry_bytes e)) v"
  shows "dir_record f v' e = Inr (entry_bytes e)"
    "entry_home v e2 \<Longrightarrow> record_safe v e e2 \<Longrightarrow> in_root v e2 \<Longrightarrow> dir_record f v' e2 = dir_record f v e2"
proof -
  let ?n = "sec_bytes v" let ?o = "unat (dirOffset e)" let ?o2 = "unat (dirOffset e2)"
  have h: "?o mod ?n + 32 \<le> ?n" "unat (firstRootDir (v_b v)) + ?o div ?n < unat (firstDataSec (v_b v))" "length (entry_bytes e) = 32"
    using assms(2,3) by (auto simp: entry_home_def length_entry_bytes)
  note r = root_sector_read [OF assms(1) h(2)]
  have k: "v_b v' = v_b v" "v_sr v' = v_sr v" by (simp_all add: assms(6) stage_sector_def)
  have c: "in_root v' x = in_root v x" "root_sector v' y = root_sector v y" "in_sector v' y = in_sector v y" "read_root_sector f v' y = read_root_sector f v y" for x y
    by (simp_all add: in_root_def root_sector_def in_sector_def read_root_sector_def k)
  have m: "map_of (dirty v') x = (if x = root_sector v (dirOffset e) then Some (copy_into b (?o mod ?n) (entry_bytes e)) else map_of (dirty v) x)" for x
    by (simp add: assms(6) stage_sector_def update_conv' r(3))
  show "dir_record f v' e = Inr (entry_bytes e)"
    using assms(3,5) h by (simp add: dir_record_def c m r(3))
  assume e2: "entry_home v e2" "record_safe v e e2" "in_root v e2"
  have h2: "?o2 mod ?n + 32 \<le> ?n" "unat (firstRootDir (v_b v)) + ?o2 div ?n < unat (firstDataSec (v_b v))"
    using e2(1,3) by (auto simp: entry_home_def)
  note r2 = root_sector_read [OF assms(1) h2(2)]
  show "dir_record f v' e2 = dir_record f v e2"
  proof (cases "root_sector v (dirOffset e2) = root_sector v (dirOffset e)")
    case True
    then have n: "map_of (dirty v) (root_sector v (dirOffset e)) = None" "apart (dirOffset e) (dirOffset e2)"
      using e2 assms(3) by (simp_all add: record_safe_def)
    have "?o div ?n = ?o2 div ?n" using True r(2) r2(2) by simp
    then have "?o mod ?n + 32 \<le> ?o2 mod ?n \<or> ?o2 mod ?n + 32 \<le> ?o mod ?n"
      using n(2) mod_apart [of ?o ?n ?o2 32] mod_apart [of ?o2 ?n ?o 32] by (auto simp: apart_def)
    then have "sub (copy_into b (?o mod ?n) (entry_bytes e)) (?o2 mod ?n) 32 = sub b (?o2 mod ?n) 32"
      using h h2 assms(5) by (intro sub_copy_apart) auto
    moreover have "read_root_sector f v (dirOffset e2) = Inr b" using assms(4) True by (simp add: read_root_sector_def)
    ultimately show ?thesis using e2(3) True n(1) by (simp add: dir_record_def c m r2(3))
  next
    case False
    then show ?thesis using e2(3) by (simp add: dir_record_def c m split: option.split)
  qed
qed

lemma writeDirEntry_ok:
  assumes "geom_ok f v" "entry_home v e"
  shows "\<exists>v'. writeDirEntry f e v = (Inr (), v') \<and> dirty_change v v' \<and> geom_ok f v' \<and> dir_record f v' e = Inr (entry_bytes e) \<and>
    (\<forall>e2. entry_home v e2 \<and> record_safe v e e2 \<longrightarrow> dir_record f v' e2 = dir_record f v e2) \<and>
    (\<forall>m. is_clus v m \<longrightarrow> clus_view f v' m =
       (if m = dirCluster e then copy_into (clus_view f v m) (unat (dirOffset e)) (entry_bytes e) else clus_view f v m))"
proof (cases "in_root v e")
  case True
  then have h: "unat (dirOffset e) mod sec_bytes v + 32 \<le> sec_bytes v"
    "unat (firstRootDir (v_b v)) + unat (dirOffset e) div sec_bytes v < unat (firstDataSec (v_b v))" "length (shortName e) = 11"
    using assms(2) by (auto simp: entry_home_def)
  note r = root_sector_read [OF assms(1) h(2)]
  obtain b where b: "read_root_sector f v (dirOffset e) = Inr b" "length b = sec_bytes v" using r(1) by blast
  define b' where "b' = copy_into b (unat (dirOffset e) mod sec_bytes v) (entry_bytes e)"
  let ?v = "stage_sector (root_sector v (dirOffset e)) b' v"
  have "writeDirEntry f e v = (Inr (), ?v)"
    using True b h by (simp add: writeDirEntry_def in_root_def bindS_def readS_def modS_def wrapR_def r(3) encodeDirEntry32_eq b'_def)
  moreover have dch: "dirty_change v ?v" by (auto simp: dirty_change_def stage_sector_def)
  moreover have "\<not> is_clus v (dirCluster e)" using True by (simp add: in_root_def is_clus_def)
  moreover have l: "length b' = sec_bytes v" "unat (root_sector v (dirOffset e)) < unat (firstDataSec (v_b v))"
    using b(2) r(2) h(2) by (simp_all add: b'_def)
  moreover have gv: "geom_ok f ?v"
    using assms(1) l(1) by (auto simp: geom_ok_def in_image_def stage_sector_def sec_bytes_def cluster_bytes_def dest!: set_AList_update)
  moreover have "dir_record f ?v e = Inr (entry_bytes e)"
    using root_record_update(1) [OF assms True b] by (simp add: b'_def r(3))
  moreover have "dir_record f ?v e2 = dir_record f v e2" if "entry_home v e2" "record_safe v e e2" for e2
  proof (cases "in_root v e2")
    case True2: True
    show ?thesis using root_record_update(2) [OF assms True b _ that True2] by (simp add: b'_def r(3))
  next
    case False
    then have "is_clus v (dirCluster e2)" "\<not> in_root ?v e2" "is_clus ?v (dirCluster e2)"
      using that(1) dirty_change_keeps [OF dch] by (auto simp: entry_home_def in_root_def)
    then show ?thesis
      using dir_record_cluster [OF gv, of e2] dir_record_cluster [OF assms(1) False] clus_view_stage_sector(1) [OF assms(1) _ l(2,1)]
      by simp
  qed
  ultimately show ?thesis using clus_view_stage_sector(1) [OF assms(1) _ l(2,1)] by (intro exI [of _ ?v]) auto
next
  case False
  then have h: "is_clus v (dirCluster e)" "unat (dirOffset e) + 32 \<le> cluster_bytes v" "length (shortName e) = 11"
    using assms(2) by (auto simp: entry_home_def)
  define d where "d = copy_into (clus_view f v (dirCluster e)) (unat (dirOffset e)) (entry_bytes e)"
  note l = length_clus_view [OF assms(1) h(1)]
  have "writeDirEntry f e v = (Inr (), writeCluster (dirCluster e) d v)"
    using False h l readCluster_view [OF assms(1) h(1)]
    by (auto simp: writeDirEntry_def in_root_def bindS_def readS_def modS_def encodeDirEntry32_eq d_def)
  moreover define v' where "v' = writeCluster (dirCluster e) d v"
  moreover have "dirty_change v v'" by (simp add: v'_def dirty_change_writeCluster)
  moreover have g: "geom_ok f v'" by (simp add: v'_def geom_writeCluster [OF assms(1)])
  moreover have cv: "clus_view f v' m = (if m = dirCluster e then d else clus_view f v m)" if "is_clus v m" for m
    using readCluster_writeCluster [OF assms(1) h(1) that, of d] l by (simp add: v'_def d_def)
  moreover have c: "in_root v' x = in_root v x" "is_clus v' = is_clus v" for x by (simp_all add: v'_def in_root_def)
  moreover have "dir_record f v' e = Inr (entry_bytes e)"
    using dir_record_cluster [OF g, of e] False c h cv l
    by (simp add: d_def length_entry_bytes)
  moreover have "dir_record f v' e2 = dir_record f v e2" if e2: "entry_home v e2" "record_safe v e e2" for e2
  proof (cases "in_root v e2")
    case True
    have "front_kept v v'" unfolding v'_def by (rule front_kept_writeCluster [OF assms(1) h(1)]) (simp add: d_def l)
    then show ?thesis by (rule dir_record_front [OF assms(1) _ True e2(1)])
  next
    case f2: False
    then have h2: "is_clus v (dirCluster e2)" "unat (dirOffset e2) + 32 \<le> cluster_bytes v" using e2(1) by (auto simp: entry_home_def)
    have "sub d (unat (dirOffset e2)) 32 = sub (clus_view f v (dirCluster e)) (unat (dirOffset e2)) 32" if "dirCluster e2 = dirCluster e"
      unfolding d_def using e2(2) False that h h2 l by (intro sub_copy_apart) (auto simp: record_safe_def apart_def length_entry_bytes)
    then show ?thesis using dir_record_cluster [OF g, of e2] dir_record_cluster [OF assms(1) f2 h2(1)] f2 c h2 cv by auto
  qed
  ultimately show ?thesis by (intro exI [of _ v']) (auto simp: d_def)
qed

subsection \<open>The clusters a write starts from\<close>

definition file_chain :: "fatvol \<Rightarrow> u32 \<Rightarrow> u32 list \<Rightarrow> bool" where
  "file_chain v c cs \<longleftrightarrow> (if c < 2 then cs = [] else chain_ok v cs \<and> hd cs = c)"

lemma file_clusters_ok:
  assumes "fat_ok v" "file_chain v c cs" "0 < length cs + card (free_set v)"
  shows "\<exists>cs0 v1. file_clusters c v = (Inr (hd cs0, cs0), v1) \<and> chain_ok v1 cs0 \<and> fat_change v v1 \<and>
    set cs \<subseteq> set cs0 \<and> set cs0 \<union> free_set v1 = set cs \<union> free_set v \<and>
    length cs0 + card (free_set v1) = length cs + card (free_set v) \<and>
    (\<forall>m. is_clus v m \<longrightarrow> m \<notin> set cs0 \<longrightarrow> nxt v1 m = nxt v m)"
proof (cases "c < 2")
  case False
  then have "chain_ok v cs" "hd cs = c" using assms(2) by (auto simp: file_chain_def)
  then show ?thesis using False clusterChain_ok_aux [OF assms(1), of cs]
    by (intro exI [of _ cs] exI [of _ v]) (auto simp: file_clusters_def bindS_def readS_def retS_def)
next
  case True
  then have cs: "cs = []" using assms(2) by (simp add: file_chain_def)
  from allocCluster_cases [OF assms(1)] show ?thesis
  proof cases
    case (1 n v1)
    note k = fat_change_keeps [OF 1(3)]
    have n: "is_clus v n" "nxt v n = 0" using 1(2) by (auto simp: first_free_def)
    have fs: "free_set v1 = free_set v - {n}"
      using 1(4) k(7) eoc_mask(3) [of v] by (auto simp: free_set_def split: if_splits)
    have nf: "n \<in> free_set v" using n by (simp add: free_set_def)
    have "chain_ok v1 [n]" using 1(4) n k eoc_mask(2) [of v] by (auto simp: chain_ok_def)
    moreover have "card (free_set v) = Suc (card (free_set v1))" using nf unfolding fs by (metis card.remove finite_free_set)
    ultimately show ?thesis using 1 True cs fs nf
      by (intro exI [of _ "[n]"] exI [of _ v1]) (auto simp: file_clusters_def bindS_def retS_def)
  next
    case 2
    then have "free_set v = {}" by (auto simp: free_set_def)
    then show ?thesis using assms(3) cs by simp
  qed
qed

subsection \<open>\<open>writeFileData\<close>\<close>

lemma clusters_needed_pos: "0 < clusters_needed v d"
  by (simp add: clusters_needed_def Let_def)

lemma holds_file_cong:
  assumes "dirty_change v v'" "\<And>c. c \<in> set cs \<Longrightarrow> clus_view f v' c = clus_view f v c" "holds_file f v cs d"
  shows "holds_file f v' cs d"
  using assms dirty_change_keeps [OF assms(1)] by (simp add: holds_file_def)

lemma writeFileData_ok_aux:
  assumes "fat_ok v" "geom_ok f v" "file_chain v (cluster e) cs" "length d < 2 ^ 32"
    and "entry_home v e" "dirCluster e \<notin> set cs" "dirCluster e \<notin> free_set v"
    and "clusters_needed v d \<le> length cs + card (free_set v)"
  shows "\<exists>v' e' cs'. writeFileData f t d (v, e) = (Inr (), v', e') \<and>
    holds_file f v' cs' d \<and> readAllClusters f v' e' = Inr d \<and> fat_ok v' \<and> geom_ok f v' \<and> v_b v' = v_b v \<and>
    e' = e\<lparr>cluster := hd cs', fsize := of_nat (length d), wrtDate := fatDate t, wrtTime := fatTime t\<rparr> \<and>
    dir_record f v' e' = Inr (entry_bytes e') \<and>
    (\<forall>e2. entry_home v e2 \<and> record_safe v e e2 \<and> dirCluster e2 \<notin> set cs \<union> free_set v \<longrightarrow> dir_record f v' e2 = dir_record f v e2) \<and>
    set cs' \<subseteq> set cs \<union> free_set v \<and>
    (\<forall>m. is_clus v m \<longrightarrow> m \<notin> set cs \<union> set cs' \<longrightarrow> nxt v' m = nxt v m) \<and>
    (\<forall>m. is_clus v m \<longrightarrow> m \<notin> set cs' \<longrightarrow> clus_view f v' m =
       (if m = dirCluster e then copy_into (clus_view f v m) (unat (dirOffset e)) (entry_bytes e') else clus_view f v m))"
proof -
  have "0 < length cs + card (free_set v)" using assms(8) clusters_needed_pos [of v d] by linarith
  from file_clusters_ok [OF assms(1,3) this]
  obtain cs0 v1 where c: "file_clusters (cluster e) v = (Inr (hd cs0, cs0), v1)" "chain_ok v1 cs0" "fat_change v v1"
    "set cs \<subseteq> set cs0" "set cs0 \<union> free_set v1 = set cs \<union> free_set v"
    "length cs0 + card (free_set v1) = length cs + card (free_set v)"
    "\<forall>m. is_clus v m \<longrightarrow> m \<notin> set cs0 \<longrightarrow> nxt v1 m = nxt v m" by blast
  note k1 = fat_change_keeps [OF c(3)] fat_change_view [OF c(3)]
  have p1: "fat_ok v1" "geom_ok f v1" "clusters_needed v1 d \<le> length cs0 + card (free_set v1)"
    using assms(1,2,8) c(6) k1 by simp_all
  obtain v2 cs' where w: "write_clusters d cs0 v1 = (Inr (), v2)" "holds_file f v2 cs' d" "hd cs' = hd cs0"
    "set cs' \<subseteq> set cs0 \<union> free_set v1" "fat_ok v2" "geom_ok f v2" "v_b v2 = v_b v1" "front_kept v1 v2"
    "\<forall>m \<in> set cs0 - set cs'. nxt v2 m = 0"
    "\<forall>m. is_clus v1 m \<longrightarrow> m \<notin> set cs0 \<union> set cs' \<longrightarrow> nxt v2 m = nxt v1 m"
    "\<forall>m. is_clus v1 m \<longrightarrow> m \<notin> set cs' \<longrightarrow> clus_view f v2 m = clus_view f v1 m"
    using write_clusters_ok [OF p1(1,2) c(2) assms(4) p1(3)] by blast
  define e' where "e' = e\<lparr>cluster := hd cs', fsize := of_nat (length d), wrtDate := fatDate t, wrtTime := fatTime t\<rparr>"
  have b: "v_b v2 = v_b v" using w(7) k1 by simp
  have cl: "is_clus v2 = is_clus v" "is_clus v1 = is_clus v" "sec_bytes v2 = sec_bytes v" "cluster_bytes v2 = cluster_bytes v"
    using b k1 by (simp_all add: is_clus_def sec_bytes_def cluster_bytes_def fun_eq_iff)
  then have h: "entry_home v2 e'" using assms(5) b by (simp add: entry_home_def in_root_def e'_def)
  obtain v3 where v3: "writeDirEntry f e' v2 = (Inr (), v3)" "dirty_change v2 v3" "geom_ok f v3"
    "dir_record f v3 e' = Inr (entry_bytes e')" "\<forall>e2. entry_home v2 e2 \<and> record_safe v2 e' e2 \<longrightarrow> dir_record f v3 e2 = dir_record f v2 e2"
    "\<forall>m. is_clus v2 m \<longrightarrow> clus_view f v3 m =
       (if m = dirCluster e' then copy_into (clus_view f v2 m) (unat (dirOffset e')) (entry_bytes e') else clus_view f v2 m)"
    using writeDirEntry_ok [OF w(6) h] by blast
  note k3 = dirty_change_keeps [OF v3(2)]
  have sub: "set cs' \<subseteq> set cs \<union> free_set v" using w(4) c(5) by auto
  have dc: "dirCluster e \<notin> set cs'" using sub assms(6,7) by blast
  have "holds_file f v3 cs' d"
    by (rule holds_file_cong [OF v3(2) _ w(2)]) (use v3(6) dc w(2) in \<open>auto simp: e'_def holds_file_def chain_ok_def\<close>)
  moreover have "readAllClusters f v3 e' = Inr d"
    by (rule holds_file_read [OF _ v3(3) \<open>holds_file f v3 cs' d\<close> assms(4)]) (use w(5) k3 in \<open>auto simp: e'_def\<close>)
  moreover have "writeFileData f t d (v, e) = (Inr (), v3, e')"
    using c(1) w(1,3) v3(1) by (simp add: writeFileData_def Let_def e'_def)
  moreover have "nxt v3 m = nxt v m" if "is_clus v m" "m \<notin> set cs \<union> set cs'" for m
  proof (cases "m \<in> set cs0")
    case True
    then have "m \<in> free_set v" using c(5) that(2) by auto
    then show ?thesis using w(9) True that(2) k3(6) by (simp add: free_set_def)
  next
    case False
    then show ?thesis using that w(10) c(7) k3(6) cl by simp
  qed
  moreover have "clus_view f v3 m =
      (if m = dirCluster e then copy_into (clus_view f v m) (unat (dirOffset e)) (entry_bytes e') else clus_view f v m)"
    if "is_clus v m" "m \<notin> set cs'" for m
  proof -
    have "clus_view f v2 m = clus_view f v m" using that w(11) cl k1 by simp
    moreover have "dirCluster e' = dirCluster e" "dirOffset e' = dirOffset e" by (simp_all add: e'_def)
    ultimately show ?thesis using that(1) v3(6) cl(1) by auto
  qed
  moreover have "dir_record f v3 e2 = dir_record f v e2"
    if e2: "entry_home v e2" "record_safe v e e2" "dirCluster e2 \<notin> set cs \<union> free_set v" for e2
  proof -
    have fk: "front_kept v v2" using front_kept_trans [OF front_kept_fat_change [OF c(3)] w(8)] .
    have ir: "in_root v2 x = in_root v x" "root_sector v2 y = root_sector v y" for x y by (simp_all add: in_root_def root_sector_def b)
    have h2: "entry_home v2 e2" using e2(1) cl by (simp add: entry_home_def ir b)
    have m: "map_of (dirty v2) (root_sector v (dirOffset e)) = map_of (dirty v) (root_sector v (dirOffset e))" if "in_root v e"
      using that assms(5) fk root_sector_read(2) [OF assms(2)] by (auto simp: entry_home_def front_kept_def)
    have "in_root v e' = in_root v e" "dirCluster e' = dirCluster e" "dirOffset e' = dirOffset e" by (simp_all add: e'_def in_root_def)
    then have "record_safe v2 e' e2" using e2(2) m by (auto simp: record_safe_def ir)
    then have "dir_record f v3 e2 = dir_record f v2 e2" using v3(5) h2 by blast
    also have "\<dots> = dir_record f v e2"
    proof (cases "in_root v e2")
      case True
      then show ?thesis by (rule dir_record_front [OF assms(2) fk _ e2(1)])
    next
      case False
      then have c2: "is_clus v (dirCluster e2)" using e2(1) by (simp add: entry_home_def)
      have "clus_view f v2 (dirCluster e2) = clus_view f v (dirCluster e2)" using w(11) c2 e2(3) sub cl k1 by auto
      then show ?thesis using dir_record_cluster [OF w(6), of e2] dir_record_cluster [OF assms(2) False c2] False c2 cl by (simp add: ir)
    qed
    finally show ?thesis .
  qed
  ultimately show ?thesis using v3(3,4) w(5) b k3 sub e'_def by (intro exI [of _ v3] exI [of _ e'] exI [of _ cs']) simp
qed

end
