(* ===== verification/FatFlush.thy ===== *)
theory FatFlush
  imports FatTable
begin

text \<open>
  Writing a FAT volume back (\<open>src/fat32/flush.go\<close>): every copy of the FAT, the staged sectors in
  the order in which the Go map yields them (\<open>ord\<close>), and on FAT32 the two FSInfo sectors.
\<close>

definition part_off :: "fatvol \<Rightarrow> int \<Rightarrow> int" where
  "part_off v off = v_start v + off"

definition fat_copies :: "fatvol \<Rightarrow> (bytes \<times> int) list" where
  "fat_copies v =
     (let b = v_b v; secSize = int (unat (bytesPerSec b));
          fatStart = int (unat (rsvdSecCnt b)) * secSize; fatLen = int (unat (fatSz b)) * secSize
      in map (\<lambda>i. (fat1 v, part_off v (fatStart + int i * fatLen))) [0..<unat (numFATs b)])"

definition sector_writes :: "((u32 \<times> bytes) list \<Rightarrow> (u32 \<times> bytes) list) \<Rightarrow> fatvol \<Rightarrow> (bytes \<times> int) list" where
  "sector_writes ord v =
     map (\<lambda>(sec, d). (d, part_off v (int (unat sec) * int (unat (bytesPerSec (v_b v)))))) (ord (dirty v))"

definition fsinfo_sector :: "fatvol \<Rightarrow> bytes res" where
  "fsinfo_sector v =
     bindR (count_free v (clusters v)) (\<lambda>free.
     bindR (find_free v (clusters v)) (\<lambda>nxt.
       let sec = zeros (unat (bytesPerSec (v_b v))) in
       if length sec < 512 then bounds_panic
       else Inr (put32 (put32 (put32 (put32 (put32 sec 0 0x41615252) 484 0x61417272) 488 (of_nat free))
                   492 (case nxt of Some n \<Rightarrow> n | None \<Rightarrow> 0xFFFFFFFF)) 508 0xAA550000)))"

definition flushFSInfo :: "gofile \<Rightarrow> fatvol \<Rightarrow> unit res \<times> gofile" where
  "flushFSInfo f v =
     (case fsinfo_sector v of
        Inl e \<Rightarrow> (Inl e, f)
      | Inr sec \<Rightarrow> write_seq [(sec, part_off v (int (unat (bytesPerSec (v_b v))))),
                              (sec, part_off v (7 * int (unat (bytesPerSec (v_b v)))))] f)"

definition flush :: "((u32 \<times> bytes) list \<Rightarrow> (u32 \<times> bytes) list) \<Rightarrow> gofile \<Rightarrow> fatvol \<Rightarrow> unit res \<times> gofile \<times> fatvol" where
  "flush ord f v =
     (if \<not> v_rw v then (Inr (), f, v)
      else if dirty v = [] \<and> fat1 v = [] then (Inr (), f, v)
      else case write_seq (fat_copies v) f of
             (Inl e, f1) \<Rightarrow> (Inl (Wrapped ''fat32: flush FAT'' e), f1, v)
           | (Inr _, f1) \<Rightarrow>
               (case write_seq (sector_writes ord v) f1 of
                  (Inl e, f2) \<Rightarrow> (Inl (Wrapped ''fat32: flush sector'' e), f2, v)
                | (Inr _, f2) \<Rightarrow>
                    (let v' = v\<lparr>dirty := []\<rparr> in
                     if fatType (v_b v) = FAT32
                     then (case flushFSInfo f2 v' of
                             (Inl e, f3) \<Rightarrow> (Inl (Wrapped ''fat32: flush FSInfo'' e), f3, v')
                           | (Inr _, f3) \<Rightarrow> (Inr (), f3, v'))
                     else (Inr (), f2, v'))))"

definition Unmount :: "((u32 \<times> bytes) list \<Rightarrow> (u32 \<times> bytes) list) \<Rightarrow> gofile \<Rightarrow> fatvol \<Rightarrow> unit res \<times> gofile \<times> fatvol" where
  "Unmount ord f v = (case flush ord f v of (r, f', v') \<Rightarrow> (r, f', v'\<lparr>v_rw := False\<rparr>))"

end
