(* ===== verification/FatPersist.thy ===== *)
theory FatPersist
  imports FatStore FatFlush Image
begin

text \<open>
  What \<open>Unmount\<close> writes: the flush of a well-formed volume succeeds, writes inside the partition
  only, and leaves an image from which \<open>Open\<close> rebuilds the same volume -- the same table and the
  same contents of every cluster -- in whatever order the map of staged sectors is walked.
\<close>

subsection \<open>Sequences of writes\<close>

definition as_writes :: "(bytes \<times> int) list \<Rightarrow> (nat \<times> bytes) list" where
  "as_writes ws = map (\<lambda>(d, off). (nat off, d)) ws"

lemma write_seq_eq:
  "\<not> closed f \<Longrightarrow> \<forall>(d, off) \<in> set ws. 0 \<le> off \<Longrightarrow>
   write_seq ws f = (Inr (), f\<lparr>contents := fstore.wr_all (as_writes ws) (contents f)\<rparr>)"
proof (induction ws arbitrary: f)
  case (Cons w ws)
  obtain d off where w: "w = (d, off)" by fastforce
  then have "WriteAt f d off = (Inr (), f\<lparr>contents := write_bytes (contents f) (nat off) d\<rparr>)"
    using Cons.prems by (simp add: WriteAt_open)
  then show ?case using Cons w by (simp add: as_writes_def)
qed (simp add: as_writes_def)

lemma write_seq_closed: "closed (snd (write_seq ws f)) = closed f"
proof (induction ws arbitrary: f)
  case (Cons w ws)
  obtain d off where w: "w = (d, off)" by fastforce
  obtain r f' where r: "WriteAt f d off = (r, f')" by fastforce
  then have "closed f' = closed f" using WriteAt_closed_flag [of f d off] by simp
  then show ?case using Cons r w by (auto split: sum.split)
qed simp

text \<open>The writes of a flush, in order; \<open>sec\<close> is the FSInfo sector.\<close>

definition flush_list :: "((u32 \<times> bytes) list \<Rightarrow> (u32 \<times> bytes) list) \<Rightarrow> fatvol \<Rightarrow> bytes \<Rightarrow> (bytes \<times> int) list" where
  "flush_list ord v sec = fat_copies v @ sector_writes ord v @
     (if fatType (v_b v) = FAT32
      then [(sec, part_off v (int (sec_bytes v))), (sec, part_off v (7 * int (sec_bytes v)))] else [])"

lemma fsinfo_dirty: "fsinfo_sector (v\<lparr>dirty := d\<rparr>) = fsinfo_sector v"
proof -
  have e: "fatEntry (v\<lparr>dirty := d\<rparr>) = fatEntry v" by (simp add: fatEntry_def fun_eq_iff)
  have "count_free (v\<lparr>dirty := d\<rparr>) ns = count_free v ns" "find_free (v\<lparr>dirty := d\<rparr>) ns = find_free v ns" for ns
    by (induction ns) (simp_all add: e cong: if_cong)
  then show ?thesis by (simp add: fsinfo_sector_def clusters_def)
qed

lemma flush_eq:
  assumes "v_rw v" "\<not> (dirty v = [] \<and> fat1 v = [])" "\<not> closed f" "0 \<le> v_start v"
    and "fatType (v_b v) = FAT32 \<longrightarrow> fsinfo_sector v = Inr sec"
  shows "flush ord f v = (Inr (), f\<lparr>contents := fstore.wr_all (as_writes (flush_list ord v sec)) (contents f)\<rparr>, v\<lparr>dirty := []\<rparr>)"
proof -
  have nn: "\<forall>(d, off) \<in> set (fat_copies v). 0 \<le> off" "\<forall>(d, off) \<in> set (sector_writes ord v). 0 \<le> off"
    using assms(4) by (auto simp: fat_copies_def sector_writes_def part_off_def Let_def)
  define f1 where "f1 = f\<lparr>contents := fstore.wr_all (as_writes (fat_copies v)) (contents f)\<rparr>"
  define f2 where "f2 = f1\<lparr>contents := fstore.wr_all (as_writes (sector_writes ord v)) (contents f1)\<rparr>"
  have s1: "write_seq (fat_copies v) f = (Inr (), f1)" using write_seq_eq [OF assms(3) nn(1)] by (simp add: f1_def)
  have s2: "write_seq (sector_writes ord v) f1 = (Inr (), f2)"
    using write_seq_eq [OF _ nn(2), of f1] assms(3) by (simp add: f2_def f1_def)
  have c2: "\<not> closed f2" using assms(3) by (simp add: f1_def f2_def)
  show ?thesis
  proof (cases "fatType (v_b v) = FAT32")
    case True
    let ?ws = "[(sec, part_off v (int (sec_bytes v))), (sec, part_off v (7 * int (sec_bytes v)))]"
    have "\<forall>(d, off) \<in> set ?ws. 0 \<le> off" using assms(4) by (simp add: part_off_def)
    from write_seq_eq [OF c2 this]
    have "flushFSInfo f2 (v\<lparr>dirty := []\<rparr>) = (Inr (), f2\<lparr>contents := fstore.wr_all (as_writes ?ws) (contents f2)\<rparr>)"
      using assms(5) True by (simp add: flushFSInfo_def fsinfo_dirty part_off_def sec_bytes_def)
    then show ?thesis using True assms(1) s1 s2
      by (simp add: flush_def assms(2) Let_def flush_list_def as_writes_def fstore.wr_all_append f1_def f2_def)
  next
    case False
    then show ?thesis using assms(1) s1 s2
      by (simp add: flush_def assms(2) Let_def flush_list_def as_writes_def fstore.wr_all_append f1_def f2_def)
  qed
qed

subsection \<open>Well-formed volumes\<close>

text \<open>The number of sectors in front of the root directory: the reserved ones and the FATs.\<close>

definition meta_secs :: "fatvol \<Rightarrow> nat" where
  "meta_secs v = unat (rsvdSecCnt (v_b v)) + unat (numFATs (v_b v)) * unat (fatSz (v_b v))"

definition fat_len :: "fatvol \<Rightarrow> nat" where
  "fat_len v = unat (fatSz (v_b v)) * sec_bytes v"

definition base :: "fatvol \<Rightarrow> nat" where
  "base v = nat (v_start v)"

text \<open>
  A volume that can be flushed: its areas lie inside the image, the staged sectors are behind the
  FATs, and on FAT32 the two FSInfo sectors (1 and 7) are reserved ones.
\<close>

definition flush_ok :: "gofile \<Rightarrow> fatvol \<Rightarrow> bool" where
  "flush_ok f v \<longleftrightarrow> \<not> closed f \<and> 0 \<le> v_start v \<and> 512 \<le> sec_bytes v \<and> length (fat1 v) = fat_len v \<and> 0 < fat_len v \<and>
     1 \<le> unat (numFATs (v_b v)) \<and> (if fatType (v_b v) = FAT32 then 8 else 1) \<le> unat (rsvdSecCnt (v_b v)) \<and>
     base v + meta_secs v * sec_bytes v \<le> length (contents f) \<and> distinct (map fst (dirty v)) \<and>
     (\<forall>(s, d) \<in> set (dirty v). length d = sec_bytes v \<and> meta_secs v \<le> unat s \<and>
        base v + (unat s + 1) * sec_bytes v \<le> length (contents f)) \<and>
     (fatType (v_b v) = FAT32 \<longrightarrow> fat_ok v)"

lemma fsinfo_ok:
  assumes "fat_ok v" "512 \<le> sec_bytes v"
  shows "\<exists>sec. fsinfo_sector v = Inr sec \<and> length sec = sec_bytes v"
proof -
  obtain k where k: "count_free v (clusters v) = Inr k" using count_free_eq [OF assms(1)] set_clusters [OF assms(1)] by blast
  obtain n where n: "find_free v (clusters v) = Inr n" using find_free_clusters [OF assms(1)] by blast
  show ?thesis using assms(2) by (simp add: fsinfo_sector_def k n Let_def sec_bytes_def)
qed

subsection \<open>Where the writes go\<close>

lemma flush_writes_eq:
  assumes "0 \<le> v_start v"
  shows "as_writes (flush_list ord v sec) =
      map (\<lambda>i. (base v + (unat (rsvdSecCnt (v_b v)) + i * unat (fatSz (v_b v))) * sec_bytes v, fat1 v)) [0..<unat (numFATs (v_b v))] @
      map (\<lambda>(s, d). (base v + unat s * sec_bytes v, d)) (ord (dirty v)) @
      (if fatType (v_b v) = FAT32 then [(base v + sec_bytes v, sec), (base v + 7 * sec_bytes v, sec)] else [])"
proof -
  have o: "nat (part_off v (int k)) = base v + k" for k using assms(1) by (simp add: part_off_def base_def nat_add_distrib)
  have fc: "as_writes (fat_copies v) = map (\<lambda>i. (base v + (unat (rsvdSecCnt (v_b v)) + i * unat (fatSz (v_b v))) * sec_bytes v, fat1 v)) [0..<unat (numFATs (v_b v))]"
  proof -
    have "nat (part_off v (int (unat (rsvdSecCnt (v_b v))) * int (unat (bytesPerSec (v_b v))) + int i * (int (unat (fatSz (v_b v))) * int (unat (bytesPerSec (v_b v)))))) =
        base v + (unat (rsvdSecCnt (v_b v)) + i * unat (fatSz (v_b v))) * sec_bytes v" for i
    proof -
      have "int (unat (rsvdSecCnt (v_b v))) * int (unat (bytesPerSec (v_b v))) + int i * (int (unat (fatSz (v_b v))) * int (unat (bytesPerSec (v_b v)))) =
          int ((unat (rsvdSecCnt (v_b v)) + i * unat (fatSz (v_b v))) * sec_bytes v)"
        by (simp only: of_nat_add of_nat_mult sec_bytes_def distrib_right mult.assoc)
      then show ?thesis using o by presburger
    qed
    then show ?thesis by (simp add: as_writes_def fat_copies_def Let_def del: of_nat_unat)
  qed
  have sw: "as_writes (sector_writes ord v) = map (\<lambda>(s, d). (base v + unat s * sec_bytes v, d)) (ord (dirty v))"
  proof -
    have "nat (part_off v (int (unat s) * int (unat (bytesPerSec (v_b v))))) = base v + unat s * sec_bytes v" for s
      using o [of "unat s * sec_bytes v"] by (simp only: of_nat_mult sec_bytes_def)
    then show ?thesis by (auto simp: as_writes_def sector_writes_def simp del: of_nat_unat)
  qed
  have "nat (part_off v (int (sec_bytes v))) = base v + sec_bytes v" "nat (part_off v (7 * int (sec_bytes v))) = base v + 7 * sec_bytes v"
    using o [of "sec_bytes v"] o [of "7 * sec_bytes v"] by simp_all
  then show ?thesis unfolding fc [symmetric] sw [symmetric] by (simp add: flush_list_def as_writes_def)
qed

lemma flush_places:
  assumes "0 \<le> v_start v" "w \<in> set (as_writes (flush_list ord v sec))"
  shows "(\<exists>i < unat (numFATs (v_b v)). w = (base v + (unat (rsvdSecCnt (v_b v)) + i * unat (fatSz (v_b v))) * sec_bytes v, fat1 v)) \<or>
    (\<exists>(s, d) \<in> set (ord (dirty v)). w = (base v + unat s * sec_bytes v, d)) \<or>
    (fatType (v_b v) = FAT32 \<and> (w = (base v + sec_bytes v, sec) \<or> w = (base v + 7 * sec_bytes v, sec)))"
  using assms(2) unfolding flush_writes_eq [OF assms(1)] by (auto split: if_splits)

subsection \<open>What is read after a flush\<close>

text \<open>
  The areas of the partition: a write is in the FATs, is a staged sector behind them, or is one
  of the FSInfo sectors among the reserved ones.
\<close>

lemma flush_write_area:
  assumes "flush_ok f v" "map_order ord" "length sec = sec_bytes v" "w \<in> set (as_writes (flush_list ord v sec))"
  obtains i where "i < unat (numFATs (v_b v))" "w = (base v + (unat (rsvdSecCnt (v_b v)) + i * unat (fatSz (v_b v))) * sec_bytes v, fat1 v)"
      "fst w + length (snd w) \<le> base v + meta_secs v * sec_bytes v"
      "0 < i \<longrightarrow> base v + unat (rsvdSecCnt (v_b v)) * sec_bytes v + fat_len v \<le> fst w"
  | s where "(s, snd w) \<in> set (dirty v)" "fst w = base v + unat s * sec_bytes v" "length (snd w) = sec_bytes v" "meta_secs v \<le> unat s"
      "fst w + length (snd w) \<le> length (contents f)"
  | "fatType (v_b v) = FAT32" "base v + sec_bytes v \<le> fst w" "fst w + length (snd w) \<le> base v + 8 * sec_bytes v"
proof -
  have ok: "0 \<le> v_start v" "length (fat1 v) = fat_len v"
    "\<forall>(s, d) \<in> set (dirty v). length d = sec_bytes v \<and> meta_secs v \<le> unat s \<and> base v + (unat s + 1) * sec_bytes v \<le> length (contents f)"
    using assms(1) by (auto simp: flush_ok_def)
  from flush_places [OF ok(1) assms(4)] show ?thesis
  proof (elim disjE exE conjE bexE)
    fix i assume i: "i < unat (numFATs (v_b v))" and w: "w = (base v + (unat (rsvdSecCnt (v_b v)) + i * unat (fatSz (v_b v))) * sec_bytes v, fat1 v)"
    have "(i * unat (fatSz (v_b v)) + unat (fatSz (v_b v))) * sec_bytes v \<le> unat (numFATs (v_b v)) * unat (fatSz (v_b v)) * sec_bytes v"
      using sector_in [OF i, of "unat (fatSz (v_b v))"] by (rule mult_le_mono1)
    then have "fst w + length (snd w) \<le> base v + meta_secs v * sec_bytes v"
      using ok(2) by (simp add: w meta_secs_def fat_len_def add_mult_distrib)
    moreover have "base v + unat (rsvdSecCnt (v_b v)) * sec_bytes v + fat_len v \<le> fst w" if "0 < i"
    proof -
      have "1 * unat (fatSz (v_b v)) \<le> i * unat (fatSz (v_b v))" using that by (intro mult_le_mono1) simp
      then have "unat (fatSz (v_b v)) * sec_bytes v \<le> i * unat (fatSz (v_b v)) * sec_bytes v" by simp
      then show ?thesis by (simp add: w fat_len_def add_mult_distrib)
    qed
    ultimately show ?thesis using that(1) i w by blast
  next
    fix x assume x: "x \<in> set (ord (dirty v))" "case x of (s, d) \<Rightarrow> w = (base v + unat s * sec_bytes v, d)"
    obtain s d where sd: "x = (s, d)" by fastforce
    have m: "(s, d) \<in> set (dirty v)" using x(1) map_order_set [OF assms(2)] sd by simp
    then have "length d = sec_bytes v" "meta_secs v \<le> unat s" "base v + (unat s + 1) * sec_bytes v \<le> length (contents f)"
      using ok(3) by auto
    then show ?thesis using that(2) [of s] x(2) sd m by (simp add: add_mult_distrib)
  next
    assume "fatType (v_b v) = FAT32" "w = (base v + sec_bytes v, sec)"
    then show ?thesis using that(3) assms(3) by simp
  next
    assume "fatType (v_b v) = FAT32" "w = (base v + 7 * sec_bytes v, sec)"
    then show ?thesis using that(3) assms(3) by simp
  qed
qed

lemma meta_bound: "unat (rsvdSecCnt (v_b v)) * sec_bytes v \<le> meta_secs v * sec_bytes v"
  by (simp add: meta_secs_def)

lemma rsvd8: "flush_ok f v \<Longrightarrow> fatType (v_b v) = FAT32 \<Longrightarrow> 8 * sec_bytes v \<le> unat (rsvdSecCnt (v_b v)) * sec_bytes v"
  by (intro mult_le_mono1) (simp add: flush_ok_def)

lemma rsvd1: "flush_ok f v \<Longrightarrow> sec_bytes v \<le> unat (rsvdSecCnt (v_b v)) * sec_bytes v"
  using mult_le_mono1 [of 1 "unat (rsvdSecCnt (v_b v))" "sec_bytes v"] by (auto simp: flush_ok_def split: if_splits)

lemma flush_write_bounds:
  assumes "flush_ok f v" "map_order ord" "length sec = sec_bytes v" "w \<in> set (as_writes (flush_list ord v sec))"
  shows "fst w + length (snd w) \<le> length (contents f)" "base v + sec_bytes v \<le> fst w"
proof -
  have m: "base v + meta_secs v * sec_bytes v \<le> length (contents f)" using assms(1) by (simp add: flush_ok_def)
  note r = meta_bound [of v] rsvd1 [OF assms(1)]
  have "fst w + length (snd w) \<le> length (contents f) \<and> base v + sec_bytes v \<le> fst w"
    using assms
  proof (cases rule: flush_write_area)
    case (1 i)
    then have "fst w = base v + unat (rsvdSecCnt (v_b v)) * sec_bytes v + i * unat (fatSz (v_b v)) * sec_bytes v"
      by (simp add: add_mult_distrib)
    then show ?thesis using 1(3) m r by linarith
  next
    case (2 s)
    have "meta_secs v * sec_bytes v \<le> unat s * sec_bytes v" using 2(4) by (rule mult_le_mono1)
    then show ?thesis using 2 r by linarith
  next
    case 3
    then show ?thesis using m r rsvd8 [OF assms(1)] by linarith
  qed
  then show "fst w + length (snd w) \<le> length (contents f)" "base v + sec_bytes v \<le> fst w" by auto
qed

definition flushed :: "((u32 \<times> bytes) list \<Rightarrow> (u32 \<times> bytes) list) \<Rightarrow> gofile \<Rightarrow> fatvol \<Rightarrow> gofile" where
  "flushed ord f v = fst (snd (flush ord f v))"

lemma flush_ok_eq:
  assumes "flush_ok f v" "map_order ord" "v_rw v"
  obtains sec where "length sec = sec_bytes v"
    "flush ord f v = (Inr (), flushed ord f v, v\<lparr>dirty := []\<rparr>)"
    "flushed ord f v = f\<lparr>contents := fstore.wr_all (as_writes (flush_list ord v sec)) (contents f)\<rparr>"
    "length (contents (flushed ord f v)) = length (contents f)"
proof -
  have ok: "\<not> closed f" "0 \<le> v_start v" "512 \<le> sec_bytes v" "length (fat1 v) = fat_len v" "0 < fat_len v"
    using assms(1) by (auto simp: flush_ok_def)
  obtain sec where sec: "fatType (v_b v) = FAT32 \<longrightarrow> fsinfo_sector v = Inr sec" "length sec = sec_bytes v"
  proof (cases "fatType (v_b v) = FAT32")
    case True
    then have "fat_ok v" using assms(1) by (simp add: flush_ok_def)
    from fsinfo_ok [OF this ok(3)] show ?thesis using that by blast
  qed (use that [of "zeros (sec_bytes v)"] in simp)
  have ne: "\<not> (dirty v = [] \<and> fat1 v = [])" using ok(4,5) by auto
  note fl = flush_eq [OF assms(3) ne ok(1,2) sec(1), of ord]
  have "length (fstore.wr_all (as_writes (flush_list ord v sec)) (contents f)) = length (contents f)"
    using fstore.len_wr_all_le [of "contents f" "as_writes (flush_list ord v sec)"]
      fstore.len_wr_all_bound [of "contents f" "length (contents f)" "as_writes (flush_list ord v sec)"]
      flush_write_bounds(1) [OF assms(1,2) sec(2)] by simp
  then show ?thesis using that [OF sec(2)] fl by (simp add: flushed_def)
qed

lemma base_read:
  assumes "flush_ok f v" "map_order ord" "v_rw v"
  shows "sub (contents (flushed ord f v)) (base v) (sec_bytes v) = sub (contents f) (base v) (sec_bytes v)"
proof -
  obtain sec where sec: "length sec = sec_bytes v"
    "flushed ord f v = f\<lparr>contents := fstore.wr_all (as_writes (flush_list ord v sec)) (contents f)\<rparr>"
    using flush_ok_eq [OF assms] .
  have "base v + sec_bytes v \<le> length (contents f)"
    using assms(1) rsvd1 [OF assms(1)] meta_bound [of v] unfolding flush_ok_def by linarith
  then show ?thesis
    using fstore.wr_all_other [of "as_writes (flush_list ord v sec)" "base v" "sec_bytes v" "contents f"]
      flush_write_bounds(2) [OF assms(1,2) sec(1)] by (simp add: sec(2) fstore.apart_def)
qed

lemma fat_read:
  assumes "flush_ok f v" "map_order ord" "v_rw v"
  shows "sub (contents (flushed ord f v)) (base v + unat (rsvdSecCnt (v_b v)) * sec_bytes v) (fat_len v) = fat1 v"
proof -
  obtain sec where sec: "length sec = sec_bytes v"
    "flushed ord f v = f\<lparr>contents := fstore.wr_all (as_writes (flush_list ord v sec)) (contents f)\<rparr>"
    using flush_ok_eq [OF assms] .
  have ok: "0 \<le> v_start v" "1 \<le> unat (numFATs (v_b v))" "length (fat1 v) = fat_len v" "0 < fat_len v"
    using assms(1) by (auto simp: flush_ok_def)
  let ?o = "base v + unat (rsvdSecCnt (v_b v)) * sec_bytes v"
  obtain ws where ws: "as_writes (flush_list ord v sec) = (?o, fat1 v) # ws"
    "ws = map (\<lambda>i. (base v + (unat (rsvdSecCnt (v_b v)) + i * unat (fatSz (v_b v))) * sec_bytes v, fat1 v)) [1..<unat (numFATs (v_b v))] @
      map (\<lambda>(s, d). (base v + unat s * sec_bytes v, d)) (ord (dirty v)) @
      (if fatType (v_b v) = FAT32 then [(base v + sec_bytes v, sec), (base v + 7 * sec_bytes v, sec)] else [])"
    using ok(2) upt_conv_Cons [of 0 "unat (numFATs (v_b v))"] by (simp add: flush_writes_eq [OF ok(1)])
  have md: "?o + fat_len v \<le> base v + meta_secs v * sec_bytes v"
    using ok(2) by (simp add: meta_secs_def fat_len_def add_mult_distrib)
  have "fstore.apart ?o (length (fat1 v)) w" if w: "w \<in> set ws" for w
  proof -
    consider (copy) "w \<in> set (map (\<lambda>i. (base v + (unat (rsvdSecCnt (v_b v)) + i * unat (fatSz (v_b v))) * sec_bytes v, fat1 v)) [1..<unat (numFATs (v_b v))])"
      | (staged) "w \<in> set (map (\<lambda>(s, d). (base v + unat s * sec_bytes v, d)) (ord (dirty v)))"
      | (info) "w \<in> set (if fatType (v_b v) = FAT32 then [(base v + sec_bytes v, sec), (base v + 7 * sec_bytes v, sec)] else [])"
      using w unfolding ws(2) set_append by blast
    then show ?thesis
    proof cases
      case copy
      then obtain j where j: "1 \<le> j" "w = (base v + (unat (rsvdSecCnt (v_b v)) + j * unat (fatSz (v_b v))) * sec_bytes v, fat1 v)" by auto
      have "1 * unat (fatSz (v_b v)) * sec_bytes v \<le> j * unat (fatSz (v_b v)) * sec_bytes v"
        using j(1) by (intro mult_le_mono1)
      then have "?o + fat_len v \<le> fst w" unfolding j(2) fst_conv fat_len_def add_mult_distrib by linarith
      then show ?thesis using ok(3) by (simp add: fstore.apart_def)
    next
      case staged
      then obtain s d where sd: "(s, d) \<in> set (ord (dirty v))" "w = (base v + unat s * sec_bytes v, d)" by auto
      then have "(s, d) \<in> set (dirty v)" using map_order_set [OF assms(2)] by blast
      then have "meta_secs v \<le> unat s" using assms(1) unfolding flush_ok_def by blast
      then have "meta_secs v * sec_bytes v \<le> unat s * sec_bytes v" by (rule mult_le_mono1)
      then show ?thesis unfolding fstore.apart_def sd(2) fst_conv ok(3) using md by linarith
    next
      case info
      then have "fatType (v_b v) = FAT32" "fst w + length (snd w) \<le> base v + 8 * sec_bytes v" using sec(1) by (auto split: if_splits)
      then show ?thesis using rsvd8 [OF assms(1)] unfolding fstore.apart_def by linarith
    qed
  qed
  moreover have "fat1 v \<noteq> []" using ok(3,4) by auto
  ultimately show ?thesis
    using fstore.wr_all_last [of ws ?o "fat1 v" "[]" "contents f"] ok(3) by (simp add: sec(2) ws(1))
qed

text \<open>Sectors behind the FATs: a staged one is written, another one is untouched.\<close>

lemma sector_read:
  assumes "flush_ok f v" "map_order ord" "v_rw v" "meta_secs v \<le> unat s"
    and "base v + (unat s + 1) * sec_bytes v \<le> length (contents f)"
  shows "sub (contents (flushed ord f v)) (base v + unat s * sec_bytes v) (sec_bytes v) =
    (case map_of (dirty v) s of Some d \<Rightarrow> d | None \<Rightarrow> sub (contents f) (base v + unat s * sec_bytes v) (sec_bytes v))"
proof -
  obtain sec where sec: "length sec = sec_bytes v"
    "flushed ord f v = f\<lparr>contents := fstore.wr_all (as_writes (flush_list ord v sec)) (contents f)\<rparr>"
    using flush_ok_eq [OF assms(1-3)] .
  let ?o = "base v + unat s * sec_bytes v"
  have ok: "0 \<le> v_start v" "distinct (map fst (dirty v))" "0 < sec_bytes v" using assms(1) by (auto simp: flush_ok_def)
  have ms: "meta_secs v * sec_bytes v \<le> unat s * sec_bytes v" using assms(4) by (rule mult_le_mono1)
  have ap: "fstore.apart ?o (sec_bytes v) w"
    if "w \<in> set (as_writes (flush_list ord v sec))" "w = (?o, snd w) \<Longrightarrow> (s, snd w) \<notin> set (dirty v)" for w
    using assms(1,2) sec(1) that(1)
  proof (cases rule: flush_write_area)
    case (1 i)
    then show ?thesis using ms unfolding fstore.apart_def by linarith
  next
    case (2 s')
    have "s' \<noteq> s" using that(2) 2(1,2) by (cases w) auto
    then have "unat s \<noteq> unat s'" by (metis word_unat_eq_iff)
    then show ?thesis using sector_gap [of "unat s" "unat s'" "base v" "sec_bytes v"] 2(2,3) by (auto simp: fstore.apart_def)
  next
    case 3
    then show ?thesis using ms meta_bound [of v] rsvd8 [OF assms(1) 3(1)] unfolding fstore.apart_def by linarith
  qed
  show ?thesis
  proof (cases "map_of (dirty v) s")
    case None
    then have "(s, d) \<notin> set (dirty v)" for d by (metis map_of_eq_None_iff fst_conv image_eqI)
    then show ?thesis
      using None ap assms(5) fstore.wr_all_other [of "as_writes (flush_list ord v sec)" ?o "sec_bytes v" "contents f"]
      by (simp add: sec(2) add_mult_distrib)
  next
    case (Some d)
    have dm: "(s, d) \<in> set (dirty v)" using Some by (rule map_of_SomeD)
    then have ld: "length d = sec_bytes v" using assms(1) by (auto simp: flush_ok_def)
    obtain as bs where ab: "ord (dirty v) = as @ (s, d) # bs" using dm map_order_set [OF assms(2)] by (metis split_list)
    have ds: "distinct (map fst (as @ (s, d) # bs))" using map_order_distinct [OF assms(2) ok(2)] ab by simp
    let ?g = "\<lambda>(s, d). (base v + unat s * sec_bytes v, d)"
    let ?F = "map (\<lambda>i. (base v + (unat (rsvdSecCnt (v_b v)) + i * unat (fatSz (v_b v))) * sec_bytes v, fat1 v)) [0..<unat (numFATs (v_b v))]"
    let ?I = "if fatType (v_b v) = FAT32 then [(base v + sec_bytes v, sec), (base v + 7 * sec_bytes v, sec)] else []"
    have ws: "as_writes (flush_list ord v sec) = (?F @ map ?g as) @ (?o, d) # (map ?g bs @ ?I)"
      by (simp add: flush_writes_eq [OF ok(1)] ab)
    have "fstore.apart ?o (length d) w" if w: "w \<in> set (map ?g bs @ ?I)" for w
    proof -
      consider s' d' where "(s', d') \<in> set bs" "w = (base v + unat s' * sec_bytes v, d')"
        | "fatType (v_b v) = FAT32" "fst w + length (snd w) \<le> base v + 8 * sec_bytes v"
        using w sec(1) by (auto split: if_splits)
      then show ?thesis
      proof cases
        case (1 s' d')
        have "s' \<noteq> s" using ds 1(1) by (auto simp: image_iff)
        then have "unat s \<noteq> unat s'" by (metis word_unat_eq_iff)
        moreover have "length d' = sec_bytes v" using 1(1) ab map_order_set [OF assms(2), of "dirty v"] assms(1) by (auto simp: flush_ok_def)
        ultimately show ?thesis using sector_gap [of "unat s" "unat s'" "base v" "sec_bytes v"] 1(2) ld by (auto simp: fstore.apart_def)
      next
        case 2
        then show ?thesis using ms meta_bound [of v] rsvd8 [OF assms(1) 2(1)] unfolding fstore.apart_def by linarith
      qed
    qed
    moreover have "d \<noteq> []" using ld ok(3) by auto
    ultimately show ?thesis
      using fstore.wr_all_last [of "map ?g bs @ ?I" ?o d "?F @ map ?g as" "contents f"] Some ld unfolding sec(2) ws by simp
  qed
qed

subsection \<open>Mounting again\<close>

text \<open>The volume is the one that \<open>Open\<close> found in the image, with changes staged since.\<close>

definition opened_from :: "gofile \<Rightarrow> int \<Rightarrow> fatvol \<Rightarrow> bool" where
  "opened_from f sz v \<longleftrightarrow> v_sr v = NewSectionReader (v_start v) sz \<and> readBPB f (v_sr v) = Inr (v_b v) \<and>
     v_ft v = fatType (v_b v) \<and> v_rw v \<and>
     int (meta_secs v * sec_bytes v) \<le> sec_size (v_sr v) \<and> meta_secs v \<le> unat (firstDataSec (v_b v))"

lemma SecReadAt_same:
  assumes "closed f' = closed f" "0 \<le> off" "off < sec_size s" "off + int n \<le> sec_size s" "0 \<le> sec_base s"
    and "sub (contents f') (nat (sec_base s + off)) n = sub (contents f) (nat (sec_base s + off)) n"
  shows "SecReadAt f' s n off = SecReadAt f s n off"
  using assms by (simp add: SecReadAt_def Let_def sec_size_def ReadAt_def add.commute)

lemma SecReadAt_within:
  "0 \<le> off \<Longrightarrow> off < sec_size s \<Longrightarrow> int n \<le> sec_size s - off \<Longrightarrow> SecReadAt f s n off = ReadAt f n (off + sec_base s)"
  by (simp add: SecReadAt_def Let_def sec_size_def)

lemma readBPB_flushed:
  assumes "flush_ok f v" "map_order ord" "opened_from f sz v"
  shows "readBPB (flushed ord f v) (v_sr v) = Inr (v_b v)"
proof -
  have o: "readBPB f (v_sr v) = Inr (v_b v)" "v_rw v" "v_sr v = NewSectionReader (v_start v) sz" using assms(3) by (auto simp: opened_from_def)
  have ok: "512 \<le> sec_bytes v" "0 \<le> v_start v" using assms(1) by (auto simp: flush_ok_def)
  obtain buf where "full (SecReadAt f (v_sr v) 512 0) = Inr buf"
    using o(1) by (auto simp: readBPB_def wrapR_def split: sum.splits)
  then have r: "0 < sec_size (v_sr v)" "int 512 \<le> sec_size (v_sr v)" using full_SecReadAt by fastforce+
  have b: "nat (sec_base (v_sr v) + 0) = base v" "0 \<le> sec_base (v_sr v)" using ok(2) by (simp_all add: o(3) NewSectionReader_def base_def)
  have "sub (sub (contents (flushed ord f v)) (base v) (sec_bytes v)) 0 512 = sub (sub (contents f) (base v) (sec_bytes v)) 0 512"
    using base_read [OF assms(1,2) o(2)] by simp
  then have "sub (contents (flushed ord f v)) (base v) 512 = sub (contents f) (base v) 512" using ok(1) by (simp add: sub_sub)
  moreover have "closed (flushed ord f v) = closed f" using flush_ok_eq [OF assms(1,2) o(2)] by (metis gofile.select_convs(2) gofile.surjective gofile.update_convs(1))
  ultimately have "SecReadAt (flushed ord f v) (v_sr v) 512 0 = SecReadAt f (v_sr v) 512 0"
    using r b by (intro SecReadAt_same) simp_all
  then show ?thesis using o(1) by (simp add: readBPB_def)
qed

lemma readFATTable_flushed:
  assumes "flush_ok f v" "map_order ord" "opened_from f sz v"
  shows "readFATTable (flushed ord f v) (v_sr v) (v_b v) = Inr (fat1 v)"
proof -
  have o: "v_rw v" "v_sr v = NewSectionReader (v_start v) sz" "int (meta_secs v * sec_bytes v) \<le> sec_size (v_sr v)"
    using assms(3) by (auto simp: opened_from_def)
  have ok: "0 \<le> v_start v" "0 < fat_len v" "1 \<le> unat (numFATs (v_b v))" "\<not> closed f"
    "base v + meta_secs v * sec_bytes v \<le> length (contents f)" using assms(1) by (auto simp: flush_ok_def)
  obtain sec where fl: "flushed ord f v = f\<lparr>contents := fstore.wr_all (as_writes (flush_list ord v sec)) (contents f)\<rparr>"
    "length (contents (flushed ord f v)) = length (contents f)" using flush_ok_eq [OF assms(1,2) o(1)] .
  let ?o = "unat (rsvdSecCnt (v_b v)) * sec_bytes v"
  have md: "?o + fat_len v \<le> meta_secs v * sec_bytes v" using ok(3) by (simp add: meta_secs_def fat_len_def add_mult_distrib)
  have b: "sec_base (v_sr v) = v_start v" by (simp add: o(2) NewSectionReader_def)
  have n: "nat (v_start v + int ?o) = base v + ?o" using ok(1) by (simp add: base_def nat_add_distrib del: of_nat_mult)
  have "full (SecReadAt (flushed ord f v) (v_sr v) (fat_len v) (int ?o)) = Inr (fat1 v)"
  proof -
    have s: "0 \<le> int ?o" "int ?o < sec_size (v_sr v)" "int (fat_len v) \<le> sec_size (v_sr v) - int ?o" using o(3) md ok(2) by linarith+
    then have "SecReadAt (flushed ord f v) (v_sr v) (fat_len v) (int ?o) = ReadAt (flushed ord f v) (fat_len v) (int ?o + v_start v)"
      unfolding b [symmetric] by (rule SecReadAt_within)
    also have "\<dots> = (sub (contents (flushed ord f v)) (nat (int ?o + v_start v)) (fat_len v), None)"
      using ok md n fl by (intro ReadAt_inside) (simp_all add: add.commute)
    also have "nat (int ?o + v_start v) = base v + ?o" using n by (simp only: add.commute)
    finally show ?thesis using fat_read [OF assms(1,2) o(1)] by simp
  qed
  then show ?thesis by (simp add: readFATTable_def fat_len_def sec_bytes_def)
qed

lemma cluster_flushed:
  assumes "flush_ok f v" "map_order ord" "opened_from f sz v" "geom_ok f v" "is_clus v n"
  shows "clus_view (flushed ord f v) (v\<lparr>dirty := []\<rparr>) n = clus_view f v n" "geom_ok (flushed ord f v) (v\<lparr>dirty := []\<rparr>)"
proof -
  have o: "v_rw v" "v_sr v = NewSectionReader (v_start v) sz" "meta_secs v \<le> unat (firstDataSec (v_b v))"
    using assms(3) by (auto simp: opened_from_def)
  obtain sec where fl: "flushed ord f v = f\<lparr>contents := fstore.wr_all (as_writes (flush_list ord v sec)) (contents f)\<rparr>"
    "length (contents (flushed ord f v)) = length (contents f)" using flush_ok_eq [OF assms(1,2) o(1)] .
  let ?v = "v\<lparr>dirty := []\<rparr>" let ?f = "flushed ord f v"
  have same: "sec_bytes ?v = sec_bytes v" "cluster_bytes ?v = cluster_bytes v" "firstSec ?v n = firstSec v n" "clus_sec ?v n = clus_sec v n"
    "is_clus ?v n = is_clus v n"
    by (simp_all add: sec_bytes_def cluster_bytes_def firstSec_def clus_sec_def is_clus_def)
  show g: "geom_ok ?f ?v" using assms(4) fl by (simp add: geom_ok_def in_image_def same(1,2))
  have b: "nat (sec_base (v_sr v)) = base v" by (simp add: o(2) NewSectionReader_def base_def)
  have cb: "cluster_bytes v = unat (secPerClus (v_b v)) * sec_bytes v" using assms(4) by (simp add: geom_ok_def)
  note rng = SecReadAt_cluster(2) [OF assms(4,5), unfolded b]
  have eq: "sub (clus_view ?f ?v n) (i * sec_bytes v) (sec_bytes v) = sub (clus_view f v n) (i * sec_bytes v) (sec_bytes v)"
    if i: "i < unat (secPerClus (v_b v))" for i
  proof -
    have "clus_sec v n + i < 2 ^ 32" using clus_sec_bound [OF assms(4,5)] i assms(4) by (auto simp: geom_ok_def)
    moreover have "unat (of_nat i :: u32) = i" using i unsigned_less [where 'a = nat, of "secPerClus (v_b v)"] by (simp add: unat_of_nat)
    ultimately have us: "unat (firstSec v n + of_nat i) = clus_sec v n + i"
      by (subst unat_small_add) (auto simp: unat_firstSec [OF assms(4,5)])
    have in_c: "i * sec_bytes v + sec_bytes v \<le> cluster_bytes v" using sector_in [OF i] cb by simp
    have p: "base v + clus_sec v n * sec_bytes v + i * sec_bytes v = base v + (clus_sec v n + i) * sec_bytes v" by (simp add: add_mult_distrib)
    have sb: "sub (sub c (base v + clus_sec v n * sec_bytes v) (cluster_bytes v)) (i * sec_bytes v) (sec_bytes v) =
        sub c (base v + (clus_sec v n + i) * sec_bytes v) (sec_bytes v)" for c :: bytes
      using in_c by (simp add: sub_sub p)
    have "sub (contents ?f) (base v + (clus_sec v n + i) * sec_bytes v) (sec_bytes v) =
        (case map_of (dirty v) (firstSec v n + of_nat i) of Some d \<Rightarrow> d
         | None \<Rightarrow> sub (contents f) (base v + (clus_sec v n + i) * sec_bytes v) (sec_bytes v))"
    proof (rule sector_read [OF assms(1,2) o(1), of "firstSec v n + of_nat i", unfolded us])
      show "meta_secs v \<le> clus_sec v n + i" using o(3) by (simp add: clus_sec_def)
      have "(clus_sec v n + i + 1) * sec_bytes v = clus_sec v n * sec_bytes v + i * sec_bytes v + sec_bytes v"
        by (simp add: add_mult_distrib)
      then show "base v + (clus_sec v n + i + 1) * sec_bytes v \<le> length (contents f)" using rng in_c by linarith
    qed
    then show ?thesis
      using sub_clus_view [OF assms(4,5) i] sub_clus_view [OF g, of n i] i assms(5) by (simp add: same b sb cong: option.case_cong)
  qed
  show "clus_view ?f ?v n = clus_view f v n"
    by (rule sectors_eqI [OF _ _ eq]) (use length_clus_view [OF g, of n] length_clus_view [OF assms(4,5)] assms(5) cb same in auto)
qed

text \<open>A sector of the volume, staged or on disk.\<close>

definition sector_view :: "gofile \<Rightarrow> fatvol \<Rightarrow> u32 \<Rightarrow> bytes" where
  "sector_view f v s = (case map_of (dirty v) s of Some d \<Rightarrow> d
     | None \<Rightarrow> sub (contents f) (base v + unat s * sec_bytes v) (sec_bytes v))"

lemma remount_aux:
  assumes "flush_ok f v" "map_order ord" "opened_from f sz v" "geom_ok f v"
  shows "\<exists>f' v'. Unmount ord f v = (Inr (), f', v\<lparr>dirty := [], v_rw := False\<rparr>) \<and>
    fat_Open f' (v_start v) sz ft = Inr v' \<and> v' = v\<lparr>dirty := []\<rparr> \<and> geom_ok f' v' \<and>
    length (contents f') = length (contents f) \<and>
    (\<forall>n. is_clus v n \<longrightarrow> readCluster f' v' n = readCluster f v n) \<and>
    (\<forall>s. meta_secs v \<le> unat s \<and> base v + (unat s + 1) * sec_bytes v \<le> length (contents f) \<longrightarrow> sector_view f' v' s = sector_view f v s)"
proof -
  have o: "v_rw v" "v_sr v = NewSectionReader (v_start v) sz" "v_ft v = fatType (v_b v)" using assms(3) by (auto simp: opened_from_def)
  let ?f = "flushed ord f v" let ?v = "v\<lparr>dirty := []\<rparr>"
  obtain sec where fl: "flush ord f v = (Inr (), ?f, ?v)" "length (contents ?f) = length (contents f)"
    "?f = f\<lparr>contents := fstore.wr_all (as_writes (flush_list ord v sec)) (contents f)\<rparr>"
    using flush_ok_eq [OF assms(1,2) o(1)] .
  have "fat_Open ?f (v_start v) sz ft = Inr ?v"
    using readBPB_flushed [OF assms(1-3)] readFATTable_flushed [OF assms(1-3)] o by (cases v) (simp add: fat_Open_def Let_def)
  moreover have g: "geom_ok ?f ?v"
    using assms(4) fl(2,3) by (simp add: geom_ok_def in_image_def sec_bytes_def cluster_bytes_def)
  moreover have "readCluster ?f ?v n = readCluster f v n" if "is_clus v n" for n
    using cluster_flushed [OF assms that] readCluster_view [OF g, of n] readCluster_view [OF assms(4) that] that
    by (simp add: is_clus_def)
  moreover have "sector_view ?f ?v s = sector_view f v s"
    if "meta_secs v \<le> unat s" "base v + (unat s + 1) * sec_bytes v \<le> length (contents f)" for s
  proof -
    have "base ?v = base v" "sec_bytes ?v = sec_bytes v" by (simp_all add: base_def sec_bytes_def)
    then show ?thesis using sector_read [OF assms(1,2) o(1) that] by (simp add: sector_view_def)
  qed
  ultimately show ?thesis using fl(1,2) by (auto simp: Unmount_def)
qed

subsection \<open>The driver contract\<close>

definition fat_vol_ok :: "((u32 \<times> bytes) list \<Rightarrow> (u32 \<times> bytes) list) \<Rightarrow> gofile \<Rightarrow> fatvol \<Rightarrow> bool" where
  "fat_vol_ok ord f v \<longleftrightarrow> map_order ord \<and> (v_rw v \<longrightarrow> flush_ok f v)"

lemma write_seq_file: "write_seq ws g = (r, f') \<Longrightarrow> closed f' = closed g"
  using write_seq_closed [of ws g] by simp

lemma flushFSInfo_closed: "flushFSInfo g u = (r, f') \<Longrightarrow> closed f' = closed g"
  unfolding flushFSInfo_def by (cases "fsinfo_sector u") (simp, simp only: sum.case, rule write_seq_file)

lemma flush_closed: "closed (fst (snd (flush ord f v))) = closed f"
proof -
  obtain r1 f1 where 1: "write_seq (fat_copies v) f = (r1, f1)" by fastforce
  obtain r2 f2 where 2: "write_seq (sector_writes ord v) f1 = (r2, f2)" by fastforce
  obtain r3 f3 where 3: "flushFSInfo f2 (v\<lparr>dirty := []\<rparr>) = (r3, f3)" by fastforce
  have "closed f1 = closed f" "closed f2 = closed f1" "closed f3 = closed f2"
    using write_seq_file [OF 1] write_seq_file [OF 2] flushFSInfo_closed [OF 3] by auto
  then show ?thesis unfolding flush_def Let_def 1 by (cases r1; cases r2; cases r3) (simp_all add: 2 3)
qed

interpretation fat_driver: volume_driver "Unmount ord" "fat_vol_ok ord" for ord
proof
  fix f f' :: gofile and v :: fatvol
  show "closed (fst (snd (Unmount ord f v))) = closed f" using flush_closed [of ord f v] by (auto simp: Unmount_def split: prod.splits)
  show "fst (Unmount ord f v) = Inr ()" if "fat_vol_ok ord f v"
  proof (cases "v_rw v")
    case True
    then have "flush_ok f v" "map_order ord" using that by (auto simp: fat_vol_ok_def)
    then obtain sec where "flush ord f v = (Inr (), flushed ord f v, v\<lparr>dirty := []\<rparr>)" using flush_ok_eq True by metis
    then show ?thesis by (simp add: Unmount_def)
  qed (simp add: Unmount_def flush_def)
  show "length (contents (fst (snd (Unmount ord f v)))) = length (contents f)" if "fat_vol_ok ord f v"
  proof (cases "v_rw v")
    case True
    then have "flush_ok f v" "map_order ord" using that by (auto simp: fat_vol_ok_def)
    then have "length (contents (flushed ord f v)) = length (contents f)" using flush_ok_eq True by metis
    then show ?thesis by (auto simp: Unmount_def flushed_def split: prod.splits)
  qed (simp add: Unmount_def flush_def)
  show "fat_vol_ok ord f' v" if "fat_vol_ok ord f v" "closed f' = closed f" "length (contents f') = length (contents f)"
    using that by (simp add: fat_vol_ok_def flush_ok_def)
qed

end
