(* ===== verification/FatSample.thy ===== *)
theory FatSample
  imports FatFileData FatPersist
begin

text \<open>
  A small FAT12 disk of seven sectors, used where a property of the driver is applied to a
  concrete volume: the boot sector, one FAT, one sector of root directory and four clusters of one
  sector each, mounted with \<open>fat_Open\<close>.
\<close>

unbundle bit_operations_syntax

definition sample_boot :: bytes where
  "sample_boot = put16 (put16 (put16 (put8 (put16 (put8 (put16 (zeros 3584) 11 512) 13 1) 14 1) 16 1) 17 16) 19 7) 22 1"

definition sample_disk :: gofile where
  "sample_disk = \<lparr>contents = sample_boot, closed = False\<rparr>"

definition sample_bpb :: bpb where
  "sample_bpb = \<lparr>bytesPerSec = 512, secPerClus = 1, rsvdSecCnt = 1, numFATs = 1, rootEntCnt = 16, fatSz16 = 1,
     fatSz32 = 0, rootClus = 0, totSec16 = 7, totSec32 = 0, fatType = FAT12, fatSz = 1, firstDataSec = 3,
     cntClusters = 4, rootDirSec = 1, firstRootDir = 2, clusterSize = 512\<rparr>"

definition sample_vol :: fatvol where
  "sample_vol = \<lparr>v_rw = True, v_sr = \<lparr>sec_base = 0, sec_limit = 3584\<rparr>, v_start = 0, v_b = sample_bpb, v_ft = FAT12,
     fat1 = zeros 512, dirty = []\<rparr>"

lemma length_sample_boot [simp]: "length sample_boot = 3584"
  by (simp add: sample_boot_def)

lemma sample_reads:
  "SecReadAt sample_disk \<lparr>sec_base = 0, sec_limit = 3584\<rparr> 512 0 = (sub sample_boot 0 512, None)"
  "SecReadAt sample_disk \<lparr>sec_base = 0, sec_limit = 3584\<rparr> 512 512 = (sub sample_boot 512 512, None)"
  by (subst SecReadAt_inside; simp add: sample_disk_def sec_size_def)+

lemma get_sub_boot:
  "off + 2 \<le> 512 \<Longrightarrow> get16 (sub sample_boot 0 512) off = get16 sample_boot off"
  "off + 4 \<le> 512 \<Longrightarrow> get32 (sub sample_boot 0 512) off = get32 sample_boot off"
  by (simp_all add: get16_def get32_def)

lemma sample_boot_fields:
  "get16 sample_boot 11 = 512" "sample_boot ! 13 = 1" "get16 sample_boot 14 = 1" "sample_boot ! 16 = 1"
  "get16 sample_boot 17 = 16" "get16 sample_boot 19 = 7" "get16 sample_boot 22 = 1" "get32 sample_boot 36 = 0"
  "get32 sample_boot 44 = 0" "get32 sample_boot 32 = 0" "sub sample_boot 512 512 = zeros 512"
  by (simp_all add: sample_boot_def codec_simps byte_simps get32_def)

lemma sample_open: "fat_Open sample_disk 0 3584 ft = Inr sample_vol"
proof -
  have "readBPB sample_disk \<lparr>sec_base = 0, sec_limit = 3584\<rparr> = Inr sample_bpb"
    by (simp add: readBPB_def sample_reads get_sub_boot sample_boot_fields sample_bpb_def Let_def)
  moreover have "readFATTable sample_disk \<lparr>sec_base = 0, sec_limit = 3584\<rparr> sample_bpb = Inr (zeros 512)"
    by (simp add: readFATTable_def sample_bpb_def sample_reads sample_boot_fields)
  ultimately show ?thesis by (simp add: fat_Open_def NewSectionReader_def sample_vol_def Let_def) (simp add: sample_bpb_def)
qed

lemma sample_is_clus: "is_clus sample_vol n \<longleftrightarrow> n \<in> {2, 3, 4, 5}"
proof -
  have "unat n \<in> {2, 3, 4, 5} \<longleftrightarrow> n \<in> {2, 3, 4, 5}"
    by (simp add: word_unat_eq_iff)
  moreover have "2 \<le> unat n \<and> unat n < 6 \<longleftrightarrow> unat n \<in> {2, 3, 4, 5}" by auto
  ultimately show ?thesis by (simp add: is_clus_def sample_vol_def sample_bpb_def)
qed

lemma sample_fat_ok: "fat_ok sample_vol"
  by (simp add: fat_ok_def sample_vol_def sample_bpb_def eoc_min_def ent_width_def)

lemma sample_geom: "geom_ok sample_disk sample_vol"
  by (simp add: geom_ok_def in_image_def sample_vol_def sample_bpb_def sample_disk_def sec_bytes_def cluster_bytes_def sec_size_def)

lemma sample_free: "free_set sample_vol = {2, 3, 4, 5}"
proof -
  have z: "get16 (zeros 512) k = 0" if "k + 2 \<le> 512" for k using that by (simp add: get16_def)
  have "nxt sample_vol n = 0" if "n \<in> {2, 3, 4, 5}" for n
    using that by (auto simp: nxt_def fatEntry_def fat_get_def sample_vol_def sample_bpb_def slice_ok_def z)
  then show ?thesis by (auto simp: free_set_def sample_is_clus)
qed

text \<open>A file entry of the root directory, and a time stamp.\<close>

definition sample_entry :: fatDirEntry where
  "sample_entry = \<lparr>de_name = bs ''A'', shortName = bs ''A          '', attr = attrArchive, cluster = 0, fsize = 0,
     wrtDate = 0, wrtTime = 0, crtDate = 0, crtTime = 0, dirCluster = 0, dirOffset = 64\<rparr>"

definition sample_time :: gotime where
  "sample_time = \<lparr>Year = 2024, Month = 2, Day = 29, Hour = 12, Minute = 30, Second = 10\<rparr>"

end
