(* ===== verification/FatNames.thy ===== *)
theory FatNames
  imports FatEntryCorrect
begin

text \<open>
  Names in a directory: 8.3 names are stored upper-cased and read back as such, long names go
  through a run of long-name records that the scanner reassembles, and the free-slot search
  returns the first run of free records that is long enough.
\<close>

unbundle bit_operations_syntax

subsection \<open>Short names\<close>

definition short_ok :: "gostr \<Rightarrow> bool" where
  "short_ok nm \<longleftrightarrow> list_all (\<lambda>b. b < 0x80 \<and> b \<noteq> spc) nm \<and>
     (case split_ext nm of (b, e) \<Rightarrow> length b \<le> 8 \<and> length e \<le> 3 \<and> (dot \<in> set nm \<longrightarrow> e \<noteq> []))"

lemma split_ext_join:
  "split_ext nm = (b, e) \<Longrightarrow> if dot \<in> set nm then nm = b @ dot # e else nm = b \<and> e = []"
proof (cases "LastIndex nm dot")
  case None
  then show "split_ext nm = (b, e) \<Longrightarrow> ?thesis" by (simp add: split_ext_def LastIndex_None [THEN iffD1])
next
  case (Some d)
  have d: "d < length nm" "nm ! d = dot" using LastIndex_Some [OF Some] by auto
  then have "nm = take d nm @ dot # drop (Suc d) nm" by (metis id_take_nth_drop)
  moreover have "dot \<in> set nm" using d nth_mem by metis
  ultimately show "split_ext nm = (b, e) \<Longrightarrow> ?thesis" using Some by (auto simp: split_ext_def)
qed

lemma TrimRight_pad: "c \<notin> set b \<Longrightarrow> TrimRight (b @ replicate k c) c = b"
proof -
  assume c: "c \<notin> set b"
  have "dropWhile (\<lambda>x. x = c) (rev b) = rev b" using c by (cases "rev b") (auto simp: dropWhile_eq_Cons_conv dest: arg_cong [where f = set])
  then show ?thesis by (simp add: TrimRight_def dropWhile_append dropWhile_replicate)
qed

lemma short_fields:
  assumes "length b \<le> 8" "length e \<le> 3"
  shows "copy_into (copy_into (replicate 11 c) 0 b) 8 e = b @ replicate (8 - length b) c @ e @ replicate (3 - length e) c"
  by (rule nth_equalityI) (use assms in \<open>auto simp: nth_copy_into nth_append\<close>)

lemma decode_short_fields:
  assumes "length b \<le> 8" "length e \<le> 3" "spc \<notin> set b" "spc \<notin> set e"
  shows "decodeShortName (b @ replicate (8 - length b) spc @ e @ replicate (3 - length e) spc) = (if e = [] then b else b @ dot # e)"
proof -
  let ?r = "b @ replicate (8 - length b) spc @ e @ replicate (3 - length e) spc"
  have "take 8 ?r = b @ replicate (8 - length b) spc" "sub ?r 8 3 = e @ replicate (3 - length e) spc"
    using assms(1,2) by (simp_all add: sub_def)
  then show ?thesis using assms(3,4) by (simp add: decodeShortName_def TrimRight_pad)
qed

lemma upper_byte_simps: "upper_byte b = spc \<longleftrightarrow> b = spc" "upper_byte dot = dot"
proof -
  have "b - 0x20 \<noteq> spc" if "0x61 \<le> b" "b \<le> 0x7A" for b :: u8
  proof
    assume "b - 0x20 = spc"
    then have "b = 0x40" by (simp add: spc_def diff_eq_eq)
    then show False using that by simp
  qed
  then show "upper_byte b = spc \<longleftrightarrow> b = spc" by (auto simp: upper_byte_def spc_def)
  show "upper_byte dot = dot" by (simp add: upper_byte_def)
qed

lemma toShortName_round_aux:
  assumes "short_ok nm"
  shows "\<exists>sn. toShortName U nm = (sn, True) \<and> length sn = 11 \<and> decodeShortName sn = map upper_byte nm"
proof -
  obtain b e where be: "split_ext nm = (b, e)" by fastforce
  have l: "length b \<le> 8" "length e \<le> 3" "dot \<in> set nm \<longrightarrow> e \<noteq> []" "list_all (\<lambda>b. b < 0x80 \<and> b \<noteq> spc) nm"
    using assms be by (auto simp: short_ok_def)
  note j = split_ext_join [OF be]
  have ab: "list_all (\<lambda>x. x < 0x80 \<and> x \<noteq> spc) b" "list_all (\<lambda>x. x < 0x80 \<and> x \<noteq> spc) e"
    using l(4) j by (cases "dot \<in> set nm"; force simp: list_all_iff)+
  let ?B = "map upper_byte b" let ?E = "map upper_byte e"
  have u: "ToUpper U b = ?B" "ToUpper U e = ?E" using ab by (auto simp: ToUpper_def list_all_iff)
  have n: "spc \<notin> set ?B" "spc \<notin> set ?E" using ab by (auto simp: list_all_iff upper_byte_simps dest!: sym [of spc])
  let ?sn = "?B @ replicate (8 - length b) spc @ ?E @ replicate (3 - length e) spc"
  have "toShortName U nm = (?sn, True)"
    using l be u short_fields [of ?B ?E spc] by (simp add: toShortName_def Let_def)
  moreover have "decodeShortName ?sn = map upper_byte nm"
    using decode_short_fields [of ?B ?E] l n j by (auto simp: upper_byte_simps split: if_splits)
  moreover have "length ?sn = 11" using l by simp
  ultimately show ?thesis by blast
qed

subsection \<open>Long names\<close>

lemma put8_pair: "o' + 2 \<le> length b \<Longrightarrow> put8 (put8 b o' (ucast w)) (o' + 1) (ucast (drop_bit 8 (w :: u16))) = put16 b o' w"
  by (rule nth_equalityI) (auto simp: put8_def put16_def nth_copy_into nth_list_update le16_def less_Suc_eq nth_Cons')

lemma length13:
  assumes "length cs = 13"
  obtains a b c d e f g h i j k l m where "cs = [a, b, c, d, e, f, g, h, i, j, k, l, m]"
  using assms by (auto simp: length_Suc_conv numeral_eq_Suc)

text \<open>What the scanner reads of a long-name record.\<close>

lemma lfn_entry_fields:
  assumes "i < nSeq" "nSeq \<le> 63" "length rs = nSeq * 13"
  shows "length (lfn_entry rs ck nSeq i) = 32"
    "lfn_entry rs ck nSeq i ! 0 = (if i = 0 then of_nat (nSeq - i) OR 0x40 else of_nat (nSeq - i))"
    "lfn_entry rs ck nSeq i ! 11 = attrLFN"
    "lfn_chars (lfn_entry rs ck nSeq i) = map of_nat (sub rs ((nSeq - i - 1) * 13) 13)"
proof -
  let ?chars = "sub rs ((nSeq - i - 1) * 13) 13"
  have "(nSeq - i - 1) * 13 + 13 \<le> nSeq * 13" using assms(1) by (simp add: algebra_simps diff_mult_distrib)
  then have "length ?chars = 13" using assms(3) by simp
  then obtain a b c d e f g h j k l m n where ch: "?chars = [a, b, c, d, e, f, g, h, j, k, l, m, n]" by (rule length13)
  define x where "x = put8 (zeros 32) 0 (of_nat (nSeq - i) :: u8)"
  define b0 where "b0 = put8 (put8 (put8 (if i = 0 then put8 x 0 (x ! 0 OR 0x40) else x) 11 attrLFN) 12 0) 13 ck"
  have b0: "length b0 = 32" "b0 ! 0 = (if i = 0 then of_nat (nSeq - i) OR 0x40 else of_nat (nSeq - i))" "b0 ! 11 = attrLFN"
    by (simp_all add: b0_def x_def put8_def)
  have e: "lfn_entry rs ck nSeq i = fold (\<lambda>(o', c) b. put16 b o' (of_nat c)) (zip lfn_offsets ?chars) b0"
  proof -
    have gen: "fold (\<lambda>(o', c) b. put8 (put8 b o' (ucast (of_nat c :: u16))) (o' + 1) (ucast (drop_bit 8 (of_nat c :: u16)))) ps x =
        fold (\<lambda>(o', c) b. put16 b o' (of_nat c)) ps x" if "\<forall>(o', c) \<in> set ps. o' + 2 \<le> 32" "length x = 32" for ps x
      using that by (induction ps arbitrary: x) (auto simp: put8_pair [simplified])
    have "\<forall>(o', c) \<in> set (zip lfn_offsets ?chars). o' + 2 \<le> 32" unfolding ch lfn_offsets_def by simp
    from gen [OF this b0(1)] show ?thesis
      unfolding lfn_entry_def Let_def x_def [symmetric] b0_def [symmetric] .
  qed
  show "length (lfn_entry rs ck nSeq i) = 32" unfolding e ch lfn_offsets_def using b0 by simp
  show "lfn_entry rs ck nSeq i ! 0 = (if i = 0 then of_nat (nSeq - i) OR 0x40 else of_nat (nSeq - i))"
    unfolding e ch lfn_offsets_def using b0 by (simp add: codec_simps)
  show "lfn_entry rs ck nSeq i ! 11 = attrLFN" unfolding e ch lfn_offsets_def using b0 by (simp add: codec_simps)
  show "lfn_chars (lfn_entry rs ck nSeq i) = map of_nat ?chars"
    unfolding e ch lfn_offsets_def using b0 by (simp add: lfn_chars_def lfn_offsets_def codec_simps)
qed


lemma seq_byte:
  assumes "0 < n" "n \<le> 63"
  shows "(of_nat n :: u8) \<noteq> 0" "(of_nat n :: u8) \<noteq> 0xE5" "(of_nat n :: u8) OR 0x40 \<noteq> 0" "(of_nat n :: u8) OR 0x40 \<noteq> 0xE5"
    "unat ((of_nat n :: u8) AND 0x3F) = n" "unat (((of_nat n :: u8) OR 0x40) AND 0x3F) = n"
    "(of_nat n :: u8) AND 0x40 = 0" "((of_nat n :: u8) OR 0x40) AND 0x40 \<noteq> 0"
proof -
  have "\<forall>n \<in> set [1..<64]. (of_nat n :: u8) \<noteq> 0 \<and> (of_nat n :: u8) \<noteq> 0xE5 \<and> (of_nat n :: u8) OR 0x40 \<noteq> 0 \<and> (of_nat n :: u8) OR 0x40 \<noteq> 0xE5 \<and>
    unat ((of_nat n :: u8) AND 0x3F) = n \<and> unat (((of_nat n :: u8) OR 0x40) AND 0x3F) = n \<and>
    (of_nat n :: u8) AND 0x40 = 0 \<and> ((of_nat n :: u8) OR 0x40) AND 0x40 \<noteq> 0"
    by code_simp
  moreover have "n \<in> set [1..<64]" using assms by simp
  ultimately show "(of_nat n :: u8) \<noteq> 0" "(of_nat n :: u8) \<noteq> 0xE5" "(of_nat n :: u8) OR 0x40 \<noteq> 0" "(of_nat n :: u8) OR 0x40 \<noteq> 0xE5"
    "unat ((of_nat n :: u8) AND 0x3F) = n" "unat (((of_nat n :: u8) OR 0x40) AND 0x3F) = n"
    "(of_nat n :: u8) AND 0x40 = 0" "((of_nat n :: u8) OR 0x40) AND 0x40 \<noteq> 0" by blast+
qed

text \<open>The scanner has read the first \<open>k\<close> of the \<open>n\<close> records of a long name.\<close>

definition lfn_read :: "rune list \<Rightarrow> nat \<Rightarrow> nat \<Rightarrow> scan \<Rightarrow> bool" where
  "lfn_read rs n k s \<longleftrightarrow> lfnSeq s = n \<and>
     (\<exists>p. lfnParts s = Some p \<and> length p = n * 13 \<and> drop ((n - k) * 13) p = map of_nat (drop ((n - k) * 13) rs))"

lemma lfn_step:
  assumes "i < n" "n \<le> 63" "length rs = n * 13" "i = 0 \<or> lfn_read rs n i s"
  obtains s' where "process (lfn_entry rs ck n i) c o' s = (s', True)" "lfn_read rs n (Suc i) s'" "entries s' = entries s"
proof -
  note F = lfn_entry_fields [OF assms(1-3), of ck]
  let ?raw = "lfn_entry rs ck n i"
  have q: "0 < n - i" "n - i \<le> 63" using assms(1,2) by auto
  define w :: u8 where "w = of_nat (n - i)"
  note S = seq_byte [OF q, folded w_def]
  have r0: "?raw ! 0 = (if i = 0 then w OR 0x40 else w)" by (simp only: F(2) w_def)
  have z: "unat (?raw ! 0 AND 0x3F) = n - i" "?raw ! 0 \<noteq> 0" "?raw ! 0 \<noteq> 0xE5" "?raw ! 0 AND 0x40 \<noteq> 0 \<longleftrightarrow> i = 0"
    using S by (auto simp only: r0 split: if_splits)
  have pr: "process ?raw c o' s = (scan_lfn ?raw s, True)" using z F(3) by (simp add: process_def)
  obtain p where p: "length p = n * 13" "drop ((n - i) * 13) p = map of_nat (drop ((n - i) * 13) rs)"
    "scan_lfn ?raw s = s\<lparr>lfnParts := Some (copy_into p ((n - i - 1) * 13) (map of_nat (sub rs ((n - i - 1) * 13) 13))), lfnSeq := n\<rparr>"
  proof (cases "i = 0")
    case True
    then show ?thesis using that [of "replicate (n * 13) 0"] q z assms(3) F(4) by (cases s) (simp add: scan_lfn_def Let_def)
  next
    case False
    then obtain p where "lfnParts s = Some p" "length p = n * 13" "drop ((n - i) * 13) p = map of_nat (drop ((n - i) * 13) rs)" "lfnSeq s = n"
      using assms(4) by (auto simp: lfn_read_def)
    then show ?thesis using that [of p] q z False F(4) by (cases s) (simp add: scan_lfn_def Let_def)
  qed
  define b where "b = (n - Suc i) * 13"
  have b: "(n - i - 1) * 13 = b" "(n - i) * 13 = b + 13" "b + 13 \<le> n * 13"
    using assms(1) by (auto simp: b_def Suc_diff_Suc [symmetric])
  have sl: "length (sub rs b 13) = 13" using b assms(3) by simp
  have "drop b (copy_into p b (map of_nat (sub rs b 13))) = map of_nat (sub rs b 13) @ drop (b + 13) p"
    using p(1) b(3) sl by (simp add: copy_into_def min_def)
  also have "\<dots> = map of_nat (drop b rs)"
    using p(2) b by (simp add: sub_def flip: map_append drop_drop) (metis append_take_drop_id drop_drop add.commute)
  finally have "lfn_read rs n (Suc i) (scan_lfn ?raw s)"
    using p b by (simp add: lfn_read_def b_def)
  then show ?thesis using that pr p(3) by simp
qed


subsection \<open>Names survive the round trip\<close>

definition lfn_name_ok :: "gostr \<Rightarrow> bool" where
  "lfn_name_ok nm \<longleftrightarrow> nm = str (runes nm) \<and> runes nm \<noteq> [] \<and> length (runes nm) \<le> 63 * 13 \<and>
     list_all (\<lambda>r. valid_rune r \<and> r < 0x10000 \<and> r \<noteq> 0 \<and> r \<noteq> 0xFFFF) (runes nm)"

lemma lfn_pad_length: "length rs \<le> 63 * 13 \<Longrightarrow> length (lfn_pad rs) mod 13 = 0 \<and> length (lfn_pad rs) \<le> 63 * 13 \<and> length rs \<le> length (lfn_pad rs)"
proof -
  assume l: "length rs \<le> 63 * 13"
  define q r where "q = length rs div 13" and "r = length rs mod 13"
  have qr: "length rs = 13 * q + r" "r < 13" by (simp_all add: q_def r_def)
  show ?thesis
  proof (cases "r = 0")
    case True
    then show ?thesis using l by (simp add: lfn_pad_def r_def)
  next
    case False
    then have q: "q < 63" using l qr by linarith
    have "(13 - (length rs + 1) mod 13) mod 13 = 12 - r"
    proof (cases "r = 12")
      case True
      have "length rs + 1 = 13 * (q + 1)" using qr True by simp
      then show ?thesis using True by (simp only: mod_mult_self1_is_0) simp
    next
      case False
      then have "(length rs + 1) mod 13 = r + 1" using qr by (simp add: mod_Suc)
      then show ?thesis using False qr(2) by simp
    qed
    moreover have "length rs mod 13 \<noteq> 0" using False by (simp add: r_def)
    ultimately have "length (lfn_pad rs) = length rs + 1 + (12 - r)" by (simp only: lfn_pad_def if_False length_append length_replicate list.size)
    then have "length (lfn_pad rs) = 13 * (q + 1)" using qr by simp
    then show ?thesis using q qr by simp
  qed
qed

lemma lfn_pad_shape: "lfn_pad rs = rs \<or> (\<exists>k. lfn_pad rs = rs @ 0 # replicate k 0xFFFF)"
proof (cases "length rs mod 13 = 0")
  case False
  then have "lfn_pad rs = rs @ [0] @ replicate ((13 - (length rs + 1) mod 13) mod 13) 0xFFFF"
    by (simp only: lfn_pad_def if_False)
  then show ?thesis unfolding append_Cons append_Nil by blast
qed (simp add: lfn_pad_def)

lemma lfn_name_pad:
  assumes "lfn_name_ok nm"
  shows "lfn_name (map of_nat (lfn_pad (runes nm))) = nm"
proof -
  let ?rs = "runes nm"
  have ok: "\<forall>r \<in> set ?rs. valid_rune r \<and> r < 0x10000 \<and> r \<noteq> 0 \<and> r \<noteq> 0xFFFF" "nm = str ?rs"
    using assms unfolding lfn_name_ok_def list_all_iff by blast+
  have v: "\<forall>r \<in> set (lfn_pad ?rs). valid_rune r \<and> r < 0x10000"
  proof
    fix r assume "r \<in> set (lfn_pad ?rs)"
    then have "r \<in> set ?rs \<or> r = 0 \<or> r = 0xFFFF"
      using lfn_pad_shape [of ?rs] by (elim disjE exE) (simp, auto)
    then show "valid_rune r \<and> r < 0x10000" using ok(1) by (elim disjE) (simp_all add: valid_rune_def)
  qed
  have "takeWhile (\<lambda>r. r \<noteq> 0 \<and> r \<noteq> 0xFFFF) (lfn_pad ?rs) = ?rs"
    using lfn_pad_shape [of ?rs] ok(1) by (elim disjE exE) (simp_all add: takeWhile_append2 takeWhile_eq_all_conv)
  then show ?thesis
    using utf16_decode_bmp [OF v] runes_str [of "lfn_pad ?rs"] v ok(2) [symmetric] by (simp add: lfn_name_def)
qed

text \<open>A record that is neither free, nor part of a long name, nor a volume label.\<close>

definition live_entry :: "fatDirEntry \<Rightarrow> bool" where
  "live_entry e \<longleftrightarrow> length (shortName e) = 11 \<and> shortName e ! 0 \<noteq> 0 \<and> shortName e ! 0 \<noteq> 0xE5 \<and>
     attr e \<noteq> attrLFN \<and> attr e AND attrVolumeID = 0"

lemma process_short:
  assumes "live_entry e"
  shows "process (entry_bytes e) c o' s =
    (s\<lparr>entries := entries s @ [e\<lparr>de_name := (case lfnParts s of Some p \<Rightarrow> lfn_name p | None \<Rightarrow> decodeShortName (shortName e)),
       dirCluster := c, dirOffset := o'\<rparr>], lfnParts := None, lfnSeq := (if lfnParts s = None then lfnSeq s else 0)\<rparr>, True)"
proof -
  have l: "length (shortName e) = 11" using assms by (simp add: live_entry_def)
  have b: "entry_bytes e ! 0 = shortName e ! 0" "entry_bytes e ! 11 = attr e"
    using l by (simp_all add: entry_bytes_def nth_append)
  show ?thesis
    using assms raw_entry_bytes [OF l, of c o'] by (cases s) (auto simp: process_def b live_entry_def Let_def split: option.split)
qed

lemma process_all_step:
  "i * 32 + 32 \<le> length buf \<Longrightarrow> process (sub buf (i * 32) 32) c (of_nat (i * 32)) s = (s', True) \<Longrightarrow>
   process_all buf c i s = process_all buf c (Suc i) s'"
  by (subst process_all.simps) simp

lemma process_lfn_run:
  assumes "length rs = n * 13" "n \<le> 63" "(i + n) * 32 \<le> length buf"
    and "\<And>j. j < n \<Longrightarrow> sub buf ((i + j) * 32) 32 = lfn_entry rs ck n j" and "0 < k" "k \<le> n"
  shows "\<exists>s'. process_all buf c i s = process_all buf c (i + k) s' \<and> lfn_read rs n k s' \<and> entries s' = entries s"
  using assms(5,6)
proof (induction k)
  case (Suc k)
  have "\<exists>s1. process_all buf c i s = process_all buf c (i + k) s1 \<and> (k = 0 \<or> lfn_read rs n k s1) \<and> entries s1 = entries s"
    using Suc by (cases "k = 0") auto
  then obtain s1 where s1: "process_all buf c i s = process_all buf c (i + k) s1" "k = 0 \<or> lfn_read rs n k s1" "entries s1 = entries s"
    by blast
  have kn: "k < n" using Suc.prems by simp
  obtain s' where s': "process (lfn_entry rs ck n k) c (of_nat ((i + k) * 32)) s1 = (s', True)" "lfn_read rs n (Suc k) s'" "entries s' = entries s1"
    using lfn_step [OF kn assms(2,1) s1(2)] by blast
  have "(i + k) * 32 + 32 \<le> length buf" using kn assms(3) by simp
  from process_all_step [OF this] s'(1) assms(4) [OF kn]
  have "process_all buf c (i + k) s1 = process_all buf c (i + Suc k) s'" by simp
  then show ?case using s1 s' by auto
qed simp

lemma scan_named_entry:
  assumes "live_entry e" "lfn_name_ok nm" "lfn = buildLFNEntries nm sn"
    and "(i + length lfn) * 32 + 32 \<le> length buf"
    and "\<And>j. j < length lfn \<Longrightarrow> sub buf ((i + j) * 32) 32 = lfn ! j"
    and "sub buf ((i + length lfn) * 32) 32 = entry_bytes e"
  shows "\<exists>s'. process_all buf c i s = process_all buf c (i + length lfn + 1) s' \<and> lfnParts s' = None \<and>
    entries s' = entries s @ [e\<lparr>de_name := nm, dirCluster := c, dirOffset := of_nat ((i + length lfn) * 32)\<rparr>]"
proof -
  define rs where "rs = lfn_pad (runes nm)"
  define n where "n = length rs div 13"
  have l: "length (runes nm) \<le> 63 * 13" "runes nm \<noteq> []" using assms(2) unfolding lfn_name_ok_def by blast+
  note pl = lfn_pad_length [OF l(1), folded rs_def]
  have n: "length rs = n * 13" "n \<le> 63" "0 < n"
  proof -
    show e: "length rs = n * 13" using pl by (simp add: n_def) (metis mod_0_imp_dvd dvd_div_mult_self)
    show "n \<le> 63" using pl e by simp
    show "0 < n" using pl l(2) e by (cases n) auto
  qed
  have lfn: "length lfn = n" "\<And>j. j < n \<Longrightarrow> lfn ! j = lfn_entry rs (lfnChecksum sn) n j"
    by (simp_all add: assms(3) buildLFNEntries_def rs_def n_def Let_def)
  have b: "(i + n) * 32 \<le> length buf" using assms(4) lfn(1) by simp
  have r: "sub buf ((i + j) * 32) 32 = lfn_entry rs (lfnChecksum sn) n j" if "j < n" for j
    using assms(5) [of j] lfn that by simp
  obtain s1 where s1: "process_all buf c i s = process_all buf c (i + n) s1" "lfn_read rs n n s1" "entries s1 = entries s"
    using process_lfn_run [OF n(1,2) b r n(3) order_refl] by blast
  then have p: "lfnParts s1 = Some (map of_nat rs)" by (auto simp: lfn_read_def)
  define s' where "s' = s1\<lparr>entries := entries s1 @ [e\<lparr>de_name := nm, dirCluster := c, dirOffset := of_nat ((i + n) * 32)\<rparr>], lfnParts := None, lfnSeq := 0\<rparr>"
  have "process (sub buf ((i + n) * 32) 32) c (of_nat ((i + n) * 32)) s1 = (s', True)"
    using assms(6) process_short [OF assms(1)] p lfn_name_pad [OF assms(2), folded rs_def] by (simp add: lfn(1) s'_def)
  from process_all_step [OF _ this] assms(4) lfn(1) have "process_all buf c (i + n) s1 = process_all buf c (Suc (i + n)) s'" by simp
  then show ?thesis using s1 by (intro exI [of _ s']) (simp add: s'_def lfn(1))
qed

text \<open>Writing the records of an entry, long-name records first.\<close>

lemma length_LFN:
  assumes "lfn_name_ok nm" "l \<in> set (buildLFNEntries nm sn)"
  shows "length l = 32"
proof -
  let ?rs = "lfn_pad (runes nm)"
  have "length (runes nm) \<le> 63 * 13" using assms(1) unfolding lfn_name_ok_def by blast
  note pl = lfn_pad_length [OF this]
  have "length ?rs = length ?rs div 13 * 13" using pl by (metis mod_0_imp_dvd dvd_div_mult_self)
  moreover have "length ?rs div 13 \<le> 63" using pl by linarith
  ultimately show ?thesis using assms(2) lfn_entry_fields(1) by (auto simp: buildLFNEntries_def Let_def)
qed

lemma LFN_head:
  assumes "lfn_name_ok nm" "l \<in> set (buildLFNEntries nm sn)"
  shows "l ! 0 \<noteq> 0" "l ! 0 \<noteq> 0xE5"
proof -
  let ?rs = "lfn_pad (runes nm)" let ?n = "length ?rs div 13"
  have "length (runes nm) \<le> 63 * 13" using assms(1) unfolding lfn_name_ok_def by blast
  note pl = lfn_pad_length [OF this]
  have n: "length ?rs = ?n * 13" using pl by (metis mod_0_imp_dvd dvd_div_mult_self)
  have n63: "?n \<le> 63" using pl by linarith
  obtain i where i: "i < ?n" "l = lfn_entry ?rs (lfnChecksum sn) ?n i" using assms(2) by (auto simp: buildLFNEntries_def Let_def)
  have q: "0 < ?n - i" "?n - i \<le> 63" using i(1) n63 by auto
  define w :: u8 where "w = of_nat (?n - i)"
  have "l ! 0 = (if i = 0 then w OR 0x40 else w)" unfolding i(2) lfn_entry_fields(2) [OF i(1) n63 n] w_def ..
  then show "l ! 0 \<noteq> 0" "l ! 0 \<noteq> 0xE5" using seq_byte [OF q, folded w_def] by (auto split: if_splits)
qed

lemma put_lfn_ok:
  "\<forall>l \<in> set ls. length l = 32 \<Longrightarrow> off + length ls * 32 \<le> length buf \<Longrightarrow>
   put_lfn buf off ls = Inr (copy_into buf off (concat ls))"
proof (induction ls arbitrary: buf off)
  case (Cons l ls)
  then have "put_lfn (copy_into buf off l) (off + 32) ls = Inr (copy_into (copy_into buf off l) (off + 32) (concat ls))" by simp
  then show ?case using Cons.prems copy_into_append [of buf off l "concat ls"] by simp
qed simp

lemma length_concat32: "\<forall>l \<in> set ls. length l = 32 \<Longrightarrow> length (concat ls) = length ls * 32"
  by (induction ls) auto

lemma sub_concat32:
  "\<forall>l \<in> set ls. length l = 32 \<Longrightarrow> j < length ls \<Longrightarrow> sub (concat ls @ x) (j * 32) 32 = ls ! j"
proof (induction ls arbitrary: j)
  case (Cons l ls)
  then show ?case by (cases j) (auto simp: sub_def)
qed simp

lemma writeEntriesAt_ok:
  assumes "\<forall>l \<in> set ls. length l = 32" "off + length ls * 32 + 32 \<le> length buf" "length (shortName e) = 11"
  shows "writeEntriesAt buf off ls e = Inr (copy_into buf off (concat ls @ entry_bytes e))"
  using assms put_lfn_ok [of ls off buf] copy_into_append [of buf off "concat ls" "entry_bytes e"]
  by (simp add: writeEntriesAt_def encodeDirEntry32_eq length_concat32)

text \<open>What was written at record \<open>i\<close> is scanned from there as one entry with its long name.\<close>

lemma scan_written_entry:
  assumes "live_entry e" "lfn_name_ok nm" "lfn = buildLFNEntries nm sn" "(i + length lfn) * 32 + 32 \<le> length buf"
  obtains buf' s' where "writeEntriesAt buf (i * 32) lfn e = Inr buf'" "length buf' = length buf"
    "process_all buf' c i s = process_all buf' c (i + length lfn + 1) s'" "lfnParts s' = None"
    "entries s' = entries s @ [e\<lparr>de_name := nm, dirCluster := c, dirOffset := of_nat ((i + length lfn) * 32)\<rparr>]"
proof -
  have l: "\<forall>l \<in> set lfn. length l = 32" using length_LFN assms(2,3) by blast
  have sn: "length (shortName e) = 11" using assms(1) by (simp add: live_entry_def)
  define buf' where "buf' = copy_into buf (i * 32) (concat lfn @ entry_bytes e)"
  have w: "writeEntriesAt buf (i * 32) lfn e = Inr buf'"
    using writeEntriesAt_ok [OF l _ sn] assms(4) by (simp add: buf'_def)
  have le: "length (concat lfn @ entry_bytes e) = length lfn * 32 + 32"
    using length_concat32 [OF l] sn by (simp add: length_entry_bytes)
  have rd: "sub buf' ((i + j) * 32) 32 = sub (concat lfn @ entry_bytes e) (j * 32) 32" if "j \<le> length lfn" for j
    unfolding buf'_def using that le assms(4) by (subst sub_copy_inner) (auto simp: algebra_simps)
  have "\<exists>s'. process_all buf' c i s = process_all buf' c (i + length lfn + 1) s' \<and> lfnParts s' = None \<and>
    entries s' = entries s @ [e\<lparr>de_name := nm, dirCluster := c, dirOffset := of_nat ((i + length lfn) * 32)\<rparr>]"
  proof (rule scan_named_entry [OF assms(1-3)])
    show "(i + length lfn) * 32 + 32 \<le> length buf'" using assms(4) by (simp add: buf'_def)
    show "sub buf' ((i + j) * 32) 32 = lfn ! j" if "j < length lfn" for j
      using rd [of j] sub_concat32 [OF l that] that by simp
    show "sub buf' ((i + length lfn) * 32) 32 = entry_bytes e"
      using rd [of "length lfn"] length_concat32 [OF l] length_entry_bytes [OF sn] by (simp add: sub_def)
  qed
  then show ?thesis using that w by (auto simp: buf'_def)
qed

subsection \<open>Free slots\<close>

definition slot_free :: "bytes \<Rightarrow> nat \<Rightarrow> bool" where
  "slot_free buf k \<longleftrightarrow> buf ! (32 * k) = 0 \<or> buf ! (32 * k) = 0xE5"

text \<open>\<open>m\<close> free records in a row, from record \<open>k\<close> on.\<close>

definition run_at :: "bytes \<Rightarrow> nat \<Rightarrow> nat \<Rightarrow> bool" where
  "run_at buf m k \<longleftrightarrow> 32 * (k + m) \<le> length buf \<and> (\<forall>j < m. slot_free buf (k + j))"

definition first_run :: "bytes \<Rightarrow> nat \<Rightarrow> nat option \<Rightarrow> bool" where
  "first_run buf m r = (case r of
      Some off \<Rightarrow> (\<exists>k. off = 32 * k \<and> run_at buf m k \<and> (\<forall>k' < k. \<not> run_at buf m k'))
    | None \<Rightarrow> \<forall>k. \<not> run_at buf m k)"

lemma run_at_covers: "run_at buf m k \<Longrightarrow> k \<le> a \<Longrightarrow> a < k + m \<Longrightarrow> slot_free buf a"
  unfolding run_at_def by (metis add_diff_inverse_nat less_diff_conv2 not_less add.commute)

lemma free_slot_first:
  assumes "length buf < 2 ^ 31" "0 < m" "32 * m < 2 ^ 32" "c \<le> a" "c < m" "32 * a \<le> length buf"
    and "\<forall>j < c. slot_free buf (a - c + j)" "\<forall>k < a - c. \<not> run_at buf m k" "0 < c \<longrightarrow> st = 32 * (a - c)"
  shows "first_run buf m (free_slot buf (of_nat (32 * m)) (32 * a) (of_nat (32 * c)) st)"
  using assms(4-9)
proof (induction "length buf - 32 * a" arbitrary: a c st rule: less_induct)
  case less
  show ?case
  proof (cases "length buf < 32 * a + 32")
    case True
    have "\<not> run_at buf m k" for k
    proof
      assume r: "run_at buf m k"
      then have "32 * (k + m) < 32 * (a + 1)" using True by (simp add: run_at_def)
      then have "k + m < a + 1" by (simp only: mult_less_cancel1)
      then have "k + c < a" using less.prems(2) by linarith
      then have "k < a - c" by simp
      with less.prems(5) r show False by blast
    qed
    then show ?thesis using True by (subst free_slot.simps) (simp add: first_run_def)
  next
    case False
    let ?w = "of_nat (32 * c) :: u32"
    have uw: "unat ?w = 32 * c" "unat (of_nat (32 * m) :: u32) = 32 * m" "unat (of_nat (32 * Suc c) :: u32) = 32 * Suc c"
      using less.prems assms(1,3) by (simp_all only: unat_of_nat) simp_all
    have w1: "?w + 32 = of_nat (32 * Suc c)" by simp
    have w0: "?w = 0 \<longleftrightarrow> c = 0" using uw(1) by (metis mult_eq_0_iff numeral_neq_zero of_nat_0 unat_eq_zero)
    show ?thesis
    proof (cases "slot_free buf a")
      case free: True
      let ?st = "if ?w = 0 then 32 * a else st"
      have st: "?st = 32 * (Suc a - Suc c)" using less.prems(6) w0 by auto
      have all: "slot_free buf (a - c + j)" if "j < Suc c" for j
        using that less.prems(1,4) free by (cases "j = c") auto
      have step: "free_slot buf (of_nat (32 * m)) (32 * a) ?w st =
          (if m \<le> Suc c then Some (32 * (a - c)) else free_slot buf (of_nat (32 * m)) (32 * a + 32) (?w + 32) (32 * (a - c)))"
        using False free st uw(1,2) uw(3) [folded w1] by (subst free_slot.simps) (simp add: slot_free_def Let_def word_le_nat_alt del: of_nat_mult of_nat_Suc)
      show ?thesis
      proof (cases "m \<le> Suc c")
        case True
        then have m: "m = Suc c" using less.prems(2) by simp
        have "run_at buf m (a - c)" using all False less.prems(1) by (auto simp: run_at_def m)
        then show ?thesis using step True less.prems(5) by (auto simp: first_run_def)
      next
        case no: False
        have "first_run buf m (free_slot buf (of_nat (32 * m)) (32 * Suc a) (of_nat (32 * Suc c)) (32 * (a - c)))"
          by (rule less.hyps) (use less.prems False no all in auto)
        moreover have "32 * Suc a = 32 * a + 32" by simp
        ultimately show ?thesis unfolding step w1 using no by (simp only: if_False)
      qed
    next
      case used: False
      have no: "\<not> run_at buf m k" if "k < Suc a" for k
      proof (cases "k < a - c")
        case False
        then have "a < k + m" using less.prems(1,2) by linarith
        then show ?thesis using run_at_covers [of buf m k a] used that by auto
      qed (use less.prems(5) in blast)
      have "first_run buf m (free_slot buf (of_nat (32 * m)) (32 * Suc a) (of_nat (32 * 0)) 0)"
        by (rule less.hyps) (use False no assms(2) in auto)
      then show ?thesis using False used
        by (subst free_slot.simps) (simp add: slot_free_def add.commute [of 32 "32 * a"] del: of_nat_mult)
    qed
  qed
qed

lemma findFreeSlot_first_aux:
  assumes "length buf < 2 ^ 31" "0 < m" "32 * m < 2 ^ 32"
  shows "first_run buf m (findFreeSlot buf (of_nat (32 * m)))"
  using free_slot_first [OF assms, of 0 0 0] assms(2) by (simp add: findFreeSlot_def)

lemma findFreeSlot_one:
  assumes "length buf < 2 ^ 31" "32 * k + 32 \<le> length buf" "slot_free buf k" "\<forall>j < k. \<not> slot_free buf j"
  shows "findFreeSlot buf 32 = Some (32 * k)"
proof -
  have r: "run_at buf 1 k" using assms(2,3) by (simp add: run_at_def)
  have nr: "\<not> run_at buf 1 j" if "j < k" for j using assms(4) that by (auto simp: run_at_def)
  have "first_run buf 1 (findFreeSlot buf 32)" using findFreeSlot_first_aux [OF assms(1), of 1] by simp
  then show ?thesis using r nr
    by (cases "findFreeSlot buf 32") (auto simp: first_run_def, metis linorder_neqE_nat)
qed

end
