(* ===== verification/FatProps.thy ===== *)
theory FatProps
  imports FatSample FatNames
begin

text \<open>
  The properties of the FAT driver, each with an application to the small volume of
  \<open>FatSample\<close> where it has hypotheses: files (write, read back, frame), the table and its
  chains, persistence across unmount and mount, directory records and names.
\<close>

unbundle bit_operations_syntax

subsection \<open>Files\<close>

text \<open>
  C2. With enough free clusters, writing a file succeeds, the file reads back exactly as
  written, and the volume stays well formed.  The 32 bytes at the place of the entry in its
  directory, as a reader of the volume sees them, decode to the entry with the new size, first
  cluster and time stamp (the long name is not part of this record).
\<close>

theorem writeFileData_reads_back:
  assumes "fat_ok v" "geom_ok f v" "file_chain v (cluster e) cs" "length d < 2 ^ 32"
    and "entry_home v e" "dirCluster e \<notin> set cs" "dirCluster e \<notin> free_set v"
    and "clusters_needed v d \<le> length cs + card (free_set v)"
  shows "\<exists>v' e' cs'. writeFileData f t d (v, e) = (Inr (), v', e') \<and> readAllClusters f v' e' = Inr d \<and>
    chain_ok v' cs' \<and> length cs' = clusters_needed v d \<and> fat_ok v' \<and> geom_ok f v' \<and>
    e' = e\<lparr>cluster := hd cs', fsize := of_nat (length d), wrtDate := fatDate t, wrtTime := fatTime t\<rparr> \<and>
    (\<exists>raw. dir_record f v' e = Inr raw \<and> raw_entry raw (dirCluster e) (dirOffset e) = e'\<lparr>de_name := []\<rparr>)"
proof -
  obtain v' e' cs' where w: "writeFileData f t d (v, e) = (Inr (), v', e')" "holds_file f v' cs' d"
    "readAllClusters f v' e' = Inr d" "fat_ok v'" "geom_ok f v'" "v_b v' = v_b v"
    "e' = e\<lparr>cluster := hd cs', fsize := of_nat (length d), wrtDate := fatDate t, wrtTime := fatTime t\<rparr>"
    "dir_record f v' e' = Inr (entry_bytes e')"
    using writeFileData_ok_aux [OF assms, of t] by blast
  have "length cs' = clusters_needed v d"
    using w(2,6) by (simp add: holds_file_def clusters_needed_def cluster_bytes_def)
  moreover have "dir_record f v' e = Inr (entry_bytes e')"
  proof -
    have "dirCluster e' = dirCluster e" "dirOffset e' = dirOffset e" by (simp_all add: w(7))
    then have "dir_record f v' e' = dir_record f v' e" by (simp only: dir_record_def in_root_def)
    then show ?thesis using w(8) by simp
  qed
  moreover have "raw_entry (entry_bytes e') (dirCluster e) (dirOffset e) = e'\<lparr>de_name := []\<rparr>"
    using raw_entry_bytes [of e'] assms(5) by (simp add: w(7) entry_home_def)
  ultimately show ?thesis using w by (auto simp: holds_file_def)
qed

definition sample_data :: bytes where
  "sample_data = replicate 600 7"

lemma sample_write_ok:
  "file_chain sample_vol (cluster sample_entry) []" "length sample_data < 2 ^ 32" "entry_home sample_vol sample_entry"
  "dirCluster sample_entry \<notin> set []" "dirCluster sample_entry \<notin> free_set sample_vol"
  "clusters_needed sample_vol sample_data \<le> length [] + card (free_set sample_vol)"
  by (simp_all add: file_chain_def sample_entry_def sample_data_def entry_home_def in_root_def sample_vol_def sample_bpb_def
      sec_bytes_def sample_free [unfolded sample_vol_def sample_bpb_def] clusters_needed_def)

theorem writeFileData_reads_back_witness:
  "\<exists>v' e' raw. writeFileData sample_disk sample_time sample_data (sample_vol, sample_entry) = (Inr (), v', e') \<and>
     readAllClusters sample_disk v' e' = Inr (replicate 600 7) \<and> dir_record sample_disk v' sample_entry = Inr raw \<and>
     fsize (raw_entry raw 0 (dirOffset sample_entry)) = 600"
proof -
  have "dirCluster sample_entry = 0" by (simp add: sample_entry_def)
  then show ?thesis
    using writeFileData_reads_back [OF sample_fat_ok sample_geom sample_write_ok, of sample_time]
    by (fastforce simp: sample_data_def)
qed

text \<open>
  C3. Writing one file leaves another file alone.  A file whose chain shares no cluster with the
  written one and does not contain the directory cluster of the written one reads the same
  afterwards; and its directory record is the same, provided that the record is not in a cluster of
  the written file or a free one, and is \<open>record_safe\<close>: it does not overlap the record of the written
  file, and the two are not in one sector of the fixed FAT12/16 root directory that is already
  staged (there \<open>writeDirEntry\<close> goes back to the sector on disk and loses what was staged).
\<close>

theorem writeFileData_frame:
  assumes "fat_ok v" "geom_ok f v" "file_chain v (cluster e) cs" "length d < 2 ^ 32"
    and "entry_home v e" "dirCluster e \<notin> set cs" "dirCluster e \<notin> free_set v"
    and "clusters_needed v d \<le> length cs + card (free_set v)"
    and other: "holds_file f v ds x" "set ds \<inter> set cs = {}" "dirCluster e \<notin> set ds" "length x < 2 ^ 32"
      "cluster e2 = hd ds" "fsize e2 = of_nat (length x)"
    and place: "entry_home v e2" "record_safe v e e2" "dirCluster e2 \<notin> set cs" "dirCluster e2 \<notin> free_set v"
  shows "\<exists>v' e'. writeFileData f t d (v, e) = (Inr (), v', e') \<and>
    readAllClusters f v' e2 = Inr x \<and> readAllClusters f v e2 = Inr x \<and> dir_record f v' e2 = dir_record f v e2"
proof -
  obtain v' e' cs' where w: "writeFileData f t d (v, e) = (Inr (), v', e')" "fat_ok v'" "geom_ok f v'" "v_b v' = v_b v"
    "set cs' \<subseteq> set cs \<union> free_set v"
    "\<forall>m. is_clus v m \<longrightarrow> m \<notin> set cs \<union> set cs' \<longrightarrow> nxt v' m = nxt v m"
    "\<forall>m. is_clus v m \<longrightarrow> m \<notin> set cs' \<longrightarrow> clus_view f v' m =
       (if m = dirCluster e then copy_into (clus_view f v m) (unat (dirOffset e)) (entry_bytes e') else clus_view f v m)"
    "\<forall>e2. entry_home v e2 \<and> record_safe v e e2 \<and> dirCluster e2 \<notin> set cs \<union> free_set v \<longrightarrow> dir_record f v' e2 = dir_record f v e2"
    using writeFileData_ok_aux [OF assms(1-8), of t] by blast
  have ds: "chain_ok v ds" "\<forall>c \<in> set ds. is_clus v c" using other(1) by (auto simp: holds_file_def chain_ok_def)
  have "set ds \<inter> free_set v = {}" using chain_nonzero [OF ds(1)] by (auto simp: free_set_def)
  then have out: "c \<notin> set cs \<union> set cs'" "c \<noteq> dirCluster e" if "c \<in> set ds" for c
    using that w(5) other(2,3) by auto
  have n: "\<And>c. c \<in> set ds \<Longrightarrow> nxt v' c = nxt v c" and cv: "\<And>c. c \<in> set ds \<Longrightarrow> clus_view f v' c = clus_view f v c"
    using w(6,7) ds(2) out by auto
  have "linked (nxt v') (isEOC v) ds" using ds(1) linked_cong [of ds "nxt v'" "nxt v" "isEOC v"] n by (simp add: chain_ok_def)
  moreover have "isEOC v' = isEOC v" "is_clus v' = is_clus v" using w(4) by (simp_all add: isEOC_def is_clus_def fun_eq_iff)
  ultimately have "chain_ok v' ds" using ds(1) by (simp add: chain_ok_def)
  then have "holds_file f v' ds x" using other(1) cv w(4)
    by (simp add: holds_file_def clusters_needed_def cluster_bytes_def)
  then have "readAllClusters f v' e2 = Inr x" using holds_file_read [OF w(2,3) _ other(4-6)] by blast
  moreover have "readAllClusters f v e2 = Inr x" using holds_file_read [OF assms(1,2) other(1,4-6)] .
  moreover have "dir_record f v' e2 = dir_record f v e2" using w(8) place by blast
  ultimately show ?thesis using w(1) by blast
qed

text \<open>A volume whose cluster 4 holds the three bytes of a second file.\<close>

definition other_table :: bytes where
  "other_table = (zeros 512)[6 := 0xFF, 7 := 0x0F]"

definition other_vol :: fatvol where
  "other_vol = writeCluster 4 (copy_into (zeros 512) 0 [1, 2, 3]) (sample_vol\<lparr>fat1 := other_table\<rparr>)"

definition other_entry :: fatDirEntry where
  "other_entry = sample_entry\<lparr>cluster := 4, fsize := 3, dirOffset := 96\<rparr>"

lemma other_vol_shape:
  "v_b other_vol = sample_bpb" "fat1 other_vol = other_table" "is_clus other_vol = is_clus sample_vol"
  by (simp_all add: other_vol_def sample_vol_def is_clus_def fun_eq_iff)

lemma other_fat_ok: "fat_ok other_vol"
  using sample_fat_ok by (simp add: fat_ok_def other_vol_shape sample_vol_def other_table_def)

lemma other_geom: "geom_ok sample_disk other_vol"
proof -
  let ?v = "sample_vol\<lparr>fat1 := other_table\<rparr>"
  have "geom_ok sample_disk ?v" using sample_geom by (simp add: geom_ok_def in_image_def sec_bytes_def cluster_bytes_def)
  moreover have "is_clus ?v 4" by (simp add: is_clus_def sample_vol_def sample_bpb_def)
  moreover have "cluster_bytes ?v = 512" by (simp add: cluster_bytes_def sample_vol_def sample_bpb_def)
  ultimately show ?thesis unfolding other_vol_def by (intro geom_writeCluster) auto
qed

lemma other_nxt: "nxt other_vol 2 = 0" "nxt other_vol 3 = 0" "nxt other_vol 4 = 0xFFF" "nxt other_vol 5 = 0"
  by (simp_all add: nxt_def fatEntry_def fat_get_def other_vol_shape sample_bpb_def slice_ok_def other_table_def get16_def nth_list_update)

lemma other_free: "free_set other_vol = {2, 3, 5}"
  by (auto simp: free_set_def other_vol_shape sample_is_clus other_nxt)

lemma other_view: "clus_view sample_disk other_vol 4 = copy_into (zeros 512) 0 [1, 2, 3]"
proof -
  let ?v = "sample_vol\<lparr>fat1 := other_table\<rparr>"
  have g: "geom_ok sample_disk ?v" using sample_geom by (simp add: geom_ok_def in_image_def sec_bytes_def cluster_bytes_def)
  have c: "is_clus ?v 4" "cluster_bytes ?v = 512"
    by (simp_all add: is_clus_def cluster_bytes_def sample_vol_def sample_bpb_def)
  show ?thesis unfolding other_vol_def using readCluster_writeCluster [OF g c(1) c(1)] c(2) by simp
qed

lemma other_holds: "holds_file sample_disk other_vol [4] [1, 2, 3]"
proof -
  have "chain_ok other_vol [4]"
    by (simp add: chain_ok_def other_nxt isEOC_def other_vol_shape sample_is_clus) (simp add: sample_bpb_def eoc_min_def)
  then show ?thesis using other_view
    by (simp add: holds_file_def clusters_needed_def data_chunk_def cluster_bytes_def other_vol_shape) (simp add: sample_bpb_def sub_def)
qed

lemma other_write_ok:
  "file_chain other_vol (cluster sample_entry) []" "entry_home other_vol sample_entry"
  "dirCluster sample_entry \<notin> set []" "dirCluster sample_entry \<notin> free_set other_vol"
  "clusters_needed other_vol sample_data \<le> length [] + card (free_set other_vol)"
  by (simp_all add: file_chain_def sample_entry_def sample_data_def entry_home_def in_root_def other_vol_shape sample_bpb_def
      sec_bytes_def other_free clusters_needed_def)

lemma other_place:
  "entry_home other_vol other_entry" "record_safe other_vol sample_entry other_entry" "dirCluster other_entry \<notin> set []"
  "dirCluster other_entry \<notin> free_set other_vol"
proof -
  have "firstSec v 4 = 5" if "v_b v = sample_bpb" for v by (simp add: firstSec_def that sample_bpb_def)
  then have "map_of (dirty other_vol) 2 = None"
    by (simp add: other_vol_def writeCluster_def sample_vol_def sample_bpb_def stage_def update_conv')
  then show "record_safe other_vol sample_entry other_entry"
    by (simp add: record_safe_def root_sector_def apart_def other_vol_shape sample_entry_def other_entry_def sample_bpb_def)
qed (simp_all add: other_free entry_home_def in_root_def other_vol_shape sample_bpb_def sec_bytes_def other_entry_def sample_entry_def)

theorem writeFileData_frame_witness:
  "\<exists>v' e'. writeFileData sample_disk sample_time sample_data (other_vol, sample_entry) = (Inr (), v', e') \<and>
     readAllClusters sample_disk v' other_entry = Inr [1, 2, 3] \<and>
     dir_record sample_disk v' other_entry = dir_record sample_disk other_vol other_entry"
proof -
  have e: "cluster other_entry = hd [4]" "fsize other_entry = of_nat (length [1, 2, 3 :: u8])" by (simp_all add: other_entry_def)
  have d: "set [4] \<inter> set [] = {}" "dirCluster sample_entry \<notin> set [4 :: u32]" "length [1, 2, 3 :: u8] < 2 ^ 32" by (simp_all add: sample_entry_def)
  show ?thesis
    using writeFileData_frame [OF other_fat_ok other_geom other_write_ok(1) sample_write_ok(2) other_write_ok(2-5) other_holds d e other_place,
        of sample_time] by blast
qed

subsection \<open>The table\<close>

text \<open>
  C13. The file allocation table is an array for each of the three entry widths: an entry that
  was set reads back as the value cut to the width of an entry, and every other entry -- in FAT12
  also the one that shares a byte with it -- reads as before.
\<close>

theorem fat_get_after_set:
  assumes "in_fat ty t n" "in_fat ty t m"
  shows "\<exists>t'. fat_set ty t n x = Inr t' \<and> length t' = length t \<and>
    fat_get ty t' m = (if m = n then Inr (take_bit (case ty of FAT12 \<Rightarrow> 12 | FAT16 \<Rightarrow> 16 | _ \<Rightarrow> 28) x) else fat_get ty t m)"
proof -
  obtain t' where t': "fat_set ty t n x = Inr t'" using fat_set_ok [OF assms(1)] by blast
  have b: "ent_bits ty = (case ty of FAT12 \<Rightarrow> 12 | FAT16 \<Rightarrow> 16 | _ \<Rightarrow> 28)" by (cases ty) (simp_all add: ent_bits_def)
  show ?thesis
    using t' fat_set_length [OF assms(1) t'] fat_get_set [OF assms t'] unfolding b [symmetric]
    by (intro exI [of _ t'] conjI) (simp_all add: fat_mask_def)
qed

theorem fat_get_after_set_witness:
  "\<exists>t'. fat_set FAT12 (zeros 512) 3 0x7ABC = Inr t' \<and> fat_get FAT12 t' 3 = Inr 0xABC \<and> fat_get FAT12 t' 2 = Inr 0"
proof -
  have i: "in_fat FAT12 (zeros 512) 3" "in_fat FAT12 (zeros 512) 2" by (simp_all add: in_fat_def ent_width_def ent_bits_def)
  have z: "fat_get FAT12 (zeros 512) 2 = Inr 0" by (simp add: fat_get_def slice_ok_def get16_def)
  show ?thesis
    using fat_get_after_set [OF i(1) i(1), of "0x7ABC"] fat_get_after_set [OF i(1) i(2), of "0x7ABC"] z
    by (auto simp: take_bit_eq_mask mask_eq_exp_minus_1)
qed

text \<open>
  C16. Allocation is first fit: it takes the lowest free cluster, marks it as the end of a chain
  and changes no other entry; it fails only when no cluster of the volume is free, and then
  leaves the volume as it was.
\<close>

theorem allocCluster_first_fit:
  assumes "fat_ok v"
  shows "(\<exists>n v'. allocCluster v = (Inr n, v') \<and> is_clus v n \<and> nxt v n = 0 \<and>
      (\<forall>m. is_clus v m \<longrightarrow> m < n \<longrightarrow> nxt v m \<noteq> 0) \<and> isEOC v' (nxt v' n) \<and>
      (\<forall>m. is_clus v m \<longrightarrow> m \<noteq> n \<longrightarrow> nxt v' m = nxt v m)) \<or>
    (allocCluster v = (Inl (Err ''fat32: disk full''), v) \<and> (\<forall>n. is_clus v n \<longrightarrow> nxt v n \<noteq> 0))"
  using assms
proof (cases rule: allocCluster_cases)
  case (1 n v')
  then show ?thesis using eoc_mask(2) [of v] fat_change_keeps(8) [OF 1(3)]
    by (intro disjI1 exI [of _ n] exI [of _ v']) (auto simp: first_free_def leD)
next
  case 2
  then show ?thesis by blast
qed

theorem allocCluster_first_fit_witness:
  "\<exists>v'. allocCluster sample_vol = (Inr 2, v') \<and> isEOC v' (nxt v' 2)"
proof -
  have f: "is_clus sample_vol 2" "nxt sample_vol 2 = 0" using sample_free by (auto simp: free_set_def)
  have low: "\<not> (2 :: u32) < n \<Longrightarrow> n \<in> {2, 3, 4, 5} \<Longrightarrow> n = 2" for n by auto
  from allocCluster_first_fit [OF sample_fat_ok] obtain n v' where
    n: "allocCluster sample_vol = (Inr n, v')" "is_clus sample_vol n" "isEOC v' (nxt v' n)"
      "\<forall>m. is_clus sample_vol m \<longrightarrow> m < n \<longrightarrow> nxt sample_vol m \<noteq> 0" using f by blast
  have "n = 2" using n(2,4) f low [of n] by (auto simp: sample_is_clus)
  with n show ?thesis by blast
qed

text \<open>
  C14. Walking a chain returns its clusters in order, within the bound of the walk, and freeing
  it makes exactly its clusters free: no other entry of the table changes.
\<close>

theorem chain_walk_and_free:
  assumes "fat_ok v" "chain_ok v cs"
  shows "clusterChain v (hd cs) = Inr cs \<and>
    (\<exists>v'. freeChain (hd cs) v = (Inr (), v') \<and> dirty v' = dirty v \<and>
       (\<forall>m. is_clus v m \<longrightarrow> nxt v' m = (if m \<in> set cs then 0 else nxt v m)))"
proof -
  obtain v' where "freeChain (hd cs) v = (Inr (), v')" "fat_change v v'"
    "\<forall>m. is_clus v m \<longrightarrow> nxt v' m = (if m \<in> set cs then 0 else nxt v m)"
    using freeChain_ok_aux [OF assms] by blast
  then show ?thesis using clusterChain_ok_aux [OF assms] fat_change_keeps(2) by blast
qed

definition chain_vol :: fatvol where
  "chain_vol = sample_vol\<lparr>fat1 := (zeros 512)[3 := 3, 4 := 0xF0, 5 := 0xFF]\<rparr>"

lemma chain_vol_ok: "fat_ok chain_vol" "chain_ok chain_vol [2, 3]"
proof -
  show "fat_ok chain_vol" using sample_fat_ok by (simp add: fat_ok_def chain_vol_def sample_vol_def)
  have "nxt chain_vol 2 = 3" "nxt chain_vol 3 = 0xFFF"
    by (simp_all add: nxt_def fatEntry_def fat_get_def chain_vol_def sample_vol_def sample_bpb_def slice_ok_def get16_def)
  moreover have "is_clus chain_vol = is_clus sample_vol" by (simp add: is_clus_def chain_vol_def fun_eq_iff)
  ultimately show "chain_ok chain_vol [2, 3]"
    by (simp add: chain_ok_def sample_is_clus isEOC_def) (simp add: chain_vol_def sample_vol_def sample_bpb_def eoc_min_def)
qed

theorem chain_walk_and_free_witness:
  "clusterChain chain_vol 2 = Inr [2, 3] \<and> (\<exists>v'. freeChain 2 chain_vol = (Inr (), v') \<and> nxt v' 3 = 0)"
  using chain_walk_and_free [OF chain_vol_ok] chain_vol_ok(2) by (auto simp: chain_ok_def)

text \<open>
  C15. Freeing ends on every table whose links stay inside the volume, also where a damaged chain
  runs in a circle or into another chain: it succeeds, it only ever frees clusters, and the first
  cluster is free afterwards.
\<close>

theorem freeChain_terminates:
  assumes "fat_ok v" "closed_table v" "is_clus v first"
  shows "\<exists>v'. freeChain first v = (Inr (), v') \<and> dirty v' = dirty v \<and> nxt v' first = 0 \<and>
    (\<forall>m. is_clus v m \<longrightarrow> nxt v m = 0 \<longrightarrow> nxt v' m = 0)"
proof -
  have f2: "\<not> first < 2" using assms(3) by (rule clus_ge2)
  obtain v' where v': "freeChain first v = (Inr (), v')" "fat_change v v'" "used v' \<subseteq> used v - {first}"
    using freeChain_ends_aux [OF assms(1,2), of first] assms(3) f2 by auto
  have u: "nxt v' m = 0" if "is_clus v m" "m \<notin> used v - {first}" for m
    using that v'(3) fat_change_keeps(7) [OF v'(2)] by (auto simp: used_def)
  have "nxt v' first = 0" using u [OF assms(3)] by simp
  moreover have "nxt v' m = 0" if "is_clus v m" "nxt v m = 0" for m using u [OF that(1)] that(2) by (simp add: used_def)
  ultimately show ?thesis using v'(1) fat_change_keeps(2) [OF v'(2)] by blast
qed

text \<open>Clusters 2 and 3 point at each other.\<close>

definition loop_vol :: fatvol where
  "loop_vol = sample_vol\<lparr>fat1 := (zeros 512)[3 := 3, 4 := 0x20]\<rparr>"

lemma loop_vol_ok: "fat_ok loop_vol" "closed_table loop_vol" "is_clus loop_vol 2"
proof -
  have c: "is_clus loop_vol = is_clus sample_vol" by (simp add: is_clus_def loop_vol_def fun_eq_iff)
  have n: "nxt loop_vol 2 = 3" "nxt loop_vol 3 = 2" "nxt loop_vol 4 = 0" "nxt loop_vol 5 = 0"
    by (simp_all add: nxt_def fatEntry_def fat_get_def loop_vol_def sample_vol_def sample_bpb_def slice_ok_def get16_def)
  show "fat_ok loop_vol" using sample_fat_ok by (simp add: fat_ok_def loop_vol_def sample_vol_def)
  show "closed_table loop_vol" by (auto simp: closed_table_def c sample_is_clus n)
  show "is_clus loop_vol 2" by (simp add: c sample_is_clus)
qed

theorem freeChain_terminates_witness: "\<exists>v'. freeChain 2 loop_vol = (Inr (), v') \<and> nxt v' 2 = 0"
  using freeChain_terminates [OF loop_vol_ok] by blast

text \<open>
  C17. Clusters are a memory: a cluster that was written reads back as written, and every other
  cluster reads as before.
\<close>

theorem readCluster_after_writeCluster:
  assumes "geom_ok f v" "is_clus v n" "is_clus v m" "length d = unat (clusterSize (v_b v))"
  shows "readCluster f (writeCluster n d v) m = (if m = n then Inr d else readCluster f v m)"
proof -
  have g: "geom_ok f (writeCluster n d v)" using assms(1) by (rule geom_writeCluster)
  have "is_clus (writeCluster n d v) m" using assms(3) by (simp add: is_clus_def)
  then show ?thesis
    using readCluster_view [OF g] readCluster_view [OF assms(1,3)] readCluster_writeCluster [OF assms(1-3)] assms(4)
    by (simp add: cluster_bytes_def)
qed

theorem readCluster_after_writeCluster_witness:
  "readCluster sample_disk (writeCluster 3 (replicate 512 9) sample_vol) 3 = Inr (replicate 512 9)"
  using readCluster_after_writeCluster [OF sample_geom, of 3 3 "replicate 512 9"]
  by (simp add: sample_is_clus sample_vol_def sample_bpb_def) (simp add: sample_is_clus [unfolded sample_vol_def sample_bpb_def])

text \<open>
  C24. \<open>StatFS\<close> accounts for every cluster: it reports as free exactly the clusters the allocator
  would hand out, and free and used bytes add up to the total.
\<close>

theorem StatFS_accounts:
  assumes "fat_ok v"
  shows "\<exists>s. StatFS v = Inr s \<and> FreeBytes s = int (card {n. is_clus v n \<and> nxt v n = 0}) * int (unat (clusterSize (v_b v))) \<and>
    FreeBytes s + UsedBytes s = TotalBytes s \<and> 0 \<le> UsedBytes s"
proof -
  let ?fs = "filter (\<lambda>n. nxt v n = 0) (clusters v)"
  have c: "count_free v (clusters v) = Inr (length ?fs)"
    using count_free_eq [OF assms] set_clusters [OF assms] by blast
  have "distinct (clusters v)" using sorted_clusters [OF assms] by (metis strict_sorted_iff)
  then have l: "length ?fs = card {n. is_clus v n \<and> nxt v n = 0}"
    using distinct_card [of ?fs] set_clusters [OF assms] by (simp add: Collect_conj_eq Int_commute)
  have "length ?fs \<le> unat (cntClusters (v_b v))"
    using length_filter_le [of "\<lambda>n. nxt v n = 0" "clusters v"] by (simp add: clusters_def unat_cnt2 [OF assms] del: upt_Suc)
  then have "int (length ?fs) \<le> uint (cntClusters (v_b v))" by (metis of_nat_le_iff of_nat_unat)
  then have "uint (clusterSize (v_b v)) * int (length ?fs) \<le> uint (clusterSize (v_b v)) * uint (cntClusters (v_b v))"
    by (intro mult_left_mono) simp_all
  then show ?thesis by (simp add: StatFS_def c Let_def l [symmetric] algebra_simps)
qed

theorem StatFS_accounts_witness: "\<exists>s. StatFS sample_vol = Inr s \<and> FreeBytes s = 2048"
proof -
  have "card {n. is_clus sample_vol n \<and> nxt sample_vol n = 0} = 4"
    using sample_free by (simp add: free_set_def)
  moreover have "unat (clusterSize (v_b sample_vol)) = 512" by (simp add: sample_vol_def sample_bpb_def)
  ultimately show ?thesis using StatFS_accounts [OF sample_fat_ok] by auto
qed

subsection \<open>Persistence\<close>

text \<open>
  C6. Unmounting and mounting again loses nothing: the flush succeeds, keeps the length of the
  image, and \<open>Open\<close> rebuilds the same volume from it, with nothing staged, the same table and the
  same contents of every cluster -- in whatever order the map of staged sectors is walked.  Every sector
  behind the tables is the same too, staged or not, those of the fixed FAT12/16 root directory included.
\<close>

theorem remount_same_volume:
  assumes "flush_ok f v" "map_order ord" "opened_from f sz v" "geom_ok f v"
  shows "\<exists>f' v'. Unmount ord f v = (Inr (), f', v') \<and> \<not> v_rw v' \<and> fat_Open f' (v_start v) sz ft = Inr (v\<lparr>dirty := []\<rparr>) \<and>
    length (contents f') = length (contents f) \<and>
    (\<forall>n. is_clus v n \<longrightarrow> readCluster f' (v\<lparr>dirty := []\<rparr>) n = readCluster f v n) \<and>
    (\<forall>s. meta_secs v \<le> unat s \<and> base v + (unat s + 1) * sec_bytes v \<le> length (contents f) \<longrightarrow>
       sector_view f' (v\<lparr>dirty := []\<rparr>) s = sector_view f v s)"
  using remount_aux [OF assms, of ft] by auto

lemma other_flush_ok: "flush_ok sample_disk other_vol" "opened_from sample_disk 3584 other_vol"
proof -
  have d: "dirty other_vol = [(5, copy_into (zeros 512) 0 [1, 2, 3])]"
    by (simp add: other_vol_def writeCluster_def stage_def firstSec_def sample_vol_def sample_bpb_def sub_def)
  have sv: "v_start other_vol = 0" "v_sr other_vol = \<lparr>sec_base = 0, sec_limit = 3584\<rparr>" "v_rw other_vol" "v_ft other_vol = FAT12"
    by (simp_all add: other_vol_def sample_vol_def writeCluster_def)
  show "flush_ok sample_disk other_vol"
    by (simp add: flush_ok_def d sv other_vol_shape sec_bytes_def fat_len_def meta_secs_def base_def other_table_def)
       (simp add: sample_bpb_def sample_disk_def)
  have "readBPB sample_disk \<lparr>sec_base = 0, sec_limit = 3584\<rparr> = Inr sample_bpb"
    using sample_open [of FAT12] by (auto simp: fat_Open_def NewSectionReader_def Let_def sample_vol_def)
  then show "opened_from sample_disk 3584 other_vol"
    by (simp add: opened_from_def sv other_vol_shape NewSectionReader_def meta_secs_def sec_bytes_def sec_size_def) (simp add: sample_bpb_def)
qed

lemma rev_order: "map_order rev"
  by (simp add: map_order_def)

theorem remount_same_volume_witness:
  "\<exists>f' v'. Unmount rev sample_disk other_vol = (Inr (), f', v') \<and> fat_Open f' 0 3584 FAT12 = Inr (other_vol\<lparr>dirty := []\<rparr>) \<and>
     readCluster f' (other_vol\<lparr>dirty := []\<rparr>) 4 = Inr (copy_into (zeros 512) 0 [1, 2, 3])"
proof -
  have "is_clus other_vol 4" by (simp add: other_vol_shape sample_is_clus)
  moreover have "readCluster sample_disk other_vol 4 = Inr (copy_into (zeros 512) 0 [1, 2, 3])"
    using readCluster_view [OF other_geom \<open>is_clus other_vol 4\<close>] other_view by simp
  moreover have "v_start other_vol = 0" by (simp add: other_vol_def sample_vol_def writeCluster_def)
  ultimately show ?thesis
    using remount_same_volume [OF other_flush_ok(1) rev_order other_flush_ok(2) other_geom, of FAT12] by fastforce
qed

end
