(* ===== verification/FatDirScan.thy ===== *)
theory FatDirScan
  imports FatFileData FatNames
begin

text \<open>
  A directory of one cluster whose used records come first: what \<open>readDirFromCluster\<close> reads of it,
  where \<open>appendEntryToDir\<close> stores an entry, and what \<open>removeDirEntry\<close> leaves of one.
\<close>

subsection \<open>Scanning a buffer\<close>

definition compact :: "bytes \<Rightarrow> nat \<Rightarrow> bool" where
  "compact buf i \<longleftrightarrow> 32 * i \<le> length buf \<and> (\<forall>k < i. \<not> slot_free buf k) \<and>
     (\<forall>k. i \<le> k \<and> 32 * k + 32 \<le> length buf \<longrightarrow> buf ! (32 * k) = 0)"

definition ends_at :: "bytes \<Rightarrow> nat \<Rightarrow> bool" where
  "ends_at buf k \<longleftrightarrow> (k * 32 + 32 \<le> length buf \<longrightarrow> buf ! (k * 32) = 0)"

lemma process_all_end: "ends_at buf k \<Longrightarrow> entries (fst (process_all buf c k s)) = entries s"
  by (subst process_all.simps) (auto simp: ends_at_def process_def)

lemma process_go: "raw ! 0 \<noteq> 0 \<Longrightarrow> snd (process raw c o' s)"
  by (auto simp: process_def Let_def split: option.split)

lemma process_all_prefix:
  assumes "i * 32 \<le> length buf" "\<forall>k < i. buf ! (k * 32) \<noteq> 0"
  shows "\<exists>s1. \<forall>b. length b = length buf \<and> take (i * 32) b = take (i * 32) buf \<longrightarrow> process_all b c 0 s = process_all b c i s1"
  using assms
proof (induction i)
  case (Suc i)
  then obtain s1 where s1: "\<forall>b. length b = length buf \<and> take (i * 32) b = take (i * 32) buf \<longrightarrow> process_all b c 0 s = process_all b c i s1"
    by fastforce
  obtain s2 where s2: "process (sub buf (i * 32) 32) c (of_nat (i * 32)) s1 = (s2, True)"
  proof -
    have "sub buf (i * 32) 32 ! 0 = buf ! (i * 32)" using Suc.prems(1) by (simp add: sub_def)
    then have "snd (process (sub buf (i * 32) 32) c (of_nat (i * 32)) s1)" using Suc.prems(2) by (intro process_go) simp
    then show ?thesis using that by (cases "process (sub buf (i * 32) 32) c (of_nat (i * 32)) s1") simp
  qed
  have "process_all b c 0 s = process_all b c (Suc i) s2" if b: "length b = length buf" "take (Suc i * 32) b = take (Suc i * 32) buf" for b
  proof -
    have "take (i * 32) (take (Suc i * 32) b) = take (i * 32) (take (Suc i * 32) buf)" using b(2) by simp
    then have p: "process_all b c 0 s = process_all b c i s1" using s1 b(1) by simp
    have "take 32 (drop (i * 32) (take (Suc i * 32) b)) = take 32 (drop (i * 32) (take (Suc i * 32) buf))" using b(2) by simp
    then have "sub b (i * 32) 32 = sub buf (i * 32) 32" by (simp add: sub_def drop_take)
    then show ?thesis unfolding p using process_all_step [of i b c s1 s2] s2 Suc.prems(1) b(1) by simp
  qed
  then show ?case by blast
qed auto

lemma scan_lfn_records:
  assumes "lfn_name_ok nm" "lfn = buildLFNEntries nm sn" "(i + length lfn) * 32 \<le> length buf"
    and "\<And>j. j < length lfn \<Longrightarrow> sub buf ((i + j) * 32) 32 = lfn ! j"
  shows "\<exists>s'. process_all buf c i s = process_all buf c (i + length lfn) s' \<and> entries s' = entries s"
proof -
  define rs where "rs = lfn_pad (runes nm)"
  define n where "n = length rs div 13"
  have l: "length (runes nm) \<le> 63 * 13" "runes nm \<noteq> []" using assms(1) unfolding lfn_name_ok_def by blast+
  note pl = lfn_pad_length [OF l(1), folded rs_def]
  have n: "length rs = n * 13" using pl by (simp add: n_def) (metis mod_0_imp_dvd dvd_div_mult_self)
  have n': "n \<le> 63" "0 < n"
  proof -
    show "n \<le> 63" using pl n by simp
    show "0 < n" using pl l(2) n by (cases n) auto
  qed
  have lfn: "length lfn = n" "\<And>j. j < n \<Longrightarrow> lfn ! j = lfn_entry rs (lfnChecksum sn) n j"
    by (simp_all add: assms(2) buildLFNEntries_def rs_def n_def Let_def)
  have b: "(i + n) * 32 \<le> length buf" using assms(3) lfn(1) by simp
  have r: "sub buf ((i + j) * 32) 32 = lfn_entry rs (lfnChecksum sn) n j" if "j < n" for j
    using assms(4) [of j] lfn that by simp
  show ?thesis using process_lfn_run [OF n n'(1) b r n'(2) order_refl, of c s] lfn(1) by auto
qed

subsection \<open>A directory of one cluster\<close>

definition one_cluster :: "gofile \<Rightarrow> fatvol \<Rightarrow> u32 \<Rightarrow> bool" where
  "one_cluster f v c \<longleftrightarrow> fat_ok v \<and> geom_ok f v \<and> is_clus v c \<and> isEOC v (nxt v c)"

lemma one_cluster_write:
  assumes "one_cluster f v c" "length d = cluster_bytes v"
  shows "one_cluster f (writeCluster c d v) c" "clus_view f (writeCluster c d v) c = d" "cluster_bytes (writeCluster c d v) = cluster_bytes v"
  using assms dirty_change_keeps [OF dirty_change_writeCluster [of v c d]] geom_writeCluster [of f v c d] readCluster_writeCluster [of f v c c d]
  by (simp_all add: one_cluster_def)

lemma one_cluster_dir:
  assumes "one_cluster f v c"
  shows "readDirFromCluster f v c = Inr (entries (fst (process_all (clus_view f v c) c 0 scan0)))"
    "readCluster f v c = Inr (clus_view f v c)" "length (clus_view f v c) = cluster_bytes v" "\<not> c < 2" "c \<noteq> 0"
proof -
  have a: "fat_ok v" "geom_ok f v" "is_clus v c" "isEOC v (nxt v c)" using assms by (auto simp: one_cluster_def)
  show c: "\<not> c < 2" "c \<noteq> 0" using a(3) by (auto simp: is_clus_def word_less_nat_alt)
  show r: "readCluster f v c = Inr (clus_view f v c)" using readCluster_view a by blast
  show "length (clus_view f v c) = cluster_bytes v" using length_clus_view a by blast
  have "chain_fuel v = Suc (length (fat1 v) + 1)" by (simp add: chain_fuel_def)
  then show "readDirFromCluster f v c = Inr (entries (fst (process_all (clus_view f v c) c 0 scan0)))"
    using a c r by (simp add: readDirFromCluster_def fatEntry_nxt split: prod.split)
qed

lemma cluster_bytes_bound: "geom_ok f v \<Longrightarrow> cluster_bytes v < 2 ^ 24"
proof -
  assume "geom_ok f v"
  then have "cluster_bytes v = unat (secPerClus (v_b v)) * sec_bytes v" by (simp add: geom_ok_def)
  moreover have "unat (secPerClus (v_b v)) < 2 ^ 8" "sec_bytes v < 2 ^ 16"
    using unsigned_less [where 'a = nat, of "secPerClus (v_b v)"] unsigned_less [where 'a = nat, of "bytesPerSec (v_b v)"] by (simp_all add: sec_bytes_def)
  then have "unat (secPerClus (v_b v)) * sec_bytes v < 2 ^ 8 * 2 ^ 16" by (intro mult_strict_mono) auto
  ultimately show ?thesis by simp
qed

lemma append_one_cluster:
  assumes "one_cluster f v c" "run_at (clus_view f v c) (length lfn + 1) i" "\<forall>k < i. \<not> slot_free (clus_view f v c) k"
    and "lfn = (if wr then buildLFNEntries (de_name e) (shortName e) else [])" "\<forall>l \<in> set lfn. length l = 32" "length (shortName e) = 11"
  shows "appendEntryToDir f c e wr v = (Inr (), writeCluster c (copy_into (clus_view f v c) (i * 32) (concat lfn @ entry_bytes e)) v)"
proof -
  let ?b = "clus_view f v c" let ?m = "length lfn + 1"
  note d = one_cluster_dir [OF assms(1)]
  have cb: "length ?b < 2 ^ 24" using d(3) cluster_bytes_bound [of f v] assms(1) by (simp add: one_cluster_def)
  have m: "32 * (i + ?m) \<le> length ?b" using assms(2) by (simp add: run_at_def)
  then have "32 * ?m < 2 ^ 32" "length ?b < 2 ^ 31" using cb by simp_all
  then have fr: "first_run ?b ?m (findFreeSlot ?b (of_nat (32 * ?m)))" by (intro findFreeSlot_first_aux) auto
  have nr: "\<not> run_at ?b ?m k" if "k < i" for k using assms(3) that by (force simp: run_at_def)
  have "findFreeSlot ?b (of_nat (32 * ?m)) = Some (32 * i)"
    using fr nr assms(2) by (cases "findFreeSlot ?b (of_nat (32 * ?m))") (auto simp: first_run_def, metis linorder_neqE_nat)
  then have sl: "findFreeSlot ?b (of_nat ((length lfn + 1) * 32)) = Some (i * 32)" by (simp only: mult.commute)
  have "slot_loop (chain_fuel v) f v (of_nat ((length lfn + 1) * 32)) c 0 = Inr (Inl (c, ?b, i * 32))"
    using d(2,4) sl by (simp add: chain_fuel_def del: of_nat_mult of_nat_add of_nat_Suc)
  moreover have "writeEntriesAt ?b (i * 32) lfn e = Inr (copy_into ?b (i * 32) (concat lfn @ entry_bytes e))"
    using m assms(5,6) by (intro writeEntriesAt_ok) auto
  ultimately show ?thesis
    using d(5) by (simp only: appendEntryToDir_def Let_def assms(4) [symmetric]) (simp add: append_chain_def bindS_def readS_def modS_def)
qed

end
