(* ===== verification/FatDirProps.thy ===== *)
theory FatDirProps
  imports FatSample FatDirScan
begin

text \<open>
  The properties of directory records, names, time stamps and file handles of the FAT driver,
  with the two behaviours of its directories that lose information: the fixed root directory
  of FAT12/16 and long-name records that outlive their entry.
\<close>

unbundle bit_operations_syntax

subsection \<open>Records\<close>

text \<open>
  C23. A directory record that was encoded into a buffer is decoded from the same place to the
  same entry, and the other bytes of the buffer stay as they were; a buffer without room for the
  record is a panic.
\<close>

theorem encodeDirEntry32_decode:
  assumes "length (shortName e) = 11"
  shows "if off + 32 \<le> length buf
    then \<exists>buf'. encodeDirEntry32 buf off e = Inr buf' \<and> length buf' = length buf \<and>
           raw_entry (sub buf' off 32) c o' = e\<lparr>de_name := [], dirCluster := c, dirOffset := o'\<rparr> \<and>
           (\<forall>i < length buf. i < off \<or> off + 32 \<le> i \<longrightarrow> buf' ! i = buf ! i)
    else encodeDirEntry32 buf off e = Inl (Panic ''slice bounds out of range'')"
proof (cases "off + 32 \<le> length buf")
  case True
  have l: "length (entry_bytes e) = 32" using assms by (rule length_entry_bytes)
  show ?thesis using True l raw_entry_bytes [OF assms]
    by (simp add: encodeDirEntry32_eq [OF True assms] nth_copy_into)
qed (simp add: encodeDirEntry32_def)

theorem encodeDirEntry32_decode_witness:
  "\<exists>buf'. encodeDirEntry32 (zeros 64) 32 sample_entry = Inr buf' \<and> raw_entry (sub buf' 32 32) 0 64 = sample_entry\<lparr>de_name := []\<rparr>"
  using encodeDirEntry32_decode [of sample_entry 32 "zeros 64" 0 64] by (auto simp: sample_entry_def)

text \<open>
  C18. An entry written together with the long-name records of its name is scanned back as one
  entry under exactly that name, for every name of up to 819 code points of the basic plane.
\<close>

theorem long_name_round_trip:
  assumes "live_entry e" "lfn_name_ok (de_name e)" "lfn = buildLFNEntries (de_name e) (shortName e)"
    and "(i + length lfn) * 32 + 32 \<le> length buf"
  shows "\<exists>buf' s'. writeEntriesAt buf (i * 32) lfn e = Inr buf' \<and>
    process_all buf' c i s = process_all buf' c (i + length lfn + 1) s' \<and>
    entries s' = entries s @ [e\<lparr>dirCluster := c, dirOffset := of_nat ((i + length lfn) * 32)\<rparr>]"
proof -
  obtain buf' s' where "writeEntriesAt buf (i * 32) lfn e = Inr buf'"
    "process_all buf' c i s = process_all buf' c (i + length lfn + 1) s'"
    "entries s' = entries s @ [e\<lparr>de_name := de_name e, dirCluster := c, dirOffset := of_nat ((i + length lfn) * 32)\<rparr>]"
    using scan_written_entry [OF assms, of c s] by metis
  then show ?thesis by (cases e) auto
qed

definition long_entry :: fatDirEntry where
  "long_entry = sample_entry\<lparr>de_name := bs ''Notes.markdown'', shortName := bs ''NOTES~1 MAR''\<rparr>"

lemma ascii_runes: "list_all (\<lambda>b. b < 0x80) s \<Longrightarrow> runes s = map unat s"
proof -
  have "decode_nats ns = ns" if "\<forall>n \<in> set ns. n < 0x80" for ns
    using that by (induction ns rule: decode_nats.induct) (auto simp: decode_rune_def)
  moreover assume "list_all (\<lambda>b. b < 0x80) s"
  then have "\<forall>n \<in> set (map unat s). n < 0x80" by (auto simp: list_all_iff word_less_nat_alt)
  ultimately show ?thesis by (simp add: runes_def)
qed

lemma ascii_str: "list_all (\<lambda>b. b < 0x80) s \<Longrightarrow> str (map unat s) = s"
  by (induction s) (auto simp: str_def encode_rune_def valid_rune_def word_less_nat_alt)

lemma long_entry_ok: "live_entry long_entry" "lfn_name_ok (de_name long_entry)"
proof -
  show "live_entry long_entry"
    by (simp add: live_entry_def long_entry_def sample_entry_def attrArchive_def attrLFN_def attrVolumeID_def)
  have a: "list_all (\<lambda>b. b < 0x80) (de_name long_entry)" by (simp add: long_entry_def)
  have "list_all (\<lambda>r. valid_rune r \<and> r < 0x10000 \<and> r \<noteq> 0 \<and> r \<noteq> 0xFFFF) (map unat (de_name long_entry))"
    by (simp add: long_entry_def valid_rune_def)
  moreover have "length (map unat (de_name long_entry)) \<le> 63 * 13" "map unat (de_name long_entry) \<noteq> []"
    by (simp_all add: long_entry_def)
  ultimately show "lfn_name_ok (de_name long_entry)"
    unfolding lfn_name_ok_def ascii_runes [OF a] ascii_str [OF a] by blast
qed

lemma long_entry_records: "length (buildLFNEntries (de_name long_entry) sn) = 2"
proof -
  have a: "list_all (\<lambda>b. b < 0x80) (de_name long_entry)" by (simp add: long_entry_def)
  show ?thesis by (simp add: buildLFNEntries_def Let_def ascii_runes [OF a] lfn_pad_def) (simp add: long_entry_def)
qed

theorem long_name_round_trip_witness:
  "\<exists>buf' s'. writeEntriesAt (zeros 512) 64 (buildLFNEntries (de_name long_entry) (shortName long_entry)) long_entry = Inr buf' \<and>
     process_all buf' 0 2 scan0 = process_all buf' 0 5 s' \<and> map de_name (entries s') = [bs ''Notes.markdown'']"
proof -
  let ?l = "buildLFNEntries (de_name long_entry) (shortName long_entry)"
  note n = long_entry_records [of "shortName long_entry"]
  obtain buf' s' where w: "writeEntriesAt (zeros 512) (2 * 32) ?l long_entry = Inr buf'"
    "process_all buf' 0 2 scan0 = process_all buf' 0 (2 + length ?l + 1) s'"
    "entries s' = entries scan0 @ [long_entry\<lparr>dirCluster := 0, dirOffset := of_nat ((2 + length ?l) * 32)\<rparr>]"
    using long_name_round_trip [OF long_entry_ok refl, of 2 "zeros 512" 0 scan0] n by auto
  have "de_name long_entry = bs ''Notes.markdown''" by (simp add: long_entry_def)
  then have "map de_name (entries s') = [bs ''Notes.markdown'']" using w(3) by (simp add: scan0_def)
  then show ?thesis using w(1,2) n by (intro exI [of _ buf'] exI [of _ s']) simp
qed

text \<open>
  The three buffers: with the entry and its long-name records, with the entry marked deleted, and
  with the second entry in its place.
\<close>

lemma deleted_name_buffers:
  assumes "live_entry e" "lfn_name_ok nm" "lfn = buildLFNEntries nm (shortName e)" "live_entry e2"
    and "compact buf i" "K = i + length lfn" "K * 32 + 32 \<le> length buf"
    and "b1 = copy_into buf (i * 32) (concat lfn @ entry_bytes e)" "b2 = put8 b1 (K * 32) 0xE5" "b3 = copy_into b2 (K * 32) (entry_bytes e2)"
  shows "\<exists>es. entries (fst (process_all buf c 0 scan0)) = es \<and>
      entries (fst (process_all b1 c 0 scan0)) = es @ [e\<lparr>de_name := nm, dirCluster := c, dirOffset := of_nat (K * 32)\<rparr>] \<and>
      entries (fst (process_all b2 c 0 scan0)) = es \<and>
      entries (fst (process_all b3 c 0 scan0)) = es @ [e2\<lparr>de_name := nm, dirCluster := c, dirOffset := of_nat (K * 32)\<rparr>]"
    "run_at b2 1 K" "\<forall>k < K. \<not> slot_free b2 k"
proof -
  have l: "\<forall>l \<in> set lfn. length l = 32" using length_LFN assms(2,3) by blast
  have sn: "length (shortName e) = 11" "length (shortName e2) = 11" using assms(1,4) by (simp_all add: live_entry_def)
  note lb = length_entry_bytes [OF sn(1)] length_entry_bytes [OF sn(2)] length_concat32 [OF l]
  have K: "K * 32 = i * 32 + length lfn * 32" by (simp add: assms(6))
  have ln: "length b1 = length buf" "length b2 = length buf" "length b3 = length buf" by (simp_all add: assms(8-10))
  have cp: "\<forall>k < i. \<not> slot_free buf k" "\<forall>k. i \<le> k \<and> 32 * k + 32 \<le> length buf \<longrightarrow> buf ! (32 * k) = 0"
    using assms(5) by (auto simp: compact_def)
  have i32: "i * 32 \<le> length buf" using assms(7) K by simp
  have head: "\<forall>k < i. buf ! (k * 32) \<noteq> 0" using cp(1) by (auto simp: slot_free_def mult.commute)
  obtain s1 where s1: "\<forall>b. length b = length buf \<and> take (i * 32) b = take (i * 32) buf \<longrightarrow> process_all b c 0 scan0 = process_all b c i s1"
    using process_all_prefix [OF i32 head] by blast
  have pre: "take (i * 32) b = take (i * 32) buf" if "b \<in> {b1, b2, b3}" for b
    using that assms(7) lb K ln by (intro nth_equalityI) (auto simp: assms(8-10) put8_def nth_copy_into nth_list_update)
  have start: "process_all b c 0 scan0 = process_all b c i s1" if "b \<in> {buf, b1, b2, b3}" for b
    using s1 pre [of b] that ln by auto
  have "buf ! (32 + (i * 32 + length lfn * 32)) = 0" if "64 + (i * 32 + length lfn * 32) \<le> length buf"
    using cp(2) that assms(6) by (auto simp: algebra_simps dest!: spec [of _ "Suc K"])
  then have tail: "ends_at b (K + 1)" if "b \<in> {b1, b2, b3}" for b
    using that assms(7) cp(2) lb K ln by (auto simp: ends_at_def assms(8-10) put8_def nth_copy_into nth_list_update)
  have rec: "sub b ((i + j) * 32) 32 = lfn ! j" if "j < length lfn" "b \<in> {b1, b2, b3}" for j b
  proof -
    have j: "j * 32 + 32 \<le> length lfn * 32" using that(1) by simp
    have "sub b ((i + j) * 32) 32 = sub b1 ((i + j) * 32) 32"
      using that(2) j assms(7) lb K ln by (intro sub_eqI) (auto simp: assms(9,10) put8_def nth_copy_into)
    also have "\<dots> = sub (concat lfn @ entry_bytes e) (j * 32) 32"
      unfolding assms(8) using j assms(7) lb K by (subst sub_copy_inner) (auto simp: algebra_simps)
    also have "\<dots> = lfn ! j" using sub_concat32 [OF l that(1)] .
    finally show ?thesis .
  qed
  have last1: "sub b1 ((i + length lfn) * 32) 32 = entry_bytes e"
    unfolding assms(8) using assms(7) lb K by (subst sub_copy_inner) (auto simp: sub_def)
  have last3: "sub b3 ((i + length lfn) * 32) 32 = entry_bytes e2"
    unfolding assms(10) assms(6) [symmetric] using assms(7) lb ln by simp
  show "\<exists>es. entries (fst (process_all buf c 0 scan0)) = es \<and>
      entries (fst (process_all b1 c 0 scan0)) = es @ [e\<lparr>de_name := nm, dirCluster := c, dirOffset := of_nat (K * 32)\<rparr>] \<and>
      entries (fst (process_all b2 c 0 scan0)) = es \<and>
      entries (fst (process_all b3 c 0 scan0)) = es @ [e2\<lparr>de_name := nm, dirCluster := c, dirOffset := of_nat (K * 32)\<rparr>]"
  proof (intro exI conjI)
    have "ends_at buf i" using cp(2) by (auto simp: ends_at_def mult.commute)
    then show "entries (fst (process_all buf c 0 scan0)) = entries s1" using start [of buf] by (simp add: process_all_end)
    obtain t1 where "process_all b1 c i s1 = process_all b1 c (K + 1) t1" "entries t1 = entries s1 @ [e\<lparr>de_name := nm, dirCluster := c, dirOffset := of_nat (K * 32)\<rparr>]"
      using scan_named_entry [OF assms(1-3) _ rec last1, of c s1] assms(6,7) ln by auto
    then show "entries (fst (process_all b1 c 0 scan0)) = entries s1 @ [e\<lparr>de_name := nm, dirCluster := c, dirOffset := of_nat (K * 32)\<rparr>]"
      using start [of b1] process_all_end [OF tail [of b1]] by simp
    obtain t3 where "process_all b3 c i s1 = process_all b3 c (K + 1) t3" "entries t3 = entries s1 @ [e2\<lparr>de_name := nm, dirCluster := c, dirOffset := of_nat (K * 32)\<rparr>]"
      using scan_named_entry [OF assms(4,2,3) _ rec last3, of c s1] assms(6,7) ln by auto
    then show "entries (fst (process_all b3 c 0 scan0)) = entries s1 @ [e2\<lparr>de_name := nm, dirCluster := c, dirOffset := of_nat (K * 32)\<rparr>]"
      using start [of b3] process_all_end [OF tail [of b3]] by simp
    obtain t2 where t2: "process_all b2 c i s1 = process_all b2 c K t2" "entries t2 = entries s1"
      using scan_lfn_records [OF assms(2,3) _ rec, of b2 c s1] assms(6,7) ln by auto
    have "sub b2 (K * 32) 32 ! 0 = 0xE5" using assms(7) ln by (simp add: assms(9) put8_def)
    then have "process (sub b2 (K * 32) 32) c (of_nat (K * 32)) t2 = (t2\<lparr>lfnParts := None, lfnSeq := 0\<rparr>, True)" by (simp add: process_def)
    then have "process_all b2 c K t2 = process_all b2 c (K + 1) (t2\<lparr>lfnParts := None, lfnSeq := 0\<rparr>)"
      using process_all_step [of K b2 c t2] assms(7) ln by simp
    then show "entries (fst (process_all b2 c 0 scan0)) = entries s1"
      using start [of b2] t2 process_all_end [OF tail [of b2]] by simp
  qed
  show "run_at b2 1 K" using assms(7) ln by (simp add: run_at_def slot_free_def assms(9) put8_def mult.commute)
  have "\<not> slot_free b2 k" if "k < K" for k
  proof (cases "k < i")
    case True
    then have "b2 ! (32 * k) = buf ! (32 * k)" using assms(7) K lb by (simp add: assms(8,9) put8_def nth_copy_into nth_list_update)
    then show ?thesis using cp(1) True by (simp add: slot_free_def)
  next
    case False
    define j where "j = k - i"
    then have j: "k = i + j" using False by simp
    then have jl: "j < length lfn" using that assms(6) by simp
    have "k * 32 + 32 \<le> length b2" using assms(7) K ln jl unfolding j by simp
    then have "sub b2 (k * 32) 32 ! 0 = b2 ! (k * 32)" by (simp add: sub_def)
    then have "b2 ! (k * 32) = lfn ! j ! 0" using rec [OF jl, of b2] j by simp
    moreover have "lfn ! j \<in> set (buildLFNEntries nm (shortName e))" using jl assms(3) by simp
    ultimately show ?thesis using LFN_head [OF assms(2)] by (simp add: slot_free_def mult.commute)
  qed
  then show "\<forall>k < K. \<not> slot_free b2 k" by blast
qed

lemma find_snoc: "find P xs = None \<Longrightarrow> P y \<Longrightarrow> find P (xs @ [y]) = Some y"
  by (induction xs) (auto split: if_splits)

text \<open>
  C19. A deleted long name comes back.  In a directory of one cluster whose used records come first,
  with room for the records: an entry with a long name is added, and the directory reads with it;
  removing it by its name takes it out of the listing, but only its short record is marked; and the
  next entry, added without long-name records, goes to the marked record and is read under the
  deleted entry's long name, because the scanner never compares the checksum in the records left.
\<close>

theorem deleted_long_name_returns:
  assumes "one_cluster f v c" "compact (clus_view f v c) i" "lfn = buildLFNEntries (de_name e) (shortName e)"
    and "(i + length lfn) * 32 + 32 \<le> cluster_bytes v" "live_entry e" "lfn_name_ok (de_name e)" "live_entry e2"
    and "readDirFromCluster f v c = Inr es" "find_name U (de_name e) es = None" "o' = of_nat ((i + length lfn) * 32)"
  shows "\<exists>v1 v2 v3. appendEntryToDir f c e True v = (Inr (), v1) \<and> readDirFromCluster f v1 c = Inr (es @ [e\<lparr>dirCluster := c, dirOffset := o'\<rparr>]) \<and>
    removeDirEntry U f c (de_name e) v1 = (Inr (), v2) \<and> readDirFromCluster f v2 c = Inr es \<and>
    appendEntryToDir f c e2 False v2 = (Inr (), v3) \<and>
    readDirFromCluster f v3 c = Inr (es @ [e2\<lparr>de_name := de_name e, dirCluster := c, dirOffset := o'\<rparr>])"
proof -
  let ?K = "i + length lfn" let ?buf = "clus_view f v c"
  define b1 where "b1 = copy_into ?buf (i * 32) (concat lfn @ entry_bytes e)"
  define b2 where "b2 = put8 b1 (?K * 32) 0xE5"
  define b3 where "b3 = copy_into b2 (?K * 32) (entry_bytes e2)"
  note d = one_cluster_dir [OF assms(1)]
  have sz: "?K * 32 + 32 \<le> length ?buf" using assms(4) d(3) by simp
  note B = deleted_name_buffers [OF assms(5,6,3,7,2) refl sz b1_def b2_def b3_def]
  have es: "es = entries (fst (process_all ?buf c 0 scan0))" using assms(8) d(1) by simp
  have ln: "length b1 = cluster_bytes v" "length b2 = cluster_bytes v" "length b3 = cluster_bytes v" using d(3) by (simp_all add: b1_def b2_def b3_def)
  define v1 where "v1 = writeCluster c b1 v"
  define v2 where "v2 = writeCluster c b2 v1"
  define v3 where "v3 = writeCluster c b3 v2"
  note w1 = one_cluster_write [OF assms(1) ln(1), folded v1_def]
  note w2 = one_cluster_write [OF w1(1), of b2, folded v2_def, unfolded w1(3), OF ln(2)]
  note w3 = one_cluster_write [OF w2(1), of b3, folded v3_def, unfolded w2(3), OF ln(3)]
  have l: "\<forall>l \<in> set lfn. length l = 32" using length_LFN assms(3,6) by blast
  have sn: "length (shortName e) = 11" "length (shortName e2) = 11" using assms(5,7) by (simp_all add: live_entry_def)
  have free: "run_at ?buf (length lfn + 1) i" "\<forall>k < i. \<not> slot_free ?buf k"
  proof -
    have z: "?buf ! (32 * (i + j)) = 0" if "j < length lfn + 1" for j
    proof -
      have "\<forall>k. i \<le> k \<and> 32 * k + 32 \<le> length ?buf \<longrightarrow> ?buf ! (32 * k) = 0" using assms(2) unfolding compact_def by blast
      moreover have "i \<le> i + j" "32 * (i + j) + 32 \<le> length ?buf" using sz that by simp_all
      ultimately show ?thesis by blast
    qed
    show "run_at ?buf (length lfn + 1) i" using z sz by (simp add: run_at_def slot_free_def)
    show "\<forall>k < i. \<not> slot_free ?buf k" using assms(2) by (simp add: compact_def)
  qed
  have a1: "appendEntryToDir f c e True v = (Inr (), v1)"
    using append_one_cluster [OF assms(1) free _ l sn(1), of True] assms(3) by (simp add: v1_def b1_def)
  have r1: "readDirFromCluster f v1 c = Inr (es @ [e\<lparr>dirCluster := c, dirOffset := o'\<rparr>])"
    using one_cluster_dir(1) [OF w1(1)] B(1) [of c] w1(2) es assms(10) by simp
  have u: "unat o' = ?K * 32"
    using assms(1,4,10) cluster_bytes_bound [of f v] by (simp add: one_cluster_def unat_of_nat del: of_nat_mult of_nat_add)
  have "find_name U (de_name e) (es @ [e\<lparr>dirCluster := c, dirOffset := o'\<rparr>]) = Some (e\<lparr>dirCluster := c, dirOffset := o'\<rparr>)"
    using assms(9) by (simp add: find_name_def find_snoc)
  then have a2: "removeDirEntry U f c (de_name e) v1 = (Inr (), v2)"
    using r1 d(5) one_cluster_dir(2) [OF w1(1)] w1(2) u
    by (simp add: removeDirEntry_def mark_deleted_def bindS_def readS_def modS_def v2_def b2_def)
  have r2: "readDirFromCluster f v2 c = Inr es" using one_cluster_dir(1) [OF w2(1)] B(1) [of c] w2(2) es by simp
  have a3: "appendEntryToDir f c e2 False v2 = (Inr (), v3)"
    using append_one_cluster [OF w2(1), of "[]" ?K False e2] B(2,3) w2(2) sn(2) by (simp add: v3_def b3_def)
  have r3: "readDirFromCluster f v3 c = Inr (es @ [e2\<lparr>de_name := de_name e, dirCluster := c, dirOffset := o'\<rparr>])"
    using one_cluster_dir(1) [OF w3(1)] B(1) [of c] w3(2) es assms(10) by simp
  show ?thesis using a1 r1 a2 r2 a3 r3 by blast
qed

text \<open>The sample volume with an empty directory in cluster 4.\<close>

definition dir_vol :: fatvol where
  "dir_vol = sample_vol\<lparr>fat1 := (zeros 512)[6 := 0xFF, 7 := 0x0F]\<rparr>"

lemma dir_vol_cluster:
  "one_cluster sample_disk dir_vol 4" "clus_view sample_disk dir_vol 4 = zeros 512" "cluster_bytes dir_vol = 512"
proof -
  have "is_clus dir_vol = is_clus sample_vol" by (simp add: is_clus_def dir_vol_def fun_eq_iff)
  moreover have "nxt dir_vol 4 = 0xFFF"
    by (simp add: nxt_def fatEntry_def fat_get_def dir_vol_def sample_vol_def sample_bpb_def slice_ok_def get16_def)
  moreover have "fat_ok dir_vol" using sample_fat_ok by (simp add: fat_ok_def dir_vol_def sample_vol_def)
  moreover have "geom_ok sample_disk dir_vol"
    using sample_geom by (simp add: geom_ok_def in_image_def dir_vol_def sec_bytes_def cluster_bytes_def)
  ultimately show "one_cluster sample_disk dir_vol 4"
    by (simp add: one_cluster_def sample_is_clus isEOC_def) (simp add: dir_vol_def sample_vol_def sample_bpb_def eoc_min_def)
  have "sub (contents sample_disk) 2560 512 = zeros 512"
    by (intro nth_equalityI) (simp_all add: sample_disk_def sample_boot_def put16_def put8_def le16_def nth_copy_into)
  then show "clus_view sample_disk dir_vol 4 = zeros 512"
    by (simp add: clus_view_def overlay_def clus_sec_def cluster_bytes_def sec_bytes_def dir_vol_def sample_vol_def sample_bpb_def)
qed (simp add: dir_vol_def cluster_bytes_def sample_vol_def sample_bpb_def)

definition ascii_ucd :: ucd where
  "ascii_ucd = \<lparr>upper_rune = id, fold_rune = id\<rparr>"

theorem deleted_long_name_returns_witness:
  "\<exists>v1 v2 v3 e3. appendEntryToDir sample_disk 4 long_entry True dir_vol = (Inr (), v1) \<and>
     removeDirEntry ascii_ucd sample_disk 4 (bs ''Notes.markdown'') v1 = (Inr (), v2) \<and>
     appendEntryToDir sample_disk 4 sample_entry False v2 = (Inr (), v3) \<and> readDirFromCluster sample_disk v3 4 = Inr [e3] \<and>
     de_name sample_entry = bs ''A'' \<and> de_name e3 = bs ''Notes.markdown'' \<and> shortName e3 = shortName sample_entry"
proof -
  have c: "compact (clus_view sample_disk dir_vol 4) 0" by (simp add: compact_def dir_vol_cluster(2))
  have r: "readDirFromCluster sample_disk dir_vol 4 = Inr []"
    using one_cluster_dir(1) [OF dir_vol_cluster(1)] process_all_end [of "zeros 512" 0 4 scan0]
    by (simp add: dir_vol_cluster(2) ends_at_def) (simp add: scan0_def)
  have e2: "live_entry sample_entry"
    by (simp add: live_entry_def sample_entry_def attrArchive_def attrLFN_def attrVolumeID_def)
  have sz: "(0 + length (buildLFNEntries (de_name long_entry) (shortName long_entry))) * 32 + 32 \<le> cluster_bytes dir_vol"
    by (simp add: long_entry_records dir_vol_cluster(3))
  have f: "find_name ascii_ucd (de_name long_entry) [] = None" by (simp add: find_name_def)
  have n: "de_name long_entry = bs ''Notes.markdown''" by (simp add: long_entry_def)
  show ?thesis
    using deleted_long_name_returns [OF dir_vol_cluster(1) c refl sz long_entry_ok e2 r f refl] unfolding n
    by (fastforce simp: sample_entry_def)
qed

subsection \<open>The fixed root directory\<close>

text \<open>
  C20. On FAT12 and FAT16 an update of the root directory discards the staged updates of the
  same sector: the sector is read from the disk without what is staged for it, so after two
  updates in a row the staged sectors are as if the first had never been made.
\<close>

theorem root_update_lost:
  assumes "in_root v e1" "in_root v e2" "root_sector v (dirOffset e1) = root_sector v (dirOffset e2)"
    and "writeDirEntry f e1 v = (Inr (), v1)" "writeDirEntry f e2 v1 = (Inr (), v2)"
  shows "\<exists>v2'. writeDirEntry f e2 v = (Inr (), v2') \<and> map_of (dirty v2) = map_of (dirty v2') \<and> fat1 v2 = fat1 v2'"
proof -
  obtain b where v1: "v1 = stage_sector (root_sector v (dirOffset e1)) b v"
    using assms(1,4) by (auto simp: writeDirEntry_def in_root_def)
  then have same: "v_b v1 = v_b v" "v_sr v1 = v_sr v" by (simp_all add: stage_sector_def)
  have rs: "root_sector v1 = root_sector v" "in_sector v1 = in_sector v" "read_root_sector f v1 = read_root_sector f v"
    by (simp_all add: root_sector_def in_sector_def read_root_sector_def same fun_eq_iff)
  obtain b2 s where b2: "read_root_sector f v (dirOffset e2) = Inr s" "encodeDirEntry32 s (in_sector v (dirOffset e2)) e2 = Inr b2"
    "v2 = stage_sector (root_sector v (dirOffset e2)) b2 v1"
    using assms(2,5) same rs
    by (auto simp: writeDirEntry_def in_root_def eq_commute [of "Inr _" "wrapR _ _"] eq_commute [of "Inr _" "encodeDirEntry32 _ _ _"])
  have "writeDirEntry f e2 v = (Inr (), stage_sector (root_sector v (dirOffset e2)) b2 v)"
    using assms(2) b2(1,2) by (simp add: writeDirEntry_def in_root_def)
  moreover have "map_of (dirty v2) = map_of (dirty (stage_sector (root_sector v (dirOffset e2)) b2 v))"
    by (simp add: b2(3) v1 stage_sector_def update_conv' assms(3))
  moreover have "fat1 v2 = fat1 v" by (simp add: b2(3) v1 stage_sector_def)
  ultimately show ?thesis by (simp add: stage_sector_def)
qed

lemma sample_root_write:
  assumes "geom_ok sample_disk v" "v_b v = sample_bpb" "dirCluster e = 0" "length (shortName e) = 11" "unat (dirOffset e) \<le> 480"
  shows "\<exists>v'. writeDirEntry sample_disk e v = (Inr (), v') \<and> geom_ok sample_disk v' \<and> v_b v' = sample_bpb"
proof -
  have "entry_home v e" using assms by (simp add: entry_home_def in_root_def sec_bytes_def sample_bpb_def)
  moreover have "in_root v e" using assms by (simp add: in_root_def sample_bpb_def)
  ultimately show ?thesis using writeDirEntry_ok [OF assms(1)] assms(2) dirty_change_keeps(1) by metis
qed

theorem root_update_lost_witness:
  "\<exists>v1 v2 v2'. writeDirEntry sample_disk sample_entry sample_vol = (Inr (), v1) \<and>
     writeDirEntry sample_disk (sample_entry\<lparr>dirOffset := 96\<rparr>) v1 = (Inr (), v2) \<and>
     writeDirEntry sample_disk (sample_entry\<lparr>dirOffset := 96\<rparr>) sample_vol = (Inr (), v2') \<and>
     map_of (dirty v2) = map_of (dirty v2')"
proof -
  let ?e = "sample_entry\<lparr>dirOffset := 96\<rparr>"
  obtain v1 where v1: "writeDirEntry sample_disk sample_entry sample_vol = (Inr (), v1)" "geom_ok sample_disk v1" "v_b v1 = sample_bpb"
    using sample_root_write [OF sample_geom, of sample_entry] by (auto simp: sample_entry_def sample_vol_def)
  obtain v2 where v2: "writeDirEntry sample_disk ?e v1 = (Inr (), v2)"
    using sample_root_write [OF v1(2,3), of ?e] by (auto simp: sample_entry_def)
  have "in_root sample_vol sample_entry" "in_root sample_vol ?e"
    "root_sector sample_vol (dirOffset sample_entry) = root_sector sample_vol (dirOffset ?e)"
    by (simp_all add: in_root_def root_sector_def sample_vol_def sample_bpb_def sample_entry_def)
  from root_update_lost [OF this v1(1) v2] show ?thesis using v1(1) v2 by blast
qed

subsection \<open>Names and time stamps\<close>

text \<open>
  An ASCII name that fits the 8.3 form is stored without a long name as its upper-case
  form: the driver accepts it, and decoding the 11 bytes gives the name in capitals back.
\<close>

lemma toShortName_round_trip:
  assumes "short_ok nm"
  shows "\<exists>sn. toShortName U nm = (sn, True) \<and> length sn = 11 \<and> decodeShortName sn = map upper_byte nm"
  using assms by (rule toShortName_round_aux)

lemma toShortName_round_trip_witness:
  "\<exists>sn. toShortName ascii_ucd (bs ''boot.Ini'') = (sn, True) \<and> decodeShortName sn = bs ''BOOT.INI''"
proof -
  have "LastIndex (bs ''boot.Ini'') dot = Some 4" by simp
  then have "short_ok (bs ''boot.Ini'')" by (simp add: short_ok_def split_ext_def spc_def)
  then show ?thesis using toShortName_round_trip [of "bs ''boot.Ini''" ascii_ucd] by (auto simp: upper_byte_def)
qed

text \<open>
  A time stamp from 1980 to 2107 survives the packing into the FAT date and time words, up to
  the two-second resolution of the format.
\<close>

lemma time_round_trip:
  assumes "1980 \<le> Year t" "Year t \<le> 2107" "1 \<le> Month t" "Month t \<le> 12" "1 \<le> Day t" "Day t \<le> days_in (Year t) (Month t)"
    and "Hour t < 24" "Minute t < 60" "Second t < 60"
  shows "fatToTime (fatDate t) (fatTime t) = t\<lparr>Second := Second t div 2 * 2\<rparr>"
  using assms by (intro fatToTime_round_aux) (simp add: time_ok_def)

lemma time_round_trip_witness:
  "fatToTime (fatDate (sample_time\<lparr>Second := 11\<rparr>)) (fatTime (sample_time\<lparr>Second := 11\<rparr>)) = sample_time"
  using time_round_trip [of "sample_time\<lparr>Second := 11\<rparr>"] by (simp add: sample_time_def days_in_def leap_def)

text \<open>
  The search for room in a directory buffer is exact: it returns the first run of the wanted
  number of free records, and reports that there is none only when there is none.
\<close>

lemma findFreeSlot_first:
  assumes "length buf < 2 ^ 31" "0 < m" "32 * m < 2 ^ 32"
  shows "case findFreeSlot buf (of_nat (32 * m)) of
      Some off \<Rightarrow> \<exists>k. off = 32 * k \<and> run_at buf m k \<and> (\<forall>k' < k. \<not> run_at buf m k')
    | None \<Rightarrow> \<forall>k. \<not> run_at buf m k"
  using findFreeSlot_first_aux [OF assms] by (simp add: first_run_def)

lemma findFreeSlot_first_witness: "findFreeSlot ((zeros 128)[0 := 0x41, 64 := 0x42]) (of_nat (32 * 1)) = Some 32"
proof -
  let ?b = "(zeros 128)[0 := 0x41, 64 := 0x42]"
  have r: "run_at ?b 1 1" "\<not> run_at ?b 1 0" by (simp_all add: run_at_def slot_free_def)
  from findFreeSlot_first [of ?b 1] r show ?thesis
    by (auto split: option.splits) (metis (no_types) One_nat_def less_Suc0 linorder_neqE_nat mult.right_neutral)
qed

subsection \<open>Handles\<close>

text \<open>
  C25. An open handle behaves as a file: writing at its offset changes its bytes as \<open>os.File\<close>
  would (a gap is filled with zeros), advances the offset by the length of the data, and after
  seeking back the same bytes are read.
\<close>

theorem handle_write_read:
  assumes "0 \<le> fh_offset h" "fh_offset h + int (length p) < 2 ^ 63" "p \<noteq> []"
  shows "\<exists>h'. fh_Write p h = (Inr (length p), h') \<and> fh_data h' = write_bytes (fh_data h) (nat (fh_offset h)) p \<and>
    fh_offset h' = fh_offset h + int (length p) \<and> fh_dirty h' \<and>
    fst (fh_Read (length p) (snd (fh_Seek (fh_offset h) 0 h'))) = Inr p"
proof -
  let ?o = "nat (fh_offset h)" let ?e = "fh_offset h + int (length p)"
  have w: "wrap64 ?e = ?e" using assms by (intro wrap64_id) auto
  define d where "d = (if ?e > int (length (fh_data h)) then copy_into (zeros (nat ?e)) 0 (fh_data h) else fh_data h)"
  have ld: "?o + length p \<le> length d" using assms(1) by (auto simp: d_def nat_add_distrib)
  then have m: "min (length d - ?o) (length p) = length p" "\<not> int (length d) < fh_offset h" using assms(1) by linarith+
  have cd: "copy_into d ?o p = write_bytes (fh_data h) ?o p"
    using assms(1,3) by (intro nth_equalityI) (auto simp: d_def length_write_bytes nth_write_bytes nth_copy_into nat_add_distrib)
  have lt: "\<not> int (max (length (fh_data h)) (?o + length p)) \<le> fh_offset h" using assms(1,3) by (cases p) auto
  define h' where "h' = h\<lparr>fh_data := write_bytes (fh_data h) ?o p, fh_offset := ?e, fh_dirty := True\<rparr>"
  have "fh_Write p h = (Inr (length p), h')"
    unfolding fh_Write_def Let_def w d_def [symmetric] using m cd w by (simp add: h'_def)
  moreover have "fst (fh_Read (length p) (snd (fh_Seek (fh_offset h) 0 h'))) = Inr p"
    using assms lt fstore.rd_wr_same [of "fh_data h" ?o p] by (simp add: fh_Seek_def fh_Read_def Let_def h'_def length_write_bytes)
  ultimately show ?thesis by (auto simp: h'_def)
qed

theorem handle_write_read_witness:
  "\<exists>h'. fh_Write [7, 8] \<lparr>fh_e = sample_entry, fh_data = [1], fh_offset = 3, fh_dirty = False\<rparr> = (Inr 2, h') \<and>
     fh_data h' = [1, 0, 0, 7, 8]"
  using handle_write_read [of "\<lparr>fh_e = sample_entry, fh_data = [1], fh_offset = 3, fh_dirty = False\<rparr>" "[7, 8]"]
  by (simp add: write_bytes_def copy_into_def zeros_def numeral_eq_Suc) blast

text \<open>The data of \<open>k\<close> successive reads of \<open>n\<close> bytes; at the end of the file nothing more comes.\<close>

primrec fh_reads :: "nat \<Rightarrow> nat \<Rightarrow> fatFile \<Rightarrow> bytes" where
  "fh_reads 0 n h = []"
| "fh_reads (Suc k) n h = (case fh_Read n h of (Inr d, h') \<Rightarrow> d @ fh_reads k n h' | (Inl e, h') \<Rightarrow> [])"

lemma fh_reads_take:
  "0 \<le> fh_offset h \<Longrightarrow> fh_reads k n h = take (k * n) (drop (nat (fh_offset h)) (fh_data h))"
proof (induction k arbitrary: h)
  case (Suc k)
  show ?case
  proof (cases "int (length (fh_data h)) \<le> fh_offset h")
    case True
    then show ?thesis using Suc.prems by (simp add: fh_Read_def)
  next
    case False
    define d where "d = sub (fh_data h) (nat (fh_offset h)) n"
    have "fh_reads (Suc k) n h = d @ fh_reads k n (h\<lparr>fh_offset := fh_offset h + int (length d)\<rparr>)"
      using False by (simp add: fh_Read_def Let_def d_def)
    also have "\<dots> = d @ take (k * n) (drop (nat (fh_offset h) + length d) (fh_data h))"
      using Suc by (simp add: nat_add_distrib)
    also have "\<dots> = take (Suc k * n) (drop (nat (fh_offset h)) (fh_data h))"
      by (cases "n \<le> length (fh_data h) - nat (fh_offset h)") (auto simp: d_def sub_def take_add min_def add.commute)
    finally show ?thesis .
  qed
qed simp

text \<open>
  Reading an opened file piece by piece yields its contents: the pieces are the file from
  its start, nothing repeated or left out, and enough of them are the whole file.
\<close>

lemma handle_reads_whole_file:
  assumes "vol_Open U f v nm = Inr h"
  shows "fh_reads k n h = take (k * n) (fh_data h) \<and>
    (\<exists>e. lookupPath U f v nm = Inr e \<and> readAllClusters f v e = Inr (fh_data h))"
  using assms fh_reads_take [of h k n] by (auto simp: vol_Open_def)

text \<open>A disk with one file \<open>A\<close> of three bytes in cluster 4.\<close>

definition file_table :: bytes where
  "file_table = (zeros 512)[6 := 0xFF, 7 := 0x0F]"

definition file_root :: bytes where
  "file_root = copy_into (zeros 512) 0 (entry_bytes (sample_entry\<lparr>cluster := 4, fsize := 3\<rparr>))"

definition file_disk :: gofile where
  "file_disk = \<lparr>contents = copy_into (copy_into sample_boot 1024 file_root) 2560 [1, 2, 3], closed = False\<rparr>"

definition file_vol :: fatvol where
  "file_vol = sample_vol\<lparr>fat1 := file_table\<rparr>"

definition file_entry :: fatDirEntry where
  "file_entry = sample_entry\<lparr>cluster := 4, fsize := 3, dirOffset := 0\<rparr>"

lemma file_dir: "readDirFromCluster file_disk file_vol 0 = Inr [file_entry]"
proof -
  have "sub (contents file_disk) 1024 512 = file_root"
    by (simp add: file_disk_def) (subst sub_copy_other, simp_all add: file_root_def)
  then have "root_bytes file_disk file_vol = Inr file_root"
    unfolding root_bytes_def by (subst SecReadAt_inside) (simp_all add: file_vol_def sample_vol_def sample_bpb_def sec_size_def file_disk_def)
  moreover have "process_all file_root 0 0 scan0 = (\<lparr>entries = [file_entry], lfnParts = None, lfnSeq = 0\<rparr>, False)"
  proof -
    let ?e = "sample_entry\<lparr>cluster := 4, fsize := 3\<rparr>"
    have live: "live_entry ?e" by (simp add: live_entry_def sample_entry_def attrArchive_def attrLFN_def attrVolumeID_def)
    have l: "length (entry_bytes ?e) = 32" by (rule length_entry_bytes) (simp add: sample_entry_def)
    have 0: "sub file_root 0 32 = entry_bytes ?e" by (simp add: file_root_def l)
    have 1: "sub file_root 32 32 ! 0 = 0" by (simp add: file_root_def l)
    have d: "decodeShortName (bs ''A          '') = bs ''A''" by (simp add: decodeShortName_def TrimRight_def sub_def spc_def)
    show ?thesis
      using l process_short [OF live, of 0 0 scan0] 1 d
      by (simp add: process_all.simps [of file_root 0 0] process_all.simps [of file_root 0 "Suc 0"] 0 process_def [of "sub file_root 32 32"])
         (simp add: file_root_def scan0_def file_entry_def sample_entry_def)
  qed
  ultimately show ?thesis
    by (simp add: readDirFromCluster_def overlay_def Let_def) (simp add: file_vol_def sample_vol_def sample_bpb_def)
qed

lemma file_lookup: "lookupPath ascii_ucd file_disk file_vol (bs ''/a'') = Inr file_entry"
proof -
  have c: "Clean (slash # bs ''/a'') = slash # bs ''a''" by (simp add: Clean_def clean_elems_def clean_step_def Let_def)
  have "EqualFold ascii_ucd (de_name file_entry) (bs ''a'')"
    by (simp add: EqualFold_def file_entry_def sample_entry_def runes_def decode_rune_def fold_case_def)
  moreover have "fatType (v_b file_vol) = FAT12" by (simp add: file_vol_def sample_vol_def sample_bpb_def)
  ultimately show ?thesis
    by (simp add: lookupPath_def c Let_def file_dir find_name_def del: bs_simps) (simp add: file_dir find_name_def)
qed

lemma file_vol_ok: "fat_ok file_vol" "geom_ok file_disk file_vol" "holds_file file_disk file_vol [4] [1, 2, 3]"
proof -
  have c: "is_clus file_vol = is_clus sample_vol" by (simp add: is_clus_def file_vol_def fun_eq_iff)
  show "fat_ok file_vol" using sample_fat_ok by (simp add: fat_ok_def file_vol_def sample_vol_def file_table_def)
  show "geom_ok file_disk file_vol"
    using sample_geom by (simp add: geom_ok_def in_image_def file_vol_def sec_bytes_def cluster_bytes_def file_disk_def sample_disk_def)
  have "nxt file_vol 4 = 0xFFF"
    by (simp add: nxt_def fatEntry_def fat_get_def file_vol_def sample_vol_def sample_bpb_def slice_ok_def file_table_def get16_def)
  then have "chain_ok file_vol [4]"
    by (simp add: chain_ok_def c sample_is_clus isEOC_def) (simp add: file_vol_def sample_vol_def sample_bpb_def eoc_min_def)
  moreover have "clus_view file_disk file_vol 4 = copy_into (zeros 512) 0 [1, 2, 3]"
  proof -
    have "sub (contents file_disk) 2560 512 = copy_into (zeros 512) 0 [1, 2, 3]"
      by (rule sub_eqI) (auto simp: file_disk_def nth_copy_into sample_boot_def file_root_def put16_def put8_def le16_def length_entry_bytes sample_entry_def)
    then show ?thesis by (simp add: clus_view_def overlay_def clus_sec_def cluster_bytes_def sec_bytes_def file_vol_def sample_vol_def sample_bpb_def)
  qed
  ultimately show "holds_file file_disk file_vol [4] [1, 2, 3]"
    by (simp add: holds_file_def clusters_needed_def data_chunk_def cluster_bytes_def) (simp add: file_vol_def sample_vol_def sample_bpb_def sub_def)
qed

lemma file_open:
  "vol_Open ascii_ucd file_disk file_vol (bs ''/a'') = Inr \<lparr>fh_e = file_entry, fh_data = [1, 2, 3], fh_offset = 0, fh_dirty = False\<rparr>"
proof -
  have "readAllClusters file_disk file_vol file_entry = Inr [1, 2, 3]"
    by (rule holds_file_read [OF file_vol_ok]) (simp_all add: file_entry_def)
  then show ?thesis by (simp add: vol_Open_def file_lookup del: bs_simps)
qed

lemma handle_reads_whole_file_witness:
  "fh_reads 2 2 \<lparr>fh_e = file_entry, fh_data = [1, 2, 3], fh_offset = 0, fh_dirty = False\<rparr> = [1, 2, 3]"
  using handle_reads_whole_file [OF file_open, of 2 2] by simp

subsection \<open>Paths\<close>

text \<open>
  Path lookup works on the cleaned path: it gives the same result for a path and its cleaned
  form, and unless the path is the root, the names it searches for directory by directory are
  never empty, \<open>.\<close> or \<open>..\<close> and contain no slash, so that no path leads above the root.
\<close>

lemma lookupPath_clean:
  "lookupPath U f v (Clean (slash # p)) = lookupPath U f v p \<and>
   (Clean (slash # p) = [slash] \<or>
    (\<forall>part \<in> set (Split (tl (Clean (slash # p))) slash).
       part \<noteq> [] \<and> part \<noteq> [dot] \<and> part \<noteq> [dot, dot] \<and> slash \<notin> set part))"
proof -
  have "Clean (slash # Clean (slash # p)) = Clean (slash # p)"
    using clean_elems_Join [OF clean_elems_plain [of "slash # p"]] clean_elems_rooted [of "slash # Join (clean_elems True (slash # p)) slash"]
    by (simp add: Clean_rooted)
  then have l: "lookupPath U f v (Clean (slash # p)) = lookupPath U f v p" by (simp add: lookupPath_def)
  show ?thesis
  proof (cases "clean_elems True (slash # p) = []")
    case True
    then show ?thesis using l by (simp add: Clean_rooted)
  next
    case False
    then show ?thesis using l Split_Clean_rooted [OF False] clean_elems_plain [of "slash # p"]
      by (auto simp: list_all_iff plain_elem_def)
  qed
qed

lemma lookupPath_clean_witness:
  "lookupPath ascii_ucd file_disk file_vol (Clean (slash # bs ''x/../a'')) = Inr file_entry"
proof -
  have "Clean (slash # bs ''x/../a'') = Clean (slash # bs ''/a'')" by (simp add: Clean_def clean_elems_def clean_step_def Let_def)
  then show ?thesis using lookupPath_clean [of ascii_ucd file_disk file_vol "bs ''/a''"] file_lookup by metis
qed

end
