(* ===== verification/GoBuffers.thy ===== *)
theory GoBuffers
  imports GoBytes
begin

text \<open>
  Buffers that the formatters and the ext4 driver fill field by field: bitmaps, tables of equal
  records, and sequences of writes into one buffer.
\<close>

unbundle bit_operations_syntax

subsection \<open>Bitmaps\<close>

text \<open>\<open>bm[b/8] |= 1 << (b % 8)\<close>, for an index inside the buffer.\<close>

definition or_bit :: "nat \<Rightarrow> bytes \<Rightarrow> bytes" where
  "or_bit b bm = bm[b div 8 := bm ! (b div 8) OR push_bit (b mod 8) 1]"

definition bit_at :: "bytes \<Rightarrow> nat \<Rightarrow> bool" where
  "bit_at bm b = bit (bm ! (b div 8)) (b mod 8)"

lemma length_or_bit [simp]: "length (or_bit b bm) = length bm"
  by (simp add: or_bit_def)

lemma bit_2p: "j < 8 \<Longrightarrow> bit (2 ^ i :: u8) j \<longleftrightarrow> i = j"
  by (auto simp: bit_exp_iff possible_bit_word)

lemma bit_at_or_bit:
  assumes "b < 8 * length bm"
  shows "bit_at (or_bit b bm) b' \<longleftrightarrow> b' = b \<or> bit_at bm b'"
proof -
  have "b div 8 < length bm" "b mod 8 < 8" "b' mod 8 < 8" using assms by (simp_all add: div_less_iff_less_mult)
  moreover have "b' = b \<longleftrightarrow> b' div 8 = b div 8 \<and> b' mod 8 = b mod 8" by (metis div_mult_mod_eq)
  ultimately show ?thesis
    by (auto simp: bit_at_def or_bit_def nth_list_update bit_or_iff bit_2p)
qed

lemma bit_at_zeros [simp]: "b < 8 * n \<Longrightarrow> \<not> bit_at (zeros n) b"
  by (simp add: bit_at_def div_less_iff_less_mult)

lemma length_fold_or_bit [simp]: "length (fold or_bit ns bm) = length bm"
  by (induction ns arbitrary: bm) simp_all

lemma bit_at_fold:
  "\<forall>b \<in> set ns. b < 8 * length bm \<Longrightarrow> bit_at (fold or_bit ns bm) b' \<longleftrightarrow> b' \<in> set ns \<or> bit_at bm b'"
  by (induction ns arbitrary: bm) (auto simp: bit_at_or_bit)

subsection \<open>Tables of equal records\<close>

lemma length_concat_map: "(\<And>x. x \<in> set xs \<Longrightarrow> length (f x) = k) \<Longrightarrow> length (concat (map f xs)) = k * length xs"
  by (induction xs) auto

lemma sub_concat_map:
  assumes "\<And>x. x \<in> set xs \<Longrightarrow> length (f x) = k" "i < length xs"
  shows "sub (concat (map f xs)) (k * i) k = f (xs ! i)"
proof -
  have "concat (map f xs) = concat (map f (take i xs)) @ f (xs ! i) @ concat (map f (drop (Suc i) xs))"
    using id_take_nth_drop [OF assms(2)] by (metis concat.simps(2) concat_append list.simps(9) map_append)
  moreover have "length (concat (map f (take i xs))) = k * i"
    using assms by (subst length_concat_map [where k = k]) (auto dest: in_set_takeD)
  moreover have "length (f (xs ! i)) = k" using assms by simp
  ultimately show ?thesis by (simp add: sub_def)
qed

lemma sub_app_left: "off + n \<le> length a \<Longrightarrow> sub (a @ b) off n = sub a off n"
  by (simp add: sub_def)

lemma sub_app_right: "length a \<le> off \<Longrightarrow> sub (a @ b) off n = sub b (off - length a) n"
  by (simp add: sub_def)

subsection \<open>Filling buffers\<close>

text \<open>\<open>f(buf[pos:])\<close>: a writer applied to the tail of a buffer.\<close>

definition at_pos :: "nat \<Rightarrow> (bytes \<Rightarrow> bytes) \<Rightarrow> bytes \<Rightarrow> bytes" where
  "at_pos pos f buf = take pos buf @ f (drop pos buf)"

text \<open>A sequence of \<open>PutUint\<close> and \<open>copy\<close> calls on one buffer: offsets with the bytes put there.\<close>

definition puts :: "(nat \<times> bytes) list \<Rightarrow> bytes \<Rightarrow> bytes" where
  "puts ps b = fold (\<lambda>(off, d) b. copy_into b off d) ps b"

lemma puts_simps [simp]: "puts [] b = b" "puts ((off, d) # ps) b = puts ps (copy_into b off d)"
  by (simp_all add: puts_def)

lemma length_puts [simp]: "length (puts ps b) = length b"
  by (induction ps arbitrary: b) auto

text \<open>A put that no later one touches is read back.\<close>

lemma puts_other:
  assumes "\<forall>(o', d) \<in> set ps. off + n \<le> o' \<or> o' + length d \<le> off" "off + n \<le> length b"
  shows "sub (puts ps b) off n = sub b off n"
  using assms by (induction ps arbitrary: b) (auto simp: sub_copy_other)

lemma puts_read:
  assumes "ps = xs @ (off, d) # ys" "\<forall>(o', d') \<in> set ys. off + length d \<le> o' \<or> o' + length d' \<le> off" "off + length d \<le> length b"
  shows "sub (puts ps b) off (length d) = d"
proof -
  have "puts ps b = puts ys (copy_into (puts xs b) off d)" by (simp add: assms(1) puts_def)
  then show ?thesis using puts_other [OF assms(2)] assms(3) by simp
qed

lemma puts_id: "\<forall>(o', d) \<in> set ps. sub b o' (length d) = d \<Longrightarrow> puts ps b = b"
proof (induction ps)
  case (Cons p ps)
  then have "copy_into b (fst p) (snd p) = b" using copy_into_sub_eq [of b "fst p" "length (snd p)"] by (cases p) simp
  then show ?case using Cons by (cases p) simp
qed simp

text \<open>Puts in ascending order that do not overlap all read back.\<close>

fun ascending :: "nat \<Rightarrow> (nat \<times> bytes) list \<Rightarrow> bool" where
  "ascending lo [] = True"
| "ascending lo ((off, d) # ps) = (lo \<le> off \<and> ascending (off + length d) ps)"

lemma ascending_le: "ascending lo ps \<Longrightarrow> (off, d) \<in> set ps \<Longrightarrow> lo \<le> off"
  by (induction lo ps rule: ascending.induct) fastforce+

lemma puts_ascending:
  "ascending lo ps \<Longrightarrow> (off, d) \<in> set ps \<Longrightarrow> off + length d \<le> length b \<Longrightarrow> sub (puts ps b) off (length d) = d"
proof (induction lo ps arbitrary: b rule: ascending.induct)
  case (2 lo o' d' ps)
  show ?case
  proof (cases "(off, d) = (o', d')")
    case True
    have "\<forall>(o'', d'') \<in> set ps. off + length d \<le> o'' \<or> o'' + length d'' \<le> off"
      using 2 True ascending_le by fastforce
    then have "sub (puts ps (copy_into b o' d')) off (length d) = sub (copy_into b o' d') off (length d)"
      using 2 by (intro puts_other) auto
    then show ?thesis using True 2 by simp
  next
    case False
    then have "(off, d) \<in> set ps" using 2(3) by auto
    then show ?thesis using 2(1) [of "copy_into b o' d'"] 2(2,4) by simp
  qed
qed simp

lemma length_le32: "length (le32 v) = 4"
  by (simp add: le32_def)

lemma length_replicate_concat: "length (concat (replicate k x)) = k * length x"
  by (induction k) simp_all

lemma length_at_pos: "length (f (drop pos b)) = length b - pos \<Longrightarrow> length (at_pos pos f b) = length b"
  by (auto simp: at_pos_def)

lemma at_pos_after:
  assumes "pos \<le> length b" "length (f (drop pos b)) = length b - pos"
  shows "i < length b - pos \<Longrightarrow> at_pos pos f b ! (pos + i) = f (drop pos b) ! i"
    and "i + 4 \<le> length b - pos \<Longrightarrow> get32 (at_pos pos f b) (pos + i) = get32 (f (drop pos b)) i"
    and "i + 8 \<le> length b - pos \<Longrightarrow> get64 (at_pos pos f b) (pos + i) = get64 (f (drop pos b)) i"
  using assms c32.get_append [of "take pos b" "pos + i" "f (drop pos b)"] c64.get_append [of "take pos b" "pos + i" "f (drop pos b)"]
  by (simp_all add: at_pos_def nth_append)

lemma at_pos_before:
  assumes "pos \<le> length b"
  shows "i < pos \<Longrightarrow> at_pos pos f b ! i = b ! i"
    and "i + 4 \<le> pos \<Longrightarrow> get32 (at_pos pos f b) i = get32 b i"
    and "i + 8 \<le> pos \<Longrightarrow> get64 (at_pos pos f b) i = get64 b i"
proof -
  have "sub (at_pos pos f b) i k = sub b i k" if "i + k \<le> pos" for k using that assms by (simp add: at_pos_def sub_def drop_take)
  note c = this
  show "i < pos \<Longrightarrow> at_pos pos f b ! i = b ! i" using assms by (simp add: at_pos_def nth_append)
  show "i + 4 \<le> pos \<Longrightarrow> get32 (at_pos pos f b) i = get32 b i"
    using c [of 4] assms c32.get_local [of i b] c32.get_local [of i "at_pos pos f b"] by (simp add: at_pos_def)
  show "i + 8 \<le> pos \<Longrightarrow> get64 (at_pos pos f b) i = get64 b i"
    using c [of 8] assms c64.get_local [of i b] c64.get_local [of i "at_pos pos f b"] by (simp add: at_pos_def)
qed

subsection \<open>Integers and their bytes\<close>

lemma le16_get16: "off + 2 \<le> length b \<Longrightarrow> le16 (get16 b off) = sub b off 2"
proof (rule nth_equalityI)
  fix j assume "off + 2 \<le> length b" "j < length (le16 (get16 b off))"
  then have "j = 0 \<or> j = 1" "off + 2 \<le> length b" by auto
  then show "le16 (get16 b off) ! j = sub b off 2 ! j"
    by (auto simp: le16_def get16_def intro!: bit_word_eqI) (auto simp: bit_simps dest: bit_imp_le_length)
qed simp

lemma le32_get32: "off + 4 \<le> length b \<Longrightarrow> le32 (get32 b off) = sub b off 4"
proof (rule nth_equalityI)
  fix j assume "off + 4 \<le> length b" "j < length (le32 (get32 b off))"
  then have "j = 0 \<or> j = 1 \<or> j = 2 \<or> j = 3" "off + 4 \<le> length b" by auto
  then show "le32 (get32 b off) ! j = sub b off 4 ! j"
    by (auto simp: le32_def get32_def intro!: bit_word_eqI) (auto simp: bit_simps dest: bit_imp_le_length)
qed simp

lemma sub_get16: "sub b off 2 = le16 v \<Longrightarrow> get16 b off = v"
proof -
  assume s: "sub b off 2 = le16 v"
  have "off + 2 \<le> length b" using arg_cong [OF s, of length] by (simp add: min_def split: if_splits)
  then show ?thesis by (simp add: c16.get_local [of off b] s get16_le16)
qed

lemma sub_get32: "sub b off 4 = le32 v \<Longrightarrow> get32 b off = v"
proof -
  assume s: "sub b off 4 = le32 v"
  have "off + 4 \<le> length b" using arg_cong [OF s, of length] by (simp add: min_def split: if_splits)
  then show ?thesis by (simp add: c32.get_local [of off b] s get32_le32)
qed

text \<open>The field at \<open>off\<close> of a buffer that was filled in ascending order.\<close>

lemma get_ascending:
  assumes "ascending lo ps"
  shows "(off, le16 v) \<in> set ps \<Longrightarrow> off + 2 \<le> length b \<Longrightarrow> get16 (puts ps b) off = v"
    and "(off, le32 w) \<in> set ps \<Longrightarrow> off + 4 \<le> length b \<Longrightarrow> get32 (puts ps b) off = w"
  using puts_ascending [OF assms, of off "le16 v" b] puts_ascending [OF assms, of off "le32 w" b]
  by (auto intro: sub_get16 sub_get32)

subsection \<open>Words as natural numbers\<close>

lemma of_nat_le64: "a < 2 ^ 64 \<Longrightarrow> b < 2 ^ 64 \<Longrightarrow> (of_nat a :: u64) \<le> of_nat b \<longleftrightarrow> a \<le> b"
  by (simp add: word_le_nat_alt unat_of_nat)

lemma of_nat_less64: "a < 2 ^ 64 \<Longrightarrow> b < 2 ^ 64 \<Longrightarrow> (of_nat a :: u64) < of_nat b \<longleftrightarrow> a < b"
  by (simp add: word_less_nat_alt unat_of_nat)

lemma of_nat_less32: "a < 2 ^ 32 \<Longrightarrow> b < 2 ^ 32 \<Longrightarrow> (of_nat a :: u32) < of_nat b \<longleftrightarrow> a < b"
  by (simp add: word_less_nat_alt unat_of_nat)

lemma ucast_of_nat_up: "a < 2 ^ 32 \<Longrightarrow> (ucast (of_nat a :: u32) :: u64) = of_nat a"
  by (rule word_unat_eq_iff [THEN iffD2]) (simp add: unat_of_nat unsigned_ucast_eq take_bit_nat_eq_self)

lemma ucast_of_nat_down: "(ucast (of_nat a :: u64) :: u32) = of_nat a"
  by (rule word_unat_eq_iff [THEN iffD2]) (simp add: unat_of_nat unsigned_ucast_eq take_bit_eq_mod mod_mod_cancel)

lemma unat_of_nat64: "a < 2 ^ 64 \<Longrightarrow> unat (of_nat a :: u64) = a"
  by (simp add: unat_of_nat)

lemma unat_of_nat32: "a < 2 ^ 32 \<Longrightarrow> unat (of_nat a :: u32) = a"
  by (simp add: unat_of_nat)

lemma of_nat_div64: "a < 2 ^ 64 \<Longrightarrow> 0 < b \<Longrightarrow> b < 2 ^ 64 \<Longrightarrow> (of_nat a :: u64) div of_nat b = of_nat (a div b)"
proof (rule word_unat_eq_iff [THEN iffD2])
  assume "a < 2 ^ 64" "0 < b" "b < 2 ^ 64"
  moreover have "a div b < 2 ^ 64" using \<open>a < 2 ^ 64\<close> by (meson div_le_dividend order_le_less_trans)
  ultimately show "unat ((of_nat a :: u64) div of_nat b) = unat (of_nat (a div b) :: u64)"
    by (simp add: unat_div unat_of_nat)
qed

end
