(* ===== verification/MkfsIO.thy ===== *)
theory MkfsIO
  imports BuilderCorrect GoBuffers
begin

text \<open>
  What the formatters (\<open>src/mkfs\<close>) share: they write sequentially to an
  \<open>io.ReadWriteSeeker\<close>, which here is the partition window \<open>sectionRWS\<close> that \<open>OpenRaw\<close>
  returns, and use the same small arithmetic helpers.  The main fact: a formatter that seeks to
  the start and writes a list of chunks succeeds exactly when they fit, and leaves their
  concatenation at the start of the partition.
\<close>

unbundle bit_operations_syntax

definition isPow2 :: "int \<Rightarrow> bool" where
  "isPow2 n \<longleftrightarrow> 0 < n \<and> n AND (n - 1) = 0"

text \<open>\<open>bits.Len\<close>: the number of bits of a value.\<close>

fun bits_Len :: "nat \<Rightarrow> nat" where
  "bits_Len n = (if n = 0 then 0 else Suc (bits_Len (n div 2)))"

declare bits_Len.simps [simp del]

definition floorLog2 :: "int \<Rightarrow> u8" where
  "floorLog2 x = of_int (int (bits_Len (nat x)) - 1)"

text \<open>\<open>if _, err := w.Write(b); err != nil { return fmt.Errorf("msg: %w", err) }\<close>.\<close>

definition w_Write :: "string \<Rightarrow> bytes \<Rightarrow> (gofile \<times> sectionRWS, unit) sop" where
  "w_Write msg b t = (case rws_Write b t of
     (Inl e, t') \<Rightarrow> (Inl (if msg = [] then e else Wrapped msg e), t') | (Inr _, t') \<Rightarrow> (Inr (), t'))"

definition w_Seek :: "int \<Rightarrow> (gofile \<times> sectionRWS, unit) sop" where
  "w_Seek off = (\<lambda>(f, s). case rws_Seek off 0 s of
     (Inl e, s') \<Rightarrow> (Inl e, (f, s')) | (Inr _, s') \<Rightarrow> (Inr (), (f, s')))"

fun w_all :: "(string \<times> bytes) list \<Rightarrow> (gofile \<times> sectionRWS, unit) sop" where
  "w_all [] = retS ()"
| "w_all ((msg, b) # ws) = bindS (w_Write msg b) (\<lambda>_. w_all ws)"

lemma w_all_append: "w_all (ws @ vs) = bindS (w_all ws) (\<lambda>_. w_all vs)"
proof (induction ws)
  case Nil
  then show ?case by (simp add: bindS_def retS_def fun_eq_iff)
next
  case (Cons w ws)
  obtain m b where w: "w = (m, b)" by fastforce
  then show ?case using Cons by (auto simp: bindS_def fun_eq_iff split: prod.splits sum.splits)
qed

subsection \<open>Sequential writing\<close>

definition w_total :: "(string \<times> bytes) list \<Rightarrow> nat" where
  "w_total ws = length (concat (map snd ws))"

lemma w_all_fits:
  assumes "rws_ok f s" "\<not> closed f" "s_pos s + int (w_total ws) \<le> s_size s"
  shows "w_all ws (f, s) = (Inr (),
    (f\<lparr>contents := write_bytes (contents f) (nat (s_base s + s_pos s)) (concat (map snd ws))\<rparr>,
     s\<lparr>s_pos := s_pos s + int (w_total ws)\<rparr>))"
  using assms
proof (induction ws arbitrary: f s)
  case Nil
  then show ?case by (simp add: w_total_def write_bytes_def retS_def)
next
  case (Cons w ws)
  obtain m b where w: "w = (m, b)" by fastforce
  have fit: "s_pos s + int (length b) \<le> s_size s" using Cons.prems(3) by (simp add: w w_total_def)
  define f' where "f' = f\<lparr>contents := write_bytes (contents f) (nat (s_base s + s_pos s)) b\<rparr>"
  define s' where "s' = s\<lparr>s_pos := s_pos s + int (length b)\<rparr>"
  have wr: "rws_Write b (f, s) = (Inr (length b), (f', s'))"
    using rws_Write_appends [OF Cons.prems(1,2) fit] by (simp add: f'_def s'_def)
  have ok': "rws_ok f' s'" "\<not> closed f'" using write_inside(1) [OF Cons.prems(1) fit] Cons.prems(2) by (simp_all add: f'_def s'_def)
  have p: "0 \<le> s_base s" "0 \<le> s_pos s" using Cons.prems(1) by (auto simp: rws_ok_def)
  have "w_all ws (f', s') = (Inr (), (f'\<lparr>contents := write_bytes (contents f') (nat (s_base s' + s_pos s')) (concat (map snd ws))\<rparr>,
      s'\<lparr>s_pos := s_pos s' + int (w_total ws)\<rparr>))"
    using Cons.IH [OF ok'] Cons.prems(3) by (simp add: s'_def w w_total_def)
  moreover have "nat (s_base s' + s_pos s') = nat (s_base s + s_pos s) + length b"
    using p by (simp add: s'_def nat_add_distrib)
  ultimately show ?case using wr
    by (simp add: w w_Write_def bindS_def f'_def s'_def write_bytes_append w_total_def add.assoc)
qed

lemma w_Seek_start: "w_Seek 0 (f, s) = (Inr (), (f, s\<lparr>s_pos := 0\<rparr>))"
  by (simp add: w_Seek_def rws_Seek_def)

lemma w_Seek_bind: "bindS (w_Seek 0) k (f, s) = k () (f, s\<lparr>s_pos := 0\<rparr>)"
  by (simp add: bindS_def w_Seek_start)

text \<open>Where a chunk of a sequence of chunks is found again.\<close>

lemma sub_concat_chunk:
  "sub (concat xs @ b @ ys) (length (concat xs)) (length b) = b"
  by (simp add: sub_def)

lemma write_bytes_read:
  assumes "off + k \<le> length d" "base + length d \<le> length c"
  shows "sub (write_bytes c base d) (base + off) k = sub d off k"
  using assms by (simp add: write_bytes_inside sub_copy_inner)

lemma quot_pos_dividend: "0 < b \<Longrightarrow> 0 < nat (quot a b) \<Longrightarrow> 0 \<le> a"
proof (rule ccontr)
  assume "0 < b" "0 < nat (quot a b)" "\<not> 0 \<le> a"
  then show False by (simp add: quot_def sgn_if) (metis abs_ge_zero not_less pos_imp_zdiv_nonneg_iff abs_of_neg)
qed

text \<open>The test really recognises the powers of two.\<close>

lemma isPow2_power: "isPow2 n \<Longrightarrow> \<exists>k. n = 2 ^ k"
proof (induction "nat n" arbitrary: n rule: less_induct)
  case less
  have n: "0 < n" "n AND (n - 1) = 0" using less.prems by (auto simp: isPow2_def)
  show ?case
  proof (cases "even n")
    case True
    then obtain m where m: "n = 2 * m" by (elim evenE)
    then have "0 < m" using n by simp
    have d: "(2 * m - 1) div 2 = m - 1" by presburger
    have "(2 * m) AND (2 * m - 1) = 2 * (m AND (m - 1))"
      using and_int_rec [of "2 * m" "2 * m - 1"] d by simp
    then have "isPow2 m" using n m \<open>0 < m\<close> by (simp add: isPow2_def)
    then obtain k where "m = 2 ^ k" using less.hyps [of m] m \<open>0 < m\<close> by auto
    then show ?thesis using m by (metis power_Suc)
  next
    case False
    then obtain m where m: "n = 2 * m + 1" by (elim oddE)
    then have "n AND (n - 1) = 2 * m" using and_int_rec [of n "n - 1"] by simp
    then have "n = 2 ^ 0" using n m by simp
    then show ?thesis by blast
  qed
qed

lemma isPow2_sector: "isPow2 n \<Longrightarrow> 512 \<le> n \<Longrightarrow> n \<le> 4096 \<Longrightarrow> n \<in> {512, 1024, 2048, 4096}"
proof -
  assume n: "isPow2 n" "512 \<le> n" "n \<le> 4096"
  then obtain k where k: "n = 2 ^ k" using isPow2_power by blast
  have "(2 :: int) ^ 9 \<le> 2 ^ k" "(2 :: int) ^ k \<le> 2 ^ 12" using n k by simp_all
  then have "9 \<le> k" "k \<le> 12" using power_le_imp_le_exp [of "2 :: int" 9 k] power_le_imp_le_exp [of "2 :: int" k 12] by simp_all
  then have "k \<in> {9, 10, 11, 12}" by auto
  then show ?thesis using k by auto
qed

subsection \<open>The partition behind a window\<close>

definition part_bytes :: "gofile \<Rightarrow> sectionRWS \<Rightarrow> nat \<Rightarrow> nat \<Rightarrow> bytes" where
  "part_bytes f s off k = sub (contents f) (nat (s_base s) + off) k"

lemma format_window:
  assumes "rws_ok f s" "\<not> closed f" "img = concat (map snd ws)" "int (length img) \<le> s_size s"
  shows "\<exists>f' s'. bindS (w_Seek 0) (\<lambda>_. w_all ws) (f, s) = (Inr (), f', s') \<and> \<not> closed f' \<and>
    contents f' = write_bytes (contents f) (nat (s_base s)) img \<and>
    (\<forall>off k. off + k \<le> length img \<longrightarrow> part_bytes f' s off k = sub img off k)"
proof -
  have ok: "rws_ok f (s\<lparr>s_pos := 0\<rparr>)" using assms(1) by (simp add: rws_ok_def)
  have "w_all ws (f, s\<lparr>s_pos := 0\<rparr>) = (Inr (), f\<lparr>contents := write_bytes (contents f) (nat (s_base s)) img\<rparr>, s\<lparr>s_pos := int (w_total ws)\<rparr>)"
    using w_all_fits [OF ok assms(2), of ws] assms(3,4) by (simp add: w_total_def)
  moreover have "nat (s_base s) + length img \<le> length (contents f)" using assms(1,4) by (auto simp: rws_ok_def file_size_def)
  ultimately show ?thesis using assms(2) by (simp add: w_Seek_bind part_bytes_def write_bytes_read)
qed

end
