(* ===== verification/MkfsFat32.thy ===== *)
theory MkfsFat32
  imports MkfsIO
begin

text \<open>
  The FAT32 formatter (\<open>src/mkfs/fat32\<close>).  The volume serial number, which the code draws from
  the clock, is the argument \<open>volumeID\<close>; \<open>U\<close> are the Unicode tables behind
  \<open>strings.ToUpper\<close>.
\<close>

unbundle bit_operations_syntax

definition reservedSec :: u32 where "reservedSec = 32"
definition mkfs_numFATs :: u32 where "mkfs_numFATs = 2"

record fat_options =
  fo_Label :: gostr
  fo_SectorSize :: int

definition fo_sectorSize :: "fat_options \<Rightarrow> int" where
  "fo_sectorSize o' = (if fo_SectorSize o' = 0 then 512 else fo_SectorSize o')"

definition sectorsPerCluster :: "int \<Rightarrow> int \<Rightarrow> u8" where
  "sectorsPerCluster sizeBytes ss =
     (let mb = quot sizeBytes (1024 * 1024);
          clusterBytes = (if mb \<le> 64 then 512 else if mb \<le> 128 then 1024 else if mb \<le> 256 then 2048
                          else if mb \<le> 8 * 1024 then 4096 else if mb \<le> 16 * 1024 then 8192
                          else if mb \<le> 32 * 1024 then 16384 else 32768);
          spc0 = quot clusterBytes ss; spc1 = (if spc0 < 1 then 1 else spc0)
      in of_int (if spc1 > 128 then 128 else spc1))"

definition fatSize :: "u32 \<Rightarrow> u8 \<Rightarrow> u32" where
  "fatSize totalSectors spc =
     (let tmpVal1 = totalSectors - reservedSec; tmpVal2 = (256 * ucast spc + mkfs_numFATs) div 2
      in (tmpVal1 + tmpVal2 - 1) div tmpVal2)"

definition PadLabel :: "ucd \<Rightarrow> gostr \<Rightarrow> bytes" where
  "PadLabel U s0 = (let s = (if s0 = [] then bs ''NO NAME'' else s0) in copy_into (replicate 11 0x20) 0 (ToUpper U s))"

definition buildVBR :: "ucd \<Rightarrow> u32 \<Rightarrow> nat \<Rightarrow> u32 \<Rightarrow> u32 \<Rightarrow> u8 \<Rightarrow> fat_options \<Rightarrow> bytes" where
  "buildVBR U volumeID ss totalSectors fsz spc opts =
     (let v0 = copy_into (zeros ss) 0 [0xEB, 0x58, 0x90];
          v1 = copy_into v0 3 (bs ''MSDOS5.0'');
          v2 = put16 v1 11 (of_nat ss);
          v3 = put8 v2 13 spc;
          v4 = put16 v3 14 (ucast reservedSec);
          v5 = put8 v4 16 (ucast mkfs_numFATs);
          v6 = put8 v5 21 0xF8;
          v7 = put16 (put16 v6 24 63) 26 255;
          v8 = put32 (put32 (put32 v7 32 totalSectors) 36 fsz) 44 2;
          v9 = put16 (put16 v8 48 1) 50 6;
          v10 = put8 (put8 v9 64 0x80) 66 0x29;
          v11 = put32 v10 67 volumeID;
          v12 = copy_into (copy_into v11 71 (PadLabel U (fo_Label opts))) 82 (bs ''FAT32   '')
      in put8 (put8 v12 (ss - 2) 0x55) (ss - 1) 0xAA)"

definition buildFSInfo :: "nat \<Rightarrow> bytes" where
  "buildFSInfo ss = put32 (put32 (put32 (put32 (put32 (zeros ss) 0 0x41615252) 484 0x61417272) 488 0xFFFFFFFF) 492 0xFFFFFFFF) 508 0xAA550000"

text \<open>The sector buffer of \<open>writeFATs\<close>: the three reserved entries in the first sector of each copy.\<close>

definition fat_sector :: "nat \<Rightarrow> nat \<Rightarrow> bytes" where
  "fat_sector ss s = (if s = 0 then put32 (put32 (put32 (zeros ss) 0 0x0FFFFFF8) 4 0x0FFFFFFF) 8 0x0FFFFFFF else zeros ss)"

definition writeFATs :: "nat \<Rightarrow> u32 \<Rightarrow> (string \<times> bytes) list" where
  "writeFATs ss size' =
     concat (map (\<lambda>_. map (\<lambda>s. (''fat32: write FAT'', fat_sector ss s)) [0..<unat size']) [0..<unat mkfs_numFATs])"

definition writeVolumeLabel :: "ucd \<Rightarrow> bytes \<Rightarrow> gostr \<Rightarrow> bytes" where
  "writeVolumeLabel U buf label =
     (if length buf < 32 then buf else put8 (copy_into buf 0 (PadLabel U label)) 11 0x08)"

definition writeRootDir :: "ucd \<Rightarrow> nat \<Rightarrow> u8 \<Rightarrow> gostr \<Rightarrow> (string \<times> bytes) list" where
  "writeRootDir U ss spc label =
     (let buf = zeros (unat spc * ss)
      in [(''fat32: write root directory'', if label \<noteq> [] then writeVolumeLabel U buf label else buf)])"

text \<open>The reserved region: boot sector and FSInfo, with their backups at sectors 6 and 7.\<close>

definition reserved_sector :: "bytes \<Rightarrow> bytes \<Rightarrow> nat \<Rightarrow> nat \<Rightarrow> bytes" where
  "reserved_sector vbr fsinfo ss i = (if i = 0 \<or> i = 6 then vbr else if i = 1 \<or> i = 7 then fsinfo else zeros ss)"

definition fat32_Format :: "ucd \<Rightarrow> u32 \<Rightarrow> int \<Rightarrow> fat_options \<Rightarrow> (gofile \<times> sectionRWS, unit) sop" where
  "fat32_Format U volumeID sizeBytes opts =
     (let ss = fo_sectorSize opts in
      if \<not> isPow2 ss \<or> ss < 512 \<or> ss > 4096 then failS (Err ''fat32: unsupported sector size'')
      else let totalSectors = (of_int (quot sizeBytes ss) :: u32) in
        if totalSectors < 65536 then failS (Err ''fat32: partition too small'')
        else let spc = sectorsPerCluster sizeBytes ss; size' = fatSize totalSectors spc;
                 vbr = buildVBR U volumeID (nat ss) totalSectors size' spc opts; fsinfo = buildFSInfo (nat ss)
             in bindS (w_Seek 0) (\<lambda>_.
                bindS (w_all (map (\<lambda>i. (''fat32: write reserved sector'', reserved_sector vbr fsinfo (nat ss) i)) [0..<unat reservedSec])) (\<lambda>_.
                bindS (w_all (writeFATs (nat ss) size')) (\<lambda>_.
                w_all (writeRootDir U (nat ss) spc (fo_Label opts))))))"

end
