(* ===== verification/MkfsFat32Correct.thy ===== *)
theory MkfsFat32Correct
  imports MkfsFat32 FatNames FatStore FatDir
begin

text \<open>
  The FAT driver on a freshly formatted partition: what the formatter writes, and what the
  driver's \<open>Open\<close> makes of it.
\<close>

unbundle bit_operations_syntax

subsection \<open>What is written\<close>

lemma length_concat_const: "\<forall>x \<in> set xs. length x = n \<Longrightarrow> length (concat xs) = length xs * n"
  by (induction xs) auto

definition fat_bytes :: "nat \<Rightarrow> nat \<Rightarrow> bytes" where
  "fat_bytes n k = concat (map (fat_sector n) [0..<k])"

definition fat_image :: "ucd \<Rightarrow> u32 \<Rightarrow> nat \<Rightarrow> u32 \<Rightarrow> u8 \<Rightarrow> fat_options \<Rightarrow> bytes" where
  "fat_image U volumeID n tot sp opts =
     (let fsz = fatSize tot sp; vbr = buildVBR U volumeID n tot fsz sp opts in
      concat (map (reserved_sector vbr (buildFSInfo n) n) [0..<32]) @ fat_bytes n (unat fsz) @ fat_bytes n (unat fsz) @
      snd (hd (writeRootDir U n sp (fo_Label opts))))"

lemma length_fat_parts [simp]:
  "length (buildVBR U volumeID n tot fsz sp opts) = n" "length (buildFSInfo n) = n" "length (fat_sector n s) = n"
  "length (PadLabel U l) = 11" "length (writeVolumeLabel U b l) = length b"
  by (simp_all add: buildVBR_def buildFSInfo_def fat_sector_def PadLabel_def writeVolumeLabel_def Let_def)

lemma length_fat_bytes [simp]: "length (fat_bytes n k) = k * n"
  unfolding fat_bytes_def by (subst length_concat_const [of _ n]) auto

lemma length_reserved: "length (concat (map (reserved_sector (buildVBR U volumeID n tot fsz sp opts) (buildFSInfo n) n) [0..<32])) = 32 * n"
  by (subst length_concat_const [of _ n]) (auto simp: reserved_sector_def)

lemma length_fat_image:
  "length (fat_image U volumeID n tot sp opts) = (32 + 2 * unat (fatSize tot sp) + unat sp) * n"
  by (simp add: fat_image_def Let_def length_reserved writeRootDir_def algebra_simps)

lemma fat32_Format_eq:
  assumes "isPow2 ss" "512 \<le> ss" "ss \<le> 4096" "fo_sectorSize opts = ss" "65536 \<le> (of_int (quot sizeBytes ss) :: u32)"
    and "rws_ok f s" "\<not> closed f"
    and "int (length (fat_image U volumeID (nat ss) (of_int (quot sizeBytes ss)) (sectorsPerCluster sizeBytes ss) opts)) \<le> s_size s"
  shows "\<exists>s'. fat32_Format U volumeID sizeBytes opts (f, s) = (Inr (),
    f\<lparr>contents := write_bytes (contents f) (nat (s_base s))
       (fat_image U volumeID (nat ss) (of_int (quot sizeBytes ss)) (sectorsPerCluster sizeBytes ss) opts)\<rparr>, s')"
proof -
  let ?T = "of_int (quot sizeBytes ss) :: u32" let ?sp = "sectorsPerCluster sizeBytes ss"
  let ?vbr = "buildVBR U volumeID (nat ss) ?T (fatSize ?T ?sp) ?sp opts"
  let ?ws = "map (\<lambda>i. (''fat32: write reserved sector'', reserved_sector ?vbr (buildFSInfo (nat ss)) (nat ss) i)) [0..<unat reservedSec] @
    writeFATs (nat ss) (fatSize ?T ?sp) @ writeRootDir U (nat ss) ?sp (fo_Label opts)"
  have c: "concat (map snd ?ws) = fat_image U volumeID (nat ss) ?T ?sp opts"
    by (simp add: fat_image_def Let_def reservedSec_def writeFATs_def mkfs_numFATs_def fat_bytes_def writeRootDir_def comp_def upt_conv_Cons)
  have run: "fat32_Format U volumeID sizeBytes opts (f, s) = w_all ?ws (f, s\<lparr>s_pos := 0\<rparr>)"
  proof -
    define T where "T = ?T"
    have "\<not> T < 65536" using assms(5) by (simp add: T_def not_less)
    then show ?thesis
      using assms(1-4) unfolding fat32_Format_def Let_def assms(4) T_def [symmetric] by (simp add: w_Seek_bind w_all_append)
  qed
  have ok: "rws_ok f (s\<lparr>s_pos := 0\<rparr>)" using assms(6) by (simp add: rws_ok_def)
  have "s_pos (s\<lparr>s_pos := 0\<rparr>) + int (w_total ?ws) \<le> s_size (s\<lparr>s_pos := 0\<rparr>)"
    using assms(8) unfolding w_total_def c by simp
  from w_all_fits [OF ok assms(7) this] show ?thesis unfolding run c by simp
qed

subsection \<open>The boot sector\<close>

lemma boot_fields:
  assumes "512 \<le> n" "v = buildVBR U volumeID n tot fsz sp opts"
  shows "get16 v 11 = of_nat n" "v ! 13 = sp" "get16 v 14 = 32" "v ! 16 = 2" "get16 v 17 = 0" "get16 v 19 = 0"
    "get16 v 22 = 0" "get32 v 32 = tot" "get32 v 36 = fsz" "get32 v 44 = 2"
proof -
  have n: "510 \<le> n - 2" "511 \<le> n - 1" "512 \<le> n" using assms(1) by auto
  have z: "get16 (zeros n) k = 0" if "k + 2 \<le> n" for k using that by (simp add: get16_def)
  show "get16 v 11 = of_nat n" "v ! 13 = sp" "get16 v 14 = 32" "v ! 16 = 2" "get16 v 17 = 0" "get16 v 19 = 0"
    "get16 v 22 = 0" "get32 v 32 = tot" "get32 v 36 = fsz" "get32 v 44 = 2"
    unfolding assms(2) buildVBR_def Let_def using n
    by (simp_all add: codec_simps byte_simps reservedSec_def mkfs_numFATs_def z)
qed

subsection \<open>The table\<close>

lemma nth_fat_sector:
  assumes "12 \<le> n" "i < n"
  shows "fat_sector n s ! i = (if s = 0 \<and> i < 12 then [0xF8, 0xFF, 0xFF, 0x0F, 0xFF, 0xFF, 0xFF, 0x0F, 0xFF, 0xFF, 0xFF, 0x0F] ! i else 0)"
proof (cases "s = 0")
  case True
  have l: "le32 0x0FFFFFF8 = [0xF8, 0xFF, 0xFF, 0x0F]" "le32 0x0FFFFFFF = [0xFF, 0xFF, 0xFF, 0x0F]" by (simp_all add: le32_def)
  have "fat_sector n 0 = copy_into (zeros n) 0 [0xF8, 0xFF, 0xFF, 0x0F, 0xFF, 0xFF, 0xFF, 0x0F, 0xFF, 0xFF, 0xFF, 0x0F]"
    using copy_into_append [of "copy_into (zeros n) 0 (le32 0x0FFFFFF8)" 4 "le32 0x0FFFFFFF" "le32 0x0FFFFFFF"]
      copy_into_append [of "zeros n" 0 "le32 0x0FFFFFF8" "le32 0x0FFFFFFF @ le32 0x0FFFFFFF"]
    by (simp add: fat_sector_def put32_def l numeral_eq_Suc)
  then show ?thesis using True assms by (simp add: nth_copy_into)
qed (use assms in \<open>simp add: fat_sector_def\<close>)

lemma nth_concat_const:
  "\<forall>x \<in> set xs. length x = n \<Longrightarrow> i < length xs * n \<Longrightarrow> concat xs ! i = xs ! (i div n) ! (i mod n)"
proof (induction xs arbitrary: i)
  case (Cons x xs)
  show ?case
  proof (cases "i < n")
    case True
    then show ?thesis using Cons.prems by (simp add: nth_append)
  next
    case False
    have "0 < n" using Cons.prems by (cases n) auto
    then have "i div n = Suc ((i - n) div n)" "i mod n = (i - n) mod n"
      using False by (auto simp: le_div_geq le_mod_geq not_less)
    then show ?thesis using False Cons by (simp add: nth_append)
  qed
qed simp

lemma nth_fat_bytes:
  assumes "12 \<le> n" "i < k * n"
  shows "fat_bytes n k ! i = (if i < 12 then [0xF8, 0xFF, 0xFF, 0x0F, 0xFF, 0xFF, 0xFF, 0x0F, 0xFF, 0xFF, 0xFF, 0x0F] ! i else 0)"
proof -
  have d: "i div n < k" using assms by (simp add: less_mult_imp_div_less)
  have "fat_bytes n k ! i = fat_sector n (i div n) ! (i mod n)"
    unfolding fat_bytes_def using assms d by (subst nth_concat_const [of _ n]) auto
  also have "\<dots> = (if i < 12 then [0xF8, 0xFF, 0xFF, 0x0F, 0xFF, 0xFF, 0xFF, 0x0F, 0xFF, 0xFF, 0xFF, 0x0F] ! i else 0)"
    using assms nth_fat_sector [of n "i mod n" "i div n"] by (auto simp: div_eq_0_iff)
  finally show ?thesis .
qed

text \<open>In a new table only the first three entries are in use.\<close>

lemma fresh_fat_get:
  assumes "12 \<le> n" "4 * unat m + 4 \<le> k * n" "unat m < 2 ^ 28"
  shows "fat_get FAT32 (fat_bytes n k) m = Inr (if m = 0 then 0x0FFFFFF8 else if m < 3 then 0x0FFFFFFF else 0)"
proof -
  have u: "unat (m * 4) = 4 * unat m" "unat (m * 4 + 4) = 4 * unat m + 4"
    using off32 assms(3) by auto
  note b = nth_fat_bytes [OF assms(1)]
  have kn: "0 < k" "0 < n" using assms(1,2) by (cases k; auto)+
  consider "m = 0" | "m = 1" | "m = 2" | "3 \<le> unat m" by (auto simp: word_unat_eq_iff) linarith
  then show ?thesis
  proof cases
    case 4
    then have "get32 (fat_bytes n k) (4 * unat m) = 0" using assms(2) by (simp add: get32_def b)
    moreover have "\<not> m < 3" "m \<noteq> 0" using 4 by (auto simp: word_less_nat_alt)
    ultimately show ?thesis using u assms(2) by (simp add: fat_get_def slice_ok_def word_le_nat_alt)
  qed (use u assms(2) b kn in \<open>simp_all add: fat_get_def slice_ok_def word_le_nat_alt get32_def\<close>)
qed

subsection \<open>Sizes\<close>

text \<open>The size of the table in sectors and the number of clusters, as numbers.\<close>

definition fsz_nat :: "nat \<Rightarrow> nat \<Rightarrow> nat" where
  "fsz_nat T c = (T - 32 + 128 * c) div (128 * c + 1)"

definition cnt_nat :: "nat \<Rightarrow> nat \<Rightarrow> nat" where
  "cnt_nat T c = (T - (32 + 2 * fsz_nat T c)) div c"

lemma spc_range:
  assumes "512 \<le> ss" "ss \<le> 4096"
  shows "1 \<le> unat (sectorsPerCluster sizeBytes ss)" "unat (sectorsPerCluster sizeBytes ss) \<le> 128"
proof -
  have "unat (of_int (if (if x < 1 then 1 else x) > 128 then 128 else (if x < 1 then 1 else x)) :: u8) \<in> {1..128}" for x :: int
  proof -
    define y where "y = (if (if x < 1 then 1 else x) > 128 then 128 else (if x < 1 then 1 else x))"
    have "1 \<le> y" "y \<le> 128" by (auto simp: y_def)
    then have "uint (of_int y :: u8) = y" by (simp add: uint_word_of_int_eq take_bit_int_eq_self)
    then have "unat (of_int y :: u8) = nat y" by (simp add: unat_eq_nat_uint)
    then show ?thesis using \<open>1 \<le> y\<close> \<open>y \<le> 128\<close> unfolding y_def [symmetric] by auto
  qed
  moreover obtain x where "sectorsPerCluster sizeBytes ss =
      of_int (if (if x < 1 then 1 else x) > 128 then 128 else (if x < 1 then 1 else x))"
    unfolding sectorsPerCluster_def Let_def by blast
  ultimately have "unat (sectorsPerCluster sizeBytes ss) \<in> {1..128}" by presburger
  then show "1 \<le> unat (sectorsPerCluster sizeBytes ss)" "unat (sectorsPerCluster sizeBytes ss) \<le> 128" by simp_all
qed

lemma fatSize_nat:
  assumes "32 \<le> unat tot" "unat tot + 2 ^ 15 \<le> 2 ^ 32" "1 \<le> unat sp" "unat sp \<le> 128"
  shows "unat (fatSize tot sp) = fsz_nat (unat tot) (unat sp)"
proof -
  have c: "unat (ucast sp :: u32) = unat sp" by (rule unat_ucast8_32)
  have m: "unat (256 * ucast sp :: u32) = 256 * unat sp" using assms(4) by (subst unat_small_mult) (auto simp: c)
  then have "unat (256 * ucast sp + 2 :: u32) = 256 * unat sp + 2" using assms(4) by (subst unat_small_add) auto
  then have v2: "unat ((256 * ucast sp + mkfs_numFATs) div 2 :: u32) = 128 * unat sp + 1"
    by (simp add: mkfs_numFATs_def unat_div_distrib)
  have v1: "unat (tot - reservedSec) = unat tot - 32"
    using assms(1) by (subst unat_sub) (simp_all add: reservedSec_def word_le_nat_alt)
  define x y where "x = tot - reservedSec" and "y = ((256 * ucast sp + mkfs_numFATs) div 2 :: u32)"
  have "unat (x + y) = unat x + unat y" using v1 v2 assms by (subst unat_small_add) (auto simp: x_def y_def)
  then have "unat (x + y - 1) = unat x + unat y - 1" using v2 by (subst unat_sub) (auto simp: word_le_nat_alt y_def)
  then show ?thesis unfolding fatSize_def Let_def x_def [symmetric] y_def [symmetric]
    using v1 v2 by (simp add: unat_div_distrib x_def y_def fsz_nat_def)
qed

text \<open>The table has room for every cluster, and table and clusters fit into the volume.\<close>

lemma fsz_bounds:
  "fsz_nat T c * (128 * c + 1) \<le> T - 32 + 128 * c" "T - 32 \<le> fsz_nat T c * (128 * c + 1)"
  "cnt_nat T c * c \<le> T - (32 + 2 * fsz_nat T c)"
proof -
  show "fsz_nat T c * (128 * c + 1) \<le> T - 32 + 128 * c" unfolding fsz_nat_def by (rule div_times_less_eq_dividend)
  have "T - 32 + 128 * c < (fsz_nat T c + 1) * (128 * c + 1)"
    unfolding fsz_nat_def using dividend_less_div_times [of "128 * c + 1" "T - 32 + 128 * c"] by (simp add: algebra_simps)
  then show "T - 32 \<le> fsz_nat T c * (128 * c + 1)" by (simp add: algebra_simps)
  show "cnt_nat T c * c \<le> T - (32 + 2 * fsz_nat T c)" unfolding cnt_nat_def by (rule div_times_less_eq_dividend)
qed

lemma fsz_large:
  assumes "1 \<le> c" "65525 \<le> cnt_nat T c"
  shows "508 \<le> fsz_nat T c"
proof (rule ccontr)
  assume "\<not> 508 \<le> fsz_nat T c"
  then have "fsz_nat T c * (128 * c + 1) \<le> 507 * (128 * c + 1)" by (intro mult_le_mono1) simp
  moreover have "65525 * c \<le> cnt_nat T c * c" using assms(2) by (rule mult_le_mono1)
  then have "65525 * c \<le> T - 32" using fsz_bounds(3) [of T c] by linarith
  then have "65525 * c \<le> fsz_nat T c * (128 * c + 1)" using fsz_bounds(2) by (rule order_trans)
  ultimately have "65525 * c \<le> 507 * (128 * c + 1)" by (rule order_trans [rotated])
  then show False using assms(1) by simp
qed

lemma fsz_room:
  assumes "65536 \<le> T" "1 \<le> c" "c \<le> 128"
  shows "32 + 2 * fsz_nat T c \<le> T" "1 \<le> fsz_nat T c" "32 + 2 * fsz_nat T c + cnt_nat T c * c \<le> T"
    "65525 \<le> cnt_nat T c \<Longrightarrow> cnt_nat T c + 2 \<le> 128 * fsz_nat T c"
proof -
  let ?d = "128 * c + 1" let ?N = "fsz_nat T c"
  have "?N * 129 \<le> ?N * ?d" using assms(2) by (intro mult_le_mono2) simp
  then have "?N * 129 \<le> T - 32 + 128 * 128" using fsz_bounds(1) [of T c] assms(3) by linarith
  then show n2: "32 + 2 * ?N \<le> T" using assms(1) by linarith
  have "65504 \<le> ?N * ?d" using fsz_bounds(2) [of T c] assms(1) by linarith
  then show "1 \<le> ?N" by (cases "?N") auto
  show "32 + 2 * ?N + cnt_nat T c * c \<le> T" using n2 fsz_bounds(3) [of T c] by linarith
  assume "65525 \<le> cnt_nat T c"
  then have N2c: "2 * c \<le> ?N" using fsz_large assms(2,3) by fastforce
  have "T - (32 + 2 * ?N) + 2 * c \<le> 128 * ?N * c" using fsz_bounds(2) [of T c] N2c n2 by (simp add: algebra_simps)
  then have "(cnt_nat T c + 2) * c \<le> (128 * ?N) * c" using fsz_bounds(3) [of T c] by (simp add: add_mult_distrib)
  then show "cnt_nat T c + 2 \<le> 128 * ?N" using assms(2) unfolding mult_le_cancel2 by simp
qed

subsection \<open>Opening\<close>

text \<open>What \<open>readBPB\<close> makes of the boot sector.\<close>

definition fresh_bpb :: "nat \<Rightarrow> u32 \<Rightarrow> u8 \<Rightarrow> bpb" where
  "fresh_bpb n tot sp =
     (let fsz = fatSize tot sp; fds = 32 + 2 * fsz; cnt = (tot - fds) div ucast sp;
          ty = (if cnt < 4085 then FAT12 else if cnt < 65525 then FAT16 else FAT32)
      in \<lparr>bytesPerSec = of_nat n, secPerClus = sp, rsvdSecCnt = 32, numFATs = 2, rootEntCnt = 0, fatSz16 = 0,
          fatSz32 = fsz, rootClus = 2, totSec16 = 0, totSec32 = tot, fatType = ty, fatSz = fsz, firstDataSec = fds,
          cntClusters = cnt, rootDirSec = 0, firstRootDir = (if ty = FAT32 then 2 else fds),
          clusterSize = of_nat n * ucast sp\<rparr>)"

lemma unat_of_nat16: "n \<le> 4096 \<Longrightarrow> unat (of_nat n :: u16) = n"
  by (simp add: unat_of_nat)

lemma ucast_of_nat16: "n \<le> 4096 \<Longrightarrow> (ucast (of_nat n :: u16) :: u32) = of_nat n"
  by (simp add: word_unat_eq_iff unat_ucast16_32 unat_of_nat)

lemma no_root_sectors: "512 \<le> n \<Longrightarrow> n \<le> 4096 \<Longrightarrow> (of_nat n - 1 :: u32) div of_nat n = 0"
proof -
  assume n: "512 \<le> n" "n \<le> 4096"
  then have u: "unat (of_nat n :: u32) = n" by (simp add: unat_of_nat)
  then have "unat (of_nat n - 1 :: u32) = n - 1" using n by (subst unat_sub) (auto simp: word_le_nat_alt)
  then show ?thesis using u n by (simp add: word_unat_eq_iff unat_div_distrib)
qed

lemma get_sub_512:
  "off + 2 \<le> 512 \<Longrightarrow> 512 \<le> length b \<Longrightarrow> get16 (sub b 0 512) off = get16 b off"
  "off + 4 \<le> 512 \<Longrightarrow> 512 \<le> length b \<Longrightarrow> get32 (sub b 0 512) off = get32 b off"
  by (simp_all add: get16_def get32_def)

lemma fresh_readBPB:
  assumes "512 \<le> n" "n \<le> 4096" "1 \<le> unat sp"
    and "full (SecReadAt f sr 512 0) = Inr (sub (buildVBR U volumeID n tot (fatSize tot sp) sp opts) 0 512)"
  shows "readBPB f sr = Inr (fresh_bpb n tot sp)"
proof -
  note F = boot_fields [OF assms(1) refl, of U volumeID tot "fatSize tot sp" sp opts]
  have nz: "(of_nat n :: u16) \<noteq> 0" "sp \<noteq> 0" using assms unat_of_nat16 [OF assms(2)] by (auto simp: word_unat_eq_iff)
  show ?thesis
    using nz assms(1) no_root_sectors [OF assms(1,2)]
    by (simp add: readBPB_def assms(4) Let_def get_sub_512 F fresh_bpb_def ucast_of_nat16 [OF assms(2)] cong: if_cong)
qed

lemma fresh_geometry:
  assumes "65536 \<le> unat tot" "unat tot + 2 ^ 15 \<le> 2 ^ 32" "1 \<le> unat sp" "unat sp \<le> 128" "512 \<le> n" "n \<le> 4096"
  defines "b \<equiv> fresh_bpb n tot sp" and "N \<equiv> fsz_nat (unat tot) (unat sp)"
  shows "unat (fatSz b) = N" "unat (firstDataSec b) = 32 + 2 * N" "unat (cntClusters b) = cnt_nat (unat tot) (unat sp)"
    "unat (clusterSize b) = unat sp * n" "unat (bytesPerSec b) = n"
proof -
  have N: "unat (fatSize tot sp) = N" using fatSize_nat [of tot sp] assms(1-4) by (simp add: N_def)
  note R = fsz_room [OF assms(1,3,4), folded N_def]
  have "unat (2 * fatSize tot sp) = 2 * N" using R(1) assms(2) by (subst unat_small_mult) (auto simp: N)
  then have fd: "unat (32 + 2 * fatSize tot sp) = 32 + 2 * N" using R(1) assms(2) by (subst unat_small_add) auto
  then have ds: "unat (tot - (32 + 2 * fatSize tot sp)) = unat tot - (32 + 2 * N)"
    using R(1) by (subst unat_sub) (auto simp: word_le_nat_alt)
  show "unat (fatSz b) = N" "unat (firstDataSec b) = 32 + 2 * N" using N fd by (simp_all add: b_def fresh_bpb_def Let_def)
  show "unat (cntClusters b) = cnt_nat (unat tot) (unat sp)"
    using ds by (simp add: b_def fresh_bpb_def Let_def unat_div_distrib unat_ucast8_32 cnt_nat_def N_def)
  have "n * unat sp \<le> 4096 * 128" using assms(4,6) by (intro mult_le_mono) auto
  then show "unat (clusterSize b) = unat sp * n"
    using assms(6) unfolding b_def fresh_bpb_def Let_def
    by (simp add: mult.commute) (subst unat_small_mult, simp_all add: unat_of_nat unat_ucast8_32 mult.commute)
  show "unat (bytesPerSec b) = n" using assms(6) by (simp add: b_def fresh_bpb_def Let_def unat_of_nat)
qed

lemma fresh_type:
  assumes "65536 \<le> unat tot" "unat tot + 2 ^ 15 \<le> 2 ^ 32" "1 \<le> unat sp" "unat sp \<le> 128" "512 \<le> n" "n \<le> 4096"
  shows "fatType (fresh_bpb n tot sp) =
    (let c = cnt_nat (unat tot) (unat sp) in if c < 4085 then FAT12 else if c < 65525 then FAT16 else FAT32)"
proof -
  have "unat (cntClusters (fresh_bpb n tot sp)) = cnt_nat (unat tot) (unat sp)" using fresh_geometry(3) [OF assms] .
  moreover have "fatType (fresh_bpb n tot sp) =
    (let c = cntClusters (fresh_bpb n tot sp) in if c < 4085 then FAT12 else if c < 65525 then FAT16 else FAT32)"
    by (simp add: fresh_bpb_def Let_def)
  ultimately show ?thesis by (simp add: Let_def word_less_nat_alt)
qed

text \<open>
  A partition of \<open>sz\<close> bytes at \<open>base\<close> that holds a fresh image; \<open>n\<close> is the sector size.
\<close>

definition fresh_disk :: "ucd \<Rightarrow> u32 \<Rightarrow> nat \<Rightarrow> u32 \<Rightarrow> u8 \<Rightarrow> fat_options \<Rightarrow> nat \<Rightarrow> nat \<Rightarrow> bytes \<Rightarrow> gofile \<Rightarrow> bool" where
  "fresh_disk U volumeID n tot sp opts base sz c f \<longleftrightarrow>
     512 \<le> n \<and> n \<le> 4096 \<and> 65536 \<le> unat tot \<and> unat tot + 2 ^ 15 \<le> 2 ^ 32 \<and> 1 \<le> unat sp \<and> unat sp \<le> 128 \<and>
     1 \<le> cnt_nat (unat tot) (unat sp) \<and> unat tot * n \<le> sz \<and> base + sz \<le> length c \<and> int (base + sz) < 2 ^ 63 \<and>
     \<not> closed f \<and> contents f = write_bytes c base (fat_image U volumeID n tot sp opts)"

definition fresh_vol :: "nat \<Rightarrow> u32 \<Rightarrow> u8 \<Rightarrow> nat \<Rightarrow> nat \<Rightarrow> fatvol" where
  "fresh_vol n tot sp base sz =
     \<lparr>v_rw = True, v_sr = \<lparr>sec_base = int base, sec_limit = int (base + sz)\<rparr>, v_start = int base, v_b = fresh_bpb n tot sp,
      v_ft = fatType (fresh_bpb n tot sp), fat1 = fat_bytes n (fsz_nat (unat tot) (unat sp)), dirty = []\<rparr>"

lemma fresh_reads:
  assumes "fresh_disk U volumeID n tot sp opts base sz c f" "0 < k"
    and "off + k \<le> length (fat_image U volumeID n tot sp opts)"
  shows "SecReadAt f (v_sr (fresh_vol n tot sp base sz)) k (int off) = (sub (fat_image U volumeID n tot sp opts) off k, None)"
    "length (fat_image U volumeID n tot sp opts) \<le> sz"
proof -
  note D = assms(1) [unfolded fresh_disk_def]
  have R: "32 + 2 * fsz_nat (unat tot) (unat sp) + cnt_nat (unat tot) (unat sp) * unat sp \<le> unat tot"
    using fsz_room(3) [of "unat tot" "unat sp"] D by blast
  have "1 * unat sp \<le> cnt_nat (unat tot) (unat sp) * unat sp" using D by (intro mult_le_mono1) blast
  then have "(32 + 2 * fsz_nat (unat tot) (unat sp) + unat sp) * n \<le> unat tot * n" using R by (intro mult_le_mono1) linarith
  moreover have "unat (fatSize tot sp) = fsz_nat (unat tot) (unat sp)" using fatSize_nat [of tot sp] D by auto
  moreover have "unat tot * n \<le> sz" using D by blast
  ultimately show l: "length (fat_image U volumeID n tot sp opts) \<le> sz" unfolding length_fat_image by (metis order_trans)
  have lc: "length (contents f) = length c" using D l by (auto simp: length_write_bytes)
  have "sub (contents f) (base + off) k = sub (fat_image U volumeID n tot sp opts) off k"
    using D l assms(3) write_bytes_read [of off k "fat_image U volumeID n tot sp opts" base c] by auto
  moreover have "nat (int base + int off) = base + off" by simp
  ultimately show "SecReadAt f (v_sr (fresh_vol n tot sp base sz)) k (int off) = (sub (fat_image U volumeID n tot sp opts) off k, None)"
    using D assms(2,3) l lc by (subst SecReadAt_inside) (auto simp: fresh_vol_def sec_size_def)
qed

text \<open>The parts of the image.\<close>

lemma fat_image_parts:
  assumes "12 \<le> n" "N = unat (fatSize tot sp)" "img = fat_image U volumeID n tot sp opts"
  shows "sub img 0 n = buildVBR U volumeID n tot (fatSize tot sp) sp opts"
    "sub img (32 * n) (N * n) = fat_bytes n N"
    "sub img ((32 + 2 * N) * n) (unat sp * n) = snd (hd (writeRootDir U n sp (fo_Label opts)))"
proof -
  let ?vbr = "buildVBR U volumeID n tot (fatSize tot sp) sp opts"
  let ?r = "\<lambda>i. reserved_sector ?vbr (buildFSInfo n) n i"
  have r: "length (concat (map ?r [0..<32])) = 32 * n" by (rule length_reserved)
  have i: "img = concat (map ?r [0..<32]) @ fat_bytes n N @ fat_bytes n N @ snd (hd (writeRootDir U n sp (fo_Label opts)))"
    by (simp add: assms(2,3) fat_image_def Let_def)
  have c: "concat (map ?r [0..<32]) = ?vbr @ concat (map ?r [1..<32])"
    by (simp add: upt_conv_Cons reserved_sector_def)
  show "sub img 0 n = ?vbr" unfolding i c by (simp add: sub_def)
  show "sub img (32 * n) (N * n) = fat_bytes n N" unfolding i using r by (simp add: sub_def)
  have d: "drop ((32 + 2 * N) * n) img = snd (hd (writeRootDir U n sp (fo_Label opts)))"
    unfolding i using r by (simp add: add_mult_distrib)
  have "length (snd (hd (writeRootDir U n sp (fo_Label opts)))) = unat sp * n" by (simp add: writeRootDir_def Let_def)
  then show "sub img ((32 + 2 * N) * n) (unat sp * n) = snd (hd (writeRootDir U n sp (fo_Label opts)))"
    unfolding sub_def d by simp
qed

lemma fresh_open:
  assumes "fresh_disk U volumeID n tot sp opts base sz c f"
  shows "fat_Open f (int base) (int sz) ft = Inr (fresh_vol n tot sp base sz)"
proof -
  note D = assms [unfolded fresh_disk_def]
  have n: "512 \<le> n" "n \<le> 4096" "12 \<le> n" "1 \<le> unat sp" using D by auto
  let ?img = "fat_image U volumeID n tot sp opts" let ?N = "unat (fatSize tot sp)"
  have N: "?N = fsz_nat (unat tot) (unat sp)" using fatSize_nat [of tot sp] D by auto
  have N1: "1 \<le> ?N" unfolding N using fsz_room(2) [of "unat tot" "unat sp"] D by blast
  note P = fat_image_parts [OF n(3) refl refl, where U = U and volumeID = volumeID and tot = tot and sp = sp and opts = opts]
  have sr: "NewSectionReader (int base) (int sz) = v_sr (fresh_vol n tot sp base sz)"
    using D by (auto simp: NewSectionReader_def fresh_vol_def)
  have l: "length ?img = (32 + 2 * ?N + unat sp) * n" by (rule length_fat_image)
  have "512 \<le> length ?img" unfolding l using n by (simp add: add_mult_distrib)
  then have "SecReadAt f (v_sr (fresh_vol n tot sp base sz)) 512 0 = (sub ?img 0 512, None)"
    using fresh_reads(1) [OF assms, of 512 0] by simp
  moreover have "sub ?img 0 512 = sub (sub ?img 0 n) 0 512" using n by (simp add: sub_sub)
  ultimately have b: "readBPB f (v_sr (fresh_vol n tot sp base sz)) = Inr (fresh_bpb n tot sp)"
    using P(1) n by (intro fresh_readBPB [where U = U and volumeID = volumeID and opts = opts]) simp_all
  have g: "unat (fatSz (fresh_bpb n tot sp)) = ?N" "unat (bytesPerSec (fresh_bpb n tot sp)) = n"
    using fresh_geometry(1,5) [of tot sp n] D N by auto
  have "0 < ?N * n" using N1 n by simp
  moreover have "32 * n + ?N * n \<le> length ?img" unfolding l by (simp add: add_mult_distrib)
  ultimately have "SecReadAt f (v_sr (fresh_vol n tot sp base sz)) (?N * n) (int (32 * n)) = (fat_bytes n ?N, None)"
    using fresh_reads(1) [OF assms, of "?N * n" "32 * n"] unfolding P(2) by blast
  then have "readFATTable f (v_sr (fresh_vol n tot sp base sz)) (fresh_bpb n tot sp) = Inr (fat_bytes n ?N)"
    using g by (simp add: readFATTable_def del: of_nat_unat) (simp add: fresh_bpb_def Let_def)
  then show ?thesis using b sr N by (simp add: fat_Open_def Let_def fresh_vol_def)
qed

subsection \<open>The fresh volume\<close>

lemma fresh_ok:
  assumes "fresh_disk U volumeID n tot sp opts base sz c f" "65525 \<le> cnt_nat (unat tot) (unat sp)"
    and "cnt_nat (unat tot) (unat sp) \<le> 0x0FFFFFF6"
  defines "v \<equiv> fresh_vol n tot sp base sz"
  shows "fatType (v_b v) = FAT32" "fat_ok v" "geom_ok f v"
    "is_clus v m \<Longrightarrow> nxt v m = (if m = 2 then 0x0FFFFFFF else 0)"
proof -
  note D = assms(1) [unfolded fresh_disk_def]
  have r: "65536 \<le> unat tot" "unat tot + 2 ^ 15 \<le> 2 ^ 32" "1 \<le> unat sp" "unat sp \<le> 128" "512 \<le> n" "n \<le> 4096" using D by auto
  let ?N = "fsz_nat (unat tot) (unat sp)" let ?cnt = "cnt_nat (unat tot) (unat sp)"
  note G = fresh_geometry [OF r] and R = fsz_room [OF r(1,3,4)]
  have room: "?cnt + 2 \<le> 128 * ?N" using R(4) assms(2) .
  show t: "fatType (v_b v) = FAT32" using fresh_type [OF r] assms(2) by (simp add: v_def fresh_vol_def Let_def)
  have vb: "v_b v = fresh_bpb n tot sp" "fat1 v = fat_bytes n ?N" "dirty v = []" by (simp_all add: v_def fresh_vol_def)
  have "128 * ?N * 4 \<le> ?N * n" using r(5) by simp
  moreover have "4 * (?cnt + 2) \<le> 128 * ?N * 4" using room by simp
  ultimately have fl: "4 * (?cnt + 2) \<le> ?N * n" by (rule order_trans [rotated])
  have cn: "?cnt + 2 \<le> unat (eoc_min FAT32)" using assms(3) by (simp add: eoc_min_def)
  show "fat_ok v" using t fl cn G(3) by (simp add: fat_ok_def vb ent_width_def)
  have cs: "unat (secPerClus (v_b v)) = unat sp" by (simp add: vb fresh_bpb_def Let_def)
  have total: "(32 + 2 * ?N + ?cnt * unat sp) * n \<le> sz"
  proof -
    have "(32 + 2 * ?N + ?cnt * unat sp) * n \<le> unat tot * n" using R(3) by (rule mult_le_mono1)
    then show ?thesis using D by (meson order_trans)
  qed
  show "geom_ok f v"
    unfolding geom_ok_def
  proof (intro conjI)
    have "length (contents f) = length c" using D fresh_reads(2) [OF assms(1), of 1 0] R r by (auto simp: length_write_bytes length_fat_image)
    then show "in_image f v" using D by (auto simp: in_image_def v_def fresh_vol_def)
    show "int ((unat (firstDataSec (v_b v)) + unat (cntClusters (v_b v)) * unat (secPerClus (v_b v))) * sec_bytes v) \<le> sec_size (v_sr v)"
    proof -
      have "(unat (firstDataSec (v_b v)) + unat (cntClusters (v_b v)) * unat (secPerClus (v_b v))) * sec_bytes v =
          (32 + 2 * ?N + ?cnt * unat sp) * n"
        using G cs by (simp add: vb sec_bytes_def)
      moreover have "sec_size (v_sr v) = int sz" by (simp add: v_def fresh_vol_def sec_size_def)
      ultimately show ?thesis using total by (simp only: of_nat_le_iff)
    qed
  qed (use G r R cs in \<open>auto simp: sec_bytes_def cluster_bytes_def vb\<close>)
  show "nxt v m = (if m = 2 then 0x0FFFFFFF else 0)" if "is_clus v m"
  proof -
    have m: "2 \<le> unat m" "unat m < ?cnt + 2" using that G(3) by (auto simp: is_clus_def vb)
    have "fat_get FAT32 (fat_bytes n ?N) m = Inr (if m = 0 then 0x0FFFFFF8 else if m < 3 then 0x0FFFFFFF else 0)"
      using m fl cn r by (intro fresh_fat_get) (auto simp: eoc_min_def)
    moreover have "m \<noteq> 0" "m < 3 \<longleftrightarrow> m = 2" using m by (auto simp: word_less_nat_alt word_unat_eq_iff)
    ultimately show ?thesis using t by (simp add: nxt_def fatEntry_def vb)
  qed
qed

text \<open>The root directory of a fresh volume: at most a volume label, which the scanner passes over.\<close>

definition root_buf :: "ucd \<Rightarrow> nat \<Rightarrow> u8 \<Rightarrow> gostr \<Rightarrow> bytes" where
  "root_buf U n sp label = snd (hd (writeRootDir U n sp label))"

lemma length_root_buf [simp]: "length (root_buf U n sp label) = unat sp * n"
  by (simp add: root_buf_def writeRootDir_def Let_def)

lemma nth_root_buf:
  assumes "64 \<le> unat sp * n"
  shows "root_buf U n sp label ! 32 = 0" "label = [] \<Longrightarrow> root_buf U n sp label ! 0 = 0"
    "label \<noteq> [] \<Longrightarrow> root_buf U n sp label ! 11 = 0x08"
proof -
  have p: "0 < unat sp" "0 < n" using assms by (auto intro: Nat.gr0I)
  show "root_buf U n sp label ! 32 = 0" "label = [] \<Longrightarrow> root_buf U n sp label ! 0 = 0"
    "label \<noteq> [] \<Longrightarrow> root_buf U n sp label ! 11 = 0x08"
    using assms p by (simp_all add: root_buf_def writeRootDir_def writeVolumeLabel_def put8_def Let_def nth_copy_into nth_list_update)
qed

lemma scan_root_buf:
  assumes "64 \<le> unat sp * n"
  shows "entries (fst (process_all (root_buf U n sp label) c 0 scan0)) = []"
proof -
  let ?b = "root_buf U n sp label"
  note r = nth_root_buf [OF assms, where U = U and label = label]
  have p0: "0 < unat sp" "0 < n" using assms by (auto intro: Nat.gr0I)
  then have h: "sub ?b 0 32 ! 0 = ?b ! 0" "sub ?b 0 32 ! 11 = ?b ! 11" using assms by simp_all
  have stop: "process_all ?b c 1 s = (s, False)" for s
    using assms r(1) by (subst process_all.simps) (simp add: process_def)
  have first: "entries (fst (process (sub ?b 0 32) c 0 scan0)) = []"
    using h r(2,3) by (cases "label = []") (simp_all add: process_def scan0_def attrLFN_def attrVolumeID_def)
  obtain s go where p: "process (sub ?b 0 32) c 0 scan0 = (s, go)" by fastforce
  show ?thesis using assms p first stop by (subst process_all.simps) (auto split: if_splits)
qed

lemma overlay_nothing [simp]: "overlay [] s first k buf = buf"
  by (induction k) (simp_all add: overlay_Suc, simp add: overlay_def)

lemma fresh_root:
  assumes "fresh_disk U volumeID n tot sp opts base sz c f" "65525 \<le> cnt_nat (unat tot) (unat sp)"
    and "cnt_nat (unat tot) (unat sp) \<le> 0x0FFFFFF6"
  defines "v \<equiv> fresh_vol n tot sp base sz"
  shows "readDirFromCluster f v 2 = Inr []"
proof -
  note D = assms(1) [unfolded fresh_disk_def] and K = fresh_ok [OF assms(1-3), folded v_def]
  have r: "65536 \<le> unat tot" "unat tot + 2 ^ 15 \<le> 2 ^ 32" "1 \<le> unat sp" "unat sp \<le> 128" "512 \<le> n" "n \<le> 4096" using D by auto
  note G = fresh_geometry [OF r]
  let ?img = "fat_image U volumeID n tot sp opts" let ?N = "unat (fatSize tot sp)"
  have N: "?N = fsz_nat (unat tot) (unat sp)" using fatSize_nat [of tot sp] r by auto
  have c2: "is_clus v 2" using assms(2) G(3) by (simp add: is_clus_def v_def fresh_vol_def)
  have "1 * 512 \<le> unat sp * n" using r by (intro mult_le_mono) auto
  then have big: "64 \<le> unat sp * n" by simp
  have "clusterByteOff v 2 = int ((32 + 2 * ?N) * n)"
    using clusterByteOff_eq [OF c2] G N by (simp add: clus_sec_def v_def fresh_vol_def sec_bytes_def)
  moreover have "SecReadAt f (v_sr v) (unat sp * n) (int ((32 + 2 * ?N) * n)) = (root_buf U n sp (fo_Label opts), None)"
  proof -
    have "0 < unat sp * n" "(32 + 2 * ?N) * n + unat sp * n \<le> length ?img" using r by (simp_all add: length_fat_image add_mult_distrib)
    then show ?thesis using fresh_reads(1) [OF assms(1)] fat_image_parts(3) [of n ?N tot sp ?img U volumeID opts] r(5)
      by (simp add: v_def root_buf_def del: of_nat_mult of_nat_add)
  qed
  ultimately have rc: "readCluster f v 2 = Inr (root_buf U n sp (fo_Label opts))"
    using G(4) by (simp add: readCluster_def v_def fresh_vol_def)
  have e: "fatEntry v 2 = Inr 0x0FFFFFFF" using fatEntry_nxt [OF K(2) c2] K(4) [OF c2] by simp
  have q: "isEOC v 0x0FFFFFFF" using K(1) by (simp add: isEOC_def eoc_min_def)
  obtain k where k: "chain_fuel v = Suc k" by (simp add: chain_fuel_def)
  show ?thesis
    using scan_root_buf [OF big, of U "fo_Label opts" 2] K(1)
    by (auto simp: readDirFromCluster_def k e rc q split: prod.splits)
qed

text \<open>Formatting a partition window.\<close>

lemma fat32_Format_fresh:
  assumes "isPow2 ss" "512 \<le> ss" "ss \<le> 4096" "fo_sectorSize opts = ss" "T = nat (quot (s_size s) ss)"
    and "65536 \<le> T" "T + 2 ^ 15 \<le> 2 ^ 32" "rws_ok f s" "\<not> closed f" "s_base s + s_size s < 2 ^ 63"
    and "sp = sectorsPerCluster (s_size s) ss" "1 \<le> cnt_nat T (unat sp)"
  shows "\<exists>f' s'. fat32_Format U volumeID (s_size s) opts (f, s) = (Inr (), f', s') \<and>
    fresh_disk U volumeID (nat ss) (of_nat T) sp opts (nat (s_base s)) (nat (s_size s)) (contents f) f' \<and> unat (of_nat T :: u32) = T"
proof -
  let ?img = "fat_image U volumeID (nat ss) (of_nat T) sp opts"
  have uT: "unat (of_nat T :: u32) = T" using assms(7) by (simp add: unat_of_nat)
  have sz0: "0 \<le> s_size s" using assms(2,5,6) by (intro quot_pos_dividend [of ss]) linarith+
  have q: "quot (s_size s) ss = int T" using assms(2,5,6) by simp
  have oT: "of_int (quot (s_size s) ss) = (of_nat T :: u32)" by (simp add: q)
  note sp = spc_range [OF assms(2,3), of "s_size s", folded assms(11)]
  have Tss: "T * nat ss \<le> nat (s_size s)"
  proof -
    have "s_size s div ss * ss \<le> s_size s" using assms(2) by (simp add: div_mod_decomp_int [symmetric] minus_mod_eq_div_mult [symmetric])
    then have "int T * ss \<le> s_size s" using q sz0 assms(2) by simp
    then show ?thesis using assms(2) by (metis nat_int nat_mono nat_mult_distrib of_nat_0_le_iff)
  qed
  have len: "length ?img \<le> nat (s_size s)"
  proof -
    have "1 * unat sp \<le> cnt_nat T (unat sp) * unat sp" using assms(12) by (rule mult_le_mono1)
    then have "32 + 2 * fsz_nat T (unat sp) + unat sp \<le> T" using fsz_room(3) [OF assms(6) sp] by linarith
    then have "length ?img \<le> T * nat ss"
      unfolding length_fat_image using fatSize_nat [of "of_nat T" sp] uT assms(6,7) sp by (intro mult_le_mono1) simp
    then show ?thesis using Tss by linarith
  qed
  have g: "65536 \<le> (of_int (quot (s_size s) ss) :: u32)" unfolding oT using uT assms(6) by (simp add: word_le_nat_alt)
  have ci: "int (length (fat_image U volumeID (nat ss) (of_int (quot (s_size s) ss)) (sectorsPerCluster (s_size s) ss) opts)) \<le> s_size s"
    unfolding oT assms(11) [symmetric] using len sz0 by linarith
  obtain s' where F: "fat32_Format U volumeID (s_size s) opts (f, s) =
      (Inr (), f\<lparr>contents := write_bytes (contents f) (nat (s_base s)) ?img\<rparr>, s')"
    using fat32_Format_eq [OF assms(1-4) g assms(8,9) ci] unfolding oT assms(11) [symmetric] by blast
  have "nat (s_base s) + nat (s_size s) \<le> length (contents f)" using assms(8) sz0 by (auto simp: rws_ok_def file_size_def)
  then have "fresh_disk U volumeID (nat ss) (of_nat T) sp opts (nat (s_base s)) (nat (s_size s)) (contents f)
      (f\<lparr>contents := write_bytes (contents f) (nat (s_base s)) ?img\<rparr>)"
    using assms(2,3,6,7,8,9,10,12) uT sp Tss sz0 by (auto simp: fresh_disk_def rws_ok_def)
  then show ?thesis using F uT by blast
qed

text \<open>
  A volume with fewer than 65525 clusters is not FAT32 for the driver, and the fixed root directory
  the driver then looks for has no room for a single entry.
\<close>

lemma fresh_small:
  assumes "fresh_disk U volumeID n tot sp opts base sz c f" "4085 \<le> cnt_nat (unat tot) (unat sp)" "cnt_nat (unat tot) (unat sp) < 65525"
  defines "v \<equiv> fresh_vol n tot sp base sz"
  shows "fatType (v_b v) = FAT16" "root_bytes f v = Inr []"
proof -
  note D = assms(1) [unfolded fresh_disk_def]
  have r: "65536 \<le> unat tot" "unat tot + 2 ^ 15 \<le> 2 ^ 32" "1 \<le> unat sp" "unat sp \<le> 128" "512 \<le> n" "n \<le> 4096" using D by auto
  note G = fresh_geometry [OF r] and R = fsz_room [OF r(1,3,4)]
  show t: "fatType (v_b v) = FAT16" using fresh_type [OF r] assms(2,3) by (simp add: v_def fresh_vol_def Let_def)
  have "firstRootDir (v_b v) = firstDataSec (v_b v)" using t by (simp add: v_def fresh_vol_def fresh_bpb_def Let_def split: if_splits)
  then have o: "int (unat (firstRootDir (v_b v))) * int (unat (bytesPerSec (v_b v))) = int ((32 + 2 * fsz_nat (unat tot) (unat sp)) * n)"
    using G by (simp add: v_def fresh_vol_def del: of_nat_unat)
  have "1 * unat sp \<le> cnt_nat (unat tot) (unat sp) * unat sp" using assms(2) by (intro mult_le_mono1) simp
  then have "32 + 2 * fsz_nat (unat tot) (unat sp) < unat tot" using R(3) r(3) by linarith
  then have "(32 + 2 * fsz_nat (unat tot) (unat sp)) * n < unat tot * n" using r(5) by (simp only: mult_less_cancel2) simp
  then have lt: "(32 + 2 * fsz_nat (unat tot) (unat sp)) * n < sz" using D by (meson order_less_le_trans)
  have rz: "unat (rootEntCnt (v_b v)) = 0" by (simp add: v_def fresh_vol_def fresh_bpb_def Let_def)
  have "SecReadAt f (v_sr v) 0 (int ((32 + 2 * fsz_nat (unat tot) (unat sp)) * n)) = ([], None)"
    using lt by (simp add: SecReadAt_def ReadAt_def sec_size_def v_def fresh_vol_def Let_def del: of_nat_mult)
  then show "root_bytes f v = Inr []" unfolding root_bytes_def o rz by simp
qed

subsection \<open>Detection\<close>

lemma image_nth:
  assumes "12 \<le> n" "i < (32 + unat (fatSize tot sp)) * n"
  shows "fat_image U volumeID n tot sp opts ! i =
    (if i < 32 * n then reserved_sector (buildVBR U volumeID n tot (fatSize tot sp) sp opts) (buildFSInfo n) n (i div n) ! (i mod n)
     else fat_bytes n (unat (fatSize tot sp)) ! (i - 32 * n))"
proof -
  let ?r = "reserved_sector (buildVBR U volumeID n tot (fatSize tot sp) sp opts) (buildFSInfo n) n"
  have l: "length (concat (map ?r [0..<32])) = 32 * n" by (rule length_reserved)
  have "concat (map ?r [0..<32]) ! i = ?r (i div n) ! (i mod n)" if "i < 32 * n"
  proof -
    have "i div n < 32" using that assms(1) by (simp add: less_mult_imp_div_less)
    then show ?thesis using that by (subst nth_concat_const [of _ n]) (auto simp: reserved_sector_def)
  qed
  then show ?thesis using assms l by (auto simp: fat_image_def Let_def nth_append add_mult_distrib)
qed

lemma boot_bytes:
  assumes "512 \<le> n"
  shows "buildVBR U volumeID n tot fsz sp opts ! 0 = 0xEB" "buildVBR U volumeID n tot fsz sp opts ! 3 = 0x4D"
    "sub (buildVBR U volumeID n tot fsz sp opts) 82 8 = bs ''FAT32   ''"
    "buildVBR U volumeID n tot fsz sp opts ! 510 = (if n = 512 then 0x55 else 0)"
    "n = 512 \<Longrightarrow> buildVBR U volumeID n tot fsz sp opts ! 511 = 0xAA"
    "91 \<le> i \<Longrightarrow> i + 2 < n \<Longrightarrow> buildVBR U volumeID n tot fsz sp opts ! i = 0"
  using assms
  by (auto simp: buildVBR_def Let_def put8_def put16_def put32_def nth_copy_into nth_list_update le16_def le32_def intro!: sub_eqI)

lemma fresh_detect:
  assumes "fresh_disk U volumeID n tot sp opts base sz c f" "n \<in> {512, 1024, 2048, 4096}"
    and "Start r = int base" "End r = int (base + sz)" "65525 \<le> cnt_nat (unat tot) (unat sp)"
  shows "detect_region f r = (if n = 512 then FAT32 else Unknown)"
proof -
  note D = assms(1) [unfolded fresh_disk_def]
  let ?img = "fat_image U volumeID n tot sp opts" let ?vbr = "buildVBR U volumeID n tot (fatSize tot sp) sp opts"
  define rd where "rd off k = full (SecReadAt f (NewSectionReader (Start r) (region_Size r)) k off)" for off k
  have n: "512 \<le> n" "12 \<le> n" using D by auto
  have N: "508 \<le> unat (fatSize tot sp)"
    using fatSize_nat [of tot sp] fsz_large [of "unat sp" "unat tot"] D assms(5) by auto
  have sr: "NewSectionReader (Start r) (region_Size r) = v_sr (fresh_vol n tot sp base sz)"
    using D assms(3,4) by (auto simp: NewSectionReader_def fresh_vol_def region_Size_def)
  have long: "(32 + unat (fatSize tot sp)) * n \<le> length ?img" by (simp add: length_fat_image)
  have rd: "rd (int off) k = Inr (sub ?img off k)" if "0 < k" "off + k \<le> length ?img" for off k
    using fresh_reads(1) [OF assms(1) that] by (simp add: rd_def sr)
  have "32 * n + 508 * n \<le> (32 + unat (fatSize tot sp)) * n" using N by (simp add: add_mult_distrib)
  then have len: "276480 \<le> (32 + unat (fatSize tot sp)) * n" using n by linarith
  have no: "\<not> magic_at rd (int off) m" if "m \<noteq> []" "off + length m \<le> 276480" "?img ! off \<noteq> hd m" for off m
  proof
    assume "magic_at rd (int off) m"
    then have "sub ?img off (length m) = m" using rd [of "length m" off] that len long by (auto simp: magic_at_def)
    then have "sub ?img off (length m) ! 0 = m ! 0" by simp
    moreover have "off + 0 < length ?img" using that(1,2) len long by (cases m) auto
    ultimately show False using that(1,3) nth_sub [of 0 "length m" off ?img] by (simp add: hd_conv_nth)
  qed
  note I = image_nth [OF n(2), where U = U and volumeID = volumeID and tot = tot and sp = sp and opts = opts]
  have nl: "n \<le> (32 + unat (fatSize tot sp)) * n" by simp
  have v0: "?img ! i = ?vbr ! i" if "i < n" for i
    using I [OF order_less_le_trans [OF that nl]] that by (simp add: reserved_sector_def)
  have l1: "65600 < (32 + unat (fatSize tot sp)) * n" "1080 < (32 + unat (fatSize tot sp)) * n" using len by linarith+
  have z: "?img ! 65600 = 0"
  proof (cases "65600 < 32 * n")
    case True
    then have "n = 4096" using assms(2) by auto
    then show ?thesis unfolding I [OF l1(1)] by (simp add: reserved_sector_def)
  next
    case False
    then have "65600 - 32 * n < unat (fatSize tot sp) * n" using l1(1) by (simp add: add_mult_distrib)
    moreover have "12 \<le> 65600 - 32 * n" using assms(2) False by auto
    ultimately show ?thesis unfolding I [OF l1(1)] using nth_fat_bytes [OF n(2)] False by simp
  qed
  have z1: "?img ! 1080 = 0"
  proof -
    consider "n = 512" | "n = 1024" | "n = 2048" | "n = 4096" using assms(2) by auto
    then show ?thesis unfolding I [OF l1(2)]
      by cases (simp_all add: reserved_sector_def buildFSInfo_def put32_def nth_copy_into le32_def boot_bytes(6))
  qed
  have m: "\<not> magic_at rd 0x10040 (bs ''_BHRfS_M'')" "\<not> magic_at rd 1080 [0x53, 0xEF]"
    using no [of "bs ''_BHRfS_M''" 65600] no [of "[0x53, 0xEF]" 1080] z z1 by simp_all
  have m2: "\<not> magic_at rd 0 [0x58, 0x46, 0x53, 0x42]" "\<not> magic_at rd 3 (bs ''NTFS    '')"
    using no [of "[0x58, 0x46, 0x53, 0x42]" 0] no [of "bs ''NTFS    ''" 3] v0 [of 0] v0 [of 3] boot_bytes(1,2) [OF n(1)] n by simp_all
  show ?thesis
  proof (cases "n = 512")
    case False
    then have "\<not> magic_at rd 510 [0x55, 0xAA]" using no [of "[0x55, 0xAA]" 510] v0 [of 510] boot_bytes(4) [OF n(1)] n by simp
    then show ?thesis using False m m2 by (simp add: detect_region_def Detect_def rd_def [symmetric])
  next
    case True
    have v: "sub ?img 0 512 = ?vbr" using fat_image_parts(1) [OF n(2) refl refl] True by simp
    have "sub ?img 510 2 = sub ?vbr 510 2" "sub ?img 82 8 = sub ?vbr 82 8" by (simp_all add: v [symmetric] sub_sub)
    moreover have "sub ?vbr 510 2 = [0x55, 0xAA]" using True boot_bytes(4,5) [OF n(1)] by (intro sub_eqI) (auto simp: less_2_cases_iff)
    ultimately have "magic_at rd 510 [0x55, 0xAA]" "rd 82 8 = Inr (bs ''FAT32   '')"
      using rd [of 2 510] rd [of 8 82] boot_bytes(3) [OF n(1)] len long by (simp_all add: magic_at_def numeral_2_eq_2)
    then show ?thesis using True m m2 by (simp add: detect_region_def Detect_def rd_def [symmetric])
  qed
qed

end
