(* ===== verification/MkfsExfat.thy ===== *)
theory MkfsExfat
  imports MkfsIO
begin

text \<open>
  The exFAT formatter (\<open>src/mkfs/exfat\<close>).  Go's \<open>int\<close> and \<open>int64\<close> are integers: every
  quantity is bounded by the size of the partition in bytes.  The volume serial number, which the
  code draws from the clock, is the argument \<open>volSerial\<close>.
\<close>

unbundle bit_operations_syntax

subsection \<open>Helpers\<close>

definition UpcaseTableBytes :: int where "UpcaseTableBytes = 131072"

record exfat_options =
  xo_Label :: gostr
  xo_SectorSize :: int

definition xo_sectorSize :: "exfat_options \<Rightarrow> int" where
  "xo_sectorSize o' = (if xo_SectorSize o' = 0 then 512 else xo_SectorSize o')"

definition roundUpI :: "int \<Rightarrow> int \<Rightarrow> int" where
  "roundUpI n m = (if m = 0 then n else quot (n + m - 1) m * m)"

definition spcShift :: "int \<Rightarrow> int \<Rightarrow> u8" where
  "spcShift sizeBytes ss =
     (let mb = quot sizeBytes (1024 * 1024);
          clusterBytes = (if mb \<le> 256 then 4096 else if mb \<le> 32 * 1024 then 32768 else 131072);
          spc0 = quot clusterBytes ss
      in floorLog2 (if spc0 < 1 then 1 else spc0))"

subsection \<open>The layout\<close>

record exfat_fsLayout =
  x_totalSectors :: int
  x_fatOffset :: int
  x_fatSectors :: int
  x_clusterHeapOffset :: int
  x_clusterCount :: int
  x_clusterBytes :: int
  x_bitmapClusters :: int
  x_bitmapBytes :: int
  x_upcaseFirstCluster :: int
  x_upcaseClusters :: int
  x_rootDirCluster :: int
  x_bpsShift :: u8
  x_spcShift :: u8

definition exfat_computeLayout :: "int \<Rightarrow> int \<Rightarrow> exfat_fsLayout res" where
  "exfat_computeLayout sizeBytes ss =
     (let totalSectors = quot sizeBytes ss in
      if totalSectors < 2048 then Inl (Err ''exfat: volume too small (need 2048 sectors)'')
      else let shift = spcShift sizeBytes ss; spc = 2 ^ unat shift; clusterBytes = spc * ss;
               fatOffset = 24;
               maxClusters = quot totalSectors spc; entriesPerSector = quot ss 4;
               fatSectors = roundUpI (quot (maxClusters + 2 + entriesPerSector - 1) entriesPerSector) spc;
               clusterHeapOffset = roundUpI (fatOffset + fatSectors) spc;
               clusterCount = quot (totalSectors - clusterHeapOffset) spc
           in if clusterCount < 3 then Inl (Err ''exfat: volume too small for metadata'')
              else let bitmapBytes = quot (clusterCount + 7) 8;
                       bc = quot (bitmapBytes + clusterBytes - 1) clusterBytes;
                       bitmapClusters = (if bc < 1 then 1 else bc);
                       upcaseClusters = quot (UpcaseTableBytes + clusterBytes - 1) clusterBytes;
                       upcaseFirstCluster = 2 + bitmapClusters;
                       rootDirCluster = upcaseFirstCluster + upcaseClusters
                   in if rootDirCluster + 1 > clusterCount + 2
                      then Inl (Err ''exfat: not enough clusters for filesystem metadata'')
                      else Inr \<lparr>x_totalSectors = totalSectors, x_fatOffset = fatOffset, x_fatSectors = fatSectors,
                        x_clusterHeapOffset = clusterHeapOffset, x_clusterCount = clusterCount,
                        x_clusterBytes = clusterBytes, x_bitmapClusters = bitmapClusters,
                        x_bitmapBytes = bitmapBytes, x_upcaseFirstCluster = upcaseFirstCluster,
                        x_upcaseClusters = upcaseClusters, x_rootDirCluster = rootDirCluster,
                        x_bpsShift = floorLog2 ss, x_spcShift = shift\<rparr>)"

subsection \<open>The boot region\<close>

definition ror_add :: "u32 \<Rightarrow> u8 \<Rightarrow> u32" where
  "ror_add s b = (drop_bit 1 s OR push_bit 31 s) + ucast b"

definition bootChecksum :: "bytes \<Rightarrow> nat \<Rightarrow> u32" where
  "bootChecksum data ss =
     foldl (\<lambda>s i. if i = 106 \<or> i = 107 \<or> i = 112 then s else ror_add s (data ! i)) 0 [0..<11 * ss]"

text \<open>The main boot sector.\<close>

definition exfat_vbr :: "u32 \<Rightarrow> nat \<Rightarrow> exfat_fsLayout \<Rightarrow> bytes" where
  "exfat_vbr volSerial ss l =
     (let v0 = copy_into (zeros ss) 0 [0xEB, 0x76, 0x90];
          v1 = copy_into v0 3 (bs ''EXFAT   '');
          v2 = put64 (put64 v1 64 0) 72 (of_int (x_totalSectors l));
          v3 = put32 v2 80 (of_int (x_fatOffset l));
          v4 = put32 v3 84 (of_int (x_fatSectors l));
          v5 = put32 v4 88 (of_int (x_clusterHeapOffset l));
          v6 = put32 v5 92 (of_int (x_clusterCount l));
          v7 = put32 v6 96 (of_int (x_rootDirCluster l));
          v8 = put32 v7 100 volSerial;
          v9 = put16 (put16 v8 104 0x0100) 106 0;
          v10 = put8 (put8 v9 108 (x_bpsShift l)) 109 (x_spcShift l);
          v11 = put8 (put8 (put8 v10 110 1) 111 0x80) 112 0
      in put8 (put8 v11 (ss - 2) 0x55) (ss - 1) 0xAA)"

text \<open>One extended boot sector.\<close>

definition ext_boot_sector :: "nat \<Rightarrow> bytes" where
  "ext_boot_sector ss = put8 (put8 (put8 (put8 (zeros ss) (ss - 4) 0) (ss - 3) 0) (ss - 2) 0x55) (ss - 1) 0xAA"

text \<open>Sectors 0 to 10, and the checksum sector that repeats one word.\<close>

definition boot_sectors :: "u32 \<Rightarrow> nat \<Rightarrow> exfat_fsLayout \<Rightarrow> bytes" where
  "boot_sectors volSerial ss l =
     exfat_vbr volSerial ss l @ concat (replicate 8 (ext_boot_sector ss)) @ zeros ss @ zeros ss"

definition checksum_sector :: "nat \<Rightarrow> u32 \<Rightarrow> bytes" where
  "checksum_sector ss csum = concat (replicate (ss div 4) (le32 csum)) @ zeros (ss mod 4)"

definition buildBootRegion :: "u32 \<Rightarrow> nat \<Rightarrow> exfat_fsLayout \<Rightarrow> bytes" where
  "buildBootRegion volSerial ss l =
     (let b = boot_sectors volSerial ss l in b @ checksum_sector ss (bootChecksum b ss))"

subsection \<open>The file allocation table\<close>

definition clusterFATValue :: "int \<Rightarrow> exfat_fsLayout \<Rightarrow> u32" where
  "clusterFATValue c l =
     (if c = 0 then 0xFFFFFFF8
      else if c = 1 then 0xFFFFFFFF
      else if 2 \<le> c \<and> c < 2 + x_bitmapClusters l then
        (if c = 2 + x_bitmapClusters l - 1 then 0xFFFFFFFF else of_int (c + 1))
      else if x_upcaseFirstCluster l \<le> c \<and> c < x_upcaseFirstCluster l + x_upcaseClusters l then
        (if c = x_upcaseFirstCluster l + x_upcaseClusters l - 1 then 0xFFFFFFFF else of_int (c + 1))
      else if c = x_rootDirCluster l then 0xFFFFFFFF
      else 0)"

definition exfat_fat_sector :: "nat \<Rightarrow> exfat_fsLayout \<Rightarrow> nat \<Rightarrow> bytes" where
  "exfat_fat_sector ss l s =
     (let e = ss div 4
      in copy_into (zeros ss) 0 (concat (map (\<lambda>i. le32 (clusterFATValue (int (s * e + i)) l)) [0..<e])))"

definition exfat_writeFAT :: "nat \<Rightarrow> exfat_fsLayout \<Rightarrow> (string \<times> bytes) list" where
  "exfat_writeFAT ss l = map (\<lambda>s. (''exfat: write FAT sector'', exfat_fat_sector ss l s)) [0..<nat (x_fatSectors l)]"

subsection \<open>The up-case table\<close>

definition buildUpcaseTable :: bytes where
  "buildUpcaseTable =
     concat (map (\<lambda>i. le16 (if 0x61 \<le> i \<and> i \<le> 0x7A then of_nat (i - 0x20) else of_nat i)) [0..<65536])"

definition upcaseChecksum :: "bytes \<Rightarrow> u32" where
  "upcaseChecksum table = foldl ror_add 0 table"

subsection \<open>The root directory\<close>

text \<open>
  \<open>utf16.Encode([]rune{r})\<close> is never empty; its first unit is the high surrogate for a
  supplementary rune and the replacement character for an invalid one.
\<close>

definition utf16_first :: "rune \<Rightarrow> u16" where
  "utf16_first r =
     (if r < 0xD800 \<or> 0xE000 \<le> r \<and> r < 0x10000 then of_nat r
      else if 0x10000 \<le> r \<and> r \<le> 0x10FFFF then of_nat (0xD800 + (r - 0x10000) div 0x400)
      else 0xFFFD)"

definition exfat_writeVolumeLabel :: "bytes \<Rightarrow> gostr \<Rightarrow> bytes" where
  "exfat_writeVolumeLabel buf label =
     (if length buf < 32 then buf
      else let rs = take 11 (runes label)
           in copy_into (put8 (put8 buf 0 0x83) 1 (of_nat (length rs))) 2 (concat (map (\<lambda>r. le16 (utf16_first r)) rs)))"

definition writeAllocBitmapEntry :: "bytes \<Rightarrow> u32 \<Rightarrow> u64 \<Rightarrow> bytes" where
  "writeAllocBitmapEntry buf firstCluster dataLength =
     (if length buf < 32 then buf else put64 (put32 (put8 buf 0 0x81) 20 firstCluster) 24 dataLength)"

definition writeUpcaseEntry :: "bytes \<Rightarrow> u32 \<Rightarrow> u32 \<Rightarrow> u64 \<Rightarrow> bytes" where
  "writeUpcaseEntry buf checksum firstCluster dataLength =
     (if length buf < 32 then buf
      else put64 (put32 (put32 (put8 buf 0 0x82) 4 checksum) 20 firstCluster) 24 dataLength)"

definition exfat_rootDir :: "exfat_fsLayout \<Rightarrow> gostr \<Rightarrow> u32 \<Rightarrow> bytes" where
  "exfat_rootDir l label csum =
     (let d0 = zeros (nat (x_clusterBytes l));
          (d1, pos) = (if label \<noteq> [] then (at_pos 0 (\<lambda>b. exfat_writeVolumeLabel b label) d0, 32) else (d0, 0));
          d2 = at_pos pos (\<lambda>b. writeAllocBitmapEntry b 2 (of_int (x_bitmapBytes l))) d1
      in at_pos (pos + 32) (\<lambda>b. writeUpcaseEntry b csum (of_int (x_upcaseFirstCluster l)) (of_int UpcaseTableBytes)) d2)"

subsection \<open>Formatting\<close>

definition exfat_bitmap :: "exfat_fsLayout \<Rightarrow> bytes" where
  "exfat_bitmap l =
     fold (\<lambda>c. or_bit (c - 2)) [2..<nat (x_rootDirCluster l + 1)] (zeros (nat (x_bitmapClusters l * x_clusterBytes l)))"

definition exfat_Format :: "u32 \<Rightarrow> int \<Rightarrow> exfat_options \<Rightarrow> (gofile \<times> sectionRWS, unit) sop" where
  "exfat_Format volSerial sizeBytes opts =
     (let ss = xo_sectorSize opts in
      if \<not> isPow2 ss \<or> ss < 512 \<or> ss > 4096 then failS (Err ''exfat: unsupported sector size'')
      else bindS (readS (\<lambda>_. exfat_computeLayout sizeBytes ss)) (\<lambda>l.
        bindS (w_Seek 0) (\<lambda>_.
        let boot = buildBootRegion volSerial (nat ss) l in
        bindS (w_all (replicate 2 (''exfat: write boot region'', boot))) (\<lambda>_.
        bindS (w_all (exfat_writeFAT (nat ss) l)) (\<lambda>_.
        let fatEnd = x_fatOffset l + x_fatSectors l in
        bindS (if x_clusterHeapOffset l > fatEnd
               then w_Write ''exfat: write alignment gap'' (zeros (nat ((x_clusterHeapOffset l - fatEnd) * ss)))
               else retS ()) (\<lambda>_.
        bindS (w_Write ''exfat: write allocation bitmap'' (exfat_bitmap l)) (\<lambda>_.
        let upcaseBuf = buildUpcaseTable; csum = upcaseChecksum upcaseBuf in
        bindS (w_Write ''exfat: write upcase table''
                 (copy_into (zeros (nat (x_upcaseClusters l * x_clusterBytes l))) 0 upcaseBuf)) (\<lambda>_.
        w_Write ''exfat: write root directory'' (exfat_rootDir l (xo_Label opts) csum)))))))))"

end
