(* ===== verification/MkfsExfatCorrect.thy ===== *)
theory MkfsExfatCorrect
  imports MkfsExfat
begin

text \<open>
  The exFAT layout: its areas are ordered and inside the volume, the table and the bitmap are big
  enough for every cluster, and every volume of at least 2048 sectors has one.  Then the
  structures written from it: the table, the bitmap, the boot region and the whole image.
\<close>

unbundle bit_operations_syntax

subsection \<open>Arithmetic\<close>

lemma bits_Len_power: "bits_Len (2 ^ k) = Suc k"
proof (induction k)
  case 0
  show ?case by (simp add: bits_Len.simps)
next
  case (Suc k)
  then show ?case by (subst bits_Len.simps) simp
qed

lemma floorLog2_power: "k < 256 \<Longrightarrow> unat (floorLog2 (2 ^ k)) = k"
  by (simp add: floorLog2_def nat_power_eq bits_Len_power unat_of_nat)

lemma roundUpI_bounds:
  assumes "0 \<le> n" "0 < m"
  shows "n \<le> roundUpI n m" "roundUpI n m < n + m" "m dvd roundUpI n m"
proof -
  have r: "roundUpI n m = (n + m - 1) div m * m" using assms by (simp add: roundUpI_def)
  have "(n + m - 1) div m * m = (n + m - 1) - (n + m - 1) mod m" by (simp add: minus_mod_eq_div_mult)
  moreover have "0 \<le> (n + m - 1) mod m" "(n + m - 1) mod m < m" using assms by simp_all
  ultimately show "n \<le> roundUpI n m" "roundUpI n m < n + m" using r by linarith+
  show "m dvd roundUpI n m" using r by simp
qed

lemma ceil_div_bounds:
  assumes "0 \<le> n" "0 < (m :: int)"
  shows "n \<le> (n + m - 1) div m * m" "(n + m - 1) div m * m < n + m"
  using roundUpI_bounds(1,2) [OF assms] assms by (simp_all add: roundUpI_def)

lemma div_bounds:
  assumes "0 < (m :: int)"
  shows "n div m * m \<le> n" "n < (n div m + 1) * m"
proof -
  have "n div m * m = n - n mod m" by (simp add: minus_mod_eq_div_mult)
  moreover have "0 \<le> n mod m" "n mod m < m" using assms by simp_all
  moreover have "(n div m + 1) * m = n div m * m + m" by (simp add: algebra_simps)
  ultimately show "n div m * m \<le> n" "n < (n div m + 1) * m" by linarith+
qed

lemma spcShift_cluster:
  assumes "ss \<in> {512, 1024, 2048, 4096}"
  shows "2 ^ unat (spcShift sz ss) * ss =
    (if quot sz 1048576 \<le> 256 then 4096 else if quot sz 1048576 \<le> 32768 then 32768 else 131072)"
proof -
  have k: "unat (floorLog2 x) = n" if "x = 2 ^ n" "n < 256" for x n using floorLog2_power that by simp
  have f: "unat (floorLog2 1) = 0" "unat (floorLog2 2) = 1" "unat (floorLog2 4) = 2" "unat (floorLog2 8) = 3"
    "unat (floorLog2 16) = 4" "unat (floorLog2 32) = 5" "unat (floorLog2 64) = 6" "unat (floorLog2 128) = 7" "unat (floorLog2 256) = 8"
    by (rule k; simp)+
  show ?thesis using assms by (auto simp: spcShift_def Let_def f)
qed

subsection \<open>The layout\<close>

definition exfat_layout_ok :: "int \<Rightarrow> exfat_fsLayout \<Rightarrow> bool" where
  "exfat_layout_ok ss l \<longleftrightarrow>
     (let spc = 2 ^ unat (x_spcShift l) in
      ss = 2 ^ unat (x_bpsShift l) \<and> x_clusterBytes l = spc * ss \<and>
      x_fatOffset l = 24 \<and> 0 < x_fatSectors l \<and> x_fatOffset l + x_fatSectors l \<le> x_clusterHeapOffset l \<and>
      x_clusterHeapOffset l + x_clusterCount l * spc \<le> x_totalSectors l \<and>
      x_totalSectors l < x_clusterHeapOffset l + (x_clusterCount l + 1) * spc \<and>
      (x_clusterCount l + 2) * 4 \<le> x_fatSectors l * ss \<and>
      x_clusterCount l \<le> 8 * x_bitmapBytes l \<and> 8 * x_bitmapBytes l < x_clusterCount l + 8 \<and>
      1 \<le> x_bitmapClusters l \<and> x_bitmapBytes l \<le> x_bitmapClusters l * x_clusterBytes l \<and>
      1 \<le> x_upcaseClusters l \<and> UpcaseTableBytes \<le> x_upcaseClusters l * x_clusterBytes l \<and>
      x_upcaseFirstCluster l = 2 + x_bitmapClusters l \<and>
      x_rootDirCluster l = x_upcaseFirstCluster l + x_upcaseClusters l \<and>
      x_rootDirCluster l < x_clusterCount l + 2)"

lemma heap_bounds:
  assumes "ss \<in> {512, 1024, 2048, 4096}" "0 < spc" "256 \<le> T div spc"
    and "F = roundUpI (quot (quot T spc + 2 + quot ss 4 - 1) (quot ss 4)) spc"
    and "H = roundUpI (24 + F) spc" "C = quot (T - H) spc"
  shows "(C + 2) * 4 \<le> F * ss" "24 + F \<le> H" "H + C * spc \<le> T" "T < H + (C + 1) * spc" "200 \<le> C" "0 < F"
proof -
  define M where "M = T div spc"
  define e where "e = ss div 4"
  define F0 where "F0 = (M + 2 + e - 1) div e"
  have e: "128 \<le> e" "ss = 4 * e" using assms(1) by (auto simp: e_def)
  have M: "256 \<le> M" "M * spc \<le> T" "T < (M + 1) * spc"
    using assms(2,3) div_bounds [of spc T] by (simp_all add: M_def)
  have T: "0 \<le> T" using M assms(2) by (meson mult_nonneg_nonneg order.strict_implies_order order_trans zero_le_numeral)
  have F0: "M + 2 \<le> F0 * e" "F0 * e < M + 2 + e" using ceil_div_bounds [of "M + 2" e] M e unfolding F0_def by (auto simp: algebra_simps)
  have F0p: "1 \<le> F0"
  proof (rule ccontr)
    assume "\<not> 1 \<le> F0"
    then have "F0 * e \<le> 0" using e by (simp add: mult_nonpos_nonneg)
    then show False using F0 M by linarith
  qed
  have q: "quot T spc = M" "quot ss 4 = e" unfolding M_def e_def using T assms(1,2) by (simp, auto)
  have "quot (M + 2 + e - 1) e = F0" using M e by (simp add: F0_def)
  then have F: "F = roundUpI F0 spc" unfolding assms(4) q by simp
  obtain a where a: "F = a * spc" using roundUpI_bounds(3) [of F0 spc] assms(2) F0p F by (metis dvd_def mult.commute order_trans zero_le_one)
  have a1: "F0 \<le> a * spc" "a * spc < F0 + spc" using roundUpI_bounds(1,2) [of F0 spc] assms(2) F0p F a by simp_all
  have ap: "1 \<le> a"
  proof (rule ccontr)
    assume "\<not> 1 \<le> a"
    then have "a * spc \<le> 0" using assms(2) by (simp add: mult_nonpos_nonneg)
    then show False using a1 F0p by linarith
  qed
  have Fp: "0 < F" using a ap assms(2) by simp
  obtain h where h: "H = h * spc" using roundUpI_bounds(3) [of "24 + F" spc] assms(2,5) Fp by (metis add_nonneg_nonneg dvd_def mult.commute order.strict_implies_order zero_le_numeral)
  have h1: "24 + F \<le> H" "H < 24 + F + spc" using roundUpI_bounds(1,2) [of "24 + F" spc] assms(2,5) Fp by simp_all
  have aF: "a \<le> F0"
  proof -
    have "(a - 1) * spc < F0" using a1 by (simp add: algebra_simps)
    moreover have "a - 1 \<le> (a - 1) * spc" using ap assms(2) mult_left_mono [of 1 spc "a - 1"] by simp
    ultimately show ?thesis by linarith
  qed
  have ha: "h \<le> a + 24"
  proof -
    have "(h - a - 1) * spc < 24" using h1 h a by (simp add: algebra_simps)
    moreover have "h - a - 1 \<le> (h - a - 1) * spc" if "0 \<le> h - a - 1" using that assms(2) mult_left_mono [of 1 spc "h - a - 1"] by simp
    ultimately show ?thesis by linarith
  qed
  have "T - H = T + (- h) * spc" using h by simp
  then have dv: "(T - H) div spc = M - h" unfolding M_def using assms(2) by (metis add.commute div_mult_self1 less_irrefl uminus_add_conv_diff)
  have F0b: "F0 * 128 \<le> F0 * e" using e F0p by simp
  have "F0 * 128 < M + 2 + 128"
  proof -
    have "(F0 - 1) * 128 \<le> (F0 - 1) * e" using e F0p by (intro mult_left_mono) simp_all
    then show ?thesis using F0 by (simp add: algebra_simps)
  qed
  then have MH: "200 \<le> M - h" using M aF ha by linarith
  then have "H \<le> T" using dv assms(2) pos_imp_zdiv_nonneg_iff [of spc "T - H"] by simp
  then have C: "C = M - h" using assms(2,6) dv by simp
  have "0 \<le> h * spc" using h h1 Fp by linarith
  then have h0: "0 \<le> h" using assms(2) by (simp add: zero_le_mult_iff)
  have "(C + 2) \<le> F0 * e" using C F0 h0 by linarith
  also have "\<dots> \<le> F * e" using a a1 e by (intro mult_right_mono) simp_all
  finally show "(C + 2) * 4 \<le> F * ss" using e by simp
  show "24 + F \<le> H" by (rule h1)
  have "H + C * spc = M * spc" unfolding C h by (simp add: algebra_simps)
  then show "H + C * spc \<le> T" "T < H + (C + 1) * spc" using M by (simp_all add: algebra_simps)
  show "200 \<le> C" using C MH by simp
  show "0 < F" by (rule Fp)
qed

text \<open>With 2048 sectors there are at least 256 clusters before the metadata is taken off.\<close>

lemma many_clusters:
  assumes "ss \<in> {512, 1024, 2048, 4096}" "2048 \<le> quot sz ss" "spc = 2 ^ unat (spcShift sz ss)"
  shows "256 \<le> quot sz ss div spc" "0 < spc"
proof -
  have s0: "0 \<le> sz" using assms(1,2) by (intro quot_pos_dividend [of ss]) auto
  have c: "spc * ss = (if sz div 1048576 \<le> 256 then 4096 else if sz div 1048576 \<le> 32768 then 32768 else 131072)"
    using spcShift_cluster [OF assms(1), of sz] s0 by (simp add: assms(3))
  show p: "0 < spc" using assms(3) by simp
  have T: "2048 \<le> sz div ss" using assms(1,2) s0 by auto
  have dd: "sz div ss div spc = sz div (spc * ss)" using p zdiv_zmult2_eq [of spc sz ss] by (simp add: mult.commute)
  have "256 \<le> sz div (spc * ss)"
  proof (cases "sz div 1048576 \<le> 256")
    case True
    then have e: "spc * ss = 4096" using c by simp
    have "2048 * ss \<le> sz" 
      using T assms(1) div_bounds(1) [of ss sz] mult_right_mono [of 2048 "sz div ss" ss] by auto
    moreover have "4096 * 256 \<le> 2048 * ss" using assms(1) by auto
    ultimately show ?thesis unfolding e by linarith
  next
    case False
    then have "257 * 1048576 \<le> sz" by linarith
    moreover have "32769 * 1048576 \<le> sz" if "\<not> sz div 1048576 \<le> 32768" using that by linarith
    ultimately show ?thesis unfolding c using False by auto
  qed
  then show "256 \<le> quot sz ss div spc" using dd assms(1) s0 by auto
qed

lemma exfat_computeLayout_ok:
  assumes "ss \<in> {512, 1024, 2048, 4096}" "2048 \<le> quot sz ss"
  shows "\<exists>l. exfat_computeLayout sz ss = Inr l \<and> exfat_layout_ok ss l \<and> x_totalSectors l = quot sz ss \<and> 4096 \<le> x_clusterBytes l"
proof -
  define spc where "spc = (2 :: int) ^ unat (spcShift sz ss)"
  define F where "F = roundUpI (quot (quot (quot sz ss) spc + 2 + quot ss 4 - 1) (quot ss 4)) spc"
  define H where "H = roundUpI (24 + F) spc"
  define C where "C = quot (quot sz ss - H) spc"
  define cb where "cb = spc * ss"
  note m = many_clusters [OF assms spc_def]
  note B = heap_bounds [OF assms(1) m(2,1) F_def H_def C_def]
  have cb: "4096 \<le> cb" "cb \<le> 131072" using spcShift_cluster [OF assms(1), of sz] by (simp_all add: cb_def spc_def split: if_splits)
  define bb where "bb = (C + 7) div 8"
  define bc where "bc = (bb + cb - 1) div cb"
  define uc where "uc = (UpcaseTableBytes + cb - 1) div cb"
  have bb: "C \<le> 8 * bb" "8 * bb < C + 8" unfolding bb_def by linarith+
  have b0: "0 < bb" using bb B(5) by linarith
  have bc: "bb \<le> bc * cb" "bc * cb < bb + cb" using ceil_div_bounds [of bb cb] b0 cb unfolding bc_def by simp_all
  have uc: "131072 \<le> uc * cb" "uc * cb < 131072 + cb" using ceil_div_bounds [of 131072 cb] cb unfolding uc_def UpcaseTableBytes_def by simp_all
  have bc1: "1 \<le> bc"
  proof (rule ccontr)
    assume "\<not> 1 \<le> bc"
    then have "bc * cb \<le> 0" using cb by (simp add: mult_nonpos_nonneg)
    then show False using bc b0 by linarith
  qed
  have uc1: "1 \<le> uc"
  proof (rule ccontr)
    assume "\<not> 1 \<le> uc"
    then have "uc * cb \<le> 0" using cb by (simp add: mult_nonpos_nonneg)
    then show False using uc by linarith
  qed
  have bcs: "(bc - 1) * 4096 < bb"
  proof -
    have "(bc - 1) * 4096 \<le> (bc - 1) * cb" using cb bc1 by (intro mult_left_mono) simp_all
    then show ?thesis using bc by (simp add: algebra_simps)
  qed
  have ucs: "(uc - 1) * 4096 < 131072"
  proof -
    have "(uc - 1) * 4096 \<le> (uc - 1) * cb" using cb uc1 by (intro mult_left_mono) simp_all
    then show ?thesis using uc by (simp add: algebra_simps)
  qed
  have "uc \<le> 32" using ucs by simp
  moreover have "8 * (bc * 4096) < C + 8 + 8 * 4096" using bcs bb(2) by (simp add: algebra_simps)
  ultimately have fits: "2 + bc + uc + 1 \<le> C + 2" using B(5) by linarith
  define l where "l = \<lparr>x_totalSectors = quot sz ss, x_fatOffset = 24, x_fatSectors = F, x_clusterHeapOffset = H,
    x_clusterCount = C, x_clusterBytes = cb, x_bitmapClusters = bc, x_bitmapBytes = bb, x_upcaseFirstCluster = 2 + bc,
    x_upcaseClusters = uc, x_rootDirCluster = 2 + bc + uc, x_bpsShift = floorLog2 ss, x_spcShift = spcShift sz ss\<rparr>"
  have q: "quot (C + 7) 8 = bb" "quot (bb + cb - 1) cb = bc" "quot (UpcaseTableBytes + cb - 1) cb = uc"
    using B(5) b0 cb by (simp_all add: bb_def bc_def uc_def UpcaseTableBytes_def)
  have "exfat_computeLayout sz ss = Inr l"
    unfolding exfat_computeLayout_def Let_def spc_def [symmetric] F_def [symmetric] H_def [symmetric] C_def [symmetric]
      cb_def [symmetric] q using assms(2) B(5) bc1 fits by (simp add: l_def)
  moreover have "ss = 2 ^ unat (floorLog2 ss)"
    using assms(1) floorLog2_power [of 9] floorLog2_power [of 10] floorLog2_power [of 11] floorLog2_power [of 12] by auto
  then have "exfat_layout_ok ss l"
    unfolding exfat_layout_ok_def Let_def using B bb bc bc1 uc uc1 fits
    by (simp add: l_def spc_def [symmetric] cb_def [symmetric] UpcaseTableBytes_def)
  ultimately show ?thesis using cb by (auto simp: l_def)
qed

lemma exfat_count_sectors:
  assumes "exfat_layout_ok ss l"
  shows "x_clusterCount l + 24 \<le> x_totalSectors l"
proof -
  note K = assms [unfolded exfat_layout_ok_def Let_def]
  have "0 \<le> x_clusterCount l" using K by linarith
  then have "x_clusterCount l * 1 \<le> x_clusterCount l * 2 ^ unat (x_spcShift l)" by (intro mult_left_mono) simp_all
  then show ?thesis using K by linarith
qed

subsection \<open>The table and the bitmap\<close>

lemma concat_blocks:
  "concat (map (\<lambda>s. concat (map (\<lambda>i. g (s * e + i)) [0..<e])) [0..<m]) = concat (map g [0..<m * e])"
proof (induction m)
  case (Suc m)
  have "[0..<Suc m * e] = [0..<m * e] @ map (\<lambda>i. i + m * e) [0..<e]"
    using upt_add_eq_append [of 0 "m * e" e] map_add_upt [of "m * e" e] by (simp add: add.commute)
  then show ?case using Suc by (simp add: comp_def add.commute)
qed simp

lemma exfat_fat_bytes:
  assumes "ss = 4 * e"
  shows "concat (map snd (exfat_writeFAT ss l)) =
    concat (map (\<lambda>c. le32 (clusterFATValue (int c) l)) [0..<nat (x_fatSectors l) * e])"
proof -
  have "exfat_fat_sector ss l s = concat (map (\<lambda>i. le32 (clusterFATValue (int (s * e + i)) l)) [0..<e])" for s
    unfolding exfat_fat_sector_def Let_def using assms length_concat_map [of "[0..<e]" "\<lambda>i. le32 (clusterFATValue (int (s * e + i)) l)" 4]
    by (simp add: length_le32)
  then show ?thesis using concat_blocks [of "\<lambda>c. le32 (clusterFATValue (int c) l)" e] by (simp add: exfat_writeFAT_def comp_def)
qed

text \<open>
  In the table exactly the clusters up to that of the root directory are not free, and each of
  the three files is one run of consecutive clusters closed by the end mark.
\<close>

lemma clusterFATValue_used:
  assumes "exfat_layout_ok ss l" "2 \<le> c" "x_clusterCount l + 2 \<le> 2 ^ 32"
  shows "clusterFATValue c l \<noteq> 0 \<longleftrightarrow> c \<le> x_rootDirCluster l"
proof -
  have k: "x_upcaseFirstCluster l = 2 + x_bitmapClusters l" "x_rootDirCluster l = x_upcaseFirstCluster l + x_upcaseClusters l"
    "x_rootDirCluster l < x_clusterCount l + 2" "1 \<le> x_bitmapClusters l" "1 \<le> x_upcaseClusters l"
    using assms(1) by (auto simp: exfat_layout_ok_def Let_def)
  have "(of_int (c + 1) :: u32) \<noteq> 0" if "c < x_rootDirCluster l"
  proof -
    have "c + 1 < 2 ^ 32" using that k assms(3) by linarith
    have "uint (of_int (c + 1) :: u32) = (c + 1) mod 2 ^ LENGTH(32)" by (rule uint_word_of_int)
    then have "uint (of_int (c + 1) :: u32) \<noteq> 0" using \<open>c + 1 < 2 ^ 32\<close> assms(2) by simp
    then show ?thesis by (metis uint_0_eq)
  qed
  then show ?thesis using assms(2) k by (auto simp: clusterFATValue_def)
qed

lemma nat_diff_add2: "2 \<le> r \<Longrightarrow> nat (r - 1) + 2 = nat (r + 1)"
  by simp

lemma exfat_bitmap_bits:
  assumes "exfat_layout_ok ss l" "2 \<le> c" "c < x_clusterCount l + 2"
  shows "bit_at (exfat_bitmap l) (nat (c - 2)) \<longleftrightarrow> c \<le> x_rootDirCluster l"
    and "length (exfat_bitmap l) = nat (x_bitmapClusters l * x_clusterBytes l)"
proof -
  have k: "x_rootDirCluster l < x_clusterCount l + 2" "x_clusterCount l \<le> 8 * x_bitmapBytes l"
    "x_bitmapBytes l \<le> x_bitmapClusters l * x_clusterBytes l" "2 \<le> x_rootDirCluster l"
    using assms(1) by (auto simp: exfat_layout_ok_def Let_def)
  have e: "exfat_bitmap l = fold or_bit [0..<nat (x_rootDirCluster l - 1)] (zeros (nat (x_bitmapClusters l * x_clusterBytes l)))"
  proof -
    have u: "[2..<nat (x_rootDirCluster l + 1)] = map (\<lambda>i. i + 2) [0..<nat (x_rootDirCluster l - 1)]"
      using k(4) map_add_upt [of 2 "nat (x_rootDirCluster l - 1)"] by (simp only: nat_diff_add2)
    show ?thesis unfolding exfat_bitmap_def u by (simp add: fold_map comp_def)
  qed
  then show "length (exfat_bitmap l) = nat (x_bitmapClusters l * x_clusterBytes l)" by simp
  have in_range: "nat (x_rootDirCluster l - 1) \<le> 8 * nat (x_bitmapClusters l * x_clusterBytes l)" using k by linarith
  have "nat (c - 2) < 8 * nat (x_bitmapClusters l * x_clusterBytes l)" using k assms(2,3) by linarith
  then show "bit_at (exfat_bitmap l) (nat (c - 2)) \<longleftrightarrow> c \<le> x_rootDirCluster l"
    unfolding e using in_range assms(2) by (subst bit_at_fold) auto
qed

subsection \<open>The image\<close>

lemma length_exfat_vbr [simp]: "length (exfat_vbr vs n l) = n"
  by (simp add: exfat_vbr_def Let_def byte_simps codec_simps)

lemma length_ext_boot [simp]: "length (ext_boot_sector n) = n"
  by (simp add: ext_boot_sector_def byte_simps codec_simps)

lemma length_boot_sectors [simp]: "length (boot_sectors vs n l) = 11 * n"
  by (simp add: boot_sectors_def length_replicate_concat)

lemma length_checksum_sector [simp]: "length (checksum_sector n c) = n"
  by (simp add: checksum_sector_def length_replicate_concat length_le32 mult.commute)

lemma length_buildBootRegion [simp]: "length (buildBootRegion vs n l) = 12 * n"
  by (simp add: buildBootRegion_def Let_def)

lemma length_buildUpcaseTable [simp]: "length buildUpcaseTable = 131072"
proof -
  have "length (concat (map (\<lambda>i. le16 (if 0x61 \<le> i \<and> i \<le> 0x7A then of_nat (i - 0x20) else of_nat i)) [0..<65536])) = 2 * length [0 :: nat..<65536]"
    by (rule length_concat_map) (simp add: le16_def)
  then show ?thesis by (simp only: buildUpcaseTable_def length_upt)
qed

text \<open>The chunks that the formatter writes one after the other.\<close>

definition exfat_gap :: "nat \<Rightarrow> exfat_fsLayout \<Rightarrow> bytes" where
  "exfat_gap n l = zeros (nat ((x_clusterHeapOffset l - (x_fatOffset l + x_fatSectors l)) * int n))"

definition exfat_upcase :: "exfat_fsLayout \<Rightarrow> bytes" where
  "exfat_upcase l = copy_into (zeros (nat (x_upcaseClusters l * x_clusterBytes l))) 0 buildUpcaseTable"

definition exfat_image :: "u32 \<Rightarrow> nat \<Rightarrow> exfat_fsLayout \<Rightarrow> gostr \<Rightarrow> bytes" where
  "exfat_image vs n l label = buildBootRegion vs n l @ buildBootRegion vs n l @ concat (map snd (exfat_writeFAT n l)) @
     exfat_gap n l @ exfat_bitmap l @ exfat_upcase l @ exfat_rootDir l label (upcaseChecksum buildUpcaseTable)"

lemma exfat_Format_w_all:
  assumes "ss = xo_sectorSize opts" "isPow2 ss" "512 \<le> ss" "ss \<le> 4096" "exfat_computeLayout sz ss = Inr l"
    and "x_fatOffset l + x_fatSectors l \<le> x_clusterHeapOffset l"
  shows "\<exists>ws. exfat_Format vs sz opts = bindS (w_Seek 0) (\<lambda>_. w_all ws) \<and>
    concat (map snd ws) = exfat_image vs (nat ss) l (xo_Label opts)"
proof -
  define gap where "gap = (if x_clusterHeapOffset l > x_fatOffset l + x_fatSectors l then [(''exfat: write alignment gap'', exfat_gap (nat ss) l)] else [])"
  define ws where "ws = replicate 2 (''exfat: write boot region'', buildBootRegion vs (nat ss) l) @ exfat_writeFAT (nat ss) l @ gap @
    [(''exfat: write allocation bitmap'', exfat_bitmap l), (''exfat: write upcase table'', exfat_upcase l),
     (''exfat: write root directory'', exfat_rootDir l (xo_Label opts) (upcaseChecksum buildUpcaseTable))]"
  have one: "w_Write m b = w_all [(m, b)]" for m b by (simp add: bindS_def retS_def fun_eq_iff split: prod.splits sum.splits)
  have rd: "bindS (readS (\<lambda>_. Inr a)) k = k a" for a :: exfat_fsLayout and k :: "_ \<Rightarrow> (gofile \<times> sectionRWS, unit) sop"
    by (simp add: bindS_def readS_def fun_eq_iff)
  have g: "(if x_clusterHeapOffset l > x_fatOffset l + x_fatSectors l
      then w_all [(''exfat: write alignment gap'', zeros (nat ((x_clusterHeapOffset l - (x_fatOffset l + x_fatSectors l)) * ss)))] else retS ()) = w_all gap"
    using assms(3) by (simp add: gap_def exfat_gap_def)
  have ok: "(\<not> isPow2 ss \<or> ss < 512 \<or> ss > 4096) = False" using assms(2-4) by simp
  have "exfat_Format vs sz opts = bindS (w_Seek 0) (\<lambda>_. w_all ws)"
    unfolding exfat_Format_def Let_def assms(1) [symmetric] assms(5) rd one g ws_def exfat_upcase_def ok
    by (simp only: w_all_append [symmetric] if_False append_assoc append_Cons append_Nil)
  moreover have "concat (map snd ws) = exfat_image vs (nat ss) l (xo_Label opts)"
    using assms(3,6) by (auto simp: ws_def exfat_image_def numeral_2_eq_2 gap_def exfat_gap_def)
  ultimately show ?thesis by blast
qed

lemma length_exfat_entries:
  "length (writeAllocBitmapEntry b c d) = length b" "length (writeUpcaseEntry b k c d) = length b"
  "length (exfat_writeVolumeLabel b label) = length b"
  by (simp_all add: writeAllocBitmapEntry_def writeUpcaseEntry_def exfat_writeVolumeLabel_def Let_def codec_simps byte_simps)

lemma length_exfat_rootDir [simp]: "length (exfat_rootDir l label csum) = nat (x_clusterBytes l)"
  by (simp add: exfat_rootDir_def Let_def length_at_pos length_exfat_entries)

lemma exfat_image_parts:
  assumes "exfat_layout_ok (int n) l" "n = 4 * e" "H = nat (x_clusterHeapOffset l)" "cb = nat (x_clusterBytes l)"
    and "B = nat (x_bitmapClusters l)" "Uc = nat (x_upcaseClusters l)" "img = exfat_image vs n l label"
  shows "sub img 0 (12 * n) = buildBootRegion vs n l" "sub img (12 * n) (12 * n) = buildBootRegion vs n l"
    and "i < nat (x_fatSectors l) * e \<Longrightarrow> sub img (24 * n + 4 * i) 4 = le32 (clusterFATValue (int i) l)"
    and "sub img (H * n) (B * cb) = exfat_bitmap l"
    and "sub img (H * n + B * cb) 131072 = buildUpcaseTable"
    and "sub img (H * n + (B + Uc) * cb) cb = exfat_rootDir l label (upcaseChecksum buildUpcaseTable)"
    and "length img = H * n + (B + Uc + 1) * cb"
proof -
  note K = assms(1) [unfolded exfat_layout_ok_def Let_def]
  define F where "F = nat (x_fatSectors l)"
  define b where "b = buildBootRegion vs n l"
  define t where "t = concat (map snd (exfat_writeFAT n l))"
  define r where "r = exfat_rootDir l label (upcaseChecksum buildUpcaseTable)"
  have i: "img = b @ b @ t @ exfat_gap n l @ exfat_bitmap l @ exfat_upcase l @ r"
    by (simp add: assms(7) exfat_image_def b_def t_def r_def)
  have tb: "t = concat (map (\<lambda>c. le32 (clusterFATValue (int c) l)) [0..<F * e])" using exfat_fat_bytes [OF assms(2)] by (simp add: t_def F_def)
  have lt: "length t = F * n" unfolding tb by (subst length_concat_map [where k = 4]) (simp_all add: length_le32 assms(2))
  have lb: "length b = 12 * n" by (simp add: b_def)
  have lg: "length (exfat_gap n l) = H * n - 24 * n - F * n" "24 * n + F * n \<le> H * n"
  proof -
    have "24 + F \<le> H" "(x_clusterHeapOffset l - (x_fatOffset l + x_fatSectors l)) = int (H - 24 - F)"
      using K by (auto simp: F_def assms(3))
    then have "nat ((x_clusterHeapOffset l - (x_fatOffset l + x_fatSectors l)) * int n) = (H - 24 - F) * n"
      by (metis nat_int of_nat_mult)
    then show "length (exfat_gap n l) = H * n - 24 * n - F * n" by (simp add: exfat_gap_def diff_mult_distrib add_mult_distrib)
    show "24 * n + F * n \<le> H * n" using \<open>24 + F \<le> H\<close> by (metis add_mult_distrib mult_le_mono1)
  qed
  have lm: "length (exfat_bitmap l) = B * cb" "length (exfat_upcase l) = Uc * cb"
    using exfat_bitmap_bits(2) [OF assms(1), of 2] K by (auto simp: assms nat_mult_distrib exfat_upcase_def)
  have up: "131072 \<le> Uc * cb"
  proof -
    have "131072 \<le> x_upcaseClusters l * x_clusterBytes l" using K unfolding UpcaseTableBytes_def by (elim conjE)
    then have "131072 \<le> nat (x_upcaseClusters l * x_clusterBytes l)" by linarith
    then show ?thesis using K by (simp add: assms(4,6) nat_mult_distrib)
  qed
  have lr: "length r = cb" by (simp add: r_def assms(4))
  have s1: "sub (b @ x) 0 (12 * n) = b" for x using lb by (simp add: sub_def)
  show "sub img 0 (12 * n) = buildBootRegion vs n l" unfolding i using s1 by (simp add: b_def)
  show "sub img (12 * n) (12 * n) = buildBootRegion vs n l" unfolding i using lb s1 by (simp add: b_def sub_app_right)
  show "sub img (24 * n + 4 * i) 4 = le32 (clusterFATValue (int i) l)" if "i < nat (x_fatSectors l) * e"
  proof -
    have "i < F * e" using that by (simp add: F_def)
    moreover have "4 * i + 4 \<le> length t"
    proof -
      have "Suc i \<le> F * e" using that by (simp add: F_def)
      then have "4 * Suc i \<le> 4 * (F * e)" by (rule mult_le_mono2)
      then show ?thesis using lt assms(2) by simp
    qed
    then have "sub img (24 * n + 4 * i) 4 = sub t (4 * i) 4" unfolding i using lb by (simp add: sub_app_right sub_app_left)
    ultimately show ?thesis unfolding tb using sub_concat_map [of "[0..<F * e]" "\<lambda>c. le32 (clusterFATValue (int c) l)" 4 i] by (simp add: length_le32)
  qed
  have skip: "sub img (H * n + k) m = sub (exfat_bitmap l @ exfat_upcase l @ r) k m" for k m
    unfolding i using lb lt lg by (simp add: sub_app_right)
  show "sub img (H * n) (B * cb) = exfat_bitmap l" using skip [of 0] lm by (simp add: sub_def)
  have "131072 \<le> nat (x_upcaseClusters l * x_clusterBytes l)" using up lm(2) by (simp add: exfat_upcase_def)
  then have "sub (exfat_upcase l) 0 131072 = buildUpcaseTable" by (simp add: exfat_upcase_def)
  then show "sub img (H * n + B * cb) 131072 = buildUpcaseTable" unfolding skip using lm up by (simp add: sub_app_right sub_app_left)
  show "sub img (H * n + (B + Uc) * cb) cb = exfat_rootDir l label (upcaseChecksum buildUpcaseTable)"
    unfolding skip using lm lr by (simp add: sub_app_right add_mult_distrib r_def)
  show "length img = H * n + (B + Uc + 1) * cb" unfolding i using lb lt lg lm lr by (simp add: add_mult_distrib)
qed

subsection \<open>Formatting\<close>

lemma exfat_Format_ok:
  assumes "xo_sectorSize opts = ss" "isPow2 ss" "512 \<le> ss" "ss \<le> 4096" "2048 \<le> quot (s_size s) ss" "rws_ok f s" "\<not> closed f"
  obtains l f' s' img where "exfat_computeLayout (s_size s) ss = Inr l" "exfat_layout_ok ss l" "img = exfat_image vs (nat ss) l (xo_Label opts)"
    "exfat_Format vs (s_size s) opts (f, s) = (Inr (), f', s')" "\<And>off k. off + k \<le> length img \<Longrightarrow> part_bytes f' s off k = sub img off k"
proof -
  have ss: "ss \<in> {512, 1024, 2048, 4096}" using isPow2_sector assms(2-4) by blast
  obtain l where l: "exfat_computeLayout (s_size s) ss = Inr l" "exfat_layout_ok ss l" "x_totalSectors l = quot (s_size s) ss"
    using exfat_computeLayout_ok [OF ss assms(5)] by blast
  note K = l(2) [unfolded exfat_layout_ok_def Let_def]
  define spc where "spc = (2 :: int) ^ unat (x_spcShift l)"
  define img where "img = exfat_image vs (nat ss) l (xo_Label opts)"
  have le: "x_fatOffset l + x_fatSectors l \<le> x_clusterHeapOffset l" using K by blast
  obtain ws where w: "exfat_Format vs (s_size s) opts = bindS (w_Seek 0) (\<lambda>_. w_all ws)" "img = concat (map snd ws)"
    using exfat_Format_w_all [OF assms(1) [symmetric] assms(2-4) l(1) le] unfolding img_def by metis
  have e: "nat ss = 4 * (nat ss div 4)" "int (nat ss) = ss" using ss by auto
  have "length img = nat (x_clusterHeapOffset l) * nat ss + (nat (x_bitmapClusters l) + nat (x_upcaseClusters l) + 1) * nat (x_clusterBytes l)"
    using exfat_image_parts(7) [OF _ e(1) refl refl refl refl img_def] l(2) e(2) by simp
  moreover have "0 \<le> x_clusterHeapOffset l" "0 \<le> x_bitmapClusters l" "0 \<le> x_upcaseClusters l" "0 \<le> x_clusterBytes l" using K assms(3) by auto
  ultimately have "int (length img) = x_clusterHeapOffset l * ss + (x_bitmapClusters l + x_upcaseClusters l + 1) * x_clusterBytes l"
    using e(2) by (simp add: algebra_simps)
  also have "\<dots> \<le> x_clusterHeapOffset l * ss + x_clusterCount l * x_clusterBytes l"
    using K \<open>0 \<le> x_clusterBytes l\<close> by (intro add_left_mono mult_right_mono) auto
  also have "\<dots> = (x_clusterHeapOffset l + x_clusterCount l * spc) * ss" using K unfolding spc_def [symmetric] by (simp add: algebra_simps)
  also have "\<dots> \<le> x_totalSectors l * ss" using K assms(3) unfolding spc_def [symmetric] by (intro mult_right_mono) auto
  also have "\<dots> \<le> s_size s"
  proof -
    have "0 \<le> s_size s" using assms(3,5) by (intro quot_pos_dividend [of ss]) linarith+
    then show ?thesis unfolding l(3) using assms(3) div_bounds(1) [of ss "s_size s"] by simp
  qed
  finally obtain f' s' where "bindS (w_Seek 0) (\<lambda>_. w_all ws) (f, s) = (Inr (), f', s')"
    "\<forall>off k. off + k \<le> length img \<longrightarrow> part_bytes f' s off k = sub img off k"
    using format_window [OF assms(6,7) w(2)] by blast
  then show thesis using that [OF l(1,2) img_def] w(1) by simp
qed

subsection \<open>Reading the structures back\<close>

lemma bootregion_decode:
  assumes "512 \<le> n" "b = buildBootRegion vs n l"
  shows "get64 b 72 = of_int (x_totalSectors l)" "get32 b 80 = of_int (x_fatOffset l)" "get32 b 84 = of_int (x_fatSectors l)"
    "get32 b 88 = of_int (x_clusterHeapOffset l)" "get32 b 92 = of_int (x_clusterCount l)" "get32 b 96 = of_int (x_rootDirCluster l)"
    "b ! 108 = x_bpsShift l" "b ! 109 = x_spcShift l" "sub b 3 8 = bs ''EXFAT   ''"
proof -
  define v where "v = exfat_vbr vs n l"
  have v: "sub b 0 n = v" "length v = n" by (simp_all add: assms(2) buildBootRegion_def boot_sectors_def Let_def sub_def v_def)
  have g: "get64 b off = get64 v off" if "off + 8 \<le> n" for off using c64.get_sub [of off n 0 b] that v by (simp add: assms(2))
  have g': "get32 b off = get32 v off" if "off + 4 \<le> n" for off using c32.get_sub [of off n 0 b] that v by (simp add: assms(2))
  have g'': "b ! i = v ! i" if "i < n" for i
  proof -
    have "sub b 0 n ! i = b ! i" using that by (subst nth_sub) (simp_all add: assms(2))
    then show ?thesis using v by simp
  qed
  obtain m where m: "n = m + 512" using assms(1) by (metis add.commute le_Suc_ex)
  have "n - 2 = m + 510" "n - 1 = m + 511" by (simp_all add: m)
  note ve = v_def [unfolded exfat_vbr_def Let_def this, unfolded m]
  have "sub b 3 8 = sub v 3 8" using sub_sub [of 3 8 n b 0] v assms(1) by simp
  moreover have "sub v 3 8 = bs ''EXFAT   ''" unfolding ve by (simp add: codec_simps byte_simps del: bs_simps)
  ultimately show "sub b 3 8 = bs ''EXFAT   ''" by simp
  show "get64 b 72 = of_int (x_totalSectors l)" using g [of 72] assms(1) by (simp add: ve codec_simps)
  show "get32 b 80 = of_int (x_fatOffset l)" "get32 b 84 = of_int (x_fatSectors l)" "get32 b 88 = of_int (x_clusterHeapOffset l)"
    "get32 b 92 = of_int (x_clusterCount l)" "get32 b 96 = of_int (x_rootDirCluster l)"
    using g' assms(1) by (simp_all add: ve codec_simps)
  show "b ! 108 = x_bpsShift l" "b ! 109 = x_spcShift l" using g'' assms(1) by (simp_all add: ve codec_simps)
qed

lemma bootregion_checksum:
  assumes "n = 4 * e" "b = buildBootRegion vs n l" "i < e"
  shows "get32 b (11 * n + 4 * i) = bootChecksum (sub b 0 (11 * n)) n"
proof -
  define c where "c = bootChecksum (boot_sectors vs n l) n"
  have b: "b = boot_sectors vs n l @ checksum_sector n c" by (simp add: assms(2) buildBootRegion_def Let_def c_def)
  have cs: "checksum_sector n c = concat (map (\<lambda>_. le32 c) [0..<e])"
    by (simp add: checksum_sector_def assms(1) map_replicate_const)
  have l4: "4 * i + 4 \<le> n" using assms(1,3) by simp
  have "get32 b (11 * n + 4 * i) = get32 (checksum_sector n c) (4 * i)"
    unfolding b using l4 by (subst c32.get_append) simp_all
  also have "\<dots> = get32 (sub (checksum_sector n c) (4 * i) 4) 0" using l4 by (subst c32.get_local) simp_all
  also have "sub (checksum_sector n c) (4 * i) 4 = le32 c"
    unfolding cs using sub_concat_map [of "[0..<e]" "\<lambda>_. le32 c" 4 i] assms(3) by (simp add: length_le32)
  also have "get32 (le32 c) 0 = c" by (rule get32_le32)
  finally show ?thesis by (simp add: b sub_def c_def)
qed

text \<open>The directory that announces the bitmap and the up-case table.\<close>

definition exfat_announces :: "bytes \<Rightarrow> nat \<Rightarrow> exfat_fsLayout \<Rightarrow> u32 \<Rightarrow> bool" where
  "exfat_announces r p l csum \<longleftrightarrow>
     r ! p = 0x81 \<and> get32 r (p + 20) = 2 \<and> get64 r (p + 24) = of_int (x_bitmapBytes l) \<and>
     r ! (p + 32) = 0x82 \<and> get32 r (p + 36) = csum \<and> get32 r (p + 52) = of_int (x_upcaseFirstCluster l) \<and>
     get64 r (p + 56) = of_int UpcaseTableBytes \<and> r ! (p + 64) = 0"

lemma exfat_rootDir_announces:
  assumes "4096 \<le> x_clusterBytes l"
  shows "exfat_announces (exfat_rootDir l label csum) (if label = [] then 0 else 32) l csum"
proof -
  define p :: nat where "p = (if label = [] then 0 else 32)"
  define d1 where "d1 = (if label \<noteq> [] then at_pos 0 (\<lambda>b. exfat_writeVolumeLabel b label) (zeros (nat (x_clusterBytes l))) else zeros (nat (x_clusterBytes l)))"
  define fa where "fa = (\<lambda>b. writeAllocBitmapEntry b 2 (of_int (x_bitmapBytes l)))"
  define fu where "fu = (\<lambda>b. writeUpcaseEntry b csum (of_int (x_upcaseFirstCluster l)) (of_int UpcaseTableBytes))"
  define d2 where "d2 = at_pos p fa d1"
  define r where "r = at_pos (p + 32) fu d2"
  have e: "exfat_rootDir l label csum = r" by (simp add: exfat_rootDir_def Let_def r_def d2_def d1_def fa_def fu_def p_def)
  have p: "p \<le> 32" by (simp add: p_def)
  have l1: "length d1 = nat (x_clusterBytes l)" by (simp add: d1_def length_at_pos length_exfat_entries)
  have N: "4096 \<le> length d1" using l1 assms by simp
  have lf: "length (fa b) = length b" "length (fu b) = length b" for b by (simp_all add: fa_def fu_def length_exfat_entries)
  have l2: "length d2 = length d1" unfolding d2_def using N p by (intro length_at_pos) (simp add: lf)
  have z: "d1 ! (p + 64) = 0"
  proof (cases "label = []")
    case True
    then show ?thesis using N p l1 by (simp add: d1_def)
  next
    case False
    have "length (concat (map (\<lambda>r. le16 (utf16_first r)) (take 11 (runes label)))) = 2 * length (take 11 (runes label))"
      by (rule length_concat_map) (simp add: le16_def)
    then have "length (concat (map (\<lambda>r. le16 (utf16_first r)) (take 11 (runes label)))) \<le> 22" by simp
    then show ?thesis using False N l1 by (simp add: d1_def p_def at_pos_def exfat_writeVolumeLabel_def Let_def nth_copy_into_out codec_simps)
  qed
  have A: "d2 ! p = 0x81" "get32 d2 (p + 20) = 2" "get64 d2 (p + 24) = of_int (x_bitmapBytes l)" "d2 ! (p + 64) = 0"
  proof -
    have b: "p \<le> length d1" "length (fa (drop p d1)) = length d1 - p" using N p by (simp_all add: lf)
    have w: "80 \<le> length d1 - p" using N p by linarith
    note at = at_pos_after [where f = fa, OF b, folded d2_def]
    show "d2 ! p = 0x81" using at(1) [of 0] w N p by (simp add: fa_def writeAllocBitmapEntry_def codec_simps)
    show "get32 d2 (p + 20) = 2" using at(2) [of 20] w N p by (simp add: fa_def writeAllocBitmapEntry_def codec_simps)
    show "get64 d2 (p + 24) = of_int (x_bitmapBytes l)" using at(3) [of 24] w N p by (simp add: fa_def writeAllocBitmapEntry_def codec_simps)
    show "d2 ! (p + 64) = 0" using at(1) [of 64] w N p z by (simp add: fa_def writeAllocBitmapEntry_def codec_simps)
  qed
  have b: "p + 32 \<le> length d2" "length (fu (drop (p + 32) d2)) = length d2 - (p + 32)" using N p l2 by (simp_all add: lf)
  note bf = at_pos_before [OF b(1), where f = fu, folded r_def]
  note at = at_pos_after [where f = fu, OF b, folded r_def, unfolded add.assoc]
  have w: "80 \<le> length d1 - (p + 32)" using N p by linarith
  have "r ! (p + 32) = 0x82" using at(1) [of 0] w N p l2 by (simp add: fu_def writeUpcaseEntry_def codec_simps)
  moreover have "get32 r (p + 36) = csum" using at(2) [of 4] w N p l2 by (simp add: fu_def writeUpcaseEntry_def codec_simps)
  moreover have "get32 r (p + 52) = of_int (x_upcaseFirstCluster l)" using at(2) [of 20] w N p l2 by (simp add: fu_def writeUpcaseEntry_def codec_simps)
  moreover have "get64 r (p + 56) = of_int UpcaseTableBytes" using at(3) [of 24] w N p l2 by (simp add: fu_def writeUpcaseEntry_def codec_simps)
  moreover have "r ! (p + 64) = 0" using at(1) [of 32] w N p l2 A(4) by (simp add: fu_def writeUpcaseEntry_def codec_simps add.commute)
  ultimately show ?thesis using A bf by (simp add: exfat_announces_def e p_def [symmetric])
qed

end
