(* ===== verification/MkfsProps.thy ===== *)
theory MkfsProps
  imports MkfsFat32Correct MkfsExfatCorrect FatWrite
begin

text \<open>
  The properties of the FAT32 formatter, against the FAT driver, and of the exFAT formatter.
\<close>

unbundle bit_operations_syntax

subsection \<open>FAT32\<close>

text \<open>
  C30. A partition formatted with at least 65525 clusters is a FAT32 volume for the driver: the
  formatter succeeds, \<open>Open\<close> accepts the result with a well-formed table and geometry, every
  cluster but that of the root directory is free, and the root directory is empty.
\<close>

theorem fat32_Format_opens:
  assumes "isPow2 ss" "512 \<le> ss" "ss \<le> 4096" "fo_sectorSize opts = ss" "T = nat (quot (s_size s) ss)"
    and "65536 \<le> T" "T + 2 ^ 15 \<le> 2 ^ 32" "rws_ok f s" "\<not> closed f" "s_base s + s_size s < 2 ^ 63"
    and "n = cnt_nat T (unat (sectorsPerCluster (s_size s) ss))" "65525 \<le> n" "n \<le> 0x0FFFFFF6"
  shows "\<exists>f' s' v. fat32_Format U volumeID (s_size s) opts (f, s) = (Inr (), f', s') \<and>
    fat_Open f' (s_base s) (s_size s) ft = Inr v \<and> fatType (v_b v) = FAT32 \<and> fat_ok v \<and> geom_ok f' v \<and>
    unat (cntClusters (v_b v)) = n \<and> (\<forall>m. is_clus v m \<longrightarrow> nxt v m = 0 \<longleftrightarrow> m \<noteq> 2) \<and>
    vol_ReadDir U f' v [slash] = Inr []"
proof -
  define sp where "sp = sectorsPerCluster (s_size s) ss"
  have n1: "1 \<le> cnt_nat T (unat sp)" using assms(11,12) by (simp add: sp_def)
  obtain f' s' where F: "fat32_Format U volumeID (s_size s) opts (f, s) = (Inr (), f', s')"
    and D: "fresh_disk U volumeID (nat ss) (of_nat T) sp opts (nat (s_base s)) (nat (s_size s)) (contents f) f'"
    and T: "unat (of_nat T :: u32) = T"
    using fat32_Format_fresh [OF assms(1-10) sp_def n1] by blast
  have c: "65525 \<le> cnt_nat (unat (of_nat T :: u32)) (unat sp)" "cnt_nat (unat (of_nat T :: u32)) (unat sp) \<le> 0x0FFFFFF6"
    unfolding T using assms(11-13) by (simp_all add: sp_def)
  define v where "v = fresh_vol (nat ss) (of_nat T) sp (nat (s_base s)) (nat (s_size s))"
  note K = fresh_ok [OF D c, folded v_def]
  have z: "0 \<le> s_base s" "0 \<le> s_size s"
  proof -
    show "0 \<le> s_base s" using assms(8) by (simp add: rws_ok_def)
    show "0 \<le> s_size s" using assms(2,5,6) by (intro quot_pos_dividend [of ss]) linarith+
  qed
  have o: "fat_Open f' (s_base s) (s_size s) ft = Inr v" using fresh_open [OF D, of ft] z by (simp add: v_def)
  have cnt: "unat (cntClusters (v_b v)) = n"
    using fresh_geometry(3) [of "of_nat T" sp "nat ss"] D assms(11) by (simp add: fresh_disk_def v_def fresh_vol_def T sp_def)
  have "firstRootDir (v_b v) = 2" using K(1) by (simp add: v_def fresh_vol_def fresh_bpb_def Let_def split: if_splits)
  then have "root_entry v = root_entry v\<lparr>cluster := 2\<rparr>" using K(1) by (simp add: root_entry_def)
  then have re: "cluster (root_entry v) = 2" "isDir (root_entry v)"
    by (metis fatDirEntry.select_convs(4) fatDirEntry.surjective fatDirEntry.update_convs(4)) (simp add: root_entry_def isDir_def attrDirectory_def)
  have "lookupPath U f' v [slash] = Inr (root_entry v)" by (simp add: lookupPath_def Clean_def clean_elems_def clean_step_def Let_def)
  then have "vol_ReadDir U f' v [slash] = Inr []" using re fresh_root [OF D c] by (simp add: vol_ReadDir_def v_def)
  then show ?thesis using F o K cnt by (intro exI [of _ f'] exI [of _ s'] exI [of _ v]) simp
qed

definition fat_window :: "int \<Rightarrow> sectionRWS" where
  "fat_window sz = \<lparr>s_base = 0, s_size = sz, s_pos = 0\<rparr>"

definition blank :: "nat \<Rightarrow> gofile" where
  "blank n = \<lparr>contents = zeros n, closed = False\<rparr>"

definition efi_opts :: fat_options where
  "efi_opts = \<lparr>fo_Label = bs ''EFI'', fo_SectorSize = 0\<rparr>"

definition plain_ucd :: ucd where
  "plain_ucd = \<lparr>upper_rune = id, fold_rune = id\<rparr>"

theorem fat32_Format_opens_witness:
  "\<exists>f' s' v. fat32_Format plain_ucd 7 41943040 efi_opts (blank 41943040, fat_window 41943040) = (Inr (), f', s') \<and>
     fat_Open f' 0 41943040 FAT32 = Inr v \<and> fatType (v_b v) = FAT32 \<and> unat (cntClusters (v_b v)) = 80618 \<and>
     vol_ReadDir plain_ucd f' v [slash] = Inr []"
proof -
  have sp: "unat (sectorsPerCluster 41943040 512) = 1" by (simp add: sectorsPerCluster_def Let_def)
  have w: "s_size (fat_window 41943040) = 41943040" "s_base (fat_window 41943040) = 0" "rws_ok (blank 41943040) (fat_window 41943040)"
    "\<not> closed (blank 41943040)" by (simp_all add: fat_window_def blank_def rws_ok_def file_size_def)
  have "isPow2 512" "fo_sectorSize efi_opts = 512" by (simp_all add: isPow2_def fo_sectorSize_def efi_opts_def)
  moreover have "80618 = cnt_nat 81920 (unat (sectorsPerCluster (s_size (fat_window 41943040)) 512))"
    unfolding w sp by (simp add: cnt_nat_def fsz_nat_def)
  ultimately show ?thesis
    using fat32_Format_opens [of 512 efi_opts 81920 "fat_window 41943040" "blank 41943040" 80618 plain_ucd 7 FAT32] w by auto
qed

text \<open>
  C31. Between 65536 sectors and 65525 clusters lies a range of sizes that the formatter accepts
  and the driver does not read as FAT32: the formatter succeeds, \<open>Open\<close> takes the volume for
  FAT16 with a root directory of no entries, and no file can ever be created in its root.
\<close>

theorem fat32_Format_misread:
  assumes "isPow2 ss" "512 \<le> ss" "ss \<le> 4096" "fo_sectorSize opts = ss" "T = nat (quot (s_size s) ss)"
    and "65536 \<le> T" "T + 2 ^ 15 \<le> 2 ^ 32" "rws_ok f s" "\<not> closed f" "s_base s + s_size s < 2 ^ 63"
    and "n = cnt_nat T (unat (sectorsPerCluster (s_size s) ss))" "4085 \<le> n" "n < 65525"
  shows "\<exists>f' s' v. fat32_Format U volumeID (s_size s) opts (f, s) = (Inr (), f', s') \<and>
    fat_Open f' (s_base s) (s_size s) ft = Inr v \<and> fatType (v_b v) = FAT16 \<and>
    (\<forall>t nm a c k. addDirEntry U f' t 0 nm a c k v = (Inl (Err ''fat32: root directory full''), v))"
proof -
  define sp where "sp = sectorsPerCluster (s_size s) ss"
  have n1: "1 \<le> cnt_nat T (unat sp)" using assms(11,12) by (simp add: sp_def)
  obtain f' s' where F: "fat32_Format U volumeID (s_size s) opts (f, s) = (Inr (), f', s')"
    and D: "fresh_disk U volumeID (nat ss) (of_nat T) sp opts (nat (s_base s)) (nat (s_size s)) (contents f) f'"
    and T: "unat (of_nat T :: u32) = T"
    using fat32_Format_fresh [OF assms(1-10) sp_def n1] by blast
  have c: "4085 \<le> cnt_nat (unat (of_nat T :: u32)) (unat sp)" "cnt_nat (unat (of_nat T :: u32)) (unat sp) < 65525"
    unfolding T using assms(11-13) by (simp_all add: sp_def)
  define v where "v = fresh_vol (nat ss) (of_nat T) sp (nat (s_base s)) (nat (s_size s))"
  note K = fresh_small [OF D c, folded v_def]
  have o: "fat_Open f' (s_base s) (s_size s) ft = Inr v"
  proof -
    have "0 \<le> s_base s" using assms(8) by (simp add: rws_ok_def)
    moreover have "0 \<le> s_size s" using assms(2,5,6) by (intro quot_pos_dividend [of ss]) linarith+
    ultimately show ?thesis using fresh_open [OF D, of ft] by (simp add: v_def)
  qed
  have "findFreeSlot [] k = None" for k by (simp add: findFreeSlot_def free_slot.simps)
  then have "addDirEntry U f' t 0 nm a c k v = (Inl (Err ''fat32: root directory full''), v)" for t nm a c k
    using K by (simp add: addDirEntry_def appendEntryToDir_def append_root_def bindS_def readS_def failS_def Let_def)
  then show ?thesis using F o K(1) by blast
qed

theorem fat32_Format_misread_witness:
  "\<exists>f' s' v. fat32_Format plain_ucd 7 33554432 efi_opts (blank 33554432, fat_window 33554432) = (Inr (), f', s') \<and>
     fat_Open f' 0 33554432 FAT32 = Inr v \<and> fatType (v_b v) = FAT16"
proof -
  have sp: "unat (sectorsPerCluster 33554432 512) = 1" by (simp add: sectorsPerCluster_def Let_def)
  have w: "s_size (fat_window 33554432) = 33554432" "s_base (fat_window 33554432) = 0" "rws_ok (blank 33554432) (fat_window 33554432)"
    "\<not> closed (blank 33554432)" by (simp_all add: fat_window_def blank_def rws_ok_def file_size_def)
  have "isPow2 512" "fo_sectorSize efi_opts = 512" by (simp_all add: isPow2_def fo_sectorSize_def efi_opts_def)
  moreover have "64488 = cnt_nat 65536 (unat (sectorsPerCluster (s_size (fat_window 33554432)) 512))"
    unfolding w sp by (simp add: cnt_nat_def fsz_nat_def)
  ultimately show ?thesis
    using fat32_Format_misread [of 512 efi_opts 65536 "fat_window 33554432" "blank 33554432" 64488 plain_ucd 7 FAT32] w by auto
qed

text \<open>
  C32. A partition formatted with the default sector size of 512 bytes is detected as FAT32, and
  one formatted with a larger sector size is not detected at all: the boot signature is put at
  the end of the sector, and detection looks for it at offset 510.
\<close>

theorem fat32_Format_detected:
  assumes "isPow2 ss" "512 \<le> ss" "ss \<le> 4096" "fo_sectorSize opts = ss" "T = nat (quot (s_size s) ss)"
    and "65536 \<le> T" "T + 2 ^ 15 \<le> 2 ^ 32" "rws_ok f s" "\<not> closed f" "s_base s + s_size s < 2 ^ 63"
    and "65525 \<le> cnt_nat T (unat (sectorsPerCluster (s_size s) ss))"
    and "Start r = s_base s" "End r = s_base s + s_size s"
  shows "\<exists>f' s'. fat32_Format U volumeID (s_size s) opts (f, s) = (Inr (), f', s') \<and>
    detect_region f' r = (if ss = 512 then FAT32 else Unknown)"
proof -
  define sp where "sp = sectorsPerCluster (s_size s) ss"
  have n1: "1 \<le> cnt_nat T (unat sp)" using assms(11) by (simp add: sp_def)
  obtain f' s' where F: "fat32_Format U volumeID (s_size s) opts (f, s) = (Inr (), f', s')"
    and D: "fresh_disk U volumeID (nat ss) (of_nat T) sp opts (nat (s_base s)) (nat (s_size s)) (contents f) f'"
    and T: "unat (of_nat T :: u32) = T"
    using fat32_Format_fresh [OF assms(1-10) sp_def n1] by blast
  have z: "0 \<le> s_base s" using assms(8) by (simp add: rws_ok_def)
  have z2: "0 \<le> s_size s" using assms(2,5,6) by (intro quot_pos_dividend [of ss]) linarith+
  have "nat ss \<in> {512, 1024, 2048, 4096}" using isPow2_sector [OF assms(1-3)] by auto
  then have "detect_region f' r = (if nat ss = 512 then FAT32 else Unknown)"
    using fresh_detect [OF D] z z2 assms(11-13) by (simp add: T sp_def)
  moreover have "nat ss = 512 \<longleftrightarrow> ss = 512" using assms(2) by auto
  ultimately show ?thesis using F by auto
qed

theorem fat32_Format_detected_witness:
  "\<exists>f' s'. fat32_Format plain_ucd 7 41943040 efi_opts (blank 41943040, fat_window 41943040) = (Inr (), f', s') \<and>
     detect_region f' \<lparr>Kind = RegionPartition, Start = 0, End = 41943040, PartitionIndex = 1\<rparr> = FAT32"
proof -
  have sp: "unat (sectorsPerCluster 41943040 512) = 1" by (simp add: sectorsPerCluster_def Let_def)
  have w: "s_size (fat_window 41943040) = 41943040" "s_base (fat_window 41943040) = 0" "rws_ok (blank 41943040) (fat_window 41943040)"
    "\<not> closed (blank 41943040)" by (simp_all add: fat_window_def blank_def rws_ok_def file_size_def)
  have "isPow2 512" "fo_sectorSize efi_opts = 512" by (simp_all add: isPow2_def fo_sectorSize_def efi_opts_def)
  moreover have "65525 \<le> cnt_nat 81920 (unat (sectorsPerCluster (s_size (fat_window 41943040)) 512))"
    unfolding w sp by (simp add: cnt_nat_def fsz_nat_def)
  ultimately show ?thesis
    using fat32_Format_detected [of 512 efi_opts 81920 "fat_window 41943040" "blank 41943040"
        "\<lparr>Kind = RegionPartition, Start = 0, End = 41943040, PartitionIndex = 1\<rparr>" plain_ucd 7] w by auto
qed

subsection \<open>exFAT\<close>

text \<open>
  C33. Exactly the volumes of at least 2048 sectors get a layout, and it is well-formed: boot
  regions, table and cluster heap follow one another inside the volume, the table has an entry and
  the bitmap a bit for every cluster, and the bitmap, the up-case table and the root directory
  have clusters of their own.
\<close>

theorem exfat_computeLayout_total:
  assumes "isPow2 ss" "512 \<le> ss" "ss \<le> 4096"
  shows "case exfat_computeLayout sz ss of Inl e \<Rightarrow> quot sz ss < 2048
    | Inr l \<Rightarrow> 2048 \<le> quot sz ss \<and> x_totalSectors l = quot sz ss \<and> exfat_layout_ok ss l"
proof (cases "2048 \<le> quot sz ss")
  case True
  then show ?thesis using exfat_computeLayout_ok [OF isPow2_sector [OF assms] True] by auto
next
  case False
  then show ?thesis by (simp add: exfat_computeLayout_def)
qed

theorem exfat_computeLayout_total_witness:
  "(\<exists>e. exfat_computeLayout 1048575 512 = Inl e) \<and> (\<exists>l. exfat_computeLayout 1048576 512 = Inr l \<and> exfat_layout_ok 512 l)"
proof -
  have p: "isPow2 512" by (simp add: isPow2_def)
  show ?thesis using exfat_computeLayout_total [OF p, of 1048575] exfat_computeLayout_total [OF p, of 1048576]
    by (auto split: sum.splits)
qed

text \<open>
  C34. Formatting a partition of at least 2048 sectors succeeds.  The boot region at its start is
  repeated right behind itself, every word of the checksum sector is the checksum of the eleven
  sectors before it, and the boot sector holds the layout.
\<close>

theorem exfat_Format_boot:
  assumes "isPow2 ss" "512 \<le> ss" "ss \<le> 4096" "xo_sectorSize opts = ss" "2048 \<le> quot (s_size s) ss"
    and "rws_ok f s" "\<not> closed f" "n = nat ss"
  shows "\<exists>f' s' l b. exfat_Format volSerial (s_size s) opts (f, s) = (Inr (), f', s') \<and> exfat_computeLayout (s_size s) ss = Inr l \<and>
    b = part_bytes f' s 0 (12 * n) \<and> part_bytes f' s (12 * n) (12 * n) = b \<and>
    (\<forall>i < n div 4. get32 b (11 * n + 4 * i) = bootChecksum (take (11 * n) b) n) \<and>
    sub b 3 8 = bs ''EXFAT   '' \<and> get64 b 72 = of_int (x_totalSectors l) \<and>
    get32 b 80 = of_int (x_fatOffset l) \<and> get32 b 84 = of_int (x_fatSectors l) \<and>
    get32 b 88 = of_int (x_clusterHeapOffset l) \<and> get32 b 92 = of_int (x_clusterCount l) \<and>
    get32 b 96 = of_int (x_rootDirCluster l) \<and> b ! 108 = x_bpsShift l \<and> b ! 109 = x_spcShift l"
proof -
  obtain l f' s' img where L: "exfat_computeLayout (s_size s) ss = Inr l" "exfat_layout_ok ss l"
    and I: "img = exfat_image volSerial n l (xo_Label opts)" and F: "exfat_Format volSerial (s_size s) opts (f, s) = (Inr (), f', s')"
    and R: "\<And>off k. off + k \<le> length img \<Longrightarrow> part_bytes f' s off k = sub img off k"
    using exfat_Format_ok [OF assms(4,1,2,3,5-7)] unfolding assms(8) by metis
  have e: "n = 4 * (n div 4)" "int n = ss" "512 \<le> n" using isPow2_sector [OF assms(1-3)] assms(8) by auto
  have ok: "exfat_layout_ok (int n) l" using L(2) e(2) by simp
  note P = exfat_image_parts [OF ok e(1) refl refl refl refl I]
  have "24 * n \<le> length img" by (simp add: I exfat_image_def)
  then have b: "part_bytes f' s 0 (12 * n) = buildBootRegion volSerial n l" "part_bytes f' s (12 * n) (12 * n) = buildBootRegion volSerial n l"
    using R [of 0 "12 * n"] R [of "12 * n" "12 * n"] P(1,2) by simp_all
  show ?thesis
    using F L(1) b bootregion_decode [OF e(3) refl, of volSerial l] bootregion_checksum [OF e(1) refl, of _ volSerial l]
    by (intro exI [of _ f'] exI [of _ s'] exI [of _ l] exI [of _ "buildBootRegion volSerial n l"]) (simp add: sub_def)
qed

definition mib_opts :: exfat_options where
  "mib_opts = \<lparr>xo_Label = bs ''DATA'', xo_SectorSize = 0\<rparr>"

theorem exfat_Format_boot_witness:
  "\<exists>f' s' l b. exfat_Format 7 1048576 mib_opts (blank 1048576, fat_window 1048576) = (Inr (), f', s') \<and>
     exfat_computeLayout 1048576 512 = Inr l \<and> b = part_bytes f' (fat_window 1048576) 0 6144 \<and>
     part_bytes f' (fat_window 1048576) 6144 6144 = b \<and> get32 b 5636 = bootChecksum (take 5632 b) 512"
proof -
  have w: "s_size (fat_window 1048576) = 1048576" "rws_ok (blank 1048576) (fat_window 1048576)" "\<not> closed (blank 1048576)"
    by (simp_all add: fat_window_def blank_def rws_ok_def file_size_def)
  have "isPow2 512" "xo_sectorSize mib_opts = 512" by (simp_all add: isPow2_def xo_sectorSize_def mib_opts_def)
  then obtain f' s' l b where *: "exfat_Format 7 1048576 mib_opts (blank 1048576, fat_window 1048576) = (Inr (), f', s')"
    "exfat_computeLayout 1048576 512 = Inr l" "b = part_bytes f' (fat_window 1048576) 0 6144"
    "part_bytes f' (fat_window 1048576) 6144 6144 = b" and c: "\<forall>i < 128. get32 b (5632 + 4 * i) = bootChecksum (take 5632 b) 512"
    using exfat_Format_boot [of 512 mib_opts "fat_window 1048576" "blank 1048576" 512 7] w by auto
  show ?thesis using * spec [OF c, of 1] by auto
qed

text \<open>
  C35. After formatting, the table, the bitmap and the root directory agree: a cluster has its bit
  set exactly when its table entry is not free, which are the clusters up to that of the root
  directory; and the root directory announces the bitmap and the up-case table at the clusters
  where they lie, the latter with the checksum of its bytes on the disk.
\<close>

theorem exfat_Format_consistent:
  assumes "isPow2 ss" "512 \<le> ss" "ss \<le> 4096" "xo_sectorSize opts = ss" "2048 \<le> quot (s_size s) ss" "quot (s_size s) ss < 2 ^ 32"
    and "rws_ok f s" "\<not> closed f" "n = nat ss"
  shows "\<exists>f' s' l. exfat_Format volSerial (s_size s) opts (f, s) = (Inr (), f', s') \<and> exfat_computeLayout (s_size s) ss = Inr l \<and>
    (let cb = nat (x_clusterBytes l); at = (\<lambda>c. nat (x_clusterHeapOffset l) * n + (c - 2) * cb);
         fatv = (\<lambda>c. get32 (part_bytes f' s (24 * n + 4 * c) 4) 0);
         upc = part_bytes f' s (at (nat (x_upcaseFirstCluster l))) (nat UpcaseTableBytes)
     in (\<forall>c. 2 \<le> c \<and> c < nat (x_clusterCount l) + 2 \<longrightarrow>
           (bit_at (part_bytes f' s (at 2) (nat (x_bitmapClusters l) * cb)) (c - 2) \<longleftrightarrow> fatv c \<noteq> 0) \<and>
           (fatv c \<noteq> 0 \<longleftrightarrow> c \<le> nat (x_rootDirCluster l))) \<and>
        upc = buildUpcaseTable \<and>
        exfat_announces (part_bytes f' s (at (nat (x_rootDirCluster l))) cb) (if xo_Label opts = [] then 0 else 32) l (upcaseChecksum upc))"
proof -
  obtain l f' s' img where L: "exfat_computeLayout (s_size s) ss = Inr l" "exfat_layout_ok ss l"
    and I: "img = exfat_image volSerial n l (xo_Label opts)" and F: "exfat_Format volSerial (s_size s) opts (f, s) = (Inr (), f', s')"
    and R: "\<And>off k. off + k \<le> length img \<Longrightarrow> part_bytes f' s off k = sub img off k"
    using exfat_Format_ok [OF assms(4,1,2,3,5,7,8)] unfolding assms(9) by metis
  have e: "n = 4 * (n div 4)" "int n = ss" "512 \<le> n" using isPow2_sector [OF assms(1-3)] assms(9) by auto
  have ok: "exfat_layout_ok (int n) l" using L(2) e(2) by simp
  note K = L(2) [unfolded exfat_layout_ok_def Let_def]
  define H where "H = nat (x_clusterHeapOffset l)"
  define cb where "cb = nat (x_clusterBytes l)"
  define B where "B = nat (x_bitmapClusters l)"
  define Uc where "Uc = nat (x_upcaseClusters l)"
  note P = exfat_image_parts [OF ok e(1) H_def cb_def B_def Uc_def I]
  have cb4: "4096 \<le> x_clusterBytes l" using exfat_computeLayout_ok [OF isPow2_sector [OF assms(1-3)] assms(5)] L(1) by auto
  have tot: "x_totalSectors l < 2 ^ 32" using exfat_computeLayout_ok [OF isPow2_sector [OF assms(1-3)] assms(5)] L(1) assms(6) by auto
  have cnt: "x_clusterCount l + 2 \<le> 2 ^ 32" using exfat_count_sectors [OF L(2)] tot by linarith
  have lim: "nat (x_rootDirCluster l) = 2 + B + Uc" "nat (x_upcaseFirstCluster l) = 2 + B" "UpcaseTableBytes \<le> int (Uc * cb)"
    using K by (auto simp: B_def Uc_def cb_def)
  have up: "131072 \<le> Uc * cb" using lim(3) unfolding UpcaseTableBytes_def by linarith
  have bm: "part_bytes f' s (H * n) (B * cb) = exfat_bitmap l" using R [of "H * n" "B * cb"] P(4,7) by (simp add: add_mult_distrib)
  have uc: "part_bytes f' s (H * n + B * cb) 131072 = buildUpcaseTable"
    using R [of "H * n + B * cb" 131072] P(5,7) up by (simp add: add_mult_distrib)
  have rd: "part_bytes f' s (H * n + (B + Uc) * cb) cb = exfat_rootDir l (xo_Label opts) (upcaseChecksum buildUpcaseTable)"
    using R [of "H * n + (B + Uc) * cb" cb] P(6,7) by (simp add: add_mult_distrib)
  have fv: "get32 (part_bytes f' s (24 * n + 4 * c) 4) 0 = clusterFATValue (int c) l" if "c < nat (x_clusterCount l) + 2" for c
  proof -
    have "int (4 * (c + 1)) \<le> int (nat (x_fatSectors l) * n)" using that K e(2) by auto
    then have c4: "4 * (c + 1) \<le> nat (x_fatSectors l) * n" by (simp only: of_nat_le_iff)
    have "nat (x_fatSectors l) * n = 4 * (nat (x_fatSectors l) * (n div 4))" using e(1) by simp
    with c4 have "4 * (c + 1) \<le> 4 * (nat (x_fatSectors l) * (n div 4))" by (simp only:)
    then have "c < nat (x_fatSectors l) * (n div 4)" by simp
    moreover have "24 + nat (x_fatSectors l) \<le> H" using K by (auto simp: H_def)
    then have "(24 + nat (x_fatSectors l)) * n \<le> H * n" by (rule mult_le_mono1)
    then have "24 * n + 4 * c + 4 \<le> length img" using c4 P(7) by (simp add: add_mult_distrib)
    ultimately show ?thesis using R [of "24 * n + 4 * c" 4] P(3) [of c] get32_le32 by simp
  qed
  have "(bit_at (exfat_bitmap l) (c - 2) \<longleftrightarrow> clusterFATValue (int c) l \<noteq> 0) \<and> (clusterFATValue (int c) l \<noteq> 0 \<longleftrightarrow> c \<le> nat (x_rootDirCluster l))"
    if "2 \<le> c" "c < nat (x_clusterCount l) + 2" for c
  proof -
    have "int c < x_clusterCount l + 2" "2 \<le> int c" "nat (int c - 2) = c - 2" using that by linarith+
    then show ?thesis using clusterFATValue_used [OF L(2) _ cnt, of "int c"] exfat_bitmap_bits(1) [OF L(2), of "int c"] by auto
  qed
  moreover have "exfat_announces (exfat_rootDir l (xo_Label opts) (upcaseChecksum buildUpcaseTable)) (if xo_Label opts = [] then 0 else 32) l
      (upcaseChecksum buildUpcaseTable)" by (rule exfat_rootDir_announces [OF cb4])
  ultimately show ?thesis using F L(1) fv bm uc rd lim(1,2)
    by (intro exI [of _ f'] exI [of _ s'] exI [of _ l])
       (simp add: Let_def H_def [symmetric] cb_def [symmetric] B_def [symmetric] UpcaseTableBytes_def del: bs_simps)
qed

theorem exfat_Format_consistent_witness:
  "\<exists>f' s' l. exfat_Format 7 1048576 mib_opts (blank 1048576, fat_window 1048576) = (Inr (), f', s') \<and> exfat_computeLayout 1048576 512 = Inr l \<and>
     part_bytes f' (fat_window 1048576) (nat (x_clusterHeapOffset l) * 512 + (nat (x_upcaseFirstCluster l) - 2) * nat (x_clusterBytes l)) 131072 = buildUpcaseTable"
proof -
  have w: "s_size (fat_window 1048576) = 1048576" "rws_ok (blank 1048576) (fat_window 1048576)" "\<not> closed (blank 1048576)"
    by (simp_all add: fat_window_def blank_def rws_ok_def file_size_def)
  have "isPow2 512" "xo_sectorSize mib_opts = 512" by (simp_all add: isPow2_def xo_sectorSize_def mib_opts_def)
  then show ?thesis
    using exfat_Format_consistent [of 512 mib_opts "fat_window 1048576" "blank 1048576" 512 7] w
    by (auto simp: Let_def UpcaseTableBytes_def)
qed

end
