(* ===== verification/MkfsExt4.thy ===== *)
theory MkfsExt4
  imports MkfsIO
begin

text \<open>
  The ext4 formatter (\<open>src/mkfs/ext4\<close>).  Block and inode numbers are words of the widths the
  code gives them.  The clock (\<open>timeNow\<close>) is the argument \<open>now\<close>, and the result of
  \<open>uuid.NewRandom\<close> the argument \<open>newUUID\<close>.  The options and the layout are one record each;
  \<open>computeLayout\<close> stores \<open>reservedGDT\<close> in the options, here it is the options of the layout.
\<close>

unbundle bit_operations_syntax

subsection \<open>Constants and layout (\<open>layout.go\<close>)\<close>

definition blockSize :: nat where "blockSize = 4096"
definition inodeSize :: nat where "inodeSize = 256"
definition blocksPerGroup :: u64 where "blocksPerGroup = 32768"
definition gdtEntrySize :: nat where "gdtEntrySize = 64"
definition inoLostFound :: u32 where "inoLostFound = 11"

record ext4_options =
  eo_Label :: gostr
  eo_UUID :: bytes
  eo_InodeRatio :: int
  eo_ReservedPct :: int
  eo_reservedGDT :: u32

record groupLayout =
  gl_groupNum :: u32
  gl_firstBlock :: u64
  gl_lastBlock :: u64
  gl_hasSB :: bool
  gl_blockBitmap :: u64
  gl_inodeBitmap :: u64
  gl_inodeTable :: u64
  gl_inodeTableBlocks :: u32
  gl_dataStart :: u64
  gl_freeBlocks :: u32
  gl_freeInodes :: u32
  gl_usedDirs :: u16

record ext4_fsLayout =
  el_opts :: ext4_options
  el_now :: int
  el_totalBlocks :: u64
  el_totalInodes :: u32
  el_numGroups :: u32
  el_inodesPerGrp :: u32
  el_gdtBlocks :: u64
  el_groups :: "groupLayout list"
  el_journalBlock :: u64
  el_journalSize :: u32
  el_rootDirBlock :: u64
  el_lfDirBlock :: u64
  el_csumSeed :: u32

text \<open>\<open>crc32cUpdate\<close>.\<close>

definition crc32cUpdate :: "u32 \<Rightarrow> bytes \<Rightarrow> u32" where
  "crc32cUpdate crc data = crc_update Castagnoli crc data"

text \<open>
  The loop \<open>for x < g { x *= b }\<close> on \<open>uint32\<close>.  A loop that has run through more values than
  there are \<open>uint32\<close> never ends; that is the result \<open>None\<close>.
\<close>

fun sb_loop :: "nat \<Rightarrow> u32 \<Rightarrow> u32 \<Rightarrow> u32 \<Rightarrow> u32 option" where
  "sb_loop k b g x = (if x < g then (if k = 0 then None else sb_loop (k - 1) b g (x * b)) else Some x)"

declare sb_loop.simps [simp del]

fun sb_bases :: "u32 list \<Rightarrow> u32 \<Rightarrow> bool option" where
  "sb_bases [] g = Some False"
| "sb_bases (b # rest) g = (case sb_loop (2 ^ 32) b g b of None \<Rightarrow> None
     | Some x \<Rightarrow> if x = g then Some True else sb_bases rest g)"

definition hasSuperBackup :: "u32 \<Rightarrow> bool option" where
  "hasSuperBackup g = (if g \<le> 1 then Some True else sb_bases [3, 5, 7] g)"

text \<open>One round of the loop over the groups.\<close>

definition group_layout :: "u64 \<Rightarrow> u64 \<Rightarrow> u32 \<Rightarrow> u64 \<Rightarrow> u32 \<Rightarrow> bool \<Rightarrow> u32 \<Rightarrow> groupLayout" where
  "group_layout totalBlocks gdtBlocks reservedGDT inodeTableBlocks inodesPerGrp sb g =
     (let first = ucast g * blocksPerGroup;
          last0 = first + blocksPerGroup - 1;
          last' = (if last0 \<ge> totalBlocks then totalBlocks - 1 else last0);
          groupBlocks = last' - first + 1;
          cur0 = (if sb then first + 1 + gdtBlocks + ucast reservedGDT else first);
          cur1 = cur0 + 1;
          cur2 = cur1 + 1;
          cur3 = cur2 + inodeTableBlocks;
          used = cur3 - first
      in \<lparr>gl_groupNum = g, gl_firstBlock = first, gl_lastBlock = last', gl_hasSB = sb,
          gl_blockBitmap = cur0, gl_inodeBitmap = cur1, gl_inodeTable = cur2,
          gl_inodeTableBlocks = ucast inodeTableBlocks, gl_dataStart = cur3,
          gl_freeBlocks = (if groupBlocks > used then ucast (groupBlocks - used) else 0),
          gl_freeInodes = inodesPerGrp, gl_usedDirs = 0\<rparr>)"

fun group_loop :: "(bool \<Rightarrow> u32 \<Rightarrow> groupLayout) \<Rightarrow> nat list \<Rightarrow> groupLayout list res" where
  "group_loop mk [] = Inr []"
| "group_loop mk (g # gs) = (case hasSuperBackup (of_nat g) of None \<Rightarrow> Inl Diverge
     | Some sb \<Rightarrow> bindR (group_loop mk gs) (\<lambda>rest. Inr (mk sb (of_nat g) # rest)))"

definition ext4_inodesPerGrp :: "int \<Rightarrow> int \<Rightarrow> u32 \<Rightarrow> u32" where
  "ext4_inodesPerGrp sizeBytes ratio numGroups =
     (let raw = quot sizeBytes ratio;
          i0 = of_int (quot (raw + uint numGroups - 1) (uint numGroups));
          i1 = ((i0 + 16 - 1) div 16) * 16;
          i2 = (if i1 < 16 then 16 else i1)
      in if i2 > ucast blocksPerGroup then ucast blocksPerGroup else i2)"

definition ext4_reservedGDT :: "u32 \<Rightarrow> u64 \<Rightarrow> u32" where
  "ext4_reservedGDT numGroups gdtBlocks =
     (let m0 = ucast numGroups * 1024 :: u64;
          maxGroups = (if m0 > 0xFFFFFFFF then 0xFFFFFFFF else m0);
          maxGDTBlocks = (maxGroups * 64 + 4096 - 1) div 4096;
          r = (if maxGDTBlocks > gdtBlocks then ucast (maxGDTBlocks - gdtBlocks) else 0)
      in if r > 1024 then 1024 else r)"

text \<open>The journal and the two directories are taken off the free blocks of group 0.\<close>

definition ext4_journalSize :: "u64 \<Rightarrow> u32 \<Rightarrow> u32" where
  "ext4_journalSize totalBlocks free0 =
     (let j0 = (if ucast (32768 :: u32) > totalBlocks div 4 then ucast (totalBlocks div 4) else 32768 :: u32);
          j1 = (if j0 < 1024 then 1024 else j0);
          maxJ = (if free0 > 2 then free0 - 2 else 0)
      in if j1 > maxJ then maxJ else j1)"

definition ext4_computeLayout :: "int \<Rightarrow> int \<Rightarrow> ext4_options \<Rightarrow> ext4_fsLayout res" where
  "ext4_computeLayout now sizeBytes opts =
     (let totalBlocks = (of_int sizeBytes :: u64) div 4096;
          numGroups = ucast ((totalBlocks + blocksPerGroup - 1) div blocksPerGroup) :: u32
      in if eo_InodeRatio opts = 0 \<or> numGroups = 0 then Inl (Panic ''integer divide by zero'')
         else let inodesPerGrp = ext4_inodesPerGrp sizeBytes (eo_InodeRatio opts) numGroups;
                  totalInodes = inodesPerGrp * numGroups;
                  gdtBlocks = (ucast numGroups * 64 + 4096 - 1) div 4096;
                  reservedGDT = ext4_reservedGDT numGroups gdtBlocks;
                  inodeTableBlocks = (ucast inodesPerGrp * 256 + 4096 - 1) div 4096
              in bindR (group_loop (group_layout totalBlocks gdtBlocks reservedGDT inodeTableBlocks inodesPerGrp)
                          [0..<unat numGroups]) (\<lambda>groups.
                 let g0 = hd groups;
                     jBlocks = ext4_journalSize totalBlocks (gl_freeBlocks g0);
                     j = gl_dataStart g0;
                     g0' = g0\<lparr>gl_dataStart := j + ucast jBlocks + 1 + 1, gl_freeBlocks := gl_freeBlocks g0 - jBlocks - 1 - 1,
                              gl_usedDirs := gl_usedDirs g0 + 1 + 1, gl_freeInodes := inodesPerGrp - inoLostFound\<rparr>
                 in Inr \<lparr>el_opts = opts\<lparr>eo_reservedGDT := reservedGDT\<rparr>, el_now = now, el_totalBlocks = totalBlocks,
                      el_totalInodes = totalInodes, el_numGroups = numGroups, el_inodesPerGrp = inodesPerGrp,
                      el_gdtBlocks = gdtBlocks, el_groups = g0' # tl groups,
                      el_journalBlock = j, el_journalSize = jBlocks, el_rootDirBlock = j + ucast jBlocks,
                      el_lfDirBlock = j + ucast jBlocks + 1,
                      el_csumSeed = crc32cUpdate 0xFFFFFFFF (eo_UUID opts)\<rparr>))"

subsection \<open>Bitmaps (\<open>bitmaps.go\<close>)\<close>

text \<open>Every caller stays inside the bitmap, where an index out of range would panic.\<close>

definition setBits :: "bytes \<Rightarrow> u64 \<Rightarrow> u64 \<Rightarrow> bytes" where
  "setBits bm bitOffset cnt = fold or_bit (map (\<lambda>i. unat (bitOffset + of_nat i)) [0..<unat cnt]) bm"

definition el_group :: "ext4_fsLayout \<Rightarrow> u32 \<Rightarrow> groupLayout" where
  "el_group fs g = el_groups fs ! unat g"

definition buildBlockBitmap :: "ext4_fsLayout \<Rightarrow> u32 \<Rightarrow> bytes" where
  "buildBlockBitmap fs g =
     (let gl = el_group fs g;
          used0 = gl_dataStart gl - gl_firstBlock gl;
          used = (if used0 > blocksPerGroup then blocksPerGroup else used0);
          bm = setBits (zeros blockSize) 0 used;
          groupBlocks = gl_lastBlock gl - gl_firstBlock gl + 1
      in if groupBlocks < blocksPerGroup then setBits bm groupBlocks (blocksPerGroup - groupBlocks) else bm)"

definition buildInodeBitmap :: "ext4_fsLayout \<Rightarrow> u32 \<Rightarrow> bytes" where
  "buildInodeBitmap fs g =
     (let bm = (if g = 0 then setBits (zeros blockSize) 0 (ucast inoLostFound) else zeros blockSize)
      in if el_inodesPerGrp fs < ucast blocksPerGroup
         then setBits bm (ucast (el_inodesPerGrp fs)) (blocksPerGroup - ucast (el_inodesPerGrp fs)) else bm)"

subsection \<open>Extents and inodes (\<open>inodes.go\<close>)\<close>

definition modeDIR :: u16 where "modeDIR = 0x4000 OR 0x1ED"
definition modeREG :: u16 where "modeREG = 0x8000 OR 0x180"
definition EXT4_EXTENTS_FL :: u32 where "EXT4_EXTENTS_FL = 0x00080000"

definition buildEmptyExtentTree :: bytes where
  "buildEmptyExtentTree = puts [(0, le16 0xF30A), (2, le16 0), (4, le16 4), (6, le16 0)] (zeros 60)"

definition buildExtentLeaf :: "u32 \<Rightarrow> u32 \<Rightarrow> u64 \<Rightarrow> bytes" where
  "buildExtentLeaf logicalStart numBlocks physBlock =
     puts [(0, le16 0xF30A), (2, le16 1), (4, le16 4), (6, le16 0), (8, le32 0),
           (12, le32 logicalStart), (16, le16 (ucast numBlocks)), (18, le16 (ucast (drop_bit 32 physBlock))),
           (20, le32 (ucast physBlock))] (zeros 60)"

text \<open>The closure \<open>put\<close>: the inode at index \<open>idx\<close> of the table, with its checksum.\<close>

definition inode_fields :: "u32 \<Rightarrow> u16 \<Rightarrow> u64 \<Rightarrow> u32 \<Rightarrow> bytes \<Rightarrow> (nat \<times> bytes) list" where
  "inode_fields now32 mode sz flags blkData =
     [(0, le16 mode), (2, le16 0), (4, le32 (ucast sz)), (8, le32 now32), (12, le32 now32), (16, le32 now32),
      (20, le32 0), (24, le16 0), (26, le16 2), (28, le32 0), (32, le32 flags), (40, blkData), (128, le16 28),
      (132, le32 now32), (136, le32 now32), (140, le32 now32), (144, le32 now32), (148, le32 now32),
      (152, le32 (ucast (drop_bit 32 sz)))]"

definition inode_csum :: "u32 \<Rightarrow> u32 \<Rightarrow> bytes \<Rightarrow> u32" where
  "inode_csum seed inodeNum inode =
     (let h0 = crc32cUpdate seed (le32 inodeNum);
          h1 = crc32cUpdate h0 (zeros 4);
          h2 = crc32cUpdate h1 (take 128 inode);
          h3 = crc32cUpdate h2 (sub inode 128 2)
      in crc32cUpdate h3 (sub inode 130 26))"

definition put_inode :: "ext4_fsLayout \<Rightarrow> u32 \<Rightarrow> u32 \<Rightarrow> u16 \<Rightarrow> u64 \<Rightarrow> u32 \<Rightarrow> bytes \<Rightarrow> bytes \<Rightarrow> bytes" where
  "put_inode fs g idx mode sz flags blkData buf =
     (let off = unat idx * inodeSize;
          inode = puts (inode_fields (of_int (el_now fs)) mode sz flags blkData) (sub buf off inodeSize);
          h = inode_csum (el_csumSeed fs) (g * el_inodesPerGrp fs + idx + 1) inode
      in copy_into buf off (puts [(116, le16 (ucast h)), (130, le16 (ucast (drop_bit 16 h)))] inode))"

definition buildInodeTable :: "ext4_fsLayout \<Rightarrow> u32 \<Rightarrow> bytes" where
  "buildInodeTable fs g =
     (let buf0 = zeros (unat (el_inodesPerGrp fs) * inodeSize) in
      if g \<noteq> 0 then buf0
      else let empty_inode = (\<lambda>i. put_inode fs g i modeREG 0 EXT4_EXTENTS_FL buildEmptyExtentTree);
               buf1 = empty_inode 0 buf0;
               buf2 = put_inode fs g 1 modeDIR (of_nat blockSize) EXT4_EXTENTS_FL (buildExtentLeaf 0 1 (el_rootDirBlock fs)) buf1;
               buf3 = fold empty_inode [2, 3, 4, 5, 6] buf2;
               jExt = buildExtentLeaf 0 (el_journalSize fs) (el_journalBlock fs);
               jSize = ucast (el_journalSize fs) * of_nat blockSize;
               jBlk = le32 (el_journalSize fs * 8);
               buf4 = copy_into buf3 (7 * inodeSize + 28) jBlk;
               buf5 = put_inode fs g 7 modeREG jSize EXT4_EXTENTS_FL jExt buf4;
               buf6 = copy_into buf5 (7 * inodeSize + 28) jBlk;
               buf7 = empty_inode 9 (empty_inode 8 buf6)
           in put_inode fs g 10 modeDIR (of_nat blockSize) EXT4_EXTENTS_FL (buildExtentLeaf 0 1 (el_lfDirBlock fs)) buf7)"

subsection \<open>The superblock (\<open>superblock.go\<close>)\<close>

definition padLabel :: "nat \<Rightarrow> gostr \<Rightarrow> bytes" where
  "padLabel n s = copy_into (zeros n) 0 (take n s)"

definition writeJournalInodeBackup :: "ext4_fsLayout \<Rightarrow> (nat \<times> bytes) list" where
  "writeJournalInodeBackup fs =
     (let jSize = ucast (el_journalSize fs) * of_nat blockSize :: u64
      in [(0, buildExtentLeaf 0 (el_journalSize fs) (el_journalBlock fs)),
          (60, le32 (ucast (drop_bit 32 jSize))), (64, le32 (ucast jSize))])"

definition sb_freeBlocks :: "ext4_fsLayout \<Rightarrow> u64" where
  "sb_freeBlocks fs = foldl (\<lambda>acc gl. acc + ucast (gl_freeBlocks gl)) 0 (el_groups fs)"

definition sb_freeInodes :: "ext4_fsLayout \<Rightarrow> u32" where
  "sb_freeInodes fs = foldl (\<lambda>acc gl. acc + gl_freeInodes gl) 0 (el_groups fs)"

definition sb_fields :: "ext4_fsLayout \<Rightarrow> u32 \<Rightarrow> (nat \<times> bytes) list" where
  "sb_fields fs g =
     (let now32 = of_int (el_now fs);
          reservedBlocks = el_totalBlocks fs * of_int (eo_ReservedPct (el_opts fs)) div 100;
          freeBlocks = sb_freeBlocks fs
      in [(0, le32 (el_totalInodes fs)), (4, le32 (ucast (el_totalBlocks fs))), (8, le32 (ucast reservedBlocks)),
          (12, le32 (ucast freeBlocks)), (16, le32 (sb_freeInodes fs)), (20, le32 0), (24, le32 2), (28, le32 2),
          (32, le32 (ucast blocksPerGroup)), (36, le32 (ucast blocksPerGroup)), (40, le32 (el_inodesPerGrp fs)),
          (44, le32 now32), (48, le32 now32), (52, le16 0), (54, le16 0xFFFF), (56, le16 0xEF53), (58, le16 1),
          (60, le16 1), (62, le16 0), (64, le32 now32), (68, le32 0), (72, le32 0), (76, le32 1), (80, le16 0),
          (82, le16 0), (84, le32 11), (88, le16 (of_nat inodeSize)), (90, le16 (ucast g)),
          (92, le32 (0x0004 OR 0x0008 OR 0x0010 OR 0x0020)), (96, le32 (0x0002 OR 0x0040 OR 0x0080 OR 0x0200)),
          (100, le32 (0x0001 OR 0x0002 OR 0x0008 OR 0x0020 OR 0x0040 OR 0x0400)),
          (104, take 16 (eo_UUID (el_opts fs))), (120, padLabel 16 (eo_Label (el_opts fs))),
          (222, le16 (ucast (eo_reservedGDT (el_opts fs)))), (224, le32 8), (232, le32 0), (252, [1]), (253, [1]),
          (254, le16 (of_nat gdtEntrySize)), (256, le32 0x0C), (260, le32 0), (264, le32 now32)] @
         map (\<lambda>(off, d). (268 + off, d)) (writeJournalInodeBackup fs) @
         [(336, le32 (ucast (drop_bit 32 (el_totalBlocks fs)))), (340, le32 (ucast (drop_bit 32 reservedBlocks))),
          (344, le32 (ucast (drop_bit 32 freeBlocks))), (348, le16 28), (350, le16 28), (372, [4]), (373, [1]),
          (624, le32 (el_csumSeed fs)), (396, le32 (el_numGroups fs))])"

definition buildSuperblock :: "ext4_fsLayout \<Rightarrow> u32 \<Rightarrow> bytes" where
  "buildSuperblock fs g =
     (let sb = puts (sb_fields fs g) (zeros 1024)
      in copy_into sb 1020 (le32 (crc32cUpdate (el_csumSeed fs) (take 1020 sb))))"

subsection \<open>Group descriptors (\<open>gdt.go\<close>)\<close>

definition bitmapCsum :: "ext4_fsLayout \<Rightarrow> u32 \<Rightarrow> bool \<Rightarrow> u32" where
  "bitmapCsum fs g blockBitmap =
     (let bitmap = (if blockBitmap then buildBlockBitmap fs g else buildInodeBitmap fs g)
      in crc32cUpdate (crc32cUpdate (el_csumSeed fs) (le32 g)) bitmap)"

definition gde_fields :: "ext4_fsLayout \<Rightarrow> u32 \<Rightarrow> (nat \<times> bytes) list" where
  "gde_fields fs g =
     (let gl = el_group fs g; bb = bitmapCsum fs g True; ib = bitmapCsum fs g False
      in [(0, le32 (ucast (gl_blockBitmap gl))), (4, le32 (ucast (gl_inodeBitmap gl))), (8, le32 (ucast (gl_inodeTable gl))),
          (12, le16 (ucast (gl_freeBlocks gl))), (14, le16 (ucast (gl_freeInodes gl))), (16, le16 (gl_usedDirs gl)),
          (18, le16 4), (28, le16 (ucast (gl_freeInodes gl))),
          (32, le32 (ucast (drop_bit 32 (gl_blockBitmap gl)))), (36, le32 (ucast (drop_bit 32 (gl_inodeBitmap gl)))),
          (40, le32 (ucast (drop_bit 32 (gl_inodeTable gl)))), (44, le16 (ucast (drop_bit 16 (gl_freeBlocks gl)))),
          (46, le16 (ucast (drop_bit 16 (gl_freeInodes gl)))), (48, le16 (drop_bit 8 (gl_usedDirs gl))),
          (50, le16 (ucast (drop_bit 16 (gl_freeInodes gl)))),
          (24, le16 (ucast bb)), (56, le16 (ucast (drop_bit 16 bb))), (26, le16 (ucast ib)), (58, le16 (ucast (drop_bit 16 ib))),
          (30, le16 0)])"

definition encodeGDE :: "ext4_fsLayout \<Rightarrow> u32 \<Rightarrow> bytes" where
  "encodeGDE fs g =
     (let dst = puts (gde_fields fs g) (zeros gdtEntrySize);
          h = crc32cUpdate (crc32cUpdate (el_csumSeed fs) (le32 g)) dst
      in copy_into dst 30 (le16 (ucast h)))"

definition buildGDT :: "ext4_fsLayout \<Rightarrow> bytes" where
  "buildGDT fs = copy_into (zeros (unat (el_gdtBlocks fs) * blockSize)) 0
     (concat (map (\<lambda>g. encodeGDE fs (of_nat g)) [0..<unat (el_numGroups fs)]))"

subsection \<open>Directories (\<open>dirs.go\<close>)\<close>

text \<open>The fields and the name of an entry; \<open>&^ 3\<close> clears the two low bits of the record length.\<close>

definition writeDirentFull :: "u32 \<Rightarrow> gostr \<Rightarrow> u8 \<Rightarrow> nat \<Rightarrow> bytes \<Rightarrow> bytes" where
  "writeDirentFull ino name ftype recLen dst =
     puts [(0, le32 ino), (4, le16 (of_nat recLen)), (6, [of_nat (length name)]), (7, [ftype]), (8, name)] dst"

definition dirent_len :: "gostr \<Rightarrow> nat" where
  "dirent_len name = (8 + length name + 3) div 4 * 4"

definition writeDirent :: "u32 \<Rightarrow> gostr \<Rightarrow> u8 \<Rightarrow> bytes \<Rightarrow> bytes" where
  "writeDirent ino name ftype dst = writeDirentFull ino name ftype (dirent_len name) dst"

definition buildRootDir :: bytes where
  "buildRootDir =
     (let off1 = dirent_len (bs ''.''); off2 = off1 + dirent_len (bs ''..'');
          b1 = at_pos 0 (writeDirent 2 (bs ''.'') 2) (zeros blockSize);
          b2 = at_pos off1 (writeDirent 2 (bs ''..'') 2) b1
      in at_pos off2 (writeDirentFull inoLostFound (bs ''lost+found'') 2 (blockSize - off2)) b2)"

definition buildLostFound :: bytes where
  "buildLostFound =
     (let off1 = dirent_len (bs ''.'');
          b1 = at_pos 0 (writeDirent inoLostFound (bs ''.'') 2) (zeros blockSize)
      in at_pos off1 (writeDirentFull 2 (bs ''..'') 2 (blockSize - off1)) b1)"

subsection \<open>The sequential writer (\<open>write.go\<close>)\<close>

text \<open>The state is the window with the cursor \<open>cur\<close>, the number of bytes emitted so far.\<close>

type_synonym writer = "(gofile \<times> sectionRWS) \<times> u64"

definition emit :: "bytes \<Rightarrow> (writer, unit) sop" where
  "emit b = (\<lambda>(t, cur). case rws_Write b t of
     (Inl e, t') \<Rightarrow> (Inl e, (t', cur)) | (Inr _, t') \<Rightarrow> (Inr (), (t', cur + of_nat (length b))))"

definition pad :: "u64 \<Rightarrow> (writer, unit) sop" where
  "pad target = (\<lambda>(t, cur).
     if cur > target then (Inl (Err ''ext4: write cursor already past target''), (t, cur))
     else if cur = target then (Inr (), (t, cur))
     else emit (zeros (unat (target - cur))) (t, cur))"

definition block :: "u64 \<Rightarrow> (writer, unit) sop" where
  "block n = pad (n * of_nat blockSize)"

fun seqS :: "('s, unit) sop list \<Rightarrow> ('s, unit) sop" where
  "seqS [] = retS ()"
| "seqS (m # ms) = bindS m (\<lambda>_. seqS ms)"

text \<open>\<open>writeJournal\<close> (\<open>journal.go\<close>) writes whole blocks and advances the cursor itself.\<close>

definition buildJournalSuperblock :: "ext4_fsLayout \<Rightarrow> bytes" where
  "buildJournalSuperblock fs =
     (let buf = puts [(0, be32 0xC03B3998), (4, be32 4), (8, be32 0), (12, be32 (of_nat blockSize)),
            (16, be32 (el_journalSize fs)), (20, be32 1), (24, be32 1), (28, be32 1), (32, be32 0),
            (36, be32 1), (40, be32 8), (44, be32 0), (48, take 16 (eo_UUID (el_opts fs))),
            (64, be32 1), (68, be32 5), (72, be32 32), (76, be32 32), (80, [4]),
            (48, take 16 (eo_UUID (el_opts fs)))] (zeros blockSize);
          csumBuf = copy_into (take 1024 buf) 1020 (be32 0)
      in copy_into buf 1020 (be32 (ChecksumIEEE csumBuf)))"

definition write_block :: "bytes \<Rightarrow> (writer, unit) sop" where
  "write_block b = (\<lambda>(t, cur). case rws_Write b t of
     (Inl e, t') \<Rightarrow> (Inl e, (t', cur)) | (Inr _, t') \<Rightarrow> (Inr (), (t', cur + of_nat blockSize)))"

definition writeJournal :: "ext4_fsLayout \<Rightarrow> (writer, unit) sop" where
  "writeJournal fs = seqS (write_block (buildJournalSuperblock fs) # map (\<lambda>_. write_block (zeros blockSize)) [1..<unat (el_journalSize fs)])"

text \<open>Group 0, the remaining groups, and the padding to the full size.\<close>

definition write_group0 :: "ext4_fsLayout \<Rightarrow> (writer, unit) sop" where
  "write_group0 fs =
     (let g0 = el_group fs 0; gdt = buildGDT fs in
      seqS [pad 1024, emit (buildSuperblock fs 0), block 1,
            emit gdt, block (1 + el_gdtBlocks fs), block (1 + el_gdtBlocks fs + ucast (eo_reservedGDT (el_opts fs))),
            block (gl_blockBitmap g0), emit (buildBlockBitmap fs 0),
            block (gl_inodeBitmap g0), emit (buildInodeBitmap fs 0),
            block (gl_inodeTable g0), emit (buildInodeTable fs 0),
            block (el_journalBlock fs), writeJournal fs,
            block (el_rootDirBlock fs), emit buildRootDir,
            block (el_lfDirBlock fs), emit buildLostFound])"

definition write_group :: "ext4_fsLayout \<Rightarrow> u32 \<Rightarrow> (writer, unit) sop" where
  "write_group fs g =
     (let gl = el_group fs g in
      seqS ((if gl_hasSB gl
             then [block (gl_firstBlock gl), emit (buildSuperblock fs g), block (gl_firstBlock gl + 1),
                   emit (buildGDT fs), block (gl_firstBlock gl + 1 + el_gdtBlocks fs),
                   block (gl_firstBlock gl + 1 + el_gdtBlocks fs + ucast (eo_reservedGDT (el_opts fs)))] else []) @
            [block (gl_blockBitmap gl), emit (buildBlockBitmap fs g),
             block (gl_inodeBitmap gl), emit (buildInodeBitmap fs g),
             block (gl_inodeTable gl), emit (zeros (unat (gl_inodeTableBlocks gl) * blockSize))]))"

definition ext4_write :: "ext4_fsLayout \<Rightarrow> (gofile \<times> sectionRWS, unit) sop" where
  "ext4_write fs = (\<lambda>t.
     case bindS (write_group0 fs) (\<lambda>_.
          bindS (seqS (map (\<lambda>g. write_group fs (of_nat g)) [1..<unat (el_numGroups fs)])) (\<lambda>_.
          pad (el_totalBlocks fs * of_nat blockSize))) (t, 0)
     of (r, (t', cur)) \<Rightarrow> (r, t'))"

subsection \<open>Format (\<open>ext4.go\<close>)\<close>

definition ext4_defaults :: "ext4_options \<Rightarrow> ext4_options" where
  "ext4_defaults opts =
     (let o1 = (if eo_InodeRatio opts = 0 then opts\<lparr>eo_InodeRatio := 16384\<rparr> else opts)
      in if eo_ReservedPct o1 = 0 then o1\<lparr>eo_ReservedPct := 5\<rparr> else o1)"

text \<open>\<open>computeLayout\<close> returns no error of its own; a panic in it is not wrapped.\<close>

definition ext4_Format :: "int \<Rightarrow> bytes res \<Rightarrow> int \<Rightarrow> ext4_options \<Rightarrow> (gofile \<times> sectionRWS, unit) sop" where
  "ext4_Format now newUUID sizeBytes opts0 =
     (if sizeBytes < 16 * 1024 * 1024 then failS (Err ''ext4: partition too small'')
      else let opts1 = ext4_defaults opts0 in
        bindS (readS (\<lambda>_. if eo_UUID opts1 = zeros 16 then wrapR ''ext4: uuid'' newUUID else Inr (eo_UUID opts1))) (\<lambda>u.
        bindS (readS (\<lambda>_. ext4_computeLayout now sizeBytes (opts1\<lparr>eo_UUID := u\<rparr>))) (\<lambda>fs.
        bindS (w_Seek 0) (\<lambda>_.
        ext4_write fs))))"

end
