(* ===== verification/MkfsExt4Correct.thy ===== *)
theory MkfsExt4Correct
  imports MkfsExt4
begin

text \<open>
  The layout of the ext4 formatter over natural numbers: which groups carry a backup of the
  superblock, where the structures of every group lie, and that the free counts are the clear
  bits of the bitmaps.
\<close>

unbundle bit_operations_syntax

subsection \<open>Backup groups\<close>

lemma unat_power:
  fixes b :: u32
  assumes "unat b ^ j < 2 ^ 32"
  shows "unat (b ^ j) = unat b ^ j"
  using assms
proof (induction j)
  case (Suc j)
  show ?case
  proof (cases "unat b = 0")
    case True
    then show ?thesis by (simp add: unat_eq_zero)
  next
    case False
    then have "unat b ^ j \<le> unat b ^ Suc j" by (intro power_increasing) auto
    then have "unat b ^ j < 2 ^ 32" using Suc.prems by linarith
    then show ?thesis using Suc by (simp add: unat_word_ariths)
  qed
qed simp

text \<open>The loop stops at the first power that is not below \<open>g\<close>.\<close>

lemma sb_loop_power:
  assumes "1 < unat b" "unat b ^ m < 2 ^ 32" "unat g \<le> unat b ^ m" "j \<le> m" "m < j + k"
  shows "\<exists>i. j \<le> i \<and> i \<le> m \<and> sb_loop k b g (b ^ j) = Some (b ^ i) \<and> unat g \<le> unat b ^ i \<and> (\<forall>i'. j \<le> i' \<and> i' < i \<longrightarrow> unat b ^ i' < unat g)"
  using assms(4,5)
proof (induction k arbitrary: j)
  case 0
  then show ?case by simp
next
  case (Suc k)
  have "unat b ^ j \<le> unat b ^ m" using assms(1) Suc.prems(1) by (intro power_increasing) auto
  then have u: "unat (b ^ j) = unat b ^ j" using assms(2) by (intro unat_power) linarith
  show ?case
  proof (cases "b ^ j < g")
    case False
    then show ?thesis using Suc.prems u by (auto simp: sb_loop.simps [of "Suc k"] word_less_nat_alt)
  next
    case True
    then have lt: "unat b ^ j < unat g" using u by (simp add: word_less_nat_alt)
    then have "j \<noteq> m" using assms(3) by auto
    then obtain i where i: "Suc j \<le> i" "i \<le> m" "sb_loop k b g (b ^ Suc j) = Some (b ^ i)" "unat g \<le> unat b ^ i"
      "\<forall>i'. Suc j \<le> i' \<and> i' < i \<longrightarrow> unat b ^ i' < unat g"
      using Suc.IH [of "Suc j"] Suc.prems by auto
    have "sb_loop (Suc k) b g (b ^ j) = Some (b ^ i)" using True i(3) by (simp add: sb_loop.simps [of "Suc k"] mult.commute)
    moreover have "unat b ^ i' < unat g" if "j \<le> i'" "i' < i" for i' using that i(5) lt by (cases "i' = j") auto
    ultimately show ?thesis using i by (intro exI [of _ i]) auto
  qed
qed

lemma sb_loop_hits:
  assumes "1 < unat b" "unat b ^ m < 2 ^ 32" "unat g \<le> unat b ^ m" "1 \<le> m" "m \<le> 32"
  shows "\<exists>x. sb_loop (2 ^ 32) b g b = Some x \<and> (x = g \<longleftrightarrow> (\<exists>i. 1 \<le> i \<and> unat g = unat b ^ i))"
proof -
  obtain i where i: "1 \<le> i" "i \<le> m" "sb_loop (2 ^ 32) b g (b ^ 1) = Some (b ^ i)" "unat g \<le> unat b ^ i"
    "\<forall>i'. 1 \<le> i' \<and> i' < i \<longrightarrow> unat b ^ i' < unat g"
    using sb_loop_power [OF assms(1-4), of "2 ^ 32"] assms(5) by auto
  have "unat b ^ i \<le> unat b ^ m" using assms(1) i(2) by (intro power_increasing) auto
  then have u: "unat (b ^ i) = unat b ^ i" using assms(2) by (intro unat_power) linarith
  have "b ^ i = g \<longleftrightarrow> unat b ^ i = unat g" using u by (metis word_unat_eq_iff)
  also have "\<dots> \<longleftrightarrow> (\<exists>i'. 1 \<le> i' \<and> unat g = unat b ^ i')"
  proof
    assume "\<exists>i'. 1 \<le> i' \<and> unat g = unat b ^ i'"
    then obtain i' where i': "1 \<le> i'" "unat g = unat b ^ i'" by blast
    then have "\<not> i' < i" using i(5) by auto
    moreover have "i' \<le> i" using i(4) i'(2) assms(1) by (metis power_increasing_iff)
    ultimately show "unat b ^ i = unat g" using i'(2) by simp
  qed (use i(1) in metis)
  finally show ?thesis using i(3) by auto
qed

lemma hasSuperBackup_eq:
  assumes "unat g \<le> 1220703125"
  shows "hasSuperBackup g = Some (unat g \<le> 1 \<or> (\<exists>i. 1 \<le> i \<and> (unat g = 3 ^ i \<or> unat g = 5 ^ i \<or> unat g = 7 ^ i)))"
proof (cases "g \<le> 1")
  case True
  then show ?thesis by (simp add: hasSuperBackup_def word_le_nat_alt)
next
  case False
  obtain x3 where x3: "sb_loop (2 ^ 32) 3 g 3 = Some x3" "x3 = g \<longleftrightarrow> (\<exists>i. 1 \<le> i \<and> unat g = 3 ^ i)"
    using sb_loop_hits [of 3 20 g] assms by auto
  obtain x5 where x5: "sb_loop (2 ^ 32) 5 g 5 = Some x5" "x5 = g \<longleftrightarrow> (\<exists>i. 1 \<le> i \<and> unat g = 5 ^ i)"
    using sb_loop_hits [of 5 13 g] assms by auto
  obtain x7 where x7: "sb_loop (2 ^ 32) 7 g 7 = Some x7" "x7 = g \<longleftrightarrow> (\<exists>i. 1 \<le> i \<and> unat g = 7 ^ i)"
    using sb_loop_hits [of 7 11 g] assms by auto
  have "unat g \<le> 1 \<longleftrightarrow> False" using False by (simp add: word_le_nat_alt)
  then show ?thesis using x3 x5 x7 False by (auto simp: hasSuperBackup_def)
qed

subsection \<open>The groups\<close>

lemma group_layout_nat:
  assumes "g * 32768 < T" "T < 2 ^ 35" "gd \<le> 2 ^ 15" "r \<le> 1024" "ib \<le> 2048"
    and "first = g * 32768" "lim = min (first + 32768) T" "bb = first + (if sb then 1 + gd + r else 0)"
  shows "group_layout (of_nat T) (of_nat gd) (of_nat r) (of_nat ib) ipg sb (of_nat g) =
    \<lparr>gl_groupNum = of_nat g, gl_firstBlock = of_nat first, gl_lastBlock = of_nat (lim - 1), gl_hasSB = sb,
     gl_blockBitmap = of_nat bb, gl_inodeBitmap = of_nat (bb + 1), gl_inodeTable = of_nat (bb + 2),
     gl_inodeTableBlocks = of_nat ib, gl_dataStart = of_nat (bb + 2 + ib),
     gl_freeBlocks = of_nat (lim - (bb + 2 + ib)), gl_freeInodes = ipg, gl_usedDirs = 0\<rparr>"
proof -
  have g: "g < 2 ^ 20" using assms(1,2) by simp
  have b: "first < lim" "lim \<le> T" "first < 2 ^ 35" "first \<le> bb" "bb \<le> first + 33793" using assms by auto
  have F: "(ucast (of_nat g :: u32) * blocksPerGroup :: u64) = of_nat first"
    using g by (simp add: ucast_of_nat_up blocksPerGroup_def assms(6))
  have l0: "of_nat first + blocksPerGroup - 1 = (of_nat (first + 32767) :: u64)" by (simp add: blocksPerGroup_def)
  have lst: "(if of_nat (first + 32767) \<ge> (of_nat T :: u64) then of_nat T - 1 else of_nat (first + 32767)) = (of_nat (lim - 1) :: u64)"
  proof (cases "T \<le> first + 32767")
    case True
    then have "lim = T" using assms(7) by simp
    moreover have "(of_nat T :: u64) - 1 = of_nat (T - 1)" using assms(1) by (simp add: of_nat_diff)
    ultimately show ?thesis using True of_nat_le64 [of T "first + 32767"] assms(2) b by simp
  next
    case False
    then have "lim - 1 = first + 32767" using assms(7) by simp
    then show ?thesis using False of_nat_le64 [of T "first + 32767"] assms(2) b by simp
  qed
  have gb: "of_nat (lim - 1) - of_nat first + 1 = (of_nat (lim - first) :: u64)" using b by (simp add: of_nat_diff)
  have bb: "(if sb then of_nat first + 1 + of_nat gd + ucast (of_nat r :: u32) else of_nat first) = (of_nat bb :: u64)"
    using assms(4) by (simp add: assms(8) ucast_of_nat_up)
  have us: "of_nat (bb + 2 + ib) - of_nat first = (of_nat (bb + 2 + ib - first) :: u64)" using b by (simp add: of_nat_diff)
  have c: "of_nat bb + 1 = (of_nat (bb + 1) :: u64)" "of_nat (bb + 1) + 1 = (of_nat (bb + 2) :: u64)"
    "of_nat (bb + 2) + of_nat ib = (of_nat (bb + 2 + ib) :: u64)" by simp_all
  have fr: "(if of_nat (bb + 2 + ib - first) < (of_nat (lim - first) :: u64)
      then ucast (of_nat (lim - first) - of_nat (bb + 2 + ib - first) :: u64) else 0) = (of_nat (lim - (bb + 2 + ib)) :: u32)"
  proof (cases "bb + 2 + ib - first < lim - first")
    case True
    have "(of_nat (lim - first) - of_nat (bb + 2 + ib - first) :: u64) = of_nat (lim - first - (bb + 2 + ib - first))"
      using True by (simp only: of_nat_diff less_imp_le)
    also have "lim - first - (bb + 2 + ib - first) = lim - (bb + 2 + ib)" using b by simp
    finally have d: "(of_nat (lim - first) - of_nat (bb + 2 + ib - first) :: u64) = of_nat (lim - (bb + 2 + ib))" .
    have "bb + 2 + ib - first < 2 ^ 64" "lim - first < 2 ^ 64" using b assms(2,5) by simp_all
    then have "(of_nat (bb + 2 + ib - first) :: u64) < of_nat (lim - first)" using True by (simp only: of_nat_less64)
    then show ?thesis unfolding d by (simp only: ucast_of_nat_down if_True)
  next
    case False
    then show ?thesis using of_nat_less64 [of "bb + 2 + ib - first" "lim - first"] b assms(2,5) by simp
  qed
  show ?thesis unfolding group_layout_def Let_def F l0 lst gb bb c us fr ucast_of_nat_down ..
qed

text \<open>
  The layout over natural numbers: \<open>T\<close> blocks, a descriptor table of \<open>gd\<close> blocks with \<open>r\<close>
  more in reserve, \<open>ipg\<close> inodes in each group, a journal of \<open>j\<close> blocks.
\<close>

definition num_groups :: "nat \<Rightarrow> nat" where
  "num_groups T = (T + 32767) div 32768"

definition has_backup :: "nat \<Rightarrow> bool" where
  "has_backup g \<longleftrightarrow> hasSuperBackup (of_nat g) = Some True"

definition bitmap_block :: "nat \<Rightarrow> nat \<Rightarrow> nat \<Rightarrow> nat" where
  "bitmap_block gd r g = g * 32768 + (if has_backup g then 1 + gd + r else 0)"

definition group_end :: "nat \<Rightarrow> nat \<Rightarrow> nat" where
  "group_end T g = min (g * 32768 + 32768) T"

definition data_start :: "nat \<Rightarrow> nat \<Rightarrow> nat \<Rightarrow> nat \<Rightarrow> nat \<Rightarrow> nat" where
  "data_start gd r ipg j g = bitmap_block gd r g + 2 + ipg div 16 + (if g = 0 then j + 2 else 0)"

definition group_spec :: "nat \<Rightarrow> nat \<Rightarrow> nat \<Rightarrow> nat \<Rightarrow> nat \<Rightarrow> nat \<Rightarrow> groupLayout" where
  "group_spec T gd r ipg j g =
     \<lparr>gl_groupNum = of_nat g, gl_firstBlock = of_nat (g * 32768), gl_lastBlock = of_nat (group_end T g - 1), gl_hasSB = has_backup g,
      gl_blockBitmap = of_nat (bitmap_block gd r g), gl_inodeBitmap = of_nat (bitmap_block gd r g + 1),
      gl_inodeTable = of_nat (bitmap_block gd r g + 2), gl_inodeTableBlocks = of_nat (ipg div 16),
      gl_dataStart = of_nat (data_start gd r ipg j g), gl_freeBlocks = of_nat (group_end T g - data_start gd r ipg j g),
      gl_freeInodes = of_nat (ipg - (if g = 0 then 11 else 0)), gl_usedDirs = (if g = 0 then 2 else 0)\<rparr>"

definition ext4_ok :: "ext4_fsLayout \<Rightarrow> nat \<Rightarrow> nat \<Rightarrow> nat \<Rightarrow> nat \<Rightarrow> nat \<Rightarrow> bool" where
  "ext4_ok fs T gd r ipg j \<longleftrightarrow>
     4096 \<le> T \<and> T < 2 ^ 35 \<and> gd = (num_groups T * 64 + 4095) div 4096 \<and> r \<le> 1024 \<and> 16 \<le> ipg \<and> ipg \<le> 32768 \<and> 16 dvd ipg \<and>
     1 \<le> j \<and> data_start gd r ipg j 0 \<le> group_end T 0 \<and>
     el_totalBlocks fs = of_nat T \<and> el_numGroups fs = of_nat (num_groups T) \<and> el_inodesPerGrp fs = of_nat ipg \<and>
     el_gdtBlocks fs = of_nat gd \<and> eo_reservedGDT (el_opts fs) = of_nat r \<and>
     el_groups fs = map (group_spec T gd r ipg j) [0..<num_groups T] \<and>
     el_journalSize fs = of_nat j \<and> el_journalBlock fs = of_nat (data_start gd r ipg j 0 - j - 2) \<and>
     el_rootDirBlock fs = of_nat (data_start gd r ipg j 0 - 2) \<and> el_lfDirBlock fs = of_nat (data_start gd r ipg j 0 - 1)"

lemma ext4_inodesPerGrp_range:
  assumes "i = unat (ext4_inodesPerGrp sz ratio n)"
  shows "16 \<le> i" "i \<le> 32768" "16 dvd i"
proof -
  define x where "x = (of_int (quot (quot sz ratio + uint n - 1) (uint n)) + 16 - 1 :: u32)"
  have "unat x div 16 * 16 < 2 ^ 32" using unsigned_less [where 'a = nat, of x] div_times_less_eq_dividend [of "unat x" 16] by simp
  then have u: "unat (x div 16 * 16) = unat x div 16 * 16"
    by (simp add: unat_word_ariths unat_div)
  show "16 \<le> i" "i \<le> 32768" "16 dvd i"
    unfolding assms ext4_inodesPerGrp_def Let_def x_def [symmetric]
    by (simp_all add: u blocksPerGroup_def word_less_nat_alt word_le_nat_alt)
qed

lemma ext4_reservedGDT_le: "unat (ext4_reservedGDT n gd) \<le> 1024"
  by (simp add: ext4_reservedGDT_def Let_def word_less_nat_alt)

lemma group_loop_ok:
  assumes "\<forall>g \<in> set gs. g \<le> 1220703125"
  shows "group_loop mk gs = Inr (map (\<lambda>g. mk (has_backup g) (of_nat g)) gs)"
  using assms
proof (induction gs)
  case (Cons g gs)
  then have "unat (of_nat g :: u32) \<le> 1220703125" by (simp add: unat_of_nat)
  from hasSuperBackup_eq [OF this] obtain b where "hasSuperBackup (of_nat g) = Some b" by blast
  moreover from this have "has_backup g = b" by (simp add: has_backup_def)
  ultimately show ?case using Cons by simp
qed simp

lemma ext4_journalSize_range:
  assumes "j = unat (ext4_journalSize T f)" "3 \<le> unat f"
  shows "1 \<le> j" "j + 2 \<le> unat f"
proof -
  have m: "unat (f - 2) = unat f - 2" using assms(2) by (subst unat_sub) (simp_all add: word_le_nat_alt)
  have "2 < f" using assms(2) by (simp add: word_less_nat_alt)
  then show "1 \<le> j" "j + 2 \<le> unat f"
    using assms m by (auto simp: ext4_journalSize_def Let_def word_less_nat_alt split: if_splits)
qed

lemma num_groups_bounds:
  assumes "4096 \<le> T" "T < 2 ^ 35"
  shows "1 \<le> num_groups T" "num_groups T \<le> 2 ^ 20" "g < num_groups T \<longleftrightarrow> g * 32768 < T" "32768 < T \<longleftrightarrow> 1 < num_groups T"
proof -
  have "Suc g \<le> num_groups T \<longleftrightarrow> Suc g * 32768 \<le> T + 32767" for g by (simp add: num_groups_def less_eq_div_iff_mult_less_eq)
  note k = this
  show "g < num_groups T \<longleftrightarrow> g * 32768 < T" "32768 < T \<longleftrightarrow> 1 < num_groups T" using k [of g] k [of 1] by auto
  show "1 \<le> num_groups T" "num_groups T \<le> 2 ^ 20" using assms by (simp_all add: num_groups_def)
qed

text \<open>Group 0 always has room for the journal and the two directories.\<close>

lemma group0_room:
  assumes "4096 \<le> T" "T < 2 ^ 35" "gd = (num_groups T * 64 + 4095) div 4096" "r \<le> 1024" "ipg \<le> 32768"
  shows "bitmap_block gd r 0 + 2 + ipg div 16 + 3 \<le> group_end T 0" "gd \<le> 2 ^ 15" "num_groups T * 64 \<le> gd * 4096" "1 \<le> gd"
proof -
  note n = num_groups_bounds [OF assms(1,2)]
  have "ipg div 16 \<le> 2048" using assms(5) by simp
  moreover have "num_groups T = 1 \<Longrightarrow> gd = 1" using assms(3) by simp
  moreover have "gd \<le> 2 ^ 14 + 1" using n(2) assms(3) by simp
  moreover have "num_groups T \<noteq> 1 \<Longrightarrow> 32768 \<le> T" using n(1,4) by linarith
  ultimately show "bitmap_block gd r 0 + 2 + ipg div 16 + 3 \<le> group_end T 0"
    using assms(1,4) by (cases "num_groups T = 1") (auto simp: bitmap_block_def group_end_def)
  show "gd \<le> 2 ^ 15" using \<open>gd \<le> 2 ^ 14 + 1\<close> by simp
  show "num_groups T * 64 \<le> gd * 4096" "1 \<le> gd" using assms(3) n(1) by linarith+
qed

lemma has_backup_0 [simp]: "has_backup 0"
  by (simp add: has_backup_def hasSuperBackup_def)

lemma ext4_computeLayout_ok:
  assumes "2 ^ 24 \<le> sz" "sz < 2 ^ 47" "eo_InodeRatio opts \<noteq> 0" "T = nat sz div 4096"
  obtains fs gd r ipg j where "ext4_computeLayout now sz opts = Inr fs" "ext4_ok fs T gd r ipg j"
    "el_opts fs = opts\<lparr>eo_reservedGDT := of_nat r\<rparr>" "el_csumSeed fs = crc32cUpdate 0xFFFFFFFF (eo_UUID opts)"
proof -
  have T: "4096 \<le> T" "T < 2 ^ 35" using assms(1,2,4) by (auto simp: div_less_iff_less_mult nat_less_iff le_nat_iff less_eq_div_iff_mult_less_eq)
  note n = num_groups_bounds [OF T]
  define N where "N = num_groups T"
  define gd where "gd = (N * 64 + 4095) div 4096"
  define r where "r = unat (ext4_reservedGDT (of_nat N) (of_nat gd))"
  define ipg where "ipg = unat (ext4_inodesPerGrp sz (eo_InodeRatio opts) (of_nat N))"
  note i = ext4_inodesPerGrp_range [OF ipg_def]
  have r: "r \<le> 1024" unfolding r_def by (rule ext4_reservedGDT_le)
  have gdN: "gd = (num_groups T * 64 + 4095) div 4096" by (simp add: gd_def N_def)
  note room = group0_room [OF T gdN r i(2)]
  define f0 where "f0 = group_end T 0 - (bitmap_block gd r 0 + 2 + ipg div 16)"
  have f0: "3 \<le> f0" "f0 < 2 ^ 32" "bitmap_block gd r 0 + 2 + ipg div 16 + f0 = group_end T 0" using room(1) by (auto simp: f0_def group_end_def)
  define j where "j = unat (ext4_journalSize (of_nat T) (of_nat f0))"
  have j: "1 \<le> j" "j + 2 \<le> f0" using ext4_journalSize_range [OF j_def] f0 by (simp_all add: unat_of_nat)
  have w1: "(of_int sz :: u64) div 4096 = of_nat T"
  proof -
    have "(of_int sz :: u64) = of_nat (nat sz)" using assms(1) by simp
    moreover have "nat sz < 2 ^ 64" using assms(1,2) by (simp add: nat_less_iff)
    ultimately show ?thesis using of_nat_div64 [of "nat sz" 4096] by (simp add: assms(4))
  qed
  have w2: "(ucast ((of_nat T + blocksPerGroup - 1) div blocksPerGroup :: u64) :: u32) = of_nat N"
  proof -
    have "of_nat T + blocksPerGroup - 1 = (of_nat (T + 32767) :: u64)" by (simp add: blocksPerGroup_def)
    moreover have "(of_nat (T + 32767) :: u64) div blocksPerGroup = of_nat N"
      using of_nat_div64 [of "T + 32767" 32768] T by (simp add: blocksPerGroup_def N_def num_groups_def)
    ultimately show ?thesis by (simp only: ucast_of_nat_down)
  qed
  have Nr: "1 \<le> N" "N \<le> 2 ^ 20" using n by (simp_all add: N_def)
  then have uN: "unat (of_nat N :: u32) = N" by (simp add: unat_of_nat)
  then have N0: "(of_nat N :: u32) \<noteq> 0" using Nr(1) by auto
  have w3: "(ucast (of_nat N :: u32) * 64 + 4096 - 1) div 4096 = (of_nat gd :: u64)"
  proof -
    have "(ucast (of_nat N :: u32) * 64 + 4096 - 1 :: u64) = of_nat (N * 64 + 4095)" using Nr by (simp add: ucast_of_nat_up)
    moreover have "(of_nat (N * 64 + 4095) :: u64) div 4096 = of_nat gd" using of_nat_div64 [of "N * 64 + 4095" 4096] Nr by (simp add: gd_def)
    ultimately show ?thesis by (simp only:)
  qed
  have w4: "ext4_reservedGDT (of_nat N) (of_nat gd) = of_nat r" "ext4_inodesPerGrp sz (eo_InodeRatio opts) (of_nat N) = of_nat ipg"
    "ext4_journalSize (of_nat T) (of_nat f0) = of_nat j" by (simp_all add: r_def ipg_def j_def)
  have w5: "(ucast (of_nat ipg :: u32) * 256 + 4096 - 1) div 4096 = (of_nat (ipg div 16) :: u64)"
  proof -
    have "(ucast (of_nat ipg :: u32) * 256 + 4096 - 1 :: u64) = of_nat (ipg * 256 + 4095)" using i by (simp add: ucast_of_nat_up)
    moreover have "(ipg * 256 + 4095) div 4096 = ipg div 16" using i(3) by auto
    then have "(of_nat (ipg * 256 + 4095) :: u64) div 4096 = of_nat (ipg div 16)" using of_nat_div64 [of "ipg * 256 + 4095" 4096] i by simp
    ultimately show ?thesis by (simp only:)
  qed
  define groups where "groups = map (\<lambda>g. group_layout (of_nat T) (of_nat gd) (of_nat r) (of_nat (ipg div 16)) (of_nat ipg) (has_backup g) (of_nat g)) [0..<N]"
  have loop: "group_loop (group_layout (of_nat T) (of_nat gd) (of_nat r) (of_nat (ipg div 16)) (of_nat ipg)) [0..<N] = Inr groups"
    unfolding groups_def using Nr by (intro group_loop_ok) auto
  have gl: "group_layout (of_nat T) (of_nat gd) (of_nat r) (of_nat (ipg div 16)) (of_nat ipg) (has_backup g) (of_nat g) =
      (group_spec T gd r ipg j g)\<lparr>gl_dataStart := of_nat (bitmap_block gd r g + 2 + ipg div 16),
        gl_freeBlocks := of_nat (group_end T g - (bitmap_block gd r g + 2 + ipg div 16)), gl_freeInodes := of_nat ipg, gl_usedDirs := 0\<rparr>"
    if "g < N" for g
  proof -
    have "g * 32768 < T" "ipg div 16 \<le> 2048" using that n(3) i by (simp_all add: N_def)
    from group_layout_nat [OF this(1) T(2) room(2) r this(2) refl refl refl] show ?thesis
      by (simp add: group_spec_def bitmap_block_def group_end_def)
  qed
  have gs: "groups = hd groups # tl groups" "hd groups = (group_spec T gd r ipg j 0)\<lparr>gl_dataStart := of_nat (bitmap_block gd r 0 + 2 + ipg div 16),
        gl_freeBlocks := of_nat f0, gl_freeInodes := of_nat ipg, gl_usedDirs := 0\<rparr>" "tl groups = map (group_spec T gd r ipg j) [1..<N]"
  proof -
    have u: "[0..<N] = 0 # [1..<N]" using Nr by (simp add: upt_conv_Cons)
    show "groups = hd groups # tl groups" by (simp add: groups_def u)
    show "hd groups = (group_spec T gd r ipg j 0)\<lparr>gl_dataStart := of_nat (bitmap_block gd r 0 + 2 + ipg div 16),
        gl_freeBlocks := of_nat f0, gl_freeInodes := of_nat ipg, gl_usedDirs := 0\<rparr>" unfolding groups_def u using gl [of 0] Nr by (simp add: f0_def)
    have "group_layout (of_nat T) (of_nat gd) (of_nat r) (of_nat (ipg div 16)) (of_nat ipg) (has_backup g) (of_nat g) = group_spec T gd r ipg j g"
      if "g \<in> set [1..<N]" for g using gl [of g] that by (simp add: group_spec_def data_start_def)
    then show "tl groups = map (group_spec T gd r ipg j) [1..<N]" unfolding groups_def u by simp
  qed
  define ds where "ds = data_start gd r ipg j 0"
  have ds: "bitmap_block gd r 0 + 2 + ipg div 16 = ds - j - 2" "j + 2 \<le> ds" "ds \<le> group_end T 0" "f0 - j - 2 = group_end T 0 - ds"
    using j f0 by (auto simp: ds_def data_start_def)
  have d: "of_nat (ds - j - 2) + of_nat j = (of_nat (ds - 2) :: u64)" "of_nat (ds - 2) + 1 = (of_nat (ds - 1) :: u64)" "of_nat (ds - 1) + 1 = (of_nat ds :: u64)"
    using ds(2) by (simp_all add: of_nat_diff)
  have jj: "(ucast (of_nat j :: u32) :: u64) = of_nat j" using j f0(2) by (simp add: ucast_of_nat_up)
  have fr: "of_nat f0 - of_nat j - 1 - 1 = (of_nat (f0 - j - 2) :: u32)" using j by (simp add: of_nat_diff)
  have fi: "of_nat ipg - inoLostFound = (of_nat (ipg - 11) :: u32)" using i(1) by (simp add: inoLostFound_def of_nat_diff)
  have sp0: "group_spec T gd r ipg j 0 = (hd groups)\<lparr>gl_dataStart := of_nat ds, gl_freeBlocks := of_nat (group_end T 0 - ds),
      gl_usedDirs := 2, gl_freeInodes := of_nat (ipg - 11)\<rparr>" unfolding gs(2) by (simp add: group_spec_def ds_def)
  have h: "gl_freeBlocks (hd groups) = of_nat f0" "gl_dataStart (hd groups) = of_nat (ds - j - 2)" "gl_usedDirs (hd groups) = 0"
    unfolding gs(2) ds(1) by simp_all
  define fs where "fs = \<lparr>el_opts = opts\<lparr>eo_reservedGDT := of_nat r\<rparr>, el_now = now, el_totalBlocks = of_nat T,
    el_totalInodes = of_nat ipg * of_nat N, el_numGroups = of_nat N, el_inodesPerGrp = of_nat ipg, el_gdtBlocks = of_nat gd,
    el_groups = group_spec T gd r ipg j 0 # tl groups, el_journalBlock = of_nat (ds - j - 2), el_journalSize = of_nat j,
    el_rootDirBlock = of_nat (ds - 2), el_lfDirBlock = of_nat (ds - 1), el_csumSeed = crc32cUpdate 0xFFFFFFFF (eo_UUID opts)\<rparr>"
  have "ext4_computeLayout now sz opts = Inr fs"
    unfolding ext4_computeLayout_def Let_def w1 w2 w3 w4 w5 uN loop h jj d fr ds(4) fi bindR_simps
    using N0 assms(3) by (simp add: fs_def sp0)
  moreover have "[0..<N] = 0 # [1..<N]" using Nr by (simp add: upt_conv_Cons)
  then have "ext4_ok fs T gd r ipg j"
    unfolding ext4_ok_def ds_def [symmetric] by (intro conjI T gdN r i j(1) ds(3)) (simp_all add: fs_def gs(3) N_def)
  ultimately show thesis by (rule that) (simp_all add: fs_def)
qed

lemma ext4_okD:
  assumes "ext4_ok fs T gd r ipg j"
  shows "4096 \<le> T" "T < 2 ^ 35" "gd = (num_groups T * 64 + 4095) div 4096" "r \<le> 1024" "16 \<le> ipg" "ipg \<le> 32768" "16 dvd ipg"
    "1 \<le> j" "data_start gd r ipg j 0 \<le> group_end T 0" "unat (el_numGroups fs) = num_groups T" "gd \<le> 2 ^ 15" "num_groups T \<le> 2 ^ 20"
    "num_groups T * 64 \<le> gd * 4096" "1 \<le> gd" "1 \<le> num_groups T"
    "g < num_groups T \<Longrightarrow> el_group fs (of_nat g) = group_spec T gd r ipg j g"
proof -
  show K: "4096 \<le> T" "T < 2 ^ 35" "gd = (num_groups T * 64 + 4095) div 4096" "r \<le> 1024" "16 \<le> ipg" "ipg \<le> 32768" "16 dvd ipg"
    "1 \<le> j" "data_start gd r ipg j 0 \<le> group_end T 0" using assms unfolding ext4_ok_def by blast+
  show n: "num_groups T \<le> 2 ^ 20" "1 \<le> num_groups T" using num_groups_bounds [OF K(1,2)] by simp_all
  show "gd \<le> 2 ^ 15" "num_groups T * 64 \<le> gd * 4096" "1 \<le> gd" using group0_room [OF K(1,2,3,4,6)] by simp_all
  show "unat (el_numGroups fs) = num_groups T" using assms n by (simp add: ext4_ok_def unat_of_nat)
  show "el_group fs (of_nat g) = group_spec T gd r ipg j g" if "g < num_groups T"
    using that n assms by (simp add: el_group_def ext4_ok_def unat_of_nat)
qed

lemma ext4_ok_fields:
  assumes "ext4_ok fs T gd r ipg j"
  shows "el_totalBlocks fs = of_nat T" "el_inodesPerGrp fs = of_nat ipg" "el_gdtBlocks fs = of_nat gd" "eo_reservedGDT (el_opts fs) = of_nat r"
    "el_journalSize fs = of_nat j" "el_journalBlock fs = of_nat (data_start gd r ipg j 0 - j - 2)"
    "el_rootDirBlock fs = of_nat (data_start gd r ipg j 0 - 2)" "el_lfDirBlock fs = of_nat (data_start gd r ipg j 0 - 1)"
    "unat (el_inodesPerGrp fs) = ipg" "unat (el_gdtBlocks fs) = gd" "unat (el_journalSize fs) = j" "(ucast (eo_reservedGDT (el_opts fs)) :: u64) = of_nat r"
    "j + 2 \<le> data_start gd r ipg j 0" "data_start gd r ipg j 0 \<le> 32768"
proof -
  note K = ext4_okD [OF assms]
  show w: "el_totalBlocks fs = of_nat T" "el_inodesPerGrp fs = of_nat ipg" "el_gdtBlocks fs = of_nat gd" "eo_reservedGDT (el_opts fs) = of_nat r"
    "el_journalSize fs = of_nat j" "el_journalBlock fs = of_nat (data_start gd r ipg j 0 - j - 2)"
    "el_rootDirBlock fs = of_nat (data_start gd r ipg j 0 - 2)" "el_lfDirBlock fs = of_nat (data_start gd r ipg j 0 - 1)"
    using assms unfolding ext4_ok_def by blast+
  show d: "j + 2 \<le> data_start gd r ipg j 0" by (simp add: data_start_def)
  show e: "data_start gd r ipg j 0 \<le> 32768" using K(9) by (simp add: group_end_def)
  show "unat (el_inodesPerGrp fs) = ipg" unfolding w by (rule unat_of_nat32, use K(6) in simp)
  show "unat (el_gdtBlocks fs) = gd" unfolding w by (rule unat_of_nat64, use K(11) in simp)
  show "unat (el_journalSize fs) = j" unfolding w by (rule unat_of_nat32, use d e in simp)
  show "(ucast (eo_reservedGDT (el_opts fs)) :: u64) = of_nat r" unfolding w by (rule ucast_of_nat_up, use K(4) in simp)
qed

lemma data_start_bound:
  assumes "ext4_ok fs T gd r ipg j" "g < num_groups T"
  shows "g * 32768 < T" "g * 32768 < 2 ^ 35" "data_start gd r ipg j g < 2 ^ 36" "g * 32768 \<le> bitmap_block gd r g"
    "bitmap_block gd r g + 2 + ipg div 16 \<le> data_start gd r ipg j g" "g * 32768 < group_end T g" "group_end T g \<le> T"
    "group_end T g \<le> g * 32768 + 32768"
proof -
  note K = ext4_okD [OF assms(1)]
  show g: "g * 32768 < T" using assms(2) num_groups_bounds(3) [OF K(1,2)] by blast
  show g2: "g * 32768 < 2 ^ 35" using g K(2) by linarith
  have i: "ipg div 16 \<le> 2048" using K(6) by simp
  show "data_start gd r ipg j g < 2 ^ 36"
  proof (cases "g = 0")
    case True
    then show ?thesis using K(2,9) by (auto simp: group_end_def)
  next
    case False
    then show ?thesis using g2 i K(4,11) by (simp add: data_start_def bitmap_block_def)
  qed
  show "g * 32768 \<le> bitmap_block gd r g" by (simp add: bitmap_block_def)
  show "bitmap_block gd r g + 2 + ipg div 16 \<le> data_start gd r ipg j g" by (simp add: data_start_def)
  show "g * 32768 < group_end T g" "group_end T g \<le> T" "group_end T g \<le> g * 32768 + 32768" using g by (simp_all add: group_end_def)
qed

subsection \<open>The bitmaps\<close>

lemma setBits_eq:
  assumes "unat off + unat k \<le> 2 ^ 16"
  shows "setBits bm off k = fold or_bit [unat off..<unat off + unat k] bm"
proof -
  have "unat (off + of_nat i) = unat off + i" if "i < unat k" for i
  proof -
    have "unat (of_nat i :: u64) = i" using that assms by (simp add: unat_of_nat)
    then show ?thesis using that assms by (subst unat_plus_simple [THEN iffD1]) (simp_all add: no_olen_add_nat)
  qed
  then have "map (\<lambda>i. unat (off + of_nat i)) [0..<unat k] = map (\<lambda>i. i + unat off) [0..<unat k]" by (simp add: add.commute)
  also have "\<dots> = [unat off..<unat off + unat k]" by (simp add: map_add_upt add.commute)
  finally show ?thesis by (simp add: setBits_def)
qed

lemma setBits_bits:
  assumes "unat off + unat k \<le> 32768" "length bm = 4096"
  shows "bit_at (setBits bm off k) b \<longleftrightarrow> unat off \<le> b \<and> b < unat off + unat k \<or> bit_at bm b" "length (setBits bm off k) = 4096"
proof -
  have e: "setBits bm off k = fold or_bit [unat off..<unat off + unat k] bm" using assms(1) by (intro setBits_eq) simp
  show "length (setBits bm off k) = 4096" unfolding e using assms(2) by simp
  show "bit_at (setBits bm off k) b \<longleftrightarrow> unat off \<le> b \<and> b < unat off + unat k \<or> bit_at bm b"
    unfolding e using assms by (subst bit_at_fold) auto
qed

lemma block_bitmap_bits:
  assumes "ext4_ok fs T gd r ipg j" "g < num_groups T" "b < 32768"
  shows "bit_at (buildBlockBitmap fs (of_nat g)) b \<longleftrightarrow> g * 32768 + b < data_start gd r ipg j g \<or> group_end T g \<le> g * 32768 + b"
    and "length (buildBlockBitmap fs (of_nat g)) = 4096"
proof -
  note K = ext4_okD [OF assms(1)] and D = data_start_bound [OF assms(1,2)]
  define us where "us = data_start gd r ipg j g - g * 32768"
  define gb where "gb = group_end T g - g * 32768"
  have gl: "el_group fs (of_nat g) = group_spec T gd r ipg j g" using K(16) assms(2) by simp
  have u0: "gl_dataStart (group_spec T gd r ipg j g) - gl_firstBlock (group_spec T gd r ipg j g) = of_nat us"
    using D by (simp add: group_spec_def us_def of_nat_diff)
  have g0: "gl_lastBlock (group_spec T gd r ipg j g) - gl_firstBlock (group_spec T gd r ipg j g) + 1 = of_nat gb"
  proof -
    have "(of_nat (group_end T g - 1) :: u64) - of_nat (g * 32768) + 1 = of_nat (group_end T g - 1 - g * 32768 + 1)"
      using D(6) by (subst of_nat_add, subst of_nat_diff) simp_all
    moreover have "group_end T g - 1 - g * 32768 + 1 = gb" using D(6) by (simp add: gb_def)
    ultimately show ?thesis by (simp only: group_spec_def groupLayout.simps)
  qed
  have us: "us < 2 ^ 36" using D(3) by (simp add: us_def)
  have gb: "gb \<le> 32768" "0 < gb" using D(6,8) by (simp_all add: gb_def)
  define c where "c = (if (of_nat us :: u64) > blocksPerGroup then blocksPerGroup else of_nat us)"
  have c: "unat c = min us 32768"
    using us by (auto simp: c_def blocksPerGroup_def word_less_nat_alt unat_of_nat)
  define bm where "bm = setBits (zeros blockSize) 0 c"
  have bm: "bit_at bm b \<longleftrightarrow> b < us" "length bm = 4096"
    using setBits_bits(1) [of 0 c "zeros blockSize" b] setBits_bits(2) [of 0 c "zeros blockSize"] assms(3) by (auto simp: c bm_def blockSize_def)
  have e: "buildBlockBitmap fs (of_nat g) = (if gb < 32768 then setBits bm (of_nat gb) (of_nat (32768 - gb)) else bm)"
  proof -
    have "blocksPerGroup - of_nat gb = (of_nat (32768 - gb) :: u64)" using gb by (simp add: blocksPerGroup_def of_nat_diff)
    moreover have "of_nat gb < blocksPerGroup \<longleftrightarrow> gb < 32768" using gb by (simp add: blocksPerGroup_def word_less_nat_alt unat_of_nat)
    ultimately show ?thesis unfolding buildBlockBitmap_def Let_def gl u0 g0 c_def [symmetric] bm_def [symmetric] by simp
  qed
  have w: "unat (of_nat gb :: u64) = gb" "unat (of_nat (32768 - gb) :: u64) = 32768 - gb" by (rule unat_of_nat64, use gb in simp)+
  show "length (buildBlockBitmap fs (of_nat g)) = 4096" unfolding e using setBits_bits(2) [of "of_nat gb" "of_nat (32768 - gb)" bm] bm(2) gb w by simp
  have "bit_at (buildBlockBitmap fs (of_nat g)) b \<longleftrightarrow> b < us \<or> gb \<le> b"
    unfolding e using setBits_bits(1) [of "of_nat gb" "of_nat (32768 - gb)" bm b] bm gb w assms(3) by auto
  then show "bit_at (buildBlockBitmap fs (of_nat g)) b \<longleftrightarrow> g * 32768 + b < data_start gd r ipg j g \<or> group_end T g \<le> g * 32768 + b"
    using D(4,5,6) by (auto simp: us_def gb_def)
qed

lemma inode_bitmap_bits:
  assumes "ext4_ok fs T gd r ipg j" "g < num_groups T" "b < 32768"
  shows "bit_at (buildInodeBitmap fs (of_nat g)) b \<longleftrightarrow> g = 0 \<and> b < 11 \<or> ipg \<le> b"
    and "length (buildInodeBitmap fs (of_nat g)) = 4096"
proof -
  note K = ext4_okD [OF assms(1)]
  have i: "el_inodesPerGrp fs = of_nat ipg" using assms(1) by (simp add: ext4_ok_def)
  have g: "of_nat g = (0 :: u32) \<longleftrightarrow> g = 0"
  proof -
    have "g < 2 ^ 32" using assms(2) K(12) by simp
    then have "unat (of_nat g :: u32) = g" by (rule unat_of_nat32)
    then show ?thesis by (auto simp: unat_eq_zero [symmetric])
  qed
  define bm where "bm = (if g = 0 then setBits (zeros blockSize) 0 (ucast inoLostFound) else zeros blockSize)"
  have bm: "bit_at bm b \<longleftrightarrow> g = 0 \<and> b < 11" "length bm = 4096"
    using setBits_bits(1) [of 0 "ucast inoLostFound" "zeros blockSize" b] setBits_bits(2) [of 0 "ucast inoLostFound" "zeros blockSize"] assms(3) by (auto simp: bm_def blockSize_def inoLostFound_def)
  have e: "buildInodeBitmap fs (of_nat g) = (if ipg < 32768 then setBits bm (of_nat ipg) (of_nat (32768 - ipg)) else bm)"
  proof -
    have "blocksPerGroup - ucast (of_nat ipg :: u32) = (of_nat (32768 - ipg) :: u64)" "ucast (of_nat ipg :: u32) = (of_nat ipg :: u64)"
      using K(6) by (simp_all add: blocksPerGroup_def of_nat_diff ucast_of_nat_up)
    moreover have "of_nat ipg < (ucast blocksPerGroup :: u32) \<longleftrightarrow> ipg < 32768" using K(6) by (simp add: blocksPerGroup_def word_less_nat_alt unat_of_nat)
    ultimately show ?thesis unfolding buildInodeBitmap_def Let_def i g bm_def [symmetric] by simp
  qed
  have w: "unat (of_nat ipg :: u64) = ipg" "unat (of_nat (32768 - ipg) :: u64) = 32768 - ipg" by (rule unat_of_nat64, use K(6) in simp)+
  show "length (buildInodeBitmap fs (of_nat g)) = 4096" unfolding e using setBits_bits(2) [of "of_nat ipg" "of_nat (32768 - ipg)" bm] bm(2) K(6) w by simp
  show "bit_at (buildInodeBitmap fs (of_nat g)) b \<longleftrightarrow> g = 0 \<and> b < 11 \<or> ipg \<le> b"
    unfolding e using setBits_bits(1) [of "of_nat ipg" "of_nat (32768 - ipg)" bm b] bm K(6) w assms(3) by auto
qed

text \<open>The number of clear bits of a bitmap block.\<close>

definition clear_bits :: "bytes \<Rightarrow> nat" where
  "clear_bits bm = card {b. b < 8 * length bm \<and> \<not> bit_at bm b}"

lemma clear_block_bits:
  assumes "ext4_ok fs T gd r ipg j" "g < num_groups T"
  shows "clear_bits (buildBlockBitmap fs (of_nat g)) = unat (gl_freeBlocks (el_group fs (of_nat g)))"
    and "clear_bits (buildBlockBitmap fs (of_nat g)) = group_end T g - data_start gd r ipg j g"
proof -
  note B = block_bitmap_bits [OF assms] and D = data_start_bound [OF assms]
  have "{b. b < 8 * length (buildBlockBitmap fs (of_nat g)) \<and> \<not> bit_at (buildBlockBitmap fs (of_nat g)) b} =
      {data_start gd r ipg j g - g * 32768..<group_end T g - g * 32768}"
    using B D(4,5,6,8) by (auto simp: B(2) [of 0, simplified] less_diff_conv)
  then show c: "clear_bits (buildBlockBitmap fs (of_nat g)) = group_end T g - data_start gd r ipg j g"
    using D(4,5,6) by (simp add: clear_bits_def)
  have "group_end T g - data_start gd r ipg j g < 2 ^ 32" using D(4,5,8) by simp
  from unat_of_nat32 [OF this] show "clear_bits (buildBlockBitmap fs (of_nat g)) = unat (gl_freeBlocks (el_group fs (of_nat g)))"
    using c ext4_okD(16) [OF assms] by (simp only: group_spec_def groupLayout.simps)
qed

lemma clear_inode_bits:
  assumes "ext4_ok fs T gd r ipg j" "g < num_groups T"
  shows "clear_bits (buildInodeBitmap fs (of_nat g)) = unat (gl_freeInodes (el_group fs (of_nat g)))"
proof -
  note B = inode_bitmap_bits [OF assms] and K = ext4_okD [OF assms(1)]
  have "{b. b < 8 * length (buildInodeBitmap fs (of_nat g)) \<and> \<not> bit_at (buildInodeBitmap fs (of_nat g)) b} =
      {(if g = 0 then 11 else 0)..<ipg}"
    using B K(6) by (auto simp: B(2) [of 0, simplified])
  then have c: "clear_bits (buildInodeBitmap fs (of_nat g)) = ipg - (if g = 0 then 11 else 0)" by (simp add: clear_bits_def)
  have "ipg - (if g = 0 then 11 else 0) < 2 ^ 32" using K(6) by simp
  from unat_of_nat32 [OF this] show ?thesis using c K(16) [OF assms(2)] by (simp only: group_spec_def groupLayout.simps)
qed

lemma foldl_free:
  assumes "sum_list (map (\<lambda>gl. unat (gl_freeBlocks gl)) gs) + unat a < 2 ^ 64"
  shows "unat (foldl (\<lambda>acc gl. acc + ucast (gl_freeBlocks gl)) a gs) = unat (a :: u64) + sum_list (map (\<lambda>gl. unat (gl_freeBlocks gl)) gs)"
  using assms
proof (induction gs arbitrary: a)
  case (Cons gl gs)
  have u: "unat (ucast (gl_freeBlocks gl) :: u64) = unat (gl_freeBlocks gl)"
    using unsigned_less [where 'a = nat, of "gl_freeBlocks gl"] by (simp add: unsigned_ucast_eq take_bit_nat_eq_self)
  have "unat (a + ucast (gl_freeBlocks gl)) = unat a + unat (gl_freeBlocks gl)"
    using Cons.prems u by (subst unat_plus_simple [THEN iffD1]) (simp_all add: no_olen_add_nat)
  then show ?case using Cons by simp
qed simp

lemma sb_freeBlocks_sum:
  assumes "ext4_ok fs T gd r ipg j"
  shows "unat (sb_freeBlocks fs) = (\<Sum>g<num_groups T. clear_bits (buildBlockBitmap fs (of_nat g)))"
proof -
  note K = ext4_okD [OF assms]
  have gs: "el_groups fs = map (\<lambda>g. el_group fs (of_nat g)) [0..<num_groups T]"
    using assms K(16) by (simp add: ext4_ok_def)
  have e: "sum_list (map (\<lambda>gl. unat (gl_freeBlocks gl)) (el_groups fs)) = (\<Sum>g<num_groups T. clear_bits (buildBlockBitmap fs (of_nat g)))"
    unfolding gs by (simp add: comp_def interv_sum_list_conv_sum_set_nat atLeast0LessThan clear_block_bits(1) [OF assms, symmetric])
  have "(\<Sum>g<num_groups T. clear_bits (buildBlockBitmap fs (of_nat g))) \<le> (\<Sum>g<num_groups T. 32768)"
    using clear_block_bits(2) [OF assms] data_start_bound(4,5,8) [OF assms] by (intro sum_mono) force
  also have "\<dots> \<le> 2 ^ 20 * 32768" using K(12) by simp
  finally have "sum_list (map (\<lambda>gl. unat (gl_freeBlocks gl)) (el_groups fs)) + unat (0 :: u64) < 2 ^ 64" unfolding e by simp
  from foldl_free [OF this] show ?thesis by (simp add: sb_freeBlocks_def e)
qed

end
