(* ===== verification/MkfsExt4Image.thy ===== *)
theory MkfsExt4Image
  imports MkfsExt4Correct
begin

text \<open>
  The sequential writer of the ext4 formatter.  A sequence of paddings and emissions succeeds
  exactly when no padding target is already passed and the result fits into the window; what it
  writes is then read back at the targets.  For the commands of the formatter this gives the
  places of all structures, and the condition under which formatting succeeds.
\<close>

unbundle bit_operations_syntax

subsection \<open>Sequences of writer commands\<close>

datatype wcmd = PadTo u64 | Emit bytes

fun cmd_op :: "wcmd \<Rightarrow> (writer, unit) sop" where
  "cmd_op (PadTo t) = pad t"
| "cmd_op (Emit b) = emit b"

text \<open>The bytes a sequence produces after \<open>acc\<close>; \<open>None\<close> when a target is already passed.\<close>

fun run_img :: "bytes \<Rightarrow> wcmd list \<Rightarrow> bytes option" where
  "run_img acc [] = Some acc"
| "run_img acc (PadTo t # cs) = (if unat t < length acc then None else run_img (acc @ zeros (unat t - length acc)) cs)"
| "run_img acc (Emit b # cs) = run_img (acc @ b) cs"

lemma run_img_append: "run_img acc (xs @ ys) = Option.bind (run_img acc xs) (\<lambda>a. run_img a ys)"
  by (induction acc xs rule: run_img.induct) auto

lemma run_img_prefix: "run_img acc cs = Some img \<Longrightarrow> \<exists>x. img = acc @ x"
  by (induction acc cs rule: run_img.induct) (auto split: if_splits)

lemma seqS_append: "seqS (xs @ ys) = bindS (seqS xs) (\<lambda>_. seqS ys)"
proof (induction xs)
  case Nil
  then show ?case by (simp add: bindS_def retS_def fun_eq_iff)
next
  case (Cons x xs)
  then show ?case by (simp add: bindS_def fun_eq_iff split: prod.splits sum.splits)
qed

lemma seqS_single: "seqS [m] = m"
proof
  fix s show "seqS [m] s = m s" by (cases "m s"; cases "fst (m s)") (auto simp: bindS_def retS_def split: sum.splits)
qed

lemma seqS_inner: "seqS (xs @ seqS ys # zs) = seqS (xs @ ys @ zs)"
  by (simp add: seqS_append)

lemma seqS_nest: "seqS (map seqS mss) = seqS (concat mss)"
  by (induction mss) (simp_all add: seqS_append)

subsection \<open>Running a sequence\<close>

definition written :: "gofile \<Rightarrow> sectionRWS \<Rightarrow> bytes \<Rightarrow> writer" where
  "written f s acc = ((f\<lparr>contents := write_bytes (contents f) (nat (s_base s)) acc\<rparr>, s\<lparr>s_pos := int (length acc)\<rparr>), of_nat (length acc))"

lemma written_ok:
  assumes "rws_ok f s" "int (length acc) \<le> s_size s"
  shows "rws_ok (f\<lparr>contents := write_bytes (contents f) (nat (s_base s)) acc\<rparr>) (s\<lparr>s_pos := int (length acc)\<rparr>)"
proof -
  have "nat (s_base s) + length acc \<le> length (contents f)" using assms by (auto simp: rws_ok_def file_size_def)
  then show ?thesis using assms by (auto simp: rws_ok_def file_size_def write_bytes_inside)
qed

lemma emit_written:
  assumes "rws_ok f s" "\<not> closed f" "int (length (acc @ b)) \<le> s_size s"
  shows "emit b (written f s acc) = (Inr (), written f s (acc @ b))"
proof -
  define f1 where "f1 = f\<lparr>contents := write_bytes (contents f) (nat (s_base s)) acc\<rparr>"
  define s1 where "s1 = s\<lparr>s_pos := int (length acc)\<rparr>"
  have ok: "rws_ok f1 s1" "\<not> closed f1" using written_ok [OF assms(1)] assms(2,3) by (simp_all add: f1_def s1_def)
  have "0 \<le> s_base s" using assms(1) by (simp add: rws_ok_def)
  then have n: "nat (s_base s1 + s_pos s1) = nat (s_base s) + length acc" by (simp add: s1_def nat_add_distrib)
  have "rws_Write b (f1, s1) = (Inr (length b), f1\<lparr>contents := write_bytes (contents f1) (nat (s_base s1 + s_pos s1)) b\<rparr>, s1\<lparr>s_pos := s_pos s1 + int (length b)\<rparr>)"
    using ok assms(3) by (intro rws_Write_appends) (simp_all add: s1_def)
  then show ?thesis
    unfolding n by (simp add: emit_def written_def f1_def [symmetric] s1_def [symmetric])
      (simp add: f1_def s1_def write_bytes_append)
qed

lemma emit_too_long:
  assumes "s_size s < int (length (acc @ b))" "length (acc @ b) < 2 ^ 63"
  shows "\<exists>e t. emit b (written f s acc) = (Inl e, t)"
  using assms by (simp add: emit_def written_def rws_Write_def)

lemma pad_written:
  assumes "length acc < 2 ^ 64"
  shows "unat t < length acc \<Longrightarrow> \<exists>e u. pad t (written f s acc) = (Inl e, u)"
    and "length acc \<le> unat t \<Longrightarrow> pad t (written f s acc) = (if length acc = unat t then (Inr (), written f s acc) else emit (zeros (unat t - length acc)) (written f s acc))"
proof -
  have u: "unat (of_nat (length acc) :: u64) = length acc" using assms by (rule unat_of_nat64)
  show "unat t < length acc \<Longrightarrow> \<exists>e u. pad t (written f s acc) = (Inl e, u)"
    using u by (simp add: pad_def written_def word_less_nat_alt)
  show "pad t (written f s acc) = (if length acc = unat t then (Inr (), written f s acc) else emit (zeros (unat t - length acc)) (written f s acc))"
    if "length acc \<le> unat t"
  proof -
    have "unat (t - of_nat (length acc)) = unat t - length acc" using u that by (subst unat_sub) (simp_all add: word_le_nat_alt)
    moreover have "of_nat (length acc) = t \<longleftrightarrow> length acc = unat t" using u by (metis word_unat_eq_iff)
    ultimately show ?thesis using u that by (auto simp: pad_def written_def word_less_nat_alt)
  qed
qed

lemma exec_ok:
  assumes "rws_ok f s" "\<not> closed f" "run_img acc cs = Some img" "int (length img) \<le> s_size s" "length img < 2 ^ 64"
  shows "seqS (map cmd_op cs) (written f s acc) = (Inr (), written f s img)"
  using assms(3)
proof (induction acc cs rule: run_img.induct)
  case (1 acc)
  then show ?case by (simp add: retS_def)
next
  case (2 acc t cs)
  then have t: "length acc \<le> unat t" "run_img (acc @ zeros (unat t - length acc)) cs = Some img" by (auto split: if_splits)
  obtain x where x: "img = (acc @ zeros (unat t - length acc)) @ x" using run_img_prefix t(2) by blast
  have l: "length acc < 2 ^ 64" "int (length (acc @ zeros (unat t - length acc))) \<le> s_size s" using assms(4,5) by (auto simp: x)
  have "pad t (written f s acc) = (Inr (), written f s (acc @ zeros (unat t - length acc)))"
    using pad_written(2) [OF l(1) t(1)] emit_written [OF assms(1,2) l(2)] by auto
  then show ?case using 2 t by (simp add: bindS_def)
next
  case (3 acc b cs)
  then obtain x where x: "img = (acc @ b) @ x" using run_img_prefix by fastforce
  then have "emit b (written f s acc) = (Inr (), written f s (acc @ b))" using emit_written [OF assms(1,2), of acc b] assms(4) by simp
  then show ?case using 3 by (simp add: bindS_def)
qed

lemma exec_fails:
  assumes "rws_ok f s" "\<not> closed f" "int (length acc) \<le> s_size s" "run_img acc cs = Some img" "length img < 2 ^ 63" "s_size s < int (length img)"
  shows "\<exists>e t. seqS (map cmd_op cs) (written f s acc) = (Inl e, t)"
  using assms(3,4)
proof (induction acc cs rule: run_img.induct)
  case (1 acc)
  then show ?case using assms(6) by simp
next
  case (2 acc t cs)
  then have t: "length acc \<le> unat t" "run_img (acc @ zeros (unat t - length acc)) cs = Some img" by (auto split: if_splits)
  obtain x where x: "img = (acc @ zeros (unat t - length acc)) @ x" using run_img_prefix t(2) by blast
  have l: "length acc < 2 ^ 64" "length (acc @ zeros (unat t - length acc)) < 2 ^ 63" using assms(5) by (simp_all add: x)
  note p = pad_written(2) [OF l(1), of t f s]
  show ?case
  proof (cases "int (length (acc @ zeros (unat t - length acc))) \<le> s_size s")
    case True
    have "pad t (written f s acc) = (Inr (), written f s (acc @ zeros (unat t - length acc)))"
      using p t(1) emit_written [OF assms(1,2) True] by auto
    then show ?thesis using 2(1) [OF _ True t(2)] t(1) by (auto simp: bindS_def)
  next
    case z: False
    then have "length acc \<noteq> unat t" using 2(2) by auto
    then show ?thesis using p t(1) emit_too_long [of s acc "zeros (unat t - length acc)" f] z l(2) by (auto simp: bindS_def)
  qed
next
  case (3 acc b cs)
  obtain x where x: "img = (acc @ b) @ x" using run_img_prefix 3(3) by fastforce
  show ?case
  proof (cases "int (length (acc @ b)) \<le> s_size s")
    case True
    then show ?thesis using 3 emit_written [OF assms(1,2) True] by (auto simp: bindS_def)
  next
    case False
    then show ?thesis using emit_too_long [of s acc b f] assms(5) x by (auto simp: bindS_def)
  qed
qed

subsection \<open>The commands of the formatter\<close>

definition blk :: "u64 \<Rightarrow> wcmd" where
  "blk n = PadTo (n * of_nat blockSize)"

lemma cmd_op_blk: "cmd_op (blk n) = block n"
  by (simp add: blk_def block_def)

definition journal_cmds :: "ext4_fsLayout \<Rightarrow> wcmd list" where
  "journal_cmds fs = Emit (buildJournalSuperblock fs) # map (\<lambda>_. Emit (zeros blockSize)) [1..<unat (el_journalSize fs)]"

definition cmds0 :: "ext4_fsLayout \<Rightarrow> wcmd list" where
  "cmds0 fs = (let g0 = el_group fs 0 in
     [PadTo 1024, Emit (buildSuperblock fs 0), blk 1, Emit (buildGDT fs), blk (1 + el_gdtBlocks fs),
      blk (1 + el_gdtBlocks fs + ucast (eo_reservedGDT (el_opts fs))), blk (gl_blockBitmap g0), Emit (buildBlockBitmap fs 0),
      blk (gl_inodeBitmap g0), Emit (buildInodeBitmap fs 0), blk (gl_inodeTable g0), Emit (buildInodeTable fs 0),
      blk (el_journalBlock fs)] @ journal_cmds fs @
     [blk (el_rootDirBlock fs), Emit buildRootDir, blk (el_lfDirBlock fs), Emit buildLostFound])"

definition group_cmds :: "ext4_fsLayout \<Rightarrow> u32 \<Rightarrow> wcmd list" where
  "group_cmds fs g = (let gl = el_group fs g in
     (if gl_hasSB gl
      then [blk (gl_firstBlock gl), Emit (buildSuperblock fs g), blk (gl_firstBlock gl + 1), Emit (buildGDT fs),
            blk (gl_firstBlock gl + 1 + el_gdtBlocks fs), blk (gl_firstBlock gl + 1 + el_gdtBlocks fs + ucast (eo_reservedGDT (el_opts fs)))]
      else []) @
     [blk (gl_blockBitmap gl), Emit (buildBlockBitmap fs g), blk (gl_inodeBitmap gl), Emit (buildInodeBitmap fs g),
      blk (gl_inodeTable gl), Emit (zeros (unat (gl_inodeTableBlocks gl) * blockSize))])"

definition all_cmds :: "ext4_fsLayout \<Rightarrow> wcmd list" where
  "all_cmds fs = cmds0 fs @ concat (map (\<lambda>g. group_cmds fs (of_nat g)) [1..<unat (el_numGroups fs)]) @ [blk (el_totalBlocks fs)]"

lemma length_jsb [simp]: "length (buildJournalSuperblock fs) = blockSize"
  by (simp add: buildJournalSuperblock_def Let_def blockSize_def del: puts_simps)

lemma write_block_emit: "length b = blockSize \<Longrightarrow> write_block b = emit b"
  by (auto simp: write_block_def emit_def fun_eq_iff split: prod.splits sum.splits)

lemma writeJournal_cmds: "writeJournal fs = seqS (map cmd_op (journal_cmds fs))"
  by (simp add: writeJournal_def journal_cmds_def write_block_emit comp_def)

lemma write_group0_cmds: "write_group0 fs = seqS (map cmd_op (cmds0 fs))"
  unfolding write_group0_def Let_def writeJournal_cmds
  using seqS_inner [of "[_, _, _, _, _, _, _, _, _, _, _, _, _]" "map cmd_op (journal_cmds fs)" "[_, _, _, _]"]
  by (simp only: cmds0_def Let_def map_append list.map cmd_op.simps cmd_op_blk append_Cons append_Nil)

lemma write_group_cmds: "write_group fs g = seqS (map cmd_op (group_cmds fs g))"
  by (simp add: write_group_def group_cmds_def Let_def cmd_op_blk)

lemma bindS_seq: "bindS (seqS xs) (\<lambda>_. bindS (seqS ys) (\<lambda>_. m)) = seqS (xs @ ys @ [m])"
  by (simp add: seqS_append seqS_single del: seqS.simps)

lemma ext4_write_cmds:
  "ext4_write fs t = (case seqS (map cmd_op (all_cmds fs)) (t, 0) of (r, (t', cur)) \<Rightarrow> (r, t'))"
proof -
  have g: "seqS (map (\<lambda>g. write_group fs (of_nat g)) gs) = seqS (map cmd_op (concat (map (\<lambda>g. group_cmds fs (of_nat g)) gs)))" for gs
    using seqS_nest [of "map (\<lambda>g. map cmd_op (group_cmds fs (of_nat g))) gs"] by (simp add: write_group_cmds comp_def map_concat)
  have p: "pad (el_totalBlocks fs * of_nat blockSize) = cmd_op (blk (el_totalBlocks fs))" by (simp add: blk_def)
  show ?thesis unfolding ext4_write_def write_group0_cmds g p bindS_seq all_cmds_def by simp
qed

subsection \<open>Lengths of the structures\<close>

lemma length_buildSuperblock [simp]: "length (buildSuperblock fs g) = 1024"
  by (simp add: buildSuperblock_def Let_def)

lemma length_encodeGDE [simp]: "length (encodeGDE fs g) = 64"
  by (simp add: encodeGDE_def Let_def gdtEntrySize_def)

lemma length_buildGDT: "ext4_ok fs T gd r ipg j \<Longrightarrow> length (buildGDT fs) = gd * 4096"
  by (simp add: buildGDT_def blockSize_def ext4_ok_fields(10))

lemma length_put_inode [simp]: "length (put_inode fs g idx m sz fl bd buf) = length buf"
  by (simp add: put_inode_def Let_def)

lemma length_fold_inode [simp]: "length (fold (\<lambda>i. put_inode fs g i m sz fl bd) is buf) = length buf"
  by (induction "is" arbitrary: buf) simp_all

lemma length_inodeTable:
  assumes "ext4_ok fs T gd r ipg j"
  shows "length (buildInodeTable fs g) = (ipg div 16) * 4096"
proof -
  have "ipg * 256 = ipg div 16 * 4096" using ext4_okD(7) [OF assms] by auto
  moreover have "length (buildInodeTable fs g) = ipg * 256"
    unfolding buildInodeTable_def Let_def by (simp add: inodeSize_def ext4_ok_fields(9) [OF assms])
  ultimately show ?thesis by simp
qed

lemma length_direntFull [simp]: "length (writeDirentFull i nm ft rl b) = length b"
  by (simp add: writeDirentFull_def del: puts_simps)

lemma writeDirent_eq: "writeDirent i nm ft = writeDirentFull i nm ft (dirent_len nm)"
  by (simp add: fun_eq_iff writeDirent_def)

lemma length_at_dirent [simp]: "length (at_pos p (writeDirentFull i nm ft rl) b) = length b"
  by (rule length_at_pos) simp

lemma length_rootDirs [simp]: "length buildRootDir = 4096" "length buildLostFound = 4096"
  by (simp_all only: buildRootDir_def buildLostFound_def Let_def writeDirent_eq length_at_dirent length_zeros blockSize_def)

subsection \<open>Placing structures\<close>

definition put_at :: "bytes \<Rightarrow> nat \<Rightarrow> bytes \<Rightarrow> bytes" where
  "put_at acc p b = acc @ zeros (p - length acc) @ b"

definition placed :: "bytes \<Rightarrow> nat \<Rightarrow> bytes \<Rightarrow> bool" where
  "placed img p b \<longleftrightarrow> p + length b \<le> length img \<and> sub img p (length b) = b"

lemma length_put_at: "length acc \<le> p \<Longrightarrow> length (put_at acc p b) = p + length b"
  by (simp add: put_at_def)

lemma placed_here: "length acc \<le> p \<Longrightarrow> placed (put_at acc p b) p b"
  by (simp add: placed_def put_at_def sub_def)

lemma placed_append: "placed acc q c \<Longrightarrow> placed (acc @ x) q c"
  by (simp add: placed_def sub_app_left)

lemma placed_put_at: "placed acc q c \<Longrightarrow> placed (put_at acc p b) q c"
  by (simp add: put_at_def placed_append)

lemma unat_block: "n < 2 ^ 50 \<Longrightarrow> unat (of_nat n * of_nat blockSize :: u64) = n * 4096"
  using unat_of_nat64 [of "n * 4096"] by (simp add: blockSize_def)

lemma run_blk:
  assumes "n < 2 ^ 50" "length acc \<le> n * 4096"
  shows "run_img acc (blk (of_nat n) # Emit b # cs) = run_img (put_at acc (n * 4096) b) cs"
    and "run_img acc (blk (of_nat n) # cs) = run_img (put_at acc (n * 4096) []) cs"
  using assms by (simp_all add: blk_def unat_block put_at_def)

text \<open>The bitmaps and the inode table of a group, whose first block is \<open>n\<close>.\<close>

lemma run_bitmaps:
  assumes "n + 2 < 2 ^ 50" "length acc \<le> n * 4096" "length bm = 4096" "length im = 4096"
  shows "\<exists>a. (\<forall>cs. run_img acc ([blk (of_nat n), Emit bm, blk (of_nat (n + 1)), Emit im, blk (of_nat (n + 2)), Emit tb] @ cs) = run_img a cs) \<and>
    length a = (n + 2) * 4096 + length tb \<and> placed a (n * 4096) bm \<and> placed a ((n + 1) * 4096) im \<and> placed a ((n + 2) * 4096) tb \<and>
    (\<exists>x. a = acc @ x)"
proof -
  define a1 where "a1 = put_at acc (n * 4096) bm"
  define a2 where "a2 = put_at a1 ((n + 1) * 4096) im"
  define a3 where "a3 = put_at a2 ((n + 2) * 4096) tb"
  have l1: "length a1 = (n + 1) * 4096" using assms by (simp add: a1_def length_put_at)
  have l2: "length a2 = (n + 2) * 4096" using assms l1 by (simp add: a2_def length_put_at)
  have l3: "length a3 = (n + 2) * 4096 + length tb" using l2 by (simp add: a3_def length_put_at)
  have p: "placed a3 (n * 4096) bm" "placed a3 ((n + 1) * 4096) im" "placed a3 ((n + 2) * 4096) tb"
    using assms(2) l1 l2 by (auto simp: a3_def a2_def intro!: placed_put_at placed_here simp: a1_def)
  have "n < 2 ^ 50" "n + 1 < 2 ^ 50" using assms(1) by simp_all
  then have "run_img acc ([blk (of_nat n), Emit bm, blk (of_nat (n + 1)), Emit im, blk (of_nat (n + 2)), Emit tb] @ cs) = run_img a3 cs" for cs
    unfolding append_Cons append_Nil using run_blk(1) [of n acc] run_blk(1) [of "n + 1" a1] run_blk(1) [of "n + 2" a2] assms(1,2) l1 l2
    by (simp only: a1_def [symmetric] a2_def [symmetric] a3_def [symmetric] order_refl)
  moreover have "\<exists>x. a3 = acc @ x" by (simp add: a3_def a2_def a1_def put_at_def)
  ultimately show ?thesis using l3 p by blast
qed

text \<open>A superblock with the descriptor table behind it.\<close>

lemma run_super:
  assumes "n + 1 + gd + r < 2 ^ 50" "length acc \<le> n * 4096" "length sb = 1024" "length gt = gd * 4096"
  shows "\<exists>a. (\<forall>cs. run_img acc ([blk (of_nat n), Emit sb, blk (of_nat (n + 1)), Emit gt, blk (of_nat (n + 1 + gd)), blk (of_nat (n + 1 + gd + r))] @ cs) = run_img a cs) \<and>
    length a = (n + 1 + gd + r) * 4096 \<and> placed a (n * 4096) sb \<and> placed a ((n + 1) * 4096) gt \<and> (\<exists>x. a = acc @ x)"
proof -
  define a1 where "a1 = put_at acc (n * 4096) sb"
  define a2 where "a2 = put_at a1 ((n + 1) * 4096) gt"
  define a3 where "a3 = put_at a2 ((n + 1 + gd) * 4096) []"
  define a4 where "a4 = put_at a3 ((n + 1 + gd + r) * 4096) []"
  have l1: "length a1 = n * 4096 + 1024" "length a1 \<le> (n + 1) * 4096" using assms by (simp_all add: a1_def length_put_at)
  have l2: "length a2 = (n + 1 + gd) * 4096" using assms l1 by (simp add: a2_def length_put_at)
  have l3: "length a3 = (n + 1 + gd) * 4096" using l2 by (simp add: a3_def length_put_at)
  have l4: "length a4 = (n + 1 + gd + r) * 4096" using l3 by (simp add: a4_def length_put_at)
  have p: "placed a4 (n * 4096) sb" "placed a4 ((n + 1) * 4096) gt"
    using assms(2) l1 by (auto simp: a4_def a3_def a2_def intro!: placed_put_at placed_here simp: a1_def)
  have b: "n < 2 ^ 50" "n + 1 < 2 ^ 50" "n + 1 + gd < 2 ^ 50" "length a3 \<le> (n + 1 + gd + r) * 4096" using assms(1) l3 by simp_all
  have "run_img acc ([blk (of_nat n), Emit sb, blk (of_nat (n + 1)), Emit gt, blk (of_nat (n + 1 + gd)), blk (of_nat (n + 1 + gd + r))] @ cs) = run_img a4 cs" for cs
    unfolding append_Cons append_Nil using run_blk(1) [of n acc] run_blk(1) [of "n + 1" a1] run_blk(2) [of "n + 1 + gd" a2] run_blk(2) [of "n + 1 + gd + r" a3]
      assms(1,2) l1 l2 b by (simp only: a1_def [symmetric] a2_def [symmetric] a3_def [symmetric] a4_def [symmetric] order_refl)
  moreover have "\<exists>x. a4 = acc @ x" by (simp add: a4_def a3_def a2_def a1_def put_at_def)
  ultimately show ?thesis using l4 p by blast
qed

text \<open>What the image holds of a group other than group 0.\<close>

definition group_placed :: "ext4_fsLayout \<Rightarrow> nat \<Rightarrow> nat \<Rightarrow> nat \<Rightarrow> bytes \<Rightarrow> bool" where
  "group_placed fs gd r g img \<longleftrightarrow>
     placed img (bitmap_block gd r g * 4096) (buildBlockBitmap fs (of_nat g)) \<and>
     placed img ((bitmap_block gd r g + 1) * 4096) (buildInodeBitmap fs (of_nat g)) \<and>
     (has_backup g \<longrightarrow> placed img (g * 32768 * 4096) (buildSuperblock fs (of_nat g)) \<and> placed img ((g * 32768 + 1) * 4096) (buildGDT fs))"

lemma group_placed_append: "group_placed fs gd r g a \<Longrightarrow> group_placed fs gd r g (a @ x)"
  by (simp add: group_placed_def placed_append)

lemma run_group:
  assumes ok: "ext4_ok fs T gd r ipg j" and g: "g < num_groups T" "0 < g" and acc: "length acc \<le> g * 32768 * 4096"
  shows "\<exists>a. (\<forall>cs. run_img acc (group_cmds fs (of_nat g) @ cs) = run_img a cs) \<and> length a = data_start gd r ipg j g * 4096 \<and>
    group_placed fs gd r g a \<and> (\<exists>x. a = acc @ x)"
proof -
  note K = ext4_okD [OF ok] and D = data_start_bound [OF ok g(1)] and W = ext4_ok_fields [OF ok]
  define bb where "bb = bitmap_block gd r g"
  define F where "F = g * 32768"
  have gl: "el_group fs (of_nat g) = group_spec T gd r ipg j g" using K(16) g(1) by simp
  have f: "gl_firstBlock (group_spec T gd r ipg j g) = of_nat F" "gl_hasSB (group_spec T gd r ipg j g) = has_backup g"
    "gl_blockBitmap (group_spec T gd r ipg j g) = of_nat bb" "gl_inodeBitmap (group_spec T gd r ipg j g) = of_nat (bb + 1)"
    "gl_inodeTable (group_spec T gd r ipg j g) = of_nat (bb + 2)" "gl_inodeTableBlocks (group_spec T gd r ipg j g) = of_nat (ipg div 16)"
    by (simp_all only: group_spec_def groupLayout.simps bb_def F_def)
  have w: "of_nat F + 1 = (of_nat (F + 1) :: u64)" "of_nat (F + 1) + of_nat gd = (of_nat (F + 1 + gd) :: u64)"
    "of_nat (F + 1 + gd) + of_nat r = (of_nat (F + 1 + gd + r) :: u64)" by simp_all
  have ib: "unat (of_nat (ipg div 16) :: u32) * blockSize = ipg div 16 * 4096" using K(6) by (simp add: blockSize_def unat_of_nat)
  define head where "head = (if has_backup g then [blk (of_nat F), Emit (buildSuperblock fs (of_nat g)), blk (of_nat (F + 1)), Emit (buildGDT fs),
      blk (of_nat (F + 1 + gd)), blk (of_nat (F + 1 + gd + r))] else [])"
  define rest where "rest = [blk (of_nat bb), Emit (buildBlockBitmap fs (of_nat g)), blk (of_nat (bb + 1)), Emit (buildInodeBitmap fs (of_nat g)),
      blk (of_nat (bb + 2)), Emit (zeros (ipg div 16 * 4096))]"
  have cmds: "group_cmds fs (of_nat g) = head @ rest"
    unfolding group_cmds_def Let_def gl f W(3,12) w ib head_def rest_def ..
  have F: "F < 2 ^ 35" "bb < 2 ^ 36" using D by (simp_all add: F_def bb_def)
  have "\<exists>a. (\<forall>cs. run_img acc (head @ cs) = run_img a cs) \<and> length a \<le> bb * 4096 \<and> (\<exists>x. a = acc @ x) \<and>
      (has_backup g \<longrightarrow> placed a (F * 4096) (buildSuperblock fs (of_nat g)) \<and> placed a ((F + 1) * 4096) (buildGDT fs))"
  proof (cases "has_backup g")
    case True
    have bnd: "F + 1 + gd + r < 2 ^ 50" using F K(4,11) by simp
    have bF: "bb = F + 1 + gd + r" using True by (simp add: bb_def bitmap_block_def F_def)
    obtain a where "\<forall>cs. run_img acc (head @ cs) = run_img a cs" "length a = (F + 1 + gd + r) * 4096"
      "placed a (F * 4096) (buildSuperblock fs (of_nat g))" "placed a ((F + 1) * 4096) (buildGDT fs)" "\<exists>x. a = acc @ x"
      using run_super [OF bnd acc [folded F_def] length_buildSuperblock [of fs "of_nat g"] length_buildGDT [OF ok]] True
      unfolding head_def by (simp only: if_True) blast
    then show ?thesis using bF by auto
  next
    case False
    then show ?thesis using acc by (intro exI [of _ acc]) (simp add: head_def bb_def bitmap_block_def)
  qed
  then obtain a where a: "\<forall>cs. run_img acc (head @ cs) = run_img a cs" "length a \<le> bb * 4096" "\<exists>x. a = acc @ x"
    "has_backup g \<longrightarrow> placed a (F * 4096) (buildSuperblock fs (of_nat g)) \<and> placed a ((F + 1) * 4096) (buildGDT fs)" by blast
  have bnd: "bb + 2 < 2 ^ 50" using F by simp
  obtain b where b: "\<forall>cs. run_img a (rest @ cs) = run_img b cs" "length b = (bb + 2) * 4096 + ipg div 16 * 4096"
    "placed b (bb * 4096) (buildBlockBitmap fs (of_nat g))" "placed b ((bb + 1) * 4096) (buildInodeBitmap fs (of_nat g))" "\<exists>x. b = a @ x"
    using run_bitmaps [OF bnd a(2) block_bitmap_bits(2) [OF ok g(1), of 0] inode_bitmap_bits(2) [OF ok g(1), of 0], of "zeros (ipg div 16 * 4096)"]
    unfolding rest_def by auto
  have "length b = data_start gd r ipg j g * 4096" using b(2) g(2) by (simp add: data_start_def bb_def)
  moreover have "group_placed fs gd r g b" unfolding group_placed_def bb_def [symmetric] F_def [symmetric] using a(4) b(3,4,5) placed_append by blast
  moreover have "\<exists>x. b = acc @ x" using a(3) b(5) by auto
  ultimately show ?thesis using a(1) b(1) cmds by auto
qed

text \<open>All groups from \<open>k\<close> on, as long as each but the last ends before the next one begins.\<close>

lemma run_groups:
  assumes ok: "ext4_ok fs T gd r ipg j" and "length acc \<le> k * 32768 * 4096" "0 < k" "k + n \<le> num_groups T"
    and "\<forall>g. k \<le> g \<and> g + 1 < k + n \<longrightarrow> data_start gd r ipg j g \<le> (g + 1) * 32768"
  shows "\<exists>a. (\<forall>cs. run_img acc (concat (map (\<lambda>g. group_cmds fs (of_nat g)) [k..<k + n]) @ cs) = run_img a cs) \<and>
    length a = (if n = 0 then length acc else data_start gd r ipg j (k + n - 1) * 4096) \<and>
    (\<forall>g. k \<le> g \<and> g < k + n \<longrightarrow> group_placed fs gd r g a) \<and> (\<exists>x. a = acc @ x)"
  using assms(2-)
proof (induction n)
  case 0
  then show ?case by (intro exI [of _ acc]) auto
next
  case (Suc n)
  obtain a where a: "\<forall>cs. run_img acc (concat (map (\<lambda>g. group_cmds fs (of_nat g)) [k..<k + n]) @ cs) = run_img a cs"
    "length a = (if n = 0 then length acc else data_start gd r ipg j (k + n - 1) * 4096)"
    "\<forall>g. k \<le> g \<and> g < k + n \<longrightarrow> group_placed fs gd r g a" "\<exists>x. a = acc @ x"
    using Suc by fastforce
  have "length a \<le> (k + n) * 32768 * 4096"
  proof (cases n)
    case 0
    then show ?thesis using a(2) Suc.prems(1) by simp
  next
    case (Suc m)
    then have "data_start gd r ipg j (k + n - 1) \<le> (k + n - 1 + 1) * 32768" using Suc.prems(4) by (metis add_Suc_right diff_Suc_1 le_add1 lessI add_Suc_shift Suc_eq_plus1)
    then show ?thesis using a(2) Suc by simp
  qed
  from run_group [OF ok _ _ this] Suc.prems obtain b where b: "\<forall>cs. run_img a (group_cmds fs (of_nat (k + n)) @ cs) = run_img b cs"
    "length b = data_start gd r ipg j (k + n) * 4096" "group_placed fs gd r (k + n) b" "\<exists>x. b = a @ x" by auto
  have "run_img acc (concat (map (\<lambda>g. group_cmds fs (of_nat g)) [k..<k + Suc n]) @ cs) = run_img b cs" for cs
    using a(1) b(1) by simp
  moreover have "group_placed fs gd r g b" if "k \<le> g" "g < k + Suc n" for g
    using that a(3) b(3,4) group_placed_append by (metis add_Suc_right less_Suc_eq)
  moreover have "\<exists>x. b = acc @ x" using a(4) b(4) by auto
  ultimately show ?case using b(2) by (intro exI [of _ b]) auto
qed

subsection \<open>Group 0 and the whole image\<close>

lemma run_emits: "run_img acc (map (\<lambda>x. Emit (h x)) xs @ cs) = run_img (acc @ concat (map h xs)) cs"
  by (induction xs arbitrary: acc) simp_all

lemma run_journal:
  assumes "ext4_ok fs T gd r ipg j"
  shows "run_img acc (journal_cmds fs @ cs) = run_img (acc @ buildJournalSuperblock fs @ concat (map (\<lambda>_. zeros blockSize) [1..<j])) cs"
  using run_emits [of "acc @ buildJournalSuperblock fs" "\<lambda>_. zeros blockSize" "[1..<j]" cs] by (simp add: journal_cmds_def ext4_ok_fields(11) [OF assms])

lemma length_journal:
  assumes "1 \<le> j"
  shows "length (buildJournalSuperblock fs @ concat (map (\<lambda>_. zeros blockSize) [1..<j])) = j * 4096"
proof -
  have "length (concat (map (\<lambda>_. zeros blockSize) [1..<j])) = blockSize * length [1..<j]" by (rule length_concat_map) simp
  then show ?thesis using assms by (simp add: blockSize_def algebra_simps)
qed

definition group0_placed :: "ext4_fsLayout \<Rightarrow> nat \<Rightarrow> nat \<Rightarrow> nat \<Rightarrow> nat \<Rightarrow> bytes \<Rightarrow> bool" where
  "group0_placed fs gd r ipg j img \<longleftrightarrow>
     placed img 1024 (buildSuperblock fs 0) \<and> placed img 4096 (buildGDT fs) \<and>
     placed img (bitmap_block gd r 0 * 4096) (buildBlockBitmap fs 0) \<and> placed img ((bitmap_block gd r 0 + 1) * 4096) (buildInodeBitmap fs 0) \<and>
     placed img ((bitmap_block gd r 0 + 2) * 4096) (buildInodeTable fs 0) \<and>
     placed img ((data_start gd r ipg j 0 - j - 2) * 4096) (buildJournalSuperblock fs) \<and>
     placed img ((data_start gd r ipg j 0 - 2) * 4096) buildRootDir \<and> placed img ((data_start gd r ipg j 0 - 1) * 4096) buildLostFound"

lemma group0_placed_append: "group0_placed fs gd r ipg j a \<Longrightarrow> group0_placed fs gd r ipg j (a @ x)"
  by (simp add: group0_placed_def placed_append)

lemma run_cmds0:
  assumes ok: "ext4_ok fs T gd r ipg j"
  shows "\<exists>a. (\<forall>cs. run_img [] (cmds0 fs @ cs) = run_img a cs) \<and> length a = data_start gd r ipg j 0 * 4096 \<and> group0_placed fs gd r ipg j a"
proof -
  note K = ext4_okD [OF ok] and W = ext4_ok_fields [OF ok]
  have N0: "0 < num_groups T" using K(15) by simp
  define bb where "bb = bitmap_block gd r 0"
  define ds where "ds = data_start gd r ipg j 0"
  define jb where "jb = ds - j - 2"
  have bb: "bb = 1 + gd + r" by (simp add: bb_def bitmap_block_def)
  have ds: "ds = jb + j + 2" "jb = bb + 2 + ipg div 16" "ds \<le> 32768" using W(14) by (simp_all add: ds_def jb_def data_start_def bb_def)
  have gl: "el_group fs 0 = group_spec T gd r ipg j 0" using K(16) [OF N0] by simp
  have f: "gl_blockBitmap (group_spec T gd r ipg j 0) = of_nat bb" "gl_inodeBitmap (group_spec T gd r ipg j 0) = of_nat (bb + 1)"
    "gl_inodeTable (group_spec T gd r ipg j 0) = of_nat (bb + 2)" by (simp_all only: group_spec_def groupLayout.simps bb_def)
  have w: "1 + of_nat gd = (of_nat (1 + gd) :: u64)" "of_nat (1 + gd) + of_nat r = (of_nat (1 + gd + r) :: u64)" "(1 :: u64) = of_nat 1" by simp_all
  define a1 where "a1 = put_at [] 1024 (buildSuperblock fs 0)"
  define a2 where "a2 = put_at a1 (1 * 4096) (buildGDT fs)"
  define a3 where "a3 = put_at a2 ((1 + gd) * 4096) []"
  define a4 where "a4 = put_at a3 ((1 + gd + r) * 4096) []"
  have l1: "length a1 = 2048" by (simp add: a1_def length_put_at)
  have l2: "length a2 = (1 + gd) * 4096" using l1 by (simp add: a2_def length_put_at length_buildGDT [OF ok])
  have l3: "length a3 = (1 + gd) * 4096" using l2 by (simp add: a3_def length_put_at)
  have l4: "length a4 = bb * 4096" using l3 by (simp add: a4_def length_put_at bb)
  have p4: "placed a4 1024 (buildSuperblock fs 0)" "placed a4 (1 * 4096) (buildGDT fs)"
    using l1 by (auto simp: a4_def a3_def a2_def intro!: placed_put_at placed_here simp: a1_def)
  define c1 where "c1 = [blk (of_nat bb), Emit (buildBlockBitmap fs 0), blk (of_nat (bb + 1)), Emit (buildInodeBitmap fs 0), blk (of_nat (bb + 2)), Emit (buildInodeTable fs 0)]"
  have bnd: "bb + 2 < 2 ^ 50" using ds by simp
  have lb: "length (buildBlockBitmap fs 0) = 4096" "length (buildInodeBitmap fs 0) = 4096"
    using block_bitmap_bits(2) [OF ok N0, of 0] inode_bitmap_bits(2) [OF ok N0, of 0] by simp_all
  obtain a5 where a5: "\<forall>cs. run_img a4 (c1 @ cs) = run_img a5 cs" "length a5 = (bb + 2) * 4096 + length (buildInodeTable fs 0)"
    "placed a5 (bb * 4096) (buildBlockBitmap fs 0)" "placed a5 ((bb + 1) * 4096) (buildInodeBitmap fs 0)"
    "placed a5 ((bb + 2) * 4096) (buildInodeTable fs 0)" "\<exists>x. a5 = a4 @ x"
    using run_bitmaps [OF bnd _ lb, of a4 "buildInodeTable fs 0"] l4 unfolding c1_def by (metis order_refl)
  have l5: "length a5 = jb * 4096" using a5(2) ds(2) length_inodeTable [OF ok] by simp
  define js where "js = buildJournalSuperblock fs @ concat (map (\<lambda>_. zeros blockSize) [1..<j])"
  have ljs: "length js = j * 4096" unfolding js_def by (rule length_journal [OF K(8)])
  define a6 where "a6 = put_at a5 (jb * 4096) js"
  have l6: "length a6 = (jb + j) * 4096" using l5 ljs by (simp add: a6_def length_put_at)
  define a7 where "a7 = put_at a6 ((ds - 2) * 4096) buildRootDir"
  define a8 where "a8 = put_at a7 ((ds - 1) * 4096) buildLostFound"
  have l6': "length a6 \<le> (ds - 2) * 4096" using l6 ds(1) by simp
  have l7: "length a7 = (ds - 1) * 4096" using l6 ds(1) by (simp add: a7_def length_put_at)
  have l8: "length a8 = ds * 4096" using l7 ds(1) by (simp add: a8_def length_put_at)
  have r1: "run_img [] ([PadTo 1024, Emit (buildSuperblock fs 0), blk (of_nat 1), Emit (buildGDT fs), blk (of_nat (1 + gd)), blk (of_nat (1 + gd + r))] @ cs) = run_img a4 cs" for cs
  proof -
    have "run_img [] (PadTo 1024 # Emit (buildSuperblock fs 0) # cs) = run_img a1 cs" for cs by (simp add: a1_def put_at_def)
    moreover have "run_img a1 (blk (of_nat 1) # Emit (buildGDT fs) # cs) = run_img a2 cs" for cs
      unfolding a2_def by (rule run_blk(1)) (simp_all add: l1)
    moreover have "run_img a2 (blk (of_nat (1 + gd)) # cs) = run_img a3 cs" for cs
      unfolding a3_def using K(11) l2 by (intro run_blk(2)) simp_all
    moreover have "run_img a3 (blk (of_nat (1 + gd + r)) # cs) = run_img a4 cs" for cs
      unfolding a4_def using K(4,11) l3 by (intro run_blk(2)) simp_all
    ultimately show ?thesis by (simp only: append_Cons append_Nil)
  qed
  have r2: "run_img a5 (blk (of_nat jb) # journal_cmds fs @ cs) = run_img a6 cs" for cs
  proof -
    have "jb < 2 ^ 50" using ds by simp
    then have "run_img a5 (blk (of_nat jb) # journal_cmds fs @ cs) = run_img (put_at a5 (jb * 4096) []) (journal_cmds fs @ cs)"
      using run_blk(2) [of jb a5] l5 by simp
    then show ?thesis using run_journal [OF ok] by (simp add: a6_def put_at_def js_def)
  qed
  have r3: "run_img a6 ([blk (of_nat (ds - 2)), Emit buildRootDir, blk (of_nat (ds - 1)), Emit buildLostFound] @ cs) = run_img a8 cs" for cs
  proof -
    have "ds - 2 < 2 ^ 50" "ds - 1 < 2 ^ 50" using ds(3) by simp_all
    then show ?thesis unfolding append_Cons append_Nil using run_blk(1) [of "ds - 2" a6] run_blk(1) [of "ds - 1" a7] l6' l7
      by (simp only: a7_def [symmetric] a8_def [symmetric] order_refl)
  qed
  have "cmds0 fs = [PadTo 1024, Emit (buildSuperblock fs 0), blk (of_nat 1), Emit (buildGDT fs), blk (of_nat (1 + gd)), blk (of_nat (1 + gd + r))] @
      c1 @ blk (of_nat jb) # journal_cmds fs @ [blk (of_nat (ds - 2)), Emit buildRootDir, blk (of_nat (ds - 1)), Emit buildLostFound]"
    unfolding cmds0_def Let_def gl f W(3,6,7,8,12) w(1,2) ds_def [symmetric] jb_def [symmetric] c1_def by (simp only: append_Cons append_Nil of_nat_1)
  then have "run_img [] (cmds0 fs @ cs) = run_img a8 cs" for cs
    using r1 a5(1) r2 r3 by (simp only: append_assoc append_Cons)
  moreover have "placed a8 (jb * 4096) (buildJournalSuperblock fs)"
  proof -
    have "placed a6 (jb * 4096) (buildJournalSuperblock fs)" using l5 ljs by (auto simp: a6_def put_at_def placed_def js_def sub_def)
    then show ?thesis by (simp add: a8_def a7_def placed_put_at)
  qed
  moreover have "placed a8 ((ds - 2) * 4096) buildRootDir" "placed a8 ((ds - 1) * 4096) buildLostFound"
    using l6' l7 by (auto simp: a8_def intro!: placed_put_at placed_here simp: a7_def)
  moreover have "placed a8 p b" if "placed a5 p b" for p b using that by (simp add: a8_def a7_def a6_def placed_put_at)
  moreover have "placed a5 p b" if "placed a4 p b" for p b using that a5(6) placed_append by blast
  ultimately have "group0_placed fs gd r ipg j a8"
    unfolding group0_placed_def bb_def [symmetric] ds_def [symmetric] jb_def [symmetric] using p4 a5(3,4,5) by simp
  then show ?thesis using l8 \<open>\<And>cs. run_img [] (cmds0 fs @ cs) = run_img a8 cs\<close> unfolding ds_def by blast
qed

text \<open>A full group always has room for its structures.\<close>

lemma full_group_room:
  assumes ok: "ext4_ok fs T gd r ipg j" and g: "0 < g"
  shows "data_start gd r ipg j g \<le> (g + 1) * 32768"
proof -
  note K = ext4_okD [OF ok]
  have "num_groups T * 64 + 4095 \<le> 2 ^ 20 * 64 + 4095" using K(12) by simp
  then have "(num_groups T * 64 + 4095) div 4096 \<le> (2 ^ 20 * 64 + 4095) div 4096" by (rule div_le_mono)
  then have "gd \<le> 16384" using K(3) by simp
  moreover have "ipg div 16 \<le> 2048" using K(6) by simp
  ultimately show ?thesis using g K(4) by (auto simp: data_start_def bitmap_block_def)
qed

lemma ext4_run:
  assumes ok: "ext4_ok fs T gd r ipg j"
  shows "if data_start gd r ipg j (num_groups T - 1) \<le> T
    then \<exists>img. run_img [] (all_cmds fs) = Some img \<and> length img = T * 4096 \<and> group0_placed fs gd r ipg j img \<and>
      (\<forall>g. 0 < g \<and> g < num_groups T \<longrightarrow> group_placed fs gd r g img)
    else \<exists>cs t b. all_cmds fs = cs @ [PadTo t] \<and> run_img [] cs = Some b \<and> unat t < length b \<and> length b < 2 ^ 62"
proof -
  note K = ext4_okD [OF ok] and W = ext4_ok_fields [OF ok]
  define N where "N = num_groups T"
  obtain a where a: "\<forall>cs. run_img [] (cmds0 fs @ cs) = run_img a cs" "length a = data_start gd r ipg j 0 * 4096" "group0_placed fs gd r ipg j a"
    using run_cmds0 [OF ok] by blast
  have l: "length a \<le> 1 * 32768 * 4096" using a(2) W(14) by simp
  have room: "\<forall>g. 1 \<le> g \<and> g + 1 < 1 + (N - 1) \<longrightarrow> data_start gd r ipg j g \<le> (g + 1) * 32768"
    using full_group_room [OF ok] by (auto simp: N_def)
  have N: "1 + (N - 1) = N" "1 + (N - 1) \<le> num_groups T" using K(15) by (simp_all add: N_def)
  obtain b where b: "\<forall>cs. run_img a (concat (map (\<lambda>g. group_cmds fs (of_nat g)) [1..<N]) @ cs) = run_img b cs"
    "length b = data_start gd r ipg j (N - 1) * 4096" "\<forall>g. 1 \<le> g \<and> g < N \<longrightarrow> group_placed fs gd r g b" "\<exists>x. b = a @ x"
  proof -
    from run_groups [OF ok l _ N(2) room] obtain b where "\<forall>cs. run_img a (concat (map (\<lambda>g. group_cmds fs (of_nat g)) [1..<N]) @ cs) = run_img b cs"
      "length b = (if N - 1 = 0 then length a else data_start gd r ipg j (N - 1) * 4096)" "\<forall>g. 1 \<le> g \<and> g < N \<longrightarrow> group_placed fs gd r g b" "\<exists>x. b = a @ x"
      unfolding N(1) by auto
    then show thesis using a(2) by (intro that [of b]) (auto split: if_splits)
  qed
  have T: "T < 2 ^ 50" using K(2) by simp
  have e: "run_img [] (all_cmds fs) = (if T * 4096 < length b then None else Some (b @ zeros (T * 4096 - length b)))"
    unfolding all_cmds_def append_assoc W(1) K(10) N_def [symmetric] using a(1) b(1) unat_block [OF T] by (simp add: blk_def)
  show ?thesis
  proof (cases "data_start gd r ipg j (N - 1) \<le> T")
    case True
    then have "\<not> T * 4096 < length b" using b(2) by simp
    moreover have "group0_placed fs gd r ipg j (b @ x)" for x using a(3) b(4) group0_placed_append by (metis append_assoc)
    ultimately show ?thesis using True e b(3) group_placed_append by (simp add: N_def Suc_le_eq)
  next
    case False
    define cs where "cs = cmds0 fs @ concat (map (\<lambda>g. group_cmds fs (of_nat g)) [1..<unat (el_numGroups fs)])"
    have "all_cmds fs = cs @ [PadTo (el_totalBlocks fs * of_nat blockSize)]" by (simp add: all_cmds_def cs_def blk_def)
    moreover have "run_img [] cs = Some b"
      using a(1) b(1) [THEN spec, of "[]"] unfolding cs_def K(10) N_def [symmetric] by simp
    moreover have "unat (el_totalBlocks fs * of_nat blockSize) < length b" using False b(2) unat_block [OF T] by (simp add: W(1))
    moreover have "length b < 2 ^ 62"
    proof -
      have "data_start gd r ipg j (N - 1) \<le> N * 32768"
      proof (cases "N - 1 = 0")
        case True
        then show ?thesis using W(14) K(15) by (simp add: N_def)
      next
        case False
        then show ?thesis using full_group_room [OF ok, of "N - 1"] by (simp add: N_def)
      qed
      moreover have "N \<le> 2 ^ 20" using K(12) by (simp add: N_def)
      ultimately have "data_start gd r ipg j (N - 1) \<le> 2 ^ 35" by simp
      then show ?thesis using b(2) by simp
    qed
    ultimately show ?thesis using False unfolding N_def by (metis (no_types, lifting))
  qed
qed

lemma ext4_run_fits:
  assumes "ext4_ok fs T gd r ipg j" "data_start gd r ipg j (num_groups T - 1) \<le> T"
  obtains img where "run_img [] (all_cmds fs) = Some img" "length img = T * 4096" "group0_placed fs gd r ipg j img"
    "\<forall>g. 0 < g \<and> g < num_groups T \<longrightarrow> group_placed fs gd r g img"
  using ext4_run [OF assms(1), unfolded if_P [OF assms(2)]] by (elim exE conjE) (rule that)

subsection \<open>Formatting\<close>

text \<open>The file after formatting: as long as before, the image in the window.\<close>

definition holds_image :: "gofile \<Rightarrow> gofile \<Rightarrow> sectionRWS \<Rightarrow> bytes \<Rightarrow> bool" where
  "holds_image f f' s img \<longleftrightarrow> \<not> closed f' \<and> length (contents f') = length (contents f) \<and>
     (\<forall>off k. off + k \<le> length img \<longrightarrow> part_bytes f' s off k = sub img off k)"

lemma ext4_write_ok:
  assumes "rws_ok f s" "\<not> closed f" "run_img [] (all_cmds fs) = Some img" "int (length img) \<le> s_size s" "s_size s < 2 ^ 63"
  shows "\<exists>f' s'. ext4_write fs (f, s\<lparr>s_pos := 0\<rparr>) = (Inr (), f', s') \<and> holds_image f f' s img"
proof -
  have l: "length img < 2 ^ 64" using assms(4,5) by simp
  have st: "((f, s\<lparr>s_pos := 0\<rparr>), 0) = written f s []" by (simp add: written_def write_bytes_def)
  have "nat (s_base s) + length img \<le> length (contents f)" using assms(1,4) by (auto simp: rws_ok_def file_size_def)
  then show ?thesis unfolding ext4_write_cmds st exec_ok [OF assms(1-4) l] using assms(2)
    by (simp add: written_def part_bytes_def write_bytes_read holds_image_def length_write_bytes)
qed

lemma ext4_write_fails:
  assumes "rws_ok f s" "\<not> closed f" "0 \<le> s_size s" "all_cmds fs = cs @ [PadTo t]" "run_img [] cs = Some b" "unat t < length b" "length b < 2 ^ 62"
  shows "\<exists>e t. ext4_write fs (f, s\<lparr>s_pos := 0\<rparr>) = (Inl e, t)"
proof -
  have st: "((f, s\<lparr>s_pos := 0\<rparr>), 0) = written f s []" by (simp add: written_def write_bytes_def)
  have "\<exists>e u. seqS (map cmd_op (all_cmds fs)) (written f s []) = (Inl e, u)"
  proof (cases "int (length b) \<le> s_size s")
    case True
    have "length b < 2 ^ 64" using assms(7) by simp
    then show ?thesis using exec_ok [OF assms(1,2,5) True] pad_written(1) [of b t f s] assms(6)
      by (auto simp: assms(4) seqS_append bindS_def)
  next
    case False
    then obtain e u where "seqS (map cmd_op cs) (written f s []) = (Inl e, u)"
      using exec_fails [OF assms(1,2) _ assms(5), of] assms(3,7) by auto
    then show ?thesis by (auto simp: assms(4) seqS_append bindS_def)
  qed
  then show ?thesis unfolding ext4_write_cmds st by (auto split: prod.split)
qed

text \<open>
  The outcome of \<open>Format\<close> on a window of 16 MiB to 128 TiB: an image with every structure in its
  place when the last group has room for its own, and an error otherwise.
\<close>

lemma ext4_Format_outcome:
  assumes "2 ^ 24 \<le> s_size s" "s_size s < 2 ^ 47" "rws_ok f s" "\<not> closed f" "T = nat (s_size s) div 4096"
    and "u = (if eo_UUID opts = zeros 16 then uuid else eo_UUID opts)"
  obtains fs gd r ipg j where "ext4_ok fs T gd r ipg j" "ext4_computeLayout now (s_size s) ((ext4_defaults opts)\<lparr>eo_UUID := u\<rparr>) = Inr fs"
    "el_csumSeed fs = crc32cUpdate 0xFFFFFFFF u"
    "data_start gd r ipg j (num_groups T - 1) \<le> T \<longrightarrow>
       (\<exists>f' s' img. ext4_Format now (Inr uuid) (s_size s) opts (f, s) = (Inr (), f', s') \<and> length img = T * 4096 \<and>
         holds_image f f' s img \<and> group0_placed fs gd r ipg j img \<and> (\<forall>g. 0 < g \<and> g < num_groups T \<longrightarrow> group_placed fs gd r g img))"
    "T < data_start gd r ipg j (num_groups T - 1) \<longrightarrow> (\<exists>e t. ext4_Format now (Inr uuid) (s_size s) opts (f, s) = (Inl e, t))"
proof -
  define o1 where "o1 = (ext4_defaults opts)\<lparr>eo_UUID := u\<rparr>"
  have o: "eo_InodeRatio o1 \<noteq> 0" "eo_UUID (ext4_defaults opts) = eo_UUID opts" by (simp_all add: o1_def ext4_defaults_def Let_def)
  obtain fs gd r ipg j where L: "ext4_computeLayout now (s_size s) o1 = Inr fs" "ext4_ok fs T gd r ipg j"
    and L3: "el_opts fs = o1\<lparr>eo_reservedGDT := of_nat r\<rparr>" "el_csumSeed fs = crc32cUpdate 0xFFFFFFFF (eo_UUID o1)"
    by (rule ext4_computeLayout_ok [OF assms(1,2) o(1) assms(5), where now = now])
  have rd: "bindS (readS (\<lambda>_. Inr a)) k = k a" for a :: 'x and k :: "'x \<Rightarrow> (gofile \<times> sectionRWS, unit) sop"
    by (simp add: bindS_def readS_def fun_eq_iff)
  have big: "\<not> s_size s < 16 * 1024 * 1024" using assms(1) by simp
  have uu: "(if eo_UUID opts = zeros 16 then wrapR ''ext4: uuid'' (Inr uuid) else Inr (eo_UUID opts)) = Inr u" by (simp add: assms(6))
  have F: "ext4_Format now (Inr uuid) (s_size s) opts (f, s) = ext4_write fs (f, s\<lparr>s_pos := 0\<rparr>)"
    unfolding ext4_Format_def Let_def o(2) uu rd using big L(1) by (simp add: o1_def rd w_Seek_bind)
  have sz: "s_size s < 2 ^ 63" "0 \<le> s_size s" using assms(1,2) by simp_all
  have T: "int (T * 4096) \<le> s_size s"
  proof -
    have "T * 4096 \<le> nat (s_size s)" unfolding assms(5) by (rule div_times_less_eq_dividend)
    then show ?thesis using sz(2) by linarith
  qed
  show thesis
  proof (rule that [OF L(2) L(1) [unfolded o1_def]]; (rule impI)?)
    show "el_csumSeed fs = crc32cUpdate 0xFFFFFFFF u" using L3(2) by (simp add: o1_def)
    assume fits: "data_start gd r ipg j (num_groups T - 1) \<le> T"
    obtain img where I: "run_img [] (all_cmds fs) = Some img" "length img = T * 4096" "group0_placed fs gd r ipg j img"
      "\<forall>g. 0 < g \<and> g < num_groups T \<longrightarrow> group_placed fs gd r g img" by (rule ext4_run_fits [OF L(2) fits])
    have "int (length img) \<le> s_size s" using I(2) T by simp
    from ext4_write_ok [OF assms(3,4) I(1) this sz(1)] I(2-)
    show "\<exists>f' s' img. ext4_Format now (Inr uuid) (s_size s) opts (f, s) = (Inr (), f', s') \<and> length img = T * 4096 \<and>
         holds_image f f' s img \<and> group0_placed fs gd r ipg j img \<and> (\<forall>g. 0 < g \<and> g < num_groups T \<longrightarrow> group_placed fs gd r g img)"
      unfolding F by (elim exE conjE) (intro exI conjI; assumption)
  next
    assume "T < data_start gd r ipg j (num_groups T - 1)"
    then obtain cs t b where "all_cmds fs = cs @ [PadTo t]" "run_img [] cs = Some b" "unat t < length b" "length b < 2 ^ 62"
      using ext4_run [OF L(2)] by (simp only: not_le [symmetric] if_False) blast
    then show "\<exists>e t. ext4_Format now (Inr uuid) (s_size s) opts (f, s) = (Inl e, t)"
      unfolding F using ext4_write_fails [OF assms(3,4) sz(2)] by blast
  qed
qed

end
