(* ===== verification/MkfsExt4Decode.thy ===== *)
theory MkfsExt4Decode
  imports MkfsExt4Image
begin

text \<open>
  Reading the structures of the ext4 image back: a descriptor gives the blocks, counts and
  checksums it was made from, the superblock its counts, an inode its extent, and a directory
  block its entries.  The \<open>gde_\<close>, \<open>sb_\<close> and \<open>ino_\<close> readers follow the on-disk format of ext4,
  with its split of wide fields into a low and a high part.
\<close>

unbundle bit_operations_syntax

subsection \<open>Fields of a filled buffer\<close>

lemma length_codecs: "length (le16 v) = 2" "length (le32 w) = 4" "length (be32 w) = 4"
  by (simp_all add: le16_def le32_def be32_def)

lemma puts_get16:
  assumes "ps = xs @ (off, le16 v) # ys" "\<forall>(o', d') \<in> set ys. off + 2 \<le> o' \<or> o' + length d' \<le> off" "off + 2 \<le> length b"
  shows "get16 (puts ps b) off = v"
  using puts_read [OF assms(1)] assms(2,3) c16.get_local [of off "puts ps b"] get16_le16 by (simp add: length_codecs)

lemma puts_get32:
  assumes "ps = xs @ (off, le32 v) # ys" "\<forall>(o', d') \<in> set ys. off + 4 \<le> o' \<or> o' + length d' \<le> off" "off + 4 \<le> length b"
  shows "get32 (puts ps b) off = v"
  using puts_read [OF assms(1)] assms(2,3) c32.get_local [of off "puts ps b"] get32_le32 by (simp add: length_codecs)

text \<open>A wide value from its two halves.\<close>

lemma join32: "unat (ucast x :: u32) + 2 ^ 32 * unat (ucast (drop_bit 32 x) :: u32) = unat (x :: u64)"
proof -
  have "unat x div 2 ^ 32 < 2 ^ 32" using unsigned_less [where 'a = nat, of x] by (simp add: div_less_iff_less_mult)
  then show ?thesis
    by (simp add: unsigned_ucast_eq take_bit_eq_mod drop_bit_eq_div unat_div)
qed

lemma join16: "unat (ucast x :: u16) + 2 ^ 16 * unat (ucast (drop_bit 16 x) :: u16) = unat (x :: u32)"
proof -
  have "unat x div 2 ^ 16 < 2 ^ 16" using unsigned_less [where 'a = nat, of x] by (simp add: div_less_iff_less_mult)
  then show ?thesis
    by (simp add: unsigned_ucast_eq take_bit_eq_mod drop_bit_eq_div unat_div)
qed

subsection \<open>Group descriptors\<close>

definition wide32 :: "bytes \<Rightarrow> nat \<Rightarrow> nat \<Rightarrow> nat" where
  "wide32 d lo hi = unat (get32 d lo) + 2 ^ 32 * unat (get32 d hi)"

definition wide16 :: "bytes \<Rightarrow> nat \<Rightarrow> nat \<Rightarrow> nat" where
  "wide16 d lo hi = unat (get16 d lo) + 2 ^ 16 * unat (get16 d hi)"

definition gde_block_bitmap :: "bytes \<Rightarrow> nat" where "gde_block_bitmap d = wide32 d 0 32"
definition gde_inode_bitmap :: "bytes \<Rightarrow> nat" where "gde_inode_bitmap d = wide32 d 4 36"
definition gde_inode_table :: "bytes \<Rightarrow> nat" where "gde_inode_table d = wide32 d 8 40"
definition gde_free_blocks :: "bytes \<Rightarrow> nat" where "gde_free_blocks d = wide16 d 12 44"
definition gde_free_inodes :: "bytes \<Rightarrow> nat" where "gde_free_inodes d = wide16 d 14 46"
definition gde_block_csum :: "bytes \<Rightarrow> nat" where "gde_block_csum d = wide16 d 24 56"
definition gde_inode_csum :: "bytes \<Rightarrow> nat" where "gde_inode_csum d = wide16 d 26 58"

text \<open>The descriptor's own checksum, over the descriptor with the field cleared.\<close>

definition gde_csum_ok :: "u32 \<Rightarrow> nat \<Rightarrow> bytes \<Rightarrow> bool" where
  "gde_csum_ok seed g d \<longleftrightarrow>
     get16 d 30 = ucast (crc32cUpdate (crc32cUpdate seed (le32 (of_nat g))) (copy_into d 30 [0, 0]))"

lemma gde_decode:
  assumes "d = encodeGDE fs g" "gl = el_group fs g"
  shows "gde_block_bitmap d = unat (gl_blockBitmap gl)" "gde_inode_bitmap d = unat (gl_inodeBitmap gl)"
    "gde_inode_table d = unat (gl_inodeTable gl)" "gde_free_blocks d = unat (gl_freeBlocks gl)" "gde_free_inodes d = unat (gl_freeInodes gl)"
    "gde_block_csum d = unat (bitmapCsum fs g True)" "gde_inode_csum d = unat (bitmapCsum fs g False)"
proof -
  define b where "b = puts (gde_fields fs g) (zeros 64)"
  have lb: "length b = 64" by (simp add: b_def)
  have d: "d = copy_into b 30 (le16 (ucast (crc32cUpdate (crc32cUpdate (el_csumSeed fs) (le32 g)) b)))"
    by (simp add: assms(1) encodeGDE_def Let_def b_def gdtEntrySize_def)
  have g16: "get16 d off = get16 b off" if "off + 2 \<le> 30 \<or> 32 \<le> off" "off + 2 \<le> 64" for off
    unfolding d using that lb by (intro c16.get_copy_other) (auto simp: length_codecs)
  have g32: "get32 d off = get32 b off" if "off + 4 \<le> 30 \<or> 32 \<le> off" "off + 4 \<le> 64" for off
    unfolding d using that lb by (intro c32.get_copy_other) (auto simp: length_codecs)
  note f = b_def gde_fields_def Let_def put16_def [symmetric] put32_def [symmetric] assms(2) [symmetric]
  have v: "get32 b 0 = ucast (gl_blockBitmap gl)" "get32 b 32 = ucast (drop_bit 32 (gl_blockBitmap gl))"
    "get32 b 4 = ucast (gl_inodeBitmap gl)" "get32 b 36 = ucast (drop_bit 32 (gl_inodeBitmap gl))"
    "get32 b 8 = ucast (gl_inodeTable gl)" "get32 b 40 = ucast (drop_bit 32 (gl_inodeTable gl))"
    "get16 b 12 = ucast (gl_freeBlocks gl)" "get16 b 44 = ucast (drop_bit 16 (gl_freeBlocks gl))"
    "get16 b 14 = ucast (gl_freeInodes gl)" "get16 b 46 = ucast (drop_bit 16 (gl_freeInodes gl))"
    "get16 b 24 = ucast (bitmapCsum fs g True)" "get16 b 56 = ucast (drop_bit 16 (bitmapCsum fs g True))"
    "get16 b 26 = ucast (bitmapCsum fs g False)" "get16 b 58 = ucast (drop_bit 16 (bitmapCsum fs g False))"
    by (simp_all add: f codec_simps)
  show "gde_block_bitmap d = unat (gl_blockBitmap gl)" "gde_inode_bitmap d = unat (gl_inodeBitmap gl)"
    "gde_inode_table d = unat (gl_inodeTable gl)" "gde_free_blocks d = unat (gl_freeBlocks gl)" "gde_free_inodes d = unat (gl_freeInodes gl)"
    "gde_block_csum d = unat (bitmapCsum fs g True)" "gde_inode_csum d = unat (bitmapCsum fs g False)"
    unfolding gde_block_bitmap_def gde_inode_bitmap_def gde_inode_table_def gde_free_blocks_def gde_free_inodes_def gde_block_csum_def gde_inode_csum_def
      wide32_def wide16_def by (simp_all only: g16 g32 v join32 join16 numeral_le_iff semiring_norm simp_thms arith_simps arith_extra_simps)
qed

lemma gde_checksum: "gde_csum_ok (el_csumSeed fs) (unat g) (encodeGDE fs g)"
proof -
  define b where "b = puts (gde_fields fs g) (zeros 64)"
  define c where "c = le16 (ucast (crc32cUpdate (crc32cUpdate (el_csumSeed fs) (le32 g)) b))"
  have d: "encodeGDE fs g = copy_into b 30 c"
    by (simp add: encodeGDE_def Let_def b_def c_def gdtEntrySize_def)
  have "sub b 30 2 = le16 0" unfolding b_def gde_fields_def Let_def by (simp add: length_codecs)
  then have "copy_into b 30 [0, 0] = b" using copy_into_sub_eq [of b 30 2] by (simp add: le16_def)
  then have "copy_into (copy_into b 30 c) 30 [0, 0] = b" by (simp add: c_def length_codecs)
  moreover have "get16 (copy_into b 30 c) 30 = ucast (crc32cUpdate (crc32cUpdate (el_csumSeed fs) (le32 g)) b)"
    unfolding c_def by (rule c16.get_put_same) (simp add: b_def)
  ultimately show ?thesis by (simp add: gde_csum_ok_def d)
qed

lemma buildGDT_entry:
  assumes "ext4_ok fs T gd r ipg j" "g < num_groups T"
  shows "sub (buildGDT fs) (64 * g) 64 = encodeGDE fs (of_nat g)"
proof -
  note K = ext4_okD [OF assms(1)] and W = ext4_ok_fields [OF assms(1)]
  define es where "es = concat (map (\<lambda>g. encodeGDE fs (of_nat g)) [0..<num_groups T])"
  have l: "length es = 64 * num_groups T" unfolding es_def by (subst length_concat_map [where k = 64]) simp_all
  have "64 * g + 64 \<le> 64 * num_groups T" using assms(2) by simp
  moreover have "length es \<le> gd * 4096" using l K(13) by (simp add: mult.commute)
  ultimately have "sub (copy_into (zeros (gd * 4096)) 0 es) (64 * g) 64 = sub es (64 * g) 64"
    using l by (subst sub_copy_inner) simp_all
  also have "\<dots> = encodeGDE fs (of_nat g)" unfolding es_def using sub_concat_map [of "[0..<num_groups T]" "\<lambda>g. encodeGDE fs (of_nat g)" 64 g] assms(2) by simp
  finally show ?thesis unfolding buildGDT_def W(10) K(10) es_def blockSize_def .
qed

subsection \<open>The superblock\<close>

lemma superblock_decode:
  assumes "sb = buildSuperblock fs g"
  shows "get16 sb 56 = 0xEF53" "wide32 sb 4 336 = unat (el_totalBlocks fs)" "wide32 sb 12 344 = unat (sb_freeBlocks fs)"
    "get32 sb 16 = sb_freeInodes fs" "get32 sb 32 = 32768" "get32 sb 40 = el_inodesPerGrp fs" "get16 sb 254 = 64" "get32 sb 624 = el_csumSeed fs"
    "get32 sb 1020 = crc32cUpdate (el_csumSeed fs) (take 1020 sb)"
proof -
  define b where "b = puts (sb_fields fs g) (zeros 1024)"
  have lb: "length b = 1024" by (simp add: b_def)
  have d: "sb = copy_into b 1020 (le32 (crc32cUpdate (el_csumSeed fs) (take 1020 b)))" by (simp add: assms buildSuperblock_def Let_def b_def)
  have t: "take 1020 sb = take 1020 b" unfolding d using lb by (simp add: copy_into_def)
  have g16: "get16 sb off = get16 b off" if "off + 2 \<le> 1020" for off
    unfolding d using that lb by (intro c16.get_copy_other) (auto simp: length_codecs)
  have g32: "get32 sb off = get32 b off" if "off + 4 \<le> 1020" for off
    unfolding d using that lb by (intro c32.get_copy_other) (auto simp: length_codecs)
  have lx: "length (take 16 (eo_UUID (el_opts fs))) \<le> 16" "length (padLabel 16 (eo_Label (el_opts fs))) = 16"
    "length (buildExtentLeaf 0 (el_journalSize fs) (el_journalBlock fs)) = 60" by (simp_all add: padLabel_def buildExtentLeaf_def)
  note f = b_def sb_fields_def writeJournalInodeBackup_def Let_def
  have v16: "get16 b 56 = 0xEF53" "get16 b 254 = 64"
    unfolding f using lx by (simp_all add: put16_def [symmetric] put32_def [symmetric] codec_simps gdtEntrySize_def)
  have v32: "get32 b 4 = ucast (el_totalBlocks fs)" "get32 b 336 = ucast (drop_bit 32 (el_totalBlocks fs))"
    "get32 b 12 = ucast (sb_freeBlocks fs)" "get32 b 344 = ucast (drop_bit 32 (sb_freeBlocks fs))" "get32 b 16 = sb_freeInodes fs"
    "get32 b 32 = 32768" "get32 b 40 = el_inodesPerGrp fs" "get32 b 624 = el_csumSeed fs"
    unfolding f using lx by (simp_all add: put16_def [symmetric] put32_def [symmetric] codec_simps blocksPerGroup_def)
  show "get16 sb 56 = 0xEF53" "get16 sb 254 = 64" using g16 v16 by simp_all
  show "wide32 sb 4 336 = unat (el_totalBlocks fs)" "wide32 sb 12 344 = unat (sb_freeBlocks fs)" "get32 sb 16 = sb_freeInodes fs"
    "get32 sb 32 = 32768" "get32 sb 40 = el_inodesPerGrp fs" "get32 sb 624 = el_csumSeed fs"
    using join32 [of "el_totalBlocks fs"] join32 [of "sb_freeBlocks fs"] by (simp_all add: wide32_def g32 v32)
  show "get32 sb 1020 = crc32cUpdate (el_csumSeed fs) (take 1020 sb)" unfolding t by (simp add: d c32.get_put_same lb)
qed

subsection \<open>Inodes and extents\<close>

definition ino_extent_start :: "bytes \<Rightarrow> nat" where
  "ino_extent_start i = unat (get32 i 60) + 2 ^ 32 * unat (get16 i 58)"

lemma put_inode_other:
  assumes "a \<noteq> unat idx" "(a + 1) * 256 \<le> length buf"
  shows "sub (put_inode fs g idx m sz fl bd buf) (a * 256) 256 = sub buf (a * 256) 256"
proof -
  have "a * 256 + 256 \<le> unat idx * 256 \<or> unat idx * 256 + 256 \<le> a * 256" using assms(1) by linarith
  then show ?thesis unfolding put_inode_def Let_def using assms(2) by (intro sub_copy_other) (auto simp: inodeSize_def)
qed

lemma fold_inode_other:
  assumes "\<forall>i \<in> set is. a \<noteq> unat i" "(a + 1) * 256 \<le> length buf"
  shows "sub (fold (\<lambda>i. put_inode fs g i m sz fl bd) is buf) (a * 256) 256 = sub buf (a * 256) 256"
  using assms by (induction "is" arbitrary: buf) (simp_all add: put_inode_other)

lemma put_inode_reads:
  assumes "(unat idx + 1) * 256 \<le> length buf" "length bd = 60" "i = sub (put_inode fs g idx m sz fl bd buf) (unat idx * 256) 256"
  shows "get16 i 0 = m" "sub i 40 60 = bd"
proof -
  define j where "j = puts (inode_fields (of_int (el_now fs)) m sz fl bd) (sub buf (unat idx * 256) 256)"
  define h where "h = inode_csum (el_csumSeed fs) (g * el_inodesPerGrp fs + idx + 1) j"
  have lj: "length j = 256" using assms(1) by (simp add: j_def del: puts_simps)
  have i: "i = puts [(116, le16 (ucast h)), (130, le16 (ucast (drop_bit 16 h)))] j"
    unfolding assms(3) put_inode_def Let_def inodeSize_def j_def [symmetric] h_def [symmetric]
    using assms(1) lj by (intro sub_copy_same) (simp_all del: puts_simps)
  have lb: "length (sub buf (unat idx * 256) 256) = 256" using assms(1) by simp
  have "sub i 40 60 = sub j 40 60" unfolding i using lj by (intro puts_other) (simp_all add: length_codecs)
  also have "\<dots> = bd"
    unfolding j_def inode_fields_def using lb assms(2) by (simp add: sub_copy_other length_codecs)
  finally show "sub i 40 60 = bd" .
  have "sub i 0 2 = sub j 0 2" unfolding i using lj by (intro puts_other) (simp_all add: length_codecs)
  also have "\<dots> = le16 m" unfolding j_def inode_fields_def using lb assms(2) by (simp add: sub_copy_other length_codecs)
  finally show "get16 i 0 = m" using c16.get_local [of 0 i] lj get16_le16 by (simp add: i del: puts_simps)
qed

lemma extent_leaf_reads:
  assumes "bd = buildExtentLeaf 0 n p" "sub i 40 60 = bd" "100 \<le> length i" "unat p < 2 ^ 48"
  shows "length bd = 60" "get16 i 40 = 0xF30A" "get16 i 42 = 1" "get16 i 56 = ucast n" "ino_extent_start i = unat p"
proof -
  show lb: "length bd = 60" by (simp add: assms(1) buildExtentLeaf_def)
  have g: "get16 i (40 + off) = get16 bd off" if "off + 2 \<le> 60" for off using c16.get_sub [of off 60 40 i] that assms(2,3) by simp
  have g': "get32 i (40 + off) = get32 bd off" if "off + 4 \<le> 60" for off using c32.get_sub [of off 60 40 i] that assms(2,3) by simp
  note f = assms(1) buildExtentLeaf_def put16_def [symmetric] put32_def [symmetric]
  show "get16 i 40 = 0xF30A" "get16 i 42 = 1" "get16 i 56 = ucast n" using g [of 0] g [of 2] g [of 16] by (simp_all add: f codec_simps)
  have s: "get16 i 58 = ucast (drop_bit 32 p)" "get32 i 60 = ucast p" using g [of 18] g' [of 20] by (simp_all add: f codec_simps)
  have "unat p div 2 ^ 32 < 2 ^ 16" using assms(4) by (simp add: div_less_iff_less_mult)
  then have "unat (ucast (drop_bit 32 p) :: u16) = unat (ucast (drop_bit 32 p) :: u32)"
    by (simp add: unsigned_ucast_eq take_bit_eq_mod drop_bit_eq_div unat_div)
  then show "ino_extent_start i = unat p" unfolding ino_extent_start_def s using join32 [of p] by simp
qed

lemma root_inode:
  assumes ok: "ext4_ok fs T gd r ipg j" and i: "i = sub (buildInodeTable fs 0) 256 256"
  shows "get16 i 0 = modeDIR" "get16 i 40 = 0xF30A" "get16 i 42 = 1" "get16 i 56 = 1" "ino_extent_start i = unat (el_rootDirBlock fs)"
proof -
  note K = ext4_okD [OF ok] and W = ext4_ok_fields [OF ok]
  define bd where "bd = buildExtentLeaf 0 1 (el_rootDirBlock fs)"
  define buf1 where "buf1 = put_inode fs 0 0 modeREG 0 EXT4_EXTENTS_FL buildEmptyExtentTree (zeros (ipg * 256))"
  have lb: "length buf1 = ipg * 256" "16 * 256 \<le> ipg * 256" using K(5) by (simp_all add: buf1_def)
  have "sub (buildInodeTable fs 0) (1 * 256) 256 = sub (put_inode fs 0 1 modeDIR (of_nat blockSize) EXT4_EXTENTS_FL bd buf1) (1 * 256) 256"
    unfolding buildInodeTable_def Let_def inodeSize_def W(9) if_not_P [OF not_not [THEN iffD2, OF refl]] buf1_def [symmetric] bd_def [symmetric]
    using lb by (simp add: put_inode_other [of 1, simplified] fold_inode_other [of _ 1, simplified] sub_copy_other length_codecs)
  then have i': "i = sub (put_inode fs 0 1 modeDIR (of_nat blockSize) EXT4_EXTENTS_FL bd buf1) (unat (1 :: u32) * 256) 256" by (simp add: i)
  have l60: "length bd = 60" by (simp add: bd_def buildExtentLeaf_def)
  note R = put_inode_reads [OF _ l60 i']
  have r: "get16 i 0 = modeDIR" "sub i 40 60 = bd" using R lb by simp_all
  have "unat (el_rootDirBlock fs) < 2 ^ 48" unfolding W(7) using W(14) by (subst unat_of_nat64) simp_all
  moreover have "100 \<le> length i" using lb by (simp add: i')
  ultimately show "get16 i 0 = modeDIR" "get16 i 40 = 0xF30A" "get16 i 42 = 1" "get16 i 56 = 1" "ino_extent_start i = unat (el_rootDirBlock fs)"
    using r extent_leaf_reads [OF bd_def r(2)] by simp_all
qed

subsection \<open>Directory blocks\<close>

text \<open>
  The entries of a directory block from \<open>off\<close> on, with inode number, type and name: each record
  length leads to the next entry, the last one to the end of the block.  A block of 4096 bytes has
  at most 4096 entries, so the bound \<open>k\<close> is the block's length where the readers use it.
\<close>

fun dirents :: "nat \<Rightarrow> bytes \<Rightarrow> nat \<Rightarrow> (u32 \<times> u8 \<times> gostr) list option" where
  "dirents 0 b off = None"
| "dirents (Suc k) b off =
     (if off = length b then Some []
      else if length b < off + 8 then None
      else map_option (Cons (get32 b off, b ! (off + 7), sub b (off + 8) (unat (b ! (off + 6))))) (dirents k b (off + unat (get16 b (off + 4)))))"

lemma at_pos_sub:
  "pos \<le> length b \<Longrightarrow> sub (at_pos pos f b) (pos + i) n = sub (f (drop pos b)) i n"
  "pos \<le> length b \<Longrightarrow> i + n \<le> pos \<Longrightarrow> sub (at_pos pos f b) i n = sub b i n"
  by (simp_all add: at_pos_def sub_def drop_take)

definition dirent_bytes :: "u32 \<Rightarrow> gostr \<Rightarrow> u8 \<Rightarrow> nat \<Rightarrow> bytes" where
  "dirent_bytes ino name ftype recLen = le32 ino @ le16 (of_nat recLen) @ [of_nat (length name), ftype] @ name"

lemma sub_split: "sub b off (m + n) = sub b off m @ sub b (off + m) n"
  by (simp add: sub_append_adjacent)

lemma writeDirentFull_bytes:
  assumes "8 + length nm \<le> length b"
  shows "sub (writeDirentFull ino nm ft rl b) 0 (8 + length nm) = dirent_bytes ino nm ft rl"
proof -
  let ?w = "writeDirentFull ino nm ft rl b"
  have p: "sub ?w 0 4 = le32 ino" "sub ?w 4 2 = le16 (of_nat rl)" "sub ?w 6 1 = [of_nat (length nm)]" "sub ?w 7 1 = [ft]" "sub ?w 8 (length nm) = nm"
    unfolding writeDirentFull_def using assms by (simp_all add: sub_copy_other length_codecs)
  have "sub ?w 0 (4 + (2 + (1 + (1 + length nm)))) = le32 ino @ le16 (of_nat rl) @ [of_nat (length nm)] @ [ft] @ nm"
    unfolding sub_split using p by simp
  then show ?thesis by (simp add: dirent_bytes_def)
qed

lemma length_dirent_bytes [simp]: "length (dirent_bytes ino nm ft rl) = 8 + length nm"
  by (simp add: dirent_bytes_def length_codecs)

text \<open>One step of the reader over an entry that was written there.\<close>

lemma dirent_fields:
  assumes "sub b off (8 + length nm) = dirent_bytes ino nm ft rl" "off + 8 + length nm \<le> length b" "length nm < 256" "rl < 2 ^ 16"
  shows "get32 b off = ino" "unat (get16 b (off + 4)) = rl" "unat (b ! (off + 6)) = length nm" "b ! (off + 7) = ft" "sub b (off + 8) (length nm) = nm"
proof -
  let ?d = "dirent_bytes ino nm ft rl"
  have n: "b ! (off + i) = ?d ! i" if "i < 8 + length nm" for i using that assms(1,2) nth_sub [of i "8 + length nm" off b] by simp
  have s: "sub b (off + i) m = sub ?d i m" if "i + m \<le> 8 + length nm" for i m using sub_sub [of i m "8 + length nm" b off] that assms(1) by simp
  have d: "?d ! 6 = of_nat (length nm)" "?d ! 7 = ft" "sub ?d 8 (length nm) = nm" "sub ?d 0 4 = le32 ino" "sub ?d 4 2 = le16 (of_nat rl)"
    by (simp_all add: dirent_bytes_def le32_def le16_def sub_def)
  show "get32 b off = ino" using c32.get_local [of off b] s [of 0 4] d(4) get32_le32 assms(2) by simp
  show "unat (get16 b (off + 4)) = rl" using c16.get_local [of "off + 4" b] s [of 4 2] d(5) get16_le16 assms(2,4) by (simp add: unat_of_nat)
  show "unat (b ! (off + 6)) = length nm" "b ! (off + 7) = ft" using n [of 6] n [of 7] d(1,2) assms(3) by (simp_all add: unat_of_nat)
  show "sub b (off + 8) (length nm) = nm" using s [of 8 "length nm"] d(3) by simp
qed

lemma dirents_step:
  assumes "sub b off (8 + length nm) = dirent_bytes ino nm ft rl" "off + 8 + length nm \<le> length b" "length nm < 256" "rl < 2 ^ 16"
  shows "dirents (Suc k) b off = map_option (Cons (ino, ft, nm)) (dirents k b (off + rl))"
  using dirent_fields [OF assms] assms(2) by simp

text \<open>The three records of the root directory.\<close>

lemma root_records:
  "sub buildRootDir 0 (8 + length (bs ''.'')) = dirent_bytes 2 (bs ''.'') 2 12"
  "sub buildRootDir 12 (8 + length (bs ''..'')) = dirent_bytes 2 (bs ''..'') 2 12"
  "sub buildRootDir 24 (8 + length (bs ''lost+found'')) = dirent_bytes 11 (bs ''lost+found'') 2 4072"
  "length buildRootDir = 4096"
proof -
  define b1 where "b1 = at_pos 0 (writeDirentFull 2 (bs ''.'') 2 12) (zeros 4096)"
  define b2 where "b2 = at_pos 12 (writeDirentFull 2 (bs ''..'') 2 12) b1"
  define b3 where "b3 = at_pos 24 (writeDirentFull 11 (bs ''lost+found'') 2 4072) b2"
  have e: "buildRootDir = b3" unfolding buildRootDir_def Let_def writeDirent_eq b3_def b2_def b1_def
    by (simp add: dirent_len_def blockSize_def inoLostFound_def del: bs_simps)
  have l: "length b1 = 4096" "length b2 = 4096" "length b3 = 4096" by (simp_all add: b1_def b2_def b3_def)
  show "length buildRootDir = 4096" by (simp add: e l)
  show "sub buildRootDir 0 (8 + length (bs ''.'')) = dirent_bytes 2 (bs ''.'') 2 12"
  proof -
    have "sub b3 0 9 = sub b1 0 9" using at_pos_sub(2) [of 24 b2 0 9] at_pos_sub(2) [of 12 b1 0 9] l by (simp add: b3_def b2_def)
    also have "\<dots> = sub (writeDirentFull 2 (bs ''.'') 2 12 (zeros 4096)) 0 9" using at_pos_sub(1) [of 0 "zeros 4096" _ 0 9] by (simp add: b1_def del: bs_simps)
    finally show ?thesis unfolding e using writeDirentFull_bytes [of "bs ''.''" "zeros 4096" 2 2 12] by (simp del: bs_simps)
  qed
  show "sub buildRootDir 12 (8 + length (bs ''..'')) = dirent_bytes 2 (bs ''..'') 2 12"
  proof -
    have "sub b3 12 10 = sub b2 12 10" using at_pos_sub(2) [of 24 b2 12 10] l by (simp add: b3_def)
    also have "\<dots> = sub (writeDirentFull 2 (bs ''..'') 2 12 (drop 12 b1)) 0 10" using at_pos_sub(1) [of 12 b1 _ 0 10] l by (simp add: b2_def del: bs_simps)
    finally show ?thesis unfolding e using writeDirentFull_bytes [of "bs ''..''" "drop 12 b1" 2 2 12] l by (simp del: bs_simps)
  qed
  show "sub buildRootDir 24 (8 + length (bs ''lost+found'')) = dirent_bytes 11 (bs ''lost+found'') 2 4072"
  proof -
    have "sub b3 24 18 = sub (writeDirentFull 11 (bs ''lost+found'') 2 4072 (drop 24 b2)) 0 18" using at_pos_sub(1) [of 24 b2 _ 0 18] l by (simp add: b3_def del: bs_simps)
    then show ?thesis unfolding e using writeDirentFull_bytes [of "bs ''lost+found''" "drop 24 b2" 11 2 4072] l by (simp del: bs_simps)
  qed
qed

lemma root_entries:
  "dirents 4096 buildRootDir 0 = Some [(2, 2, bs ''.''), (2, 2, bs ''..''), (11, 2, bs ''lost+found'')]"
proof -
  note r = root_records
  have "dirents (Suc 4095) buildRootDir 0 = map_option (Cons (2, 2, bs ''.'')) (dirents 4095 buildRootDir 12)"
    using dirents_step [OF r(1), of 4095] r(4) by (simp del: bs_simps dirents.simps)
  moreover have "dirents (Suc 4094) buildRootDir 12 = map_option (Cons (2, 2, bs ''..'')) (dirents 4094 buildRootDir 24)"
    using dirents_step [OF r(2), of 4094] r(4) by (simp del: bs_simps dirents.simps)
  moreover have "dirents (Suc 4093) buildRootDir 24 = map_option (Cons (11, 2, bs ''lost+found'')) (dirents 4093 buildRootDir 4096)"
    using dirents_step [OF r(3), of 4093] r(4) by (simp del: bs_simps dirents.simps)
  moreover have "dirents (Suc k) buildRootDir 4096 = Some []" for k using r(4) by simp
  then have "dirents 4093 buildRootDir 4096 = Some []" using numeral_eq_Suc by metis
  ultimately show ?thesis by (simp del: bs_simps dirents.simps)
qed

end
