(* ===== verification/MkfsExt4Formatted.thy ===== *)
theory MkfsExt4Formatted
  imports MkfsExt4Decode
begin

text \<open>
  The result of formatting a partition of 16 MiB to 128 TiB as ext4, in one predicate: what the
  properties of the formatter and of the driver on formatted partitions start from.
\<close>

unbundle bit_operations_syntax

subsection \<open>Layouts that fit\<close>

definition ext4_uuid :: "ext4_options \<Rightarrow> bytes \<Rightarrow> bytes" where
  "ext4_uuid opts uuid = (if eo_UUID opts = zeros 16 then uuid else eo_UUID opts)"

text \<open>The layout that \<open>Format\<close> computes, with its defaults filled in.\<close>

definition ext4_layout :: "int \<Rightarrow> bytes \<Rightarrow> int \<Rightarrow> ext4_options \<Rightarrow> ext4_fsLayout res" where
  "ext4_layout now uuid sz opts = ext4_computeLayout now sz ((ext4_defaults opts)\<lparr>eo_UUID := ext4_uuid opts uuid\<rparr>)"

definition ext4_fits :: "ext4_fsLayout \<Rightarrow> bool" where
  "ext4_fits fs \<longleftrightarrow> gl_dataStart (last (el_groups fs)) \<le> el_totalBlocks fs"

lemma ext4_fits_nat:
  assumes "ext4_ok fs T gd r ipg j"
  shows "ext4_fits fs \<longleftrightarrow> data_start gd r ipg j (num_groups T - 1) \<le> T"
proof -
  note K = ext4_okD [OF assms]
  define n where "n = num_groups T - 1"
  have n: "n < num_groups T" "num_groups T = Suc n" using K(15) by (simp_all add: n_def)
  have "last (el_groups fs) = group_spec T gd r ipg j n" using assms n(2) by (simp add: ext4_ok_def)
  then have "ext4_fits fs \<longleftrightarrow> (of_nat (data_start gd r ipg j n) :: u64) \<le> of_nat T"
    by (simp only: ext4_fits_def group_spec_def groupLayout.simps ext4_ok_fields(1) [OF assms])
  also have "\<dots> \<longleftrightarrow> data_start gd r ipg j n \<le> T" using data_start_bound(3) [OF assms n(1)] K(2) by (intro of_nat_le64) simp_all
  finally show ?thesis by (simp add: n_def)
qed

lemma placed_read:
  assumes "\<forall>off k. off + k \<le> length img \<longrightarrow> part_bytes f s off k = sub img off k" "placed img p b" "length b = n"
  shows "part_bytes f s p n = b"
  using assms by (auto simp: placed_def)

text \<open>What a formatted window holds: every structure in its place.\<close>

definition ext4_formatted :: "gofile \<Rightarrow> sectionRWS \<Rightarrow> ext4_fsLayout \<Rightarrow> nat \<Rightarrow> nat \<Rightarrow> nat \<Rightarrow> nat \<Rightarrow> nat \<Rightarrow> bool" where
  "ext4_formatted f s fs T gd r ipg j \<longleftrightarrow> ext4_ok fs T gd r ipg j \<and> T = nat (s_size s) div 4096 \<and>
     part_bytes f s 1024 1024 = buildSuperblock fs 0 \<and>
     (\<forall>g < num_groups T. part_bytes f s (4096 + 64 * g) 64 = encodeGDE fs (of_nat g)) \<and>
     (\<forall>g < num_groups T. part_bytes f s (bitmap_block gd r g * 4096) 4096 = buildBlockBitmap fs (of_nat g)) \<and>
     (\<forall>g < num_groups T. part_bytes f s ((bitmap_block gd r g + 1) * 4096) 4096 = buildInodeBitmap fs (of_nat g)) \<and>
     part_bytes f s ((bitmap_block gd r 0 + 2) * 4096 + 256) 256 = sub (buildInodeTable fs 0) 256 256 \<and>
     part_bytes f s ((data_start gd r ipg j 0 - 2) * 4096) 4096 = buildRootDir \<and>
     data_start gd r ipg j (num_groups T - 1) \<le> T \<and> \<not> closed f \<and> 0 \<le> s_base s \<and> s_base s + s_size s \<le> file_size f \<and> s_size s < 2 ^ 47"

lemma ext4_formattedD:
  assumes "ext4_formatted f s fs T gd r ipg j"
  shows "ext4_ok fs T gd r ipg j" "T = nat (s_size s) div 4096" "part_bytes f s 1024 1024 = buildSuperblock fs 0"
    "g < num_groups T \<Longrightarrow> part_bytes f s (4096 + 64 * g) 64 = encodeGDE fs (of_nat g)"
    "g < num_groups T \<Longrightarrow> part_bytes f s (bitmap_block gd r g * 4096) 4096 = buildBlockBitmap fs (of_nat g)"
    "g < num_groups T \<Longrightarrow> part_bytes f s ((bitmap_block gd r g + 1) * 4096) 4096 = buildInodeBitmap fs (of_nat g)"
    "part_bytes f s ((bitmap_block gd r 0 + 2) * 4096 + 256) 256 = sub (buildInodeTable fs 0) 256 256"
    "part_bytes f s ((data_start gd r ipg j 0 - 2) * 4096) 4096 = buildRootDir"
    "data_start gd r ipg j (num_groups T - 1) \<le> T" "\<not> closed f" "0 \<le> s_base s" "s_base s + s_size s \<le> file_size f" "s_size s < 2 ^ 47"
  using assms unfolding ext4_formatted_def by blast+

lemma ext4_Format_image_len:
  assumes "2 ^ 24 \<le> s_size s" "s_size s < 2 ^ 47" "rws_ok f s" "\<not> closed f" "ext4_layout now uuid (s_size s) opts = Inr fs" "ext4_fits fs"
  obtains f' s' T gd r ipg j where "ext4_Format now (Inr uuid) (s_size s) opts (f, s) = (Inr (), f', s')" "ext4_formatted f' s fs T gd r ipg j" "file_size f' = file_size f"
proof -
  define T where "T = nat (s_size s) div 4096"
  obtain fs' gd r ipg j where ok': "ext4_ok fs' T gd r ipg j"
    and L: "ext4_computeLayout now (s_size s) ((ext4_defaults opts)\<lparr>eo_UUID := ext4_uuid opts uuid\<rparr>) = Inr fs'"
    and "el_csumSeed fs' = crc32cUpdate 0xFFFFFFFF (ext4_uuid opts uuid)"
    and F: "data_start gd r ipg j (num_groups T - 1) \<le> T \<longrightarrow>
       (\<exists>f' s' img. ext4_Format now (Inr uuid) (s_size s) opts (f, s) = (Inr (), f', s') \<and> length img = T * 4096 \<and>
         holds_image f f' s img \<and> group0_placed fs' gd r ipg j img \<and> (\<forall>g. 0 < g \<and> g < num_groups T \<longrightarrow> group_placed fs' gd r g img))"
    and "T < data_start gd r ipg j (num_groups T - 1) \<longrightarrow> (\<exists>e t. ext4_Format now (Inr uuid) (s_size s) opts (f, s) = (Inl e, t))"
    by (rule ext4_Format_outcome [OF assms(1-4) T_def ext4_uuid_def [of opts uuid], where now = now])
  have "fs' = fs" using L assms(5) by (simp add: ext4_layout_def)
  with ok' have ok: "ext4_ok fs T gd r ipg j" by simp
  have fit: "data_start gd r ipg j (num_groups T - 1) \<le> T" using ext4_fits_nat [OF ok] assms(6) by blast
  then obtain f' s' img where F': "ext4_Format now (Inr uuid) (s_size s) opts (f, s) = (Inr (), f', s')"
    and H: "holds_image f f' s img" and P0: "group0_placed fs gd r ipg j img" and P: "\<forall>g. 0 < g \<and> g < num_groups T \<longrightarrow> group_placed fs gd r g img"
    using F \<open>fs' = fs\<close> by blast
  have R: "\<forall>off k. off + k \<le> length img \<longrightarrow> part_bytes f' s off k = sub img off k" using H by (simp add: holds_image_def)
  note p0 = P0 [unfolded group0_placed_def]
  note K = ext4_okD [OF ok]
  have sub_read: "part_bytes f' s (p + o') n = sub b o' n" if "placed img p b" "o' + n \<le> length b" for p b o' n
  proof -
    have "p + length b \<le> length img" "sub img p (length b) = b" using that(1) by (simp_all add: placed_def)
    then show ?thesis using R that(2) sub_sub [of o' n "length b" img p] by simp
  qed
  have "ext4_formatted f' s fs T gd r ipg j"
    unfolding ext4_formatted_def
  proof (intro conjI allI impI)
    show "part_bytes f' s 1024 1024 = buildSuperblock fs 0" using p0 by (intro placed_read [OF R]) simp_all
    show "part_bytes f' s (4096 + 64 * g) 64 = encodeGDE fs (of_nat g)" if "g < num_groups T" for g
    proof -
      have "64 * g + 64 \<le> num_groups T * 64" using that by simp
      then have "64 * g + 64 \<le> length (buildGDT fs)" using K(13) length_buildGDT [OF ok] by linarith
      then show ?thesis using sub_read [of 4096 "buildGDT fs" "64 * g" 64] p0 buildGDT_entry [OF ok that] by simp
    qed
    show "part_bytes f' s (bitmap_block gd r g * 4096) 4096 = buildBlockBitmap fs (of_nat g)"
      "part_bytes f' s ((bitmap_block gd r g + 1) * 4096) 4096 = buildInodeBitmap fs (of_nat g)" if "g < num_groups T" for g
    proof -
      have "placed img (bitmap_block gd r g * 4096) (buildBlockBitmap fs (of_nat g))" "placed img ((bitmap_block gd r g + 1) * 4096) (buildInodeBitmap fs (of_nat g))"
        using p0 P that by (cases "g = 0"; simp add: group_placed_def)+
      then show "part_bytes f' s (bitmap_block gd r g * 4096) 4096 = buildBlockBitmap fs (of_nat g)"
        "part_bytes f' s ((bitmap_block gd r g + 1) * 4096) 4096 = buildInodeBitmap fs (of_nat g)"
        using block_bitmap_bits(2) [OF ok that, of 0] inode_bitmap_bits(2) [OF ok that, of 0] placed_read [OF R] by simp_all
    qed
    have "16 * 4096 \<le> length (buildInodeTable fs 0) * 16" using K(5) by (simp add: length_inodeTable [OF ok])
    then have "256 + 256 \<le> length (buildInodeTable fs 0)" by linarith
    then show "part_bytes f' s ((bitmap_block gd r 0 + 2) * 4096 + 256) 256 = sub (buildInodeTable fs 0) 256 256"
      using p0 by (intro sub_read) simp_all
    show "part_bytes f' s ((data_start gd r ipg j 0 - 2) * 4096) 4096 = buildRootDir" using p0 by (intro placed_read [OF R]) simp_all
    show "\<not> closed f'" "0 \<le> s_base s" "s_base s + s_size s \<le> file_size f'"
      using H assms(3) by (simp_all add: holds_image_def rws_ok_def file_size_def)
  qed (use ok T_def fit assms(2) in simp_all)
  then show thesis by (rule that [OF F']) (use H in \<open>simp add: holds_image_def file_size_def\<close>)
qed

lemma ext4_Format_image:
  assumes "2 ^ 24 \<le> s_size s" "s_size s < 2 ^ 47" "rws_ok f s" "\<not> closed f" "ext4_layout now uuid (s_size s) opts = Inr fs" "ext4_fits fs"
  obtains f' s' T gd r ipg j where "ext4_Format now (Inr uuid) (s_size s) opts (f, s) = (Inr (), f', s')" "ext4_formatted f' s fs T gd r ipg j"
  by (rule ext4_Format_image_len [OF assms]) (rule that)

lemma ext4_group_blocks:
  assumes ok: "ext4_ok fs T gd r ipg j" and g: "g < num_groups T" and d: "d = encodeGDE fs (of_nat g)"
  shows "gde_block_bitmap d = bitmap_block gd r g" "gde_inode_bitmap d = bitmap_block gd r g + 1" "gde_inode_table d = bitmap_block gd r g + 2"
proof -
  have gl: "el_group fs (of_nat g) = group_spec T gd r ipg j g" using ext4_okD(16) [OF ok g] .
  have b: "bitmap_block gd r g + 2 < 2 ^ 64" using data_start_bound(3,5) [OF ok g] by simp
  have u: "unat (of_nat (bitmap_block gd r g + k) :: u64) = bitmap_block gd r g + k" if "k \<le> 2" for k
    using b that by (intro unat_of_nat64) simp
  show "gde_block_bitmap d = bitmap_block gd r g" "gde_inode_bitmap d = bitmap_block gd r g + 1" "gde_inode_table d = bitmap_block gd r g + 2"
    unfolding gde_decode(1-3) [OF d refl] gl group_spec_def groupLayout.simps using u [of 0] u [of 1] u [of 2] by (simp_all only: add_0_right le_refl one_le_numeral zero_le_numeral simp_thms zero_le)
qed

subsection \<open>A sample partition\<close>

definition ext4_opts :: ext4_options where
  "ext4_opts = \<lparr>eo_Label = bs ''root'', eo_UUID = zeros 16, eo_InodeRatio = 0, eo_ReservedPct = 0, eo_reservedGDT = 0\<rparr>"

definition window_of :: "nat \<Rightarrow> sectionRWS" where
  "window_of n = \<lparr>s_base = 0, s_size = int n, s_pos = 0\<rparr>"

definition blank_disk :: "nat \<Rightarrow> gofile" where
  "blank_disk n = \<lparr>contents = zeros n, closed = False\<rparr>"

lemma sample_window: "s_size (window_of n) = int n" "n < 2 ^ 63 \<Longrightarrow> rws_ok (blank_disk n) (window_of n)" "\<not> closed (blank_disk n)"
  by (simp_all add: window_of_def blank_disk_def rws_ok_def file_size_def)

lemma sample_windows:
  "rws_ok (blank_disk 16777216) (window_of 16777216)" "\<not> closed (blank_disk 16777216)"
  "rws_ok (blank_disk 134221824) (window_of 134221824)" "\<not> closed (blank_disk 134221824)"
  by (simp_all add: sample_window)

text \<open>A partition of one group always has a layout that fits.\<close>

lemma one_group_layout:
  assumes "2 ^ 24 \<le> sz" "sz \<le> 2 ^ 27"
  obtains fs where "ext4_layout now uuid sz opts = Inr fs" "ext4_fits fs" "unat (el_numGroups fs) = 1"
proof -
  have o: "eo_InodeRatio ((ext4_defaults opts)\<lparr>eo_UUID := ext4_uuid opts uuid\<rparr>) \<noteq> 0" by (simp add: ext4_defaults_def Let_def)
  have s: "sz < 2 ^ 47" using assms(2) by simp
  obtain fs gd r ipg j where L: "ext4_computeLayout now sz ((ext4_defaults opts)\<lparr>eo_UUID := ext4_uuid opts uuid\<rparr>) = Inr fs"
    and ok: "ext4_ok fs (nat sz div 4096) gd r ipg j"
    and "el_opts fs = (ext4_defaults opts)\<lparr>eo_UUID := ext4_uuid opts uuid\<rparr>\<lparr>eo_reservedGDT := of_nat r\<rparr>"
      "el_csumSeed fs = crc32cUpdate 0xFFFFFFFF (eo_UUID ((ext4_defaults opts)\<lparr>eo_UUID := ext4_uuid opts uuid\<rparr>))"
    by (rule ext4_computeLayout_ok [OF assms(1) s o refl, where now = now])
  have "nat sz \<le> 2 ^ 27" using assms(2) by simp
  then have "nat sz div 4096 \<le> 2 ^ 27 div 4096" by (rule div_le_mono)
  then have n: "num_groups (nat sz div 4096) = 1" using ext4_okD(15) [OF ok] by (simp add: num_groups_def)
  have "data_start gd r ipg j 0 \<le> nat sz div 4096" using ext4_okD(9) [OF ok] by (simp add: group_end_def)
  then have "ext4_fits fs" using ext4_fits_nat [OF ok] n by simp
  then show thesis using that L n ext4_okD(10) [OF ok] by (simp add: ext4_layout_def)
qed

end
