(* ===== verification/MkfsExt4Props.thy ===== *)
theory MkfsExt4Props
  imports MkfsExt4Formatted
begin

text \<open>
  The properties of the ext4 formatter, for partitions of 16 MiB to 128 TiB: when it succeeds, and
  that a reader who starts from the superblock finds consistent structures.
\<close>

unbundle bit_operations_syntax

subsection \<open>Formatting\<close>

text \<open>
  C36. After formatting, the descriptor of every group verifies its own checksum, the bitmaps lie
  in the blocks it names and match the checksums it records, and the free counts it gives are the
  numbers of clear bits in them.
\<close>

theorem ext4_Format_descriptors:
  assumes "2 ^ 24 \<le> s_size s" "s_size s < 2 ^ 47" "rws_ok f s" "\<not> closed f"
    and "ext4_layout now uuid (s_size s) opts = Inr fs" "ext4_fits fs"
  shows "\<exists>f' s'. ext4_Format now (Inr uuid) (s_size s) opts (f, s) = (Inr (), f', s') \<and>
    (\<forall>g. g < unat (el_numGroups fs) \<longrightarrow>
      (let d = part_bytes f' s (4096 + 64 * g) 64;
           bm = part_bytes f' s (gde_block_bitmap d * 4096) 4096;
           im = part_bytes f' s (gde_inode_bitmap d * 4096) 4096;
           seed = crc32cUpdate (el_csumSeed fs) (le32 (of_nat g))
       in gde_csum_ok (el_csumSeed fs) g d \<and>
          gde_block_csum d = unat (crc32cUpdate seed bm) \<and> gde_inode_csum d = unat (crc32cUpdate seed im) \<and>
          gde_free_blocks d = clear_bits bm \<and> gde_free_inodes d = clear_bits im))"
proof -
  obtain f' s' T gd r ipg j where F: "ext4_Format now (Inr uuid) (s_size s) opts (f, s) = (Inr (), f', s')" and Z: "ext4_formatted f' s fs T gd r ipg j"
    by (rule ext4_Format_image [OF assms])
  note z = ext4_formattedD [OF Z] and ok = ext4_formattedD(1) [OF Z]
  have "let d = part_bytes f' s (4096 + 64 * g) 64; bm = part_bytes f' s (gde_block_bitmap d * 4096) 4096;
           im = part_bytes f' s (gde_inode_bitmap d * 4096) 4096; seed = crc32cUpdate (el_csumSeed fs) (le32 (of_nat g))
       in gde_csum_ok (el_csumSeed fs) g d \<and> gde_block_csum d = unat (crc32cUpdate seed bm) \<and> gde_inode_csum d = unat (crc32cUpdate seed im) \<and>
          gde_free_blocks d = clear_bits bm \<and> gde_free_inodes d = clear_bits im" if g: "g < num_groups T" for g
  proof -
    have "unat (of_nat g :: u32) = g" using g ext4_okD(12) [OF ok] by (intro unat_of_nat32) simp
    then have "gde_csum_ok (el_csumSeed fs) g (encodeGDE fs (of_nat g))" using gde_checksum [of fs "of_nat g"] by simp
    then show ?thesis unfolding Let_def z(4) [OF g] ext4_group_blocks [OF ok g refl] z(5,6) [OF g]
      using gde_decode [OF refl refl, of fs "of_nat g"] clear_block_bits(1) [OF ok g] clear_inode_bits [OF ok g]
      by (simp add: bitmapCsum_def)
  qed
  then show ?thesis using F ext4_okD(10) [OF ok] by (intro exI [of _ f'] exI [of _ s']) simp
qed

theorem ext4_Format_descriptors_witness:
  "\<exists>fs f' s' d. ext4_layout 0 (replicate 16 7) 16777216 ext4_opts = Inr fs \<and>
     ext4_Format 0 (Inr (replicate 16 7)) 16777216 ext4_opts (blank_disk 16777216, window_of 16777216) = (Inr (), f', s') \<and>
     d = part_bytes f' (window_of 16777216) 4096 64 \<and> gde_csum_ok (el_csumSeed fs) 0 d \<and>
     gde_free_blocks d = clear_bits (part_bytes f' (window_of 16777216) (gde_block_bitmap d * 4096) 4096)"
proof -
  have b: "(2 :: int) ^ 24 \<le> 16777216" "(16777216 :: int) \<le> 2 ^ 27" by simp_all
  obtain fs where fs: "ext4_layout 0 (replicate 16 7) 16777216 ext4_opts = Inr fs" "ext4_fits fs" "unat (el_numGroups fs) = 1"
    by (rule one_group_layout [OF b])
  have h: "s_size (window_of 16777216) = 16777216" by (simp add: sample_window)
  note T = ext4_Format_descriptors [of "window_of 16777216" "blank_disk 16777216" 0 "replicate 16 7" ext4_opts fs, unfolded h, OF b(1) _ sample_windows(1,2) fs(1,2)]
  show ?thesis using T fs(1,3) by (simp add: Let_def) blast
qed

text \<open>
  C37. From the superblock of a formatted partition a reader reaches the root directory: the
  superblock has its magic number, the number of blocks and its checksum; descriptor 0 leads to
  the inode table, inode 2 is a directory of one extent, and that block lists \<open>.\<close>, \<open>..\<close> and
  \<open>lost+found\<close> and nothing else.
\<close>

theorem ext4_Format_root:
  assumes "2 ^ 24 \<le> s_size s" "s_size s < 2 ^ 47" "rws_ok f s" "\<not> closed f"
    and "ext4_layout now uuid (s_size s) opts = Inr fs" "ext4_fits fs"
  shows "\<exists>f' s'. ext4_Format now (Inr uuid) (s_size s) opts (f, s) = (Inr (), f', s') \<and>
    (let sb = part_bytes f' s 1024 1024; d = part_bytes f' s 4096 64;
         ino = part_bytes f' s (gde_inode_table d * 4096 + 256) 256;
         dir = part_bytes f' s (ino_extent_start ino * 4096) 4096
     in get16 sb 56 = 0xEF53 \<and> wide32 sb 4 336 = nat (s_size s) div 4096 \<and>
        get32 sb 1020 = crc32cUpdate (get32 sb 624) (take 1020 sb) \<and>
        get16 ino 0 = 0x41ED \<and> get16 ino 40 = 0xF30A \<and> get16 ino 42 = 1 \<and> get16 ino 56 = 1 \<and>
        dirents 4096 dir 0 = Some [(2, 2, bs ''.''), (2, 2, bs ''..''), (11, 2, bs ''lost+found'')])"
proof -
  obtain f' s' T gd r ipg j where F: "ext4_Format now (Inr uuid) (s_size s) opts (f, s) = (Inr (), f', s')" and Z: "ext4_formatted f' s fs T gd r ipg j"
    by (rule ext4_Format_image [OF assms])
  note z = ext4_formattedD [OF Z] and ok = ext4_formattedD(1) [OF Z]
  note K = ext4_okD [OF ok] and W = ext4_ok_fields [OF ok]
  have g0: "0 < num_groups T" using K(15) by simp
  have d: "part_bytes f' s 4096 64 = encodeGDE fs 0" using z(4) [OF g0] by simp
  have it: "gde_inode_table (encodeGDE fs 0) = bitmap_block gd r 0 + 2" using ext4_group_blocks(3) [OF ok g0 refl] by simp
  have rb: "unat (el_rootDirBlock fs) = data_start gd r ipg j 0 - 2" unfolding W(7) using W(14) by (intro unat_of_nat64) simp
  have tb: "unat (el_totalBlocks fs) = T" unfolding W(1) using K(2) by (intro unat_of_nat64) simp
  note ri = root_inode [OF ok refl]
  have dir: "modeDIR = 0x41ED" by (simp add: modeDIR_def)
  have "let sb = part_bytes f' s 1024 1024; d = part_bytes f' s 4096 64;
         ino = part_bytes f' s (gde_inode_table d * 4096 + 256) 256;
         dir = part_bytes f' s (ino_extent_start ino * 4096) 4096
     in get16 sb 56 = 0xEF53 \<and> wide32 sb 4 336 = nat (s_size s) div 4096 \<and>
        get32 sb 1020 = crc32cUpdate (get32 sb 624) (take 1020 sb) \<and>
        get16 ino 0 = 0x41ED \<and> get16 ino 40 = 0xF30A \<and> get16 ino 42 = 1 \<and> get16 ino 56 = 1 \<and>
        dirents 4096 dir 0 = Some [(2, 2, bs ''.''), (2, 2, bs ''..''), (11, 2, bs ''lost+found'')]"
    unfolding Let_def z(3) d it z(7) ri rb z(8) z(2) [symmetric] root_entries dir superblock_decode [OF refl] tb by (intro conjI refl)
  then show ?thesis using F by blast
qed

theorem ext4_Format_root_witness:
  "\<exists>f' s' ino. ext4_Format 0 (Inr (replicate 16 7)) 16777216 ext4_opts (blank_disk 16777216, window_of 16777216) = (Inr (), f', s') \<and>
     dirents 4096 (part_bytes f' (window_of 16777216) (ino_extent_start ino * 4096) 4096) 0 = Some [(2, 2, bs ''.''), (2, 2, bs ''..''), (11, 2, bs ''lost+found'')]"
proof -
  have b: "(2 :: int) ^ 24 \<le> 16777216" "(16777216 :: int) \<le> 2 ^ 27" by simp_all
  obtain fs where fs: "ext4_layout 0 (replicate 16 7) 16777216 ext4_opts = Inr fs" "ext4_fits fs" "unat (el_numGroups fs) = 1"
    by (rule one_group_layout [OF b])
  have h: "s_size (window_of 16777216) = 16777216" by (simp add: sample_window)
  note T = ext4_Format_root [of "window_of 16777216" "blank_disk 16777216" 0 "replicate 16 7" ext4_opts fs, unfolded h, OF b(1) _ sample_windows(1,2) fs(1,2)]
  show ?thesis using T unfolding Let_def by auto
qed

text \<open>
  C38. Formatting succeeds exactly when the structures of the last group end inside the volume: a
  volume whose last group is too short for its bitmaps and inode table cannot be formatted at
  all, because the writer pads backwards only with an error.
\<close>

theorem ext4_Format_iff:
  assumes "2 ^ 24 \<le> s_size s" "s_size s < 2 ^ 47" "rws_ok f s" "\<not> closed f" "ext4_layout now uuid (s_size s) opts = Inr fs"
  shows "(\<exists>t. ext4_Format now (Inr uuid) (s_size s) opts (f, s) = (Inr (), t)) \<longleftrightarrow> gl_dataStart (last (el_groups fs)) \<le> el_totalBlocks fs"
proof -
  define T where "T = nat (s_size s) div 4096"
  obtain fs' gd r ipg j where ok: "ext4_ok fs' T gd r ipg j"
    and L: "ext4_computeLayout now (s_size s) ((ext4_defaults opts)\<lparr>eo_UUID := ext4_uuid opts uuid\<rparr>) = Inr fs'"
    and "el_csumSeed fs' = crc32cUpdate 0xFFFFFFFF (ext4_uuid opts uuid)"
    and S: "data_start gd r ipg j (num_groups T - 1) \<le> T \<longrightarrow>
       (\<exists>f' s' img. ext4_Format now (Inr uuid) (s_size s) opts (f, s) = (Inr (), f', s') \<and> length img = T * 4096 \<and>
         holds_image f f' s img \<and> group0_placed fs' gd r ipg j img \<and> (\<forall>g. 0 < g \<and> g < num_groups T \<longrightarrow> group_placed fs' gd r g img))"
    and E: "T < data_start gd r ipg j (num_groups T - 1) \<longrightarrow> (\<exists>e t. ext4_Format now (Inr uuid) (s_size s) opts (f, s) = (Inl e, t))"
    by (rule ext4_Format_outcome [OF assms(1-4) T_def ext4_uuid_def [of opts uuid], where now = now])
  have "fs' = fs" using L assms(5) by (simp add: ext4_layout_def)
  then have "ext4_fits fs \<longleftrightarrow> data_start gd r ipg j (num_groups T - 1) \<le> T" using ext4_fits_nat ok by blast
  then show ?thesis unfolding ext4_fits_def [symmetric] using S E by (cases "data_start gd r ipg j (num_groups T - 1) \<le> T") auto
qed

theorem ext4_Format_iff_witness:
  "\<nexists>t. ext4_Format 0 (Inr (replicate 16 7)) 134221824 ext4_opts (blank_disk 134221824, window_of 134221824) = (Inr (), t)"
proof -
  have b: "(2 :: int) ^ 24 \<le> 134221824" "(134221824 :: int) < 2 ^ 47" by simp_all
  have o: "eo_InodeRatio ((ext4_defaults ext4_opts)\<lparr>eo_UUID := ext4_uuid ext4_opts (replicate 16 7)\<rparr>) \<noteq> 0" by (simp add: ext4_defaults_def Let_def)
  have T: "nat 134221824 div 4096 = 32769" by simp
  obtain fs gd r ipg j where L: "ext4_computeLayout 0 134221824 ((ext4_defaults ext4_opts)\<lparr>eo_UUID := ext4_uuid ext4_opts (replicate 16 7)\<rparr>) = Inr fs"
    and ok: "ext4_ok fs (nat 134221824 div 4096) gd r ipg j"
    and "el_opts fs = (ext4_defaults ext4_opts)\<lparr>eo_UUID := ext4_uuid ext4_opts (replicate 16 7)\<rparr>\<lparr>eo_reservedGDT := of_nat r\<rparr>"
      "el_csumSeed fs = crc32cUpdate 0xFFFFFFFF (eo_UUID ((ext4_defaults ext4_opts)\<lparr>eo_UUID := ext4_uuid ext4_opts (replicate 16 7)\<rparr>))"
    by (rule ext4_computeLayout_ok [OF b o refl, where now = 0])
  have "num_groups 32769 = 2" by (simp add: num_groups_def)
  then have "\<not> ext4_fits fs" using ext4_fits_nat [OF ok] unfolding T by (simp add: data_start_def bitmap_block_def)
  moreover have h: "s_size (window_of 134221824) = 134221824" by (simp add: sample_window)
  note ext4_Format_iff [of "window_of 134221824" "blank_disk 134221824" 0 "replicate 16 7" ext4_opts fs, unfolded h, OF b sample_windows(3,4) L [folded ext4_layout_def]]
  ultimately show ?thesis by (simp add: ext4_fits_def)
qed

text \<open>
  C39. The loop that decides which groups carry a backup of the superblock ends, and picks groups
  0, 1 and the exact powers of 3, 5 and 7, for every group number up to \<open>5 ^ 13\<close>; below that no
  product in it wraps.
\<close>

theorem hasSuperBackup_powers:
  assumes "unat g \<le> 5 ^ 13"
  shows "hasSuperBackup g = Some (unat g \<le> 1 \<or> (\<exists>i. 1 \<le> i \<and> (unat g = 3 ^ i \<or> unat g = 5 ^ i \<or> unat g = 7 ^ i)))"
  using hasSuperBackup_eq [of g] assms by simp

theorem hasSuperBackup_powers_witness:
  "hasSuperBackup 343 = Some True \<and> hasSuperBackup 2 = Some False"
proof
  have "\<exists>i \<ge> 1. (343 :: nat) = 7 ^ i" by (rule exI [of _ 3]) simp
  then show "hasSuperBackup 343 = Some True" using hasSuperBackup_powers [of 343] by auto
  have "(2 :: nat) \<noteq> b ^ i" if "1 \<le> i" "3 \<le> b" for b i
  proof -
    have "b ^ 1 \<le> b ^ i" using that by (intro power_increasing) auto
    then show ?thesis using that by simp
  qed
  then show "hasSuperBackup 2 = Some False" using hasSuperBackup_powers [of 2] by auto
qed

text \<open>
  C40. The superblock's count of free blocks is the total of the clear bits of the block bitmaps
  on the disk, found through the descriptors.
\<close>

theorem ext4_Format_free_total:
  assumes "2 ^ 24 \<le> s_size s" "s_size s < 2 ^ 47" "rws_ok f s" "\<not> closed f"
    and "ext4_layout now uuid (s_size s) opts = Inr fs" "ext4_fits fs"
  shows "\<exists>f' s'. ext4_Format now (Inr uuid) (s_size s) opts (f, s) = (Inr (), f', s') \<and>
    wide32 (part_bytes f' s 1024 1024) 12 344 =
      (\<Sum>g < unat (el_numGroups fs). clear_bits (part_bytes f' s (gde_block_bitmap (part_bytes f' s (4096 + 64 * g) 64) * 4096) 4096))"
proof -
  obtain f' s' T gd r ipg j where F: "ext4_Format now (Inr uuid) (s_size s) opts (f, s) = (Inr (), f', s')" and Z: "ext4_formatted f' s fs T gd r ipg j"
    by (rule ext4_Format_image [OF assms])
  note z = ext4_formattedD [OF Z] and ok = ext4_formattedD(1) [OF Z]
  have "(\<Sum>g < num_groups T. clear_bits (part_bytes f' s (gde_block_bitmap (part_bytes f' s (4096 + 64 * g) 64) * 4096) 4096)) =
      (\<Sum>g < num_groups T. clear_bits (buildBlockBitmap fs (of_nat g)))"
    using z(4,5) ext4_group_blocks(1) [OF ok _ refl] by (intro sum.cong) auto
  then show ?thesis using F superblock_decode(3) [OF refl, of fs 0] sb_freeBlocks_sum [OF ok] ext4_okD(10) [OF ok] z(3)
    by (intro exI [of _ f'] exI [of _ s']) simp
qed

theorem ext4_Format_free_total_witness:
  "\<exists>f' s' d. ext4_Format 0 (Inr (replicate 16 7)) 16777216 ext4_opts (blank_disk 16777216, window_of 16777216) = (Inr (), f', s') \<and>
     wide32 (part_bytes f' (window_of 16777216) 1024 1024) 12 344 = clear_bits (part_bytes f' (window_of 16777216) (gde_block_bitmap d * 4096) 4096)"
proof -
  have b: "(2 :: int) ^ 24 \<le> 16777216" "(16777216 :: int) \<le> 2 ^ 27" by simp_all
  obtain fs where fs: "ext4_layout 0 (replicate 16 7) 16777216 ext4_opts = Inr fs" "ext4_fits fs" "unat (el_numGroups fs) = 1"
    by (rule one_group_layout [OF b])
  have h: "s_size (window_of 16777216) = 16777216" by (simp add: sample_window)
  note T = ext4_Format_free_total [of "window_of 16777216" "blank_disk 16777216" 0 "replicate 16 7" ext4_opts fs, unfolded h, OF b(1) _ sample_windows(1,2) fs(1,2)]
  show ?thesis using T fs(3) by auto
qed

end
