(* ===== verification/Ext4Open.thy ===== *)
theory Ext4Open
  imports GoFile GoBuffers GoText Partitions "HOL-Library.AList"
begin

text \<open>
  The ext4 driver: superblock, group descriptors, block and inode input/output
  (\<open>src/ext4/open.go\<close>).  As in the FAT driver the image is an argument \<open>f\<close> of the operations and
  only the flush writes to it; blocks and inodes are staged in the association lists \<open>e_dirty\<close>
  and \<open>e_dirtyInodes\<close>.  A slice, an index or a division that panics in Go is the error \<open>Panic\<close>.
  The clock (\<open>nowSec\<close>) is the argument \<open>now\<close> of the operations that read it.
\<close>

unbundle bit_operations_syntax

subsection \<open>State\<close>

record superblock =
  es_inodesCount :: u32
  es_blocksCountLo :: u32
  es_freeBlocksLo :: u32
  es_freeInodes :: u32
  es_firstDataBlock :: u32
  es_logBlockSize :: u32
  es_blocksPerGroup :: u32
  es_inodesPerGroup :: u32
  es_magic :: u16
  es_state :: u16
  es_featureCompat :: u32
  es_featureIncompat :: u32
  es_featureRoCompat :: u32
  es_uuid :: bytes
  es_firstIno :: u32
  es_inodeSize :: u16
  es_blockGroupNr :: u16
  es_descSize :: u16
  es_logGroupsPerFlex :: u8
  es_blocksCountHi :: u32
  es_freeBlocksHi :: u32
  es_journalInum :: u32
  es_blockSize :: u32
  es_groupCount :: u32

record groupDesc =
  gd_blockBitmapLo :: u32
  gd_inodeBitmapLo :: u32
  gd_inodeTableLo :: u32
  gd_freeBlocksLo :: u16
  gd_freeInodesLo :: u16
  gd_usedDirsLo :: u16
  gd_flags :: u16
  gd_blockBitmapHi :: u32
  gd_inodeBitmapHi :: u32
  gd_inodeTableHi :: u32
  gd_freeBlocksHi :: u16
  gd_freeInodesHi :: u16
  gd_usedDirsHi :: u16
  gd_checksum :: u16

text \<open>The fields of \<open>inode\<close> that \<open>parseInode\<close> or \<open>encodeInode\<close> handle; the others stay zero in Go.\<close>

record inode =
  i_mode :: u16
  i_uid :: u16
  i_sizeLo :: u32
  i_atime :: u32
  i_ctime :: u32
  i_mtime :: u32
  i_dtime :: u32
  i_gid :: u16
  i_linksCount :: u16
  i_blocksLo :: u32
  i_flags :: u32
  i_block :: bytes
  i_generation :: u32
  i_fileAclLo :: u32
  i_sizeHi :: u32
  i_blocksHi :: u16
  i_fileAclHi :: u16
  i_uidHi :: u16
  i_gidHi :: u16
  i_extraIsize :: u16
  i_ctimeExtra :: u32
  i_mtimeExtra :: u32
  i_atimeExtra :: u32
  i_crtime :: u32

record ext4vol =
  e_sr :: section_reader
  e_wa :: bool                      \<comment> \<open>\<open>wa != nil\<close>\<close>
  e_srOffset :: int
  e_sb :: superblock
  e_groups :: "groupDesc list"
  e_dirty :: "(u64 \<times> bytes) list"
  e_dirtyInodes :: "(u32 \<times> bytes) list"

definition sbOffset :: int where "sbOffset = 1024"
definition inodeRoot :: u32 where "inodeRoot = 2"

definition div_panic :: "'a res" where
  "div_panic = Inl (Panic ''integer divide by zero'')"

definition index_panic :: "'a res" where
  "index_panic = Inl (Panic ''index out of range'')"

subsection \<open>Superblock\<close>

definition blockSize_of_log :: "u32 \<Rightarrow> u32" where
  "blockSize_of_log lg = (if lg < 32 then push_bit (unat lg) 1024 else 0)"

definition parseSuperblock :: "bytes \<Rightarrow> superblock" where
  "parseSuperblock b =
     (let inc = get32 b 96; is64 = inc AND 0x80 \<noteq> 0; bpg = get32 b 32;
          lo = get32 b 4; hi = (if is64 then get32 b 336 else 0);
          ds = (if is64 then (if get16 b 254 = 0 then 64 else get16 b 254) else 32);
          total = ucast lo OR push_bit 32 (ucast hi) :: u64
      in \<lparr>es_inodesCount = get32 b 0, es_blocksCountLo = lo, es_freeBlocksLo = get32 b 12,
          es_freeInodes = get32 b 16, es_firstDataBlock = get32 b 20, es_logBlockSize = get32 b 24,
          es_blocksPerGroup = bpg, es_inodesPerGroup = get32 b 40, es_magic = get16 b 56,
          es_state = get16 b 58, es_featureCompat = get32 b 92, es_featureIncompat = inc,
          es_featureRoCompat = get32 b 100, es_uuid = sub b 104 16, es_firstIno = get32 b 84,
          es_inodeSize = get16 b 88, es_blockGroupNr = get16 b 90, es_descSize = ds,
          es_logGroupsPerFlex = (if inc AND 0x200 \<noteq> 0 then b ! 372 else 0), es_blocksCountHi = hi,
          es_freeBlocksHi = (if is64 then get32 b 344 else 0), es_journalInum = get32 b 224,
          es_blockSize = blockSize_of_log (get32 b 24),
          es_groupCount = ucast ((total + ucast bpg - 1) div ucast bpg)\<rparr>)"

definition readSuperblock :: "gofile \<Rightarrow> section_reader \<Rightarrow> superblock res" where
  "readSuperblock f sr =
     bindR (wrapR ''ext4: read superblock'' (full (SecReadAt f sr 1024 sbOffset))) (\<lambda>b.
       if get16 b 56 \<noteq> 0xEF53 then Inl (Err ''ext4: bad magic'')
       else if get32 b 32 = 0 then div_panic
       else Inr (parseSuperblock b))"

subsection \<open>Group descriptors\<close>

definition parseGroupDesc :: "nat \<Rightarrow> bytes \<Rightarrow> groupDesc" where
  "parseGroupDesc ds b =
     (let hi32 = (\<lambda>off. if 64 \<le> ds then get32 b off else 0);
          hi16 = (\<lambda>off. if 64 \<le> ds then get16 b off else 0)
      in \<lparr>gd_blockBitmapLo = get32 b 0, gd_inodeBitmapLo = get32 b 4, gd_inodeTableLo = get32 b 8,
          gd_freeBlocksLo = get16 b 12, gd_freeInodesLo = get16 b 14, gd_usedDirsLo = get16 b 16,
          gd_flags = get16 b 18, gd_blockBitmapHi = hi32 32, gd_inodeBitmapHi = hi32 36,
          gd_inodeTableHi = hi32 40, gd_freeBlocksHi = hi16 44, gd_freeInodesHi = hi16 46,
          gd_usedDirsHi = hi16 48, gd_checksum = get16 b 30\<rparr>)"

text \<open>The descriptors of the groups from \<open>i\<close> on; an entry shorter than 32 bytes at the end of the table panics.\<close>

fun parse_groups :: "nat \<Rightarrow> bytes \<Rightarrow> nat list \<Rightarrow> groupDesc list res" where
  "parse_groups ds buf [] = Inr []"
| "parse_groups ds buf (i # is) =
     (let b = drop (i * ds) buf in
      if length b < 32 then bounds_panic
      else bindR (parse_groups ds buf is) (\<lambda>gs. Inr (parseGroupDesc ds b # gs)))"

definition gdtOff :: "superblock \<Rightarrow> int" where
  "gdtOff sb = wrap64 ((uint (es_firstDataBlock sb) + 1) * uint (es_blockSize sb))"

definition readGroupDescriptors :: "gofile \<Rightarrow> section_reader \<Rightarrow> superblock \<Rightarrow> groupDesc list res" where
  "readGroupDescriptors f sr sb =
     (let n = unat (es_groupCount sb); ds = unat (es_descSize sb) in
      bindR (wrapR ''ext4: read GDT'' (full (SecReadAt f sr (n * ds) (gdtOff sb)))) (\<lambda>buf.
        parse_groups ds buf [0..<n]))"

definition e4_Open :: "gofile \<Rightarrow> int \<Rightarrow> int \<Rightarrow> ext4vol res" where
  "e4_Open f offset sz =
     (let sr = NewSectionReader offset sz in
      bindR (readSuperblock f sr) (\<lambda>sb.
      bindR (readGroupDescriptors f sr sb) (\<lambda>gs.
        Inr \<lparr>e_sr = sr, e_wa = True, e_srOffset = offset, e_sb = sb, e_groups = gs,
             e_dirty = [], e_dirtyInodes = []\<rparr>)))"

subsection \<open>Blocks\<close>

definition bsz :: "ext4vol \<Rightarrow> nat" where
  "bsz v = unat (es_blockSize (e_sb v))"

definition blk_off :: "ext4vol \<Rightarrow> u64 \<Rightarrow> int" where
  "blk_off v blk = wrap64 (uint blk * uint (es_blockSize (e_sb v)))"

definition readBlock :: "gofile \<Rightarrow> ext4vol \<Rightarrow> u64 \<Rightarrow> bytes res" where
  "readBlock f v blk =
     (case map_of (e_dirty v) blk of
        Some d \<Rightarrow> Inr d
      | None \<Rightarrow> wrapR ''ext4: read block'' (full (SecReadAt f (e_sr v) (bsz v) (blk_off v blk))))"

definition writeBlock :: "u64 \<Rightarrow> bytes \<Rightarrow> ext4vol \<Rightarrow> ext4vol" where
  "writeBlock blk data v = v\<lparr>e_dirty := AList.update blk (copy_into (zeros (bsz v)) 0 data) (e_dirty v)\<rparr>"

subsection \<open>Inodes\<close>

definition inodeBlockGroup :: "ext4vol \<Rightarrow> u32 \<Rightarrow> u32 res" where
  "inodeBlockGroup v num =
     (if es_inodesPerGroup (e_sb v) = 0 then div_panic else Inr ((num - 1) div es_inodesPerGroup (e_sb v)))"

definition inodeLocalIndex :: "ext4vol \<Rightarrow> u32 \<Rightarrow> u32 res" where
  "inodeLocalIndex v num =
     (if es_inodesPerGroup (e_sb v) = 0 then div_panic else Inr ((num - 1) mod es_inodesPerGroup (e_sb v)))"

definition group_at :: "ext4vol \<Rightarrow> u32 \<Rightarrow> groupDesc res" where
  "group_at v grp = (if unat grp < length (e_groups v) then Inr (e_groups v ! unat grp) else index_panic)"

definition join_hi :: "u32 \<Rightarrow> u32 \<Rightarrow> u64" where
  "join_hi lo hi = ucast lo OR push_bit 32 (ucast hi)"

definition inodeTableBlock :: "ext4vol \<Rightarrow> u32 \<Rightarrow> u64 res" where
  "inodeTableBlock v grp = bindR (group_at v grp) (\<lambda>gd. Inr (join_hi (gd_inodeTableLo gd) (gd_inodeTableHi gd)))"

definition isz :: "ext4vol \<Rightarrow> nat" where
  "isz v = unat (es_inodeSize (e_sb v))"

definition readRawInode :: "gofile \<Rightarrow> ext4vol \<Rightarrow> u32 \<Rightarrow> bytes res" where
  "readRawInode f v num =
     (case map_of (e_dirtyInodes v) num of
        Some b \<Rightarrow> Inr b
      | None \<Rightarrow>
          bindR (inodeBlockGroup v num) (\<lambda>grp.
          bindR (inodeLocalIndex v num) (\<lambda>idx.
          bindR (inodeTableBlock v grp) (\<lambda>tb.
            wrapR ''ext4: read inode''
              (full (SecReadAt f (e_sr v) (isz v) (wrap64 (blk_off v tb + int (unat idx) * int (isz v)))))))))"

definition writeRawInode :: "u32 \<Rightarrow> bytes \<Rightarrow> ext4vol \<Rightarrow> ext4vol" where
  "writeRawInode num raw v = v\<lparr>e_dirtyInodes := AList.update num raw (e_dirtyInodes v)\<rparr>"

definition parseInode :: "bytes \<Rightarrow> inode res" where
  "parseInode raw =
     (if length raw < 112 then bounds_panic
      else let f16 = (\<lambda>n off. if n \<le> length raw then get16 raw off else 0);
               f32 = (\<lambda>n off. if n \<le> length raw then get32 raw off else 0)
      in Inr \<lparr>i_mode = get16 raw 0, i_uid = get16 raw 2, i_sizeLo = get32 raw 4, i_atime = get32 raw 8,
          i_ctime = get32 raw 12, i_mtime = get32 raw 16, i_dtime = get32 raw 20, i_gid = get16 raw 24,
          i_linksCount = get16 raw 26, i_blocksLo = get32 raw 28, i_flags = get32 raw 32,
          i_block = sub raw 40 60, i_generation = get32 raw 100, i_fileAclLo = get32 raw 104,
          i_sizeHi = get32 raw 108,
          i_blocksHi = f16 128 116, i_fileAclHi = f16 128 118, i_uidHi = f16 128 120, i_gidHi = f16 128 122,
          i_extraIsize = f16 160 128, i_ctimeExtra = f32 160 132, i_mtimeExtra = f32 160 136,
          i_atimeExtra = f32 160 140, i_crtime = f32 160 144\<rparr>)"

definition inode_puts :: "inode \<Rightarrow> nat \<Rightarrow> (nat \<times> bytes) list" where
  "inode_puts i n =
     [(0, le16 (i_mode i)), (2, le16 (i_uid i)), (4, le32 (i_sizeLo i)), (8, le32 (i_atime i)),
      (12, le32 (i_ctime i)), (16, le32 (i_mtime i)), (20, le32 (i_dtime i)), (24, le16 (i_gid i)),
      (26, le16 (i_linksCount i)), (28, le32 (i_blocksLo i)), (32, le32 (i_flags i)), (40, i_block i),
      (100, le32 (i_generation i)), (104, le32 (i_fileAclLo i)), (108, le32 (i_sizeHi i))] @
     (if 128 \<le> n then [(116, le16 (i_blocksHi i)), (118, le16 (i_fileAclHi i)), (120, le16 (i_uidHi i)),
                         (122, le16 (i_gidHi i))] else []) @
     (if 160 \<le> n then [(128, le16 (i_extraIsize i)), (132, le32 (i_ctimeExtra i)), (136, le32 (i_mtimeExtra i)),
                         (140, le32 (i_atimeExtra i)), (144, le32 (i_crtime i))] else [])"

definition encodeInode :: "inode \<Rightarrow> bytes \<Rightarrow> bytes res" where
  "encodeInode i raw = (if length raw < 112 then bounds_panic else Inr (puts (inode_puts i (length raw)) raw))"

definition readInode :: "gofile \<Rightarrow> ext4vol \<Rightarrow> u32 \<Rightarrow> inode res" where
  "readInode f v num = bindR (readRawInode f v num) parseInode"

definition writeInode :: "gofile \<Rightarrow> u32 \<Rightarrow> inode \<Rightarrow> (ext4vol, unit) sop" where
  "writeInode f num i =
     tryS (readS (\<lambda>v. readRawInode f v num)) (\<lambda>r.
       updS (\<lambda>v. bindR (encodeInode i (case r of Inr raw \<Rightarrow> raw | Inl _ \<Rightarrow> zeros (isz v)))
                   (\<lambda>raw'. Inr (writeRawInode num raw' v))))"

definition inodeFileSize :: "inode \<Rightarrow> int" where
  "inodeFileSize i = wrap64 (uint (i_sizeLo i) + 2 ^ 32 * uint (i_sizeHi i))"

subsection \<open>Times and statistics\<close>

text \<open>Times are seconds since the epoch, as \<open>Time.Unix\<close> gives them.\<close>

definition timeToExt4 :: "int \<Rightarrow> u32" where
  "timeToExt4 t = of_int t"

definition ext4ToTime :: "u32 \<Rightarrow> int" where
  "ext4ToTime sec = int (unat sec)"

definition e4_StatFS :: "ext4vol \<Rightarrow> volinfo" where
  "e4_StatFS v =
     (let sb = e_sb v;
          total = join_hi (es_blocksCountLo sb) (es_blocksCountHi sb);
          free = join_hi (es_freeBlocksLo sb) (es_freeBlocksHi sb);
          b = uint (es_blockSize sb)
      in \<lparr>TotalBytes = wrap64 (uint total * b), FreeBytes = wrap64 (uint free * b),
          UsedBytes = wrap64 (uint (total - free) * b), BlockSize = b,
          Inodes = uint (es_inodesCount sb), InodesFree = uint (es_freeInodes sb)\<rparr>)"

end
