(* ===== verification/Ext4Read.thy ===== *)
theory Ext4Read
  imports Ext4Open "HOL-Library.List_Lexorder"
begin

text \<open>
  The reading half of the ext4 driver (\<open>src/ext4/read.go\<close>): the extent tree, file contents,
  directories, path lookup with symbolic links, and file handles.
\<close>

unbundle bit_operations_syntax

subsection \<open>The extent tree\<close>

record extentHeader =
  eh_magic :: u16
  eh_entries :: u16
  eh_max :: u16
  eh_depth :: u16
  eh_generation :: u32

record extentIdx =
  ei_block :: u32
  ei_leafLo :: u32
  ei_leafHi :: u16

record extentLeaf =
  ee_block :: u32
  ee_len :: u16
  ee_startHi :: u16
  ee_startLo :: u32

text \<open>Each takes the 12 bytes at \<open>off\<close>; a shorter buffer panics.\<close>

definition parseExtentHeader :: "bytes \<Rightarrow> extentHeader res" where
  "parseExtentHeader b =
     (if length b < 12 then bounds_panic
      else Inr \<lparr>eh_magic = get16 b 0, eh_entries = get16 b 2, eh_max = get16 b 4, eh_depth = get16 b 6,
                eh_generation = get32 b 8\<rparr>)"

definition parseExtentIdx :: "bytes \<Rightarrow> nat \<Rightarrow> extentIdx res" where
  "parseExtentIdx b off =
     (if length b < off + 12 then bounds_panic
      else Inr \<lparr>ei_block = get32 b off, ei_leafLo = get32 b (off + 4), ei_leafHi = get16 b (off + 8)\<rparr>)"

definition parseExtentLeaf :: "bytes \<Rightarrow> nat \<Rightarrow> extentLeaf res" where
  "parseExtentLeaf b off =
     (if length b < off + 12 then bounds_panic
      else Inr \<lparr>ee_block = get32 b off, ee_len = get16 b (off + 4), ee_startHi = get16 b (off + 6),
                ee_startLo = get32 b (off + 8)\<rparr>)"

definition physBlock :: "extentLeaf \<Rightarrow> u64" where
  "physBlock e = ucast (ee_startLo e) OR push_bit 32 (ucast (ee_startHi e))"

definition numBlocks :: "extentLeaf \<Rightarrow> u16" where
  "numBlocks e = ee_len e AND 0x7FFF"

text \<open>The two loops over the entries of a node; the entries are visited in the order of the list.\<close>

fun find_leaf :: "bytes \<Rightarrow> u32 \<Rightarrow> nat list \<Rightarrow> u64 res" where
  "find_leaf raw lb [] = Inr 0"
| "find_leaf raw lb (i # is) =
     bindR (parseExtentLeaf raw (12 + i * 12)) (\<lambda>leaf.
       let first = ee_block leaf; lst = first + ucast (numBlocks leaf) - 1
       in if first \<le> lb \<and> lb \<le> lst then Inr (physBlock leaf + ucast (lb - first))
          else find_leaf raw lb is)"

fun find_child :: "bytes \<Rightarrow> u32 \<Rightarrow> nat list \<Rightarrow> u64 option \<Rightarrow> u64 option res" where
  "find_child raw lb [] best = Inr best"
| "find_child raw lb (i # is) best =
     bindR (parseExtentIdx raw (12 + i * 12)) (\<lambda>idx.
       if ei_block idx \<le> lb
       then find_child raw lb is (Some (ucast (ei_leafLo idx) OR push_bit 32 (ucast (ei_leafHi idx))))
       else Inr best)"

text \<open>
  The descent reads a child block and continues there; the node alone decides where it goes next,
  and a child number has 48 bits.  A descent through more nodes than there are such numbers has
  met one of them twice and never ends; \<open>k\<close> counts the nodes left.
\<close>

fun searchExtentNode :: "nat \<Rightarrow> gofile \<Rightarrow> ext4vol \<Rightarrow> bytes \<Rightarrow> u32 \<Rightarrow> u64 res" where
  "searchExtentNode k f v raw lb =
     bindR (parseExtentHeader raw) (\<lambda>hdr.
       if eh_magic hdr \<noteq> 0xF30A then Inl (Err ''ext4: extent magic'')
       else if eh_depth hdr = 0 then find_leaf raw lb [0..<unat (eh_entries hdr)]
       else bindR (find_child raw lb [0..<unat (eh_entries hdr)] None) (\<lambda>child.
         case child of
           None \<Rightarrow> Inr 0
         | Some c \<Rightarrow> bindR (readBlock f v c) (\<lambda>d.
             if k = 0 then Inl Diverge else searchExtentNode (k - 1) f v d lb)))"

declare searchExtentNode.simps [simp del]

definition tree_fuel :: nat where "tree_fuel = 2 ^ 48"

definition inodeFlagExtents :: u32 where "inodeFlagExtents = 0x00080000"

definition logicalToPhysical :: "gofile \<Rightarrow> ext4vol \<Rightarrow> inode \<Rightarrow> u32 \<Rightarrow> u64 res" where
  "logicalToPhysical f v i lb =
     (if i_flags i AND inodeFlagExtents = 0 then Inl (Err ''ext4: inode uses legacy block map (not supported)'')
      else searchExtentNode tree_fuel f v (i_block i) lb)"

subsection \<open>File contents\<close>

text \<open>The block behind a logical block: a hole reads as zeros.\<close>

definition file_block :: "gofile \<Rightarrow> ext4vol \<Rightarrow> inode \<Rightarrow> u32 \<Rightarrow> bytes res" where
  "file_block f v i lb =
     bindR (logicalToPhysical f v i lb) (\<lambda>p. if p = 0 then Inr (zeros (bsz v)) else readBlock f v p)"

text \<open>
  The loop of \<open>readFileRange\<close>, with \<open>n\<close> bytes still to read: the bytes delivered and the error.
  Every round delivers at least one byte.
\<close>

function read_range :: "gofile \<Rightarrow> ext4vol \<Rightarrow> inode \<Rightarrow> nat \<Rightarrow> nat \<Rightarrow> bytes \<times> goerr option" where
  "read_range f v i off n =
     (if n = 0 then ([], None)
      else if bsz v = 0 then ([], Some (Panic ''integer divide by zero''))
      else (case file_block f v i (of_nat (off div bsz v)) of
              Inl e \<Rightarrow> ([], Some e)
            | Inr d \<Rightarrow>
                let c = min (bsz v - off mod bsz v) n
                in (case read_range f v i (off + c) (n - c) of (r, e) \<Rightarrow> (sub d (off mod bsz v) c @ r, e))))"
  by pat_completeness auto

termination
  by (relation "measure (\<lambda>(f, v, i, off, n). n)") auto

declare read_range.simps [simp del]

text \<open>
  \<open>Seek\<close> clamps offsets to 0 and the other callers start there.  (Opening for append an inode whose
  size field is \<open>2^63\<close> or more would give a handle a negative offset; that handle is not modelled.)
\<close>

definition readFileRange :: "gofile \<Rightarrow> ext4vol \<Rightarrow> inode \<Rightarrow> nat \<Rightarrow> nat \<Rightarrow> bytes \<times> goerr option" where
  "readFileRange f v i off n =
     (let size = inodeFileSize i in
      if size \<le> int off then ([], Some EOF) else read_range f v i off (min n (nat (size - int off))))"

subsection \<open>Directories\<close>

record dirEntry =
  de_inode :: u32
  de_nm :: gostr
  de_fileType :: u8

text \<open>The entries of a directory block from \<open>pos\<close> on.\<close>

function dir_block :: "bytes \<Rightarrow> nat \<Rightarrow> dirEntry list res" where
  "dir_block b pos =
     (if length b < pos + 8 then Inr []
      else let ino = get32 b pos; recLen = unat (get16 b (pos + 4)); nameLen = unat (b ! (pos + 6))
           in if recLen = 0 then Inr []
              else if ino \<noteq> 0 \<and> 0 < nameLen \<and> length b < pos + 8 + nameLen then bounds_panic
              else bindR (dir_block b (pos + recLen)) (\<lambda>es.
                Inr (if ino \<noteq> 0 \<and> 0 < nameLen
                     then \<lparr>de_inode = ino, de_nm = sub b (pos + 8) nameLen, de_fileType = b ! (pos + 7)\<rparr> # es
                     else es)))"
  by pat_completeness auto

termination
  by (relation "measure (\<lambda>(b, pos). length b - pos)") auto

declare dir_block.simps [simp del]

fun dir_blocks :: "gofile \<Rightarrow> ext4vol \<Rightarrow> inode \<Rightarrow> nat list \<Rightarrow> dirEntry list res" where
  "dir_blocks f v i [] = Inr []"
| "dir_blocks f v i (k # ks) =
     bindR (file_block f v i (of_nat k)) (\<lambda>b.
     bindR (dir_block b 0) (\<lambda>es.
     bindR (dir_blocks f v i ks) (\<lambda>rest. Inr (es @ rest))))"

text \<open>
  The number of rounds of \<open>for off := 0; off < size; off += bs\<close>.  Where \<open>off\<close> would pass
  \<open>2^63\<close> it wraps to a negative number and the loop starts over, so it never ends.
\<close>

definition dir_rounds :: "ext4vol \<Rightarrow> inode \<Rightarrow> nat" where
  "dir_rounds v i = nat ((inodeFileSize i + int (bsz v) - 1) div int (bsz v))"

definition readDir :: "gofile \<Rightarrow> ext4vol \<Rightarrow> inode \<Rightarrow> dirEntry list res" where
  "readDir f v i =
     (if inodeFileSize i \<le> 0 then Inr []
      else if bsz v = 0 then div_panic
      else bindR (dir_blocks f v i [0..<dir_rounds v i]) (\<lambda>es.
             if 2 ^ 63 \<le> int (dir_rounds v i) * int (bsz v) then Inl Diverge else Inr es))"

subsection \<open>Paths\<close>

definition modeFmt :: u16 where "modeFmt = 0xF000"
definition modeDir :: u16 where "modeDir = 0x4000"
definition modeLnk :: u16 where "modeLnk = 0xA000"

definition is_dir :: "inode \<Rightarrow> bool" where
  "is_dir i \<longleftrightarrow> i_mode i AND modeFmt = modeDir"

definition is_link :: "inode \<Rightarrow> bool" where
  "is_link i \<longleftrightarrow> i_mode i AND modeFmt = modeLnk"

fun walk_parts :: "gofile \<Rightarrow> ext4vol \<Rightarrow> u32 \<Rightarrow> gostr list \<Rightarrow> u32 res" where
  "walk_parts f v cur [] = Inr cur"
| "walk_parts f v cur (part # rest) =
     (if part = [] then walk_parts f v cur rest
      else bindR (readInode f v cur) (\<lambda>i.
           if \<not> is_dir i then Inl (Err ''ext4: is not a directory'')
           else bindR (readDir f v i) (\<lambda>es.
             case find (\<lambda>e. de_nm e = part) es of
               None \<Rightarrow> Inl (Err ''ext4: no such file or directory'')
             | Some e \<Rightarrow> walk_parts f v (de_inode e) rest)))"

definition e4_lookupPath :: "gofile \<Rightarrow> ext4vol \<Rightarrow> gostr \<Rightarrow> u32 res" where
  "e4_lookupPath f v p0 =
     (let p = Clean (slash # p0) in
      if p = [slash] then Inr inodeRoot else walk_parts f v inodeRoot (Split (tl p) slash))"

text \<open>\<open>in.iBlock[:size]\<close> panics for a negative size.\<close>

definition readlink :: "gofile \<Rightarrow> ext4vol \<Rightarrow> inode \<Rightarrow> gostr res" where
  "readlink f v i =
     (let size = inodeFileSize i in
      if size < 60 then (if size < 0 then bounds_panic else Inr (take (nat size) (i_block i)))
      else full (readFileRange f v i 0 (nat size)))"

text \<open>\<open>depth > 40\<close> is an error: \<open>k\<close> counts the 41 levels left.\<close>

fun lookup_follow :: "nat \<Rightarrow> gofile \<Rightarrow> ext4vol \<Rightarrow> gostr \<Rightarrow> u32 res" where
  "lookup_follow 0 f v p = Inl (Err ''ext4: too many symlinks'')"
| "lookup_follow (Suc k) f v p =
     bindR (e4_lookupPath f v p) (\<lambda>num.
     bindR (readInode f v num) (\<lambda>i.
       if is_link i
       then bindR (readlink f v i) (\<lambda>target.
              lookup_follow k f v
                (if target \<noteq> [] \<and> hd target = slash then target else path_Join (path_Dir p) target))
       else Inr num))"

definition lookupPathFollow :: "gofile \<Rightarrow> ext4vol \<Rightarrow> gostr \<Rightarrow> u32 res" where
  "lookupPathFollow f v p = lookup_follow 41 f v p"

subsection \<open>The reading operations of a volume\<close>

text \<open>The path, followed, with its inode.\<close>

definition follow_inode :: "gofile \<Rightarrow> ext4vol \<Rightarrow> gostr \<Rightarrow> (u32 \<times> inode) res" where
  "follow_inode f v nm =
     bindR (lookupPathFollow f v nm) (\<lambda>num. bindR (readInode f v num) (\<lambda>i. Inr (num, i)))"

definition nofollow_inode :: "gofile \<Rightarrow> ext4vol \<Rightarrow> gostr \<Rightarrow> (u32 \<times> inode) res" where
  "nofollow_inode f v nm =
     bindR (e4_lookupPath f v nm) (\<lambda>num. bindR (readInode f v num) (\<lambda>i. Inr (num, i)))"

text \<open>\<open>make([]byte, size)\<close> panics for a negative size.\<close>

definition e4_ReadFile :: "gofile \<Rightarrow> ext4vol \<Rightarrow> gostr \<Rightarrow> bytes res" where
  "e4_ReadFile f v nm =
     bindR (follow_inode f v nm) (\<lambda>(num, i).
       let size = inodeFileSize i in
       if size < 0 then Inl (Panic ''makeslice: len out of range'')
       else case readFileRange f v i 0 (nat size) of
              (d, None) \<Rightarrow> Inr d
            | (d, Some EOF) \<Rightarrow> Inr (copy_into (zeros (nat size)) 0 d)
            | (d, Some e) \<Rightarrow> Inl e)"

record ext4File =
  ef_num :: u32
  ef_in :: inode
  ef_offset :: int
  ef_writable :: bool

definition e4_OpenRead :: "gofile \<Rightarrow> ext4vol \<Rightarrow> gostr \<Rightarrow> ext4File res" where
  "e4_OpenRead f v nm =
     bindR (follow_inode f v nm) (\<lambda>(num, i).
       Inr \<lparr>ef_num = num, ef_in = i, ef_offset = 0, ef_writable = False\<rparr>)"

definition is_dots :: "dirEntry \<Rightarrow> bool" where
  "is_dots e \<longleftrightarrow> de_nm e = [dot] \<or> de_nm e = [dot, dot]"

text \<open>\<open>sort.Slice\<close> leaves the order of equal names open; the model keeps them in directory order.\<close>

definition e4_ReadDir :: "gofile \<Rightarrow> ext4vol \<Rightarrow> gostr \<Rightarrow> dirEntry list res" where
  "e4_ReadDir f v nm =
     bindR (follow_inode f v nm) (\<lambda>(num, i).
       if \<not> is_dir i then Inl (Err ''ext4: is not a directory'')
       else bindR (readDir f v i) (\<lambda>raw. Inr (sort_key de_nm (filter (\<lambda>e. \<not> is_dots e) raw))))"

record ext4FileInfo =
  xi_name :: gostr
  xi_in :: inode
  xi_inum :: u32

definition e4_pathBase :: "gostr \<Rightarrow> gostr" where
  "e4_pathBase p0 = (let p = Clean p0 in case LastIndex p slash of Some i \<Rightarrow> drop (i + 1) p | None \<Rightarrow> p)"

definition e4_Stat :: "gofile \<Rightarrow> ext4vol \<Rightarrow> gostr \<Rightarrow> ext4FileInfo res" where
  "e4_Stat f v nm =
     bindR (follow_inode f v nm) (\<lambda>(num, i). Inr \<lparr>xi_name = e4_pathBase nm, xi_in = i, xi_inum = num\<rparr>)"

definition e4_Lstat :: "gofile \<Rightarrow> ext4vol \<Rightarrow> gostr \<Rightarrow> ext4FileInfo res" where
  "e4_Lstat f v nm =
     bindR (nofollow_inode f v nm) (\<lambda>(num, i). Inr \<lparr>xi_name = e4_pathBase nm, xi_in = i, xi_inum = num\<rparr>)"

definition e4_Readlink :: "gofile \<Rightarrow> ext4vol \<Rightarrow> gostr \<Rightarrow> gostr res" where
  "e4_Readlink f v nm =
     bindR (nofollow_inode f v nm) (\<lambda>(num, i).
       if \<not> is_link i then Inl (Err ''ext4: is not a symlink'') else readlink f v i)"

text \<open>The bits of \<open>fs.FileMode\<close>: directory 31, symlink 27, device 26, named pipe 25, socket 24, character device 21.\<close>

definition typeMode :: "u16 \<Rightarrow> u32" where
  "typeMode fmt =
     (if fmt = modeDir then 0x80000000 else if fmt = modeLnk then 0x08000000
      else if fmt = 0x2000 then 0x04200000 else if fmt = 0x6000 then 0x04000000
      else if fmt = 0x1000 then 0x02000000 else if fmt = 0xC000 then 0x01000000 else 0)"

definition inodeMode :: "inode \<Rightarrow> u32" where
  "inodeMode i = ucast (i_mode i AND 0x1FF) OR typeMode (i_mode i AND modeFmt)"

text \<open>\<open>FileMode.Type\<close> keeps the type bits.\<close>

definition dirEntryType :: "gofile \<Rightarrow> ext4vol \<Rightarrow> dirEntry \<Rightarrow> u32 res" where
  "dirEntryType f v d =
     (if es_featureIncompat (e_sb v) AND 2 \<noteq> 0 \<and> 1 \<le> de_fileType d \<and> de_fileType d \<le> 7
      then Inr ([0, 0x80000000, 0x04200000, 0x04000000, 0x02000000, 0x01000000, 0x08000000] ! (unat (de_fileType d) - 1))
      else case readInode f v (de_inode d) of
             Inr i \<Rightarrow> Inr (inodeMode i AND 0x8F280000)
           | Inl e \<Rightarrow> if crash e then Inl e else Inr 0)"

text \<open>The methods of the file information: size, mode, modification time and directory flag.\<close>

definition xi_Size :: "ext4FileInfo \<Rightarrow> int" where
  "xi_Size fi = inodeFileSize (xi_in fi)"

definition xi_Mode :: "ext4FileInfo \<Rightarrow> u32" where
  "xi_Mode fi = inodeMode (xi_in fi)"

definition xi_ModTime :: "ext4FileInfo \<Rightarrow> int" where
  "xi_ModTime fi = ext4ToTime (i_mtime (xi_in fi))"

definition xi_IsDir :: "ext4FileInfo \<Rightarrow> bool" where
  "xi_IsDir fi = is_dir (xi_in fi)"

definition dirEntryInfo :: "gofile \<Rightarrow> ext4vol \<Rightarrow> dirEntry \<Rightarrow> ext4FileInfo res" where
  "dirEntryInfo f v d =
     bindR (readInode f v (de_inode d)) (\<lambda>i. Inr \<lparr>xi_name = de_nm d, xi_in = i, xi_inum = de_inode d\<rparr>)"

subsection \<open>Handles\<close>

definition ef_Read :: "gofile \<Rightarrow> ext4vol \<Rightarrow> nat \<Rightarrow> ext4File \<Rightarrow> (bytes \<times> goerr option) \<times> ext4File" where
  "ef_Read f v n h =
     (let r = readFileRange f v (ef_in h) (nat (ef_offset h)) n
      in (r, h\<lparr>ef_offset := ef_offset h + int (length (fst r))\<rparr>))"

definition ef_Seek :: "int \<Rightarrow> int \<Rightarrow> (ext4File, int) sop" where
  "ef_Seek offset whence h =
     (let o1 = (if whence = 0 then offset
                else if whence = 1 then wrap64 (ef_offset h + offset)
                else if whence = 2 then wrap64 (inodeFileSize (ef_in h) + offset)
                else ef_offset h);
          o2 = (if o1 < 0 then 0 else o1)
      in (Inr o2, h\<lparr>ef_offset := o2\<rparr>))"

definition ef_ReadDir :: "gofile \<Rightarrow> ext4vol \<Rightarrow> ext4File \<Rightarrow> int \<Rightarrow> dirEntry list res" where
  "ef_ReadDir f v h n =
     bindR (readDir f v (ef_in h)) (\<lambda>es.
       let out = filter (\<lambda>e. \<not> is_dots e) es
       in Inr (if 0 < n \<and> n < int (length out) then take (nat n) out else out))"

end
