(* ===== verification/Ext4Flush.thy ===== *)
theory Ext4Flush
  imports Ext4Read
begin

text \<open>
  Writing an ext4 volume back (\<open>src/ext4/flush.go\<close>) and the journal (\<open>src/ext4/journal.go\<close>).  The
  staged inodes are laid into the blocks of the inode tables in the order \<open>ord\<close> in which the Go
  map yields them; the staged blocks follow in ascending order.
\<close>

unbundle bit_operations_syntax

subsection \<open>Flushing\<close>

definition flushInode :: "gofile \<Rightarrow> u32 \<times> bytes \<Rightarrow> (ext4vol, unit) sop" where
  "flushInode f = (\<lambda>(num, raw). updS (\<lambda>v.
     bindR (inodeBlockGroup v num) (\<lambda>grp.
     bindR (inodeLocalIndex v num) (\<lambda>idx.
     bindR (inodeTableBlock v grp) (\<lambda>tb.
       if bsz v = 0 then div_panic
       else let off = unat idx * isz v; blk = tb + of_nat (off div bsz v); pos = off mod bsz v in
            bindR (wrapR ''ext4: flush inode: read table block'' (readBlock f v blk)) (\<lambda>b.
              if length b < pos + isz v then bounds_panic
              else Inr (writeBlock blk (copy_into b pos (take (isz v) raw)) v)))))))"

definition writeBlockDirect :: "ext4vol \<Rightarrow> u64 \<Rightarrow> bytes \<Rightarrow> gofile \<Rightarrow> unit res \<times> gofile" where
  "writeBlockDirect v blk data f =
     (if \<not> e_wa v then (Inl (Err ''ext4: no writable backend (read-only image?)''), f)
      else case WriteAt f data (wrap64 (e_srOffset v + blk_off v blk)) of
             (Inl e, f') \<Rightarrow> (Inl (Wrapped ''ext4: write block'' e), f') | (Inr _, f') \<Rightarrow> (Inr (), f'))"

text \<open>The blocks are removed from the map as they are written.\<close>

fun flush_blocks :: "u64 list \<Rightarrow> gofile \<times> ext4vol \<Rightarrow> unit res \<times> (gofile \<times> ext4vol)" where
  "flush_blocks [] s = (Inr (), s)"
| "flush_blocks (blk # blks) (f, v) =
     (case writeBlockDirect v blk (case map_of (e_dirty v) blk of Some d \<Rightarrow> d | None \<Rightarrow> []) f of
        (Inl e, f') \<Rightarrow> (Inl e, (f', v))
      | (Inr _, f') \<Rightarrow> flush_blocks blks (f', v\<lparr>e_dirty := AList.delete blk (e_dirty v)\<rparr>))"

definition dirty_keys :: "ext4vol \<Rightarrow> u64 list" where
  "dirty_keys v = sort (remdups (map fst (e_dirty v)))"

definition e4_flush :: "((u32 \<times> bytes) list \<Rightarrow> (u32 \<times> bytes) list) \<Rightarrow> gofile \<times> ext4vol \<Rightarrow> unit res \<times> (gofile \<times> ext4vol)" where
  "e4_flush ord = (\<lambda>(f, v).
     case for_each (flushInode f) (ord (e_dirtyInodes v)) v of
       (Inl e, v1) \<Rightarrow> (Inl e, (f, v1))
     | (Inr _, v1) \<Rightarrow> let v2 = v1\<lparr>e_dirtyInodes := []\<rparr> in flush_blocks (dirty_keys v2) (f, v2))"

definition e4_Unmount :: "((u32 \<times> bytes) list \<Rightarrow> (u32 \<times> bytes) list) \<Rightarrow> gofile \<Rightarrow> ext4vol \<Rightarrow> unit res \<times> gofile \<times> ext4vol" where
  "e4_Unmount ord f v = e4_flush ord (f, v)"

subsection \<open>The journal\<close>

record journalSuperblock =
  jsb_blockSize :: u32
  jsb_maxLen :: u32
  jsb_firstBlock :: u32
  jsb_sequence :: u32
  jsb_start :: u32

text \<open>A \<open>nil\<close> journal is \<open>None\<close>.\<close>

definition loadJournal :: "gofile \<Rightarrow> ext4vol \<Rightarrow> journalSuperblock option res" where
  "loadJournal f v =
     (if es_featureCompat (e_sb v) AND 4 = 0 then Inr None
      else let jino = (if es_journalInum (e_sb v) = 0 then 8 else es_journalInum (e_sb v)) in
        bindR (case readInode f v jino of
                 Inl e \<Rightarrow> Inl (if crash e then e else Wrapped ''ext4: read journal inode'' e) | Inr i \<Rightarrow> Inr i) (\<lambda>i.
        bindR (case logicalToPhysical f v i 0 of
                 Inl e \<Rightarrow> Inl (if crash e then e else Err ''ext4: journal block 0 not found'')
               | Inr p \<Rightarrow> if p = 0 then Inl (Err ''ext4: journal block 0 not found'') else Inr p) (\<lambda>p.
        bindR (readBlock f v p) (\<lambda>b.
          if length b < 32 then bounds_panic
          else if get32be b 0 \<noteq> 0xC03B3998 then Inl (Err ''ext4: bad journal magic'')
          else Inr (Some \<lparr>jsb_blockSize = get32be b 12, jsb_maxLen = get32be b 16, jsb_firstBlock = get32be b 20,
                 jsb_sequence = get32be b 24, jsb_start = get32be b 28\<rparr>)))))"

text \<open>\<open>commitJournal\<close> does nothing on either of its paths.\<close>

definition commitJournal :: "(ext4vol, unit) sop" where
  "commitJournal = retS ()"

end
