(* ===== verification/Ext4Alloc.thy ===== *)
theory Ext4Alloc
  imports Ext4Open
begin

text \<open>
  The block and inode allocators of the ext4 driver and the staging of superblock and group
  descriptors (\<open>src/ext4/alloc.go\<close>).  A group that cannot serve a request answers with an error,
  which the search over the groups skips; a panic ends the search.
\<close>

unbundle bit_operations_syntax

subsection \<open>Bitmaps\<close>

text \<open>The first clear bit from \<open>i\<close> on, with \<open>k\<close> bits to look at; the answer -1 is \<open>None\<close>.\<close>

fun find_bit :: "bytes \<Rightarrow> nat \<Rightarrow> nat \<Rightarrow> nat option res" where
  "find_bit bm i k =
     (if k = 0 then Inr None
      else if length bm \<le> i div 8 then index_panic
      else if drop_bit (i mod 8) (bm ! (i div 8)) AND 1 = 0 then Inr (Some i)
      else find_bit bm (i + 1) (k - 1))"

declare find_bit.simps [simp del]

definition findFreeBit :: "bytes \<Rightarrow> nat \<Rightarrow> nat option res" where
  "findFreeBit bm limit = find_bit bm 0 limit"

definition setBit :: "bytes \<Rightarrow> nat \<Rightarrow> bytes res" where
  "setBit bm b = (if length bm \<le> b div 8 then index_panic else Inr (or_bit b bm))"

definition clear_bit_of :: "nat \<Rightarrow> bytes \<Rightarrow> bytes" where
  "clear_bit_of b bm = bm[b div 8 := bm ! (b div 8) AND NOT (push_bit (b mod 8) 1)]"

definition clearBit :: "bytes \<Rightarrow> nat \<Rightarrow> bytes res" where
  "clearBit bm b = (if length bm \<le> b div 8 then index_panic else Inr (clear_bit_of b bm))"

subsection \<open>Superblock and descriptors\<close>

text \<open>
  \<open>writeSuperblock\<close> takes the bytes on disk, whatever the read could deliver, and lays the
  tracked fields over them; the block around them comes from \<open>readBlock\<close>, whose error leaves a
  nil slice, and slicing that panics.
\<close>

definition superblock_bytes :: "u32 \<Rightarrow> gofile \<Rightarrow> ext4vol \<Rightarrow> bytes" where
  "superblock_bytes now f v =
     puts [(0, le32 (es_inodesCount (e_sb v))), (4, le32 (es_blocksCountLo (e_sb v))),
           (12, le32 (es_freeBlocksLo (e_sb v))), (16, le32 (es_freeInodes (e_sb v))), (48, le32 now)]
       (copy_into (zeros 1024) 0 (fst (SecReadAt f (e_sr v) 1024 sbOffset)))"

definition writeSuperblock :: "u32 \<Rightarrow> gofile \<Rightarrow> (ext4vol, unit) sop" where
  "writeSuperblock now f = updS (\<lambda>v.
     let sbBlock = (if es_blockSize (e_sb v) = 1024 then 1 else 0) in
     case readBlock f v sbBlock of
       Inl e \<Rightarrow> bounds_panic
     | Inr blk \<Rightarrow>
         if bsz v = 0 then div_panic
         else let off = 1024 mod bsz v in
              if length blk < off + 1024 then bounds_panic
              else Inr (writeBlock sbBlock (copy_into blk off (superblock_bytes now f v)) v))"

definition gd_puts :: "nat \<Rightarrow> nat \<Rightarrow> groupDesc \<Rightarrow> (nat \<times> bytes) list" where
  "gd_puts ds off gd =
     [(off, le32 (gd_blockBitmapLo gd)), (off + 4, le32 (gd_inodeBitmapLo gd)), (off + 8, le32 (gd_inodeTableLo gd)),
      (off + 12, le16 (gd_freeBlocksLo gd)), (off + 14, le16 (gd_freeInodesLo gd)), (off + 16, le16 (gd_usedDirsLo gd)),
      (off + 18, le16 (gd_flags gd))] @
     (if 64 \<le> ds
      then [(off + 32, le32 (gd_blockBitmapHi gd)), (off + 36, le32 (gd_inodeBitmapHi gd)),
            (off + 40, le32 (gd_inodeTableHi gd)), (off + 44, le16 (gd_freeBlocksHi gd)),
            (off + 46, le16 (gd_freeInodesHi gd)), (off + 48, le16 (gd_usedDirsHi gd))] else [])"

definition gdt_block :: "ext4vol \<Rightarrow> u32 \<Rightarrow> u64" where
  "gdt_block v grp =
     ucast (es_firstDataBlock (e_sb v)) + 1 + (ucast grp * ucast (es_descSize (e_sb v))) div ucast (es_blockSize (e_sb v))"

definition gdt_pos :: "ext4vol \<Rightarrow> u32 \<Rightarrow> nat" where
  "gdt_pos v grp = (unat grp * unat (es_descSize (e_sb v))) mod bsz v"

definition set_group :: "u32 \<Rightarrow> groupDesc \<Rightarrow> ext4vol \<Rightarrow> ext4vol" where
  "set_group grp gd v = v\<lparr>e_groups := (e_groups v)[unat grp := gd]\<rparr>"

definition writeGroupDesc :: "gofile \<Rightarrow> u32 \<Rightarrow> groupDesc \<Rightarrow> (ext4vol, unit) sop" where
  "writeGroupDesc f grp gd =
     bindS (updS (\<lambda>v. if length (e_groups v) \<le> unat grp then index_panic else Inr (set_group grp gd v))) (\<lambda>_.
     updS (\<lambda>v.
       if bsz v = 0 then div_panic
       else case readBlock f v (gdt_block v grp) of
              Inl e \<Rightarrow> bounds_panic
            | Inr b \<Rightarrow>
                let off = gdt_pos v grp; ds = unat (es_descSize (e_sb v)) in
                if length b < off + (if 64 \<le> ds then 50 else 20) then bounds_panic
                else Inr (writeBlock (gdt_block v grp) (puts (gd_puts ds off gd) b) v)))"

definition set_sb :: "(superblock \<Rightarrow> superblock) \<Rightarrow> (ext4vol, unit) sop" where
  "set_sb g = modS (\<lambda>v. v\<lparr>e_sb := g (e_sb v)\<rparr>)"

subsection \<open>Blocks\<close>

definition gd_freeBlocks :: "groupDesc \<Rightarrow> u32" where
  "gd_freeBlocks gd = ucast (gd_freeBlocksLo gd) OR push_bit 16 (ucast (gd_freeBlocksHi gd))"

definition gd_set_freeBlocks :: "u32 \<Rightarrow> groupDesc \<Rightarrow> groupDesc" where
  "gd_set_freeBlocks n gd = gd\<lparr>gd_freeBlocksLo := ucast n, gd_freeBlocksHi := ucast (drop_bit 16 n)\<rparr>"

definition gd_blockBitmap :: "groupDesc \<Rightarrow> u64" where
  "gd_blockBitmap gd = join_hi (gd_blockBitmapLo gd) (gd_blockBitmapHi gd)"

definition gd_inodeBitmap :: "groupDesc \<Rightarrow> u64" where
  "gd_inodeBitmap gd = join_hi (gd_inodeBitmapLo gd) (gd_inodeBitmapHi gd)"

definition group_start :: "superblock \<Rightarrow> u32 \<Rightarrow> u64" where
  "group_start sb grp = ucast grp * ucast (es_blocksPerGroup sb) + (if es_firstDataBlock sb = 1 then 1 else 0)"

text \<open>The first clear bit of the bitmap block, with the bitmap in which it is set.\<close>

definition take_bit_of :: "gofile \<Rightarrow> ext4vol \<Rightarrow> u64 \<Rightarrow> nat \<Rightarrow> (nat \<times> bytes) res" where
  "take_bit_of f v blk limit =
     bindR (readBlock f v blk) (\<lambda>bm.
     bindR (findFreeBit bm limit) (\<lambda>o'. case o' of
       None \<Rightarrow> Inl (Err ''group bitmap has no free bit'')
     | Some b \<Rightarrow> bindR (setBit bm b) (\<lambda>bm'. Inr (b, bm'))))"

definition allocBlockInGroup :: "u32 \<Rightarrow> gofile \<Rightarrow> u32 \<Rightarrow> (ext4vol, u64) sop" where
  "allocBlockInGroup now f grp =
     bindS (readS (\<lambda>v. group_at v grp)) (\<lambda>gd.
       let free = gd_freeBlocks gd in
       if free = 0 then failS (Err ''group full'')
       else bindS (readS (\<lambda>v. take_bit_of f v (gd_blockBitmap gd) (unat (es_blocksPerGroup (e_sb v))))) (\<lambda>(b, bm).
         bindS (modS (writeBlock (gd_blockBitmap gd) bm)) (\<lambda>_.
         bindS (writeGroupDesc f grp (gd_set_freeBlocks (free - 1) gd)) (\<lambda>_.
         bindS (set_sb (\<lambda>sb. sb\<lparr>es_freeBlocksLo := es_freeBlocksLo sb - 1\<rparr>)) (\<lambda>_.
         bindS (writeSuperblock now f) (\<lambda>_.
           readS (\<lambda>v. Inr (group_start (e_sb v) grp + of_nat b))))))))"

text \<open>The groups are tried in turn; \<open>(preferGroup + i) % groups\<close> on \<open>uint32\<close>.\<close>

fun try_groups :: "goerr \<Rightarrow> (u32 \<Rightarrow> (ext4vol, 'a) sop) \<Rightarrow> u32 list \<Rightarrow> (ext4vol, 'a) sop" where
  "try_groups none m [] = failS none"
| "try_groups none m (g # gs) =
     tryS (m g) (\<lambda>r. case r of Inr a \<Rightarrow> retS a | Inl e \<Rightarrow> try_groups none m gs)"

definition group_order :: "u32 \<Rightarrow> ext4vol \<Rightarrow> u32 list" where
  "group_order prefer v =
     (let n = length (e_groups v) in map (\<lambda>i. (prefer + of_nat i) mod of_nat n) [0..<n])"

definition allocBlock :: "u32 \<Rightarrow> gofile \<Rightarrow> u32 \<Rightarrow> (ext4vol, u64) sop" where
  "allocBlock now f prefer =
     (\<lambda>v. try_groups (Err ''ext4: no free blocks'') (allocBlockInGroup now f) (group_order prefer v) v)"

definition freeBlock :: "u32 \<Rightarrow> gofile \<Rightarrow> u64 \<Rightarrow> (ext4vol, unit) sop" where
  "freeBlock now f blk =
     bindS (readS (\<lambda>v. if es_blocksPerGroup (e_sb v) = 0 then div_panic else Inr (e_sb v))) (\<lambda>sb.
       let start = (if es_firstDataBlock sb = 1 then 1 else 0);
           n = ucast (es_blocksPerGroup sb);
           grp = ucast ((blk - start) div n);
           b = unat ((blk - start) mod n)
       in bindS (readS (\<lambda>v. group_at v grp)) (\<lambda>gd.
          bindS (readS (\<lambda>v. readBlock f v (gd_blockBitmap gd))) (\<lambda>bm.
          bindS (readS (\<lambda>v. clearBit bm b)) (\<lambda>bm'.
          bindS (modS (writeBlock (gd_blockBitmap gd) bm')) (\<lambda>_.
          bindS (writeGroupDesc f grp (gd_set_freeBlocks (gd_freeBlocks gd + 1) gd)) (\<lambda>_.
          bindS (set_sb (\<lambda>sb. sb\<lparr>es_freeBlocksLo := es_freeBlocksLo sb + 1\<rparr>)) (\<lambda>_.
            writeSuperblock now f)))))))"

subsection \<open>Inodes\<close>

definition allocInodeInGroup :: "u32 \<Rightarrow> gofile \<Rightarrow> bool \<Rightarrow> u32 \<Rightarrow> (ext4vol, u32) sop" where
  "allocInodeInGroup now f isDir grp =
     bindS (readS (\<lambda>v. group_at v grp)) (\<lambda>gd.
       if gd_freeInodesLo gd = 0 then failS (Err ''group inode table full'')
       else bindS (readS (\<lambda>v. take_bit_of f v (gd_inodeBitmap gd) (unat (es_inodesPerGroup (e_sb v))))) (\<lambda>(b, bm).
         bindS (modS (writeBlock (gd_inodeBitmap gd) bm)) (\<lambda>_.
         bindS (writeGroupDesc f grp (gd\<lparr>gd_freeInodesLo := gd_freeInodesLo gd - 1,
                  gd_usedDirsLo := (if isDir then gd_usedDirsLo gd + 1 else gd_usedDirsLo gd)\<rparr>)) (\<lambda>_.
         bindS (set_sb (\<lambda>sb. sb\<lparr>es_freeInodes := es_freeInodes sb - 1\<rparr>)) (\<lambda>_.
         bindS (writeSuperblock now f) (\<lambda>_.
           readS (\<lambda>v. Inr (grp * es_inodesPerGroup (e_sb v) + of_nat b + 1))))))))"

text \<open>The group with the most free inodes, by its low 16 bits; the first of several.\<close>

definition best_group :: "u32 \<Rightarrow> ext4vol \<Rightarrow> u32" where
  "best_group prefer v =
     fst (foldl (\<lambda>(best, bestFree) g.
            let n = ucast (gd_freeInodesLo (e_groups v ! g)) :: u32
            in if bestFree < n then (of_nat g, n) else (best, bestFree))
          (prefer, 0) [0..<length (e_groups v)])"

definition allocInode :: "u32 \<Rightarrow> gofile \<Rightarrow> u32 \<Rightarrow> bool \<Rightarrow> (ext4vol, u32) sop" where
  "allocInode now f prefer isDir =
     (\<lambda>v. try_groups (Err ''ext4: no free inodes'') (allocInodeInGroup now f isDir)
            (group_order (if isDir then best_group prefer v else prefer) v) v)"

text \<open>\<open>freeInode\<close> returns silently when the bitmap cannot be read.\<close>

definition freeInode :: "u32 \<Rightarrow> gofile \<Rightarrow> u32 \<Rightarrow> (ext4vol, unit) sop" where
  "freeInode now f ino =
     bindS (readS (\<lambda>v. inodeBlockGroup v ino)) (\<lambda>grp.
     bindS (readS (\<lambda>v. inodeLocalIndex v ino)) (\<lambda>idx.
     bindS (readS (\<lambda>v. group_at v grp)) (\<lambda>gd.
     tryS (readS (\<lambda>v. readBlock f v (gd_inodeBitmap gd))) (\<lambda>r. case r of
         Inl e \<Rightarrow> retS ()
       | Inr bm \<Rightarrow>
           bindS (readS (\<lambda>v. clearBit bm (unat idx))) (\<lambda>bm'.
           bindS (modS (writeBlock (gd_inodeBitmap gd) bm')) (\<lambda>_.
           bindS (writeGroupDesc f grp (gd\<lparr>gd_freeInodesLo := gd_freeInodesLo gd + 1\<rparr>)) (\<lambda>_.
           bindS (set_sb (\<lambda>sb. sb\<lparr>es_freeInodes := es_freeInodes sb + 1\<rparr>)) (\<lambda>_.
             writeSuperblock now f))))))))"

end
