(* ===== verification/Ext4Write.thy ===== *)
theory Ext4Write
  imports Ext4Read Ext4Alloc
begin

text \<open>
  The writing half of the ext4 driver (\<open>src/ext4/write.go\<close>, \<open>src/ext4/meta.go\<close>).  The functions
  that get a pointer to an inode besides the volume work on the pair of both.  \<open>now\<close> is the time
  that \<open>nowSec\<close> gives during the operation.
\<close>

unbundle bit_operations_syntax

subsection \<open>Volume and inode\<close>

definition onVol :: "(ext4vol, 'a) sop \<Rightarrow> (ext4vol \<times> inode, 'a) sop" where
  "onVol m = (\<lambda>(v, i). case m v of (r, v') \<Rightarrow> (r, (v', i)))"

definition setInode :: "(inode \<Rightarrow> inode) \<Rightarrow> (ext4vol \<times> inode, unit) sop" where
  "setInode g = modS (\<lambda>(v, i). (v, g i))"

text \<open>\<open>v.writeInode(num, in)\<close> with the inode the pointer shows.\<close>

definition storeInode :: "gofile \<Rightarrow> u32 \<Rightarrow> (ext4vol \<times> inode, unit) sop" where
  "storeInode f num = (\<lambda>(v, i). onVol (writeInode f num i) (v, i))"

definition allocNear :: "u32 \<Rightarrow> gofile \<Rightarrow> u32 \<Rightarrow> (ext4vol, u64) sop" where
  "allocNear now f num = bindS (readS (\<lambda>v. inodeBlockGroup v num)) (allocBlock now f)"

subsection \<open>Growing the extent tree\<close>

definition leaf_puts :: "nat \<Rightarrow> u32 \<Rightarrow> u64 \<Rightarrow> u16 \<Rightarrow> (nat \<times> bytes) list" where
  "leaf_puts off lb pb cnt =
     [(off, le32 lb), (off + 4, le16 cnt), (off + 6, le16 (ucast (drop_bit 32 pb))), (off + 8, le32 (ucast pb))]"

definition header_puts :: "u16 \<Rightarrow> u16 \<Rightarrow> u16 \<Rightarrow> (nat \<times> bytes) list" where
  "header_puts entries mx depth =
     [(0, le16 0xF30A), (2, le16 entries), (4, le16 mx), (6, le16 depth), (8, le32 0)]"

definition max_leaf :: "ext4vol \<Rightarrow> nat" where
  "max_leaf v = (bsz v - 12) div 12"

definition set_i_block :: "bytes \<Rightarrow> inode \<Rightarrow> inode" where
  "set_i_block b i = i\<lparr>i_block := b\<rparr>"

text \<open>The promotion of four inline extents to a leaf block below an index of one entry.\<close>

definition promoteExtents :: "u32 \<Rightarrow> gofile \<Rightarrow> u32 \<Rightarrow> extentHeader \<Rightarrow> (ext4vol \<times> inode, unit) sop" where
  "promoteExtents now f num hdr =
     bindS (onVol (allocNear now f num)) (\<lambda>blk.
     bindS (updS (\<lambda>(v, i).
       let n = unat (eh_entries hdr) * 12 in
       if bsz v < 12 \<or> length (i_block i) < 12 + n then bounds_panic
       else let leaf = puts (header_puts (eh_entries hdr) (of_nat (max_leaf v)) 0 @ [(12, sub (i_block i) 12 n)]) (zeros (bsz v))
            in Inr (writeBlock blk leaf v, i))) (\<lambda>_.
     setInode (set_i_block
       (puts (header_puts 1 4 1 @ [(12, le32 0), (16, le32 (ucast blk)), (20, le16 (ucast (drop_bit 32 blk)))]) (zeros 60)))))"

text \<open>The block that the last of \<open>n\<close> index entries names.\<close>

definition last_child :: "bytes \<Rightarrow> nat \<Rightarrow> u64 res" where
  "last_child raw n =
     (if length raw < n * 12 + 10 then bounds_panic
      else Inr (ucast (get32 raw (n * 12 + 4)) OR push_bit 32 (ucast (get16 raw (n * 12 + 8)))))"

definition appendLeaf :: "u32 \<Rightarrow> gofile \<Rightarrow> u32 \<Rightarrow> u32 \<Rightarrow> u64 \<Rightarrow> u16 \<Rightarrow> (ext4vol \<times> inode, unit) sop" where
  "appendLeaf now f num lb pb cnt =
     bindS (readS (\<lambda>(v, i). parseExtentHeader (i_block i))) (\<lambda>hdr.
     let n = unat (eh_entries hdr) in
     bindS (readS (\<lambda>(v, i). last_child (i_block i) n)) (\<lambda>child.
     bindS (readS (\<lambda>(v, i). readBlock f v child)) (\<lambda>leaf.
     bindS (readS (\<lambda>_. parseExtentHeader leaf)) (\<lambda>lh. \<lambda>(v, i).
       if unat (eh_entries lh) < max_leaf v
       then bindS (modS (\<lambda>(v, i). (writeBlock child
              (puts (leaf_puts (12 + unat (eh_entries lh) * 12) lb pb cnt @ [(2, le16 (eh_entries lh + 1))]) leaf) v, i)))
              (\<lambda>_. storeInode f num) (v, i)
       else bindS (onVol (allocNear now f num)) (\<lambda>blk.
            bindS (modS (\<lambda>(v, i). (writeBlock blk
              (puts (header_puts 1 (of_nat (max_leaf v)) 0 @ leaf_puts 12 lb pb cnt) (zeros (bsz v))) v, i))) (\<lambda>_.
            bindS (if n < 4
                   then setInode (\<lambda>i. set_i_block (puts
                     [(12 + n * 12, le32 lb), (12 + n * 12 + 4, le32 (ucast blk)),
                      (12 + n * 12 + 8, le16 (ucast (drop_bit 32 blk))), (2, le16 (eh_entries hdr + 1))] (i_block i)) i)
                   else retS ()) (\<lambda>_.
            storeInode f num))) (v, i)))))"

definition appendExtentIndirect :: "u32 \<Rightarrow> gofile \<Rightarrow> u32 \<Rightarrow> u32 \<Rightarrow> u64 \<Rightarrow> u16 \<Rightarrow> (ext4vol \<times> inode, unit) sop" where
  "appendExtentIndirect now f num lb pb cnt =
     bindS (readS (\<lambda>(v, i). parseExtentHeader (i_block i))) (\<lambda>hdr.
     bindS (if eh_depth hdr = 0 then promoteExtents now f num hdr else retS ()) (\<lambda>_.
       appendLeaf now f num lb pb cnt))"

definition appendExtentToInode :: "u32 \<Rightarrow> gofile \<Rightarrow> u32 \<Rightarrow> u32 \<Rightarrow> u64 \<Rightarrow> u16 \<Rightarrow> (ext4vol \<times> inode, unit) sop" where
  "appendExtentToInode now f num lb pb cnt =
     bindS (readS (\<lambda>(v, i). parseExtentHeader (i_block i))) (\<lambda>hdr0.
     bindS (if eh_magic hdr0 \<noteq> 0xF30A
            then setInode (\<lambda>i. set_i_block (puts (header_puts 0 4 0) (i_block i)) i) else retS ()) (\<lambda>_.
     bindS (readS (\<lambda>(v, i). parseExtentHeader (i_block i))) (\<lambda>hdr.
       if eh_depth hdr = 0 \<and> eh_entries hdr < 4
       then bindS (setInode (\<lambda>i. set_i_block (puts
              (leaf_puts (12 + unat (eh_entries hdr) * 12) lb pb cnt @ [(2, le16 (eh_entries hdr + 1))]) (i_block i)) i))
              (\<lambda>_. storeInode f num)
       else appendExtentIndirect now f num lb pb cnt)))"

subsection \<open>Writing file contents\<close>

text \<open>The block to change: the one mapped there, or a new one of zeros that is entered in the extent tree.\<close>

definition block_for_write :: "u32 \<Rightarrow> gofile \<Rightarrow> u32 \<Rightarrow> u32 \<Rightarrow> (ext4vol \<times> inode, u64 \<times> bytes) sop" where
  "block_for_write now f num lb =
     bindS (readS (\<lambda>(v, i). logicalToPhysical f v i lb)) (\<lambda>p.
       if p = 0
       then bindS (onVol (wrapS ''ext4: alloc block'' (allocNear now f num))) (\<lambda>p'.
            bindS (readS (\<lambda>(v, i). Inr (zeros (bsz v)))) (\<lambda>b.
            bindS (appendExtentToInode now f num lb p' 1) (\<lambda>_. retS (p', b))))
       else bindS (readS (\<lambda>(v, i). readBlock f v p)) (\<lambda>b. retS (p, b)))"

text \<open>The loop of \<open>writeFileRange\<close>: the number of bytes written and the error, as Go returns them.\<close>

function write_range :: "u32 \<Rightarrow> gofile \<Rightarrow> u32 \<Rightarrow> nat \<Rightarrow> bytes \<Rightarrow> ext4vol \<times> inode \<Rightarrow> (nat \<times> goerr option) \<times> (ext4vol \<times> inode)" where
  "write_range now f num off data s =
     (if data = [] then ((0, None), s)
      else if bsz (fst s) = 0 then ((0, Some (Panic ''integer divide by zero'')), s)
      else (case block_for_write now f num (of_nat (off div bsz (fst s))) s of
              (Inl e, s') \<Rightarrow> ((0, Some e), s')
            | (Inr (p, b), s') \<Rightarrow>
                let o' = off mod bsz (fst s);
                    c = min (bsz (fst s) - o') (length data)
                in (case write_range now f num (off + c) (drop c data)
                          (writeBlock p (copy_into b o' (take c data)) (fst s'), snd s') of
                      ((n, e), t) \<Rightarrow> ((c + n, e), t))))"
  by pat_completeness auto

termination
  by (relation "measure (\<lambda>(now, f, num, off, data, s). length data)") auto

declare write_range.simps [simp del]

definition set_size :: "int \<Rightarrow> inode \<Rightarrow> inode" where
  "set_size n i = i\<lparr>i_sizeLo := of_int n, i_sizeHi := of_int (n div 2 ^ 32)\<rparr>"

text \<open>The size grows only when the whole range has been written.\<close>

definition writeFileRange :: "u32 \<Rightarrow> gofile \<Rightarrow> u32 \<Rightarrow> nat \<Rightarrow> bytes \<Rightarrow> ext4vol \<times> inode \<Rightarrow> (nat \<times> goerr option) \<times> (ext4vol \<times> inode)" where
  "writeFileRange now f num off data s =
     (if data = [] then ((0, None), s)
      else case write_range now f num off data s of
        ((n, Some e), t) \<Rightarrow> ((n, Some e), t)
      | ((n, None), t) \<Rightarrow>
          let newSize = wrap64 (int off + int n) in
          if inodeFileSize (snd t) < newSize
          then (case bindS (setInode (\<lambda>i. (set_size newSize i)\<lparr>i_mtime := now, i_ctime := now\<rparr>)) (\<lambda>_. storeInode f num) t of
                  (Inl e, t') \<Rightarrow> ((n, Some e), t') | (Inr _, t') \<Rightarrow> ((n, None), t'))
          else ((n, None), t))"

text \<open>The callers that look at the error only.\<close>

definition write_all :: "u32 \<Rightarrow> gofile \<Rightarrow> u32 \<Rightarrow> bytes \<Rightarrow> (ext4vol \<times> inode, unit) sop" where
  "write_all now f num data s =
     (case writeFileRange now f num 0 data s of
        ((n, Some e), t) \<Rightarrow> (Inl e, t) | ((n, None), t) \<Rightarrow> (Inr (), t))"

text \<open>\<open>ext4File.Write\<close>: afterwards the handle takes the inode anew, when it can be read.\<close>

definition ef_Write :: "u32 \<Rightarrow> gofile \<Rightarrow> bytes \<Rightarrow> ext4vol \<times> ext4File \<Rightarrow> (nat \<times> goerr option) \<times> (ext4vol \<times> ext4File)" where
  "ef_Write now f p = (\<lambda>(v, h).
     if \<not> ef_writable h then ((0, Some (Err ''ext4: file not open for writing'')), (v, h))
     else case writeFileRange now f (ef_num h) (nat (ef_offset h)) p (v, ef_in h) of
            ((n, e), (v', i')) \<Rightarrow>
              let h' = h\<lparr>ef_in := (case readInode f v' (ef_num h) of Inr i \<Rightarrow> i | Inl _ \<Rightarrow> i'),
                         ef_offset := wrap64 (ef_offset h + int n)\<rparr>
              in ((n, e), (v', h')))"

end
