(* ===== verification/Ext4Ops.thy ===== *)
theory Ext4Ops
  imports Ext4Write
begin

text \<open>
  Directory changes and the operations of an ext4 volume (\<open>src/ext4/write.go\<close>,
  \<open>src/ext4/meta.go\<close>).  Where the code looks at an error and goes on, or drops it, only returned
  errors are meant: a panic ends the operation (\<open>tryS\<close>).
\<close>

unbundle bit_operations_syntax

subsection \<open>Directory entries\<close>

definition entry_size :: "nat \<Rightarrow> nat" where
  "entry_size n = (8 + n + 3) div 4 * 4"

text \<open>The record written at \<open>pos\<close>; \<open>byte(nameLen)\<close> keeps the low 8 bits of the length.\<close>

definition put_entry :: "nat \<Rightarrow> nat \<Rightarrow> u32 \<Rightarrow> gostr \<Rightarrow> u8 \<Rightarrow> bytes \<Rightarrow> bytes" where
  "put_entry pos recLen child nm ft b =
     puts [(pos, le32 child), (pos + 4, le16 (of_nat recLen)), (pos + 6, [of_nat (length nm)]), (pos + 7, [ft]), (pos + 8, nm)] b"

text \<open>The search of a block for room: the changed block, or \<open>None\<close>.\<close>

function add_in_block :: "u32 \<Rightarrow> gostr \<Rightarrow> u8 \<Rightarrow> bytes \<Rightarrow> nat \<Rightarrow> bytes option res" where
  "add_in_block child nm ft b pos =
     (if length b \<le> pos then Inr None
      else if length b < pos + 7 then bounds_panic
      else let ino = get32 b pos; recLen = unat (get16 b (pos + 4)); minSize = entry_size (unat (b ! (pos + 6)))
           in if recLen = 0 then Inr None
              else if ino = 0 \<and> entry_size (length nm) \<le> recLen
              then (if length b < pos + 8 then bounds_panic else Inr (Some (put_entry pos recLen child nm ft b)))
              else if ino \<noteq> 0 \<and> minSize + entry_size (length nm) \<le> recLen
              then (if length b < pos + minSize + 8 then bounds_panic
                    else Inr (Some (put_entry (pos + minSize) (recLen - minSize) child nm ft
                                      (put16 b (pos + 4) (of_nat minSize)))))
              else add_in_block child nm ft b (pos + recLen))"
  by pat_completeness auto

termination
  by (relation "measure (\<lambda>(child, nm, ft, b, pos). length b - pos)") auto

declare add_in_block.simps [simp del]

text \<open>
  The loops over the blocks of a directory stop at the first block that \<open>g\<close> changes.  They read
  the block the extent tree names, block 0 for a hole.
\<close>

fun change_first :: "gofile \<Rightarrow> inode \<Rightarrow> (bytes \<Rightarrow> bytes option res) \<Rightarrow> nat list \<Rightarrow> (ext4vol, bool) sop" where
  "change_first f i g [] = retS False"
| "change_first f i g (k # ks) =
     bindS (readS (\<lambda>v. logicalToPhysical f v i (of_nat k))) (\<lambda>p.
     bindS (readS (\<lambda>v. readBlock f v p)) (\<lambda>b.
     bindS (readS (\<lambda>_. g b)) (\<lambda>o'. case o' of
       Some b' \<Rightarrow> bindS (modS (writeBlock p b')) (\<lambda>_. retS True)
     | None \<Rightarrow> change_first f i g ks)))"

definition change_dir :: "gofile \<Rightarrow> inode \<Rightarrow> (bytes \<Rightarrow> bytes option res) \<Rightarrow> (ext4vol, bool) sop" where
  "change_dir f i g = (\<lambda>v.
     if inodeFileSize i \<le> 0 then (Inr False, v)
     else if bsz v = 0 then (div_panic, v)
     else bindS (change_first f i g [0..<dir_rounds v i]) (\<lambda>done.
            if \<not> done \<and> 2 ^ 63 \<le> int (dir_rounds v i) * int (bsz v) then failS Diverge else retS done) v)"

definition touch :: "u32 \<Rightarrow> inode \<Rightarrow> inode" where
  "touch now i = i\<lparr>i_mtime := now, i_ctime := now\<rparr>"

text \<open>The new block of \<open>addDirEntry\<close>, and the steps that enter it in the directory.\<close>

definition grow_dir :: "u32 \<Rightarrow> gofile \<Rightarrow> u32 \<Rightarrow> inode \<Rightarrow> u32 \<Rightarrow> gostr \<Rightarrow> u8 \<Rightarrow> (ext4vol, unit) sop" where
  "grow_dir now f dirIno dirIn child nm ft =
     bindS (allocNear now f dirIno) (\<lambda>blk.
     bindS (updS (\<lambda>v. if bsz v < 8 then bounds_panic
                      else Inr (writeBlock blk (put_entry 0 (bsz v) child nm ft (zeros (bsz v))) v))) (\<lambda>_.
     (\<lambda>v. let fileSize = inodeFileSize dirIn; b = int (bsz v) in
       case bindS (appendExtentToInode now f dirIno (of_int (quot fileSize b)) blk 1) (\<lambda>_.
            bindS (setInode (\<lambda>i. (touch now i)\<lparr>i_sizeLo := of_int (fileSize + b)\<rparr>)) (\<lambda>_. storeInode f dirIno)) (v, dirIn)
       of (r, (v', _)) \<Rightarrow> (r, v'))))"

definition e4_addDirEntry :: "u32 \<Rightarrow> gofile \<Rightarrow> u32 \<Rightarrow> gostr \<Rightarrow> u32 \<Rightarrow> u8 \<Rightarrow> (ext4vol, unit) sop" where
  "e4_addDirEntry now f dirIno nm child ft =
     bindS (readS (\<lambda>v. readInode f v dirIno)) (\<lambda>dirIn.
     bindS (change_dir f dirIn (\<lambda>b. add_in_block child nm ft b 0)) (\<lambda>done.
       if done then retS () else grow_dir now f dirIno dirIn child nm ft))"

text \<open>\<open>prev\<close> is the position of the entry before, if any.\<close>

function remove_in_block :: "gostr \<Rightarrow> bytes \<Rightarrow> nat option \<Rightarrow> nat \<Rightarrow> bytes option res" where
  "remove_in_block nm b prev pos =
     (if length b \<le> pos then Inr None
      else if length b < pos + 7 then bounds_panic
      else let ino = get32 b pos; recLen = unat (get16 b (pos + 4)); n = unat (b ! (pos + 6))
           in if recLen = 0 then Inr None
              else if length b < pos + 8 + n then bounds_panic
              else if ino \<noteq> 0 \<and> sub b (pos + 8) n = nm
              then Inr (Some (case prev of
                     None \<Rightarrow> put32 b pos 0
                   | Some p \<Rightarrow> put16 (put32 b pos 0) (p + 4)
                       (of_nat (unat (get16 (put32 b pos 0) (p + 4)) + recLen))))
              else remove_in_block nm b (Some pos) (pos + recLen))"
  by pat_completeness auto

termination
  by (relation "measure (\<lambda>(nm, b, prev, pos). length b - pos)") auto

declare remove_in_block.simps [simp del]

definition e4_removeDirEntry :: "u32 \<Rightarrow> gofile \<Rightarrow> u32 \<Rightarrow> gostr \<Rightarrow> (ext4vol, unit) sop" where
  "e4_removeDirEntry now f dirIno nm =
     bindS (readS (\<lambda>v. readInode f v dirIno)) (\<lambda>dirIn.
     bindS (change_dir f dirIn (\<lambda>b. remove_in_block nm b None 0)) (\<lambda>done.
       if done then writeInode f dirIno (touch now dirIn) else failS (Err ''ext4: not found in directory'')))"

subsection \<open>Files\<close>

definition lookupVol :: "gofile \<Rightarrow> gostr \<Rightarrow> (ext4vol, u32) sop" where
  "lookupVol f nm = readS (\<lambda>v. e4_lookupPath f v nm)"

definition followVol :: "gofile \<Rightarrow> gostr \<Rightarrow> (ext4vol, u32) sop" where
  "followVol f nm = readS (\<lambda>v. lookupPathFollow f v nm)"

definition inodeVol :: "gofile \<Rightarrow> u32 \<Rightarrow> (ext4vol, inode) sop" where
  "inodeVol f num = readS (\<lambda>v. readInode f v num)"

text \<open>Go's zero value of \<open>inode\<close>.\<close>

definition inode0 :: inode where
  "inode0 = \<lparr>i_mode = 0, i_uid = 0, i_sizeLo = 0, i_atime = 0, i_ctime = 0, i_mtime = 0, i_dtime = 0, i_gid = 0,
     i_linksCount = 0, i_blocksLo = 0, i_flags = 0, i_block = zeros 60, i_generation = 0, i_fileAclLo = 0,
     i_sizeHi = 0, i_blocksHi = 0, i_fileAclHi = 0, i_uidHi = 0, i_gidHi = 0, i_extraIsize = 0, i_ctimeExtra = 0,
     i_mtimeExtra = 0, i_atimeExtra = 0, i_crtime = 0\<rparr>"

text \<open>A fresh inode with an empty extent tree.\<close>

definition new_inode :: "u32 \<Rightarrow> u16 \<Rightarrow> u16 \<Rightarrow> inode" where
  "new_inode now mode links =
     inode0\<lparr>i_mode := mode, i_linksCount := links, i_atime := now, i_ctime := now, i_mtime := now,
       i_flags := inodeFlagExtents, i_block := puts (header_puts 0 4 0) (zeros 60)\<rparr>"

definition perm_bits :: "u32 \<Rightarrow> u16" where
  "perm_bits perm = ucast (perm AND 0x1FF)"

text \<open>An operation on an inode of its own, of which the caller keeps the volume and the inode.\<close>

definition withInode :: "inode \<Rightarrow> (ext4vol \<times> inode, unit) sop \<Rightarrow> (ext4vol, inode) sop" where
  "withInode i m v = (case m (v, i) of (Inl e, (v', _)) \<Rightarrow> (Inl e, v') | (Inr _, (v', i')) \<Rightarrow> (Inr i', v'))"

definition e4_createFile :: "u32 \<Rightarrow> gofile \<Rightarrow> gostr \<Rightarrow> bytes \<Rightarrow> u32 \<Rightarrow> (ext4vol, unit) sop" where
  "e4_createFile now f nm data perm =
     (case parent_base nm of (dir, base) \<Rightarrow>
        bindS (wrapS ''ext4: create: parent dir'' (followVol f dir)) (\<lambda>dirIno.
        bindS (inodeVol f dirIno) (\<lambda>dirIn.
        bindS (readS (\<lambda>v. inodeBlockGroup v dirIno)) (\<lambda>grp.
        bindS (allocInode now f grp False) (\<lambda>newIno.
        let newIn = new_inode now (0x8000 OR perm_bits perm) 1 in
        bindS (writeInode f newIno newIn) (\<lambda>_.
        bindS (withInode newIn (write_all now f newIno data)) (\<lambda>_.
        bindS (e4_addDirEntry now f dirIno base newIno 1) (\<lambda>_.
          writeInode f dirIno (touch now dirIn)))))))))"

definition truncated :: "inode \<Rightarrow> inode" where
  "truncated i = i\<lparr>i_sizeLo := 0, i_sizeHi := 0\<rparr>"

definition e4_WriteFile :: "u32 \<Rightarrow> gofile \<Rightarrow> gostr \<Rightarrow> bytes \<Rightarrow> u32 \<Rightarrow> (ext4vol, unit) sop" where
  "e4_WriteFile now f nm data perm =
     tryS (lookupVol f nm) (\<lambda>r. case r of
       Inl _ \<Rightarrow> e4_createFile now f nm data perm
     | Inr num \<Rightarrow>
         bindS (inodeVol f num) (\<lambda>i.
         let i' = (truncated i)\<lparr>i_mtime := now\<rparr> in
         bindS (writeInode f num i') (\<lambda>_.
         bindS (withInode i' (write_all now f num data)) (\<lambda>_. retS ()))))"

text \<open>\<open>in, _ := v.readInode(num)\<close>.\<close>

definition inode_or_zero :: "gofile \<Rightarrow> u32 \<Rightarrow> (ext4vol, inode) sop" where
  "inode_or_zero f num = tryS (inodeVol f num) (\<lambda>r. retS (case r of Inr i \<Rightarrow> i | Inl _ \<Rightarrow> inode0))"

definition ignoreS :: "(ext4vol, 'a) sop \<Rightarrow> (ext4vol, unit) sop" where
  "ignoreS m = tryS m (\<lambda>_. retS ())"

definition e4_Create :: "u32 \<Rightarrow> gofile \<Rightarrow> gostr \<Rightarrow> (ext4vol, ext4File) sop" where
  "e4_Create now f nm =
     bindS (tryS (e4_createFile now f nm [] 0x1A4) (\<lambda>r. case r of
       Inr _ \<Rightarrow> retS ()
     | Inl e \<Rightarrow> tryS (lookupVol f nm) (\<lambda>r2. case r2 of
         Inl _ \<Rightarrow> failS e
       | Inr num \<Rightarrow> bindS (inode_or_zero f num) (\<lambda>i. ignoreS (writeInode f num (truncated i)))))) (\<lambda>_.
     bindS (lookupVol f nm) (\<lambda>num.
     bindS (inodeVol f num) (\<lambda>i.
       retS \<lparr>ef_num = num, ef_in = i, ef_offset = 0, ef_writable = True\<rparr>)))"

text \<open>The flags of \<open>OpenFile\<close> as booleans: writable, \<open>O_CREATE\<close>, \<open>O_TRUNC\<close>, \<open>O_EXCL\<close>, \<open>O_APPEND\<close>.\<close>

record openFlags =
  fl_writable :: bool
  fl_create :: bool
  fl_trunc :: bool
  fl_excl :: bool
  fl_append :: bool

definition open_num :: "u32 \<Rightarrow> gofile \<Rightarrow> gostr \<Rightarrow> openFlags \<Rightarrow> u32 \<Rightarrow> (ext4vol, u32) sop" where
  "open_num now f nm fl perm =
     tryS (lookupVol f nm) (\<lambda>r. case r of
       Inl e \<Rightarrow>
         if \<not> fl_create fl then failS e
         else bindS (e4_createFile now f nm [] perm) (\<lambda>_.
              tryS (lookupVol f nm) (\<lambda>r2. retS (case r2 of Inr n \<Rightarrow> n | Inl _ \<Rightarrow> 0)))
     | Inr num \<Rightarrow> if fl_excl fl then failS (Err ''ext4: already exists'') else retS num)"

definition e4_OpenFile :: "u32 \<Rightarrow> gofile \<Rightarrow> gostr \<Rightarrow> openFlags \<Rightarrow> u32 \<Rightarrow> (ext4vol, ext4File) sop" where
  "e4_OpenFile now f nm fl perm =
     bindS (open_num now f nm fl perm) (\<lambda>num.
     bindS (inodeVol f num) (\<lambda>i.
     let i' = (if fl_trunc fl \<and> fl_writable fl then (truncated i)\<lparr>i_mtime := now\<rparr> else i) in
     bindS (if fl_trunc fl \<and> fl_writable fl then ignoreS (writeInode f num i') else retS ()) (\<lambda>_.
       retS \<lparr>ef_num = num, ef_in = i', ef_offset = (if fl_append fl then inodeFileSize i' else 0),
             ef_writable = fl_writable fl\<rparr>)))"

subsection \<open>Directories\<close>

definition e4_mkdir :: "u32 \<Rightarrow> gofile \<Rightarrow> gostr \<Rightarrow> u32 \<Rightarrow> (ext4vol, unit) sop" where
  "e4_mkdir now f nm perm =
     (case parent_base nm of (dir, base) \<Rightarrow>
        bindS (wrapS ''ext4: mkdir: parent'' (followVol f dir)) (\<lambda>dirIno.
        bindS (readS (\<lambda>v. inodeBlockGroup v dirIno)) (\<lambda>grp.
        bindS (allocInode now f grp True) (\<lambda>newIno.
        bindS (writeInode f newIno (new_inode now (0x4000 OR perm_bits perm) 2)) (\<lambda>_.
        bindS (e4_addDirEntry now f newIno [dot] newIno 2) (\<lambda>_.
        bindS (e4_addDirEntry now f newIno [dot, dot] dirIno 2) (\<lambda>_.
        bindS (e4_addDirEntry now f dirIno base newIno 2) (\<lambda>_.
        bindS (inodeVol f dirIno) (\<lambda>dirIn.
          writeInode f dirIno (touch now (dirIn\<lparr>i_linksCount := i_linksCount dirIn + 1\<rparr>)))))))))))"

fun e4_mkdir_parts :: "u32 \<Rightarrow> gofile \<Rightarrow> u32 \<Rightarrow> gostr \<Rightarrow> gostr list \<Rightarrow> (ext4vol, unit) sop" where
  "e4_mkdir_parts now f perm cur [] = retS ()"
| "e4_mkdir_parts now f perm cur (part # rest) =
     (if part = [] then e4_mkdir_parts now f perm cur rest
      else let cur' = path_Join cur part in
           bindS (tryS (lookupVol f cur') (\<lambda>r. case r of Inr _ \<Rightarrow> retS () | Inl _ \<Rightarrow> e4_mkdir now f cur' perm))
             (\<lambda>_. e4_mkdir_parts now f perm cur' rest))"

definition e4_MkdirAll :: "u32 \<Rightarrow> gofile \<Rightarrow> gostr \<Rightarrow> u32 \<Rightarrow> (ext4vol, unit) sop" where
  "e4_MkdirAll now f p perm = e4_mkdir_parts now f perm [slash] (Split (tl (Clean (slash # p))) slash)"

subsection \<open>Removing\<close>

definition e4_remove :: "u32 \<Rightarrow> gofile \<Rightarrow> gostr \<Rightarrow> bool \<Rightarrow> (ext4vol, unit) sop" where
  "e4_remove now f nm allowDir =
     (case parent_base nm of (dir, base) \<Rightarrow>
        bindS (followVol f dir) (\<lambda>dirIno.
        bindS (lookupVol f nm) (\<lambda>num.
        bindS (inodeVol f num) (\<lambda>i.
          if is_dir i \<and> \<not> allowDir then failS (Err ''ext4: is a directory'')
          else bindS (e4_removeDirEntry now f dirIno base) (\<lambda>_.
               let i1 = i\<lparr>i_linksCount := i_linksCount i - 1, i_ctime := now\<rparr>;
                   i2 = (if i_linksCount i1 = 0 then i1\<lparr>i_dtime := now\<rparr> else i1)
               in bindS (if i_linksCount i1 = 0 then freeInode now f num else retS ()) (\<lambda>_.
                  writeInode f num i2))))))"

definition e4_Remove :: "u32 \<Rightarrow> gofile \<Rightarrow> gostr \<Rightarrow> (ext4vol, unit) sop" where
  "e4_Remove now f nm = e4_remove now f nm False"

text \<open>
  \<open>v.mu\<close>, a \<open>sync.Mutex\<close>: the state says whether it is held.  \<open>Lock\<close> waits until it is free; one
  goroutine that waits for a mutex it holds itself waits for ever.  The deferred \<open>Unlock\<close> runs when
  the call returns or panics.  The other operations lock once and are modelled without it.
\<close>

type_synonym locked = "bool \<times> ext4vol"

fun waits :: "'a res \<Rightarrow> bool" where
  "waits (Inl Diverge) = True"
| "waits r = False"

definition with_mu :: "(locked, 'a) sop \<Rightarrow> (locked, 'a) sop" where
  "with_mu m = (\<lambda>(held, v).
     if held then (Inl Diverge, (held, v)) else (case m (True, v) of (r, (_, v')) \<Rightarrow> (r, (waits r, v'))))"

definition in_mu :: "(ext4vol, 'a) sop \<Rightarrow> (locked, 'a) sop" where
  "in_mu m = (\<lambda>(held, v). case m v of (r, v') \<Rightarrow> (r, (held, v')))"

text \<open>
  \<open>RemoveAll\<close> calls itself for every child; \<open>k\<close> bounds the depth of the calls, and running out is
  the error \<open>Diverge\<close>.  No call gets beyond the second level (\<open>remove_all_depth\<close>).
\<close>

fun remove_all :: "nat \<Rightarrow> u32 \<Rightarrow> gofile \<Rightarrow> gostr \<Rightarrow> (locked, unit) sop" where
  "remove_all 0 now f p = failS Diverge"
| "remove_all (Suc k) now f p =
     with_mu (tryS (in_mu (lookupVol f p)) (\<lambda>r. case r of
       Inl _ \<Rightarrow> retS ()
     | Inr num \<Rightarrow>
         bindS (in_mu (inodeVol f num)) (\<lambda>i.
         bindS (if is_dir i
                then bindS (in_mu (readS (\<lambda>v. readDir f v i))) (\<lambda>es.
                       for_each (\<lambda>e. remove_all k now f (path_Join p (de_nm e))) (filter (\<lambda>e. \<not> is_dots e) es))
                else retS ()) (\<lambda>_.
           in_mu (e4_remove now f p True)))))"

definition e4_RemoveAll :: "u32 \<Rightarrow> gofile \<Rightarrow> gostr \<Rightarrow> (locked, unit) sop" where
  "e4_RemoveAll now f p = remove_all 2 now f p"

subsection \<open>Renaming and linking\<close>

definition entry_type :: "inode \<Rightarrow> u8" where
  "entry_type i = (if is_dir i then 2 else if is_link i then 7 else 1)"

text \<open>\<open>entries, _ := v.readDir(&in)\<close>.\<close>

definition entries_or_none :: "gofile \<Rightarrow> inode \<Rightarrow> (ext4vol, dirEntry list) sop" where
  "entries_or_none f i = tryS (readS (\<lambda>v. readDir f v i)) (\<lambda>r. retS (case r of Inr es \<Rightarrow> es | Inl _ \<Rightarrow> []))"

definition drop_target :: "u32 \<Rightarrow> gofile \<Rightarrow> gostr \<Rightarrow> u32 \<Rightarrow> gostr \<Rightarrow> (ext4vol, unit) sop" where
  "drop_target now f newpath newDirIno newBase =
     tryS (lookupVol f newpath) (\<lambda>r. case r of
       Inl _ \<Rightarrow> retS ()
     | Inr destIno \<Rightarrow>
         bindS (inode_or_zero f destIno) (\<lambda>d.
         bindS (if is_dir d then entries_or_none f d else retS []) (\<lambda>es.
           if 2 < length es then failS (Err ''ext4: rename: destination directory not empty'')
           else ignoreS (e4_removeDirEntry now f newDirIno newBase))))"

definition move_dotdot :: "u32 \<Rightarrow> gofile \<Rightarrow> inode \<Rightarrow> u32 \<Rightarrow> u32 \<Rightarrow> (ext4vol, unit) sop" where
  "move_dotdot now f i target newDirIno =
     bindS (entries_or_none f i) (\<lambda>es.
       if list_ex (\<lambda>e. de_nm e = [dot, dot]) es
       then bindS (ignoreS (e4_removeDirEntry now f target [dot, dot])) (\<lambda>_.
              ignoreS (e4_addDirEntry now f target [dot, dot] newDirIno 2))
       else retS ())"

definition e4_Rename :: "u32 \<Rightarrow> gofile \<Rightarrow> gostr \<Rightarrow> gostr \<Rightarrow> (ext4vol, unit) sop" where
  "e4_Rename now f oldpath newpath =
     (case parent_base oldpath of (oldDir, oldBase) \<Rightarrow> case parent_base newpath of (newDir, newBase) \<Rightarrow>
        bindS (followVol f oldDir) (\<lambda>oldDirIno.
        bindS (followVol f newDir) (\<lambda>newDirIno.
        bindS (lookupVol f oldpath) (\<lambda>target.
        bindS (inodeVol f target) (\<lambda>i.
        bindS (drop_target now f newpath newDirIno newBase) (\<lambda>_.
        bindS (e4_addDirEntry now f newDirIno newBase target (entry_type i)) (\<lambda>_.
        bindS (e4_removeDirEntry now f oldDirIno oldBase) (\<lambda>_.
        bindS (if oldDirIno \<noteq> newDirIno \<and> is_dir i then move_dotdot now f i target newDirIno else retS ()) (\<lambda>_.
          writeInode f target (i\<lparr>i_ctime := now\<rparr>))))))))))"

definition e4_Symlink :: "u32 \<Rightarrow> gofile \<Rightarrow> gostr \<Rightarrow> gostr \<Rightarrow> (ext4vol, unit) sop" where
  "e4_Symlink now f oldname newname =
     (case parent_base newname of (dir, base) \<Rightarrow>
        bindS (followVol f dir) (\<lambda>dirIno.
        bindS (readS (\<lambda>v. inodeBlockGroup v dirIno)) (\<lambda>grp.
        bindS (allocInode now f grp False) (\<lambda>newIno.
        let new = inode0\<lparr>i_mode := 0xA000 OR 0x1FF, i_linksCount := 1, i_atime := now, i_ctime := now, i_mtime := now\<rparr>;
            len = of_nat (length oldname) :: u32 in
        bindS (if length oldname < 60
               then retS (new\<lparr>i_block := copy_into (zeros 60) 0 oldname, i_sizeLo := len\<rparr>)
               else let ext = new\<lparr>i_flags := inodeFlagExtents, i_block := puts (header_puts 0 4 0) (zeros 60)\<rparr> in
                    bindS (writeInode f newIno ext) (\<lambda>_.
                    bindS (withInode ext (write_all now f newIno oldname)) (\<lambda>i. retS (i\<lparr>i_sizeLo := len\<rparr>)))) (\<lambda>i.
        bindS (writeInode f newIno i) (\<lambda>_.
          e4_addDirEntry now f dirIno base newIno 7))))))"

definition e4_Link :: "u32 \<Rightarrow> gofile \<Rightarrow> gostr \<Rightarrow> gostr \<Rightarrow> (ext4vol, unit) sop" where
  "e4_Link now f oldname newname =
     bindS (lookupVol f oldname) (\<lambda>num.
     bindS (inodeVol f num) (\<lambda>i.
       if is_dir i then failS (Err ''ext4: link: cannot hard-link directories'')
       else case parent_base newname of (dir, base) \<Rightarrow>
         bindS (followVol f dir) (\<lambda>dirIno.
         bindS (e4_addDirEntry now f dirIno base num (if is_link i then 7 else 1)) (\<lambda>_.
           writeInode f num (i\<lparr>i_linksCount := i_linksCount i + 1, i_ctime := now\<rparr>)))))"

subsection \<open>Metadata\<close>

definition change_inode :: "gofile \<Rightarrow> gostr \<Rightarrow> (inode \<Rightarrow> inode) \<Rightarrow> (ext4vol, unit) sop" where
  "change_inode f nm g =
     bindS (followVol f nm) (\<lambda>num. bindS (inodeVol f num) (\<lambda>i. writeInode f num (g i)))"

definition e4_Chmod :: "u32 \<Rightarrow> gofile \<Rightarrow> gostr \<Rightarrow> u32 \<Rightarrow> (ext4vol, unit) sop" where
  "e4_Chmod now f nm mode =
     change_inode f nm (\<lambda>i. i\<lparr>i_mode := (i_mode i AND modeFmt) OR perm_bits mode, i_ctime := now\<rparr>)"

text \<open>\<open>uid & 0xFFFF\<close> and \<open>uid >> 16\<close> of an \<open>int\<close>, cut to 16 bits.\<close>

definition e4_Chown :: "u32 \<Rightarrow> gofile \<Rightarrow> gostr \<Rightarrow> int \<Rightarrow> int \<Rightarrow> (ext4vol, unit) sop" where
  "e4_Chown now f nm uid gid =
     change_inode f nm (\<lambda>i. i\<lparr>i_uid := of_int uid, i_uidHi := of_int (uid div 2 ^ 16),
       i_gid := of_int gid, i_gidHi := of_int (gid div 2 ^ 16), i_ctime := now\<rparr>)"

definition e4_Chtimes :: "u32 \<Rightarrow> gofile \<Rightarrow> gostr \<Rightarrow> int \<Rightarrow> int \<Rightarrow> (ext4vol, unit) sop" where
  "e4_Chtimes now f nm atime mtime =
     change_inode f nm (\<lambda>i. i\<lparr>i_atime := timeToExt4 atime, i_mtime := timeToExt4 mtime, i_ctime := now\<rparr>)"

definition openFileCheck :: "gostr \<Rightarrow> unit res" where
  "openFileCheck nm = guardR (nm \<noteq> []) (Err ''ext4: empty path'')"

end
