(* ===== verification/Ext4Store.thy ===== *)
theory Ext4Store
  imports Ext4Flush Ext4Ops BlockStore
begin

text \<open>
  Blocks and inodes of the ext4 driver as stores: the contents of a block (\<open>blkv\<close>), the round trip
  of an inode through its bytes, and what staging a block or an inode changes.
\<close>

unbundle bit_operations_syntax

subsection \<open>Geometry\<close>

definition geo :: "gofile \<Rightarrow> ext4vol \<Rightarrow> bool" where
  "geo f v \<longleftrightarrow> \<not> closed f \<and> 0 \<le> sec_base (e_sr v) \<and> sec_limit (e_sr v) \<le> int (length (contents f)) \<and>
     sec_size (e_sr v) < 2 ^ 63 \<and> 1024 \<le> bsz v \<and> (\<forall>p \<in> set (e_dirty v). length (snd p) = bsz v)"

text \<open>A block inside the partition, and what it holds.\<close>

definition vblk :: "ext4vol \<Rightarrow> u64 \<Rightarrow> bool" where
  "vblk v n \<longleftrightarrow> int ((unat n + 1) * bsz v) \<le> sec_size (e_sr v)"

definition blkv :: "gofile \<Rightarrow> ext4vol \<Rightarrow> u64 \<Rightarrow> bytes" where
  "blkv f v n = (case map_of (e_dirty v) n of Some d \<Rightarrow> d
     | None \<Rightarrow> sub (contents f) (nat (sec_base (e_sr v)) + unat n * bsz v) (bsz v))"

lemma geoD:
  assumes "geo f v"
  shows "\<not> closed f" "0 \<le> sec_base (e_sr v)" "sec_limit (e_sr v) \<le> int (length (contents f))" "sec_size (e_sr v) < 2 ^ 63"
    "1024 \<le> bsz v" "0 < bsz v"
proof -
  note g = assms [unfolded geo_def]
  show "\<not> closed f" "0 \<le> sec_base (e_sr v)" "sec_limit (e_sr v) \<le> int (length (contents f))" "sec_size (e_sr v) < 2 ^ 63" "1024 \<le> bsz v"
    using g by blast+
  then show "0 < bsz v" by linarith
qed

lemma geo_dirty: "geo f v \<Longrightarrow> map_of (e_dirty v) n = Some d \<Longrightarrow> length d = bsz v"
  unfolding geo_def using map_of_SomeD [of "e_dirty v" n d] by fastforce

lemma bsz_uint: "uint (es_blockSize (e_sb v)) = int (bsz v)"
  unfolding bsz_def by (rule uint_nat)

lemma blk_off_valid:
  assumes "geo f v" "vblk v n"
  shows "blk_off v n = int (unat n * bsz v)"
proof -
  have "unat n * bsz v \<le> (unat n + 1) * bsz v" by simp
  then have "int (unat n * bsz v) < 2 ^ 63" using assms(2) geoD(4) [OF assms(1)] unfolding vblk_def by linarith
  moreover have "- (2 ^ 63) \<le> int (unat n * bsz v)" by (rule order_trans [of _ 0]) simp_all
  ultimately have "wrap64 (int (unat n * bsz v)) = int (unat n * bsz v)" by (intro wrap64_id)
  then show ?thesis unfolding blk_off_def bsz_uint unfolding uint_nat of_nat_mult .
qed

lemma block_in_image:
  assumes "geo f v" "vblk v n"
  shows "nat (sec_base (e_sr v)) + unat n * bsz v + bsz v \<le> length (contents f)"
proof -
  have "int (unat n * bsz v + bsz v) \<le> sec_limit (e_sr v) - sec_base (e_sr v)" using assms(2) by (simp add: vblk_def sec_size_def)
  then show ?thesis using geoD [OF assms(1)] by linarith
qed

lemma length_blkv: "geo f v \<Longrightarrow> vblk v n \<Longrightarrow> length (blkv f v n) = bsz v"
  using block_in_image [of f v n] geo_dirty [of f v n] by (auto simp: blkv_def split: option.split)

lemma readBlock_blkv:
  assumes "geo f v" "vblk v n"
  shows "readBlock f v n = Inr (blkv f v n)"
proof -
  note g = geoD [OF assms(1)]
  have v: "int (unat n * bsz v + bsz v) \<le> sec_size (e_sr v)" using assms(2) by (simp add: vblk_def)
  have "SecReadAt f (e_sr v) (bsz v) (int (unat n * bsz v)) =
      (sub (contents f) (nat (sec_base (e_sr v) + int (unat n * bsz v))) (bsz v), None)"
    using g v by (intro SecReadAt_inside) (simp_all add: nat_le_iff del: of_nat_mult)
  moreover have "nat (sec_base (e_sr v) + int (unat n * bsz v)) = nat (sec_base (e_sr v)) + unat n * bsz v"
    using g(2) by (simp add: nat_add_distrib del: of_nat_mult)
  ultimately show ?thesis
    by (simp add: readBlock_def blkv_def blk_off_valid [OF assms] wrapR_def split: option.split del: of_nat_mult)
qed

lemma geo_writeBlock: "geo f v \<Longrightarrow> geo f (writeBlock n d v)"
  by (auto simp: geo_def writeBlock_def bsz_def dest!: set_AList_update)

lemma writeBlock_keeps [simp]:
  "e_sr (writeBlock n d v) = e_sr v" "e_sb (writeBlock n d v) = e_sb v" "e_groups (writeBlock n d v) = e_groups v"
  "e_dirtyInodes (writeBlock n d v) = e_dirtyInodes v" "e_wa (writeBlock n d v) = e_wa v" "e_srOffset (writeBlock n d v) = e_srOffset v"
  "bsz (writeBlock n d v) = bsz v" "isz (writeBlock n d v) = isz v" "vblk (writeBlock n d v) = vblk v"
  by (simp_all add: writeBlock_def bsz_def isz_def vblk_def fun_eq_iff)

lemma blkv_writeBlock: "length d = bsz v \<Longrightarrow> blkv f (writeBlock n d v) m = (if m = n then d else blkv f v m)"
  by (auto simp: blkv_def writeBlock_def [of n d] bsz_def update_conv' split: option.split)

interpretation blocks: cluster_store "readBlock f" writeBlock "geo f" vblk bsz for f
proof
  show "\<exists>d. readBlock f v n = Inr d \<and> length d = bsz v" if "geo f v" "vblk v n" for v n
    using that by (simp add: readBlock_blkv length_blkv)
  show "readBlock f (writeBlock n d v) m = (if m = n then Inr d else readBlock f v m)"
    if "geo f v" "vblk v n" "vblk v m" "length d = bsz v" for v n m d
    using that by (simp add: readBlock_blkv geo_writeBlock blkv_writeBlock)
qed (simp_all add: geo_writeBlock)

subsection \<open>Inodes as bytes\<close>

definition inode_ok :: "inode \<Rightarrow> bool" where
  "inode_ok i \<longleftrightarrow> length (i_block i) = 60"

lemma inode_puts_ascending: "inode_ok i \<Longrightarrow> ascending 0 (inode_puts i n)"
  by (simp add: inode_puts_def inode_ok_def)

lemma inode_puts_bound: "inode_ok i \<Longrightarrow> 160 \<le> n \<Longrightarrow> (off, d) \<in> set (inode_puts i n) \<Longrightarrow> off + length d \<le> 160"
  by (auto simp: inode_puts_def inode_ok_def)

text \<open>An encoded inode parses back.\<close>

lemma parse_encode:
  assumes "160 \<le> length raw" "inode_ok i"
  shows "parseInode (puts (inode_puts i (length raw)) raw) = Inr i"
proof -
  define ps where "ps = inode_puts i (length raw)"
  define raw' where "raw' = puts ps raw"
  have l: "160 \<le> length raw'" using assms(1) by (simp add: raw'_def)
  have a: "ascending 0 ps" unfolding ps_def by (rule inode_puts_ascending [OF assms(2)])
  note G = get_ascending [OF a, of _ _ raw, folded raw'_def]
  have m: "(off, d) \<in> set ps \<longleftrightarrow> (off, d) \<in> set (inode_puts i (length raw))" for off d by (simp add: ps_def)
  have g16: "get16 raw' off = w" if "(off, le16 w) \<in> set ps" for off w
    using G(1) [OF that] inode_puts_bound [OF assms(2,1), of off "le16 w"] that assms(1) by (simp add: m)
  have g32: "get32 raw' off = w" if "(off, le32 w) \<in> set ps" for off w
    using G(2) [OF that] inode_puts_bound [OF assms(2,1), of off "le32 w"] that assms(1) by (simp add: m)
  have b: "sub raw' 40 60 = i_block i"
    using puts_ascending [OF a, of 40 "i_block i" raw] assms by (simp add: raw'_def m inode_puts_def inode_ok_def)
  have f: "get16 raw' 0 = i_mode i" "get16 raw' 2 = i_uid i" "get32 raw' 4 = i_sizeLo i" "get32 raw' 8 = i_atime i"
    "get32 raw' 12 = i_ctime i" "get32 raw' 16 = i_mtime i" "get32 raw' 20 = i_dtime i" "get16 raw' 24 = i_gid i"
    "get16 raw' 26 = i_linksCount i" "get32 raw' 28 = i_blocksLo i" "get32 raw' 32 = i_flags i"
    "get32 raw' 100 = i_generation i" "get32 raw' 104 = i_fileAclLo i" "get32 raw' 108 = i_sizeHi i"
    "get16 raw' 116 = i_blocksHi i" "get16 raw' 118 = i_fileAclHi i" "get16 raw' 120 = i_uidHi i" "get16 raw' 122 = i_gidHi i"
    "get16 raw' 128 = i_extraIsize i" "get32 raw' 132 = i_ctimeExtra i" "get32 raw' 136 = i_mtimeExtra i"
    "get32 raw' 140 = i_atimeExtra i" "get32 raw' 144 = i_crtime i"
    using assms(1) by (intro g16 g32; simp add: m inode_puts_def)+
  show ?thesis unfolding ps_def [symmetric] raw'_def [symmetric] parseInode_def Let_def
    using l by (simp add: f b)
qed

text \<open>Storing a parsed inode over its own bytes changes nothing: fields the driver does not know survive.\<close>

lemma encode_parse:
  assumes "parseInode raw = Inr i"
  shows "encodeInode i raw = Inr raw"
proof -
  have l: "112 \<le> length raw" using assms by (auto simp: parseInode_def bounds_panic_def split: if_splits)
  define f16 where "f16 = (\<lambda>n off. if n \<le> length raw then get16 raw off else 0)"
  define f32 where "f32 = (\<lambda>n off. if n \<le> length raw then get32 raw off else 0)"
  have i: "i = \<lparr>i_mode = get16 raw 0, i_uid = get16 raw 2, i_sizeLo = get32 raw 4, i_atime = get32 raw 8,
          i_ctime = get32 raw 12, i_mtime = get32 raw 16, i_dtime = get32 raw 20, i_gid = get16 raw 24,
          i_linksCount = get16 raw 26, i_blocksLo = get32 raw 28, i_flags = get32 raw 32,
          i_block = sub raw 40 60, i_generation = get32 raw 100, i_fileAclLo = get32 raw 104, i_sizeHi = get32 raw 108,
          i_blocksHi = f16 128 116, i_fileAclHi = f16 128 118, i_uidHi = f16 128 120, i_gidHi = f16 128 122,
          i_extraIsize = f16 160 128, i_ctimeExtra = f32 160 132, i_mtimeExtra = f32 160 136,
          i_atimeExtra = f32 160 140, i_crtime = f32 160 144\<rparr>"
    using assms l by (simp add: parseInode_def f16_def f32_def)
  have "\<forall>(o', d) \<in> set (inode_puts i (length raw)). sub raw o' (length d) = d"
    using l by (auto simp: i inode_puts_def f16_def f32_def le16_get16 le32_get32)
  then show ?thesis using l by (simp add: encodeInode_def puts_id)
qed

lemma parse_ok: "parseInode raw = Inr i \<Longrightarrow> inode_ok i"
  by (auto simp: parseInode_def inode_ok_def bounds_panic_def Let_def split: if_splits)

end
