(* ===== verification/Ext4Volume.thy ===== *)
theory Ext4Volume
  imports Ext4Store
begin

text \<open>
  Volumes of the ext4 driver: what no operation changes, the blocks behind the allocators, and the
  agreement of the staged superblock and descriptors with the ones in memory, which makes a volume
  that is written back and opened again the same volume.
\<close>

unbundle bit_operations_syntax

subsection \<open>Consistent volumes\<close>

definition sb_static :: "superblock \<Rightarrow> superblock" where
  "sb_static sb = sb\<lparr>es_freeBlocksLo := 0, es_freeInodes := 0\<rparr>"

definition gd_static :: "groupDesc \<Rightarrow> groupDesc" where
  "gd_static gd = gd\<lparr>gd_freeBlocksLo := 0, gd_freeBlocksHi := 0, gd_freeInodesLo := 0, gd_usedDirsLo := 0\<rparr>"

text \<open>What no operation changes.\<close>

definition shape :: "ext4vol \<Rightarrow> section_reader \<times> bool \<times> int \<times> superblock \<times> groupDesc list" where
  "shape v = (e_sr v, e_wa v, e_srOffset v, sb_static (e_sb v), map gd_static (e_groups v))"

definition ngroups :: "ext4vol \<Rightarrow> nat" where "ngroups v = length (e_groups v)"
definition bpg :: "ext4vol \<Rightarrow> nat" where "bpg v = unat (es_blocksPerGroup (e_sb v))"
definition ipg :: "ext4vol \<Rightarrow> nat" where "ipg v = unat (es_inodesPerGroup (e_sb v))"
definition sb_blk :: "ext4vol \<Rightarrow> u64" where "sb_blk v = (if es_blockSize (e_sb v) = 1024 then 1 else 0)"
definition bm_blk :: "ext4vol \<Rightarrow> nat \<Rightarrow> u64" where "bm_blk v g = gd_blockBitmap (e_groups v ! g)"
definition im_blk :: "ext4vol \<Rightarrow> nat \<Rightarrow> u64" where "im_blk v g = gd_inodeBitmap (e_groups v ! g)"
definition gdt_blk :: "ext4vol \<Rightarrow> nat \<Rightarrow> u64" where "gdt_blk v g = gdt_block v (of_nat g)"

text \<open>The blocks behind the allocators.\<close>

definition meta :: "ext4vol \<Rightarrow> u64 set" where
  "meta v = insert (sb_blk v) (gdt_blk v ` {..<ngroups v} \<union> bm_blk v ` {..<ngroups v} \<union> im_blk v ` {..<ngroups v})"

definition layout_ok :: "ext4vol \<Rightarrow> bool" where
  "layout_ok v \<longleftrightarrow> 0 < ngroups v \<and> ngroups v \<le> 2 ^ 31 \<and> 0 < bpg v \<and> bpg v \<le> 8 * bsz v \<and> 0 < ipg v \<and> ipg v \<le> 8 * bsz v \<and>
     1024 mod bsz v + 1024 \<le> bsz v \<and> (\<forall>x \<in> meta v. vblk v x) \<and> (\<forall>g < ngroups v. gdt_pos v (of_nat g) + 50 \<le> bsz v) \<and>
     inj_on (bm_blk v) {..<ngroups v} \<and> inj_on (im_blk v) {..<ngroups v} \<and>
     bm_blk v ` {..<ngroups v} \<inter> im_blk v ` {..<ngroups v} = {} \<and>
     (bm_blk v ` {..<ngroups v} \<union> im_blk v ` {..<ngroups v}) \<inter> insert (sb_blk v) (gdt_blk v ` {..<ngroups v}) = {}"

lemma shape_fields:
  assumes "shape v' = shape v"
  shows "e_sr v' = e_sr v" "e_wa v' = e_wa v" "e_srOffset v' = e_srOffset v" "sb_static (e_sb v') = sb_static (e_sb v)"
    "ngroups v' = ngroups v" "map gd_static (e_groups v') = map gd_static (e_groups v)"
  using assms map_eq_imp_length_eq by (auto simp: shape_def ngroups_def)

lemma sb_static_fields:
  assumes "sb_static s' = sb_static s"
  shows "es_blockSize s' = es_blockSize s" "es_blocksPerGroup s' = es_blocksPerGroup s" "es_inodesPerGroup s' = es_inodesPerGroup s"
    "es_inodeSize s' = es_inodeSize s" "es_firstDataBlock s' = es_firstDataBlock s" "es_descSize s' = es_descSize s"
    "es_inodesCount s' = es_inodesCount s" "es_blocksCountLo s' = es_blocksCountLo s" "es_featureIncompat s' = es_featureIncompat s"
  using arg_cong [OF assms, of es_blockSize] arg_cong [OF assms, of es_blocksPerGroup] arg_cong [OF assms, of es_inodesPerGroup]
    arg_cong [OF assms, of es_inodeSize] arg_cong [OF assms, of es_firstDataBlock] arg_cong [OF assms, of es_descSize]
    arg_cong [OF assms, of es_inodesCount] arg_cong [OF assms, of es_blocksCountLo] arg_cong [OF assms, of es_featureIncompat]
  by (simp_all add: sb_static_def)

lemma gd_static_fields:
  assumes "gd_static g' = gd_static g"
  shows "gd_blockBitmap g' = gd_blockBitmap g" "gd_inodeBitmap g' = gd_inodeBitmap g"
    "gd_inodeTableLo g' = gd_inodeTableLo g" "gd_inodeTableHi g' = gd_inodeTableHi g"
  using arg_cong [OF assms, of gd_blockBitmap] arg_cong [OF assms, of gd_inodeBitmap] arg_cong [OF assms, of gd_inodeTableLo] arg_cong [OF assms, of gd_inodeTableHi]
  by (simp_all add: gd_static_def gd_blockBitmap_def gd_inodeBitmap_def)

lemma shape_derived:
  assumes "shape v' = shape v"
  shows "bsz v' = bsz v" "isz v' = isz v" "vblk v' = vblk v" "bpg v' = bpg v" "ipg v' = ipg v" "sb_blk v' = sb_blk v"
    "gdt_blk v' = gdt_blk v" "gdt_pos v' = gdt_pos v" "g < ngroups v \<Longrightarrow> bm_blk v' g = bm_blk v g" "g < ngroups v \<Longrightarrow> im_blk v' g = im_blk v g"
    "inodeBlockGroup v' = inodeBlockGroup v" "inodeLocalIndex v' = inodeLocalIndex v"
    "group_start (e_sb v') = group_start (e_sb v)"
proof -
  note s = shape_fields [OF assms] and b = sb_static_fields [OF shape_fields(4) [OF assms]]
  show "bsz v' = bsz v" "isz v' = isz v" "bpg v' = bpg v" "ipg v' = ipg v" "sb_blk v' = sb_blk v"
    by (simp_all add: bsz_def isz_def bpg_def ipg_def sb_blk_def b)
  then show "vblk v' = vblk v" "gdt_blk v' = gdt_blk v" "gdt_pos v' = gdt_pos v"
    by (simp_all add: vblk_def gdt_blk_def gdt_block_def gdt_pos_def fun_eq_iff s b)
  show "inodeBlockGroup v' = inodeBlockGroup v" "inodeLocalIndex v' = inodeLocalIndex v" "group_start (e_sb v') = group_start (e_sb v)"
    by (simp_all add: fun_eq_iff inodeBlockGroup_def inodeLocalIndex_def group_start_def b)
  have "gd_static (e_groups v' ! g) = gd_static (e_groups v ! g)" if "g < ngroups v"
    using that s(5,6) by (metis ngroups_def nth_map)
  from gd_static_fields [OF this]
  show "g < ngroups v \<Longrightarrow> bm_blk v' g = bm_blk v g" "g < ngroups v \<Longrightarrow> im_blk v' g = im_blk v g"
    by (simp_all add: bm_blk_def im_blk_def)
qed

lemma shape_meta: "shape v' = shape v \<Longrightarrow> meta v' = meta v"
  using shape_derived [of v' v] shape_fields(5) [of v' v] by (simp add: meta_def cong: image_cong_simp)

lemma shape_layout:
  assumes "shape v' = shape v"
  shows "layout_ok v' \<longleftrightarrow> layout_ok v"
proof -
  note d = shape_derived [OF assms] and n = shape_fields(5) [OF assms] and m = shape_meta [OF assms]
  have i: "inj_on (bm_blk v') {..<ngroups v} \<longleftrightarrow> inj_on (bm_blk v) {..<ngroups v}"
    "inj_on (im_blk v') {..<ngroups v} \<longleftrightarrow> inj_on (im_blk v) {..<ngroups v}"
    by (rule inj_on_cong, use d in simp)+
  have g: "bm_blk v' ` {..<ngroups v} = bm_blk v ` {..<ngroups v}" "im_blk v' ` {..<ngroups v} = im_blk v ` {..<ngroups v}"
    by (rule image_cong, use d in simp_all)+
  show ?thesis unfolding layout_ok_def n m i g d(1-8) ..
qed

subsection \<open>Staging descriptors and the superblock\<close>

lemma blkv_cong: "e_dirty v' = e_dirty v \<Longrightarrow> e_sr v' = e_sr v \<Longrightarrow> bsz v' = bsz v \<Longrightarrow> blkv f v' = blkv f v"
  by (simp add: blkv_def fun_eq_iff split: option.split)

lemma layoutD:
  assumes "layout_ok v"
  shows "0 < ngroups v" "ngroups v \<le> 2 ^ 31" "0 < bpg v" "bpg v \<le> 8 * bsz v" "0 < ipg v" "ipg v \<le> 8 * bsz v"
    "x \<in> meta v \<Longrightarrow> vblk v x" "g < ngroups v \<Longrightarrow> gdt_pos v (of_nat g) + 50 \<le> bsz v"
    "1024 mod bsz v + 1024 \<le> bsz v" "inj_on (bm_blk v) {..<ngroups v}" "inj_on (im_blk v) {..<ngroups v}"
    "bm_blk v ` {..<ngroups v} \<inter> im_blk v ` {..<ngroups v} = {}"
    "(bm_blk v ` {..<ngroups v} \<union> im_blk v ` {..<ngroups v}) \<inter> insert (sb_blk v) (gdt_blk v ` {..<ngroups v}) = {}"
  using assms unfolding layout_ok_def by blast+

lemma meta_in:
  "sb_blk v \<in> meta v" "g < ngroups v \<Longrightarrow> gdt_blk v g \<in> meta v" "g < ngroups v \<Longrightarrow> bm_blk v g \<in> meta v"
  "g < ngroups v \<Longrightarrow> im_blk v g \<in> meta v"
  by (auto simp: meta_def)

lemma unat_group: "layout_ok v \<Longrightarrow> g < ngroups v \<Longrightarrow> unat (of_nat g :: u32) = g"
  using layoutD(2) [of v] by (intro unat_of_nat32) simp

lemma writeGroupDesc_ok:
  fixes gd :: groupDesc
  assumes "geo f v" "layout_ok v" "g < ngroups v"
  defines "X \<equiv> puts (gd_puts (unat (es_descSize (e_sb v))) (gdt_pos v (of_nat g)) gd) (blkv f v (gdt_blk v g))"
  shows "length X = bsz v" "writeGroupDesc f (of_nat g) gd v = (Inr (), writeBlock (gdt_blk v g) X (set_group (of_nat g) gd v))"
proof -
  define v1 where "v1 = set_group (of_nat g) gd v"
  have k: "bsz v1 = bsz v" "e_sb v1 = e_sb v" "vblk v1 = vblk v" "gdt_block v1 = gdt_block v" "gdt_pos v1 = gdt_pos v"
    by (simp_all add: v1_def set_group_def bsz_def vblk_def gdt_block_def gdt_pos_def fun_eq_iff)
  have g1: "geo f v1" using assms(1) by (simp add: geo_def v1_def set_group_def bsz_def)
  have vb: "vblk v1 (gdt_blk v g)" using layoutD(7) [OF assms(2)] meta_in(2) [OF assms(3)] by (simp add: k)
  note rb = readBlock_blkv [OF g1 vb] and lb = length_blkv [OF g1 vb]
  have p: "gdt_pos v (of_nat g) + 50 \<le> bsz v" by (rule layoutD(8) [OF assms(2,3)])
  have b: "bsz v1 \<noteq> 0" using geoD(6) [OF g1] by simp
  have X: "X = puts (gd_puts (unat (es_descSize (e_sb v))) (gdt_pos v (of_nat g)) gd) (blkv f v1 (gdt_blk v g))"
    using blkv_cong [of v1 v f] by (simp add: X_def v1_def set_group_def bsz_def)
  have "updS (\<lambda>v. if length (e_groups v) \<le> unat (of_nat g :: u32) then index_panic else Inr (set_group (of_nat g) gd v)) v = (Inr (), v1)"
    using assms(3) unat_group [OF assms(2,3)] by (simp add: updS_def v1_def ngroups_def)
  moreover have "\<not> length (blkv f v1 (gdt_blk v g)) < gdt_pos v1 (of_nat g) + (if 64 \<le> unat (es_descSize (e_sb v1)) then 50 else 20)"
    using p lb by (simp add: k)
  ultimately have "writeGroupDesc f (of_nat g) gd v = (Inr (), writeBlock (gdt_blk v g) X v1)"
    unfolding writeGroupDesc_def using rb b
    by (simp add: bindS_eval(1) updS_def k gdt_blk_def [symmetric] X Let_def split del: if_split)
  then show "writeGroupDesc f (of_nat g) gd v = (Inr (), writeBlock (gdt_blk v g) X (set_group (of_nat g) gd v))" unfolding v1_def .
  show "length X = bsz v" using lb by (simp add: X k)
qed

lemma writeSuperblock_ok:
  fixes now :: u32
  assumes "geo f v" "layout_ok v"
  defines "X \<equiv> copy_into (blkv f v (sb_blk v)) (1024 mod bsz v) (superblock_bytes now f v)"
  shows "length X = bsz v" "writeSuperblock now f v = (Inr (), writeBlock (sb_blk v) X v)"
proof -
  have vb: "vblk v (sb_blk v)" by (rule layoutD(7) [OF assms(2) meta_in(1)])
  note rb = readBlock_blkv [OF assms(1) vb] and lb = length_blkv [OF assms(1) vb]
  show "writeSuperblock now f v = (Inr (), writeBlock (sb_blk v) X v)"
    using layoutD(9) [OF assms(2)] geoD(6) [OF assms(1)] lb rb
    unfolding writeSuperblock_def updS_def sb_blk_def [symmetric] by (simp add: X_def Let_def)
  show "length X = bsz v" using lb by (simp add: X_def)
qed

subsection \<open>Superblock and descriptors as opened again\<close>

lemma parseGroupDesc_drop:
  assumes "k + 64 \<le> length b"
  shows "parseGroupDesc 64 (drop k b) = parseGroupDesc 64 (sub b k 64)"
proof -
  have "get32 (drop k b) off = get32 (sub b k 64) off" if "off + 4 \<le> 64" for off
    using that assms by (simp add: drop_as_sub c32.get_sub)
  moreover have "get16 (drop k b) off = get16 (sub b k 64) off" if "off + 2 \<le> 64" for off
    using that assms by (simp add: drop_as_sub c16.get_sub)
  ultimately show ?thesis by (simp add: parseGroupDesc_def Let_def)
qed

lemma parse_groups_all:
  assumes "\<And>g. g \<in> set gs \<Longrightarrow> g * 64 + 64 \<le> length b \<and> sub b (g * 64) 64 = e g"
  shows "parse_groups 64 b gs = Inr (map (\<lambda>g. parseGroupDesc 64 (e g)) gs)"
  using assms
proof (induction gs)
  case (Cons g gs)
  have g: "g * 64 + 64 \<le> length b" "sub b (g * 64) 64 = e g" using Cons.prems [of g] by simp_all
  moreover have "parse_groups 64 b gs = Inr (map (\<lambda>g. parseGroupDesc 64 (e g)) gs)" using Cons by simp
  moreover have "\<not> length (drop (g * 64) b) < 32" using g(1) by simp
  ultimately show ?case by (simp add: Let_def parseGroupDesc_drop del: length_drop)
qed simp

definition disk_sb :: "gofile \<Rightarrow> ext4vol \<Rightarrow> bytes" where
  "disk_sb f v = sub (contents f) (nat (sec_base (e_sr v)) + 1024) 1024"

text \<open>The descriptor of a group as it is staged.\<close>

definition staged_gd :: "gofile \<Rightarrow> ext4vol \<Rightarrow> nat \<Rightarrow> groupDesc" where
  "staged_gd f v g = parseGroupDesc 64 (sub (blkv f v (gdt_blk v g)) (gdt_pos v (of_nat g)) 64)"

definition synced :: "gofile \<Rightarrow> ext4vol \<Rightarrow> bool" where
  "synced f v \<longleftrightarrow> bsz v = 4096 \<and> es_descSize (e_sb v) = 64 \<and> es_firstDataBlock (e_sb v) = 0 \<and> unat (es_groupCount (e_sb v)) = ngroups v \<and>
     es_magic (e_sb v) = 0xEF53 \<and> sb_static (parseSuperblock (disk_sb f v)) = sb_static (e_sb v) \<and>
     parseSuperblock (sub (blkv f v 0) 1024 1024) = e_sb v \<and> (\<forall>g < ngroups v. staged_gd f v g = e_groups v ! g) \<and>
     (\<forall>p \<in> set (e_dirty v). vblk v (fst p)) \<and> distinct (map fst (e_dirtyInodes v))"

lemma syncedD:
  assumes "synced f v"
  shows "bsz v = 4096" "es_descSize (e_sb v) = 64" "es_firstDataBlock (e_sb v) = 0" "unat (es_groupCount (e_sb v)) = ngroups v"
    "es_magic (e_sb v) = 0xEF53" "sb_static (parseSuperblock (disk_sb f v)) = sb_static (e_sb v)"
    "parseSuperblock (sub (blkv f v 0) 1024 1024) = e_sb v" "g < ngroups v \<Longrightarrow> staged_gd f v g = e_groups v ! g"
    "p \<in> set (e_dirty v) \<Longrightarrow> vblk v (fst p)" "distinct (map fst (e_dirtyInodes v))" "sb_blk v = 0"
proof -
  show b: "bsz v = 4096" using assms by (simp add: synced_def)
  then show "sb_blk v = 0" by (auto simp: sb_blk_def bsz_def)
qed (use assms in \<open>simp_all add: synced_def\<close>)

text \<open>The tracked fields of the superblock, laid over bytes with the same other fields.\<close>

lemma parse_superblock_puts:
  assumes b: "length b = 1024" and s: "sb_static (parseSuperblock b) = sb_static s"
  shows "parseSuperblock (puts [(0, le32 (es_inodesCount s)), (4, le32 (es_blocksCountLo s)), (12, le32 (es_freeBlocksLo s)),
     (16, le32 (es_freeInodes s)), (48, le32 now)] b) = s"
proof -
  define ps :: "(nat \<times> bytes) list" where "ps = [(0, le32 (es_inodesCount s)), (4, le32 (es_blocksCountLo s)), (12, le32 (es_freeBlocksLo s)), (16, le32 (es_freeInodes s)), (48, le32 now)]"
  define b' where "b' = puts ps b"
  have a: "ascending 0 ps" by (simp add: ps_def)
  note G = get_ascending(2) [OF a, of _ _ b, folded b'_def]
  have f: "get32 b' 0 = es_inodesCount s" "get32 b' 4 = es_blocksCountLo s" "get32 b' 12 = es_freeBlocksLo s" "get32 b' 16 = es_freeInodes s"
    using b by (intro G; simp add: ps_def)+
  have o': "sub b' off n = sub b off n" if "20 \<le> off" "off + n \<le> 48 \<or> 52 \<le> off" "off + n \<le> 1024" for off n
    unfolding b'_def using that b by (intro puts_other) (auto simp: ps_def le16_def le32_def)
  have lb: "length b' = 1024" using b by (simp add: b'_def)
  have g32: "get32 b' off = get32 b off" if "20 \<le> off" "off + 4 \<le> 48 \<or> 52 \<le> off" "off + 4 \<le> 1024" for off
    using o' [of off 4] that b lb c32.get_local [of off b] c32.get_local [of off b'] by simp
  have g16: "get16 b' off = get16 b off" if "52 \<le> off" "off + 2 \<le> 1024" for off
    using o' [of off 2] that b lb c16.get_local [of off b] c16.get_local [of off b'] by simp
  have n: "b' ! 372 = b ! 372" using o' [of 372 1] b lb nth_sub [of 0 1 372 b] nth_sub [of 0 1 372 b'] by simp
  have bl: "get32 b 4 = es_blocksCountLo s" "get32 b 0 = es_inodesCount s"
    using sb_static_fields(7,8) [OF s] by (simp_all add: parseSuperblock_def Let_def)
  have "parseSuperblock b' = (parseSuperblock b)\<lparr>es_freeBlocksLo := es_freeBlocksLo s, es_freeInodes := es_freeInodes s\<rparr>"
    unfolding parseSuperblock_def Let_def by (simp add: f g32 g16 n bl o')
  also have "\<dots> = (sb_static (parseSuperblock b))\<lparr>es_freeBlocksLo := es_freeBlocksLo s, es_freeInodes := es_freeInodes s\<rparr>"
    by (simp add: sb_static_def)
  also have "\<dots> = s" unfolding s by (simp add: sb_static_def)
  finally show ?thesis by (simp only: b'_def ps_def)
qed

lemma superblock_bytes_parse:
  assumes g: "geo f v" and "vblk v 0" "bsz v = 4096" "sb_static (parseSuperblock (disk_sb f v)) = sb_static (e_sb v)"
  shows "length (superblock_bytes now f v) = 1024" "parseSuperblock (superblock_bytes now f v) = e_sb v"
proof -
  have v: "4096 \<le> sec_size (e_sr v)" using assms(2,3) by (simp add: vblk_def)
  have "SecReadAt f (e_sr v) 1024 sbOffset = (sub (contents f) (nat (sec_base (e_sr v) + 1024)) 1024, None)"
    using geoD [OF g] v unfolding sbOffset_def by (intro SecReadAt_inside) (simp_all add: nat_le_iff)
  then have r: "fst (SecReadAt f (e_sr v) 1024 sbOffset) = disk_sb f v" using geoD(2) [OF g] by (simp add: disk_sb_def nat_add_distrib)
  have "nat (sec_base (e_sr v)) + 4096 \<le> length (contents f)" using geoD [OF g] v by (simp add: sec_size_def)
  then have l: "length (disk_sb f v) = 1024" by (simp add: disk_sb_def)
  then have c: "copy_into (zeros 1024) 0 (disk_sb f v) = disk_sb f v" by (simp add: copy_into_def)
  show "length (superblock_bytes now f v) = 1024" by (simp add: superblock_bytes_def)
  show "parseSuperblock (superblock_bytes now f v) = e_sb v"
    unfolding superblock_bytes_def r c by (rule parse_superblock_puts [OF l assms(4)])
qed

text \<open>The fields of a descriptor, laid over its bytes, and over other bytes.\<close>

lemma gd_puts_ascending: "ascending off (gd_puts 64 off gd)"
  by (simp add: gd_puts_def)

lemma gd_puts_parse:
  assumes "off + 64 \<le> length b" "gd_checksum (parseGroupDesc 64 (sub b off 64)) = gd_checksum gd"
  shows "parseGroupDesc 64 (sub (puts (gd_puts 64 off gd) b) off 64) = gd"
proof -
  define b' where "b' = puts (gd_puts 64 off gd) b"
  have lb: "length b' = length b" by (simp add: b'_def)
  note G = get_ascending [OF gd_puts_ascending [of off gd], of _ _ b, folded b'_def]
  have g32: "get32 b' (off + k) = w" if "(off + k, le32 w) \<in> set (gd_puts 64 off gd)" "k + 4 \<le> 64" for k w
    using G(2) [OF that(1)] that(2) assms(1) by simp
  have g16: "get16 b' (off + k) = w" if "(off + k, le16 w) \<in> set (gd_puts 64 off gd)" "k + 2 \<le> 64" for k w
    using G(1) [OF that(1)] that(2) assms(1) by simp
  have s32: "get32 (sub b' off 64) k = get32 b' (off + k)" if "k + 4 \<le> 64" for k using that assms(1) lb by (simp add: c32.get_sub)
  have s16: "get16 (sub b' off 64) k = get16 b' (off + k)" if "k + 2 \<le> 64" for k using that assms(1) lb by (simp add: c16.get_sub)
  have "sub b' (off + 30) 2 = sub b (off + 30) 2"
    unfolding b'_def using assms(1) by (intro puts_other) (auto simp: gd_puts_def le16_def le32_def)
  then have "get16 b' (off + 30) = get16 b (off + 30)"
    using assms(1) lb c16.get_local [of "off + 30" b] c16.get_local [of "off + 30" b'] by simp
  then have ck: "get16 b' (off + 30) = gd_checksum gd" using assms by (simp add: parseGroupDesc_def Let_def c16.get_sub)
  have f: "get32 b' (off + 0) = gd_blockBitmapLo gd" "get32 b' (off + 4) = gd_inodeBitmapLo gd" "get32 b' (off + 8) = gd_inodeTableLo gd"
    "get16 b' (off + 12) = gd_freeBlocksLo gd" "get16 b' (off + 14) = gd_freeInodesLo gd" "get16 b' (off + 16) = gd_usedDirsLo gd"
    "get16 b' (off + 18) = gd_flags gd" "get32 b' (off + 32) = gd_blockBitmapHi gd" "get32 b' (off + 36) = gd_inodeBitmapHi gd"
    "get32 b' (off + 40) = gd_inodeTableHi gd" "get16 b' (off + 44) = gd_freeBlocksHi gd" "get16 b' (off + 46) = gd_freeInodesHi gd"
    "get16 b' (off + 48) = gd_usedDirsHi gd"
    by (intro g32 g16; simp add: gd_puts_def)+
  show ?thesis unfolding b'_def [symmetric] parseGroupDesc_def Let_def using f ck by (simp add: s32 s16)
qed

lemma gd_puts_other:
  "off' + 64 \<le> length b \<Longrightarrow> off' + 64 \<le> off \<or> off + 64 \<le> off' \<Longrightarrow> sub (puts (gd_puts 64 off gd) b) off' 64 = sub b off' 64"
  by (intro puts_other) (auto simp: gd_puts_def le16_def le32_def)

text \<open>Where the descriptors lie.\<close>

lemma synced_slots:
  assumes S: "synced f v" and L: "layout_ok v" and g: "g < ngroups v"
  shows "unat (gdt_blk v g) = 1 + g * 64 div 4096" "gdt_pos v (of_nat g) = (g * 64) mod 4096" "gdt_pos v (of_nat g) + 64 \<le> 4096" "gdt_blk v g \<noteq> 0"
proof -
  note s = syncedD [OF S]
  have n: "g < 2 ^ 31" using layoutD(2) [OF L] g by simp
  have u: "(ucast (of_nat g :: u32) :: u64) = of_nat g" using n by (intro ucast_of_nat_up) simp
  have b: "es_blockSize (e_sb v) = 4096" using s(1) unfolding bsz_def by (simp add: word_unat_eq_iff)
  have "(of_nat g * ucast (64 :: u16) :: u64) = of_nat (g * 64)" by simp
  then have "gdt_blk v g = 1 + of_nat (g * 64) div of_nat 4096" by (simp add: gdt_blk_def gdt_block_def s(2,3) b u)
  also have "(of_nat (g * 64) :: u64) div of_nat 4096 = of_nat (g * 64 div 4096)" using n by (intro of_nat_div64) simp_all
  finally have "gdt_blk v g = of_nat (1 + g * 64 div 4096)" by simp
  then show *: "unat (gdt_blk v g) = 1 + g * 64 div 4096" 
  proof -
    have "g * 64 div 4096 \<le> g * 64" by simp
    moreover have "g * 64 < 2 ^ 31 * 64" using n by simp
    ultimately have "1 + g * 64 div 4096 < 2 ^ 64" by simp
    then show ?thesis unfolding \<open>gdt_blk v g = of_nat (1 + g * 64 div 4096)\<close> by (rule unat_of_nat64)
  qed
  show "gdt_blk v g \<noteq> 0" using * by auto
  show p: "gdt_pos v (of_nat g) = (g * 64) mod 4096" by (simp add: gdt_pos_def unat_group [OF L g] s(1,2))
  have "(g * 64) mod 4096 = (g mod 64) * 64" using mult_mod_left [of g 64 64] by simp
  moreover have "g mod 64 + 1 \<le> 64" by (simp add: Suc_leI)
  ultimately show "gdt_pos v (of_nat g) + 64 \<le> 4096" using p by linarith
qed

lemma slots_apart:
  assumes "synced f v" "layout_ok v" "g < ngroups v" "h < ngroups v" "gdt_blk v h = gdt_blk v g" "h \<noteq> g"
  shows "gdt_pos v (of_nat h) + 64 \<le> gdt_pos v (of_nat g) \<or> gdt_pos v (of_nat g) + 64 \<le> gdt_pos v (of_nat h)"
proof -
  note a = synced_slots [OF assms(1-3)] and b = synced_slots [OF assms(1,2,4)]
  have "g * 64 div 4096 = h * 64 div 4096" using a(1) b(1) assms(5) by simp
  moreover have "g * 64 + 64 \<le> h * 64 \<or> h * 64 + 64 \<le> g * 64" using assms(6) by linarith
  ultimately show ?thesis unfolding a(2) b(2)
    using div_mult_mod_eq [of "g * 64" 4096] div_mult_mod_eq [of "h * 64" 4096] by linarith
qed

text \<open>Staging a block outside of superblock and descriptors keeps the agreement.\<close>

lemma synced_cong:
  assumes S: "synced f v" and sh: "shape v' = shape v" and e: "e_sb v' = e_sb v" "e_groups v' = e_groups v"
    and b: "blkv f v' 0 = blkv f v 0" "\<And>g. g < ngroups v \<Longrightarrow> blkv f v' (gdt_blk v g) = blkv f v (gdt_blk v g)"
    and d: "\<And>p. p \<in> set (e_dirty v') \<Longrightarrow> vblk v (fst p)" "distinct (map fst (e_dirtyInodes v'))"
  shows "synced f v'"
proof -
  note s = syncedD [OF S] and D = shape_derived [OF sh] and F = shape_fields [OF sh]
  have "disk_sb f v' = disk_sb f v" by (simp add: disk_sb_def F)
  moreover have "staged_gd f v' g = staged_gd f v g" if "g < ngroups v" for g using b(2) [OF that] by (simp add: staged_gd_def D(7,8))
  ultimately show ?thesis using s d unfolding synced_def e b(1) D(1,3) F(5) by auto
qed

lemma dirty_update: "p \<in> set (AList.update x d xs) \<Longrightarrow> fst p = x \<or> p \<in> set xs"
  using set_AList_update [of p x d xs] by auto

lemma synced_write:
  assumes "synced f v" "vblk v x" "length d = bsz v" "x \<noteq> sb_blk v" "x \<notin> gdt_blk v ` {..<ngroups v}"
  shows "synced f (writeBlock x d v)"
proof (rule synced_cong [OF assms(1)])
  show "shape (writeBlock x d v) = shape v" by (simp add: shape_def)
  show "blkv f (writeBlock x d v) 0 = blkv f v 0" using assms(4) syncedD(11) [OF assms(1)] by (simp add: blkv_writeBlock [OF assms(3)])
  show "blkv f (writeBlock x d v) (gdt_blk v g) = blkv f v (gdt_blk v g)" if "g < ngroups v" for g
    using assms(5) that by (auto simp: blkv_writeBlock [OF assms(3)])
  show "vblk v (fst p)" if "p \<in> set (e_dirty (writeBlock x d v))" for p
    using that syncedD(9) [OF assms(1), of p] assms(2) by (auto simp: writeBlock_def dest!: dirty_update)
qed (simp_all add: syncedD(10) [OF assms(1)])

text \<open>Staging a descriptor.\<close>

lemma synced_group:
  assumes S: "synced f v" and G: "geo f v" "layout_ok v" "g < ngroups v" and gd: "gd_static gd = gd_static (e_groups v ! g)"
  defines "v' \<equiv> writeBlock (gdt_blk v g) (puts (gd_puts (unat (es_descSize (e_sb v))) (gdt_pos v (of_nat g)) gd) (blkv f v (gdt_blk v g))) (set_group (of_nat g) gd v)"
  shows "synced f v'"
proof -
  note s = syncedD [OF S] and sl = synced_slots [OF S G(2)]
  define X where "X = puts (gd_puts 64 (gdt_pos v (of_nat g)) gd) (blkv f v (gdt_blk v g))"
  have ds: "unat (es_descSize (e_sb v)) = 64" by (simp add: s(2))
  have vb: "vblk v (gdt_blk v g)" by (rule layoutD(7) [OF G(2) meta_in(2) [OF G(3)]])
  have lb: "length (blkv f v (gdt_blk v g)) = 4096" using length_blkv [OF G(1) vb] s(1) by simp
  have lX: "length X = 4096" by (simp add: X_def lb)
  have u: "unat (of_nat g :: u32) = g" by (rule unat_group [OF G(2,3)])
  define w where "w = set_group (of_nat g) gd v"
  have w: "bsz w = 4096" "blkv f w = blkv f v" using s(1) blkv_cong [of w v f] by (simp_all add: w_def set_group_def bsz_def)
  have v': "v' = writeBlock (gdt_blk v g) X w" by (simp add: v'_def X_def ds w_def)
  have bl: "blkv f v' y = (if y = gdt_blk v g then X else blkv f v y)" for y
    unfolding v' using blkv_writeBlock [of X w f "gdt_blk v g" y] lX w by simp
  have e: "e_sb v' = e_sb v" "e_sr v' = e_sr v" "e_groups v' = (e_groups v)[g := gd]" "e_dirtyInodes v' = e_dirtyInodes v"
    by (simp_all add: v' w_def set_group_def u)
  have k: "gdt_blk v' = gdt_blk v" "gdt_pos v' = gdt_pos v" "bsz v' = bsz v" "vblk v' = vblk v" "ngroups v' = ngroups v"
    by (simp_all add: gdt_blk_def gdt_block_def gdt_pos_def bsz_def vblk_def ngroups_def e fun_eq_iff)
  have "staged_gd f v' h = e_groups v' ! h" if h: "h < ngroups v" for h
  proof (cases "h = g")
    case True
    have "gd_checksum (staged_gd f v g) = gd_checksum gd"
      using s(8) [OF G(3)] arg_cong [OF gd, of gd_checksum] by (simp add: gd_static_def)
    then have "parseGroupDesc 64 (sub X (gdt_pos v (of_nat g)) 64) = gd"
      unfolding X_def staged_gd_def using sl(3) [OF G(3)] lb by (intro gd_puts_parse) simp_all
    then show ?thesis using True G(3) by (simp add: staged_gd_def k bl e ngroups_def)
  next
    case False
    have "sub (blkv f v' (gdt_blk v h)) (gdt_pos v (of_nat h)) 64 = sub (blkv f v (gdt_blk v h)) (gdt_pos v (of_nat h)) 64"
    proof (cases "gdt_blk v h = gdt_blk v g")
      case True
      have "sub X (gdt_pos v (of_nat h)) 64 = sub (blkv f v (gdt_blk v g)) (gdt_pos v (of_nat h)) 64"
        unfolding X_def using slots_apart [OF S G(2,3) h True False] sl(3) [OF h] lb by (intro gd_puts_other) simp_all
      then show ?thesis using True by (simp add: bl)
    qed (simp add: bl)
    then show ?thesis using s(8) [OF h] False h by (simp add: staged_gd_def k e)
  qed
  moreover have "vblk v (fst p)" if "p \<in> set (e_dirty v')" for p
    using that s(9) [of p] vb by (auto simp: v' w_def writeBlock_def set_group_def dest!: dirty_update)
  moreover have "disk_sb f v' = disk_sb f v" by (simp add: disk_sb_def e)
  moreover have "blkv f v' 0 = blkv f v 0" using sl(4) [OF G(3)] bl by simp
  ultimately show ?thesis using s(1-7,10) unfolding synced_def k e by auto
qed

text \<open>Staging the superblock with other counts.\<close>

lemma synced_superblock:
  assumes S: "synced f v" and G: "geo f v" "layout_ok v" and h: "sb_static sb = sb_static (e_sb v)"
  defines "w \<equiv> v\<lparr>e_sb := sb\<rparr>"
  shows "synced f (writeBlock (sb_blk w) (copy_into (blkv f w (sb_blk w)) (1024 mod bsz w) (superblock_bytes now f w)) w)"
proof -
  note s = syncedD [OF S] and H = sb_static_fields [OF h]
  have sh: "shape w = shape v" by (simp add: shape_def w_def h)
  note D = shape_derived [OF sh] and F = shape_fields [OF sh]
  have wb: "blkv f w = blkv f v" by (rule blkv_cong) (simp_all add: w_def D(1) [unfolded w_def])
  have gw: "geo f w" using G(1) unfolding geo_def D(1) by (simp add: w_def)
  have v0: "vblk v 0" using layoutD(7) [OF G(2) meta_in(1)] s(11) by simp
  have v0': "vblk w 0" using v0 D(3) by simp
  have bw: "bsz w = 4096" "sb_blk w = 0" using D(1,6) s(1,11) by simp_all
  have dw: "sb_static (parseSuperblock (disk_sb f w)) = sb_static (e_sb w)" using s(6) h by (simp add: disk_sb_def w_def)
  note P = superblock_bytes_parse [OF gw v0' bw(1) dw, of now]
  define B where "B = superblock_bytes now f w"
  define X where "X = copy_into (blkv f w 0) 1024 B"
  have lb: "length (blkv f w 0) = 4096" using length_blkv [OF gw v0'] bw by simp
  have lX: "length X = 4096" by (simp add: X_def lb)
  have sX: "sub X 1024 1024 = B" unfolding X_def using P(1) lb by (intro sub_copy_same) (simp_all add: B_def)
  define v' where "v' = writeBlock 0 X w"
  have bl: "blkv f v' y = (if y = 0 then X else blkv f v y)" for y
    unfolding v'_def using blkv_writeBlock [of X w f 0 y] lX bw(1) wb by simp
  have e: "e_sb v' = sb" "e_sr v' = e_sr v" "e_groups v' = e_groups v" "e_dirtyInodes v' = e_dirtyInodes v" by (simp_all add: v'_def w_def)
  have sh': "shape v' = shape v" by (simp add: v'_def shape_def w_def h)
  note D' = shape_derived [OF sh'] and F' = shape_fields [OF sh']
  have "staged_gd f v' g = staged_gd f v g" if "g < ngroups v" for g
    using synced_slots(4) [OF S G(2) that] by (simp add: staged_gd_def D'(7,8) bl)
  moreover have "vblk v (fst p)" if "p \<in> set (e_dirty v')" for p
    using that s(9) [of p] v0 by (auto simp: v'_def w_def writeBlock_def dest!: dirty_update)
  moreover have "disk_sb f v' = disk_sb f v" by (simp add: disk_sb_def e)
  moreover have "parseSuperblock (sub (blkv f v' 0) 1024 1024) = sb" using P(2) by (simp add: bl sX) (simp add: B_def w_def)
  moreover have "unat (es_groupCount sb) = ngroups v" "es_magic sb = 0xEF53"
    using s(4,5) arg_cong [OF h, of es_groupCount] arg_cong [OF h, of es_magic] by (simp_all add: sb_static_def)
  ultimately have "synced f v'" using s(1-3,6,8,10) H h unfolding synced_def e D'(1,3) F'(5) by auto
  then show ?thesis unfolding bw v'_def X_def B_def by simp
qed

end
