(* ===== verification/Ext4AllocCorrect.thy ===== *)
theory Ext4AllocCorrect
  imports Ext4Volume
begin

text \<open>
  The allocators of the ext4 driver on consistent volumes: they find the first clear bit, set it
  and nothing else, keep the counts of the descriptors equal to the numbers of clear bits, and fail
  only when no bit is clear.
\<close>

unbundle bit_operations_syntax

subsection \<open>Bitmaps\<close>

lemma test_bit: "drop_bit k x AND 1 = 0 \<longleftrightarrow> \<not> bit (x :: u8) k"
proof -
  have "drop_bit k x AND 1 = (if bit x k then 1 else 0)"
    by (simp add: and_one_eq odd_iff_mod_2_eq_one [symmetric] bit_iff_odd_drop_bit mod_2_eq_odd)
  then show ?thesis by simp
qed

definition first_clear :: "bytes \<Rightarrow> nat \<Rightarrow> nat option" where
  "first_clear bm limit = find (\<lambda>b. \<not> bit_at bm b) [0..<limit]"

lemma find_bit_find:
  "i + k \<le> 8 * length bm \<Longrightarrow> find_bit bm i k = Inr (find (\<lambda>b. \<not> bit_at bm b) [i..<i + k])"
proof (induction k arbitrary: i)
  case 0
  then show ?case by (simp add: find_bit.simps)
next
  case (Suc k)
  have "[i..<i + Suc k] = i # [Suc i..<Suc i + k]" by (simp add: upt_conv_Cons)
  moreover have "\<not> length bm \<le> i div 8" using Suc.prems by (simp add: not_le div_less_iff_less_mult)
  ultimately show ?case using Suc by (subst find_bit.simps) (simp add: test_bit bit_at_def)
qed

lemma findFreeBit_first: "limit \<le> 8 * length bm \<Longrightarrow> findFreeBit bm limit = Inr (first_clear bm limit)"
  using find_bit_find [of 0 limit bm] by (simp add: findFreeBit_def first_clear_def)

lemma first_clear_Some:
  "first_clear bm limit = Some b \<longleftrightarrow> b < limit \<and> \<not> bit_at bm b \<and> (\<forall>c < b. bit_at bm c)"
  by (auto simp: first_clear_def find_Some_iff)

lemma first_clear_None: "first_clear bm limit = None \<longleftrightarrow> (\<forall>b < limit. bit_at bm b)"
  by (auto simp: first_clear_def find_None_iff)

text \<open>The number of clear bits among the first \<open>limit\<close>.\<close>

definition clear_count :: "bytes \<Rightarrow> nat \<Rightarrow> nat" where
  "clear_count bm limit = card {b. b < limit \<and> \<not> bit_at bm b}"

lemma clear_count_pos: "0 < clear_count bm limit \<longleftrightarrow> first_clear bm limit \<noteq> None"
  by (auto simp: clear_count_def card_gt_0_iff first_clear_None)

lemma clear_count_set:
  assumes "b < limit" "\<not> bit_at bm b" "limit \<le> 8 * length bm"
  shows "clear_count (or_bit b bm) limit + 1 = clear_count bm limit"
proof -
  have "{c. c < limit \<and> \<not> bit_at bm c} = insert b {c. c < limit \<and> \<not> bit_at (or_bit b bm) c}"
    using assms by (auto simp: bit_at_or_bit)
  moreover have "b \<notin> {c. c < limit \<and> \<not> bit_at (or_bit b bm) c}" using assms by (simp add: bit_at_or_bit)
  ultimately show ?thesis by (simp add: clear_count_def)
qed

subsection \<open>Consistent volumes\<close>

definition counts_ok :: "gofile \<Rightarrow> ext4vol \<Rightarrow> bool" where
  "counts_ok f v \<longleftrightarrow> (\<forall>g < ngroups v. unat (gd_freeBlocks (e_groups v ! g)) = clear_count (blkv f v (bm_blk v g)) (bpg v))"

definition alloc_ok :: "gofile \<Rightarrow> ext4vol \<Rightarrow> bool" where
  "alloc_ok f v \<longleftrightarrow> geo f v \<and> layout_ok v \<and> counts_ok f v"

subsection \<open>One group\<close>

text \<open>The volume after a bit of a bitmap was taken: bitmap, descriptor, counts and superblock are staged.\<close>

definition after_alloc :: "gofile \<Rightarrow> ext4vol \<Rightarrow> u64 \<Rightarrow> nat \<Rightarrow> bytes \<Rightarrow> groupDesc \<Rightarrow> (superblock \<Rightarrow> superblock) \<Rightarrow> ext4vol \<Rightarrow> bool" where
  "after_alloc f v x g bm gd h v' \<longleftrightarrow> geo f v' \<and> e_sr v' = e_sr v \<and> e_wa v' = e_wa v \<and> e_srOffset v' = e_srOffset v \<and>
     e_dirtyInodes v' = e_dirtyInodes v \<and> e_sb v' = h (e_sb v) \<and> e_groups v' = (e_groups v)[g := gd] \<and>
     (\<forall>y. y \<noteq> sb_blk v \<and> y \<notin> gdt_blk v ` {..<ngroups v} \<longrightarrow> blkv f v' y = (if y = x then bm else blkv f v y)) \<and>
     (synced f v \<longrightarrow> synced f v')"

lemma after_allocI:
  assumes "geo f v" "layout_ok v" "g < ngroups v" "length bm = bsz v"
    and x: "vblk v x" "x \<noteq> sb_blk v" "x \<notin> gdt_blk v ` {..<ngroups v}"
    and st: "\<And>sb. sb_static (h sb) = sb_static sb" "gd_static gd = gd_static (e_groups v ! g)"
  shows "\<exists>v'. bindS (modS (writeBlock x bm)) (\<lambda>_. bindS (writeGroupDesc f (of_nat g) gd) (\<lambda>_.
      bindS (set_sb h) (\<lambda>_. bindS (writeSuperblock now f) (\<lambda>_. readS (\<lambda>v. Inr (R (e_sb v))))))) v = (Inr (R (h (e_sb v))), v') \<and>
    after_alloc f v x g bm gd h v'"
proof -
  define v1 where "v1 = writeBlock x bm v"
  have s1: "shape v1 = shape v" by (simp add: v1_def shape_def)
  have g1: "geo f v1" unfolding v1_def by (rule geo_writeBlock [OF assms(1)])
  have l1: "layout_ok v1" using assms(2) shape_layout [OF s1] by simp
  have n1: "g < ngroups v1" using assms(3) shape_fields(5) [OF s1] by simp
  define X where "X = puts (gd_puts (unat (es_descSize (e_sb v1))) (gdt_pos v1 (of_nat g)) gd) (blkv f v1 (gdt_blk v1 g))"
  note X = writeGroupDesc_ok [OF g1 l1 n1, of gd, folded X_def]
  define v2 where "v2 = writeBlock (gdt_blk v1 g) X (set_group (of_nat g) gd v1)"
  define v3 where "v3 = v2\<lparr>e_sb := h (e_sb v2)\<rparr>"
  have u: "unat (of_nat g :: u32) = g" by (rule unat_group [OF assms(2,3)])
  have sg: "geo f (set_group (of_nat g) gd v1)" using g1 by (simp add: geo_def set_group_def bsz_def)
  have g2: "geo f v2" unfolding v2_def by (rule geo_writeBlock [OF sg])
  have b3: "bsz v3 = bsz v2" using sb_static_fields(1) [OF st(1)] by (simp add: v3_def bsz_def)
  have g3: "geo f v3" using g2 unfolding geo_def b3 by (simp add: v3_def)
  have f3: "e_groups v3 = (e_groups v)[g := gd]" "e_sb v3 = h (e_sb v)" "e_sr v3 = e_sr v" "e_wa v3 = e_wa v" "e_srOffset v3 = e_srOffset v"
    "e_dirtyInodes v3 = e_dirtyInodes v"
    by (simp_all add: v3_def v2_def v1_def set_group_def u)
  have gs: "map gd_static ((e_groups v)[g := gd]) = map gd_static (e_groups v)"
    using assms(3) st(2) by (simp add: map_update ngroups_def) (metis list_update_id nth_map)
  have s3: "shape v3 = shape v" by (simp add: shape_def f3 st(1) gs)
  have l3: "layout_ok v3" using assms(2) shape_layout [OF s3] by simp
  define Y where "Y = copy_into (blkv f v3 (sb_blk v3)) (1024 mod bsz v3) (superblock_bytes now f v3)"
  note Y = writeSuperblock_ok [OF g3 l3, of now, folded Y_def]
  define v4 where "v4 = writeBlock (sb_blk v3) Y v3"
  have f4: "e_sb v4 = h (e_sb v)" by (simp add: v4_def f3)
  have run: "bindS (modS (writeBlock x bm)) (\<lambda>_. bindS (writeGroupDesc f (of_nat g) gd) (\<lambda>_.
      bindS (set_sb h) (\<lambda>_. bindS (writeSuperblock now f) (\<lambda>_. readS (\<lambda>v. Inr (R (e_sb v))))))) v = (Inr (R (h (e_sb v))), v4)"
    using X(2) Y(2) by (auto simp: v1_def [symmetric] v2_def [symmetric] v3_def [symmetric] v4_def [symmetric] set_sb_def f4)
  have "blkv f v4 y = (if y = x then bm else blkv f v y)" if y: "y \<noteq> sb_blk v" "y \<notin> gdt_blk v ` {..<ngroups v}" for y
  proof -
    have "blkv f v4 y = blkv f v3 y" using y(1) shape_derived(6) [OF s3] by (simp add: v4_def blkv_writeBlock [OF Y(1)])
    also have "\<dots> = blkv f v2 y" using blkv_cong [OF _ _ b3, of f] by (simp add: v3_def)
    also have "\<dots> = blkv f (set_group (of_nat g) gd v1) y"
    proof -
      have "y \<noteq> gdt_blk v1 g" using y(2) assms(3) shape_derived(7) [OF s1] by auto
      moreover have "length X = bsz (set_group (of_nat g) gd v1)" using X(1) by (simp add: set_group_def bsz_def)
      ultimately show ?thesis unfolding v2_def by (simp add: blkv_writeBlock)
    qed
    also have "\<dots> = blkv f v1 y" using blkv_cong [of "set_group (of_nat g) gd v1" v1 f] by (simp add: set_group_def bsz_def)
    also have "\<dots> = (if y = x then bm else blkv f v y)" unfolding v1_def by (rule blkv_writeBlock [OF assms(4)])
    finally show ?thesis .
  qed
  moreover have "geo f v4" unfolding v4_def by (rule geo_writeBlock [OF g3])
  moreover have "synced f v4" if S: "synced f v"
  proof -
    have 1: "synced f v1" unfolding v1_def by (rule synced_write [OF S x(1) assms(4) x(2,3)])
    have 2: "synced f v2" unfolding v2_def X_def by (rule synced_group [OF 1 g1 l1 n1]) (use st(2) in \<open>simp add: v1_def\<close>)
    have s2: "shape v2 = shape v" using s3 st(1) by (simp add: shape_def v3_def)
    have l2: "layout_ok v2" using assms(2) shape_layout [OF s2] by simp
    show ?thesis unfolding v4_def Y_def v3_def by (rule synced_superblock [OF 2 g2 l2 st(1)])
  qed
  ultimately have "after_alloc f v x g bm gd h v4" by (simp add: after_alloc_def f3 v4_def)
  then show ?thesis using run by blast
qed

lemma after_alloc_shape:
  assumes "after_alloc f v x g bm gd h v'" "\<And>sb. sb_static (h sb) = sb_static sb" "gd_static gd = gd_static (e_groups v ! g)" "g < ngroups v"
  shows "shape v' = shape v"
proof -
  have "map gd_static ((e_groups v)[g := gd]) = map gd_static (e_groups v)"
    using assms(3,4) by (simp add: map_update ngroups_def) (metis list_update_id nth_map)
  then show ?thesis using assms(1,2) by (simp add: after_alloc_def shape_def)
qed

text \<open>\<open>take_bit_of\<close> finds the first clear bit.\<close>

lemma take_bit_of_first:
  assumes "geo f v" "vblk v x" "limit \<le> 8 * bsz v"
  shows "take_bit_of f v x limit = (case first_clear (blkv f v x) limit of
     None \<Rightarrow> Inl (Err ''group bitmap has no free bit'') | Some b \<Rightarrow> Inr (b, or_bit b (blkv f v x)))"
proof -
  have l: "length (blkv f v x) = bsz v" by (rule length_blkv [OF assms(1,2)])
  show ?thesis
  proof (cases "first_clear (blkv f v x) limit")
    case None
    then show ?thesis using assms(3) l by (simp add: take_bit_of_def readBlock_blkv [OF assms(1,2)] findFreeBit_first)
  next
    case (Some b)
    then have "b < limit" by (simp add: first_clear_Some)
    then have "\<not> length (blkv f v x) \<le> b div 8" using assms(3) l by (simp add: not_le div_less_iff_less_mult)
    then show ?thesis using assms(3) l Some by (simp add: take_bit_of_def readBlock_blkv [OF assms(1,2)] findFreeBit_first setBit_def)
  qed
qed

definition clear_in :: "gofile \<Rightarrow> ext4vol \<Rightarrow> nat \<Rightarrow> nat option" where
  "clear_in f v g = first_clear (blkv f v (bm_blk v g)) (bpg v)"

definition block_no :: "ext4vol \<Rightarrow> nat \<Rightarrow> nat \<Rightarrow> u64" where
  "block_no v g b = group_start (e_sb v) (of_nat g) + of_nat b"

definition dec_free :: "superblock \<Rightarrow> superblock" where
  "dec_free sb = sb\<lparr>es_freeBlocksLo := es_freeBlocksLo sb - 1\<rparr>"

definition took_block :: "gofile \<Rightarrow> ext4vol \<Rightarrow> nat \<Rightarrow> nat \<Rightarrow> ext4vol \<Rightarrow> bool" where
  "took_block f v g b v' \<longleftrightarrow>
     after_alloc f v (bm_blk v g) g (or_bit b (blkv f v (bm_blk v g)))
       (gd_set_freeBlocks (gd_freeBlocks (e_groups v ! g) - 1) (e_groups v ! g)) dec_free v'"

lemma bm_not_sb_gdt:
  assumes "layout_ok v" "g < ngroups v"
  shows "bm_blk v g \<noteq> sb_blk v" "bm_blk v g \<notin> gdt_blk v ` {..<ngroups v}"
    "im_blk v g \<noteq> sb_blk v" "im_blk v g \<notin> gdt_blk v ` {..<ngroups v}" "h < ngroups v \<Longrightarrow> bm_blk v g \<noteq> im_blk v h"
  using layoutD(12,13) [OF assms(1)] assms(2) by blast+

lemma allocBlockInGroup_cases:
  assumes "geo f v" "layout_ok v" "g < ngroups v"
  shows "if gd_freeBlocks (e_groups v ! g) = 0 \<or> clear_in f v g = None
    then \<exists>s. allocBlockInGroup now f (of_nat g) v = (Inl (Err s), v)
    else \<exists>v'. allocBlockInGroup now f (of_nat g) v = (Inr (block_no v g (the (clear_in f v g))), v') \<and> took_block f v g (the (clear_in f v g)) v'"
proof -
  have u: "unat (of_nat g :: u32) = g" by (rule unat_group [OF assms(2,3)])
  have ga: "group_at v (of_nat g) = Inr (e_groups v ! g)" using assms(3) u by (simp add: group_at_def ngroups_def)
  have vb: "vblk v (bm_blk v g)" by (rule layoutD(7) [OF assms(2) meta_in(3) [OF assms(3)]])
  note tb = take_bit_of_first [OF assms(1) vb layoutD(4) [OF assms(2)], folded clear_in_def, unfolded bm_blk_def bpg_def]
  show ?thesis
  proof (cases "gd_freeBlocks (e_groups v ! g) = 0 \<or> clear_in f v g = None")
    case True
    then show ?thesis using ga tb
      by (auto simp: allocBlockInGroup_def bindS_def readS_def failS_def Let_def)
  next
    case False
    then obtain b where b: "clear_in f v g = Some b" by blast
    have lb: "length (or_bit b (blkv f v (bm_blk v g))) = bsz v" using length_blkv [OF assms(1) vb] by simp
    obtain v' where v': "bindS (modS (writeBlock (bm_blk v g) (or_bit b (blkv f v (bm_blk v g))))) (\<lambda>_.
        bindS (writeGroupDesc f (of_nat g) (gd_set_freeBlocks (gd_freeBlocks (e_groups v ! g) - 1) (e_groups v ! g))) (\<lambda>_.
        bindS (set_sb dec_free) (\<lambda>_. bindS (writeSuperblock now f) (\<lambda>_.
        readS (\<lambda>v. Inr (group_start (e_sb v) (of_nat g) + of_nat b)))))) v =
        (Inr (group_start (dec_free (e_sb v)) (of_nat g) + of_nat b), v')"
      "took_block f v g b v'"
      unfolding took_block_def
      using after_allocI [OF assms lb vb bm_not_sb_gdt(1,2) [OF assms(2,3)], of dec_free "gd_set_freeBlocks (gd_freeBlocks (e_groups v ! g) - 1) (e_groups v ! g)" now "\<lambda>sb. group_start sb (of_nat g) + of_nat b"]
      by (auto simp: dec_free_def sb_static_def gd_static_def gd_set_freeBlocks_def)
    have "allocBlockInGroup now f (of_nat g) v = (Inr (group_start (dec_free (e_sb v)) (of_nat g) + of_nat b), v')"
      using v'(1) False tb b ga
      by (simp add: allocBlockInGroup_def bindS_eval(1) readS_def Let_def bm_blk_def dec_free_def [abs_def])
    then show ?thesis using False b v'(2) by (simp add: block_no_def group_start_def dec_free_def)
  qed
qed

lemma gd_free_set: "gd_freeBlocks (gd_set_freeBlocks n gd) = n"
  by (rule bit_word_eqI) (auto simp: gd_freeBlocks_def gd_set_freeBlocks_def bit_simps)

lemma alloc_okD:
  assumes "alloc_ok f v"
  shows "geo f v" "layout_ok v" "counts_ok f v"
  using assms by (auto simp: alloc_ok_def)

text \<open>Taking a block sets one bit of one block bitmap and keeps the volume consistent.\<close>

lemma took_block_effect:
  assumes "alloc_ok f v" "g < ngroups v" "clear_in f v g = Some b" "took_block f v g b v'"
  shows "shape v' = shape v" "alloc_ok f v'" "e_dirtyInodes v' = e_dirtyInodes v"
    and "x \<notin> meta v \<Longrightarrow> blkv f v' x = blkv f v x"
    and "h < ngroups v \<Longrightarrow> blkv f v' (im_blk v h) = blkv f v (im_blk v h)"
    and "h < ngroups v \<Longrightarrow> blkv f v' (bm_blk v h) = (if h = g then or_bit b (blkv f v (bm_blk v g)) else blkv f v (bm_blk v h))"
    and "map gd_freeInodesLo (e_groups v') = map gd_freeInodesLo (e_groups v)" "synced f v \<Longrightarrow> synced f v'"
proof -
  note a = alloc_okD [OF assms(1)]
  note k = assms(4) [unfolded took_block_def]
  note A = k [unfolded after_alloc_def]
  have st: "sb_static (dec_free sb) = sb_static sb" for sb by (simp add: dec_free_def sb_static_def)
  have gst: "gd_static (gd_set_freeBlocks n (e_groups v ! g)) = gd_static (e_groups v ! g)" for n
    by (simp add: gd_set_freeBlocks_def gd_static_def)
  show s: "shape v' = shape v" by (rule after_alloc_shape [OF k st gst assms(2)])
  show "e_dirtyInodes v' = e_dirtyInodes v" using A by blast
  show "synced f v \<Longrightarrow> synced f v'" using A by blast
  show out: "blkv f v' x = blkv f v x" if "x \<notin> meta v" for x
    using that A assms(2) by (auto simp: meta_def)
  show "blkv f v' (im_blk v h) = blkv f v (im_blk v h)" if "h < ngroups v"
    using bm_not_sb_gdt [OF a(2) that] bm_not_sb_gdt(5) [OF a(2) assms(2) that] A by auto
  show bm: "blkv f v' (bm_blk v h) = (if h = g then or_bit b (blkv f v (bm_blk v g)) else blkv f v (bm_blk v h))" if "h < ngroups v" for h
    using bm_not_sb_gdt [OF a(2) that] inj_onD [OF layoutD(10) [OF a(2)], of h g] that assms(2) A by auto
  have gr: "e_groups v' = (e_groups v)[g := gd_set_freeBlocks (gd_freeBlocks (e_groups v ! g) - 1) (e_groups v ! g)]" using A by blast
  have "map gd_freeInodesLo (e_groups v') ! i = map gd_freeInodesLo (e_groups v) ! i" if "i < length (e_groups v)" for i
    using that assms(2) by (simp add: gr nth_list_update gd_set_freeBlocks_def ngroups_def)
  then show "map gd_freeInodesLo (e_groups v') = map gd_freeInodesLo (e_groups v)" by (intro nth_equalityI) (simp_all add: gr)
  have "unat (gd_freeBlocks (e_groups v' ! h)) = clear_count (blkv f v' (bm_blk v' h)) (bpg v')" if h: "h < ngroups v" for h
  proof -
    have c: "unat (gd_freeBlocks (e_groups v ! h)) = clear_count (blkv f v (bm_blk v h)) (bpg v)" using a(3) h by (simp add: counts_ok_def)
    have bmh: "bm_blk v' h = bm_blk v h" by (rule shape_derived(9) [OF s h])
    show ?thesis
    proof (cases "h = g")
      case True
      have l: "length (blkv f v (bm_blk v g)) = bsz v"
        by (rule length_blkv [OF a(1) layoutD(7) [OF a(2) meta_in(3) [OF assms(2)]]])
      have "clear_count (or_bit b (blkv f v (bm_blk v g))) (bpg v) + 1 = clear_count (blkv f v (bm_blk v g)) (bpg v)"
        using assms(3) layoutD(4) [OF a(2)] l by (intro clear_count_set) (auto simp: clear_in_def first_clear_Some)
      moreover have "unat (gd_freeBlocks (e_groups v ! g) - 1) = unat (gd_freeBlocks (e_groups v ! g)) - 1"
        using calculation c True by (intro unat_minus_one) auto
      ultimately show ?thesis using c True assms(2) bm [OF h]
        by (simp add: gr bmh [unfolded True] gd_free_set shape_derived(4) [OF s] ngroups_def)
    next
      case False
      then show ?thesis using c bm [OF h] by (simp add: gr bmh shape_derived(4) [OF s])
    qed
  qed
  then have "counts_ok f v'" using shape_fields(5) [OF s] by (simp add: counts_ok_def)
  then show "alloc_ok f v'" using A a(2) shape_layout [OF s] by (simp add: alloc_ok_def)
qed

subsection \<open>Allocating a block\<close>

lemma counts_clear:
  assumes "alloc_ok f v" "g < ngroups v"
  shows "gd_freeBlocks (e_groups v ! g) = 0 \<longleftrightarrow> clear_in f v g = None"
proof -
  have "unat (gd_freeBlocks (e_groups v ! g)) = clear_count (blkv f v (bm_blk v g)) (bpg v)"
    using alloc_okD(3) [OF assms(1)] assms(2) by (simp add: counts_ok_def)
  then show ?thesis using clear_count_pos [of "blkv f v (bm_blk v g)" "bpg v"] by (auto simp: clear_in_def unat_eq_0)
qed

text \<open>The groups from the preferred one on, around the end of the list.\<close>

definition groups_from :: "ext4vol \<Rightarrow> nat \<Rightarrow> nat list" where
  "groups_from v p = map (\<lambda>i. (p + i) mod ngroups v) [0..<ngroups v]"

lemma group_order_from:
  assumes "layout_ok v" "unat prefer < ngroups v"
  shows "group_order prefer v = map of_nat (groups_from v (unat prefer))"
proof -
  have n: "ngroups v \<le> 2 ^ 31" by (rule layoutD(2) [OF assms(1)])
  have "(prefer + of_nat i) mod of_nat (ngroups v) = (of_nat ((unat prefer + i) mod ngroups v) :: u32)" if "i < ngroups v" for i
  proof -
    have "(prefer + of_nat i) = (of_nat (unat prefer + i) :: u32)" by simp
    moreover have "unat (of_nat (unat prefer + i) :: u32) = unat prefer + i" using that assms(2) n by (intro unat_of_nat32) simp
    moreover have "unat (of_nat (ngroups v) :: u32) = ngroups v" using n by (intro unat_of_nat32) simp
    ultimately show ?thesis
      by (metis of_nat_unat ucast_id unat_mod_distrib)
  qed
  then show ?thesis by (simp add: group_order_def groups_from_def ngroups_def Let_def)
qed

lemma set_groups_from: "0 < ngroups v \<Longrightarrow> p < ngroups v \<Longrightarrow> set (groups_from v p) = {..<ngroups v}"
proof -
  assume n: "0 < ngroups v" "p < ngroups v"
  have "\<exists>i < ngroups v. (p + i) mod ngroups v = g" if "g < ngroups v" for g
  proof (cases "p \<le> g")
    case True
    then show ?thesis using that by (intro exI [of _ "g - p"]) simp
  next
    case False
    then have "(p + (ngroups v + g - p)) mod ngroups v = g" using that n by simp
    then show ?thesis using False that n by (intro exI [of _ "ngroups v + g - p"]) simp
  qed
  then show ?thesis using n by (force simp: groups_from_def)
qed

text \<open>The search succeeds at the first group, in that order, that has a clear bit.\<close>

lemma try_groups_block:
  assumes "alloc_ok f v" "set gs \<subseteq> {..<ngroups v}"
  shows "case find (\<lambda>g. clear_in f v g \<noteq> None) gs of
      None \<Rightarrow> try_groups (Err none) (allocBlockInGroup now f) (map of_nat gs) v = (Inl (Err none), v)
    | Some g \<Rightarrow> \<exists>v'. try_groups (Err none) (allocBlockInGroup now f) (map of_nat gs) v = (Inr (block_no v g (the (clear_in f v g))), v') \<and>
        took_block f v g (the (clear_in f v g)) v'"
  using assms(2)
proof (induction gs)
  case Nil
  then show ?case by (simp add: failS_def)
next
  case (Cons g gs)
  note a = alloc_okD [OF assms(1)]
  have g: "g < ngroups v" using Cons.prems by simp
  note C = allocBlockInGroup_cases [OF a(1,2) g, of now, unfolded counts_clear [OF assms(1) g]]
  show ?case
  proof (cases "clear_in f v g = None")
    case True
    then obtain s where "allocBlockInGroup now f (of_nat g) v = (Inl (Err s), v)" using C by auto
    then have e1: "try_groups (Err none) (allocBlockInGroup now f) (map of_nat (g # gs)) v =
        try_groups (Err none) (allocBlockInGroup now f) (map of_nat gs) v" by (simp add: tryS_def)
    have e2: "find (\<lambda>g. clear_in f v g \<noteq> None) (g # gs) = find (\<lambda>g. clear_in f v g \<noteq> None) gs" using True by simp
    show ?thesis unfolding e1 e2 using Cons.prems by (intro Cons.IH) simp
  next
    case False
    then obtain v' where "allocBlockInGroup now f (of_nat g) v = (Inr (block_no v g (the (clear_in f v g))), v')"
      "took_block f v g (the (clear_in f v g)) v'" using C by auto
    then show ?thesis using False by (auto simp: tryS_def retS_def)
  qed
qed

lemma allocBlock_cases:
  assumes "alloc_ok f v" "unat prefer < ngroups v"
  shows "case find (\<lambda>g. clear_in f v g \<noteq> None) (groups_from v (unat prefer)) of
      None \<Rightarrow> allocBlock now f prefer v = (Inl (Err ''ext4: no free blocks''), v)
    | Some g \<Rightarrow> \<exists>v'. allocBlock now f prefer v = (Inr (block_no v g (the (clear_in f v g))), v') \<and>
        took_block f v g (the (clear_in f v g)) v'"
proof -
  note a = alloc_okD [OF assms(1)]
  have "set (groups_from v (unat prefer)) \<subseteq> {..<ngroups v}" using set_groups_from layoutD(1) [OF a(2)] assms(2) by simp
  note T = try_groups_block [OF assms(1) this, of "''ext4: no free blocks''" now]
  have e: "allocBlock now f prefer v =
      try_groups (Err ''ext4: no free blocks'') (allocBlockInGroup now f) (map of_nat (groups_from v (unat prefer))) v"
    by (simp add: allocBlock_def group_order_from [OF a(2) assms(2)])
  show ?thesis unfolding e by (rule T)
qed

subsection \<open>Blocks in use\<close>

definition in_use :: "gofile \<Rightarrow> ext4vol \<Rightarrow> u64 \<Rightarrow> bool" where
  "in_use f v x \<longleftrightarrow> (\<exists>g < ngroups v. \<exists>b < bpg v. x = block_no v g b \<and> bit_at (blkv f v (bm_blk v g)) b)"

definition nfree :: "gofile \<Rightarrow> ext4vol \<Rightarrow> nat" where
  "nfree f v = (\<Sum>g < ngroups v. clear_count (blkv f v (bm_blk v g)) (bpg v))"

text \<open>A block number that an extent can hold, inside the partition.\<close>

definition good_no :: "ext4vol \<Rightarrow> u64 \<Rightarrow> bool" where
  "good_no v x \<longleftrightarrow> vblk v x \<and> 0 < unat x \<and> unat x < 2 ^ 48"

definition vol_ok :: "gofile \<Rightarrow> ext4vol \<Rightarrow> bool" where
  "vol_ok f v \<longleftrightarrow> alloc_ok f v \<and> (\<forall>x \<in> meta v. in_use f v x) \<and>
     (\<forall>g < ngroups v. \<forall>b < bpg v. \<not> bit_at (blkv f v (bm_blk v g)) b \<longrightarrow> good_no v (block_no v g b))"

lemma vol_okD:
  assumes "vol_ok f v"
  shows "alloc_ok f v" "geo f v" "layout_ok v" "x \<in> meta v \<Longrightarrow> in_use f v x"
    "g < ngroups v \<Longrightarrow> b < bpg v \<Longrightarrow> \<not> bit_at (blkv f v (bm_blk v g)) b \<Longrightarrow> good_no v (block_no v g b)"
  using assms alloc_okD [of f v] unfolding vol_ok_def by blast+

lemma unat_block_no:
  assumes "layout_ok v" "g < ngroups v" "b < bpg v"
  shows "unat (block_no v g b) = g * bpg v + (if es_firstDataBlock (e_sb v) = 1 then 1 else 0) + b"
proof -
  have n: "g < 2 ^ 31" using layoutD(2) [OF assms(1)] assms(2) by simp
  have p: "bpg v < 2 ^ 32" unfolding bpg_def using unsigned_less [of "es_blocksPerGroup (e_sb v)"] by simp
  have "(g + 1) * bpg v \<le> 2 ^ 31 * 2 ^ 32" using n p by (intro mult_le_mono) simp_all
  then have "g * bpg v + 1 + b < 2 ^ 64" using assms(3) by simp
  moreover have "block_no v g b = of_nat (g * bpg v + (if es_firstDataBlock (e_sb v) = 1 then 1 else 0) + b)"
  proof -
    have "(ucast (of_nat g :: u32) :: u64) = of_nat g" using n by (intro ucast_of_nat_up) simp
    moreover have "(ucast (es_blocksPerGroup (e_sb v)) :: u64) = of_nat (bpg v)"
      unfolding bpg_def using ucast_of_nat_up [of "unat (es_blocksPerGroup (e_sb v))"] unsigned_less [of "es_blocksPerGroup (e_sb v)"] by simp
    ultimately show ?thesis by (simp add: block_no_def group_start_def)
  qed
  ultimately show ?thesis by (simp only: unat_of_nat64 split: if_splits) (auto simp: unat_of_nat64)
qed

lemma block_no_inj:
  assumes "layout_ok v" "g < ngroups v" "b < bpg v" "h < ngroups v" "c < bpg v" "block_no v g b = block_no v h c"
  shows "g = h \<and> b = c"
proof -
  have "g * bpg v + b = h * bpg v + c"
    using unat_block_no [OF assms(1-3)] unat_block_no [OF assms(1,4,5)] assms(6) by simp
  then have "(g * bpg v + b) div bpg v = (h * bpg v + c) div bpg v" "(g * bpg v + b) mod bpg v = (h * bpg v + c) mod bpg v" by simp_all
  then show ?thesis using assms(3,5) by simp
qed

text \<open>What one allocation does to a volume; \<open>x\<close> is the block handed out.\<close>

definition alloced :: "gofile \<Rightarrow> ext4vol \<Rightarrow> u64 \<Rightarrow> ext4vol \<Rightarrow> bool" where
  "alloced f v x v' \<longleftrightarrow> shape v' = shape v \<and> vol_ok f v' \<and> e_dirtyInodes v' = e_dirtyInodes v \<and>
     good_no v x \<and> \<not> in_use f v x \<and> (\<forall>y. in_use f v' y \<longleftrightarrow> in_use f v y \<or> y = x) \<and> nfree f v' + 1 = nfree f v \<and>
     (\<forall>y. y \<notin> meta v \<longrightarrow> blkv f v' y = blkv f v y) \<and>
     (\<forall>h < ngroups v. blkv f v' (im_blk v h) = blkv f v (im_blk v h)) \<and>
     map gd_freeInodesLo (e_groups v') = map gd_freeInodesLo (e_groups v) \<and> (synced f v \<longrightarrow> synced f v')"

lemma took_block_alloced:
  assumes "vol_ok f v" "g < ngroups v" "clear_in f v g = Some b" "took_block f v g b v'"
  shows "alloced f v (block_no v g b) v'"
proof -
  note d = vol_okD [OF assms(1)]
  note E = took_block_effect [OF d(1) assms(2-4)]
  note s = E(1)
  note S = shape_derived [OF s] and n = shape_fields(5) [OF s]
  have b: "b < bpg v" "\<not> bit_at (blkv f v (bm_blk v g)) b" using assms(3) by (auto simp: clear_in_def first_clear_Some)
  have l: "length (blkv f v (bm_blk v g)) = bsz v" by (rule length_blkv [OF d(2) layoutD(7) [OF d(3) meta_in(3) [OF assms(2)]]])
  have "b < 8 * length (blkv f v (bm_blk v g))" using b(1) l layoutD(4) [OF d(3)] by simp
  note ob = bit_at_or_bit [OF this]
  have no: "block_no v' h c = block_no v h c" for h c by (simp add: block_no_def S(13))
  have bits: "bit_at (blkv f v' (bm_blk v' h)) c \<longleftrightarrow> bit_at (blkv f v (bm_blk v h)) c \<or> h = g \<and> c = b" if "h < ngroups v" for h c
    using E(6) [OF that] ob S(9) [OF that] by auto
  have use: "in_use f v' y \<longleftrightarrow> in_use f v y \<or> y = block_no v g b" for y
    unfolding in_use_def n S(4) no using bits b(1) assms(2) by blast
  have "nfree f v' + 1 = nfree f v"
  proof -
    have g: "clear_count (blkv f v' (bm_blk v' g)) (bpg v) + 1 = clear_count (blkv f v (bm_blk v g)) (bpg v)"
      using E(6) [OF assms(2)] S(9) [OF assms(2)] clear_count_set [OF b] l layoutD(4) [OF d(3)] by simp
    have o': "clear_count (blkv f v' (bm_blk v' h)) (bpg v) = clear_count (blkv f v (bm_blk v h)) (bpg v)" if "h \<in> {..<ngroups v} - {g}" for h
      using that E(6) [of h] S(9) [of h] by auto
    have gi: "g \<in> {..<ngroups v}" using assms(2) by simp
    show ?thesis unfolding nfree_def n S(4)
      using sum.remove [OF finite_lessThan gi, of "\<lambda>g. clear_count (blkv f v' (bm_blk v' g)) (bpg v)"]
        sum.remove [OF finite_lessThan gi, of "\<lambda>g. clear_count (blkv f v (bm_blk v g)) (bpg v)"]
        sum.cong [OF refl o', of "{..<ngroups v} - {g}"] g by simp
  qed
  moreover have "vol_ok f v'"
    unfolding vol_ok_def n S(4) shape_meta [OF s] no good_no_def S(3)
    using E(2) use d(4,5) bits unfolding good_no_def by blast
  moreover have "\<not> in_use f v (block_no v g b)"
    using block_no_inj [OF d(3) assms(2) b(1)] b(2) unfolding in_use_def by blast
  ultimately show ?thesis unfolding alloced_def using s E(3-5,7,8) use d(5) [OF assms(2) b] by blast
qed

lemma allocBlock_ok:
  assumes "vol_ok f v" "unat prefer < ngroups v"
  shows "if nfree f v = 0 then allocBlock now f prefer v = (Inl (Err ''ext4: no free blocks''), v)
    else \<exists>x v'. allocBlock now f prefer v = (Inr x, v') \<and> alloced f v x v'"
proof -
  note d = vol_okD [OF assms(1)]
  note C = allocBlock_cases [OF d(1) assms(2), of now]
  have gs: "set (groups_from v (unat prefer)) = {..<ngroups v}" using set_groups_from layoutD(1) [OF d(3)] assms(2) by simp
  show ?thesis
  proof (cases "find (\<lambda>g. clear_in f v g \<noteq> None) (groups_from v (unat prefer))")
    case None
    then have "clear_in f v g = None" if "g < ngroups v" for g using that gs by (auto simp: find_None_iff)
    then have "clear_count (blkv f v (bm_blk v g)) (bpg v) = 0" if "g < ngroups v" for g
      using that clear_count_pos [of "blkv f v (bm_blk v g)" "bpg v"] by (simp add: clear_in_def)
    then have "nfree f v = 0" by (simp add: nfree_def)
    then show ?thesis using C None by simp
  next
    case (Some g)
    then have g: "g < ngroups v" "clear_in f v g \<noteq> None" using gs by (auto simp: find_Some_iff)
    then obtain b where b: "clear_in f v g = Some b" by blast
    obtain v' where v': "allocBlock now f prefer v = (Inr (block_no v g b), v')" "took_block f v g b v'" using C Some b by auto
    have A: "alloced f v (block_no v g b) v'" by (rule took_block_alloced [OF assms(1) g(1) b v'(2)])
    then have "nfree f v \<noteq> 0" by (simp add: alloced_def)
    then show ?thesis using A v'(1) by auto
  qed
qed

end
