(* ===== verification/Ext4Tree.thy ===== *)
theory Ext4Tree
  imports Ext4AllocCorrect
begin

text \<open>
  The extent tree as a list: \<open>file_tree f v i ls ps\<close> says that the tree of inode \<open>i\<close> maps the
  logical blocks 0, 1, 2, ... to the physical blocks \<open>ps\<close>, one extent each, through the leaf blocks
  \<open>ls\<close> (none while the extents fit into the inode).  This is the shape the driver builds.
\<close>

unbundle bit_operations_syntax

subsection \<open>Fields of a buffer after writes\<close>

lemma get_puts_other:
  "\<forall>(o', d) \<in> set ps. off + 2 \<le> o' \<or> o' + length d \<le> off \<Longrightarrow> off + 2 \<le> length b \<Longrightarrow> get16 (puts ps b) off = get16 b off"
  "\<forall>(o', d) \<in> set ps. off + 4 \<le> o' \<or> o' + length d \<le> off \<Longrightarrow> off + 4 \<le> length b \<Longrightarrow> get32 (puts ps b) off = get32 b off"
  using puts_other [of ps off 2 b] puts_other [of ps off 4 b]
  by (simp_all add: c16.get_local [of off b] c16.get_local [of off "puts ps b"] c32.get_local [of off b] c32.get_local [of off "puts ps b"])

lemma get_puts_read:
  "\<forall>(o', d') \<in> set ys. off + 2 \<le> o' \<or> o' + length d' \<le> off \<Longrightarrow> off + 2 \<le> length b \<Longrightarrow> get16 (puts (xs @ (off, le16 v) # ys) b) off = v"
  "\<forall>(o', d') \<in> set ys. off + 4 \<le> o' \<or> o' + length d' \<le> off \<Longrightarrow> off + 4 \<le> length b \<Longrightarrow> get32 (puts (xs @ (off, le32 w) # ys) b) off = w"
  using puts_read [OF refl, of ys off "le16 v" b xs] puts_read [OF refl, of ys off "le32 w" b xs]
  by (auto intro: sub_get16 sub_get32)

subsection \<open>Nodes\<close>

definition leaf_entry :: "bytes \<Rightarrow> nat \<Rightarrow> nat \<Rightarrow> u64 \<Rightarrow> bool" where
  "leaf_entry raw off lb pb \<longleftrightarrow> get32 raw off = of_nat lb \<and> get16 raw (off + 4) = 1 \<and>
     get16 raw (off + 6) = ucast (drop_bit 32 pb) \<and> get32 raw (off + 8) = ucast pb"

definition leaf_node :: "bytes \<Rightarrow> nat \<Rightarrow> u64 list \<Rightarrow> bool" where
  "leaf_node raw lb0 ps \<longleftrightarrow> get16 raw 0 = 0xF30A \<and> get16 raw 2 = of_nat (length ps) \<and> get16 raw 6 = 0 \<and>
     12 + length ps * 12 \<le> length raw \<and> length ps < 2 ^ 16 \<and> (\<forall>k < length ps. leaf_entry raw (12 + k * 12) (lb0 + k) (ps ! k))"

definition index_entry :: "bytes \<Rightarrow> nat \<Rightarrow> nat \<Rightarrow> u64 \<Rightarrow> bool" where
  "index_entry raw off lb child \<longleftrightarrow> get32 raw off = of_nat lb \<and>
     get32 raw (off + 4) = ucast child \<and> get16 raw (off + 8) = ucast (drop_bit 32 child)"

definition index_node :: "bytes \<Rightarrow> nat \<Rightarrow> u64 list \<Rightarrow> bool" where
  "index_node raw m ls \<longleftrightarrow> get16 raw 0 = 0xF30A \<and> get16 raw 2 = of_nat (length ls) \<and> get16 raw 6 = 1 \<and>
     12 + length ls * 12 \<le> length raw \<and> length ls < 2 ^ 16 \<and> (\<forall>j < length ls. index_entry raw (12 + j * 12) (j * m) (ls ! j))"

lemma join48: "unat (pb :: u64) < 2 ^ 48 \<Longrightarrow> ucast (ucast pb :: u32) OR push_bit 32 (ucast (ucast (drop_bit 32 pb) :: u16)) = pb"
proof (rule bit_word_eqI)
  fix n assume pb: "unat pb < 2 ^ 48" "n < LENGTH(64)"
  have "\<not> bit pb n" if "48 \<le> n"
  proof
    assume "bit pb n"
    then have "odd (unat pb div 2 ^ n)" using bit_iff_odd [of "unat pb" n] by (simp add: bit_unsigned_iff possible_bit_def)
    moreover have "unat pb < 2 ^ n" using pb(1) power_increasing [OF that, of "2 :: nat"] by linarith
    ultimately show False by simp
  qed
  then have "bit pb n \<Longrightarrow> n < 48" by (meson not_le)
  then show "bit (ucast (ucast pb :: u32) OR push_bit 32 (ucast (ucast (drop_bit 32 pb) :: u16)) :: u64) n = bit pb n"
    by (auto simp: bit_simps dest: bit_imp_le_length)
qed

subsection \<open>Searching\<close>

lemma find_leaf_from:
  assumes "leaf_node raw lb0 ps" "lb0 + length ps \<le> 2 ^ 32" "\<forall>p \<in> set ps. unat p < 2 ^ 48" "k \<le> length ps"
  shows "find_leaf raw lb [k..<length ps] =
    Inr (if lb0 + k \<le> unat lb \<and> unat lb < lb0 + length ps then ps ! (unat lb - lb0) else 0)"
  using assms(4)
proof (induction "length ps - k" arbitrary: k)
  case 0
  then show ?case by auto
next
  case (Suc d)
  then have k: "k < length ps" "[k..<length ps] = k # [Suc k..<length ps]" by (auto simp: upt_conv_Cons)
  have e: "leaf_entry raw (12 + k * 12) (lb0 + k) (ps ! k)" and l: "12 + length ps * 12 \<le> length raw"
    using assms(1) k(1) by (auto simp: leaf_node_def)
  have "k * 12 + 12 \<le> length ps * 12" using k(1) by simp
  then have l': "\<not> length raw < 12 + k * 12 + 12" using l by linarith
  define first where "first = (of_nat (lb0 + k) :: u32)"
  have uf: "unat first = lb0 + k" unfolding first_def using k(1) assms(2) by (intro unat_of_nat32) simp
  have hit: "first \<le> lb \<and> lb \<le> first \<longleftrightarrow> unat lb = lb0 + k"
    using uf by (auto simp: word_le_nat_alt)
  have eqf: "unat lb = lb0 + k \<Longrightarrow> lb - first = 0" using uf by (metis diff_self word_unat_eq_iff)
  have pb: "unat (ps ! k) < 2 ^ 48" using assms(3) k(1) by simp
  have "find_leaf raw lb (k # [Suc k..<length ps]) =
      (if first \<le> lb \<and> lb \<le> first then Inr (ps ! k + ucast (lb - first)) else find_leaf raw lb [Suc k..<length ps])"
    using e [unfolded leaf_entry_def, folded first_def] l' join48 [OF pb]
    by (simp add: parseExtentLeaf_def Let_def numBlocks_def physBlock_def first_def [symmetric] del: of_nat_add split del: if_split cong: if_cong)
  also have "\<dots> = Inr (if lb0 + k \<le> unat lb \<and> unat lb < lb0 + length ps then ps ! (unat lb - lb0) else 0)"
    using Suc.hyps(1) [of "Suc k"] Suc.hyps(2) k(1) hit eqf by auto
  finally show ?case unfolding k(2) .
qed

lemma find_leaf_all:
  assumes "leaf_node raw lb0 ps" "lb0 + length ps \<le> 2 ^ 32" "\<forall>p \<in> set ps. unat p < 2 ^ 48"
  shows "find_leaf raw lb [0..<length ps] =
    Inr (if lb0 \<le> unat lb \<and> unat lb < lb0 + length ps then ps ! (unat lb - lb0) else 0)"
  using find_leaf_from [OF assms, of 0] by simp

lemma find_child_from:
  assumes "index_node raw m ls" "0 < m" "length ls * m \<le> 2 ^ 32" "\<forall>p \<in> set ls. unat p < 2 ^ 48" "k \<le> length ls"
  shows "find_child raw lb [k..<length ls] best =
    Inr (if k < length ls \<and> k * m \<le> unat lb then Some (ls ! min (length ls - 1) (unat lb div m)) else best)"
  using assms(5)
proof (induction "length ls - k" arbitrary: k best)
  case 0
  then show ?case by simp
next
  case (Suc d)
  then have k: "k < length ls" "[k..<length ls] = k # [Suc k..<length ls]" by (auto simp: upt_conv_Cons)
  have e: "index_entry raw (12 + k * 12) (k * m) (ls ! k)" and l: "12 + length ls * 12 \<le> length raw"
    using assms(1) k(1) by (auto simp: index_node_def)
  have "k * 12 + 12 \<le> length ls * 12" using k(1) by simp
  then have l': "\<not> length raw < 12 + k * 12 + 12" using l by linarith
  have "k * m < length ls * m" using k(1) assms(2) by simp
  then have ul: "unat (of_nat (k * m) :: u32) = k * m" using assms(3) by (intro unat_of_nat32) linarith
  have pb: "unat (ls ! k) < 2 ^ 48" using assms(4) k(1) by simp
  have step: "find_child raw lb (k # [Suc k..<length ls]) best =
      (if k * m \<le> unat lb then find_child raw lb [Suc k..<length ls] (Some (ls ! k)) else Inr best)"
    using e l' join48 [OF pb] ul by (simp add: parseExtentIdx_def index_entry_def word_le_nat_alt)
  show ?case
  proof (cases "k * m \<le> unat lb")
    case True
    have "find_child raw lb [Suc k..<length ls] (Some (ls ! k)) =
        Inr (if Suc k < length ls \<and> Suc k * m \<le> unat lb then Some (ls ! min (length ls - 1) (unat lb div m)) else Some (ls ! k))"
      using Suc.hyps(1) [of "Suc k"] Suc.hyps(2) k(1) by simp
    moreover have "min (length ls - 1) (unat lb div m) = k" if "\<not> (Suc k < length ls \<and> Suc k * m \<le> unat lb)"
    proof (cases "Suc k < length ls")
      case True
      then have "unat lb < Suc k * m" using that by simp
      then have "unat lb div m = k" using \<open>k * m \<le> unat lb\<close> assms(2) by (intro div_nat_eqI) (simp_all add: mult.commute)
      then show ?thesis using True by simp
    next
      case False
      then have "length ls - 1 = k" using k(1) by simp
      moreover have "k \<le> unat lb div m" using \<open>k * m \<le> unat lb\<close> assms(2) by (simp add: less_eq_div_iff_mult_less_eq)
      ultimately show ?thesis by simp
    qed
    ultimately show ?thesis using step True k by auto
  next
    case False
    then show ?thesis using step k by simp
  qed
qed

subsection \<open>The tree of a file\<close>

text \<open>Logical blocks are 32-bit numbers, physical blocks have 48 bits.\<close>

definition file_tree :: "gofile \<Rightarrow> ext4vol \<Rightarrow> inode \<Rightarrow> u64 list \<Rightarrow> u64 list \<Rightarrow> bool" where
  "file_tree f v i ls ps \<longleftrightarrow> i_flags i AND inodeFlagExtents \<noteq> 0 \<and> inode_ok i \<and> (\<forall>p \<in> set ps \<union> set ls. good_no v p) \<and>
     (if ls = [] then length ps \<le> 4 \<and> leaf_node (i_block i) 0 ps
      else length ls \<le> 4 \<and> (length ls - 1) * max_leaf v < length ps \<and> length ps \<le> length ls * max_leaf v \<and>
        index_node (i_block i) (max_leaf v) ls \<and>
        (\<forall>j < length ls. leaf_node (blkv f v (ls ! j)) (j * max_leaf v) (take (max_leaf v) (drop (j * max_leaf v) ps))))"

lemma max_leaf_bound: "geo f v \<Longrightarrow> 84 \<le> max_leaf v \<and> max_leaf v < 2 ^ 30"
proof -
  assume g: "geo f v"
  have "bsz v < 2 ^ 32" unfolding bsz_def using unsigned_less [of "es_blockSize (e_sb v)"] by simp
  then have "(bsz v - 12) div 12 \<le> 2 ^ 32 div 12" by (intro div_le_mono) simp
  moreover have "(1024 - 12) div 12 \<le> (bsz v - 12) div 12" using geoD(5) [OF g] by (intro div_le_mono) simp
  ultimately show ?thesis by (simp add: max_leaf_def)
qed

lemma parse_header: "12 \<le> length raw \<Longrightarrow> parseExtentHeader raw =
  Inr \<lparr>eh_magic = get16 raw 0, eh_entries = get16 raw 2, eh_max = get16 raw 4, eh_depth = get16 raw 6, eh_generation = get32 raw 8\<rparr>"
  by (simp add: parseExtentHeader_def)

lemma search_leaf:
  assumes "leaf_node raw lb0 ps" "lb0 + length ps \<le> 2 ^ 32" "\<forall>p \<in> set ps. unat p < 2 ^ 48"
  shows "searchExtentNode k f v raw lb = Inr (if lb0 \<le> unat lb \<and> unat lb < lb0 + length ps then ps ! (unat lb - lb0) else 0)"
proof -
  note L = assms(1) [unfolded leaf_node_def]
  have "unat (of_nat (length ps) :: u16) = length ps" using L by (simp add: unat_of_nat)
  moreover have "12 \<le> length raw" using L by linarith
  ultimately show ?thesis using L find_leaf_all [OF assms, of lb] by (subst searchExtentNode.simps) (simp add: parse_header)
qed

lemma logicalToPhysical_tree:
  assumes "geo f v" "file_tree f v i ls ps"
  shows "logicalToPhysical f v i lb = Inr (if unat lb < length ps then ps ! unat lb else 0)"
proof -
  note T = assms(2) [unfolded file_tree_def]
  define m where "m = max_leaf v"
  have m: "84 \<le> m" "m < 2 ^ 30" "0 < m" using max_leaf_bound [OF assms(1)] by (simp_all add: m_def)
  have sm: "\<forall>p \<in> set ps. unat p < 2 ^ 48" "\<forall>p \<in> set ls. unat p < 2 ^ 48" using T by (auto simp: good_no_def)
  have e: "logicalToPhysical f v i lb = searchExtentNode tree_fuel f v (i_block i) lb" using T by (simp add: logicalToPhysical_def)
  show ?thesis
  proof (cases "ls = []")
    case True
    then have "leaf_node (i_block i) 0 ps" "length ps \<le> 4" using T by simp_all
    then show ?thesis unfolding e using search_leaf [of "i_block i" 0 ps] sm by simp
  next
    case False
    then have I: "index_node (i_block i) m ls" and n: "length ls \<le> 4" "(length ls - 1) * m < length ps" "length ps \<le> length ls * m"
      and N: "\<forall>j < length ls. leaf_node (blkv f v (ls ! j)) (j * m) (take m (drop (j * m) ps))"
      using T by (simp_all add: m_def)
    have lm: "length ls * m \<le> 4 * m" using n(1) by (intro mult_le_mono1)
    then have lm': "length ls * m \<le> 2 ^ 32" by (rule order_trans) (use m(2) in simp)
    define j where "j = min (length ls - 1) (unat lb div m)"
    have j: "j < length ls" using False by (auto simp: j_def min_def)
    have jm: "j * m + length (take m (drop (j * m) ps)) \<le> length ps \<or> length ps \<le> j * m" by auto
    have "j * m \<le> (length ls - 1) * m" by (simp add: j_def)
    then have jl: "j * m < length ps" using n(2) by linarith
    have vb: "vblk v (ls ! j)" using T j by (simp add: good_no_def)
    note IN = I [unfolded index_node_def]
    have u: "unat (of_nat (length ls) :: u16) = length ls" using IN by (simp add: unat_of_nat)
    have l12: "12 \<le> length (i_block i)" using IN by linarith
    have "find_child (i_block i) lb [0..<length ls] None = Inr (Some (ls ! j))"
      using find_child_from [OF I m(3) lm' sm(2), of 0 lb None] False by (simp add: j_def)
    then have "logicalToPhysical f v i lb = searchExtentNode (tree_fuel - 1) f v (blkv f v (ls ! j)) lb"
      unfolding e using IN u l12 readBlock_blkv [OF assms(1) vb]
      by (subst searchExtentNode.simps) (simp add: parse_header tree_fuel_def)
    also have "\<dots> = Inr (if j * m \<le> unat lb \<and> unat lb < j * m + length (take m (drop (j * m) ps))
        then take m (drop (j * m) ps) ! (unat lb - j * m) else 0)"
      using N j jm jl n(3) lm' sm(1) by (intro search_leaf) (auto dest: in_set_takeD in_set_dropD)
    also have "\<dots> = Inr (if unat lb < length ps then ps ! unat lb else 0)"
    proof (cases "unat lb < length ps")
      case True
      then have "unat lb < length ls * m" using n(3) by linarith
      then have "unat lb div m < length ls" using m(3) by (simp add: div_less_iff_less_mult)
      then have "j = unat lb div m" by (simp add: j_def)
      then have "j * m + unat lb mod m = unat lb" by simp
      then have "j * m \<le> unat lb" "unat lb < j * m + m" using mod_less_divisor [OF m(3), of "unat lb"] by linarith+
      then show ?thesis using True jl by (auto simp: min_def)
    next
      case False
      have "j * m + length (take m (drop (j * m) ps)) \<le> unat lb" using False jl by simp
      then show ?thesis using False by simp
    qed
    finally show ?thesis .
  qed
qed

subsection \<open>Building nodes\<close>

lemma leaf_node_append:
  assumes "leaf_node raw lb0 ps" "12 + (length ps + 1) * 12 \<le> length raw" "length ps + 1 < 2 ^ 16"
  shows "leaf_node (puts (leaf_puts (12 + length ps * 12) (of_nat (lb0 + length ps)) pb 1 @ [(2, le16 (of_nat (length ps) + 1))]) raw) lb0 (ps @ [pb])"
proof -
  define w where "w = leaf_puts (12 + length ps * 12) (of_nat (lb0 + length ps)) pb 1 @ [(2, le16 (of_nat (length ps) + 1))]"
  note L = assms(1) [unfolded leaf_node_def]
  have "get16 (puts w raw) 0 = 0xF30A" "get16 (puts w raw) 6 = 0"
    using L assms(2) by (simp_all add: w_def leaf_puts_def get_puts_other del: puts_simps)
  moreover have "get16 (puts w raw) 2 = of_nat (length ps) + 1"
    unfolding w_def using assms(2) by (intro get_puts_read(1)) simp_all
  moreover have "leaf_entry (puts w raw) (12 + k * 12) (lb0 + k) ((ps @ [pb]) ! k)" if "k < length (ps @ [pb])" for k
  proof (cases "k = length ps")
    case True
    have r32: "get32 (puts (xs @ (off, le32 x) # ys) raw) off = x"
      if "\<forall>(o', d') \<in> set ys. off + 4 \<le> o' \<or> o' + length d' \<le> off" "off + 4 \<le> length raw" for xs off x ys
      using that by (rule get_puts_read(2))
    have r16: "get16 (puts (xs @ (off, le16 x) # ys) raw) off = x"
      if "\<forall>(o', d') \<in> set ys. off + 2 \<le> o' \<or> o' + length d' \<le> off" "off + 2 \<le> length raw" for xs off x ys
      using that by (rule get_puts_read(1))
    have "get32 (puts w raw) (12 + k * 12) = of_nat (lb0 + k)"
      unfolding w_def leaf_puts_def True append_Cons append_Nil using assms(2) r32 [where xs = "[]"] by (simp del: puts_simps)
    moreover have "get16 (puts w raw) (12 + k * 12 + 4) = 1"
      unfolding w_def leaf_puts_def True append_Cons append_Nil using assms(2) r16 [where xs = "[_]"] by (simp del: puts_simps)
    moreover have "get16 (puts w raw) (12 + k * 12 + 6) = ucast (drop_bit 32 pb)"
      unfolding w_def leaf_puts_def True append_Cons append_Nil using assms(2) r16 [where xs = "[_, _]"] by (simp del: puts_simps)
    moreover have "get32 (puts w raw) (12 + k * 12 + 8) = ucast pb"
      unfolding w_def leaf_puts_def True append_Cons append_Nil using assms(2) r32 [where xs = "[_, _, _]"] by (simp del: puts_simps)
    ultimately show ?thesis using True by (simp add: leaf_entry_def)
  next
    case False
    then have k: "k < length ps" using that by simp
    then have b: "k * 12 + 12 \<le> length ps * 12" by simp
    have "leaf_entry raw (12 + k * 12) (lb0 + k) (ps ! k)" using L k by blast
    then show ?thesis using k b assms(2)
      by (simp add: leaf_entry_def w_def leaf_puts_def get_puts_other nth_append del: puts_simps)
  qed
  ultimately show ?thesis using assms(2,3) unfolding w_def [symmetric] leaf_node_def by simp
qed

lemma leaf_node_fresh:
  assumes "24 \<le> n"
  shows "leaf_node (puts (header_puts 1 mx 0 @ leaf_puts 12 (of_nat lb0) pb 1) (zeros n)) lb0 [pb]"
proof -
  define w where "w = header_puts 1 mx 0 @ leaf_puts 12 (of_nat lb0) pb 1"
  have a: "ascending 0 w" by (simp add: w_def header_puts_def leaf_puts_def)
  note G = get_ascending [OF a, of _ _ "zeros n"]
  have "get16 (puts w (zeros n)) 0 = 0xF30A" "get16 (puts w (zeros n)) 2 = 1" "get16 (puts w (zeros n)) 6 = 0"
    "get32 (puts w (zeros n)) 12 = of_nat lb0" "get16 (puts w (zeros n)) 16 = 1"
    "get16 (puts w (zeros n)) 18 = ucast (drop_bit 32 pb)" "get32 (puts w (zeros n)) 20 = ucast pb"
    using assms by (intro G; simp add: w_def header_puts_def leaf_puts_def)+
  then show ?thesis using assms unfolding w_def [symmetric] by (simp add: leaf_node_def leaf_entry_def)
qed

lemma leaf_node_empty: "leaf_node (puts (header_puts 0 mx 0) (zeros 60)) lb0 []"
proof -
  have a: "ascending 0 (header_puts 0 mx 0)" by (simp add: header_puts_def)
  note G = get_ascending [OF a, of _ _ "zeros 60"]
  have "get16 (puts (header_puts 0 mx 0) (zeros 60)) 0 = 0xF30A" "get16 (puts (header_puts 0 mx 0) (zeros 60)) 2 = 0"
    "get16 (puts (header_puts 0 mx 0) (zeros 60)) 6 = 0"
    by (intro G; simp add: header_puts_def)+
  then show ?thesis by (simp add: leaf_node_def)
qed

lemma leaf_node_copy:
  assumes "leaf_node raw lb0 ps" "12 + length ps * 12 \<le> n"
  shows "leaf_node (puts (header_puts (get16 raw 2) mx 0 @ [(12, sub raw 12 (length ps * 12))]) (zeros n)) lb0 ps"
proof -
  note L = assms(1) [unfolded leaf_node_def]
  have "12 + length ps * 12 \<le> length raw" using L by blast
  then have l: "length (sub raw 12 (length ps * 12)) = length ps * 12" by simp
  define w where "w = header_puts (get16 raw 2) mx 0 @ [(12, sub raw 12 (length ps * 12))]"
  have a: "ascending 0 w" by (simp add: w_def header_puts_def)
  note G = get_ascending [OF a, of _ _ "zeros n"]
  have h: "get16 (puts w (zeros n)) 0 = 0xF30A" "get16 (puts w (zeros n)) 2 = get16 raw 2" "get16 (puts w (zeros n)) 6 = 0"
    using assms(2) by (intro G; simp add: w_def header_puts_def)+
  have S: "sub (puts w (zeros n)) 12 (length ps * 12) = sub raw 12 (length ps * 12)"
    using puts_ascending [OF a, of 12 "sub raw 12 (length ps * 12)" "zeros n"] assms(2) l by (simp add: w_def)
  have inner: "sub (puts w (zeros n)) (12 + o') k = sub raw (12 + o') k" if "o' + k \<le> length ps * 12" for o' k
    using sub_sub [OF that, of "puts w (zeros n)" 12] sub_sub [OF that, of raw 12] S by simp
  have e: "leaf_entry (puts w (zeros n)) (12 + k * 12) (lb0 + k) (ps ! k)" if "k < length ps" for k
  proof -
    have b: "k * 12 + 12 \<le> length ps * 12" using that by simp
    have g32: "get32 (puts w (zeros n)) (12 + o') = get32 raw (12 + o')" if "o' + 4 \<le> length ps * 12" for o'
      using inner [OF that] that L assms(2) by (simp add: c32.get_local [of "12 + o'"])
    have g16: "get16 (puts w (zeros n)) (12 + o') = get16 raw (12 + o')" if "o' + 2 \<le> length ps * 12" for o'
      using inner [OF that] that L assms(2) by (simp add: c16.get_local [of "12 + o'"])
    have "leaf_entry raw (12 + k * 12) (lb0 + k) (ps ! k)" using L that by blast
    then show ?thesis using b g32 [of "k * 12"] g16 [of "k * 12 + 4"] g16 [of "k * 12 + 6"] g32 [of "k * 12 + 8"]
      by (simp add: leaf_entry_def add.assoc [symmetric])
  qed
  show ?thesis using L h e assms(2) unfolding w_def [symmetric] leaf_node_def by simp
qed

lemma index_node_fresh:
  "index_node (puts (header_puts 1 4 1 @ [(12, le32 0), (16, le32 (ucast blk)), (20, le16 (ucast (drop_bit 32 blk)))]) (zeros 60)) m [blk]"
proof -
  define w where "w = header_puts 1 4 1 @ [(12, le32 0), (16, le32 (ucast blk)), (20, le16 (ucast (drop_bit 32 blk)))]"
  have a: "ascending 0 w" by (simp add: w_def header_puts_def)
  note G = get_ascending [OF a, of _ _ "zeros 60"]
  have "get16 (puts w (zeros 60)) 0 = 0xF30A" "get16 (puts w (zeros 60)) 2 = 1" "get16 (puts w (zeros 60)) 6 = 1"
    "get32 (puts w (zeros 60)) 12 = 0" "get32 (puts w (zeros 60)) 16 = ucast blk" "get16 (puts w (zeros 60)) 20 = ucast (drop_bit 32 blk)"
    by (intro G; simp add: w_def header_puts_def)+
  then show ?thesis unfolding w_def [symmetric] by (simp add: index_node_def index_entry_def)
qed

lemma index_node_append:
  assumes "index_node raw m ls" "12 + (length ls + 1) * 12 \<le> length raw" "length ls + 1 < 2 ^ 16"
  shows "index_node (puts [(12 + length ls * 12, le32 (of_nat (length ls * m))), (12 + length ls * 12 + 4, le32 (ucast blk)),
      (12 + length ls * 12 + 8, le16 (ucast (drop_bit 32 blk))), (2, le16 (of_nat (length ls) + 1))] raw) m (ls @ [blk])"
proof -
  define w where "w = [(12 + length ls * 12, le32 (of_nat (length ls * m))), (12 + length ls * 12 + 4, le32 (ucast blk)),
      (12 + length ls * 12 + 8, le16 (ucast (drop_bit 32 blk))), (2, le16 (of_nat (length ls) + 1))]"
  note L = assms(1) [unfolded index_node_def]
  have "get16 (puts w raw) 0 = 0xF30A" "get16 (puts w raw) 6 = 1"
    using L assms(2) by (simp_all add: w_def get_puts_other del: puts_simps)
  moreover have "get16 (puts w raw) 2 = of_nat (length ls) + 1"
    unfolding w_def using assms(2) get_puts_read(1) [where xs = "[_, _, _]" and ys = "[]"] by (simp del: puts_simps)
  moreover have "index_entry (puts w raw) (12 + k * 12) (k * m) ((ls @ [blk]) ! k)" if "k < length (ls @ [blk])" for k
  proof (cases "k = length ls")
    case True
    have "get32 (puts w raw) (12 + k * 12) = of_nat (k * m)"
      unfolding w_def True using assms(2) get_puts_read(2) [where xs = "[]"] by (simp del: puts_simps)
    moreover have "get32 (puts w raw) (12 + k * 12 + 4) = ucast blk"
      unfolding w_def True using assms(2) get_puts_read(2) [where xs = "[_]"] by (simp del: puts_simps)
    moreover have "get16 (puts w raw) (12 + k * 12 + 8) = ucast (drop_bit 32 blk)"
      unfolding w_def True using assms(2) get_puts_read(1) [where xs = "[_, _]"] by (simp del: puts_simps)
    ultimately show ?thesis using True by (simp add: index_entry_def)
  next
    case False
    then have k: "k < length ls" using that by simp
    then have b: "k * 12 + 12 \<le> length ls * 12" by simp
    have "index_entry raw (12 + k * 12) (k * m) (ls ! k)" using L k by blast
    then show ?thesis using k b assms(2) by (simp add: index_entry_def w_def get_puts_other nth_append del: puts_simps)
  qed
  ultimately show ?thesis using assms(2,3) unfolding w_def [symmetric] index_node_def by simp
qed

end
