(* ===== verification/Ext4FileState.thy ===== *)
theory Ext4FileState
  imports Ext4Tree
begin

text \<open>
  Steps of an ext4 volume that keep it consistent, staged inodes, and the state of one file: its
  inode, its extent tree and the blocks allocated to it.
\<close>

unbundle bit_operations_syntax

subsection \<open>Steps of a volume\<close>

text \<open>
  From \<open>v\<close> to \<open>v'\<close> the blocks \<open>N\<close> were allocated and, beside the blocks of the allocators, at most the
  blocks \<open>W\<close> were written.
\<close>

definition vstep :: "gofile \<Rightarrow> ext4vol \<Rightarrow> u64 set \<Rightarrow> u64 set \<Rightarrow> ext4vol \<Rightarrow> bool" where
  "vstep f v N W v' \<longleftrightarrow> shape v' = shape v \<and> vol_ok f v' \<and> finite N \<and> (\<forall>y \<in> N. good_no v y \<and> \<not> in_use f v y) \<and>
     (\<forall>y. in_use f v' y \<longleftrightarrow> in_use f v y \<or> y \<in> N) \<and> nfree f v' + card N = nfree f v \<and>
     (\<forall>y. y \<notin> meta v \<and> y \<notin> W \<longrightarrow> blkv f v' y = blkv f v y) \<and>
     (\<forall>h < ngroups v. blkv f v' (im_blk v h) = blkv f v (im_blk v h)) \<and>
     map gd_freeInodesLo (e_groups v') = map gd_freeInodesLo (e_groups v) \<and> (synced f v \<longrightarrow> synced f v')"

lemma vstepD:
  assumes "vstep f v N W v'"
  shows "shape v' = shape v" "vol_ok f v'" "finite N" "y \<in> N \<Longrightarrow> good_no v y" "y \<in> N \<Longrightarrow> \<not> in_use f v y"
    "in_use f v' y \<longleftrightarrow> in_use f v y \<or> y \<in> N" "nfree f v' + card N = nfree f v"
    "y \<notin> meta v \<Longrightarrow> y \<notin> W \<Longrightarrow> blkv f v' y = blkv f v y"
    "h < ngroups v \<Longrightarrow> blkv f v' (im_blk v h) = blkv f v (im_blk v h)"
    "map gd_freeInodesLo (e_groups v') = map gd_freeInodesLo (e_groups v)" "synced f v \<Longrightarrow> synced f v'"
  using assms unfolding vstep_def by blast+

lemma vstep_trans:
  assumes "vstep f v N W v1" "vstep f v1 N' W' v2"
  shows "vstep f v (N \<union> N') (W \<union> W') v2"
proof -
  note a = vstepD [OF assms(1)] and b = vstepD [OF assms(2)]
  have S: "good_no v1 = good_no v" using shape_derived(3) [OF a(1)] by (simp add: good_no_def fun_eq_iff)
  have "N \<inter> N' = {}" using a(6) b(5) by blast
  then have c: "card (N \<union> N') = card N + card N'" using a(3) b(3) by (simp add: card_Un_disjoint)
  have "good_no v y \<and> \<not> in_use f v y" if "y \<in> N \<union> N'" for y using that a(4,5,6) b(4,5) S by auto
  moreover have "in_use f v2 y \<longleftrightarrow> in_use f v y \<or> y \<in> N \<union> N'" for y using a(6) b(6) by blast
  moreover have "nfree f v2 + card (N \<union> N') = nfree f v" using a(7) b(7) c by linarith
  moreover have "blkv f v2 y = blkv f v y" if "y \<notin> meta v" "y \<notin> W \<union> W'" for y
    using that a(8) b(8) shape_meta [OF a(1)] by auto
  moreover have "blkv f v2 (im_blk v h) = blkv f v (im_blk v h)" if "h < ngroups v" for h
    using that a(9) b(9) [of h] shape_derived(10) [OF a(1) that] shape_fields(5) [OF a(1)] by simp
  ultimately show ?thesis using a(1,3,10,11) b(1,2,3,10,11) unfolding vstep_def by simp
qed

lemma vstep_alloced: "alloced f v x v' \<Longrightarrow> vstep f v {x} {} v'"
  by (simp add: alloced_def vstep_def)

lemma vstep_write:
  assumes "vol_ok f v" "x \<notin> meta v" "length d = bsz v" "vblk v x"
  shows "vstep f v {} {x} (writeBlock x d v)"
proof -
  note d = vol_okD [OF assms(1)]
  let ?v = "writeBlock x d v"
  have s: "shape ?v = shape v" by (simp add: shape_def)
  note S = shape_derived [OF s] and n = shape_fields(5) [OF s]
  have b: "blkv f ?v y = blkv f v y" if "y \<in> meta v" for y
    using that assms(2) by (auto simp: blkv_writeBlock [OF assms(3)])
  have bm: "blkv f ?v (bm_blk ?v h) = blkv f v (bm_blk v h)" if "h < ngroups v" for h
    using b [OF meta_in(3) [OF that]] S(9) [OF that] by simp
  have no: "block_no ?v h c = block_no v h c" for h c by (simp add: block_no_def)
  have use: "in_use f ?v y \<longleftrightarrow> in_use f v y" for y unfolding in_use_def n S(4) no using bm by (metis (no_types, lifting))
  have "counts_ok f ?v" using alloc_okD(3) [OF d(1)] bm by (simp add: counts_ok_def n S(4))
  then have "alloc_ok f ?v" using geo_writeBlock [OF d(2)] shape_layout [OF s] d(3) by (simp add: alloc_ok_def)
  then have "vol_ok f ?v"
    unfolding vol_ok_def shape_meta [OF s] n S(4) no use good_no_def S(3) using d(4,5) bm unfolding good_no_def by auto
  moreover have "nfree f ?v = nfree f v" unfolding nfree_def n S(4) using bm by simp
  moreover have "synced f v \<Longrightarrow> synced f ?v" by (rule synced_write) (use assms(2-4) in \<open>auto simp: meta_def\<close>)
  ultimately show ?thesis unfolding vstep_def using s use b [OF meta_in(4)] by (simp add: blkv_writeBlock [OF assms(3)])
qed

text \<open>Staging an inode leaves every block alone.\<close>

lemma raw_keeps [simp]:
  "e_sr (writeRawInode num raw v) = e_sr v" "e_sb (writeRawInode num raw v) = e_sb v" "e_groups (writeRawInode num raw v) = e_groups v"
  "e_dirty (writeRawInode num raw v) = e_dirty v" "e_wa (writeRawInode num raw v) = e_wa v" "e_srOffset (writeRawInode num raw v) = e_srOffset v"
  "bsz (writeRawInode num raw v) = bsz v" "isz (writeRawInode num raw v) = isz v"
  "map_of (e_dirtyInodes (writeRawInode num raw v)) k = (if k = num then Some raw else map_of (e_dirtyInodes v) k)"
  by (simp_all add: writeRawInode_def bsz_def isz_def update_conv')

lemma blkv_raw [simp]: "blkv f (writeRawInode num raw v) = blkv f v"
  by (rule blkv_cong) simp_all

lemma vstep_raw:
  assumes "vol_ok f v"
  shows "vstep f v {} {} (writeRawInode num raw v)"
proof -
  let ?v = "writeRawInode num raw v"
  note d = vol_okD [OF assms]
  have s: "shape ?v = shape v" by (simp add: shape_def)
  note S = shape_derived [OF s] and n = shape_fields(5) [OF s]
  have bm: "bm_blk ?v = bm_blk v" "im_blk ?v = im_blk v" by (simp_all add: bm_blk_def im_blk_def fun_eq_iff)
  have no: "block_no ?v = block_no v" by (simp add: block_no_def fun_eq_iff)
  have use: "in_use f ?v = in_use f v" by (simp add: in_use_def fun_eq_iff n S(4) no bm)
  have "geo f ?v" using d(2) by (simp add: geo_def)
  moreover have "counts_ok f ?v" using alloc_okD(3) [OF d(1)] by (simp add: counts_ok_def n S(4) bm)
  ultimately have "alloc_ok f ?v" using shape_layout [OF s] d(3) by (simp add: alloc_ok_def)
  then have "vol_ok f ?v"
    unfolding vol_ok_def shape_meta [OF s] n S(4) no use good_no_def S(3) bm using d(4,5) unfolding good_no_def by simp
  moreover have "nfree f ?v = nfree f v" by (simp add: nfree_def n S(4) bm)
  moreover have "synced f ?v" if y: "synced f v"
  proof (rule synced_cong [OF y s])
    show "distinct (map fst (e_dirtyInodes ?v))" using syncedD(10) [OF y] by (simp add: writeRawInode_def distinct_update)
  qed (use syncedD(9) [OF y] in simp_all)
  ultimately show ?thesis unfolding vstep_def using s by (simp add: use)
qed

subsection \<open>Inodes\<close>

definition valid_ino :: "ext4vol \<Rightarrow> u32 \<Rightarrow> bool" where
  "valid_ino v num \<longleftrightarrow> unat ((num - 1) div es_inodesPerGroup (e_sb v)) < ngroups v"

definition inodes_ok :: "ext4vol \<Rightarrow> bool" where
  "inodes_ok v \<longleftrightarrow> 160 \<le> isz v \<and> (\<forall>k raw. map_of (e_dirtyInodes v) k = Some raw \<longrightarrow> length raw = isz v)"

text \<open>The staged inodes after a change of inode \<open>num\<close> only.\<close>

definition only_inode :: "u32 \<Rightarrow> ext4vol \<Rightarrow> ext4vol \<Rightarrow> bool" where
  "only_inode num v v' \<longleftrightarrow> (\<forall>k. k \<noteq> num \<longrightarrow> map_of (e_dirtyInodes v') k = map_of (e_dirtyInodes v) k)"

lemma valid_shape: "shape v' = shape v \<Longrightarrow> valid_ino v' = valid_ino v"
  using shape_fields(5) [of v' v] sb_static_fields(3) [OF shape_fields(4), of v' v] by (simp add: valid_ino_def fun_eq_iff)

lemma readRawInode_cases:
  assumes "layout_ok v" "inodes_ok v" "valid_ino v num"
  shows "(\<exists>raw. readRawInode f v num = Inr raw \<and> length raw = isz v) \<or> (\<exists>e. readRawInode f v num = Inl e \<and> \<not> crash e)"
proof (cases "map_of (e_dirtyInodes v) num")
  case (Some raw)
  then show ?thesis using assms(2) by (auto simp: readRawInode_def inodes_ok_def)
next
  case None
  have "es_inodesPerGroup (e_sb v) \<noteq> 0" using layoutD(5) [OF assms(1)] by (auto simp: ipg_def)
  then have g: "inodeBlockGroup v num = Inr ((num - 1) div es_inodesPerGroup (e_sb v))" "inodeLocalIndex v num = Inr ((num - 1) mod es_inodesPerGroup (e_sb v))"
    by (simp_all add: inodeBlockGroup_def inodeLocalIndex_def)
  obtain tb where tb: "inodeTableBlock v ((num - 1) div es_inodesPerGroup (e_sb v)) = Inr tb"
    using assms(3) by (auto simp: inodeTableBlock_def group_at_def valid_ino_def ngroups_def)
  define r where "r = full (SecReadAt f (e_sr v) (isz v) (wrap64 (blk_off v tb + int (unat ((num - 1) mod es_inodesPerGroup (e_sb v))) * int (isz v))))"
  have "readRawInode f v num = wrapR ''ext4: read inode'' r" using None g tb by (simp add: readRawInode_def r_def)
  then show ?thesis using full_SecReadAt_length by (cases r) (auto simp: r_def)
qed

lemma writeInode_ok:
  assumes "layout_ok v" "inodes_ok v" "valid_ino v num" "inode_ok i"
  shows "\<exists>raw. writeInode f num i v = (Inr (), writeRawInode num raw v) \<and> length raw = isz v \<and> parseInode raw = Inr i"
proof -
  have s: "160 \<le> isz v" using assms(2) by (simp add: inodes_ok_def)
  obtain raw0 where r0: "length raw0 = isz v"
    "tryS (readS (\<lambda>v. readRawInode f v num)) (\<lambda>r. updS (\<lambda>v. bindR (encodeInode i (case r of Inr raw \<Rightarrow> raw | Inl _ \<Rightarrow> zeros (isz v)))
       (\<lambda>raw'. Inr (writeRawInode num raw' v)))) v =
     updS (\<lambda>v. bindR (encodeInode i raw0) (\<lambda>raw'. Inr (writeRawInode num raw' v))) v"
    using readRawInode_cases [OF assms(1-3), of f]
  proof (elim disjE exE conjE)
    fix raw assume "readRawInode f v num = Inr raw" "length raw = isz v"
    then show thesis by (intro that [of raw]) (simp_all add: tryS_def readS_def)
  next
    fix e assume "readRawInode f v num = Inl e" "\<not> crash e"
    then show thesis by (intro that [of "zeros (isz v)"]) (simp_all add: tryS_def readS_def updS_def)
  qed
  define raw where "raw = puts (inode_puts i (length raw0)) raw0"
  have "encodeInode i raw0 = Inr raw" using r0(1) s by (simp add: encodeInode_def raw_def)
  moreover have "parseInode raw = Inr i" unfolding raw_def by (rule parse_encode [OF _ assms(4)]) (use r0(1) s in simp)
  moreover have "length raw = isz v" using r0(1) by (simp add: raw_def)
  ultimately show ?thesis using r0(2) by (intro exI [of _ raw]) (simp add: writeInode_def updS_def)
qed

lemma storeInode_ok:
  assumes "layout_ok v" "inodes_ok v" "valid_ino v num" "inode_ok i"
  shows "\<exists>raw. storeInode f num (v, i) = (Inr (), (writeRawInode num raw v, i)) \<and> length raw = isz v \<and> parseInode raw = Inr i"
  using writeInode_ok [OF assms, of f] by (auto simp: storeInode_def onVol_def)

lemma readInode_raw:
  "parseInode raw = Inr i \<Longrightarrow> readInode f (writeRawInode num raw v) num = Inr i"
  by (simp add: readInode_def readRawInode_def)

lemma inodes_ok_raw: "inodes_ok v \<Longrightarrow> length raw = isz v \<Longrightarrow> inodes_ok (writeRawInode num raw v)"
  by (auto simp: inodes_ok_def)

text \<open>Reading an inode depends on the staged inodes and the image only.\<close>

lemma readInode_cong:
  assumes "shape v' = shape v" "map_of (e_dirtyInodes v') num = map_of (e_dirtyInodes v) num"
  shows "readInode f v' num = readInode f v num"
proof -
  note S = shape_derived [OF assms(1)] and s = shape_fields [OF assms(1)]
  have tb: "inodeTableBlock v' grp = inodeTableBlock v grp" for grp
  proof (cases "unat grp < ngroups v")
    case True
    have "gd_static (e_groups v' ! unat grp) = gd_static (e_groups v ! unat grp)"
      using True s(5,6) by (metis ngroups_def nth_map)
    from gd_static_fields(3,4) [OF this] show ?thesis using True s(5) by (simp add: inodeTableBlock_def group_at_def ngroups_def)
  next
    case False
    then show ?thesis using s(5) by (simp add: inodeTableBlock_def group_at_def ngroups_def)
  qed
  have bo: "blk_off v' = blk_off v"
    using sb_static_fields(1) [OF s(4)] by (simp add: blk_off_def fun_eq_iff)
  have "readRawInode f v' num = readRawInode f v num"
    unfolding readRawInode_def S(2,11,12) s(1) assms(2) tb bo ..
  then show ?thesis by (simp add: readInode_def)
qed

subsection \<open>The state of a file\<close>

text \<open>
  A file that the driver built: its tree lists the blocks \<open>ps\<close>, and they and the leaf blocks \<open>ls\<close>
  are allocated to it once.  The last conjunct of \<open>file_at\<close> says that \<open>i\<close> is the inode on the volume.
\<close>

definition file_state :: "gofile \<Rightarrow> ext4vol \<Rightarrow> u32 \<Rightarrow> inode \<Rightarrow> u64 list \<Rightarrow> u64 list \<Rightarrow> bool" where
  "file_state f v num i ls ps \<longleftrightarrow> vol_ok f v \<and> inodes_ok v \<and> valid_ino v num \<and> bsz v \<le> 65536 \<and> file_tree f v i ls ps \<and>
     distinct (ps @ ls) \<and> (\<forall>p \<in> set (ps @ ls). in_use f v p \<and> p \<notin> meta v)"

definition file_at :: "gofile \<Rightarrow> ext4vol \<Rightarrow> u32 \<Rightarrow> inode \<Rightarrow> u64 list \<Rightarrow> u64 list \<Rightarrow> bool" where
  "file_at f v num i ls ps \<longleftrightarrow> file_state f v num i ls ps \<and> readInode f v num = Inr i"

lemma file_stateD:
  assumes "file_state f v num i ls ps"
  shows "vol_ok f v" "inodes_ok v" "valid_ino v num" "bsz v \<le> 65536" "file_tree f v i ls ps" "distinct (ps @ ls)"
    "p \<in> set (ps @ ls) \<Longrightarrow> in_use f v p" "p \<in> set (ps @ ls) \<Longrightarrow> p \<notin> meta v"
  using assms unfolding file_state_def by blast+

lemma file_treeD:
  assumes "file_tree f v i ls ps"
  shows "i_flags i AND inodeFlagExtents \<noteq> 0" "inode_ok i" "p \<in> set ps \<union> set ls \<Longrightarrow> good_no v p" "length ls \<le> 4"
    "ls = [] \<Longrightarrow> length ps \<le> 4 \<and> leaf_node (i_block i) 0 ps"
    "ls \<noteq> [] \<Longrightarrow> (length ls - 1) * max_leaf v < length ps \<and> length ps \<le> length ls * max_leaf v \<and> index_node (i_block i) (max_leaf v) ls"
    "ls \<noteq> [] \<Longrightarrow> j < length ls \<Longrightarrow> leaf_node (blkv f v (ls ! j)) (j * max_leaf v) (take (max_leaf v) (drop (j * max_leaf v) ps))"
  using assms unfolding file_tree_def by (auto split: if_splits)

lemma max_leaf_le: "bsz v \<le> 65536 \<Longrightarrow> max_leaf v < 2 ^ 16"
  using div_le_mono [of "bsz v - 12" 65536 12] by (simp add: max_leaf_def)

lemma max_leaf_room: "12 \<le> bsz v \<Longrightarrow> 12 + max_leaf v * 12 \<le> bsz v"
  unfolding max_leaf_def using div_times_less_eq_dividend [of "bsz v - 12" 12] by linarith

lemma shape_more:
  assumes "shape v' = shape v"
  shows "max_leaf v' = max_leaf v" "good_no v' = good_no v"
  using shape_derived(1,3) [OF assms] by (simp_all add: max_leaf_def good_no_def fun_eq_iff)

text \<open>The block that a file takes over: allocated, and not part of any structure yet.\<close>

definition fresh :: "gofile \<Rightarrow> ext4vol \<Rightarrow> u64 \<Rightarrow> u64 list \<Rightarrow> bool" where
  "fresh f v x xs \<longleftrightarrow> good_no v x \<and> in_use f v x \<and> x \<notin> meta v \<and> x \<notin> set xs"

lemma alloced_fresh:
  assumes "vol_ok f v" "alloced f v x v'" "\<forall>p \<in> set xs. in_use f v p"
  shows "fresh f v' x xs"
  using assms vol_okD(4) [OF assms(1)] shape_meta [of v' v] shape_more(2) [of v' v]
  unfolding alloced_def fresh_def by auto

lemma allocNear_ok:
  assumes "vol_ok f v" "valid_ino v num" "nfree f v \<noteq> 0"
  shows "\<exists>x v'. allocNear now f num v = (Inr x, v') \<and> alloced f v x v'"
proof -
  have "es_inodesPerGroup (e_sb v) \<noteq> 0" using layoutD(5) [OF vol_okD(3) [OF assms(1)]] by (auto simp: ipg_def)
  then have "inodeBlockGroup v num = Inr ((num - 1) div es_inodesPerGroup (e_sb v))" by (simp add: inodeBlockGroup_def)
  then show ?thesis
    using allocBlock_ok [OF assms(1), of "(num - 1) div es_inodesPerGroup (e_sb v)" now] assms(2,3)
    by (simp add: allocNear_def bindS_def readS_def valid_ino_def)
qed

end
