(* ===== verification/Ext4FileWrite.thy ===== *)
theory Ext4FileWrite
  imports Ext4FileState
begin

text \<open>
  Growing a file: \<open>appendExtentToInode\<close> enters one more block in the extent tree, through all the
  shapes the tree goes through, and nothing else changes.
\<close>

unbundle bit_operations_syntax

text \<open>The file \<open>num\<close> has grown to the blocks \<open>ps\<close>; \<open>N\<close> are the leaf blocks that were allocated for it.\<close>

definition grows :: "gofile \<Rightarrow> u32 \<Rightarrow> ext4vol \<Rightarrow> inode \<Rightarrow> u64 list \<Rightarrow> u64 list \<Rightarrow> u64 set \<Rightarrow> ext4vol \<Rightarrow> inode \<Rightarrow> u64 list \<Rightarrow> bool" where
  "grows f num v i ls ps N v' i' ls' \<longleftrightarrow> file_at f v' num i' ls' ps \<and> vstep f v N (N \<union> set ls) v' \<and>
     set ls' = set ls \<union> N \<and> nfree f v' + length ls' = nfree f v + length ls \<and> only_inode num v v' \<and>
     i' = set_i_block (i_block i') i"

lemma set_i_block_simps [simp]:
  "i_block (set_i_block b i) = b" "i_flags (set_i_block b i) = i_flags i" "set_i_block c (set_i_block b i) = set_i_block c i"
  "inode_ok (set_i_block b i) \<longleftrightarrow> length b = 60"
  by (simp_all add: set_i_block_def inode_ok_def)

lemma file_tree_nodes:
  assumes "i_flags i AND inodeFlagExtents \<noteq> 0" "inode_ok i" "\<And>p. p \<in> set ps \<union> set ls \<Longrightarrow> good_no v p" "ls \<noteq> []" "length ls \<le> 4"
    "(length ls - 1) * max_leaf v < length ps" "length ps \<le> length ls * max_leaf v" "index_node (i_block i) (max_leaf v) ls"
    "\<And>j. j < length ls \<Longrightarrow> leaf_node (blkv f v (ls ! j)) (j * max_leaf v) (take (max_leaf v) (drop (j * max_leaf v) ps))"
  shows "file_tree f v i ls ps"
  unfolding file_tree_def using assms by simp

lemma file_tree_cong:
  assumes "file_tree f v i ls ps" "shape v' = shape v" "\<And>x. x \<in> set ls \<Longrightarrow> blkv f v' x = blkv f v x"
  shows "file_tree f v' i ls ps"
proof -
  have "leaf_node (blkv f v' (ls ! j)) lb q \<longleftrightarrow> leaf_node (blkv f v (ls ! j)) lb q" if "j < length ls" for j lb q
    using assms(3) [of "ls ! j"] that by simp
  then show ?thesis using assms(1) unfolding file_tree_def shape_more [OF assms(2)] by (simp split: if_splits)
qed

text \<open>Storing the inode at the end of a growth.\<close>

lemma grows_store:
  assumes "file_state f v num i ls ps"
  shows "\<exists>v'. storeInode f num (v, i) = (Inr (), (v', i)) \<and> file_at f v' num i ls ps \<and> vstep f v {} {} v' \<and>
    only_inode num v v' \<and> nfree f v' = nfree f v"
proof -
  note s = file_stateD [OF assms]
  obtain raw where raw: "storeInode f num (v, i) = (Inr (), (writeRawInode num raw v, i))" "length raw = isz v" "parseInode raw = Inr i"
    using storeInode_ok [OF vol_okD(3) [OF s(1)] s(2,3) file_treeD(2) [OF s(5)]] by blast
  let ?v = "writeRawInode num raw v"
  have st: "vstep f v {} {} ?v" by (rule vstep_raw [OF s(1)])
  note S = vstepD(1,2) [OF st]
  have "file_tree f ?v i ls ps" by (rule file_tree_cong [OF s(5) S(1)]) simp
  then have "file_state f ?v num i ls ps"
    using s S(2) inodes_ok_raw [OF s(2) raw(2)] vstepD(6) [OF st] shape_meta [OF S(1)] valid_shape [OF S(1)]
    unfolding file_state_def by simp
  then have "file_at f ?v num i ls ps" using readInode_raw [OF raw(3)] by (simp add: file_at_def)
  moreover have "only_inode num v ?v" by (simp add: only_inode_def)
  ultimately show ?thesis using raw(1) st vstepD(7) [OF st] by auto
qed

text \<open>The entries of a leaf after one more block.\<close>

lemma chunk_old: "(j + 1) * m \<le> length ps \<Longrightarrow> take m (drop (j * m) (ps @ [p])) = take m (drop (j * m) ps)"
  by simp

lemma chunk_last:
  assumes "j * m \<le> length ps" "length ps < (j + 1) * m"
  shows "take m (drop (j * m) (ps @ [p])) = take m (drop (j * m) ps) @ [p]" "take m (drop (j * m) ps) = drop (j * m) ps"
  using assms by simp_all

text \<open>The last leaf has room.\<close>

lemma append_last_leaf:
  assumes F: "file_state f v num i ls ps" and ls: "ls \<noteq> []" and room: "length ps < length ls * max_leaf v" and pb: "fresh f v pb (ps @ ls)"
  shows "\<exists>v' i' ls' N. appendLeaf now f num (of_nat (length ps)) pb 1 (v, i) = (Inr (), (v', i')) \<and> grows f num v i ls (ps @ [pb]) N v' i' ls'"
proof -
  note s = file_stateD [OF F]
  note t = file_treeD [OF s(5)]
  define m where "m = max_leaf v"
  define n where "n = length ls"
  define j where "j = n - 1"
  have n: "n = j + 1" "j < n" "n \<le> 4" using ls t(4) by (auto simp: n_def j_def)
  have m: "m < 2 ^ 16" "12 + m * 12 \<le> bsz v" using max_leaf_le [OF s(4)] max_leaf_room geoD(5) [OF vol_okD(2) [OF s(1)]] by (simp_all add: m_def)
  have I: "index_node (i_block i) m ls" "j * m < length ps" "length ps < (j + 1) * m"
    using t(6) [OF ls] room n by (simp_all add: m_def n_def j_def)
  define leaf where "leaf = blkv f v (ls ! j)"
  define tail where "tail = drop (j * m) ps"
  have lt: "length tail < m" "j * m + length tail = length ps" using I(2,3) by (simp_all add: tail_def)
  have L: "leaf_node leaf (j * m) tail"
    using t(7) [OF ls, of j] n(2) chunk_last(2) [OF _ I(3)] I(2) by (simp add: leaf_def tail_def m_def n_def)
  have gj: "good_no v (ls ! j)" using t(3) n(2) by (simp add: n_def)
  then have vb: "vblk v (ls ! j)" by (simp add: good_no_def)
  note gf = vol_okD(2) [OF s(1)]
  have ll: "length leaf = bsz v" unfolding leaf_def by (rule length_blkv [OF gf vb])
  define leaf' where "leaf' = puts (leaf_puts (12 + length tail * 12) (of_nat (length ps)) pb 1 @ [(2, le16 (of_nat (length tail) + 1))]) leaf"
  have ll': "length leaf' = bsz v" by (simp add: leaf'_def ll)
  have b: "12 + (length tail + 1) * 12 \<le> length leaf" unfolding ll using lt(1) m(2) by (simp add: algebra_simps)
  have L': "leaf_node leaf' (j * m) (tail @ [pb])"
    unfolding leaf'_def lt(2) [symmetric] by (rule leaf_node_append [OF L b]) (use lt(1) m(1) in linarith)
  define v1 where "v1 = writeBlock (ls ! j) leaf' v"
  have jn: "ls ! j \<in> set (ps @ ls)" using n(2) by (simp add: n_def)
  have st: "vstep f v {} {ls ! j} v1" unfolding v1_def by (rule vstep_write [OF s(1) s(8) [OF jn] ll' vb])
  note S = vstepD [OF st]
  have bl: "blkv f v1 x = (if x = ls ! j then leaf' else blkv f v x)" for x unfolding v1_def by (rule blkv_writeBlock [OF ll'])
  have "leaf_node (blkv f v1 (ls ! k)) (k * m) (take m (drop (k * m) (ps @ [pb])))" if k: "k < n" for k
  proof (cases "k = j")
    case True
    then show ?thesis using L' chunk_last(1) [OF _ I(3), of pb] chunk_last(2) [OF _ I(3)] I(2) by (simp add: bl tail_def)
  next
    case False
    then have "(k + 1) * m \<le> j * m" using k n by (intro mult_le_mono1) linarith
    then have "(k + 1) * m \<le> length ps" using I(2) by linarith
    moreover have "ls ! k \<noteq> ls ! j" using False k n(2) s(6) by (simp add: nth_eq_iff_index_eq n_def)
    ultimately show ?thesis using chunk_old [of k m ps pb] t(7) [OF ls, of k] k by (simp add: bl m_def n_def)
  qed
  then have T: "file_tree f v1 i ls (ps @ [pb])"
    unfolding file_tree_def using t(1-4) t(6) [OF ls] ls I pb n shape_more [OF S(1)]
    by (auto simp: m_def n_def fresh_def)
  have "file_state f v1 num i ls (ps @ [pb])"
    unfolding file_state_def using s S(1,2,6) T pb shape_meta [OF S(1)] valid_shape [OF S(1)]
    by (auto simp: fresh_def v1_def inodes_ok_def)
  then obtain v2 where v2: "storeInode f num (v1, i) = (Inr (), (v2, i))" "file_at f v2 num i ls (ps @ [pb])" "vstep f v1 {} {} v2"
      "only_inode num v1 v2" "nfree f v2 = nfree f v1"
    using grows_store by blast
  have st2: "vstep f v {} (set ls) v2"
    using vstep_trans [OF st v2(3)] n(2) unfolding vstep_def n_def by (auto simp: insert_absorb)
  have "grows f num v i ls (ps @ [pb]) {} v2 i ls"
    using v2 st2 S(7) by (simp add: grows_def only_inode_def v1_def set_i_block_def)
  moreover have "appendLeaf now f num (of_nat (length ps)) pb 1 (v, i) = (Inr (), (v2, i))"
  proof -
    note IN = I(1) [unfolded index_node_def, folded n_def]
    have i60: "length (i_block i) = 60" using t(2) by (simp add: inode_ok_def)
    have un: "unat (of_nat n :: u16) = n" using n(3) by (simp add: unat_of_nat)
    have lc: "last_child (i_block i) n = Inr (ls ! j)"
    proof -
      have "index_entry (i_block i) (n * 12) (j * m) (ls ! j)" using IN n by (auto dest: spec [of _ j])
      then show ?thesis using i60 n(3) join48 [of "ls ! j"] gj by (simp add: last_child_def index_entry_def good_no_def)
    qed
    note LN = L [unfolded leaf_node_def]
    have ut: "unat (of_nat (length tail) :: u16) = length tail" using LN by (simp add: unat_of_nat)
    show ?thesis
      unfolding appendLeaf_def
      using v2(1) lc i60 IN LN un ut lt(1) ll geoD(5) [OF gf] readBlock_blkv [OF gf vb]
      by (simp add: bindS_def readS_def modS_def parse_header Let_def m_def [symmetric] leaf_def [symmetric] leaf'_def [symmetric] v1_def [symmetric]
        split del: if_split cong: if_cong)
  qed
  ultimately show ?thesis by blast
qed

text \<open>All leaves are full: a new one, and an entry for it in the inode.\<close>

lemma append_new_leaf:
  assumes F: "file_state f v num i ls ps" and ls: "ls \<noteq> []" "length ls < 4" and full: "length ps = length ls * max_leaf v"
    and pb: "fresh f v pb (ps @ ls)" and free: "nfree f v \<noteq> 0"
  shows "\<exists>v' i' ls' N. appendLeaf now f num (of_nat (length ps)) pb 1 (v, i) = (Inr (), (v', i')) \<and> grows f num v i ls (ps @ [pb]) N v' i' ls'"
proof -
  note s = file_stateD [OF F]
  note t = file_treeD [OF s(5)]
  define m where "m = max_leaf v"
  define n where "n = length ls"
  define j where "j = n - 1"
  have n: "n = j + 1" "j < n" "n < 4" using ls by (auto simp: n_def j_def)
  note gf = vol_okD(2) [OF s(1)]
  have m: "m < 2 ^ 16" "12 + m * 12 \<le> bsz v" "84 \<le> m"
    using max_leaf_le [OF s(4)] max_leaf_room geoD(5) [OF gf] max_leaf_bound [OF gf] by (simp_all add: m_def)
  have I: "index_node (i_block i) m ls" "j * m < length ps" "length ps = n * m"
    using t(6) [OF ls(1)] full n by (simp_all add: m_def n_def j_def)
  define leaf where "leaf = blkv f v (ls ! j)"
  have L: "leaf_node leaf (j * m) (drop (j * m) ps)" "length (drop (j * m) ps) = m"
    using t(7) [OF ls(1), of j] n I(3) by (simp_all add: leaf_def m_def n_def [symmetric])
  have gj: "good_no v (ls ! j)" using t(3) n(2) by (simp add: n_def)
  then have vb: "vblk v (ls ! j)" by (simp add: good_no_def)
  obtain x v1 where x: "allocNear now f num v = (Inr x, v1)" "alloced f v x v1" using allocNear_ok [OF s(1,3) free] by blast
  note st1 = vstep_alloced [OF x(2)]
  note S1 = vstepD [OF st1]
  have fx: "fresh f v1 x (ps @ ls)" by (rule alloced_fresh [OF s(1) x(2)]) (use s(7) in simp)
  have xpb: "x \<noteq> pb" using pb S1(5) [of x] by (auto simp: fresh_def)
  define new where "new = puts (header_puts 1 (of_nat m) 0 @ leaf_puts 12 (of_nat (length ps)) pb 1) (zeros (bsz v))"
  have ln: "length new = bsz v" by (simp add: new_def)
  have N: "leaf_node new (n * m) [pb]" unfolding new_def I(3) by (rule leaf_node_fresh) (use m in simp)
  define v2 where "v2 = writeBlock x new v1"
  have lnew: "length new = bsz v1" using ln shape_derived(1) [OF S1(1)] by simp
  have st2: "vstep f v1 {} {x} v2" unfolding v2_def by (rule vstep_write [OF S1(2) _ lnew]) (use fx in \<open>simp_all add: fresh_def good_no_def\<close>)
  note S2 = vstepD [OF st2]
  have st: "vstep f v {x} {x} v2" using vstep_trans [OF st1 st2] by simp
  note S = vstepD [OF st]
  define i1 where "i1 = set_i_block (puts [(12 + n * 12, le32 (of_nat (length ps))), (12 + n * 12 + 4, le32 (ucast x)),
      (12 + n * 12 + 8, le16 (ucast (drop_bit 32 x))), (2, le16 (of_nat n + 1))] (i_block i)) i"
  have i60: "length (i_block i) = 60" using t(2) by (simp add: inode_ok_def)
  have X: "index_node (i_block i1) m (ls @ [x])"
    using index_node_append [OF I(1), of x] n(3) i60 by (simp add: i1_def I(3) n_def [symmetric] del: puts_simps)
  have bl: "blkv f v2 y = (if y = x then new else blkv f v1 y)" for y unfolding v2_def by (rule blkv_writeBlock [OF lnew])
  have old: "blkv f v2 y = blkv f v y" if "y \<in> set (ps @ ls)" for y
    using that fx S1(8) [OF s(8) [OF that]] by (auto simp: bl fresh_def)
  have "leaf_node (blkv f v2 ((ls @ [x]) ! k)) (k * m) (take m (drop (k * m) (ps @ [pb])))" if k: "k < n + 1" for k
  proof (cases "k = n")
    case True
    then show ?thesis using N m(3) I(3) by (simp add: bl nth_append n_def)
  next
    case False
    then have k': "k < n" using k by simp
    then have "(k + 1) * m \<le> n * m" by (intro mult_le_mono1) linarith
    then have "(k + 1) * m \<le> length ps" using I(3) by linarith
    then show ?thesis
      using chunk_old [of k m ps pb] t(7) [OF ls(1), of k] k' old [of "ls ! k"] by (simp add: m_def n_def nth_append)
  qed
  then have T: "file_tree f v2 i1 (ls @ [x]) (ps @ [pb])"
    using t(1-3) fx pb n m(3) X I(3) i60 shape_more(2) [OF S1(1)]
    by (intro file_tree_nodes, unfold shape_more [OF S(1)] m_def [symmetric]) (auto simp: fresh_def i1_def n_def)
  have "inodes_ok v2" using s(2) x(2) shape_derived(2) [OF S(1)] by (simp add: inodes_ok_def v2_def alloced_def)
  then have "file_state f v2 num i1 (ls @ [x]) (ps @ [pb])"
    unfolding file_state_def using s T pb fx xpb S(2,6) shape_meta [OF S(1)] shape_meta [OF S1(1)] valid_shape [OF S(1)] shape_derived(1) [OF S(1)]
    by (auto simp: fresh_def)
  then obtain v3 where v3: "storeInode f num (v2, i1) = (Inr (), (v3, i1))" "file_at f v3 num i1 (ls @ [x]) (ps @ [pb])" "vstep f v2 {} {} v3"
      "only_inode num v2 v3" "nfree f v3 = nfree f v2"
    using grows_store by blast
  have st3: "vstep f v {x} ({x} \<union> set ls) v3"
    using vstep_trans [OF st v3(3)] unfolding vstep_def by auto
  have "e_dirtyInodes v2 = e_dirtyInodes v" using x(2) by (simp add: v2_def alloced_def)
  then have "grows f num v i ls (ps @ [pb]) {x} v3 i1 (ls @ [x])"
    using v3 st3 S(7) by (simp add: grows_def only_inode_def i1_def)
  moreover have "appendLeaf now f num (of_nat (length ps)) pb 1 (v, i) = (Inr (), (v3, i1))"
  proof -
    note IN = I(1) [unfolded index_node_def, folded n_def]
    have un: "unat (of_nat n :: u16) = n" using n(3) by (simp add: unat_of_nat)
    have lc: "last_child (i_block i) n = Inr (ls ! j)"
    proof -
      have "index_entry (i_block i) (n * 12) (j * m) (ls ! j)" using IN n by (auto dest: spec [of _ j])
      then show ?thesis using i60 n(3) join48 [of "ls ! j"] gj by (simp add: last_child_def index_entry_def good_no_def)
    qed
    note LN = L(1) [unfolded leaf_node_def L(2)]
    have ut: "unat (of_nat m :: u16) = m" using LN by (simp add: unat_of_nat)
    have ll: "length leaf = bsz v" unfolding leaf_def by (rule length_blkv [OF gf vb])
    have v2': "writeBlock x (puts (header_puts 1 (of_nat (max_leaf v1)) 0 @ leaf_puts 12 (of_nat (length ps)) pb 1) (zeros (bsz v1))) v1 = v2"
      by (simp add: v2_def new_def m_def shape_more(1) [OF S1(1)] shape_derived(1) [OF S1(1)])
    have i1': "set_i_block (puts [(12 + n * 12, le32 (of_nat (length ps))), (16 + n * 12, le32 (ucast x)),
        (20 + n * 12, le16 (ucast (drop_bit 32 x))), (2, le16 (of_nat n + 1))] (i_block i)) i = i1"
      by (simp add: i1_def del: puts_simps)
    show ?thesis
      unfolding appendLeaf_def
      using v3(1) lc i60 IN LN un ut ll geoD(5) [OF gf] readBlock_blkv [OF gf vb] n(3) x(1) v2'
      by (simp add: bindS_def readS_def modS_def onVol_def setInode_def parse_header Let_def m_def [symmetric] leaf_def [symmetric] i1'
        del: puts_simps)
  qed
  ultimately show ?thesis by blast
qed

text \<open>An inline tree takes up to four blocks.\<close>

lemma append_inline:
  assumes F: "file_state f v num i [] ps" and room: "length ps < 4" and pb: "fresh f v pb ps"
  shows "\<exists>v' i'. appendExtentToInode now f num (of_nat (length ps)) pb 1 (v, i) = (Inr (), (v', i')) \<and> grows f num v i [] (ps @ [pb]) {} v' i' []"
proof -
  note s = file_stateD [OF F]
  note t = file_treeD [OF s(5)]
  have L: "leaf_node (i_block i) 0 ps" using t(5) by simp
  have i60: "length (i_block i) = 60" using t(2) by (simp add: inode_ok_def)
  define n where "n = length ps"
  define i1 where "i1 = set_i_block (puts (leaf_puts (12 + n * 12) (of_nat n) pb 1 @ [(2, le16 (of_nat n + 1))]) (i_block i)) i"
  have "leaf_node (i_block i1) 0 (ps @ [pb])" using leaf_node_append [OF L, of pb] room i60 by (simp add: i1_def n_def del: puts_simps)
  then have "file_tree f v i1 [] (ps @ [pb])" using t(1-3) pb room i60 by (auto simp: file_tree_def i1_def fresh_def)
  then have "file_state f v num i1 [] (ps @ [pb])" using s pb unfolding file_state_def by (auto simp: fresh_def)
  then obtain v1 where v1: "storeInode f num (v, i1) = (Inr (), (v1, i1))" "file_at f v1 num i1 [] (ps @ [pb])" "vstep f v {} {} v1"
      "only_inode num v v1" "nfree f v1 = nfree f v"
    using grows_store by blast
  then have "grows f num v i [] (ps @ [pb]) {} v1 i1 []" by (simp add: grows_def i1_def)
  moreover have "appendExtentToInode now f num (of_nat (length ps)) pb 1 (v, i) = (Inr (), (v1, i1))"
  proof -
    note LN = L [unfolded leaf_node_def, folded n_def]
    have un: "unat (of_nat n :: u16) = n" using room by (simp add: unat_of_nat n_def)
    have "(of_nat n :: u16) < 4" using room un by (simp add: word_less_nat_alt n_def)
    then show ?thesis
      unfolding appendExtentToInode_def using v1(1) LN un i60
      by (simp add: bindS_def retS_def readS_def modS_def setInode_def parse_header i1_def [symmetric] n_def [symmetric] del: puts_simps)
  qed
  ultimately show ?thesis by blast
qed

text \<open>The four inline extents move to a leaf; the inode in memory becomes an index with one entry.\<close>

lemma promote_ok:
  assumes F: "file_state f v num i [] ps" and four: "length ps = 4" and free: "nfree f v \<noteq> 0"
  shows "\<exists>x v' b hdr. parseExtentHeader (i_block i) = Inr hdr \<and> eh_depth hdr = 0 \<and> eh_magic hdr = 0xF30A \<and> eh_entries hdr = 4 \<and>
    promoteExtents now f num hdr (v, i) = (Inr (), (v', set_i_block b i)) \<and>
    file_state f v' num (set_i_block b i) [x] ps \<and> vstep f v {x} {x} v' \<and> e_dirtyInodes v' = e_dirtyInodes v"
proof -
  note s = file_stateD [OF F]
  note t = file_treeD [OF s(5)]
  note gf = vol_okD(2) [OF s(1)]
  have L: "leaf_node (i_block i) 0 ps" using t(5) by simp
  have i60: "length (i_block i) = 60" using t(2) by (simp add: inode_ok_def)
  have m: "84 \<le> max_leaf v" using max_leaf_bound [OF gf] by simp
  obtain x v1 where x: "allocNear now f num v = (Inr x, v1)" "alloced f v x v1" using allocNear_ok [OF s(1,3) free] by blast
  note st1 = vstep_alloced [OF x(2)]
  note S1 = vstepD [OF st1]
  have fx: "fresh f v1 x ps" by (rule alloced_fresh [OF s(1) x(2)]) (use s(7) in simp)
  define leaf where "leaf = puts (header_puts (get16 (i_block i) 2) (of_nat (max_leaf v)) 0 @ [(12, sub (i_block i) 12 (length ps * 12))]) (zeros (bsz v))"
  have N: "leaf_node leaf 0 ps" unfolding leaf_def
    by (rule leaf_node_copy [OF L]) (use four m max_leaf_room [of v] geoD(5) [OF gf] in simp)
  have ll: "length leaf = bsz v1" using shape_derived(1) [OF S1(1)] by (simp add: leaf_def)
  define v2 where "v2 = writeBlock x leaf v1"
  have st2: "vstep f v1 {} {x} v2" unfolding v2_def by (rule vstep_write [OF S1(2) _ ll]) (use fx in \<open>simp_all add: fresh_def good_no_def\<close>)
  have st: "vstep f v {x} {x} v2" using vstep_trans [OF st1 st2] by simp
  note S = vstepD [OF st]
  define b where "b = puts (header_puts 1 4 1 @ [(12, le32 0), (16, le32 (ucast x)), (20, le16 (ucast (drop_bit 32 x)))]) (zeros 60)"
  have X: "index_node b (max_leaf v) [x]" unfolding b_def by (rule index_node_fresh)
  have bl: "blkv f v2 x = leaf" unfolding v2_def by (simp add: blkv_writeBlock [OF ll])
  have T: "file_tree f v2 (set_i_block b i) [x] ps"
    using t(1-3) fx four m X N bl shape_more(2) [OF S1(1)]
    by (intro file_tree_nodes, unfold shape_more [OF S(1)]) (auto simp: fresh_def b_def simp del: puts_simps)
  have d: "e_dirtyInodes v2 = e_dirtyInodes v" using x(2) by (simp add: v2_def alloced_def)
  have "inodes_ok v2" using s(2) d shape_derived(2) [OF S(1)] by (simp add: inodes_ok_def)
  then have "file_state f v2 num (set_i_block b i) [x] ps"
    unfolding file_state_def using s T fx S(2,6) shape_meta [OF S(1)] shape_meta [OF S1(1)] valid_shape [OF S(1)] shape_derived(1) [OF S(1)]
    by (auto simp: fresh_def)
  moreover have "promoteExtents now f num \<lparr>eh_magic = 0xF30A, eh_entries = 4, eh_max = get16 (i_block i) 4, eh_depth = 0, eh_generation = get32 (i_block i) 8\<rparr> (v, i) =
      (Inr (), (v2, set_i_block b i))"
  proof -
    have e4: "get16 (i_block i) 2 = 4" using L four by (simp add: leaf_node_def)
    have "writeBlock x (puts (header_puts 4 (of_nat (max_leaf v1)) 0 @ [(12, sub (i_block i) 12 48)]) (zeros (bsz v1))) v1 = v2"
      using four by (simp add: v2_def leaf_def e4 shape_more(1) [OF S1(1)] shape_derived(1) [OF S1(1)] del: puts_simps)
    then show ?thesis using x(1) i60 geoD(5) [OF gf] shape_derived(1) [OF S1(1)]
      by (simp add: promoteExtents_def bindS_def onVol_def updS_def setInode_def modS_def Let_def b_def del: puts_simps)
  qed
  ultimately show ?thesis using L four i60 st d
    by (intro exI [of _ x] exI [of _ v2] exI [of _ b] exI [of _ "\<lparr>eh_magic = 0xF30A, eh_entries = 4, eh_max = get16 (i_block i) 4, eh_depth = 0, eh_generation = get32 (i_block i) 8\<rparr>"])
      (simp add: parse_header leaf_node_def)
qed

text \<open>One more block for a file: below \<open>4 * max_leaf\<close> blocks it always finds its place.\<close>

lemma append_indirect:
  assumes F: "file_state f v num i ls ps" and ls: "ls \<noteq> []" and room: "length ps < 4 * max_leaf v" and pb: "fresh f v pb (ps @ ls)"
    and free: "4 \<le> nfree f v + length ls"
  shows "\<exists>v' i' ls' N. appendLeaf now f num (of_nat (length ps)) pb 1 (v, i) = (Inr (), (v', i')) \<and> grows f num v i ls (ps @ [pb]) N v' i' ls'"
proof (cases "length ps < length ls * max_leaf v")
  case True
  then show ?thesis by (rule append_last_leaf [OF F ls _ pb])
next
  case False
  note t = file_treeD [OF file_stateD(5) [OF F]]
  have full: "length ps = length ls * max_leaf v" using False t(6) [OF ls] by simp
  then have "length ls < 4" using room by (cases "max_leaf v = 0") auto
  moreover from this have "nfree f v \<noteq> 0" using free by linarith
  ultimately show ?thesis by (intro append_new_leaf [OF F ls _ full pb])
qed

lemma append_ok:
  assumes F: "file_state f v num i ls ps" and room: "length ps < 4 * max_leaf v" and pb: "fresh f v pb (ps @ ls)"
    and free: "4 \<le> nfree f v + length ls"
  shows "\<exists>v' i' ls' N. appendExtentToInode now f num (of_nat (length ps)) pb 1 (v, i) = (Inr (), (v', i')) \<and>
    grows f num v i ls (ps @ [pb]) N v' i' ls'"
proof -
  note s = file_stateD [OF F]
  note t = file_treeD [OF s(5)]
  have i60: "length (i_block i) = 60" using t(2) by (simp add: inode_ok_def)
  consider (inline) "ls = []" "length ps < 4" | (promote) "ls = []" "length ps = 4" | (tree) "ls \<noteq> []" using t(5) by fastforce
  then show ?thesis
  proof cases
    case inline
    then show ?thesis using append_inline [of f v num i ps pb now] F pb by auto
  next
    case promote
    obtain x v1 b hdr where P: "parseExtentHeader (i_block i) = Inr hdr" "eh_depth hdr = 0" "eh_magic hdr = 0xF30A" "eh_entries hdr = 4"
      "promoteExtents now f num hdr (v, i) = (Inr (), (v1, set_i_block b i))" "file_state f v1 num (set_i_block b i) [x] ps"
      "vstep f v {x} {x} v1" "e_dirtyInodes v1 = e_dirtyInodes v"
      using promote_ok [of f v num i ps now] F promote free by auto
    note S = vstepD [OF P(7)]
    have "pb \<noteq> x" using pb S(5) [of x] by (auto simp: fresh_def)
    then have pb1: "fresh f v1 pb (ps @ [x])"
      using pb promote S(6) shape_meta [OF S(1)] shape_more [OF S(1)] by (auto simp: fresh_def)
    have "4 \<le> nfree f v1 + length [x]" using free promote S(7) by simp
    then obtain v2 i2 ls2 N where A: "appendLeaf now f num (of_nat (length ps)) pb 1 (v1, set_i_block b i) = (Inr (), (v2, i2))"
      "grows f num v1 (set_i_block b i) [x] (ps @ [pb]) N v2 i2 ls2"
      using append_indirect [OF P(6) _ _ pb1, of now] room shape_more [OF S(1)] by auto
    have "vstep f v ({x} \<union> N) ({x} \<union> N) v2"
      using vstep_trans [OF P(7), of N "N \<union> set [x]" v2] A(2) unfolding grows_def by (simp add: Un_commute)
    then have "grows f num v i [] (ps @ [pb]) ({x} \<union> N) v2 i2 ls2"
      using A(2) S(7) P(8) by (auto simp: grows_def only_inode_def)
    moreover have "appendExtentToInode now f num (of_nat (length ps)) pb 1 (v, i) = (Inr (), (v2, i2))"
      using A(1) P(1-5) by (simp add: appendExtentToInode_def appendExtentIndirect_def bindS_def readS_def retS_def)
    ultimately show ?thesis using promote by blast
  next
    case tree
    have I: "index_node (i_block i) (max_leaf v) ls" using t(6) [OF tree] by simp
    have "appendExtentToInode now f num (of_nat (length ps)) pb 1 (v, i) = appendLeaf now f num (of_nat (length ps)) pb 1 (v, i)"
      using I i60 by (simp add: appendExtentToInode_def appendExtentIndirect_def bindS_def readS_def retS_def parse_header index_node_def)
    then show ?thesis using append_indirect [OF F tree room pb free, of now] by simp
  qed
qed

end
