(* ===== verification/Ext4FileData.thy ===== *)
theory Ext4FileData
  imports Ext4FileWrite
begin

text \<open>
  The contents of a file as one byte string: \<open>readFileRange\<close> reads a part of it, \<open>writeFileRange\<close>
  replaces a part of it, extending it with zeros to whole blocks.
\<close>

unbundle bit_operations_syntax

subsection \<open>Strings of blocks\<close>

definition file_bytes :: "gofile \<Rightarrow> ext4vol \<Rightarrow> u64 list \<Rightarrow> bytes" where
  "file_bytes f v ps = concat (map (blkv f v) ps)"

lemma copy_into_app:
  "length a \<le> off \<Longrightarrow> copy_into (a @ b) off d = a @ copy_into b (off - length a) d"
  "off + length d \<le> length a \<Longrightarrow> copy_into (a @ b) off d = copy_into a off d @ b"
  by (rule nth_equalityI; auto simp: nth_append nth_copy_into)+

lemma concat_update:
  assumes "\<And>x. x \<in> set xs \<Longrightarrow> length (g x) = n" "distinct xs" "k < length xs" "off + length d \<le> n"
    and "g' (xs ! k) = copy_into (g (xs ! k)) off d" "\<And>x. x \<in> set xs \<Longrightarrow> x \<noteq> xs ! k \<Longrightarrow> g' x = g x"
  shows "concat (map g' xs) = copy_into (concat (map g xs)) (k * n + off) d"
proof -
  define as where "as = take k xs"
  define zs where "zs = drop (Suc k) xs"
  have xs: "xs = as @ xs ! k # zs" using assms(3) by (simp add: as_def zs_def id_take_nth_drop)
  have cm: "concat (map h xs) = concat (map h as) @ h (xs ! k) @ concat (map h zs)" for h :: "'a \<Rightarrow> 'b list"
    using arg_cong [OF xs, of "\<lambda>ys. concat (map h ys)"] by simp
  have "distinct (as @ xs ! k # zs)" using assms(2) xs by argo
  then have "xs ! k \<notin> set as \<union> set zs" by auto
  moreover have "set as \<subseteq> set xs" "set zs \<subseteq> set xs" by (simp_all add: as_def zs_def set_take_subset set_drop_subset)
  ultimately have "g' x = g x" if "x \<in> set as \<union> set zs" for x using assms(6) [of x] that by blast
  then have "map g' as = map g as" "map g' zs = map g zs" by simp_all
  moreover have l: "length (concat (map g as)) = k * n"
  proof -
    have "length (g x) = n" if "x \<in> set as" for x using that assms(1) by (simp add: as_def) (meson in_set_takeD)
    then have "length (concat (map g as)) = n * length as" by (rule length_concat_map)
    then show ?thesis using assms(3) by (simp add: as_def)
  qed
  moreover have "length (g (xs ! k)) = n" using assms(1,3) by simp
  ultimately show ?thesis
    using assms(4,5) by (simp add: cm copy_into_app cong: map_cong)
qed

lemma length_file_bytes: "geo f v \<Longrightarrow> \<forall>p \<in> set ps. vblk v p \<Longrightarrow> length (file_bytes f v ps) = length ps * bsz v"
  unfolding file_bytes_def by (subst length_concat_map [where k = "bsz v"]) (auto simp: length_blkv)

lemma sub_file_bytes:
  assumes "geo f v" "\<forall>p \<in> set ps. vblk v p" "k < length ps" "o' + n \<le> bsz v"
  shows "sub (file_bytes f v ps) (k * bsz v + o') n = sub (blkv f v (ps ! k)) o' n"
proof -
  have "sub (file_bytes f v ps) (bsz v * k) (bsz v) = blkv f v (ps ! k)"
    unfolding file_bytes_def using assms by (intro sub_concat_map) (auto simp: length_blkv)
  then show ?thesis using sub_sub [OF assms(4), of "file_bytes f v ps" "bsz v * k"] by (simp add: mult.commute)
qed

subsection \<open>Reading\<close>

lemma file_vblk: "file_tree f v i ls ps \<Longrightarrow> p \<in> set ps \<union> set ls \<Longrightarrow> vblk v p"
  using file_treeD(3) by (auto simp: good_no_def)

lemma tree_small: "geo f v \<Longrightarrow> file_tree f v i ls ps \<Longrightarrow> length ps < 2 ^ 32"
proof -
  assume g: "geo f v" and t: "file_tree f v i ls ps"
  note m = max_leaf_bound [OF g] and d = file_treeD(4-6) [OF t]
  have "length ls * max_leaf v \<le> 4 * max_leaf v" using d(1) by (rule mult_le_mono1)
  then have l: "length ls * max_leaf v < 2 ^ 32" by (rule order_le_less_trans) (use m in simp)
  show ?thesis
  proof (cases "ls = []")
    case True
    then show ?thesis using d(2) by simp
  next
    case False
    then have "length ps \<le> length ls * max_leaf v" using d(3) by blast
    then show ?thesis using l by (rule order_le_less_trans)
  qed
qed

lemma file_block_tree:
  assumes "geo f v" "file_tree f v i ls ps" "k < length ps"
  shows "file_block f v i (of_nat k) = Inr (blkv f v (ps ! k))"
proof -
  have "unat (of_nat k :: u32) = k" using tree_small [OF assms(1,2)] assms(3) by (intro unat_of_nat32) linarith
  moreover have "ps ! k \<noteq> 0" using file_treeD(3) [OF assms(2), of "ps ! k"] assms(3) by (auto simp: good_no_def)
  moreover have "vblk v (ps ! k)" using file_vblk [OF assms(2)] assms(3) by simp
  ultimately show ?thesis
    using assms(3) by (simp add: file_block_def logicalToPhysical_tree [OF assms(1,2)] readBlock_blkv [OF assms(1)])
qed

lemma read_range_tree:
  assumes "geo f v" "file_tree f v i ls ps" "off + n \<le> length ps * bsz v"
  shows "read_range f v i off n = (sub (file_bytes f v ps) off n, None)"
  using assms(3)
proof (induction n arbitrary: off rule: less_induct)
  case (less n)
  have b: "0 < bsz v" by (rule geoD(6) [OF assms(1)])
  show ?case
  proof (cases "n = 0")
    case True
    then show ?thesis by (simp add: read_range.simps)
  next
    case False
    define k where "k = off div bsz v"
    define o' where "o' = off mod bsz v"
    define c where "c = min (bsz v - o') n"
    have off: "off = k * bsz v + o'" "o' < bsz v" using b by (simp_all add: k_def o'_def)
    have c: "0 < c" "c \<le> n" "o' + c \<le> bsz v" using False off by (auto simp: c_def)
    have k: "k < length ps" using less.prems False b by (simp add: k_def div_less_iff_less_mult)
    have vb: "\<forall>p \<in> set ps. vblk v p" using file_vblk [OF assms(2)] by blast
    have "read_range f v i (off + c) (n - c) = (sub (file_bytes f v ps) (off + c) (n - c), None)"
      using less.prems False c by (intro less.IH) simp_all
    then have "read_range f v i off n = (sub (blkv f v (ps ! k)) o' c @ sub (file_bytes f v ps) (off + c) (n - c), None)"
      using False b file_block_tree [OF assms(1,2) k]
      by (subst read_range.simps) (simp add: k_def [symmetric] o'_def [symmetric] c_def [symmetric] Let_def)
    also have "sub (blkv f v (ps ! k)) o' c = sub (file_bytes f v ps) off c"
      using sub_file_bytes [OF assms(1) vb k c(3)] off by simp
    also have "sub (file_bytes f v ps) off c @ sub (file_bytes f v ps) (off + c) (n - c) = sub (file_bytes f v ps) off n"
      using c(2) by (simp add: sub_def take_add [symmetric] add.commute flip: drop_drop)
    finally show ?thesis .
  qed
qed

subsection \<open>One block\<close>

text \<open>Changing one block of a file changes the contents there, and no other block.\<close>

lemma write_in_block:
  assumes F: "file_at f v num i ls ps" and k: "k < length ps" and d: "length d = bsz v"
  shows "file_at f (writeBlock (ps ! k) d v) num i ls ps" "vstep f v {} {ps ! k} (writeBlock (ps ! k) d v)"
    "only_inode num v (writeBlock (ps ! k) d v)" "nfree f (writeBlock (ps ! k) d v) = nfree f v"
    "blkv f (writeBlock (ps ! k) d v) x = (if x = ps ! k then d else blkv f v x)"
proof -
  note s = file_stateD [OF F [unfolded file_at_def, THEN conjunct1]]
  let ?v = "writeBlock (ps ! k) d v"
  have p: "ps ! k \<in> set (ps @ ls)" "ps ! k \<notin> set ls" using k s(6) by (auto dest!: nth_mem)
  have "good_no v (ps ! k)" by (rule file_treeD(3) [OF s(5)]) (use k in simp)
  then have "vblk v (ps ! k)" by (simp add: good_no_def)
  then show st: "vstep f v {} {ps ! k} ?v" by (rule vstep_write [OF s(1) s(8) [OF p(1)] d])
  note S = vstepD [OF st]
  show bl: "blkv f ?v x = (if x = ps ! k then d else blkv f v x)" for x by (rule blkv_writeBlock [OF d])
  show "only_inode num v ?v" by (simp add: only_inode_def)
  show "nfree f ?v = nfree f v" using S(7) by simp
  have "file_tree f ?v i ls ps" by (rule file_tree_cong [OF s(5) S(1)]) (use p bl in auto)
  moreover have "readInode f ?v num = readInode f v num" by (rule readInode_cong [OF S(1)]) simp
  ultimately show "file_at f ?v num i ls ps"
    using F s S(2,6) shape_meta [OF S(1)] valid_shape [OF S(1)] unfolding file_at_def file_state_def by (simp add: inodes_ok_def)
qed

text \<open>The block that a round of the writing loop works on: one of the file, or a new one at its end.\<close>

lemma only_inode_trans: "only_inode num v v' \<Longrightarrow> only_inode num v' v'' \<Longrightarrow> only_inode num v v''"
  by (simp add: only_inode_def)

lemma block_existing:
  assumes F: "file_at f v num i ls ps" and k: "k < length ps"
  shows "block_for_write now f num (of_nat k) (v, i) = (Inr (ps ! k, blkv f v (ps ! k)), (v, i))"
proof -
  note s = file_stateD [OF F [unfolded file_at_def, THEN conjunct1]]
  note g = vol_okD(2) [OF s(1)]
  have "unat (of_nat k :: u32) = k" using tree_small [OF g s(5)] k by (intro unat_of_nat32) linarith
  moreover have "ps ! k \<noteq> 0" using file_treeD(3) [OF s(5), of "ps ! k"] k by (auto simp: good_no_def)
  ultimately show ?thesis
    using k file_vblk [OF s(5), of "ps ! k"]
    by (simp add: block_for_write_def bindS_def readS_def retS_def logicalToPhysical_tree [OF g s(5)] readBlock_blkv [OF g])
qed

lemma block_new:
  assumes F: "file_at f v num i ls ps" and room: "length ps < 4 * max_leaf v" and free: "5 \<le> nfree f v + length ls"
  shows "\<exists>p v' i' ls' N. block_for_write now f num (of_nat (length ps)) (v, i) = (Inr (p, zeros (bsz v)), (v', i')) \<and>
    file_at f v' num i' ls' (ps @ [p]) \<and> p \<in> N \<and> vstep f v N (N \<union> set ls) v' \<and> set ls' \<subseteq> set ls \<union> N \<and>
    nfree f v' + length ls' + 1 = nfree f v + length ls \<and> only_inode num v v' \<and> i' = set_i_block (i_block i') i"
proof -
  note s = file_stateD [OF F [unfolded file_at_def, THEN conjunct1]]
  note g = vol_okD(2) [OF s(1)] and t = file_treeD [OF s(5)]
  have "nfree f v \<noteq> 0" using free t(4) by linarith
  then obtain p v1 where p: "allocNear now f num v = (Inr p, v1)" "alloced f v p v1" using allocNear_ok [OF s(1,3)] by blast
  note st1 = vstep_alloced [OF p(2)]
  note S = vstepD [OF st1]
  have fp: "fresh f v1 p (ps @ ls)" by (rule alloced_fresh [OF s(1) p(2)]) (use s(7) in simp)
  have T: "file_tree f v1 i ls ps" by (rule file_tree_cong [OF s(5) S(1)]) (use S(8) s(8) in auto)
  have "e_dirtyInodes v1 = e_dirtyInodes v" using p(2) by (simp add: alloced_def)
  then have d: "inodes_ok v1" "only_inode num v v1"
    using s(2) shape_derived(2) [OF S(1)] by (simp_all add: inodes_ok_def only_inode_def)
  have F1: "file_state f v1 num i ls ps"
    using s T d S(2,6) shape_meta [OF S(1)] valid_shape [OF S(1)] shape_derived(1) [OF S(1)] unfolding file_state_def by simp
  have "length ps < 4 * max_leaf v1" "4 \<le> nfree f v1 + length ls"
    using room shape_more(1) [OF S(1)] free S(7) by simp_all
  then obtain v2 i2 ls2 N where A: "appendExtentToInode now f num (of_nat (length ps)) p 1 (v1, i) = (Inr (), (v2, i2))"
    "grows f num v1 i ls (ps @ [p]) N v2 i2 ls2"
    using append_ok [OF F1 _ fp] by blast
  have "unat (of_nat (length ps) :: u32) = length ps" using tree_small [OF g s(5)] by (intro unat_of_nat32)
  then have "block_for_write now f num (of_nat (length ps)) (v, i) = (Inr (p, zeros (bsz v)), (v2, i2))"
    using p(1) A(1) shape_derived(1) [OF S(1)]
    by (simp add: block_for_write_def bindS_def readS_def retS_def onVol_def wrapS_def logicalToPhysical_tree [OF g s(5)])
  moreover have "vstep f v ({p} \<union> N) ({p} \<union> N \<union> set ls) v2"
    using vstep_trans [OF st1, of N "N \<union> set ls" v2] A(2) unfolding grows_def vstep_def by auto
  moreover have "nfree f v2 + length ls2 + 1 = nfree f v + length ls" using A(2) S(7) by (simp add: grows_def)
  moreover have "only_inode num v v2" using A(2) d(2) only_inode_trans by (auto simp: grows_def)
  ultimately show ?thesis using A(2) unfolding grows_def by blast
qed

subsection \<open>The writing loop\<close>

definition blocks_of :: "ext4vol \<Rightarrow> nat \<Rightarrow> nat" where
  "blocks_of v n = (n + bsz v - 1) div bsz v"

text \<open>
  From \<open>v\<close> to \<open>v'\<close> the bytes of the file \<open>num\<close> from \<open>off\<close> on became \<open>data\<close>.  The file got the blocks
  \<open>qs\<close>, of zeros where no data went; the allocated blocks are \<open>N\<close>, and no block that belongs
  neither to the file nor to \<open>N\<close> changed.
\<close>

definition file_written :: "gofile \<Rightarrow> u32 \<Rightarrow> ext4vol \<Rightarrow> inode \<Rightarrow> u64 list \<Rightarrow> u64 list \<Rightarrow> nat \<Rightarrow> bytes \<Rightarrow>
    ext4vol \<Rightarrow> inode \<Rightarrow> u64 list \<Rightarrow> u64 list \<Rightarrow> u64 set \<Rightarrow> bool" where
  "file_written f num v i ls ps off data v' i' ls' qs N \<longleftrightarrow> file_at f v' num i' ls' (ps @ qs) \<and>
     length (ps @ qs) = max (length ps) (blocks_of v (off + length data)) \<and>
     file_bytes f v' (ps @ qs) = copy_into (file_bytes f v ps @ zeros (length qs * bsz v)) off data \<and>
     vstep f v N (N \<union> set ps \<union> set ls) v' \<and> set qs \<subseteq> N \<and> set ls' \<subseteq> set ls \<union> N \<and>
     nfree f v' + length ls' + length qs = nfree f v + length ls \<and> only_inode num v v' \<and> i' = set_i_block (i_block i') i"

lemma file_bytes_update:
  assumes "geo f v" "\<forall>p \<in> set ps. vblk v p" "distinct ps" "k < length ps" "o' + length d \<le> bsz v"
    and "blkv f v' (ps ! k) = copy_into (blkv f v (ps ! k)) o' d" "\<And>x. x \<in> set ps \<Longrightarrow> x \<noteq> ps ! k \<Longrightarrow> blkv f v' x = blkv f v x"
  shows "file_bytes f v' ps = copy_into (file_bytes f v ps) (k * bsz v + o') d"
  unfolding file_bytes_def using assms by (intro concat_update) (auto simp: length_blkv)

lemma file_bytes_cong: "(\<And>x. x \<in> set ps \<Longrightarrow> blkv f v' x = blkv f v x) \<Longrightarrow> file_bytes f v' ps = file_bytes f v ps"
  by (simp add: file_bytes_def cong: map_cong)

text \<open>One round of the loop, with the part of the data that goes to one block.\<close>

lemma write_round:
  assumes F: "file_at f v num i ls ps" and k: "k \<le> length ps" "k < 4 * max_leaf v" and d: "o' + length d \<le> bsz v" "d \<noteq> []"
    and free: "k = length ps \<Longrightarrow> 5 \<le> nfree f v + length ls"
  shows "\<exists>p b v1 i' v' ls' qs N. block_for_write now f num (of_nat k) (v, i) = (Inr (p, b), (v1, i')) \<and>
    v' = writeBlock p (copy_into b o' d) v1 \<and> file_written f num v i ls ps (k * bsz v + o') d v' i' ls' qs N"
proof -
  note s = file_stateD [OF F [unfolded file_at_def, THEN conjunct1]]
  note g = vol_okD(2) [OF s(1)]
  have vb: "\<forall>p \<in> set ps. vblk v p" using file_vblk [OF s(5)] by blast
  have b0: "0 < bsz v" by (rule geoD(6) [OF g])
  have "k * bsz v + (o' + length d) \<le> k * bsz v + bsz v" using d(1) by simp
  moreover have "0 < length d" using d(2) by simp
  ultimately have bo: "blocks_of v (k * bsz v + o' + length d) = k + 1"
    unfolding blocks_of_def using b0 d(1) by (intro div_nat_eqI) (simp_all add: algebra_simps del: length_greater_0_conv)
  show ?thesis
  proof (cases "k < length ps")
    case True
    let ?d = "copy_into (blkv f v (ps ! k)) o' d"
    have pk: "ps ! k \<in> set ps" using True by simp
    have "length ?d = bsz v" using length_blkv [OF g] vb pk by simp
    note W = write_in_block [OF F True this]
    have st: "vstep f v {} (set ps \<union> set ls) (writeBlock (ps ! k) ?d v)"
      using W(2) pk unfolding vstep_def by auto
    have "file_bytes f (writeBlock (ps ! k) ?d v) ps = copy_into (file_bytes f v ps) (k * bsz v + o') d"
      using s(6) True d(1) W(5) by (intro file_bytes_update [OF g vb]) auto
    then have "file_written f num v i ls ps (k * bsz v + o') d (writeBlock (ps ! k) ?d v) i ls [] {}"
      using W(1,3,4) st True bo by (simp add: file_written_def set_i_block_def)
    then show ?thesis using block_existing [OF F True, of now] by blast
  next
    case False
    then have kn: "k = length ps" using k(1) by simp
    obtain p v1 i1 ls1 N where P: "block_for_write now f num (of_nat k) (v, i) = (Inr (p, zeros (bsz v)), (v1, i1))"
      "file_at f v1 num i1 ls1 (ps @ [p])" "p \<in> N" "vstep f v N (N \<union> set ls) v1" "set ls1 \<subseteq> set ls \<union> N"
      "nfree f v1 + length ls1 + 1 = nfree f v + length ls" "only_inode num v v1" "i1 = set_i_block (i_block i1) i"
      using block_new [OF F _ free [OF kn], of now] k(2) kn by blast
    note S = vstepD [OF P(4)]
    let ?d = "copy_into (zeros (bsz v)) o' d"
    have kl: "length ps < length (ps @ [p])" by simp
    have ld: "length ?d = bsz v1" using shape_derived(1) [OF S(1)] by simp
    note W = write_in_block [OF P(2) kl ld, simplified]
    define v2 where "v2 = writeBlock p ?d v1"
    have "N \<union> set ls \<union> {p} = N \<union> set ls" using P(3) by blast
    then have st: "vstep f v N (N \<union> set ls) v2" using vstep_trans [OF P(4) W(2)] by (simp add: v2_def Un_assoc insert_absorb)
    then have st': "vstep f v N (N \<union> set ps \<union> set ls) v2" unfolding vstep_def by auto
    have np: "x \<notin> N" if "x \<in> set (ps @ ls)" for x using that s(7) S(5) by blast
    have "blkv f v2 x = blkv f v x" if "x \<in> set ps" for x
      using that vstepD(8) [OF st, of x] s(6,8) np by auto
    then have "file_bytes f v2 (ps @ [p]) = file_bytes f v ps @ ?d"
      using file_bytes_cong [of ps f v2 v] W(5) by (simp add: file_bytes_def v2_def)
    also have "\<dots> = copy_into (file_bytes f v ps @ zeros (bsz v)) (k * bsz v + o') d"
      by (simp add: copy_into_app length_file_bytes [OF g vb] kn)
    finally have "file_written f num v i ls ps (k * bsz v + o') d v2 i1 ls1 [p] N"
      using W(1,3,4) P(3,5-8) st' bo kn only_inode_trans [OF P(7) W(3)] by (simp add: file_written_def v2_def)
    then show ?thesis using P(1) v2_def by blast
  qed
qed

lemma blocks_of_le: "0 < bsz v \<Longrightarrow> blocks_of v n \<le> k \<longleftrightarrow> n \<le> k * bsz v"
proof -
  assume b: "0 < bsz v"
  have "blocks_of v n \<le> k \<longleftrightarrow> n + bsz v - 1 < (k + 1) * bsz v"
    unfolding blocks_of_def using div_less_iff_less_mult [OF b, of "n + bsz v - 1" "k + 1"] by linarith
  then show ?thesis using b by (simp add: algebra_simps) linarith
qed

lemma file_written_trans:
  assumes A: "file_written f num v i ls ps off d v1 i1 ls1 qs N" and B: "file_written f num v1 i1 ls1 (ps @ qs) (off + length d) e v2 i2 ls2 rs M"
    and g: "0 < bsz v"
  shows "file_written f num v i ls ps off (d @ e) v2 i2 ls2 (qs @ rs) (N \<union> M)"
proof -
  note a = A [unfolded file_written_def] and b = B [unfolded file_written_def]
  note S = vstepD(1) [of f v N "N \<union> set ps \<union> set ls" v1]
  have st: "vstep f v N (N \<union> set ps \<union> set ls) v1" "vstep f v1 M (M \<union> set (ps @ qs) \<union> set ls1) v2" using a b by blast+
  have bs: "bsz v1 = bsz v" by (rule shape_derived(1) [OF vstepD(1) [OF st(1)]])
  then have bo: "blocks_of v1 = blocks_of v" by (simp add: blocks_of_def fun_eq_iff)
  have "vstep f v (N \<union> M) (N \<union> M \<union> set ps \<union> set ls) v2"
    using vstep_trans [OF st] a unfolding vstep_def by auto
  moreover have "file_bytes f v2 (ps @ qs @ rs) = copy_into (file_bytes f v ps @ zeros (length (qs @ rs) * bsz v)) off (d @ e)"
  proof -
    have z: "zeros (length (qs @ rs) * bsz v) = zeros (length qs * bsz v) @ zeros (length rs * bsz v)"
      by (simp add: zeros_def replicate_add [symmetric] distrib_right)
    have l: "off + length d \<le> length (file_bytes f v ps @ zeros (length qs * bsz v))"
    proof -
      have ga: "geo f v1" "\<forall>p \<in> set (ps @ qs). vblk v1 p"
        using a file_vblk vol_okD(2) file_stateD(1,5) unfolding file_at_def by (meson Un_iff)+
      have "length (file_bytes f v1 (ps @ qs)) = length (ps @ qs) * bsz v" using length_file_bytes [OF ga] bs by simp
      then have "length (file_bytes f v ps @ zeros (length qs * bsz v)) = length (ps @ qs) * bsz v" using a by simp
      moreover have "blocks_of v (off + length d) \<le> length (ps @ qs)" using a by linarith
      ultimately show ?thesis using blocks_of_le [OF g] by simp
    qed
    have "file_bytes f v2 ((ps @ qs) @ rs) =
        copy_into (copy_into (file_bytes f v ps @ zeros (length qs * bsz v)) off d @ zeros (length rs * bsz v)) (off + length d) e"
      using a b bs by simp
    also have "\<dots> = copy_into (copy_into (file_bytes f v ps @ zeros (length (qs @ rs) * bsz v)) off d) (off + length d) e"
      unfolding z append_assoc [symmetric] copy_into_app(2) [OF l] ..
    finally show ?thesis by (simp add: copy_into_append)
  qed
  moreover have "length (ps @ qs @ rs) = max (length ps) (blocks_of v (off + length (d @ e)))"
  proof -
    have "blocks_of v (off + length d) \<le> blocks_of v (off + length d + length e)" unfolding blocks_of_def by (intro div_le_mono) simp
    then show ?thesis using a b bo by (simp add: add.assoc)
  qed
  moreover have "only_inode num v v2" using a b only_inode_trans by blast
  moreover have "nfree f v2 + length ls2 + length (qs @ rs) = nfree f v + length ls" using a b by simp
  moreover have "i2 = set_i_block (i_block i2) i" using a b by (metis set_i_block_simps(3))
  moreover have "set (qs @ rs) \<subseteq> N \<union> M" "set ls2 \<subseteq> set ls \<union> (N \<union> M)" using a b by auto
  moreover have "file_at f v2 num i2 ls2 (ps @ qs @ rs)" using b by simp
  ultimately show ?thesis unfolding file_written_def by blast
qed

lemma write_range_ok:
  assumes "file_at f v num i ls ps" "off \<le> length ps * bsz v" "blocks_of v (off + length data) \<le> 4 * max_leaf v"
    and "blocks_of v (off + length data) \<le> length ps \<or> blocks_of v (off + length data) + 4 \<le> length ps + nfree f v + length ls"
  shows "\<exists>v' i' ls' qs N. write_range now f num off data (v, i) = ((length data, None), (v', i')) \<and>
    file_written f num v i ls ps off data v' i' ls' qs N"
  using assms
proof (induction data arbitrary: v i ls ps off rule: length_induct)
  case (1 data)
  note F = 1(2)
  note s = file_stateD [OF F [unfolded file_at_def, THEN conjunct1]]
  have b0: "0 < bsz v" by (rule geoD(6) [OF vol_okD(2) [OF s(1)]])
  show ?case
  proof (cases "data = []")
    case True
    have "blocks_of v off \<le> length ps" using 1(3) blocks_of_le [OF b0] by simp
    moreover have "vstep f v {} (set ps \<union> set ls) v" using s(1) by (simp add: vstep_def)
    ultimately have "file_written f num v i ls ps off [] v i ls [] {}"
      using F by (simp add: file_written_def only_inode_def set_i_block_def)
    then show ?thesis using True by (auto simp: write_range.simps)
  next
    case False
    define k where "k = off div bsz v"
    define o' where "o' = off mod bsz v"
    define c where "c = min (bsz v - o') (length data)"
    have off: "off = k * bsz v + o'" "o' < bsz v" using b0 by (simp_all add: k_def o'_def)
    have c: "0 < c" "c \<le> length data" "o' + c \<le> bsz v" using False off by (auto simp: c_def)
    have kb: "k < blocks_of v (off + length data)"
    proof -
      have "\<not> off + length data \<le> k * bsz v" using off c by linarith
      then show ?thesis using blocks_of_le [OF b0] by (metis not_le)
    qed
    have kl: "k \<le> length ps"
    proof -
      have "k * bsz v \<le> length ps * bsz v" using 1(3) off(1) by linarith
      then show ?thesis using b0 by simp
    qed
    have room: "k < 4 * max_leaf v" using kb 1(4) by linarith
    have free: "5 \<le> nfree f v + length ls" if "k = length ps" using that kb 1(5) by linarith
    have dl: "o' + length (take c data) \<le> bsz v" "take c data \<noteq> []" using c by auto
    obtain p b v1 i' v' ls' qs N where R: "block_for_write now f num (of_nat k) (v, i) = (Inr (p, b), (v1, i'))"
      "v' = writeBlock p (copy_into b o' (take c data)) v1" "file_written f num v i ls ps (k * bsz v + o') (take c data) v' i' ls' qs N"
      using write_round [OF F kl room dl free, of now] by blast
    note W = R(3) [unfolded file_written_def]
    have tc: "length (take c data) = c" using c by simp
    have S: "shape v' = shape v" using W vstepD(1) by blast
    have bs: "bsz v' = bsz v" "max_leaf v' = max_leaf v" by (rule shape_derived(1) [OF S], rule shape_more(1) [OF S])
    have bo: "blocks_of v' = blocks_of v" using bs by (simp add: blocks_of_def fun_eq_iff)
    have e: "off + c + length (drop c data) = off + length data" using c by simp
    have F': "file_at f v' num i' ls' (ps @ qs)" using W by blast
    have L: "length (ps @ qs) = max (length ps) (blocks_of v (off + c))" using W off(1) tc by simp
    have cond: "off + c \<le> length (ps @ qs) * bsz v'" unfolding bs L blocks_of_le [OF b0, symmetric] by simp
    have sum: "length (ps @ qs) + nfree f v' + length ls' = length ps + nfree f v + length ls" using W by simp
    have mono: "length ps \<le> length (ps @ qs)" by simp
    have "\<exists>v2 i2 ls2 rs M. write_range now f num (off + c) (drop c data) (v', i') = ((length (drop c data), None), (v2, i2)) \<and>
        file_written f num v' i' ls' (ps @ qs) (off + c) (drop c data) v2 i2 ls2 rs M"
      by (rule 1(1) [rule_format]) (use F' cond 1(4,5) sum mono c in \<open>auto simp: e bo bs\<close>)
    then obtain v2 i2 ls2 rs M where I: "write_range now f num (off + c) (drop c data) (v', i') = ((length (drop c data), None), (v2, i2))"
        "file_written f num v' i' ls' (ps @ qs) (off + c) (drop c data) v2 i2 ls2 rs M" by blast
    have "write_range now f num off data (v, i) = ((length data, None), (v2, i2))"
      using False b0 R(1) R(2) I(1) c(2)
      by (subst write_range.simps) (simp add: Let_def k_def [symmetric] o'_def [symmetric] c_def [symmetric])
    moreover have "file_written f num v i ls ps off (take c data @ drop c data) v2 i2 ls2 (qs @ rs) (N \<union> M)"
      by (rule file_written_trans [OF _ _ b0]) (use R(3) I(2) off(1) tc in simp_all)
    ultimately show ?thesis by auto
  qed
qed

subsection \<open>Contents and size\<close>

text \<open>The contents of a file, and that its blocks reach to its size.\<close>

definition file_content :: "gofile \<Rightarrow> ext4vol \<Rightarrow> inode \<Rightarrow> u64 list \<Rightarrow> bytes" where
  "file_content f v i ps = take (nat (inodeFileSize i)) (file_bytes f v ps)"

definition sized :: "ext4vol \<Rightarrow> inode \<Rightarrow> u64 list \<Rightarrow> bool" where
  "sized v i ps \<longleftrightarrow> 0 \<le> inodeFileSize i \<and> inodeFileSize i \<le> int (length ps * bsz v)"

lemma inodeFileSize_set:
  assumes "0 \<le> n" "n < 2 ^ 63"
  shows "inodeFileSize (set_size n i) = n"
proof -
  have d: "n div 2 ^ 32 < 2 ^ 32" "0 \<le> n div 2 ^ 32" using assms by (simp_all add: div_less_iff_less_mult)
  have "uint (of_int n :: u32) + 2 ^ 32 * uint (of_int (n div 2 ^ 32) :: u32) = n mod 2 ^ 32 + 2 ^ 32 * (n div 2 ^ 32)"
    using d by (simp add: uint_word_of_int)
  also have "\<dots> = n" by simp
  finally have "uint (of_int n :: u32) + 2 ^ 32 * uint (of_int (n div 2 ^ 32) :: u32) = n" .
  then show ?thesis using assms by (simp add: inodeFileSize_def set_size_def wrap64_id)
qed

lemma file_size_bound:
  assumes "file_state f v num i ls ps"
  shows "length ps * bsz v < 2 ^ 36"
proof -
  note s = file_stateD [OF assms]
  note t = file_treeD [OF s(5)]
  note g = vol_okD(2) [OF s(1)]
  have m: "max_leaf v \<le> 5461" using div_le_mono [of "bsz v - 12" 65536 12] s(4) by (simp add: max_leaf_def)
  have "length ps \<le> 4 * 5461"
  proof (cases "ls = []")
    case False
    have "length ls * max_leaf v \<le> 4 * 5461" using t(4) m by (rule mult_le_mono)
    then show ?thesis using t(6) [OF False] by linarith
  qed (use t(5) in simp)
  then have "length ps * bsz v \<le> (4 * 5461) * 65536" using s(4) by (rule mult_le_mono)
  then show ?thesis by (rule order_le_less_trans) simp
qed

text \<open>The size and the times of the inode are not part of the tree.\<close>

lemma file_state_inode:
  assumes "i_block i' = i_block i" "i_flags i' = i_flags i"
  shows "file_state f v num i' ls ps \<longleftrightarrow> file_state f v num i ls ps"
  using assms by (simp add: file_state_def file_tree_def inode_ok_def)

lemma inodeFileSize_block [simp]: "inodeFileSize (set_i_block b i) = inodeFileSize i"
  by (simp add: inodeFileSize_def set_i_block_def)

definition stamped :: "u32 \<Rightarrow> inode \<Rightarrow> inode" where
  "stamped now i = i\<lparr>i_mtime := now, i_ctime := now\<rparr>"

lemma stamped_simps [simp]: "inodeFileSize (stamped now i) = inodeFileSize i" "i_block (stamped now i) = i_block i" "i_flags (stamped now i) = i_flags i"
  "i_block (set_size n i) = i_block i" "i_flags (set_size n i) = i_flags i"
  by (simp_all add: inodeFileSize_def stamped_def set_size_def)

text \<open>
  The inode after writing up to the byte \<open>n\<close>: the new extent tree, and the size and times when
  the file has become longer.
\<close>

definition inode_after :: "u32 \<Rightarrow> nat \<Rightarrow> inode \<Rightarrow> inode \<Rightarrow> bool" where
  "inode_after now n i i' \<longleftrightarrow> i' = (if inodeFileSize i < int n then stamped now (set_size (int n) (set_i_block (i_block i') i)) else set_i_block (i_block i') i)"

lemma inode_after_size:
  "inode_after now n i i' \<Longrightarrow> n < 2 ^ 63 \<Longrightarrow> inodeFileSize i' = max (inodeFileSize i) (int n)"
proof -
  assume a: "inode_after now n i i'" "n < 2 ^ 63"
  have "inodeFileSize (stamped now (set_size (int n) (set_i_block (i_block i') i))) = int n" using a(2) by (simp add: inodeFileSize_set)
  moreover have "inodeFileSize (set_i_block (i_block i') i) = inodeFileSize i" by simp
  ultimately show ?thesis using a(1) unfolding inode_after_def by (metis less_imp_le max.absorb1 max.absorb2 not_le)
qed

lemma writeFileRange_ok:
  assumes F: "file_at f v num i ls ps" and off: "off \<le> length ps * bsz v" and d: "data \<noteq> []"
    and "blocks_of v (off + length data) \<le> 4 * max_leaf v"
    and "blocks_of v (off + length data) \<le> length ps \<or> blocks_of v (off + length data) + 4 \<le> length ps + nfree f v + length ls"
  shows "\<exists>v' i' ls' qs N. writeFileRange now f num off data (v, i) = ((length data, None), (v', i')) \<and>
    file_at f v' num i' ls' (ps @ qs) \<and> inode_after now (off + length data) i i' \<and> length (ps @ qs) = max (length ps) (blocks_of v (off + length data)) \<and>
    file_bytes f v' (ps @ qs) = copy_into (file_bytes f v ps @ zeros (length qs * bsz v)) off data \<and>
    vstep f v N (N \<union> set ps \<union> set ls) v' \<and> set qs \<subseteq> N \<and> set ls' \<subseteq> set ls \<union> N \<and>
    nfree f v' + length ls' + length qs = nfree f v + length ls \<and> only_inode num v v'"
proof -
  obtain v1 i1 ls1 qs N where W: "write_range now f num off data (v, i) = ((length data, None), (v1, i1))"
    "file_written f num v i ls ps off data v1 i1 ls1 qs N"
    using write_range_ok [OF F off assms(4,5)] by blast
  note w = W(2) [unfolded file_written_def]
  have F1: "file_state f v1 num i1 ls1 (ps @ qs)" using w by (simp add: file_at_def)
  have S: "shape v1 = shape v" using w vstepD(1) by blast
  have bs: "bsz v1 = bsz v" by (rule shape_derived(1) [OF S])
  have b0: "0 < bsz v" by (rule geoD(6) [OF vol_okD(2) [OF file_stateD(1) [OF F [unfolded file_at_def, THEN conjunct1]]]])
  have "blocks_of v (off + length data) \<le> length (ps @ qs)" using w by linarith
  then have "off + length data \<le> length (ps @ qs) * bsz v1" using blocks_of_le [OF b0] bs by simp
  then have n: "off + length data < 2 ^ 63"
    by (rule order_le_less_trans) (rule order_less_trans [OF file_size_bound [OF F1]], simp)
  then have nw: "wrap64 (int off + int (length data)) = int (off + length data)" by (subst wrap64_id) simp_all
  have sz: "inodeFileSize i1 = inodeFileSize i" using w by (metis inodeFileSize_block)
  show ?thesis
  proof (cases "inodeFileSize i < int (off + length data)")
    case False
    then have "writeFileRange now f num off data (v, i) = ((length data, None), (v1, i1))"
      using W(1) d sz nw by (simp add: writeFileRange_def Let_def)
    moreover have "inode_after now (off + length data) i i1" using False w by (simp add: inode_after_def)
    ultimately show ?thesis using w by blast
  next
    case True
    define i2 where "i2 = stamped now (set_size (int (off + length data)) i1)"
    have "file_state f v1 num i2 ls1 (ps @ qs)" using F1 file_state_inode [of i2 i1] by (simp add: i2_def)
    then obtain v2 where v2: "storeInode f num (v1, i2) = (Inr (), (v2, i2))" "file_at f v2 num i2 ls1 (ps @ qs)" "vstep f v1 {} {} v2"
        "only_inode num v1 v2" "nfree f v2 = nfree f v1"
      using grows_store by blast
    have "writeFileRange now f num off data (v, i) = ((length data, None), (v2, i2))"
      using True W(1) d sz nw v2(1) by (simp add: writeFileRange_def Let_def bindS_def setInode_def modS_def i2_def stamped_def)
    moreover have "i2 = stamped now (set_size (int (off + length data)) (set_i_block (i_block i2) i))"
    proof -
      have "i_block i2 = i_block i1" by (simp add: i2_def)
      moreover have "i1 = set_i_block (i_block i1) i" using w by blast
      ultimately show ?thesis unfolding i2_def by simp
    qed
    then have "inode_after now (off + length data) i i2" using True by (simp add: inode_after_def)
    moreover have "vstep f v N (N \<union> set ps \<union> set ls) v2" using vstep_trans [of f v N "N \<union> set ps \<union> set ls" v1 "{}" "{}" v2] w v2(3) by simp
    moreover have "file_bytes f v2 (ps @ qs) = file_bytes f v1 (ps @ qs)"
    proof (rule file_bytes_cong)
      fix x assume "x \<in> set (ps @ qs)"
      then have "x \<notin> meta v1" using file_stateD(8) [OF F1, of x] by auto
      then show "blkv f v2 x = blkv f v1 x" using vstepD(8) [OF v2(3)] by simp
    qed
    moreover have "only_inode num v v2" using w v2(4) only_inode_trans by blast
    ultimately show ?thesis using w v2(2,5) by metis
  qed
qed

text \<open>Reading back: the bytes of the range, up to the size.\<close>

lemma readFileRange_content:
  assumes F: "file_at f v num i ls ps" and sz: "sized v i ps" and n: "int (off + n) \<le> inodeFileSize i" "0 < n"
  shows "readFileRange f v i off n = (sub (file_content f v i ps) off n, None)"
proof -
  have s: "file_state f v num i ls ps" using F by (simp add: file_at_def)
  note g = vol_okD(2) [OF file_stateD(1) [OF s]] and t = file_stateD(5) [OF s]
  have le: "off + n \<le> length ps * bsz v" using n sz by (simp add: sized_def del: of_nat_mult)
  have m: "min n (nat (inodeFileSize i - int off)) = n" using n by linarith
  have "sub (file_bytes f v ps) off n = sub (file_content f v i ps) off n"
  proof -
    have "off + n \<le> nat (inodeFileSize i)" using n by linarith
    then show ?thesis by (simp add: file_content_def sub_def take_drop [symmetric] min_def drop_take)
  qed
  then show ?thesis using n m read_range_tree [OF g t le] by (simp add: readFileRange_def Let_def)
qed

end
