(* ===== verification/Ext4Dir.thy ===== *)
theory Ext4Dir
  imports Ext4FileData
begin

text \<open>
  Directory blocks of the ext4 driver: a chain of records that fills the block.  Adding an entry
  takes the room behind the first record that can give it, and keeps all other entries.
\<close>

unbundle bit_operations_syntax

definition rec_len :: "bytes \<Rightarrow> nat \<Rightarrow> nat" where
  "rec_len b pos = unat (get16 b (pos + 4))"

definition name_len :: "bytes \<Rightarrow> nat \<Rightarrow> nat" where
  "name_len b pos = unat (b ! (pos + 6))"

text \<open>The records from \<open>pos\<close> on fill the block, each long enough for its entry.\<close>

function dir_chain :: "bytes \<Rightarrow> nat \<Rightarrow> bool" where
  "dir_chain b pos =
     (if pos = length b then True
      else if pos + 8 \<le> length b \<and> 8 \<le> rec_len b pos \<and> pos + rec_len b pos \<le> length b \<and>
              (get32 b pos \<noteq> 0 \<longrightarrow> entry_size (name_len b pos) \<le> rec_len b pos)
      then dir_chain b (pos + rec_len b pos) else False)"
  by pat_completeness auto

termination
  by (relation "measure (\<lambda>(b, pos). length b - pos)") auto

declare dir_chain.simps [simp del]

lemma entry_size_bounds: "8 + n \<le> entry_size n" "entry_size n \<le> n + 11" "entry_size n mod 4 = 0"
  by (simp_all add: entry_size_def)

lemma dir_chain_step:
  assumes "dir_chain b pos" "pos \<noteq> length b"
  shows "pos + 8 \<le> length b" "8 \<le> rec_len b pos" "pos + rec_len b pos \<le> length b"
    "get32 b pos \<noteq> 0 \<longrightarrow> entry_size (name_len b pos) \<le> rec_len b pos" "dir_chain b (pos + rec_len b pos)"
  using assms by (subst (asm) dir_chain.simps; simp split: if_splits)+

lemma dir_chain_le: "dir_chain b pos \<Longrightarrow> pos \<le> length b"
  using dir_chain_step(1) [of b pos] by fastforce

text \<open>The entry that a record holds, if it is in use.\<close>

definition rec_entry :: "bytes \<Rightarrow> nat \<Rightarrow> dirEntry list" where
  "rec_entry b pos = (if get32 b pos \<noteq> 0 \<and> 0 < name_len b pos
     then [\<lparr>de_inode = get32 b pos, de_nm = sub b (pos + 8) (name_len b pos), de_fileType = b ! (pos + 7)\<rparr>] else [])"

lemma dir_block_end: "length b < pos + 8 \<Longrightarrow> dir_block b pos = Inr []"
  by (simp add: dir_block.simps)

lemma dir_block_step:
  assumes "pos + 8 \<le> length b" "8 \<le> rec_len b pos" "pos + rec_len b pos \<le> length b"
    "get32 b pos \<noteq> 0 \<longrightarrow> entry_size (name_len b pos) \<le> rec_len b pos" "dir_block b (pos + rec_len b pos) = Inr es"
  shows "dir_block b pos = Inr (rec_entry b pos @ es)"
proof -
  have "get32 b pos \<noteq> 0 \<longrightarrow> pos + 8 + name_len b pos \<le> length b" using assms(3,4) entry_size_bounds(1) [of "name_len b pos"] by linarith
  moreover have "unat (get16 b (pos + 4)) \<noteq> 0" using assms(2) by (simp add: rec_len_def)
  ultimately show ?thesis
    using assms(1,5) by (subst dir_block.simps) (auto simp: Let_def rec_len_def name_len_def rec_entry_def)
qed

lemma dir_chain_block:
  assumes "dir_chain b pos"
  shows "\<exists>es. dir_block b pos = Inr es"
  using assms
proof (induction b pos rule: dir_chain.induct)
  case (1 b pos)
  show ?case
  proof (cases "pos = length b")
    case True
    then show ?thesis by (simp add: dir_block_end)
  next
    case False
    then have c: "pos + 8 \<le> length b" "8 \<le> rec_len b pos" "pos + rec_len b pos \<le> length b"
      "get32 b pos \<noteq> 0 \<longrightarrow> entry_size (name_len b pos) \<le> rec_len b pos" "dir_chain b (pos + rec_len b pos)"
      using dir_chain_step [OF 1(2) False] by blast+
    then obtain es where "dir_block b (pos + rec_len b pos) = Inr es" using 1(1) False by blast
    then show ?thesis using dir_block_step [OF c(1-4)] by blast
  qed
qed

text \<open>Only the bytes from \<open>pos\<close> on matter.\<close>

definition same_from :: "nat \<Rightarrow> bytes \<Rightarrow> bytes \<Rightarrow> bool" where
  "same_from pos b b' \<longleftrightarrow> length b' = length b \<and> drop pos b' = drop pos b"

lemma same_fromD:
  assumes "same_from pos b b'" "pos \<le> p"
  shows "length b' = length b" "p < length b \<Longrightarrow> b' ! p = b ! p" "p + n \<le> length b \<Longrightarrow> sub b' p n = sub b p n"
    "p + 4 \<le> length b \<Longrightarrow> get32 b' p = get32 b p" "p + 2 \<le> length b \<Longrightarrow> get16 b' p = get16 b p" "same_from p b b'"
proof -
  show l: "length b' = length b" using assms(1) by (simp add: same_from_def)
  show d: "same_from p b b'"
    using assms unfolding same_from_def by (metis drop_drop le_add_diff_inverse2)
  show "b' ! p = b ! p" if "p < length b" using that d l by (simp add: same_from_def) (metis Cons_nth_drop_Suc list.sel(1))
  show "sub b' p n = sub b p n" using d by (simp add: same_from_def sub_def)
  show "get32 b' p = get32 b p" if "p + 4 \<le> length b"
    using that l d c32.get_local [of p b] c32.get_local [of p b'] by (simp add: same_from_def sub_def)
  show "get16 b' p = get16 b p" if "p + 2 \<le> length b"
    using that l d c16.get_local [of p b] c16.get_local [of p b'] by (simp add: same_from_def sub_def)
qed

text \<open>Two blocks with the same bytes in a range have the same records there.\<close>

lemma rec_same:
  assumes "sub b' pos n = sub b pos n" "pos + n \<le> length b" "length b' = length b" "8 \<le> n"
  shows "get32 b' pos = get32 b pos" "rec_len b' pos = rec_len b pos" "name_len b' pos = name_len b pos"
    "8 + name_len b pos \<le> n \<Longrightarrow> rec_entry b' pos = rec_entry b pos"
proof -
  have s: "sub b' (pos + o') k = sub b (pos + o') k" if "o' + k \<le> n" for o' k
    using sub_sub [OF that, of b' pos] sub_sub [OF that, of b pos] assms(1) by simp
  have i: "b' ! (pos + o') = b ! (pos + o')" if "o' < n" for o'
  proof -
    have "b' ! (pos + o') = sub b' pos n ! o'" "b ! (pos + o') = sub b pos n ! o'" using that assms(2,3) by simp_all
    then show ?thesis using assms(1) by simp
  qed
  show g: "get32 b' pos = get32 b pos" using s [of 0 4] assms c32.get_local [of pos b] c32.get_local [of pos b'] by simp
  show "rec_len b' pos = rec_len b pos"
    using s [of 4 2] assms c16.get_local [of "pos + 4" b] c16.get_local [of "pos + 4" b'] by (simp add: rec_len_def)
  show l: "name_len b' pos = name_len b pos" using i [of 6] assms(4) by (simp add: name_len_def)
  show "rec_entry b' pos = rec_entry b pos" if "8 + name_len b pos \<le> n"
    using s [of 8 "name_len b pos"] i [of 7] that assms(4) g l by (simp add: rec_entry_def)
qed

lemma same_from_sub: "same_from pos b b' \<Longrightarrow> pos \<le> p \<Longrightarrow> sub b' p n = sub b p n"
  using same_fromD(6) [of pos b b' p] by (simp add: same_from_def sub_def)

lemma dir_chain_same:
  "dir_chain b pos \<Longrightarrow> same_from pos b b' \<Longrightarrow> dir_chain b' pos \<and> dir_block b' pos = dir_block b pos"
proof (induction b pos rule: dir_chain.induct)
  case (1 b pos)
  have l: "length b' = length b" using 1(3) by (simp add: same_from_def)
  show ?case
  proof (cases "pos = length b")
    case True
    then show ?thesis using l by (simp add: dir_chain.simps [of b'] dir_block_end)
  next
    case False
    note c = dir_chain_step [OF 1(2) False]
    note R = rec_same [OF same_from_sub [OF 1(3) order_refl] c(3) l c(2)]
    have IH: "dir_chain b' (pos + rec_len b pos)" "dir_block b' (pos + rec_len b pos) = dir_block b (pos + rec_len b pos)"
      using 1(1) [OF False _ c(5) same_fromD(6) [OF 1(3)]] c by auto
    then have d: "dir_chain b' pos" using c R l by (subst dir_chain.simps) simp
    obtain es where es: "dir_block b (pos + rec_len b pos) = Inr es" using dir_chain_block [OF c(5)] by blast
    have e: "dir_block b pos = Inr (rec_entry b pos @ es)" by (rule dir_block_step [OF c(1-4) es])
    have "dir_block b' pos = Inr (rec_entry b' pos @ es)" by (rule dir_block_step) (use c R l es IH in simp_all)
    moreover have "rec_entry b' pos = rec_entry b pos"
    proof (cases "get32 b pos = 0")
      case False
      then have "8 + name_len b pos \<le> rec_len b pos" using c(4) entry_size_bounds(1) [of "name_len b pos"] by linarith
      then show ?thesis by (rule R(4))
    qed (simp add: rec_entry_def R)
    ultimately show ?thesis using d e by simp
  qed
qed

text \<open>A written record.\<close>

lemma put_entry_reads:
  assumes "pos + 8 + length nm \<le> length b" "rl < 2 ^ 16" "0 < length nm" "length nm < 256" "b' = put_entry pos rl child nm ft b"
  shows "length b' = length b" "get32 b' pos = child" "rec_len b' pos = rl" "name_len b' pos = length nm"
    "child \<noteq> 0 \<Longrightarrow> rec_entry b' pos = [\<lparr>de_inode = child, de_nm = nm, de_fileType = ft\<rparr>]"
    "p + n \<le> pos \<or> pos + 8 + length nm \<le> p \<Longrightarrow> p + n \<le> length b \<Longrightarrow> sub b' p n = sub b p n"
proof -
  define w where "w = [(pos, le32 child), (pos + 4, le16 (of_nat rl)), (pos + 6, [of_nat (length nm)]), (pos + 7, [ft]), (pos + 8, nm)]"
  have b': "b' = puts w b" by (simp add: assms(5) put_entry_def w_def)
  have a: "ascending 0 w" by (simp add: w_def)
  note G = get_ascending [OF a, of _ _ b, folded b'] and P = puts_ascending [OF a, of _ _ b, folded b']
  show l: "length b' = length b" by (simp add: b')
  show g: "get32 b' pos = child" using assms(1) by (intro G) (simp_all add: w_def)
  have "get16 b' (pos + 4) = of_nat rl" using assms(1) by (intro G) (simp_all add: w_def)
  then show "rec_len b' pos = rl" using assms(2) by (simp add: rec_len_def unat_of_nat)
  have s: "sub b' (pos + 6) 1 = [of_nat (length nm)]" "sub b' (pos + 7) 1 = [ft]" "sub b' (pos + 8) (length nm) = nm"
    using P [of "pos + 6" "[of_nat (length nm)]"] P [of "pos + 7" "[ft]"] P [of "pos + 8" nm] assms(1) by (simp_all add: w_def)
  have one: "x ! q = hd (sub x q 1)" if "q < length x" for x :: bytes and q
    using that by (simp add: sub_def hd_take hd_drop_conv_nth)
  show n: "name_len b' pos = length nm" using s(1) one [of "pos + 6" b'] l assms(1,4) by (simp add: name_len_def unat_of_nat)
  show "rec_entry b' pos = [\<lparr>de_inode = child, de_nm = nm, de_fileType = ft\<rparr>]" if "child \<noteq> 0"
    using that s(2,3) one [of "pos + 7" b'] l assms(1,3) g n by (simp add: rec_entry_def)
  show "sub b' p n = sub b p n" if "p + n \<le> pos \<or> pos + 8 + length nm \<le> p" "p + n \<le> length b" for p n
    unfolding b' using that by (intro puts_other) (auto simp: w_def)
qed

subsection \<open>Adding an entry\<close>

lemma rec_len_small: "rec_len b pos < 2 ^ 16"
  unfolding rec_len_def using unsigned_less [of "get16 b (pos + 4)"] by simp

definition added :: "bytes \<Rightarrow> nat \<Rightarrow> dirEntry list \<Rightarrow> dirEntry \<Rightarrow> bytes \<Rightarrow> bool" where
  "added b pos es e b' \<longleftrightarrow> length b' = length b \<and> (\<forall>p n. p + n \<le> pos \<longrightarrow> sub b' p n = sub b p n) \<and> dir_chain b' pos \<and>
     (\<exists>es1 es2. es = es1 @ es2 \<and> dir_block b' pos = Inr (es1 @ e # es2))"

lemma added_step:
  assumes c: "pos + 8 \<le> length b" "8 \<le> rec_len b pos" "pos + rec_len b pos \<le> length b"
      "get32 b pos \<noteq> 0 \<longrightarrow> entry_size (name_len b pos) \<le> rec_len b pos"
    and A: "added b (pos + rec_len b pos) es e b'"
  shows "added b pos (rec_entry b pos @ es) e b'"
proof -
  note a = A [unfolded added_def]
  have l: "length b' = length b" and s: "sub b' pos (rec_len b pos) = sub b pos (rec_len b pos)" using a by simp_all
  note R = rec_same [OF s c(3) l c(2)]
  have re: "rec_entry b' pos = rec_entry b pos"
  proof (cases "get32 b pos = 0")
    case False
    then have "8 + name_len b pos \<le> rec_len b pos" using c(4) entry_size_bounds(1) [of "name_len b pos"] by linarith
    then show ?thesis by (rule R(4))
  qed (simp add: rec_entry_def R)
  obtain es1 es2 where es: "es = es1 @ es2" "dir_block b' (pos + rec_len b pos) = Inr (es1 @ e # es2)" using a by blast
  have "dir_chain b' pos" using c R l a by (subst dir_chain.simps) simp
  moreover have "dir_block b' pos = Inr (rec_entry b' pos @ es1 @ e # es2)"
    by (rule dir_block_step) (use c R l es in simp_all)
  ultimately show ?thesis using l a es(1) re unfolding added_def by (metis (no_types, lifting) append.assoc le_add1 order_trans)
qed

lemma add_in_block_ok:
  assumes "dir_chain b pos" "child \<noteq> 0" "0 < length nm" "length nm < 256" "dir_block b pos = Inr es"
  shows "\<exists>r. add_in_block child nm ft b pos = Inr r \<and>
    (\<forall>b'. r = Some b' \<longrightarrow> added b pos es \<lparr>de_inode = child, de_nm = nm, de_fileType = ft\<rparr> b')"
  using assms(1,5)
proof (induction b pos arbitrary: es rule: dir_chain.induct)
  case (1 b pos)
  show ?case
  proof (cases "pos = length b")
    case True
    then show ?thesis by (simp add: add_in_block.simps)
  next
    case False
    note c = dir_chain_step [OF 1(2) False]
    obtain rest where rest: "dir_block b (pos + rec_len b pos) = Inr rest" using dir_chain_block [OF c(5)] by blast
    have es: "es = rec_entry b pos @ rest" using dir_block_step [OF c(1-4) rest] 1(3) by simp
    let ?e = "\<lparr>de_inode = child, de_nm = nm, de_fileType = ft\<rparr>"
    have nl: "8 + length nm \<le> entry_size (length nm)" by (rule entry_size_bounds(1))
    have nz: "unat (get16 b (pos + 4)) \<noteq> 0" using c(2) by (simp add: rec_len_def)
    have ne: "\<not> length b \<le> pos" "\<not> length b < pos + 7" "\<not> length b < pos + 8" using c(1) by simp_all
    consider (free) "get32 b pos = 0" "entry_size (length nm) \<le> rec_len b pos"
      | (split) "get32 b pos \<noteq> 0" "entry_size (name_len b pos) + entry_size (length nm) \<le> rec_len b pos"
      | (skip) "\<not> (get32 b pos = 0 \<and> entry_size (length nm) \<le> rec_len b pos)"
          "\<not> (get32 b pos \<noteq> 0 \<and> entry_size (name_len b pos) + entry_size (length nm) \<le> rec_len b pos)" by blast
    then show ?thesis
    proof cases
      case free
      define b' where "b' = put_entry pos (rec_len b pos) child nm ft b"
      have fit: "pos + 8 + length nm \<le> length b" using free(2) nl c(3) by linarith
      note P = put_entry_reads [OF fit rec_len_small assms(3,4) b'_def]
      have "same_from (pos + rec_len b pos) b b'"
        using P(1) P(6) [of "pos + rec_len b pos" "length b - (pos + rec_len b pos)"] free(2) nl c(3)
        by (simp add: same_from_def drop_as_sub)
      from dir_chain_same [OF c(5) this]
      have n: "dir_chain b' (pos + rec_len b pos)" "dir_block b' (pos + rec_len b pos) = Inr rest" using rest by simp_all
      have "dir_chain b' pos" using c P(1-4) n(1) free(2) by (subst dir_chain.simps) simp
      moreover have "dir_block b' pos = Inr (rec_entry b' pos @ rest)"
        by (rule dir_block_step) (use c P(1-4) n free(2) in simp_all)
      then have "dir_block b' pos = Inr ([] @ ?e # rest)" using P(5) assms(2) by simp
      moreover have "es = [] @ rest" using es free(1) by (simp add: rec_entry_def)
      moreover have "\<forall>p n. p + n \<le> pos \<longrightarrow> sub b' p n = sub b p n" using P(6) c(1) by simp
      ultimately have "added b pos es ?e b'" using P(1) unfolding added_def by blast
      moreover have "add_in_block child nm ft b pos = Inr (Some b')"
        using ne nz free by (subst add_in_block.simps) (simp add: Let_def rec_len_def b'_def)
      ultimately show ?thesis by simp
    next
      case split
      define m where "m = entry_size (name_len b pos)"
      define b1 where "b1 = put16 b (pos + 4) (of_nat m)"
      define b' where "b' = put_entry (pos + m) (rec_len b pos - m) child nm ft b1"
      have m: "8 + name_len b pos \<le> m" "m + entry_size (length nm) \<le> rec_len b pos" "m < 2 ^ 16"
        using entry_size_bounds(1) [of "name_len b pos"] split(2) rec_len_small [of b pos] by (simp_all add: m_def)
      have l1: "length b1 = length b" by (simp add: b1_def put16_def)
      have o1: "sub b1 p n = sub b p n" if "p + n \<le> pos + 4 \<or> pos + 6 \<le> p" "p + n \<le> length b" for p n
        unfolding b1_def put16_def using that by (intro sub_copy_other) auto
      have fit: "pos + m + 8 + length nm \<le> length b1" using m(2) nl c(3) l1 by linarith
      have small: "rec_len b pos - m < 2 ^ 16" using rec_len_small [of b pos] by linarith
      note P = put_entry_reads [OF fit small assms(3,4) b'_def]
      have l: "length b' = length b" using P(1) l1 by simp
      have o': "sub b' p n = sub b p n" if "p + n \<le> pos + 4 \<or> pos + 6 \<le> p" "p + n \<le> pos + m \<or> pos + m + 8 + length nm \<le> p" "p + n \<le> length b" for p n
        using P(6) [of p n] o1 [of p n] that l1 by simp
      have pm: "pos + m + 8 + length nm \<le> length b" using fit l1 by simp
      have rl: "rec_len b' pos = m"
      proof -
        have "sub b' (pos + 4) 2 = sub b1 (pos + 4) 2" using P(6) [of "pos + 4" 2] m(1) l1 c(1) by simp
        then have "get16 b' (pos + 4) = get16 b1 (pos + 4)"
          using c16.get_local [of "pos + 4" b'] c16.get_local [of "pos + 4" b1] l l1 c(1) by simp
        also have "\<dots> = of_nat m" using c(1) by (simp add: b1_def)
        finally show ?thesis using m(3) by (simp add: rec_len_def unat_of_nat)
      qed
      have g: "get32 b' pos = get32 b pos"
        using o' [of pos 4] c32.get_local [of pos b'] c32.get_local [of pos b] l c(1) m(1) by simp
      have one: "x ! q = hd (sub x q 1)" if "q < length x" for x :: bytes and q
        using that by (simp add: sub_def hd_take hd_drop_conv_nth)
      have nn: "name_len b' pos = name_len b pos" "b' ! (pos + 7) = b ! (pos + 7)"
        using o' [of "pos + 6" 1] o' [of "pos + 7" 1] one [of "pos + 6" b'] one [of "pos + 6" b] one [of "pos + 7" b'] one [of "pos + 7" b] l c(1) m(1)
        by (simp_all add: name_len_def)
      have re: "rec_entry b' pos = rec_entry b pos"
        using o' [of "pos + 8" "name_len b pos"] m(1) pm g nn by (simp add: rec_entry_def)
      have "same_from (pos + rec_len b pos) b b'"
        using o' [of "pos + rec_len b pos" "length b - (pos + rec_len b pos)"] l m(2) nl m(1) c(3) by (simp add: same_from_def drop_as_sub)
      from dir_chain_same [OF c(5) this]
      have n: "dir_chain b' (pos + rec_len b pos)" "dir_block b' (pos + rec_len b pos) = Inr rest" using rest by simp_all
      have e: "pos + m + (rec_len b pos - m) = pos + rec_len b pos" using m(2) by simp
      have d: "8 \<le> rec_len b pos - m" "pos + m + (rec_len b pos - m) \<le> length b" "entry_size (length nm) \<le> rec_len b pos - m" "pos + m + 8 \<le> length b"
        using m(2) nl c(3) by linarith+
      have C1: "dir_chain b' (pos + m)" using d(1-3) P(2-4) l n(1) e by (subst dir_chain.simps) (simp add: d(4))
      have "dir_block b' (pos + m) = Inr (rec_entry b' (pos + m) @ rest)"
        by (rule dir_block_step) (use d P(2-4) l n e in simp_all)
      then have B1: "dir_block b' (pos + m) = Inr (?e # rest)" using P(5) assms(2) by simp
      have em: "entry_size (name_len b pos) \<le> m" by (simp add: m_def)
      have "dir_chain b' pos" using c(1) C1 rl g nn l m(1) d em by (subst dir_chain.simps) simp
      moreover have "dir_block b' pos = Inr (rec_entry b' pos @ ?e # rest)"
        by (rule dir_block_step) (use c(1) C1 B1 rl g nn l m(1) d em in simp_all)
      then have "dir_block b' pos = Inr (rec_entry b pos @ ?e # rest)" using re by simp
      moreover have "\<forall>p n. p + n \<le> pos \<longrightarrow> sub b' p n = sub b p n" using o' c(1) by simp
      ultimately have "added b pos es ?e b'" using l es unfolding added_def by blast
      moreover have "add_in_block child nm ft b pos = Inr (Some b')"
        using ne nz split d(4) by (subst add_in_block.simps) (simp add: Let_def rec_len_def name_len_def b'_def b1_def m_def)
      ultimately show ?thesis by simp
    next
      case skip
      have "\<exists>r. add_in_block child nm ft b (pos + rec_len b pos) = Inr r \<and>
          (\<forall>b'. r = Some b' \<longrightarrow> added b (pos + rec_len b pos) rest ?e b')"
        using 1(1) [OF False _ c(5) rest] c by blast
      then obtain r where r: "add_in_block child nm ft b (pos + rec_len b pos) = Inr r" "\<forall>b'. r = Some b' \<longrightarrow> added b (pos + rec_len b pos) rest ?e b'" by blast
      have "add_in_block child nm ft b pos = Inr r"
        using ne nz skip r(1) by (subst add_in_block.simps) (auto simp: Let_def rec_len_def name_len_def)
      then show ?thesis using r(2) added_step [OF c(1-4)] es by blast
    qed
  qed
qed

end
