(* ===== verification/Ext4InodeAlloc.thy ===== *)
theory Ext4InodeAlloc
  imports Ext4FileState
begin

text \<open>
  The inode allocator of the ext4 driver: it hands out the first inode, from the preferred group
  on, whose bit is clear, and leaves every block that is not one of the allocators' own alone.
\<close>

unbundle bit_operations_syntax

subsection \<open>Inodes in use\<close>

definition ino_counts :: "gofile \<Rightarrow> ext4vol \<Rightarrow> bool" where
  "ino_counts f v \<longleftrightarrow> (\<forall>g < ngroups v. unat (gd_freeInodesLo (e_groups v ! g)) = clear_count (blkv f v (im_blk v g)) (ipg v)) \<and>
     ngroups v * ipg v < 2 ^ 32"

definition clear_ino :: "gofile \<Rightarrow> ext4vol \<Rightarrow> nat \<Rightarrow> nat option" where
  "clear_ino f v g = first_clear (blkv f v (im_blk v g)) (ipg v)"

definition ino_no :: "ext4vol \<Rightarrow> nat \<Rightarrow> nat \<Rightarrow> u32" where
  "ino_no v g b = of_nat g * es_inodesPerGroup (e_sb v) + of_nat b + 1"

definition ino_used :: "gofile \<Rightarrow> ext4vol \<Rightarrow> u32 \<Rightarrow> bool" where
  "ino_used f v num \<longleftrightarrow> (\<exists>g < ngroups v. \<exists>b < ipg v. num = ino_no v g b \<and> bit_at (blkv f v (im_blk v g)) b)"

lemma unat_ino_no:
  assumes "ino_counts f v" "g < ngroups v" "b < ipg v"
  shows "unat (ino_no v g b - 1) = g * ipg v + b"
proof -
  have "(g + 1) * ipg v \<le> ngroups v * ipg v" using assms(2) by (intro mult_le_mono1) simp
  then have "g * ipg v + b < 2 ^ 32" using assms(1,3) by (simp add: ino_counts_def)
  moreover have "ino_no v g b - 1 = of_nat (g * ipg v + b)" by (simp add: ino_no_def ipg_def)
  ultimately show ?thesis by (simp add: unat_of_nat32 del: of_nat_add of_nat_mult)
qed

lemma ino_no_inj:
  assumes "ino_counts f v" "g < ngroups v" "b < ipg v" "h < ngroups v" "c < ipg v" "ino_no v g b = ino_no v h c"
  shows "g = h \<and> b = c"
proof -
  have e: "g * ipg v + b = h * ipg v + c"
    using unat_ino_no [OF assms(1-3)] unat_ino_no [OF assms(1,4,5)] assms(6) by simp
  then have "(g * ipg v + b) div ipg v = (h * ipg v + c) div ipg v" "(g * ipg v + b) mod ipg v = (h * ipg v + c) mod ipg v" by simp_all
  then show ?thesis using assms(3,5) by simp
qed

lemma valid_ino_no:
  assumes "ino_counts f v" "g < ngroups v" "b < ipg v"
  shows "valid_ino v (ino_no v g b)"
  using unat_ino_no [OF assms] assms(2,3) by (simp add: valid_ino_def unat_div ipg_def [symmetric])

lemma ino_no_nonzero:
  assumes "ino_counts f v" "g < ngroups v" "b < ipg v"
  shows "ino_no v g b \<noteq> 0"
proof
  assume "ino_no v g b = 0"
  then have "unat (- 1 :: u32) = g * ipg v + b" using unat_ino_no [OF assms] by simp
  moreover have "(g + 1) * ipg v \<le> ngroups v * ipg v" using assms(2) by (intro mult_le_mono1) simp
  then have "g * ipg v + b + 1 < 2 ^ 32" using assms(1,3) by (simp add: ino_counts_def)
  ultimately show False by (simp add: unsigned_minus_1_eq_mask mask_eq_exp_minus_1)
qed

text \<open>What one allocation does; \<open>num\<close> is the number handed out.\<close>

definition ino_alloced :: "gofile \<Rightarrow> ext4vol \<Rightarrow> u32 \<Rightarrow> ext4vol \<Rightarrow> bool" where
  "ino_alloced f v num v' \<longleftrightarrow> shape v' = shape v \<and> vol_ok f v' \<and> ino_counts f v' \<and> e_dirtyInodes v' = e_dirtyInodes v \<and>
     valid_ino v num \<and> num \<noteq> 0 \<and> \<not> ino_used f v num \<and> (\<forall>k. ino_used f v' k \<longleftrightarrow> ino_used f v k \<or> k = num) \<and>
     (\<forall>y. y \<notin> meta v \<longrightarrow> blkv f v' y = blkv f v y) \<and> (\<forall>y. in_use f v' y \<longleftrightarrow> in_use f v y) \<and> nfree f v' = nfree f v \<and>
     (synced f v \<longrightarrow> synced f v')"

definition dec_inodes :: "superblock \<Rightarrow> superblock" where
  "dec_inodes sb = sb\<lparr>es_freeInodes := es_freeInodes sb - 1\<rparr>"

definition took_inode :: "gofile \<Rightarrow> ext4vol \<Rightarrow> bool \<Rightarrow> nat \<Rightarrow> nat \<Rightarrow> ext4vol \<Rightarrow> bool" where
  "took_inode f v d g b v' \<longleftrightarrow>
     after_alloc f v (im_blk v g) g (or_bit b (blkv f v (im_blk v g)))
       (let gd = e_groups v ! g in gd\<lparr>gd_freeInodesLo := gd_freeInodesLo gd - 1, gd_usedDirsLo := (if d then gd_usedDirsLo gd + 1 else gd_usedDirsLo gd)\<rparr>)
       dec_inodes v'"

lemma allocInodeInGroup_cases:
  assumes "geo f v" "layout_ok v" "g < ngroups v"
  shows "if gd_freeInodesLo (e_groups v ! g) = 0 \<or> clear_ino f v g = None
    then \<exists>s. allocInodeInGroup now f d (of_nat g) v = (Inl (Err s), v)
    else \<exists>v'. allocInodeInGroup now f d (of_nat g) v = (Inr (ino_no v g (the (clear_ino f v g))), v') \<and> took_inode f v d g (the (clear_ino f v g)) v'"
proof -
  have u: "unat (of_nat g :: u32) = g" by (rule unat_group [OF assms(2,3)])
  have ga: "group_at v (of_nat g) = Inr (e_groups v ! g)" using assms(3) u by (simp add: group_at_def ngroups_def)
  have vb: "vblk v (im_blk v g)" by (rule layoutD(7) [OF assms(2) meta_in(4) [OF assms(3)]])
  note tb = take_bit_of_first [OF assms(1) vb layoutD(6) [OF assms(2)], folded clear_ino_def, unfolded im_blk_def ipg_def]
  show ?thesis
  proof (cases "gd_freeInodesLo (e_groups v ! g) = 0 \<or> clear_ino f v g = None")
    case True
    then show ?thesis using ga tb by (auto simp: allocInodeInGroup_def bindS_def readS_def failS_def Let_def)
  next
    case False
    then obtain b where b: "clear_ino f v g = Some b" by blast
    let ?gd = "e_groups v ! g"
    define gd' where "gd' = ?gd\<lparr>gd_freeInodesLo := gd_freeInodesLo ?gd - 1, gd_usedDirsLo := (if d then gd_usedDirsLo ?gd + 1 else gd_usedDirsLo ?gd)\<rparr>"
    have lb: "length (or_bit b (blkv f v (im_blk v g))) = bsz v" using length_blkv [OF assms(1) vb] by simp
    have st: "gd_static gd' = gd_static ?gd" by (simp add: gd'_def gd_static_def)
    obtain v' where v': "bindS (modS (writeBlock (im_blk v g) (or_bit b (blkv f v (im_blk v g))))) (\<lambda>_.
        bindS (writeGroupDesc f (of_nat g) gd') (\<lambda>_. bindS (set_sb dec_inodes) (\<lambda>_. bindS (writeSuperblock now f) (\<lambda>_.
        readS (\<lambda>v. Inr (of_nat g * es_inodesPerGroup (e_sb v) + of_nat b + 1)))))) v =
        (Inr (of_nat g * es_inodesPerGroup (dec_inodes (e_sb v)) + of_nat b + 1), v')"
      "after_alloc f v (im_blk v g) g (or_bit b (blkv f v (im_blk v g))) gd' dec_inodes v'"
      using after_allocI [OF assms lb vb bm_not_sb_gdt(3,4) [OF assms(2,3)] _ st, of dec_inodes now "\<lambda>sb. of_nat g * es_inodesPerGroup sb + of_nat b + 1"]
      by (auto simp: dec_inodes_def sb_static_def)
    have "allocInodeInGroup now f d (of_nat g) v = (Inr (of_nat g * es_inodesPerGroup (dec_inodes (e_sb v)) + of_nat b + 1), v')"
      using v'(1) False tb b ga
      by (simp add: allocInodeInGroup_def bindS_eval(1) readS_def Let_def im_blk_def dec_inodes_def [abs_def] gd'_def)
    then show ?thesis using False b v'(2) by (simp add: ino_no_def dec_inodes_def took_inode_def gd'_def Let_def)
  qed
qed

lemma ino_clear:
  assumes "ino_counts f v" "g < ngroups v"
  shows "gd_freeInodesLo (e_groups v ! g) = 0 \<longleftrightarrow> clear_ino f v g = None"
proof -
  have "unat (gd_freeInodesLo (e_groups v ! g)) = clear_count (blkv f v (im_blk v g)) (ipg v)" using assms by (simp add: ino_counts_def)
  then show ?thesis using clear_count_pos [of "blkv f v (im_blk v g)" "ipg v"] by (auto simp: clear_ino_def unat_eq_0)
qed

lemma took_inode_alloced:
  assumes "vol_ok f v" "ino_counts f v" "g < ngroups v" "clear_ino f v g = Some b" "took_inode f v d g b v'"
  shows "ino_alloced f v (ino_no v g b) v'"
proof -
  note V = vol_okD [OF assms(1)] and a = alloc_okD [OF vol_okD(1) [OF assms(1)]]
  define gd where "gd = (let gd = e_groups v ! g in gd\<lparr>gd_freeInodesLo := gd_freeInodesLo gd - 1, gd_usedDirsLo := (if d then gd_usedDirsLo gd + 1 else gd_usedDirsLo gd)\<rparr>)"
  note k = assms(5) [unfolded took_inode_def, folded gd_def]
  note A = k [unfolded after_alloc_def]
  have st: "sb_static (dec_inodes sb) = sb_static sb" for sb by (simp add: dec_inodes_def sb_static_def)
  have gst: "gd_static gd = gd_static (e_groups v ! g)" by (simp add: gd_def Let_def gd_static_def)
  have s: "shape v' = shape v" by (rule after_alloc_shape [OF k st gst assms(3)])
  note S = shape_derived [OF s] and n = shape_fields(5) [OF s]
  have gr: "e_groups v' = (e_groups v)[g := gd]" using A by blast
  have out: "blkv f v' x = blkv f v x" if "x \<notin> meta v" for x using that A assms(3) by (auto simp: meta_def)
  have bm: "blkv f v' (bm_blk v' h) = blkv f v (bm_blk v h)" if "h < ngroups v" for h
    using bm_not_sb_gdt [OF a(2) that] bm_not_sb_gdt(5) [OF a(2) that assms(3)] A S(9) [OF that] by auto
  have im: "blkv f v' (im_blk v' h) = (if h = g then or_bit b (blkv f v (im_blk v g)) else blkv f v (im_blk v h))" if "h < ngroups v" for h
    using bm_not_sb_gdt [OF a(2) that] inj_onD [OF layoutD(11) [OF a(2)], of h g] that assms(3) A S(10) [OF that] by auto
  have no: "block_no v' h c = block_no v h c" for h c by (simp add: block_no_def S(13))
  have ipgs: "es_inodesPerGroup (e_sb v') = es_inodesPerGroup (e_sb v)" by (rule sb_static_fields(3) [OF shape_fields(4) [OF s]])
  have ino: "ino_no v' h c = ino_no v h c" for h c by (simp add: ino_no_def ipgs)
  have b: "b < ipg v" "\<not> bit_at (blkv f v (im_blk v g)) b" using assms(4) by (auto simp: clear_ino_def first_clear_Some)
  have l: "length (blkv f v (im_blk v g)) = bsz v" by (rule length_blkv [OF a(1) layoutD(7) [OF a(2) meta_in(4) [OF assms(3)]]])
  have bl: "b < 8 * length (blkv f v (im_blk v g))" using b(1) l layoutD(6) [OF a(2)] by simp
  have fb: "gd_freeBlocks (e_groups v' ! h) = gd_freeBlocks (e_groups v ! h)" if "h < ngroups v" for h
    using that assms(3) by (simp add: gr nth_list_update gd_def Let_def gd_freeBlocks_def ngroups_def)
  have "counts_ok f v'" using a(3) bm fb by (simp add: counts_ok_def n S(4))
  then have "alloc_ok f v'" using A a(2) shape_layout [OF s] by (simp add: alloc_ok_def)
  moreover have use: "in_use f v' y \<longleftrightarrow> in_use f v y" for y unfolding in_use_def n S(4) no using bm by (metis (no_types, lifting))
  ultimately have "vol_ok f v'"
    unfolding vol_ok_def shape_meta [OF s] n S(4) no use good_no_def S(3) using V(4,5) bm unfolding good_no_def by simp
  moreover have "nfree f v' = nfree f v" unfolding nfree_def n S(4) using bm by simp
  moreover have "ino_counts f v'"
  proof -
    have "unat (gd_freeInodesLo (e_groups v' ! h)) = clear_count (blkv f v' (im_blk v' h)) (ipg v)" if h: "h < ngroups v" for h
    proof -
      have c: "unat (gd_freeInodesLo (e_groups v ! h)) = clear_count (blkv f v (im_blk v h)) (ipg v)" using assms(2) h by (simp add: ino_counts_def)
      show ?thesis
      proof (cases "h = g")
        case True
        have "clear_count (or_bit b (blkv f v (im_blk v g))) (ipg v) + 1 = clear_count (blkv f v (im_blk v g)) (ipg v)"
          using layoutD(6) [OF a(2)] l b by (intro clear_count_set) auto
        moreover have "unat (gd_freeInodesLo (e_groups v ! g) - 1) = unat (gd_freeInodesLo (e_groups v ! g)) - 1"
          using calculation c True by (intro unat_minus_one) auto
        ultimately show ?thesis using c True assms(3) im [OF h] by (simp add: gr gd_def Let_def ngroups_def)
      next
        case False
        then show ?thesis using c im [OF h] by (simp add: gr)
      qed
    qed
    then show ?thesis using assms(2) by (simp add: ino_counts_def n S(5))
  qed
  moreover have "ino_used f v' k \<longleftrightarrow> ino_used f v k \<or> k = ino_no v g b" for k
  proof -
    have "bit_at (blkv f v' (im_blk v' h)) c \<longleftrightarrow> bit_at (blkv f v (im_blk v h)) c \<or> h = g \<and> c = b" if "h < ngroups v" for h c
      using im [OF that] bit_at_or_bit [OF bl] by auto
    then show ?thesis unfolding ino_used_def n S(5) ino using b(1) assms(3) by blast
  qed
  moreover have "\<not> ino_used f v (ino_no v g b)"
    using ino_no_inj [OF assms(2,3) b(1)] b(2) unfolding ino_used_def by blast
  ultimately show ?thesis
    unfolding ino_alloced_def using s out use A valid_ino_no [OF assms(2,3) b(1)] ino_no_nonzero [OF assms(2,3) b(1)] by blast
qed

lemma try_groups_ino:
  assumes "vol_ok f v" "ino_counts f v" "set gs \<subseteq> {..<ngroups v}"
  shows "if \<exists>g \<in> set gs. clear_ino f v g \<noteq> None
    then \<exists>num v'. try_groups (Err none) (allocInodeInGroup now f d) (map of_nat gs) v = (Inr num, v') \<and> ino_alloced f v num v'
    else try_groups (Err none) (allocInodeInGroup now f d) (map of_nat gs) v = (Inl (Err none), v)"
  using assms(3)
proof (induction gs)
  case Nil
  then show ?case by (simp add: failS_def)
next
  case (Cons g gs)
  note a = alloc_okD [OF vol_okD(1) [OF assms(1)]]
  have g: "g < ngroups v" using Cons.prems by simp
  note C = allocInodeInGroup_cases [OF a(1,2) g, of now d, unfolded ino_clear [OF assms(2) g]]
  show ?case
  proof (cases "clear_ino f v g")
    case None
    then obtain s where "allocInodeInGroup now f d (of_nat g) v = (Inl (Err s), v)" using C by auto
    then have e1: "try_groups (Err none) (allocInodeInGroup now f d) (map of_nat (g # gs)) v =
        try_groups (Err none) (allocInodeInGroup now f d) (map of_nat gs) v" by (simp add: tryS_def)
    have e2: "(\<exists>h \<in> set (g # gs). clear_ino f v h \<noteq> None) \<longleftrightarrow> (\<exists>h \<in> set gs. clear_ino f v h \<noteq> None)" using None by simp
    show ?thesis unfolding e1 e2 using Cons.prems by (intro Cons.IH) simp
  next
    case (Some b)
    then obtain v' where v': "allocInodeInGroup now f d (of_nat g) v = (Inr (ino_no v g b), v')" "took_inode f v d g b v'" using C by auto
    then have "ino_alloced f v (ino_no v g b) v'" using took_inode_alloced [OF assms(1,2) g Some] by blast
    then show ?thesis using v'(1) Some by (auto simp: tryS_def retS_def)
  qed
qed

text \<open>A file's inode: allocation succeeds exactly when some bit is clear.\<close>

lemma allocInode_ok:
  assumes "vol_ok f v" "ino_counts f v" "unat prefer < ngroups v"
  shows "if \<exists>g < ngroups v. clear_ino f v g \<noteq> None
    then \<exists>num v'. allocInode now f prefer False v = (Inr num, v') \<and> ino_alloced f v num v'
    else allocInode now f prefer False v = (Inl (Err ''ext4: no free inodes''), v)"
proof -
  have l: "layout_ok v" by (rule vol_okD(3) [OF assms(1)])
  have gs: "set (groups_from v (unat prefer)) = {..<ngroups v}" using set_groups_from layoutD(1) [OF l] assms(3) by simp
  have e: "allocInode now f prefer False v =
      try_groups (Err ''ext4: no free inodes'') (allocInodeInGroup now f False) (map of_nat (groups_from v (unat prefer))) v"
    by (simp add: allocInode_def group_order_from [OF l assms(3)])
  have x: "(\<exists>g < ngroups v. clear_ino f v g \<noteq> None) \<longleftrightarrow> (\<exists>g \<in> set (groups_from v (unat prefer)). clear_ino f v g \<noteq> None)"
    unfolding gs by auto
  show ?thesis unfolding e x using gs by (intro try_groups_ino [OF assms(1,2)]) simp
qed

text \<open>The steps of files keep the inode allocator's state.\<close>

lemma vstep_inodes:
  assumes "vstep f v N W v'"
  shows "ino_counts f v' \<longleftrightarrow> ino_counts f v" "ino_used f v' = ino_used f v"
proof -
  note V = vstepD [OF assms]
  note S = shape_derived [OF V(1)] and n = shape_fields(5) [OF V(1)]
  have im: "blkv f v' (im_blk v' h) = blkv f v (im_blk v h)" if "h < ngroups v" for h using V(9) [OF that] S(10) [OF that] by simp
  have "gd_freeInodesLo (e_groups v' ! h) = gd_freeInodesLo (e_groups v ! h)" if "h < ngroups v" for h
    using V(10) that n by (metis ngroups_def nth_map)
  then show "ino_counts f v' \<longleftrightarrow> ino_counts f v" using im by (simp add: ino_counts_def n S(5))
  have "es_inodesPerGroup (e_sb v') = es_inodesPerGroup (e_sb v)" by (rule sb_static_fields(3) [OF shape_fields(4) [OF V(1)]])
  then show "ino_used f v' = ino_used f v" using im by (simp add: ino_used_def fun_eq_iff n S(5) ino_no_def) metis
qed

end
