(* ===== verification/Ext4Create.thy ===== *)
theory Ext4Create
  imports Ext4Dir Ext4InodeAlloc
begin

text \<open>
  Creating a file: the directory gets the entry, the file its inode and its data, and all that
  was there before stays.
\<close>

unbundle bit_operations_syntax

subsection \<open>Files that a step does not touch\<close>

lemma file_at_frame:
  assumes F: "file_at f v k i ls ps" and V: "vstep f v N W v'" and W: "\<And>x. x \<in> set (ps @ ls) \<Longrightarrow> x \<notin> W"
    and I: "map_of (e_dirtyInodes v') k = map_of (e_dirtyInodes v) k" "inodes_ok v'"
  shows "file_at f v' k i ls ps" "x \<in> set (ps @ ls) \<Longrightarrow> blkv f v' x = blkv f v x"
proof -
  note s = file_stateD [OF F [unfolded file_at_def, THEN conjunct1]]
  note S = vstepD [OF V]
  show bl: "blkv f v' x = blkv f v x" if "x \<in> set (ps @ ls)" for x using S(8) [OF s(8) [OF that] W [OF that]] .
  have "file_tree f v' i ls ps" by (rule file_tree_cong [OF s(5) S(1)]) (use bl in simp)
  moreover have "readInode f v' k = readInode f v k" by (rule readInode_cong [OF S(1) I(1)])
  ultimately show "file_at f v' k i ls ps"
    using F s S(2,6) shape_meta [OF S(1)] valid_shape [OF S(1)] shape_derived(1) [OF S(1)] I(2)
    unfolding file_at_def file_state_def by simp
qed

lemma file_at_ino_alloced:
  assumes F: "file_at f v k i ls ps" and A: "ino_alloced f v num v'"
  shows "file_at f v' k i ls ps" "x \<in> set (ps @ ls) \<Longrightarrow> blkv f v' x = blkv f v x"
proof -
  note s = file_stateD [OF F [unfolded file_at_def, THEN conjunct1]]
  note a = A [unfolded ino_alloced_def]
  have S: "shape v' = shape v" using a by blast
  show bl: "blkv f v' x = blkv f v x" if "x \<in> set (ps @ ls)" for x using a s(8) [OF that] by blast
  have "file_tree f v' i ls ps" by (rule file_tree_cong [OF s(5) S]) (use bl in simp)
  moreover have "readInode f v' k = readInode f v k" by (rule readInode_cong [OF S]) (use a in simp)
  moreover have "inodes_ok v'" using a s(2) shape_derived(2) [OF S] by (simp add: inodes_ok_def)
  ultimately show "file_at f v' k i ls ps"
    using F s a shape_meta [OF S] valid_shape [OF S] shape_derived(1) [OF S]
    unfolding file_at_def file_state_def by simp
qed

subsection \<open>Directories\<close>

definition dir_at :: "gofile \<Rightarrow> ext4vol \<Rightarrow> u32 \<Rightarrow> inode \<Rightarrow> u64 list \<Rightarrow> u64 list \<Rightarrow> dirEntry list list \<Rightarrow> bool" where
  "dir_at f v num i ls ps ess \<longleftrightarrow> file_at f v num i ls ps \<and> is_dir i \<and> inodeFileSize i = int (length ps * bsz v) \<and> length ess = length ps \<and>
     (\<forall>k < length ps. dir_chain (blkv f v (ps ! k)) 0 \<and> dir_block (blkv f v (ps ! k)) 0 = Inr (ess ! k))"

lemma dir_blocks_all:
  assumes "\<forall>k \<in> set ks. \<exists>b. file_block f v i (of_nat k) = Inr b \<and> dir_block b 0 = Inr (g k)"
  shows "dir_blocks f v i ks = Inr (concat (map g ks))"
  using assms by (induction ks) auto

lemma dir_rounds_size: "0 < bsz v \<Longrightarrow> inodeFileSize i = int (n * bsz v) \<Longrightarrow> dir_rounds v i = n"
proof -
  assume b: "0 < bsz v" "inodeFileSize i = int (n * bsz v)"
  have "int (n * bsz v) + int (bsz v) - 1 = (int (bsz v) - 1) + int n * int (bsz v)" by (simp add: algebra_simps)
  moreover have "((int (bsz v) - 1) + int n * int (bsz v)) div int (bsz v) = int n"
    using b(1) div_mult_self1 [of "int (bsz v)" "int (bsz v) - 1" "int n"] by (simp add: div_pos_pos_trivial)
  ultimately show ?thesis unfolding dir_rounds_def b(2) by (simp only: nat_int)
qed

lemma dir_at_blocks:
  assumes "dir_at f v num i ls ps ess"
  shows "geo f v" "file_tree f v i ls ps" "dir_rounds v i = length ps" "\<not> 2 ^ 63 \<le> int (length ps) * int (bsz v)" "0 < bsz v"
proof -
  note d = assms [unfolded dir_at_def]
  have F: "file_state f v num i ls ps" using d by (simp add: file_at_def)
  show g: "geo f v" by (rule vol_okD(2) [OF file_stateD(1) [OF F]])
  show "file_tree f v i ls ps" by (rule file_stateD(5) [OF F])
  show b: "0 < bsz v" by (rule geoD(6) [OF g])
  show "dir_rounds v i = length ps" using dir_rounds_size [OF b] d by blast
  have "length ps * bsz v < 2 ^ 63" by (rule order_less_trans [OF file_size_bound [OF F]]) simp
  then have "int (length ps * bsz v) < int (2 ^ 63)" unfolding of_nat_less_iff .
  then show "\<not> 2 ^ 63 \<le> int (length ps) * int (bsz v)" by simp
qed

lemma readDir_dir_at:
  assumes D: "dir_at f v num i ls ps ess"
  shows "readDir f v i = Inr (concat ess)"
proof -
  note d = D [unfolded dir_at_def] and B = dir_at_blocks [OF D]
  have "dir_blocks f v i [0..<length ps] = Inr (concat (map ((!) ess) [0..<length ps]))"
    by (rule dir_blocks_all) (use file_block_tree [OF B(1,2)] d in auto)
  then have e: "dir_blocks f v i [0..<length ps] = Inr (concat ess)" using d by (metis map_nth)
  show ?thesis
  proof (cases "ps = []")
    case True
    then show ?thesis using d by (simp add: readDir_def)
  next
    case False
    then have "0 < int (length ps * bsz v)" unfolding of_nat_0_less_iff using B(5) by simp
    then have "\<not> inodeFileSize i \<le> 0" using d by linarith
    then show ?thesis using e B(3,4,5) by (simp add: readDir_def)
  qed
qed

lemma dir_at_cong:
  assumes "dir_at f v num i ls ps ess" "file_at f v' num i' ls ps" "bsz v' = bsz v" "inodeFileSize i' = inodeFileSize i" "i_mode i' = i_mode i"
    "\<And>x. x \<in> set ps \<Longrightarrow> blkv f v' x = blkv f v x"
  shows "dir_at f v' num i' ls ps ess"
  using assms unfolding dir_at_def by (simp add: is_dir_def)

text \<open>A change in the first block that takes it.\<close>

lemma change_first_ok:
  assumes D: "dir_at f v num i ls ps ess" and g: "\<And>k. k < length ps \<Longrightarrow> \<exists>r. g (blkv f v (ps ! k)) = Inr r" and j: "j \<le> length ps"
  shows "if \<forall>k. j \<le> k \<and> k < length ps \<longrightarrow> g (blkv f v (ps ! k)) = Inr None
    then change_first f i g [j..<length ps] v = (Inr False, v)
    else \<exists>k b. j \<le> k \<and> k < length ps \<and> g (blkv f v (ps ! k)) = Inr (Some b) \<and> change_first f i g [j..<length ps] v = (Inr True, writeBlock (ps ! k) b v)"
  using j
proof (induction "length ps - j" arbitrary: j)
  case 0
  then show ?case by (simp add: retS_def)
next
  case (Suc n)
  note B = dir_at_blocks [OF D]
  have jl: "j < length ps" using Suc.hyps(2) by simp
  have e: "[j..<length ps] = j # [Suc j..<length ps]" using jl by (simp add: upt_conv_Cons)
  have uj: "unat (of_nat j :: u32) = j" using tree_small [OF B(1,2)] jl by (intro unat_of_nat32) linarith
  have lp: "logicalToPhysical f v i (of_nat j) = Inr (ps ! j)" using logicalToPhysical_tree [OF B(1,2), of "of_nat j"] uj jl by simp
  have rb: "readBlock f v (ps ! j) = Inr (blkv f v (ps ! j))" using readBlock_blkv [OF B(1)] file_vblk [OF B(2)] jl by simp
  obtain r where r: "g (blkv f v (ps ! j)) = Inr r" using g [OF jl] by blast
  have IH: "if \<forall>k. Suc j \<le> k \<and> k < length ps \<longrightarrow> g (blkv f v (ps ! k)) = Inr None
    then change_first f i g [Suc j..<length ps] v = (Inr False, v)
    else \<exists>k b. Suc j \<le> k \<and> k < length ps \<and> g (blkv f v (ps ! k)) = Inr (Some b) \<and> change_first f i g [Suc j..<length ps] v = (Inr True, writeBlock (ps ! k) b v)"
    by (rule Suc.hyps(1)) (use Suc.hyps(2) jl in simp_all)
  show ?case
  proof (cases r)
    case None
    then have s: "change_first f i g [j..<length ps] v = change_first f i g [Suc j..<length ps] v"
      unfolding e using lp rb r by (simp add: bindS_def readS_def)
    have q: "(\<forall>k. j \<le> k \<and> k < length ps \<longrightarrow> g (blkv f v (ps ! k)) = Inr None) \<longleftrightarrow> (\<forall>k. Suc j \<le> k \<and> k < length ps \<longrightarrow> g (blkv f v (ps ! k)) = Inr None)"
      using r None by (metis Suc_le_eq le_neq_implies_less less_imp_le)
    show ?thesis unfolding s q using IH by (auto split: if_splits) (metis Suc_leD)
  next
    case (Some b)
    then have "change_first f i g [j..<length ps] v = (Inr True, writeBlock (ps ! j) b v)"
      unfolding e using lp rb r by (simp add: bindS_def readS_def modS_def retS_def)
    moreover have "\<not> (\<forall>k. j \<le> k \<and> k < length ps \<longrightarrow> g (blkv f v (ps ! k)) = Inr None)" using r Some jl by auto
    ultimately show ?thesis using r Some jl by auto
  qed
qed

text \<open>Writing a new version of one block of a directory.\<close>

lemma dir_at_update:
  assumes D: "dir_at f v num i ls ps ess" and k: "k < length ps" and b: "length b = bsz v" "dir_chain b 0" "dir_block b 0 = Inr es"
  shows "dir_at f (writeBlock (ps ! k) b v) num i ls ps (ess[k := es])" "vstep f v {} {ps ! k} (writeBlock (ps ! k) b v)"
proof -
  note d = D [unfolded dir_at_def]
  have F: "file_at f v num i ls ps" using d by blast
  note W = write_in_block [OF F k b(1)]
  have "distinct ps" using file_stateD(6) [OF F [unfolded file_at_def, THEN conjunct1]] by simp
  then have "ps ! h = ps ! k \<longleftrightarrow> h = k" if "h < length ps" for h using that k by (simp add: nth_eq_iff_index_eq)
  then show "dir_at f (writeBlock (ps ! k) b v) num i ls ps (ess[k := es])"
    using d W(1,5) k b by (auto simp: dir_at_def nth_list_update)
  show "vstep f v {} {ps ! k} (writeBlock (ps ! k) b v)" by (rule W(2))
qed

definition has_room :: "gofile \<Rightarrow> ext4vol \<Rightarrow> u64 list \<Rightarrow> gostr \<Rightarrow> bool" where
  "has_room f v ps nm \<longleftrightarrow> (\<exists>k < length ps. \<forall>child ft. child \<noteq> 0 \<longrightarrow> add_in_block child nm ft (blkv f v (ps ! k)) 0 \<noteq> Inr None)"

definition good_name :: "gostr \<Rightarrow> bool" where
  "good_name nm \<longleftrightarrow> 0 < length nm \<and> length nm < 256"

lemma concat_split: "k < length ess \<Longrightarrow> ess ! k = es1 @ es2 \<Longrightarrow> \<exists>A B. concat ess = A @ B \<and> concat (ess[k := es1 @ e # es2]) = A @ e # B"
proof -
  assume k: "k < length ess" "ess ! k = es1 @ es2"
  have "concat ess = (concat (take k ess) @ es1) @ es2 @ concat (drop (Suc k) ess)"
    using k by (metis append.assoc concat.simps(2) concat_append id_take_nth_drop)
  moreover have "concat (ess[k := es1 @ e # es2]) = (concat (take k ess) @ es1) @ e # es2 @ concat (drop (Suc k) ess)"
    using k(1) by (simp add: upd_conv_take_nth_drop)
  ultimately show ?thesis by blast
qed

lemma addDirEntry_ok:
  assumes D: "dir_at f v num i ls ps ess" and nm: "good_name nm" "child \<noteq> 0" and room: "has_room f v ps nm"
  shows "\<exists>v' ess' A B. e4_addDirEntry now f num nm child ft v = (Inr (), v') \<and> dir_at f v' num i ls ps ess' \<and>
    concat ess = A @ B \<and> concat ess' = A @ \<lparr>de_inode = child, de_nm = nm, de_fileType = ft\<rparr> # B \<and>
    vstep f v {} (set ps) v' \<and> e_dirtyInodes v' = e_dirtyInodes v"
proof -
  note d = D [unfolded dir_at_def] and B = dir_at_blocks [OF D]
  let ?g = "\<lambda>b. add_in_block child nm ft b 0" and ?e = "\<lparr>de_inode = child, de_nm = nm, de_fileType = ft\<rparr>"
  have ok: "\<exists>r. ?g (blkv f v (ps ! k)) = Inr r \<and> (\<forall>b'. r = Some b' \<longrightarrow> added (blkv f v (ps ! k)) 0 (ess ! k) ?e b')" if "k < length ps" for k
    using d nm that by (intro add_in_block_ok) (simp_all add: good_name_def)
  have some: "\<not> (\<forall>k. 0 \<le> k \<and> k < length ps \<longrightarrow> ?g (blkv f v (ps ! k)) = Inr None)" using room nm(2) unfolding has_room_def by blast
  have "\<exists>r. ?g (blkv f v (ps ! k)) = Inr r" if "k < length ps" for k using ok [OF that] by blast
  from change_first_ok [OF D, of ?g 0, OF this le0, unfolded if_not_P [OF some]] obtain k b where k: "k < length ps" "?g (blkv f v (ps ! k)) = Inr (Some b)"
    "change_first f i ?g [0..<length ps] v = (Inr True, writeBlock (ps ! k) b v)" by blast
  have a: "added (blkv f v (ps ! k)) 0 (ess ! k) ?e b" using ok [OF k(1)] k(2) by auto
  then obtain es1 es2 where es: "ess ! k = es1 @ es2" "dir_block b 0 = Inr (es1 @ ?e # es2)" "dir_chain b 0" "length b = length (blkv f v (ps ! k))"
    unfolding added_def by blast
  have lb: "length b = bsz v" using es(4) length_blkv [OF B(1)] file_vblk [OF B(2)] k(1) by simp
  note U = dir_at_update [OF D k(1) lb es(3,2)]
  obtain A C where AC: "concat ess = A @ C" "concat (ess[k := es1 @ ?e # es2]) = A @ ?e # C"
    using concat_split [of k ess es1 es2 ?e] k(1) es(1) d by auto
  have "vstep f v {} (set ps) (writeBlock (ps ! k) b v)" using U(2) k(1) unfolding vstep_def by auto
  moreover have "0 < int (length ps * bsz v)" unfolding of_nat_0_less_iff using k(1) B(5) by (cases ps) auto
  then have "\<not> inodeFileSize i \<le> 0" using d by linarith
  then have "e4_addDirEntry now f num nm child ft v = (Inr (), writeBlock (ps ! k) b v)"
    using d k(3) B(3,5) by (simp add: e4_addDirEntry_def change_dir_def bindS_def readS_def retS_def file_at_def)
  ultimately show ?thesis using U(1) AC by (intro exI [of _ "writeBlock (ps ! k) b v"]) auto
qed

text \<open>Storing an inode anew, here with other times.\<close>

lemma writeInode_file:
  assumes F: "file_at f v num i0 ls ps" and i: "i_block i = i_block i0" "i_flags i = i_flags i0"
  shows "\<exists>v'. writeInode f num i v = (Inr (), v') \<and> file_at f v' num i ls ps \<and> vstep f v {} {} v' \<and> only_inode num v v' \<and> blkv f v' = blkv f v"
proof -
  have s: "file_state f v num i ls ps" using F file_state_inode [OF i] by (simp add: file_at_def)
  note t = file_stateD [OF s]
  obtain raw where raw: "writeInode f num i v = (Inr (), writeRawInode num raw v)" "length raw = isz v" "parseInode raw = Inr i"
    using writeInode_ok [OF vol_okD(3) [OF t(1)] t(2,3) file_treeD(2) [OF t(5)]] by blast
  obtain v' where v': "storeInode f num (v, i) = (Inr (), (v', i))" "file_at f v' num i ls ps" "vstep f v {} {} v'" "only_inode num v v'"
    using grows_store [OF s] by blast
  have "v' = writeRawInode num raw v" using v'(1) raw(1) by (simp add: storeInode_def onVol_def)
  then show ?thesis using raw(1) v'(2-4) by auto
qed

text \<open>A new, empty file.\<close>

lemma new_inode_file:
  assumes "vol_ok f v" "inodes_ok v" "valid_ino v num" "bsz v \<le> 65536"
  shows "\<exists>v'. writeInode f num (new_inode now m l) v = (Inr (), v') \<and> file_at f v' num (new_inode now m l) [] [] \<and> vstep f v {} {} v' \<and>
    only_inode num v v' \<and> blkv f v' = blkv f v"
proof -
  let ?i = "new_inode now m l"
  have ib: "i_block ?i = puts (header_puts 0 4 0) (zeros 60)" "i_flags ?i = inodeFlagExtents" by (simp_all add: new_inode_def)
  have T: "file_tree f v ?i [] []" using leaf_node_empty [of 4 0] by (simp add: file_tree_def ib inode_ok_def inodeFlagExtents_def)
  have s: "file_state f v num ?i [] []" using assms T by (simp add: file_state_def)
  obtain raw where raw: "writeInode f num ?i v = (Inr (), writeRawInode num raw v)"
    using writeInode_ok [OF vol_okD(3) [OF assms(1)] assms(2,3) file_treeD(2) [OF T]] by blast
  obtain v' where v': "storeInode f num (v, ?i) = (Inr (), (v', ?i))" "file_at f v' num ?i [] []" "vstep f v {} {} v'" "only_inode num v v'"
    using grows_store [OF s] by blast
  have "v' = writeRawInode num raw v" using v'(1) raw by (simp add: storeInode_def onVol_def)
  then show ?thesis using raw v'(2-4) by auto
qed

subsection \<open>Creating a file\<close>

text \<open>
  The volume after a file was made: it has the inode \<open>num\<close> and the contents \<open>data\<close>, its entry \<open>base\<close>
  stands in the directory among the old ones, and no block in use but those of the directory and
  of the allocators has changed.
\<close>

definition created :: "gofile \<Rightarrow> ext4vol \<Rightarrow> u32 \<Rightarrow> inode \<Rightarrow> u64 list \<Rightarrow> u64 list \<Rightarrow> dirEntry list list \<Rightarrow> gostr \<Rightarrow> bytes \<Rightarrow> u16 \<Rightarrow> u32 \<Rightarrow> ext4vol \<Rightarrow> bool" where
  "created f v dirIno di dls dps ess base data mode num v' \<longleftrightarrow>
     (\<exists>i ls ps di' ess' A B. file_at f v' num i ls ps \<and> (\<forall>x \<in> set (ps @ ls). \<not> in_use f v x) \<and> sized v' i ps \<and> inodeFileSize i = int (length data) \<and> file_content f v' i ps = data \<and> i_mode i = mode \<and>
        nfree f v' + length ls + length ps = nfree f v \<and> dir_at f v' dirIno di' dls dps ess' \<and> i_mode di' = i_mode di \<and> concat ess = A @ B \<and>
        concat ess' = A @ \<lparr>de_inode = num, de_nm = base, de_fileType = 1\<rparr> # B) \<and>
     shape v' = shape v \<and> (\<forall>x. in_use f v x \<longrightarrow> in_use f v' x) \<and> (\<forall>x. in_use f v x \<and> x \<notin> meta v \<and> x \<notin> set dps \<longrightarrow> blkv f v' x = blkv f v x) \<and>
     (\<forall>k. k \<noteq> num \<and> k \<noteq> dirIno \<longrightarrow> map_of (e_dirtyInodes v') k = map_of (e_dirtyInodes v) k) \<and>
     num \<noteq> 0 \<and> \<not> ino_used f v num \<and> ino_counts f v' \<and> (\<forall>k. ino_used f v' k \<longleftrightarrow> ino_used f v k \<or> k = num) \<and>
     (synced f v \<longrightarrow> synced f v')"

lemma new_inode_mode: "i_mode (new_inode now m l) = m" by (simp add: new_inode_def)
lemma new_inode_size: "inodeFileSize (new_inode now m l) = 0" by (simp add: new_inode_def inode0_def inodeFileSize_def wrap64_def)

lemma mode_kept: "i_mode (stamped now i) = i_mode i" "i_mode (set_size n i) = i_mode i" "i_mode (set_i_block b i) = i_mode i"
  by (simp_all add: stamped_def set_size_def set_i_block_def)

lemma inode_after_mode: "inode_after now n i i' \<Longrightarrow> i_mode i' = i_mode i"
  unfolding inode_after_def by (metis mode_kept)

lemma write_all_ok:
  assumes F: "file_at f v num i [] []" and z: "inodeFileSize i = 0"
    and sz: "blocks_of v (length data) \<le> 4 * max_leaf v" "data = [] \<or> blocks_of v (length data) + 4 \<le> nfree f v"
  shows "\<exists>v' i' ls ps N. write_all now f num data (v, i) = (Inr (), (v', i')) \<and> file_at f v' num i' ls ps \<and> sized v' i' ps \<and>
    inodeFileSize i' = int (length data) \<and> file_content f v' i' ps = data \<and> i_mode i' = i_mode i \<and> vstep f v N N v' \<and> only_inode num v v' \<and> set (ps @ ls) \<subseteq> N \<and>
    nfree f v' + length ls + length ps = nfree f v"
proof (cases "data = []")
  case True
  have "vstep f v {} {} v" using file_stateD(1) [OF F [unfolded file_at_def, THEN conjunct1]] by (simp add: vstep_def)
  then show ?thesis using F z True
    by (intro exI [of _ v] exI [of _ i] exI [of _ "[]"] exI [of _ "{}"])
      (simp add: write_all_def writeFileRange_def file_content_def file_bytes_def sized_def only_inode_def)
next
  case False
  have nil: "file_bytes f v [] = []" by (simp add: file_bytes_def)
  have "0 \<le> length ([] :: u64 list) * bsz v" "blocks_of v (0 + length data) \<le> 4 * max_leaf v"
    "blocks_of v (0 + length data) \<le> length ([] :: u64 list) \<or> blocks_of v (0 + length data) + 4 \<le> length ([] :: u64 list) + nfree f v + length ([] :: u64 list)"
    using sz False by simp_all
  from writeFileRange_ok [OF F this(1) False this(2,3), of now, unfolded nil append_Nil add_0]
  obtain v' i' ls qs N where W: "writeFileRange now f num 0 data (v, i) = ((length data, None), (v', i'))" "file_at f v' num i' ls qs"
    "inode_after now (length data) i i'" "length qs = max (length ([] :: u64 list)) (blocks_of v (length data))"
    "file_bytes f v' qs = copy_into (zeros (length qs * bsz v)) 0 data"
    "vstep f v N (N \<union> set [] \<union> set []) v'" "only_inode num v v'" "set qs \<subseteq> N" "set ls \<subseteq> set [] \<union> N"
    "nfree f v' + length ls + length qs = nfree f v + length ([] :: u64 list)" by blast
  have s: "file_state f v' num i' ls qs" using W(2) by (simp add: file_at_def)
  have bs: "bsz v' = bsz v" by (rule shape_derived(1) [OF vstepD(1) [OF W(6)]])
  have b0: "0 < bsz v" by (rule geoD(6) [OF vol_okD(2) [OF file_stateD(1) [OF F [unfolded file_at_def, THEN conjunct1]]]])
  have le: "length data \<le> length qs * bsz v" using blocks_of_le [OF b0, of "length data" "length qs"] W(4) by simp
  have "length qs * bsz v < 2 ^ 36" using file_size_bound [OF s] unfolding bs .
  moreover have "(2 ^ 36 :: nat) \<le> 2 ^ 63" by (rule power_increasing) simp_all
  ultimately have "length data < 2 ^ 63" using le by linarith
  then have sz': "inodeFileSize i' = int (length data)" using inode_after_size [OF W(3)] z by simp
  have "file_content f v' i' qs = data" using le by (simp add: file_content_def sz' W(5) copy_into_def)
  moreover have "sized v' i' qs" using le bs sz' by (simp add: sized_def flip: of_nat_mult)
  moreover have "i_mode i' = i_mode i" by (rule inode_after_mode [OF W(3)])
  moreover have "write_all now f num data (v, i) = (Inr (), (v', i'))" using W(1) by (simp add: write_all_def)
  moreover have "vstep f v N N v'" using W(6) by simp
  moreover have "set (qs @ ls) \<subseteq> N" using W(8,9) by simp
  moreover have "nfree f v' + length ls + length qs = nfree f v" using W(10) by simp
  ultimately show ?thesis using W(2,7) sz' by blast
qed

lemma has_room_cong: "(\<And>x. x \<in> set ps \<Longrightarrow> blkv f v' x = blkv f v x) \<Longrightarrow> has_room f v ps nm \<Longrightarrow> has_room f v' ps nm"
  unfolding has_room_def by (metis nth_mem)

lemma createFile_ok:
  assumes P: "parent_base nm = (dir, base)" "lookupPathFollow f v dir = Inr dirIno"
    and D: "dir_at f v dirIno di dls dps ess" "ino_counts f v" "ino_used f v dirIno"
    and nm: "good_name base" "has_room f v dps base"
    and sz: "blocks_of v (length data) \<le> 4 * max_leaf v" "data = [] \<or> blocks_of v (length data) + 4 \<le> nfree f v"
    and ino: "\<exists>g < ngroups v. clear_ino f v g \<noteq> None"
  shows "\<exists>num v'. e4_createFile now f nm data perm v = (Inr (), v') \<and>
    created f v dirIno di dls dps ess base data (0x8000 OR perm_bits perm) num v'"
proof -
  have F: "file_at f v dirIno di dls dps" using D(1) by (simp add: dir_at_def)
  note t = file_stateD [OF F [unfolded file_at_def, THEN conjunct1]]
  have ri: "readInode f v dirIno = Inr di" using F by (simp add: file_at_def)
  define pg where "pg = (dirIno - 1) div es_inodesPerGroup (e_sb v)"
  have "es_inodesPerGroup (e_sb v) \<noteq> 0" using layoutD(5) [OF vol_okD(3) [OF t(1)]] by (auto simp: ipg_def)
  then have gr: "inodeBlockGroup v dirIno = Inr pg" by (simp add: inodeBlockGroup_def pg_def)
  have pr: "unat pg < ngroups v" using t(3) by (simp add: valid_ino_def pg_def)
  obtain num v1 where 1: "allocInode now f pg False v = (Inr num, v1)" "ino_alloced f v num v1"
    using allocInode_ok [OF t(1) D(2) pr, of now] ino by auto
  note a = 1(2) [unfolded ino_alloced_def]
  have sh: "shape v1 = shape v" using a by blast
  note S = shape_derived [OF sh] and M = shape_more [OF sh]
  have ne: "num \<noteq> dirIno" using a D(3) by blast
  have bl1: "blkv f v1 x = blkv f v x" if "x \<in> set (dps @ dls)" for x using file_at_ino_alloced(2) [OF F 1(2) that] .
  have D1: "dir_at f v1 dirIno di dls dps ess"
    by (rule dir_at_cong [OF D(1) file_at_ino_alloced(1) [OF F 1(2)] S(1) refl refl]) (use bl1 in simp)
  have i1: "inodes_ok v1" using file_at_ino_alloced(1) [OF F 1(2)] unfolding file_at_def file_state_def by blast
  let ?i = "new_inode now (0x8000 OR perm_bits perm) 1"
  have v1: "vol_ok f v1" "valid_ino v1 num" "bsz v1 \<le> 65536" using a t(4) valid_shape [OF sh] S(1) by auto
  obtain v2 where 2: "writeInode f num ?i v1 = (Inr (), v2)" "file_at f v2 num ?i [] []" "vstep f v1 {} {} v2" "only_inode num v1 v2" "blkv f v2 = blkv f v1"
    using new_inode_file [OF v1(1) i1 v1(2,3)] by blast
  note s2 = vstepD [OF 2(3)]
  have sh2: "shape v2 = shape v" using s2(1) sh by simp
  note S2 = shape_derived [OF sh2] and M2 = shape_more [OF sh2]
  have sz2: "blocks_of v2 (length data) \<le> 4 * max_leaf v2" "data = [] \<or> blocks_of v2 (length data) + 4 \<le> nfree f v2"
    using sz a s2(7) M2(1) S2(1) by (auto simp: blocks_of_def)
  obtain v3 i ls ps N where 3: "write_all now f num data (v2, ?i) = (Inr (), (v3, i))" "file_at f v3 num i ls ps" "sized v3 i ps"
    "inodeFileSize i = int (length data)" "file_content f v3 i ps = data" "i_mode i = i_mode ?i" "vstep f v2 N N v3" "only_inode num v2 v3" "set (ps @ ls) \<subseteq> N"
    "nfree f v3 + length ls + length ps = nfree f v2"
    using write_all_ok [OF 2(2) new_inode_size sz2] by blast
  have V13: "vstep f v1 N N v3" using vstep_trans [OF 2(3) 3(7)] by simp
  have use1: "in_use f v1 x \<longleftrightarrow> in_use f v x" for x using a by blast
  have out: "x \<notin> N" if "in_use f v x" for x using vstepD(5) [OF V13, of x] use1 that by blast
  have dN: "x \<notin> N" if "x \<in> set (dps @ dls)" for x using out [OF t(7) [OF that]] .
  have k3: "map_of (e_dirtyInodes v3) k = map_of (e_dirtyInodes v1) k" if "k \<noteq> num" for k
    using that 2(4) 3(8) by (simp add: only_inode_def)
  have F1: "file_at f v1 dirIno di dls dps" using D1 by (simp add: dir_at_def)
  have i3: "inodes_ok v3" using 3(2) unfolding file_at_def file_state_def by blast
  note fr3 = file_at_frame [OF F1 V13 dN k3 [OF ne [symmetric]] i3]
  have sh3: "shape v3 = shape v" using vstepD(1) [OF V13] sh by simp
  note S3 = shape_derived [OF sh3]
  have D3: "dir_at f v3 dirIno di dls dps ess"
    by (rule dir_at_cong [OF D1 fr3(1) _ refl refl]) (use fr3(2) S3(1) S(1) in simp_all)
  have room: "has_room f v3 dps base" by (rule has_room_cong [OF _ nm(2)]) (use fr3(2) bl1 in simp)
  obtain v4 ess' A B where 4: "e4_addDirEntry now f dirIno base num 1 v3 = (Inr (), v4)" "dir_at f v4 dirIno di dls dps ess'"
    "concat ess = A @ B" "concat ess' = A @ \<lparr>de_inode = num, de_nm = base, de_fileType = 1\<rparr> # B"
    "vstep f v3 {} (set dps) v4" "e_dirtyInodes v4 = e_dirtyInodes v3"
    using addDirEntry_ok [OF D3 nm(1) _ room, of num now 1] a by blast
  have i4: "inodes_ok v4" using 4(2) unfolding dir_at_def file_at_def file_state_def by blast
  have pN: "x \<notin> set dps" if "x \<in> set (ps @ ls)" for x using that 3(9) dN by auto
  have m4: "map_of (e_dirtyInodes v4) k = map_of (e_dirtyInodes v3) k" for k by (simp add: 4(6))
  note fr4 = file_at_frame [OF 3(2) 4(5) pN m4 i4]
  have F4: "file_at f v4 dirIno di dls dps" using 4(2) by (simp add: dir_at_def)
  obtain v5 where 5: "writeInode f dirIno (touch now di) v4 = (Inr (), v5)" "file_at f v5 dirIno (touch now di) dls dps" "vstep f v4 {} {} v5"
    "only_inode dirIno v4 v5" "blkv f v5 = blkv f v4"
    using writeInode_file [OF F4, of "touch now di"] by (auto simp: touch_def)
  have i5: "inodes_ok v5" using 5(2) unfolding file_at_def file_state_def by blast
  have m5: "map_of (e_dirtyInodes v5) num = map_of (e_dirtyInodes v4) num" using 5(4) ne by (simp add: only_inode_def)
  have F5: "file_at f v5 num i ls ps" by (rule file_at_frame(1) [OF fr4(1) 5(3) _ m5 i5]) simp_all
  have V: "vstep f v1 N (N \<union> set dps) v5" using vstep_trans [OF vstep_trans [OF V13 4(5)] 5(3)] by simp
  have sh5: "shape v5 = shape v" using vstepD(1) [OF V] sh by simp
  note S5 = shape_derived [OF sh5]
  have D5: "dir_at f v5 dirIno (touch now di) dls dps ess'"
    by (rule dir_at_cong [OF 4(2) 5(2)])
      (use shape_derived(1) [OF vstepD(1) [OF 5(3)]] 5(5) in \<open>simp_all add: touch_def inodeFileSize_def\<close>)
  have "file_bytes f v5 ps = file_bytes f v3 ps" by (rule file_bytes_cong) (use fr4(2) 5(5) in simp)
  then have c5: "file_content f v5 i ps = data" using 3(5) by (simp add: file_content_def)
  have sd5: "sized v5 i ps" using 3(3) S5(1) S3(1) by (simp add: sized_def)
  have bl5: "blkv f v5 x = blkv f v x" if "in_use f v x" "x \<notin> meta v" "x \<notin> set dps" for x
    using vstepD(8) [OF V, of x] a that out [OF that(1)] shape_meta [OF sh] by auto
  have k5: "map_of (e_dirtyInodes v5) k = map_of (e_dirtyInodes v) k" if "k \<noteq> num" "k \<noteq> dirIno" for k
    using that 5(4) m4 k3 a by (simp add: only_inode_def)
  have run: "e4_createFile now f nm data perm v = (Inr (), v5)"
    using P ri gr 1(1) 2(1) 3(1) 4(1) 5(1)
    by (simp add: e4_createFile_def followVol_def inodeVol_def bindS_def readS_def wrapS_def withInode_def Let_def)
  have new: "\<forall>x \<in> set (ps @ ls). \<not> in_use f v x" using 3(9) out by blast
  have m: "i_mode i = (0x8000 OR perm_bits perm)" "i_mode (touch now di) = i_mode di" using 3(6) new_inode_mode by (simp_all add: touch_def)
  have fr5: "nfree f v5 + length ls + length ps = nfree f v"
    using 3(10) a s2(7) vstepD(7) [OF 4(5)] vstepD(7) [OF 5(3)] by simp
  have made: "\<exists>i ls ps di' ess' A B. file_at f v5 num i ls ps \<and> (\<forall>x \<in> set (ps @ ls). \<not> in_use f v x) \<and> sized v5 i ps \<and> inodeFileSize i = int (length data) \<and>
      file_content f v5 i ps = data \<and> i_mode i = (0x8000 OR perm_bits perm) \<and> nfree f v5 + length ls + length ps = nfree f v \<and> dir_at f v5 dirIno di' dls dps ess' \<and> i_mode di' = i_mode di \<and> concat ess = A @ B \<and>
      concat ess' = A @ \<lparr>de_inode = num, de_nm = base, de_fileType = 1\<rparr> # B"
    by (intro exI conjI) (rule F5 new sd5 3(4) c5 m fr5 D5 4(3,4))+
  have rest: "synced f v \<longrightarrow> synced f v5" "\<forall>x. in_use f v x \<longrightarrow> in_use f v5 x" "ino_counts f v5" "\<forall>k. ino_used f v5 k \<longleftrightarrow> ino_used f v k \<or> k = num"
    "num \<noteq> 0" "\<not> ino_used f v num"
    using vstepD(6,11) [OF V] vstep_inodes [OF V] a by auto
  have all: "\<forall>x. in_use f v x \<and> x \<notin> meta v \<and> x \<notin> set dps \<longrightarrow> blkv f v5 x = blkv f v x"
    "\<forall>k. k \<noteq> num \<and> k \<noteq> dirIno \<longrightarrow> map_of (e_dirtyInodes v5) k = map_of (e_dirtyInodes v) k"
    using bl5 k5 by blast+
  show ?thesis unfolding created_def using made sh5 all rest run by (intro exI [of _ num] exI [of _ v5] conjI) assumption+
qed

text \<open>Every other file stays: its inode, its blocks and its bytes.\<close>

lemma created_keeps:
  assumes C: "created f v dirIno di dls dps ess base data mode num v'"
    and F: "file_at f v k i ls ps" and k: "k \<noteq> dirIno" "ino_used f v k" "set (ps @ ls) \<inter> set dps = {}"
  shows "file_at f v' k i ls ps" "file_content f v' i ps = file_content f v i ps"
proof -
  note c = C [unfolded created_def]
  have kn: "k \<noteq> num" using c k(2) by blast
  have S: "shape v' = shape v" using c by blast
  obtain i1 ls1 ps1 where n: "file_at f v' num i1 ls1 ps1" using c by blast
  note t = file_stateD [OF F [unfolded file_at_def, THEN conjunct1]] and t' = file_stateD [OF n [unfolded file_at_def, THEN conjunct1]]
  have bl: "blkv f v' x = blkv f v x" if "x \<in> set (ps @ ls)" for x using c t(7) [OF that] t(8) [OF that] k(3) that by blast
  have "file_tree f v' i ls ps" by (rule file_tree_cong [OF t(5) S]) (use bl in simp)
  moreover have "map_of (e_dirtyInodes v') k = map_of (e_dirtyInodes v) k" using c kn k(1) by blast
  then have "readInode f v' k = readInode f v k" by (rule readInode_cong [OF S])
  moreover have "in_use f v' x" if "x \<in> set (ps @ ls)" for x using c t(7) [OF that] by blast
  ultimately show "file_at f v' k i ls ps"
    using F t t'(1,2,4) shape_meta [OF S] valid_shape [OF S] unfolding file_at_def file_state_def by simp
  have "file_bytes f v' ps = file_bytes f v ps" by (rule file_bytes_cong) (use bl in simp)
  then show "file_content f v' i ps = file_content f v i ps" by (simp add: file_content_def)
qed

subsection \<open>Names in the root directory\<close>

lemma path_Split_root: "slash \<notin> set nm \<Longrightarrow> path_Split (slash # nm) = ([slash], nm)"
  using LastIndex_None [of nm slash] by (simp add: path_Split_def)

lemma lookup_root:
  assumes D: "dir_at f v inodeRoot di ls ps ess" and nm: "Clean (slash # p) = slash # nm" "plain_elem nm"
  shows "e4_lookupPath f v p = (case find (\<lambda>e. de_nm e = nm) (concat ess) of None \<Rightarrow> Inl (Err ''ext4: no such file or directory'') | Some e \<Rightarrow> Inr (de_inode e))"
proof -
  have "readInode f v inodeRoot = Inr di" "is_dir di" using D by (simp_all add: dir_at_def file_at_def)
  moreover have "Split nm slash = [nm]" using nm(2) by (intro Split_single) (simp add: plain_elem_def)
  moreover have "nm \<noteq> []" using nm(2) by (simp add: plain_elem_def)
  ultimately show ?thesis using readDir_dir_at [OF D] nm(1) by (simp add: e4_lookupPath_def split: option.split)
qed

lemma dir_not_link: "is_dir i \<Longrightarrow> \<not> is_link i"
  by (simp add: is_dir_def is_link_def modeDir_def modeLnk_def)

lemma follow_once:
  assumes "e4_lookupPath f v p = Inr num" "readInode f v num = Inr i" "\<not> is_link i"
  shows "lookupPathFollow f v p = Inr num"
  unfolding lookupPathFollow_def by (simp add: assms eval_nat_numeral)

lemma follow_root:
  assumes "dir_at f v inodeRoot di ls ps ess"
  shows "lookupPathFollow f v [slash] = Inr inodeRoot"
proof (rule follow_once)
  have "Clean [slash, slash] = [slash]" by code_simp
  then show "e4_lookupPath f v [slash] = Inr inodeRoot" by (simp add: e4_lookupPath_def)
  show "readInode f v inodeRoot = Inr di" "\<not> is_link di" using assms dir_not_link by (auto simp: dir_at_def file_at_def)
qed

lemma find_fresh: "nm \<notin> de_nm ` set (A @ B) \<Longrightarrow> find (\<lambda>e. de_nm e = nm) (A @ e # B) = (if de_nm e = nm then Some e else None)"
  by (induction A) (auto simp: find_None_iff)

lemma file_not_link: "\<not> is_link i" if "i_mode i = 0x8000 OR perm_bits perm"
proof -
  have "perm_bits perm AND 0xF000 = 0" by (simp add: perm_bits_def unsigned_and_eq and.assoc)
  then have "i_mode i AND 0xF000 = 0x8000" using that by (simp add: bit.conj_disj_distrib2)
  then show ?thesis by (simp add: is_link_def modeFmt_def modeLnk_def)
qed

text \<open>Reading a whole file.\<close>

lemma lookup_created:
  assumes C: "created f v inodeRoot di dls dps ess nm data mode num v'" and nm: "Clean (slash # p) = slash # nm" "plain_elem nm" "nm \<notin> de_nm ` set (concat ess)"
  shows "e4_lookupPath f v' p = Inr num"
proof -
  obtain di' ess' A B where e: "dir_at f v' inodeRoot di' dls dps ess'" "concat ess = A @ B"
    "concat ess' = A @ \<lparr>de_inode = num, de_nm = nm, de_fileType = 1\<rparr> # B"
    using C unfolding created_def by blast
  have "find (\<lambda>e. de_nm e = nm) (concat ess') = Some \<lparr>de_inode = num, de_nm = nm, de_fileType = 1\<rparr>"
    unfolding e(3) using find_fresh [of nm A B] nm(3) e(2) by simp
  then show ?thesis using lookup_root [OF e(1) nm(1,2)] by simp
qed


lemma readFile_content:
  assumes L: "e4_lookupPath f v p = Inr num" and F: "file_at f v num i ls ps" and S: "sized v i ps" "\<not> is_link i"
  shows "e4_ReadFile f v p = Inr (file_content f v i ps)"
proof -
  have r: "readInode f v num = Inr i" using F by (simp add: file_at_def)
  have fo: "follow_inode f v p = Inr (num, i)" using follow_once [OF L r S(2)] r by (simp add: follow_inode_def)
  have sz: "0 \<le> inodeFileSize i" using S(1) by (simp add: sized_def)
  show ?thesis
  proof (cases "inodeFileSize i = 0")
    case True
    then show ?thesis using fo by (simp add: e4_ReadFile_def readFileRange_def file_content_def copy_into_def)
  next
    case False
    define n where "n = nat (inodeFileSize i)"
    have n: "int (0 + n) \<le> inodeFileSize i" "0 < n" using False sz by (simp_all add: n_def)
    have "sub (file_content f v i ps) 0 n = file_content f v i ps" by (simp add: file_content_def n_def sub_def)
    then show ?thesis using fo sz readFileRange_content [OF F S(1) n] by (simp add: e4_ReadFile_def n_def)
  qed
qed

lemma WriteFile_new:
  assumes D: "dir_at f v inodeRoot di dls dps ess" "ino_counts f v" "ino_used f v inodeRoot"
    and nm: "Clean (slash # p) = slash # nm" "plain_elem nm" "length nm < 256" "nm \<notin> de_nm ` set (concat ess)" "has_room f v dps nm"
    and sz: "blocks_of v (length data) \<le> 4 * max_leaf v" "data = [] \<or> blocks_of v (length data) + 4 \<le> nfree f v"
    and ino: "\<exists>g < ngroups v. clear_ino f v g \<noteq> None"
  shows "\<exists>num v'. e4_WriteFile now f p data perm v = (Inr (), v') \<and> e4_ReadFile f v' p = Inr data \<and>
    created f v inodeRoot di dls dps ess nm data (0x8000 OR perm_bits perm) num v'"
proof -
  have ns: "slash \<notin> set nm" "nm \<noteq> []" using nm(2) by (simp_all add: plain_elem_def)
  have P: "parent_base p = ([slash], nm)" using nm(1) path_Split_root [OF ns(1)] by (simp add: parent_base_def)
  have G: "good_name nm" using ns(2) nm(3) by (simp add: good_name_def)
  obtain num v' where c: "e4_createFile now f p data perm v = (Inr (), v')"
    "created f v inodeRoot di dls dps ess nm data (0x8000 OR perm_bits perm) num v'"
    using createFile_ok [OF P follow_root [OF D(1)] D G nm(5) sz ino] by blast
  have "find (\<lambda>e. de_nm e = nm) (concat ess) = None" using nm(4) by (auto simp: find_None_iff)
  then have "e4_lookupPath f v p = Inl (Err ''ext4: no such file or directory'')" using lookup_root [OF D(1) nm(1,2)] by simp
  then have w: "e4_WriteFile now f p data perm v = (Inr (), v')" using c(1) by (simp add: e4_WriteFile_def lookupVol_def tryS_def readS_def)
  obtain i ls ps di' ess' A B where f: "file_at f v' num i ls ps" "sized v' i ps" "file_content f v' i ps = data" "i_mode i = 0x8000 OR perm_bits perm"
    "dir_at f v' inodeRoot di' dls dps ess'" "concat ess = A @ B" "concat ess' = A @ \<lparr>de_inode = num, de_nm = nm, de_fileType = 1\<rparr> # B"
    using c(2) unfolding created_def by blast
  have "e4_lookupPath f v' p = Inr num"
    using lookup_root [OF f(5) nm(1,2)] find_fresh [of nm A B "\<lparr>de_inode = num, de_nm = nm, de_fileType = 1\<rparr>"] nm(4) f(6,7) by simp
  then have "e4_ReadFile f v' p = Inr data" using readFile_content [OF _ f(1,2) file_not_link [OF f(4)]] f(3) by simp
  then show ?thesis using w c(2) by blast
qed

end
