(* ===== verification/Ext4Persist.thy ===== *)
theory Ext4Persist
  imports Ext4Create
begin

text \<open>
  What \<open>Unmount\<close> of an ext4 volume leaves on the image: staged inodes lie in their slots of the
  inode tables, staged blocks in their places, and opening the image again gives the same volume
  with nothing staged, on which every file and directory reads as before.
\<close>

unbundle bit_operations_syntax

subsection \<open>Writing the staged blocks\<close>

definition blk_pos :: "ext4vol \<Rightarrow> u64 \<Rightarrow> nat" where
  "blk_pos v x = nat (sec_base (e_sr v)) + unat x * bsz v"

lemma write_direct_ok:
  assumes g: "geo f v" "vblk v x" and w: "e_wa v" "e_srOffset v = sec_base (e_sr v)" and sz: "length (contents f) < 2 ^ 63" and d: "length d = bsz v"
  shows "writeBlockDirect v x d f = (Inr (), f\<lparr>contents := copy_into (contents f) (blk_pos v x) d\<rparr>)"
proof -
  note G = geoD [OF g(1)]
  have i: "blk_pos v x + bsz v \<le> length (contents f)" using block_in_image [OF g] by (simp add: blk_pos_def)
  have e: "sec_base (e_sr v) + blk_off v x = int (blk_pos v x)"
    using blk_off_valid [OF g] G(2) by (simp add: blk_pos_def del: of_nat_mult)
  have "blk_pos v x < 2 ^ 63" using i sz by linarith
  then have "int (blk_pos v x) < 2 ^ 63" by simp
  then have "wrap64 (int (blk_pos v x)) = int (blk_pos v x)" by (intro wrap64_id) simp_all
  then show ?thesis using w G(1) i d
    by (simp add: writeBlockDirect_def e WriteAt_open write_bytes_inside)
qed

lemma flush_one_block:
  assumes g: "geo f v" "vblk v x" and d: "map_of (e_dirty v) x = Some d"
  defines "f1 \<equiv> f\<lparr>contents := copy_into (contents f) (blk_pos v x) d\<rparr>" and "v1 \<equiv> v\<lparr>e_dirty := AList.delete x (e_dirty v)\<rparr>"
  shows "geo f1 v1" "vblk v y \<Longrightarrow> blkv f1 v1 y = blkv f v y" "vblk v1 = vblk v" "length (contents f1) = length (contents f)"
proof -
  have l: "length d = bsz v" by (rule geo_dirty [OF g(1) d])
  have i: "blk_pos v z + bsz v \<le> length (contents f)" if "vblk v z" for z using block_in_image [OF g(1) that] by (simp add: blk_pos_def)
  show vb: "vblk v1 = vblk v" by (simp add: v1_def vblk_def bsz_def fun_eq_iff)
  show lc: "length (contents f1) = length (contents f)" by (simp add: f1_def)
  show "geo f1 v1" using g(1) unfolding geo_def lc by (auto simp: f1_def v1_def bsz_def AList.delete_eq)
  have p: "blk_pos v1 = blk_pos v" "bsz v1 = bsz v" by (simp_all add: v1_def blk_pos_def bsz_def fun_eq_iff)
  have c: "blkv f1 v1 y = (case map_of (AList.delete x (e_dirty v)) y of Some b \<Rightarrow> b | None \<Rightarrow> sub (contents f1) (blk_pos v y) (bsz v))"
    by (simp add: blkv_def v1_def blk_pos_def bsz_def split: option.split)
  show "blkv f1 v1 y = blkv f v y" if y: "vblk v y"
  proof (cases "y = x")
    case True
    moreover have "blkv f v x = d" using d by (simp add: blkv_def)
    ultimately show ?thesis unfolding c using l i [OF g(2)] by (simp add: delete_conv' f1_def)
  next
    case False
    then have "unat x \<noteq> unat y" by (simp add: word_unat_eq_iff)
    then have "blk_pos v y + bsz v \<le> blk_pos v x \<or> blk_pos v x + length d \<le> blk_pos v y"
      using sector_gap [of "unat y" "unat x" "nat (sec_base (e_sr v))" "bsz v"] l by (simp add: blk_pos_def)
    from sub_copy_other [OF this i [OF y]] have "sub (contents f1) (blk_pos v y) (bsz v) = sub (contents f) (blk_pos v y) (bsz v)"
      by (simp add: f1_def)
    then show ?thesis unfolding c using False by (simp add: blkv_def delete_conv' blk_pos_def split: option.split)
  qed
qed

lemma flush_blocks_ok:
  assumes "geo f v" "e_wa v" "e_srOffset v = sec_base (e_sr v)" "length (contents f) < 2 ^ 63" "distinct xs"
    "\<forall>x \<in> set xs. vblk v x \<and> map_of (e_dirty v) x \<noteq> None"
  shows "\<exists>f'. flush_blocks xs (f, v) = (Inr (), (f', v\<lparr>e_dirty := fold AList.delete xs (e_dirty v)\<rparr>)) \<and>
    geo f' (v\<lparr>e_dirty := fold AList.delete xs (e_dirty v)\<rparr>) \<and> length (contents f') = length (contents f) \<and>
    (\<forall>y. vblk v y \<longrightarrow> blkv f' (v\<lparr>e_dirty := fold AList.delete xs (e_dirty v)\<rparr>) y = blkv f v y)"
  using assms
proof (induction xs arbitrary: f v)
  case (Cons x xs)
  obtain d where d: "map_of (e_dirty v) x = Some d" and vx: "vblk v x" using Cons.prems(6) by auto
  define f1 where "f1 = f\<lparr>contents := copy_into (contents f) (blk_pos v x) d\<rparr>"
  define v1 where "v1 = v\<lparr>e_dirty := AList.delete x (e_dirty v)\<rparr>"
  note F = flush_one_block [OF Cons.prems(1) vx d, folded f1_def v1_def]
  have w: "writeBlockDirect v x d f = (Inr (), f1)"
    unfolding f1_def using Cons.prems geo_dirty [OF Cons.prems(1) d] by (intro write_direct_ok [OF _ vx]) simp_all
  have e: "e_wa v1" "e_srOffset v1 = sec_base (e_sr v1)" "length (contents f1) < 2 ^ 63" using Cons.prems F(4) by (simp_all add: v1_def)
  have k: "\<forall>y \<in> set xs. vblk v1 y \<and> map_of (e_dirty v1) y \<noteq> None" using Cons.prems(5,6) F(3) by (auto simp: v1_def delete_conv')
  obtain f' where f': "flush_blocks xs (f1, v1) = (Inr (), (f', v1\<lparr>e_dirty := fold AList.delete xs (e_dirty v1)\<rparr>))"
    "geo f' (v1\<lparr>e_dirty := fold AList.delete xs (e_dirty v1)\<rparr>)" "length (contents f') = length (contents f1)"
    "\<forall>y. vblk v1 y \<longrightarrow> blkv f' (v1\<lparr>e_dirty := fold AList.delete xs (e_dirty v1)\<rparr>) y = blkv f1 v1 y"
    using Cons.IH [OF F(1) e _ k] Cons.prems(5) by auto
  have "v1\<lparr>e_dirty := fold AList.delete xs (e_dirty v1)\<rparr> = v\<lparr>e_dirty := fold AList.delete (x # xs) (e_dirty v)\<rparr>" by (simp add: v1_def)
  then show ?case using f' w d F(2,3,4) by (intro exI [of _ f']) (simp add: v1_def)
qed simp

lemma delete_all: "fst ` set ps \<subseteq> set xs \<Longrightarrow> fold AList.delete xs ps = []"
proof -
  have "fold AList.delete xs ps = filter (\<lambda>p. fst p \<notin> set xs) ps"
    by (induction xs arbitrary: ps) (auto simp: AList.delete_eq intro!: filter_cong)
  then show "fst ` set ps \<subseteq> set xs \<Longrightarrow> ?thesis" by (auto simp: filter_empty_conv)
qed

lemma flush_all_blocks:
  assumes "geo f v" "e_wa v" "e_srOffset v = sec_base (e_sr v)" "length (contents f) < 2 ^ 63" "\<And>p. p \<in> set (e_dirty v) \<Longrightarrow> vblk v (fst p)"
  shows "\<exists>f'. flush_blocks (dirty_keys v) (f, v) = (Inr (), (f', v\<lparr>e_dirty := []\<rparr>)) \<and> geo f' (v\<lparr>e_dirty := []\<rparr>) \<and>
    length (contents f') = length (contents f) \<and> (\<forall>y. vblk v y \<longrightarrow> blkv f' (v\<lparr>e_dirty := []\<rparr>) y = blkv f v y)"
proof -
  have s: "set (dirty_keys v) = fst ` set (e_dirty v)" "distinct (dirty_keys v)" by (simp_all add: dirty_keys_def)
  have "\<forall>x \<in> set (dirty_keys v). vblk v x \<and> map_of (e_dirty v) x \<noteq> None"
    using assms(5) unfolding s(1) by (auto simp: map_of_eq_None_iff image_iff)
  from flush_blocks_ok [OF assms(1-4) s(2) this] show ?thesis using delete_all [of "e_dirty v" "dirty_keys v"] s(1) by simp
qed

subsection \<open>Inode tables\<close>

definition tab0 :: "ext4vol \<Rightarrow> nat \<Rightarrow> u64" where
  "tab0 v g = join_hi (gd_inodeTableLo (e_groups v ! g)) (gd_inodeTableHi (e_groups v ! g))"

definition tab_span :: "ext4vol \<Rightarrow> nat \<Rightarrow> u64 set" where
  "tab_span v g = (\<lambda>j. tab0 v g + of_nat j) ` {..<ipg v div 16}"

definition tabs :: "ext4vol \<Rightarrow> u64 set" where
  "tabs v = (\<Union>g < ngroups v. tab_span v g)"

text \<open>Inode tables as the formatter lays them out: 16 inodes of 256 bytes in a block of 4096.\<close>

definition tables_at :: "ext4vol \<Rightarrow> bool" where
  "tables_at v \<longleftrightarrow> bsz v = 4096 \<and> isz v = 256 \<and> 16 dvd ipg v \<and> (\<forall>g < ngroups v. unat (tab0 v g) + ipg v div 16 < 2 ^ 63) \<and>
     (\<forall>x \<in> tabs v. vblk v x \<and> x \<notin> meta v) \<and> (\<forall>g < ngroups v. \<forall>h < ngroups v. g \<noteq> h \<longrightarrow> tab_span v g \<inter> tab_span v h = {})"

text \<open>The tables are in use, and what is staged of them is what is on the image.\<close>

definition tables_ok :: "gofile \<Rightarrow> ext4vol \<Rightarrow> bool" where
  "tables_ok f v \<longleftrightarrow> tables_at v \<and> (\<forall>x \<in> tabs v. in_use f v x \<and> blkv f v x = sub (contents f) (blk_pos v x) (bsz v))"

lemma tables_atD:
  assumes "tables_at v"
  shows "bsz v = 4096" "isz v = 256" "16 dvd ipg v" "g < ngroups v \<Longrightarrow> unat (tab0 v g) + ipg v div 16 < 2 ^ 63"
    "x \<in> tabs v \<Longrightarrow> vblk v x" "x \<in> tabs v \<Longrightarrow> x \<notin> meta v" "g < ngroups v \<Longrightarrow> h < ngroups v \<Longrightarrow> g \<noteq> h \<Longrightarrow> tab_span v g \<inter> tab_span v h = {}"
  using assms by (simp_all add: tables_at_def)

lemma shape_tables:
  assumes "shape v' = shape v"
  shows "g < ngroups v \<Longrightarrow> tab0 v' g = tab0 v g" "tabs v' = tabs v" "tables_at v' \<longleftrightarrow> tables_at v"
proof -
  note D = shape_derived [OF assms] and F = shape_fields [OF assms] and M = shape_meta [OF assms]
  show t: "tab0 v' g = tab0 v g" if "g < ngroups v" for g
  proof -
    have "gd_static (e_groups v' ! g) = gd_static (e_groups v ! g)" using that F(5,6) by (metis ngroups_def nth_map)
    from gd_static_fields(3,4) [OF this] show ?thesis by (simp add: tab0_def)
  qed
  have s: "tab_span v' g = tab_span v g" if "g < ngroups v" for g using t [OF that] D(5) by (simp add: tab_span_def)
  show T: "tabs v' = tabs v" using s by (simp add: tabs_def F(5))
  show "tables_at v' \<longleftrightarrow> tables_at v" unfolding tables_at_def T M D(1,2,3,5) F(5) using t s by simp
qed

text \<open>Where an inode lies.\<close>

definition ino_group :: "ext4vol \<Rightarrow> u32 \<Rightarrow> nat" where
  "ino_group v k = unat ((k - 1) div es_inodesPerGroup (e_sb v))"

definition ino_index :: "ext4vol \<Rightarrow> u32 \<Rightarrow> nat" where
  "ino_index v k = unat ((k - 1) mod es_inodesPerGroup (e_sb v))"

definition ino_blk :: "ext4vol \<Rightarrow> u32 \<Rightarrow> u64" where
  "ino_blk v k = tab0 v (ino_group v k) + of_nat (ino_index v k div 16)"

definition ino_pos :: "ext4vol \<Rightarrow> u32 \<Rightarrow> nat" where
  "ino_pos v k = (ino_index v k mod 16) * 256"

definition slot :: "gofile \<Rightarrow> ext4vol \<Rightarrow> u32 \<Rightarrow> bytes" where
  "slot f v k = sub (blkv f v (ino_blk v k)) (ino_pos v k) 256"

lemma shape_ino:
  assumes "shape v' = shape v" "valid_ino v k"
  shows "ino_blk v' k = ino_blk v k" "ino_pos v' k = ino_pos v k"
proof -
  have e: "es_inodesPerGroup (e_sb v') = es_inodesPerGroup (e_sb v)" by (rule sb_static_fields(3) [OF shape_fields(4) [OF assms(1)]])
  have "ino_group v k < ngroups v" using assms(2) by (simp add: valid_ino_def ino_group_def)
  then show "ino_blk v' k = ino_blk v k" "ino_pos v' k = ino_pos v k"
    using shape_tables(1) [OF assms(1)] by (simp_all add: ino_blk_def ino_pos_def ino_group_def ino_index_def e)
qed

lemma ino_place:
  assumes T: "tables_at v" and L: "layout_ok v" and k: "valid_ino v k"
  shows "ino_group v k < ngroups v" "ino_index v k < ipg v" "ino_index v k div 16 < ipg v div 16" "ino_pos v k + 256 \<le> 4096"
    "ino_blk v k \<in> tabs v" "ino_blk v k \<in> tab_span v (ino_group v k)" "unat (k - 1) = ino_group v k * ipg v + ino_index v k"
proof -
  show g: "ino_group v k < ngroups v" using k by (simp add: valid_ino_def ino_group_def)
  have p: "0 < ipg v" by (rule layoutD(5) [OF L])
  show i: "ino_index v k < ipg v" using p by (simp add: ino_index_def unat_mod ipg_def)
  show d: "ino_index v k div 16 < ipg v div 16" using i tables_atD(3) [OF T] by (auto elim!: dvdE simp: div_less_iff_less_mult)
  have "ino_index v k mod 16 \<le> 15" using less_Suc_eq_le [of "ino_index v k mod 16" 15] by simp
  then show "ino_pos v k + 256 \<le> 4096" by (simp add: ino_pos_def)
  show s: "ino_blk v k \<in> tab_span v (ino_group v k)" using d by (simp add: ino_blk_def tab_span_def)
  then show "ino_blk v k \<in> tabs v" using g by (auto simp: tabs_def)
  show "unat (k - 1) = ino_group v k * ipg v + ino_index v k" by (simp add: ino_group_def ino_index_def ipg_def unat_div unat_mod)
qed

lemma slots_disjoint:
  assumes T: "tables_at v" and L: "layout_ok v" and k: "valid_ino v k" "valid_ino v k'" "k \<noteq> k'" "ino_blk v k = ino_blk v k'"
  shows "ino_pos v k + 256 \<le> ino_pos v k' \<or> ino_pos v k' + 256 \<le> ino_pos v k"
proof -
  note a = ino_place [OF T L k(1)] and b = ino_place [OF T L k(2)]
  have g: "ino_group v k = ino_group v k'" using tables_atD(7) [OF T a(1) b(1)] a(6) b(6) k(4) by auto
  have w: "of_nat (ino_index v k div 16) = (of_nat (ino_index v k' div 16) :: u64)" using k(4) by (simp add: ino_blk_def g)
  have s: "ino_index v j div 16 < 2 ^ 64" if "valid_ino v j" for j
    using ino_place(3) [OF T L that] tables_atD(4) [OF T a(1)] by simp
  have q: "ino_index v k div 16 = ino_index v k' div 16"
    using arg_cong [OF w, of unat] unat_of_nat64 [OF s [OF k(1)]] unat_of_nat64 [OF s [OF k(2)]] by simp
  have "ino_index v k \<noteq> ino_index v k'"
  proof
    assume "ino_index v k = ino_index v k'"
    then have "unat (k - 1) = unat (k' - 1)" using a(7) b(7) g by simp
    then have "k - 1 = k' - 1" by (simp add: word_unat_eq_iff)
    then show False using k(3) by simp
  qed
  then have "ino_index v k mod 16 \<noteq> ino_index v k' mod 16" using q by (metis div_mult_mod_eq)
  then show ?thesis unfolding ino_pos_def using sector_gap [of "ino_index v k mod 16" "ino_index v k' mod 16" 0 256] by simp
qed

text \<open>Reading an inode reads its slot, unless it is staged.\<close>

lemma readRaw_slot_of:
  assumes A: "tables_at v" and g: "geo f v" "layout_ok v" and k: "valid_ino v k"
    and b: "blkv f v (ino_blk v k) = sub (contents f) (blk_pos v (ino_blk v k)) (bsz v)"
  shows "readRawInode f v k = Inr (case map_of (e_dirtyInodes v) k of Some raw \<Rightarrow> raw | None \<Rightarrow> slot f v k)"
proof (cases "map_of (e_dirtyInodes v) k")
  case (Some raw)
  then show ?thesis by (simp add: readRawInode_def)
next
  case None
  note t = tables_atD [OF A] and p = ino_place [OF A g(2) k] and G = geoD [OF g(1)]
  define gr where "gr = (k - 1) div es_inodesPerGroup (e_sb v)"
  have ne: "es_inodesPerGroup (e_sb v) \<noteq> 0" using layoutD(5) [OF g(2)] by (auto simp: ipg_def)
  then have e: "inodeBlockGroup v k = Inr gr" "inodeLocalIndex v k = Inr ((k - 1) mod es_inodesPerGroup (e_sb v))"
    by (simp_all add: inodeBlockGroup_def inodeLocalIndex_def gr_def)
  have tb: "inodeTableBlock v gr = Inr (tab0 v (ino_group v k))"
    using p(1) by (simp add: inodeTableBlock_def group_at_def ngroups_def ino_group_def gr_def tab0_def)
  define i where "i = ino_index v k"
  define q where "q = ipg v div 16"
  have q: "0 < q" "i div 16 < q" using p(3) by (simp_all add: q_def i_def)
  have "tab0 v (ino_group v k) \<in> tab_span v (ino_group v k)" using q(1) by (auto simp: tab_span_def q_def intro!: image_eqI [of _ _ 0])
  then have v0: "vblk v (tab0 v (ino_group v k))" using t(5) p(1) by (auto simp: tabs_def)
  have bound: "unat (tab0 v (ino_group v k)) + q < 2 ^ 63" using t(4) [OF p(1)] by (simp add: q_def)
  have ub: "unat (ino_blk v k) = unat (tab0 v (ino_group v k)) + i div 16"
  proof -
    have "unat (tab0 v (ino_group v k)) + i div 16 < 2 ^ 64" using bound q(2) by simp
    moreover have "ino_blk v k = of_nat (unat (tab0 v (ino_group v k)) + i div 16)" by (simp add: ino_blk_def i_def)
    ultimately show ?thesis using unat_of_nat64 by metis
  qed
  have off: "unat (tab0 v (ino_group v k)) * 4096 + i * 256 = unat (ino_blk v k) * 4096 + ino_pos v k"
  proof -
    have "t * 4096 + n * 256 = (t + a) * 4096 + b * 256" if "a * 16 + b = n" for t a b n :: nat using that by simp
    from this [OF div_mult_mod_eq] show ?thesis unfolding ub ino_pos_def i_def [symmetric] .
  qed
  have vb: "vblk v (ino_blk v k)" by (rule t(5) [OF p(5)])
  then have in_sec: "int (unat (ino_blk v k) * 4096 + 4096) \<le> sec_size (e_sr v)" by (simp add: vblk_def t(1))
  define off where "off = unat (ino_blk v k) * 4096 + ino_pos v k"
  have o1: "blk_off v (tab0 v (ino_group v k)) + int i * 256 = int off"
    unfolding blk_off_valid [OF g(1) v0] t(1) off_def off [symmetric] by simp
  have le: "int (off + 256) \<le> sec_size (e_sr v)" using in_sec p(4) by (simp add: off_def)
  have "wrap64 (int off) = int off" by (rule wrap64_id) (use le G(4) in linarith)+
  moreover have "SecReadAt f (e_sr v) 256 (int off) = (sub (contents f) (nat (sec_base (e_sr v) + int off)) 256, None)"
    using G le by (intro SecReadAt_inside) (simp_all add: nat_le_iff)
  moreover have "nat (sec_base (e_sr v) + int off) = blk_pos v (ino_blk v k) + ino_pos v k"
    using G(2) by (simp add: off_def blk_pos_def t(1) nat_add_distrib del: of_nat_add of_nat_mult)
  moreover have "sub (contents f) (blk_pos v (ino_blk v k) + ino_pos v k) 256 = slot f v k"
    unfolding slot_def b t(1) using p(4) by (simp add: sub_sub)
  moreover have "length (slot f v k) = 256" unfolding slot_def using p(4) length_blkv [OF g(1) vb] t(1) by simp
  moreover have "uint ((k - 1) mod es_inodesPerGroup (e_sb v)) = int i" by (simp add: i_def ino_index_def)
  ultimately show ?thesis using None e tb o1 t(2) by (simp add: readRawInode_def full_def wrapR_def)
qed

lemma readRaw_slot:
  assumes T: "tables_ok f v" and g: "geo f v" "layout_ok v" and k: "valid_ino v k"
  shows "readRawInode f v k = Inr (case map_of (e_dirtyInodes v) k of Some raw \<Rightarrow> raw | None \<Rightarrow> slot f v k)"
  using T ino_place(5) [OF _ g(2) k] by (intro readRaw_slot_of [OF _ g k]) (simp_all add: tables_ok_def)

subsection \<open>Writing the staged inodes\<close>

text \<open>Two volumes that differ in the staged blocks of the inode tables only.\<close>

definition tabs_step :: "gofile \<Rightarrow> ext4vol \<Rightarrow> ext4vol \<Rightarrow> bool" where
  "tabs_step f v v' \<longleftrightarrow> geo f v' \<and> v' = v\<lparr>e_dirty := e_dirty v'\<rparr> \<and> (\<forall>x. x \<notin> tabs v \<longrightarrow> blkv f v' x = blkv f v x) \<and> (synced f v \<longrightarrow> synced f v')"

lemma tabs_stepD:
  assumes "tabs_step f v v'"
  shows "geo f v'" "e_sr v' = e_sr v" "e_sb v' = e_sb v" "e_groups v' = e_groups v" "e_dirtyInodes v' = e_dirtyInodes v" "e_wa v' = e_wa v"
    "e_srOffset v' = e_srOffset v" "shape v' = shape v" "x \<notin> tabs v \<Longrightarrow> blkv f v' x = blkv f v x" "synced f v \<Longrightarrow> synced f v'"
    "v'\<lparr>e_dirty := d, e_dirtyInodes := is\<rparr> = v\<lparr>e_dirty := d, e_dirtyInodes := is\<rparr>"
proof -
  have e: "v' = v\<lparr>e_dirty := e_dirty v'\<rparr>" using assms by (simp add: tabs_step_def)
  show "e_sr v' = e_sr v" "e_sb v' = e_sb v" "e_groups v' = e_groups v" "e_dirtyInodes v' = e_dirtyInodes v" "e_wa v' = e_wa v"
    "e_srOffset v' = e_srOffset v" "v'\<lparr>e_dirty := d, e_dirtyInodes := is\<rparr> = v\<lparr>e_dirty := d, e_dirtyInodes := is\<rparr>"
    by (subst e, simp)+
  then show "shape v' = shape v" by (simp add: shape_def)
qed (use assms in \<open>simp_all add: tabs_step_def\<close>)

lemma flushInode_ok:
  assumes g: "geo f v" "layout_ok v" "tables_at v" and k: "valid_ino v k" "length raw = 256"
  shows "\<exists>v'. flushInode f (k, raw) v = (Inr (), v') \<and> tabs_step f v v' \<and> slot f v' k = raw \<and>
    (\<forall>j. valid_ino v j \<and> j \<noteq> k \<longrightarrow> slot f v' j = slot f v j)"
proof -
  note t = tables_atD [OF g(3)] and p = ino_place [OF g(3,2) k(1)]
  define x where "x = ino_blk v k"
  define b where "b = blkv f v x"
  define v' where "v' = writeBlock x (copy_into b (ino_pos v k) raw) v"
  have vb: "vblk v x" unfolding x_def by (rule t(5) [OF p(5)])
  have lb: "length b = 4096" using length_blkv [OF g(1) vb] t(1) by (simp add: b_def)
  have ne: "es_inodesPerGroup (e_sb v) \<noteq> 0" using layoutD(5) [OF g(2)] by (auto simp: ipg_def)
  then have e: "inodeBlockGroup v k = Inr ((k - 1) div es_inodesPerGroup (e_sb v))" "inodeLocalIndex v k = Inr ((k - 1) mod es_inodesPerGroup (e_sb v))"
    by (simp_all add: inodeBlockGroup_def inodeLocalIndex_def)
  have tb: "inodeTableBlock v ((k - 1) div es_inodesPerGroup (e_sb v)) = Inr (tab0 v (ino_group v k))"
    using p(1) by (simp add: inodeTableBlock_def group_at_def ngroups_def ino_group_def tab0_def)
  have ar: "n * 256 div 4096 = n div 16" "n * 256 mod 4096 = (n mod 16) * 256" for n :: nat
    using div_mult2_eq [of "n * 256" 256 16] mult_mod_left [of n 16 256] by simp_all
  have xb: "tab0 v (ino_group v k) + of_nat (ino_index v k * 256 div 4096) = x" "ino_index v k * 256 mod 4096 = ino_pos v k"
    unfolding ar by (simp_all add: x_def ino_blk_def ino_pos_def)
  have run: "flushInode f (k, raw) v = (Inr (), v')"
    using e tb readBlock_blkv [OF g(1) vb] lb p(4) xb k(2)
    by (simp add: flushInode_def updS_def t(1,2) ino_index_def [symmetric] b_def v'_def)
  have lc: "length (copy_into b (ino_pos v k) raw) = bsz v" by (simp add: lb t(1))
  have bl: "blkv f v' y = (if y = x then copy_into b (ino_pos v k) raw else blkv f v y)" for y
    unfolding v'_def by (rule blkv_writeBlock [OF lc])
  have xt: "x \<in> tabs v" using p(5) by (simp add: x_def)
  then have xm: "x \<noteq> sb_blk v" "x \<notin> gdt_blk v ` {..<ngroups v}" using t(6) meta_in(1,2) by blast+
  have "v' = v\<lparr>e_dirty := e_dirty v'\<rparr>" by (simp add: v'_def writeBlock_def)
  then have st: "tabs_step f v v'"
    using geo_writeBlock [OF g(1)] xt synced_write [OF _ vb lc xm] by (auto simp: tabs_step_def bl) (simp_all add: v'_def)
  have sh: "shape v' = shape v" by (rule tabs_stepD(8) [OF st])
  have "slot f v' k = raw"
    unfolding slot_def shape_ino [OF sh k(1)] bl x_def [symmetric] using p(4) lb k(2) by simp
  moreover have "slot f v' j = slot f v j" if j: "valid_ino v j" "j \<noteq> k" for j
  proof (cases "ino_blk v j = x")
    case True
    note q = ino_place(4) [OF g(3,2) j(1)] and d = slots_disjoint [OF g(3,2) j(1) k(1) j(2)]
    show ?thesis unfolding slot_def shape_ino [OF sh j(1)] bl True
      using d True q lb k(2) by (simp add: x_def b_def sub_copy_other)
  next
    case False
    then show ?thesis unfolding slot_def shape_ino [OF sh j(1)] bl by simp
  qed
  ultimately show ?thesis using run st by blast
qed

lemma tabs_step_trans:
  assumes "tabs_step f v v1" "tabs_step f v1 v2"
  shows "tabs_step f v v2"
proof -
  note a = tabs_stepD [OF assms(1)] and b = tabs_stepD [OF assms(2)]
  have e: "v1 = v\<lparr>e_dirty := e_dirty v1\<rparr>" "v2 = v1\<lparr>e_dirty := e_dirty v2\<rparr>" using assms by (simp_all add: tabs_step_def)
  have "v1\<lparr>e_dirty := d\<rparr> = v\<lparr>e_dirty := d\<rparr>" for d by (subst e(1)) simp
  then have "v2 = v\<lparr>e_dirty := e_dirty v2\<rparr>" using e(2) by simp
  then show ?thesis using a(9,10) b(1,9,10) shape_tables(2) [OF a(8)] by (simp add: tabs_step_def)
qed

lemma flush_inodes_ok:
  assumes "geo f v" "layout_ok v" "tables_at v" "distinct (map fst xs)" "\<forall>(k, raw) \<in> set xs. valid_ino v k \<and> length raw = 256"
  shows "\<exists>v'. for_each (flushInode f) xs v = (Inr (), v') \<and> tabs_step f v v' \<and>
    (\<forall>k. valid_ino v k \<longrightarrow> slot f v' k = (case map_of xs k of Some raw \<Rightarrow> raw | None \<Rightarrow> slot f v k))"
  using assms
proof (induction xs arbitrary: v)
  case Nil
  have "tabs_step f v v" using Nil by (simp add: tabs_step_def)
  then show ?case by (simp add: retS_def)
next
  case (Cons p xs)
  obtain k raw where p: "p = (k, raw)" by (cases p)
  have k: "valid_ino v k" "length raw = 256" using Cons.prems(5) by (auto simp: p)
  obtain v1 where 1: "flushInode f (k, raw) v = (Inr (), v1)" "tabs_step f v v1" "slot f v1 k = raw" "\<forall>j. valid_ino v j \<and> j \<noteq> k \<longrightarrow> slot f v1 j = slot f v j"
    using flushInode_ok [OF Cons.prems(1-3) k] by blast
  note s = tabs_stepD [OF 1(2)]
  have V: "valid_ino v1 = valid_ino v" by (rule valid_shape [OF s(8)])
  have l: "layout_ok v1" "tables_at v1" using Cons.prems(2,3) shape_layout [OF s(8)] shape_tables(3) [OF s(8)] by simp_all
  obtain v2 where 2: "for_each (flushInode f) xs v1 = (Inr (), v2)" "tabs_step f v1 v2"
    "\<forall>j. valid_ino v1 j \<longrightarrow> slot f v2 j = (case map_of xs j of Some raw \<Rightarrow> raw | None \<Rightarrow> slot f v1 j)"
    using Cons.IH [OF s(1) l] Cons.prems(4,5) by (auto simp: V)
  have nk: "map_of xs k = None" using Cons.prems(4) by (simp add: p map_of_eq_None_iff image_iff)
  have "for_each (flushInode f) (p # xs) v = (Inr (), v2)" using 1(1) 2(1) by (simp add: p bindS_def)
  moreover have "slot f v2 j = (case map_of (p # xs) j of Some raw \<Rightarrow> raw | None \<Rightarrow> slot f v j)" if j: "valid_ino v j" for j
    using 2(3) 1(3,4) j nk by (cases "j = k") (auto simp: V p split: option.splits)
  ultimately show ?case using tabs_step_trans [OF 1(2) 2(2)] by blast
qed

subsection \<open>Unmounting and opening again\<close>

definition at_rest :: "ext4vol \<Rightarrow> ext4vol" where
  "at_rest v = v\<lparr>e_dirty := [], e_dirtyInodes := []\<rparr>"

lemma at_rest_simps [simp]:
  "e_sr (at_rest v) = e_sr v" "e_sb (at_rest v) = e_sb v" "e_groups (at_rest v) = e_groups v" "e_wa (at_rest v) = e_wa v"
  "e_srOffset (at_rest v) = e_srOffset v" "e_dirty (at_rest v) = []" "e_dirtyInodes (at_rest v) = []" "bsz (at_rest v) = bsz v"
  "vblk (at_rest v) = vblk v" "shape (at_rest v) = shape v" "blk_pos (at_rest v) = blk_pos v"
  by (simp_all add: at_rest_def bsz_def vblk_def shape_def blk_pos_def fun_eq_iff)

definition can_unmount :: "gofile \<Rightarrow> ext4vol \<Rightarrow> bool" where
  "can_unmount f v \<longleftrightarrow> vol_ok f v \<and> inodes_ok v \<and> synced f v \<and> tables_ok f v \<and> e_wa v \<and> e_srOffset v = sec_base (e_sr v) \<and>
     length (contents f) < 2 ^ 63 \<and> (\<forall>k raw. map_of (e_dirtyInodes v) k = Some raw \<longrightarrow> valid_ino v k)"

lemma can_unmountD:
  assumes "can_unmount f v"
  shows "vol_ok f v" "inodes_ok v" "synced f v" "tables_ok f v" "e_wa v" "e_srOffset v = sec_base (e_sr v)" "length (contents f) < 2 ^ 63"
    "map_of (e_dirtyInodes v) k = Some raw \<Longrightarrow> valid_ino v k" "tables_at v" "isz v = 256" "bsz v = 4096" "geo f v" "layout_ok v"
proof -
  show c: "vol_ok f v" "tables_ok f v" using assms by (simp_all add: can_unmount_def)
  show t: "tables_at v" using c(2) by (simp add: tables_ok_def)
  show "isz v = 256" "bsz v = 4096" by (rule tables_atD [OF t])+
  show "geo f v" "layout_ok v" by (rule vol_okD [OF c(1)])+
qed (use assms in \<open>simp_all add: can_unmount_def\<close>)

lemma disk_block_sub:
  assumes "geo f v" "e_dirty v = []" "o' + n \<le> bsz v" "vblk v x"
  shows "sub (contents f) (blk_pos v x + o') n = sub (blkv f v x) o' n"
  using assms by (simp add: blkv_def blk_pos_def sub_sub)

lemma sec_read:
  assumes g: "geo f v" and le: "int (off + n) \<le> sec_size (e_sr v)" and n: "0 < n"
  shows "full (SecReadAt f (e_sr v) n (int off)) = Inr (sub (contents f) (nat (sec_base (e_sr v)) + off) n)"
proof -
  note G = geoD [OF g]
  have "SecReadAt f (e_sr v) n (int off) = (sub (contents f) (nat (sec_base (e_sr v) + int off)) n, None)"
    using G le n by (intro SecReadAt_inside) (simp_all add: nat_le_iff)
  moreover have "nat (sec_base (e_sr v) + int off) = nat (sec_base (e_sr v)) + off" using G(2) by (simp add: nat_add_distrib)
  ultimately show ?thesis by (simp add: full_def)
qed

text \<open>Opening an image that holds the superblock and the descriptors of a volume gives the volume.\<close>

lemma open_ok:
  assumes g: "geo f v" and L: "layout_ok v" and d: "e_dirty v = []" "e_dirtyInodes v = []" and S: "synced f v"
    and w: "e_wa v" "e_srOffset v = sec_base (e_sr v)" and sz: "length (contents f) < 2 ^ 63"
  shows "e4_Open f (sec_base (e_sr v)) (sec_size (e_sr v)) = Inr v"
proof -
  note G = geoD [OF g] and s = syncedD [OF S]
  have sr: "NewSectionReader (sec_base (e_sr v)) (sec_size (e_sr v)) = e_sr v"
    using G sz by (simp add: NewSectionReader_def sec_size_def)
  have v0: "vblk v 0" using layoutD(7) [OF L meta_in(1)] s(11) by simp
  have big: "4096 \<le> sec_size (e_sr v)" using v0 by (simp add: vblk_def s(1))
  define b where "b = sub (blkv f v 0) 1024 1024"
  have rb: "full (SecReadAt f (e_sr v) 1024 1024) = Inr b"
    using sec_read [OF g, of 1024 1024] disk_block_sub [OF g d(1) _ v0, of 1024 1024] big by (simp add: s(1) b_def blk_pos_def)
  have pb: "parseSuperblock b = e_sb v" using s(7) by (simp add: b_def)
  have m: "get16 b 56 = es_magic (parseSuperblock b)" "get32 b 32 = es_blocksPerGroup (parseSuperblock b)" by (simp_all add: parseSuperblock_def Let_def)
  have "es_blocksPerGroup (e_sb v) \<noteq> 0" using layoutD(3) [OF L] by (auto simp: bpg_def)
  then have sb: "readSuperblock f (e_sr v) = Inr (e_sb v)"
    using rb pb m s(5) by (simp add: readSuperblock_def sbOffset_def wrapR_def)
  define n where "n = ngroups v"
  have n0: "0 < n" using layoutD(1) [OF L] by (simp add: n_def)
  have last: "n * 64 + 4096 \<le> (unat (gdt_blk v (n - 1)) + 1) * 4096"
  proof -
    have gl: "n - 1 < ngroups v" using n0 by (simp add: n_def)
    note sl = synced_slots [OF S L gl]
    have e: "q * 4096 + r = (n - 1) * 64 \<Longrightarrow> r + 64 \<le> 4096 \<Longrightarrow> n * 64 + 4096 \<le> (1 + q + 1) * 4096" for q r using n0 by simp
    show ?thesis unfolding sl(1) by (rule e [OF div_mult_mod_eq]) (use sl(2,3) in simp)
  qed
  have vl: "vblk v (gdt_blk v (n - 1))" using layoutD(7) [OF L meta_in(2)] n0 by (simp add: n_def)
  then have fits: "int (4096 + n * 64) \<le> sec_size (e_sr v)" using last unfolding vblk_def s(1) by linarith
  define c where "c = sub (contents f) (nat (sec_base (e_sr v)) + 4096) (n * 64)"
  have rc: "full (SecReadAt f (e_sr v) (n * 64) 4096) = Inr c"
    using sec_read [OF g fits] n0 by (simp add: c_def)
  have lc: "length c = n * 64"
  proof -
    have "nat (sec_base (e_sr v)) + 4096 + n * 64 \<le> length (contents f)" using fits G(2,3) by (simp add: sec_size_def)
    then show ?thesis by (simp add: c_def)
  qed
  have ent: "k * 64 + 64 \<le> length c \<and> sub c (k * 64) 64 = sub (blkv f v (gdt_blk v k)) (gdt_pos v (of_nat k)) 64" if k: "k \<in> set [0..<n]" for k
  proof -
    have kn: "k < ngroups v" using k by (simp add: n_def)
    note sl = synced_slots [OF S L kn]
    have le: "k * 64 + 64 \<le> n * 64" using k by simp
    have pos: "nat (sec_base (e_sr v)) + 4096 + k * 64 = blk_pos v (gdt_blk v k) + gdt_pos v (of_nat k)"
    proof -
      have "q * 4096 + r = k * 64 \<Longrightarrow> nat (sec_base (e_sr v)) + 4096 + k * 64 = nat (sec_base (e_sr v)) + (1 + q) * 4096 + r" for q r by simp
      from this [OF div_mult_mod_eq] show ?thesis by (simp only: blk_pos_def s(1) sl(1,2))
    qed
    have "sub c (k * 64) 64 = sub (contents f) (nat (sec_base (e_sr v)) + 4096 + k * 64) 64" unfolding c_def by (rule sub_sub [OF le])
    also have "\<dots> = sub (blkv f v (gdt_blk v k)) (gdt_pos v (of_nat k)) 64"
      unfolding pos using sl(3) s(1) by (intro disk_block_sub [OF g d(1) _ layoutD(7) [OF L meta_in(2) [OF kn]]]) simp
    finally show ?thesis using le lc by simp
  qed
  have "map (\<lambda>k. parseGroupDesc 64 (sub (blkv f v (gdt_blk v k)) (gdt_pos v (of_nat k)) 64)) [0..<n] = e_groups v"
    using s(8) by (intro nth_equalityI) (simp_all add: n_def ngroups_def staged_gd_def)
  then have pg: "parse_groups 64 c [0..<n] = Inr (e_groups v)" using parse_groups_all [of "[0..<n]" c, OF ent] by simp
  have off: "gdtOff (e_sb v) = 4096" using bsz_uint [of v] by (simp add: gdtOff_def s(1,3) wrap64_def)
  have gs: "readGroupDescriptors f (e_sr v) (e_sb v) = Inr (e_groups v)"
    using rc pg by (simp add: readGroupDescriptors_def Let_def off s(2,4) n_def [symmetric] wrapR_def)
  show ?thesis using sb gs d w by (simp add: e4_Open_def Let_def sr)
qed

lemma unmount_open:
  assumes C: "can_unmount f v" and ord: "map_order ord"
  obtains f' where "e4_Unmount ord f v = (Inr (), (f', at_rest v))" "e4_Open f' (sec_base (e_sr v)) (sec_size (e_sr v)) = Inr (at_rest v)"
    "geo f' (at_rest v)" "length (contents f') = length (contents f)"
    "\<forall>x. vblk v x \<and> x \<notin> tabs v \<longrightarrow> blkv f' (at_rest v) x = blkv f v x"
    "\<forall>k. valid_ino v k \<longrightarrow> readInode f' (at_rest v) k = readInode f v k"
    "synced f' (at_rest v)" "\<forall>x \<in> tabs v. blkv f' (at_rest v) x = sub (contents f') (blk_pos v x) (bsz v)"
proof -
  note c = can_unmountD [OF C]
  note t = tables_atD [OF c(9)]
  have dist: "distinct (map fst (ord (e_dirtyInodes v)))" by (rule map_order_distinct [OF ord syncedD(10) [OF c(3)]])
  have st: "set (ord (e_dirtyInodes v)) = set (e_dirtyInodes v)" by (rule map_order_set [OF ord])
  have mo: "map_of (ord (e_dirtyInodes v)) = map_of (e_dirtyInodes v)"
    using dist syncedD(10) [OF c(3)] st by (intro map_of_eqI) (metis set_map, metis map_of_is_SomeI option.exhaust map_of_SomeD map_of_eq_None_iff set_map)
  have ok: "\<forall>(k, raw) \<in> set (ord (e_dirtyInodes v)). valid_ino v k \<and> length raw = 256"
  proof clarify
    fix k raw assume "(k, raw) \<in> set (ord (e_dirtyInodes v))"
    then have "map_of (e_dirtyInodes v) k = Some raw" using syncedD(10) [OF c(3)] st by simp
    then show "valid_ino v k \<and> length raw = 256" using c(2,8,10) by (auto simp: inodes_ok_def)
  qed
  obtain v1 where 1: "for_each (flushInode f) (ord (e_dirtyInodes v)) v = (Inr (), v1)" "tabs_step f v v1"
    "\<forall>k. valid_ino v k \<longrightarrow> slot f v1 k = (case map_of (e_dirtyInodes v) k of Some raw \<Rightarrow> raw | None \<Rightarrow> slot f v k)"
    using flush_inodes_ok [OF c(12,13,9) dist ok] unfolding mo by blast
  note s = tabs_stepD [OF 1(2)]
  define v2 where "v2 = v1\<lparr>e_dirtyInodes := []\<rparr>"
  have sy1: "synced f v1" by (rule s(10) [OF c(3)])
  have b2: "blkv f v2 = blkv f v1" by (rule blkv_cong) (simp_all add: v2_def bsz_def)
  have k2: "vblk v2 = vblk v" "e_wa v2" "e_srOffset v2 = sec_base (e_sr v2)"
    using c(5,6) s by (simp_all add: v2_def vblk_def bsz_def fun_eq_iff)
  have g2: "geo f v2" using s(1) by (simp add: geo_def v2_def bsz_def)
  have dv: "vblk v2 (fst p)" if "p \<in> set (e_dirty v2)" for p
    using syncedD(9) [OF sy1, of p] that k2(1) shape_derived(3) [OF s(8)] by (simp add: v2_def)
  have ar: "v2\<lparr>e_dirty := []\<rparr> = at_rest v" 
  proof -
    have "v2\<lparr>e_dirty := []\<rparr> = v1\<lparr>e_dirty := [], e_dirtyInodes := []\<rparr>" by (cases v1) (simp add: v2_def)
    then show ?thesis unfolding s(11) at_rest_def .
  qed
  obtain f' where f': "flush_blocks (dirty_keys v2) (f, v2) = (Inr (), (f', at_rest v))" "geo f' (at_rest v)"
    "length (contents f') = length (contents f)" "\<forall>y. vblk v y \<longrightarrow> blkv f' (at_rest v) y = blkv f v1 y"
    using flush_all_blocks [OF g2 k2(2,3) c(7) dv] unfolding ar k2(1) b2 by blast
  have run: "e4_Unmount ord f v = (Inr (), (f', at_rest v))"
    using 1(1) f'(1) by (simp add: e4_Unmount_def e4_flush_def Let_def v2_def)
  have bl: "blkv f' (at_rest v) x = blkv f v x" if "vblk v x" "x \<notin> tabs v" for x using f'(4) that s(9) by simp
  have D: "gdt_blk (at_rest v) = gdt_blk v" "gdt_pos (at_rest v) = gdt_pos v" "ngroups (at_rest v) = ngroups v"
    by (simp_all add: gdt_blk_def gdt_block_def gdt_pos_def ngroups_def fun_eq_iff)
  have sy: "synced f' (at_rest v)"
  proof -
    have v0: "vblk v 0" using layoutD(7) [OF c(13) meta_in(1)] syncedD(11) [OF c(3)] by simp
    have m0: "0 \<notin> tabs v" using t(6) [of 0] meta_in(1) [of v] syncedD(11) [OF c(3)] by auto
    have gd: "staged_gd f' (at_rest v) g = e_groups v ! g" if "g < ngroups v" for g
    proof -
      have "gdt_blk v g \<notin> tabs v" using t(6) meta_in(2) [OF that] by blast
      from bl [OF layoutD(7) [OF c(13) meta_in(2) [OF that]] this] show ?thesis using syncedD(8) [OF c(3) that] by (simp add: staged_gd_def D)
    qed
    have "disk_sb f' (at_rest v) = sub (blkv f v 0) 1024 1024"
      using disk_block_sub [OF f'(2) _ _ , of 1024 1024 0] v0 bl [OF v0 m0] c(11) by (simp add: disk_sb_def blk_pos_def)
    then show ?thesis using syncedD(1-7) [OF c(3)] gd bl [OF v0 m0] unfolding synced_def D by simp
  qed
  have L: "layout_ok (at_rest v)" using c(13) shape_layout [of "at_rest v" v] by simp
  have op: "e4_Open f' (sec_base (e_sr v)) (sec_size (e_sr v)) = Inr (at_rest v)"
    using open_ok [OF f'(2) L _ _ sy] c(5,6,7) f'(3) by simp
  have bt: "blkv f' (at_rest v) x = sub (contents f') (blk_pos v x) (bsz v)" for x by (simp add: blkv_def blk_pos_def)
  have ri: "readInode f' (at_rest v) k = readInode f v k" if k: "valid_ino v k" for k
  proof -
    have r: "readRawInode f v k = Inr (case map_of (e_dirtyInodes v) k of Some raw \<Rightarrow> raw | None \<Rightarrow> slot f v k)"
      by (rule readRaw_slot [OF c(4,12,13) k])
    have "valid_ino (at_rest v) k" using valid_shape [of "at_rest v" v] k by simp
    note p = shape_ino [of "at_rest v" v k, OF _ k] and q = shape_ino [OF s(8) k]
    have x: "vblk v (ino_blk v k)" by (rule t(5) [OF ino_place(5) [OF c(9,13) k]])
    have sl: "slot f' (at_rest v) k = slot f v1 k" using f'(4) x by (simp add: slot_def p q)
    have "readRawInode f' (at_rest v) k = Inr (slot f' (at_rest v) k)"
      using readRaw_slot_of [OF _ f'(2) L \<open>valid_ino (at_rest v) k\<close>] c(9) shape_tables(3) [of "at_rest v" v] by (simp add: bt)
    then show ?thesis using r sl 1(3) k by (simp add: readInode_def)
  qed
  show thesis by (rule that [OF run op f'(2,3) _ _ sy]) (use bl ri in \<open>simp_all add: bt\<close>)
qed

subsection \<open>Files and directories on the volume as opened again\<close>

lemma same_meta:
  assumes V: "vol_ok f v" and g: "geo f' v'" and sh: "shape v' = shape v" "e_groups v' = e_groups v"
    and m: "\<And>x. x \<in> meta v \<Longrightarrow> blkv f' v' x = blkv f v x"
  shows "vol_ok f' v'" "in_use f' v' = in_use f v" "nfree f' v' = nfree f v"
proof -
  note d = vol_okD [OF V] and D = shape_derived [OF sh(1)] and n = shape_fields(5) [OF sh(1)]
  have bm: "blkv f' v' (bm_blk v' h) = blkv f v (bm_blk v h)" if "h < ngroups v" for h
    using m [OF meta_in(3) [OF that]] D(9) [OF that] by simp
  have no: "block_no v' h c = block_no v h c" for h c by (simp add: block_no_def D(13))
  show use: "in_use f' v' = in_use f v" unfolding in_use_def n D(4) no fun_eq_iff using bm by (metis (no_types, lifting))
  show "nfree f' v' = nfree f v" unfolding nfree_def n D(4) using bm by simp
  have "counts_ok f' v'" using alloc_okD(3) [OF d(1)] bm by (simp add: counts_ok_def n D(4) sh(2))
  then have "alloc_ok f' v'" using g shape_layout [OF sh(1)] d(3) by (simp add: alloc_ok_def)
  then show "vol_ok f' v'"
    unfolding vol_ok_def shape_meta [OF sh(1)] n D(4) no use good_no_def D(3) using d(4,5) bm unfolding good_no_def by simp
qed

lemma file_tree_moved:
  assumes "file_tree f v i ls ps" "shape v' = shape v" "\<And>x. x \<in> set ls \<Longrightarrow> blkv f' v' x = blkv f v x"
  shows "file_tree f' v' i ls ps"
proof -
  have "leaf_node (blkv f' v' (ls ! j)) lb q \<longleftrightarrow> leaf_node (blkv f v (ls ! j)) lb q" if "j < length ls" for j lb q
    using assms(3) [of "ls ! j"] that by simp
  then show ?thesis using assms(1) unfolding file_tree_def shape_more [OF assms(2)] by (simp split: if_splits)
qed

text \<open>A volume whose files read the same: same metadata, same inodes, same blocks outside of the inode tables.\<close>

definition reads_same :: "gofile \<Rightarrow> ext4vol \<Rightarrow> gofile \<Rightarrow> ext4vol \<Rightarrow> bool" where
  "reads_same f v f' v' \<longleftrightarrow> geo f' v' \<and> shape v' = shape v \<and> e_groups v' = e_groups v \<and> e_dirtyInodes v' = [] \<and>
     (\<forall>x. vblk v x \<and> x \<notin> tabs v \<longrightarrow> blkv f' v' x = blkv f v x) \<and> (\<forall>k. valid_ino v k \<longrightarrow> readInode f' v' k = readInode f v k)"

lemma reads_same_file:
  assumes R: "reads_same f v f' v'" and T: "tables_at v" and F: "file_at f v k i ls ps" and d: "set (ps @ ls) \<inter> tabs v = {}"
  shows "file_at f' v' k i ls ps" "file_bytes f' v' ps = file_bytes f v ps" "x \<in> set (ps @ ls) \<Longrightarrow> blkv f' v' x = blkv f v x"
proof -
  note r = R [unfolded reads_same_def]
  have sh: "shape v' = shape v" using r by blast
  note D = shape_derived [OF sh] and s = file_stateD [OF F [unfolded file_at_def, THEN conjunct1]]
  show bl: "blkv f' v' x = blkv f v x" if x: "x \<in> set (ps @ ls)" for x
  proof -
    have "good_no v x" by (rule file_treeD(3) [OF s(5)]) (use x in simp)
    then show ?thesis using r d x by (auto simp: good_no_def)
  qed
  have "blkv f' v' x = blkv f v x" if "x \<in> meta v" for x
    using r layoutD(7) [OF vol_okD(3) [OF s(1)] that] tables_atD(6) [OF T, of x] that by blast
  note M = same_meta [OF s(1) _ sh _ this]
  have V: "vol_ok f' v'" "in_use f' v' = in_use f v" using M r by blast+
  have "file_tree f' v' i ls ps" by (rule file_tree_moved [OF s(5) sh]) (use bl in simp)
  moreover have "inodes_ok v'" using s(2) D(2) r by (simp add: inodes_ok_def)
  moreover have "readInode f' v' k = Inr i" using F r s(3) by (simp add: file_at_def)
  ultimately show "file_at f' v' k i ls ps"
    using V s shape_meta [OF sh] valid_shape [OF sh] D(1) unfolding file_at_def file_state_def by simp
  show "file_bytes f' v' ps = file_bytes f v ps" unfolding file_bytes_def using bl by (simp cong: map_cong)
qed

lemma reads_same_dir:
  assumes R: "reads_same f v f' v'" and T: "tables_at v" and D: "dir_at f v k i ls ps ess" and d: "set (ps @ ls) \<inter> tabs v = {}"
  shows "dir_at f' v' k i ls ps ess"
proof -
  have F: "file_at f v k i ls ps" using D by (simp add: dir_at_def)
  note f = reads_same_file [OF R T F d]
  have "bsz v' = bsz v" by (rule shape_derived(1)) (use R in \<open>simp add: reads_same_def\<close>)
  moreover have "blkv f' v' (ps ! j) = blkv f v (ps ! j)" if "j < length ps" for j using f(3) [of "ps ! j"] that by simp
  ultimately show ?thesis using D f(1) unfolding dir_at_def by simp
qed

lemma unmount_reads_same:
  assumes C: "can_unmount f v" and ord: "map_order ord"
  obtains f' where "e4_Unmount ord f v = (Inr (), (f', at_rest v))" "e4_Open f' (sec_base (e_sr v)) (sec_size (e_sr v)) = Inr (at_rest v)"
    "reads_same f v f' (at_rest v)" "length (contents f') = length (contents f)" "can_unmount f' (at_rest v)"
proof -
  note c = can_unmountD [OF C]
  obtain f' where U: "e4_Unmount ord f v = (Inr (), (f', at_rest v))" "e4_Open f' (sec_base (e_sr v)) (sec_size (e_sr v)) = Inr (at_rest v)"
    "geo f' (at_rest v)" "length (contents f') = length (contents f)"
    "\<forall>x. vblk v x \<and> x \<notin> tabs v \<longrightarrow> blkv f' (at_rest v) x = blkv f v x"
    "\<forall>k. valid_ino v k \<longrightarrow> readInode f' (at_rest v) k = readInode f v k"
    "synced f' (at_rest v)" "\<forall>x \<in> tabs v. blkv f' (at_rest v) x = sub (contents f') (blk_pos v x) (bsz v)"
    by (rule unmount_open [OF C ord])
  have R: "reads_same f v f' (at_rest v)" using U(3,5,6) by (simp add: reads_same_def)
  have "blkv f' (at_rest v) x = blkv f v x" if "x \<in> meta v" for x
    using U(5) layoutD(7) [OF c(13) that] tables_atD(6) [OF c(9), of x] that by blast
  note M = same_meta [OF c(1) U(3) _ _ this]
  have "vol_ok f' (at_rest v)" "in_use f' (at_rest v) = in_use f v" by (rule M; simp)+
  moreover have "isz (at_rest v) = isz v" by (simp add: isz_def)
  ultimately have "can_unmount f' (at_rest v)"
    using c U(4,7,8) shape_tables(2,3) [of "at_rest v" v] by (simp add: can_unmount_def tables_ok_def inodes_ok_def)
  then show thesis using that U(1,2,4) R by blast
qed

text \<open>Creating a file keeps a volume ready to be unmounted.\<close>

lemma created_can_unmount:
  assumes C: "can_unmount f v" and M: "created f v dirIno di dls dps ess base data mode num v'"
    and d: "valid_ino v dirIno" "set dps \<inter> tabs v = {}"
  shows "can_unmount f v'" "\<exists>i ls ps. file_at f v' num i ls ps \<and> sized v' i ps \<and> file_content f v' i ps = data \<and> i_mode i = mode \<and> set (ps @ ls) \<inter> tabs v' = {}"
proof -
  note c = can_unmountD [OF C] and m = M [unfolded created_def]
  have sh: "shape v' = shape v" using m by blast
  note T = shape_tables [OF sh] and D = shape_derived [OF sh] and F = shape_fields [OF sh]
  obtain i ls ps where f: "file_at f v' num i ls ps" "\<forall>x \<in> set (ps @ ls). \<not> in_use f v x" "sized v' i ps" "file_content f v' i ps = data" "i_mode i = mode"
    using m by blast
  note s = file_stateD [OF f(1) [unfolded file_at_def, THEN conjunct1]]
  have "in_use f v x \<and> blkv f v x = sub (contents f) (blk_pos v x) (bsz v)" if "x \<in> tabs v" for x using c(4) that by (simp add: tables_ok_def)
  moreover have "x \<notin> meta v" if "x \<in> tabs v" for x by (rule tables_atD(6) [OF c(9) that])
  moreover have "\<forall>x. in_use f v x \<longrightarrow> in_use f v' x" "\<forall>x. in_use f v x \<and> x \<notin> meta v \<and> x \<notin> set dps \<longrightarrow> blkv f v' x = blkv f v x" using m by blast+
  moreover have "blk_pos v' x = blk_pos v x" for x by (simp add: blk_pos_def F(1) D(1))
  ultimately have "in_use f v' x \<and> blkv f v' x = sub (contents f) (blk_pos v' x) (bsz v')" if "x \<in> tabs v" for x
    using d(2) that unfolding D(1) by (metis disjoint_iff)
  then have t: "tables_ok f v'" using c(9) T(2,3) by (simp add: tables_ok_def)
  have "valid_ino v' k" if "map_of (e_dirtyInodes v') k = Some raw" for k raw
    using that m c(8) d(1) s(3) valid_shape [OF sh] by metis
  then show "can_unmount f v'" using c s(1,2) m t F by (simp add: can_unmount_def)
  have "x \<notin> tabs v" if "x \<in> set (ps @ ls)" for x using f(2) c(4) that by (auto simp: tables_ok_def)
  then show "\<exists>i ls ps. file_at f v' num i ls ps \<and> sized v' i ps \<and> file_content f v' i ps = data \<and> i_mode i = mode \<and> set (ps @ ls) \<inter> tabs v' = {}"
    using f(1,3,4,5) T(2) by blast
qed

text \<open>A file written under a new name in the root directory reads back after the volume was unmounted and opened again.\<close>

lemma WriteFile_remount:
  assumes C: "can_unmount f v" and D: "dir_at f v inodeRoot di dls dps ess" "ino_counts f v" "ino_used f v inodeRoot" "set (dps @ dls) \<inter> tabs v = {}"
    and nm: "Clean (slash # p) = slash # nm" "plain_elem nm" "length nm < 256" "nm \<notin> de_nm ` set (concat ess)" "has_room f v dps nm"
    and sz: "blocks_of v (length data) \<le> 4 * max_leaf v" "data = [] \<or> blocks_of v (length data) + 4 \<le> nfree f v"
    and ino: "\<exists>g < ngroups v. clear_ino f v g \<noteq> None" and ord: "map_order ord"
  shows "\<exists>v' f' w. e4_WriteFile now f p data perm v = (Inr (), v') \<and> e4_ReadFile f v' p = Inr data \<and>
    e4_Unmount ord f v' = (Inr (), (f', w)) \<and> e4_Open f' (sec_base (e_sr v)) (sec_size (e_sr v)) = Inr w \<and> e4_ReadFile f' w p = Inr data \<and>
    length (contents f') = length (contents f)"
proof -
  obtain num v' where c: "e4_WriteFile now f p data perm v = (Inr (), v')" "e4_ReadFile f v' p = Inr data"
    "created f v inodeRoot di dls dps ess nm data (0x8000 OR perm_bits perm) num v'"
    using WriteFile_new [OF D(1-3) nm sz ino] by blast
  have val: "valid_ino v inodeRoot" using D(1) by (simp add: dir_at_def file_at_def file_state_def)
  have dt: "set dps \<inter> tabs v = {}" using D(4) by auto
  note U = created_can_unmount [OF C c(3) val dt]
  have sh: "shape v' = shape v" using c(3) by (simp add: created_def)
  note T = shape_tables(2) [OF sh] and F = shape_fields [OF sh]
  obtain f' where f': "e4_Unmount ord f v' = (Inr (), (f', at_rest v'))" "e4_Open f' (sec_base (e_sr v')) (sec_size (e_sr v')) = Inr (at_rest v')"
    "reads_same f v' f' (at_rest v')" "length (contents f') = length (contents f)"
    by (rule unmount_reads_same [OF U(1) ord])
  obtain i ls ps where n: "file_at f v' num i ls ps" "sized v' i ps" "file_content f v' i ps = data" "i_mode i = 0x8000 OR perm_bits perm"
    "set (ps @ ls) \<inter> tabs v' = {}" using U(2) by blast
  obtain di' ess' A B where e: "dir_at f v' inodeRoot di' dls dps ess'" "concat ess = A @ B" "concat ess' = A @ \<lparr>de_inode = num, de_nm = nm, de_fileType = 1\<rparr> # B"
    using c(3) unfolding created_def by blast
  note t = can_unmountD(9) [OF U(1)]
  have r: "dir_at f' (at_rest v') inodeRoot di' dls dps ess'"
    by (rule reads_same_dir [OF f'(3) t e(1)]) (use D(4) T in simp)
  note g = reads_same_file [OF f'(3) t n(1,5)]
  have "e4_lookupPath f' (at_rest v') p = Inr num"
    using lookup_root [OF r nm(1,2)] find_fresh [of nm A B "\<lparr>de_inode = num, de_nm = nm, de_fileType = 1\<rparr>"] nm(4) e(2,3) by simp
  moreover have "sized (at_rest v') i ps" using n(2) by (simp add: sized_def)
  ultimately have "e4_ReadFile f' (at_rest v') p = Inr (file_content f' (at_rest v') i ps)"
    using readFile_content [OF _ g(1) _ file_not_link [OF n(4)]] by blast
  also have "file_content f' (at_rest v') i ps = data" using g(2) n(3) by (simp add: file_content_def)
  finally show ?thesis using c(1,2) f' F(1) by auto
qed

end
