(* ===== verification/Ext4Mkfs.thy ===== *)
theory Ext4Mkfs
  imports Ext4FileData Ext4InodeAlloc MkfsExt4Formatted
begin

text \<open>
  The driver on a partition that the formatter made: \<open>Open\<close> accepts it, the volume is consistent
  for the allocators, and the root directory is a file in the sense of \<open>file_at\<close>.
\<close>

unbundle bit_operations_syntax

subsection \<open>Wide fields\<close>

lemma join_hi_ucast: "ucast (join_hi lo hi) = lo" "ucast (drop_bit 32 (join_hi lo hi)) = hi"
  "join_hi (ucast x) (ucast (drop_bit 32 x)) = x"
  by (rule bit_word_eqI; auto simp: join_hi_def bit_simps dest: bit_imp_le_length)+

lemma unat_join_hi: "unat (join_hi lo hi) = unat lo + 2 ^ 32 * unat hi"
  using join32 [of "join_hi lo hi"] by (simp add: join_hi_ucast)

lemma unat_gd_freeBlocks: "unat (gd_freeBlocks gd) = unat (gd_freeBlocksLo gd) + 2 ^ 16 * unat (gd_freeBlocksHi gd)"
proof -
  have "ucast (gd_freeBlocks gd) = gd_freeBlocksLo gd" "ucast (drop_bit 16 (gd_freeBlocks gd)) = gd_freeBlocksHi gd"
    by (rule bit_word_eqI; auto simp: gd_freeBlocks_def bit_simps dest: bit_imp_le_length)+
  then show ?thesis using join16 [of "gd_freeBlocks gd"] by simp
qed

subsection \<open>The superblock\<close>

lemma superblock_rest:
  assumes "sb = buildSuperblock fs g"
  shows "get32 sb 20 = 0" "get32 sb 24 = 2" "get16 sb 88 = 256" "get32 sb 96 = 0x2C2"
    "get32 sb 4 = ucast (el_totalBlocks fs)" "get32 sb 336 = ucast (drop_bit 32 (el_totalBlocks fs))"
proof -
  define b where "b = puts (sb_fields fs g) (zeros 1024)"
  have lb: "length b = 1024" by (simp add: b_def)
  have d: "sb = copy_into b 1020 (le32 (crc32cUpdate (el_csumSeed fs) (take 1020 b)))" by (simp add: assms buildSuperblock_def Let_def b_def)
  have g16: "get16 sb off = get16 b off" if "off + 2 \<le> 1020" for off
    unfolding d using that lb by (intro c16.get_copy_other) (auto simp: length_codecs)
  have g32: "get32 sb off = get32 b off" if "off + 4 \<le> 1020" for off
    unfolding d using that lb by (intro c32.get_copy_other) (auto simp: length_codecs)
  have lx: "length (take 16 (eo_UUID (el_opts fs))) \<le> 16" "length (padLabel 16 (eo_Label (el_opts fs))) = 16"
    "length (buildExtentLeaf 0 (el_journalSize fs) (el_journalBlock fs)) = 60" by (simp_all add: padLabel_def buildExtentLeaf_def)
  note f = b_def sb_fields_def writeJournalInodeBackup_def Let_def
  have "get32 b 20 = 0" "get32 b 24 = 2" "get16 b 88 = 256" "get32 b 96 = 0x2C2"
    "get32 b 4 = ucast (el_totalBlocks fs)" "get32 b 336 = ucast (drop_bit 32 (el_totalBlocks fs))"
    unfolding f using lx by (simp_all add: put16_def [symmetric] put32_def [symmetric] codec_simps inodeSize_def)
  then show "get32 sb 20 = 0" "get32 sb 24 = 2" "get16 sb 88 = 256" "get32 sb 96 = 0x2C2"
    "get32 sb 4 = ucast (el_totalBlocks fs)" "get32 sb 336 = ucast (drop_bit 32 (el_totalBlocks fs))"
    by (simp_all add: g16 g32)
qed

lemma parse_superblock:
  assumes ok: "ext4_ok fs T gd r ni j"
  shows "let sb = parseSuperblock (buildSuperblock fs 0) in es_blockSize sb = 4096 \<and> es_inodeSize sb = 256 \<and> es_firstDataBlock sb = 0 \<and>
    es_blocksPerGroup sb = 32768 \<and> es_inodesPerGroup sb = of_nat ni \<and> es_descSize sb = 64 \<and> es_groupCount sb = of_nat (num_groups T) \<and>
    es_blocksCountLo sb = ucast (of_nat T :: u64) \<and> es_blocksCountHi sb = ucast (drop_bit 32 (of_nat T :: u64)) \<and>
    es_freeBlocksLo sb = get32 (buildSuperblock fs 0) 12 \<and> es_freeBlocksHi sb = get32 (buildSuperblock fs 0) 344"
proof -
  note K = ext4_okD [OF ok] and W = ext4_ok_fields [OF ok]
  note D = superblock_decode [OF refl, of fs 0] and R = superblock_rest [OF refl, of fs 0]
  have "join_hi (ucast (of_nat T :: u64)) (ucast (drop_bit 32 (of_nat T :: u64))) = (of_nat T :: u64)" by (rule join_hi_ucast(3))
  then have j: "(ucast (ucast (of_nat T :: u64) :: u32) :: u64) OR push_bit 32 (ucast (ucast (drop_bit 32 (of_nat T :: u64)) :: u32)) = of_nat T"
    by (simp only: join_hi_def)
  have "(of_nat T :: u64) + ucast (32768 :: u32) - 1 = of_nat (T + 32767)" "(ucast (32768 :: u32) :: u64) = of_nat 32768" by simp_all
  moreover have "(of_nat (T + 32767) :: u64) div of_nat 32768 = of_nat (num_groups T)"
    unfolding num_groups_def using K(2) by (intro of_nat_div64) simp_all
  ultimately have n: "(ucast (((of_nat T :: u64) + ucast (32768 :: u32) - 1) div ucast (32768 :: u32)) :: u32) = of_nat (num_groups T)"
    by (simp only: ucast_of_nat_down)
  have i: "(0x2C2 :: u32) AND 0x80 \<noteq> 0" by simp
  show ?thesis unfolding parseSuperblock_def Let_def R D(5,6,7) W(1,2) if_P [OF i] j n
    by (simp add: blockSize_of_log_def)
qed

subsection \<open>Opening\<close>

text \<open>The descriptors of a formatted volume, and the volume that \<open>Open\<close> builds.\<close>

definition fmt_group :: "ext4_fsLayout \<Rightarrow> nat \<Rightarrow> groupDesc" where
  "fmt_group fs g = parseGroupDesc 64 (encodeGDE fs (of_nat g))"

definition fmt_vol :: "ext4_fsLayout \<Rightarrow> nat \<Rightarrow> sectionRWS \<Rightarrow> ext4vol" where
  "fmt_vol fs n s = \<lparr>e_sr = \<lparr>sec_base = s_base s, sec_limit = s_base s + s_size s\<rparr>, e_wa = True, e_srOffset = s_base s,
     e_sb = parseSuperblock (buildSuperblock fs 0), e_groups = map (fmt_group fs) [0..<n], e_dirty = [], e_dirtyInodes = []\<rparr>"

lemma fmt_read:
  assumes Z: "ext4_formatted f s fs T gd r ni j" and "0 \<le> off" "off < s_size s" "off + int n \<le> s_size s"
  shows "full (SecReadAt f \<lparr>sec_base = s_base s, sec_limit = s_base s + s_size s\<rparr> n off) = Inr (part_bytes f s (nat off) n)"
proof -
  note z = ext4_formattedD [OF Z]
  have "SecReadAt f \<lparr>sec_base = s_base s, sec_limit = s_base s + s_size s\<rparr> n off = (sub (contents f) (nat (s_base s + off)) n, None)"
    using SecReadAt_inside [of f "\<lparr>sec_base = s_base s, sec_limit = s_base s + s_size s\<rparr>" off n] z(10-12) assms(2-4)
    by (simp add: sec_size_def file_size_def nat_le_iff)
  then show ?thesis using z(11) assms(2) by (simp add: full_def part_bytes_def nat_add_distrib)
qed

lemma fmt_size:
  assumes Z: "ext4_formatted f s fs T gd r ni j"
  shows "int (T * 4096) \<le> s_size s" "4096 \<le> T" "T < 2 ^ 35" "num_groups T * 64 + 4096 \<le> T * 4096"
proof -
  note z = ext4_formattedD [OF Z]
  note K = ext4_okD [OF z(1)] and W = ext4_ok_fields [OF z(1)]
  have "T * 4096 \<le> nat (s_size s)" unfolding z(2) by (rule div_times_less_eq_dividend)
  moreover have "0 < T" using K(1) by simp
  ultimately show "int (T * 4096) \<le> s_size s" by linarith
  show "4096 \<le> T" "T < 2 ^ 35" by (rule K(1), rule K(2))
  have "num_groups T * 64 \<le> 2 ^ 20 * 64 \<and> num_groups T \<le> T" using K(12) by (simp add: num_groups_def)
  have "num_groups T \<le> (T + 32767) div 32768" by (simp add: num_groups_def)
  then have "num_groups T * 64 \<le> (T + 32767)" by linarith
  then show "num_groups T * 64 + 4096 \<le> T * 4096" using K(1) by linarith
qed

lemma fmt_Open:
  assumes Z: "ext4_formatted f s fs T gd r ni j" and sz: "file_size f < 2 ^ 63"
  shows "e4_Open f (s_base s) (s_size s) = Inr (fmt_vol fs (num_groups T) s)"
proof -
  note z = ext4_formattedD [OF Z]
  note S = fmt_size [OF Z] and P = parse_superblock [OF z(1), unfolded Let_def]
  define sr where "sr = \<lparr>sec_base = s_base s, sec_limit = s_base s + s_size s\<rparr>"
  have sr: "NewSectionReader (s_base s) (s_size s) = sr" using z(12) sz by (simp add: NewSectionReader_def sr_def)
  have "16777216 \<le> T * 4096" using S(2) by linarith
  then have big: "16777216 \<le> s_size s" using S(1) by linarith
  have "full (SecReadAt f sr 1024 1024) = Inr (buildSuperblock fs 0)"
    unfolding sr_def using fmt_read [OF Z, of 1024 1024] big z(3) by simp
  moreover have "get16 (buildSuperblock fs 0) 56 = 0xEF53" "get32 (buildSuperblock fs 0) 32 \<noteq> 0"
    using superblock_decode [OF refl, of fs 0] by simp_all
  ultimately have sb: "readSuperblock f sr = Inr (parseSuperblock (buildSuperblock fs 0))"
    by (simp add: readSuperblock_def sbOffset_def wrapR_def)
  define n where "n = num_groups T"
  have n: "n \<le> 2 ^ 20" using ext4_okD(12) [OF z(1)] by (simp add: n_def)
  have un: "unat (of_nat n :: u32) = n" using n by (intro unat_of_nat32) simp
  define b where "b = part_bytes f s 4096 (n * 64)"
  have "int (n * 64 + 4096) \<le> s_size s" using S(1,4) unfolding n_def by linarith
  then have rd: "full (SecReadAt f sr (n * 64) 4096) = Inr b"
    unfolding sr_def b_def using fmt_read [OF Z, of 4096 "n * 64"] big by (simp add: add.commute)
  have lb: "length b = n * 64"
  proof -
    have "nat (s_base s) + (4096 + n * 64) \<le> length (contents f)"
      using \<open>int (n * 64 + 4096) \<le> s_size s\<close> z(11,12) unfolding file_size_def by linarith
    then show ?thesis by (simp add: b_def part_bytes_def)
  qed
  have "g * 64 + 64 \<le> length b \<and> sub b (g * 64) 64 = encodeGDE fs (of_nat g)" if "g \<in> set [0..<n]" for g
  proof -
    have g: "g * 64 + 64 \<le> n * 64" using that by simp
    have "sub b (g * 64) 64 = part_bytes f s (4096 + 64 * g) 64"
      using sub_sub [OF g, of "contents f" "nat (s_base s) + 4096"] by (simp add: b_def part_bytes_def add.assoc mult.commute)
    then show ?thesis using z(4) [of g] that g lb by (simp add: n_def)
  qed
  from parse_groups_all [of "[0..<n]" b, OF this]
  have gs: "readGroupDescriptors f sr (parseSuperblock (buildSuperblock fs 0)) = Inr (map (fmt_group fs) [0..<n])"
    using P un rd by (simp add: readGroupDescriptors_def Let_def gdtOff_def n_def [symmetric] wrapR_def wrap64_def fmt_group_def [abs_def])
  show ?thesis using sb gs by (simp add: e4_Open_def Let_def sr fmt_vol_def n_def sr_def)
qed

subsection \<open>The opened volume is consistent\<close>

lemma groups_fit:
  assumes Z: "ext4_formatted f s fs T gd r ni j" and g: "g < num_groups T"
  shows "data_start gd r ni j g \<le> group_end T g" "gd \<le> 16384"
proof -
  note z = ext4_formattedD [OF Z]
  note K = ext4_okD [OF z(1)]
  have "(num_groups T * 64 + 4095) div 4096 \<le> (2 ^ 20 * 64 + 4095) div 4096" using K(12) by (intro div_le_mono) simp
  then show gd: "gd \<le> 16384" using K(3) by simp
  have "ni div 16 \<le> 2048" using K(6) by simp
  then have d: "data_start gd r ni j g \<le> g * 32768 + 32768" if "0 < g" using that gd K(4) by (simp add: data_start_def bitmap_block_def)
  show "data_start gd r ni j g \<le> group_end T g"
  proof (cases "g = 0 \<or> g + 1 = num_groups T")
    case True
    moreover have "data_start gd r ni j g \<le> T" if "g + 1 = num_groups T"
    proof -
      have "g = num_groups T - 1" using that by linarith
      then show ?thesis using z(9) by simp
    qed
    ultimately show ?thesis using K(9) d unfolding group_end_def by (cases "g = 0") auto
  next
    case False
    then have "g + 1 < num_groups T" using g by simp
    then have "(g + 1) * 32768 < T" using num_groups_bounds(3) [OF K(1,2)] by blast
    then show ?thesis using d False by (simp add: group_end_def)
  qed
qed

lemma fmt_fields:
  assumes Z: "ext4_formatted f s fs T gd r ni j"
  defines "v \<equiv> fmt_vol fs (num_groups T) s"
  shows "bsz v = 4096" "isz v = 256" "ngroups v = num_groups T" "bpg v = 32768" "Ext4Volume.ipg v = ni" "sb_blk v = 0"
    "g < num_groups T \<Longrightarrow> bm_blk v g = of_nat (bitmap_block gd r g)" "g < num_groups T \<Longrightarrow> im_blk v g = of_nat (bitmap_block gd r g + 1)"
    "g < num_groups T \<Longrightarrow> inodeTableBlock v (of_nat g) = Inr (of_nat (bitmap_block gd r g + 2))"
    "g < num_groups T \<Longrightarrow> unat (gd_freeBlocks (e_groups v ! g)) = group_end T g - data_start gd r ni j g"
    "g < num_groups T \<Longrightarrow> unat (gd_freeInodesLo (e_groups v ! g)) = ni - (if g = 0 then 11 else 0)"
    "g < num_groups T \<Longrightarrow> gdt_blk v g = of_nat (1 + g * 64 div 4096)" "g < num_groups T \<Longrightarrow> gdt_pos v (of_nat g) = (g * 64) mod 4096"
    "geo f v" "unat x < T \<Longrightarrow> vblk v x" "blkv f v x = part_bytes f s (unat x * 4096) 4096"
proof -
  note z = ext4_formattedD [OF Z]
  note K = ext4_okD [OF z(1)]
  note P = parse_superblock [OF z(1), unfolded Let_def] and S = fmt_size [OF Z]
  have sb: "e_sb v = parseSuperblock (buildSuperblock fs 0)" "e_sr v = \<lparr>sec_base = s_base s, sec_limit = s_base s + s_size s\<rparr>"
    "e_groups v = map (fmt_group fs) [0..<num_groups T]" "e_dirty v = []" "e_dirtyInodes v = []" by (simp_all add: v_def fmt_vol_def)
  have ui: "unat (of_nat ni :: u32) = ni" using K(6) by (intro unat_of_nat32) simp
  show b: "bsz v = 4096" "isz v = 256" "ngroups v = num_groups T" "bpg v = 32768" "Ext4Volume.ipg v = ni" "sb_blk v = 0"
    using P ui by (simp_all add: bsz_def isz_def ngroups_def bpg_def Ext4Volume.ipg_def sb_blk_def sb)
  have eg: "e_groups v ! g = fmt_group fs g" if "g < num_groups T" for g using that by (simp add: sb)
  have gb: "gd_blockBitmap (fmt_group fs g) = of_nat (bitmap_block gd r g)" "gd_inodeBitmap (fmt_group fs g) = of_nat (bitmap_block gd r g + 1)"
    "join_hi (gd_inodeTableLo (fmt_group fs g)) (gd_inodeTableHi (fmt_group fs g)) = of_nat (bitmap_block gd r g + 2)"
    "unat (gd_freeBlocks (fmt_group fs g)) = group_end T g - data_start gd r ni j g"
    "unat (gd_freeInodesLo (fmt_group fs g)) = ni - (if g = 0 then 11 else 0)" if g: "g < num_groups T" for g
  proof -
    have bnd: "bitmap_block gd r g + 2 < 2 ^ 64" using data_start_bound(3,5) [OF z(1) g] by simp
    note G = ext4_group_blocks [OF z(1) g refl]
    note D = gde_decode(4,5) [OF refl refl, of fs "of_nat g"]
    have gl: "el_group fs (of_nat g) = group_spec T gd r ni j g" using K(16) [OF g] .
    show "gd_blockBitmap (fmt_group fs g) = of_nat (bitmap_block gd r g)" "gd_inodeBitmap (fmt_group fs g) = of_nat (bitmap_block gd r g + 1)"
      "join_hi (gd_inodeTableLo (fmt_group fs g)) (gd_inodeTableHi (fmt_group fs g)) = of_nat (bitmap_block gd r g + 2)"
      using G bnd unat_of_nat64 [of "bitmap_block gd r g"] unat_of_nat64 [of "bitmap_block gd r g + 1"] unat_of_nat64 [of "bitmap_block gd r g + 2"]
      by (simp_all add: word_unat_eq_iff gd_blockBitmap_def gd_inodeBitmap_def unat_join_hi fmt_group_def parseGroupDesc_def Let_def
        gde_block_bitmap_def gde_inode_bitmap_def gde_inode_table_def wide32_def del: of_nat_add)
    have "unat (gd_freeBlocks (fmt_group fs g)) = gde_free_blocks (encodeGDE fs (of_nat g))"
      by (simp add: unat_gd_freeBlocks fmt_group_def parseGroupDesc_def Let_def gde_free_blocks_def wide16_def)
    then show "unat (gd_freeBlocks (fmt_group fs g)) = group_end T g - data_start gd r ni j g"
      using D(1) clear_block_bits [OF z(1) g] by simp
    have "unat (gl_freeInodes (el_group fs (of_nat g))) = ni - (if g = 0 then 11 else 0)"
      unfolding gl group_spec_def groupLayout.simps using K(6) by (intro unat_of_nat32) simp
    moreover have "unat (gd_freeInodesLo (fmt_group fs g)) + 2 ^ 16 * unat (get16 (encodeGDE fs (of_nat g)) 46) = gde_free_inodes (encodeGDE fs (of_nat g))"
      by (simp add: fmt_group_def parseGroupDesc_def Let_def gde_free_inodes_def wide16_def)
    ultimately have e: "unat (gd_freeInodesLo (fmt_group fs g)) + 2 ^ 16 * unat (get16 (encodeGDE fs (of_nat g)) 46) = ni - (if g = 0 then 11 else 0)"
      using D(2) by simp
    then have "unat (get16 (encodeGDE fs (of_nat g)) 46) = 0" using K(6) by (cases "unat (get16 (encodeGDE fs (of_nat g)) 46)") auto
    then show "unat (gd_freeInodesLo (fmt_group fs g)) = ni - (if g = 0 then 11 else 0)" using e by simp
  qed
  show "bm_blk v g = of_nat (bitmap_block gd r g)" "im_blk v g = of_nat (bitmap_block gd r g + 1)"
    "unat (gd_freeBlocks (e_groups v ! g)) = group_end T g - data_start gd r ni j g"
    "unat (gd_freeInodesLo (e_groups v ! g)) = ni - (if g = 0 then 11 else 0)" if "g < num_groups T"
    using gb [OF that] eg [OF that] by (simp_all only: bm_blk_def im_blk_def)
  have ug: "unat (of_nat g :: u32) = g" if "g < num_groups T" for g using that K(12) by (intro unat_of_nat32) simp
  show "inodeTableBlock v (of_nat g) = Inr (of_nat (bitmap_block gd r g + 2))" if "g < num_groups T"
    using gb(3) [OF that] eg [OF that] ug [OF that] that
    by (simp add: inodeTableBlock_def group_at_def sb(3) del: of_nat_add)
  show "gdt_pos v (of_nat g) = (g * 64) mod 4096" if "g < num_groups T" using ug [OF that] P b(1) by (simp add: gdt_pos_def sb)
  show "gdt_blk v g = of_nat (1 + g * 64 div 4096)" if "g < num_groups T"
  proof -
    have "g < 2 ^ 20" using that K(12) by simp
    then have "(ucast (of_nat g :: u32) :: u64) * ucast (64 :: u16) div ucast (4096 :: u32) = of_nat (g * 64) div of_nat 4096"
      by (simp add: ucast_of_nat_up)
    also have "\<dots> = of_nat (g * 64 div 4096)" using \<open>g < 2 ^ 20\<close> by (intro of_nat_div64) simp_all
    finally show ?thesis using P by (simp add: gdt_blk_def gdt_block_def sb)
  qed
  show "geo f v" using z(10-13) b(1) by (simp add: geo_def sb sec_size_def file_size_def)
  show "vblk v x" if "unat x < T"
  proof -
    have "(unat x + 1) * 4096 \<le> T * 4096" using that by simp
    then have "int ((unat x + 1) * 4096) \<le> s_size s" using S(1) by linarith
    then show ?thesis unfolding vblk_def b(1) by (simp add: sb sec_size_def)
  qed
  show "blkv f v x = part_bytes f s (unat x * 4096) 4096" using b(1) by (simp add: blkv_def sb part_bytes_def)
qed

lemma fmt_meta:
  assumes Z: "ext4_formatted f s fs T gd r ni j"
  defines "v \<equiv> fmt_vol fs (num_groups T) s"
  shows "x \<in> meta v \<Longrightarrow> \<exists>g n. g < num_groups T \<and> g * 32768 \<le> n \<and> n < bitmap_block gd r g + 2 \<and> x = of_nat n"
    and "layout_ok v"
proof -
  note z = ext4_formattedD [OF Z]
  note K = ext4_okD [OF z(1)]
  note F = fmt_fields [OF Z, folded v_def]
  have N0: "0 < num_groups T" using K(15) by simp
  have gdt: "1 + g * 64 div 4096 < bitmap_block gd r 0" if "g < num_groups T" for g
  proof -
    have "g * 64 < gd * 4096" using that K(13) by linarith
    then have "g * 64 div 4096 < gd" by (simp add: div_less_iff_less_mult)
    then show ?thesis by (simp add: bitmap_block_def)
  qed
  have bb: "g * 32768 \<le> bitmap_block gd r g" "bitmap_block gd r g + 2 \<le> (g + 1) * 32768" "bitmap_block gd r g + 2 \<le> T" if "g < num_groups T" for g
    using data_start_bound(4,5,7,8) [OF z(1) that] groups_fit(1) [OF Z that] by simp_all
  have rng: "\<exists>g n. g < num_groups T \<and> g * 32768 \<le> n \<and> n < bitmap_block gd r g + 2 \<and> x = of_nat n" if x: "x \<in> meta v" for x
  proof -
    consider (sb) "x = sb_blk v" | (gdt) g where "g < num_groups T" "x = gdt_blk v g" | (bm) g where "g < num_groups T" "x = bm_blk v g"
      | (im) g where "g < num_groups T" "x = im_blk v g"
      using x F(3) by (auto simp: meta_def)
    then show ?thesis
    proof cases
      case sb
      then show ?thesis using N0 by (intro exI [of _ 0] exI [of _ 0]) (simp add: F(6))
    next
      case (gdt g)
      then show ?thesis using N0 \<open>g < num_groups T \<Longrightarrow> 1 + g * 64 div 4096 < bitmap_block gd r 0\<close>
        by (intro exI [of _ 0] exI [of _ "1 + g * 64 div 4096"]) (simp add: F(12) del: of_nat_add)
    next
      case (bm g)
      then show ?thesis using bb [of g] F(7) [of g] by (intro exI [of _ g] exI [of _ "bitmap_block gd r g"]) simp
    next
      case (im g)
      then show ?thesis using bb [of g] F(8) [of g] by (intro exI [of _ g] exI [of _ "bitmap_block gd r g + 1"]) (simp del: of_nat_add)
    qed
  qed
  then show "\<exists>g n. g < num_groups T \<and> g * 32768 \<le> n \<and> n < bitmap_block gd r g + 2 \<and> x = of_nat n" if "x \<in> meta v" using that by blast
  have un: "unat (of_nat n :: u64) = n" if "n < T" for n using that K(2) by (intro unat_of_nat64) simp
  have inj: "m = n" if "(of_nat m :: u64) = of_nat n" "m < T" "n < T" for m n using un [OF that(2)] un [OF that(3)] that(1) by metis
  have same: "g = h" if "g < num_groups T" "h < num_groups T" "bitmap_block gd r g + a = bitmap_block gd r h + b" "a < 2" "b < 2" for g h a b
  proof -
    have "(bitmap_block gd r g + a) div 32768 = g" using bb [OF that(1)] that(4) by (intro div_nat_eqI) simp_all
    moreover have "(bitmap_block gd r h + b) div 32768 = h" using bb [OF that(2)] that(5) by (intro div_nat_eqI) simp_all
    ultimately show ?thesis using that(3) by simp
  qed
  have bT: "bitmap_block gd r g + a < T" if "g < num_groups T" "a < 2" for g a using bb(3) [OF that(1)] that(2) by linarith
  have inj1: "inj_on (bm_blk v) {..<num_groups T}"
    using F(7) inj same [where a = 0 and b = 0] bT [where a = 0] by (intro inj_onI) simp
  have inj2: "inj_on (im_blk v) {..<num_groups T}"
  proof (rule inj_onI)
    fix g h assume "g \<in> {..<num_groups T}" "h \<in> {..<num_groups T}" "im_blk v g = im_blk v h"
    then show "g = h" using F(8) [of g] F(8) [of h] inj [of "bitmap_block gd r g + 1" "bitmap_block gd r h + 1"] bT [of g 1] bT [of h 1] same [of g h 1 1]
      by (simp del: of_nat_add)
  qed
  have dis: "bm_blk v ` {..<num_groups T} \<inter> im_blk v ` {..<num_groups T} = {}"
  proof -
    have "bm_blk v g \<noteq> im_blk v h" if gh: "g < num_groups T" "h < num_groups T" for g h
    proof
      assume "bm_blk v g = im_blk v h"
      then have e: "bitmap_block gd r g + 0 = bitmap_block gd r h + 1"
        using F(7) [OF gh(1)] F(8) [OF gh(2)] inj [of "bitmap_block gd r g" "bitmap_block gd r h + 1"] bT [OF gh(1), of 0] bT [OF gh(2), of 1] by (simp del: of_nat_add)
      then have "g = h" by (intro same [OF gh e]) simp_all
      then show False using e by simp
    qed
    then show ?thesis by auto
  qed
  have low: "x \<notin> bm_blk v ` {..<num_groups T} \<union> im_blk v ` {..<num_groups T}" if x: "x = of_nat n" "n < bitmap_block gd r 0" for x n
  proof -
    have nT: "n < T" using x(2) bT [OF N0, of 0] by simp
    have "x \<noteq> of_nat (bitmap_block gd r g + a)" if g: "g < num_groups T" "a < 2" for g a
    proof
      assume "x = of_nat (bitmap_block gd r g + a)"
      then have e: "n = bitmap_block gd r g + a" using x(1) inj [OF _ nT bT [OF g]] by simp
      show False
      proof (cases "g = 0")
        case False
        then have "32768 \<le> bitmap_block gd r g" using bb(1) [OF g(1)] by linarith
        then show False using e x(2) bb(2) [OF N0] by simp
      qed (use e x(2) in simp)
    qed
    from this [of _ 0] this [of _ 1] show ?thesis using F(7,8) by auto
  qed
  have "sb_blk v \<notin> bm_blk v ` {..<num_groups T} \<union> im_blk v ` {..<num_groups T}" by (rule low [of _ 0]) (simp_all add: F(6) bitmap_block_def)
  moreover have "gdt_blk v g \<notin> bm_blk v ` {..<num_groups T} \<union> im_blk v ` {..<num_groups T}" if "g < num_groups T" for g
    by (rule low [OF F(12) [OF that] gdt [OF that]])
  ultimately have dis2: "(bm_blk v ` {..<num_groups T} \<union> im_blk v ` {..<num_groups T}) \<inter> insert (sb_blk v) (gdt_blk v ` {..<num_groups T}) = {}"
    by (intro equals0I) (elim IntE insertE imageE; simp)
  have vb: "vblk v x" if x: "x \<in> meta v" for x
  proof -
    obtain g n where g: "g < num_groups T" "n < bitmap_block gd r g + 2" "x = of_nat n" using rng [OF x] by blast
    then have "n < T" using bb(3) [OF g(1)] by linarith
    then show ?thesis using F(15) [of x] un g(3) by simp
  qed
  have gp: "gdt_pos v (of_nat g) + 50 \<le> 4096" if "g < num_groups T" for g
  proof -
    have "(g * 64) mod (64 * 64) = g mod 64 * 64" using mult_mod_left [of g 64 64] by (simp add: mult.commute)
    moreover have "g mod 64 \<le> 63" by (simp add: Suc_leI [of _ 64, simplified] less_Suc_eq_le [symmetric])
    ultimately show ?thesis using F(13) [OF that] by simp
  qed
  show "layout_ok v"
    unfolding layout_ok_def F(1,3,4,5) using N0 K(5,6,12) inj1 inj2 dis dis2 vb gp by simp
qed

lemma fmt_bits:
  assumes Z: "ext4_formatted f s fs T gd r ni j" and g: "g < num_groups T"
  defines "v \<equiv> fmt_vol fs (num_groups T) s"
  shows "b < 32768 \<Longrightarrow> bit_at (blkv f v (bm_blk v g)) b \<longleftrightarrow> g * 32768 + b < data_start gd r ni j g \<or> group_end T g \<le> g * 32768 + b"
    and "b < 32768 \<Longrightarrow> bit_at (blkv f v (im_blk v g)) b \<longleftrightarrow> g = 0 \<and> b < 11 \<or> ni \<le> b"
    and "clear_count (blkv f v (bm_blk v g)) 32768 = group_end T g - data_start gd r ni j g"
    and "clear_count (blkv f v (im_blk v g)) ni = ni - (if g = 0 then 11 else 0)"
    and "block_no v g b = of_nat (g * 32768 + b)"
proof -
  note z = ext4_formattedD [OF Z]
  note K = ext4_okD [OF z(1)]
  note F = fmt_fields [OF Z, folded v_def]
  have bb: "bitmap_block gd r g + 2 \<le> T" using data_start_bound(5,7) [OF z(1) g] groups_fit(1) [OF Z g] by simp
  have un: "unat (of_nat (bitmap_block gd r g) :: u64) = bitmap_block gd r g" "unat (of_nat (bitmap_block gd r g + 1) :: u64) = bitmap_block gd r g + 1"
    by (intro unat_of_nat64; use bb K(2) in simp)+
  have bm: "blkv f v (bm_blk v g) = buildBlockBitmap fs (of_nat g)" using F(7) [OF g] F(16) [of "of_nat (bitmap_block gd r g)"] z(5) [OF g] un by simp
  have im: "blkv f v (im_blk v g) = buildInodeBitmap fs (of_nat g)"
    using F(8) [OF g] F(16) [of "of_nat (bitmap_block gd r g + 1)"] z(6) [OF g] unfolding un by simp
  show B: "bit_at (blkv f v (bm_blk v g)) b \<longleftrightarrow> g * 32768 + b < data_start gd r ni j g \<or> group_end T g \<le> g * 32768 + b" if "b < 32768" for b
    unfolding bm by (rule block_bitmap_bits(1) [OF z(1) g that])
  show I: "bit_at (blkv f v (im_blk v g)) b \<longleftrightarrow> g = 0 \<and> b < 11 \<or> ni \<le> b" if "b < 32768" for b
    unfolding im by (rule inode_bitmap_bits(1) [OF z(1) g that])
  have "{b. b < 32768 \<and> \<not> bit_at (blkv f v (bm_blk v g)) b} = {b. b < 8 * length (buildBlockBitmap fs (of_nat g)) \<and> \<not> bit_at (buildBlockBitmap fs (of_nat g)) b}"
    using block_bitmap_bits(2) [OF z(1) g, of 0] by (simp add: bm)
  then show "clear_count (blkv f v (bm_blk v g)) 32768 = group_end T g - data_start gd r ni j g"
    using clear_block_bits(2) [OF z(1) g] by (simp add: clear_count_def clear_bits_def)
  have "{b. b < ni \<and> \<not> bit_at (blkv f v (im_blk v g)) b} = {(if g = 0 then 11 else 0)..<ni}"
    using I K(6) by auto
  then show "clear_count (blkv f v (im_blk v g)) ni = ni - (if g = 0 then 11 else 0)" by (simp add: clear_count_def)
  have "g < 2 ^ 32" using g K(12) by simp
  then have "(ucast (of_nat g :: u32) :: u64) = of_nat g" by (rule ucast_of_nat_up)
  then show "block_no v g b = of_nat (g * 32768 + b)"
    using parse_superblock [OF z(1), unfolded Let_def] by (simp add: block_no_def group_start_def v_def fmt_vol_def)
qed

lemma fmt_ok:
  assumes Z: "ext4_formatted f s fs T gd r ni j"
  defines "v \<equiv> fmt_vol fs (num_groups T) s"
  shows "vol_ok f v" "inodes_ok v" "num_groups T * ni < 2 ^ 32 \<Longrightarrow> ino_counts f v" "nfree f v = (\<Sum>g < num_groups T. group_end T g - data_start gd r ni j g)"
    and "g < num_groups T \<Longrightarrow> g * 32768 \<le> n \<Longrightarrow> n < data_start gd r ni j g \<Longrightarrow> in_use f v (of_nat n)"
proof -
  note z = ext4_formattedD [OF Z]
  note K = ext4_okD [OF z(1)]
  note F = fmt_fields [OF Z, folded v_def] and B = fmt_bits [OF Z, folded v_def] and M = fmt_meta [OF Z, folded v_def]
  have un: "unat (of_nat n :: u64) = n" if "n < T" for n using that K(2) by (intro unat_of_nat64) simp
  show use: "in_use f v (of_nat n)" if "g < num_groups T" "g * 32768 \<le> n" "n < data_start gd r ni j g" for g n
  proof -
    have "n < g * 32768 + 32768" using that(3) groups_fit(1) [OF Z that(1)] data_start_bound(8) [OF z(1) that(1)] by linarith
    then have "n - g * 32768 < 32768" "g * 32768 + (n - g * 32768) = n" using that(2) by simp_all
    then show ?thesis unfolding in_use_def F(3,4)
      using B(1) [OF that(1), of "n - g * 32768"] B(5) [OF that(1), of "n - g * 32768"] that by (intro exI [of _ g] exI [of _ "n - g * 32768"] conjI) simp_all
  qed
  have "counts_ok f v" using F(10) B(3) by (simp add: counts_ok_def F(3,4))
  then have A: "alloc_ok f v" using F(14) M(2) by (simp add: alloc_ok_def)
  have "in_use f v x" if x: "x \<in> meta v" for x
  proof -
    obtain g n where g: "g < num_groups T" "g * 32768 \<le> n" "n < bitmap_block gd r g + 2" "x = of_nat n" using M(1) [OF x] by blast
    then show ?thesis using use [OF g(1,2)] data_start_bound(5) [OF z(1) g(1)] by simp
  qed
  moreover have "good_no v (block_no v g b)" if "g < num_groups T" "b < 32768" "\<not> bit_at (blkv f v (bm_blk v g)) b" for g b
  proof -
    have c: "data_start gd r ni j g \<le> g * 32768 + b" "g * 32768 + b < group_end T g" using B(1) [OF that(1,2)] that(3) by simp_all
    then have "g * 32768 + b < T" using data_start_bound(7) [OF z(1) that(1)] by linarith
    moreover from this have "unat (block_no v g b) = g * 32768 + b" unfolding B(5) [OF that(1)] by (rule un)
    moreover have "2 \<le> data_start gd r ni j g" by (simp add: data_start_def)
    then have "0 < g * 32768 + b" using c(1) by linarith
    ultimately show ?thesis using F(15) [of "block_no v g b"] K(2) by (simp add: good_no_def)
  qed
  ultimately show "vol_ok f v" using A by (simp add: vol_ok_def F(3,4))
  show "inodes_ok v" using F(2) by (simp add: inodes_ok_def v_def fmt_vol_def)
  show "nfree f v = (\<Sum>g < num_groups T. group_end T g - data_start gd r ni j g)" unfolding nfree_def F(3,4) using B(3) by simp
  show "num_groups T * ni < 2 ^ 32 \<Longrightarrow> ino_counts f v" unfolding ino_counts_def F(3,5) using F(11) B(4) by simp
qed

subsection \<open>The root directory\<close>

definition root_raw :: "ext4_fsLayout \<Rightarrow> bytes" where
  "root_raw fs = sub (buildInodeTable fs 0) 256 256"

lemma root_raw_puts:
  assumes ok: "ext4_ok fs T gd r ni j"
  obtains a b where "root_raw fs = puts [(116, le16 a), (130, le16 b)]
    (puts (inode_fields (of_int (el_now fs)) modeDIR 4096 EXT4_EXTENTS_FL (buildExtentLeaf 0 1 (el_rootDirBlock fs))) (zeros 256))"
proof -
  note K = ext4_okD [OF ok] and W = ext4_ok_fields [OF ok]
  define bd where "bd = buildExtentLeaf 0 1 (el_rootDirBlock fs)"
  define buf1 where "buf1 = put_inode fs 0 0 modeREG 0 EXT4_EXTENTS_FL buildEmptyExtentTree (zeros (ni * 256))"
  have lb: "length buf1 = ni * 256" "16 * 256 \<le> ni * 256" using K(5) by (simp_all add: buf1_def)
  have "sub buf1 (1 * 256) 256 = sub (zeros (ni * 256)) (1 * 256) 256"
    unfolding buf1_def using lb(2) by (intro put_inode_other) simp_all
  then have z: "sub buf1 256 256 = zeros 256" using lb(2) by simp
  have "sub (buildInodeTable fs 0) (1 * 256) 256 = sub (put_inode fs 0 1 modeDIR (of_nat blockSize) EXT4_EXTENTS_FL bd buf1) (1 * 256) 256"
    unfolding buildInodeTable_def Let_def inodeSize_def W(9) if_not_P [OF not_not [THEN iffD2, OF refl]] buf1_def [symmetric] bd_def [symmetric]
    using lb by (simp add: put_inode_other [of 1, simplified] fold_inode_other [of _ 1, simplified] sub_copy_other length_codecs)
  then have "root_raw fs = sub (put_inode fs 0 1 modeDIR (of_nat blockSize) EXT4_EXTENTS_FL bd buf1) 256 256" by (simp add: root_raw_def)
  also have "\<dots> = puts [(116, le16 (ucast (h :: u32))), (130, le16 (ucast (drop_bit 16 h)))]
      (puts (inode_fields (of_int (el_now fs)) modeDIR 4096 EXT4_EXTENTS_FL bd) (zeros 256))"
    if h: "h = inode_csum (el_csumSeed fs) (0 * el_inodesPerGrp fs + 1 + 1) (puts (inode_fields (of_int (el_now fs)) modeDIR 4096 EXT4_EXTENTS_FL bd) (zeros 256))" for h
    unfolding put_inode_def Let_def h using lb z by (simp add: inodeSize_def blockSize_def del: puts_simps)
  finally have "\<exists>a b. root_raw fs = puts [(116, le16 a), (130, le16 b)] (puts (inode_fields (of_int (el_now fs)) modeDIR 4096 EXT4_EXTENTS_FL bd) (zeros 256))"
    by blast
  then show thesis using that unfolding bd_def by blast
qed

lemma root_inode_parsed:
  assumes ok: "ext4_ok fs T gd r ni j"
  shows "\<exists>i. parseInode (root_raw fs) = Inr i \<and> i_mode i = 0x41ED \<and> i_flags i = 0x80000 \<and> inodeFileSize i = 4096 \<and>
    i_linksCount i = 2 \<and> i_block i = buildExtentLeaf 0 1 (el_rootDirBlock fs)"
proof -
  define bd where "bd = buildExtentLeaf 0 1 (el_rootDirBlock fs)"
  have lbd: "length bd = 60" by (simp add: bd_def buildExtentLeaf_def)
  define w where "w = inode_fields (of_int (el_now fs)) modeDIR 4096 EXT4_EXTENTS_FL bd"
  obtain a b where rr: "root_raw fs = puts [(116, le16 a), (130, le16 b)] (puts w (zeros 256))"
    using root_raw_puts [OF ok] unfolding bd_def [symmetric] w_def [symmetric] by blast
  have asc: "ascending 0 w" using lbd by (simp add: w_def inode_fields_def)
  note G = get_ascending [OF asc, of _ _ "zeros 256"]
  have g: "get16 (root_raw fs) off = get16 (puts w (zeros 256)) off" if "off + 2 \<le> 116" for off
    unfolding rr using that by (intro get_puts_other) auto
  have g': "get32 (root_raw fs) off = get32 (puts w (zeros 256)) off" if "off + 4 \<le> 116" for off
    unfolding rr using that by (intro get_puts_other) auto
  have v: "get16 (root_raw fs) 0 = modeDIR" "get32 (root_raw fs) 4 = 4096" "get32 (root_raw fs) 32 = EXT4_EXTENTS_FL" "get16 (root_raw fs) 26 = 2"
    by (subst g g'; (intro G)?; simp add: w_def inode_fields_def)+
  have "get32 (root_raw fs) 108 = get32 (zeros 256) 108"
    unfolding g' [of 108, simplified] using lbd by (intro get_puts_other) (auto simp: w_def inode_fields_def)
  then have h: "get32 (root_raw fs) 108 = 0" by (simp add: get32_def)
  have "sub (root_raw fs) 40 60 = sub (puts w (zeros 256)) 40 60" unfolding rr by (intro puts_other) auto
  also have "\<dots> = bd" using puts_ascending [OF asc, of 40 bd "zeros 256"] lbd by (simp add: w_def inode_fields_def)
  finally have bl: "sub (root_raw fs) 40 60 = bd" .
  have l: "length (root_raw fs) = 256" by (simp add: rr del: puts_simps)
  show ?thesis unfolding parseInode_def Let_def using l v h bl
    by (simp add: inodeFileSize_def modeDIR_def EXT4_EXTENTS_FL_def wrap64_def bd_def)
qed

lemma extent_leaf_node:
  assumes "p = of_nat n" "n < 2 ^ 48"
  shows "leaf_node (buildExtentLeaf 0 1 p) 0 [p]"
proof -
  define w :: "(nat \<times> bytes) list" where "w = [(0, le16 0xF30A), (2, le16 1), (4, le16 4), (6, le16 0), (8, le32 0),
           (12, le32 0), (16, le16 (ucast (1 :: u32))), (18, le16 (ucast (drop_bit 32 p))), (20, le32 (ucast p))]"
  have a: "ascending 0 w" by (simp add: w_def)
  note G = get_ascending [OF a, of _ _ "zeros 60"]
  have "get16 (puts w (zeros 60)) 0 = 0xF30A" "get16 (puts w (zeros 60)) 2 = 1" "get16 (puts w (zeros 60)) 6 = 0"
    "get32 (puts w (zeros 60)) 12 = 0" "get16 (puts w (zeros 60)) 16 = 1" "get16 (puts w (zeros 60)) 18 = ucast (drop_bit 32 p)"
    "get32 (puts w (zeros 60)) 20 = ucast p"
    by (intro G; simp add: w_def)+
  then show ?thesis unfolding buildExtentLeaf_def w_def [symmetric] by (simp add: leaf_node_def leaf_entry_def)
qed

lemma fmt_root:
  assumes Z: "ext4_formatted f s fs T gd r ni j"
  defines "v \<equiv> fmt_vol fs (num_groups T) s" and "p \<equiv> of_nat (data_start gd r ni j 0 - 2)"
  shows "\<exists>i. file_at f v inodeRoot i [] [p] \<and> i_mode i = 0x41ED \<and> i_linksCount i = 2 \<and> inodeFileSize i = 4096 \<and> blkv f v p = buildRootDir"
proof -
  note z = ext4_formattedD [OF Z]
  note K = ext4_okD [OF z(1)] and W = ext4_ok_fields [OF z(1)]
  note F = fmt_fields [OF Z, folded v_def] and O = fmt_ok [OF Z, folded v_def] and M = fmt_meta [OF Z, folded v_def]
  obtain i where i: "parseInode (root_raw fs) = Inr i" "i_mode i = 0x41ED" "i_flags i = 0x80000" "inodeFileSize i = 4096"
    "i_linksCount i = 2" "i_block i = buildExtentLeaf 0 1 (el_rootDirBlock fs)"
    using root_inode_parsed [OF z(1)] by blast
  have N0: "0 < num_groups T" using K(15) by simp
  define n where "n = data_start gd r ni j 0 - 2"
  have ds: "data_start gd r ni j 0 = bitmap_block gd r 0 + 2 + ni div 16 + (j + 2)" by (simp add: data_start_def)
  have n: "n < data_start gd r ni j 0" "bitmap_block gd r 0 + 2 \<le> n" "n < T" "n < 32768"
    using groups_fit(1) [OF Z N0] data_start_bound(7) [OF z(1) N0] W(14) ds by (simp_all add: n_def)
  have un: "unat p = n" unfolding p_def n_def [symmetric] using n(4) by (intro unat_of_nat64) simp
  have good: "good_no v p" using F(15) [of p] un n by (simp add: good_no_def)
  have ip: "in_use f v p" unfolding p_def n_def [symmetric] using O(5) [OF N0 _ n(1)] by simp
  have nm: "p \<notin> meta v"
  proof
    assume "p \<in> meta v"
    then obtain g m where g: "g < num_groups T" "g * 32768 \<le> m" "m < bitmap_block gd r g + 2" "p = of_nat m" using M(1) by blast
    have "m < T" using g(3) data_start_bound(5,7) [OF z(1) g(1)] groups_fit(1) [OF Z g(1)] by linarith
    then have "m = n" using g(4) un K(2) unat_of_nat64 [of m] by simp
    moreover from this have "g = 0" using g(2) n(4) by (cases g) auto
    ultimately show False using g(3) n(2) by simp
  qed
  have T: "file_tree f v i [] [p]"
    using i good extent_leaf_node [of p n] n un
    by (simp add: file_tree_def inodeFlagExtents_def inode_ok_def buildExtentLeaf_def W(7) p_def n_def del: puts_simps)
  have ig: "es_inodesPerGroup (e_sb v) = of_nat ni" using parse_superblock [OF z(1), unfolded Let_def] by (simp add: v_def fmt_vol_def)
  have ui: "unat (of_nat ni :: u32) = ni" using K(6) by (intro unat_of_nat32) simp
  have one: "1 div (of_nat ni :: u32) = 0" "1 mod (of_nat ni :: u32) = 1"
    using ui K(5) by (simp_all add: word_unat_eq_iff unat_div unat_mod)
  have two: "(2 :: u32) - 1 = 1" by simp
  have val: "valid_ino v inodeRoot" unfolding valid_ino_def inodeRoot_def ig two one F(3) using N0 by simp
  have rr: "readRawInode f v inodeRoot = Inr (root_raw fs)"
  proof -
    define q where "q = bitmap_block gd r 0 + 2"
    have q: "q < 32768" "q < T" using n ds by (simp_all add: q_def n_def)
    have uq: "unat (of_nat q :: u64) = q" using q(1) by (intro unat_of_nat64) simp
    have tb: "inodeTableBlock v 0 = Inr (of_nat q)" using F(9) [OF N0] by (simp add: q_def)
    have "blk_off v (of_nat q) = int (unat (of_nat q :: u64) * bsz v)" by (rule blk_off_valid [OF F(14) F(15)]) (simp only: uq q(2))
    then have "blk_off v (of_nat q) = int (q * 4096)" unfolding uq F(1) .
    moreover have "wrap64 (int (q * 4096) + 1 * 256) = int (q * 4096 + 256)" using q(1) by (subst wrap64_id) simp_all
    moreover have "full (SecReadAt f (e_sr v) 256 (int (q * 4096 + 256))) = Inr (root_raw fs)"
    proof -
      have "(q + 1) * 4096 \<le> T * 4096" using q(2) by simp
      then have "int (q * 4096 + 512) \<le> int (T * 4096)" by simp
      then have "int (q * 4096 + 256) + 256 \<le> s_size s" using fmt_size(1) [OF Z] by simp
      moreover have "e_sr v = \<lparr>sec_base = s_base s, sec_limit = s_base s + s_size s\<rparr>" by (simp add: v_def fmt_vol_def)
      ultimately show ?thesis using fmt_read [OF Z, of "int (q * 4096 + 256)" 256] z(7)
        by (simp add: q_def root_raw_def nat_add_distrib nat_mult_distrib add.commute)
    qed
    moreover have "map_of (e_dirtyInodes v) inodeRoot = None" by (simp add: v_def fmt_vol_def)
    moreover have "\<not> of_nat ni = (0 :: u32)" using ui K(5) by auto
    moreover have "inodeBlockGroup v inodeRoot = Inr 0" "inodeLocalIndex v inodeRoot = Inr 1"
      using \<open>\<not> of_nat ni = (0 :: u32)\<close> unfolding inodeBlockGroup_def inodeLocalIndex_def ig inodeRoot_def two one by simp_all
    ultimately show ?thesis using tb F(2) by (simp add: readRawInode_def wrapR_def)
  qed
  have "file_state f v inodeRoot i [] [p]" using O(1,2) val F(1) T ip nm by (simp add: file_state_def)
  then have "file_at f v inodeRoot i [] [p]" using rr i(1) by (simp add: file_at_def readInode_def)
  moreover have "blkv f v p = buildRootDir" using F(16) [of p] un z(8) by (simp add: n_def)
  ultimately show ?thesis using i by blast
qed

end
