(* ===== verification/Ext4Fresh.thy ===== *)
theory Ext4Fresh
  imports Ext4Persist Ext4Mkfs
begin

text \<open>
  The volume that the driver opens on a freshly formatted partition: its root directory holds the
  three entries of the formatter, takes any further name, and there is room for files.
\<close>

unbundle bit_operations_syntax

subsection \<open>The block of the root directory\<close>

definition root_dirents :: "dirEntry list" where
  "root_dirents = [\<lparr>de_inode = 2, de_nm = [dot], de_fileType = 2\<rparr>, \<lparr>de_inode = 2, de_nm = [dot, dot], de_fileType = 2\<rparr>,
     \<lparr>de_inode = 11, de_nm = bs ''lost+found'', de_fileType = 2\<rparr>]"

text \<open>A record that holds the bytes of an entry.\<close>

lemma record_written:
  assumes "sub b off (8 + length nm) = dirent_bytes ino nm ft rl" "off + rl \<le> length b" "length nm < 256" "rl < 2 ^ 16"
    "entry_size (length nm) \<le> rl" "nm \<noteq> []" "ino \<noteq> 0"
  shows "get32 b off = ino" "rec_len b off = rl" "name_len b off = length nm" "off + 8 \<le> length b" "8 \<le> rl"
    "rec_entry b off = [\<lparr>de_inode = ino, de_nm = nm, de_fileType = ft\<rparr>]"
proof -
  have e: "8 + length nm \<le> rl" using assms(5) entry_size_bounds(1) [of "length nm"] by linarith
  then have l: "off + 8 + length nm \<le> length b" using assms(2) by linarith
  note d = dirent_fields [OF assms(1) l assms(3,4)]
  show "get32 b off = ino" "rec_len b off = rl" "name_len b off = length nm" using d by (simp_all add: rec_len_def name_len_def)
  then show "rec_entry b off = [\<lparr>de_inode = ino, de_nm = nm, de_fileType = ft\<rparr>]" using d assms(6,7) by (simp add: rec_entry_def)
  show "off + 8 \<le> length b" "8 \<le> rl" using l e by simp_all
qed

lemma chain_written:
  assumes "sub b off (8 + length nm) = dirent_bytes ino nm ft rl" "off + rl \<le> length b" "length nm < 256" "rl < 2 ^ 16"
    "entry_size (length nm) \<le> rl" "nm \<noteq> []" "ino \<noteq> 0" "dir_chain b (off + rl)" "dir_block b (off + rl) = Inr es"
  shows "dir_chain b off" "dir_block b off = Inr (\<lparr>de_inode = ino, de_nm = nm, de_fileType = ft\<rparr> # es)"
proof -
  note r = record_written [OF assms(1-7)]
  show "dir_chain b off" using r assms(2,5,8) by (subst dir_chain.simps) simp
  show "dir_block b off = Inr (\<lparr>de_inode = ino, de_nm = nm, de_fileType = ft\<rparr> # es)"
    using dir_block_step [of off b es] r assms(2,5,9) by simp
qed

lemma root_dir_block:
  "dir_chain buildRootDir 0" "dir_block buildRootDir 0 = Inr root_dirents"
  "length nm < 256 \<Longrightarrow> child \<noteq> 0 \<Longrightarrow> add_in_block child nm ft buildRootDir 0 \<noteq> Inr None"
proof -
  note r = root_records
  have n: "length (bs ''.'') = 1" "length (bs ''..'') = 2" "length (bs ''lost+found'') = 10" "bs ''.'' \<noteq> []" "bs ''..'' \<noteq> []" "bs ''lost+found'' \<noteq> []"
    "bs ''.'' = [dot]" "bs ''..'' = [dot, dot]" by simp_all
  have c4: "dir_chain buildRootDir (24 + 4072)" "dir_block buildRootDir (24 + 4072) = Inr []"
    using r(4) by (simp_all add: dir_chain.simps dir_block_end)
  have e: "entry_size (Suc 0) = 12" "entry_size 2 = 12" "entry_size 10 = 20" by (simp_all add: entry_size_def)
  note c3 = chain_written [OF r(3) _ _ _ _ n(6) _ c4] and w3 = record_written [OF r(3) _ _ _ _ n(6)]
  have d3: "dir_chain buildRootDir 24" "dir_block buildRootDir 24 = Inr [\<lparr>de_inode = 11, de_nm = bs ''lost+found'', de_fileType = 2\<rparr>]"
    using c3 r(4) by (simp_all add: entry_size_def del: bs_simps)
  then have d3': "dir_chain buildRootDir (12 + 12)" "dir_block buildRootDir (12 + 12) = Inr [\<lparr>de_inode = 11, de_nm = bs ''lost+found'', de_fileType = 2\<rparr>]"
    by simp_all
  note c2 = chain_written [OF r(2) _ _ _ _ n(5) _ d3'] and w2 = record_written [OF r(2) _ _ _ _ n(5)]
  have d2: "dir_chain buildRootDir (0 + 12)"
    "dir_block buildRootDir (0 + 12) = Inr [\<lparr>de_inode = 2, de_nm = bs ''..'', de_fileType = 2\<rparr>, \<lparr>de_inode = 11, de_nm = bs ''lost+found'', de_fileType = 2\<rparr>]"
    using c2 r(4) by (simp_all add: entry_size_def del: bs_simps)
  note c1 = chain_written [OF r(1) _ _ _ _ n(4) _ d2] and w1 = record_written [OF r(1) _ _ _ _ n(4)]
  show "dir_chain buildRootDir 0" using c1 r(4) by (simp add: entry_size_def del: bs_simps)
  show "dir_block buildRootDir 0 = Inr root_dirents"
    unfolding root_dirents_def n(8) [symmetric] unfolding n(7) [symmetric] using c1(2) r(4) by (simp add: entry_size_def del: bs_simps)
  show "add_in_block child nm ft buildRootDir 0 \<noteq> Inr None" if l: "length nm < 256" "child \<noteq> 0"
  proof -
    have s: "entry_size (length nm) \<le> 266" using l entry_size_bounds(2) [of "length nm"] by linarith
    have s0: "8 \<le> entry_size (length nm)" using entry_size_bounds(1) [of "length nm"] by linarith
    have g: "get32 buildRootDir 0 = 2" "unat (get16 buildRootDir 4) = 12" "unat (buildRootDir ! 6) = 1"
      "get32 buildRootDir 12 = 2" "unat (get16 buildRootDir 16) = 12" "unat (buildRootDir ! 18) = 2"
      "get32 buildRootDir 24 = 11" "unat (get16 buildRootDir 28) = 4072" "unat (buildRootDir ! 30) = 10"
      using w1(1-3) w2(1-3) w3(1-3) r(4) by (simp_all add: entry_size_def rec_len_def name_len_def del: bs_simps)
    have "add_in_block child nm ft buildRootDir 0 = add_in_block child nm ft buildRootDir 12"
      using r(4) g s0 by (subst add_in_block.simps) (simp add: Let_def e)
    also have "\<dots> = add_in_block child nm ft buildRootDir 24"
      using r(4) g s0 by (subst add_in_block.simps) (simp add: Let_def e)
    also have "\<dots> = Inr (Some (Ext4Ops.put_entry (24 + 20) (4072 - 20) child nm ft (put16 buildRootDir (24 + 4) (of_nat 20))))"
      using r(4) g s by (subst add_in_block.simps) (simp add: Let_def e)
    finally show ?thesis by simp
  qed
qed

subsection \<open>The volume\<close>

lemma fmt_dir:
  assumes Z: "ext4_formatted f s fs T gd r ni j" and w: "num_groups T * ni < 2 ^ 32"
  defines "v \<equiv> fmt_vol fs (num_groups T) s" and "p \<equiv> of_nat (data_start gd r ni j 0 - 2)"
  shows "\<exists>i. dir_at f v inodeRoot i [] [p] [root_dirents]" "length nm < 256 \<Longrightarrow> has_room f v [p] nm"
    "ino_counts f v" "ino_used f v inodeRoot" "\<exists>g < ngroups v. clear_ino f v g \<noteq> None" "max_leaf v = 340" "bsz v = 4096"
    "k < 11 \<Longrightarrow> ino_used f v (of_nat k + 1)"
proof -
  note z = ext4_formattedD [OF Z]
  note K = ext4_okD [OF z(1)]
  note F = fmt_fields [OF Z, folded v_def] and O = fmt_ok [OF Z, folded v_def] and B = fmt_bits [OF Z, folded v_def]
  obtain i where i: "file_at f v inodeRoot i [] [p]" "i_mode i = 0x41ED" "inodeFileSize i = 4096" "blkv f v p = buildRootDir"
    using fmt_root [OF Z, folded v_def p_def] by blast
  have "is_dir i" by (simp add: is_dir_def i(2) modeFmt_def modeDir_def)
  then show "\<exists>i. dir_at f v inodeRoot i [] [p] [root_dirents]"
    using i F(1) root_dir_block(1,2) by (intro exI [of _ i]) (simp add: dir_at_def)
  show "has_room f v [p] nm" if "length nm < 256" using root_dir_block(3) [OF that] i(4) by (auto simp: has_room_def)
  show "ino_counts f v" by (rule O(3) [OF w])
  show "max_leaf v = 340" "bsz v = 4096" by (simp_all add: max_leaf_def F(1))
  have N0: "0 < num_groups T" using K(15) by simp
  have ni: "16 \<le> ni" "ni \<le> 32768" using K(5,6) by simp_all
  have ig: "es_inodesPerGroup (e_sb v) = of_nat ni" using parse_superblock [OF z(1), unfolded Let_def] by (simp add: v_def fmt_vol_def)
  have used: "ino_used f v (of_nat k + 1)" if k: "k < 11" for k
  proof -
    have "bit_at (blkv f v (im_blk v 0)) k" "k < ni" using B(2) [OF N0, of k] k ni(1) by simp_all
    moreover have "(of_nat k + 1 :: u32) = ino_no v 0 k" by (simp add: ino_no_def)
    ultimately show ?thesis unfolding ino_used_def F(3,5) using N0 by blast
  qed
  then show "k < 11 \<Longrightarrow> ino_used f v (of_nat k + 1)" .
  show "ino_used f v inodeRoot" using used [of 1] by (simp add: inodeRoot_def)
  have "\<not> bit_at (blkv f v (im_blk v 0)) 11" using B(2) [OF N0, of 11] ni by simp
  then have "clear_ino f v 0 \<noteq> None" unfolding clear_ino_def F(5) using first_clear_None [of "blkv f v (im_blk v 0)" ni] ni(1) by auto
  then show "\<exists>g < ngroups v. clear_ino f v g \<noteq> None" using N0 F(3) by auto
qed

text \<open>It agrees with the image, and its inode tables are where they should be.\<close>

lemma part_sub: "o' + n \<le> m \<Longrightarrow> sub (part_bytes f s off m) o' n = part_bytes f s (off + o') n"
  by (simp add: part_bytes_def sub_sub add.assoc)

lemma fmt_synced:
  assumes Z: "ext4_formatted f s fs T gd r ni j"
  shows "synced f (fmt_vol fs (num_groups T) s)"
proof -
  define v where "v = fmt_vol fs (num_groups T) s"
  note z = ext4_formattedD [OF Z]
  note K = ext4_okD [OF z(1)] and P = parse_superblock [OF z(1), unfolded Let_def]
  note F = fmt_fields [OF Z, folded v_def]
  define b where "b = buildSuperblock fs 0"
  have e: "e_sb v = parseSuperblock b" "e_sr v = \<lparr>sec_base = s_base s, sec_limit = s_base s + s_size s\<rparr>" "e_dirty v = []" "e_dirtyInodes v = []"
    by (simp_all add: v_def fmt_vol_def b_def)
  have "get16 b 56 = 0xEF53" using superblock_decode [OF refl, of fs 0] by (simp add: b_def)
  then have m: "es_magic (parseSuperblock b) = 0xEF53" by (simp add: parseSuperblock_def Let_def)
  have d: "disk_sb f v = b" using z(3) by (simp add: disk_sb_def e part_bytes_def b_def)
  have b0: "sub (blkv f v 0) 1024 1024 = b" using F(16) [of 0] z(3) by (simp add: part_sub b_def)
  have "num_groups T < 2 ^ 32" using K(12) by simp
  then have n: "unat (es_groupCount (e_sb v)) = ngroups v" using P F(3) by (simp add: e b_def unat_of_nat32)
  have "staged_gd f v g = e_groups v ! g" if g: "g < ngroups v" for g
  proof -
    have gT: "g < num_groups T" using g F(3) by simp
    have "g < 2 ^ 20" using gT K(12) by simp
    have "unat (gdt_blk v g) = 1 + g * 64 div 4096"
      unfolding F(12) [OF gT] using \<open>g < 2 ^ 20\<close> by (intro unat_of_nat64) (rule order_le_less_trans [of _ "1 + g * 64"]; simp)
    then have bl: "blkv f v (gdt_blk v g) = part_bytes f s ((1 + g * 64 div 4096) * 4096) 4096" using F(16) by simp
    have "(g * 64) mod 4096 = (g mod 64) * 64" using mult_mod_left [of g 64 64] by simp
    moreover have "g mod 64 + 1 \<le> 64" by (simp add: Suc_leI)
    ultimately have "(g * 64) mod 4096 + 64 \<le> 4096" by linarith
    moreover have "(1 + q) * 4096 + x = 4096 + 64 * g" if "q * 4096 + x = g * 64" for q x using that by simp
    from this [OF div_mult_mod_eq] have "(1 + g * 64 div 4096) * 4096 + (g * 64) mod 4096 = 4096 + 64 * g" .
    ultimately have "sub (blkv f v (gdt_blk v g)) ((g * 64) mod 4096) 64 = encodeGDE fs (of_nat g)"
      unfolding bl using z(4) [OF gT] by (simp only: part_sub)
    then have "staged_gd f v g = parseGroupDesc 64 (encodeGDE fs (of_nat g))" by (simp add: staged_gd_def F(13) [OF gT])
    then show ?thesis using gT by (simp add: v_def fmt_vol_def fmt_group_def)
  qed
  then have "synced f v" using F(1) P m n b0 d by (simp add: synced_def e b_def)
  then show ?thesis by (simp add: v_def)
qed

lemma fmt_tables:
  assumes Z: "ext4_formatted f s fs T gd r ni j"
  shows "tables_ok f (fmt_vol fs (num_groups T) s)"
    "x \<in> tabs (fmt_vol fs (num_groups T) s) \<Longrightarrow> \<exists>g < num_groups T. \<exists>m. bitmap_block gd r g + 2 \<le> m \<and> m < bitmap_block gd r g + 2 + ni div 16 \<and> m < T \<and> x = of_nat m"
proof -
  define v where "v = fmt_vol fs (num_groups T) s"
  note z = ext4_formattedD [OF Z]
  note K = ext4_okD [OF z(1)]
  note F = fmt_fields [OF Z, folded v_def] and O = fmt_ok [OF Z, folded v_def] and M = fmt_meta [OF Z, folded v_def]
  have t0: "tab0 v g = of_nat (bitmap_block gd r g + 2)" if g: "g < num_groups T" for g
  proof -
    have "unat (of_nat g :: u32) = g" using g K(12) by (intro unat_of_nat32) simp
    then have "inodeTableBlock v (of_nat g) = Inr (tab0 v g)" using g F(3) by (simp add: inodeTableBlock_def group_at_def tab0_def ngroups_def)
    then show ?thesis using F(9) [OF g] by simp
  qed
  have lim: "bitmap_block gd r g + 2 + ni div 16 \<le> data_start gd r ni j g" "data_start gd r ni j g \<le> group_end T g" "g * 32768 \<le> bitmap_block gd r g"
    "group_end T g \<le> T" "group_end T g \<le> g * 32768 + 32768" if "g < num_groups T" for g
    using data_start_bound [OF z(1) that] groups_fit(1) [OF Z that] by simp_all
  have un: "unat (of_nat m :: u64) = m" if "m < T" for m using that K(2) by (intro unat_of_nat64) simp
  have sp: "\<exists>m. bitmap_block gd r g + 2 \<le> m \<and> m < bitmap_block gd r g + 2 + ni div 16 \<and> m < T \<and> x = of_nat m"
    if g: "g < num_groups T" and x: "x \<in> tab_span v g" for g x
  proof -
    obtain k where k: "k < ni div 16" "x = tab0 v g + of_nat k" using x F(5) by (auto simp: tab_span_def)
    have "x = of_nat (bitmap_block gd r g + 2 + k)" unfolding k(2) t0 [OF g] by (simp only: of_nat_add)
    moreover have "bitmap_block gd r g + 2 + k < T" using lim [OF g] k(1) by linarith
    ultimately show ?thesis using k(1) by (intro exI [of _ "bitmap_block gd r g + 2 + k"]) simp
  qed
  then have tb: "\<exists>g < num_groups T. \<exists>m. bitmap_block gd r g + 2 \<le> m \<and> m < bitmap_block gd r g + 2 + ni div 16 \<and> m < T \<and> x = of_nat m" if "x \<in> tabs v" for x
    using that F(3) by (auto simp: tabs_def)
  then show "x \<in> tabs (fmt_vol fs (num_groups T) s) \<Longrightarrow> \<exists>g < num_groups T. \<exists>m. bitmap_block gd r g + 2 \<le> m \<and> m < bitmap_block gd r g + 2 + ni div 16 \<and> m < T \<and> x = of_nat m"
    by (simp add: v_def)
  have same: "g = h" if "g < num_groups T" "h < num_groups T" "g * 32768 \<le> m" "m < g * 32768 + 32768" "h * 32768 \<le> m" "m < h * 32768 + 32768" for g h m :: nat
  proof -
    have "g < h + 1" "h < g + 1" using that by linarith+
    then show ?thesis by simp
  qed
  have "unat (tab0 v g) + ni div 16 < 2 ^ 63" if g: "g < num_groups T" for g
  proof -
    have "bitmap_block gd r g + 2 < T" using lim [OF g] K(5) by linarith
    then have "unat (tab0 v g) = bitmap_block gd r g + 2" unfolding t0 [OF g] by (rule un)
    then have "unat (tab0 v g) + ni div 16 \<le> T" using lim [OF g] by linarith
    then show ?thesis using K(2) by simp
  qed
  moreover have "vblk v x \<and> x \<notin> meta v \<and> in_use f v x" if x: "x \<in> tabs v" for x
  proof -
    obtain g m where g: "g < num_groups T" "bitmap_block gd r g + 2 \<le> m" "m < bitmap_block gd r g + 2 + ni div 16" "m < T" "x = of_nat m" using tb [OF x] by blast
    have "x \<notin> meta v"
    proof
      assume "x \<in> meta v"
      then obtain h m' where h: "h < num_groups T" "h * 32768 \<le> m'" "m' < bitmap_block gd r h + 2" "x = of_nat m'" using M(1) by blast
      have "m' < T" using h(3) lim [OF h(1)] by linarith
      then have e: "m' = m" using un [OF g(4)] un [of m'] g(5) h(4) by simp
      have "h = g" by (rule same [OF h(1) g(1), of m]) (use h e g lim [OF g(1)] lim [OF h(1)] in linarith)+
      then show False using h(3) e g(2) by simp
    qed
    moreover have "vblk v x" using F(15) [of x] un [OF g(4)] g(4,5) by simp
    moreover have "in_use f v x" unfolding g(5) by (rule O(5) [OF g(1)]) (use g lim [OF g(1)] in linarith)+
    ultimately show ?thesis by blast
  qed
  moreover have "tab_span v g \<inter> tab_span v h = {}" if g: "g < num_groups T" "h < num_groups T" "g \<noteq> h" for g h
  proof -
    have False if x: "x \<in> tab_span v g" "x \<in> tab_span v h" for x
    proof -
      obtain m m' where m: "bitmap_block gd r g + 2 \<le> m" "m < bitmap_block gd r g + 2 + ni div 16" "m < T" "x = of_nat m"
        "bitmap_block gd r h + 2 \<le> m'" "m' < bitmap_block gd r h + 2 + ni div 16" "m' < T" "x = of_nat m'"
        using sp [OF g(1) x(1)] sp [OF g(2) x(2)] by blast
      have "m' = m" using un [OF m(3)] un [OF m(7)] m(4,8) by simp
      then have "g = h" by (intro same [OF g(1,2), of m]) (use m lim [OF g(1)] lim [OF g(2)] in linarith)+
      then show False using g(3) by simp
    qed
    then show ?thesis by blast
  qed
  ultimately have "tables_at v" using F(1,2,3,5) K(7) by (simp add: tables_at_def)
  moreover have "blkv f v x = sub (contents f) (blk_pos v x) (bsz v)" for x by (simp add: blkv_def blk_pos_def v_def fmt_vol_def)
  ultimately show "tables_ok f (fmt_vol fs (num_groups T) s)"
    using \<open>\<And>x. x \<in> tabs v \<Longrightarrow> vblk v x \<and> x \<notin> meta v \<and> in_use f v x\<close> by (simp add: tables_ok_def v_def)
qed

text \<open>The block of the root directory is behind the inode tables.\<close>

lemma fmt_root_apart:
  assumes Z: "ext4_formatted f s fs T gd r ni j"
  shows "of_nat (data_start gd r ni j 0 - 2) \<notin> tabs (fmt_vol fs (num_groups T) s)"
proof
  note z = ext4_formattedD [OF Z]
  note K = ext4_okD [OF z(1)] and W = ext4_ok_fields [OF z(1)]
  define n where "n = data_start gd r ni j 0 - 2"
  assume "of_nat (data_start gd r ni j 0 - 2) \<in> tabs (fmt_vol fs (num_groups T) s)"
  then obtain g m where g: "g < num_groups T" "bitmap_block gd r g + 2 \<le> m" "m < bitmap_block gd r g + 2 + ni div 16" "m < T" "of_nat n = (of_nat m :: u64)"
    using fmt_tables(2) [OF Z] unfolding n_def by blast
  have nl: "n < 32768" using W(14) by (simp add: n_def data_start_def)
  have "unat (of_nat n :: u64) = n" using nl by (intro unat_of_nat64) simp
  moreover have "unat (of_nat m :: u64) = m" using g(4) K(2) by (intro unat_of_nat64) simp
  ultimately have "n = m" using arg_cong [OF g(5), of unat] by linarith
  moreover have "g * 32768 \<le> m" using g(2) data_start_bound(4) [OF z(1) g(1)] by linarith
  ultimately have "g = 0" using nl by (cases g) simp_all
  then show False using g(3) \<open>n = m\<close> K(8) by (simp add: n_def data_start_def)
qed

lemma fmt_can_unmount:
  assumes Z: "ext4_formatted f s fs T gd r ni j" and sz: "file_size f < 2 ^ 63"
  shows "can_unmount f (fmt_vol fs (num_groups T) s)"
proof -
  have "e_wa (fmt_vol fs (num_groups T) s)" "e_srOffset (fmt_vol fs (num_groups T) s) = sec_base (e_sr (fmt_vol fs (num_groups T) s))"
    "e_dirtyInodes (fmt_vol fs (num_groups T) s) = []" by (simp_all add: fmt_vol_def)
  then show ?thesis
    unfolding can_unmount_def using fmt_ok(1,2) [OF Z] fmt_synced [OF Z] fmt_tables(1) [OF Z] sz by (simp add: file_size_def)
qed

text \<open>Formatting a partition and opening it.\<close>

lemma format_open:
  assumes F: "2 ^ 24 \<le> s_size s" "s_size s < 2 ^ 47" "rws_ok f s" "\<not> closed f" "ext4_layout now uuid (s_size s) opts = Inr fs" "ext4_fits fs"
    and sz: "file_size f < 2 ^ 63" and w: "unat (el_numGroups fs) * unat (el_inodesPerGrp fs) < 2 ^ 32"
  obtains f' s' v di p where "ext4_Format now (Inr uuid) (s_size s) opts (f, s) = (Inr (), f', s')" "e4_Open f' (s_base s) (s_size s) = Inr v"
    "can_unmount f' v" "dir_at f' v inodeRoot di [] [p] [root_dirents]" "p \<notin> tabs v" "\<forall>nm. length nm < 256 \<longrightarrow> has_room f' v [p] nm"
    "ino_counts f' v" "ino_used f' v inodeRoot" "\<exists>g < ngroups v. clear_ino f' v g \<noteq> None" "max_leaf v = 340" "bsz v = 4096"
    "nfree f' v = unat (sb_freeBlocks fs)" "sec_base (e_sr v) = s_base s" "sec_size (e_sr v) = s_size s" "e_sb v = parseSuperblock (buildSuperblock fs 0)"
    "\<forall>k < 11. ino_used f' v (of_nat k + 1)"
proof -
  obtain f' s' T gd r ni j where G: "ext4_Format now (Inr uuid) (s_size s) opts (f, s) = (Inr (), f', s')" and Z: "ext4_formatted f' s fs T gd r ni j"
    and l: "file_size f' = file_size f" by (rule ext4_Format_image_len [OF F])
  note z = ext4_formattedD [OF Z]
  note K = ext4_okD [OF z(1)] and W = ext4_ok_fields [OF z(1)]
  define v where "v = fmt_vol fs (num_groups T) s"
  define p :: u64 where "p = of_nat (data_start gd r ni j 0 - 2)"
  have l63: "file_size f' < 2 ^ 63" using sz l by simp
  have wrap: "num_groups T * ni < 2 ^ 32" using w K(10) W(9) by simp
  note D = fmt_dir [OF Z wrap, folded v_def p_def]
  obtain di where di: "dir_at f' v inodeRoot di [] [p] [root_dirents]" using D(1) by blast
  have "nfree f' v = (\<Sum>g < num_groups T. clear_bits (buildBlockBitmap fs (of_nat g)))"
    using fmt_ok(4) [OF Z] clear_block_bits(2) [OF z(1)] by (simp add: v_def)
  then have n: "nfree f' v = unat (sb_freeBlocks fs)" using sb_freeBlocks_sum [OF z(1)] by simp
  have e: "sec_base (e_sr v) = s_base s" "sec_size (e_sr v) = s_size s" "e_sb v = parseSuperblock (buildSuperblock fs 0)"
    by (simp_all add: v_def fmt_vol_def sec_size_def)
  have used: "\<forall>k < 11. ino_used f' v (of_nat k + 1)" using D(8) by blast
  have room: "\<forall>nm. length nm < 256 \<longrightarrow> has_room f' v [p] nm" using D(2) by blast
  show thesis
    by (rule that [OF G fmt_Open [OF Z l63, folded v_def] fmt_can_unmount [OF Z l63, folded v_def] di
          fmt_root_apart [OF Z, folded v_def p_def] room D(3-7) n e used])
qed

text \<open>The layout of a partition of 16 MiB: one group with 2987 free blocks.\<close>

lemma sample_layout:
  obtains fs where "ext4_layout 0 (zeros 16) 16777216 ext4_opts = Inr fs" "ext4_fits fs" "unat (el_numGroups fs) = 1" "unat (el_inodesPerGrp fs) = 1024"
    "unat (sb_freeBlocks fs) = 2987"
proof -
  have u: "[0..<unat (1 :: u32)] = [0]" by simp
  have b: "hasSuperBackup 0 = Some True" by (simp add: hasSuperBackup_def)
  have "\<exists>fs. ext4_layout 0 (zeros 16) 16777216 ext4_opts = Inr fs \<and> ext4_fits fs \<and> unat (el_numGroups fs) = 1 \<and> unat (el_inodesPerGrp fs) = 1024 \<and>
      unat (sb_freeBlocks fs) = 2987"
    by (simp add: ext4_layout_def ext4_computeLayout_def ext4_inodesPerGrp_def ext4_defaults_def ext4_opts_def Let_def ext4_reservedGDT_def
      ext4_journalSize_def group_layout_def ext4_fits_def blocksPerGroup_def u b quot_def sb_freeBlocks_def)
  then show thesis using that by blast
qed

end
