(* ===== verification/Ext4Handle.thy ===== *)
theory Ext4Handle
  imports Ext4Create
begin

text \<open>
  Handles of an ext4 volume as byte arrays: every sequence of reads, writes and seeks on an open
  file answers as the same sequence on an array of bytes with a position, whatever blocks and
  extents the volume uses for it.
\<close>

subsection \<open>Simulation\<close>

fun run_ops :: "('o \<Rightarrow> 's \<Rightarrow> 'r \<times> 's) \<Rightarrow> 'o list \<Rightarrow> 's \<Rightarrow> 'r list \<times> 's" where
  "run_ops st [] s = ([], s)"
| "run_ops st (x # xs) s = (case st x s of (r, s') \<Rightarrow> case run_ops st xs s' of (rs, t) \<Rightarrow> (r # rs, t))"

text \<open>Operations that are allowed one after the other.\<close>

fun allowed :: "('o \<Rightarrow> 's \<Rightarrow> 'r \<times> 's) \<Rightarrow> ('o \<Rightarrow> 's \<Rightarrow> bool) \<Rightarrow> 'o list \<Rightarrow> 's \<Rightarrow> bool" where
  "allowed st ok [] s \<longleftrightarrow> True"
| "allowed st ok (x # xs) s \<longleftrightarrow> ok x s \<and> allowed st ok xs (snd (st x s))"

text \<open>
  A system \<open>step\<close> that answers as an abstract one, \<open>spec\<close>, does: from related states, for an
  operation that the abstract state allows, it gives the same answer and stays related.
\<close>

locale simulation =
  fixes step :: "'o \<Rightarrow> 's \<Rightarrow> 'r \<times> 's" and spec :: "'o \<Rightarrow> 'a \<Rightarrow> 'r \<times> 'a" and ok :: "'o \<Rightarrow> 'a \<Rightarrow> bool" and rel :: "'s \<Rightarrow> 'a \<Rightarrow> bool"
  assumes simulates: "rel s a \<Longrightarrow> ok x a \<Longrightarrow> \<exists>s'. step x s = (fst (spec x a), s') \<and> rel s' (snd (spec x a))"
begin

lemma run_simulates:
  "rel s a \<Longrightarrow> allowed spec ok xs a \<Longrightarrow> \<exists>s'. run_ops step xs s = (fst (run_ops spec xs a), s') \<and> rel s' (snd (run_ops spec xs a))"
proof (induction xs arbitrary: s a)
  case (Cons x xs)
  obtain s1 where 1: "step x s = (fst (spec x a), s1)" "rel s1 (snd (spec x a))" using simulates Cons.prems by force
  obtain s2 where 2: "run_ops step xs s1 = (fst (run_ops spec xs (snd (spec x a))), s2)" "rel s2 (snd (run_ops spec xs (snd (spec x a))))"
    using Cons.IH [OF 1(2)] Cons.prems(2) by auto
  show ?case using 1(1) 2 by (intro exI [of _ s2]) (simp add: split_beta)
qed simp

end

subsection \<open>Byte arrays with a position\<close>

datatype fileop = FRead nat | FWrite u32 bytes | FSeek nat

datatype fileans = ARead bytes "goerr option" | AWrite nat "goerr option" | ASeek "goerr + int"

definition bf_op :: "fileop \<Rightarrow> bytes \<times> nat \<Rightarrow> fileans \<times> (bytes \<times> nat)" where
  "bf_op x = (\<lambda>(c, pos). case x of
     FRead n \<Rightarrow> (ARead (sub c pos n) (if length c \<le> pos then Some EOF else None), (c, pos + length (sub c pos n)))
   | FWrite now d \<Rightarrow> (AWrite (length d) None, (write_bytes c pos d, pos + length d))
   | FSeek p \<Rightarrow> (ASeek (Inr (int p)), (c, p)))"

text \<open>Writing leaves no gap and does not go beyond the byte \<open>M\<close>.\<close>

definition bf_ok :: "nat \<Rightarrow> fileop \<Rightarrow> bytes \<times> nat \<Rightarrow> bool" where
  "bf_ok M x = (\<lambda>(c, pos). case x of FRead n \<Rightarrow> True | FWrite now d \<Rightarrow> pos \<le> length c \<and> pos + length d \<le> M | FSeek p \<Rightarrow> True)"

subsection \<open>Handles\<close>

definition ef_op :: "gofile \<Rightarrow> fileop \<Rightarrow> ext4vol \<times> ext4File \<Rightarrow> fileans \<times> (ext4vol \<times> ext4File)" where
  "ef_op f x = (\<lambda>(v, h). case x of
     FRead n \<Rightarrow> (case ef_Read f v n h of ((d, e), h') \<Rightarrow> (ARead d e, (v, h')))
   | FWrite now d \<Rightarrow> (case ef_Write now f d (v, h) of ((n, e), s') \<Rightarrow> (AWrite n e, s'))
   | FSeek p \<Rightarrow> (case ef_Seek (int p) 0 h of (r, h') \<Rightarrow> (ASeek r, (v, h'))))"

text \<open>An open file with room for it to grow to \<open>M\<close> bytes.\<close>

definition handle_at :: "gofile \<Rightarrow> nat \<Rightarrow> ext4vol \<times> ext4File \<Rightarrow> bytes \<times> nat \<Rightarrow> bool" where
  "handle_at f M = (\<lambda>(v, h) (c, pos). \<exists>ls ps. file_at f v (ef_num h) (ef_in h) ls ps \<and> sized v (ef_in h) ps \<and>
     file_content f v (ef_in h) ps = c \<and> ef_writable h \<and> ef_offset h = int pos \<and>
     blocks_of v M \<le> 4 * max_leaf v \<and> blocks_of v M + 4 \<le> nfree f v + length ls + length ps)"

lemma content_length:
  assumes F: "file_at f v num i ls ps" and S: "sized v i ps"
  shows "length (file_bytes f v ps) = length ps * bsz v" "length (file_content f v i ps) = nat (inodeFileSize i)" "0 \<le> inodeFileSize i"
    "inodeFileSize i \<le> int (length ps * bsz v)" "nat (inodeFileSize i) \<le> length ps * bsz v"
proof -
  have s: "file_state f v num i ls ps" using F by (simp add: file_at_def)
  have "\<forall>p \<in> set ps. vblk v p" using file_vblk [OF file_stateD(5) [OF s]] by blast
  then show lb: "length (file_bytes f v ps) = length ps * bsz v" by (rule length_file_bytes [OF vol_okD(2) [OF file_stateD(1) [OF s]]])
  show sz: "0 \<le> inodeFileSize i" "inodeFileSize i \<le> int (length ps * bsz v)" using S by (simp_all add: sized_def)
  then show "nat (inodeFileSize i) \<le> length ps * bsz v" by (simp add: nat_le_iff)
  then show "length (file_content f v i ps) = nat (inodeFileSize i)" using lb by (simp add: file_content_def)
qed

lemma readFileRange_sub:
  assumes F: "file_at f v num i ls ps" and S: "sized v i ps"
  shows "readFileRange f v i off n = (sub (file_content f v i ps) off n, if length (file_content f v i ps) \<le> off then Some EOF else None)"
proof -
  have s: "file_state f v num i ls ps" using F by (simp add: file_at_def)
  note g = vol_okD(2) [OF file_stateD(1) [OF s]] and t = file_stateD(5) [OF s] and l = content_length(2) [OF F S] and sz = content_length(3,4) [OF F S]
  show ?thesis
  proof (cases "inodeFileSize i \<le> int off")
    case True
    then show ?thesis using l by (simp add: readFileRange_def Let_def nat_le_iff sub_def)
  next
    case False
    define m where "m = min n (nat (inodeFileSize i - int off))"
    have "off + m \<le> length ps * bsz v" using False sz(2) by (simp add: m_def min_def del: of_nat_mult) linarith
    from read_range_tree [OF g t this] have "readFileRange f v i off n = (sub (file_bytes f v ps) off m, None)"
      using False by (simp add: readFileRange_def Let_def m_def)
    moreover have "sub (file_bytes f v ps) off m = sub (file_content f v i ps) off n"
    proof -
      have "nat (inodeFileSize i) - off = nat (inodeFileSize i - int off)" using sz(1) by linarith
      then show ?thesis by (simp add: file_content_def sub_def m_def drop_take take_take)
    qed
    ultimately show ?thesis using False l sz(1) by (simp add: nat_le_iff)
  qed
qed

lemma take_written:
  assumes "sz \<le> length b" "off \<le> sz" "off + length d \<le> length b + k" "d \<noteq> []"
  shows "take (max sz (off + length d)) (copy_into (b @ zeros k) off d) = write_bytes (take sz b) off d"
  using assms by (intro nth_equalityI) (auto simp: length_write_bytes nth_write_bytes nth_copy_into nth_append)

lemma handle_write:
  assumes H: "handle_at f M (v, h) (c, pos)" and p: "pos \<le> length c" "pos + length d \<le> M"
  shows "\<exists>s'. ef_op f (FWrite now d) (v, h) = (AWrite (length d) None, s') \<and> handle_at f M s' (write_bytes c pos d, pos + length d)"
proof -
  obtain ls ps where F: "file_at f v (ef_num h) (ef_in h) ls ps" and S: "sized v (ef_in h) ps" and c: "file_content f v (ef_in h) ps = c"
    and w: "ef_writable h" "ef_offset h = int pos" and m: "blocks_of v M \<le> 4 * max_leaf v" "blocks_of v M + 4 \<le> nfree f v + length ls + length ps"
    using H by (auto simp: handle_at_def)
  have s: "file_state f v (ef_num h) (ef_in h) ls ps" and ri: "readInode f v (ef_num h) = Inr (ef_in h)" using F by (simp_all add: file_at_def)
  note g = vol_okD(2) [OF file_stateD(1) [OF s]] and C = content_length [OF F S]
  note lb = C(1) and sz = C(3,4) and lc = C(2) [unfolded c] C(5)
  show ?thesis
  proof (cases "d = []")
    case True
    have "int pos < 2 ^ 63"
    proof -
      have "pos \<le> length ps * bsz v" using p(1) lc by linarith
      then have "pos < 2 ^ 63" by (rule order_le_less_trans) (rule order_less_trans [OF file_size_bound [OF s]], simp)
      then show ?thesis by simp
    qed
    then have "ef_op f (FWrite now d) (v, h) = (AWrite 0 None, (v, h))"
      using True w ri by (simp add: ef_op_def ef_Write_def writeFileRange_def Let_def wrap64_id)
    then show ?thesis using H True by (simp add: write_bytes_def)
  next
    case False
    have b0: "0 < bsz v" by (rule geoD(6) [OF g])
    have "blocks_of v (pos + length d) \<le> blocks_of v M" using p(2) by (auto simp: blocks_of_def intro: div_le_mono)
    then have B: "blocks_of v (pos + length d) \<le> 4 * max_leaf v"
      "blocks_of v (pos + length d) \<le> length ps \<or> blocks_of v (pos + length d) + 4 \<le> length ps + nfree f v + length ls" using m by linarith+
    have o: "pos \<le> length ps * bsz v" using p(1) lc by linarith
    obtain v' i' ls' qs N where W: "writeFileRange now f (ef_num h) pos d (v, ef_in h) = ((length d, None), (v', i'))"
      "file_at f v' (ef_num h) i' ls' (ps @ qs)" "inode_after now (pos + length d) (ef_in h) i'"
      "length (ps @ qs) = max (length ps) (blocks_of v (pos + length d))"
      "file_bytes f v' (ps @ qs) = copy_into (file_bytes f v ps @ zeros (length qs * bsz v)) pos d"
      "vstep f v N (N \<union> set ps \<union> set ls) v'" "nfree f v' + length ls' + length qs = nfree f v + length ls"
      using writeFileRange_ok [OF F o False B, of now] by blast
    have s': "file_state f v' (ef_num h) i' ls' (ps @ qs)" and ri': "readInode f v' (ef_num h) = Inr i'" using W(2) by (simp_all add: file_at_def)
    note S' = vstepD(1) [OF W(6)]
    note D = shape_derived [OF S'] and X = shape_more [OF S']
    have "blocks_of v (pos + length d) \<le> length (ps @ qs)" using W(4) by linarith
    then have n: "pos + length d \<le> length (ps @ qs) * bsz v" using blocks_of_le [OF b0] by simp
    have "length (ps @ qs) * bsz v < 2 ^ 36" using file_size_bound [OF s'] unfolding D(1) .
    then have "pos + length d < 2 ^ 36" using n by linarith
    then have n63: "pos + length d < 2 ^ 63" "int (pos + length d) < 2 ^ 63" by simp_all
    have sz': "inodeFileSize i' = max (inodeFileSize (ef_in h)) (int (pos + length d))" by (rule inode_after_size [OF W(3) n63(1)])
    have "nat (inodeFileSize i') = max (nat (inodeFileSize (ef_in h))) (pos + length d)" using sz(1) unfolding sz' by linarith
    then have c': "file_content f v' i' (ps @ qs) = write_bytes c pos d"
      using take_written [of "nat (inodeFileSize (ef_in h))" "file_bytes f v ps" pos d "length qs * bsz v"] lb lc p(1) n False c
      by (simp add: file_content_def W(5) algebra_simps)
    have "length ps * bsz v \<le> length (ps @ qs) * bsz v" by simp
    then have "inodeFileSize i' \<le> int (length (ps @ qs) * bsz v)"
      using sz n unfolding sz' by (intro max.boundedI; linarith)
    then have S2: "sized v' i' (ps @ qs)" using sz D(1) unfolding sized_def sz' by auto
    define h' where "h' = h\<lparr>ef_in := i', ef_offset := int (pos + length d)\<rparr>"
    have "wrap64 (int pos + int (length d)) = int (pos + length d)" using n63(2) by (subst wrap64_id) simp_all
    then have "ef_op f (FWrite now d) (v, h) = (AWrite (length d) None, (v', h'))"
      using w W(1) ri' by (simp add: ef_op_def ef_Write_def Let_def h'_def)
    moreover have "handle_at f M (v', h') (write_bytes c pos d, pos + length d)"
    proof -
      have b: "blocks_of v' M = blocks_of v M" using D(1) by (simp add: blocks_of_def)
      have k: "blocks_of v' M \<le> 4 * max_leaf v'" "blocks_of v' M + 4 \<le> nfree f v' + length ls' + length (ps @ qs)"
        using m W(7) unfolding b X(1) by simp_all
      show ?thesis unfolding handle_at_def prod.case
        by (intro exI [of _ ls'] exI [of _ "ps @ qs"] conjI k) (use W(2) S2 c' w(1) in \<open>simp_all add: h'_def\<close>)
    qed
    ultimately show ?thesis by blast
  qed
qed

interpretation ef: simulation "ef_op f" bf_op "bf_ok M" "handle_at f M" for f M
proof
  fix s a x assume r: "handle_at f M s a" and o: "bf_ok M x a"
  obtain v h c pos where e: "s = (v, h)" "a = (c, pos)" by (metis surj_pair)
  obtain ls ps where F: "file_at f v (ef_num h) (ef_in h) ls ps" and S: "sized v (ef_in h) ps" and c: "file_content f v (ef_in h) ps = c"
    and w: "ef_writable h" "ef_offset h = int pos" and m: "blocks_of v M \<le> 4 * max_leaf v" "blocks_of v M + 4 \<le> nfree f v + length ls + length ps"
    using r by (auto simp: e handle_at_def)
  show "\<exists>s'. ef_op f x s = (fst (bf_op x a), s') \<and> handle_at f M s' (snd (bf_op x a))"
  proof (cases x)
    case (FRead n)
    have "ef_op f x s = (fst (bf_op x a), (v, h\<lparr>ef_offset := int (pos + length (sub c pos n))\<rparr>))"
      using readFileRange_sub [OF F S, of pos n] w c by (simp add: e FRead ef_op_def ef_Read_def Let_def bf_op_def)
    moreover have "handle_at f M (v, h\<lparr>ef_offset := int (pos + length (sub c pos n))\<rparr>) (snd (bf_op x a))"
      unfolding handle_at_def using F S c w m by (auto simp: e FRead bf_op_def)
    ultimately show ?thesis by blast
  next
    case (FWrite now d)
    then show ?thesis using handle_write [of f M v h c pos d now] r o by (simp add: e bf_ok_def bf_op_def)
  next
    case (FSeek p)
    have "ef_op f x s = (fst (bf_op x a), (v, h\<lparr>ef_offset := int p\<rparr>))" by (simp add: e FSeek ef_op_def ef_Seek_def Let_def bf_op_def)
    moreover have "handle_at f M (v, h\<lparr>ef_offset := int p\<rparr>) (snd (bf_op x a))"
      unfolding handle_at_def using F S c w m by (auto simp: e FSeek bf_op_def)
    ultimately show ?thesis by blast
  qed
qed

text \<open>Opening a file gives such a handle.\<close>

lemma inodeFileSize_truncated: "inodeFileSize (truncated i\<lparr>i_mtime := now\<rparr>) = 0"
  by (simp add: truncated_def inodeFileSize_def wrap64_def)

lemma open_handle:
  assumes L: "e4_lookupPath f v p = Inr num" and F: "file_at f v num i ls ps" and S: "sized v i ps" and fl: "fl_writable fl" "\<not> fl_excl fl"
    and m: "blocks_of v M \<le> 4 * max_leaf v" "blocks_of v M + 4 \<le> nfree f v + length ls + length ps"
    and c: "c = (if fl_trunc fl then [] else file_content f v i ps)" and pos: "pos = (if fl_append fl then length c else 0)"
  shows "\<exists>h v1. e4_OpenFile now f p fl perm v = (Inr h, v1) \<and> handle_at f M (v1, h) (c, pos) \<and> ef_num h = num"
proof -
  have ri: "readInode f v num = Inr i" using F by (simp add: file_at_def)
  have on: "open_num now f p fl perm v = (Inr num, v)" using L fl(2) by (simp add: open_num_def tryS_def lookupVol_def readS_def retS_def)
  show ?thesis
  proof (cases "fl_trunc fl")
    case False
    have "length (file_content f v i ps) = nat (inodeFileSize i)" "0 \<le> inodeFileSize i" using content_length [OF F S] by simp_all
    then have o: "(if fl_append fl then inodeFileSize i else 0) = int pos" using c pos False by simp
    have "e4_OpenFile now f p fl perm v = (Inr \<lparr>ef_num = num, ef_in = i, ef_offset = int pos, ef_writable = True\<rparr>, v)"
      using on ri False fl(1) o by (simp add: e4_OpenFile_def bindS_def inodeVol_def readS_def retS_def Let_def)
    moreover have "handle_at f M (v, \<lparr>ef_num = num, ef_in = i, ef_offset = int pos, ef_writable = True\<rparr>) (c, pos)"
      unfolding handle_at_def prod.case by (intro exI [of _ ls] exI [of _ ps] conjI m) (use F S c False in simp_all)
    ultimately show ?thesis by auto
  next
    case True
    define i' where "i' = truncated i\<lparr>i_mtime := now\<rparr>"
    have b: "i_block i' = i_block i" "i_flags i' = i_flags i" by (simp_all add: i'_def truncated_def)
    obtain v1 where v1: "writeInode f num i' v = (Inr (), v1)" "file_at f v1 num i' ls ps" "vstep f v {} {} v1"
      using writeInode_file [OF F b] by blast
    have z: "inodeFileSize i' = 0" unfolding i'_def by (rule inodeFileSize_truncated)
    note s = vstepD [OF v1(3)]
    note D = shape_derived [OF s(1)] and X = shape_more [OF s(1)]
    have n: "nfree f v1 = nfree f v" using s(7) by simp
    have cp: "c = []" "pos = 0" using c pos True by simp_all
    have "e4_OpenFile now f p fl perm v = (Inr \<lparr>ef_num = num, ef_in = i', ef_offset = 0, ef_writable = True\<rparr>, v1)"
      using on ri True fl(1) v1(1) z
      by (simp add: e4_OpenFile_def bindS_def inodeVol_def readS_def retS_def Let_def ignoreS_def tryS_def i'_def [symmetric])
    moreover have "handle_at f M (v1, \<lparr>ef_num = num, ef_in = i', ef_offset = 0, ef_writable = True\<rparr>) (c, pos)"
    proof -
      have bm: "blocks_of v1 M = blocks_of v M" using D(1) by (simp add: blocks_of_def)
      have k: "blocks_of v1 M \<le> 4 * max_leaf v1" "blocks_of v1 M + 4 \<le> nfree f v1 + length ls + length ps" using m unfolding bm X(1) n by simp_all
      show ?thesis unfolding handle_at_def prod.case
        by (intro exI [of _ ls] exI [of _ ps] conjI k) (use v1(2) z cp in \<open>simp_all add: sized_def file_content_def\<close>)
    qed
    ultimately show ?thesis by auto
  qed
qed

text \<open>The operations keep the inode number of a handle.\<close>

lemma ef_op_num: "ef_num (snd (snd (ef_op f x s))) = ef_num (snd s)"
  by (cases x) (auto simp: ef_op_def ef_Read_def ef_Write_def ef_Seek_def Let_def split: prod.split)

lemma ef_ops_num: "ef_num (snd (snd (run_ops (ef_op f) xs s))) = ef_num (snd s)"
  by (induction xs arbitrary: s) (simp_all add: split_beta ef_op_num)

end
