(* ===== verification/Ext4Props.thy ===== *)
theory Ext4Props
  imports Ext4Fresh Ext4Handle
begin

text \<open>
  The properties of the ext4 driver: files written through it are byte arrays, creating a file
  leaves the others alone, a volume survives unmounting, and formatter and driver agree; and the
  cases in which the driver loses data or does not return.
\<close>

unbundle bit_operations_syntax

subsection \<open>A sample volume\<close>

text \<open>The volume on a partition of 16 MiB, formatted and opened.\<close>

lemma sample_volume:
  obtains f' s' fs v di p where "ext4_layout 0 (zeros 16) 16777216 ext4_opts = Inr fs" "ext4_fits fs"
    "ext4_Format 0 (Inr (zeros 16)) 16777216 ext4_opts (blank_disk 16777216, window_of 16777216) = (Inr (), f', s')"
    "e4_Open f' 0 16777216 = Inr v" "can_unmount f' v" "dir_at f' v inodeRoot di [] [p] [root_dirents]" "p \<notin> tabs v"
    "\<forall>nm. length nm < 256 \<longrightarrow> has_room f' v [p] nm" "ino_counts f' v" "ino_used f' v inodeRoot" "\<exists>g < ngroups v. clear_ino f' v g \<noteq> None"
    "max_leaf v = 340" "bsz v = 4096" "nfree f' v = 2987" "sec_base (e_sr v) = 0" "sec_size (e_sr v) = 16777216" "ino_used f' v 5"
proof -
  obtain fs where fs: "ext4_layout 0 (zeros 16) 16777216 ext4_opts = Inr fs" "ext4_fits fs" "unat (el_numGroups fs) = 1" "unat (el_inodesPerGrp fs) = 1024"
    "unat (sb_freeBlocks fs) = 2987" by (rule sample_layout)
  have h: "s_size (window_of 16777216) = 16777216" "s_base (window_of 16777216) = 0" by (simp_all add: window_of_def)
  have c: "(2 :: int) ^ 24 \<le> 16777216" "(16777216 :: int) < 2 ^ 47" "file_size (blank_disk 16777216) < 2 ^ 63"
    "unat (el_numGroups fs) * unat (el_inodesPerGrp fs) < 2 ^ 32" using fs(3,4) by (simp_all add: file_size_def blank_disk_def)
  obtain f' s' v di p where "ext4_Format 0 (Inr (zeros 16)) 16777216 ext4_opts (blank_disk 16777216, window_of 16777216) = (Inr (), f', s')"
    "e4_Open f' 0 16777216 = Inr v" "can_unmount f' v" "dir_at f' v inodeRoot di [] [p] [root_dirents]" "p \<notin> tabs v"
    "\<forall>nm. length nm < 256 \<longrightarrow> has_room f' v [p] nm" "ino_counts f' v" "ino_used f' v inodeRoot" "\<exists>g < ngroups v. clear_ino f' v g \<noteq> None"
    "max_leaf v = 340" "bsz v = 4096" "nfree f' v = unat (sb_freeBlocks fs)" "sec_base (e_sr v) = 0" "sec_size (e_sr v) = 16777216"
    "e_sb v = parseSuperblock (buildSuperblock fs 0)" "\<forall>k < 11. ino_used f' v (of_nat k + 1)"
    by (rule format_open [of "window_of 16777216" "blank_disk 16777216" 0 "zeros 16" ext4_opts fs, unfolded h, OF c(1,2) sample_windows(1,2) fs(1,2) c(3,4)])
  moreover have "ino_used f' v 5" if "\<forall>k < 11. ino_used f' v (of_nat k + 1)" using that [rule_format, of 4] by simp
  ultimately show thesis using that fs(1,2,5) by metis
qed

text \<open>The same volume with the file \<open>hello.txt\<close> in it.\<close>

lemma sample_name:
  "Clean (slash # bs ''hello.txt'') = slash # bs ''hello.txt''" "plain_elem (bs ''hello.txt'')" "length (bs ''hello.txt'') < 256"
  "bs ''hello.txt'' \<noteq> bs ''lost+found''" "bs ''hello.txt'' \<notin> de_nm ` set (concat [root_dirents])"
  by code_simp+

lemma sample_file:
  obtains f v num i ls ps where "can_unmount f v" "e4_lookupPath f v (bs ''hello.txt'') = Inr num" "file_at f v num i ls ps" "sized v i ps"
    "file_content f v i ps = bs ''hello, world''" "set (ps @ ls) \<inter> tabs v = {}" "max_leaf v = 340" "bsz v = 4096" "2987 \<le> nfree f v + length ls + length ps"
    "sec_base (e_sr v) = 0" "sec_size (e_sr v) = 16777216"
proof -
  obtain f s' fs v di p where V: "e4_Open f 0 16777216 = Inr v" "can_unmount f v" "dir_at f v inodeRoot di [] [p] [root_dirents]" "p \<notin> tabs v"
    "\<forall>nm. length nm < 256 \<longrightarrow> has_room f v [p] nm" "ino_counts f v" "ino_used f v inodeRoot" "\<exists>g < ngroups v. clear_ino f v g \<noteq> None"
    "max_leaf v = 340" "bsz v = 4096" "nfree f v = 2987" "sec_base (e_sr v) = 0" "sec_size (e_sr v) = 16777216" by (rule sample_volume) blast
  have sz: "blocks_of v (length (bs ''hello, world'')) \<le> 4 * max_leaf v"
    "bs ''hello, world'' = [] \<or> blocks_of v (length (bs ''hello, world'')) + 4 \<le> nfree f v" using V(9-11) by (simp_all add: blocks_of_def)
  obtain num v' where c: "created f v inodeRoot di [] [p] [root_dirents] (bs ''hello.txt'') (bs ''hello, world'') (0x8000 OR perm_bits 0x1A4) num v'"
    using WriteFile_new [OF V(3,6,7) sample_name(1,2,3,5) V(5) [rule_format, OF sample_name(3)] sz V(8), of 0 "0x1A4"] by blast
  have sh: "shape v' = shape v" using c by (simp add: created_def)
  have val: "valid_ino v inodeRoot" using V(3) by (simp add: dir_at_def file_at_def file_state_def)
  have dt: "set [p] \<inter> tabs v = {}" using V(4) by simp
  note U = created_can_unmount [OF V(2) c val dt]
  obtain i ls ps where n: "file_at f v' num i ls ps" "\<forall>x \<in> set (ps @ ls). \<not> in_use f v x" "sized v' i ps" "file_content f v' i ps = bs ''hello, world''"
    "nfree f v' + length ls + length ps = nfree f v"
    using c unfolding created_def by blast
  have "e4_lookupPath f v' (bs ''hello.txt'') = Inr num" by (rule lookup_created [OF c sample_name(1,2,5)])
  moreover have "set (ps @ ls) \<inter> tabs v' = {}"
    using n(2) can_unmountD(4) [OF V(2)] unfolding shape_tables(2) [OF sh] tables_ok_def by blast
  ultimately show thesis
    using that U(1) n(1,3,4,5) V(9-13) shape_derived(1) [OF sh] shape_more(1) [OF sh] shape_fields(1) [OF sh] by simp
qed

subsection \<open>From formatting to reading back\<close>

text \<open>
  C4. A partition that is formatted as ext4 and opened takes a file under any new name in its root
  directory, provided that the data needs at most 1360 blocks (four leaf blocks of extents with one
  block each, beyond which the driver loses data) and the free blocks that the superblock advertises
  suffice: the write succeeds, the file reads back, the volume can be unmounted and opened again, and
  the file reads back as written.
\<close>

theorem ext4_file_survives:
  assumes "2 ^ 24 \<le> s_size s" "s_size s < 2 ^ 47" "rws_ok f s" "\<not> closed f" "ext4_layout now uuid (s_size s) opts = Inr fs" "ext4_fits fs"
    and "file_size f < 2 ^ 63" "unat (el_numGroups fs) * unat (el_inodesPerGrp fs) < 2 ^ 32"
    and "Clean (slash # p) = slash # nm" "plain_elem nm" "length nm < 256" "nm \<noteq> bs ''lost+found''"
    and "(length data + 4095) div 4096 \<le> 1360" "(length data + 4095) div 4096 + 4 \<le> unat (sb_freeBlocks fs)" and "map_order ord"
  shows "\<exists>f1 s1 v1 v2 f2 v3. ext4_Format now (Inr uuid) (s_size s) opts (f, s) = (Inr (), f1, s1) \<and> e4_Open f1 (s_base s) (s_size s) = Inr v1 \<and>
    e4_WriteFile time f1 p data perm v1 = (Inr (), v2) \<and> e4_ReadFile f1 v2 p = Inr data \<and>
    e4_Unmount ord f1 v2 = (Inr (), f2, v3) \<and> e4_Open f2 (s_base s) (s_size s) = Inr v3 \<and> e4_ReadFile f2 v3 p = Inr data"
proof -
  obtain f1 s1 v di q where F: "ext4_Format now (Inr uuid) (s_size s) opts (f, s) = (Inr (), f1, s1)" "e4_Open f1 (s_base s) (s_size s) = Inr v"
    and V: "can_unmount f1 v" "dir_at f1 v inodeRoot di [] [q] [root_dirents]" "q \<notin> tabs v" "\<forall>nm. length nm < 256 \<longrightarrow> has_room f1 v [q] nm"
    "ino_counts f1 v" "ino_used f1 v inodeRoot" "\<exists>g < ngroups v. clear_ino f1 v g \<noteq> None" "max_leaf v = 340" "bsz v = 4096"
    "nfree f1 v = unat (sb_freeBlocks fs)" "sec_base (e_sr v) = s_base s" "sec_size (e_sr v) = s_size s" "e_sb v = parseSuperblock (buildSuperblock fs 0)"
    "\<forall>k < 11. ino_used f1 v (of_nat k + 1)"
    by (rule format_open [OF assms(1-8)])
  have n: "nm \<notin> de_nm ` set (concat [root_dirents])" using assms(10,12) by (auto simp: root_dirents_def plain_elem_def)
  have b: "blocks_of v (length data) \<le> 4 * max_leaf v" "data = [] \<or> blocks_of v (length data) + 4 \<le> nfree f1 v"
    using assms(13,14) V(8,9,10) by (simp_all add: blocks_of_def add.commute)
  have d: "set ([q] @ []) \<inter> tabs v = {}" using V(3) by simp
  show ?thesis
    using WriteFile_remount [OF V(1,2,5,6) d assms(9-11) n V(4) [rule_format, OF assms(11)] b V(7) assms(15), of time perm] F unfolding V(11,12) by blast
qed

theorem ext4_file_survives_witness:
  "\<exists>f1 v1 v2 f2 v3 s1. ext4_Format 0 (Inr (zeros 16)) 16777216 ext4_opts (blank_disk 16777216, window_of 16777216) = (Inr (), f1, s1) \<and>
     e4_Open f1 0 16777216 = Inr v1 \<and> e4_WriteFile 7 f1 (bs ''hello.txt'') (bs ''hello, world'') 0x1A4 v1 = (Inr (), v2) \<and>
     e4_Unmount rev f1 v2 = (Inr (), f2, v3) \<and> e4_Open f2 0 16777216 = Inr v3 \<and> e4_ReadFile f2 v3 (bs ''hello.txt'') = Inr (bs ''hello, world'')"
proof -
  obtain fs where fs: "ext4_layout 0 (zeros 16) 16777216 ext4_opts = Inr fs" "ext4_fits fs" "unat (el_numGroups fs) = 1" "unat (el_inodesPerGrp fs) = 1024"
    "unat (sb_freeBlocks fs) = 2987" by (rule sample_layout)
  have h: "s_size (window_of 16777216) = 16777216" "s_base (window_of 16777216) = 0" by (simp_all add: window_of_def)
  have c: "(2 :: int) ^ 24 \<le> 16777216" "(16777216 :: int) < 2 ^ 47" "file_size (blank_disk 16777216) < 2 ^ 63"
    "unat (el_numGroups fs) * unat (el_inodesPerGrp fs) < 2 ^ 32" using fs(3,4) by (simp_all add: file_size_def blank_disk_def)
  have nm: "Clean (slash # bs ''hello.txt'') = slash # bs ''hello.txt''" "plain_elem (bs ''hello.txt'')" "length (bs ''hello.txt'') < 256"
    "bs ''hello.txt'' \<noteq> bs ''lost+found''" by code_simp+
  have sz: "(length (bs ''hello, world'') + 4095) div 4096 \<le> 1360" "(length (bs ''hello, world'') + 4095) div 4096 + 4 \<le> unat (sb_freeBlocks fs)"
    using fs(5) by simp_all
  have r: "map_order rev" by (simp add: map_order_def)
  show ?thesis
    using ext4_file_survives [where time = 7 and perm = "0x1A4", of "window_of 16777216" "blank_disk 16777216" 0 "zeros 16" ext4_opts fs, unfolded h,
      OF c(1,2) sample_windows(1,2) fs(1,2) c(3,4) nm sz r] by blast
qed

subsection \<open>Open files\<close>

text \<open>
  C5. An open file is an array of bytes with a position.  After \<open>OpenFile\<close>, with or without
  truncation and appending, a sequence of reads, writes and seeks on the handle answers as it does
  on the array, and ends in a handle whose file holds the array.  The sequence must be one that
  \<open>allowed\<close> accepts: seeks go to absolute offsets, no write starts behind the end of the file (the gap
  would show old bytes), and the file stays within a length \<open>M\<close> for which the free blocks suffice and
  whose blocks fit the four leaf blocks of the extent tree (beyond them the driver loses data).
\<close>

theorem ext4_handle_refines:
  assumes "e4_lookupPath f v p = Inr num" "file_at f v num i ls ps" "sized v i ps" "fl_writable fl" "\<not> fl_excl fl"
    and "blocks_of v M \<le> 4 * max_leaf v" "blocks_of v M + 4 \<le> nfree f v + length ls + length ps"
    and "c = (if fl_trunc fl then [] else file_content f v i ps)" "pos = (if fl_append fl then length c else 0)"
    and "allowed bf_op (bf_ok M) ops (c, pos)"
  shows "\<exists>v1 h v2 h2. e4_OpenFile now f p fl perm v = (Inr h, v1) \<and>
    run_ops (ef_op f) ops (v1, h) = (fst (run_ops bf_op ops (c, pos)), (v2, h2)) \<and> ef_num h2 = num \<and> handle_at f M (v2, h2) (snd (run_ops bf_op ops (c, pos)))"
proof -
  obtain h v1 where "e4_OpenFile now f p fl perm v = (Inr h, v1)" "handle_at f M (v1, h) (c, pos)" "ef_num h = num"
    using open_handle [OF assms(1-9)] by blast
  then show ?thesis using ef.run_simulates [of f M "(v1, h)" "(c, pos)" ops] assms(10) ef_ops_num by (metis surj_pair snd_conv)
qed

theorem ext4_handle_refines_witness:
  "\<exists>f v v2 h. e4_OpenFile 5 f (bs ''hello.txt'') \<lparr>fl_writable = True, fl_create = False, fl_trunc = False, fl_excl = False, fl_append = True\<rparr> 0 v = (Inr h, v2) \<and>
     fst (run_ops (ef_op f) [FWrite 7 (bs '' again''), FSeek 7, FRead 100] (v2, h)) =
       [AWrite 6 None, ASeek (Inr 7), ARead (bs ''world again'') None]"
proof -
  obtain f v num i ls ps where S: "e4_lookupPath f v (bs ''hello.txt'') = Inr num" "file_at f v num i ls ps" "sized v i ps"
    "file_content f v i ps = bs ''hello, world''" "max_leaf v = 340" "bsz v = 4096" "2987 \<le> nfree f v + length ls + length ps"
    by (rule sample_file) blast
  let ?fl = "\<lparr>fl_writable = True, fl_create = False, fl_trunc = False, fl_excl = False, fl_append = True\<rparr>"
  have M: "blocks_of v 5000 \<le> 4 * max_leaf v" "blocks_of v 5000 + 4 \<le> nfree f v + length ls + length ps" using S(5-7) by (simp_all add: blocks_of_def)
  have c: "bs ''hello, world'' = (if fl_trunc ?fl then [] else file_content f v i ps)" "12 = (if fl_append ?fl then length (bs ''hello, world'') else 0)"
    using S(4) by simp_all
  have a: "allowed bf_op (bf_ok 5000) [FWrite 7 (bs '' again''), FSeek 7, FRead 100] (bs ''hello, world'', 12)"
    "fst (run_ops bf_op [FWrite 7 (bs '' again''), FSeek 7, FRead 100] (bs ''hello, world'', 12)) = [AWrite 6 None, ASeek (Inr 7), ARead (bs ''world again'') None]"
    by code_simp+
  show ?thesis using ext4_handle_refines [of f v "bs ''hello.txt''" num i ls ps ?fl 5000 _ 12, OF S(1-3) _ _ M c a(1)] a(2)
    by (metis (no_types, lifting) fst_conv openFlags.select_convs(1,4))
qed

subsection \<open>Unmounting\<close>

text \<open>
  C10. Unmounting writes a consistent volume out and opening the image gives it back, in every order
  in which the staged inodes are written.  Every inode is the same, of whatever kind, and so is every
  block outside of the inode tables; so the files and the directories that the driver reads through
  its extent trees, and whose blocks lie outside of the inode tables, give the same bytes and entries.
\<close>

theorem ext4_unmount_keeps:
  assumes "can_unmount f v" and "map_order ord"
  shows "\<exists>f' w. e4_Unmount ord f v = (Inr (), f', w) \<and> e4_Open f' (sec_base (e_sr v)) (sec_size (e_sr v)) = Inr w \<and> can_unmount f' w \<and>
    (\<forall>k. valid_ino v k \<longrightarrow> readInode f' w k = readInode f v k) \<and>
    (\<forall>x. vblk v x \<and> x \<notin> tabs v \<longrightarrow> blkv f' w x = blkv f v x) \<and>
    (\<forall>k i ls ps. file_at f v k i ls ps \<and> sized v i ps \<and> set (ps @ ls) \<inter> tabs v = {} \<longrightarrow>
       readInode f' w k = Inr i \<and> (\<forall>off n. readFileRange f' w i off n = readFileRange f v i off n)) \<and>
    (\<forall>k i ls ps ess. dir_at f v k i ls ps ess \<and> set (ps @ ls) \<inter> tabs v = {} \<longrightarrow> readInode f' w k = Inr i \<and> readDir f' w i = readDir f v i)"
proof -
  note t = can_unmountD(9) [OF assms(1)]
  obtain f' where U: "e4_Unmount ord f v = (Inr (), (f', at_rest v))" "e4_Open f' (sec_base (e_sr v)) (sec_size (e_sr v)) = Inr (at_rest v)"
    "reads_same f v f' (at_rest v)" "can_unmount f' (at_rest v)" by (rule unmount_reads_same [OF assms]) blast
  have files: "readInode f' (at_rest v) k = Inr i \<and> (\<forall>off n. readFileRange f' (at_rest v) i off n = readFileRange f v i off n)"
    if F: "file_at f v k i ls ps" and S: "sized v i ps" "set (ps @ ls) \<inter> tabs v = {}" for k i ls ps
  proof -
    note r = reads_same_file [OF U(3) t F S(2)]
    have "sized (at_rest v) i ps" using S(1) by (simp add: sized_def)
    moreover have "file_content f' (at_rest v) i ps = file_content f v i ps" using r(2) by (simp add: file_content_def)
    ultimately show ?thesis using readFileRange_sub [OF r(1)] readFileRange_sub [OF F S(1)] r(1) by (simp add: file_at_def)
  qed
  have dirs: "readInode f' (at_rest v) k = Inr i \<and> readDir f' (at_rest v) i = readDir f v i"
    if D: "dir_at f v k i ls ps ess" "set (ps @ ls) \<inter> tabs v = {}" for k i ls ps ess
  proof -
    note r = reads_same_dir [OF U(3) t D]
    show ?thesis using readDir_dir_at [OF r] readDir_dir_at [OF D(1)] r by (simp add: dir_at_def file_at_def)
  qed
  have all: "\<forall>k. valid_ino v k \<longrightarrow> readInode f' (at_rest v) k = readInode f v k"
    "\<forall>x. vblk v x \<and> x \<notin> tabs v \<longrightarrow> blkv f' (at_rest v) x = blkv f v x" using U(3) by (simp_all add: reads_same_def)
  show ?thesis using U(1,2,4) all files dirs by (intro exI [of _ f'] exI [of _ "at_rest v"]) blast
qed

theorem ext4_unmount_keeps_witness:
  "\<exists>f v f' w i. e4_Unmount rev f v = (Inr (), f', w) \<and> e4_Open f' 0 16777216 = Inr w \<and> readFileRange f' w i 7 100 = (bs ''world'', None)"
proof -
  obtain f v num i ls ps where S: "can_unmount f v" "file_at f v num i ls ps" "sized v i ps" "file_content f v i ps = bs ''hello, world''"
    "set (ps @ ls) \<inter> tabs v = {}" "sec_base (e_sr v) = 0" "sec_size (e_sr v) = 16777216" by (rule sample_file) blast
  have r: "map_order rev" by (simp add: map_order_def)
  have "readFileRange f v i 7 100 = (sub (bs ''hello, world'') 7 100, if length (bs ''hello, world'') \<le> 7 then Some EOF else None)"
    using readFileRange_sub [OF S(2,3), of 7 100] unfolding S(4) .
  also have "\<dots> = (bs ''world'', None)" by code_simp
  finally show ?thesis using ext4_unmount_keeps [OF S(1) r] S(2,3,5-7) by metis
qed

subsection \<open>Allocation\<close>

lemma allocBlock_superblock:
  assumes "vol_ok f v" "unat prefer < ngroups v" "allocBlock now f prefer v = (Inr x, v')"
  shows "e_sb v' = dec_free (e_sb v)"
  using allocBlock_cases [OF vol_okD(1) [OF assms(1)] assms(2), of now] assms(3)
  by (auto simp: took_block_def after_alloc_def split: option.splits)

text \<open>
  C12. \<open>allocBlock\<close> on a consistent volume fails exactly when every block is in use, and then changes
  nothing; otherwise it hands out a block that was free, marks that one and no other, keeps the
  counts of the descriptors in step with the bitmaps, takes one from the low half of the superblock's
  count (the half the code keeps), and changes no block but those of the allocation structures.
\<close>

theorem ext4_allocBlock_exact:
  assumes "vol_ok f v" "unat prefer < ngroups v"
  shows "if nfree f v = 0 then allocBlock now f prefer v = (Inl (Err ''ext4: no free blocks''), v)
    else \<exists>x v'. allocBlock now f prefer v = (Inr x, v') \<and> vol_ok f v' \<and> \<not> in_use f v x \<and> x \<notin> meta v \<and> vblk v x \<and>
      (\<forall>y. in_use f v' y \<longleftrightarrow> in_use f v y \<or> y = x) \<and> nfree f v' + 1 = nfree f v \<and>
      e_sb v' = (e_sb v)\<lparr>es_freeBlocksLo := es_freeBlocksLo (e_sb v) - 1\<rparr> \<and> (\<forall>y. y \<notin> meta v \<longrightarrow> blkv f v' y = blkv f v y)"
proof (cases "nfree f v = 0")
  case True
  then show ?thesis using allocBlock_ok [OF assms, of now] by simp
next
  case False
  then obtain x v' where x: "allocBlock now f prefer v = (Inr x, v')" "alloced f v x v'" using allocBlock_ok [OF assms, of now] by auto
  note a = x(2) [unfolded alloced_def]
  have "x \<notin> meta v" using a vol_okD(4) [OF assms(1)] by blast
  moreover have "vblk v x" using a by (simp add: good_no_def)
  moreover have "e_sb v' = (e_sb v)\<lparr>es_freeBlocksLo := es_freeBlocksLo (e_sb v) - 1\<rparr>"
    using allocBlock_superblock [OF assms x(1)] by (simp add: dec_free_def)
  ultimately show ?thesis using False x(1) a unfolding if_not_P [OF False] by (intro exI [of _ x] exI [of _ v']) simp
qed

theorem ext4_allocBlock_exact_witness:
  "\<exists>f v x v'. allocBlock 9 f 0 v = (Inr x, v') \<and> nfree f v = 2987 \<and> nfree f v' = 2986 \<and> \<not> in_use f v x \<and> in_use f v' x"
proof -
  obtain f v di p where V: "can_unmount f v" "dir_at f v inodeRoot di [] [p] [root_dirents]" "nfree f v = 2987" by (rule sample_volume) blast
  have "unat (0 :: u32) < ngroups v" using layoutD(1) [OF can_unmountD(13) [OF V(1)]] by simp
  from ext4_allocBlock_exact [OF can_unmountD(1) [OF V(1)] this, of 9] V(3)
  obtain x v' where x: "allocBlock 9 f 0 v = (Inr x, v')" "\<not> in_use f v x" "\<forall>y. in_use f v' y \<longleftrightarrow> in_use f v y \<or> y = x" "nfree f v' + 1 = nfree f v" by auto
  then have "nfree f v' = 2986" "in_use f v' x" using V(3) by simp_all
  then show ?thesis using x(1,2) V(3) by blast
qed

subsection \<open>Creating a file\<close>

text \<open>
  C11. Creating a file in a directory that has room for the entry in one of its blocks leaves every
  other file of the volume as it is: the inode, the blocks of the file and every range that is read
  of it; and the directory keeps its entries and gets one more.  (Where the directory would need
  another block, the driver loses the new entry.)
\<close>

theorem ext4_create_frame:
  assumes "parent_base nm = (dir, base)" "lookupPathFollow f v dir = Inr dirIno" "dir_at f v dirIno di dls dps ess"
    and "ino_counts f v" "ino_used f v dirIno" "good_name base" "has_room f v dps base" "\<exists>g < ngroups v. clear_ino f v g \<noteq> None"
    and "blocks_of v (length data) \<le> 4 * max_leaf v" "data = [] \<or> blocks_of v (length data) + 4 \<le> nfree f v"
    and "file_at f v k i ls ps" "sized v i ps" "k \<noteq> dirIno" "ino_used f v k" "set (ps @ ls) \<inter> set dps = {}"
  shows "\<exists>v' num di' A B. e4_createFile now f nm data perm v = (Inr (), v') \<and> file_at f v' k i ls ps \<and>
    (\<forall>off n. readFileRange f v' i off n = readFileRange f v i off n) \<and>
    readInode f v' dirIno = Inr di' \<and> readDir f v di = Inr (A @ B) \<and> readDir f v' di' = Inr (A @ \<lparr>de_inode = num, de_nm = base, de_fileType = 1\<rparr> # B)"
proof -
  obtain num v' where C: "e4_createFile now f nm data perm v = (Inr (), v')"
    "created f v dirIno di dls dps ess base data (0x8000 OR perm_bits perm) num v'"
    using createFile_ok [OF assms(1-7,9,10,8), of now perm] by blast
  note K = created_keeps [OF C(2) assms(11,13-15)]
  obtain di' ess' A B where e: "dir_at f v' dirIno di' dls dps ess'" "concat ess = A @ B" "concat ess' = A @ \<lparr>de_inode = num, de_nm = base, de_fileType = 1\<rparr> # B"
    and sh: "shape v' = shape v" using C(2) unfolding created_def by blast
  have S: "sized v' i ps" using assms(12) shape_derived(1) [OF sh] by (simp add: sized_def)
  have R: "readFileRange f v' i off n = readFileRange f v i off n" for off n
    using readFileRange_sub [OF K(1) S] readFileRange_sub [OF assms(11,12)] K(2) by simp
  have "readInode f v' dirIno = Inr di'" using e(1) by (simp add: dir_at_def file_at_def)
  moreover have "readDir f v di = Inr (A @ B)" using readDir_dir_at [OF assms(3)] e(2) by simp
  moreover have "readDir f v' di' = Inr (A @ \<lparr>de_inode = num, de_nm = base, de_fileType = 1\<rparr> # B)" using readDir_dir_at [OF e(1)] e(3) by simp
  ultimately show ?thesis using C(1) K(1) R by blast
qed

text \<open>For the witness: the inode 5, which the formatter reserves, as an empty file beside the root directory.\<close>

theorem ext4_create_frame_witness:
  "\<exists>f v v' num di di'. e4_createFile 7 f (bs ''hello.txt'') (bs ''hello, world'') 0x1A4 v = (Inr (), v') \<and> readDir f v di = Inr root_dirents \<and>
     readFileRange f v' (new_inode 3 0x81A4 1) 0 9 = ([], Some EOF) \<and> readInode f v' inodeRoot = Inr di' \<and>
     mset (case readDir f v' di' of Inr es \<Rightarrow> es | Inl e \<Rightarrow> []) = mset root_dirents + {#\<lparr>de_inode = num, de_nm = bs ''hello.txt'', de_fileType = 1\<rparr>#}"
proof -
  obtain f v di p where V: "can_unmount f v" "dir_at f v inodeRoot di [] [p] [root_dirents]"
    "\<forall>nm. length nm < 256 \<longrightarrow> has_room f v [p] nm" "ino_counts f v" "ino_used f v inodeRoot" "\<exists>g < ngroups v. clear_ino f v g \<noteq> None"
    "max_leaf v = 340" "bsz v = 4096" "nfree f v = 2987" "ino_used f v 5" by (rule sample_volume) blast
  have F: "file_at f v inodeRoot di [] [p]" using V(2) by (simp add: dir_at_def)
  note s = file_stateD [OF F [unfolded file_at_def, THEN conjunct1]]
  obtain g b where g: "g < ngroups v" "b < ipg v" "(5 :: u32) = ino_no v g b" using V(10) unfolding ino_used_def by blast
  have val: "valid_ino v 5" unfolding g(3) by (rule valid_ino_no [OF V(4) g(1,2)])
  obtain w where w: "file_at f w 5 (new_inode 3 0x81A4 1) [] []" "vstep f v {} {} w" "only_inode 5 v w" "blkv f w = blkv f v"
    using new_inode_file [OF s(1,2) val s(4)] by blast
  note S = vstepD [OF w(2)]
  note D = shape_derived [OF S(1)]
  have "inodes_ok w" using w(1) unfolding file_at_def file_state_def by blast
  note Fw = file_at_frame [OF F w(2) _ _ this]
  have "map_of (e_dirtyInodes w) inodeRoot = map_of (e_dirtyInodes v) inodeRoot" using w(3) by (simp add: only_inode_def inodeRoot_def)
  then have Fw: "file_at f w inodeRoot di [] [p]" by (intro Fw(1)) simp_all
  have Dw: "dir_at f w inodeRoot di [] [p] [root_dirents]" by (rule dir_at_cong [OF V(2) Fw D(1) refl refl]) (simp add: w(4))
  note I = vstep_inodes [OF w(2)]
  have nm: "parent_base (bs ''hello.txt'') = ([slash], bs ''hello.txt'')" "good_name (bs ''hello.txt'')" by code_simp+
  have room: "has_room f w [p] (bs ''hello.txt'')" using V(3) sample_name(3) w(4) by (auto simp: has_room_def)
  have sz: "blocks_of w (length (bs ''hello, world'')) \<le> 4 * max_leaf w"
    "bs ''hello, world'' = [] \<or> blocks_of w (length (bs ''hello, world'')) + 4 \<le> nfree f w"
    using V(7-9) D(1) shape_more(1) [OF S(1)] S(7) by (simp_all add: blocks_of_def)
  have clear: "\<exists>g < ngroups w. clear_ino f w g \<noteq> None" 
    using V(6) w(4) D(5,10) shape_fields(5) [OF S(1)] unfolding clear_ino_def by metis
  have sd: "sized w (new_inode 3 0x81A4 1) []" by (simp add: sized_def new_inode_size)
  have used: "ino_used f w 5" "ino_used f w inodeRoot" "ino_counts f w" using V(4,5,10) I by simp_all
  have ne: "(5 :: u32) \<noteq> inodeRoot" by (simp add: inodeRoot_def)
  obtain v' num di' A B where R: "e4_createFile 7 f (bs ''hello.txt'') (bs ''hello, world'') 0x1A4 w = (Inr (), v')"
    "\<forall>off n. readFileRange f v' (new_inode 3 0x81A4 1) off n = readFileRange f w (new_inode 3 0x81A4 1) off n"
    "readInode f v' inodeRoot = Inr di'" "readDir f w di = Inr (A @ B)"
    "readDir f v' di' = Inr (A @ \<lparr>de_inode = num, de_nm = bs ''hello.txt'', de_fileType = 1\<rparr> # B)"
    using ext4_create_frame [OF nm(1) follow_root [OF Dw] Dw used(3,2) nm(2) room clear sz w(1) sd ne used(1), of 7 "0x1A4"] by auto
  have "A @ B = root_dirents" using R(4) readDir_dir_at [OF Dw] by simp
  then have "mset root_dirents = mset A + mset B" by (metis mset_append)
  then have "mset (case readDir f v' di' of Inr es \<Rightarrow> es | Inl e \<Rightarrow> []) =
      mset root_dirents + {#\<lparr>de_inode = num, de_nm = bs ''hello.txt'', de_fileType = 1\<rparr>#}"
    unfolding R(5) by (auto simp del: bs_simps)
  moreover have "readFileRange f v' (new_inode 3 0x81A4 1) 0 9 = ([], Some EOF)"
    using R(2) by (simp add: readFileRange_def new_inode_size)
  moreover have "readDir f w di = Inr root_dirents" using readDir_dir_at [OF Dw] by simp
  ultimately show ?thesis using R(1,3) by blast
qed

subsection \<open>Inodes\<close>

text \<open>
  C21. An inode that is encoded into the bytes of a slot of at least 160 bytes (the formatter's slots have
  256) is parsed back as it was, the bytes that the driver does not know stay, and encoding what was
  parsed from a slot does not change the slot.
\<close>

theorem ext4_inode_round_trip:
  assumes "160 \<le> length raw" "length (i_block i) = 60"
  shows "\<exists>raw'. encodeInode i raw = Inr raw' \<and> length raw' = length raw \<and> parseInode raw' = Inr i \<and>
    sub raw' 160 (length raw - 160) = sub raw 160 (length raw - 160) \<and>
    (\<exists>j. parseInode raw = Inr j \<and> encodeInode j raw = Inr raw)"
proof -
  have ok: "inode_ok i" using assms(2) by (simp add: inode_ok_def)
  have "\<forall>(o', d) \<in> set (inode_puts i (length raw)). 160 + (length raw - 160) \<le> o' \<or> o' + length d \<le> 160"
    using inode_puts_bound [OF ok assms(1)] by blast
  then have "sub (puts (inode_puts i (length raw)) raw) 160 (length raw - 160) = sub raw 160 (length raw - 160)"
    using assms(1) by (intro puts_other) simp_all
  moreover obtain j where "parseInode raw = Inr j" using assms(1) by (simp add: parseInode_def)
  ultimately show ?thesis
    using parse_encode [OF assms(1) ok] encode_parse [of raw j] assms(1) by (intro exI [of _ "puts (inode_puts i (length raw)) raw"]) (auto simp: encodeInode_def)
qed

theorem ext4_inode_round_trip_witness:
  "\<exists>raw'. encodeInode (new_inode 7 0x81A4 1) (zeros 256) = Inr raw' \<and> parseInode raw' = Inr (new_inode 7 0x81A4 1)"
  using ext4_inode_round_trip [of "zeros 256" "new_inode 7 0x81A4 1"] by (auto simp: new_inode_def)

subsection \<open>Removing a directory\<close>

lemma remove_all_held: "remove_all k now f p (True, v) = (Inl Diverge, (True, v))"
  by (cases k) (simp_all add: with_mu_def failS_def)

lemma for_each_held:
  "for_each (\<lambda>e. remove_all k now f (g e)) xs (True, v) = (if xs = [] then (Inr (), (True, v)) else (Inl Diverge, (True, v)))"
  by (cases xs) (simp_all add: remove_all_held retS_def bindS_def)

text \<open>The bound on the depth of the calls is never reached.\<close>

lemma remove_all_depth: "remove_all (Suc (Suc k)) now f p = remove_all (Suc (Suc 0)) now f p"
proof
  fix s
  show "remove_all (Suc (Suc k)) now f p s = remove_all (Suc (Suc 0)) now f p s"
  proof (cases s)
    case (Pair h v)
    show ?thesis
    proof (cases h)
      case True
      then show ?thesis by (simp only: Pair remove_all_held)
    next
      case False
      have "for_each (\<lambda>e. remove_all (Suc k) now f (g e)) xs (True, w) = for_each (\<lambda>e. remove_all (Suc 0) now f (g e)) xs (True, w)" for g and xs :: "dirEntry list" and w
        by (simp only: for_each_held)
      then show ?thesis using False unfolding Pair remove_all.simps(2) [of "Suc k"] remove_all.simps(2) [of "Suc 0"]
        by (simp add: with_mu_def tryS_def bindS_def in_mu_def retS_def readS_def lookupVol_def inodeVol_def split: prod.split sum.split del: remove_all.simps)
    qed
  qed
qed

text \<open>
  C22. \<open>RemoveAll\<close> on a directory with a child never returns, because the call for the child waits for
  the mutex that the outer call holds; the mutex stays locked, so that the next call waits as well.
  On a directory with nothing in it, it does what \<open>remove\<close> does, and the mutex is free afterwards.
\<close>

theorem ext4_RemoveAll_directory:
  assumes "e4_lookupPath f v p = Inr num" "readInode f v num = Inr i" "is_dir i" "readDir f v i = Inr es"
  shows "if \<exists>e \<in> set es. \<not> is_dots e
    then e4_RemoveAll now f p (False, v) = (Inl Diverge, (True, v)) \<and> e4_RemoveAll now f q (True, v) = (Inl Diverge, (True, v))
    else (case e4_remove now f p True v of (r, v') \<Rightarrow> r \<noteq> Inl Diverge \<longrightarrow> e4_RemoveAll now f p (False, v) = (r, (False, v')))"
proof -
  let ?kids = "for_each (\<lambda>e. remove_all 1 now f (path_Join p (de_nm e))) (filter (\<lambda>e. \<not> is_dots e) es)"
  have e: "e4_RemoveAll now f p (False, v) = (case (case ?kids (True, v) of (Inl e, s') \<Rightarrow> (Inl e, s') | (Inr _, s') \<Rightarrow> in_mu (e4_remove now f p True) s') of
      (r, (_, v')) \<Rightarrow> (r, (waits r, v')))"
    using assms unfolding e4_RemoveAll_def numeral_2_eq_2 One_nat_def remove_all.simps(2) [of "Suc 0"]
    by (simp add: with_mu_def tryS_def lookupVol_def inodeVol_def readS_def bindS_def in_mu_def split: prod.split sum.split del: remove_all.simps)
  show ?thesis
  proof (cases "\<exists>e \<in> set es. \<not> is_dots e")
    case True
    then have "?kids (True, v) = (Inl Diverge, (True, v))" by (simp add: for_each_held filter_empty_conv del: remove_all.simps)
    then show ?thesis using True e by (simp add: e4_RemoveAll_def remove_all_held del: remove_all.simps)
  next
    case False
    then have "?kids (True, v) = (Inr (), (True, v))" by (simp add: for_each_held filter_empty_conv del: remove_all.simps)
    then have "e4_RemoveAll now f p (False, v) = (case e4_remove now f p True v of (r, v') \<Rightarrow> (r, (waits r, v')))"
      unfolding e by (simp add: in_mu_def split: prod.split)
    moreover have "waits r = (r = Inl Diverge)" for r :: "unit res" by (cases r rule: waits.cases) simp_all
    ultimately show ?thesis using False by (simp split: prod.split)
  qed
qed

theorem ext4_RemoveAll_directory_witness:
  "\<exists>f v. (\<exists>s' f0. ext4_Format 0 (Inr (zeros 16)) 16777216 ext4_opts (f0, window_of 16777216) = (Inr (), f, s')) \<and>
     e4_Open f 0 16777216 = Inr v \<and> e4_RemoveAll 7 f [slash] (False, v) = (Inl Diverge, (True, v))"
proof -
  obtain f s' v di p where V: "ext4_Format 0 (Inr (zeros 16)) 16777216 ext4_opts (blank_disk 16777216, window_of 16777216) = (Inr (), f, s')"
    "e4_Open f 0 16777216 = Inr v" "dir_at f v inodeRoot di [] [p] [root_dirents]" by (rule sample_volume) blast
  have "Clean [slash, slash] = [slash]" by code_simp
  then have l: "e4_lookupPath f v [slash] = Inr inodeRoot" by (simp add: e4_lookupPath_def)
  have i: "readInode f v inodeRoot = Inr di" "is_dir di" using V(3) by (simp_all add: dir_at_def file_at_def)
  have r: "readDir f v di = Inr root_dirents" using readDir_dir_at [OF V(3)] by simp
  have "\<exists>e \<in> set root_dirents. \<not> is_dots e" by (simp add: root_dirents_def is_dots_def)
  then have "e4_RemoveAll 7 f [slash] (False, v) = (Inl Diverge, (True, v))" using ext4_RemoveAll_directory [OF l i r, of 7 "[slash]"] by simp
  then show ?thesis using V(1,2) by blast
qed

end
