(* ===== verification/GoRead.thy ===== *)
theory GoRead
  imports GoText GoBuffers GoFile
begin

text \<open>
  What the NTFS code uses beyond the FAT and ext4 code: slices and integers read with Go's bounds
  checks, UTF-16 encoding, and more of \<open>strings\<close>, \<open>path\<close> and \<open>unicode/utf16\<close>.
\<close>

unbundle bit_operations_syntax

subsection \<open>Checked access\<close>

text \<open>\<open>b[i]\<close>, \<open>b[i:j]\<close> and \<open>binary.LittleEndian.Uint16(b[off:])\<close> and its kin.\<close>

definition at8 :: "bytes \<Rightarrow> nat \<Rightarrow> u8 res" where
  "at8 b i = (if i < length b then Inr (b ! i) else bounds_panic)"

definition at16 :: "bytes \<Rightarrow> nat \<Rightarrow> u16 res" where
  "at16 b off = (if off + 2 \<le> length b then Inr (get16 b off) else bounds_panic)"

definition at32 :: "bytes \<Rightarrow> nat \<Rightarrow> u32 res" where
  "at32 b off = (if off + 4 \<le> length b then Inr (get32 b off) else bounds_panic)"

definition at64 :: "bytes \<Rightarrow> nat \<Rightarrow> u64 res" where
  "at64 b off = (if off + 8 \<le> length b then Inr (get64 b off) else bounds_panic)"

definition slice :: "bytes \<Rightarrow> nat \<Rightarrow> nat \<Rightarrow> bytes res" where
  "slice b i j = (if i \<le> j \<and> j \<le> length b then Inr (sub b i (j - i)) else bounds_panic)"

lemma at_eq_Inr [simp]:
  "at8 b i = Inr x \<longleftrightarrow> i < length b \<and> x = b ! i"
  "at16 b i = Inr w \<longleftrightarrow> i + 2 \<le> length b \<and> w = get16 b i"
  "at32 b i = Inr y \<longleftrightarrow> i + 4 \<le> length b \<and> y = get32 b i"
  "at64 b i = Inr z \<longleftrightarrow> i + 8 \<le> length b \<and> z = get64 b i"
  "slice b i j = Inr d \<longleftrightarrow> i \<le> j \<and> j \<le> length b \<and> d = sub b i (j - i)"
  by (auto simp: at8_def at16_def at32_def at64_def slice_def bounds_panic_def)

lemma at_inside:
  "i < length b \<Longrightarrow> at8 b i = Inr (b ! i)" "i + 2 \<le> length b \<Longrightarrow> at16 b i = Inr (get16 b i)"
  "i + 4 \<le> length b \<Longrightarrow> at32 b i = Inr (get32 b i)" "i + 8 \<le> length b \<Longrightarrow> at64 b i = Inr (get64 b i)"
  "i \<le> j \<Longrightarrow> j \<le> length b \<Longrightarrow> slice b i j = Inr (sub b i (j - i))"
  by simp_all

text \<open>\<open>x, err := g(); if err == nil { ... }\<close>: the error is dropped, a panic is not.\<close>

definition optR :: "'a res \<Rightarrow> 'a option res" where
  "optR m = (case m of Inl e \<Rightarrow> if crash e then Inl e else Inr None | Inr a \<Rightarrow> Inr (Some a))"

lemma optR_simps [simp]: "optR (Inr a) = Inr (Some a)" "\<not> crash e \<Longrightarrow> optR (Inl e) = Inr None"
  by (simp_all add: optR_def)

text \<open>\<open>make([]byte, n)\<close>.\<close>

definition make_bytes :: "int \<Rightarrow> bytes res" where
  "make_bytes n = (if n < 0 then Inl (Panic ''makeslice: len out of range'') else Inr (zeros (nat n)))"

text \<open>Writes with bounds checks: \<open>PutUint16(b[off:], w)\<close>, \<open>b[i] = x\<close>, \<open>copy(b[off:], d)\<close>.\<close>

definition put_in :: "nat \<Rightarrow> bytes \<Rightarrow> bytes \<Rightarrow> bytes res" where
  "put_in off d b = (if off + length d \<le> length b then Inr (copy_into b off d) else bounds_panic)"

definition copy_at :: "nat \<Rightarrow> bytes \<Rightarrow> bytes \<Rightarrow> bytes res" where
  "copy_at off d b = (if off \<le> length b then Inr (copy_into b off d) else bounds_panic)"

text \<open>Several such writes one after the other; the first that is out of bounds panics.\<close>

fun puts_at :: "(nat \<times> bytes) list \<Rightarrow> bytes \<Rightarrow> bytes res" where
  "puts_at [] b = Inr b"
| "puts_at ((off, d) # ps) b = bindR (put_in off d b) (puts_at ps)"

lemma puts_at_ok: "\<forall>(off, d) \<in> set ps. off + length d \<le> length b \<Longrightarrow> puts_at ps b = Inr (puts ps b)"
  by (induction ps arbitrary: b) (auto simp: put_in_def)

lemma puts_at_Inr: "puts_at ps b = Inr b' \<Longrightarrow> b' = puts ps b \<and> (\<forall>(off, d) \<in> set ps. off + length d \<le> length b)"
proof (induction ps arbitrary: b)
  case (Cons p ps)
  obtain off d where p: "p = (off, d)" by fastforce
  with Cons.prems have "off + length d \<le> length b" "puts_at ps (copy_into b off d) = Inr b'"
    by (auto simp: put_in_def bounds_panic_def split: if_splits)
  then show ?case using Cons.IH by (force simp: p)
qed simp

text \<open>Go's rounding up to a multiple of 8, \<open>(n + 7) &^ 7\<close>.\<close>

definition pad8 :: "nat \<Rightarrow> nat" where
  "pad8 n = (n + 7) div 8 * 8"

lemma pad8_bounds: "n \<le> pad8 n" "pad8 n \<le> n + 7" "8 dvd pad8 n"
  by (simp_all add: pad8_def)

lemma pad8_id: "8 dvd n \<Longrightarrow> pad8 n = n"
  by (auto simp: pad8_def elim!: dvdE)

subsection \<open>UTF-16\<close>

definition utf16_pair :: "rune \<Rightarrow> u16 list" where
  "utf16_pair r =
     (if r < 0xD800 \<or> 0xE000 \<le> r \<and> r < 0x10000 then [of_nat r]
      else if 0x10000 \<le> r \<and> r \<le> 0x10FFFF
      then [of_nat (0xD800 + (r - 0x10000) div 0x400), of_nat (0xDC00 + (r - 0x10000) mod 0x400)]
      else [0xFFFD])"

text \<open>\<open>utf16.Encode([]rune(s))\<close> and its bytes; \<open>string(utf16.Decode(u16))\<close> of the bytes of a name.\<close>

definition utf16_units :: "gostr \<Rightarrow> u16 list" where
  "utf16_units s = concat (map utf16_pair (runes s))"

definition units_bytes :: "u16 list \<Rightarrow> bytes" where
  "units_bytes us = concat (map le16 us)"

definition bytes_units :: "bytes \<Rightarrow> u16 list" where
  "bytes_units b = map (\<lambda>i. get16 b (2 * i)) [0..<length b div 2]"

definition utf16_str :: "bytes \<Rightarrow> gostr" where
  "utf16_str b = str (utf16_decode (bytes_units b))"

lemma length_units_bytes [simp]: "length (units_bytes us) = 2 * length us"
  unfolding units_bytes_def by (rule length_concat_map) simp

lemma bytes_units_units [simp]: "bytes_units (units_bytes us) = us"
proof (rule nth_equalityI)
  fix i assume "i < length (bytes_units (units_bytes us))"
  then have i: "i < length us" by (simp add: bytes_units_def)
  have "sub (units_bytes us) (2 * i) 2 = le16 (us ! i)"
    using sub_concat_map [of us le16 2 i] i by (simp add: units_bytes_def)
  then have "get16 (units_bytes us) (2 * i) = us ! i" by (rule sub_get16)
  then show "bytes_units (units_bytes us) ! i = us ! i" using i by (simp add: bytes_units_def)
qed (simp add: bytes_units_def)

text \<open>Decoding takes back what encoding did, for every sequence of valid code points.\<close>

lemma utf16_decode_encode: "\<forall>r \<in> set rs. valid_rune r \<Longrightarrow> utf16_decode (concat (map utf16_pair rs)) = rs"
proof (induction rs)
  case (Cons r rs)
  have v: "r < 0xD800 \<or> 0xE000 \<le> r \<and> r \<le> 0x10FFFF" using Cons.prems by (auto simp: valid_rune_def)
  show ?case
  proof (cases "r < 0x10000")
    case True
    then have "utf16_pair r = [of_nat r]" using v by (auto simp: utf16_pair_def)
    moreover have "(of_nat r :: u16) < 0xD800 \<or> 0xE000 \<le> (of_nat r :: u16)" "unat (of_nat r :: u16) = r"
      using True v by (auto simp: word_less_nat_alt word_le_nat_alt unat_of_nat)
    ultimately show ?thesis using Cons by auto
  next
    case False
    define q where "q = (r - 0x10000) div 0x400"
    define m where "m = (r - 0x10000) mod 0x400"
    have q: "q < 0x400" "m < 0x400" "r = q * 0x400 + m + 0x10000" using False v by (auto simp: q_def m_def div_less_iff_less_mult)
    have u: "unat (of_nat (0xD800 + q) :: u16) = 0xD800 + q" "unat (of_nat (0xDC00 + m) :: u16) = 0xDC00 + m"
      using q by (simp_all add: unat_of_nat del: of_nat_add)
    have "utf16_pair r = [of_nat (0xD800 + q), of_nat (0xDC00 + m)]" using False v by (simp add: utf16_pair_def q_def m_def)
    moreover have "\<not> ((of_nat (0xD800 + q) :: u16) < 0xD800 \<or> 0xE000 \<le> (of_nat (0xD800 + q) :: u16))" "(of_nat (0xD800 + q) :: u16) < 0xDC00"
      "0xDC00 \<le> (of_nat (0xDC00 + m) :: u16)" "(of_nat (0xDC00 + m) :: u16) < 0xE000"
      using q u by (simp_all add: word_less_nat_alt word_le_nat_alt del: of_nat_add)
    ultimately show ?thesis using Cons q u by (simp del: of_nat_add)
  qed
qed simp

text \<open>A string of valid UTF-8.\<close>

definition utf8_ok :: "gostr \<Rightarrow> bool" where
  "utf8_ok s \<longleftrightarrow> (\<forall>r \<in> set (runes s). valid_rune r) \<and> str (runes s) = s"

lemma utf16_str_units: "utf8_ok s \<Longrightarrow> utf16_str (units_bytes (utf16_units s)) = s"
  by (simp add: utf16_str_def utf16_units_def utf16_decode_encode utf8_ok_def)

subsection \<open>More of \<open>strings\<close> and \<open>path\<close>\<close>

text \<open>The tables of \<open>strings.ToLower\<close> and \<open>strings.EqualFold\<close>.\<close>

record unicode =
  uc_fold :: ucd
  uc_lower :: "rune \<Rightarrow> rune"   \<comment> \<open>\<open>unicode.ToLower\<close> beyond ASCII\<close>

definition lower :: "unicode \<Rightarrow> rune \<Rightarrow> rune" where
  "lower C r = (if r < 0x80 then (if 0x41 \<le> r \<and> r \<le> 0x5A then r + 0x20 else r) else uc_lower C r)"

definition lower_byte :: "u8 \<Rightarrow> u8" where
  "lower_byte b = (if 0x41 \<le> b \<and> b \<le> 0x5A then b + 0x20 else b)"

definition ToLower :: "unicode \<Rightarrow> gostr \<Rightarrow> gostr" where
  "ToLower C s = (if list_all (\<lambda>b. b < 0x80) s then map lower_byte s else str (map (lower C) (runes s)))"

text \<open>\<open>strings.ReplaceAll\<close> of one byte by another, \<open>strings.TrimPrefix\<close>.\<close>

definition ReplaceByte :: "u8 \<Rightarrow> u8 \<Rightarrow> gostr \<Rightarrow> gostr" where
  "ReplaceByte x y s = map (\<lambda>b. if b = x then y else b) s"

definition TrimPrefix :: "gostr \<Rightarrow> gostr \<Rightarrow> gostr" where
  "TrimPrefix s p = (if take (length p) s = p then drop (length p) s else s)"

definition path_Base :: "gostr \<Rightarrow> gostr" where
  "path_Base p =
     (if p = [] then [dot]
      else let q = rev (dropWhile (\<lambda>b. b = slash) (rev p));
               r = (case LastIndex q slash of Some i \<Rightarrow> drop (i + 1) q | None \<Rightarrow> q)
           in if r = [] then [slash] else r)"

definition path_IsAbs :: "gostr \<Rightarrow> bool" where
  "path_IsAbs p \<longleftrightarrow> p \<noteq> [] \<and> hd p = slash"

text \<open>\<open>errors.Is\<close> for an error that carries another with \<open>%w\<close> or in a \<open>fs.PathError\<close>.\<close>

fun errors_Is :: "goerr \<Rightarrow> goerr \<Rightarrow> bool" where
  "errors_Is (Wrapped m e) t \<longleftrightarrow> Wrapped m e = t \<or> errors_Is e t"
| "errors_Is e t \<longleftrightarrow> e = t"

definition ErrNotExist :: goerr where "ErrNotExist = Err ''file does not exist''"
definition ErrExist :: goerr where "ErrExist = Err ''file already exists''"

text \<open>A file information and a time stamp; \<open>None\<close> is Go's zero \<open>time.Time\<close>, else nanoseconds since 1970.\<close>

type_synonym gotime = "int option"

end
