(* ===== verification/MkfsNtfs.thy ===== *)
theory MkfsNtfs
  imports MkfsIO GoRead
begin

text \<open>
  The NTFS formatter (\<open>src/mkfs/ntfs\<close>).  Go's \<open>int\<close> and \<open>int64\<close> are integers: every quantity is
  bounded by the size of the partition in bytes.  The volume serial number, which the code draws
  at random, and the clock (nanoseconds since 1970) are arguments.
\<close>

unbundle bit_operations_syntax

subsection \<open>Helpers\<close>

definition ntfs_roundUpI :: "int \<Rightarrow> int \<Rightarrow> int" where
  "ntfs_roundUpI n m = (if m = 0 then n else quot (n + m - 1) m * m)"

definition windowsFiletime :: "int \<Rightarrow> u64" where
  "windowsFiletime nano = of_int nano div 100 + 116444736000000000"

definition toUTF16LE :: "gostr \<Rightarrow> bytes" where
  "toUTF16LE s = units_bytes (utf16_units s)"

definition ntfs_sectorsPerCluster :: "int \<Rightarrow> int \<Rightarrow> int" where
  "ntfs_sectorsPerCluster sizeBytes ss =
     (let gb = quot sizeBytes (2 ^ 30);
          clusterBytes = (if gb < 1 then 512 else if gb < 2 then 1024 else if gb < 4 then 2048
            else if gb < 16 then 4096 else if gb < 64 then 8192 else if gb < 256 then 16384 else 32768);
          spc = quot clusterBytes ss
      in if spc < 1 then 1 else if spc > 128 then 128 else spc)"

text \<open>The shortest encodings: leading zero bytes dropped, for signed values as long as the sign stays.\<close>

fun trim_unsigned :: "bytes \<Rightarrow> nat \<Rightarrow> nat" where
  "trim_unsigned b (Suc (Suc n)) = (if b ! Suc n = 0 then trim_unsigned b (Suc n) else Suc (Suc n))"
| "trim_unsigned b n = n"

definition varLenUnsigned :: "u64 \<Rightarrow> bytes" where
  "varLenUnsigned v = (if v = 0 then [0] else take (trim_unsigned (le64 v) 8) (le64 v))"

fun trim_signed :: "bool \<Rightarrow> bytes \<Rightarrow> nat \<Rightarrow> nat" where
  "trim_signed neg b (Suc (Suc n)) =
     (if \<not> neg \<and> b ! Suc n = 0 \<and> b ! n < 0x80 \<or> neg \<and> b ! Suc n = 0xFF \<and> 0x80 \<le> b ! n then trim_signed neg b (Suc n) else Suc (Suc n))"
| "trim_signed neg b n = n"

definition varLenSigned :: "int \<Rightarrow> bytes" where
  "varLenSigned v = (let b = le64 (of_int v) in take (trim_signed (v < 0) b 8) b)"

definition encodeRunList :: "int \<Rightarrow> int \<Rightarrow> bytes" where
  "encodeRunList startLCN numClusters =
     (let lenB = varLenUnsigned (of_int numClusters); offB = varLenSigned startLCN
      in of_nat (length offB * 16 + length lenB) # lenB @ offB @ [0])"

definition ntfs_upcaseTable :: bytes where
  "ntfs_upcaseTable =
     concat (map (\<lambda>i. le16 (if 0x61 \<le> i \<and> i \<le> 0x7A then of_nat i - 0x20 else of_nat i)) [0..<65536])"

subsection \<open>The layout\<close>

definition mftRecordSize :: nat where "mftRecordSize = 1024"
definition numSysRecords :: nat where "numSysRecords = 24"
definition attrDefBytes :: int where "attrDefBytes = 256 * 160"

record ntfs_options =
  no_Label :: gostr
  no_SectorSize :: int

record ntfs_fsLayout =
  n_ss :: int
  n_spc :: int
  n_clusterSize :: int
  n_totalSectors :: int
  n_totalClusters :: int
  n_bootClusters :: int
  n_mftLCN :: int
  n_mftClusters :: int
  n_mftMirrLCN :: int
  n_mftMirrClusters :: int
  n_logFileLCN :: int
  n_logFileClusters :: int
  n_logFileBytes :: int
  n_attrDefLCN :: int
  n_attrDefClusters :: int
  n_upcaseLCN :: int
  n_upcaseClusters :: int
  n_bitmapLCN :: int
  n_bitmapClusters :: int
  n_bitmapBytes :: int

definition ntfs_computeLayout :: "int \<Rightarrow> int \<Rightarrow> int \<Rightarrow> ntfs_fsLayout" where
  "ntfs_computeLayout sizeBytes ss spc =
     (let cs = ss * spc; totalSectors = quot sizeBytes ss; totalClusters = quot totalSectors spc;
          clusters = \<lambda>n. quot (ntfs_roundUpI n cs) cs;
          boot = clusters 8192;
          mft = clusters (int (numSysRecords * mftRecordSize));
          logFile = clusters (2 * 1024 * 1024);
          attrDef = clusters attrDefBytes;
          upcase = clusters 131072;
          bitmapBytes = quot (ntfs_roundUpI totalClusters 8) 8
      in \<lparr>n_ss = ss, n_spc = spc, n_clusterSize = cs, n_totalSectors = totalSectors, n_totalClusters = totalClusters,
          n_bootClusters = boot, n_mftLCN = boot, n_mftClusters = mft,
          n_mftMirrLCN = quot totalClusters 2, n_mftMirrClusters = clusters (int (4 * mftRecordSize)),
          n_logFileLCN = boot + mft, n_logFileClusters = logFile, n_logFileBytes = 2 * 1024 * 1024,
          n_attrDefLCN = boot + mft + logFile, n_attrDefClusters = attrDef,
          n_upcaseLCN = boot + mft + logFile + attrDef, n_upcaseClusters = upcase,
          n_bitmapLCN = boot + mft + logFile + attrDef + upcase, n_bitmapClusters = clusters bitmapBytes,
          n_bitmapBytes = bitmapBytes\<rparr>)"

subsection \<open>The boot sector\<close>

definition ntfs_bootSector :: "ntfs_fsLayout \<Rightarrow> u64 \<Rightarrow> bytes" where
  "ntfs_bootSector l serial =
     (let ss = nat (n_ss l) in
      puts [(0, [0xEB, 0x52, 0x90]), (3, bs ''NTFS    ''), (0x0B, le16 (of_int (n_ss l))), (0x0D, [of_int (n_spc l)]), (0x15, [0xF8]),
            (0x18, le16 63), (0x1A, le16 255), (0x24, [0x80]), (0x26, [0x80]), (0x28, le64 (of_int (n_totalSectors l - 1))),
            (0x30, le64 (of_int (n_mftLCN l))), (0x38, le64 (of_int (n_mftMirrLCN l))), (0x40, [0xF6]),
            (0x44, [if 4096 \<le> n_clusterSize l then 0x01 else 0xF4]), (0x48, le64 serial), (ss - 2, [0x55, 0xAA])] (zeros ss))"

subsection \<open>MFT records\<close>

record mftRecord =
  mr_buf :: bytes
  mr_cursor :: nat
  mr_nextAttrID :: u16
  mr_recNum :: u32
  mr_seqNum :: u16
  mr_linkCount :: u16
  mr_flags :: u16

definition newMFTRecord :: "u32 \<Rightarrow> u16 \<Rightarrow> u16 \<Rightarrow> u16 \<Rightarrow> mftRecord" where
  "newMFTRecord recNum seqNum linkCount flags =
     \<lparr>mr_buf = zeros mftRecordSize, mr_cursor = 0x38, mr_nextAttrID = 0, mr_recNum = recNum, mr_seqNum = seqNum,
      mr_linkCount = linkCount, mr_flags = flags\<rparr>"

text \<open>The end of the three append methods: \<open>copy(r.buf[r.cursor:], attr)\<close> and the counters.\<close>

definition append_attr :: "bytes \<Rightarrow> mftRecord \<Rightarrow> mftRecord res" where
  "append_attr attr r =
     bindR (copy_at (mr_cursor r) attr (mr_buf r)) (\<lambda>b.
       Inr (r\<lparr>mr_buf := b, mr_cursor := mr_cursor r + length attr, mr_nextAttrID := mr_nextAttrID r + 1\<rparr>))"

definition resident_attr :: "u32 \<Rightarrow> bytes \<Rightarrow> u16 \<Rightarrow> bytes" where
  "resident_attr ty content i =
     (let total = 0x18 + pad8 (length content) in
      puts [(0x00, le32 ty), (0x04, le32 (of_nat total)), (0x0A, le16 0x18), (0x0E, le16 i),
            (0x10, le32 (of_nat (length content))), (0x14, le16 0x18), (0x18, content)] (zeros total))"

definition appendResident :: "u32 \<Rightarrow> bytes \<Rightarrow> mftRecord \<Rightarrow> mftRecord res" where
  "appendResident ty content r = append_attr (resident_attr ty content (mr_nextAttrID r)) r"

definition resident_named_attr :: "u32 \<Rightarrow> gostr \<Rightarrow> bytes \<Rightarrow> u16 \<Rightarrow> bytes" where
  "resident_named_attr ty nm content i =
     (let nameBytes = toUTF16LE nm; contentOff = 0x18 + pad8 (length nameBytes); total = contentOff + pad8 (length content) in
      puts [(0x00, le32 ty), (0x04, le32 (of_nat total)), (0x09, [of_nat (length nameBytes div 2)]), (0x0A, le16 0x18), (0x0E, le16 i),
            (0x10, le32 (of_nat (length content))), (0x14, le16 (of_nat contentOff)), (0x18, nameBytes), (contentOff, content)] (zeros total))"

definition appendResidentNamed :: "u32 \<Rightarrow> gostr \<Rightarrow> bytes \<Rightarrow> mftRecord \<Rightarrow> mftRecord res" where
  "appendResidentNamed ty nm content r = append_attr (resident_named_attr ty nm content (mr_nextAttrID r)) r"

definition non_resident_attr :: "u32 \<Rightarrow> int \<Rightarrow> int \<Rightarrow> int \<Rightarrow> int \<Rightarrow> u16 \<Rightarrow> bytes" where
  "non_resident_attr ty startLCN numClusters clusterSize dataSize i =
     (let rl = encodeRunList startLCN numClusters; total = 0x40 + pad8 (length rl) in
      puts [(0x00, le32 ty), (0x04, le32 (of_nat total)), (0x08, [1]), (0x0A, le16 0x40), (0x0E, le16 i),
            (0x18, le64 (of_int (numClusters - 1))), (0x20, le16 0x40), (0x28, le64 (of_int (numClusters * clusterSize))),
            (0x30, le64 (of_int dataSize)), (0x38, le64 (of_int dataSize)), (0x40, rl)] (zeros total))"

definition appendNonResident :: "u32 \<Rightarrow> int \<Rightarrow> int \<Rightarrow> int \<Rightarrow> int \<Rightarrow> mftRecord \<Rightarrow> mftRecord res" where
  "appendNonResident ty startLCN numClusters clusterSize dataSize r =
     append_attr (non_resident_attr ty startLCN numClusters clusterSize dataSize (mr_nextAttrID r)) r"

text \<open>The header, and the update sequence array that saves the last two bytes of the two sectors.\<close>

definition finalize :: "mftRecord \<Rightarrow> bytes res" where
  "finalize r =
     bindR (put_in (mr_cursor r) (le32 0xFFFFFFFF) (mr_buf r)) (\<lambda>b0.
       let b = puts [(0, bs ''FILE''), (0x04, le16 0x30), (0x06, le16 3), (0x08, le64 0), (0x10, le16 (mr_seqNum r)),
                     (0x12, le16 (mr_linkCount r)), (0x14, le16 0x38), (0x16, le16 (mr_flags r)), (0x18, le32 (of_nat (mr_cursor r + 4))),
                     (0x1C, le32 (of_nat mftRecordSize)), (0x20, le64 0), (0x28, le16 (mr_nextAttrID r)), (0x2C, le32 (mr_recNum r))] b0
       in Inr (puts [(0x30, le16 1), (0x32, le16 (get16 b 510)), (0x34, le16 (get16 b 1022)), (510, le16 1), (1022, le16 1)] b))"

subsection \<open>The contents of attributes\<close>

definition buildStdInfo :: "int \<Rightarrow> u32 \<Rightarrow> bytes" where
  "buildStdInfo t fileAttrs =
     (let ft = le64 (windowsFiletime t) in puts [(0, ft), (8, ft), (0x10, ft), (0x18, ft), (0x20, le32 fileAttrs)] (zeros 72))"

definition buildFileName :: "u64 \<Rightarrow> int \<Rightarrow> int \<Rightarrow> int \<Rightarrow> u32 \<Rightarrow> gostr \<Rightarrow> bytes" where
  "buildFileName parentRef t allocSize dataSize fileAttrs nm =
     (let nameUTF16 = toUTF16LE nm; ft = le64 (windowsFiletime t) in
      puts [(0, le64 parentRef), (8, ft), (0x10, ft), (0x18, ft), (0x20, ft), (0x28, le64 (of_int allocSize)), (0x30, le64 (of_int dataSize)),
            (0x38, le32 fileAttrs), (0x40, [of_nat (length nameUTF16 div 2), 3]), (0x42, nameUTF16)] (zeros (0x42 + length nameUTF16)))"

definition buildVolumeInfoAttr :: bytes where
  "buildVolumeInfoAttr = puts [(8, [3, 1])] (zeros 12)"

definition buildIndexRoot :: "int \<Rightarrow> u8 \<Rightarrow> bytes" where
  "buildIndexRoot indexAllocSize clustersPerIdx =
     puts [(0, le32 0x30), (4, le32 1), (8, le32 (of_int indexAllocSize)), (0x0C, [clustersPerIdx]), (0x10, le32 16), (0x14, le32 32),
           (0x18, le32 32), (0x28, le16 16), (0x2C, le16 2)] (zeros 48)"

definition fileRef :: "u32 \<Rightarrow> u16 \<Rightarrow> u64" where
  "fileRef recNum seqNum = ucast recNum OR push_bit 48 (ucast seqNum)"

definition rootDirRef :: u64 where "rootDirRef = 5 OR push_bit 48 1"

subsection \<open>The system records\<close>

definition hiddenSystem :: u32 where "hiddenSystem = 0x0002 OR 0x0004"

text \<open>What every record begins with.\<close>

definition std_and_name :: "int \<Rightarrow> u32 \<Rightarrow> u64 \<Rightarrow> int \<Rightarrow> int \<Rightarrow> gostr \<Rightarrow> mftRecord \<Rightarrow> mftRecord res" where
  "std_and_name t fileAttrs parentRef allocSize dataSize nm r =
     bindR (appendResident 0x10 (buildStdInfo t fileAttrs) r)
       (appendResident 0x30 (buildFileName parentRef t allocSize dataSize fileAttrs nm))"

text \<open>A record whose data is one run of clusters: 0, 1, 2, 4, 6, 7 and 10.\<close>

definition run_record :: "u32 \<Rightarrow> gostr \<Rightarrow> int \<Rightarrow> int \<Rightarrow> int \<Rightarrow> ntfs_fsLayout \<Rightarrow> int \<Rightarrow> mftRecord res" where
  "run_record num nm lcn clusters dataSize l t =
     bindR (std_and_name t hiddenSystem rootDirRef (clusters * n_clusterSize l) dataSize nm (newMFTRecord num 1 1 1))
       (appendNonResident 0x80 lcn clusters (n_clusterSize l) dataSize)"

definition buildRec0 :: "ntfs_fsLayout \<Rightarrow> int \<Rightarrow> mftRecord res" where
  "buildRec0 l t =
     bindR (run_record 0 (bs ''$MFT'') (n_mftLCN l) (n_mftClusters l) (int (numSysRecords * mftRecordSize)) l t) (appendResident 0xB0 [0xFF, 0x0F, 0x00])"

definition buildRec1 :: "ntfs_fsLayout \<Rightarrow> int \<Rightarrow> mftRecord res" where
  "buildRec1 l t = run_record 1 (bs ''$MFTMirr'') (n_mftMirrLCN l) (n_mftMirrClusters l) (int (4 * mftRecordSize)) l t"

definition buildRec2 :: "ntfs_fsLayout \<Rightarrow> int \<Rightarrow> mftRecord res" where
  "buildRec2 l t = run_record 2 (bs ''$LogFile'') (n_logFileLCN l) (n_logFileClusters l) (n_logFileBytes l) l t"

definition buildRec3 :: "ntfs_fsLayout \<Rightarrow> int \<Rightarrow> gostr \<Rightarrow> mftRecord res" where
  "buildRec3 l t label =
     bindR (std_and_name t hiddenSystem rootDirRef 0 0 (bs ''$Volume'') (newMFTRecord 3 1 1 1)) (\<lambda>r.
     bindR (if label \<noteq> [] then appendResident 0x60 (toUTF16LE label) r else Inr r)
       (appendResident 0x70 buildVolumeInfoAttr))"

definition buildRec4 :: "ntfs_fsLayout \<Rightarrow> int \<Rightarrow> mftRecord res" where
  "buildRec4 l t = run_record 4 (bs ''$AttrDef'') (n_attrDefLCN l) (n_attrDefClusters l) attrDefBytes l t"

text \<open>The index of an empty directory, in records 5 and 11.\<close>

definition empty_index :: "ntfs_fsLayout \<Rightarrow> mftRecord \<Rightarrow> mftRecord res" where
  "empty_index l =
     appendResidentNamed 0x90 (bs ''$I30'')
       (buildIndexRoot (if n_clusterSize l < 4096 then 4096 else n_clusterSize l)
          (if 4096 \<le> n_clusterSize l then 1 else of_int (quot 4096 (n_clusterSize l))))"

definition buildRec5 :: "ntfs_fsLayout \<Rightarrow> int \<Rightarrow> mftRecord res" where
  "buildRec5 l t = bindR (std_and_name t 0x0020 (fileRef 5 1) 0 0 [dot] (newMFTRecord 5 1 1 3)) (empty_index l)"

definition buildRec6 :: "ntfs_fsLayout \<Rightarrow> int \<Rightarrow> mftRecord res" where
  "buildRec6 l t = run_record 6 (bs ''$Bitmap'') (n_bitmapLCN l) (n_bitmapClusters l) (n_bitmapBytes l) l t"

definition buildRec7 :: "ntfs_fsLayout \<Rightarrow> int \<Rightarrow> mftRecord res" where
  "buildRec7 l t = run_record 7 (bs ''$Boot'') 0 (n_bootClusters l) (n_bootClusters l * n_clusterSize l) l t"

definition buildRec8 :: "ntfs_fsLayout \<Rightarrow> int \<Rightarrow> mftRecord res" where
  "buildRec8 l t = bindR (std_and_name t hiddenSystem rootDirRef 0 0 (bs ''$BadClus'') (newMFTRecord 8 1 1 1)) (appendResident 0x80 [])"

definition buildRec9 :: "ntfs_fsLayout \<Rightarrow> int \<Rightarrow> mftRecord res" where
  "buildRec9 l t = bindR (std_and_name t hiddenSystem rootDirRef 0 0 (bs ''$Secure'') (newMFTRecord 9 1 1 1)) (appendResident 0x80 [])"

definition buildRec10 :: "ntfs_fsLayout \<Rightarrow> int \<Rightarrow> mftRecord res" where
  "buildRec10 l t = run_record 10 (bs ''$UpCase'') (n_upcaseLCN l) (n_upcaseClusters l) 131072 l t"

definition buildRec11 :: "ntfs_fsLayout \<Rightarrow> int \<Rightarrow> mftRecord res" where
  "buildRec11 l t = bindR (std_and_name t hiddenSystem rootDirRef 0 0 (bs ''$Extend'') (newMFTRecord 11 1 1 3)) (empty_index l)"

definition buildFreeRecord :: "u32 \<Rightarrow> mftRecord" where
  "buildFreeRecord recNum = newMFTRecord recNum 0 0 0"

text \<open>The record number \<open>i\<close>.\<close>

definition ntfs_record :: "ntfs_fsLayout \<Rightarrow> int \<Rightarrow> gostr \<Rightarrow> nat \<Rightarrow> mftRecord res" where
  "ntfs_record l t label i =
     (if i < 12
      then [buildRec0 l t, buildRec1 l t, buildRec2 l t, buildRec3 l t label, buildRec4 l t, buildRec5 l t, buildRec6 l t, buildRec7 l t,
            buildRec8 l t, buildRec9 l t, buildRec10 l t, buildRec11 l t] ! i
      else Inr (buildFreeRecord (of_nat i)))"

fun build_records :: "ntfs_fsLayout \<Rightarrow> int \<Rightarrow> gostr \<Rightarrow> nat list \<Rightarrow> bytes \<Rightarrow> bytes res" where
  "build_records l t label [] buf = Inr buf"
| "build_records l t label (i # is) buf =
     bindR (ntfs_record l t label i) (\<lambda>r. bindR (finalize r) (\<lambda>b.
       build_records l t label is (copy_into buf (i * mftRecordSize) b)))"

definition buildMFT :: "ntfs_fsLayout \<Rightarrow> int \<Rightarrow> gostr \<Rightarrow> bytes res" where
  "buildMFT l now label = build_records l now label [0..<numSysRecords] (zeros (numSysRecords * mftRecordSize))"

subsection \<open>The bitmap\<close>

text \<open>\<open>buf[i/8] |= 1 << (uint(i) % 8)\<close> for a range of clusters.\<close>

fun mark_clusters :: "int list \<Rightarrow> bytes \<Rightarrow> bytes res" where
  "mark_clusters [] buf = Inr buf"
| "mark_clusters (i # is) buf =
     (if i < 0 \<or> 8 * int (length buf) \<le> i then Inl (Panic ''index out of range'') else mark_clusters is (or_bit (nat i) buf))"

definition ntfs_markRange :: "int \<Rightarrow> int \<Rightarrow> bytes \<Rightarrow> bytes res" where
  "ntfs_markRange start n = mark_clusters [start..start + n - 1]"

definition ntfs_bitmap :: "ntfs_fsLayout \<Rightarrow> bytes res" where
  "ntfs_bitmap l =
     bindR (make_bytes (n_bitmapClusters l * n_clusterSize l)) (\<lambda>b0.
     bindR (ntfs_markRange 0 (n_bootClusters l) b0) (\<lambda>b1.
     bindR (ntfs_markRange (n_mftLCN l) (n_mftClusters l) b1) (\<lambda>b2.
     bindR (ntfs_markRange (n_mftMirrLCN l) (n_mftMirrClusters l) b2) (\<lambda>b3.
     bindR (ntfs_markRange (n_logFileLCN l) (n_logFileClusters l) b3) (\<lambda>b4.
     bindR (ntfs_markRange (n_attrDefLCN l) (n_attrDefClusters l) b4) (\<lambda>b5.
     bindR (ntfs_markRange (n_upcaseLCN l) (n_upcaseClusters l) b5) (\<lambda>b6.
       ntfs_markRange (n_bitmapLCN l) (n_bitmapClusters l) b6)))))))"

subsection \<open>Formatting\<close>

text \<open>Seek and write: the errors are returned as they come.\<close>

definition write_at :: "int \<Rightarrow> bytes \<Rightarrow> (gofile \<times> sectionRWS, unit) sop" where
  "write_at off b = bindS (w_Seek off) (\<lambda>_. w_Write [] b)"

definition ntfs_sectorSize :: "ntfs_options \<Rightarrow> int" where
  "ntfs_sectorSize opts = (if no_SectorSize opts = 0 then 512 else no_SectorSize opts)"

definition ntfs_Format :: "u64 \<Rightarrow> int \<Rightarrow> int \<Rightarrow> ntfs_options \<Rightarrow> (gofile \<times> sectionRWS, unit) sop" where
  "ntfs_Format serial now sizeBytes opts =
     (let ss = ntfs_sectorSize opts in
      if \<not> isPow2 ss \<or> ss < 512 \<or> ss > 4096 then failS (Err ''ntfs: invalid sector size'')
      else let l = ntfs_computeLayout sizeBytes ss (ntfs_sectorsPerCluster sizeBytes ss); cs = n_clusterSize l;
               boot = ntfs_bootSector l serial
           in bindS (write_at 0 boot) (\<lambda>_.
              bindS (write_at ((n_totalSectors l - 1) * ss) boot) (\<lambda>_.
              bindS (readS (\<lambda>_. buildMFT l now (no_Label opts))) (\<lambda>mft.
              bindS (write_at (n_mftLCN l * cs) mft) (\<lambda>_.
              bindS (write_at (n_mftMirrLCN l * cs) (take (4 * mftRecordSize) mft)) (\<lambda>_.
              bindS (write_at (n_logFileLCN l * cs) (replicate (nat (n_logFileClusters l * cs)) 0xFF)) (\<lambda>_.
              bindS (write_at (n_upcaseLCN l * cs) ntfs_upcaseTable) (\<lambda>_.
              bindS (readS (\<lambda>_. ntfs_bitmap l)) (\<lambda>bm.
                write_at (n_bitmapLCN l * cs) bm)))))))))"

end
