(* ===== verification/NtfsOpen.thy ===== *)
theory NtfsOpen
  imports GoRead "HOL-Library.AList"
begin

text \<open>
  The NTFS driver (\<open>src/ntfs\<close>), first part: the volume and its boot sector, MFT records with their
  update sequence array, attributes and run lists (\<open>open.go\<close> and the first half of \<open>read.go\<close>).

  The state of an operation is the image with the volume, because the driver writes records and
  clusters at once; only the bitmaps wait for \<open>Unmount\<close>.  The mutex is not modelled: no operation
  takes it while it holds it.
\<close>

unbundle bit_operations_syntax

subsection \<open>The volume\<close>

definition attrEND :: u32 where "attrEND = 0xFFFFFFFF"
definition attrSTANDARD_INFORMATION :: u32 where "attrSTANDARD_INFORMATION = 0x10"
definition attrFILE_NAME :: u32 where "attrFILE_NAME = 0x30"
definition attrVOLUME_INFORMATION :: u32 where "attrVOLUME_INFORMATION = 0x70"
definition attrDATA :: u32 where "attrDATA = 0x80"
definition attrINDEX_ROOT :: u32 where "attrINDEX_ROOT = 0x90"
definition attrINDEX_ALLOCATION :: u32 where "attrINDEX_ALLOCATION = 0xA0"
definition attrBITMAP :: u32 where "attrBITMAP = 0xB0"
definition attrREPARSE_POINT :: u32 where "attrREPARSE_POINT = 0xC0"

definition mftFlagInUse :: u16 where "mftFlagInUse = 0x01"
definition mftFlagDir :: u16 where "mftFlagDir = 0x02"
definition idxFlagLastEntry :: u32 where "idxFlagLastEntry = 0x02"
definition faDirectory :: u32 where "faDirectory = 0x0010"
definition faArchive :: u32 where "faArchive = 0x0020"

definition recRoot :: u64 where "recRoot = 5"
definition recBitmap :: u64 where "recBitmap = 6"

definition filetimeDelta :: int where "filetimeDelta = 116444736000000000"

record ntfsVolume =
  nv_base :: int
  nv_size :: int
  nv_clusterSize :: int
  nv_recSize :: int
  nv_idxBlockSize :: int
  nv_mftOff :: int
  nv_totalClusters :: int
  nv_mftCache :: "(u64 \<times> bytes) list"
  nv_bitmap :: bytes
  nv_mftBitmap :: bytes
  nv_dirty :: bool

type_synonym nstate = "gofile \<times> ntfsVolume"

definition partRead :: "gofile \<Rightarrow> ntfsVolume \<Rightarrow> nat \<Rightarrow> int \<Rightarrow> bytes \<times> goerr option" where
  "partRead f v n off = ReadAt f n (wrap64 (nv_base v + off))"

definition partWrite :: "bytes \<Rightarrow> int \<Rightarrow> (nstate, unit) sop" where
  "partWrite p off = (\<lambda>(f, v). case WriteAt f p (wrap64 (nv_base v + off)) of (r, f') \<Rightarrow> (r, (f', v)))"

definition modV :: "(ntfsVolume \<Rightarrow> ntfsVolume) \<Rightarrow> (nstate, unit) sop" where
  "modV g = modS (\<lambda>(f, v). (f, g v))"

definition readV :: "(gofile \<Rightarrow> ntfsVolume \<Rightarrow> 'a res) \<Rightarrow> (nstate, 'a) sop" where
  "readV g = readS (\<lambda>(f, v). g f v)"

subsection \<open>Update sequence arrays\<close>

definition usa_range :: "bytes \<Rightarrow> (nat \<times> nat) option" where
  "usa_range buf =
     (if length buf < 8 then None
      else let usaOff = unat (get16 buf 4); usaCnt = unat (get16 buf 6)
           in if usaOff = 0 \<or> length buf < usaOff + usaCnt * 2 then None else Some (usaOff, usaCnt))"

text \<open>One sector: its last two bytes come from the array.  Later sectors are out of range once one is.\<close>

definition unstamp :: "nat \<Rightarrow> nat \<Rightarrow> bytes \<Rightarrow> bytes" where
  "unstamp usaOff i buf =
     (let pos = i * 512 - 2 in
      if length buf < pos + 2 then buf
      else let b1 = buf[pos := buf ! (usaOff + i * 2)] in b1[pos + 1 := b1 ! (usaOff + i * 2 + 1)])"

definition applyUSA :: "bytes \<Rightarrow> bytes" where
  "applyUSA buf = (case usa_range buf of None \<Rightarrow> buf | Some (usaOff, usaCnt) \<Rightarrow> fold (unstamp usaOff) [1..<usaCnt] buf)"

definition stamp :: "nat \<Rightarrow> u16 \<Rightarrow> nat \<Rightarrow> bytes \<Rightarrow> bytes" where
  "stamp usaOff sq i buf =
     (let pos = i * 512 - 2 in
      if length buf < pos + 2 then buf
      else let b1 = buf[usaOff + i * 2 := buf ! pos]; b2 = b1[usaOff + i * 2 + 1 := b1 ! (pos + 1)];
               b3 = b2[pos := ucast sq] in b3[pos + 1 := ucast (drop_bit 8 sq)])"

text \<open>Two bytes must lie behind the offset for the sequence number to be read (\<open>usaCnt\<close> may be 0).\<close>

definition stampUSA :: "bytes \<Rightarrow> nat \<Rightarrow> bytes res" where
  "stampUSA buf sectors =
     (case usa_range buf of None \<Rightarrow> Inr buf
      | Some (usaOff, usaCnt) \<Rightarrow>
          bindR (at16 buf usaOff) (\<lambda>s0.
            let sq = (if s0 + 1 = 0 then 1 else s0 + 1)
            in Inr (fold (stamp usaOff sq) [1..<min usaCnt (sectors + 1)] (put16 buf usaOff sq))))"

subsection \<open>Records\<close>

definition readRawRecord :: "gofile \<Rightarrow> ntfsVolume \<Rightarrow> u64 \<Rightarrow> bytes res" where
  "readRawRecord f v n =
     (let off = wrap64 (nv_mftOff v + wrap64 (sint n * nv_recSize v)) in
      bindR (make_bytes (nv_recSize v)) (\<lambda>z.
      bindR (wrapR ''read record'' (full (partRead f v (length z) off))) (\<lambda>buf.
        if 4 \<le> length buf \<and> take 4 buf = bs ''BAAD'' then Inl (Err ''MFT record is corrupt (BAAD signature)'')
        else if 4 \<le> length buf \<and> take 4 buf \<noteq> bs ''FILE'' then Inl (Err ''MFT record: unexpected signature'')
        else Inr (applyUSA buf))))"

definition cache_record :: "u64 \<Rightarrow> bytes \<Rightarrow> ntfsVolume \<Rightarrow> ntfsVolume" where
  "cache_record n rec v = v\<lparr>nv_mftCache := AList.update n rec (nv_mftCache v)\<rparr>"

definition getRecord :: "u64 \<Rightarrow> (nstate, bytes) sop" where
  "getRecord n = (\<lambda>(f, v). case map_of (nv_mftCache v) n of
     Some rec \<Rightarrow> (Inr rec, (f, v))
   | None \<Rightarrow> (case readRawRecord f v n of
       Inl e \<Rightarrow> (Inl e, (f, v)) | Inr rec \<Rightarrow> (Inr rec, (f, cache_record n rec v))))"

subsection \<open>Run lists\<close>

record run =
  rn_lcn :: int      \<comment> \<open>-1 for a sparse run\<close>
  rn_length :: int

text \<open>Bytes as an unsigned number; what does not fit 64 bits is shifted out.\<close>

fun le_word :: "bytes \<Rightarrow> u64" where
  "le_word [] = 0"
| "le_word (b # d) = ucast b OR push_bit 8 (le_word d)"

definition le_signed :: "bytes \<Rightarrow> int" where
  "le_signed d = sint (if d \<noteq> [] \<and> last d AND 0x80 \<noteq> 0 then le_word d OR push_bit (8 * length d) (- 1) else le_word d)"

function decode_runs :: "int \<Rightarrow> bytes \<Rightarrow> run list res" where
  "decode_runs prevLCN [] = Inr []"
| "decode_runs prevLCN (hdr # rest) =
     (if hdr = 0 then Inr []
      else let lenBytes = unat (hdr AND 0x0F); offBytes = unat (drop_bit 4 hdr)
           in if length rest < lenBytes + offBytes then Inl (Err ''runlist: entry overflows buffer'')
              else let runLen = sint (le_word (take lenBytes rest));
                       lcn = wrap64 (prevLCN + le_signed (sub rest lenBytes offBytes))
                   in bindR (decode_runs (if 0 < offBytes then lcn else prevLCN) (drop (lenBytes + offBytes) rest)) (\<lambda>rs.
                        Inr (\<lparr>rn_lcn = (if 0 < offBytes then lcn else - 1), rn_length = runLen\<rparr> # rs)))"
  by pat_completeness auto

termination
  by (relation "measure (\<lambda>(p, d). length d)") auto

definition decodeRunlist :: "bytes \<Rightarrow> run list res" where
  "decodeRunlist data = decode_runs 0 data"

text \<open>Zero rounds for a negative length, as in the code.\<close>

function count_unsigned :: "nat \<Rightarrow> nat" where
  "count_unsigned v = (if v = 0 then 0 else Suc (count_unsigned (v div 256)))"
  by pat_completeness auto

termination
  by (relation "measure id") auto

declare count_unsigned.simps [simp del]

definition minBytesUnsigned :: "int \<Rightarrow> nat" where
  "minBytesUnsigned v = (if v = 0 then 1 else count_unsigned (nat v))"

text \<open>The shift \<open>tmp >>= 8\<close> rounds down.\<close>

function count_signed :: "int \<Rightarrow> nat" where
  "count_signed tmp = (let t = tmp div 256 in if t = 0 \<or> t = - 1 then 0 else Suc (count_signed t))"
  by pat_completeness auto

termination
  by (relation "measure (\<lambda>t. nat \<bar>t\<bar>)") auto

declare count_signed.simps [simp del]

definition minBytesSigned :: "int \<Rightarrow> nat" where
  "minBytesSigned v =
     (if v = 0 then 1
      else let n = 1 + count_signed v;
               n1 = (if 0 < v \<and> v div 2 ^ (8 * n - 1) \<noteq> 0 then n + 1 else n)
           in if v < 0 \<and> v div 2 ^ (8 * n1 - 1) \<noteq> - 1 then n1 + 1 else n1)"

text \<open>\<open>byte(x >> (8*uint(j)))\<close> for the bytes \<open>j < n\<close>.\<close>

definition low_bytes :: "nat \<Rightarrow> int \<Rightarrow> bytes" where
  "low_bytes n x = map (\<lambda>j. of_int (x div 2 ^ (8 * j))) [0..<n]"

definition encode_run :: "int \<Rightarrow> run \<Rightarrow> bytes" where
  "encode_run prevLCN r =
     (let lenBytes = minBytesUnsigned (rn_length r);
          delta = wrap64 (rn_lcn r - prevLCN);
          offBytes = (if 0 \<le> rn_lcn r then minBytesSigned delta else 0)
      in ((of_nat (offBytes * 16) :: u8) OR of_nat lenBytes) # low_bytes lenBytes (rn_length r) @ low_bytes offBytes delta)"

fun encode_runs :: "int \<Rightarrow> run list \<Rightarrow> bytes" where
  "encode_runs prevLCN [] = [0]"
| "encode_runs prevLCN (r # rs) = encode_run prevLCN r @ encode_runs (if 0 \<le> rn_lcn r then rn_lcn r else prevLCN) rs"

definition encodeRunlist :: "run list \<Rightarrow> bytes" where
  "encodeRunlist runs = encode_runs 0 runs"

subsection \<open>Attributes\<close>

text \<open>The name of the attribute at \<open>off\<close>, if it has one inside the record.\<close>

definition attr_name :: "bytes \<Rightarrow> nat \<Rightarrow> gostr option res" where
  "attr_name rec off =
     bindR (at8 rec (off + 9)) (\<lambda>k. bindR (at16 rec (off + 10)) (\<lambda>p.
       Inr (if 0 < unat k \<and> off + unat p + unat k * 2 \<le> length rec then Some (utf16_str (sub rec (off + unat p) (unat k * 2))) else None)))"

text \<open>Offset and length of the first attribute of a type and, unless it is empty, of a name.\<close>

function attr_search :: "bytes \<Rightarrow> u32 \<Rightarrow> gostr \<Rightarrow> nat \<Rightarrow> (nat \<times> nat) option res" where
  "attr_search rec ty nm off =
     (if length rec < off + 8 then Inr None
      else let t = get32 rec off; attrLen = unat (get32 rec (off + 4)) in
           if t = attrEND then Inr None
           else if attrLen = 0 \<or> length rec < off + attrLen then Inr None
           else if t = ty \<and> nm = [] then Inr (Some (off, attrLen))
           else if t = ty then bindR (attr_name rec off) (\<lambda>r.
             if r = Some nm then Inr (Some (off, attrLen)) else attr_search rec ty nm (off + attrLen))
           else attr_search rec ty nm (off + attrLen))"
  by pat_completeness auto

termination
  by (relation "measure (\<lambda>(rec, ty, nm, off). length rec - off)") auto

declare attr_search.simps [simp del]

definition attr_find :: "bytes \<Rightarrow> u32 \<Rightarrow> gostr \<Rightarrow> (nat \<times> nat) option res" where
  "attr_find rec ty nm = (if length rec < 0x30 then Inr None else attr_search rec ty nm (unat (get16 rec 0x14)))"

definition findAttr :: "bytes \<Rightarrow> u32 \<Rightarrow> gostr \<Rightarrow> bytes option res" where
  "findAttr rec ty nm = bindR (attr_find rec ty nm) (\<lambda>r. Inr (map_option (\<lambda>(off, n). sub rec off n) r))"

definition findAttrOffset :: "bytes \<Rightarrow> u32 \<Rightarrow> gostr \<Rightarrow> nat option res" where
  "findAttrOffset rec ty nm = bindR (attr_find rec ty nm) (\<lambda>r. Inr (map_option fst r))"

text \<open>The loop of \<open>readRuns\<close>; \<open>out[written:written+toRead]\<close> is checked as Go does.\<close>

fun read_runs :: "gofile \<Rightarrow> ntfsVolume \<Rightarrow> int \<Rightarrow> run list \<Rightarrow> int \<Rightarrow> bytes \<Rightarrow> bytes res" where
  "read_runs f v dataSize [] written out = Inr out"
| "read_runs f v dataSize (r # rs) written out =
     (if dataSize \<le> written then Inr out
      else let n0 = wrap64 (rn_length r * nv_clusterSize v);
               toRead = (if dataSize < wrap64 (written + n0) then dataSize - written else n0)
           in if rn_lcn r < 0 then read_runs f v dataSize rs (wrap64 (written + toRead)) out
              else if written < 0 \<or> toRead < 0 \<or> int (length out) < written + toRead then bounds_panic
              else bindR (wrapR ''read cluster run'' (full (partRead f v (nat toRead) (wrap64 (rn_lcn r * nv_clusterSize v))))) (\<lambda>d.
                     read_runs f v dataSize rs (written + toRead) (copy_into out (nat written) d)))"

definition readRuns :: "gofile \<Rightarrow> ntfsVolume \<Rightarrow> run list \<Rightarrow> int \<Rightarrow> bytes res" where
  "readRuns f v runs dataSize = bindR (make_bytes dataSize) (read_runs f v dataSize runs 0)"

definition attrValue :: "gofile \<Rightarrow> ntfsVolume \<Rightarrow> bytes \<Rightarrow> bytes res" where
  "attrValue f v attr =
     (if length attr < 16 then Inl (Err ''attribute too short'')
      else if attr ! 8 = 0
      then bindR (at32 attr 0x10) (\<lambda>valLen. bindR (at16 attr 0x14) (\<lambda>valOff.
             if length attr < unat valOff + unat valLen then Inl (Err ''resident attribute value out of bounds'')
             else Inr (sub attr (unat valOff) (unat valLen))))
      else if length attr < 0x40 then Inl (Err ''non-resident attribute header truncated'')
      else let dataSize = sint (get64 attr 0x30); rlOff = unat (get16 attr 0x20) in
           if length attr \<le> rlOff then Inl (Err ''runlist offset out of bounds'')
           else bindR (decodeRunlist (drop rlOff attr)) (\<lambda>runs. readRuns f v runs dataSize))"

subsection \<open>Opening\<close>

text \<open>\<open>1 << uint(-c)\<close> for a negative byte, else a number of clusters; 0 stands for the default.\<close>

definition size_code :: "u8 \<Rightarrow> int \<Rightarrow> int \<Rightarrow> int" where
  "size_code c clusterSize dflt =
     (let n = (if sint c < 0 then wrap64 (2 ^ nat (- sint c)) else sint c * clusterSize) in if n = 0 then dflt else n)"

definition parseBoot :: "(nstate, unit) sop" where
  "parseBoot = (\<lambda>(f, v).
     case wrapR ''boot sector'' (full (ReadAt f 512 (nv_base v))) of
       Inl e \<Rightarrow> (Inl e, (f, v))
     | Inr boot \<Rightarrow>
         if sub boot 3 8 \<noteq> bs ''NTFS    '' then (Inl (Err ''bad OEM ID''), (f, v))
         else let bps = uint (get16 boot 0x0B); spc = uint (boot ! 0x0D); cs = bps * spc in
           (Inr (), (f, v\<lparr>nv_clusterSize := cs,
              nv_totalClusters := (if 0 < spc then quot (sint (get64 boot 0x28)) spc else nv_totalClusters v),
              nv_mftOff := wrap64 (sint (get64 boot 0x30) * cs),
              nv_recSize := size_code (boot ! 0x40) cs 1024,
              nv_idxBlockSize := size_code (boot ! 0x44) cs 4096\<rparr>)))"

text \<open>The system records are cached as far as they can be read.\<close>

definition warm_record :: "u64 \<Rightarrow> (nstate, unit) sop" where
  "warm_record i = tryS (readV (\<lambda>f v. readRawRecord f v i)) (\<lambda>r. case r of
     Inl e \<Rightarrow> retS () | Inr rec \<Rightarrow> modV (cache_record i rec))"

definition loadMFT :: "(nstate, unit) sop" where
  "loadMFT =
     bindS (wrapS ''MFT record 0'' (readV (\<lambda>f v. readRawRecord f v 0))) (\<lambda>rec0.
     bindS (modV (cache_record 0 rec0)) (\<lambda>_.
     bindS (for_each warm_record (map of_nat [1..<12])) (\<lambda>_.
     bindS (readV (\<lambda>f v. findAttr rec0 attrBITMAP [])) (\<lambda>a. case a of
       None \<Rightarrow> retS ()
     | Some attr \<Rightarrow> tryS (readV (\<lambda>f v. attrValue f v attr)) (\<lambda>r.
         modV (\<lambda>v. v\<lparr>nv_mftBitmap := (case r of Inr d \<Rightarrow> d | Inl _ \<Rightarrow> [])\<rparr>))))))"

definition loadBitmap :: "(nstate, unit) sop" where
  "loadBitmap =
     bindS (wrapS ''$Bitmap record'' (getRecord recBitmap)) (\<lambda>rec.
     bindS (readV (\<lambda>f v. findAttr rec attrDATA [])) (\<lambda>a. case a of
       None \<Rightarrow> failS (Err ''$Bitmap has no $DATA attribute'')
     | Some attr \<Rightarrow> bindS (wrapS ''$Bitmap data'' (readV (\<lambda>f v. attrValue f v attr))) (\<lambda>d.
         modV (\<lambda>v. v\<lparr>nv_bitmap := d\<rparr>))))"

definition nt_Open :: "gofile \<Rightarrow> int \<Rightarrow> int \<Rightarrow> ntfsVolume res" where
  "nt_Open f partOff partSize =
     (let v0 = \<lparr>nv_base = partOff, nv_size = partSize, nv_clusterSize = 0, nv_recSize = 0, nv_idxBlockSize = 0, nv_mftOff = 0,
                nv_totalClusters = 0, nv_mftCache = [], nv_bitmap = [], nv_mftBitmap = [], nv_dirty = False\<rparr>
      in case bindS (wrapS ''ntfs.Open'' parseBoot) (\<lambda>_. bindS (wrapS ''ntfs.Open'' loadMFT) (\<lambda>_. wrapS ''ntfs.Open'' loadBitmap)) (f, v0) of
           (Inl e, s) \<Rightarrow> Inl e | (Inr _, (f', v)) \<Rightarrow> Inr v)"

subsection \<open>Times\<close>

definition filetimeToTime :: "int \<Rightarrow> gotime" where
  "filetimeToTime ft = (if ft = 0 then None else Some (wrap64 (wrap64 (ft - filetimeDelta) * 100)))"

definition timeToFiletime :: "gotime \<Rightarrow> int" where
  "timeToFiletime t = (case t of None \<Rightarrow> 0 | Some nano \<Rightarrow> wrap64 (quot nano 100 + filetimeDelta))"

end
