(* ===== verification/NtfsRead.thy ===== *)
theory NtfsRead
  imports NtfsOpen Partitions
begin

text \<open>
  The NTFS driver, second part: file information, directory indices, path lookup and the reading
  side of files (\<open>read.go\<close>, \<open>meta.go\<close>).

  Operations that look records up change the record cache, so they work on the state; \<open>unicode\<close> holds
  the case tables of Go's \<open>unicode\<close> package.
\<close>

unbundle bit_operations_syntax

subsection \<open>File information\<close>

definition faReadOnly :: u32 where "faReadOnly = 0x0001"
definition reparseSymlink :: u32 where "reparseSymlink = 0xA000000C"
definition reparseJunction :: u32 where "reparseJunction = 0xA0000003"
definition ModeDir :: u32 where "ModeDir = 0x80000000"

record ntfsFileInfo =
  fi_name :: gostr
  fi_size :: int
  fi_mode :: u32
  fi_modTime :: gotime
  fi_isDir :: bool

record ntfsDirEntry =
  nde_info :: ntfsFileInfo
  nde_mftNum :: u64

definition mode_of :: "bool \<Rightarrow> u32" where
  "mode_of isDir = (if isDir then 0x1ED OR ModeDir else 0x1A4)"

definition fileAttrsToMode :: "u32 \<Rightarrow> bool \<Rightarrow> u32" where
  "fileAttrsToMode fa isDir = (if fa AND faReadOnly \<noteq> 0 then mode_of isDir AND NOT 0x92 else mode_of isDir)"

text \<open>The attribute loop of \<open>bestFileName\<close>; a DOS name (namespace 2) is passed over.\<close>

definition better_name :: "bytes \<Rightarrow> gostr \<Rightarrow> gostr" where
  "better_name val best =
     (if length val < 66 \<or> val ! 65 = 2 then best
      else let k = unat (val ! 64); ns = val ! 65 in
        if 66 + k * 2 \<le> length val \<and> (ns = 1 \<or> ns = 3 \<or> best = []) then utf16_str (sub val 66 (k * 2)) else best)"

function best_name :: "gofile \<Rightarrow> ntfsVolume \<Rightarrow> bytes \<Rightarrow> nat \<Rightarrow> gostr \<Rightarrow> gostr res" where
  "best_name f v rec off best =
     (if length rec < off + 8 then Inr best
      else let t = get32 rec off; attrLen = unat (get32 rec (off + 4)) in
           if t = attrEND then Inr best
           else if attrLen = 0 \<or> length rec < off + attrLen then Inr best
           else if t = attrFILE_NAME
           then bindR (optR (attrValue f v (sub rec off attrLen))) (\<lambda>r.
                  best_name f v rec (off + attrLen) (case r of None \<Rightarrow> best | Some val \<Rightarrow> better_name val best))
           else best_name f v rec (off + attrLen) best)"
  by pat_completeness auto

termination
  by (relation "measure (\<lambda>(f, v, rec, off, best). length rec - off)") auto

declare best_name.simps [simp del]

definition bestFileName :: "gofile \<Rightarrow> ntfsVolume \<Rightarrow> bytes \<Rightarrow> gostr res" where
  "bestFileName f v rec = bindR (at16 rec 0x14) (\<lambda>o'. best_name f v rec (unat o') [])"

text \<open>Time stamp and attributes of \<open>$STANDARD_INFORMATION\<close>.\<close>

definition std_info :: "gofile \<Rightarrow> ntfsVolume \<Rightarrow> bytes \<Rightarrow> (gotime \<times> u32) res" where
  "std_info f v rec =
     bindR (findAttr rec attrSTANDARD_INFORMATION []) (\<lambda>a. case a of
       None \<Rightarrow> Inr (None, 0)
     | Some si \<Rightarrow> bindR (optR (attrValue f v si)) (\<lambda>r. case r of
         None \<Rightarrow> Inr (None, 0)
       | Some val \<Rightarrow> Inr (if 0x24 \<le> length val then (filetimeToTime (sint (get64 val 0x08)), get32 val 0x20) else (None, 0))))"

definition data_size :: "bytes \<Rightarrow> int res" where
  "data_size rec =
     bindR (findAttr rec attrDATA []) (\<lambda>a. case a of
       None \<Rightarrow> Inr 0
     | Some d \<Rightarrow> bindR (at8 d 8) (\<lambda>nr.
         if nr = 0 then bindR (at32 d 0x10) (\<lambda>s. Inr (uint s)) else bindR (at64 d 0x30) (\<lambda>s. Inr (sint s))))"

definition recordInfo :: "gofile \<Rightarrow> ntfsVolume \<Rightarrow> bytes \<Rightarrow> gostr \<Rightarrow> ntfsFileInfo res" where
  "recordInfo f v rec nm =
     bindR (at16 rec 0x16) (\<lambda>flags.
     let isDir = (flags AND mftFlagDir \<noteq> 0) in
     bindR (std_info f v rec) (\<lambda>(mt, fa).
     bindR (if isDir then Inr 0 else data_size rec) (\<lambda>s.
     bindR (if nm = [] then bestFileName f v rec else Inr nm) (\<lambda>nm'.
       Inr \<lparr>fi_name = nm', fi_size = s, fi_mode = fileAttrsToMode fa isDir, fi_modTime = mt, fi_isDir = isDir\<rparr>))))"

subsection \<open>Directory indices\<close>

definition I30 :: gostr where
  "I30 = bs ''$I30''"

text \<open>The attribute named \<open>$I30\<close>, else the first one of the type.\<close>

definition find_index :: "bytes \<Rightarrow> u32 \<Rightarrow> bytes option res" where
  "find_index rec ty = bindR (findAttr rec ty I30) (\<lambda>a. if a = None then findAttr rec ty [] else Inr a)"

definition parseFileNameKey :: "bytes \<Rightarrow> u64 \<Rightarrow> ntfsDirEntry option" where
  "parseFileNameKey key mftNum =
     (if length key < 66 \<or> key ! 65 = 2 then None
      else let k = unat (key ! 64) in
        if length key < 66 + k * 2 then None
        else let nm = utf16_str (sub key 66 (k * 2)) in
          if nm = [dot] \<or> nm = [dot, dot] then None
          else let isDir = (get32 key 56 AND faDirectory \<noteq> 0) in
            Some \<lparr>nde_info = \<lparr>fi_name = nm, fi_size = sint (get64 key 48), fi_mode = mode_of isDir,
                             fi_modTime = filetimeToTime (sint (get64 key 16)), fi_isDir = isDir\<rparr>,
                  nde_mftNum = mftNum\<rparr>)"

text \<open>The loop of \<open>collectIndexEntries\<close> on what is left of the entries.\<close>

function collect_entries :: "bytes \<Rightarrow> ntfsDirEntry list" where
  "collect_entries d =
     (if length d < 16 then []
      else let mftRef = get64 d 0; entLen = unat (get16 d 8); keyLen = unat (get16 d 10); flags = get32 d 12 in
        if flags AND idxFlagLastEntry \<noteq> 0 then []
        else if entLen < 16 \<or> length d < entLen then []
        else (if 66 \<le> keyLen \<and> 16 + keyLen \<le> length d
              then (case parseFileNameKey (sub d 16 keyLen) (mftRef AND 0x0000FFFFFFFFFFFF) of None \<Rightarrow> [] | Some e \<Rightarrow> [e])
              else [])
             @ collect_entries (drop entLen d))"
  by pat_completeness auto

termination
  by (relation "measure length") auto

declare collect_entries.simps [simp del]

definition collectIndexEntries :: "bytes \<Rightarrow> ntfsDirEntry list res" where
  "collectIndexEntries hdr =
     (if length hdr < 16 then Inr []
      else let entriesOff = unat (get32 hdr 0); indexLen = unat (get32 hdr 4) in
        if length hdr < entriesOff \<or> length hdr < indexLen then Inr []
        else bindR (slice hdr entriesOff indexLen) (\<lambda>d. Inr (collect_entries d)))"

text \<open>One index block; a block that cannot be read or is not one holds no entries.\<close>

definition index_block :: "gofile \<Rightarrow> ntfsVolume \<Rightarrow> nat \<Rightarrow> int \<Rightarrow> ntfsDirEntry list res" where
  "index_block f v n off =
     (case full (partRead f v n off) of
       Inl _ \<Rightarrow> Inr []
     | Inr b \<Rightarrow> bindR (slice b 0 4) (\<lambda>sg.
         if sg \<noteq> bs ''INDX'' then Inr []
         else bindR (slice (applyUSA b) 0x18 (length b)) collectIndexEntries))"

function walk_run :: "gofile \<Rightarrow> ntfsVolume \<Rightarrow> run \<Rightarrow> int \<Rightarrow> int \<Rightarrow> int \<times> ntfsDirEntry list \<Rightarrow> (int \<times> ntfsDirEntry list) res" where
  "walk_run f v r totalBytes c (blockOff, out) =
     (if rn_length r \<le> c \<or> totalBytes \<le> blockOff then Inr (blockOff, out)
      else bindR (index_block f v (nat (nv_idxBlockSize v)) (wrap64 (wrap64 (rn_lcn r + c) * nv_clusterSize v))) (\<lambda>es.
             walk_run f v r totalBytes (c + 1) (wrap64 (blockOff + nv_idxBlockSize v), out @ es)))"
  by pat_completeness auto

termination
  by (relation "measure (\<lambda>(f, v, r, t, c, s). nat (rn_length r - c))") auto

declare walk_run.simps [simp del]

fun walk_runs :: "gofile \<Rightarrow> ntfsVolume \<Rightarrow> run list \<Rightarrow> int \<Rightarrow> int \<times> ntfsDirEntry list \<Rightarrow> (int \<times> ntfsDirEntry list) res" where
  "walk_runs f v [] totalBytes s = Inr s"
| "walk_runs f v (r # rs) totalBytes s = bindR (walk_run f v r totalBytes 0 s) (walk_runs f v rs totalBytes)"

definition walkIndexAlloc :: "gofile \<Rightarrow> ntfsVolume \<Rightarrow> run list \<Rightarrow> int \<Rightarrow> ntfsDirEntry list \<Rightarrow> ntfsDirEntry list res" where
  "walkIndexAlloc f v runs totalBytes out =
     bindR (make_bytes (nv_idxBlockSize v)) (\<lambda>_. bindR (walk_runs f v runs totalBytes (0, out)) (\<lambda>s. Inr (snd s)))"

definition alloc_entries :: "gofile \<Rightarrow> ntfsVolume \<Rightarrow> bytes \<Rightarrow> ntfsDirEntry list \<Rightarrow> ntfsDirEntry list res" where
  "alloc_entries f v a es =
     bindR (at16 a 0x20) (\<lambda>rlOff.
       if length a \<le> unat rlOff then Inr es
       else bindR (optR (decodeRunlist (drop (unat rlOff) a))) (\<lambda>r. case r of
         None \<Rightarrow> Inr es
       | Some runs \<Rightarrow> bindR (at64 a 0x30) (\<lambda>total. walkIndexAlloc f v runs (sint total) es)))"

definition readDirEntries :: "gofile \<Rightarrow> ntfsVolume \<Rightarrow> bytes \<Rightarrow> ntfsDirEntry list res" where
  "readDirEntries f v dirRec =
     bindR (find_index dirRec attrINDEX_ROOT) (\<lambda>a. case a of
       None \<Rightarrow> Inl (Err ''directory has no $INDEX_ROOT'')
     | Some idxRoot \<Rightarrow>
         bindR (at32 idxRoot 0x10) (\<lambda>l. bindR (at16 idxRoot 0x14) (\<lambda>o'.
           let valLen = unat l; valOff = unat o' in
           if length idxRoot < valOff + valLen then Inl (Err ''$INDEX_ROOT value out of bounds'')
           else if valLen < 32 then Inl (Err ''$INDEX_ROOT value too short'')
           else bindR (collectIndexEntries (drop 16 (sub idxRoot valOff valLen))) (\<lambda>es.
                bindR (find_index dirRec attrINDEX_ALLOCATION) (\<lambda>ia. case ia of
                  None \<Rightarrow> Inr es | Some a' \<Rightarrow> alloc_entries f v a' es)))))"

subsection \<open>Path lookup\<close>

definition lookupInDir :: "unicode \<Rightarrow> gofile \<Rightarrow> ntfsVolume \<Rightarrow> bytes \<Rightarrow> gostr \<Rightarrow> u64 res" where
  "lookupInDir C f v dirRec nm =
     bindR (readDirEntries f v dirRec) (\<lambda>es.
       case find (\<lambda>e. ToLower C (fi_name (nde_info e)) = ToLower C nm) es of
         Some e \<Rightarrow> Inr (nde_mftNum e) | None \<Rightarrow> Inl (Wrapped '''' ErrNotExist))"

text \<open>The loop over the elements of a path; there is always one.\<close>

fun nt_lookup_parts :: "unicode \<Rightarrow> u64 \<Rightarrow> gostr list \<Rightarrow> (nstate, u64 \<times> bytes) sop" where
  "nt_lookup_parts C dirNum [] = failS (Err ''lookupPath: internal error'')"
| "nt_lookup_parts C dirNum (part # parts) =
     bindS (getRecord dirNum) (\<lambda>dirRec.
     bindS (wrapS ''path'' (readV (\<lambda>f v. lookupInDir C f v dirRec part))) (\<lambda>childNum.
       if parts = [] then bindS (getRecord childNum) (\<lambda>rec. retS (childNum, rec)) else nt_lookup_parts C childNum parts))"

definition nt_lookupPath :: "unicode \<Rightarrow> gostr \<Rightarrow> (nstate, u64 \<times> bytes) sop" where
  "nt_lookupPath C p =
     (let q = Clean (slash # TrimPrefix p [slash]) in
      if q = [slash] then bindS (getRecord recRoot) (\<lambda>rec. retS (recRoot, rec))
      else nt_lookup_parts C recRoot (Split (TrimPrefix q [slash]) slash))"

end
