(* ===== verification/NtfsFile.thy ===== *)
theory NtfsFile
  imports NtfsRead
begin

text \<open>
  The NTFS driver, third part: open files and the operations that only read a volume, with the
  resolution of symbolic links (\<open>read.go\<close>, \<open>meta.go\<close>).
\<close>

unbundle bit_operations_syntax

subsection \<open>Open files\<close>

text \<open>An empty list of runs is Go's \<open>nil\<close>: \<open>decodeRunlist\<close> returns it for a run list without entries.\<close>

record ntfsFile =
  nf_mftNum :: u64
  nf_info :: ntfsFileInfo
  nf_runs :: "run list"
  nf_resData :: bytes
  nf_size :: int
  nf_pos :: int
  nf_writable :: bool
  nf_isDir :: bool
  nf_writeBuf :: bytes

text \<open>
  The loop of \<open>readRunsAt\<close>: the buffer, the number of bytes read and the error.  \<open>run_part\<close> reads or
  zero-fills the part of one run that is wanted.
\<close>

definition run_part :: "gofile \<Rightarrow> ntfsVolume \<Rightarrow> run \<Rightarrow> int \<Rightarrow> int \<Rightarrow> bytes \<Rightarrow> int \<Rightarrow> (bytes \<times> goerr option) res" where
  "run_part f v r intraOff canRead p n =
     (if rn_lcn r < 0 then Inr (copy_into p (nat n) (zeros (nat canRead)), None)
      else if canRead < 0 then bounds_panic
      else (case partRead f v (nat canRead) (wrap64 (wrap64 (rn_lcn r * nv_clusterSize v) + intraOff)) of
              (d, e) \<Rightarrow> Inr (copy_into p (nat n) d, e)))"

primrec read_runs_at :: "gofile \<Rightarrow> ntfsVolume \<Rightarrow> run list \<Rightarrow> int \<Rightarrow> int \<Rightarrow> bytes \<Rightarrow> int \<Rightarrow> (bytes \<times> int \<times> goerr option) res" where
  "read_runs_at f v [] clusterOff byteOffset p n = Inr (p, n, None)"
| "read_runs_at f v (r # rs) clusterOff byteOffset p n =
     (let runBytes = wrap64 (rn_length r * nv_clusterSize v) in
      if wrap64 (clusterOff + runBytes) \<le> byteOffset
      then read_runs_at f v rs (wrap64 (clusterOff + runBytes)) byteOffset p n
      else let intraOff = max 0 (wrap64 (byteOffset - clusterOff));
               canRead = min (wrap64 (runBytes - intraOff)) (int (length p) - n)
           in bindR (run_part f v r intraOff canRead p n) (\<lambda>(p', e).
                if e \<noteq> None then Inr (p', n, e)
                else if int (length p) \<le> n + canRead then Inr (p', n + canRead, None)
                else read_runs_at f v rs (wrap64 (clusterOff + runBytes)) (wrap64 (byteOffset + canRead)) p' (n + canRead)))"

definition readRunsAt :: "gofile \<Rightarrow> ntfsVolume \<Rightarrow> run list \<Rightarrow> int \<Rightarrow> bytes \<Rightarrow> (bytes \<times> int \<times> goerr option) res" where
  "readRunsAt f v runs byteOffset p = read_runs_at f v runs 0 byteOffset p 0"

text \<open>\<open>Read\<close> into a buffer of \<open>n\<close> bytes: the bytes read and the error.\<close>

definition read_at_pos :: "gofile \<Rightarrow> ntfsVolume \<Rightarrow> ntfsFile \<Rightarrow> nat \<Rightarrow> (bytes \<times> goerr option) res" where
  "read_at_pos f v h n =
     (if nf_runs h \<noteq> []
      then bindR (readRunsAt f v (nf_runs h) (nf_pos h) (zeros n)) (\<lambda>(p, k, e). Inr (take (nat k) p, e))
      else let e0 = wrap64 (nf_pos h + int n);
               e1 = (if int (length (nf_resData h)) < e0 then int (length (nf_resData h)) else e0)
           in if nf_pos h < 0 \<or> e1 < nf_pos h then bounds_panic
              else Inr (sub (nf_resData h) (nat (nf_pos h)) (nat (e1 - nf_pos h)), None))"

definition nf_Read :: "gofile \<Rightarrow> ntfsVolume \<Rightarrow> nat \<Rightarrow> (ntfsFile, bytes \<times> goerr option) sop" where
  "nf_Read f v n h =
     (if nf_isDir h then (Inr ([], Some (Err ''read: is a directory'')), h)
      else if nf_size h \<le> nf_pos h then (Inr ([], Some EOF), h)
      else let k = (if nf_size h - nf_pos h < int n then nat (nf_size h - nf_pos h) else n) in
        case read_at_pos f v h k of
          Inl e \<Rightarrow> (Inl e, h)
        | Inr (d, e) \<Rightarrow>
            let pos' = wrap64 (nf_pos h + int (length d))
            in (Inr (d, if nf_size h \<le> pos' \<and> e = None then Some EOF else e), h\<lparr>nf_pos := pos'\<rparr>))"

definition nf_Write :: "bytes \<Rightarrow> (ntfsFile, nat) sop" where
  "nf_Write p h =
     (if \<not> nf_writable h then (Inl (Err ''write: file not opened for writing''), h)
      else let needed = wrap64 (nf_pos h + int (length p));
               buf = (if int (length (nf_writeBuf h)) < needed
                      then nf_writeBuf h @ zeros (nat needed - length (nf_writeBuf h)) else nf_writeBuf h)
           in case (if nf_pos h < 0 then bounds_panic else copy_at (nat (nf_pos h)) p buf) of
                Inl e \<Rightarrow> (Inl e, h\<lparr>nf_writeBuf := buf\<rparr>)
              | Inr buf' \<Rightarrow> (Inr (length p), h\<lparr>nf_writeBuf := buf', nf_pos := needed, nf_size := max (nf_size h) needed\<rparr>))"

definition nf_Seek :: "int \<Rightarrow> int \<Rightarrow> (ntfsFile, int) sop" where
  "nf_Seek offset whence h =
     (if whence \<noteq> 0 \<and> whence \<noteq> 1 \<and> whence \<noteq> 2 then (Inl (Err ''seek: invalid whence''), h)
      else let newPos = (if whence = 0 then offset else if whence = 1 then wrap64 (nf_pos h + offset) else wrap64 (nf_size h + offset))
           in if newPos < 0 then (Inl (Err ''seek: negative position''), h) else (Inr newPos, h\<lparr>nf_pos := newPos\<rparr>))"

text \<open>\<open>Stat\<close> of an open file.\<close>

definition nf_Stat :: "ntfsFile \<Rightarrow> ntfsFileInfo" where
  "nf_Stat h = nf_info h"

definition nf_ReadDir :: "ntfsFile \<Rightarrow> int \<Rightarrow> (nstate, ntfsDirEntry list) sop" where
  "nf_ReadDir h n =
     (if \<not> nf_isDir h then failS (Err ''readdir: not a directory'')
      else bindS (getRecord (nf_mftNum h)) (\<lambda>rec. bindS (readV (\<lambda>f v. readDirEntries f v rec)) (\<lambda>es.
             retS (if 0 < n \<and> n < int (length es) then take (nat n) es else es))))"

text \<open>The data of a file being opened: runs, resident data and size.\<close>

definition open_data :: "gofile \<Rightarrow> ntfsVolume \<Rightarrow> bytes \<Rightarrow> (run list \<times> bytes \<times> int) res" where
  "open_data f v rec =
     bindR (findAttr rec attrDATA []) (\<lambda>a. case a of
       None \<Rightarrow> Inr ([], [], 0)
     | Some d \<Rightarrow> bindR (at8 d 8) (\<lambda>nr.
         if nr = 0
         then bindR (optR (attrValue f v d)) (\<lambda>r. let x = (case r of Some x \<Rightarrow> x | None \<Rightarrow> []) in Inr ([], x, int (length x)))
         else bindR (at16 d 0x20) (\<lambda>rlOff. bindR (at64 d 0x30) (\<lambda>s.
                bindR (if unat rlOff < length d then optR (decodeRunlist (drop (unat rlOff) d)) else Inr None) (\<lambda>r.
                  Inr (case r of Some runs \<Rightarrow> runs | None \<Rightarrow> [], [], sint s))))))"

definition openRecord :: "gofile \<Rightarrow> ntfsVolume \<Rightarrow> u64 \<Rightarrow> bytes \<Rightarrow> gostr \<Rightarrow> bool \<Rightarrow> ntfsFile res" where
  "openRecord f v mftNum rec nm writable =
     bindR (at16 rec 0x16) (\<lambda>flags.
     let isDir = (flags AND mftFlagDir \<noteq> 0) in
     bindR (recordInfo f v rec nm) (\<lambda>fi.
     bindR (if isDir then Inr ([], [], 0) else open_data f v rec) (\<lambda>(runs, res, s).
       Inr \<lparr>nf_mftNum = mftNum, nf_info = fi, nf_runs = runs, nf_resData = res, nf_size = s, nf_pos = 0,
            nf_writable = writable, nf_isDir = isDir, nf_writeBuf = []\<rparr>)))"

subsection \<open>Reading operations of the volume\<close>

text \<open>\<open>&fs.PathError{Op: op, Path: name, Err: err}\<close>.\<close>

definition pathErr :: "string \<Rightarrow> string \<Rightarrow> goerr" where
  "pathErr opn msg = Wrapped opn (Err msg)"

definition isDirRec :: "bytes \<Rightarrow> bool res" where
  "isDirRec rec = bindR (at16 rec 0x16) (\<lambda>flags. Inr (flags AND mftFlagDir \<noteq> 0))"

definition nt_ReadFile :: "unicode \<Rightarrow> gostr \<Rightarrow> (nstate, bytes) sop" where
  "nt_ReadFile C nm =
     bindS (wrapS ''readfile'' (nt_lookupPath C nm)) (\<lambda>(n, rec).
     bindS (readV (\<lambda>f v. isDirRec rec)) (\<lambda>dir.
       if dir then failS (pathErr ''readfile'' ''is a directory'')
       else readV (\<lambda>f v. bindR (findAttr rec attrDATA []) (\<lambda>a. case a of None \<Rightarrow> Inr [] | Some d \<Rightarrow> attrValue f v d))))"

definition nt_OpenRead :: "unicode \<Rightarrow> gostr \<Rightarrow> (nstate, ntfsFile) sop" where
  "nt_OpenRead C nm =
     bindS (wrapS ''open'' (nt_lookupPath C nm)) (\<lambda>(n, rec). readV (\<lambda>f v. openRecord f v n rec nm False))"

text \<open>The second lookup in \<open>ReadDir\<close> drops its result and its error.\<close>

definition nt_ReadDir :: "unicode \<Rightarrow> gostr \<Rightarrow> (nstate, ntfsDirEntry list) sop" where
  "nt_ReadDir C nm =
     bindS (wrapS ''readdir'' (nt_lookupPath C nm)) (\<lambda>(n, rec).
     bindS (readV (\<lambda>f v. isDirRec rec)) (\<lambda>dir.
       if \<not> dir then failS (pathErr ''readdir'' ''not a directory'')
       else tryS (nt_lookupPath C nm) (\<lambda>_. readV (\<lambda>f v. readDirEntries f v rec))))"

text \<open>Windows separators become slashes, the prefix of absolute Win32 paths goes.\<close>

definition parseReparseTarget :: "bytes \<Rightarrow> gostr res" where
  "parseReparseTarget val =
     (if length val < 12 then Inl (Err ''reparse point value too short'')
      else if get32 val 0 \<noteq> reparseSymlink \<and> get32 val 0 \<noteq> reparseJunction then Inl (Err ''not a symlink or junction'')
      else let d = drop 8 val in
        if length d < 12 then Inl (Err ''reparse data too short'')
        else let subsOff = unat (get16 d 0); subsLen = unat (get16 d 2); printOff = unat (get16 d 4); printLen = unat (get16 d 6);
                 buf = drop 12 d;
                 finish = (\<lambda>raw. TrimPrefix (ReplaceByte 0x5C slash (utf16_str raw)) (bs ''/??/''))
             in if printOff + printLen \<le> length buf then Inr (finish (sub buf printOff printLen))
                else if subsOff + subsLen \<le> length buf then Inr (finish (sub buf subsOff subsLen))
                else Inl (Err ''reparse path offsets out of bounds''))"

definition nt_Readlink :: "unicode \<Rightarrow> gostr \<Rightarrow> (nstate, gostr) sop" where
  "nt_Readlink C nm =
     bindS (wrapS ''readlink'' (nt_lookupPath C nm)) (\<lambda>(n, rec).
     bindS (readV (\<lambda>f v. findAttr rec attrREPARSE_POINT [])) (\<lambda>a. case a of
       None \<Rightarrow> failS (pathErr ''readlink'' ''not a symlink'')
     | Some rp \<Rightarrow> readV (\<lambda>f v. bindR (attrValue f v rp) parseReparseTarget)))"

text \<open>
  Where a record leads: the target if it is a link, nothing if not.  The errors of the value and of
  the target are dropped; a value of less than four bytes panics.
\<close>

definition link_target :: "gofile \<Rightarrow> ntfsVolume \<Rightarrow> bytes \<Rightarrow> gostr option res" where
  "link_target f v rec =
     bindR (findAttr rec attrREPARSE_POINT []) (\<lambda>a. case a of
       None \<Rightarrow> Inr None
     | Some rp \<Rightarrow> bindR (optR (attrValue f v rp)) (\<lambda>r. case r of
         None \<Rightarrow> Inr None
       | Some val \<Rightarrow> bindR (at32 val 0) (\<lambda>tag.
           if tag \<noteq> reparseSymlink \<and> tag \<noteq> reparseJunction then Inr None else optR (parseReparseTarget val))))"

text \<open>\<open>resolveSymlinks(p, 41 - k)\<close>: the call beyond depth 40 fails.\<close>

fun resolve_links :: "unicode \<Rightarrow> nat \<Rightarrow> gostr \<Rightarrow> (nstate, gostr) sop" where
  "resolve_links C 0 p = failS (Err ''too many levels of symbolic links'')"
| "resolve_links C (Suc k) p =
     bindS (nt_lookupPath C p) (\<lambda>(n, rec).
     bindS (readV (\<lambda>f v. link_target f v rec)) (\<lambda>t. case t of
       None \<Rightarrow> retS p
     | Some target \<Rightarrow> resolve_links C k (if path_IsAbs target then target else path_Join (path_Dir p) target)))"

definition nt_Stat :: "unicode \<Rightarrow> gostr \<Rightarrow> (nstate, ntfsFileInfo) sop" where
  "nt_Stat C nm =
     bindS (wrapS ''stat'' (resolve_links C 41 nm)) (\<lambda>nm'.
     bindS (wrapS ''stat'' (nt_lookupPath C nm')) (\<lambda>(n, rec). readV (\<lambda>f v. recordInfo f v rec (path_Base nm'))))"

definition nt_Lstat :: "unicode \<Rightarrow> gostr \<Rightarrow> (nstate, ntfsFileInfo) sop" where
  "nt_Lstat C nm =
     bindS (wrapS ''lstat'' (nt_lookupPath C nm)) (\<lambda>(n, rec). readV (\<lambda>f v. recordInfo f v rec (path_Base nm)))"

definition set_bits :: "bytes \<Rightarrow> nat" where
  "set_bits bm = sum_list (map (\<lambda>b. length (filter (\<lambda>i. bit b i) [0..<8])) bm)"

definition nt_StatFS :: "ntfsVolume \<Rightarrow> volinfo" where
  "nt_StatFS v =
     (let total = wrap64 (nv_totalClusters v * nv_clusterSize v); used = wrap64 (int (set_bits (nv_bitmap v)) * nv_clusterSize v)
      in \<lparr>TotalBytes = total, FreeBytes = wrap64 (total - used), UsedBytes = used, BlockSize = nv_clusterSize v,
          Inodes = 0, InodesFree = 0\<rparr>)"

end
