(* ===== verification/NtfsRecord.thy ===== *)
theory NtfsRecord
  imports NtfsFile
begin

text \<open>
  The NTFS driver, fourth part: MFT records are edited and written back (the second half of
  \<open>write.go\<close>).  The driver clones a cached record before it edits it, so records are values here.
  \<open>now\<close> is the time all calls of \<open>time.Now\<close> within one operation return.
\<close>

unbundle bit_operations_syntax

subsection \<open>Attributes\<close>

definition removeAttr :: "bytes \<Rightarrow> u32 \<Rightarrow> gostr \<Rightarrow> bytes res" where
  "removeAttr rec ty nm =
     bindR (findAttrOffset rec ty nm) (\<lambda>r. case r of
       None \<Rightarrow> Inr rec
     | Some off \<Rightarrow>
         let attrLen = get32 rec (off + 4); out = take off rec @ drop (off + unat attrLen) rec
         in bindR (at32 out 0x18) (\<lambda>used. put_in 0x18 (le32 (used - attrLen)) out))"

function nextAttrOffset :: "bytes \<Rightarrow> nat \<Rightarrow> nat" where
  "nextAttrOffset rec off =
     (if length rec < off + 8 then off
      else if get32 rec off = attrEND then off
      else let attrLen = unat (get32 rec (off + 4)) in if attrLen = 0 then off else nextAttrOffset rec (off + attrLen))"
  by pat_completeness auto

termination
  by (relation "measure (\<lambda>(rec, off). length rec - off)") auto

declare nextAttrOffset.simps [simp del]

text \<open>\<open>nextAttrOffset\<close> from the first attribute of the record.\<close>

definition attrs_end :: "bytes \<Rightarrow> nat res" where
  "attrs_end rec = bindR (at16 rec 0x14) (\<lambda>o'. Inr (nextAttrOffset rec (unat o')))"

definition assignAttrID :: "nat \<Rightarrow> bytes \<Rightarrow> bytes res" where
  "assignAttrID attrOff rec =
     bindR (at16 rec 0x28) (\<lambda>nextID. bindR (put_in (attrOff + 0x0E) (le16 nextID) rec) (put_in 0x28 (le16 (nextID + 1))))"

text \<open>
  What the four append functions share: room for the attribute and an end marker, the header fields,
  the attribute's number, the contents, the end marker and the used size.
\<close>

definition append_at :: "bytes \<Rightarrow> nat \<Rightarrow> nat \<Rightarrow> (nat \<times> bytes) list \<Rightarrow> (nat \<times> bytes) list \<Rightarrow> bytes res" where
  "append_at rec off attrLen header body =
     (let rec1 = rec @ zeros (off + attrLen + 8 - length rec); endOff = off + attrLen in
      bindR (puts_at (map (\<lambda>(i, d). (off + i, d)) header) rec1) (\<lambda>rec2.
      bindR (assignAttrID off rec2) (\<lambda>rec3.
        puts_at (map (\<lambda>(i, d). (off + i, d)) body
                 @ [(endOff, le32 attrEND), (endOff + 4, le32 0), (0x18, le32 (of_nat (endOff + 8)))]) rec3)))"

definition appendResidentAttrAt :: "bytes \<Rightarrow> nat \<Rightarrow> u32 \<Rightarrow> bytes \<Rightarrow> bytes res" where
  "appendResidentAttrAt rec off ty value =
     (let attrLen = pad8 (24 + length value) in
      append_at rec off attrLen
        [(0, le32 ty), (4, le32 (of_nat attrLen)), (8, [0]), (16, le32 (of_nat (length value))), (20, le16 24)]
        [(24, value)])"

definition appendResidentAttr :: "bytes \<Rightarrow> u32 \<Rightarrow> bytes \<Rightarrow> bytes res" where
  "appendResidentAttr rec ty value = bindR (attrs_end rec) (\<lambda>off. appendResidentAttrAt rec off ty value)"

definition appendNamedResidentAttrAt :: "bytes \<Rightarrow> nat \<Rightarrow> u32 \<Rightarrow> gostr \<Rightarrow> bytes \<Rightarrow> bytes res" where
  "appendNamedResidentAttrAt rec off ty nm value =
     (let us = utf16_units nm; valOff = pad8 (24 + 2 * length us); attrLen = pad8 (valOff + length value) in
      append_at rec off attrLen
        [(0, le32 ty), (4, le32 (of_nat attrLen)), (8, [0]), (9, [of_nat (length us)]), (10, le16 24),
         (16, le32 (of_nat (length value))), (20, le16 (of_nat valOff))]
        [(24, units_bytes us), (valOff, value)])"

definition total_clusters :: "run list \<Rightarrow> int" where
  "total_clusters runs = wrap64 (sum_list (map rn_length runs))"

text \<open>The header of a non-resident attribute from offset 0x18 on.\<close>

definition non_resident_fields :: "run list \<Rightarrow> nat \<Rightarrow> int \<Rightarrow> int \<Rightarrow> (nat \<times> bytes) list" where
  "non_resident_fields runs rlOff dataSize clusterSize =
     [(0x18, le64 (of_int (total_clusters runs - 1))), (0x20, le16 (of_nat rlOff)),
      (0x28, le64 (of_int (total_clusters runs * clusterSize))), (0x30, le64 (of_int dataSize)), (0x38, le64 (of_int dataSize))]"

definition appendNonResidentAttr :: "bytes \<Rightarrow> u32 \<Rightarrow> run list \<Rightarrow> int \<Rightarrow> int \<Rightarrow> bytes res" where
  "appendNonResidentAttr rec ty runs dataSize clusterSize =
     (let rl = encodeRunlist runs; attrLen = pad8 (0x40 + length rl) in
      bindR (attrs_end rec) (\<lambda>off.
        append_at rec off attrLen [(0, le32 ty), (4, le32 (of_nat attrLen)), (8, [1])]
          (non_resident_fields runs 0x40 dataSize clusterSize @ [(0x40, rl)])))"

definition appendNonResidentNamedAttr :: "bytes \<Rightarrow> u32 \<Rightarrow> gostr \<Rightarrow> run list \<Rightarrow> int \<Rightarrow> int \<Rightarrow> bytes res" where
  "appendNonResidentNamedAttr rec ty nm runs dataSize clusterSize =
     (let us = utf16_units nm; rlOff = pad8 (0x40 + 2 * length us) mod 2 ^ 16; rl = encodeRunlist runs; attrLen = pad8 (rlOff + length rl) in
      bindR (attrs_end rec) (\<lambda>off.
        append_at rec off attrLen
          [(0, le32 ty), (4, le32 (of_nat attrLen)), (8, [1]), (9, [of_nat (length us)]), (10, le16 0x40)]
          (non_resident_fields runs rlOff dataSize clusterSize @ [(0x40, units_bytes us), (rlOff, rl)])))"

definition maxResidentDataSize :: "bytes \<Rightarrow> int res" where
  "maxResidentDataSize rec = bindR (at32 rec 0x18) (\<lambda>used. bindR (at32 rec 0x1C) (\<lambda>alloc. Inr (uint alloc - uint used - 24)))"

definition setStdInfoMtime :: "gotime \<Rightarrow> bytes \<Rightarrow> bytes res" where
  "setStdInfoMtime t rec =
     bindR (findAttrOffset rec attrSTANDARD_INFORMATION []) (\<lambda>r. case r of
       None \<Rightarrow> Inr rec
     | Some siOff \<Rightarrow> bindR (at16 rec (siOff + 0x14)) (\<lambda>o'.
         let valOff = siOff + unat o'
         in if length rec < valOff + 16 then Inr rec else put_in (valOff + 8) (le64 (of_int (timeToFiletime t))) rec))"

text \<open>The units of the new name that still fit the record.\<close>

definition updateFileName :: "gostr \<Rightarrow> u64 \<Rightarrow> bytes \<Rightarrow> bytes res" where
  "updateFileName nm parentNum rec =
     bindR (findAttrOffset rec attrFILE_NAME []) (\<lambda>r. case r of
       None \<Rightarrow> Inr rec
     | Some off \<Rightarrow> bindR (at16 rec (off + 0x14)) (\<lambda>o'.
         let valOff = off + unat o'; us = utf16_units nm in
         if length rec < valOff + 8 then Inr rec
         else puts_at ([(valOff, le64 (parentNum OR push_bit 48 1)), (valOff + 64, [of_nat (length us)])]
                       @ map (\<lambda>i. (valOff + 66 + i * 2, le16 (us ! i))) (takeWhile (\<lambda>i. valOff + 66 + i * 2 + 2 \<le> length rec) [0..<length us])) rec))"

subsection \<open>New records\<close>

definition buildFileNameAttr :: "gotime \<Rightarrow> gostr \<Rightarrow> u64 \<Rightarrow> u32 \<Rightarrow> bytes" where
  "buildFileNameAttr now nm parentNum fileAttrs =
     (let us = utf16_units nm; t = le64 (of_int (timeToFiletime now)) in
      puts [(0, le64 (parentNum OR push_bit 48 1)), (8, t), (16, t), (24, t), (32, t), (56, le32 fileAttrs),
            (64, [of_nat (length us)]), (65, [3]), (66, units_bytes us)] (zeros (66 + 2 * length us)))"

definition buildEmptyIndexRoot :: bytes where
  "buildEmptyIndexRoot =
     puts [(0, le32 attrFILE_NAME), (4, le32 1), (8, le32 4096), (12, [1]), (16, le32 16), (20, le32 32), (24, le32 32),
           (40, le16 16), (44, le32 idxFlagLastEntry)] (zeros 48)"

definition buildReparsePoint :: "u32 \<Rightarrow> gostr \<Rightarrow> bytes" where
  "buildReparsePoint tag target =
     (let p = units_bytes (utf16_units target); n = length p; dataLen = 12 + n * 2 in
      puts [(0, le32 tag), (4, le16 (of_nat dataLen)), (8, le16 0), (10, le16 (of_nat n)), (12, le16 (of_nat n)),
            (14, le16 (of_nat n)), (16, le32 1), (20, p), (20 + n, p)] (zeros (8 + dataLen)))"

definition std_info_value :: "gotime \<Rightarrow> u32 \<Rightarrow> bytes" where
  "std_info_value now fa =
     (let t = le64 (of_int (timeToFiletime now)) in puts [(0, t), (8, t), (16, t), (24, t), (0x20, le32 fa)] (zeros 72))"

definition file_attrs :: "bool \<Rightarrow> u32" where
  "file_attrs isDir = (if isDir then faDirectory else faArchive)"

text \<open>The header of a new record; the offset of its first attribute is computed in 16 bits.\<close>

definition new_first_attr :: "int \<Rightarrow> u16" where
  "new_first_attr recSize = (0x30 + of_int (quot recSize 512 + 1) * 2 + 7) AND NOT 7"

definition new_header :: "u64 \<Rightarrow> bool \<Rightarrow> int \<Rightarrow> bytes res" where
  "new_header mftNum isDir recSize =
     bindR (make_bytes recSize) (\<lambda>rec0.
     bindR (copy_at 0 (bs ''FILE'') rec0)
       (puts_at [(0x04, le16 0x30), (0x06, le16 (of_int (quot recSize 512 + 1))), (0x10, le16 1), (0x12, le16 1),
                 (0x14, le16 (new_first_attr recSize)), (0x16, le16 (if isDir then mftFlagInUse OR mftFlagDir else mftFlagInUse)),
                 (0x1C, le32 (of_int recSize)), (0x2C, le32 (ucast mftNum))]))"

definition buildNewRecord :: "gotime \<Rightarrow> u64 \<Rightarrow> gostr \<Rightarrow> u64 \<Rightarrow> bool \<Rightarrow> int \<Rightarrow> bytes res" where
  "buildNewRecord now mftNum nm parentNum isDir recSize =
     (let first = unat (new_first_attr recSize); fa = file_attrs isDir in
      bindR (new_header mftNum isDir recSize) (\<lambda>rec0.
      bindR (appendResidentAttrAt rec0 first attrSTANDARD_INFORMATION (std_info_value now fa)) (\<lambda>rec1.
      let off1 = nextAttrOffset rec1 first in
      bindR (appendResidentAttrAt rec1 off1 attrFILE_NAME (buildFileNameAttr now nm parentNum fa)) (\<lambda>rec2.
      let off2 = nextAttrOffset rec2 off1 in
      bindR (if isDir then appendNamedResidentAttrAt rec2 off2 attrINDEX_ROOT I30 buildEmptyIndexRoot else Inr rec2) (\<lambda>rec3.
      let off3 = (if isDir then nextAttrOffset rec3 off2 else off2) in
        puts_at [(off3, le32 attrEND), (off3 + 4, le32 0), (0x18, le32 (of_nat (off3 + 8)))] rec3)))))"

text \<open>\<open>putRecord\<close>: a record that is larger than a slot is refused.\<close>

definition putRecord :: "u64 \<Rightarrow> bytes \<Rightarrow> (nstate, unit) sop" where
  "putRecord n rec =
     bindS (readV (\<lambda>f v. if nv_recSize v < int (length rec) then Inl (Err ''putRecord: record exceeds recSize'')
                        else bindR (stampUSA (rec @ zeros (nat (nv_recSize v) - length rec)) (nat (quot (nv_recSize v) 512)))
                               (\<lambda>encoded. Inr (encoded, wrap64 (nv_mftOff v + wrap64 (sint n * nv_recSize v)))))) (\<lambda>(encoded, off).
     bindS (wrapS ''write MFT record'' (partWrite encoded off)) (\<lambda>_.
       modV (\<lambda>v. (cache_record n rec v)\<lparr>nv_dirty := True\<rparr>)))"

end
