(* ===== verification/NtfsAlloc.thy ===== *)
theory NtfsAlloc
  imports NtfsRecord
begin

text \<open>
  The NTFS driver, fifth part: the cluster bitmap and the bitmap of MFT records, writing of cluster
  runs, and the helpers on index blocks and index headers (\<open>alloc.go\<close>).
\<close>

unbundle bit_operations_syntax

subsection \<open>Clusters\<close>

text \<open>The first clear bit from number \<open>lo\<close> on; full bytes are passed over.\<close>

fun scan_bits :: "nat \<Rightarrow> nat \<Rightarrow> bytes \<Rightarrow> nat option" where
  "scan_bits lo i [] = None"
| "scan_bits lo i (b # bm) =
     (if b = 0xFF then scan_bits lo (i + 1) bm
      else (case find (\<lambda>k. b AND push_bit k 1 = 0 \<and> lo \<le> i * 8 + k) [0..<8] of
              Some k \<Rightarrow> Some (i * 8 + k) | None \<Rightarrow> scan_bits lo (i + 1) bm))"

definition set_cluster :: "nat \<Rightarrow> ntfsVolume \<Rightarrow> ntfsVolume" where
  "set_cluster n v = v\<lparr>nv_bitmap := or_bit n (nv_bitmap v), nv_dirty := True\<rparr>"

text \<open>Cluster 0 is marked on the way if it is found free.\<close>

definition mark_boot :: "ntfsVolume \<Rightarrow> ntfsVolume" where
  "mark_boot v = (if nv_bitmap v \<noteq> [] \<and> nv_bitmap v ! 0 AND 1 = 0 then set_cluster 0 v else v)"

definition nt_allocCluster :: "(nstate, int) sop" where
  "nt_allocCluster = (\<lambda>(f, v).
     case scan_bits 1 0 (nv_bitmap v) of
       None \<Rightarrow> (Inl (Err ''no free clusters (volume full)''), (f, mark_boot v))
     | Some n \<Rightarrow> (Inr (int n), (f, set_cluster n (mark_boot v))))"

text \<open>A cluster that continues the last run makes it longer.\<close>

definition add_cluster :: "run list \<Rightarrow> int \<Rightarrow> run list" where
  "add_cluster runs lcn =
     (if runs \<noteq> [] \<and> rn_lcn (last runs) + rn_length (last runs) = lcn
      then butlast runs @ [(last runs)\<lparr>rn_length := rn_length (last runs) + 1\<rparr>]
      else runs @ [\<lparr>rn_lcn = lcn, rn_length = 1\<rparr>])"

fun alloc_each :: "nat \<Rightarrow> run list \<Rightarrow> (nstate, run list) sop" where
  "alloc_each 0 runs = retS runs"
| "alloc_each (Suc k) runs = bindS nt_allocCluster (\<lambda>lcn. alloc_each k (add_cluster runs lcn))"

definition allocClusters :: "int \<Rightarrow> (nstate, run list) sop" where
  "allocClusters n = alloc_each (nat n) []"

text \<open>The scan of \<open>tryAllocContiguous\<close>: the start of the first run of \<open>k\<close> free clusters.\<close>

fun scan_run :: "bytes \<Rightarrow> nat \<Rightarrow> nat list \<Rightarrow> nat \<Rightarrow> nat \<Rightarrow> nat option" where
  "scan_run bm k [] start runLen = None"
| "scan_run bm k (lcn # ls) start runLen =
     (if lcn = 0 then scan_run bm k ls 0 0
      else if bm ! (lcn div 8) AND push_bit (lcn mod 8) 1 = 0
      then let start' = (if runLen = 0 then lcn else start)
           in if k \<le> runLen + 1 then Some start' else scan_run bm k ls start' (runLen + 1)
      else scan_run bm k ls 0 0)"

definition tryAllocContiguous :: "nat \<Rightarrow> (nstate, run list) sop" where
  "tryAllocContiguous k = (\<lambda>(f, v).
     case scan_run (nv_bitmap v) k [0..<8 * length (nv_bitmap v)] 0 0 of
       None \<Rightarrow> (Inr [], (f, v))
     | Some s \<Rightarrow> (Inr [\<lparr>rn_lcn = int s, rn_length = int k\<rparr>],
                 (f, v\<lparr>nv_bitmap := fold or_bit [s..<s + k] (nv_bitmap v), nv_dirty := True\<rparr>)))"

definition allocContiguousClusters :: "int \<Rightarrow> (nstate, run list) sop" where
  "allocContiguousClusters n =
     (if n \<le> 0 then retS []
      else bindS (tryAllocContiguous (nat n)) (\<lambda>runs. if runs \<noteq> [] then retS runs else allocClusters n))"

text \<open>
  A negative number of a cluster shifts the mask out and indexes before the bitmap; it cannot come
  from a decoded run that is not sparse unless \<open>lcn + i\<close> overflows.
\<close>

definition freeCluster :: "int \<Rightarrow> (nstate, unit) sop" where
  "freeCluster lcn = (\<lambda>(f, v).
     let byteIdx = quot lcn 8; mask = (if lcn < 0 then 0 else push_bit (nat (lcn mod 8)) 1) in
     if lcn = 0 \<or> int (length (nv_bitmap v)) \<le> byteIdx then (Inr (), (f, v))
     else if byteIdx < 0 then (Inl (Panic ''index out of range''), (f, v))
     else (Inr (), (f, v\<lparr>nv_bitmap := (nv_bitmap v)[nat byteIdx := nv_bitmap v ! nat byteIdx AND NOT mask], nv_dirty := True\<rparr>)))"

definition freeRuns :: "run list \<Rightarrow> (nstate, unit) sop" where
  "freeRuns runs =
     for_each (\<lambda>r. if rn_lcn r < 0 then retS () else for_each (\<lambda>i. freeCluster (wrap64 (rn_lcn r + int i))) [0..<nat (rn_length r)]) runs"

text \<open>The clusters of a run list in order, and the \<open>i\<close>-th cluster of some data, padded with zeros.\<close>

definition run_clusters :: "run list \<Rightarrow> int list" where
  "run_clusters runs = concat (map (\<lambda>r. map (\<lambda>c. wrap64 (rn_lcn r + int c)) [0..<nat (rn_length r)]) runs)"

definition nt_data_chunk :: "bytes \<Rightarrow> nat \<Rightarrow> nat \<Rightarrow> bytes" where
  "nt_data_chunk d cs i = (let c = sub d (i * cs) cs in c @ zeros (cs - length c))"

definition put_chunk :: "bytes \<Rightarrow> nat \<times> int \<Rightarrow> (nstate, unit) sop" where
  "put_chunk d = (\<lambda>(i, lcn). bindS (readV (\<lambda>f v. Inr (nat (nv_clusterSize v)))) (\<lambda>cs.
     partWrite (nt_data_chunk d cs i) (wrap64 (lcn * int cs))))"

definition allocAndWrite :: "bytes \<Rightarrow> (nstate, run list) sop" where
  "allocAndWrite d =
     bindS (readV (\<lambda>f v. if nv_clusterSize v = 0 then Inl (Panic ''integer divide by zero'')
                        else Inr (quot (int (length d) + nv_clusterSize v - 1) (nv_clusterSize v)))) (\<lambda>k.
     bindS (allocContiguousClusters k) (\<lambda>runs.
     bindS (for_each (\<lambda>x. wrapS ''write cluster'' (put_chunk d x)) (List.enumerate 0 (run_clusters runs))) (\<lambda>_. retS runs)))"

text \<open>\<open>writeRunsData\<close> of \<open>flush.go\<close> stops where the data ends.\<close>

definition writeRunsData :: "run list \<Rightarrow> bytes \<Rightarrow> (nstate, unit) sop" where
  "writeRunsData runs d =
     bindS (readV (\<lambda>f v. Inr (nat (nv_clusterSize v)))) (\<lambda>cs.
       for_each (put_chunk d) (takeWhile (\<lambda>(i, lcn). i * cs < length d) (List.enumerate 0 (run_clusters runs))))"

subsection \<open>MFT records\<close>

definition allocMFTRecord :: "(nstate, u64) sop" where
  "allocMFTRecord = (\<lambda>(f, v).
     case scan_bits 12 0 (nv_mftBitmap v) of
       Some n \<Rightarrow> (Inr (of_nat n), (f, v\<lparr>nv_mftBitmap := or_bit n (nv_mftBitmap v), nv_dirty := True\<rparr>))
     | None \<Rightarrow> (Inr (of_nat (length (nv_mftBitmap v) * 8)),
               (f, v\<lparr>nv_mftBitmap := nv_mftBitmap v @ [1], nv_dirty := True\<rparr>)))"

definition freeMFTSlot :: "u64 \<Rightarrow> bytes \<Rightarrow> bytes" where
  "freeMFTSlot n bm =
     (let byteIdx = unat n div 8 in
      if byteIdx < length bm then bm[byteIdx := bm ! byteIdx AND NOT (push_bit (unat n mod 8) 1)] else bm)"

subsection \<open>Index blocks\<close>

definition indxEntriesStart :: "int \<Rightarrow> int" where
  "indxEntriesStart blockSize = (0x28 + (quot blockSize 512 + 1) * 2 + 7) div 8 * 8"

definition indxUsableSpace :: "int \<Rightarrow> int" where
  "indxUsableSpace blockSize = blockSize - indxEntriesStart blockSize - 16"

text \<open>The code calls it with a positive block size, so that the offsets are natural numbers.\<close>

definition buildINDXBlock :: "int \<Rightarrow> bytes \<Rightarrow> int \<Rightarrow> bytes res" where
  "buildINDXBlock vcn raw blockSize =
     (let s = nat (indxEntriesStart blockSize); entriesOff = int s - 0x18; e = s + length raw in
      bindR (make_bytes blockSize) (\<lambda>b0.
      bindR (copy_at 0 (bs ''INDX'') b0) (\<lambda>b1.
      bindR (puts_at [(0x04, le16 0x28), (0x06, le16 (of_int (quot blockSize 512 + 1))), (0x10, le64 (of_int vcn)),
                      (0x18, le32 (of_int entriesOff)), (0x20, le32 (of_int (blockSize - 0x18))), (0x28, le16 1)] b1) (\<lambda>b2.
      bindR (if raw = [] then Inr b2 else copy_at s raw b2) (\<lambda>b3.
      bindR (puts_at [(e + 8, le16 16), (e + 12, le32 idxFlagLastEntry), (0x1C, le32 (of_int (entriesOff + int (length raw) + 16)))] b3) (\<lambda>b4.
        stampUSA b4 (nat (quot blockSize 512))))))))"

definition buildEmptyIndexRootVal :: "bytes \<Rightarrow> bytes" where
  "buildEmptyIndexRootVal src =
     puts ((if 16 \<le> length src then [(0, take 16 src)] else [])
           @ [(16, le32 16), (20, le32 32), (24, le32 32), (40, le16 16), (44, le32 idxFlagLastEntry)]) (zeros 48)"

text \<open>
  The entries before the end mark.  Go lets an entry reach past the end of \<open>hdr\<close> into the rest of its
  array: \<open>back\<close> is that array from the start of the header, of which the header is the first \<open>n\<close> bytes.
\<close>

function raw_entries :: "nat \<Rightarrow> bytes \<Rightarrow> bytes list res" where
  "raw_entries n back =
     (if n < 16 \<or> length back < n then Inr []
      else if get32 back 12 AND idxFlagLastEntry \<noteq> 0 then Inr []
      else let entLen = unat (get16 back 8) in
        if entLen = 0 then Inr []
        else bindR (slice back 0 entLen) (\<lambda>e. bindR (raw_entries (n - entLen) (drop entLen back)) (\<lambda>es. Inr (e # es))))"
  by pat_completeness auto

termination
  by (relation "measure (\<lambda>(n, back). n)") auto

declare raw_entries.simps [simp del]

definition collectRawIndexEntries :: "nat \<Rightarrow> bytes \<Rightarrow> bytes list res" where
  "collectRawIndexEntries n back =
     (if n < 8 \<or> length back < n then Inr []
      else let entriesOff = unat (get32 back 0); indexLen = unat (get32 back 4) in
        if n < entriesOff \<or> n < indexLen then Inr []
        else if indexLen < entriesOff then bounds_panic
        else raw_entries (indexLen - entriesOff) (drop entriesOff back))"

definition flattenEntries :: "bytes list \<Rightarrow> bytes" where
  "flattenEntries entries = concat entries"

fun lcnOfVCN :: "run list \<Rightarrow> int \<Rightarrow> int" where
  "lcnOfVCN [] vcn = - 1"
| "lcnOfVCN (r # rs) vcn = (if 0 \<le> vcn \<and> vcn < rn_length r then rn_lcn r + vcn else lcnOfVCN rs (vcn - rn_length r))"

text \<open>Runs of \<open>newRuns\<close> that continue the last one make it longer.\<close>

definition merge_run :: "run list \<Rightarrow> run \<Rightarrow> run list" where
  "merge_run runs nr =
     (if runs \<noteq> [] \<and> rn_lcn (last runs) + rn_length (last runs) = rn_lcn nr
      then butlast runs @ [(last runs)\<lparr>rn_length := rn_length (last runs) + rn_length nr\<rparr>] else runs @ [nr])"

definition mergeRuns :: "run list \<Rightarrow> run list \<Rightarrow> run list" where
  "mergeRuns existing newRuns = foldl merge_run existing newRuns"

definition growBitmap :: "bytes \<Rightarrow> nat \<Rightarrow> bytes" where
  "growBitmap existing n = or_bit n (take (n div 8 + 1) (existing @ zeros (n div 8 + 1)))"

text \<open>The offset of the end mark among index entries.\<close>

function sentinel :: "bytes \<Rightarrow> nat \<Rightarrow> nat option" where
  "sentinel d off =
     (if length d < 16 then None
      else if get32 d 12 AND idxFlagLastEntry \<noteq> 0 then Some off
      else let entLen = unat (get16 d 8) in if entLen = 0 then None else sentinel (drop entLen d) (off + entLen))"
  by pat_completeness auto

termination
  by (relation "measure (\<lambda>(d, off). length d)") auto

declare sentinel.simps [simp del]

text \<open>\<open>None\<close> is the result \<open>false\<close>, which leaves the block as it is.\<close>

definition addEntryToINDXBlock :: "bytes \<Rightarrow> bytes \<Rightarrow> bytes option res" where
  "addEntryToINDXBlock block entry =
     (if length block < 0x28 \<or> take 4 block \<noteq> bs ''INDX'' then Inr None
      else let entriesOff = unat (get32 block 0x18); indexLen = unat (get32 block 0x1C); allocSize = unat (get32 block 0x20) in
        if int allocSize - int indexLen < int (length entry) \<or> length block < 0x18 + indexLen then Inr None
        else bindR (slice block (0x18 + entriesOff) (0x18 + indexLen)) (\<lambda>d.
          case sentinel d 0 of
            None \<Rightarrow> Inr None
          | Some rel \<Rightarrow>
              let s = 0x18 + entriesOff + rel in
              if length block < s + 16 + length entry then Inr None
              else Inr (Some (puts [(s + length entry, sub block s 16), (s, entry), (0x1C, le32 (of_nat (indexLen + length entry)))] block))))"

subsection \<open>Index headers\<close>

definition buildIndexEntry :: "u64 \<Rightarrow> bytes \<Rightarrow> bytes" where
  "buildIndexEntry mftNum fnKey =
     (let entLen = pad8 (16 + length fnKey) in
      puts [(0, le64 (mftNum OR push_bit 48 1)), (8, le16 (of_nat entLen)), (10, le16 (of_nat (length fnKey))), (16, fnKey)] (zeros entLen))"

definition insertIndexEntry :: "bytes \<Rightarrow> bytes \<Rightarrow> bytes res" where
  "insertIndexEntry hdr entry =
     bindR (at32 hdr 0) (\<lambda>eo. bindR (at32 hdr 4) (\<lambda>il.
       let entriesOff = unat eo; indexLen = unat il in
       if length hdr < entriesOff \<or> length hdr < indexLen then Inl (Err ''index header corrupt'')
       else bindR (slice hdr entriesOff indexLen) (\<lambda>d. case sentinel d 0 of
         None \<Rightarrow> Inl (Err ''index has no last-entry sentinel'')
       | Some rel \<Rightarrow>
           let s = entriesOff + rel; n = le32 (of_nat (indexLen + length entry))
           in puts_at [(4, n), (8, n)] (take s hdr @ entry @ drop s hdr))))"

text \<open>The entry with the given name, if there is one before the end mark: its offset and length.\<close>

function find_entry :: "unicode \<Rightarrow> gostr \<Rightarrow> nat \<Rightarrow> bytes \<Rightarrow> nat \<Rightarrow> (nat \<times> nat) option res" where
  "find_entry C nm n back off =
     (if n < 16 \<or> length back < n then Inr None
      else if get32 back 12 AND idxFlagLastEntry \<noteq> 0 then Inr None
      else let entLen = unat (get16 back 8); keyLen = unat (get16 back 10) in
        if entLen = 0 then Inr None
        else bindR (if 66 \<le> keyLen
                    then bindR (slice back 16 (16 + keyLen)) (\<lambda>key.
                           Inr (66 + unat (key ! 64) * 2 \<le> keyLen \<and> EqualFold (uc_fold C) (utf16_str (sub key 66 (unat (key ! 64) * 2))) nm))
                    else Inr False) (\<lambda>found.
               if found then Inr (Some (off, entLen)) else find_entry C nm (n - entLen) (drop entLen back) (off + entLen)))"
  by pat_completeness auto

termination
  by (relation "measure (\<lambda>(C, nm, n, back, off). n)") auto

declare find_entry.simps [simp del]

definition deleteIndexEntry :: "unicode \<Rightarrow> nat \<Rightarrow> bytes \<Rightarrow> gostr \<Rightarrow> bytes res" where
  "deleteIndexEntry C n back nm =
     (let hdr = take n back in
      bindR (at32 hdr 0) (\<lambda>eo. bindR (at32 hdr 4) (\<lambda>il.
        let entriesOff = unat eo; indexLen = unat il in
        if n < entriesOff \<or> n < indexLen then Inr hdr
        else if indexLen < entriesOff then bounds_panic
        else bindR (find_entry C nm (indexLen - entriesOff) (drop entriesOff back) entriesOff) (\<lambda>r. case r of
          None \<Rightarrow> Inr hdr
        | Some (off, entLen) \<Rightarrow>
            if n < off + entLen then bounds_panic
            else let k = le32 (of_int (int indexLen - int entLen)) in puts_at [(4, k), (8, k)] (take off hdr @ drop (off + entLen) hdr)))))"

end
