(* ===== verification/NtfsData.thy ===== *)
theory NtfsData
  imports NtfsAlloc
begin

text \<open>
  Allocation of clusters: the scans find the first clear bit and the first run of clear bits, and the
  clusters handed out were free, are distinct, and are the only ones that become used.
  What \<open>allocAndWrite\<close> stores in the clusters it takes is what \<open>readRuns\<close> returns, and nothing outside
  these clusters changes.
\<close>

unbundle bit_operations_syntax

section \<open>Allocation of clusters\<close>

subsection \<open>The scans\<close>

lemma bit_mask: "(b :: u8) AND push_bit k 1 = 0 \<longleftrightarrow> \<not> bit b k" "(b :: u8) AND 2 ^ k = 0 \<longleftrightarrow> \<not> bit b k"
  using and_exp_eq_0_iff_not_bit [of b k] by simp_all

lemma scan_bits_find:
  "scan_bits lo i bm = find (\<lambda>m. \<not> bit (bm ! (m div 8 - i)) (m mod 8) \<and> lo \<le> m) [8 * i..<8 * (i + length bm)]"
proof (induction bm arbitrary: i)
  case (Cons b bm)
  let ?P = "\<lambda>m. \<not> bit ((b # bm) ! (m div 8 - i)) (m mod 8) \<and> lo \<le> m"
  have s: "[8 * i..<8 * (i + length (b # bm))] = map (\<lambda>k. i * 8 + k) [0..<8] @ [8 * Suc i..<8 * (Suc i + length bm)]"
  proof -
    have "[8 * i..<8 * (i + length (b # bm))] = [8 * i..<8 * i + 8] @ [8 * i + 8..<8 * (i + length (b # bm))]"
      using upt_add_eq_append [of "8 * i" "8 * i + 8" "8 * length bm"] by (simp add: algebra_simps)
    moreover have "[8 * i..<8 * i + 8] = map (\<lambda>k. i * 8 + k) [0..<8]"
      by (rule nth_equalityI) simp_all
    ultimately show ?thesis by (simp add: algebra_simps)
  qed
  have head: "find ?P (map (\<lambda>k. i * 8 + k) [0..<8]) = map_option (\<lambda>k. i * 8 + k) (find (\<lambda>k. b AND push_bit k 1 = 0 \<and> lo \<le> i * 8 + k) [0..<8])"
  proof -
    have "find ?P (map (\<lambda>k. i * 8 + k) ks) = map_option (\<lambda>k. i * 8 + k) (find (\<lambda>k. b AND push_bit k 1 = 0 \<and> lo \<le> i * 8 + k) ks)"
      if "\<forall>k \<in> set ks. k < 8" for ks
      using that by (induction ks) (simp_all add: bit_mask)
    then show ?thesis by simp
  qed
  have tail: "find ?P [8 * Suc i..<8 * (Suc i + length bm)] = scan_bits lo (Suc i) bm"
  proof -
    have "(b # bm) ! (m div 8 - i) = bm ! (m div 8 - Suc i)" if "m \<in> set [8 * Suc i..<8 * (Suc i + length bm)]" for m
    proof -
      have "Suc i \<le> m div 8" using that by (simp add: less_eq_div_iff_mult_less_eq mult.commute)
      then have "m div 8 - i = Suc (m div 8 - Suc i)" by simp
      then show ?thesis by simp
    qed
    then show ?thesis unfolding Cons by (intro find_cong) auto
  qed
  have fa: "find P (xs @ ys) = (case find P xs of Some x \<Rightarrow> Some x | None \<Rightarrow> find P ys)" for P and xs ys :: "nat list"
    by (induction xs) simp_all
  show ?case
  proof (cases "b = 0xFF")
    case True
    have "find (\<lambda>k. b AND push_bit k 1 = 0 \<and> lo \<le> i * 8 + k) [0..<8] = None"
    proof -
      have "bit (0xFF :: u8) k" if "k < 8" for k
      proof -
        have "(0xFF :: u8) = mask 8" by (simp add: mask_eq_exp_minus_1)
        then show ?thesis using that by (simp only: bit_mask_iff) (simp add: possible_bit_word)
      qed
      then show ?thesis using True by (auto simp: find_None_iff bit_mask)
    qed
    then show ?thesis using True tail head unfolding s fa by simp
  next
    case False
    then show ?thesis using tail head unfolding s fa by (simp split: option.split)
  qed
qed simp

lemma scan_bits_first:
  "scan_bits lo 0 bm = Some n \<longleftrightarrow> n < 8 * length bm \<and> lo \<le> n \<and> \<not> bit_at bm n \<and> (\<forall>m. lo \<le> m \<longrightarrow> m < n \<longrightarrow> bit_at bm m)"
  unfolding scan_bits_find bit_at_def [symmetric] find_Some_iff
  by (auto simp: bit_at_def)

lemma scan_bits_full: "scan_bits lo 0 bm = None \<longleftrightarrow> (\<forall>m. lo \<le> m \<longrightarrow> m < 8 * length bm \<longrightarrow> bit_at bm m)"
  unfolding scan_bits_find bit_at_def [symmetric] find_None_iff by (auto simp: bit_at_def)

text \<open>\<open>free_run bm s t\<close>: the clusters from \<open>s\<close> up to \<open>t\<close> are free.\<close>

definition free_run :: "bytes \<Rightarrow> nat \<Rightarrow> nat \<Rightarrow> bool" where
  "free_run bm s t \<longleftrightarrow> (\<forall>m. s \<le> m \<longrightarrow> m < t \<longrightarrow> \<not> bit_at bm m)"

lemma scan_run_spec:
  assumes "0 < k" "r < k" "r \<le> j" "j \<le> N" "free_run bm (j - r) j" "0 < r \<longrightarrow> start = j - r \<and> 1 \<le> start"
  shows "case scan_run bm k [j..<N] start r of
      Some s \<Rightarrow> 1 \<le> s \<and> s + k \<le> N \<and> free_run bm s (s + k) \<and> (\<forall>s'. j - r \<le> s' \<longrightarrow> 1 \<le> s' \<longrightarrow> s' < s \<longrightarrow> \<not> free_run bm s' (s' + k))
    | None \<Rightarrow> \<forall>s'. j - r \<le> s' \<longrightarrow> 1 \<le> s' \<longrightarrow> s' + k \<le> N \<longrightarrow> \<not> free_run bm s' (s' + k)"
  using assms
proof (induction "N - j" arbitrary: j r start)
  case 0
  then show ?case by auto
next
  case (Suc d)
  then have j: "j < N" "d = N - Suc j" by simp_all
  have u: "[j..<N] = j # [Suc j..<N]" using j by (simp add: upt_rec)
  have restart: "case scan_run bm k [Suc j..<N] 0 0 of
      Some s \<Rightarrow> 1 \<le> s \<and> s + k \<le> N \<and> free_run bm s (s + k) \<and> (\<forall>s'. Suc j \<le> s' \<longrightarrow> 1 \<le> s' \<longrightarrow> s' < s \<longrightarrow> \<not> free_run bm s' (s' + k))
    | None \<Rightarrow> \<forall>s'. Suc j \<le> s' \<longrightarrow> 1 \<le> s' \<longrightarrow> s' + k \<le> N \<longrightarrow> \<not> free_run bm s' (s' + k)"
    using Suc.hyps(1) [OF j(2), of 0 0] j Suc.prems(1) by (auto simp: free_run_def [of bm "Suc j" "Suc j"] split: option.splits)
  consider (boot) "j = 0" | (used) "j \<noteq> 0" "bit_at bm j" | (free) "j \<noteq> 0" "\<not> bit_at bm j" by blast
  then show ?case
  proof cases
    case boot
    then show ?thesis using restart Suc.prems unfolding u by (auto split: option.splits)
  next
    case used
    have old: "\<not> free_run bm s' (s' + k)" if "j - r \<le> s'" "s' \<le> j" for s'
    proof -
      have "j < s' + k" using that Suc.prems(2) by linarith
      then show ?thesis using used that by (auto simp: free_run_def)
    qed
    have same: "scan_run bm k [j..<N] start r = scan_run bm k [Suc j..<N] 0 0"
      using used unfolding u by (simp add: bit_mask bit_at_def)
    have "s' \<le> j \<or> Suc j \<le> s'" for s' by linarith
    then show ?thesis using restart old unfolding same by (cases "scan_run bm k [Suc j..<N] 0 0") (simp_all, blast+)
  next
    case free
    define st where "st = (if r = 0 then j else start)"
    have st: "st = Suc j - Suc r" "1 \<le> st" using Suc.prems free by (auto simp: st_def)
    have fr: "free_run bm (j - r) (Suc j)" using Suc.prems(5) free by (auto simp: free_run_def less_Suc_eq)
    show ?thesis
    proof (cases "k \<le> r + 1")
      case True
      then have "k = Suc r" using Suc.prems(2) by simp
      then show ?thesis using free fr st True Suc.prems(3) j unfolding u
        by (auto simp: bit_mask bit_at_def [symmetric] st_def [symmetric] Let_def)
    next
      case False
      then have "scan_run bm k [j..<N] start r = scan_run bm k [Suc j..<N] st (Suc r)"
        using free unfolding u by (simp add: bit_mask bit_at_def [symmetric] st_def Let_def)
      then show ?thesis using Suc.hyps(1) [OF j(2), of "Suc r" st] False j Suc.prems st fr by (simp split: option.splits)
    qed
  qed
qed

lemma scan_run_first:
  assumes "0 < k"
  shows "scan_run bm k [0..<N] 0 0 = Some s \<Longrightarrow> 1 \<le> s \<and> s + k \<le> N \<and> free_run bm s (s + k) \<and> (\<forall>s'. 1 \<le> s' \<longrightarrow> s' < s \<longrightarrow> \<not> free_run bm s' (s' + k))"
    and "scan_run bm k [0..<N] 0 0 = None \<Longrightarrow> 1 \<le> s' \<Longrightarrow> s' + k \<le> N \<Longrightarrow> \<not> free_run bm s' (s' + k)"
  using scan_run_spec [of k 0 0 N bm 0] assms by (auto simp: free_run_def split: option.splits)

subsection \<open>What allocation takes\<close>

text \<open>From \<open>bm\<close> to \<open>bm'\<close> exactly the free clusters \<open>ls\<close> became used; cluster 0 is never among them.\<close>

definition took :: "bytes \<Rightarrow> nat list \<Rightarrow> bytes \<Rightarrow> bool" where
  "took bm ls bm' \<longleftrightarrow> length bm' = length bm \<and> distinct ls \<and> (\<forall>l \<in> set ls. 1 \<le> l \<and> l < 8 * length bm \<and> \<not> bit_at bm l) \<and>
     (\<forall>b. 1 \<le> b \<longrightarrow> b < 8 * length bm \<longrightarrow> bit_at bm' b = (bit_at bm b \<or> b \<in> set ls))"

definition free_clusters :: "bytes \<Rightarrow> nat set" where
  "free_clusters bm = {b. 1 \<le> b \<and> b < 8 * length bm \<and> \<not> bit_at bm b}"

lemma finite_free [simp]: "finite (free_clusters bm)"
  by (rule finite_subset [of _ "{..<8 * length bm}"]) (auto simp: free_clusters_def)

lemma took_Nil: "took bm [] bm"
  by (simp add: took_def)

lemma took_Cons: "took bm [l] bm1 \<Longrightarrow> took bm1 ls bm2 \<Longrightarrow> took bm (l # ls) bm2"
  by (auto simp: took_def)

lemma took_free: "took bm ls bm' \<Longrightarrow> free_clusters bm' = free_clusters bm - set ls"
  by (auto simp: took_def free_clusters_def)

lemma took_card: "took bm ls bm' \<Longrightarrow> card (free_clusters bm') + length ls = card (free_clusters bm)"
proof -
  assume t: "took bm ls bm'"
  then have "set ls \<subseteq> free_clusters bm" "distinct ls" by (auto simp: took_def free_clusters_def)
  then show ?thesis using took_free [OF t] card_Diff_subset [of "set ls" "free_clusters bm"] card_mono [of "free_clusters bm" "set ls"]
    by (simp add: distinct_card)
qed

lemma mark_boot_bits:
  "length (nv_bitmap (mark_boot v)) = length (nv_bitmap v)"
  "1 \<le> b \<Longrightarrow> b < 8 * length (nv_bitmap v) \<Longrightarrow> bit_at (nv_bitmap (mark_boot v)) b = bit_at (nv_bitmap v) b"
  by (auto simp: mark_boot_def set_cluster_def bit_at_or_bit)

lemma nt_allocCluster_ok:
  assumes "free_clusters (nv_bitmap v) \<noteq> {}"
  obtains n bm where "nt_allocCluster (f, v) = (Inr (int n), (f, v\<lparr>nv_bitmap := bm, nv_dirty := True\<rparr>))" "took (nv_bitmap v) [n] bm"
    "\<forall>m \<in> free_clusters (nv_bitmap v). n \<le> m"
proof -
  have "scan_bits 1 0 (nv_bitmap v) \<noteq> None" using assms by (auto simp: scan_bits_full free_clusters_def)
  then obtain n where n: "scan_bits 1 0 (nv_bitmap v) = Some n" by blast
  then have b: "n < 8 * length (nv_bitmap v)" "1 \<le> n" "\<not> bit_at (nv_bitmap v) n" "\<forall>m. 1 \<le> m \<longrightarrow> m < n \<longrightarrow> bit_at (nv_bitmap v) m"
    by (simp_all add: scan_bits_first)
  define bm where "bm = or_bit n (nv_bitmap (mark_boot v))"
  have "nt_allocCluster (f, v) = (Inr (int n), (f, v\<lparr>nv_bitmap := bm, nv_dirty := True\<rparr>))"
    by (simp add: nt_allocCluster_def n [unfolded One_nat_def] bm_def set_cluster_def mark_boot_def)
  moreover have "took (nv_bitmap v) [n] bm"
    using b mark_boot_bits [where v = v] by (auto simp: took_def bm_def bit_at_or_bit)
  moreover have "\<forall>m \<in> free_clusters (nv_bitmap v). n \<le> m"
    using b(4) by (auto simp: free_clusters_def not_le [symmetric])
  ultimately show thesis using that by blast
qed

lemma nt_allocCluster_full: "free_clusters (nv_bitmap v) = {} \<Longrightarrow> fst (nt_allocCluster (f, v)) = Inl (Err ''no free clusters (volume full)'')"
proof -
  assume "free_clusters (nv_bitmap v) = {}"
  then have "scan_bits 1 0 (nv_bitmap v) = None" by (auto simp: scan_bits_full free_clusters_def)
  then show ?thesis by (simp add: nt_allocCluster_def)
qed

subsection \<open>Runs of clusters\<close>

definition runs_in :: "int \<Rightarrow> run list \<Rightarrow> bool" where
  "runs_in N runs \<longleftrightarrow> N \<le> 2 ^ 62 \<and> (\<forall>r \<in> set runs. 1 \<le> rn_lcn r \<and> 1 \<le> rn_length r \<and> rn_lcn r + rn_length r \<le> N)"

definition clusters_of :: "run \<Rightarrow> int list" where
  "clusters_of r = map (\<lambda>c. rn_lcn r + int c) [0..<nat (rn_length r)]"

lemma run_clusters_in: "runs_in N runs \<Longrightarrow> run_clusters runs = concat (map clusters_of runs)"
proof (induction runs)
  case (Cons r runs)
  have "map (\<lambda>c. wrap64 (rn_lcn r + int c)) [0..<nat (rn_length r)] = clusters_of r"
    unfolding clusters_of_def using Cons.prems by (intro map_cong) (auto simp: runs_in_def)
  moreover have "runs_in N runs" using Cons.prems by (simp add: runs_in_def)
  ultimately show ?case using Cons.IH by (simp add: run_clusters_def)
qed (simp add: run_clusters_def)

lemma clusters_of_longer:
  "0 \<le> rn_length r \<Longrightarrow> clusters_of (r\<lparr>rn_length := rn_length r + 1\<rparr>) = clusters_of r @ [rn_lcn r + rn_length r]"
  by (simp add: clusters_of_def nat_add_distrib)

lemma add_cluster_in:
  assumes "runs_in N runs" "1 \<le> l" "l < N"
  shows "runs_in N (add_cluster runs l)" "run_clusters (add_cluster runs l) = run_clusters runs @ [l]"
proof -
  show in': "runs_in N (add_cluster runs l)"
    using assms by (cases runs rule: rev_cases) (auto simp: add_cluster_def runs_in_def)
  show "run_clusters (add_cluster runs l) = run_clusters runs @ [l]"
  proof (cases "runs \<noteq> [] \<and> rn_lcn (last runs) + rn_length (last runs) = l")
    case True
    then obtain rs r where rs: "runs = rs @ [r]" by (cases runs rule: rev_cases) auto
    have "0 \<le> rn_length r" using assms(1) by (auto simp: rs runs_in_def)
    then show ?thesis using True run_clusters_in [OF assms(1)] run_clusters_in [OF in'] clusters_of_longer [of r]
      by (simp add: add_cluster_def rs)
  next
    case False
    then show ?thesis using run_clusters_in [OF assms(1)] run_clusters_in [OF in']
      by (auto simp: add_cluster_def clusters_of_def)
  qed
qed

lemma alloc_each_ok:
  assumes "k \<le> card (free_clusters (nv_bitmap v))" "runs_in (int (8 * length (nv_bitmap v))) runs"
  obtains ls runs' bm where "alloc_each k runs (f, v) = (Inr runs', (f, v\<lparr>nv_bitmap := bm, nv_dirty := (k \<noteq> 0 \<or> nv_dirty v)\<rparr>))"
    "took (nv_bitmap v) ls bm" "length ls = k" "runs_in (int (8 * length (nv_bitmap v))) runs'"
    "run_clusters runs' = run_clusters runs @ map int ls"
  using assms
proof (induction k arbitrary: v runs thesis)
  case 0
  show ?case by (rule 0(1) [of runs "nv_bitmap v" "[]"]) (use 0 in \<open>simp_all add: retS_def took_Nil\<close>)
next
  case (Suc k)
  have "free_clusters (nv_bitmap v) \<noteq> {}" using Suc.prems(2) by (metis card.empty not_less_eq_eq zero_le)
  then obtain n bm where n: "nt_allocCluster (f, v) = (Inr (int n), (f, v\<lparr>nv_bitmap := bm, nv_dirty := True\<rparr>))" "took (nv_bitmap v) [n] bm"
    by (rule nt_allocCluster_ok)
  let ?v = "v\<lparr>nv_bitmap := bm, nv_dirty := True\<rparr>"
  have len: "length bm = length (nv_bitmap v)" "1 \<le> n" "n < 8 * length (nv_bitmap v)" using n(2) by (auto simp: took_def)
  have a: "runs_in (int (8 * length (nv_bitmap ?v))) (add_cluster runs (int n))" "run_clusters (add_cluster runs (int n)) = run_clusters runs @ [int n]"
    using add_cluster_in [OF Suc.prems(3), of "int n"] len by simp_all
  have "k \<le> card (free_clusters (nv_bitmap ?v))" using took_card [OF n(2)] Suc.prems(2) by simp
  then obtain ls runs' bm' where r: "alloc_each k (add_cluster runs (int n)) (f, ?v) = (Inr runs', (f, ?v\<lparr>nv_bitmap := bm', nv_dirty := (k \<noteq> 0 \<or> nv_dirty ?v)\<rparr>))"
    "took (nv_bitmap ?v) ls bm'" "length ls = k" "runs_in (int (8 * length (nv_bitmap ?v))) runs'"
    "run_clusters runs' = run_clusters (add_cluster runs (int n)) @ map int ls"
    using Suc.IH [where v = ?v and runs = "add_cluster runs (int n)"] a(1) by metis
  show ?case
  proof (rule Suc.prems(1) [of runs' bm' "n # ls"])
    show "alloc_each (Suc k) runs (f, v) = (Inr runs', (f, v\<lparr>nv_bitmap := bm', nv_dirty := (Suc k \<noteq> 0 \<or> nv_dirty v)\<rparr>))"
      using n(1) r(1) by (simp add: bindS_def)
    show "took (nv_bitmap v) (n # ls) bm'" using took_Cons n(2) r(2) by simp
  qed (use r a len in simp_all)
qed

text \<open>Without enough free clusters the allocation fails, and keeps those it found.\<close>

lemma alloc_each_full:
  assumes "card (free_clusters (nv_bitmap v)) < k"
  shows "\<exists>s. alloc_each k runs (f, v) = (Inl (Err ''no free clusters (volume full)''), s)"
  using assms
proof (induction k arbitrary: v runs)
  case (Suc k)
  show ?case
  proof (cases "free_clusters (nv_bitmap v) = {}")
    case True
    then have "fst (nt_allocCluster (f, v)) = Inl (Err ''no free clusters (volume full)'')" by (rule nt_allocCluster_full)
    then show ?thesis by (cases "nt_allocCluster (f, v)") (simp add: bindS_def)
  next
    case False
    then obtain n bm where n: "nt_allocCluster (f, v) = (Inr (int n), (f, v\<lparr>nv_bitmap := bm, nv_dirty := True\<rparr>))" "took (nv_bitmap v) [n] bm"
      by (rule nt_allocCluster_ok)
    then show ?thesis using Suc.IH [of "v\<lparr>nv_bitmap := bm, nv_dirty := True\<rparr>"] took_card [OF n(2)] Suc.prems by (simp add: bindS_def)
  qed
qed simp

lemma tryAllocContiguous_ok:
  assumes "0 < k" "8 * length (nv_bitmap v) \<le> 2 ^ 62"
  shows "(\<exists>s bm. tryAllocContiguous k (f, v) = (Inr [\<lparr>rn_lcn = int s, rn_length = int k\<rparr>], (f, v\<lparr>nv_bitmap := bm, nv_dirty := True\<rparr>)) \<and>
      took (nv_bitmap v) [s..<s + k] bm \<and> (\<forall>s'. 1 \<le> s' \<longrightarrow> s' < s \<longrightarrow> \<not> free_run (nv_bitmap v) s' (s' + k))) \<or>
    tryAllocContiguous k (f, v) = (Inr [], (f, v)) \<and> (\<forall>s'. 1 \<le> s' \<longrightarrow> s' + k \<le> 8 * length (nv_bitmap v) \<longrightarrow> \<not> free_run (nv_bitmap v) s' (s' + k))"
proof (cases "scan_run (nv_bitmap v) k [0..<8 * length (nv_bitmap v)] 0 0")
  case None
  then show ?thesis using scan_run_first(2) [OF assms(1) None] by (simp add: tryAllocContiguous_def)
next
  case (Some s)
  note f = scan_run_first(1) [OF assms(1) Some]
  have "took (nv_bitmap v) [s..<s + k] (fold or_bit [s..<s + k] (nv_bitmap v))"
    using f bit_at_fold [of "[s..<s + k]" "nv_bitmap v"] by (auto simp: took_def free_run_def)
  then show ?thesis using f Some by (auto simp: tryAllocContiguous_def)
qed

text \<open>The run list has one run when there is a run of free clusters that is long enough.\<close>

definition contiguous :: "bytes \<Rightarrow> nat \<Rightarrow> bool" where
  "contiguous bm k \<longleftrightarrow> (\<exists>s. 1 \<le> s \<and> s + k \<le> 8 * length bm \<and> free_run bm s (s + k))"

lemma contiguous_card: "contiguous bm k \<Longrightarrow> k \<le> card (free_clusters bm)"
proof -
  assume "contiguous bm k"
  then obtain s where "1 \<le> s" "s + k \<le> 8 * length bm" "free_run bm s (s + k)" by (auto simp: contiguous_def)
  then have "{s..<s + k} \<subseteq> free_clusters bm" by (auto simp: free_clusters_def free_run_def)
  then have "card {s..<s + k} \<le> card (free_clusters bm)" by (intro card_mono) simp_all
  then show ?thesis by simp
qed

lemma allocContiguousClusters_ok:
  assumes "0 < n" "n \<le> int (card (free_clusters (nv_bitmap v)))" "8 * length (nv_bitmap v) \<le> 2 ^ 62"
  obtains ls runs bm where "allocContiguousClusters n (f, v) = (Inr runs, (f, v\<lparr>nv_bitmap := bm, nv_dirty := True\<rparr>))"
    "took (nv_bitmap v) ls bm" "int (length ls) = n" "runs_in (int (8 * length (nv_bitmap v))) runs" "run_clusters runs = map int ls"
    "contiguous (nv_bitmap v) (nat n) \<longrightarrow> length runs = 1"
proof -
  from tryAllocContiguous_ok [of "nat n" v f] assms
  consider s bm where "tryAllocContiguous (nat n) (f, v) = (Inr [\<lparr>rn_lcn = int s, rn_length = int (nat n)\<rparr>], (f, v\<lparr>nv_bitmap := bm, nv_dirty := True\<rparr>))"
      "took (nv_bitmap v) [s..<s + nat n] bm"
    | "tryAllocContiguous (nat n) (f, v) = (Inr [], (f, v))" "\<not> contiguous (nv_bitmap v) (nat n)" by (auto simp: contiguous_def)
  then show thesis
  proof cases
    case 1
    have b: "1 \<le> s" "s + nat n \<le> 8 * length (nv_bitmap v)"
    proof -
      have "s \<in> set [s..<s + nat n]" "s + nat n - 1 \<in> set [s..<s + nat n]" using assms(1) by auto
      then show "1 \<le> s" "s + nat n \<le> 8 * length (nv_bitmap v)" using 1(2) unfolding took_def by fastforce+
    qed
    have "runs_in (int (8 * length (nv_bitmap v))) [\<lparr>rn_lcn = int s, rn_length = int (nat n)\<rparr>]"
      using b assms(1,3) by (simp add: runs_in_def)
    moreover have "clusters_of \<lparr>rn_lcn = int s, rn_length = int (nat n)\<rparr> = map int [s..<s + nat n]"
      using assms(1) by (intro nth_equalityI) (simp_all add: clusters_of_def)
    ultimately have "run_clusters [\<lparr>rn_lcn = int s, rn_length = int (nat n)\<rparr>] = map int [s..<s + nat n]"
      using run_clusters_in by simp
    then show thesis
      using that [of "[\<lparr>rn_lcn = int s, rn_length = int (nat n)\<rparr>]" bm "[s..<s + nat n]"] 1 assms(1) \<open>runs_in _ _\<close>
      by (simp add: allocContiguousClusters_def bindS_def retS_def)
  next
    case 2
    have c: "nat n \<le> card (free_clusters (nv_bitmap v))" "runs_in (int (8 * length (nv_bitmap v))) []"
      using assms by (simp_all add: runs_in_def nat_le_iff)
    obtain ls runs bm where "alloc_each (nat n) [] (f, v) = (Inr runs, (f, v\<lparr>nv_bitmap := bm, nv_dirty := (nat n \<noteq> 0 \<or> nv_dirty v)\<rparr>))"
      "took (nv_bitmap v) ls bm" "length ls = nat n" "runs_in (int (8 * length (nv_bitmap v))) runs" "run_clusters runs = run_clusters [] @ map int ls"
      using c by (rule alloc_each_ok)
    then show thesis using that 2 assms(1) by (simp add: allocContiguousClusters_def bindS_def allocClusters_def run_clusters_def)
  qed
qed

section \<open>Data in clusters\<close>

subsection \<open>Where clusters are\<close>

definition clu_off :: "ntfsVolume \<Rightarrow> nat \<Rightarrow> nat" where
  "clu_off v l = nat (nv_base v) + l * nat (nv_clusterSize v)"

text \<open>No offset of a cluster that has a bit overflows.\<close>

definition clusters_fit :: "ntfsVolume \<Rightarrow> bool" where
  "clusters_fit v \<longleftrightarrow> 0 \<le> nv_base v \<and> 0 < nv_clusterSize v \<and> 8 * length (nv_bitmap v) \<le> 2 ^ 62 \<and>
     nv_base v + 8 * int (length (nv_bitmap v)) * nv_clusterSize v < 2 ^ 62"

lemma clu_in:
  assumes "clusters_fit v" "l \<le> 8 * length (nv_bitmap v)"
  shows "0 \<le> int l * nv_clusterSize v" "nv_base v + int l * nv_clusterSize v < 2 ^ 62" "nat (nv_base v + int l * nv_clusterSize v) = clu_off v l"
proof -
  define cs where "cs = nv_clusterSize v"
  have c: "0 < cs" "0 \<le> nv_base v" "nv_base v + 8 * int (length (nv_bitmap v)) * cs < 2 ^ 62" using assms(1) by (simp_all add: clusters_fit_def cs_def)
  have le: "int l * cs \<le> 8 * int (length (nv_bitmap v)) * cs" using assms(2) c(1) by (intro mult_right_mono) auto
  show "0 \<le> int l * nv_clusterSize v" using c(1) by (simp add: cs_def)
  show "nv_base v + int l * nv_clusterSize v < 2 ^ 62" using le c(3) unfolding cs_def [symmetric] by linarith
  have "nat (nv_base v + int l * cs) = nat (nv_base v) + nat (int l * cs)" using c by (intro nat_add_distrib) simp_all
  then show "nat (nv_base v + int l * nv_clusterSize v) = clu_off v l" by (simp add: clu_off_def cs_def nat_mult_distrib)
qed

lemma clu_wrap:
  assumes "clusters_fit v" "l \<le> 8 * length (nv_bitmap v)"
  shows "wrap64 (nv_base v + wrap64 (int l * nv_clusterSize v)) = int (clu_off v l)"
proof -
  obtain x where x: "x = int l * nv_clusterSize v" by simp
  have b: "0 \<le> nv_base v" using assms(1) by (simp add: clusters_fit_def)
  have "0 \<le> x" "nv_base v + x < 2 ^ 62" "nat (nv_base v + x) = clu_off v l" using clu_in [OF assms] by (simp_all add: x)
  then show ?thesis unfolding x [symmetric] using b by (simp add: nat_eq_iff)
qed

lemma clu_off_apart: "l < l' \<Longrightarrow> clu_off v l + nat (nv_clusterSize v) \<le> clu_off v l'"
proof -
  assume "l < l'"
  then have "Suc l * nat (nv_clusterSize v) \<le> l' * nat (nv_clusterSize v)" by (intro mult_le_mono1) simp
  then show ?thesis by (simp add: clu_off_def)
qed

subsection \<open>Writing\<close>

definition chunk_writes :: "ntfsVolume \<Rightarrow> bytes \<Rightarrow> nat \<Rightarrow> nat list \<Rightarrow> (nat \<times> bytes) list" where
  "chunk_writes v d i ls = map (\<lambda>(i, l). (clu_off v l, nt_data_chunk d (nat (nv_clusterSize v)) i)) (List.enumerate i ls)"

lemma length_nt_data_chunk [simp]: "length (nt_data_chunk d cs i) = cs"
  by (simp add: nt_data_chunk_def Let_def)

lemma nth_nt_data_chunk: "o' < cs \<Longrightarrow> i * cs + o' < length d \<Longrightarrow> nt_data_chunk d cs i ! o' = d ! (i * cs + o')"
  by (simp add: nt_data_chunk_def Let_def nth_append less_diff_conv add.commute)

lemma put_chunk_at:
  assumes "clusters_fit v" "l < 8 * length (nv_bitmap v)" "\<not> closed f"
  shows "put_chunk d (i, int l) (f, v) = (Inr (), (f\<lparr>contents := write_bytes (contents f) (clu_off v l) (nt_data_chunk d (nat (nv_clusterSize v)) i)\<rparr>, v))"
proof -
  have "0 \<le> nv_clusterSize v" using assms(1) by (simp add: clusters_fit_def)
  then show ?thesis using clu_wrap [OF assms(1), of l] assms(2,3)
    by (simp add: put_chunk_def readV_def bindS_def readS_def partWrite_def WriteAt_open)
qed

lemma put_chunks:
  assumes "clusters_fit v" "\<forall>l \<in> set ls. l < 8 * length (nv_bitmap v)" "\<not> closed f"
  shows "for_each (\<lambda>x. wrapS msg (put_chunk d x)) (List.enumerate i (map int ls)) (f, v) =
    (Inr (), (f\<lparr>contents := fstore.wr_all (chunk_writes v d i ls) (contents f)\<rparr>, v))"
  using assms
proof (induction ls arbitrary: i f)
  case (Cons l ls)
  have one: "wrapS msg (put_chunk d (i, int l)) (f, v) =
      (Inr (), (f\<lparr>contents := write_bytes (contents f) (clu_off v l) (nt_data_chunk d (nat (nv_clusterSize v)) i)\<rparr>, v))"
    using put_chunk_at [of v l f d i] Cons.prems by (simp add: wrapS_def)
  then show ?case using Cons.IH [of "f\<lparr>contents := write_bytes (contents f) (clu_off v l) (nt_data_chunk d (nat (nv_clusterSize v)) i)\<rparr>" "Suc i"] Cons.prems
    by (simp add: bindS_def chunk_writes_def one)
qed (simp add: retS_def chunk_writes_def)

lemma chunk_writes_disjoint: "distinct ls \<Longrightarrow> fstore.disjoint_writes (chunk_writes v d i ls)"
  unfolding fstore.disjoint_writes_def
proof (intro allI impI)
  fix a b assume d: "distinct ls" and ab: "a < length (chunk_writes v d i ls)" "b < length (chunk_writes v d i ls)" "a \<noteq> b"
  have l: "a < length ls" "b < length ls" using ab by (simp_all add: chunk_writes_def)
  have "ls ! a \<noteq> ls ! b" using d l ab(3) by (simp add: nth_eq_iff_index_eq)
  then have "ls ! a < ls ! b \<or> ls ! b < ls ! a" by linarith
  then show "fstore.apart (fst (chunk_writes v d i ls ! a)) (length (snd (chunk_writes v d i ls ! a))) (chunk_writes v d i ls ! b)"
    using l clu_off_apart [of "ls ! a" "ls ! b" v] clu_off_apart [of "ls ! b" "ls ! a" v]
    by (auto simp: fstore.apart_def chunk_writes_def nth_enumerate_eq)
qed

subsection \<open>Reading\<close>

text \<open>The clusters \<open>ls\<close> hold \<open>d\<close> from cluster number \<open>j\<close> of the data on.\<close>

definition holds :: "bytes \<Rightarrow> ntfsVolume \<Rightarrow> bytes \<Rightarrow> nat \<Rightarrow> nat list \<Rightarrow> bool" where
  "holds c v d j ls \<longleftrightarrow> (\<forall>i < length ls. sub c (clu_off v (ls ! i)) (nat (nv_clusterSize v)) = nt_data_chunk d (nat (nv_clusterSize v)) (j + i))"

lemma holds_written: "distinct ls \<Longrightarrow> 0 < nv_clusterSize v \<Longrightarrow> holds (fstore.wr_all (chunk_writes v d j ls) c) v d j ls"
  unfolding holds_def
proof (intro allI impI)
  fix i assume d: "distinct ls" and cs: "0 < nv_clusterSize v" and i: "i < length ls"
  have m: "(clu_off v (ls ! i), nt_data_chunk d (nat (nv_clusterSize v)) (j + i)) \<in> set (chunk_writes v d j ls)"
    using i by (auto simp: chunk_writes_def in_set_enumerate_eq image_iff intro!: bexI [of _ "(j + i, ls ! i)"])
  have "nt_data_chunk d (nat (nv_clusterSize v)) (j + i) \<noteq> []" using cs by (metis length_nt_data_chunk list.size(3) zero_less_nat_eq less_irrefl)
  from fstore.wr_all_disjoint [OF chunk_writes_disjoint [OF d] m this, of c]
  show "sub (fstore.wr_all (chunk_writes v d j ls) c) (clu_off v (ls ! i)) (nat (nv_clusterSize v)) = nt_data_chunk d (nat (nv_clusterSize v)) (j + i)"
    by simp
qed

text \<open>A run of \<open>n\<close> clusters is read in one piece.\<close>

lemma holds_run:
  assumes "holds c v d j [l..<l + n]" "0 < nv_clusterSize v" "0 < m" "m \<le> n * nat (nv_clusterSize v)" "j * nat (nv_clusterSize v) + m \<le> length d"
  shows "clu_off v l + m \<le> length c \<and> sub c (clu_off v l) m = sub d (j * nat (nv_clusterSize v)) m"
proof -
  define cs where "cs = nat (nv_clusterSize v)"
  have byte: "clu_off v l + p < length c \<and> c ! (clu_off v l + p) = d ! (j * cs + p)" if p: "p < m" for p
  proof -
    define i where "i = p div cs"
    define o' where "o' = p mod cs"
    have po: "p = i * cs + o'" "o' < cs" using assms(2) by (simp_all add: i_def o'_def cs_def)
    have "i < n" using p assms(4) unfolding i_def cs_def [symmetric] by (simp add: less_mult_imp_div_less)
    then have s: "sub c (clu_off v (l + i)) cs = nt_data_chunk d cs (j + i)" using assms(1) by (simp add: holds_def cs_def)
    have "min cs (length c - clu_off v (l + i)) = cs" using arg_cong [OF s, of length] by simp
    then have "clu_off v (l + i) + cs \<le> length c" using po(2) by linarith
    moreover have o: "clu_off v (l + i) = clu_off v l + i * cs" by (simp add: clu_off_def cs_def algebra_simps)
    ultimately have a: "clu_off v l + p < length c" using po by linarith
    have "c ! (clu_off v l + p) = sub c (clu_off v (l + i)) cs ! o'" using po a by (subst nth_sub) (simp_all add: o add.assoc)
    also have "\<dots> = d ! ((j + i) * cs + o')"
      unfolding s using po p assms(5) by (intro nth_nt_data_chunk) (simp_all add: cs_def [symmetric] algebra_simps)
    finally show ?thesis using a po by (simp add: algebra_simps)
  qed
  have le: "clu_off v l + m \<le> length c" using byte [of "m - 1"] assms(3) by linarith
  have "sub c (clu_off v l) m = sub d (j * cs) m"
    using le byte assms(5) by (intro sub_eqI) (simp_all add: cs_def)
  then show ?thesis using le by (simp add: cs_def)
qed

lemma holds_append: "holds c v d j (xs @ ys) \<Longrightarrow> holds c v d j xs \<and> holds c v d (j + length xs) ys"
  unfolding holds_def
proof (intro conjI allI impI)
  fix i assume h: "\<forall>i<length (xs @ ys). sub c (clu_off v ((xs @ ys) ! i)) (nat (nv_clusterSize v)) = nt_data_chunk d (nat (nv_clusterSize v)) (j + i)"
  show "sub c (clu_off v (xs ! i)) (nat (nv_clusterSize v)) = nt_data_chunk d (nat (nv_clusterSize v)) (j + i)" if "i < length xs"
    using h that by (auto simp: nth_append dest: spec [of _ i])
  show "sub c (clu_off v (ys ! i)) (nat (nv_clusterSize v)) = nt_data_chunk d (nat (nv_clusterSize v)) (j + length xs + i)" if "i < length ys"
    using h that by (auto simp: nth_append add.assoc dest: spec [of _ "length xs + i"])
qed

text \<open>The loop of \<open>readRuns\<close> with \<open>j\<close> whole clusters read: what it returns is \<open>d\<close>.\<close>

lemma read_runs_holds:
  assumes "clusters_fit v" "\<not> closed f" "runs_in (int (8 * length (nv_bitmap v))) runs" "run_clusters runs = map int ls" "holds (contents f) v d j ls"
    "length out = length d" "take (min (j * nat (nv_clusterSize v)) (length d)) out = take (j * nat (nv_clusterSize v)) d"
    "length d \<le> (j + length ls) * nat (nv_clusterSize v)" "length d < 2 ^ 62"
  shows "read_runs f v (int (length d)) runs (int (min (j * nat (nv_clusterSize v)) (length d))) out = Inr d"
  using assms(3-)
proof (induction runs arbitrary: j ls out)
  case Nil
  then have "ls = []" by (simp add: run_clusters_def)
  then show ?case using Nil by (simp add: min_def split: if_splits)
next
  case (Cons r runs)
  define cs where "cs = nat (nv_clusterSize v)"
  have cs: "0 < cs" "int cs = nv_clusterSize v" "0 < nv_clusterSize v" using assms(1) by (simp_all add: cs_def clusters_fit_def)
  show ?case
  proof (cases "length d \<le> j * cs")
    case True
    then show ?thesis using Cons.prems by (simp add: cs_def)
  next
    case False
    define l where "l = nat (rn_lcn r)"
    define n where "n = nat (rn_length r)"
    have r: "rn_lcn r = int l" "rn_length r = int n" "1 \<le> n" "l + n \<le> 8 * length (nv_bitmap v)"
      using Cons.prems(1) by (auto simp: runs_in_def l_def n_def)
    have rest: "runs_in (int (8 * length (nv_bitmap v))) runs" using Cons.prems(1) by (simp add: runs_in_def)
    have "clusters_of r = map int [l..<l + n]" by (rule nth_equalityI) (simp_all add: clusters_of_def r)
    then have c: "map int ls = map int [l..<l + n] @ run_clusters runs"
      using run_clusters_in [OF Cons.prems(1)] run_clusters_in [OF rest] Cons.prems(2) by simp
    define ls' where "ls' = drop n ls"
    have ls: "ls = [l..<l + n] @ ls'"
    proof -
      have "map int (take n ls) = map int [l..<l + n]" using arg_cong [OF c, of "take n"] by (simp add: take_map)
      then have "take n ls = [l..<l + n]" by (simp add: inj_map_eq_map)
      then show ?thesis unfolding ls'_def by (metis append_take_drop_id)
    qed
    have ls': "run_clusters runs = map int ls'" using c by (simp add: ls)
    note h = holds_append [OF Cons.prems(3) [unfolded ls]]
    define m where "m = min (n * cs) (length d - j * cs)"
    have m: "0 < m" "m \<le> n * cs" "j * cs + m \<le> length d" using False cs(1) r(3) by (simp_all add: m_def)
    have rd: "clu_off v l + m \<le> length (contents f)" "sub (contents f) (clu_off v l) m = sub d (j * cs) m"
      using holds_run [of "contents f" v d j l n m] h cs(3) m by (simp_all add: cs_def)
    have big: "int n * int cs < 2 ^ 62"
    proof -
      have "int n * int cs \<le> int (l + n) * int cs" by (intro mult_right_mono) simp_all
      then show ?thesis using clu_in(2) [OF assms(1) r(4)] assms(1) unfolding cs(2) clusters_fit_def by linarith
    qed
    have dl: "int (length d) < 2 ^ 62" using Cons.prems(7) by simp
    have jd: "j * cs < length d" using False by simp
    have "0 \<le> int n * int cs" by simp
    obtain x where x: "x = int n * int cs" by simp
    obtain y where y: "y = int (j * cs)" by simp
    have xy: "0 \<le> x" "x < 2 ^ 62" "0 \<le> y" "y < int (length d)" using big jd by (simp_all only: x y of_nat_less_iff) simp_all
    have w: "wrap64 (rn_length r * nv_clusterSize v) = x" "wrap64 (y + x) = y + x"
      using xy dl unfolding r(2) cs(2) [symmetric] x [symmetric] by simp_all
    have to: "(if int (length d) < y + x then int (length d) - y else x) = int m"
    proof -
      have yx: "y + x = int (j * cs + n * cs)" by (simp add: x y)
      show ?thesis unfolding yx of_nat_less_iff unfolding x y m_def using jd by (auto simp: min_def)
    qed
    have "full (partRead f v m (wrap64 (rn_lcn r * nv_clusterSize v))) = Inr (sub d (j * cs) m)"
      using clu_wrap [OF assms(1), of l] r(4) rd assms(2) unfolding r(1) by (simp add: partRead_def ReadAt_inside)
    then have "read_runs f v (int (length d)) (r # runs) y out = read_runs f v (int (length d)) runs (y + int m) (copy_into out (j * cs) (sub d (j * cs) m))"
    proof -
      have c: "\<not> int (length d) \<le> y" "\<not> rn_lcn r < 0" "\<not> (y < 0 \<or> int m < 0 \<or> int (length out) < y + int m)"
      proof -
        have "y + int m \<le> int (length out)" using m(3) Cons.prems(4) unfolding y by (simp del: of_nat_mult)
        then show "\<not> (y < 0 \<or> int m < 0 \<or> int (length out) < y + int m)" using xy(3) by linarith
      qed (use xy(4) in \<open>simp_all add: r(1)\<close>)
      have "nat y = j * cs" "nat (int m) = m" by (simp_all only: y nat_int)
      then show ?thesis unfolding read_runs.simps Let_def w to using c \<open>full _ = _\<close> by simp
    qed
    also have "\<dots> = Inr d"
    proof -
      have k: "min ((j + n) * cs) (length d) = j * cs + m" unfolding add_mult_distrib m_def using jd by (auto simp: min_def)
      then have e: "y + int m = int (min ((j + n) * cs) (length d))" by (simp add: y)
      have t: "take (min ((j + n) * cs) (length d)) (copy_into out (j * cs) (sub d (j * cs) m)) = take ((j + n) * cs) d"
      proof -
        have o': "take (j * cs) out = take (j * cs) d" using Cons.prems(5) jd by (simp add: cs_def min_def)
        have "take (j * cs + m) (copy_into out (j * cs) (sub d (j * cs) m)) = take (j * cs) out @ sub d (j * cs) m"
          using m(3) Cons.prems(4) by (simp add: copy_into_def)
        also have "\<dots> = take (j * cs + m) d" unfolding o' by (simp add: sub_def take_add)
        also have "\<dots> = take ((j + n) * cs) d" using k by (metis min.commute take_all_iff take_take order_refl)
        finally show ?thesis by (simp only: k)
      qed
      show ?thesis unfolding e cs_def
        by (rule Cons.IH) (use rest ls' h Cons.prems t in \<open>simp_all add: ls cs_def add.assoc\<close>)
    qed
    finally show ?thesis using jd by (simp add: y cs_def min_def)
  qed
qed

lemma readRuns_holds:
  assumes "clusters_fit v" "\<not> closed f" "runs_in (int (8 * length (nv_bitmap v))) runs" "run_clusters runs = map int ls" "holds (contents f) v d 0 ls"
    "length d \<le> length ls * nat (nv_clusterSize v)" "length d < 2 ^ 62"
  shows "readRuns f v runs (int (length d)) = Inr d"
  using read_runs_holds [OF assms(1-5), of "zeros (length d)"] assms(6,7) by (simp add: readRuns_def make_bytes_def)

subsection \<open>Storing and reading back\<close>

text \<open>The bytes of the image outside the clusters \<open>ls\<close>, as far as they were there.\<close>

definition same_but :: "ntfsVolume \<Rightarrow> nat list \<Rightarrow> bytes \<Rightarrow> bytes \<Rightarrow> bool" where
  "same_but v ls c' c \<longleftrightarrow> length c \<le> length c' \<and>
     (\<forall>p < length c. (\<forall>l \<in> set ls. p < clu_off v l \<or> clu_off v l + nat (nv_clusterSize v) \<le> p) \<longrightarrow> c' ! p = c ! p)"

lemma wr_all_same_but: "same_but v ls (fstore.wr_all (chunk_writes v d i ls) c) c"
  unfolding same_but_def
proof (intro conjI allI impI fstore.len_wr_all_le)
  fix p assume p: "p < length c" "\<forall>l \<in> set ls. p < clu_off v l \<or> clu_off v l + nat (nv_clusterSize v) \<le> p"
  let ?c = "fstore.wr_all (chunk_writes v d i ls) c"
  have "\<forall>w \<in> set (chunk_writes v d i ls). fstore.apart p 1 w"
  proof
    fix w assume "w \<in> set (chunk_writes v d i ls)"
    then obtain k l where "(k, l) \<in> set (List.enumerate i ls)" "w = (clu_off v l, nt_data_chunk d (nat (nv_clusterSize v)) k)"
      by (auto simp: chunk_writes_def)
    moreover from this have "l \<in> set ls" by (metis in_set_enumerate_eq nth_mem snd_conv less_diff_conv2 add.commute)
    ultimately show "fstore.apart p 1 w" using p(2) by (auto simp: fstore.apart_def)
  qed
  then have "sub ?c p 1 = sub c p 1" using p(1) by (intro fstore.wr_all_other) simp_all
  moreover have "p < length ?c" using p(1) fstore.len_wr_all_le by (rule less_le_trans)
  ultimately show "?c ! p = c ! p" using p(1) by (simp add: sub_def take_Suc_conv_app_nth del: take_Suc)
qed

lemma allocAndWrite_reads:
  assumes "clusters_fit v" "\<not> closed f" "d \<noteq> []" "length d < 2 ^ 62"
    "(int (length d) + nv_clusterSize v - 1) div nv_clusterSize v \<le> int (card (free_clusters (nv_bitmap v)))"
  obtains ls runs bm c where "allocAndWrite d (f, v) = (Inr runs, (f\<lparr>contents := c\<rparr>, v\<lparr>nv_bitmap := bm, nv_dirty := True\<rparr>))"
    "took (nv_bitmap v) ls bm" "int (length ls) = (int (length d) + nv_clusterSize v - 1) div nv_clusterSize v"
    "runs_in (int (8 * length (nv_bitmap v))) runs" "run_clusters runs = map int ls" "holds c v d 0 ls" "same_but v ls c (contents f)"
    "contiguous (nv_bitmap v) (nat ((int (length d) + nv_clusterSize v - 1) div nv_clusterSize v)) \<longrightarrow> length runs = 1"
proof -
  define n where "n = (int (length d) + nv_clusterSize v - 1) div nv_clusterSize v"
  have cs: "0 < nv_clusterSize v" using assms(1) by (simp add: clusters_fit_def)
  have q: "quot (int (length d) + nv_clusterSize v - 1) (nv_clusterSize v) = n" using cs assms(3) by (simp add: n_def)
  have n: "0 < n" using cs assms(3) by (simp add: n_def pos_imp_zdiv_pos_iff)
  obtain ls runs bm where a: "allocContiguousClusters n (f, v) = (Inr runs, (f, v\<lparr>nv_bitmap := bm, nv_dirty := True\<rparr>))"
    "took (nv_bitmap v) ls bm" "int (length ls) = n" "runs_in (int (8 * length (nv_bitmap v))) runs" "run_clusters runs = map int ls"
    "contiguous (nv_bitmap v) (nat n) \<longrightarrow> length runs = 1"
    using allocContiguousClusters_ok [OF n] assms(1,5) unfolding n_def [symmetric] clusters_fit_def by metis
  let ?v = "v\<lparr>nv_bitmap := bm, nv_dirty := True\<rparr>"
  have len: "length bm = length (nv_bitmap v)" using a(2) by (simp add: took_def)
  have fit: "clusters_fit ?v" using assms(1) by (simp add: clusters_fit_def len)
  have ls: "\<forall>l \<in> set ls. l < 8 * length (nv_bitmap ?v)" "distinct ls" using a(2) by (simp_all add: took_def)
  have cw: "chunk_writes ?v d 0 ls = chunk_writes v d 0 ls" by (simp add: chunk_writes_def clu_off_def)
  show thesis
  proof (rule that [of runs "fstore.wr_all (chunk_writes v d 0 ls) (contents f)" bm ls])
    show "allocAndWrite d (f, v) = (Inr runs, (f\<lparr>contents := fstore.wr_all (chunk_writes v d 0 ls) (contents f)\<rparr>, ?v))"
      using put_chunks [OF fit ls(1) assms(2), of "''write cluster''" d 0] cs q a(1,5) cw
      by (simp add: allocAndWrite_def readV_def bindS_def readS_def retS_def)
  qed (use a n_def holds_written [OF ls(2) cs] wr_all_same_but in simp_all)
qed

end
