(* ===== verification/NtfsCodec.thy ===== *)
theory NtfsCodec
  imports NtfsRecord
begin

text \<open>
  Two encodings of the NTFS driver.  Run lists: the byte counts suffice, and decoding gives back every run
  list that was encoded, whatever follows it.  Update sequence arrays and the slots of the MFT: stamping a
  record and removing the stamps gives the record back outside the array, so what \<open>putRecord\<close> writes is
  what \<open>readRawRecord\<close> reads.
\<close>

unbundle bit_operations_syntax

section \<open>Run lists\<close>

subsection \<open>Little-endian bytes\<close>

lemma low_bytes_Suc: "low_bytes (Suc n) x = of_int x # low_bytes n (x div 256)"
proof -
  have "x div 2 ^ (8 * Suc j) = x div 256 div 2 ^ (8 * j)" for j
  proof -
    have "(2::int) ^ (8 * Suc j) = 256 * 2 ^ (8 * j)" by (simp add: power_add)
    then show ?thesis by (simp add: zdiv_zmult2_eq)
  qed
  then show ?thesis by (simp add: low_bytes_def upt_rec [of 0] map_Suc_upt [symmetric] del: upt_Suc map_Suc_upt)
qed

lemma length_low_bytes [simp]: "length (low_bytes n x) = n"
  by (simp add: low_bytes_def)

lemma le_word_low_bytes: "le_word (low_bytes n x) = take_bit (8 * n) (of_int x)"
proof (induction n arbitrary: x)
  case (Suc n)
  have "bit (ucast (of_int x :: u8) OR push_bit 8 (take_bit (8 * n) (of_int (x div 256)) :: u64)) i \<longleftrightarrow>
        bit (take_bit (8 * Suc n) (of_int x :: u64)) i" if "i < 64" for i
  proof -
    have "bit (x div 256) (i - 8) \<longleftrightarrow> bit x i" if "8 \<le> i"
      using bit_drop_bit_eq [of 8 x] that by (simp add: drop_bit_eq_div fun_eq_iff)
    then show ?thesis using that by (auto simp: bit_simps)
  qed
  then show ?case by (simp add: low_bytes_Suc Suc) (rule bit_word_eqI, simp)
qed (simp add: low_bytes_def)

lemma bit_sign:
  assumes "- (2 ^ k) \<le> x" "x < 2 ^ k" "k \<le> i"
  shows "bit (x :: int) i \<longleftrightarrow> x < 0"
proof -
  have p: "(2::int) ^ k \<le> 2 ^ i" using assms(3) by (rule power_increasing) simp
  show ?thesis
  proof (cases "x < 0")
    case True
    have "0 \<le> x + 2 ^ i" using assms(1) p by linarith
    with True have "x div 2 ^ i = - 1" by (intro int_div_pos_eq [of _ _ _ "x + 2 ^ i"]) auto
    then show ?thesis using True by (simp add: bit_iff_odd)
  next
    case False
    then have "x div 2 ^ i = 0" using assms p by (intro div_pos_pos_trivial) linarith+
    then show ?thesis using False by (simp add: bit_iff_odd)
  qed
qed

lemma le_signed_low_bytes:
  assumes "- (2 ^ (8 * n - 1)) \<le> x" "x < 2 ^ (8 * n - 1)" "0 < n" "n \<le> 8"
  shows "le_signed (low_bytes n x) = x"
proof -
  have s: "bit x i \<longleftrightarrow> x < 0" if "8 * n - 1 \<le> i" for i using bit_sign assms(1,2) that by blast
  have l: "last (low_bytes n x) = of_int (drop_bit (8 * (n - 1)) x)"
    using assms(3) by (simp add: low_bytes_def last_map drop_bit_eq_div)
  have "bit x (8 * (n - 1) + 7) \<longleftrightarrow> x < 0" using assms(3) by (intro s) auto
  moreover have "(of_int (drop_bit (8 * (n - 1)) x) :: u8) AND 0x80 \<noteq> 0 \<longleftrightarrow> bit x (8 * (n - 1) + 7)"
    using and_exp_eq_0_iff_not_bit [of "of_int (drop_bit (8 * (n - 1)) x) :: u8" 7]
    by (simp add: bit_word_of_int_iff bit_drop_bit_eq)
  ultimately have neg: "last (low_bytes n x) AND 0x80 \<noteq> 0 \<longleftrightarrow> x < 0" by (simp add: l)
  have ne: "low_bytes n x \<noteq> []" using assms(3) by (metis length_low_bytes list.size(3) less_irrefl)
  have w: "(if x < 0 then take_bit (8 * n) (of_int x) OR push_bit (8 * n) (- 1) else take_bit (8 * n) (of_int x)) = (of_int x :: u64)"
  proof (rule bit_word_eqI)
    fix i assume i: "i < LENGTH(64)"
    show "bit (if x < 0 then take_bit (8 * n) (of_int x) OR push_bit (8 * n) (- 1) else take_bit (8 * n) (of_int x) :: u64) i = bit (of_int x :: u64) i"
      using i s [of i] by (cases "i < 8 * n") (auto simp: bit_simps bit_word_of_int_iff)
  qed
  have "- (2 ^ 63) \<le> x \<and> x < 2 ^ 63"
  proof -
    have "(2::int) ^ (8 * n - 1) \<le> 2 ^ 63" using assms(4) by (intro power_increasing) auto
    then show ?thesis using assms(1,2) by linarith
  qed
  then have "sint (of_int x :: u64) = x" by (simp add: sint_sbintrunc' signed_take_bit_int_eq_self)
  moreover have "le_signed (low_bytes n x) = sint (of_int x :: u64)"
    unfolding le_signed_def by (simp only: le_word_low_bytes neg ne w length_low_bytes simp_thms not_False_eq_True if_True)
  ultimately show ?thesis by simp
qed

lemma le_word_length:
  assumes "0 \<le> x" "x < 2 ^ (8 * n)" "x < 2 ^ 63"
  shows "sint (le_word (low_bytes n x)) = x"
proof -
  have "take_bit (8 * n) (of_int x :: u64) = of_int (take_bit (8 * n) x)" by (simp add: take_bit_of_int)
  also have "take_bit (8 * n) x = x" using assms by (simp add: take_bit_int_eq_self_iff)
  finally show ?thesis using assms by (simp add: le_word_low_bytes sint_sbintrunc' signed_take_bit_int_eq_self)
qed

subsection \<open>The number of bytes\<close>

lemma count_unsigned_less: "v < 256 ^ count_unsigned v"
proof (induction v rule: count_unsigned.induct)
  case (1 v)
  show ?case
  proof (cases "v = 0")
    case False
    then have "v div 256 < 256 ^ count_unsigned (v div 256)" using 1 by simp
    then have "v < 256 * 256 ^ count_unsigned (v div 256)" by linarith
    then show ?thesis using False by (subst count_unsigned.simps) simp
  qed simp
qed

lemma count_unsigned_le: "v < 256 ^ k \<Longrightarrow> count_unsigned v \<le> k"
proof (induction k arbitrary: v)
  case (Suc k)
  then have "v div 256 < 256 ^ k" by (simp add: less_mult_imp_div_less mult.commute)
  then show ?case using Suc.IH [of "v div 256"] by (subst count_unsigned.simps) simp
qed (simp add: count_unsigned.simps)

lemma minBytesUnsigned_ok:
  assumes "0 \<le> v" "v < 2 ^ 63"
  shows "v < 2 ^ (8 * minBytesUnsigned v)" "0 < minBytesUnsigned v" "minBytesUnsigned v \<le> 8"
proof -
  have p: "(256::int) ^ k = 2 ^ (8 * k)" for k by (simp add: power_mult)
  have "int (nat v) < int (256 ^ count_unsigned (nat v))" using count_unsigned_less by (metis of_nat_less_iff)
  then show "v < 2 ^ (8 * minBytesUnsigned v)" using assms by (auto simp: minBytesUnsigned_def p)
  have "nat v < 256 ^ 8" using assms by (simp add: nat_less_iff)
  then show "minBytesUnsigned v \<le> 8" using count_unsigned_le by (simp add: minBytesUnsigned_def)
  show "0 < minBytesUnsigned v" using assms by (auto simp: minBytesUnsigned_def count_unsigned.simps [of "nat v"])
qed

lemma count_signed_range: "- (256 ^ Suc (count_signed v)) \<le> v \<and> v < 256 ^ Suc (count_signed v)"
proof (induction v rule: count_signed.induct)
  case (1 v)
  show ?case
  proof (cases "v div 256 = 0 \<or> v div 256 = - 1")
    case True
    then show ?thesis by (subst (1 2) count_signed.simps) auto
  next
    case False
    then have "- (256 ^ Suc (count_signed (v div 256))) \<le> v div 256 \<and> v div 256 < 256 ^ Suc (count_signed (v div 256))"
      using 1 by simp
    then show ?thesis using False by (subst (1 2) count_signed.simps) (simp add: Let_def, linarith)
  qed
qed

lemma count_signed_le: "- (256 ^ Suc k) \<le> v \<Longrightarrow> v < 256 ^ Suc k \<Longrightarrow> count_signed v \<le> k"
proof (induction k arbitrary: v)
  case 0
  then have "v div 256 = 0 \<or> v div 256 = - 1" by simp linarith
  then show ?case by (subst count_signed.simps) auto
next
  case (Suc k)
  then have "- (256 ^ Suc k) \<le> v div 256" "v div 256 < 256 ^ Suc k" by simp_all
  then show ?case using Suc.IH [of "v div 256"] by (subst count_signed.simps) (simp add: Let_def)
qed

lemma minBytesSigned_ok:
  assumes "- (2 ^ 63) \<le> v" "v < 2 ^ 63"
  shows "- (2 ^ (8 * minBytesSigned v - 1)) \<le> v \<and> v < 2 ^ (8 * minBytesSigned v - 1) \<and> 0 < minBytesSigned v \<and> minBytesSigned v \<le> 8"
proof -
  define n where "n = 1 + count_signed v"
  have p: "(256::int) ^ k = 2 ^ (8 * k)" for k by (simp add: power_mult)
  have r: "- (2 ^ (8 * n)) \<le> v" "v < 2 ^ (8 * n)" using count_signed_range [of v] by (simp_all only: n_def p Suc_eq_plus1_left)
  have le: "n \<le> 8" using count_signed_le [of 7 v] assms by (simp add: n_def)
  have q: "(2::int) ^ (8 * n) \<le> 2 ^ (8 * (n + 1) - 1)" "0 < (2::int) ^ (8 * n - 1)" by (simp_all add: power_increasing)
  have b: "- (2 ^ (8 * (n + 1) - 1)) \<le> v" "v < 2 ^ (8 * (n + 1) - 1)" using r q by linarith+
  have eight: "- (2 ^ (8 * n - 1)) \<le> v \<and> v < 2 ^ (8 * n - 1)" if "n = 8" using assms that by simp
  have fits: ?thesis if "minBytesSigned v = n" "- (2 ^ (8 * n - 1)) \<le> v" "v < 2 ^ (8 * n - 1)"
    unfolding that(1) using that(2,3) le by (simp add: n_def)
  have more: ?thesis if "minBytesSigned v = n + 1" "n \<noteq> 8"
    unfolding that(1) using b that(2) le by simp
  consider "v = 0" | "0 < v" | "v < 0" by linarith
  then show ?thesis
  proof cases
    case 1
    then show ?thesis by (simp add: minBytesSigned_def)
  next
    case 2
    then have d: "v div 2 ^ (8 * n - 1) = 0 \<longleftrightarrow> v < 2 ^ (8 * n - 1)"
      using q by (simp add: zdiv_eq_0_iff)
    then have m: "minBytesSigned v = (if v < 2 ^ (8 * n - 1) then n else n + 1)"
      using 2 by (simp add: minBytesSigned_def n_def Let_def)
    have "- (2 ^ (8 * n - 1)) \<le> v" using 2 q by linarith
    moreover have "n \<noteq> 8 \<or> v < 2 ^ (8 * n - 1)" using eight by blast
    ultimately show ?thesis
    proof (cases "v < 2 ^ (8 * n - 1)")
      case True
      then show ?thesis using fits m \<open>- (2 ^ (8 * n - 1)) \<le> v\<close> by simp
    next
      case False
      then have "minBytesSigned v = n + 1" "n \<noteq> 8" using m \<open>n \<noteq> 8 \<or> _\<close> by simp_all
      then show ?thesis by (rule more)
    qed
  next
    case 3
    have d: "v div 2 ^ m = - 1 \<longleftrightarrow> - (2 ^ m) \<le> v" for m
    proof
      assume "v div 2 ^ m = - 1"
      then have "v = 2 ^ m * - 1 + v mod 2 ^ m" using mult_div_mod_eq [of "2 ^ m" v] by simp
      moreover have "0 \<le> v mod 2 ^ m" by simp
      ultimately show "- (2 ^ m) \<le> v" by linarith
    next
      assume "- (2 ^ m) \<le> v"
      then have "0 \<le> v + 2 ^ m" by linarith
      with 3 show "v div 2 ^ m = - 1" by (intro int_div_pos_eq [of _ _ _ "v + 2 ^ m"]) auto
    qed
    then have m: "minBytesSigned v = (if - (2 ^ (8 * n - 1)) \<le> v then n else n + 1)"
      using 3 by (simp add: minBytesSigned_def n_def Let_def)
    have "v < 2 ^ (8 * n - 1)" using 3 q by linarith
    moreover have "n \<noteq> 8 \<or> - (2 ^ (8 * n - 1)) \<le> v" using eight by blast
    ultimately show ?thesis
    proof (cases "- (2 ^ (8 * n - 1)) \<le> v")
      case True
      then show ?thesis using fits m \<open>v < 2 ^ (8 * n - 1)\<close> by simp
    next
      case False
      then have "minBytesSigned v = n + 1" "n \<noteq> 8" using m \<open>n \<noteq> 8 \<or> _\<close> by simp_all
      then show ?thesis by (rule more)
    qed
  qed
qed

subsection \<open>Round trip\<close>

definition run_ok :: "run \<Rightarrow> bool" where
  "run_ok r \<longleftrightarrow> (rn_lcn r = - 1 \<or> 0 \<le> rn_lcn r \<and> rn_lcn r < 2 ^ 63) \<and> 0 \<le> rn_length r \<and> rn_length r < 2 ^ 63"

lemma run_header:
  assumes "l \<le> 8" "k \<le> 8" "0 < l"
  shows "unat (((of_nat (k * 16) :: u8) OR of_nat l) AND 0x0F) = l" "unat (drop_bit 4 ((of_nat (k * 16) :: u8) OR of_nat l)) = k"
    "(of_nat (k * 16) :: u8) OR of_nat l \<noteq> 0"
proof -
  have "l \<in> {1, 2, 3, 4, 5, 6, 7, 8}" "k \<in> {0, 1, 2, 3, 4, 5, 6, 7, 8}" using assms by auto
  then show "unat (((of_nat (k * 16) :: u8) OR of_nat l) AND 0x0F) = l" "unat (drop_bit 4 ((of_nat (k * 16) :: u8) OR of_nat l)) = k"
    "(of_nat (k * 16) :: u8) OR of_nat l \<noteq> 0"
    by (auto simp: drop_bit_eq_div)
qed

lemma decode_entry:
  assumes "lenBytes = length a" "offBytes = length b" "length a \<le> 8" "length b \<le> 8" "a \<noteq> []"
  shows "decode_runs p (((of_nat (offBytes * 16) :: u8) OR of_nat lenBytes) # a @ b @ rest) =
    (let lcn = wrap64 (p + le_signed b) in
     bindR (decode_runs (if b \<noteq> [] then lcn else p) rest) (\<lambda>rs.
       Inr (\<lparr>rn_lcn = (if b \<noteq> [] then lcn else - 1), rn_length = sint (le_word a)\<rparr> # rs)))"
proof -
  have "0 < length a" using assms(5) by simp
  note h = run_header [OF assms(3,4) this]
  show ?thesis unfolding assms(1,2) decode_runs.simps h Let_def
    using h(3) by (simp add: sub_def)
qed

lemma decode_encode_run:
  assumes "run_ok r" "0 \<le> p" "p < 2 ^ 63"
  shows "decode_runs p (encode_run p r @ rest) =
    bindR (decode_runs (if 0 \<le> rn_lcn r then rn_lcn r else p) rest) (\<lambda>rs. Inr (r # rs))"
proof -
  define l where "l = minBytesUnsigned (rn_length r)"
  have l: "rn_length r < 2 ^ (8 * l)" "0 < l" "l \<le> 8" "0 \<le> rn_length r" "rn_length r < 2 ^ 63"
    using minBytesUnsigned_ok [of "rn_length r"] assms(1) by (simp_all add: run_ok_def l_def)
  have ne: "low_bytes l (rn_length r) \<noteq> []" using l(2) by (metis length_low_bytes list.size(3) less_irrefl)
  have len: "sint (le_word (low_bytes l (rn_length r))) = rn_length r" using le_word_length l by blast
  show ?thesis
  proof (cases "0 \<le> rn_lcn r")
    case True
    define d where "d = rn_lcn r - p"
    have d: "- (2 ^ 63) \<le> d" "d < 2 ^ 63" using True assms by (simp_all add: run_ok_def d_def)
    define k where "k = minBytesSigned d"
    have k: "- (2 ^ (8 * k - 1)) \<le> d" "d < 2 ^ (8 * k - 1)" "0 < k" "k \<le> 8"
      using minBytesSigned_ok [OF d] by (simp_all add: k_def)
    have ne2: "low_bytes k d \<noteq> []" using k(3) by (metis length_low_bytes list.size(3) less_irrefl)
    have s: "le_signed (low_bytes k d) = d" using le_signed_low_bytes k by blast
    have w: "wrap64 (p + d) = rn_lcn r" "wrap64 (rn_lcn r - p) = d" using True assms(1) d by (simp_all add: d_def run_ok_def)
    have "encode_run p r = ((of_nat (k * 16) :: u8) OR of_nat l) # low_bytes l (rn_length r) @ low_bytes k d"
      using True by (simp add: encode_run_def Let_def w l_def k_def)
    then have "decode_runs p (encode_run p r @ rest) = (let lcn = wrap64 (p + le_signed (low_bytes k d)) in
     bindR (decode_runs (if low_bytes k d \<noteq> [] then lcn else p) rest) (\<lambda>rs.
       Inr (\<lparr>rn_lcn = (if low_bytes k d \<noteq> [] then lcn else - 1), rn_length = sint (le_word (low_bytes l (rn_length r)))\<rparr> # rs)))"
      using decode_entry [of l "low_bytes l (rn_length r)" k "low_bytes k d" p rest] l k ne by simp
    moreover have "\<lparr>rn_lcn = rn_lcn r, rn_length = rn_length r\<rparr> = r" by simp
    ultimately show ?thesis using True by (simp add: Let_def ne2 s w len)
  next
    case False
    then have m: "rn_lcn r = - 1" using assms(1) by (simp add: run_ok_def)
    have "encode_run p r = ((of_nat (0 * 16) :: u8) OR of_nat l) # low_bytes l (rn_length r) @ []"
      using False by (simp add: encode_run_def Let_def l_def low_bytes_def)
    moreover obtain k where "r = \<lparr>rn_lcn = - 1, rn_length = k\<rparr>" using m by (cases r) simp
    ultimately show ?thesis using decode_entry [of l "low_bytes l (rn_length r)" 0 "[]" p rest] l(3) ne len
      by (simp add: Let_def del: decode_runs.simps)
  qed
qed

lemma decode_encode_runs:
  "\<forall>r \<in> set rs. run_ok r \<Longrightarrow> 0 \<le> p \<Longrightarrow> p < 2 ^ 63 \<Longrightarrow> decode_runs p (encode_runs p rs @ rest) = Inr rs"
proof (induction rs arbitrary: p)
  case (Cons r rs)
  then have "0 \<le> (if 0 \<le> rn_lcn r then rn_lcn r else p)" "(if 0 \<le> rn_lcn r then rn_lcn r else p) < 2 ^ 63"
    by (auto simp: run_ok_def)
  then have "decode_runs (if 0 \<le> rn_lcn r then rn_lcn r else p) (encode_runs (if 0 \<le> rn_lcn r then rn_lcn r else p) rs @ rest) = Inr rs"
    using Cons by simp
  then show ?case using decode_encode_run [of r p] Cons.prems by simp
qed simp

lemma decode_encode_runlist: "\<forall>r \<in> set rs. run_ok r \<Longrightarrow> decodeRunlist (encodeRunlist rs @ rest) = Inr rs"
  by (simp add: decodeRunlist_def encodeRunlist_def decode_encode_runs)

section \<open>Update sequences\<close>

subsection \<open>Stamps\<close>

text \<open>Where the last two bytes of sector \<open>i\<close> (counted from 1) are.\<close>

definition sec_end :: "nat \<Rightarrow> nat" where
  "sec_end i = i * 512 - 2"

lemma sec_end_less: "1 \<le> i \<Longrightarrow> i < i' \<Longrightarrow> sec_end i + 2 \<le> sec_end i'"
  by (simp add: sec_end_def)

lemma sec_end_ge: "1 \<le> i \<Longrightarrow> 510 \<le> sec_end i"
  by (simp add: sec_end_def)

definition seq_byte :: "u16 \<Rightarrow> nat \<Rightarrow> u8" where
  "seq_byte sq j = (if j = 0 then ucast sq else ucast (drop_bit 8 sq))"

lemma length_stamp [simp]: "length (stamp a sq i buf) = length buf"
  by (simp add: stamp_def Let_def)

lemma length_unstamp [simp]: "length (unstamp a i buf) = length buf"
  by (simp add: unstamp_def Let_def)

lemma length_fold_stamp [simp]: "length (fold (stamp a sq) is buf) = length buf"
  by (induction "is" arbitrary: buf) simp_all

lemma length_fold_unstamp [simp]: "length (fold (unstamp a) is buf) = length buf"
  by (induction "is" arbitrary: buf) simp_all

definition sec_ok :: "nat \<Rightarrow> nat \<Rightarrow> bytes \<Rightarrow> bool" where
  "sec_ok a i buf \<longleftrightarrow> 1 \<le> i \<and> a + 2 * i + 2 \<le> 510 \<and> sec_end i + 2 \<le> length buf"

lemma nth_stamp:
  assumes "sec_ok a i buf" "p < length buf"
  shows "stamp a sq i buf ! p =
    (if p = a + 2 * i then buf ! sec_end i else if p = a + 2 * i + 1 then buf ! (sec_end i + 1)
     else if p = sec_end i then ucast sq else if p = sec_end i + 1 then ucast (drop_bit 8 sq) else buf ! p)"
  using assms sec_end_ge [of i] unfolding stamp_def Let_def sec_end_def [symmetric] sec_ok_def
  by (simp add: nth_list_update mult.commute)

lemma nth_unstamp:
  assumes "sec_ok a i buf" "p < length buf"
  shows "unstamp a i buf ! p =
    (if p = sec_end i then buf ! (a + 2 * i) else if p = sec_end i + 1 then buf ! (a + 2 * i + 1) else buf ! p)"
  using assms sec_end_ge [of i] unfolding unstamp_def Let_def sec_end_def [symmetric] sec_ok_def
  by (simp add: nth_list_update mult.commute)

text \<open>All stamps: the ends of the sectors go to the array, the sequence number to the ends.\<close>

lemma less_2: "j < 2 \<longleftrightarrow> j = 0 \<or> j = (1::nat)"
  by auto

lemma ends_apart:
  assumes "sec_ok a i buf" "sec_ok a k buf" "i \<noteq> k" "j < 2" "j' < 2"
  shows "sec_end i + j \<noteq> sec_end k + j'" "a + 2 * i + j \<noteq> a + 2 * k + j'" "a + 2 * i + j \<noteq> sec_end k + j'" "sec_end i + j \<noteq> a + 2 * k + j'"
proof -
  show "sec_end i + j \<noteq> sec_end k + j'"
    using sec_end_less [of i k] sec_end_less [of k i] assms by (cases "i < k") (auto simp: sec_ok_def)
  show "a + 2 * i + j \<noteq> a + 2 * k + j'" using assms by auto
  show "a + 2 * i + j \<noteq> sec_end k + j'" "sec_end i + j \<noteq> a + 2 * k + j'"
    using assms sec_end_ge [of k] sec_end_ge [of i] by (auto simp: sec_ok_def)
qed

lemma nth_stamps:
  assumes "distinct is" "\<forall>i \<in> set is. sec_ok a i buf"
  shows "(\<forall>i \<in> set is. \<forall>j < 2. fold (stamp a sq) is buf ! (a + 2 * i + j) = buf ! (sec_end i + j) \<and>
      fold (stamp a sq) is buf ! (sec_end i + j) = seq_byte sq j) \<and>
    (\<forall>p < length buf. (\<forall>i \<in> set is. \<forall>j < 2. p \<noteq> a + 2 * i + j \<and> p \<noteq> sec_end i + j) \<longrightarrow> fold (stamp a sq) is buf ! p = buf ! p)"
  using assms
proof (induction "is" rule: rev_induct)
  case (snoc m ms)
  let ?b = "fold (stamp a sq) ms buf"
  have m: "sec_ok a m buf" "sec_ok a m ?b" "m \<notin> set ms" "\<forall>i \<in> set ms. sec_ok a i buf" using snoc.prems by (auto simp: sec_ok_def)
  have IH: "\<And>i j. i \<in> set ms \<Longrightarrow> j < 2 \<Longrightarrow> ?b ! (a + 2 * i + j) = buf ! (sec_end i + j)"
      "\<And>i j. i \<in> set ms \<Longrightarrow> j < 2 \<Longrightarrow> ?b ! (sec_end i + j) = seq_byte sq j"
      "\<And>p. p < length buf \<Longrightarrow> \<forall>i \<in> set ms. \<forall>j < 2. p \<noteq> a + 2 * i + j \<and> p \<noteq> sec_end i + j \<Longrightarrow> ?b ! p = buf ! p"
    using snoc by auto
  have n: "stamp a sq m ?b ! p =
    (if p = a + 2 * m then ?b ! sec_end m else if p = a + 2 * m + 1 then ?b ! (sec_end m + 1)
     else if p = sec_end m then ucast sq else if p = sec_end m + 1 then ucast (drop_bit 8 sq) else ?b ! p)" if "p < length buf" for p
    using nth_stamp [OF m(2)] that by simp
  have lens: "sec_end i + j < length buf" "a + 2 * i + j < length buf" if "sec_ok a i buf" "j < 2" for i j
    using that sec_end_ge [of i] by (auto simp: sec_ok_def)
  have o: "?b ! (sec_end m + j) = buf ! (sec_end m + j)" if "j < 2" for j
  proof (rule IH(3))
    show "sec_end m + j < length buf" using lens m(1) that by blast
    show "\<forall>i \<in> set ms. \<forall>j' < 2. sec_end m + j \<noteq> a + 2 * i + j' \<and> sec_end m + j \<noteq> sec_end i + j'"
    proof (intro ballI allI impI)
      fix i j' :: nat assume i: "i \<in> set ms" "j' < 2"
      then have "sec_ok a i buf" "m \<noteq> i" using m by auto
      then show "sec_end m + j \<noteq> a + 2 * i + j' \<and> sec_end m + j \<noteq> sec_end i + j'"
        using ends_apart [OF m(1) _ _ that i(2)] by simp
    qed
  qed
  have "stamp a sq m ?b ! (a + 2 * i + j) = buf ! (sec_end i + j) \<and> stamp a sq m ?b ! (sec_end i + j) = seq_byte sq j"
    if i: "i \<in> set (ms @ [m])" "j < 2" for i j
  proof (cases "i = m")
    case True
    have "sec_end m \<noteq> a + 2 * m" "sec_end m \<noteq> a + 2 * m + 1" "sec_end m + 1 \<noteq> a + 2 * m" using m(1) sec_end_ge [of m] by (auto simp: sec_ok_def)
    have l: "sec_end m < length buf" "sec_end m + 1 < length buf" "a + 2 * m < length buf" "a + 2 * m + 1 < length buf"
      using lens [OF m(1), of 0] lens [OF m(1), of 1] by simp_all
    have o2: "?b ! sec_end m = buf ! sec_end m" "?b ! (sec_end m + 1) = buf ! (sec_end m + 1)" using o [of 0] o [of 1] by simp_all
    consider "j = 0" | "j = 1" using i(2) by linarith
    then show ?thesis using True \<open>sec_end m \<noteq> a + 2 * m\<close> \<open>sec_end m \<noteq> a + 2 * m + 1\<close> \<open>sec_end m + 1 \<noteq> a + 2 * m\<close> l o2
      by cases (simp_all add: n seq_byte_def)
  next
    case False
    then have i': "i \<in> set ms" "sec_ok a i buf" using i m by auto
    note e = ends_apart [OF i'(2) m(1) False i(2), of 0] ends_apart [OF i'(2) m(1) False i(2), of 1]
    show ?thesis using e IH(1,2) [OF i'(1) i(2)] lens [OF i'(2) i(2)] by (simp add: n)
  qed
  moreover have "stamp a sq m ?b ! p = buf ! p"
    if p: "p < length buf" "\<forall>i \<in> set (ms @ [m]). \<forall>j < 2. p \<noteq> a + 2 * i + j \<and> p \<noteq> sec_end i + j" for p
  proof -
    have "\<forall>j < 2. p \<noteq> a + 2 * m + j \<and> p \<noteq> sec_end m + j" using p(2) by simp
    then have "p \<noteq> a + 2 * m" "p \<noteq> a + 2 * m + 1" "p \<noteq> sec_end m" "p \<noteq> sec_end m + 1" unfolding less_2 by auto
    moreover have "?b ! p = buf ! p" using p by (intro IH(3)) auto
    ultimately show ?thesis using p by (simp add: n)
  qed
  ultimately show ?case by simp
qed simp

lemma nth_unstamps:
  assumes "distinct is" "\<forall>i \<in> set is. sec_ok a i buf"
  shows "(\<forall>i \<in> set is. \<forall>j < 2. fold (unstamp a) is buf ! (sec_end i + j) = buf ! (a + 2 * i + j)) \<and>
    (\<forall>p < length buf. (\<forall>i \<in> set is. \<forall>j < 2. p \<noteq> sec_end i + j) \<longrightarrow> fold (unstamp a) is buf ! p = buf ! p)"
  using assms
proof (induction "is" rule: rev_induct)
  case (snoc m ms)
  let ?b = "fold (unstamp a) ms buf"
  have m: "sec_ok a m buf" "sec_ok a m ?b" "m \<notin> set ms" "\<forall>i \<in> set ms. sec_ok a i buf" using snoc.prems by (auto simp: sec_ok_def)
  have IH: "\<And>i j. i \<in> set ms \<Longrightarrow> j < 2 \<Longrightarrow> ?b ! (sec_end i + j) = buf ! (a + 2 * i + j)"
      "\<And>p. p < length buf \<Longrightarrow> \<forall>i \<in> set ms. \<forall>j < 2. p \<noteq> sec_end i + j \<Longrightarrow> ?b ! p = buf ! p"
    using snoc by auto
  have n: "unstamp a m ?b ! p =
    (if p = sec_end m then ?b ! (a + 2 * m) else if p = sec_end m + 1 then ?b ! (a + 2 * m + 1) else ?b ! p)" if "p < length buf" for p
    using nth_unstamp [OF m(2)] that by simp
  have lens: "sec_end i + j < length buf" "a + 2 * i + j < length buf" if "sec_ok a i buf" "j < 2" for i j
    using that sec_end_ge [of i] by (auto simp: sec_ok_def)
  have o: "?b ! (a + 2 * m + j) = buf ! (a + 2 * m + j)" if "j < 2" for j
  proof (rule IH(2))
    show "a + 2 * m + j < length buf" using lens m(1) that by blast
    show "\<forall>i \<in> set ms. \<forall>j' < 2. a + 2 * m + j \<noteq> sec_end i + j'"
    proof (intro ballI allI impI)
      fix i j' :: nat assume i: "i \<in> set ms" "j' < 2"
      then have "sec_ok a i buf" "m \<noteq> i" using m by auto
      then show "a + 2 * m + j \<noteq> sec_end i + j'" using ends_apart [OF m(1) _ _ that i(2)] by simp
    qed
  qed
  have "unstamp a m ?b ! (sec_end i + j) = buf ! (a + 2 * i + j)" if i: "i \<in> set (ms @ [m])" "j < 2" for i j
  proof (cases "i = m")
    case True
    have l: "sec_end m < length buf" "sec_end m + 1 < length buf" using lens [OF m(1), of 0] lens [OF m(1), of 1] by simp_all
    have o2: "?b ! (a + 2 * m) = buf ! (a + 2 * m)" "?b ! (a + 2 * m + 1) = buf ! (a + 2 * m + 1)" using o [of 0] o [of 1] by simp_all
    consider "j = 0" | "j = 1" using i(2) by linarith
    then show ?thesis using True l o2 by cases (simp_all add: n)
  next
    case False
    then have i': "i \<in> set ms" "sec_ok a i buf" using i m by auto
    note e = ends_apart [OF i'(2) m(1) False i(2), of 0] ends_apart [OF i'(2) m(1) False i(2), of 1]
    show ?thesis using e IH(1) [OF i'(1) i(2)] lens [OF i'(2) i(2)] by (simp add: n)
  qed
  moreover have "unstamp a m ?b ! p = buf ! p"
    if p: "p < length buf" "\<forall>i \<in> set (ms @ [m]). \<forall>j < 2. p \<noteq> sec_end i + j" for p
  proof -
    have "\<forall>j < 2. p \<noteq> sec_end m + j" using p(2) by simp
    then have "p \<noteq> sec_end m" "p \<noteq> sec_end m + 1" unfolding less_2 by auto
    moreover have "?b ! p = buf ! p" using p by (intro IH(2)) auto
    ultimately show ?thesis using p by (simp add: n)
  qed
  ultimately show ?case by simp
qed simp

subsection \<open>Stamping and removing the stamps\<close>

text \<open>The array lies in the first sector, before its end, and has an element for each sector it names.\<close>

definition usa_off :: "bytes \<Rightarrow> nat" where "usa_off buf = unat (get16 buf 4)"
definition usa_cnt :: "bytes \<Rightarrow> nat" where "usa_cnt buf = unat (get16 buf 6)"

definition usa_ok :: "bytes \<Rightarrow> bool" where
  "usa_ok buf \<longleftrightarrow> 8 \<le> usa_off buf \<and> 1 \<le> usa_cnt buf \<and> usa_off buf + 2 * usa_cnt buf \<le> 510 \<and>
     usa_off buf + 2 * usa_cnt buf \<le> length buf \<and> (usa_cnt buf - 1) * 512 \<le> length buf"

definition in_usa :: "bytes \<Rightarrow> nat \<Rightarrow> bool" where
  "in_usa buf p \<longleftrightarrow> usa_off buf \<le> p \<and> p < usa_off buf + 2 * usa_cnt buf"

lemma usa_range_ok: "usa_ok buf \<Longrightarrow> usa_range buf = Some (usa_off buf, usa_cnt buf)"
  by (auto simp: usa_ok_def usa_range_def usa_off_def usa_cnt_def Let_def)

lemma usa_same:
  assumes "\<forall>p. 4 \<le> p \<longrightarrow> p < 8 \<longrightarrow> b ! p = buf ! p"
  shows "usa_off b = usa_off buf" "usa_cnt b = usa_cnt buf"
  using assms by (simp_all add: usa_off_def usa_cnt_def get16_def)

lemma usa_sec_ok:
  assumes "usa_ok buf" "length b = length buf" "i \<in> set [1..<usa_cnt buf]"
  shows "sec_ok (usa_off buf) i b"
proof -
  have "i * 512 \<le> (usa_cnt buf - 1) * 512" using assms(3) by (intro mult_le_mono1) auto
  then show ?thesis using assms by (auto simp: usa_ok_def sec_ok_def sec_end_def)
qed

lemma stamp_apply:
  assumes "usa_ok buf" "usa_cnt buf \<le> sectors + 1"
  obtains b sq where "stampUSA buf sectors = Inr b" "length b = length buf"
    "\<And>p. p < length buf \<Longrightarrow> \<not> in_usa buf p \<Longrightarrow> applyUSA b ! p = buf ! p"
    "\<And>p. p < 510 \<Longrightarrow> p < length buf \<Longrightarrow> \<not> in_usa buf p \<Longrightarrow> b ! p = buf ! p"
    "\<And>i j. 1 \<le> i \<Longrightarrow> i < usa_cnt buf \<Longrightarrow> j < 2 \<Longrightarrow> b ! (sec_end i + j) = seq_byte sq j"
proof -
  define a where "a = usa_off buf"
  define k where "k = usa_cnt buf"
  have ok: "8 \<le> a" "1 \<le> k" "a + 2 * k \<le> 510" "a + 2 * k \<le> length buf" using assms(1) by (simp_all add: usa_ok_def a_def k_def)
  define sq where "sq = (if get16 buf a + 1 = 0 then 1 else get16 buf a + 1)"
  define b0 where "b0 = put16 buf a sq"
  define b where "b = fold (stamp a sq) [1..<k] b0"
  have len: "length b0 = length buf" "length b = length buf" by (simp_all add: b0_def b_def)
  have st: "stampUSA buf sectors = Inr b"
    using ok assms(2) unfolding stampUSA_def usa_range_ok [OF assms(1)]
    by (simp add: at_inside Let_def b_def b0_def sq_def a_def [symmetric] k_def [symmetric] min_def)
  have s1: "\<forall>i \<in> set [1..<k]. sec_ok a i b0" "\<forall>i \<in> set [1..<k]. sec_ok a i b"
    using usa_sec_ok [OF assms(1)] len by (auto simp: a_def k_def)
  note N = nth_stamps [OF _ s1(1), of sq, folded b_def]
  have ge: "510 \<le> sec_end i" if "i \<in> set [1..<k]" for i using that sec_end_ge by simp
  have b0: "b0 ! p = buf ! p" if "p < length buf" "p < a \<or> a + 2 \<le> p" for p
    using that by (auto simp: b0_def put16_def nth_copy_into)
  have same: "b ! p = buf ! p" if "p < length buf" "p < a \<or> a + 2 * k \<le> p" "\<forall>i \<in> set [1..<k]. \<forall>j < 2. p \<noteq> sec_end i + j" for p
  proof -
    have "\<forall>i \<in> set [1..<k]. \<forall>j < 2. p \<noteq> a + 2 * i + j \<and> p \<noteq> sec_end i + j" using that(2,3) by auto
    then have "b ! p = b0 ! p" using N that(1) len by auto
    moreover have "p < a \<or> a + 2 \<le> p" using that(2) ok by linarith
    ultimately show ?thesis using b0 [OF that(1)] by simp
  qed
  have low: "b ! p = buf ! p" if "p < 510" "p < length buf" "p < a \<or> a + 2 * k \<le> p" for p
    using that ge by (intro same) force+
  have usa: "usa_off b = a" "usa_cnt b = k" using usa_same [of b buf] low ok by (simp_all add: a_def k_def)
  have "usa_ok b" using assms(1) len usa by (simp add: usa_ok_def a_def k_def)
  then have ap: "applyUSA b = fold (unstamp a) [1..<k] b" by (simp add: applyUSA_def usa_range_ok usa)
  note U = nth_unstamps [OF _ s1(2), folded ap]
  show thesis
  proof (rule that [of b sq])
    show "applyUSA b ! p = buf ! p" if p: "p < length buf" "\<not> in_usa buf p" for p
    proof (cases "\<exists>i \<in> set [1..<k]. \<exists>j < 2. p = sec_end i + j")
      case True
      then obtain i j where ij: "i \<in> set [1..<k]" "j < 2" "p = sec_end i + j" by blast
      have "applyUSA b ! p = b ! (a + 2 * i + j)" using U ij by simp
      also have "\<dots> = b0 ! (sec_end i + j)" using N ij by simp
      also have "\<dots> = buf ! p" using b0 [of p] p(1) ij(3) ge [OF ij(1)] ok by simp
      finally show ?thesis .
    next
      case False
      then have "applyUSA b ! p = b ! p" using U p(1) len by simp
      then show ?thesis using same False p by (auto simp: in_usa_def a_def k_def)
    qed
  qed (use st len low N in \<open>auto simp: in_usa_def a_def k_def\<close>)
qed

subsection \<open>Slots\<close>

text \<open>The byte of the image where record \<open>n\<close> starts, if no offset overflows.\<close>

definition rec_off :: "ntfsVolume \<Rightarrow> u64 \<Rightarrow> nat" where
  "rec_off v n = nat (nv_base v + nv_mftOff v + sint n * nv_recSize v)"

definition slot_ok :: "ntfsVolume \<Rightarrow> u64 \<Rightarrow> bool" where
  "slot_ok v n \<longleftrightarrow> 0 \<le> nv_base v \<and> 0 \<le> nv_mftOff v \<and> 0 < nv_recSize v \<and> 0 \<le> sint n \<and>
     nv_base v + nv_mftOff v + sint n * nv_recSize v < 2 ^ 63"

lemma slot_wrap:
  assumes "slot_ok v n"
  shows "wrap64 (nv_base v + wrap64 (nv_mftOff v + wrap64 (sint n * nv_recSize v))) = int (rec_off v n)"
proof -
  obtain x where x: "x = sint n * nv_recSize v" by simp
  have "0 \<le> x" "0 \<le> nv_base v" "0 \<le> nv_mftOff v" "nv_base v + nv_mftOff v + x < 2 ^ 63" using assms by (simp_all add: slot_ok_def x)
  then show ?thesis unfolding rec_off_def x [symmetric] by simp
qed

text \<open>What a record must be for the slot to give it back.\<close>

definition rec_ok :: "ntfsVolume \<Rightarrow> bytes \<Rightarrow> bool" where
  "rec_ok v rec \<longleftrightarrow> int (length rec) \<le> nv_recSize v \<and> 8 \<le> length rec \<and> take 4 rec = bs ''FILE'' \<and>
     usa_ok (rec @ zeros (nat (nv_recSize v) - length rec)) \<and> int (usa_cnt rec) \<le> nv_recSize v div 512 + 1"

definition padded :: "ntfsVolume \<Rightarrow> bytes \<Rightarrow> bytes" where
  "padded v rec = rec @ zeros (nat (nv_recSize v) - length rec)"

definition same_outside :: "bytes \<Rightarrow> bytes \<Rightarrow> bool" where
  "same_outside b rec \<longleftrightarrow> length b = length rec \<and> (\<forall>p < length rec. \<not> in_usa rec p \<longrightarrow> b ! p = rec ! p)"

lemma usa_append: "8 \<le> length rec \<Longrightarrow> usa_off (rec @ z) = usa_off rec" "8 \<le> length rec \<Longrightarrow> usa_cnt (rec @ z) = usa_cnt rec"
  by (simp_all add: usa_off_def usa_cnt_def get16_def nth_append)

lemma putRecord_slot:
  assumes "slot_ok v n" "rec_ok v rec" "\<not> closed f"
  obtains b rec' where
    "putRecord n rec (f, v) = (Inr (), (f\<lparr>contents := write_bytes (contents f) (rec_off v n) b\<rparr>, (cache_record n rec v)\<lparr>nv_dirty := True\<rparr>))"
    "length b = nat (nv_recSize v)" "take 4 b = bs ''FILE''" "applyUSA b = rec'" "same_outside rec' (padded v rec)"
proof -
  define p where "p = padded v rec"
  have r: "int (length rec) \<le> nv_recSize v" "8 \<le> length rec" "take 4 rec = bs ''FILE''" "usa_ok p" "int (usa_cnt rec) \<le> nv_recSize v div 512 + 1"
    using assms(2) by (simp_all add: rec_ok_def p_def padded_def)
  have len: "length p = nat (nv_recSize v)" using r(1) by (simp add: p_def padded_def)
  have "usa_cnt p = usa_cnt rec" using r(2) by (simp add: p_def padded_def usa_append)
  moreover have q: "quot (nv_recSize v) 512 = nv_recSize v div 512" using assms(1) by (simp add: slot_ok_def)
  ultimately have "usa_cnt p \<le> nat (quot (nv_recSize v) 512) + 1" using r(5) by linarith
  from stamp_apply [OF r(4) this] obtain b sq where b: "stampUSA p (nat (quot (nv_recSize v) 512)) = Inr b" "length b = length p"
    "\<And>i. i < length p \<Longrightarrow> \<not> in_usa p i \<Longrightarrow> applyUSA b ! i = p ! i" "\<And>i. i < 510 \<Longrightarrow> i < length p \<Longrightarrow> \<not> in_usa p i \<Longrightarrow> b ! i = p ! i"
    by metis
  have off: "wrap64 (nv_base v + wrap64 (nv_mftOff v + wrap64 (sint n * nv_recSize v))) = int (rec_off v n)" by (rule slot_wrap [OF assms(1)])
  have la: "length (applyUSA b) = length b" by (simp add: applyUSA_def split: option.split)
  show thesis
  proof (rule that [of b "applyUSA b"])
    show "putRecord n rec (f, v) = (Inr (), (f\<lparr>contents := write_bytes (contents f) (rec_off v n) b\<rparr>, (cache_record n rec v)\<lparr>nv_dirty := True\<rparr>))"
      using r(1) b(1) off assms(3) unfolding p_def padded_def
      by (simp add: putRecord_def readV_def modV_def bindS_def readS_def modS_def wrapS_def partWrite_def WriteAt_open)
    show "length b = nat (nv_recSize v)" using b(2) len by simp
    have "take 4 b = take 4 p"
    proof (rule nth_equalityI)
      fix i assume i: "i < length (take 4 b)"
      have "\<not> in_usa p i" using i r(4) by (auto simp: in_usa_def usa_ok_def)
      then show "take 4 b ! i = take 4 p ! i" using i b(2,4) by simp
    qed (use b(2) in simp)
    then show "take 4 b = bs ''FILE''" using r(2,3) by (simp add: p_def padded_def)
    show "same_outside (applyUSA b) (padded v rec)" using b la by (simp add: same_outside_def p_def)
  qed simp
qed

lemma readRawRecord_slot:
  assumes "slot_ok v n" "\<not> closed f" "sub (contents f) (rec_off v n) (nat (nv_recSize v)) = b" "length b = nat (nv_recSize v)" "take 4 b = bs ''FILE''"
  shows "readRawRecord f v n = Inr (applyUSA b)"
proof -
  have pos: "0 < nat (nv_recSize v)" "0 \<le> nv_recSize v" using assms(1) by (simp_all add: slot_ok_def)
  have "rec_off v n + nat (nv_recSize v) \<le> length (contents f)" using assms(3,4) pos by (auto simp: min_def split: if_splits)
  moreover have "length (take 4 b) = 4" using assms(5) by simp
  moreover have "bs ''FILE'' \<noteq> bs ''BAAD''" by simp
  ultimately show ?thesis using assms pos slot_wrap [OF assms(1)]
    by (simp add: readRawRecord_def Let_def make_bytes_def partRead_def ReadAt_inside del: bs_simps)
qed

end
