(* ===== verification/NtfsAttrs.thy ===== *)
theory NtfsAttrs
  imports NtfsCodec
begin

text \<open>
  An MFT record as a header and a list of attributes: searching, removing and appending attributes
  act on the list.  The attributes that the append
  functions make are well-formed, of the type asked for, and have the value that was given.
\<close>

unbundle bit_operations_syntax

section \<open>Records as lists of attributes\<close>

subsection \<open>Writes into one part of a buffer\<close>

lemma copy_into_right: "length h \<le> i \<Longrightarrow> copy_into (h @ t) i d = h @ copy_into t (i - length h) d"
  by (simp add: copy_into_def add.commute)

lemma copy_into_left: "i + length d \<le> length h \<Longrightarrow> copy_into (h @ t) i d = copy_into h i d @ t"
  by (simp add: copy_into_def)

lemma puts_right:
  "length h = n \<Longrightarrow> puts (map (\<lambda>(i, d). (n + i, d)) ps) (h @ t) = h @ puts ps t"
  by (induction ps arbitrary: t) (auto simp: copy_into_right)

lemma puts_left: "\<forall>(i, d) \<in> set ps. i + length d \<le> length h \<Longrightarrow> puts ps (h @ t) = puts ps h @ t"
  by (induction ps arbitrary: h) (auto simp: copy_into_left)

lemma puts_append: "puts (ps @ qs) b = puts qs (puts ps b)"
  by (simp add: puts_def)

lemma puts_at_right:
  assumes "length h = n" "\<forall>(i, d) \<in> set ps. i + length d \<le> length t"
  shows "puts_at (map (\<lambda>(i, d). (n + i, d)) ps) (h @ t) = Inr (h @ puts ps t)"
  using assms by (subst puts_at_ok) (auto simp: puts_right)

lemma puts_at_append: "puts_at (ps @ qs) b = bindR (puts_at ps b) (puts_at qs)"
proof (induction ps arbitrary: b)
  case (Cons p ps)
  obtain i d where "p = (i, d)" by fastforce
  then show ?case using Cons by (cases "put_in i d b") simp_all
qed simp

subsection \<open>Records as lists of attributes\<close>

definition a_type :: "bytes \<Rightarrow> u32" where "a_type a = get32 a 0"
definition a_nlen :: "bytes \<Rightarrow> nat" where "a_nlen a = unat (a ! 9)"
definition a_noff :: "bytes \<Rightarrow> nat" where "a_noff a = unat (get16 a 10)"

definition a_name :: "bytes \<Rightarrow> gostr option" where
  "a_name a = (if 0 < a_nlen a then Some (utf16_str (sub a (a_noff a) (a_nlen a * 2))) else None)"

definition wf_attr :: "bytes \<Rightarrow> bool" where
  "wf_attr a \<longleftrightarrow> 24 \<le> length a \<and> length a < 2 ^ 32 \<and> unat (get32 a 4) = length a \<and> a_type a \<noteq> attrEND \<and>
     (a_nlen a = 0 \<or> a_noff a + a_nlen a * 2 \<le> length a)"

definition hit :: "u32 \<Rightarrow> gostr \<Rightarrow> bytes \<Rightarrow> bool" where
  "hit ty nm a \<longleftrightarrow> a_type a = ty \<and> (nm = [] \<or> a_name a = Some nm)"

definition attrs_at :: "bytes \<Rightarrow> nat \<Rightarrow> bytes list \<Rightarrow> bool" where
  "attrs_at rec off as \<longleftrightarrow> (\<exists>k \<ge> 4. drop off rec = concat as @ le32 attrEND @ zeros k) \<and> list_all wf_attr as"

definition first_attr :: "bytes \<Rightarrow> nat" where "first_attr rec = unat (get16 rec 0x14)"

definition rec_attrs :: "bytes \<Rightarrow> bytes list \<Rightarrow> bool" where
  "rec_attrs rec as \<longleftrightarrow> 0x30 \<le> first_attr rec \<and> attrs_at rec (first_attr rec) as"

fun locate :: "(bytes \<Rightarrow> bool) \<Rightarrow> nat \<Rightarrow> bytes list \<Rightarrow> (nat \<times> nat) option" where
  "locate P off [] = None"
| "locate P off (a # as) = (if P a then Some (off, length a) else locate P (off + length a) as)"

lemma attrs_at_len: "attrs_at rec off as \<Longrightarrow> off + length (concat as) + 8 \<le> length rec"
proof -
  assume "attrs_at rec off as"
  then obtain k where "4 \<le> k" "drop off rec = concat as @ le32 attrEND @ zeros k" by (auto simp: attrs_at_def)
  then have "length (drop off rec) = length (concat as) + 4 + k" "4 \<le> k" by simp_all
  then show ?thesis by simp
qed

lemma attrs_at_Cons: "attrs_at rec off (a # as) \<Longrightarrow> wf_attr a \<and> attrs_at rec (off + length a) as \<and> sub rec off (length a) = a"
proof -
  assume r: "attrs_at rec off (a # as)"
  then obtain k where k: "4 \<le> k" "drop off rec = a @ concat as @ le32 attrEND @ zeros k" "wf_attr a" "list_all wf_attr as"
    by (auto simp: attrs_at_def)
  then have "drop (off + length a) rec = concat as @ le32 attrEND @ zeros k"
    by (metis add.commute append_eq_conv_conj drop_drop)
  then show ?thesis using k by (auto simp: attrs_at_def sub_def)
qed

lemma attr_search_step:
  assumes "drop off rec = a @ y" "wf_attr a"
  shows "attr_search rec ty nm off =
    (if hit ty nm a then Inr (Some (off, length a)) else attr_search rec ty nm (off + length a))"
proof -
  have la: "24 \<le> length a" using assms(2) by (simp add: wf_attr_def)
  have len: "off + length a \<le> length rec"
  proof -
    have "length (drop off rec) = length a + length y" by (simp add: assms(1))
    then show ?thesis using la by simp
  qed
  have sa: "sub rec off (length a) = a" by (simp add: sub_def assms(1))
  have g: "get32 rec off = a_type a" "get32 rec (off + 4) = get32 a 4" "get16 rec (off + 10) = get16 a 10" "rec ! (off + 9) = a ! 9"
    using c32.get_sub [of 0 "length a" off rec] c32.get_sub [of 4 "length a" off rec] c16.get_sub [of 10 "length a" off rec]
      nth_sub [of 9 "length a" off rec] sa la len by (simp_all add: a_type_def)
  have nm: "attr_name rec off = Inr (a_name a)"
  proof -
    have "sub rec (off + a_noff a) (a_nlen a * 2) = sub a (a_noff a) (a_nlen a * 2)" if "a_noff a + a_nlen a * 2 \<le> length a"
      using that sub_sub [of "a_noff a" "a_nlen a * 2" "length a" rec off] by (simp add: sa)
    then show ?thesis using assms(2) la len g by (auto simp: attr_name_def at_inside a_name_def a_nlen_def a_noff_def wf_attr_def)
  qed
  show ?thesis using assms(2) len g nm la
    by (subst attr_search.simps) (auto simp: Let_def hit_def wf_attr_def)
qed

lemma attr_search_attrs: "attrs_at rec off as \<Longrightarrow> attr_search rec ty nm off = Inr (locate (hit ty nm) off as)"
proof (induction as arbitrary: off)
  case Nil
  then obtain k where k: "4 \<le> k" "drop off rec = le32 attrEND @ zeros k" by (auto simp: attrs_at_def)
  have "off + 8 \<le> length rec" using attrs_at_len [OF Nil] by simp
  moreover have "get32 rec off = attrEND" by (rule sub_get32) (simp add: sub_def k)
  ultimately show ?case by (subst attr_search.simps) simp
next
  case (Cons a as)
  obtain y where "drop off rec = a @ y" using Cons.prems by (auto simp: attrs_at_def)
  then show ?case using attr_search_step attrs_at_Cons [OF Cons.prems] Cons.IH by simp
qed

subsection \<open>Finding\<close>

lemma rec_attrs_len: "rec_attrs rec as \<Longrightarrow> first_attr rec + length (concat as) + 8 \<le> length rec \<and> 0x38 \<le> length rec \<and> 0x30 \<le> first_attr rec"
  using attrs_at_len by (fastforce simp: rec_attrs_def)

lemma attr_find_attrs: "rec_attrs rec as \<Longrightarrow> attr_find rec ty nm = Inr (locate (hit ty nm) (first_attr rec) as)"
  using rec_attrs_len [of rec as] attr_search_attrs by (simp add: attr_find_def rec_attrs_def first_attr_def)

lemma locate_None: "locate P off as = None \<longleftrightarrow> (\<forall>a \<in> set as. \<not> P a)"
  by (induction as arbitrary: off) auto

lemma locate_first: "\<forall>x \<in> set xs. \<not> P x \<Longrightarrow> P a \<Longrightarrow> locate P off (xs @ a # ys) = Some (off + length (concat xs), length a)"
  by (induction xs arbitrary: off) (auto simp: add.assoc)

lemma attrs_at_app: "attrs_at rec off (xs @ ys) \<Longrightarrow> attrs_at rec (off + length (concat xs)) ys"
proof (induction xs arbitrary: off)
  case (Cons x xs)
  then have "attrs_at rec (off + length x + length (concat xs)) ys" using attrs_at_Cons [of rec off x "xs @ ys"] by simp
  then show ?case by (simp add: add.assoc)
qed simp

lemma findAttrOffset_none: "rec_attrs rec as \<Longrightarrow> \<forall>a \<in> set as. \<not> hit ty nm a \<Longrightarrow> findAttrOffset rec ty nm = Inr None"
  by (simp add: findAttrOffset_def attr_find_attrs locate_None [THEN iffD2])

lemma findAttr_none: "rec_attrs rec as \<Longrightarrow> \<forall>a \<in> set as. \<not> hit ty nm a \<Longrightarrow> findAttr rec ty nm = Inr None"
  by (simp add: findAttr_def attr_find_attrs locate_None [THEN iffD2])

lemma findAttrOffset_first:
  "rec_attrs rec (xs @ a # ys) \<Longrightarrow> \<forall>x \<in> set xs. \<not> hit ty nm x \<Longrightarrow> hit ty nm a \<Longrightarrow>
   findAttrOffset rec ty nm = Inr (Some (first_attr rec + length (concat xs)))"
  by (simp add: findAttrOffset_def attr_find_attrs locate_first)

lemma sub_attr: "rec_attrs rec (xs @ a # ys) \<Longrightarrow> sub rec (first_attr rec + length (concat xs)) (length a) = a"
  unfolding rec_attrs_def by (blast dest: attrs_at_app attrs_at_Cons)

lemma findAttr_first:
  "rec_attrs rec (xs @ a # ys) \<Longrightarrow> \<forall>x \<in> set xs. \<not> hit ty nm x \<Longrightarrow> hit ty nm a \<Longrightarrow> findAttr rec ty nm = Inr (Some a)"
  using sub_attr [of rec xs a ys] by (simp add: findAttr_def attr_find_attrs locate_first)

text \<open>With \<open>find\<close> over the list, for every list.\<close>

lemma findAttr_find: "rec_attrs rec as \<Longrightarrow> findAttr rec ty nm = Inr (find (hit ty nm) as)"
proof (cases "find (hit ty nm) as")
  case None
  assume "rec_attrs rec as"
  moreover have "\<forall>a \<in> set as. \<not> hit ty nm a" using None by (simp add: find_None_iff)
  ultimately show ?thesis using findAttr_none None by simp
next
  case (Some a)
  assume r: "rec_attrs rec as"
  obtain i where i: "i < length as" "hit ty nm (as ! i)" "a = as ! i" "\<forall>j < i. \<not> hit ty nm (as ! j)"
    using Some by (auto simp: find_Some_iff)
  have "as = take i as @ a # drop (Suc i) as" using i id_take_nth_drop by metis
  moreover have "\<forall>x \<in> set (take i as). \<not> hit ty nm x" using i(4) by (auto simp: in_set_conv_nth)
  ultimately show ?thesis using findAttr_first i r Some by metis
qed

subsection \<open>Removing\<close>

text \<open>The header of a record but for the used size.\<close>

definition same_header :: "bytes \<Rightarrow> bytes \<Rightarrow> bool" where
  "same_header rec' rec \<longleftrightarrow> first_attr rec' = first_attr rec \<and>
     (\<forall>p < first_attr rec. (p < 0x18 \<or> 0x1C \<le> p) \<and> \<not> (0x28 \<le> p \<and> p < 0x2A) \<longrightarrow> rec' ! p = rec ! p)"

lemma same_header_refl [simp]: "same_header rec rec"
  by (simp add: same_header_def)

lemma same_header_trans: "same_header r1 r2 \<Longrightarrow> same_header r2 r3 \<Longrightarrow> same_header r1 r3"
  by (auto simp: same_header_def)

lemma rec_attrs_split: "rec_attrs rec as \<Longrightarrow> \<exists>h k. rec = h @ concat as @ le32 attrEND @ zeros k \<and> length h = first_attr rec \<and> 4 \<le> k"
proof -
  assume r: "rec_attrs rec as"
  then obtain k where "4 \<le> k" "drop (first_attr rec) rec = concat as @ le32 attrEND @ zeros k" by (auto simp: rec_attrs_def attrs_at_def)
  moreover have "length (take (first_attr rec) rec) = first_attr rec" using rec_attrs_len [OF r] by simp
  ultimately show ?thesis by (metis append_take_drop_id)
qed

lemma first_attr_app: "0x16 \<le> length h \<Longrightarrow> first_attr (h @ t) = first_attr h"
  by (simp add: first_attr_def get16_def nth_append)

lemma removeAttr_first:
  assumes "rec_attrs rec (xs @ a # ys)" "\<forall>x \<in> set xs. \<not> hit ty nm x" "hit ty nm a"
  obtains rec' where "removeAttr rec ty nm = Inr rec'" "rec_attrs rec' (xs @ ys)" "same_header rec' rec"
    "length rec' = length rec - length a" "get32 rec' 0x18 = get32 rec 0x18 - of_nat (length a)" "get16 rec' 0x28 = get16 rec 0x28"
proof -
  obtain h k where r: "rec = h @ concat (xs @ a # ys) @ le32 attrEND @ zeros k" "length h = first_attr rec" "4 \<le> k"
    using rec_attrs_split [OF assms(1)] by blast
  have h30: "0x30 \<le> length h" using r(2) assms(1) by (simp add: rec_attrs_def)
  have w: "wf_attr a" "list_all wf_attr (xs @ ys)" using assms(1) by (auto simp: rec_attrs_def attrs_at_def)
  define off where "off = first_attr rec + length (concat xs)"
  have wa: "unat (get32 a 4) = length a" "24 \<le> length a" using w(1) by (simp_all add: wf_attr_def)
  have "get32 (sub rec off (length a)) 4 = get32 rec (off + 4)"
    using rec_attrs_len [OF assms(1)] wa by (intro c32.get_sub) (auto simp: off_def)
  then have g: "get32 rec (off + 4) = get32 a 4" using sub_attr [OF assms(1)] by (simp add: off_def)
  define out where "out = take off rec @ drop (off + length a) rec"
  have lo: "off = length (h @ concat xs)" by (simp add: off_def r(2))
  have out: "out = h @ concat (xs @ ys) @ le32 attrEND @ zeros k"
  proof -
    have s: "rec = (h @ concat xs) @ a @ concat ys @ le32 attrEND @ zeros k" by (subst r(1)) simp
    have "take off rec = h @ concat xs" unfolding lo by (subst s) simp
    moreover have "drop (off + length a) rec = concat ys @ le32 attrEND @ zeros k" unfolding lo by (subst s) simp
    ultimately show ?thesis by (simp add: out_def)
  qed
  define rec' where "rec' = put32 out 0x18 (get32 out 0x18 - get32 a 4)"
  have len: "0x30 \<le> length out" using h30 by (simp add: out)
  have rem: "removeAttr rec ty nm = Inr rec'"
    unfolding removeAttr_def findAttrOffset_first [OF assms] off_def [symmetric] using len unfolding rec'_def put32_def out_def
    by (simp add: g wa(1) at_inside Let_def put_in_def)
  have rec': "rec' = put32 h 0x18 (get32 out 0x18 - get32 a 4) @ concat (xs @ ys) @ le32 attrEND @ zeros k"
    using h30 by (simp add: rec'_def out put32_def copy_into_left)
  have f: "first_attr rec' = first_attr rec"
  proof -
    have "first_attr rec' = first_attr (put32 h 0x18 (get32 out 0x18 - get32 a 4))" unfolding rec' using h30 by (intro first_attr_app) simp
    also have "\<dots> = first_attr h" using h30 by (simp add: first_attr_def get16_other)
    also have "\<dots> = first_attr (h @ concat (xs @ a # ys) @ le32 attrEND @ zeros k)" using h30 by (intro first_attr_app [symmetric]) simp
    also have "\<dots> = first_attr rec" by (simp only: r(1) [symmetric])
    finally show ?thesis .
  qed
  show thesis
  proof (rule that [OF rem])
    have "drop (first_attr rec) rec' = concat (xs @ ys) @ le32 attrEND @ zeros k" unfolding rec' by (simp add: r(2) [symmetric])
    then show "rec_attrs rec' (xs @ ys)"
      using h30 r(2,3) w by (auto simp: rec_attrs_def attrs_at_def f)
    have "rec' ! p = rec ! p" if "p < length h" "p < 0x18 \<or> 0x1C \<le> p" for p
    proof -
      have "rec' ! p = put32 h 0x18 (get32 out 0x18 - get32 a 4) ! p" using that by (simp add: rec' nth_append)
      also have "\<dots> = h ! p" using that h30 by (simp add: nth_put_other)
      also have "\<dots> = rec ! p" using that by (subst r(1)) (simp add: nth_append)
      finally show ?thesis .
    qed
    then show "same_header rec' rec" using f r(2) by (simp add: same_header_def)
    show "length rec' = length rec - length a"
      using arg_cong [OF r(1), of length] by (simp add: rec')
    have o18: "get32 out 0x18 = get32 rec 0x18" "get16 out 0x28 = get16 rec 0x28"
      unfolding out using h30 arg_cong [OF r(1), of "\<lambda>x. get32 x 0x18"] arg_cong [OF r(1), of "\<lambda>x. get16 x 0x28"]
      by (simp_all add: get32_def get16_def nth_append)
    show "get32 rec' 0x18 = get32 rec 0x18 - of_nat (length a)"
      using len o18 arg_cong [OF wa(1), of "of_nat :: nat \<Rightarrow> u32"] by (simp add: rec'_def)
    show "get16 rec' 0x28 = get16 rec 0x28" using len o18 by (simp add: rec'_def get16_other)
  qed
qed

lemma removeAttr_none: "rec_attrs rec as \<Longrightarrow> \<forall>a \<in> set as. \<not> hit ty nm a \<Longrightarrow> removeAttr rec ty nm = Inr rec"
  by (simp add: removeAttr_def findAttrOffset_none)

subsection \<open>Appending\<close>

lemma nextAttrOffset_attrs: "attrs_at rec off as \<Longrightarrow> nextAttrOffset rec off = off + length (concat as)"
proof (induction as arbitrary: off)
  case Nil
  then obtain k where k: "drop off rec = le32 attrEND @ zeros k" by (auto simp: attrs_at_def)
  have "off + 8 \<le> length rec" using attrs_at_len [OF Nil] by simp
  moreover have "get32 rec off = attrEND" by (rule sub_get32) (simp add: sub_def k)
  ultimately show ?case by (subst nextAttrOffset.simps) simp
next
  case (Cons a as)
  have a: "wf_attr a" "attrs_at rec (off + length a) as" "sub rec off (length a) = a" using attrs_at_Cons [OF Cons.prems] by simp_all
  have len: "off + length a + 8 \<le> length rec" "24 \<le> length a" using attrs_at_len [OF Cons.prems] a(1) by (simp_all add: wf_attr_def)
  have "get32 rec off = a_type a" "get32 rec (off + 4) = get32 a 4"
    using c32.get_sub [of 0 "length a" off rec] c32.get_sub [of 4 "length a" off rec] a(3) len by (simp_all add: a_type_def)
  then have "nextAttrOffset rec off = nextAttrOffset rec (off + length a)"
    using len a(1) by (subst nextAttrOffset.simps) (auto simp: wf_attr_def)
  then show ?case using Cons.IH [OF a(2)] by (simp add: add.assoc)
qed

lemma attrs_end_attrs: "rec_attrs rec as \<Longrightarrow> attrs_end rec = Inr (first_attr rec + length (concat as))"
  using rec_attrs_len [of rec as] nextAttrOffset_attrs by (simp add: attrs_end_def at_inside rec_attrs_def first_attr_def)

text \<open>The attribute that an append function makes from its fields and the next number.\<close>

definition new_attr :: "nat \<Rightarrow> (nat \<times> bytes) list \<Rightarrow> u16 \<Rightarrow> (nat \<times> bytes) list \<Rightarrow> bytes" where
  "new_attr attrLen header i body = puts (header @ (0x0E, le16 i) # body) (zeros attrLen)"

lemma length_new_attr [simp]: "length (new_attr n hs i bo) = n"
  by (simp add: new_attr_def)

lemma append_at_ok:
  assumes "rec_attrs rec as" "header = (0, le32 ty) # hs" "16 \<le> attrLen"
    and "\<forall>(i, d) \<in> set (header @ body). i + length d \<le> attrLen"
    and "wf_attr (new_attr attrLen header (get16 rec 0x28) body)"
  defines "off \<equiv> first_attr rec + length (concat as)"
  obtains rec' where "append_at rec off attrLen header body = Inr rec'"
    "rec_attrs rec' (as @ [new_attr attrLen header (get16 rec 0x28) body])" "same_header rec' rec"
    "length rec' = max (length rec) (off + attrLen + 8)" "get32 rec' 0x18 = of_nat (off + attrLen + 8)"
proof -
  obtain h0 k where r: "rec = h0 @ concat as @ le32 attrEND @ zeros k" "length h0 = first_attr rec" "4 \<le> k"
    using rec_attrs_split [OF assms(1)] by blast
  define h where "h = h0 @ concat as"
  have hl: "length h = off" by (simp add: h_def off_def r(2))
  have h30: "0x30 \<le> length h0" using r(2) assms(1) by (simp add: rec_attrs_def)
  have lr: "length rec = off + 4 + k" by (subst r(1)) (simp add: off_def r(2))
  define m where "m = max (length rec) (off + attrLen + 8) - off - 4"
  define rec1 where "rec1 = rec @ zeros (off + attrLen + 8 - length rec)"
  have rec1: "rec1 = h @ le32 attrEND @ zeros m"
  proof -
    have "zeros k @ zeros (off + attrLen + 8 - length rec) = zeros m"
      by (simp add: zeros_def replicate_add [symmetric] m_def lr)
    then show ?thesis unfolding rec1_def by (subst r(1)) (simp add: h_def)
  qed
  have m: "attrLen + 4 \<le> m" "attrLen \<le> 4 + m" by (auto simp: m_def)
  define X where "X = le32 attrEND @ zeros (attrLen - 4)"
  have split: "le32 attrEND @ zeros m = X @ zeros (m + 4 - attrLen)"
    using m assms(3) by (simp add: X_def zeros_def replicate_add [symmetric])
  have X: "puts header X = puts header (zeros attrLen)" "length X = attrLen"
  proof -
    have "copy_into X 0 (le32 ty) = copy_into (zeros attrLen) 0 (le32 ty)"
      using assms(3) by (simp add: X_def copy_into_def zeros_def)
    then show "puts header X = puts header (zeros attrLen)" by (simp add: assms(2))
  qed (use assms(3) in \<open>simp add: X_def\<close>)
  define Y where "Y = puts header (zeros attrLen)"
  define i where "i = get16 rec 0x28"
  define Z where "Z = zeros (m + 4 - attrLen)"
  have lZ: "length Z = m + 4 - attrLen" "8 \<le> length Z" using m by (simp_all add: Z_def)
  have hd_in: "\<forall>(j, d) \<in> set header. j + length d \<le> length X" "\<forall>(j, d) \<in> set body. j + length d \<le> attrLen" using assms(4) X(2) by auto
  have s1: "puts_at (map (\<lambda>(j, d). (off + j, d)) header) rec1 = Inr (h @ Y @ Z)"
  proof -
    have "puts_at (map (\<lambda>(j, d). (off + j, d)) header) (h @ (X @ Z)) = Inr (h @ puts header (X @ Z))"
      using hd_in(1) by (intro puts_at_right [OF hl]) force
    also have "puts header (X @ Z) = Y @ Z" using hd_in(1) X by (simp add: puts_left Y_def)
    finally show ?thesis by (simp add: rec1 split Z_def)
  qed
  have gi: "get16 (h @ Y @ Z) 0x28 = i"
  proof -
    have "get16 (h @ Y @ Z) 0x28 = get16 h0 0x28" using h30 by (simp add: h_def get16_def nth_append)
    also have "\<dots> = i" unfolding i_def using arg_cong [OF r(1), of "\<lambda>x. get16 x 0x28"] h30 by (simp add: get16_def nth_append)
    finally show ?thesis .
  qed
  define h2 where "h2 = put16 h 0x28 (i + 1)"
  define Y2 where "Y2 = copy_into Y 0x0E (le16 i)"
  have lY: "length Y = attrLen" "length Y2 = attrLen" by (simp_all add: Y_def Y2_def)
  have oh: "0x30 \<le> length h" using h30 by (simp add: h_def)
  have s2: "assignAttrID off (h @ Y @ Z) = Inr (h2 @ Y2 @ Z)"
  proof -
    have "copy_into (h @ Y @ Z) (off + 14) (le16 i) = h @ Y2 @ Z"
      using assms(3) hl lY by (simp add: copy_into_right copy_into_left Y2_def)
    moreover have "12 \<le> m" using m(1) assms(3) by linarith
    ultimately show ?thesis using gi oh hl lY assms(3) lZ
      by (simp add: assignAttrID_def at_inside put_in_def h2_def put16_def copy_into_left)
  qed
  define B where "B = puts body Y2"
  have B: "B = new_attr attrLen header i body" by (simp add: B_def Y2_def Y_def new_attr_def puts_append)
  define Z2 where "Z2 = le32 attrEND @ zeros (m - attrLen)"
  define h3 where "h3 = put32 h2 0x18 (of_nat (off + attrLen + 8))"
  have lh: "length h2 = off" "length h3 = off" "length B = attrLen" by (simp_all add: h2_def h3_def hl B)
  have z2: "copy_into (copy_into Z 0 (le32 attrEND)) 4 (le32 0) = Z2"
  proof -
    have "le32 0 = zeros 4" by (simp add: le32_def zeros_def numeral_eq_Suc)
    then show ?thesis using lZ m by (intro nth_equalityI) (auto simp: Z_def Z2_def nth_copy_into nth_append zeros_def)
  qed
  have s3: "puts_at (map (\<lambda>(j, d). (off + j, d)) body @ [(off + attrLen, le32 attrEND), (off + attrLen + 4, le32 0), (0x18, le32 (of_nat (off + attrLen + 8)))])
      (h2 @ Y2 @ Z) = Inr (h3 @ B @ Z2)"
  proof -
    have "puts_at (map (\<lambda>(j, d). (off + j, d)) body) (h2 @ (Y2 @ Z)) = Inr (h2 @ puts body (Y2 @ Z))"
      using hd_in(2) lY by (intro puts_at_right [OF lh(1)]) force
    moreover have "puts body (Y2 @ Z) = B @ Z" using hd_in(2) lY by (simp add: puts_left B_def)
    moreover have "copy_into (h2 @ B @ Z) (off + attrLen) (le32 attrEND) = h2 @ B @ copy_into Z 0 (le32 attrEND)"
      using lh by (simp add: copy_into_right)
    moreover have "copy_into (h2 @ B @ copy_into Z 0 (le32 attrEND)) (off + attrLen + 4) (le32 0) = h2 @ B @ Z2"
      using lh z2 by (simp add: copy_into_right)
    moreover have "copy_into (h2 @ B @ Z2) 0x18 (le32 (of_nat (off + attrLen + 8))) = h3 @ B @ Z2"
      using lh oh hl by (simp add: copy_into_left h3_def put32_def)
    moreover have "4 + attrLen \<le> m" "attrLen \<le> m" using m by simp_all
    ultimately show ?thesis using lh lZ oh hl by (simp add: puts_at_append put_in_def Z2_def del: of_nat_add)
  qed
  have ap: "append_at rec off attrLen header body = Inr (h3 @ B @ Z2)"
    unfolding append_at_def Let_def rec1_def [symmetric] using s1 s2 s3 by simp
  have h3n: "(h3 @ B @ Z2) ! p = rec ! p" if "p < off" "p < 0x18 \<or> 0x1C \<le> p" "\<not> (0x28 \<le> p \<and> p < 0x2A)" for p
  proof -
    have "(h3 @ B @ Z2) ! p = h3 ! p" using that lh by (simp add: nth_append)
    also have "\<dots> = h2 ! p" using that lh oh hl by (auto simp: h3_def nth_put_other)
    also have "\<dots> = h ! p" using that lh oh hl by (auto simp: h2_def nth_put_other)
    also have "\<dots> = rec ! p" using that hl arg_cong [OF r(1), of "\<lambda>x. x ! p"] by (simp add: h_def nth_append split: if_splits)
    finally show ?thesis .
  qed
  have f: "first_attr (h3 @ B @ Z2) = first_attr rec"
    using h3n [of "0x14"] h3n [of "0x15"] oh hl by (simp add: first_attr_def get16_def)
  show thesis
  proof (rule that [OF ap])
    have "drop (first_attr rec) (h3 @ B @ Z2) = concat (as @ [B]) @ Z2"
    proof -
      have "drop (first_attr rec) h3 = concat as"
      proof (rule nth_equalityI)
        show "length (drop (first_attr rec) h3) = length (concat as)" using lh by (simp add: off_def)
        fix j assume j: "j < length (drop (first_attr rec) h3)"
        have jo: "first_attr rec + j < off" using j lh by simp
        then have "h3 ! (first_attr rec + j) = (h3 @ B @ Z2) ! (first_attr rec + j)" using lh by (simp add: nth_append)
        also have "\<dots> = rec ! (first_attr rec + j)" using jo h30 r(2) by (intro h3n) auto
        also have "\<dots> = concat as ! j" using jo arg_cong [OF r(1), of "\<lambda>x. x ! (first_attr rec + j)"]
          by (simp add: off_def nth_append r(2) [symmetric])
        finally show "drop (first_attr rec) h3 ! j = concat as ! j" using j by simp
      qed
      moreover have "first_attr rec \<le> length h3" using lh by (simp add: off_def)
      ultimately show ?thesis by simp
    qed
    moreover have "4 \<le> m - attrLen" using m by simp
    ultimately have "attrs_at (h3 @ B @ Z2) (first_attr rec) (as @ [B])"
      using assms(1,5) unfolding B i_def by (auto simp: attrs_at_def rec_attrs_def Z2_def)
    then show "rec_attrs (h3 @ B @ Z2) (as @ [new_attr attrLen header (get16 rec 0x28) body])"
      using assms(1) f unfolding B i_def by (simp add: rec_attrs_def)
    show "same_header (h3 @ B @ Z2) rec" using f h3n by (simp add: same_header_def off_def)
    show "length (h3 @ B @ Z2) = max (length rec) (off + attrLen + 8)" using lh m by (simp add: Z2_def m_def)
    have "get32 (h3 @ B @ Z2) 0x18 = get32 h3 0x18" using lh oh hl by (simp add: get32_def nth_append)
    then show "get32 (h3 @ B @ Z2) 0x18 = of_nat (off + attrLen + 8)" using lh oh hl by (simp add: h3_def del: of_nat_add)
  qed
qed

section \<open>The values of attributes\<close>

subsection \<open>Resident attributes\<close>

definition resident_header :: "u32 \<Rightarrow> nat \<Rightarrow> nat \<Rightarrow> (nat \<times> bytes) list" where
  "resident_header ty n l = [(0, le32 ty), (4, le32 (of_nat n)), (8, [0]), (16, le32 (of_nat l)), (20, le16 24)]"

definition resident_blob :: "u32 \<Rightarrow> bytes \<Rightarrow> u16 \<Rightarrow> bytes" where
  "resident_blob ty value i =
     new_attr (pad8 (24 + length value)) (resident_header ty (pad8 (24 + length value)) (length value)) i [(24, value)]"

lemma sub_one: "i < length b \<Longrightarrow> sub b i 1 = [b ! i]"
  by (simp add: sub_def take_Suc_conv_app_nth)

lemma sub_byte: "sub b i 1 = [x] \<Longrightarrow> b ! i = x"
  by (cases "i < length b") (simp_all only: sub_one list.inject, simp add: sub_def)

lemma resident_blob_fields:
  assumes "pad8 (24 + length value) < 2 ^ 32"
  shows "get32 (resident_blob ty value i) 0 = ty" "get32 (resident_blob ty value i) 4 = of_nat (pad8 (24 + length value))"
    "resident_blob ty value i ! 8 = 0" "resident_blob ty value i ! 9 = 0" "get32 (resident_blob ty value i) 16 = of_nat (length value)"
    "get16 (resident_blob ty value i) 20 = 24" "sub (resident_blob ty value i) 24 (length value) = value"
    "length (resident_blob ty value i) = pad8 (24 + length value)"
proof -
  have l: "24 + length value \<le> pad8 (24 + length value)" by (rule pad8_bounds)
  note d = resident_blob_def new_attr_def resident_header_def sub_copy_other
  show "get32 (resident_blob ty value i) 0 = ty" "get32 (resident_blob ty value i) 4 = of_nat (pad8 (24 + length value))"
    "get32 (resident_blob ty value i) 16 = of_nat (length value)"
    by (rule sub_get32; use l in \<open>simp add: d\<close>)+
  show "get16 (resident_blob ty value i) 20 = 24" by (rule sub_get16) (use l in \<open>simp add: d\<close>)
  show "resident_blob ty value i ! 8 = 0" by (rule sub_byte) (use l in \<open>simp add: d\<close>)
  show "resident_blob ty value i ! 9 = 0" using l by (simp add: d nth_copy_into)
  show "sub (resident_blob ty value i) 24 (length value) = value" using l by (simp add: d)
  show "length (resident_blob ty value i) = pad8 (24 + length value)" by (simp add: d)
qed

lemma resident_blob_ok:
  assumes "pad8 (24 + length value) < 2 ^ 32" "ty \<noteq> attrEND"
  shows "wf_attr (resident_blob ty value i)" "a_type (resident_blob ty value i) = ty" "a_name (resident_blob ty value i) = None"
    "attrValue f v (resident_blob ty value i) = Inr value"
proof -
  note F = resident_blob_fields [OF assms(1), of ty i]
  have l: "24 + length value \<le> pad8 (24 + length value)" by (rule pad8_bounds)
  show "wf_attr (resident_blob ty value i)"
    using F assms l by (simp add: wf_attr_def a_type_def a_nlen_def unat_of_nat32)
  show "a_type (resident_blob ty value i) = ty" using F by (simp add: a_type_def)
  show "a_name (resident_blob ty value i) = None" using F by (simp add: a_name_def a_nlen_def)
  have "unat (of_nat (length value) :: u32) = length value" using l assms(1) by (intro unat_of_nat32) simp
  then show "attrValue f v (resident_blob ty value i) = Inr value"
    using F l by (simp add: attrValue_def at_inside)
qed

lemma appendResidentAttr_ok:
  assumes "rec_attrs rec as" "pad8 (24 + length value) < 2 ^ 32" "ty \<noteq> attrEND"
  defines "n \<equiv> first_attr rec + length (concat as) + pad8 (24 + length value) + 8"
  obtains rec' where "appendResidentAttr rec ty value = Inr rec'" "rec_attrs rec' (as @ [resident_blob ty value (get16 rec 0x28)])"
    "same_header rec' rec" "length rec' = max (length rec) n" "get32 rec' 0x18 = of_nat n"
proof -
  define hd where "hd = resident_header ty (pad8 (24 + length value)) (length value)"
  have l: "24 + length value \<le> pad8 (24 + length value)" by (rule pad8_bounds)
  have "wf_attr (new_attr (pad8 (24 + length value)) hd (get16 rec 0x28) [(24, value)])"
    using resident_blob_ok(1) [OF assms(2,3)] by (simp add: resident_blob_def hd_def)
  then obtain rec' where "append_at rec (first_attr rec + length (concat as)) (pad8 (24 + length value)) hd [(24, value)] = Inr rec'"
    "rec_attrs rec' (as @ [new_attr (pad8 (24 + length value)) hd (get16 rec 0x28) [(24, value)]])" "same_header rec' rec"
    "length rec' = max (length rec) n" "get32 rec' 0x18 = of_nat n"
    using append_at_ok [OF assms(1), of hd ty "[(4, le32 (of_nat (pad8 (24 + length value)))), (8, [0]), (16, le32 (of_nat (length value))), (20, le16 24)]"
        "pad8 (24 + length value)" "[(24, value)]"] l unfolding n_def by (auto simp: hd_def resident_header_def)
  then show thesis using that
    by (simp add: appendResidentAttr_def attrs_end_attrs [OF assms(1)] appendResidentAttrAt_def hd_def resident_header_def resident_blob_def)
qed

subsection \<open>Non-resident attributes\<close>

definition run_header :: "u32 \<Rightarrow> nat \<Rightarrow> (nat \<times> bytes) list" where
  "run_header ty n = [(0, le32 ty), (4, le32 (of_nat n)), (8, [1])]"

definition run_blob :: "u32 \<Rightarrow> run list \<Rightarrow> int \<Rightarrow> int \<Rightarrow> u16 \<Rightarrow> bytes" where
  "run_blob ty runs dataSize cs i =
     (let rl = encodeRunlist runs; n = pad8 (0x40 + length rl)
      in new_attr n (run_header ty n) i (non_resident_fields runs 0x40 dataSize cs @ [(0x40, rl)]))"

lemma run_blob_fields:
  fixes runs :: "run list"
  defines "n \<equiv> pad8 (0x40 + length (encodeRunlist runs))"
  shows "get32 (run_blob ty runs dataSize cs i) 0 = ty" "get32 (run_blob ty runs dataSize cs i) 4 = of_nat n"
    "run_blob ty runs dataSize cs i ! 8 = 1" "run_blob ty runs dataSize cs i ! 9 = 0" "get16 (run_blob ty runs dataSize cs i) 0x20 = 0x40"
    "get64 (run_blob ty runs dataSize cs i) 0x30 = of_int dataSize"
    "sub (run_blob ty runs dataSize cs i) 0x40 (length (encodeRunlist runs)) = encodeRunlist runs"
    "length (run_blob ty runs dataSize cs i) = n"
proof -
  define rl where "rl = encodeRunlist runs"
  have l: "0x40 + length rl \<le> n" unfolding n_def rl_def by (rule pad8_bounds)
  have b: "run_blob ty runs dataSize cs i = new_attr n (run_header ty n) i (non_resident_fields runs 0x40 dataSize cs @ [(0x40, rl)])"
    by (simp add: run_blob_def Let_def n_def rl_def)
  note d = b new_attr_def run_header_def non_resident_fields_def sub_copy_other rl_def [symmetric]
  show "get32 (run_blob ty runs dataSize cs i) 0 = ty" "get32 (run_blob ty runs dataSize cs i) 4 = of_nat n"
    by (rule sub_get32; use l in \<open>simp add: d\<close>)+
  show "get16 (run_blob ty runs dataSize cs i) 0x20 = 0x40" by (rule sub_get16) (use l in \<open>simp add: d\<close>)
  show "get64 (run_blob ty runs dataSize cs i) 0x30 = of_int dataSize"
    by (subst c64.get_local) (use l c64.get_enc in \<open>simp_all add: d\<close>)
  show "run_blob ty runs dataSize cs i ! 8 = 1" by (rule sub_byte) (use l in \<open>simp add: d\<close>)
  show "run_blob ty runs dataSize cs i ! 9 = 0" using l by (simp add: d nth_copy_into)
  show "sub (run_blob ty runs dataSize cs i) 0x40 (length (encodeRunlist runs)) = encodeRunlist runs" using l by (simp add: d)
  show "length (run_blob ty runs dataSize cs i) = n" by (simp add: d)
qed

lemma run_blob_ok:
  assumes "pad8 (0x40 + length (encodeRunlist runs)) < 2 ^ 32" "ty \<noteq> attrEND" "\<forall>r \<in> set runs. run_ok r" "0 \<le> dataSize" "dataSize < 2 ^ 63"
  shows "wf_attr (run_blob ty runs dataSize cs i)" "a_type (run_blob ty runs dataSize cs i) = ty" "a_name (run_blob ty runs dataSize cs i) = None"
    "attrValue f v (run_blob ty runs dataSize cs i) = readRuns f v runs dataSize"
proof -
  define b where "b = run_blob ty runs dataSize cs i"
  note F = run_blob_fields [of ty runs dataSize cs i, folded b_def]
  define rl where "rl = encodeRunlist runs"
  have l: "0x40 + length rl \<le> pad8 (0x40 + length rl)" by (rule pad8_bounds)
  have ne: "rl \<noteq> []" by (cases runs) (simp_all add: rl_def encodeRunlist_def encode_run_def Let_def)
  show "wf_attr (run_blob ty runs dataSize cs i)"
    using F assms l by (simp add: wf_attr_def a_type_def a_nlen_def unat_of_nat32 b_def [symmetric] rl_def)
  show "a_type (run_blob ty runs dataSize cs i) = ty" using F by (simp add: a_type_def b_def [symmetric])
  show "a_name (run_blob ty runs dataSize cs i) = None" using F by (simp add: a_name_def a_nlen_def b_def [symmetric])
  have "drop 0x40 b = rl @ drop (0x40 + length rl) b"
    using F(7) by (simp add: sub_def rl_def) (metis add.commute append_take_drop_id drop_drop)
  then have dec: "decodeRunlist (drop 0x40 b) = Inr runs" using assms(3) decode_encode_runlist by (simp add: rl_def)
  have "sint (of_int dataSize :: u64) = dataSize" using assms(4,5) by (simp add: sint_sbintrunc' signed_take_bit_int_eq_self)
  moreover have "64 < pad8 (64 + length rl)" using l ne by (cases rl) simp_all
  ultimately show "attrValue f v (run_blob ty runs dataSize cs i) = readRuns f v runs dataSize"
    using F l ne dec by (simp add: attrValue_def b_def [symmetric] rl_def [symmetric])
qed

lemma appendNonResidentAttr_ok:
  assumes "rec_attrs rec as" "pad8 (0x40 + length (encodeRunlist runs)) < 2 ^ 32" "ty \<noteq> attrEND" "\<forall>r \<in> set runs. run_ok r"
    "0 \<le> dataSize" "dataSize < 2 ^ 63"
  defines "n \<equiv> first_attr rec + length (concat as) + pad8 (0x40 + length (encodeRunlist runs)) + 8"
  obtains rec' where "appendNonResidentAttr rec ty runs dataSize cs = Inr rec'"
    "rec_attrs rec' (as @ [run_blob ty runs dataSize cs (get16 rec 0x28)])"
    "same_header rec' rec" "length rec' = max (length rec) n" "get32 rec' 0x18 = of_nat n"
proof -
  define rl where "rl = encodeRunlist runs"
  define k where "k = pad8 (0x40 + length rl)"
  define body where "body = non_resident_fields runs 0x40 dataSize cs @ [(0x40, rl)]"
  have l: "0x40 + length rl \<le> k" unfolding k_def by (rule pad8_bounds)
  have "wf_attr (new_attr k (run_header ty k) (get16 rec 0x28) body)"
    using run_blob_ok(1) [OF assms(2-6)] by (simp add: run_blob_def Let_def k_def rl_def body_def)
  moreover have "\<forall>(i, d) \<in> set (run_header ty k @ body). i + length d \<le> k"
    using l by (auto simp: run_header_def body_def non_resident_fields_def)
  ultimately obtain rec' where "append_at rec (first_attr rec + length (concat as)) k (run_header ty k) body = Inr rec'"
    "rec_attrs rec' (as @ [new_attr k (run_header ty k) (get16 rec 0x28) body])" "same_header rec' rec"
    "length rec' = max (length rec) n" "get32 rec' 0x18 = of_nat n"
    using append_at_ok [OF assms(1), of "run_header ty k" ty "[(4, le32 (of_nat k)), (8, [1])]" k body] l
    unfolding n_def rl_def [symmetric] k_def [symmetric] by (auto simp: run_header_def)
  then show thesis using that
    by (simp add: appendNonResidentAttr_def attrs_end_attrs [OF assms(1)] run_header_def run_blob_def Let_def k_def rl_def body_def)
qed

end
