(* ===== verification/NtfsContent.thy ===== *)
theory NtfsContent
  imports NtfsData NtfsAttrs
begin

text \<open>
  The data attribute of a record: \<open>nt_writeFileData\<close> stores the new contents, inside the record or in
  clusters, so that the record in the cache and the one on disk both lead to them.
\<close>

unbundle bit_operations_syntax

subsection \<open>More edits of records\<close>

definition without :: "(bytes \<Rightarrow> bool) \<Rightarrow> bytes list \<Rightarrow> bytes list" where
  "without P as = takeWhile (\<lambda>a. \<not> P a) as @ tl (dropWhile (\<lambda>a. \<not> P a) as)"

definition removed :: "(bytes \<Rightarrow> bool) \<Rightarrow> bytes list \<Rightarrow> nat" where
  "removed P as = length (concat as) - length (concat (without P as))"

lemma without_cases:
  obtains (none) "\<forall>a \<in> set as. \<not> P a" "without P as = as" "removed P as = 0"
  | (first) xs a ys where "as = xs @ a # ys" "\<forall>x \<in> set xs. \<not> P x" "P a" "without P as = xs @ ys" "removed P as = length a"
proof (cases "\<exists>a \<in> set as. P a")
  case True
  then obtain xs a ys where s: "as = xs @ a # ys" "\<forall>x \<in> set xs. \<not> P x" "P a" using split_list_first_prop [of as P] by auto
  then have "without P as = xs @ ys" by (simp add: without_def takeWhile_append2 dropWhile_append2)
  then show thesis using first [OF s] by (simp add: removed_def s(1))
next
  case False
  then have tw: "takeWhile (\<lambda>a. \<not> P a) as = as" and dw: "dropWhile (\<lambda>a. \<not> P a) as = []" by auto
  have "without P as = as" unfolding without_def tw dw by simp
  then show thesis using none False by (simp add: removed_def)
qed

lemma removed_le: "removed P as \<le> length (concat as)" "length (concat (without P as)) = length (concat as) - removed P as"
  by (cases P as rule: without_cases; simp)+

lemma removeAttr_ok:
  assumes "rec_attrs rec as"
  obtains rec' where "removeAttr rec ty nm = Inr rec'" "rec_attrs rec' (without (hit ty nm) as)" "same_header rec' rec"
    "length rec' = length rec - removed (hit ty nm) as" "get32 rec' 0x18 = get32 rec 0x18 - of_nat (removed (hit ty nm) as)"
proof (cases "hit ty nm" as rule: without_cases)
  case none
  then show ?thesis using that [of rec] removeAttr_none [OF assms none(1)] assms by simp
next
  case (first xs a ys)
  then show ?thesis using that removeAttr_first [of rec xs a ys ty nm] assms by metis
qed

lemma rec_attrs_replace:
  assumes "rec_attrs rec (xs @ a # ys)" "length a' = length a" "wf_attr a'"
  defines "rec' \<equiv> copy_into rec (first_attr rec + length (concat xs)) a'"
  shows "rec_attrs rec' (xs @ a' # ys)" "same_header rec' rec" "length rec' = length rec" "get32 rec' 0x18 = get32 rec 0x18"
proof -
  obtain h k where r: "rec = h @ concat (xs @ a # ys) @ le32 attrEND @ zeros k" "length h = first_attr rec" "4 \<le> k"
    using rec_attrs_split [OF assms(1)] by blast
  have h30: "0x30 \<le> length h" using r(2) assms(1) by (simp add: rec_attrs_def)
  have w: "list_all wf_attr (xs @ a' # ys)" using assms(1,3) by (auto simp: rec_attrs_def attrs_at_def)
  have rec': "rec' = h @ concat (xs @ a' # ys) @ le32 attrEND @ zeros k"
  proof -
    have s: "rec = (h @ concat xs) @ a @ concat ys @ le32 attrEND @ zeros k" by (subst r(1)) simp
    have l: "first_attr rec + length (concat xs) = length (h @ concat xs)" by (simp add: r(2))
    show ?thesis unfolding rec'_def l by (subst s) (simp add: copy_into_right copy_into_left copy_into_def assms(2))
  qed
  show "length rec' = length rec" by (simp add: rec'_def)
  have n: "rec' ! p = rec ! p" if "p < length h" for p
    using that by (subst r(1)) (simp add: rec' nth_append)
  have f: "first_attr rec' = first_attr rec" using n h30 by (simp add: first_attr_def get16_def)
  show "rec_attrs rec' (xs @ a' # ys)"
    using h30 r(2,3) w by (auto simp: rec_attrs_def attrs_at_def f) (auto simp: rec')
  show "same_header rec' rec" using n f r(2) by (simp add: same_header_def)
  show "get32 rec' 0x18 = get32 rec 0x18" using n h30 by (simp add: get32_def)
qed

text \<open>An attribute that names a value of at least 16 bytes inside it, behind its header.\<close>

definition std_ok :: "bytes \<Rightarrow> bool" where
  "std_ok a \<longleftrightarrow> a_nlen a = 0 \<and> 24 \<le> unat (get16 a 0x14) \<and> unat (get16 a 0x14) + 16 \<le> length a"

definition set_mtime :: "gotime \<Rightarrow> bytes \<Rightarrow> bytes" where
  "set_mtime t a = copy_into a (unat (get16 a 0x14) + 8) (le64 (of_int (timeToFiletime t)))"

fun touch :: "gotime \<Rightarrow> bytes list \<Rightarrow> bytes list" where
  "touch t [] = []"
| "touch t (a # as) = (if hit attrSTANDARD_INFORMATION [] a then set_mtime t a # as else a # touch t as)"

lemma touch_first: "\<forall>x \<in> set xs. \<not> hit attrSTANDARD_INFORMATION [] x \<Longrightarrow> hit attrSTANDARD_INFORMATION [] a \<Longrightarrow>
    touch t (xs @ a # ys) = xs @ set_mtime t a # ys"
  by (induction xs) simp_all

lemma touch_none: "\<forall>x \<in> set xs. \<not> hit attrSTANDARD_INFORMATION [] x \<Longrightarrow> touch t xs = xs"
  by (induction xs) simp_all

lemma set_mtime_fields:
  assumes "std_ok a"
  shows "length (set_mtime t a) = length a" "a_type (set_mtime t a) = a_type a" "get32 (set_mtime t a) 4 = get32 a 4"
    "a_nlen (set_mtime t a) = 0" "get16 (set_mtime t a) 0x14 = get16 a 0x14"
proof -
  have n: "set_mtime t a ! p = a ! p" if "p < 24" for p
    using assms that by (auto simp: set_mtime_def std_ok_def nth_copy_into)
  show "length (set_mtime t a) = length a" by (simp add: set_mtime_def)
  show "a_type (set_mtime t a) = a_type a" "get32 (set_mtime t a) 4 = get32 a 4" "get16 (set_mtime t a) 0x14 = get16 a 0x14"
    by (simp_all add: a_type_def get32_def get16_def n)
  show "a_nlen (set_mtime t a) = 0" using assms n [of 9] by (simp add: a_nlen_def std_ok_def)
qed

lemma set_mtime_ok: "wf_attr a \<Longrightarrow> std_ok a \<Longrightarrow> wf_attr (set_mtime t a) \<and> std_ok (set_mtime t a)"
  using set_mtime_fields [of a t] by (auto simp: wf_attr_def std_ok_def a_type_def)

lemma hit_touch:
  assumes "\<forall>a \<in> set as. hit attrSTANDARD_INFORMATION [] a \<longrightarrow> std_ok a" "ty \<noteq> attrSTANDARD_INFORMATION"
  shows "filter (hit ty []) (touch t as) = filter (hit ty []) as" "find (hit ty []) (touch t as) = find (hit ty []) as"
  using assms by (induction as) (auto simp: hit_def set_mtime_fields)

lemma std_ok_touch:
  assumes "\<forall>a \<in> set as. hit attrSTANDARD_INFORMATION [] a \<longrightarrow> std_ok a" "list_all wf_attr as"
  shows "\<forall>a \<in> set (touch t as). hit attrSTANDARD_INFORMATION [] a \<longrightarrow> std_ok a" "length (concat (touch t as)) = length (concat as)"
    "\<forall>a \<in> set (touch t as). \<exists>b \<in> set as. length a = length b"
  using assms by (induction as) (auto simp: set_mtime_ok set_mtime_fields)

lemma setStdInfoMtime_ok:
  assumes "rec_attrs rec as" "\<forall>a \<in> set as. hit attrSTANDARD_INFORMATION [] a \<longrightarrow> std_ok a"
  obtains rec' where "setStdInfoMtime t rec = Inr rec'" "rec_attrs rec' (touch t as)" "same_header rec' rec"
    "length rec' = length rec" "get32 rec' 0x18 = get32 rec 0x18"
proof (cases "hit attrSTANDARD_INFORMATION []" as rule: without_cases)
  case none
  then show ?thesis using that [of rec] assms(1) findAttrOffset_none [OF assms(1) none(1)] by (simp add: setStdInfoMtime_def touch_none)
next
  case (first xs a ys)
  have r: "rec_attrs rec (xs @ a # ys)" using assms(1) by (simp add: first(1))
  have s: "std_ok a" "wf_attr a" using assms first by (auto simp: rec_attrs_def attrs_at_def)
  define off where "off = first_attr rec + length (concat xs)"
  have len: "off + length a + 8 \<le> length rec" using rec_attrs_len [OF r] by (simp add: off_def)
  have sub: "sub rec off (length a) = a" using sub_attr [OF r] by (simp add: off_def)
  have v: "24 \<le> unat (get16 a 0x14)" "unat (get16 a 0x14) + 16 \<le> length a" "24 \<le> length a" using s by (simp_all add: std_ok_def)
  have "get16 (sub rec off (length a)) 0x14 = get16 rec (off + 0x14)" using len v by (intro c16.get_sub) auto
  then have g: "get16 rec (off + 0x14) = get16 a 0x14" by (simp add: sub)
  have "copy_into rec off (set_mtime t a) = copy_into rec (off + unat (get16 a 0x14) + 8) (le64 (of_int (timeToFiletime t)))"
  proof (rule nth_equalityI)
    fix i assume i: "i < length (copy_into rec off (set_mtime t a))"
    have "rec ! i = a ! (i - off)" if "off \<le> i" "i < off + length a"
      using that len arg_cong [OF sub, of "\<lambda>b. b ! (i - off)"] by (simp add: nth_sub)
    then show "copy_into rec off (set_mtime t a) ! i = copy_into rec (off + unat (get16 a 0x14) + 8) (le64 (of_int (timeToFiletime t))) ! i"
      using i len v by (auto simp: nth_copy_into set_mtime_def add.assoc)
  qed simp
  then have e: "setStdInfoMtime t rec = Inr (copy_into rec off (set_mtime t a))"
    unfolding setStdInfoMtime_def findAttrOffset_first [OF r first(2,3)] off_def [symmetric]
    using len v by (simp add: at_inside g Let_def put_in_def)
  show ?thesis
    using that [OF e] rec_attrs_replace [OF r set_mtime_fields(1) [OF s(1)] conjunct1 [OF set_mtime_ok [OF s(2,1)]], of t]
      touch_first [OF first(2,3), of t ys] by (simp add: off_def first(1))
qed

lemma rec_attrs_used:
  assumes "rec_attrs rec as"
  shows "rec_attrs (put32 rec 0x18 x) as" "same_header (put32 rec 0x18 x) rec"
proof -
  have len: "0x30 \<le> first_attr rec" "first_attr rec \<le> length rec" using rec_attrs_len [OF assms] by simp_all
  have f: "first_attr (put32 rec 0x18 x) = first_attr rec" using len by (simp add: first_attr_def get16_def nth_put_other)
  have "drop (first_attr rec) (put32 rec 0x18 x) = drop (first_attr rec) rec"
    using len by (intro nth_equalityI) (simp_all add: nth_put_other)
  then show "rec_attrs (put32 rec 0x18 x) as" using assms by (simp add: rec_attrs_def attrs_at_def f)
  show "same_header (put32 rec 0x18 x) rec" using len by (auto simp: same_header_def f nth_put_other)
qed

lemma attrs_at_padded: "attrs_at rec off as \<Longrightarrow> attrs_at (rec @ zeros n) off as"
proof -
  assume a: "attrs_at rec off as"
  then obtain k where k: "4 \<le> k" "drop off rec = concat as @ le32 attrEND @ zeros k" by (auto simp: attrs_at_def)
  have "off \<le> length rec" using attrs_at_len [OF a] by simp
  then have "drop off (rec @ zeros n) = concat as @ le32 attrEND @ zeros (k + n)"
    using k(2) by (simp add: zeros_def replicate_add)
  moreover have "4 \<le> k + n" using k(1) by simp
  ultimately show ?thesis using a unfolding attrs_at_def by blast
qed

lemma rec_attrs_padded: "rec_attrs rec as \<Longrightarrow> rec_attrs (rec @ zeros n) as \<and> first_attr (rec @ zeros n) = first_attr rec"
  using rec_attrs_len [of rec as] attrs_at_padded first_attr_app [of rec "zeros n"] by (auto simp: rec_attrs_def)

lemma rec_attrs_same:
  assumes "rec_attrs p as" "length r = length p" "\<forall>i < length p. i = 0x14 \<or> i = 0x15 \<or> first_attr p \<le> i \<longrightarrow> r ! i = p ! i"
  shows "rec_attrs r as" "first_attr r = first_attr p"
proof -
  have len: "0x30 \<le> first_attr p" "first_attr p \<le> length p" using rec_attrs_len [OF assms(1)] by simp_all
  have "r ! 0x14 = p ! 0x14" "r ! 0x15 = p ! 0x15" using spec [OF assms(3), of "0x14"] spec [OF assms(3), of "0x15"] len by simp_all
  then show f: "first_attr r = first_attr p" by (simp add: first_attr_def get16_def)
  have "drop (first_attr p) r = drop (first_attr p) p"
    using assms(2,3) len by (intro nth_equalityI) simp_all
  then show "rec_attrs r as" using assms(1) by (simp add: rec_attrs_def attrs_at_def f)
qed

subsection \<open>Records of files\<close>

text \<open>
  A record with the attributes \<open>as\<close>: its header, with the update sequence array behind the fields and
  before the attributes, its sizes, at most one data attribute and a value for the time stamps.
\<close>

definition file_record :: "ntfsVolume \<Rightarrow> bytes \<Rightarrow> bytes list \<Rightarrow> bool" where
  "file_record v rec as \<longleftrightarrow> rec_attrs rec as \<and> take 4 rec = bs ''FILE'' \<and>
     0x30 \<le> usa_off rec \<and> 1 \<le> usa_cnt rec \<and> usa_off rec + 2 * usa_cnt rec \<le> min 510 (first_attr rec) \<and>
     512 * int (usa_cnt rec) \<le> nv_recSize v + 512 \<and> int (length rec) \<le> nv_recSize v \<and> nv_recSize v < 2 ^ 32 \<and>
     get32 rec 0x1C = of_int (nv_recSize v) \<and> first_attr rec + length (concat as) + 8 \<le> unat (get32 rec 0x18) \<and>
     uint (get32 rec 0x18) \<le> nv_recSize v \<and>
     8 dvd nv_recSize v \<and> 8 dvd length rec \<and> 8 dvd unat (get32 rec 0x18) \<and> 8 dvd first_attr rec \<and> (\<forall>a \<in> set as. 8 dvd length a) \<and>
     (\<forall>a \<in> set as. hit attrSTANDARD_INFORMATION [] a \<longrightarrow> std_ok a) \<and> length (filter (hit attrDATA []) as) \<le> 1"

definition file_bytes :: "gofile \<Rightarrow> ntfsVolume \<Rightarrow> bytes \<Rightarrow> bytes res" where
  "file_bytes f v rec = bindR (findAttr rec attrDATA []) (\<lambda>a. case a of None \<Rightarrow> Inr [] | Some d \<Rightarrow> attrValue f v d)"

text \<open>The old data attribute does not count for the room.\<close>

definition room :: "ntfsVolume \<Rightarrow> bytes \<Rightarrow> bytes list \<Rightarrow> int" where
  "room v rec as = nv_recSize v - uint (get32 rec 0x18) + int (removed (hit attrDATA []) as) - 24"

lemma file_record_rec_ok:
  assumes "file_record v rec as"
  shows "rec_ok v rec" "usa_ok (padded v rec)" "length (padded v rec) = nat (nv_recSize v)"
proof -
  have r: "rec_attrs rec as" "usa_off rec + 2 * usa_cnt rec \<le> 510" "usa_off rec + 2 * usa_cnt rec \<le> first_attr rec" "0x30 \<le> usa_off rec" "1 \<le> usa_cnt rec"
    "512 * int (usa_cnt rec) \<le> nv_recSize v + 512" "int (length rec) \<le> nv_recSize v" "take 4 rec = bs ''FILE''"
    using assms by (simp_all add: file_record_def)
  have len: "first_attr rec + 8 \<le> length rec" "8 \<le> length rec" using rec_attrs_len [OF r(1)] by simp_all
  show lp: "length (padded v rec) = nat (nv_recSize v)" using r(7) by (simp add: padded_def)
  have u: "usa_off (padded v rec) = usa_off rec" "usa_cnt (padded v rec) = usa_cnt rec"
    using len(2) by (simp_all only: padded_def usa_append)
  show up: "usa_ok (padded v rec)" unfolding usa_ok_def u lp using r len by linarith
  have "int (usa_cnt rec) \<le> nv_recSize v div 512 + 1" using r(6) by linarith
  then show "rec_ok v rec" using r len up by (simp add: rec_ok_def padded_def)
qed

text \<open>The record on disk has the same attributes as the one that was stored.\<close>

lemma stored_attrs:
  assumes "file_record v rec as" "same_outside r (padded v rec)"
  shows "rec_attrs r as"
proof -
  have fr: "rec_attrs rec as" "usa_off rec + 2 * usa_cnt rec \<le> first_attr rec" "0x30 \<le> usa_off rec" using assms(1) by (simp_all add: file_record_def)
  have len: "8 \<le> length rec" using rec_attrs_len [OF fr(1)] by simp
  have u: "usa_off (padded v rec) = usa_off rec" "usa_cnt (padded v rec) = usa_cnt rec" using len by (simp_all only: padded_def usa_append)
  have p: "rec_attrs (padded v rec) as" "first_attr (padded v rec) = first_attr rec" using rec_attrs_padded [OF fr(1)] by (simp_all add: padded_def)
  show ?thesis
    by (rule rec_attrs_same(1) [OF p(1)]) (use assms(2) fr in \<open>auto simp: same_outside_def in_usa_def u p(2)\<close>)
qed

lemma same_header_fields:
  assumes "same_header r' r" "0x30 \<le> first_attr r" "first_attr r \<le> length r" "first_attr r \<le> length r'"
  shows "take 4 r' = take 4 r" "usa_off r' = usa_off r" "usa_cnt r' = usa_cnt r" "get32 r' 0x1C = get32 r 0x1C" "first_attr r' = first_attr r"
proof -
  have n: "r' ! p = r ! p" if "p < 0x18 \<or> 0x1C \<le> p \<and> p < 0x28" for p using that assms(1,2) by (auto simp: same_header_def)
  show "usa_off r' = usa_off r" "usa_cnt r' = usa_cnt r" "get32 r' 0x1C = get32 r 0x1C"
    by (simp_all add: usa_off_def usa_cnt_def get16_def get32_def n)
  show "take 4 r' = take 4 r" using n assms(2-4) by (intro nth_equalityI) simp_all
  show "first_attr r' = first_attr r" using assms(1) by (simp add: same_header_def)
qed

lemma one_data_attr:
  assumes "length (filter (hit attrDATA []) as) \<le> 1"
  shows "filter (hit attrDATA []) (without (hit attrDATA []) as) = []"
proof (cases "hit attrDATA []" as rule: without_cases)
  case none
  then show ?thesis by (simp add: filter_empty_conv)
next
  case (first xs a ys)
  then show ?thesis using assms by simp
qed

lemma find_last: "filter P xs = [] \<Longrightarrow> P b \<Longrightarrow> find P (xs @ [b]) = Some b"
  by (induction xs) (auto split: if_splits)

text \<open>The last step of \<open>nt_writeFileData\<close>: sizes and time stamp, with the new data attribute \<open>b\<close> in place.\<close>

lemma finish_record:
  assumes "file_record v rec as" "same_header r1 rec" "length r1 = length rec - removed (hit attrDATA []) as"
    and "rec_attrs r2 (without (hit attrDATA []) as @ [b])" "same_header r2 r1" "length r2 = max (length r1) n"
    and "n = first_attr rec + length (concat (without (hit attrDATA []) as)) + length b + 8" "int n \<le> nv_recSize v"
    and "8 dvd length b" "a_type b = attrDATA"
  obtains r3 where "bindR (put_in 0x18 (le32 (of_nat (length r2))) r2) (setStdInfoMtime t) = Inr r3"
    "file_record v r3 (touch t (without (hit attrDATA []) as @ [b]))" "findAttr r3 attrDATA [] = Inr (Some b)" "same_header r3 rec"
proof -
  define W where "W = without (hit attrDATA []) as"
  define bs' where "bs' = W @ [b]"
  have fr: "rec_attrs rec as" "int (length rec) \<le> nv_recSize v" "nv_recSize v < 2 ^ 32" "8 dvd nv_recSize v" "8 dvd length rec" "8 dvd first_attr rec"
    "\<forall>a \<in> set as. 8 dvd length a" "\<forall>a \<in> set as. hit attrSTANDARD_INFORMATION [] a \<longrightarrow> std_ok a" "length (filter (hit attrDATA []) as) \<le> 1"
    using assms(1) by (simp_all add: file_record_def)
  have sub: "set W \<subseteq> set as" unfolding W_def by (cases "hit attrDATA []" as rule: without_cases) auto
  have nb: "\<not> hit attrSTANDARD_INFORMATION [] b" using assms(10) by (simp add: hit_def attrDATA_def attrSTANDARD_INFORMATION_def)
  have std: "\<forall>a \<in> set bs'. hit attrSTANDARD_INFORMATION [] a \<longrightarrow> std_ok a" using fr(8) sub nb by (auto simp: bs'_def)
  have wf: "list_all wf_attr bs'" "rec_attrs r2 bs'" using assms(4) by (auto simp: bs'_def W_def rec_attrs_def attrs_at_def)
  define r2' where "r2' = put32 r2 0x18 (of_nat (length r2))"
  have r2': "rec_attrs r2' bs'" "same_header r2' r2" "length r2' = length r2"
    using rec_attrs_used [OF wf(2)] by (simp_all add: r2'_def)
  obtain r3 where r3: "setStdInfoMtime t r2' = Inr r3" "rec_attrs r3 (touch t bs')" "same_header r3 r2'" "length r3 = length r2'"
    "get32 r3 0x18 = get32 r2' 0x18"
    using setStdInfoMtime_ok [OF r2'(1) std] by metis
  have sh: "same_header r3 rec" using r3(3) r2'(2) assms(2,5) same_header_trans by blast
  have len: "0x30 \<le> first_attr rec" "first_attr rec \<le> length rec" using rec_attrs_len [OF fr(1)] by simp_all
  have len3: "first_attr r3 + length (concat (touch t bs')) + 8 \<le> length r3" using rec_attrs_len [OF r3(2)] by simp
  have f3: "first_attr r3 = first_attr rec" using sh by (simp add: same_header_def)
  note H = same_header_fields [OF sh len] 
  have rm: "removed (hit attrDATA []) as \<le> length (concat as)" "8 dvd removed (hit attrDATA []) as"
  proof -
    show "removed (hit attrDATA []) as \<le> length (concat as)" by (rule removed_le)
    show "8 dvd removed (hit attrDATA []) as"
      by (cases "hit attrDATA []" as rule: without_cases) (use fr(7) in auto)
  qed
  have cW: "8 dvd length (concat W)" using sub fr(7) by (induction W) auto
  have l2: "int (length r2) \<le> nv_recSize v" "8 dvd length r2" "n \<le> length r2" "length r2 < 2 ^ 32"
  proof -
    show "int (length r2) \<le> nv_recSize v" using assms(3,6,8) fr(2) by simp
    then show "length r2 < 2 ^ 32" using fr(3) by simp
    have "8 dvd n" unfolding assms(7) W_def [symmetric] using fr(6) cW assms(9) by (intro dvd_add) simp_all
    moreover have "8 dvd length r1" unfolding assms(3) using fr(5) rm by (intro dvd_diff_nat)
    ultimately show "8 dvd length r2" unfolding assms(6) by (simp add: max_def)
  qed (simp add: assms(6))
  have u: "get32 r3 0x18 = of_nat (length r2)" unfolding r3(5) r2'_def
    using rec_attrs_len [OF wf(2)] by (intro put_get_same) simp
  have un: "unat (get32 r3 0x18) = length r2" using l2(4) by (simp add: u unat_of_nat32)
  have ct: "length (concat (touch t bs')) = length (concat bs')" "\<forall>a \<in> set (touch t bs'). \<exists>b \<in> set bs'. length a = length b"
    "\<forall>a \<in> set (touch t bs'). hit attrSTANDARD_INFORMATION [] a \<longrightarrow> std_ok a"
    using std_ok_touch [OF std wf(1)] by blast+
  have dv: "\<forall>a \<in> set bs'. 8 dvd length a" using sub fr(7) assms(9) by (auto simp: bs'_def)
  have one: "filter (hit attrDATA []) W = []" unfolding W_def by (rule one_data_attr [OF fr(9)])
  have hb: "hit attrDATA [] b" using assms(10) by (simp add: hit_def)
  have ne: "attrDATA \<noteq> attrSTANDARD_INFORMATION" by (simp add: attrDATA_def attrSTANDARD_INFORMATION_def)
  show thesis
  proof (rule that [of r3])
    have "put_in 0x18 (le32 (of_nat (length r2))) r2 = Inr r2'"
      using rec_attrs_len [OF wf(2)] by (simp add: put_in_def r2'_def put32_def)
    then show "bindR (put_in 0x18 (le32 (of_nat (length r2))) r2) (setStdInfoMtime t) = Inr r3" using r3(1) by simp
    have "find (hit attrDATA []) bs' = Some b" unfolding bs'_def using one hb by (intro find_last)
    then show "findAttr r3 attrDATA [] = Inr (Some b)"
      using findAttr_find [OF r3(2)] hit_touch(2) [OF std ne] by simp
    show "file_record v r3 (touch t (without (hit attrDATA []) as @ [b]))"
      unfolding W_def [symmetric] bs'_def [symmetric] file_record_def
    proof (intro conjI)
      show "first_attr r3 + length (concat (touch t bs')) + 8 \<le> unat (get32 r3 0x18)" using len3 un r3(4) r2'(3) by simp
      show "uint (get32 r3 0x18) \<le> nv_recSize v" using l2(1) un by (simp add: uint_nat)
      show "8 dvd unat (get32 r3 0x18)" "8 dvd length r3" using un l2(2) r3(4) r2'(3) by simp_all
      show "\<forall>a \<in> set (touch t bs'). 8 dvd length a" using ct(2) dv by metis
      show "length (filter (hit attrDATA []) (touch t bs')) \<le> 1" using hit_touch(1) [OF std ne] one by (simp add: bs'_def)
      show "int (length r3) \<le> nv_recSize v" using l2(1) r3(4) r2'(3) by simp
    qed (use assms(1) r3(2) ct(3) H len f3 len3 in \<open>simp_all only: file_record_def, simp_all?\<close>)
  qed (rule sh)
qed

end
