(* ===== verification/NtfsIndex.thy ===== *)
theory NtfsIndex
  imports NtfsAlloc
begin

text \<open>
  The NTFS driver, sixth part: entries are added to and removed from directories (\<open>alloc.go\<close>).  A
  directory keeps its entries in \<open>$INDEX_ROOT\<close> until its record is full, then in index blocks.
\<close>

unbundle bit_operations_syntax

subsection \<open>Index attributes of a directory record\<close>

text \<open>The code looks for the attribute named \<open>$I30\<close> and then for any of the type.\<close>

definition find_index_off :: "bytes \<Rightarrow> u32 \<Rightarrow> nat option res" where
  "find_index_off rec ty = bindR (findAttrOffset rec ty I30) (\<lambda>a. if a = None then findAttrOffset rec ty [] else Inr a)"

definition remove_index :: "u32 \<Rightarrow> bytes \<Rightarrow> bytes res" where
  "remove_index ty rec =
     bindR (removeAttr rec ty I30) (\<lambda>rec1. bindR (findAttrOffset rec1 ty I30) (\<lambda>a.
       if a = None then removeAttr rec1 ty [] else Inr rec1))"

definition append_index :: "u32 \<Rightarrow> bytes \<Rightarrow> bytes \<Rightarrow> bytes res" where
  "append_index ty value rec = bindR (attrs_end rec) (\<lambda>off. appendNamedResidentAttrAt rec off ty I30 value)"

definition replace_root :: "bytes \<Rightarrow> bytes \<Rightarrow> bytes res" where
  "replace_root value rec = bindR (remove_index attrINDEX_ROOT rec) (append_index attrINDEX_ROOT value)"

text \<open>Offset and length of the value of a resident attribute.\<close>

definition value_range :: "bytes \<Rightarrow> nat \<Rightarrow> (nat \<times> nat) res" where
  "value_range rec off =
     bindR (at16 rec (off + 0x14)) (\<lambda>o'. bindR (at32 rec (off + 0x10)) (\<lambda>l. Inr (off + unat o', unat l)))"

subsection \<open>Blocks\<close>

fun pack_blocks :: "int \<Rightarrow> bytes list \<Rightarrow> bytes list \<Rightarrow> bytes list list" where
  "pack_blocks usable [] cur = [cur]"
| "pack_blocks usable (e # es) cur =
     (if usable < int (length (flattenEntries cur) + length e) \<and> cur \<noteq> [] then cur # pack_blocks usable es [e]
      else pack_blocks usable es (cur @ [e]))"

text \<open>Writes a block at a virtual cluster number.\<close>

definition put_block :: "run list \<Rightarrow> int \<Rightarrow> bytes \<Rightarrow> (nstate, unit) sop" where
  "put_block runs vcn block =
     (let lcn = lcnOfVCN runs vcn in
      if lcn < 0 then failS (Err ''no LCN for VCN'')
      else bindS (readV (\<lambda>f v. Inr (wrap64 (lcn * nv_clusterSize v)))) (\<lambda>off. wrapS ''write INDX'' (partWrite block off)))"

definition put_new_block :: "run list \<Rightarrow> int \<Rightarrow> bytes \<Rightarrow> (nstate, unit) sop" where
  "put_new_block runs vcn raw =
     (if lcnOfVCN runs vcn < 0 then failS (Err ''no LCN for VCN'')
      else bindS (readV (\<lambda>f v. buildINDXBlock vcn raw (nv_idxBlockSize v))) (put_block runs vcn))"

definition index_bitmap :: "nat \<Rightarrow> bytes" where
  "index_bitmap n = fold or_bit [0..<n] (zeros ((n + 7) div 8))"

definition spillToIndexAlloc :: "bytes \<Rightarrow> u64 \<Rightarrow> bytes list \<Rightarrow> bytes \<Rightarrow> (nstate, unit) sop" where
  "spillToIndexAlloc dirRec dirNum entries idxRootHdr =
     bindS (readV (\<lambda>f v. Inr (nv_idxBlockSize v, nv_clusterSize v))) (\<lambda>(blockSize, cs).
     let blocks = map flattenEntries (pack_blocks (indxUsableSpace blockSize) entries []) in
     bindS (allocContiguousClusters (int (length blocks))) (\<lambda>runs.
     bindS (for_each (\<lambda>(i, raw). put_new_block runs (int i) raw) (List.enumerate 0 blocks)) (\<lambda>_.
     bindS (readV (\<lambda>f v.
       bindR (replace_root (buildEmptyIndexRootVal idxRootHdr) dirRec) (\<lambda>r1.
       bindR (appendNonResidentNamedAttr r1 attrINDEX_ALLOCATION I30 runs (int (length blocks) * blockSize) cs) (\<lambda>r2.
       bindR (append_index attrBITMAP (index_bitmap (length blocks)) r2) (\<lambda>r3.
         if nv_recSize v < int (length r3) then Inl (Err ''spillToIndexAlloc: MFT record still too large'') else Inr r3))))) (\<lambda>rec.
       putRecord dirNum rec))))"

text \<open>The blocks of the old allocation, before the bitmap changes.\<close>

fun read_blocks :: "gofile \<Rightarrow> ntfsVolume \<Rightarrow> run list \<Rightarrow> int list \<Rightarrow> bytes list res" where
  "read_blocks f v runs [] = Inr []"
| "read_blocks f v runs (vcn # vcns) =
     (let lcn = lcnOfVCN runs vcn in
      if lcn < 0 then Inl (Err ''repackIndexAlloc: no LCN for existing VCN'')
      else bindR (make_bytes (nv_idxBlockSize v)) (\<lambda>b.
           bindR (wrapR ''repackIndexAlloc: read VCN'' (full (partRead f v (length b) (wrap64 (lcn * nv_clusterSize v))))) (\<lambda>d.
           bindR (read_blocks f v runs vcns) (\<lambda>ds. Inr (d # ds)))))"

definition repackIndexAlloc :: "run list \<Rightarrow> nat \<Rightarrow> bytes \<Rightarrow> (nstate, run list) sop" where
  "repackIndexAlloc oldRuns numBlocks newEntry =
     bindS (readV (\<lambda>f v. read_blocks f v oldRuns (map int [0..<numBlocks]))) (\<lambda>saved.
     bindS (freeRuns oldRuns) (\<lambda>_.
     bindS (tryS (allocContiguousClusters (int numBlocks + 1)) (\<lambda>r. case r of
              Inr runs \<Rightarrow> retS runs | Inl e \<Rightarrow> wrapS ''repackIndexAlloc: alloc clusters'' (allocClusters (int numBlocks + 1)))) (\<lambda>newRuns.
     bindS (for_each (\<lambda>(i, b). put_block newRuns (int i) b) (List.enumerate 0 saved)) (\<lambda>_.
     bindS (put_new_block newRuns (int numBlocks) newEntry) (\<lambda>_. retS newRuns)))))"

definition rebuildDirRecIndexAlloc :: "bytes \<Rightarrow> run list \<Rightarrow> int \<Rightarrow> bytes \<Rightarrow> int \<Rightarrow> bytes res" where
  "rebuildDirRecIndexAlloc dirRec runs totalBytes newBitmap clusterSize =
     bindR (remove_index attrINDEX_ALLOCATION dirRec) (\<lambda>r1.
     bindR (remove_index attrBITMAP r1) (\<lambda>r2.
     bindR (appendNonResidentNamedAttr r2 attrINDEX_ALLOCATION I30 runs totalBytes clusterSize)
       (append_index attrBITMAP newBitmap)))"

subsection \<open>Adding to an index allocation\<close>

record indexAlloc =
  ia_runs :: "run list"
  ia_totalBytes :: int
  ia_numBlocks :: int
  ia_lastLCN :: int

definition index_alloc :: "ntfsVolume \<Rightarrow> bytes \<Rightarrow> indexAlloc res" where
  "index_alloc v dirRec =
     bindR (find_index_off dirRec attrINDEX_ALLOCATION) (\<lambda>r. case r of
       None \<Rightarrow> Inl (Err ''appendEntryToIndexAlloc: no $INDEX_ALLOCATION'')
     | Some iaOff \<Rightarrow>
         let a = sub dirRec iaOff (unat (get32 dirRec (iaOff + 4))) in
         bindR (at16 a 0x20) (\<lambda>rlOff. bindR (at64 a 0x30) (\<lambda>total.
         bindR (slice a (unat rlOff) (length a)) (\<lambda>rl.
         bindR (wrapR ''appendEntryToIndexAlloc: decode runlist'' (decodeRunlist rl)) (\<lambda>runs.
         let numBlocks = quot (sint total) (nv_idxBlockSize v); lastLCN = lcnOfVCN runs (numBlocks - 1) in
         if lastLCN < 0 then Inl (Err ''appendEntryToIndexAlloc: cannot find LCN'')
         else Inr \<lparr>ia_runs = runs, ia_totalBytes = sint total, ia_numBlocks = numBlocks, ia_lastLCN = lastLCN\<rparr>)))))"

text \<open>The last block with the entry in it, stamped, if the entry fits.\<close>

definition last_block :: "gofile \<Rightarrow> ntfsVolume \<Rightarrow> indexAlloc \<Rightarrow> bytes \<Rightarrow> bytes option res" where
  "last_block f v ia entry =
     bindR (make_bytes (nv_idxBlockSize v)) (\<lambda>b0.
     bindR (wrapR ''appendEntryToIndexAlloc: read last INDX block'' (full (partRead f v (length b0) (wrap64 (ia_lastLCN ia * nv_clusterSize v))))) (\<lambda>b.
     let block = applyUSA b in
     bindR (slice block 0 4) (\<lambda>sg.
     bindR (if sg = bs ''INDX'' then addEntryToINDXBlock block entry else Inr None) (\<lambda>r. case r of
       None \<Rightarrow> Inr None
     | Some block' \<Rightarrow> bindR (stampUSA block' (nat (quot (nv_idxBlockSize v) 512))) (\<lambda>x. Inr (Some x))))))"

definition old_index_bitmap :: "bytes \<Rightarrow> bytes res" where
  "old_index_bitmap dirRec =
     bindR (find_index_off dirRec attrBITMAP) (\<lambda>r. case r of
       None \<Rightarrow> Inr []
     | Some bmOff \<Rightarrow> bindR (value_range dirRec bmOff) (\<lambda>(off, n). slice dirRec off (off + n)))"

definition grow_index_alloc :: "bytes \<Rightarrow> u64 \<Rightarrow> bytes \<Rightarrow> indexAlloc \<Rightarrow> (nstate, unit) sop" where
  "grow_index_alloc dirRec dirNum entry ia =
     bindS (readV (\<lambda>f v. bindR (old_index_bitmap dirRec) (\<lambda>b. Inr (b, nv_idxBlockSize v, nv_clusterSize v, nv_recSize v))))
       (\<lambda>(oldBitmap, blockSize, cs, recSize).
     let newVCN = nat (ia_numBlocks ia); newTotal = wrap64 (ia_totalBytes ia + blockSize);
         newBitmap = growBitmap oldBitmap newVCN;
         candidate = (\<lambda>runs. rebuildDirRecIndexAlloc dirRec runs newTotal newBitmap cs) in
     bindS (allocContiguousClusters 1) (\<lambda>newRuns.
     bindS (readV (\<lambda>f v. candidate (mergeRuns (ia_runs ia) newRuns))) (\<lambda>rec.
       if recSize < int (length rec)
       then bindS (freeRuns newRuns) (\<lambda>_.
            bindS (wrapS ''appendEntryToIndexAlloc: repack'' (repackIndexAlloc (ia_runs ia) newVCN entry)) (\<lambda>runs.
            bindS (readV (\<lambda>f v. candidate runs)) (\<lambda>rec2.
              if recSize < int (length rec2) then failS (Err ''appendEntryToIndexAlloc: record exceeds recSize after repack'')
              else putRecord dirNum rec2)))
       else bindS (readV (\<lambda>f v. bindR (buildINDXBlock (int newVCN) entry blockSize) (\<lambda>b. Inr (b, wrap64 (rn_lcn (hd newRuns) * cs))))) (\<lambda>(b, off).
            bindS (wrapS ''appendEntryToIndexAlloc: write new INDX block'' (partWrite b off)) (\<lambda>_. putRecord dirNum rec)))))"

definition appendEntryToIndexAlloc :: "bytes \<Rightarrow> u64 \<Rightarrow> bytes \<Rightarrow> (nstate, unit) sop" where
  "appendEntryToIndexAlloc dirRec dirNum entry =
     bindS (readV (\<lambda>f v. index_alloc v dirRec)) (\<lambda>ia.
     bindS (readV (\<lambda>f v. last_block f v ia entry)) (\<lambda>r. case r of
       Some block \<Rightarrow> bindS (readV (\<lambda>f v. Inr (wrap64 (ia_lastLCN ia * nv_clusterSize v)))) (\<lambda>off.
                       wrapS ''appendEntryToIndexAlloc: write INDX block'' (partWrite block off))
     | None \<Rightarrow> grow_index_alloc dirRec dirNum entry ia))"

subsection \<open>Adding and removing entries\<close>

text \<open>What \<open>addDirEntry\<close> does with the resident index: the new record, or the entries to spill.\<close>

definition root_with :: "ntfsVolume \<Rightarrow> bytes \<Rightarrow> bytes \<Rightarrow> (bytes + bytes list \<times> bytes) res" where
  "root_with v dirRec entry =
     bindR (find_index_off dirRec attrINDEX_ROOT) (\<lambda>r. case r of
       None \<Rightarrow> Inl (Err ''directory has no $INDEX_ROOT'')
     | Some off \<Rightarrow>
         bindR (value_range dirRec off) (\<lambda>(valOff, valLen).
         if length dirRec < valOff + valLen then Inl (Err ''$INDEX_ROOT value out of bounds'')
         else bindR (slice dirRec (valOff + 16) (valOff + valLen)) (\<lambda>hdr.
              bindR (insertIndexEntry hdr entry) (\<lambda>newHdr.
              let rootHdr = sub dirRec valOff 16; newVal = rootHdr @ newHdr;
                  projected = uint (get32 dirRec 0x18) - uint (get32 dirRec (off + 4)) + int (pad8 (40 + length newVal)) in
              if projected + 8 \<le> nv_recSize v then bindR (replace_root newVal dirRec) (\<lambda>rec. Inr (Inl rec))
              else bindR (collectRawIndexEntries (valLen - 16) (drop (valOff + 16) dirRec)) (\<lambda>es.
                     Inr (Inr (es @ [entry], rootHdr)))))))"

definition nt_addDirEntry :: "gotime \<Rightarrow> u64 \<Rightarrow> gostr \<Rightarrow> u64 \<Rightarrow> bool \<Rightarrow> (nstate, unit) sop" where
  "nt_addDirEntry now dirNum nm childNum isDir =
     bindS (getRecord dirNum) (\<lambda>dirRec.
     let entry = buildIndexEntry childNum (buildFileNameAttr now nm dirNum (file_attrs isDir)) in
     bindS (readV (\<lambda>f v. find_index_off dirRec attrINDEX_ALLOCATION)) (\<lambda>ia.
       if ia \<noteq> None then appendEntryToIndexAlloc dirRec dirNum entry
       else bindS (readV (\<lambda>f v. root_with v dirRec entry)) (\<lambda>r. case r of
              Inl rec \<Rightarrow> putRecord dirNum rec
            | Inr (es, rootHdr) \<Rightarrow> spillToIndexAlloc dirRec dirNum es rootHdr)))"

text \<open>A directory without a usable \<open>$INDEX_ROOT\<close> is left as it is (\<open>None\<close>).\<close>

definition root_without :: "unicode \<Rightarrow> bytes \<Rightarrow> gostr \<Rightarrow> bytes option res" where
  "root_without C dirRec nm =
     bindR (find_index_off dirRec attrINDEX_ROOT) (\<lambda>r. case r of
       None \<Rightarrow> Inr None
     | Some off \<Rightarrow>
         bindR (value_range dirRec off) (\<lambda>(valOff, valLen).
         if length dirRec < valOff + valLen then Inr None
         else bindR (slice dirRec (valOff + 16) (valOff + valLen)) (\<lambda>hdr.
              bindR (deleteIndexEntry C (valLen - 16) (drop (valOff + 16) dirRec) nm) (\<lambda>newHdr.
              bindR (replace_root (sub dirRec valOff 16 @ newHdr) dirRec) (\<lambda>rec. Inr (Some rec))))))"

definition nt_removeDirEntry :: "unicode \<Rightarrow> gostr \<Rightarrow> (nstate, unit) sop" where
  "nt_removeDirEntry C filePath =
     bindS (nt_lookupPath C (path_Dir filePath)) (\<lambda>(parentNum, dirRec).
     bindS (readV (\<lambda>f v. root_without C dirRec (path_Base filePath))) (\<lambda>r. case r of
       None \<Rightarrow> retS () | Some rec \<Rightarrow> putRecord parentNum rec))"

end
