(* ===== verification/NtfsWrite.thy ===== *)
theory NtfsWrite
  imports NtfsIndex
begin

text \<open>
  The NTFS driver, last part: the operations that change a volume (\<open>write.go\<close>, \<open>OpenFile\<close> and
  \<open>Close\<close> of \<open>read.go\<close>) and \<open>Unmount\<close> (\<open>flush.go\<close>).
\<close>

unbundle bit_operations_syntax

subsection \<open>File data\<close>

text \<open>The record with its new data: inside the record if there is room, else in new clusters.\<close>

definition nt_writeFileData :: "gotime \<Rightarrow> u64 \<Rightarrow> bytes \<Rightarrow> bytes \<Rightarrow> (nstate, unit) sop" where
  "nt_writeFileData now mftNum rec d =
     bindS (readV (\<lambda>f v. removeAttr rec attrDATA [])) (\<lambda>r1.
     bindS (readV (\<lambda>f v. maxResidentDataSize r1)) (\<lambda>room.
     bindS (if int (length d) \<le> room then readV (\<lambda>f v. appendResidentAttr r1 attrDATA d)
            else bindS (allocAndWrite d) (\<lambda>runs.
                   readV (\<lambda>f v. appendNonResidentAttr r1 attrDATA runs (int (length d)) (nv_clusterSize v)))) (\<lambda>r2.
     bindS (readV (\<lambda>f v. bindR (put_in 0x18 (le32 (of_nat (length r2))) r2) (setStdInfoMtime now))) (\<lambda>r3.
       putRecord mftNum r3))))"

definition flushFileWrite :: "gotime \<Rightarrow> ntfsFile \<Rightarrow> (nstate, unit) sop" where
  "flushFileWrite now h = bindS (getRecord (nf_mftNum h)) (\<lambda>rec. nt_writeFileData now (nf_mftNum h) rec (nf_writeBuf h))"

definition nf_Close :: "gotime \<Rightarrow> ntfsFile \<Rightarrow> (nstate, unit) sop" where
  "nf_Close now h = (if nf_writable h \<and> nf_writeBuf h \<noteq> [] then flushFileWrite now h else retS ())"

text \<open>The clusters of the data attribute are freed if its run list can be decoded.\<close>

definition data_runs :: "bytes \<Rightarrow> run list res" where
  "data_runs rec =
     bindR (findAttr rec attrDATA []) (\<lambda>a. case a of
       None \<Rightarrow> Inr []
     | Some d \<Rightarrow> bindR (at8 d 8) (\<lambda>nr.
         if nr = 0 then Inr []
         else bindR (at16 d 0x20) (\<lambda>rlOff.
                if length d \<le> unat rlOff then Inr []
                else bindR (optR (decodeRunlist (drop (unat rlOff) d))) (\<lambda>r. Inr (case r of None \<Rightarrow> [] | Some runs \<Rightarrow> runs)))))"

definition truncateFile :: "u64 \<Rightarrow> bytes \<Rightarrow> (nstate, unit) sop" where
  "truncateFile mftNum rec =
     bindS (readV (\<lambda>f v. data_runs rec)) (\<lambda>runs. bindS (freeRuns runs) (\<lambda>_.
     bindS (readV (\<lambda>f v. removeAttr rec attrDATA [])) (putRecord mftNum)))"

subsection \<open>Creating\<close>

definition createEntry :: "unicode \<Rightarrow> gotime \<Rightarrow> gostr \<Rightarrow> bool \<Rightarrow> (nstate, u64 \<times> bytes) sop" where
  "createEntry C now entryPath isDir =
     bindS (wrapS ''parent'' (nt_lookupPath C (path_Dir entryPath))) (\<lambda>(parentNum, _).
     bindS allocMFTRecord (\<lambda>mftNum.
     bindS (readV (\<lambda>f v. buildNewRecord now mftNum (path_Base entryPath) parentNum isDir (nv_recSize v))) (\<lambda>rec.
     bindS (putRecord mftNum rec) (\<lambda>_.
     bindS (nt_addDirEntry now parentNum (path_Base entryPath) mftNum isDir) (\<lambda>_. retS (mftNum, rec))))))"

definition nt_createFile :: "unicode \<Rightarrow> gotime \<Rightarrow> gostr \<Rightarrow> (nstate, u64 \<times> bytes) sop" where
  "nt_createFile C now filePath = createEntry C now filePath False"

definition createDir :: "unicode \<Rightarrow> gotime \<Rightarrow> gostr \<Rightarrow> (nstate, u64 \<times> bytes) sop" where
  "createDir C now dirPath = createEntry C now dirPath True"

definition nt_WriteFile :: "unicode \<Rightarrow> gotime \<Rightarrow> gostr \<Rightarrow> bytes \<Rightarrow> (nstate, unit) sop" where
  "nt_WriteFile C now nm d =
     bindS (wrapS ''writefile'' (tryS (nt_lookupPath C nm) (\<lambda>r. case r of
              Inr x \<Rightarrow> retS x
            | Inl e \<Rightarrow> if errors_Is e ErrNotExist then nt_createFile C now nm else failS e))) (\<lambda>(mftNum, rec).
     bindS (readV (\<lambda>f v. isDirRec rec)) (\<lambda>dir.
       if dir then failS (pathErr ''writefile'' ''is a directory'') else nt_writeFileData now mftNum rec d))"

text \<open>The flags \<open>O_WRONLY | O_RDWR\<close>, \<open>O_CREATE\<close> and \<open>O_TRUNC\<close> of \<open>OpenFile\<close>, as booleans.\<close>

definition nt_OpenFile :: "unicode \<Rightarrow> gotime \<Rightarrow> gostr \<Rightarrow> bool \<Rightarrow> bool \<Rightarrow> bool \<Rightarrow> (nstate, ntfsFile) sop" where
  "nt_OpenFile C now nm writable create trunc =
     bindS (tryS (nt_lookupPath C nm) (\<lambda>r. case r of
              Inl e \<Rightarrow> if \<not> errors_Is e ErrNotExist then failS (Wrapped ''open'' e)
                       else if \<not> create then failS (Wrapped ''open'' ErrNotExist)
                       else wrapS ''create'' (nt_createFile C now nm)
            | Inr (mftNum, rec) \<Rightarrow>
                if trunc then bindS (truncateFile mftNum rec) (\<lambda>_. bindS (getRecord mftNum) (\<lambda>rec'. retS (mftNum, rec')))
                else retS (mftNum, rec))) (\<lambda>(mftNum, rec).
       readV (\<lambda>f v. openRecord f v mftNum rec (path_Base nm) writable))"

definition nt_Create :: "unicode \<Rightarrow> gotime \<Rightarrow> gostr \<Rightarrow> (nstate, ntfsFile) sop" where
  "nt_Create C now nm = nt_OpenFile C now nm True True True"

definition nt_Mkdir :: "unicode \<Rightarrow> gotime \<Rightarrow> gostr \<Rightarrow> (nstate, unit) sop" where
  "nt_Mkdir C now nm =
     tryS (nt_lookupPath C nm) (\<lambda>r. case r of
       Inr _ \<Rightarrow> failS (Wrapped ''mkdir'' ErrExist)
     | Inl _ \<Rightarrow> bindS (createDir C now nm) (\<lambda>_. retS ()))"

text \<open>
  \<open>MkdirAll\<close> calls itself on the parent path, which is shorter until it is \<open>/\<close> or \<open>.\<close>; both are found
  by the lookup.  \<open>k\<close> bounds the calls; running out is the error \<open>Diverge\<close>.
\<close>

fun mkdir_all :: "unicode \<Rightarrow> gotime \<Rightarrow> nat \<Rightarrow> gostr \<Rightarrow> (nstate, unit) sop" where
  "mkdir_all C now 0 nm = failS Diverge"
| "mkdir_all C now (Suc k) nm =
     tryS (nt_lookupPath C nm) (\<lambda>r. case r of
       Inr _ \<Rightarrow> retS ()
     | Inl _ \<Rightarrow>
         let parent = path_Dir nm in
         bindS (if parent \<noteq> [slash] \<and> parent \<noteq> nm then mkdir_all C now k parent else retS ()) (\<lambda>_.
         tryS (nt_Mkdir C now nm) (\<lambda>r2. case r2 of
           Inl e \<Rightarrow> if errors_Is e ErrExist then retS () else failS e
         | Inr _ \<Rightarrow> retS ())))"

definition nt_MkdirAll :: "unicode \<Rightarrow> gotime \<Rightarrow> gostr \<Rightarrow> (nstate, unit) sop" where
  "nt_MkdirAll C now nm = mkdir_all C now (length nm + 2) nm"

subsection \<open>Removing and renaming\<close>

definition unlinkEntry :: "unicode \<Rightarrow> u64 \<Rightarrow> bytes \<Rightarrow> gostr \<Rightarrow> (nstate, unit) sop" where
  "unlinkEntry C mftNum rec nm =
     bindS (readV (\<lambda>f v. data_runs rec)) (\<lambda>runs. bindS (freeRuns runs) (\<lambda>_.
     bindS (readV (\<lambda>f v. bindR (at16 rec 0x16) (\<lambda>fl. put_in 0x16 (le16 (fl AND NOT mftFlagInUse)) rec))) (\<lambda>rec'.
     bindS (putRecord mftNum rec') (\<lambda>_.
     bindS (modV (\<lambda>v. v\<lparr>nv_mftBitmap := freeMFTSlot mftNum (nv_mftBitmap v), nv_dirty := True\<rparr>)) (\<lambda>_.
       nt_removeDirEntry C nm)))))"

text \<open>The entries of a directory; an error counts as none.\<close>

definition entries_of :: "bytes \<Rightarrow> (nstate, ntfsDirEntry list) sop" where
  "entries_of rec = tryS (readV (\<lambda>f v. readDirEntries f v rec)) (\<lambda>r. retS (case r of Inr es \<Rightarrow> es | Inl _ \<Rightarrow> []))"

definition nt_Remove :: "unicode \<Rightarrow> gostr \<Rightarrow> (nstate, unit) sop" where
  "nt_Remove C nm =
     bindS (wrapS ''remove'' (nt_lookupPath C nm)) (\<lambda>(mftNum, rec).
     bindS (readV (\<lambda>f v. isDirRec rec)) (\<lambda>dir.
     bindS (if dir then entries_of rec else retS []) (\<lambda>es.
       if es \<noteq> [] then failS (pathErr ''remove'' ''directory not empty'') else unlinkEntry C mftNum rec nm)))"

text \<open>\<open>RemoveAll\<close>; \<open>k\<close> bounds the depth of the tree, and running out is the error \<open>Diverge\<close>.\<close>

fun nt_RemoveAll :: "unicode \<Rightarrow> nat \<Rightarrow> gostr \<Rightarrow> (nstate, unit) sop" where
  "nt_RemoveAll C 0 nm = failS Diverge"
| "nt_RemoveAll C (Suc k) nm =
     tryS (nt_lookupPath C nm) (\<lambda>r. case r of
       Inl e \<Rightarrow> if errors_Is e ErrNotExist then retS () else failS e
     | Inr (mftNum, rec) \<Rightarrow>
         bindS (readV (\<lambda>f v. isDirRec rec)) (\<lambda>dir.
         bindS (if dir then entries_of rec else retS []) (\<lambda>es.
         bindS (for_each (\<lambda>e. nt_RemoveAll C k (path_Join nm (fi_name (nde_info e)))) es) (\<lambda>_.
           unlinkEntry C mftNum rec nm))))"

definition nt_Rename :: "unicode \<Rightarrow> gotime \<Rightarrow> gostr \<Rightarrow> gostr \<Rightarrow> (nstate, unit) sop" where
  "nt_Rename C now oldpath newpath =
     bindS (wrapS ''rename'' (nt_lookupPath C oldpath)) (\<lambda>(mftNum, rec).
     bindS (nt_removeDirEntry C oldpath) (\<lambda>_.
     bindS (wrapS ''rename'' (nt_lookupPath C (path_Dir newpath))) (\<lambda>(newParentNum, _).
     bindS (readV (\<lambda>f v. updateFileName (path_Base newpath) newParentNum rec)) (\<lambda>rec'.
     bindS (putRecord mftNum rec') (\<lambda>_.
     bindS (readV (\<lambda>f v. isDirRec rec')) (\<lambda>dir.
       nt_addDirEntry now newParentNum (path_Base newpath) mftNum dir))))))"

subsection \<open>Links and attributes\<close>

definition nt_Symlink :: "unicode \<Rightarrow> gotime \<Rightarrow> gostr \<Rightarrow> gostr \<Rightarrow> (nstate, unit) sop" where
  "nt_Symlink C now oldname newname =
     bindS (wrapS ''symlink'' (nt_createFile C now newname)) (\<lambda>(mftNum, rec).
     bindS (readV (\<lambda>f v. bindR (appendResidentAttr rec attrREPARSE_POINT (buildReparsePoint reparseSymlink oldname)) (\<lambda>r.
              put_in 0x18 (le32 (of_nat (length r))) r))) (putRecord mftNum))"

definition nt_Link :: "unicode \<Rightarrow> gotime \<Rightarrow> gostr \<Rightarrow> gostr \<Rightarrow> (nstate, unit) sop" where
  "nt_Link C now oldname newname =
     bindS (wrapS ''link'' (nt_lookupPath C oldname)) (\<lambda>(mftNum, rec).
     bindS (readV (\<lambda>f v. bindR (at16 rec 0x12) (\<lambda>lc. put_in 0x12 (le16 (lc + 1)) rec))) (\<lambda>rec1.
     bindS (wrapS ''link'' (nt_lookupPath C (path_Dir newname))) (\<lambda>(newParentNum, _).
     bindS (readV (\<lambda>f v. appendResidentAttr rec1 attrFILE_NAME (buildFileNameAttr now (path_Base newname) newParentNum 0))) (\<lambda>rec2.
     bindS (putRecord mftNum rec2) (\<lambda>_.
       nt_addDirEntry now newParentNum (path_Base newname) mftNum False)))))"

text \<open>Where the value of \<open>$STANDARD_INFORMATION\<close> starts, which must have \<open>n\<close> bytes inside the record.\<close>

definition std_info_off :: "bytes \<Rightarrow> nat \<Rightarrow> nat res" where
  "std_info_off rec n =
     bindR (findAttrOffset rec attrSTANDARD_INFORMATION []) (\<lambda>r. case r of
       None \<Rightarrow> Inl (Err ''no $STANDARD_INFORMATION'')
     | Some off \<Rightarrow> bindR (at16 rec (off + 0x14)) (\<lambda>o'.
         if length rec < off + unat o' + n then Inl (Err ''$STANDARD_INFORMATION too short'') else Inr (off + unat o')))"

definition nt_Chmod :: "unicode \<Rightarrow> gostr \<Rightarrow> u32 \<Rightarrow> (nstate, unit) sop" where
  "nt_Chmod C nm mode =
     bindS (wrapS ''chmod'' (nt_lookupPath C nm)) (\<lambda>(mftNum, rec).
     bindS (readV (\<lambda>f v. bindR (std_info_off rec 0x24) (\<lambda>off.
              let attrs = get32 rec (off + 0x20) in
              Inr (put32 rec (off + 0x20) (if mode AND 0x80 = 0 then attrs OR faReadOnly else attrs AND NOT faReadOnly))))) (putRecord mftNum))"

definition nt_Chown :: "gostr \<Rightarrow> int \<Rightarrow> int \<Rightarrow> (nstate, unit) sop" where
  "nt_Chown nm uid gid = retS ()"

definition nt_Chtimes :: "unicode \<Rightarrow> gostr \<Rightarrow> gotime \<Rightarrow> gotime \<Rightarrow> (nstate, unit) sop" where
  "nt_Chtimes C nm atime mtime =
     bindS (wrapS ''chtimes'' (nt_lookupPath C nm)) (\<lambda>(mftNum, rec).
     bindS (readV (\<lambda>f v. bindR (std_info_off rec 0x20) (\<lambda>off.
              Inr (puts [(off + 0x08, le64 (of_int (timeToFiletime mtime))), (off + 0x18, le64 (of_int (timeToFiletime atime)))] rec))))
       (putRecord mftNum))"

subsection \<open>Unmounting\<close>

text \<open>\<open>copy(rec[av:], d)\<close> for the value of the attribute at \<open>off\<close>.\<close>

definition over_value :: "bytes \<Rightarrow> nat \<Rightarrow> bytes \<Rightarrow> bytes res" where
  "over_value rec off d = bindR (at16 rec (off + 0x14)) (\<lambda>o'. copy_at (off + unat o') d rec)"

definition flushBitmap :: "(nstate, unit) sop" where
  "flushBitmap =
     bindS (readV (\<lambda>f v. Inr (nv_bitmap v))) (\<lambda>bm.
     bindS (getRecord recBitmap) (\<lambda>rec.
     bindS (readV (\<lambda>f v. findAttr rec attrDATA [])) (\<lambda>a. case a of
       None \<Rightarrow> failS (Err ''$Bitmap has no $DATA attribute'')
     | Some attr \<Rightarrow>
         bindS (readV (\<lambda>f v. bindR (at8 attr 8) (\<lambda>nr. bindR (findAttrOffset rec attrDATA []) (\<lambda>off. Inr (if nr = 0 then off else None))))) (\<lambda>r.
           case r of
             Some off \<Rightarrow> bindS (readV (\<lambda>f v. over_value rec off bm)) (putRecord recBitmap)
           | None \<Rightarrow>
               bindS (readV (\<lambda>f v. bindR (at16 attr 0x20) (\<lambda>rlOff.
                        if length attr \<le> unat rlOff then Inl (Err ''$Bitmap runlist offset out of bounds'')
                        else decodeRunlist (drop (unat rlOff) attr)))) (\<lambda>runs. writeRunsData runs bm)))))"

text \<open>
  The record of \<open>$MFT\<close> with the new record bitmap in place: over the old value if it fits, else in a
  new attribute, cut to what the record can hold.
\<close>

definition mft_bitmap_record :: "ntfsVolume \<Rightarrow> bytes \<Rightarrow> nat \<Rightarrow> bytes res" where
  "mft_bitmap_record v rec off =
     (let bm = nv_mftBitmap v in
      bindR (value_range rec off) (\<lambda>(av, origValLen).
      if length bm \<le> origValLen then put_in av (bm @ zeros (origValLen - length bm)) rec
      else let usedAfterRemove = uint (get32 rec 0x18) - uint (get32 rec (off + 4));
               maxBMLen = max (nv_recSize v - usedAfterRemove - 24 - 8) (int origValLen)
           in bindR (removeAttr rec attrBITMAP []) (\<lambda>r1.
              bindR (appendResidentAttr r1 attrBITMAP (take (nat maxBMLen) bm)) (\<lambda>r2.
                if nv_recSize v < int (length r2)
                then put_in 0x18 (le32 (of_int (nv_recSize v))) (take (nat (nv_recSize v)) r2) else Inr r2))))"

definition flushMFTBitmap :: "(nstate, unit) sop" where
  "flushMFTBitmap =
     bindS (readV (\<lambda>f v. Inr (nv_mftBitmap v))) (\<lambda>bm.
     if bm = [] then retS ()
     else bindS (getRecord 0) (\<lambda>rec.
          bindS (readV (\<lambda>f v. findAttr rec attrBITMAP [])) (\<lambda>a. case a of
            None \<Rightarrow> retS ()
          | Some attr \<Rightarrow>
              bindS (readV (\<lambda>f v. at8 attr 8)) (\<lambda>nr.
              if nr \<noteq> 0
              then bindS (readV (\<lambda>f v. bindR (at16 attr 0x20) (\<lambda>rlOff.
                            if length attr \<le> unat rlOff then Inr [] else decodeRunlist (drop (unat rlOff) attr)))) (\<lambda>runs. writeRunsData runs bm)
              else bindS (readV (\<lambda>f v. bindR (findAttrOffset rec attrBITMAP []) (\<lambda>off. case off of
                            None \<Rightarrow> Inr None | Some o' \<Rightarrow> bindR (mft_bitmap_record v rec o') (\<lambda>r. Inr (Some r))))) (\<lambda>r. case r of
                     None \<Rightarrow> retS () | Some rec' \<Rightarrow> putRecord 0 rec')))))"

text \<open>The record of \<open>$Volume\<close> with the dirty flag cleared, if it has the attribute inside the record.\<close>

definition clean_record :: "bytes \<Rightarrow> bytes option res" where
  "clean_record rec =
     bindR (findAttr rec attrVOLUME_INFORMATION []) (\<lambda>a. case a of
       None \<Rightarrow> Inr None
     | Some attr \<Rightarrow> bindR (at8 attr 8) (\<lambda>nr.
         if nr \<noteq> 0 then Inr None
         else bindR (findAttrOffset rec attrVOLUME_INFORMATION []) (\<lambda>off. case off of
                None \<Rightarrow> Inr None
              | Some o' \<Rightarrow> bindR (at16 rec (o' + 0x14)) (\<lambda>w.
                  let av = o' + unat w in
                  Inr (if length rec < av + 10 then None else Some (rec[av + 8 := rec ! (av + 8) AND NOT 1]))))))"

definition markVolumeClean :: "(nstate, unit) sop" where
  "markVolumeClean =
     tryS (getRecord 3) (\<lambda>r. case r of
       Inl _ \<Rightarrow> retS ()
     | Inr rec \<Rightarrow> bindS (readV (\<lambda>f v. clean_record rec)) (\<lambda>r2. case r2 of None \<Rightarrow> retS () | Some rec' \<Rightarrow> putRecord 3 rec'))"

definition nt_Unmount :: "(nstate, unit) sop" where
  "nt_Unmount =
     bindS (readV (\<lambda>f v. Inr (nv_dirty v))) (\<lambda>dirty.
     if \<not> dirty then retS ()
     else bindS (wrapS ''ntfs.Unmount: flush $Bitmap'' flushBitmap) (\<lambda>_.
          bindS (wrapS ''ntfs.Unmount: flush MFT bitmap'' flushMFTBitmap) (\<lambda>_.
          bindS (wrapS ''ntfs.Unmount: mark clean'' markVolumeClean) (\<lambda>_.
            modV (\<lambda>v. v\<lparr>nv_dirty := False\<rparr>)))))"

end
