(* ===== verification/NtfsWritten.thy ===== *)
theory NtfsWritten
  imports NtfsContent NtfsWrite
begin

text \<open>
  Writing the data of a file: the record and the clusters are written to the image, and reading them
  gives the data back.  What \<open>buildNewRecord\<close> makes for a file is a record of a file, empty
  and with the name that was asked for.
\<close>

unbundle bit_operations_syntax

section \<open>Writing the data of a file\<close>

subsection \<open>Storing a record\<close>

lemma cache_record_fields [simp]:
  "nv_base (cache_record n rec v) = nv_base v" "nv_clusterSize (cache_record n rec v) = nv_clusterSize v"
  "nv_recSize (cache_record n rec v) = nv_recSize v" "nv_mftOff (cache_record n rec v) = nv_mftOff v"
  "nv_bitmap (cache_record n rec v) = nv_bitmap v" "map_of (nv_mftCache (cache_record n rec v)) n = Some rec"
  by (simp_all add: cache_record_def AList.update_conv')

lemma slot_ok_cong: "nv_base v' = nv_base v \<Longrightarrow> nv_mftOff v' = nv_mftOff v \<Longrightarrow> nv_recSize v' = nv_recSize v \<Longrightarrow> slot_ok v' n = slot_ok v n \<and> rec_off v' n = rec_off v n"
  by (simp add: slot_ok_def rec_off_def)

lemma store_record:
  assumes "file_record v rec as" "slot_ok v n" "\<not> closed f"
  obtains b disk where
    "putRecord n rec (f, v) = (Inr (), (f\<lparr>contents := write_bytes (contents f) (rec_off v n) b\<rparr>, (cache_record n rec v)\<lparr>nv_dirty := True\<rparr>))"
    "length b = nat (nv_recSize v)" "rec_attrs disk as"
    "readRawRecord (f\<lparr>contents := write_bytes (contents f) (rec_off v n) b\<rparr>) ((cache_record n rec v)\<lparr>nv_dirty := True\<rparr>) n = Inr disk"
proof -
  obtain b disk where b: "putRecord n rec (f, v) = (Inr (), (f\<lparr>contents := write_bytes (contents f) (rec_off v n) b\<rparr>, (cache_record n rec v)\<lparr>nv_dirty := True\<rparr>))"
    "length b = nat (nv_recSize v)" "take 4 b = bs ''FILE''" "applyUSA b = disk" "same_outside disk (padded v rec)"
    using putRecord_slot [OF assms(2) file_record_rec_ok(1) [OF assms(1)] assms(3)] by metis
  let ?f = "f\<lparr>contents := write_bytes (contents f) (rec_off v n) b\<rparr>"
  let ?v = "(cache_record n rec v)\<lparr>nv_dirty := True\<rparr>"
  have same: "slot_ok ?v n" "rec_off ?v n = rec_off v n" using slot_ok_cong [of ?v v n] assms(2) by simp_all
  have "sub (contents ?f) (rec_off ?v n) (nat (nv_recSize ?v)) = b"
    using fstore.rd_wr_same [of "contents f" "rec_off v n" b] b(2) by (simp add: same(2))
  then have "readRawRecord ?f ?v n = Inr disk"
    using readRawRecord_slot [OF same(1), of ?f b] b(2,3,4) assms(3) by simp
  then show thesis using that b(1,2) stored_attrs [OF assms(1) b(5)] by blast
qed

lemma file_bytes_attrs: "rec_attrs rec as \<Longrightarrow> find (hit attrDATA []) as = Some b \<Longrightarrow> file_bytes f v rec = attrValue f v b"
  by (simp add: file_bytes_def findAttr_find)

lemma file_record_cong:
  "nv_recSize v' = nv_recSize v \<Longrightarrow> file_record v' rec as = file_record v rec as"
  by (simp add: file_record_def)

lemma unat_u32_lt: "unat (w :: u32) < 2 ^ 32"
  using unsigned_less [of w] by simp

lemma pad8_le: "8 dvd m \<Longrightarrow> n \<le> m \<Longrightarrow> pad8 n \<le> m"
  using pad8_bounds(2,3) [of n] by (auto elim!: dvdE)

lemma removed_dvd: "\<forall>a \<in> set as. 8 dvd length a \<Longrightarrow> 8 dvd removed P as"
  by (cases P as rule: without_cases) auto

subsection \<open>Contents inside the record\<close>

text \<open>The outcome of a write that took the clusters \<open>ls\<close>.\<close>

definition wrote :: "nstate \<Rightarrow> u64 \<Rightarrow> bytes \<Rightarrow> nat list \<Rightarrow> nstate \<Rightarrow> bool" where
  "wrote s n d ls s' \<longleftrightarrow> (case (s, s') of ((f, v), (f', v')) \<Rightarrow>
     (\<exists>rec as disk. getRecord n (f', v') = (Inr rec, (f', v')) \<and> file_record v' rec as \<and> file_bytes f' v' rec = Inr d \<and>
        readRawRecord f' v' n = Inr disk \<and> file_bytes f' v' disk = Inr d) \<and>
     took (nv_bitmap v) ls (nv_bitmap v') \<and> length (contents f) \<le> length (contents f') \<and>
     (\<forall>p < length (contents f). (p < rec_off v n \<or> rec_off v n + nat (nv_recSize v) \<le> p) \<longrightarrow>
        (\<forall>l \<in> set ls. p < clu_off v l \<or> clu_off v l + nat (nv_clusterSize v) \<le> p) \<longrightarrow> contents f' ! p = contents f ! p))"

lemma removed_room:
  assumes "file_record v rec as" "removeAttr rec attrDATA [] = Inr r1" "same_header r1 rec" "get32 r1 0x18 = get32 rec 0x18 - of_nat (removed (hit attrDATA []) as)"
    "rec_attrs r1 (without (hit attrDATA []) as)"
  shows "maxResidentDataSize r1 = Inr (room v rec as)"
proof -
  have fr: "rec_attrs rec as" "get32 rec 0x1C = of_int (nv_recSize v)" "first_attr rec + length (concat as) + 8 \<le> unat (get32 rec 0x18)"
     "int (length rec) \<le> nv_recSize v" "nv_recSize v < 2 ^ 32"
    using assms(1) by (simp_all add: file_record_def)
  have l: "0x30 \<le> first_attr rec" "first_attr rec \<le> length rec" "first_attr r1 = first_attr rec" "first_attr r1 \<le> length r1"
    using rec_attrs_len [OF fr(1)] rec_attrs_len [OF assms(5)] assms(3) by (simp_all add: same_header_def)
  have a: "get32 r1 0x1C = of_int (nv_recSize v)" using same_header_fields(4) [OF assms(3)] l fr(2) by simp
  have rm: "removed (hit attrDATA []) as \<le> unat (get32 rec 0x18)" using removed_le(1) [of "hit attrDATA []" as] fr(3) by linarith
  then have "unat (get32 r1 0x18) = unat (get32 rec 0x18) - removed (hit attrDATA []) as"
  proof -
    have "removed (hit attrDATA []) as < 2 ^ 32" using rm unat_u32_lt by (rule le_less_trans)
    then have u: "unat (of_nat (removed (hit attrDATA []) as) :: u32) = removed (hit attrDATA []) as" by (rule unat_of_nat32)
    then have "(of_nat (removed (hit attrDATA []) as) :: u32) \<le> get32 rec 0x18" using rm by (simp add: word_le_nat_alt)
    then show ?thesis unfolding assms(4) using u by (simp add: unat_sub)
  qed
  then have "uint (get32 r1 0x18) = uint (get32 rec 0x18) - int (removed (hit attrDATA []) as)" using rm by (simp only: uint_nat of_nat_diff)
  moreover have "uint (of_int (nv_recSize v) :: u32) = nv_recSize v" using fr(4,5) by (simp add: uint_word_of_int)
  ultimately show ?thesis using l by (simp add: maxResidentDataSize_def at_inside a room_def)
qed

text \<open>The part of \<open>nt_writeFileData\<close> behind the choice of the place.\<close>

lemma finish_write:
  assumes "file_record v rec as" "slot_ok v n" "\<not> closed f" "same_header r1 rec" "length r1 = length rec - removed (hit attrDATA []) as"
    and "rec_attrs r2 (without (hit attrDATA []) as @ [b])" "same_header r2 r1" "length r2 = max (length r1) k"
    and "k = first_attr rec + length (concat (without (hit attrDATA []) as)) + length b + 8" "int k \<le> nv_recSize v"
    and "8 dvd length b" "a_type b = attrDATA"
    and val: "\<And>bb r3. length bb = nat (nv_recSize v) \<Longrightarrow>
      attrValue (f\<lparr>contents := write_bytes (contents f) (rec_off v n) bb\<rparr>) ((cache_record n r3 v)\<lparr>nv_dirty := True\<rparr>) b = Inr d"
  shows "\<exists>q r3 s'. put_in 0x18 (le32 (of_nat (length r2))) r2 = Inr q \<and> setStdInfoMtime now q = Inr r3 \<and>
    putRecord n r3 (f, v) = (Inr (), s') \<and> wrote (f, v) n d [] s'"
proof -
  define B where "B = touch now (without (hit attrDATA []) as @ [b])"
  obtain r3 where r3: "bindR (put_in 0x18 (le32 (of_nat (length r2))) r2) (setStdInfoMtime now) = Inr r3"
    "file_record v r3 B" "findAttr r3 attrDATA [] = Inr (Some b)"
    using finish_record [OF assms(1,4-12)] unfolding B_def by metis
  obtain q where q: "put_in 0x18 (le32 (of_nat (length r2))) r2 = Inr q" "setStdInfoMtime now q = Inr r3" using r3(1) by auto
  obtain bb disk where st: "putRecord n r3 (f, v) = (Inr (), (f\<lparr>contents := write_bytes (contents f) (rec_off v n) bb\<rparr>, (cache_record n r3 v)\<lparr>nv_dirty := True\<rparr>))"
    "length bb = nat (nv_recSize v)" "rec_attrs disk B"
    "readRawRecord (f\<lparr>contents := write_bytes (contents f) (rec_off v n) bb\<rparr>) ((cache_record n r3 v)\<lparr>nv_dirty := True\<rparr>) n = Inr disk"
    using store_record [OF r3(2) assms(2,3)] by metis
  let ?f = "f\<lparr>contents := write_bytes (contents f) (rec_off v n) bb\<rparr>"
  let ?v = "(cache_record n r3 v)\<lparr>nv_dirty := True\<rparr>"
  have a: "rec_attrs r3 B" using r3(2) by (simp add: file_record_def)
  have fd: "find (hit attrDATA []) B = Some b" using r3(3) findAttr_find [OF a] by simp
  have "wrote (f, v) n d [] (?f, ?v)"
    unfolding wrote_def prod.case
  proof (intro conjI exI)
    show "getRecord n (?f, ?v) = (Inr r3, (?f, ?v))" by (simp add: getRecord_def)
    show "file_record ?v r3 B" using r3(2) file_record_cong [of ?v v] by simp
    show "file_bytes ?f ?v r3 = Inr d" using file_bytes_attrs [OF a fd] val [OF st(2)] by simp
    show "readRawRecord ?f ?v n = Inr disk" by (rule st(4))
    show "file_bytes ?f ?v disk = Inr d" using file_bytes_attrs [OF st(3) fd] val [OF st(2)] by simp
    show "took (nv_bitmap v) [] (nv_bitmap ?v)" by (simp add: took_Nil)
    show "length (contents f) \<le> length (contents ?f)" by (simp add: length_write_bytes)
    show "\<forall>p < length (contents f). (p < rec_off v n \<or> rec_off v n + nat (nv_recSize v) \<le> p) \<longrightarrow>
        (\<forall>l \<in> set []. p < clu_off v l \<or> clu_off v l + nat (nv_clusterSize v) \<le> p) \<longrightarrow> contents ?f ! p = contents f ! p"
      using st(2) by (auto simp: nth_write_bytes)
  qed
  then show ?thesis using q st(1) by blast
qed

lemma write_resident:
  assumes "file_record v rec as" "slot_ok v n" "\<not> closed f" "int (length d) \<le> room v rec as"
  shows "\<exists>s'. nt_writeFileData now n rec d (f, v) = (Inr (), s') \<and> wrote (f, v) n d [] s'"
proof -
  have fr: "rec_attrs rec as" "first_attr rec + length (concat as) + 8 \<le> unat (get32 rec 0x18)" "8 dvd nv_recSize v" "8 dvd unat (get32 rec 0x18)"
    "\<forall>a \<in> set as. 8 dvd length a" "nv_recSize v < 2 ^ 32"
    using assms(1) by (simp_all add: file_record_def)
  obtain r1 where r1: "removeAttr rec attrDATA [] = Inr r1" "rec_attrs r1 (without (hit attrDATA []) as)" "same_header r1 rec"
    "length r1 = length rec - removed (hit attrDATA []) as" "get32 r1 0x18 = get32 rec 0x18 - of_nat (removed (hit attrDATA []) as)"
    using removeAttr_ok [OF fr(1)] by metis
  note room = removed_room [OF assms(1) r1(1,3,5,2)]
  define N where "N = pad8 (24 + length d)"
  define fin where "fin = first_attr rec + length (concat (without (hit attrDATA []) as)) + N + 8"
  have fits: "int fin \<le> nv_recSize v" "N < 2 ^ 32"
  proof -
    define R where "R = removed (hit attrDATA []) as"
    define U where "U = unat (get32 rec 0x18)"
    define RS where "RS = nat (nv_recSize v)"
    have le: "R \<le> length (concat as)" "length (concat (without (hit attrDATA []) as)) = length (concat as) - R" unfolding R_def by (rule removed_le)+
    have d: "int (24 + length d) \<le> int RS - int U + int R" 
    proof -
      have "uint (get32 rec 0x18) = int U" unfolding U_def by (rule uint_nat)
      moreover have "int RS = nv_recSize v" using assms(2) by (simp add: RS_def slot_ok_def)
      ultimately show ?thesis using assms(4) by (simp add: room_def R_def)
    qed
    have rs: "nv_recSize v = int RS" using assms(2) by (simp add: RS_def slot_ok_def)
    have "8 dvd RS" using fr(3) unfolding rs by presburger
    moreover have "8 dvd U" "8 dvd R" using fr(4) removed_dvd [OF fr(5)] by (simp_all add: U_def R_def)
    moreover have ru: "R \<le> U" using fr(2) le(1) by (simp add: U_def)
    ultimately have "8 dvd RS - (U - R)" by (intro dvd_diff_nat)
    moreover have "24 + length d \<le> RS - (U - R)" using d ru by linarith
    ultimately have "N \<le> RS - (U - R)" unfolding N_def by (rule pad8_le)
    moreover have "24 + length d \<le> N" unfolding N_def by (rule pad8_bounds)
    ultimately show "int fin \<le> nv_recSize v" using fr(2) le ru unfolding fin_def rs U_def [symmetric] by linarith
    then show "N < 2 ^ 32" using fr(6) by (simp add: fin_def)
  qed
  have ne: "attrDATA \<noteq> attrEND" by (simp add: attrDATA_def attrEND_def)
  define b where "b = resident_blob attrDATA d (get16 r1 0x28)"
  have lb: "length b = N" using resident_blob_fields(8) [OF fits(2) [unfolded N_def]] by (simp add: b_def N_def)
  have f1: "first_attr r1 = first_attr rec" using r1(3) by (simp add: same_header_def)
  obtain r2 where r2: "appendResidentAttr r1 attrDATA d = Inr r2" "rec_attrs r2 (without (hit attrDATA []) as @ [b])" "same_header r2 r1"
    "length r2 = max (length r1) fin"
    using appendResidentAttr_ok [OF r1(2) fits(2) [unfolded N_def] ne] unfolding fin_def N_def b_def f1 by metis
  have "8 dvd N" by (simp add: N_def pad8_bounds)
  have "\<exists>q r3 s'. put_in 0x18 (le32 (of_nat (length r2))) r2 = Inr q \<and> setStdInfoMtime now q = Inr r3 \<and>
    putRecord n r3 (f, v) = (Inr (), s') \<and> wrote (f, v) n d [] s'"
  proof (rule finish_write [OF assms(1-3) r1(3,4) r2(2,3,4)])
    show "8 dvd length b" by (simp add: lb N_def pad8_bounds)
    show "a_type b = attrDATA" unfolding b_def by (rule resident_blob_ok(2) [OF fits(2) [unfolded N_def] ne])
    show "attrValue f' v' b = Inr d" for f' v' unfolding b_def by (rule resident_blob_ok(4) [OF fits(2) [unfolded N_def] ne])
  qed (use fits(1) in \<open>simp_all add: fin_def lb\<close>)
  then show ?thesis using r1(1) room assms(4) r2(1) by (auto simp: nt_writeFileData_def readV_def bindS_def readS_def)
qed

subsection \<open>Contents in clusters\<close>

text \<open>The slot of the record lies in no cluster that is free.\<close>

definition slot_apart :: "ntfsVolume \<Rightarrow> u64 \<Rightarrow> bool" where
  "slot_apart v n \<longleftrightarrow> (\<forall>l \<in> free_clusters (nv_bitmap v).
     clu_off v l + nat (nv_clusterSize v) \<le> rec_off v n \<or> rec_off v n + nat (nv_recSize v) \<le> clu_off v l)"

definition clusters_for :: "ntfsVolume \<Rightarrow> bytes \<Rightarrow> nat" where
  "clusters_for v d = nat ((int (length d) + nv_clusterSize v - 1) div nv_clusterSize v)"

text \<open>Room for the header of a data attribute and a run list of one run, behind the other attributes.\<close>

definition run_room :: "ntfsVolume \<Rightarrow> bytes \<Rightarrow> bytes list \<Rightarrow> bool" where
  "run_room v rec as \<longleftrightarrow> int (first_attr rec + length (concat (without (hit attrDATA []) as)) + 96) \<le> nv_recSize v"

lemma encode_one_run: "run_ok r \<Longrightarrow> length (encodeRunlist [r]) \<le> 18"
proof -
  assume r: "run_ok r"
  have "minBytesUnsigned (rn_length r) \<le> 8" using minBytesUnsigned_ok(3) r by (simp add: run_ok_def)
  moreover have "minBytesSigned (wrap64 (rn_lcn r)) \<le> 8"
    using minBytesSigned_ok [of "wrap64 (rn_lcn r)"] wrap64_range [of "rn_lcn r"] by simp
  ultimately show ?thesis by (simp add: encodeRunlist_def encode_run_def Let_def)
qed

lemma runs_in_ok: "runs_in N runs \<Longrightarrow> \<forall>r \<in> set runs. run_ok r"
  by (auto simp: runs_in_def run_ok_def)

lemma holds_cong: "nv_base v' = nv_base v \<Longrightarrow> nv_clusterSize v' = nv_clusterSize v \<Longrightarrow> holds c v' d j ls = holds c v d j ls"
  by (simp add: holds_def clu_off_def)

lemma holds_record:
  assumes "holds c v d j ls" "0 < nv_clusterSize v"
    and "\<forall>l \<in> set ls. clu_off v l + nat (nv_clusterSize v) \<le> o' \<or> o' + length b \<le> clu_off v l"
  shows "holds (write_bytes c o' b) v d j ls"
  unfolding holds_def
proof (intro allI impI)
  fix i assume i: "i < length ls"
  have s: "sub c (clu_off v (ls ! i)) (nat (nv_clusterSize v)) = nt_data_chunk d (nat (nv_clusterSize v)) (j + i)" using assms(1) i by (simp add: holds_def)
  have "min (nat (nv_clusterSize v)) (length c - clu_off v (ls ! i)) = nat (nv_clusterSize v)" using arg_cong [OF s, of length] by simp
  then have "clu_off v (ls ! i) + nat (nv_clusterSize v) \<le> length c" using assms(2) by linarith
  moreover have "clu_off v (ls ! i) + nat (nv_clusterSize v) \<le> o' \<or> o' + length b \<le> clu_off v (ls ! i)" using assms(3) i by simp
  ultimately show "sub (write_bytes c o' b) (clu_off v (ls ! i)) (nat (nv_clusterSize v)) = nt_data_chunk d (nat (nv_clusterSize v)) (j + i)"
    using fstore.rd_wr_other s by simp
qed

lemma wrote_after:
  assumes "wrote (f1, v1) n d [] s'" "took (nv_bitmap v) ls (nv_bitmap v1)" "same_but v ls (contents f1) (contents f)"
    "nv_base v1 = nv_base v" "nv_mftOff v1 = nv_mftOff v" "nv_recSize v1 = nv_recSize v"
  shows "wrote (f, v) n d ls s'"
proof -
  obtain f' v' where s': "s' = (f', v')" by (cases s')
  have o': "rec_off v1 n = rec_off v n" using assms(4-6) by (simp add: rec_off_def)
  have "took (nv_bitmap v1) [] (nv_bitmap v')" using assms(1) by (simp add: wrote_def s')
  then have "took (nv_bitmap v) ls (nv_bitmap v')" using assms(2) by (auto simp: took_def)
  then show ?thesis using assms(1,3,6) unfolding wrote_def s' prod.case o' same_but_def by auto
qed

lemma write_in_clusters:
  assumes "file_record v rec as" "slot_ok v n" "\<not> closed f" "\<not> int (length d) \<le> room v rec as" "d \<noteq> []" "length d < 2 ^ 62"
    "clusters_fit v" "slot_apart v n" "contiguous (nv_bitmap v) (clusters_for v d)" "run_room v rec as"
  shows "\<exists>s' ls. nt_writeFileData now n rec d (f, v) = (Inr (), s') \<and> length ls = clusters_for v d \<and> wrote (f, v) n d ls s'"
proof -
  have fr: "rec_attrs rec as" using assms(1) by (simp add: file_record_def)
  obtain r1 where r1: "removeAttr rec attrDATA [] = Inr r1" "rec_attrs r1 (without (hit attrDATA []) as)" "same_header r1 rec"
    "length r1 = length rec - removed (hit attrDATA []) as" "get32 r1 0x18 = get32 rec 0x18 - of_nat (removed (hit attrDATA []) as)"
    using removeAttr_ok [OF fr] by metis
  note room = removed_room [OF assms(1) r1(1,3,5,2)]
  have cs: "0 < nv_clusterSize v" using assms(7) by (simp add: clusters_fit_def)
  define k where "k = (int (length d) + nv_clusterSize v - 1) div nv_clusterSize v"
  have k: "0 \<le> k" "nat k = clusters_for v d" "int (length d) \<le> k * nv_clusterSize v"
  proof -
    show "0 \<le> k" unfolding k_def using cs by (intro pos_imp_zdiv_nonneg_iff [THEN iffD2]) simp_all
    show "nat k = clusters_for v d" by (simp add: k_def clusters_for_def)
    show "int (length d) \<le> k * nv_clusterSize v" 
    proof -
      obtain x where x: "x = int (length d) + nv_clusterSize v - 1" by simp
      have "x div nv_clusterSize v * nv_clusterSize v + x mod nv_clusterSize v = x" by (rule div_mult_mod_eq)
      moreover have "x mod nv_clusterSize v < nv_clusterSize v" using cs by simp
      ultimately show ?thesis unfolding k_def x [symmetric] using x by linarith
    qed
  qed
  have card: "k \<le> int (card (free_clusters (nv_bitmap v)))" using contiguous_card [OF assms(9)] k(1,2) by simp
  obtain ls runs bm c where a: "allocAndWrite d (f, v) = (Inr runs, (f\<lparr>contents := c\<rparr>, v\<lparr>nv_bitmap := bm, nv_dirty := True\<rparr>))"
    "took (nv_bitmap v) ls bm" "int (length ls) = k"
    "runs_in (int (8 * length (nv_bitmap v))) runs" "run_clusters runs = map int ls" "holds c v d 0 ls" "same_but v ls c (contents f)"
    "length runs = 1"
    using allocAndWrite_reads [OF assms(7,3,5,6)] card assms(9) unfolding k_def [symmetric] k(2) [symmetric] by metis
  let ?f = "f\<lparr>contents := c\<rparr>"
  let ?v = "v\<lparr>nv_bitmap := bm, nv_dirty := True\<rparr>"
  define b where "b = run_blob attrDATA runs (int (length d)) (nv_clusterSize v) (get16 r1 0x28)"
  define N where "N = pad8 (0x40 + length (encodeRunlist runs))"
  define fin where "fin = first_attr rec + length (concat (without (hit attrDATA []) as)) + N + 8"
  obtain r where "runs = [r]" using a(8) by (cases runs) auto
  then have "0x40 + length (encodeRunlist runs) \<le> 82" using encode_one_run runs_in_ok [OF a(4)] by simp
  then have N: "N \<le> 88" unfolding N_def by (intro pad8_le) simp_all
  have small: "pad8 (0x40 + length (encodeRunlist runs)) < 2 ^ 32" using N by (simp add: N_def)
  have ne: "attrDATA \<noteq> attrEND" by (simp add: attrDATA_def attrEND_def)
  have ds: "0 \<le> int (length d)" "int (length d) < 2 ^ 63" using assms(6) by simp_all
  note blob = run_blob_ok [OF small ne runs_in_ok [OF a(4)] ds, where cs = "nv_clusterSize v" and i = "get16 r1 0x28", folded b_def]
  have lb: "length b = N" using run_blob_fields(8) by (simp add: b_def N_def)
  have f1: "first_attr r1 = first_attr rec" using r1(3) by (simp add: same_header_def)
  obtain r2 where r2: "appendNonResidentAttr r1 attrDATA runs (int (length d)) (nv_clusterSize v) = Inr r2"
    "rec_attrs r2 (without (hit attrDATA []) as @ [b])" "same_header r2 r1" "length r2 = max (length r1) fin"
    using appendNonResidentAttr_ok [OF r1(2) small ne runs_in_ok [OF a(4)] ds, of "nv_clusterSize v"] unfolding fin_def N_def b_def f1 by metis
  have fit: "int fin \<le> nv_recSize v" using assms(10) N by (simp add: fin_def run_room_def)
  have rec1: "file_record ?v rec as" "slot_ok ?v n" "\<not> closed ?f" "rec_off ?v n = rec_off v n"
    using assms(1-3) file_record_cong [of ?v v] slot_ok_cong [of ?v v n] by simp_all
  have val: "attrValue (?f\<lparr>contents := write_bytes (contents ?f) (rec_off ?v n) bb\<rparr>) ((cache_record n r3 ?v)\<lparr>nv_dirty := True\<rparr>) b = Inr d"
    if bb: "length bb = nat (nv_recSize ?v)" for bb r3
  proof -
    let ?f' = "?f\<lparr>contents := write_bytes (contents ?f) (rec_off ?v n) bb\<rparr>"
    let ?v' = "(cache_record n r3 ?v)\<lparr>nv_dirty := True\<rparr>"
    have len: "length bm = length (nv_bitmap v)" using a(2) by (simp add: took_def)
    have fit': "clusters_fit ?v'" using assms(7) by (simp add: clusters_fit_def len)
    have "set ls \<subseteq> free_clusters (nv_bitmap v)" using a(2) by (auto simp: took_def free_clusters_def)
    then have "\<forall>l \<in> set ls. clu_off v l + nat (nv_clusterSize v) \<le> rec_off v n \<or> rec_off v n + length bb \<le> clu_off v l"
      using assms(8) bb by (auto simp: slot_apart_def)
    then have "holds (contents ?f') v d 0 ls" using holds_record [OF a(6) cs] by (simp add: rec1(4))
    then have h: "holds (contents ?f') ?v' d 0 ls" using holds_cong [of ?v' v] by simp
    have "readRuns ?f' ?v' runs (int (length d)) = Inr d"
    proof (rule readRuns_holds [OF fit' _ _ a(5) h])
      show "length d \<le> length ls * nat (nv_clusterSize ?v')"
        using k(3) a(3) cs by (simp add: nat_mult_distrib [symmetric] flip: of_nat_le_iff [where ?'a = int])
    qed (use assms(3,6) a(4) len in simp_all)
    then show ?thesis using blob(4) by simp
  qed
  have "\<exists>q r3 s'. put_in 0x18 (le32 (of_nat (length r2))) r2 = Inr q \<and> setStdInfoMtime now q = Inr r3 \<and>
    putRecord n r3 (?f, ?v) = (Inr (), s') \<and> wrote (?f, ?v) n d [] s'"
    by (rule finish_write [OF rec1(1-3) r1(3,4) r2(2,3,4)]; (rule val)?)
      (use fit in \<open>simp_all add: fin_def lb blob(2) N_def pad8_bounds\<close>)
  then obtain q r3 s' where e: "put_in 0x18 (le32 (of_nat (length r2))) r2 = Inr q" "setStdInfoMtime now q = Inr r3"
    "putRecord n r3 (?f, ?v) = (Inr (), s')" "wrote (?f, ?v) n d [] s'" by blast
  have "nt_writeFileData now n rec d (f, v) = (Inr (), s')"
    using r1(1) room assms(4) a(1) r2(1) e(1-3) by (simp add: nt_writeFileData_def readV_def bindS_def readS_def)
  moreover have "wrote (f, v) n d ls s'" by (rule wrote_after [OF e(4)]) (use a in simp_all)
  moreover have "length ls = clusters_for v d" using a(3) k(2) by simp
  ultimately show ?thesis by blast
qed

section \<open>The record of a new file\<close>

lemma new_header_ok:
  assumes "recSize \<in> {1024, 2048, 4096}"
  obtains h where "new_header n isDir recSize = Inr h" "length h = nat recSize" "take 4 h = bs ''FILE''" "get16 h 4 = 0x30"
    "get16 h 6 = of_int (recSize div 512 + 1)" "get16 h 0x14 = new_first_attr recSize"
    "get16 h 0x16 = (if isDir then mftFlagInUse OR mftFlagDir else mftFlagInUse)"
    "get32 h 0x1C = of_int recSize" "\<And>p. 0x30 \<le> p \<Longrightarrow> p < nat recSize \<Longrightarrow> h ! p = 0"
proof -
  define z where "z = copy_into (zeros (nat recSize)) 0 (bs ''FILE'')"
  define h where "h = puts [(0x04, le16 0x30), (0x06, le16 (of_int (quot recSize 512 + 1))), (0x10, le16 1), (0x12, le16 1),
      (0x14, le16 (new_first_attr recSize)), (0x16, le16 (if isDir then mftFlagInUse OR mftFlagDir else mftFlagInUse)),
      (0x1C, le32 (of_int recSize)), (0x2C, le32 (ucast n))] z"
  have r: "1024 \<le> nat recSize" "0 \<le> recSize" "quot recSize 512 = recSize div 512" using assms by auto
  have lz: "length z = nat recSize" by (simp add: z_def)
  show thesis
  proof (rule that [of h])
    have "make_bytes recSize = Inr (zeros (nat recSize))" using r by (simp add: make_bytes_def)
    moreover have "copy_at 0 (bs ''FILE'') (zeros (nat recSize)) = Inr z" unfolding z_def copy_at_def by (rule if_P) simp
    moreover have "puts_at [(0x04, le16 0x30), (0x06, le16 (of_int (quot recSize 512 + 1))), (0x10, le16 1), (0x12, le16 1),
      (0x14, le16 (new_first_attr recSize)), (0x16, le16 (if isDir then mftFlagInUse OR mftFlagDir else mftFlagInUse)),
      (0x1C, le32 (of_int recSize)), (0x2C, le32 (ucast n))] z = Inr h"
      unfolding h_def by (rule puts_at_ok) (use r lz in auto)
    ultimately show "new_header n isDir recSize = Inr h" unfolding new_header_def by (simp only: bindR_simps)
    show "length h = nat recSize" by (simp add: h_def lz)
    show "take 4 h = bs ''FILE''"
    proof -
      have "sub h 0 4 = bs ''FILE''" using r lz by (simp add: h_def sub_copy_other) (simp add: z_def)
      then show ?thesis by (simp add: sub_def)
    qed
    show "get16 h 4 = 0x30" "get16 h 6 = of_int (recSize div 512 + 1)" "get16 h 0x14 = new_first_attr recSize"
      "get16 h 0x16 = (if isDir then mftFlagInUse OR mftFlagDir else mftFlagInUse)"
      by (rule sub_get16; use r lz in \<open>simp add: h_def sub_copy_other\<close>)+
    show "get32 h 0x1C = of_int recSize"
      by (rule sub_get32; use r lz in \<open>simp add: h_def sub_copy_other\<close>)
    show "h ! p = 0" if "0x30 \<le> p" "p < nat recSize" for p
      using that r lz by (simp add: h_def z_def nth_copy_into zeros_def)
  qed
qed

subsection \<open>The first attribute\<close>

text \<open>The end mark is the first thing an appended attribute overwrites, so it need not be there.\<close>

lemma append_at_marked:
  assumes "off + 4 \<le> length rec" "header = (0, le32 ty) # hs"
  shows "append_at (copy_into rec off (le32 e)) off n header body = append_at rec off n header body"
proof -
  have "copy_into (copy_into rec off (le32 e) @ zeros k) off (le32 ty) = copy_into (rec @ zeros k) off (le32 ty)" for k
  proof -
    have "copy_into rec off (le32 e) @ zeros k = copy_into (rec @ zeros k) off (le32 e)" using assms(1) by (simp add: copy_into_left)
    then show ?thesis using assms(1) by simp
  qed
  then show ?thesis by (simp add: append_at_def assms(2) put_in_def Let_def)
qed

lemma appendResidentAttrAt_end: "rec_attrs rec as \<Longrightarrow> appendResidentAttrAt rec (first_attr rec + length (concat as)) ty value = appendResidentAttr rec ty value"
  by (simp add: appendResidentAttr_def attrs_end_attrs)

lemma copy_into_same: "sub b i (length d) = d \<Longrightarrow> i + length d \<le> length b \<Longrightarrow> copy_into b i d = b"
proof (rule nth_equalityI)
  fix j assume s: "sub b i (length d) = d" "i + length d \<le> length b" and "j < length (copy_into b i d)"
  have "d ! (j - i) = b ! j" if "i \<le> j" "j < i + length d"
    using that s(2) arg_cong [OF s(1), of "\<lambda>x. x ! (j - i)"] by simp
  then show "copy_into b i d ! j = b ! j" using \<open>j < _\<close> by (simp add: nth_copy_into)
qed simp

text \<open>Writing the end mark and the used size again changes nothing.\<close>

lemma close_record:
  assumes "rec_attrs rec as" "get32 rec 0x18 = of_nat (e + 8)" "e = first_attr rec + length (concat as)"
  shows "puts_at [(e, le32 attrEND), (e + 4, le32 0), (0x18, le32 (of_nat (e + 8)))] rec = Inr rec"
proof -
  obtain k where k: "4 \<le> k" "drop (first_attr rec) rec = concat as @ le32 attrEND @ zeros k"
    using assms(1) by (auto simp: rec_attrs_def attrs_at_def)
  have len: "e + 8 \<le> length rec" "0x30 \<le> length rec" using rec_attrs_len [OF assms(1)] by (simp_all add: assms(3))
  have d: "drop e rec = le32 attrEND @ zeros k"
  proof -
    have "drop e rec = drop (length (concat as)) (drop (first_attr rec) rec)" by (simp add: assms(3) add.commute)
    then show ?thesis by (simp add: k(2))
  qed
  have z: "le32 0 = zeros 4" by (simp add: le32_def zeros_def numeral_eq_Suc)
  have "sub rec e 4 = le32 attrEND" by (simp add: sub_def d)
  moreover have "drop (e + 4) rec = zeros k"
  proof -
    have "drop (e + 4) rec = drop 4 (drop e rec)" by (simp add: add.commute)
    then show ?thesis by (simp add: d)
  qed
  then have "sub rec (e + 4) 4 = le32 0" using k(1) by (simp add: sub_def z zeros_def)
  moreover have "sub rec 0x18 4 = le32 (of_nat (e + 8))"
  proof -
    have "le32 (get32 rec 0x18) = sub rec 0x18 4" using len by (intro le32_get32) simp
    then show ?thesis by (simp only: assms(2))
  qed
  ultimately have "copy_into rec e (le32 attrEND) = rec" "copy_into rec (e + 4) (le32 0) = rec" "copy_into rec 0x18 (le32 (of_nat (e + 8))) = rec"
    using len by (simp_all add: copy_into_same del: of_nat_add)
  then show ?thesis using len by (simp add: put_in_def del: of_nat_add)
qed

lemma resident_std:
  assumes "pad8 (24 + length value) < 2 ^ 32" "16 \<le> length value"
  shows "std_ok (resident_blob ty value i)"
  using resident_blob_fields [OF assms(1), of ty i] pad8_bounds(1) [of "24 + length value"] assms(2)
  by (simp add: std_ok_def a_nlen_def)

subsection \<open>New files\<close>

text \<open>The name an attribute value of type \<open>$FILE_NAME\<close> holds, and the parent it refers to.\<close>

lemma file_name_fields:
  fixes nm :: gostr
  defines "u \<equiv> length (utf16_units nm)"
  assumes "u \<le> 255"
  shows "length (buildFileNameAttr now nm par fa) = 66 + 2 * u" "buildFileNameAttr now nm par fa ! 64 = of_nat u"
    "buildFileNameAttr now nm par fa ! 65 = 3" "sub (buildFileNameAttr now nm par fa) 66 (2 * u) = units_bytes (utf16_units nm)"
    "get64 (buildFileNameAttr now nm par fa) 0 = par OR push_bit 48 1" "get32 (buildFileNameAttr now nm par fa) 56 = fa"
proof -
  have l: "length (units_bytes (utf16_units nm)) = 2 * u" by (simp add: u_def)
  note d = buildFileNameAttr_def Let_def u_def [symmetric] sub_copy_other
  show "length (buildFileNameAttr now nm par fa) = 66 + 2 * u" by (simp add: d)
  show "buildFileNameAttr now nm par fa ! 64 = of_nat u" by (rule sub_byte) (use l in \<open>simp add: d\<close>)
  show "buildFileNameAttr now nm par fa ! 65 = 3" by (rule sub_byte) (use l in \<open>simp add: d\<close>)
  show "sub (buildFileNameAttr now nm par fa) 66 (2 * u) = units_bytes (utf16_units nm)" using l by (simp add: d)
  show "get64 (buildFileNameAttr now nm par fa) 0 = par OR push_bit 48 1"
    by (subst c64.get_local) (use l c64.get_enc in \<open>simp_all add: d\<close>)
  show "get32 (buildFileNameAttr now nm par fa) 56 = fa" by (rule sub_get32) (use l in \<open>simp add: d\<close>)
qed

lemma new_first: "recSize \<in> {1024, 2048, 4096} \<Longrightarrow> unat (new_first_attr recSize) \<in> {56, 64, 72}"
  by (auto simp: new_first_attr_def)

lemma buildNewRecord_file:
  assumes "nv_recSize v \<in> {1024, 2048, 4096}" "length (utf16_units nm) \<le> 255"
  obtains rec i j where "buildNewRecord now n nm par False (nv_recSize v) = Inr rec"
    "file_record v rec [resident_blob attrSTANDARD_INFORMATION (std_info_value now faArchive) i,
                        resident_blob attrFILE_NAME (buildFileNameAttr now nm par faArchive) j]"
    "get16 rec 0x16 = mftFlagInUse" "uint (get32 rec 0x18) \<le> 776"
proof -
  define first where "first = unat (new_first_attr (nv_recSize v))"
  define V1 where "V1 = std_info_value now faArchive"
  define V2 where "V2 = buildFileNameAttr now nm par faArchive"
  define N where "N = nat (nv_recSize v)"
  have rs: "1024 \<le> N" "N \<le> 4096" "nv_recSize v = int N" "8 dvd N" using assms(1) by (auto simp: N_def)
  have fi: "56 \<le> first" "first \<le> 72" "8 dvd first" using new_first [OF assms(1)] by (auto simp: first_def)
  obtain h where h: "new_header n False (nv_recSize v) = Inr h" "length h = N" "take 4 h = bs ''FILE''" "get16 h 4 = 0x30"
    "get16 h 6 = of_int (nv_recSize v div 512 + 1)" "get16 h 0x14 = new_first_attr (nv_recSize v)" "get16 h 0x16 = mftFlagInUse"
    "get32 h 0x1C = of_int (nv_recSize v)" "\<And>p. 0x30 \<le> p \<Longrightarrow> p < N \<Longrightarrow> h ! p = 0"
    using new_header_ok [OF assms(1), of n False] unfolding N_def by auto
  define m where "m = copy_into h first (le32 attrEND)"
  have mh: "m ! p = h ! p" if "p < 0x30" for p using that fi rs by (simp add: m_def nth_copy_into h(2))
  have lm: "length m = N" by (simp add: m_def h(2))
  have fm: "first_attr m = first" by (simp add: first_attr_def get16_def mh) (simp add: first_def h(6) [symmetric] get16_def)
  have m0: "rec_attrs m []"
  proof -
    have "drop first m = le32 attrEND @ zeros (N - first - 4)"
      using fi rs h(9) by (intro nth_equalityI) (auto simp: lm m_def nth_copy_into nth_append h(2) zeros_def)
    moreover have "4 \<le> N - first - 4" using fi rs by linarith
    ultimately show ?thesis using fi by (auto simp: rec_attrs_def fm attrs_at_def)
  qed
  have V: "length V1 = 72" "length V2 \<le> 576" using file_name_fields(1) [OF assms(2)] assms(2) by (simp_all add: V1_def V2_def std_info_value_def Let_def)
  have p: "pad8 (24 + length V1) = 96" "pad8 (24 + length V2) \<le> 600" using V pad8_le [of 600 "24 + length V2"] by (simp_all add: pad8_def)
  have small: "pad8 (24 + length V1) < 2 ^ 32" "pad8 (24 + length V2) < 2 ^ 32" using p by simp_all
  have ne: "attrSTANDARD_INFORMATION \<noteq> attrEND" "attrFILE_NAME \<noteq> attrEND" by (simp_all add: attrSTANDARD_INFORMATION_def attrFILE_NAME_def attrEND_def)
  define b1 where "b1 = resident_blob attrSTANDARD_INFORMATION V1 (get16 m 0x28)"
  obtain r1 where r1: "appendResidentAttr m attrSTANDARD_INFORMATION V1 = Inr r1" "rec_attrs r1 [b1]" "same_header r1 m" "length r1 = N"
    using appendResidentAttr_ok [OF m0 small(1) ne(1)] fi rs unfolding fm lm p(1) b1_def by (auto simp: max_def)
  have a1: "appendResidentAttrAt h first attrSTANDARD_INFORMATION V1 = Inr r1"
  proof -
    have "appendResidentAttrAt m first attrSTANDARD_INFORMATION V1 = Inr r1" using r1(1) appendResidentAttrAt_end [OF m0] by (simp add: fm)
    then show ?thesis unfolding appendResidentAttrAt_def Let_def m_def using fi rs h(2) by (subst (asm) append_at_marked) simp_all
  qed
  define b2 where "b2 = resident_blob attrFILE_NAME V2 (get16 r1 0x28)"
  have f1: "first_attr r1 = first" using r1(3) fm by (simp add: same_header_def)
  have lb: "length b1 = 96" "length b2 = pad8 (24 + length V2)" using resident_blob_fields(8) small p(1) by (simp_all add: b1_def b2_def)
  define e where "e = first + 96 + length b2"
  obtain r2 where r2: "appendResidentAttr r1 attrFILE_NAME V2 = Inr r2" "rec_attrs r2 [b1, b2]" "same_header r2 r1" "length r2 = N" "get32 r2 0x18 = of_nat (e + 8)"
    using appendResidentAttr_ok [OF r1(2) small(2) ne(2)] fi rs p(2) r1(4) lb unfolding f1 b2_def e_def by (auto simp: max_def)
  have n1: "nextAttrOffset r1 first = first + 96" using nextAttrOffset_attrs [of r1 first "[b1]"] r1(2) f1 lb(1) by (simp add: rec_attrs_def)
  have a2: "appendResidentAttrAt r1 (first + 96) attrFILE_NAME V2 = Inr r2" using appendResidentAttrAt_end [OF r1(2)] r2(1) f1 lb by simp
  have f2: "first_attr r2 = first" using r2(3) f1 by (simp add: same_header_def)
  have n2: "nextAttrOffset r2 (first + 96) = e"
  proof -
    have "attrs_at r2 (first + length (concat [b1])) [b2]" using attrs_at_app [of r2 first "[b1]" "[b2]"] r2(2) f2 by (simp add: rec_attrs_def)
    then show ?thesis using nextAttrOffset_attrs lb by (simp add: e_def)
  qed
  have e: "e = first_attr r2 + length (concat [b1, b2])" by (simp add: e_def f2 lb)
  note cl = close_record [OF r2(2,5) e]
  show thesis
  proof (rule that [of r2 "get16 m 0x28" "get16 r1 0x28"])
    show "buildNewRecord now n nm par False (nv_recSize v) = Inr r2"
      using h(1) a1 n1 a2 n2 cl unfolding buildNewRecord_def Let_def first_def [symmetric] file_attrs_def if_False V1_def V2_def
      by (simp del: puts_at.simps of_nat_add)
    have sh: "same_header r2 m" using r2(3) r1(3) by (rule same_header_trans)
    have n: "r2 ! q = h ! q" if "q < 0x18 \<or> 0x1C \<le> q \<and> q < 0x28" for q
      using sh that fi mh by (auto simp: same_header_def fm)
    show "get16 r2 0x16 = mftFlagInUse" unfolding h(7) [symmetric] by (simp add: get16_def n)
    have "e + 8 \<le> 776" using fi p lb(2) by (simp add: e_def)
    moreover from this have "unat (of_nat (e + 8) :: u32) = e + 8" by (intro unat_of_nat32) simp
    ultimately show "uint (get32 r2 0x18) \<le> 776" unfolding r2(5) uint_nat by linarith
    show "file_record v r2 [resident_blob attrSTANDARD_INFORMATION (std_info_value now faArchive) (get16 m 0x28),
        resident_blob attrFILE_NAME (buildFileNameAttr now nm par faArchive) (get16 r1 0x28)]"
      unfolding V1_def [symmetric] V2_def [symmetric] b1_def [symmetric] b2_def [symmetric] file_record_def
    proof (intro conjI)
      have g: "get16 r2 4 = 0x30" "get16 r2 6 = of_int (nv_recSize v div 512 + 1)" "get32 r2 0x1C = of_int (nv_recSize v)"
        using h(4,5,8) by (simp_all add: get16_def get32_def n)
      have u: "usa_off r2 = 48" "usa_cnt r2 = N div 512 + 1" "48 + 2 * (N div 512 + 1) \<le> first"
        using g(1,2) assms(1) by (auto simp: usa_off_def usa_cnt_def first_def new_first_attr_def N_def)
      show "rec_attrs r2 [b1, b2]" by (rule r2(2))
      have "\<forall>q < 4. r2 ! q = h ! q" using n by simp
      then show "take 4 r2 = bs ''FILE''" using h(2) r2(4) rs unfolding h(3) [symmetric] by (intro nth_equalityI) auto
      show "48 \<le> usa_off r2" "1 \<le> usa_cnt r2" by (simp_all add: u)
      show "usa_off r2 + 2 * usa_cnt r2 \<le> min 510 (first_attr r2)" using u fi(2) by (simp add: f2)
      show "512 * int (usa_cnt r2) \<le> nv_recSize v + 512" using rs(3) by (simp add: u)
      show "int (length r2) \<le> nv_recSize v" by (simp add: r2(4) rs(3))
      show "nv_recSize v < 2 ^ 32" using assms(1) by auto
      show "get32 r2 0x1C = of_int (nv_recSize v)" by (rule g(3))
      have es: "e + 8 \<le> N" "8 dvd e + 8"
        using rs fi p lb(2) by (simp_all add: e_def lb(2) pad8_bounds)
      then have "unat (of_nat (e + 8) :: u32) = e + 8" using rs(2) by (intro unat_of_nat32) simp
      then have ue: "unat (get32 r2 0x18) = e + 8" by (simp only: r2(5))
      show "first_attr r2 + length (concat [b1, b2]) + 8 \<le> unat (get32 r2 0x18)" unfolding ue using e by simp
      show "uint (get32 r2 0x18) \<le> nv_recSize v" using es(1) rs(3) by (simp only: uint_nat ue)
      show "8 dvd unat (get32 r2 0x18)" unfolding ue by (rule es(2))
      show "8 dvd nv_recSize v" using assms(1) by auto
      show "8 dvd length r2" using rs(4) by (simp add: r2(4))
      show "8 dvd first_attr r2" using fi(3) by (simp add: f2)
      show "\<forall>a \<in> set [b1, b2]. 8 dvd length a" by (simp add: lb pad8_bounds)
      have t: "a_type b1 = attrSTANDARD_INFORMATION" "a_type b2 = attrFILE_NAME"
        using resident_blob_ok(2) small ne by (simp_all add: b1_def b2_def)
      have "std_ok b1" unfolding b1_def using small(1) V(1) by (intro resident_std) auto
      then show "\<forall>a \<in> set [b1, b2]. hit attrSTANDARD_INFORMATION [] a \<longrightarrow> std_ok a"
        using t by (simp add: hit_def attrSTANDARD_INFORMATION_def attrFILE_NAME_def)
      show "length (filter (hit attrDATA []) [b1, b2]) \<le> 1"
        using t by (simp add: hit_def attrDATA_def attrSTANDARD_INFORMATION_def attrFILE_NAME_def)
    qed
  qed
qed

end
