(* ===== verification/NtfsProps.thy ===== *)
theory NtfsProps
  imports NtfsWritten
begin

text \<open>
  Properties of the NTFS driver: the run lists of attributes, and the data of files.
\<close>

text \<open>
  C28. A run list is decoded to the runs it was encoded from, whatever follows its end mark.  The runs
  are those that \<open>run_ok\<close> admits: fewer than \<open>2 ^ 63\<close> clusters, at a cluster number below \<open>2 ^ 63\<close>, or
  \<open>-1\<close> for a sparse run; they may be in any order, so that the encoded differences may be negative.
\<close>

theorem runlist_round_trip:
  assumes "\<forall>r \<in> set rs. run_ok r"
  shows "decodeRunlist (encodeRunlist rs @ rest) = Inr rs"
  using assms by (rule decode_encode_runlist)

theorem runlist_round_trip_witness:
  "decodeRunlist (encodeRunlist [\<lparr>rn_lcn = 1000, rn_length = 5\<rparr>, \<lparr>rn_lcn = -1, rn_length = 3\<rparr>, \<lparr>rn_lcn = 20, rn_length = 300\<rparr>] @ [7, 7]) =
     Inr [\<lparr>rn_lcn = 1000, rn_length = 5\<rparr>, \<lparr>rn_lcn = -1, rn_length = 3\<rparr>, \<lparr>rn_lcn = 20, rn_length = 300\<rparr>]"
  by (rule runlist_round_trip) (simp add: run_ok_def)

text \<open>
  C26. Writing the data of an NTFS file.  The record is a well-formed record of a file with its slot in
  the master file table, and the data either fits the record behind its other attributes (\<open>room\<close>), or is
  put into clusters: then the bitmap must have a contiguous free run that is long enough, the free
  clusters lie inside the 64-bit offsets and apart from the slot of the record, and the record has room
  for an attribute with one run.  The write succeeds, and both the cached record and the record read
  back from its slot on disk, update sequence undone, lead to exactly the data.  The clusters taken were
  free, and are the only ones marked in the bitmap; outside of them and of the slot no byte of the image
  changes.
\<close>

theorem ntfs_write_reads_back:
  assumes "file_record v rec as" "slot_ok v n" "\<not> closed f"
    and "int (length d) \<le> room v rec as \<or>
      d \<noteq> [] \<and> length d < 2 ^ 62 \<and> clusters_fit v \<and> slot_apart v n \<and> contiguous (nv_bitmap v) (clusters_for v d) \<and> run_room v rec as"
  shows "\<exists>f' v' rec' disk ls. nt_writeFileData now n rec d (f, v) = (Inr (), (f', v')) \<and>
    getRecord n (f', v') = (Inr rec', (f', v')) \<and> file_bytes f' v' rec' = Inr d \<and>
    readRawRecord f' v' n = Inr disk \<and> file_bytes f' v' disk = Inr d \<and>
    length ls = (if int (length d) \<le> room v rec as then 0 else clusters_for v d) \<and> took (nv_bitmap v) ls (nv_bitmap v') \<and>
    length (contents f) \<le> length (contents f') \<and>
    (\<forall>p < length (contents f). (p < rec_off v n \<or> rec_off v n + nat (nv_recSize v) \<le> p) \<and>
       (\<forall>l \<in> set ls. p < clu_off v l \<or> clu_off v l + nat (nv_clusterSize v) \<le> p) \<longrightarrow> contents f' ! p = contents f ! p)"
proof -
  have "\<exists>s' ls. nt_writeFileData now n rec d (f, v) = (Inr (), s') \<and> wrote (f, v) n d ls s' \<and>
      length ls = (if int (length d) \<le> room v rec as then 0 else clusters_for v d)"
  proof (cases "int (length d) \<le> room v rec as")
    case True
    then show ?thesis using write_resident [OF assms(1-3) True, of now] by force
  next
    case False
    then show ?thesis using write_in_clusters [OF assms(1-3) False, of now] assms(4) by auto
  qed
  then obtain f' v' ls where w: "nt_writeFileData now n rec d (f, v) = (Inr (), (f', v'))" "wrote (f, v) n d ls (f', v')"
    "length ls = (if int (length d) \<le> room v rec as then 0 else clusters_for v d)" by force
  then show ?thesis unfolding wrote_def prod.case by metis
qed

text \<open>A volume of 64 clusters.  A record is built for a new file, and the file is written.\<close>

definition small_ntfs :: ntfsVolume where
  "small_ntfs = \<lparr>nv_base = 0, nv_size = 65536, nv_clusterSize = 1024, nv_recSize = 1024, nv_idxBlockSize = 1024, nv_mftOff = 4096,
     nv_totalClusters = 64, nv_mftCache = [], nv_bitmap = 255 # 255 # 255 # 255 # 255 # replicate 3 0, nv_mftBitmap = [], nv_dirty = False\<rparr>"

definition small_ntfs_disk :: gofile where
  "small_ntfs_disk = \<lparr>contents = zeros 65536, closed = False\<rparr>"

definition small_now :: gotime where
  "small_now = Some 1709209810"

theorem ntfs_write_reads_back_witness:
  "\<exists>rec f' v' rec' disk. buildNewRecord small_now 30 (bs ''a.txt'') 5 False 1024 = Inr rec \<and>
     nt_writeFileData small_now 30 rec [1, 2, 3] (small_ntfs_disk, small_ntfs) = (Inr (), (f', v')) \<and>
     getRecord 30 (f', v') = (Inr rec', (f', v')) \<and> file_bytes f' v' rec' = Inr [1, 2, 3] \<and>
     readRawRecord f' v' 30 = Inr disk \<and> file_bytes f' v' disk = Inr [1, 2, 3]"
proof -
  have r: "nv_recSize small_ntfs = 1024" by (simp add: small_ntfs_def)
  have "length (utf16_units (bs ''a.txt'')) \<le> 255" by (simp add: utf16_units_def runes_def decode_rune_def utf16_pair_def)
  then obtain rec i j where n: "buildNewRecord small_now 30 (bs ''a.txt'') 5 False 1024 = Inr rec"
    "file_record small_ntfs rec [resident_blob attrSTANDARD_INFORMATION (std_info_value small_now faArchive) i,
       resident_blob attrFILE_NAME (buildFileNameAttr small_now (bs ''a.txt'') 5 faArchive) j]" "uint (get32 rec 0x18) \<le> 776"
    using buildNewRecord_file [of small_ntfs "bs ''a.txt''" small_now 30 5] unfolding r by blast
  have s: "slot_ok small_ntfs 30" "\<not> closed small_ntfs_disk" by (simp_all add: slot_ok_def small_ntfs_def small_ntfs_disk_def)
  have "int (length [1, 2, 3 :: u8]) \<le> room small_ntfs rec as" for as using n(3) r by (simp add: room_def)
  then show ?thesis using ntfs_write_reads_back [OF n(2) s, of "[1, 2, 3]" small_now] n(1) by blast
qed

end
