(* ===== verification/Spec2Isabelle.thy ===== *)
theory Spec2Isabelle
  imports DiskProps FatProps FatDirProps FatWrite MkfsProps MkfsExt4Props Ext4Flush Ext4Props MkfsNtfs NtfsProps
begin

text \<open>
  A model of \<open>diskimg\<close>, a Go library that reads and builds raw disk images.

  The program.  An image file is attached (\<open>attach.go\<close>): its partition table is parsed
  (\<open>partition/mbr\<close>, \<open>partition/gpt\<close>) and turned into a map of regions (\<open>region.go\<close>).  A partition
  is mounted (\<open>mount.go\<close>) by detecting its filesystem (\<open>fs/fstype\<close>) and opening the driver of that
  type (\<open>fat32\<close> and others) on its byte range; changes stay staged in the driver until it is
  unmounted.  Detaching (\<open>detach.go\<close>) unmounts every volume and copies the regions to an output
  file.  A new image is made by the builder (\<open>builder.go\<close>): partitions are added, a GPT is
  committed, and formatters (\<open>mkfs\<close>) write to a partition through a window that is to keep them inside it.

  Conventions (\<open>Prelude\<close>, \<open>GoBytes\<close>, \<open>GoFile\<close>, \<open>GoText\<close>, \<open>GoHash\<close>).  Sized Go integers are words;
  \<open>int\<close> and \<open>int64\<close> are integers, with the wrap-around written out where a value from a disk can
  reach it.  A fallible function returns \<open>goerr + 'a\<close>, an operation its result and the state it
  leaves.  A run-time panic and a loop without end are errors of their own, so that the theorems
  which give a result also exclude them.  A file is its contents with a flag for being closed;
  \<open>ReadAt\<close>, \<open>WriteAt\<close>, section readers and \<open>encoding/binary\<close>, \<open>strings\<close>, \<open>path\<close>, \<open>utf16\<close>, \<open>crc32\<close> are
  modelled as the source uses them.  Memory is unbounded: an allocation fails for a negative length, not for
  one beyond the limits of the allocator.  The Unicode tables behind \<open>strings.ToUpper\<close> and
  \<open>EqualFold\<close>, the clock, random numbers and the iteration order of Go maps are arguments.

  The theories.
  \<^item> \<open>Partitions\<close>: \<open>Detect\<close>, \<open>mbr.Parse\<close>, \<open>gpt.Parse\<close>.  \<open>Regions\<close>: the region map and \<open>copyRange\<close>.
    \<open>Image\<close>: \<open>Attach\<close>, \<open>Mount\<close> with its cache, \<open>Detach\<close>; the locale \<open>volume_driver\<close> is the contract
    of \<open>fs.Volume\<close> on which detaching rests, interpreted by the FAT driver.
  \<^item> \<open>Builder\<close>, \<open>GptEncoding\<close>, \<open>BuilderCorrect\<close>: the GPT builder; that a committed table parses back,
    and that the window \<open>sectionRWS\<close> writes nothing outside its partition.
  \<^item> \<open>FatTable\<close> to \<open>FatFlush\<close>: the FAT12/16/32 driver (\<open>src/fat32\<close>): the boot sector, the packed table
    (\<open>FatBits\<close> shows that it is an array), allocation and chains (\<open>FatAlloc\<close>), clusters with staged
    sectors (\<open>FatStore\<close>, a store in the sense of the locale of \<open>GoFile\<close>), records and names
    (\<open>FatEntry\<close>, \<open>FatNames\<close>), directories and reading (\<open>FatDir\<close>), file data and the records it is
    reached by (\<open>FatData\<close>, \<open>FatFileData\<close>), a directory before and after its operations
    (\<open>FatDirScan\<close>), creation, removal and renaming (\<open>FatWrite\<close>), flushing (\<open>FatFlush\<close>) and what
    survives it (\<open>FatPersist\<close>).  \<open>FatSample\<close> is a concrete volume for the witnesses.
  \<^item> \<open>MkfsIO\<close>, \<open>MkfsFat32\<close>, \<open>MkfsExfat\<close>, \<open>MkfsExt4\<close>: the formatters of \<open>src/mkfs\<close>, with
    \<open>MkfsFat32Correct\<close> (the volume the FAT driver opens), \<open>MkfsExfatCorrect\<close> (layout and image),
    \<open>MkfsExt4Correct\<close> (the layout over natural numbers), \<open>MkfsExt4Image\<close> (the sequential writer and
    the places of all structures), \<open>MkfsExt4Decode\<close> (reading the structures back) and
    \<open>MkfsExt4Formatted\<close> (everything a formatted partition holds).
  \<^item> \<open>Ext4Open\<close>, \<open>Ext4Read\<close>, \<open>Ext4Alloc\<close>, \<open>Ext4Write\<close>, \<open>Ext4Ops\<close>, \<open>Ext4Flush\<close>: the ext4 driver (\<open>src/ext4\<close>),
    every operation of it.  A volume is a record of the superblock, the group descriptors and the
    staged blocks and inodes; the image is an argument, which only \<open>e4_Unmount\<close> changes.
  \<^item> Proofs about the driver: \<open>Ext4Store\<close> (blocks as a memory, inodes as bytes), \<open>Ext4Volume\<close> (consistent
    volumes; staged superblock and descriptors agree with memory), \<open>Ext4AllocCorrect\<close> and
    \<open>Ext4InodeAlloc\<close> (allocation), \<open>Ext4Tree\<close> (the extent tree as a list of blocks), \<open>Ext4FileState\<close>,
    \<open>Ext4FileWrite\<close>, \<open>Ext4FileData\<close> (the bytes of a file), \<open>Ext4Handle\<close> (a handle refines an array of bytes
    with a position; the locale \<open>simulation\<close>), \<open>Ext4Dir\<close> and \<open>Ext4Create\<close> (directories, new files),
    \<open>Ext4Persist\<close> (unmounting and opening again), \<open>Ext4Mkfs\<close> and \<open>Ext4Fresh\<close> (the volume the driver opens
    on a formatted partition).
  \<^item> \<open>GoRead\<close> (checked reads, UTF-16), \<open>MkfsNtfs\<close> (the NTFS formatter), and the NTFS driver (\<open>src/ntfs\<close>), every
    operation of it: \<open>NtfsOpen\<close> (boot sector, MFT records, run lists, attributes), \<open>NtfsRead\<close> (directory
    indices, path lookup), \<open>NtfsFile\<close> (handles and reading, links), \<open>NtfsRecord\<close> (editing and writing
    records), \<open>NtfsAlloc\<close> (bitmaps, index blocks), \<open>NtfsIndex\<close> (directory entries) and \<open>NtfsWrite\<close>.  The driver
    writes records and clusters at once, so its state is the image with the volume.
  \<^item> Proofs about the NTFS driver: \<open>NtfsCodec\<close> (run lists; update sequences, a record in its slot),
    \<open>NtfsAttrs\<close> (a record as a list of attributes, its edits, the values of attributes), \<open>NtfsData\<close> (allocation,
    data in clusters), \<open>NtfsContent\<close> and \<open>NtfsWritten\<close> (writing a file, the record of a new one).
  \<^item> \<open>DiskProps\<close>, \<open>FatProps\<close>, \<open>FatDirProps\<close>, \<open>MkfsProps\<close>, \<open>MkfsExt4Props\<close>, \<open>Ext4Props\<close>, \<open>NtfsProps\<close> and this theory state
    the properties, each with a witness.

  Bounds.  Loops that could follow a cyclic cluster chain have fuel: the number of clusters for
  reading a chain, where the code itself gives up, and the number of table entries for freeing,
  shown to be enough for every table whose links stay inside the volume.  The backup-group loop of
  ext4 has as many rounds as there are \<open>uint32\<close> values, so running out of them is running forever.
  The search of an extent tree has fuel \<open>2 ^ 48\<close>; the trees that the driver builds have two levels.
  The formatter theorems are for ext4 partitions of 16 MiB to 128 TiB, the FAT32 ones for less than
  \<open>2 ^ 32\<close> sectors, beyond which the sector counts of the code wrap.  The theorems on ext4 files are for
  files without holes of at most four leaves of extents, those on unmounting for the formatter's
  geometry (blocks of 4096, inodes of 256 and descriptors of 64 bytes).  The theorem on NTFS files is for data
  that fits the record or one run of free clusters.  The window of the builder is confined as long as positions and
  lengths stay below \<open>2 ^ 63\<close>; its boundary check wraps beyond.

  Not modelled.  The xfs and btrfs drivers, each a driver of its own that shares no code with those
  modelled; the command line (\<open>cmd\<close>), which only parses arguments and prints.  Concurrency is not modelled: the drivers hold one lock
  per operation.  The lock is part of the state only for \<open>RemoveAll\<close> of ext4, which takes it a second time.  A handle of an ext4
  file with a negative offset (from a size field of \<open>2 ^ 63\<close> or more) is not modelled.
\<close>

text \<open>
  C1. Detaching to an output file keeps the work done on a mounted FAT volume: the output is a byte
  for byte copy of the flushed image, the attached file itself receives the same bytes, and
  opening the partition of the copy gives back the volume with its table and the contents of
  every cluster.
\<close>

theorem Detach_remount:
  assumes "image_ok img" "table_ok img" "\<not> closed out0" "img_mounts img = [(i, v)]"
    and "flush_ok (img_f img) v" "map_order ord" "opened_from (img_f img) sz v" "geom_ok (img_f img) v"
  shows "\<exists>img' out'. Detach (Unmount ord) id (Some (Inr out0)) img = (Inr (), img', Some out') \<and>
    contents out' = contents (img_f img') \<and> length (contents out') = length (contents (img_f img)) \<and>
    fat_Open (out'\<lparr>closed := False\<rparr>) (v_start v) sz ft = Inr (v\<lparr>dirty := []\<rparr>) \<and>
    (\<forall>n. is_clus v n \<longrightarrow> readCluster (out'\<lparr>closed := False\<rparr>) (v\<lparr>dirty := []\<rparr>) n = readCluster (img_f img) v n)"
proof -
  have op: "\<not> closed (img_f img)" using assms(5) by (simp add: flush_ok_def)
  have t: "tiles 0 (img_regions img) (img_size img)" using image_tiles [OF assms(1,2)] .
  have sz: "img_size img = file_size (img_f img)" using assms(1) by (simp add: image_ok_def)
  have ok: "list_all (fat_vol_ok ord (img_f img)) (map snd (id (img_mounts img)))"
    using assms(4-6) by (simp add: fat_vol_ok_def)
  obtain f' v' where u: "Unmount ord (img_f img) v = (Inr (), f', v')" "fat_Open f' (v_start v) sz ft = Inr (v\<lparr>dirty := []\<rparr>)"
    "length (contents f') = length (contents (img_f img))" "\<forall>n. is_clus v n \<longrightarrow> readCluster f' (v\<lparr>dirty := []\<rparr>) n = readCluster (img_f img) v n"
    using remount_aux [OF assms(5-8), of ft] by blast
  have fa: "flush_all (Unmount ord) (map snd (id (img_mounts img))) (img_f img) = f'"
    using u(1) assms(4) by (simp add: flush_all_def)
  obtain img' out' where d: "Detach (Unmount ord) id (Some (Inr out0)) img = (Inr (), img', Some out')"
    "contents out' = contents (img_f img')" "contents (img_f img') = contents f'"
    using fat_driver.Detach_copy [where order = id, OF t sz op assms(3) ok] fa by auto
  have "closed f' = closed (img_f img)" using fat_driver.unm_closed [of ord "img_f img" v] u(1) by simp
  then have "out'\<lparr>closed := False\<rparr> = f'" using d(2,3) op by (cases out'; cases f') simp
  then show ?thesis using d u by auto
qed

definition sample_image :: "fatvol image" where
  "sample_image = \<lparr>img_f = sample_disk, img_size = 3584, img_isGPT = False, img_partitions = [whole_disk 3584],
     img_regions = buildRegions [whole_disk 3584] 3584 False, img_mounts = [(1, other_vol)]\<rparr>"

theorem Detach_remount_witness:
  "\<exists>img' out'. Detach (Unmount rev) id (Some (Inr \<lparr>contents = [], closed = False\<rparr>)) sample_image = (Inr (), img', Some out') \<and>
     fat_Open (out'\<lparr>closed := False\<rparr>) 0 3584 FAT12 = Inr (other_vol\<lparr>dirty := []\<rparr>)"
proof -
  have "image_ok sample_image" by (simp add: image_ok_def sample_image_def file_size_def sample_disk_def)
  moreover have "table_ok sample_image"
    by (simp add: table_ok_def sample_image_def parts_disjoint_def part_within_def usable_end_def whole_disk_def)
  moreover have "img_mounts sample_image = [(1, other_vol)]" "img_f sample_image = sample_disk" by (simp_all add: sample_image_def)
  moreover have "v_start other_vol = 0" by (simp add: other_vol_def sample_vol_def writeCluster_def)
  ultimately show ?thesis
    using Detach_remount [of sample_image "\<lparr>contents = [], closed = False\<rparr>" 1 other_vol rev 3584 FAT12]
      other_flush_ok other_geom rev_order by auto
qed

end
